(* ===== verification/JsPrelude.thy ===== *)
theory JsPrelude
  imports Main "HOL-Library.Code_Target_Nat"
begin

text \<open>
  Prelude of the development: the part of the JavaScript standard library that the modelled
  TypeScript sources call, as HOL functions on lists, with the lemmas the components share.

  A JavaScript string is the list of its code units. Components whose text is ASCII or Latin-1 use
  \<^typ>\<open>string\<close> (one \<^typ>\<open>char\<close> per code unit, U+0000 to U+00FF); the functions here
  are polymorphic in the element type, so that a component that needs the full range of code
  units can use them on lists of natural numbers. A JavaScript \<open>Set\<close> built from a list is the list
  without its later duplicates (insertion order), and an object used as a dictionary is
  an association list in insertion order with at most one entry for a key.
\<close>

named_theorems js_str \<open>facts on the string operations\<close>
named_theorems js_obj \<open>facts on objects as association lists\<close>

subsection \<open>Trimming\<close>

text \<open>White space as \<open>String.prototype.trim\<close> and \<open>\s\<close> see it, within U+0000 to U+00FF.\<close>

definition is_ws :: "char \<Rightarrow> bool" where
  "is_ws c \<longleftrightarrow> c \<in> {CHR 0x09, CHR 0x0A, CHR 0x0B, CHR 0x0C, CHR 0x0D, CHR 0x20, CHR 0xA0}"

definition trim_by :: "('a \<Rightarrow> bool) \<Rightarrow> 'a list \<Rightarrow> 'a list" where
  "trim_by p s = rev (dropWhile p (rev (dropWhile p s)))"

definition trim :: "string \<Rightarrow> string" where
  "trim = trim_by is_ws"

text \<open>A string that starts and ends with a non-space character, or is empty.\<close>

definition trimmed_by :: "('a \<Rightarrow> bool) \<Rightarrow> 'a list \<Rightarrow> bool" where
  "trimmed_by p s \<longleftrightarrow> s = [] \<or> (\<not> p (hd s) \<and> \<not> p (last s))"

abbreviation trimmed :: "string \<Rightarrow> bool" where
  "trimmed \<equiv> trimmed_by is_ws"

lemma trim_by_id: "trimmed_by p s \<Longrightarrow> trim_by p s = s"
proof -
  assume t: "trimmed_by p s"
  show ?thesis
  proof (cases "s = []")
    case True
    then show ?thesis by (simp add: trim_by_def)
  next
    case False
    with t have h: "\<not> p (hd s)" and l: "\<not> p (last s)" by (auto simp: trimmed_by_def)
    from False h have "dropWhile p s = s" by (cases s) auto
    moreover from False l have "dropWhile p (rev s) = rev s"
      by (cases s rule: rev_cases) auto
    ultimately show ?thesis by (simp add: trim_by_def)
  qed
qed

lemma trimmed_trim_by: "trimmed_by p (trim_by p s)"
proof (cases "trim_by p s = []")
  case True
  then show ?thesis by (simp add: trimmed_by_def)
next
  case False
  define u where "u = dropWhile p s"
  have tr: "trim_by p s = rev (dropWhile p (rev u))" by (simp add: trim_by_def u_def)
  with False have ne: "dropWhile p (rev u) \<noteq> []" by simp
  then have un: "u \<noteq> []" by auto
  have hu: "\<not> p (hd u)" using un unfolding u_def by (rule hd_dropWhile)
  have l: "\<not> p (last (trim_by p s))"
    using ne hd_dropWhile [OF ne] by (simp add: tr last_rev)
  have "rev (dropWhile p (rev u)) @ rev (takeWhile p (rev u)) = u"
    by (metis rev_append rev_rev_ident takeWhile_dropWhile_id)
  then have "hd (trim_by p s) = hd u"
    using ne tr by (metis False hd_append2)
  with hu l show ?thesis by (simp add: trimmed_by_def)
qed

lemma trim_by_idem [simp]: "trim_by p (trim_by p s) = trim_by p s"
  by (rule trim_by_id) (rule trimmed_trim_by)

lemma trim_idem [simp]: "trim (trim s) = trim s"
  by (simp add: trim_def)

lemma trim_id [js_str]: "trimmed s \<Longrightarrow> trim s = s"
  by (simp add: trim_def trim_by_id)

lemma trimmed_trim [js_str]: "trimmed (trim s)"
  by (simp add: trim_def trimmed_trim_by)

lemma trim_by_Nil [simp]: "trim_by p [] = []"
  by (simp add: trim_by_def)

lemma trim_Nil [simp]: "trim [] = []"
  by (simp add: trim_def)

lemma trim_by_eq_Nil: "trim_by p s = [] \<longleftrightarrow> (\<forall>c \<in> set s. p c)"
proof -
  have "dropWhile p s = [] \<or> \<not> p (hd (dropWhile p s))"
    using hd_dropWhile by blast
  then show ?thesis
    by (auto simp: trim_by_def dropWhile_eq_Nil_conv dest: set_dropWhileD)
      (metis dropWhile_eq_Nil_conv hd_in_set)
qed

lemma set_trim_by: "set (trim_by p s) \<subseteq> set s"
  by (auto simp: trim_by_def dest!: set_dropWhileD)

lemma length_trim_by: "length (trim_by p s) \<le> length s"
  unfolding trim_by_def by (metis length_dropWhile_le length_rev order_trans)

lemma length_trim: "length (trim s) \<le> length s"
  by (simp add: trim_def length_trim_by)

subsection \<open>Splitting and joining\<close>

text \<open>\<open>s.split(c)\<close> for a separator of one code unit, and \<open>xs.join(sep)\<close>.\<close>

fun split_on :: "'a \<Rightarrow> 'a list \<Rightarrow> 'a list list" where
  "split_on c [] = [[]]"
| "split_on c (x # xs) =
     (if x = c then [] # split_on c xs
      else (case split_on c xs of [] \<Rightarrow> [[x]] | w # ws \<Rightarrow> (x # w) # ws))"

fun join :: "'a list \<Rightarrow> 'a list list \<Rightarrow> 'a list" where
  "join sep [] = []"
| "join sep [w] = w"
| "join sep (w # v # ws) = w @ sep @ join sep (v # ws)"

lemma split_on_neq_Nil [simp]: "split_on c s \<noteq> []"
  by (induction s) (auto split: list.splits)

lemma split_on_no_sep: "c \<notin> set s \<Longrightarrow> split_on c s = [s]"
  by (induction s) auto

lemma split_on_append: "c \<notin> set w \<Longrightarrow> split_on c (w @ c # s) = w # split_on c s"
  by (induction w) (auto split: list.splits)

lemma join_Cons: "ws \<noteq> [] \<Longrightarrow> join sep (w # ws) = w @ sep @ join sep ws"
  by (cases ws) auto

lemma length_join_hd: "length w \<le> length (join sep (w # ws))"
  by (cases ws) auto

lemma split_on_join:
  "ws \<noteq> [] \<Longrightarrow> \<forall>w \<in> set ws. c \<notin> set w \<Longrightarrow> split_on c (join [c] ws) = ws"
proof (induction ws)
  case Nil
  then show ?case by simp
next
  case (Cons w ws)
  then show ?case
    by (cases ws) (auto simp: split_on_no_sep split_on_append)
qed

lemma join_Nil_sep: "join [] ws = concat ws"
  by (induction "[] :: 'a list" ws rule: join.induct) auto

lemma join_split_on: "join [c] (split_on c s) = s"
proof (induction s)
  case Nil
  then show ?case by simp
next
  case (Cons x s)
  then show ?case
    by (cases "split_on c s") (auto simp: join_Cons split: list.splits, case_tac list, auto)
qed

lemma split_on_no_sep_in: "w \<in> set (split_on c s) \<Longrightarrow> c \<notin> set w"
  by (induction s arbitrary: w) (auto split: if_splits list.splits)

lemma split_on_subset: "w \<in> set (split_on c s) \<Longrightarrow> set w \<subseteq> set s"
  by (induction s arbitrary: w) (auto split: if_splits list.splits, blast+)

text \<open>\<open>s.split(',').map((m) => m.trim()).filter(Boolean)\<close>, the sources' list-field idiom.\<close>

definition split_trim_filter :: "char \<Rightarrow> string \<Rightarrow> string list" where
  "split_trim_filter c s = filter (\<lambda>w. w \<noteq> []) (map trim (split_on c s))"

lemma split_trim_filter_sound:
  "w \<in> set (split_trim_filter c s) \<Longrightarrow> w \<noteq> [] \<and> trimmed w \<and> c \<notin> set w"
  using set_trim_by split_on_no_sep_in
  by (fastforce simp: split_trim_filter_def trim_def trimmed_trim_by)

lemma split_trim_filter_join:
  assumes "\<forall>w \<in> set ws. w \<noteq> [] \<and> trimmed w \<and> c \<notin> set w"
  shows "split_trim_filter c (join [c] ws) = ws"
proof (cases "ws = []")
  case True
  then show ?thesis by (simp add: split_trim_filter_def)
next
  case False
  with assms have "split_on c (join [c] ws) = ws" by (auto intro: split_on_join)
  moreover have "map trim ws = ws" using assms by (auto simp: trim_id intro: map_idI)
  ultimately show ?thesis using assms by (auto simp: split_trim_filter_def filter_id_conv)
qed

subsection \<open>Searching\<close>

definition starts_with :: "'a list \<Rightarrow> 'a list \<Rightarrow> bool" where
  "starts_with p s \<longleftrightarrow> take (length p) s = p"

definition ends_with :: "'a list \<Rightarrow> 'a list \<Rightarrow> bool" where
  "ends_with p s \<longleftrightarrow> starts_with (rev p) (rev s)"

text \<open>The text after a prefix, when the string has the prefix.\<close>

fun strip_prefix :: "'a list \<Rightarrow> 'a list \<Rightarrow> 'a list option" where
  "strip_prefix [] s = Some s"
| "strip_prefix (p # ps) [] = None"
| "strip_prefix (p # ps) (x # xs) = (if p = x then strip_prefix ps xs else None)"

text \<open>
  The split of a string at the first occurrence of a pattern, \<open>None\<close> when there is none:
  \<open>s.indexOf(p)\<close> is the length of the first component, \<open>s.includes(p)\<close> that there is one.
\<close>

fun cut_at :: "'a list \<Rightarrow> 'a list \<Rightarrow> ('a list \<times> 'a list) option" where
  "cut_at p [] = (if p = [] then Some ([], []) else None)"
| "cut_at p (x # xs) =
     (case strip_prefix p (x # xs) of
        Some rest \<Rightarrow> Some ([], rest)
      | None \<Rightarrow> map_option (\<lambda>(pre, rest). (x # pre, rest)) (cut_at p xs))"

definition str_includes :: "'a list \<Rightarrow> 'a list \<Rightarrow> bool" where
  "str_includes p s \<longleftrightarrow> cut_at p s \<noteq> None"

lemma strip_prefix_append [simp]: "strip_prefix p (p @ s) = Some s"
  by (induction p) auto

lemma strip_prefix_Some: "strip_prefix p s = Some r \<longleftrightarrow> s = p @ r"
  by (induction p s rule: strip_prefix.induct) auto

lemma strip_prefix_None: "strip_prefix p s = None \<longleftrightarrow> (\<forall>r. s \<noteq> p @ r)"
  using strip_prefix_Some [of p s] by (cases "strip_prefix p s") auto

lemma starts_with_iff: "starts_with p s \<longleftrightarrow> (\<exists>r. s = p @ r)"
  unfolding starts_with_def by (metis append_eq_conv_conj append_take_drop_id)

lemma starts_with_append [simp]: "starts_with p (p @ s)"
  by (auto simp: starts_with_iff)

lemma cut_at_Some: "cut_at p s = Some (a, b) \<Longrightarrow> s = a @ p @ b"
  by (induction s arbitrary: a)
    (auto simp: strip_prefix_Some split: option.splits if_splits)

lemma str_includes_iff: "str_includes p s \<longleftrightarrow> (\<exists>a b. s = a @ p @ b)"
proof
  assume "str_includes p s"
  then show "\<exists>a b. s = a @ p @ b" by (auto simp: str_includes_def dest: cut_at_Some)
next
  assume "\<exists>a b. s = a @ p @ b"
  then obtain a b where "s = a @ p @ b" by blast
  then have "cut_at p s \<noteq> None"
  proof (induction a arbitrary: s)
    case Nil
    then have sp: "strip_prefix p s = Some b" by simp
    show ?case
    proof (cases s)
      case Nil
      with sp show ?thesis by (cases p) auto
    next
      case (Cons y ys)
      with sp show ?thesis by simp
    qed
  next
    case (Cons x a)
    then show ?case by (auto split: option.splits)
  qed
  then show "str_includes p s" by (simp add: str_includes_def)
qed

lemma cut_at_None: "cut_at p s = None \<longleftrightarrow> (\<forall>a b. s \<noteq> a @ p @ b)"
  using str_includes_iff [of p s] by (auto simp: str_includes_def)

text \<open>
  The first occurrence is at the end of a text that does not contain the pattern, when the
  pattern's first character does not come back in it (so that it cannot overlap itself).
\<close>

lemma cut_at_first:
  assumes p: "p = c # ps" "c \<notin> set ps" and v: "\<not> str_includes p v"
  shows "cut_at p (v @ p @ r) = Some (v, r)"
  using v
proof (induction v)
  case Nil
  then show ?case using p by simp
next
  case (Cons y v)
  have "\<not> str_includes p v" using Cons.prems by (auto simp: str_includes_iff) (metis append_Cons)
  then have IH: "cut_at p (v @ p @ r) = Some (v, r)" by (rule Cons.IH)
  have "strip_prefix p (y # v @ p @ r) = None"
  proof (rule ccontr)
    assume "\<not> ?thesis"
    then obtain q where q: "y # v @ p @ r = p @ q" by (auto simp: strip_prefix_Some)
    show False
    proof (cases "length p \<le> length (y # v)")
      case True
      then have "y # v = p @ drop (length p) (y # v)"
        using q by (metis append_Cons append_eq_append_conv_if append_eq_conv_conj append_take_drop_id)
      then have "str_includes p (y # v)" by (metis append_Nil str_includes_iff)
      with Cons.prems show False by simp
    next
      case False
      then have len: "length v < length ps" using p by simp
      have "(y # v @ p @ r) ! Suc (length v) = c" using p by (simp add: nth_append)
      moreover have "(p @ q) ! Suc (length v) = ps ! length v" using p len by (simp add: nth_append)
      ultimately have "c \<in> set ps" using q len by (metis nth_mem)
      with p show False by simp
    qed
  qed
  with IH show ?case by simp
qed

text \<open>\<open>s.slice(i, j)\<close> for \<open>0 \<le> i\<close> and \<open>0 \<le> j\<close>.\<close>

definition slice :: "nat \<Rightarrow> nat \<Rightarrow> 'a list \<Rightarrow> 'a list" where
  "slice i j s = take (j - i) (drop i s)"

text \<open>\<open>s.slice(-n)\<close> for \<open>0 < n\<close>: the last \<open>n\<close> code units, all of them when there are fewer.\<close>

definition slice_last :: "nat \<Rightarrow> 'a list \<Rightarrow> 'a list" where
  "slice_last n s = drop (length s - n) s"

subsection \<open>Sets in insertion order\<close>

fun uniq :: "'a list \<Rightarrow> 'a list" where
  "uniq [] = []"
| "uniq (x # xs) = x # filter (\<lambda>y. y \<noteq> x) (uniq xs)"

lemma set_uniq [simp]: "set (uniq xs) = set xs"
  by (induction xs) auto

lemma distinct_uniq [simp]: "distinct (uniq xs)"
  by (induction xs) auto

lemma uniq_id: "distinct xs \<Longrightarrow> uniq xs = xs"
  by (induction xs) (auto simp: filter_id_conv)

lemma uniq_idem [simp]: "uniq (uniq xs) = uniq xs"
  by (rule uniq_id) simp

lemma length_uniq_le: "length (uniq xs) \<le> length xs"
  by (induction xs) (auto intro: order_trans [OF length_filter_le])

lemma uniq_filter: "uniq (filter P xs) = filter P (uniq xs)"
  by (induction xs) (auto simp: filter_filter conj_commute intro: filter_cong)

lemma uniq_append_subset: "set ys \<subseteq> set xs \<Longrightarrow> uniq (xs @ ys) = uniq xs"
proof (induction xs arbitrary: ys)
  case Nil
  then show ?case by simp
next
  case (Cons x xs)
  have "filter (\<lambda>y. y \<noteq> x) (uniq (xs @ ys)) = uniq (filter (\<lambda>y. y \<noteq> x) xs @ filter (\<lambda>y. y \<noteq> x) ys)"
    by (simp add: uniq_filter [symmetric])
  also have "\<dots> = uniq (filter (\<lambda>y. y \<noteq> x) xs)"
  proof -
    have "uniq (xs @ filter (\<lambda>y. y \<noteq> x) ys) = uniq xs" by (rule Cons.IH) (use Cons.prems in auto)
    then have "filter (\<lambda>y. y \<noteq> x) (uniq (xs @ filter (\<lambda>y. y \<noteq> x) ys)) = filter (\<lambda>y. y \<noteq> x) (uniq xs)"
      by simp
    then show ?thesis by (simp add: uniq_filter [symmetric] filter_filter)
  qed
  finally show ?case by (simp add: uniq_filter)
qed

subsection \<open>Case\<close>

text \<open>\<open>toLowerCase\<close> on the code units below U+0100.\<close>

definition lower_char :: "char \<Rightarrow> char" where
  "lower_char c = (let n = of_char c :: nat in if 65 \<le> n \<and> n \<le> 90 \<or> 192 \<le> n \<and> n \<le> 222 \<and> n \<noteq> 215 then char_of (n + 32) else c)"

definition lower :: "string \<Rightarrow> string" where
  "lower = map lower_char"

subsection \<open>Objects as association lists\<close>

type_synonym 'v obj = "(string \<times> 'v) list"

abbreviation oget :: "'v obj \<Rightarrow> string \<Rightarrow> 'v option" where
  "oget \<equiv> map_of"

text \<open>Assignment \<open>o[k] = v\<close>: in place when the key is there, at the end otherwise.\<close>

fun oput :: "string \<Rightarrow> 'v \<Rightarrow> 'v obj \<Rightarrow> 'v obj" where
  "oput k v [] = [(k, v)]"
| "oput k v ((k', v') # ps) = (if k = k' then (k, v) # ps else (k', v') # oput k v ps)"

text \<open>\<open>delete o[k]\<close>.\<close>

definition odel :: "string \<Rightarrow> 'v obj \<Rightarrow> 'v obj" where
  "odel k = filter (\<lambda>p. fst p \<noteq> k)"

definition ohas :: "string \<Rightarrow> 'v obj \<Rightarrow> bool" where
  "ohas k ob \<longleftrightarrow> k \<in> fst ` set ob"

definition owf :: "'v obj \<Rightarrow> bool" where
  "owf ob \<longleftrightarrow> distinct (map fst ob)"

lemma oget_oput [js_obj, simp]: "oget (oput k v ob) k' = (if k' = k then Some v else oget ob k')"
  by (induction k v ob rule: oput.induct) auto

lemma oget_odel [js_obj, simp]: "oget (odel k ob) k' = (if k' = k then None else oget ob k')"
  by (induction ob) (auto simp: odel_def)

lemma keys_oput: "fst ` set (oput k v ob) = insert k (fst ` set ob)"
  by (induction k v ob rule: oput.induct) auto

lemma owf_oput [js_obj, intro]: "owf ob \<Longrightarrow> owf (oput k v ob)"
  unfolding owf_def
proof (induction k v ob rule: oput.induct)
  case (2 k v k' v' ps)
  then show ?case using keys_oput [of k v ps] by (auto simp: image_iff)
qed auto

lemma owf_odel [js_obj, intro]: "owf ob \<Longrightarrow> owf (odel k ob)"
  unfolding owf_def odel_def by (induction ob) auto

lemma ohas_iff: "ohas k ob \<longleftrightarrow> oget ob k \<noteq> None"
  by (auto simp: ohas_def map_of_eq_None_iff)

lemma odel_absent: "\<not> ohas k ob \<Longrightarrow> odel k ob = ob"
  by (auto simp: ohas_def odel_def filter_id_conv)

subsection \<open>Updating a search record\<close>

text \<open>\<open>{...prev, [k]: v, ...}\<close> with undefined values dropped: the form in which the sources update the search record of a URL.\<close>

definition patch1 :: "string \<times> 'v option \<Rightarrow> 'v obj \<Rightarrow> 'v obj" where
  "patch1 p s = (case snd p of Some v \<Rightarrow> oput (fst p) v s | None \<Rightarrow> odel (fst p) s)"

definition patch_search :: "(string \<times> 'v option) list \<Rightarrow> 'v obj \<Rightarrow> 'v obj" where
  "patch_search ps s = fold patch1 ps s"

lemma oget_patch1: "oget (patch1 p s) k = (if k = fst p then snd p else oget s k)"
  by (cases p; cases "snd p") (auto simp: patch1_def)

lemma oget_patch_other: "k \<notin> fst ` set ps \<Longrightarrow> oget (patch_search ps s) k = oget s k"
  unfolding patch_search_def by (induction ps arbitrary: s) (simp_all add: oget_patch1)

lemma oget_patch:
  "distinct (map fst ps) \<Longrightarrow> (k, v) \<in> set ps \<Longrightarrow> oget (patch_search ps s) k = v"
proof (induction ps arbitrary: s)
  case (Cons p ps)
  show ?case
  proof (cases "(k, v) = p")
    case True
    have "k \<notin> fst ` set ps" using Cons.prems(1) unfolding True [symmetric] by simp
    then have "oget (patch_search ps (patch1 p s)) k = oget (patch1 p s) k" by (rule oget_patch_other)
    moreover have "oget (patch1 p s) k = v" using True by (cases p) (simp add: oget_patch1)
    ultimately show ?thesis by (simp add: patch_search_def)
  next
    case False
    with Cons show ?thesis by (simp add: patch_search_def)
  qed
qed simp

subsection \<open>Sorting with a comparison function\<close>

text \<open>
  \<open>xs.sort(cmp)\<close> for a consistent comparison: the stable sort. \<open>consistent\<close> is what the standard asks of \<open>cmp\<close>,
  on the elements it is applied to.
\<close>

fun insert_by :: "('a \<Rightarrow> 'a \<Rightarrow> int) \<Rightarrow> 'a \<Rightarrow> 'a list \<Rightarrow> 'a list" where
  "insert_by cmp x [] = [x]"
| "insert_by cmp x (y # ys) = (if cmp x y \<le> 0 then x # y # ys else y # insert_by cmp x ys)"

definition sort_by :: "('a \<Rightarrow> 'a \<Rightarrow> int) \<Rightarrow> 'a list \<Rightarrow> 'a list" where
  "sort_by cmp xs = foldr (insert_by cmp) xs []"

definition consistent :: "('a \<Rightarrow> 'a \<Rightarrow> int) \<Rightarrow> bool" where
  "consistent cmp \<longleftrightarrow> (\<forall>x y. cmp x y \<le> 0 \<or> cmp y x \<le> 0) \<and> (\<forall>x y z. cmp x y \<le> 0 \<longrightarrow> cmp y z \<le> 0 \<longrightarrow> cmp x z \<le> 0)"

lemma set_insert_by [simp]: "set (insert_by cmp x ys) = insert x (set ys)"
  by (induction ys) auto

lemma sort_by_simps [simp]: "sort_by cmp [] = []" "sort_by cmp (x # xs) = insert_by cmp x (sort_by cmp xs)"
  by (simp_all add: sort_by_def)

lemma set_sort_by [simp]: "set (sort_by cmp xs) = set xs"
  by (induction xs) auto

lemma count_sort_by: "length (filter P (sort_by cmp xs)) = length (filter P xs)"
proof -
  have "length (filter P (insert_by cmp x ys)) = length (filter P (x # ys))" for x ys
    by (induction ys) auto
  then show ?thesis by (induction xs) auto
qed

lemma length_sort_by [simp]: "length (sort_by cmp xs) = length xs"
  using count_sort_by [of "\<lambda>_. True" cmp xs] by simp

lemma sorted_sort_by: "consistent cmp \<Longrightarrow> sorted_wrt (\<lambda>a b. cmp a b \<le> 0) (sort_by cmp xs)"
proof -
  assume c: "consistent cmp"
  have "sorted_wrt (\<lambda>a b. cmp a b \<le> 0) ys \<Longrightarrow> sorted_wrt (\<lambda>a b. cmp a b \<le> 0) (insert_by cmp x ys)" for x ys
    using c by (induction ys) (auto simp: consistent_def)
  then show ?thesis by (induction xs) auto
qed

subsection \<open>Normal forms\<close>

text \<open>
  The contract of a routine that brings values into a normal form: it keeps the meaning of a valid value, its
  results are canonical, and a canonical value is determined by its meaning.
\<close>

locale canonical_form =
  fixes norm :: "'a \<Rightarrow> 'a" and meaning :: "'a \<Rightarrow> 'm" and valid :: "'a \<Rightarrow> bool" and canonical :: "'a \<Rightarrow> bool"
  assumes meaning_norm: "valid x \<Longrightarrow> meaning (norm x) = meaning x"
    and canonical_norm: "valid x \<Longrightarrow> canonical (norm x)"
    and canonical_valid: "canonical x \<Longrightarrow> valid x"
    and canonical_unique: "canonical x \<Longrightarrow> canonical y \<Longrightarrow> meaning x = meaning y \<Longrightarrow> x = y"
begin

lemma norm_canonical_id: "canonical x \<Longrightarrow> norm x = x"
  by (meson canonical_norm canonical_unique canonical_valid meaning_norm)

lemma norm_idem: "valid x \<Longrightarrow> norm (norm x) = norm x"
  by (simp add: canonical_norm norm_canonical_id)

lemma norm_eq_iff: "valid x \<Longrightarrow> valid y \<Longrightarrow> norm x = norm y \<longleftrightarrow> meaning x = meaning y"
  by (metis canonical_norm canonical_unique meaning_norm)

end

text \<open>The contract of a filter: its results are acceptable, and what is acceptable is left as it is.\<close>

locale projection =
  fixes f :: "'a \<Rightarrow> 'a" and ok :: "'a \<Rightarrow> bool"
  assumes ok_f: "ok (f x)" and f_ok: "ok x \<Longrightarrow> f x = x"
begin

lemma f_idem: "f (f x) = f x"
  by (simp add: f_ok ok_f)

lemma fixed_iff: "f x = x \<longleftrightarrow> ok x"
  using ok_f f_ok by metis

end

text \<open>A normal form for all values is a filter onto the canonical ones.\<close>

locale total_canonical_form = canonical_form +
  assumes all_valid: "valid x"

sublocale total_canonical_form \<subseteq> onto: projection norm canonical
  using canonical_norm [OF all_valid] norm_canonical_id by unfold_locales

text \<open>List fields without repetitions: the text rebuilt from the distinct entries is a normal form.\<close>

definition list_text :: "char \<Rightarrow> string \<Rightarrow> string" where
  "list_text c s = join [c] (uniq (split_trim_filter c s))"

lemma list_text_meaning: "split_trim_filter c (list_text c s) = uniq (split_trim_filter c s)"
  unfolding list_text_def by (rule split_trim_filter_join) (use split_trim_filter_sound in auto)

interpretation list_text: total_canonical_form "list_text c" "\<lambda>s. uniq (split_trim_filter c s)" "\<lambda>_. True" "\<lambda>s. list_text c s = s" for c
proof unfold_locales
  show "list_text c (list_text c s) = list_text c s" for s
    unfolding list_text_def [of c "list_text c s"] list_text_meaning by (simp add: list_text_def)
  show "x = y" if "list_text c x = x" "list_text c y = y" "uniq (split_trim_filter c x) = uniq (split_trim_filter c y)" for x y
    using that unfolding list_text_def by metis
qed (simp_all add: list_text_meaning)

lemma uniq_snoc: "uniq (xs @ [x]) = (if x \<in> set xs then uniq xs else uniq xs @ [x])"
  by (induction xs) auto

end
