(* ===== verification/PlaygroundMessages.thy ===== *)
theory PlaygroundMessages
  imports JsPrelude
begin

text \<open>
  The chat messages of the playground (\<^verbatim>\<open>features/playground/lib/message-utils.ts\<close> with the types of
  \<^verbatim>\<open>types.ts\<close> and the constants of \<^verbatim>\<open>constants.ts\<close>): creating messages, splitting \<open><think>\<close> sections
  from the visible text, merging stream chunks, finalising, and repairing messages read back
  from storage. Optional fields are \<open>option\<close>s (\<open>None\<close> for absent); \<open>errorCode\<close> is absent, null or
  a string. The identifiers that the package nanoid would return are arguments.
\<close>

subsection \<open>Data\<close>

datatype MessageRole = User | Assistant | System

datatype MessageStatus = Loading | Streaming | Complete | Error

record MessageVersion =
  vid :: string
  content :: string

record Reasoning =
  rcontent :: string
  duration :: int

record Message =
  key :: string
  mfrom :: MessageRole
  versions :: "MessageVersion list"
  sources :: "(string \<times> string) list option"
  reasoning :: "Reasoning option"
  isReasoningStreaming :: "bool option"
  isReasoningComplete :: "bool option"
  isContentComplete :: "bool option"
  status :: "MessageStatus option"
  errorCode :: "string option option"

datatype PartType = TextPart | ImageUrlPart

record ContentPart =
  ptype :: PartType
  ptext :: "string option"
  image_url :: "string option"

datatype MessageContent = TextContent string | PartsContent "ContentPart list"

record ChatCompletionMessage =
  crole :: MessageRole
  ccontent :: MessageContent

definition API_REQUEST_ERROR :: string where
  "API_REQUEST_ERROR = ''Request error occurred''"

definition INTERRUPTED :: string where
  "INTERRUPTED = ''Generation was interrupted''"

text \<open>\<open>a || b\<close> on strings: the first one that is not empty.\<close>

definition or_str :: "string \<Rightarrow> string \<Rightarrow> string" where
  "or_str a b = (if a \<noteq> [] then a else b)"

subsection \<open>Versions\<close>

definition createMessageVersion :: "string \<Rightarrow> string \<Rightarrow> MessageVersion" where
  "createMessageVersion nid c = \<lparr>vid = nid, content = c\<rparr>"

definition getCurrentVersion :: "Message \<Rightarrow> MessageVersion" where
  "getCurrentVersion m =
     (case versions m of v # _ \<Rightarrow> v | [] \<Rightarrow> \<lparr>vid = ''default'', content = ''''\<rparr>)"

definition updateCurrentVersionContent :: "Message \<Rightarrow> string \<Rightarrow> Message" where
  "updateCurrentVersionContent m c = m\<lparr>versions := [(getCurrentVersion m)\<lparr>content := c\<rparr>]\<rparr>"

definition createUserMessage :: "string \<Rightarrow> string \<Rightarrow> string \<Rightarrow> Message" where
  "createUserMessage nid1 nid2 c =
     \<lparr>key = nid1, mfrom = User, versions = [createMessageVersion nid2 c], sources = None,
      reasoning = None, isReasoningStreaming = None, isReasoningComplete = None,
      isContentComplete = None, status = None, errorCode = None\<rparr>"

definition createLoadingAssistantMessage :: "string \<Rightarrow> string \<Rightarrow> Message" where
  "createLoadingAssistantMessage nid1 nid2 =
     \<lparr>key = nid1, mfrom = Assistant, versions = [createMessageVersion nid2 ''''], sources = None,
      reasoning = None, isReasoningStreaming = Some False, isReasoningComplete = Some False,
      isContentComplete = Some False, status = Some Loading, errorCode = None\<rparr>"

subsection \<open>Content for the API\<close>

definition buildMessageContent :: "string \<Rightarrow> string list \<Rightarrow> MessageContent" where
  "buildMessageContent text imageUrls =
     (let validImages = filter (\<lambda>u. trim u \<noteq> []) imageUrls in
      if validImages = [] then TextContent text
      else PartsContent
        (\<lparr>ptype = TextPart, ptext = Some text, image_url = None\<rparr>
         # map (\<lambda>u. \<lparr>ptype = ImageUrlPart, ptext = None, image_url = Some (trim u)\<rparr>) validImages))"

fun getTextContent :: "MessageContent \<Rightarrow> string" where
  "getTextContent (TextContent s) = s"
| "getTextContent (PartsContent parts) =
     (case find (\<lambda>p. ptype p = TextPart) parts of
        None \<Rightarrow> ''''
      | Some p \<Rightarrow> (case ptext p of None \<Rightarrow> '''' | Some t \<Rightarrow> t))"

definition formatMessageForAPI :: "Message \<Rightarrow> ChatCompletionMessage" where
  "formatMessageForAPI m =
     \<lparr>crole = mfrom m, ccontent = TextContent (content (getCurrentVersion m))\<rparr>"

definition isValidMessage :: "Message \<Rightarrow> bool" where
  "isValidMessage m =
     (case versions m of
        [] \<Rightarrow> False
      | v # _ \<Rightarrow> \<not> (mfrom m = Assistant \<and> trim (content v) = []))"

subsection \<open>Think tags\<close>

definition OPEN_TAG :: string where "OPEN_TAG = ''<think>''"
definition CLOSE_TAG :: string where "CLOSE_TAG = ''</think>''"

record ThinkParse =
  visibleContent :: string
  treasoning :: string
  hasUnclosedTag :: bool

text \<open>
  The loop of \<open>parseThinkTags\<close> on the rest of the text from \<open>currentPos\<close>: the visible parts and the
  reasoning parts it still pushes, and whether it stops at a tag that is never closed.
\<close>

function think_loop :: "string \<Rightarrow> string list \<times> string list \<times> bool" where
  "think_loop rest =
     (case cut_at OPEN_TAG rest of
        None \<Rightarrow> (if rest \<noteq> [] then [rest] else [], [], False)
      | Some (before, after) \<Rightarrow>
          (let vis = (if before \<noteq> [] then [before] else []) in
           case cut_at CLOSE_TAG after of
             None \<Rightarrow> (vis, [after], True)
           | Some (reason, rest') \<Rightarrow>
               (case think_loop rest' of
                  (vs, rs, u) \<Rightarrow> (vis @ vs, reason # rs, u))))"
  by pat_completeness auto
termination
proof (relation "measure length", simp)
  fix rest x2 before after vis x2a reason rest'
  assume "cut_at OPEN_TAG rest = Some x2" "(before, after) = x2"
    "cut_at CLOSE_TAG after = Some x2a" "(reason, rest') = x2a"
  then have "rest = before @ OPEN_TAG @ after" "after = reason @ CLOSE_TAG @ rest'"
    by (auto dest: cut_at_Some)
  then show "(rest', rest) \<in> measure length" by (simp add: OPEN_TAG_def)
qed

declare think_loop.simps [simp del]

definition parseThinkTags :: "string \<Rightarrow> ThinkParse" where
  "parseThinkTags c =
     (if \<not> str_includes OPEN_TAG c
      then \<lparr>visibleContent = c, treasoning = '''', hasUnclosedTag = False\<rparr>
      else (case think_loop c of (vs, rs, u) \<Rightarrow>
        \<lparr>visibleContent = trim (join [] vs), treasoning = trim (join ''\<newline>\<newline>'' rs),
         hasUnclosedTag = u\<rparr>))"

subsection \<open>Updating the last assistant message\<close>

definition updateLastAssistantMessage ::
  "Message list \<Rightarrow> (Message \<Rightarrow> Message) \<Rightarrow> Message list" where
  "updateLastAssistantMessage ms updater =
     (if ms = [] then ms
      else if mfrom (last ms) \<noteq> Assistant then ms
      else butlast ms @ [updater (last ms)])"

definition updateAssistantMessageWithError ::
  "Message list \<Rightarrow> string \<Rightarrow> string option \<Rightarrow> Message list" where
  "updateAssistantMessageWithError ms errorMessage code =
     updateLastAssistantMessage ms (\<lambda>m.
       (updateCurrentVersionContent m (API_REQUEST_ERROR @ '': '' @ errorMessage))
         \<lparr>status := Some Error, isReasoningStreaming := Some False,
          errorCode := Some (case code of None \<Rightarrow> None | Some c \<Rightarrow> if c = [] then None else Some c)\<rparr>)"

subsection \<open>Streaming and finalising\<close>

definition processStreamingContent :: "Message \<Rightarrow> string option \<Rightarrow> Message" where
  "processStreamingContent m chunk =
     (let current = content (getCurrentVersion m);
          fullContent = (case chunk of None \<Rightarrow> current | Some c \<Rightarrow> if c = [] then current else current @ c);
          p = parseThinkTags fullContent;
          finalReasoning = (if treasoning p \<noteq> [] then Some \<lparr>rcontent = treasoning p, duration = 0\<rparr>
                            else reasoning m)
      in (updateCurrentVersionContent m fullContent)
           \<lparr>reasoning := finalReasoning, isReasoningStreaming := Some (hasUnclosedTag p)\<rparr>)"

definition finalizeMessage :: "Message \<Rightarrow> string option \<Rightarrow> Message" where
  "finalizeMessage m apiReasoningContent =
     (let p = parseThinkTags (content (getCurrentVersion m));
          api = (case apiReasoningContent of None \<Rightarrow> '''' | Some s \<Rightarrow> s);
          own = (case reasoning m of None \<Rightarrow> '''' | Some r \<Rightarrow> rcontent r);
          finalReasoning = or_str api (or_str own (treasoning p));
          dur = (case reasoning m of None \<Rightarrow> 0 | Some r \<Rightarrow> duration r)
      in (updateCurrentVersionContent m (visibleContent p))
           \<lparr>reasoning := (if finalReasoning \<noteq> [] then Some \<lparr>rcontent = finalReasoning, duration = dur\<rparr>
                         else None),
            isReasoningStreaming := Some False\<rparr>)"

subsection \<open>Repair on load\<close>

definition stuck :: "Message \<Rightarrow> bool" where
  "stuck m \<longleftrightarrow> mfrom m = Assistant \<and> (status m = Some Loading \<or> status m = Some Streaming)"

text \<open>The body of the repair for the message the search stopped at.\<close>

definition sanitizeMessage :: "Message \<Rightarrow> Message" where
  "sanitizeMessage m =
     (let f = finalizeMessage m None;
          hasContent = (case versions f of [] \<Rightarrow> False | v # _ \<Rightarrow> trim (content v) \<noteq> []);
          hasReasoning = (case reasoning f of None \<Rightarrow> False | Some r \<Rightarrow> trim (rcontent r) \<noteq> [])
      in if hasContent \<or> hasReasoning
         then f\<lparr>status := Some Complete, isReasoningStreaming := Some False\<rparr>
         else (updateCurrentVersionContent f (API_REQUEST_ERROR @ '': '' @ INTERRUPTED))
                \<lparr>status := Some Error, isReasoningStreaming := Some False\<rparr>)"

text \<open>
  The search runs from the end of the list; \<open>sanitize_rev\<close> is that search on the reversed list.
\<close>

fun sanitize_rev :: "Message list \<Rightarrow> Message list" where
  "sanitize_rev [] = []"
| "sanitize_rev (m # ms) = (if stuck m then sanitizeMessage m # ms else m # sanitize_rev ms)"

definition sanitizeMessagesOnLoad :: "Message list \<Rightarrow> Message list" where
  "sanitizeMessagesOnLoad ms = rev (sanitize_rev (rev ms))"

subsection \<open>Facts on single messages\<close>

named_theorems msg_simps \<open>what the message operations do to the fields\<close>

lemma content_update [msg_simps, simp]:
  "content (getCurrentVersion (updateCurrentVersionContent m c)) = c"
  by (simp add: getCurrentVersion_def updateCurrentVersionContent_def)

lemma update_update [msg_simps, simp]:
  "updateCurrentVersionContent (updateCurrentVersionContent m c) d = updateCurrentVersionContent m d"
  by (simp add: updateCurrentVersionContent_def getCurrentVersion_def)

lemma update_other [msg_simps, simp]:
  "mfrom (updateCurrentVersionContent m c) = mfrom m"
  "key (updateCurrentVersionContent m c) = key m"
  "reasoning (updateCurrentVersionContent m c) = reasoning m"
  "status (updateCurrentVersionContent m c) = status m"
  by (simp_all add: updateCurrentVersionContent_def)

lemma getCurrentVersion_upd [msg_simps, simp]:
  "getCurrentVersion (m\<lparr>reasoning := r\<rparr>) = getCurrentVersion m"
  "getCurrentVersion (m\<lparr>isReasoningStreaming := b\<rparr>) = getCurrentVersion m"
  "getCurrentVersion (m\<lparr>status := st\<rparr>) = getCurrentVersion m"
  "getCurrentVersion (m\<lparr>errorCode := ec\<rparr>) = getCurrentVersion m"
  by (simp_all add: getCurrentVersion_def)

lemma process_fields [msg_simps, simp]:
  "mfrom (processStreamingContent m c) = mfrom m"
  "key (processStreamingContent m c) = key m"
  "status (processStreamingContent m c) = status m"
  by (simp_all add: processStreamingContent_def Let_def)

lemma finalize_fields [msg_simps, simp]:
  "mfrom (finalizeMessage m a) = mfrom m"
  "key (finalizeMessage m a) = key m"
  "status (finalizeMessage m a) = status m"
  by (simp_all add: finalizeMessage_def Let_def)

lemma content_process:
  "content (getCurrentVersion (processStreamingContent m (Some c))) = content (getCurrentVersion m) @ c"
  by (simp add: processStreamingContent_def Let_def)

lemma reasoning_process:
  "reasoning (processStreamingContent m (Some c))
    = (let p = parseThinkTags (content (getCurrentVersion m) @ c)
       in if treasoning p \<noteq> [] then Some \<lparr>rcontent = treasoning p, duration = 0\<rparr> else reasoning m)"
  by (simp add: processStreamingContent_def Let_def)

subsection \<open>What \<open>parseThinkTags\<close> computes\<close>

text \<open>
  The text of a list of sections, each some visible text followed by a closed \<open><think>\<close> section,
  and a tail.
\<close>

fun render :: "(string \<times> string) list \<Rightarrow> string \<Rightarrow> string" where
  "render [] tail = tail"
| "render ((v, r) # segs) tail = v @ OPEN_TAG @ r @ CLOSE_TAG @ render segs tail"

definition plain_segs :: "(string \<times> string) list \<Rightarrow> bool" where
  "plain_segs segs \<longleftrightarrow>
     (\<forall>p \<in> set segs. \<not> str_includes OPEN_TAG (fst p) \<and> \<not> str_includes CLOSE_TAG (snd p))"

lemma cut_open: "\<not> str_includes OPEN_TAG v \<Longrightarrow> cut_at OPEN_TAG (v @ OPEN_TAG @ r) = Some (v, r)"
  by (rule cut_at_first [where c = "CHR ''<''" and ps = "''think>''"]) (auto simp: OPEN_TAG_def)

lemma cut_close: "\<not> str_includes CLOSE_TAG v \<Longrightarrow> cut_at CLOSE_TAG (v @ CLOSE_TAG @ r) = Some (v, r)"
  by (rule cut_at_first [where c = "CHR ''<''" and ps = "''/think>''"]) (auto simp: CLOSE_TAG_def)

lemma cut_none: "\<not> str_includes p v \<Longrightarrow> cut_at p v = None"
  unfolding str_includes_def by blast

definition nonempty_parts :: "string list \<Rightarrow> string list" where
  "nonempty_parts = filter (\<lambda>w. w \<noteq> [])"

lemma think_loop_closed:
  "plain_segs segs \<Longrightarrow> \<not> str_includes OPEN_TAG tail \<Longrightarrow>
   think_loop (render segs tail) = (nonempty_parts (map fst segs @ [tail]), map snd segs, False)"
proof (induction segs)
  case Nil
  then show ?case by (subst think_loop.simps) (simp add: cut_none nonempty_parts_def)
next
  case (Cons p segs)
  obtain v r where p: "p = (v, r)" by (cases p)
  from Cons.prems p have v: "\<not> str_includes OPEN_TAG v" and r: "\<not> str_includes CLOSE_TAG r"
    and rest: "plain_segs segs" by (auto simp: plain_segs_def)
  show ?case
    using Cons.IH [OF rest Cons.prems(2)]
    by (subst think_loop.simps) (simp add: p cut_open [OF v] cut_close [OF r] nonempty_parts_def)
qed

lemma think_loop_unclosed:
  "plain_segs segs \<Longrightarrow> \<not> str_includes OPEN_TAG v \<Longrightarrow> \<not> str_includes CLOSE_TAG r \<Longrightarrow>
   think_loop (render segs (v @ OPEN_TAG @ r))
     = (nonempty_parts (map fst segs @ [v]), map snd segs @ [r], True)"
proof (induction segs)
  case Nil
  then show ?case by (subst think_loop.simps) (simp add: cut_open cut_none nonempty_parts_def)
next
  case (Cons p segs)
  obtain v' r' where p: "p = (v', r')" by (cases p)
  from Cons.prems p have v': "\<not> str_includes OPEN_TAG v'" and r': "\<not> str_includes CLOSE_TAG r'"
    and rest: "plain_segs segs" by (auto simp: plain_segs_def)
  show ?case
    using Cons.IH [OF rest Cons.prems(2,3)]
    by (subst think_loop.simps) (simp add: p cut_open [OF v'] cut_close [OF r'] nonempty_parts_def)
qed

text \<open>Every text is of one of the two shapes, so the two lemmas cover every input.\<close>

lemma cut_at_first_Some: "cut_at p s = Some (a, b) \<Longrightarrow> p \<noteq> [] \<Longrightarrow> \<not> str_includes p a"
proof (induction s arbitrary: a)
  case Nil
  then show ?case by (auto split: if_splits)
next
  case (Cons x s)
  show ?case
  proof (cases "strip_prefix p (x # s)")
    case None
    with Cons.prems obtain a' where a: "a = x # a'" and c: "cut_at p s = Some (a', b)"
      by (auto split: option.splits)
    have "s = a' @ p @ b" using c by (rule cut_at_Some)
    moreover have "\<not> str_includes p a'" using Cons.IH c Cons.prems by simp
    moreover have "\<not> (\<exists>q. x # a' = p @ q)"
    proof
      assume "\<exists>q. x # a' = p @ q"
      then obtain q where "x # a' = p @ q" by blast
      then have "x # s = p @ q @ p @ b" using calculation(1) by (metis append_Cons append_assoc)
      with None show False by (auto simp: strip_prefix_None)
    qed
    ultimately show ?thesis
      unfolding a by (auto simp: str_includes_iff Cons_eq_append_conv)
  next
    case (Some r)
    with Cons.prems show ?thesis by (auto simp: str_includes_def)
  qed
qed

lemma render_cases:
  "\<exists>segs tail. plain_segs segs \<and>
     (s = render segs tail \<and> \<not> str_includes OPEN_TAG tail \<or>
      (\<exists>v r. tail = v @ OPEN_TAG @ r \<and> s = render segs tail
         \<and> \<not> str_includes OPEN_TAG v \<and> \<not> str_includes CLOSE_TAG r))"
proof (induction s rule: think_loop.induct)
  case (1 rest)
  show ?case
  proof (cases "cut_at OPEN_TAG rest")
    case None
    then show ?thesis
      by (intro exI [of _ "[]"] exI [of _ rest]) (auto simp: plain_segs_def str_includes_def)
  next
    case (Some ba)
    obtain before after where ba: "ba = (before, after)" by (cases ba)
    with Some have r1: "rest = before @ OPEN_TAG @ after" "\<not> str_includes OPEN_TAG before"
      by (auto dest: cut_at_Some cut_at_first_Some simp: OPEN_TAG_def)
    show ?thesis
    proof (cases "cut_at CLOSE_TAG after")
      case None
      then have "\<not> str_includes CLOSE_TAG after" by (simp add: str_includes_def)
      then have "\<exists>v r. rest = v @ OPEN_TAG @ r \<and> rest = render [] rest
          \<and> \<not> str_includes OPEN_TAG v \<and> \<not> str_includes CLOSE_TAG r"
        using r1 by auto
      moreover have "plain_segs []" by (simp add: plain_segs_def)
      ultimately show ?thesis by blast
    next
      case (Some cd)
      obtain reason rest' where cd: "cd = (reason, rest')" by (cases cd)
      with Some have r2: "after = reason @ CLOSE_TAG @ rest'" "\<not> str_includes CLOSE_TAG reason"
        by (auto dest: cut_at_Some cut_at_first_Some simp: CLOSE_TAG_def)
      from 1 [OF \<open>cut_at OPEN_TAG rest = Some ba\<close> ba [symmetric] refl Some cd [symmetric]]
      obtain segs tail where IH: "plain_segs segs"
        "rest' = render segs tail \<and> \<not> str_includes OPEN_TAG tail \<or>
         (\<exists>v r. tail = v @ OPEN_TAG @ r \<and> rest' = render segs tail
           \<and> \<not> str_includes OPEN_TAG v \<and> \<not> str_includes CLOSE_TAG r)"
        by auto
      have "plain_segs ((before, reason) # segs)" using IH(1) r1 r2 by (simp add: plain_segs_def)
      moreover have "rest = render ((before, reason) # segs) tail \<and> rest' = render segs tail"
        using IH(2) r1 r2 by auto
      ultimately show ?thesis using IH(2) by blast
    qed
  qed
qed

lemma concat_nonempty_parts: "concat (nonempty_parts ws) = concat ws"
  by (induction ws) (auto simp: nonempty_parts_def)

lemma includes_open_render: "segs \<noteq> [] \<Longrightarrow> str_includes OPEN_TAG (render segs tail)"
proof -
  assume "segs \<noteq> []"
  then obtain v r ss where "segs = (v, r) # ss" by (cases segs) auto
  then have "render segs tail = v @ OPEN_TAG @ (r @ CLOSE_TAG @ render ss tail)" by simp
  then show ?thesis unfolding str_includes_iff by blast
qed

text \<open>
  Splitting a text into visible text and reasoning. For any text written as sections
  (visible text, closed think section) and a tail: without a think tag the text is returned as
  it is; otherwise the visible text is the trimmed concatenation of the visible parts and the
  reasoning the trimmed think sections joined by blank lines; a last tag that is never closed
  makes the rest reasoning and sets the flag. (By \<open>render_cases\<close> every text is of one of these shapes.)
\<close>

theorem parseThinkTags_sections:
  assumes "plain_segs segs" "\<not> str_includes OPEN_TAG v" "\<not> str_includes CLOSE_TAG r"
  shows "parseThinkTags (render segs v) =
      (if segs = [] then \<lparr>visibleContent = v, treasoning = '''', hasUnclosedTag = False\<rparr>
       else \<lparr>visibleContent = trim (concat (map fst segs) @ v),
             treasoning = trim (join ''\<newline>\<newline>'' (map snd segs)), hasUnclosedTag = False\<rparr>)
    \<and> parseThinkTags (render segs (v @ OPEN_TAG @ r)) =
        \<lparr>visibleContent = trim (concat (map fst segs) @ v),
         treasoning = trim (join ''\<newline>\<newline>'' (map snd segs @ [r])), hasUnclosedTag = True\<rparr>"
proof -
  have inc: "str_includes OPEN_TAG (render segs (v @ OPEN_TAG @ r))"
  proof (cases "segs = []")
    case True
    then show ?thesis unfolding str_includes_iff render.simps True by blast
  qed (rule includes_open_render)
  show ?thesis
    using think_loop_closed [OF assms(1,2)] think_loop_unclosed [OF assms] inc assms(2)
      includes_open_render [of segs v]
    by (auto simp: parseThinkTags_def join_Nil_sep concat_nonempty_parts)
qed

theorem parseThinkTags_sections_witness:
  "parseThinkTags ''a<think>b</think>c'' =
     \<lparr>visibleContent = ''ac'', treasoning = ''b'', hasUnclosedTag = False\<rparr>
   \<and> parseThinkTags ''a<think>b</think>c<think>d'' =
     \<lparr>visibleContent = ''ac'', treasoning = ''b\<newline>\<newline>d'', hasUnclosedTag = True\<rparr>"
  using parseThinkTags_sections [of "[(''a'', ''b'')]" "''c''" "''d''"]
  by (simp add: plain_segs_def str_includes_def OPEN_TAG_def CLOSE_TAG_def trim_def trim_by_def is_ws_def)

subsection \<open>Streaming chunks, then finalising\<close>

definition stream_chunks :: "Message \<Rightarrow> string list \<Rightarrow> Message" where
  "stream_chunks m cs = foldl (\<lambda>m c. processStreamingContent m (Some c)) m cs"

lemma stream_chunks_snoc:
  "stream_chunks m (cs @ [c]) = processStreamingContent (stream_chunks m cs) (Some c)"
  by (simp add: stream_chunks_def)

lemma content_stream: "content (getCurrentVersion (stream_chunks m cs)) = content (getCurrentVersion m) @ concat cs"
  by (induction cs rule: rev_induct) (simp_all add: stream_chunks_snoc content_process, simp add: stream_chunks_def)

lemma stream_fields:
  "key (stream_chunks m cs) = key m" "mfrom (stream_chunks m cs) = mfrom m"
  "status (stream_chunks m cs) = status m"
  by (induction cs rule: rev_induct) (simp_all add: stream_chunks_snoc, simp_all add: stream_chunks_def)

lemma process_is_update:
  "\<exists>r b. processStreamingContent m (Some c)
    = (updateCurrentVersionContent m (content (getCurrentVersion m) @ c))\<lparr>reasoning := r, isReasoningStreaming := Some b\<rparr>"
  by (simp add: processStreamingContent_def Let_def) blast

lemma stream_is_update:
  "cs \<noteq> [] \<Longrightarrow> \<exists>r b. stream_chunks m cs
    = (updateCurrentVersionContent m (content (getCurrentVersion m) @ concat cs))\<lparr>reasoning := r, isReasoningStreaming := Some b\<rparr>"
proof (induction cs rule: rev_induct)
  case Nil
  then show ?case by simp
next
  case (snoc c cs)
  obtain r b where pr: "stream_chunks m (cs @ [c]) = (updateCurrentVersionContent (stream_chunks m cs)
      (content (getCurrentVersion m) @ concat (cs @ [c])))\<lparr>reasoning := r, isReasoningStreaming := Some b\<rparr>"
    using process_is_update [of "stream_chunks m cs" c] by (auto simp: stream_chunks_snoc content_stream)
  show ?case
  proof (cases "cs = []")
    case True
    with pr show ?thesis by (auto simp: stream_chunks_def)
  next
    case False
    with snoc.IH obtain r' b' where "stream_chunks m cs = (updateCurrentVersionContent m
        (content (getCurrentVersion m) @ concat cs))\<lparr>reasoning := r', isReasoningStreaming := Some b'\<rparr>" by blast
    with pr have "stream_chunks m (cs @ [c]) = (updateCurrentVersionContent m
        (content (getCurrentVersion m) @ concat (cs @ [c])))\<lparr>reasoning := r, isReasoningStreaming := Some b\<rparr>"
      by (simp add: updateCurrentVersionContent_def getCurrentVersion_def)
    then show ?thesis by blast
  qed
qed

lemma parse_no_tag: "\<not> str_includes OPEN_TAG c \<Longrightarrow> treasoning (parseThinkTags c) = ''''"
  by (simp add: parseThinkTags_def)

lemma no_tag_prefix: "\<not> str_includes OPEN_TAG (a @ b) \<Longrightarrow> \<not> str_includes OPEN_TAG a"
  unfolding str_includes_iff by (metis append_assoc)

lemma reasoning_stream:
  assumes "cs \<noteq> []" "reasoning m = None"
    and "treasoning (parseThinkTags (content (getCurrentVersion m) @ concat cs)) \<noteq> ''''
       \<or> \<not> str_includes OPEN_TAG (content (getCurrentVersion m) @ concat cs)"
  shows "reasoning (stream_chunks m cs)
    = (let p = parseThinkTags (content (getCurrentVersion m) @ concat cs)
       in if treasoning p \<noteq> '''' then Some \<lparr>rcontent = treasoning p, duration = 0\<rparr> else None)"
  using assms
proof (induction cs rule: rev_induct)
  case Nil
  then show ?case by simp
next
  case (snoc c cs)
  show ?case
  proof (cases "treasoning (parseThinkTags (content (getCurrentVersion m) @ concat (cs @ [c]))) = ''''")
    case False
    then show ?thesis by (simp add: stream_chunks_snoc reasoning_process content_stream)
  next
    case True
    with snoc.prems have nt: "\<not> str_includes OPEN_TAG (content (getCurrentVersion m) @ concat cs)"
      using no_tag_prefix [of "content (getCurrentVersion m) @ concat cs" c] by auto
    have "reasoning (stream_chunks m cs) = None"
    proof (cases "cs = []")
      case True
      with snoc.prems show ?thesis by (simp add: stream_chunks_def)
    next
      case False
      then show ?thesis using snoc.IH snoc.prems(2) nt by (simp add: parse_no_tag)
    qed
    with True show ?thesis by (simp add: stream_chunks_snoc reasoning_process content_stream)
  qed
qed

lemma stream_finalize:
  assumes "cs \<noteq> []" "reasoning m = None"
    and "treasoning (parseThinkTags (content (getCurrentVersion m) @ concat cs)) \<noteq> ''''
       \<or> \<not> str_includes OPEN_TAG (content (getCurrentVersion m) @ concat cs)"
  shows "finalizeMessage (stream_chunks m cs) None
    = finalizeMessage (updateCurrentVersionContent m (content (getCurrentVersion m) @ concat cs)) None"
proof -
  let ?full = "content (getCurrentVersion m) @ concat cs"
  obtain r b where st: "stream_chunks m cs
      = (updateCurrentVersionContent m ?full)\<lparr>reasoning := r, isReasoningStreaming := Some b\<rparr>"
    using stream_is_update [OF assms(1)] by blast
  have r: "r = (if treasoning (parseThinkTags ?full) \<noteq> ''''
      then Some \<lparr>rcontent = treasoning (parseThinkTags ?full), duration = 0\<rparr> else None)"
    using reasoning_stream [OF assms] by (simp add: st Let_def)
  show ?thesis unfolding st r
    by (simp add: finalizeMessage_def Let_def assms(2) or_str_def)
      (simp add: updateCurrentVersionContent_def getCurrentVersion_def)
qed

text \<open>
  C1: the way a stream is cut into chunks does not matter. For a message without reasoning yet, if
  the complete text carries reasoning or has no think tag at all, then streaming it chunk by
  chunk and finalising gives the message that finalising the complete text at once gives.
\<close>

theorem streaming_chunk_independent:
  assumes "cs \<noteq> []" "reasoning m = None"
    and "treasoning (parseThinkTags (content (getCurrentVersion m) @ concat cs)) \<noteq> ''''
       \<or> \<not> str_includes OPEN_TAG (content (getCurrentVersion m) @ concat cs)"
  shows "finalizeMessage (stream_chunks m cs) None
    = finalizeMessage (updateCurrentVersionContent m (content (getCurrentVersion m) @ concat cs)) None"
  using assms by (rule stream_finalize)

theorem streaming_chunk_independent_witness:
  "finalizeMessage (stream_chunks (createLoadingAssistantMessage ''k'' ''v'') [''<thi'', ''nk>a</th'', ''ink>b'']) None
    = finalizeMessage (updateCurrentVersionContent (createLoadingAssistantMessage ''k'' ''v'') ''<think>a</think>b'') None"
proof -
  have "parseThinkTags ''<think>a</think>b'' = \<lparr>visibleContent = ''b'', treasoning = ''a'', hasUnclosedTag = False\<rparr>"
    by code_simp
  then show ?thesis
    using streaming_chunk_independent [of "[''<thi'', ''nk>a</th'', ''ink>b'']" "createLoadingAssistantMessage ''k'' ''v''"]
    by (simp add: createLoadingAssistantMessage_def createMessageVersion_def getCurrentVersion_def)
qed

text \<open>
  Without that condition the result does depend on the chunks: a think section that is empty,
  with its closing tag split over two chunks, leaves the fragment of the closing tag behind as
  the reasoning of the finished message, where the same text in one piece leaves no reasoning.
\<close>

theorem stale_reasoning_of_split_tag:
  "reasoning (finalizeMessage (stream_chunks (createLoadingAssistantMessage i j) [''<think></thi'', ''nk>hi'']) None)
     = Some \<lparr>rcontent = ''</thi'', duration = 0\<rparr>
   \<and> reasoning (finalizeMessage (stream_chunks (createLoadingAssistantMessage i j) [''<think></think>hi'']) None) = None"
proof -
  have p1: "parseThinkTags ''<think></thi'' = \<lparr>visibleContent = '''', treasoning = ''</thi'', hasUnclosedTag = True\<rparr>"
    by code_simp
  have p2: "parseThinkTags ''<think></think>hi'' = \<lparr>visibleContent = ''hi'', treasoning = '''', hasUnclosedTag = False\<rparr>"
    by code_simp
  have p3: "parseThinkTags ''hi'' = \<lparr>visibleContent = ''hi'', treasoning = '''', hasUnclosedTag = False\<rparr>"
    by code_simp
  show ?thesis
    by (simp add: stream_chunks_def createLoadingAssistantMessage_def createMessageVersion_def
        processStreamingContent_def finalizeMessage_def Let_def p1 p2 p3 or_str_def
        updateCurrentVersionContent_def getCurrentVersion_def)
qed

subsection \<open>Updating the last message, and the repair on load\<close>

lemma updateLast_snoc:
  "updateLastAssistantMessage (ms @ [m]) f = (if mfrom m = Assistant then ms @ [f m] else ms @ [m])"
  by (simp add: updateLastAssistantMessage_def)

lemma updateLast_Nil [simp]: "updateLastAssistantMessage [] f = []"
  by (simp add: updateLastAssistantMessage_def)

lemma length_updateLast [simp]: "length (updateLastAssistantMessage ms f) = length ms"
  by (cases ms rule: rev_cases) (auto simp: updateLast_snoc)

lemma sanitizeMessage_not_stuck: "\<not> stuck (sanitizeMessage m)"
  by (auto simp: sanitizeMessage_def Let_def stuck_def)

lemma sanitizeMessage_fields [simp]: "mfrom (sanitizeMessage m) = mfrom m" "key (sanitizeMessage m) = key m"
  by (simp_all add: sanitizeMessage_def Let_def)

lemma sanitize_rev_none: "\<forall>m \<in> set ms. \<not> stuck m \<Longrightarrow> sanitize_rev ms = ms"
  by (induction ms) auto

lemma sanitize_rev_split:
  "\<forall>x \<in> set pre. \<not> stuck x \<Longrightarrow> stuck m \<Longrightarrow> sanitize_rev (pre @ m # post) = pre @ sanitizeMessage m # post"
  by (induction pre) auto

text \<open>
  The repair of messages read back from storage. When the last message that is stuck in
  the loading or streaming state is \<open>m\<close>, exactly that message is replaced: its place, key and author
  stay, its status becomes complete if the finalised text or reasoning is not blank, and
  error with the interruption text otherwise; every other message is untouched.
\<close>

theorem sanitizeMessagesOnLoad_repairs_last:
  assumes "stuck m" "\<forall>x \<in> set post. \<not> stuck x"
  shows "sanitizeMessagesOnLoad (pre @ m # post) = pre @ sanitizeMessage m # post
      \<and> mfrom (sanitizeMessage m) = mfrom m \<and> key (sanitizeMessage m) = key m
      \<and> (if trim (content (getCurrentVersion (finalizeMessage m None))) \<noteq> ''''
            \<or> (\<exists>r. reasoning (finalizeMessage m None) = Some r \<and> trim (rcontent r) \<noteq> '''')
         then status (sanitizeMessage m) = Some Complete
         else status (sanitizeMessage m) = Some Error
           \<and> content (getCurrentVersion (sanitizeMessage m)) = API_REQUEST_ERROR @ '': '' @ INTERRUPTED)"
proof -
  have r: "sanitizeMessagesOnLoad (pre @ m # post) = pre @ sanitizeMessage m # post"
    using assms sanitize_rev_split [of "rev post" m "rev pre"] by (simp add: sanitizeMessagesOnLoad_def)
  have v: "\<exists>v. versions (finalizeMessage m None) = [v] \<and> getCurrentVersion (finalizeMessage m None) = v"
    by (simp add: finalizeMessage_def Let_def updateCurrentVersionContent_def getCurrentVersion_def)
  then show ?thesis
    by (auto simp: r sanitizeMessage_def Let_def split: option.splits)
qed

theorem sanitizeMessagesOnLoad_repairs_last_witness:
  "let m = (createLoadingAssistantMessage ''a'' ''b''); u = createUserMessage ''c'' ''d'' ''hi'' in
   sanitizeMessagesOnLoad [u, m, u] = [u, sanitizeMessage m, u]
   \<and> status (sanitizeMessage m) = Some Error"
proof -
  let ?L = "createLoadingAssistantMessage ''a'' ''b''" and ?U = "createUserMessage ''c'' ''d'' ''hi''"
  have p: "parseThinkTags '''' = \<lparr>visibleContent = '''', treasoning = '''', hasUnclosedTag = False\<rparr>"
    by code_simp
  have f: "content (getCurrentVersion (finalizeMessage ?L None)) = ''''"
      "reasoning (finalizeMessage ?L None) = None"
    by (simp_all add: finalizeMessage_def Let_def createLoadingAssistantMessage_def
        createMessageVersion_def getCurrentVersion_def updateCurrentVersionContent_def p or_str_def)
  have s: "stuck ?L" "\<forall>x \<in> set [?U]. \<not> stuck x"
    by (simp_all add: stuck_def createLoadingAssistantMessage_def createUserMessage_def)
  show ?thesis
    using sanitizeMessagesOnLoad_repairs_last [OF s, of "[?U]"] by (simp add: f Let_def)
qed

text \<open>
  One load repairs one message. Reading the messages back lowers the number of messages stuck
  in loading or streaming by exactly one (when there is one) and never changes how many there
  are, so two messages stuck at once need two loads.
\<close>

theorem sanitize_reduces_stuck: 
  "length (filter stuck (sanitizeMessagesOnLoad ms)) = length (filter stuck ms) - 1
   \<and> length (sanitizeMessagesOnLoad ms) = length ms"
proof (cases "\<exists>m \<in> set ms. stuck m")
  case False
  then have "sanitizeMessagesOnLoad ms = ms" by (simp add: sanitizeMessagesOnLoad_def sanitize_rev_none)
  with False show ?thesis by (simp add: filter_empty_conv)
next
  case True
  then obtain pre m post where ms: "ms = pre @ m # post" "stuck m" "\<forall>x \<in> set post. \<not> stuck x"
    using split_list_last_prop [of ms stuck] by blast
  then have "sanitizeMessagesOnLoad ms = pre @ sanitizeMessage m # post"
    using sanitize_rev_split [of "rev post" m "rev pre"] by (simp add: sanitizeMessagesOnLoad_def)
  then show ?thesis using ms by (simp add: sanitizeMessage_not_stuck)
qed

end
