(* ===== verification/JsJson.thy ===== *)
theory JsJson
  imports JsPrelude
begin

text \<open>
  JSON values and the standard functions \<open>JSON.parse\<close> and \<open>JSON.stringify\<close>, executable, with the
  round trip between them; decimal numbers and their text.

  A JavaScript number read from text is the decimal \<open>Dec m e\<close>, that is \<open>m * 10 ^ e\<close>, with \<open>m\<close> not a
  multiple of ten (\<open>Dec 0 0\<close> for zero). A literal of at most 15 significant digits is printed back
  from the nearest double with the same digits, so the printed text of such a number depends on this decimal
  only; literals with more digits, overflow to infinity and the sign of \<open>-0\<close> are outside the model.
  Object fields are kept in insertion order; \<open>own_entries\<close> is the order in which JavaScript lists
  them (integer indices first, ascending). Text is within U+0000 to U+00FF: an escape above
  that range is outside the model. \<open>None\<close> is the SyntaxError of \<open>JSON.parse\<close>.
\<close>

subsection \<open>Decimal digits\<close>

definition digit_char :: "nat \<Rightarrow> char" where
  "digit_char d = char_of (48 + d)"

definition is_digit :: "char \<Rightarrow> bool" where
  "is_digit c \<longleftrightarrow> 48 \<le> (of_char c :: nat) \<and> (of_char c :: nat) \<le> 57"

definition digit_val :: "char \<Rightarrow> nat" where
  "digit_val c = of_char c - 48"

fun show_nat :: "nat \<Rightarrow> string" where
  "show_nat n = (if n < 10 then [digit_char n] else show_nat (n div 10) @ [digit_char (n mod 10)])"

declare show_nat.simps [simp del]

definition read_nat :: "string \<Rightarrow> nat" where
  "read_nat s = foldl (\<lambda>a c. 10 * a + digit_val c) 0 s"

lemma is_digit_digit_char [simp]: "d < 10 \<Longrightarrow> is_digit (digit_char d)"
  by (simp add: is_digit_def digit_char_def)

lemma digit_val_digit_char [simp]: "d < 10 \<Longrightarrow> digit_val (digit_char d) = d"
  by (simp add: digit_val_def digit_char_def)

lemma read_nat_snoc [simp]: "read_nat (s @ [c]) = 10 * read_nat s + digit_val c"
  by (simp add: read_nat_def)

lemma read_nat_Nil [simp]: "read_nat [] = 0"
  by (simp add: read_nat_def)

lemma read_show_nat [simp]: "read_nat (show_nat n) = n"
proof (induction n rule: show_nat.induct)
  case (1 n)
  show ?case
  proof (cases "n < 10")
    case True
    then show ?thesis using read_nat_snoc [of "[]" "digit_char n"]
      by (subst show_nat.simps) simp
  next
    case False
    then have "show_nat n = show_nat (n div 10) @ [digit_char (n mod 10)]"
      by (subst show_nat.simps) simp
    then show ?thesis using 1 False by simp
  qed
qed

lemma show_nat_digits: "c \<in> set (show_nat n) \<Longrightarrow> is_digit c"
proof (induction n rule: show_nat.induct)
  case (1 n)
  then show ?case by (subst (asm) (2) show_nat.simps) (auto split: if_splits)
qed

lemma show_nat_neq_Nil [simp]: "show_nat n \<noteq> []"
  by (subst show_nat.simps) simp

lemma digit_char_0: "digit_char 0 = CHR ''0''"
  by (simp add: digit_char_def char_of_def bit_iff_odd)

lemma digit_char_eq_0: "d < 10 \<Longrightarrow> digit_char d = CHR ''0'' \<longleftrightarrow> d = 0"
  using digit_val_digit_char [of d] digit_val_digit_char [of 0] by (metis digit_char_0 zero_less_numeral)

text \<open>No leading zero, except in the text of zero itself.\<close>

lemma show_nat_hd: "hd (show_nat n) = CHR ''0'' \<longleftrightarrow> n = 0"
proof (induction n rule: show_nat.induct)
  case (1 n)
  show ?case
  proof (cases "n < 10")
    case True
    then show ?thesis by (subst show_nat.simps) (simp add: digit_char_eq_0)
  next
    case False
    then have "hd (show_nat n) = hd (show_nat (n div 10))" by (subst show_nat.simps) simp
    then show ?thesis using 1 False by auto
  qed
qed

lemma show_nat_zero: "show_nat 0 = ''0''"
  by (simp add: show_nat.simps digit_char_0)

subsection \<open>Numbers\<close>

datatype num = Dec (mant: int) (expo: int)

function canon :: "int \<Rightarrow> int \<Rightarrow> num" where
  "canon m e = (if m = 0 then Dec 0 0 else if m mod 10 = 0 then canon (m div 10) (e + 1) else Dec m e)"
  by pat_completeness auto
termination
  by (relation "measure (\<lambda>(m, e). nat \<bar>m\<bar>)") auto

declare canon.simps [simp del]

definition num_of_int :: "int \<Rightarrow> num" where
  "num_of_int i = canon i 0"

text \<open>\<open>Number.prototype.toString\<close> on the decimal digits, as ECMAScript's Number::toString words it.\<close>

definition show_num :: "num \<Rightarrow> string" where
  "show_num x =
     (let ds = show_nat (nat \<bar>mant x\<bar>); k = int (length ds); n = k + expo x;
          body =
            (if mant x = 0 then ''0''
             else if k \<le> n \<and> n \<le> 21 then ds @ replicate (nat (n - k)) CHR ''0''
             else if 0 < n \<and> n \<le> 21 then take (nat n) ds @ ''.'' @ drop (nat n) ds
             else if -6 < n \<and> n \<le> 0 then ''0.'' @ replicate (nat (- n)) CHR ''0'' @ ds
             else (let ex = n - 1;
                       sg = (if ex < 0 then ''-'' else ''+'') @ show_nat (nat \<bar>ex\<bar>)
                   in if k = 1 then ds @ ''e'' @ sg
                      else take 1 ds @ ''.'' @ drop 1 ds @ ''e'' @ sg))
      in (if mant x < 0 then ''-'' @ body else body))"

definition span_digits :: "string \<Rightarrow> string \<times> string" where
  "span_digits s = (takeWhile is_digit s, dropWhile is_digit s)"

text \<open>The optional fraction and exponent of a JSON number: digits, exponent and rest.\<close>

definition parse_frac :: "string \<Rightarrow> (string \<times> string) option" where
  "parse_frac s =
     (case strip_prefix ''.'' s of
        Some s' \<Rightarrow> (case span_digits s' of (ds, r) \<Rightarrow> if ds = [] then None else Some (ds, r))
      | None \<Rightarrow> Some ([], s))"

text \<open>An optional minus sign.\<close>

definition opt_minus :: "string \<Rightarrow> bool \<times> string" where
  "opt_minus s = (case strip_prefix ''-'' s of Some t \<Rightarrow> (True, t) | None \<Rightarrow> (False, s))"

definition opt_sign :: "string \<Rightarrow> bool \<times> string" where
  "opt_sign s = (case strip_prefix ''+'' s of Some t \<Rightarrow> (False, t) | None \<Rightarrow> opt_minus s)"

definition parse_exp :: "string \<Rightarrow> (int \<times> string) option" where
  "parse_exp s =
     (case s of
        c # s' \<Rightarrow>
          (if c = CHR ''e'' \<or> c = CHR ''E''
           then (case opt_sign s' of (neg, s'') \<Rightarrow>
                   (case span_digits s'' of (ds, r) \<Rightarrow>
                      if ds = [] then None
                      else Some (if neg then - int (read_nat ds) else int (read_nat ds), r)))
           else Some (0, s))
      | [] \<Rightarrow> Some (0, s))"

definition parse_num :: "string \<Rightarrow> (num \<times> string) option" where
  "parse_num s =
     (case opt_minus s of (neg, s1) \<Rightarrow> case span_digits s1 of (ds, s2) \<Rightarrow>
        if ds = [] \<or> (1 < length ds \<and> hd ds = CHR ''0'') then None
        else Option.bind (parse_frac s2) (\<lambda>(fs, s3).
          Option.bind (parse_exp s3) (\<lambda>(ex, s4).
            let m = int (read_nat (ds @ fs)) in
            Some (canon (if neg then - m else m) (ex - int (length fs)), s4))))"

subsection \<open>Values\<close>

datatype json =
    JNull
  | JBool bool
  | JNum num
  | JStr string
  | JArr "json list"
  | JObj "(string \<times> json) list"

text \<open>Array-index keys: the canonical text of an integer below \<open>2 ^ 32 - 1\<close>.\<close>

definition is_index :: "string \<Rightarrow> bool" where
  "is_index k \<longleftrightarrow> k \<noteq> [] \<and> (\<forall>c \<in> set k. is_digit c) \<and> show_nat (read_nat k) = k
     \<and> int (read_nat k) < 4294967295"

definition own_entries :: "'v obj \<Rightarrow> 'v obj" where
  "own_entries ob =
     sort_key (\<lambda>p. read_nat (fst p)) (filter (\<lambda>p. is_index (fst p)) ob)
     @ filter (\<lambda>p. \<not> is_index (fst p)) ob"

lemma set_own_entries [simp, termination_simp]: "set (own_entries ob) = set ob"
  by (auto simp: own_entries_def)

lemma own_entries_id: "\<forall>p \<in> set ob. \<not> is_index (fst p) \<Longrightarrow> own_entries ob = ob"
  by (simp add: own_entries_def filter_id_conv)

subsection \<open>\<open>JSON.stringify\<close>\<close>

definition hex_char :: "nat \<Rightarrow> char" where
  "hex_char d = (if d < 10 then char_of (48 + d) else char_of (87 + d))"

definition esc_char :: "char \<Rightarrow> string" where
  "esc_char c =
     (if c = CHR 0x22 then [CHR 0x5C, CHR 0x22]
      else if c = CHR 0x5C then [CHR 0x5C, CHR 0x5C]
      else if c = CHR 0x08 then [CHR 0x5C, CHR ''b'']
      else if c = CHR 0x09 then [CHR 0x5C, CHR ''t'']
      else if c = CHR 0x0A then [CHR 0x5C, CHR ''n'']
      else if c = CHR 0x0C then [CHR 0x5C, CHR ''f'']
      else if c = CHR 0x0D then [CHR 0x5C, CHR ''r'']
      else if (of_char c :: nat) < 32
      then [CHR 0x5C, CHR ''u'', CHR ''0'', CHR ''0'', hex_char (of_char c div 16), hex_char (of_char c mod 16)]
      else [c])"

definition quote :: "string \<Rightarrow> string" where
  "quote s = [CHR 0x22] @ concat (map esc_char s) @ [CHR 0x22]"

fun stringify :: "json \<Rightarrow> string" where
  "stringify JNull = ''null''"
| "stringify (JBool b) = (if b then ''true'' else ''false'')"
| "stringify (JNum x) = show_num x"
| "stringify (JStr s) = quote s"
| "stringify (JArr xs) = ''['' @ join '','' (map stringify xs) @ '']''"
| "stringify (JObj ob) =
     ''{'' @ join '','' (map (\<lambda>p. quote (fst p) @ '':'' @ stringify (snd p)) (own_entries ob)) @ ''}''"

subsection \<open>\<open>JSON.parse\<close>\<close>

definition json_ws :: "char \<Rightarrow> bool" where
  "json_ws c \<longleftrightarrow> c \<in> {CHR 0x20, CHR 0x09, CHR 0x0A, CHR 0x0D}"

abbreviation skip :: "string \<Rightarrow> string" where
  "skip \<equiv> dropWhile json_ws"

definition hex_val :: "char \<Rightarrow> nat option" where
  "hex_val c =
     (let n = (of_char c :: nat) in
      if 48 \<le> n \<and> n \<le> 57 then Some (n - 48)
      else if 97 \<le> n \<and> n \<le> 102 then Some (n - 87)
      else if 65 \<le> n \<and> n \<le> 70 then Some (n - 55)
      else None)"

definition hex4 :: "char \<Rightarrow> char \<Rightarrow> char \<Rightarrow> char \<Rightarrow> char option" where
  "hex4 a b c d =
     (case (hex_val a, hex_val b, hex_val c, hex_val d) of
        (Some i, Some j, Some k, Some l) \<Rightarrow>
          (let n = 4096 * i + 256 * j + 16 * k + l in if n < 256 then Some (char_of n) else None)
      | _ \<Rightarrow> None)"

text \<open>The body of a string literal after its opening quote: its value and the text after it.\<close>

definition simple_esc :: "char \<Rightarrow> char option" where
  "simple_esc c =
     (if c = CHR 0x22 then Some (CHR 0x22) else if c = CHR 0x5C then Some (CHR 0x5C)
      else if c = CHR 0x2F then Some (CHR 0x2F) else if c = CHR ''b'' then Some (CHR 0x08)
      else if c = CHR ''f'' then Some (CHR 0x0C) else if c = CHR ''n'' then Some (CHR 0x0A)
      else if c = CHR ''r'' then Some (CHR 0x0D) else if c = CHR ''t'' then Some (CHR 0x09)
      else None)"

fun parse_str :: "string \<Rightarrow> (string \<times> string) option" where
  "parse_str [] = None"
| "parse_str (c # s) =
     (if c = CHR 0x22 then Some ([], s)
      else if c = CHR 0x5C then
        (case s of
           [] \<Rightarrow> None
         | d # s' \<Rightarrow>
             (if d = CHR ''u'' then
                (case s' of
                   h1 # h2 # h3 # h4 # s'' \<Rightarrow>
                     (case hex4 h1 h2 h3 h4 of
                        None \<Rightarrow> None
                      | Some x \<Rightarrow> map_option (\<lambda>(t, r). (x # t, r)) (parse_str s''))
                 | _ \<Rightarrow> None)
              else
                (case simple_esc d of
                   None \<Rightarrow> None
                 | Some x \<Rightarrow> map_option (\<lambda>(t, r). (x # t, r)) (parse_str s'))))
      else if (of_char c :: nat) < 32 then None
      else map_option (\<lambda>(t, r). (c # t, r)) (parse_str s))"

text \<open>
  Recursive descent with fuel: \<open>parse_val\<close> reads one value after white space, \<open>parse_elems\<close> the
  elements of an array up to its bracket (at least one), \<open>parse_mems\<close> the members of an object.
  A repeated key keeps its first place and its last value.
\<close>

fun parse_val :: "nat \<Rightarrow> string \<Rightarrow> (json \<times> string) option"
  and parse_elems :: "nat \<Rightarrow> string \<Rightarrow> (json list \<times> string) option"
  and parse_mems :: "nat \<Rightarrow> json obj \<Rightarrow> string \<Rightarrow> (json obj \<times> string) option"
where
  "parse_val 0 s = None"
| "parse_val (Suc n) s =
     (case skip s of
        [] \<Rightarrow> None
      | c # s' \<Rightarrow>
          (if c = CHR 0x22 then map_option (\<lambda>(t, r). (JStr t, r)) (parse_str s')
           else if c = CHR ''['' then
             (case strip_prefix '']'' (skip s') of
                Some r \<Rightarrow> Some (JArr [], r)
              | None \<Rightarrow> map_option (\<lambda>(xs, r). (JArr xs, r)) (parse_elems n s'))
           else if c = CHR 0x7B then
             (case strip_prefix ''}'' (skip s') of
                Some r \<Rightarrow> Some (JObj [], r)
              | None \<Rightarrow> map_option (\<lambda>(ob, r). (JObj ob, r)) (parse_mems n [] s'))
           else if c = CHR ''t'' then map_option (\<lambda>r. (JBool True, r)) (strip_prefix ''rue'' s')
           else if c = CHR ''f'' then map_option (\<lambda>r. (JBool False, r)) (strip_prefix ''alse'' s')
           else if c = CHR ''n'' then map_option (\<lambda>r. (JNull, r)) (strip_prefix ''ull'' s')
           else map_option (\<lambda>(x, r). (JNum x, r)) (parse_num (c # s'))))"
| "parse_elems 0 s = None"
| "parse_elems (Suc n) s =
     (case parse_val n s of
        None \<Rightarrow> None
      | Some (v, r) \<Rightarrow>
          (case skip r of
             [] \<Rightarrow> None
           | c # r' \<Rightarrow>
               (if c = CHR '','' then map_option (\<lambda>(vs, r''). (v # vs, r'')) (parse_elems n r')
                else if c = CHR '']'' then Some ([v], r')
                else None)))"
| "parse_mems 0 ob s = None"
| "parse_mems (Suc n) ob s =
     (case strip_prefix [CHR 0x22] (skip s) of
        None \<Rightarrow> None
      | Some s' \<Rightarrow>
          (case parse_str s' of
             None \<Rightarrow> None
           | Some (k, r) \<Rightarrow>
               (case strip_prefix '':'' (skip r) of
                  None \<Rightarrow> None
                | Some r' \<Rightarrow>
                    (case parse_val n r' of
                       None \<Rightarrow> None
                     | Some (v, r'') \<Rightarrow>
                         (case skip r'' of
                            [] \<Rightarrow> None
                          | c # q \<Rightarrow>
                              (if c = CHR '','' then parse_mems n (oput k v ob) q
                               else if c = CHR 0x7D then Some (oput k v ob, q)
                               else None))))))"

definition json_parse :: "string \<Rightarrow> json option" where
  "json_parse s =
     (case parse_val (2 * length s + 2) s of
        Some (v, r) \<Rightarrow> if skip r = [] then Some v else None
      | None \<Rightarrow> None)"

subsection \<open>Reading values\<close>

text \<open>Truthiness of a parsed value, and property reads (\<open>None\<close> is undefined).\<close>

fun jtruthy :: "json \<Rightarrow> bool" where
  "jtruthy JNull = False"
| "jtruthy (JBool b) = b"
| "jtruthy (JNum x) = (mant x \<noteq> 0)"
| "jtruthy (JStr s) = (s \<noteq> [])"
| "jtruthy _ = True"

fun jfield :: "string \<Rightarrow> json \<Rightarrow> json option" where
  "jfield k (JObj ob) = oget ob k"
| "jfield k _ = None"

fun jindex0 :: "json \<Rightarrow> json option" where
  "jindex0 (JArr (v # _)) = Some v"
| "jindex0 (JObj ob) = oget ob ''0''"
| "jindex0 (JStr (c # _)) = Some (JStr [c])"
| "jindex0 _ = None"

text \<open>Objects and arrays as the sources tell them apart: \<open>typeof v === 'object'\<close>, not null, not an array.\<close>

definition is_plain_object :: "json \<Rightarrow> bool" where
  "is_plain_object v \<longleftrightarrow> (case v of JObj _ \<Rightarrow> True | _ \<Rightarrow> False)"

text \<open>Object spread \<open>{...a, ...b}\<close>.\<close>

definition spread :: "'v obj \<Rightarrow> 'v obj \<Rightarrow> 'v obj" where
  "spread a b = foldl (\<lambda>ob p. oput (fst p) (snd p) ob) a b"

lemma oget_spread: "owf b \<Longrightarrow> oget (spread a b) k = (case oget b k of None \<Rightarrow> oget a k | Some v \<Rightarrow> Some v)"
proof (induction b arbitrary: a)
  case Nil
  then show ?case by (simp add: spread_def)
next
  case (Cons p b)
  from Cons.prems have "owf b" and fr: "fst p \<notin> fst ` set b" by (auto simp: owf_def)
  have "oget (spread a (p # b)) k = oget (spread (oput (fst p) (snd p) a) b) k"
    by (simp add: spread_def)
  also have "\<dots> = (case oget b k of None \<Rightarrow> oget (oput (fst p) (snd p) a) k | Some v \<Rightarrow> Some v)"
    by (rule Cons.IH) fact
  finally show ?case using fr
    by (cases p) (auto split: option.splits simp: map_of_eq_None_iff [THEN iffD2])
qed

lemma owf_spread: "owf a \<Longrightarrow> owf (spread a b)"
  by (induction b arbitrary: a) (auto simp: spread_def owf_oput)

text \<open>\<open>String(v)\<close> of a JSON value: arrays join their elements with commas, null elements as empty text.\<close>

fun js_String :: "json \<Rightarrow> string" where
  "js_String JNull = ''null''"
| "js_String (JBool b) = (if b then ''true'' else ''false'')"
| "js_String (JNum x) = show_num x"
| "js_String (JStr s) = s"
| "js_String (JArr xs) = join '','' (map (\<lambda>v. if v = JNull then '''' else js_String v) xs)"
| "js_String (JObj ob) = ''[object Object]''"

end
