(* ===== verification/JsJsonFacts.thy ===== *)
theory JsJsonFacts
  imports JsJson
begin

text \<open>
  Facts on JSON text: the round trip of numbers, strings and values.
\<close>

subsection \<open>Numbers\<close>

lemma canon_pow: "m mod 10 \<noteq> 0 \<Longrightarrow> canon (m * 10 ^ j) e = Dec m (e + int j)"
proof (induction j arbitrary: e)
  case 0
  then show ?case by (subst canon.simps) auto
next
  case (Suc j)
  have nz: "m \<noteq> 0" using Suc.prems by auto
  have d: "m * 10 ^ Suc j div 10 = m * 10 ^ j" "m * 10 ^ Suc j mod 10 = 0" by auto
  have "canon (m * 10 ^ Suc j) e = canon (m * 10 ^ j) (e + 1)"
    by (subst canon.simps) (simp only: d, use nz in simp)
  then show ?case using Suc by (simp add: algebra_simps)
qed

definition wf_num :: "num \<Rightarrow> bool" where
  "wf_num x \<longleftrightarrow> (if mant x = 0 then expo x = 0 else mant x mod 10 \<noteq> 0)"

lemma canon_wf: "wf_num x \<Longrightarrow> canon (mant x) (expo x) = x"
  by (cases x, subst canon.simps) (auto simp: wf_num_def split: if_splits)

lemma wf_canon: "wf_num (canon m e)"
proof (induction m e rule: canon.induct)
  case (1 m e)
  then show ?case by (subst canon.simps) (auto simp: wf_num_def)
qed

lemma read_nat_append: "read_nat (s @ t) = read_nat s * 10 ^ length t + read_nat t"
proof (induction t rule: rev_induct)
  case Nil
  then show ?case by simp
next
  case (snoc c t)
  have "read_nat (s @ t @ [c]) = 10 * read_nat (s @ t) + digit_val c"
    using read_nat_snoc [of "s @ t" c] by simp
  then show ?case using snoc by (simp add: algebra_simps)
qed

lemma digit_val_0: "digit_val CHR ''0'' = 0"
  by (simp add: digit_val_def)

lemma is_digit_0: "is_digit CHR ''0''"
  by (simp add: is_digit_def)

lemma read_nat_zeros [simp]: "read_nat (replicate j CHR ''0'') = 0"
proof (induction j)
  case (Suc j)
  have "replicate (Suc j) CHR ''0'' = replicate j CHR ''0'' @ [CHR ''0'']"
    by (simp add: replicate_append_same)
  then show ?case using Suc read_nat_snoc by (simp add: digit_val_0 del: replicate.simps)
qed simp

text \<open>What may follow a number: nothing, or a character that cannot continue it.\<close>

definition num_end :: "string \<Rightarrow> bool" where
  "num_end r \<longleftrightarrow> r = [] \<or> (\<not> is_digit (hd r) \<and> hd r \<notin> {CHR ''.'', CHR ''e'', CHR ''E''})"

lemma span_digits_append:
  assumes "\<forall>c \<in> set ds. is_digit c" and "r = [] \<or> \<not> is_digit (hd r)"
  shows "span_digits (ds @ r) = (ds, r)"
  using assms by (cases r) (auto simp: span_digits_def takeWhile_append2 dropWhile_append2)

lemma parse_frac_end: "num_end r \<Longrightarrow> parse_frac r = Some ([], r)"
  by (cases r) (auto simp: parse_frac_def num_end_def)

lemma parse_exp_end: "num_end r \<Longrightarrow> parse_exp r = Some (0, r)"
  by (cases r) (auto simp: parse_exp_def num_end_def)

lemma digit_not_minus: "is_digit c \<Longrightarrow> c \<noteq> CHR ''-'' \<and> c \<noteq> CHR ''+'' \<and> c \<noteq> CHR ''.''"
  by (auto simp: is_digit_def)

lemma opt_minus_digits: "ds \<noteq> [] \<Longrightarrow> is_digit (hd ds) \<Longrightarrow> opt_minus (ds @ r) = (False, ds @ r)"
  by (cases ds) (auto simp: opt_minus_def dest: digit_not_minus)

lemma parse_frac_digits:
  assumes "fs \<noteq> []" "\<forall>c \<in> set fs. is_digit c" "r = [] \<or> \<not> is_digit (hd r)"
  shows "parse_frac (CHR ''.'' # fs @ r) = Some (fs, r)"
  using assms by (simp add: parse_frac_def span_digits_append)

text \<open>The exponent part as \<^const>\<open>show_num\<close> prints it.\<close>

definition exp_text :: "int \<Rightarrow> string" where
  "exp_text ex = ''e'' @ (if ex < 0 then ''-'' else ''+'') @ show_nat (nat \<bar>ex\<bar>)"

lemma parse_exp_text:
  assumes "num_end r"
  shows "parse_exp (exp_text ex @ r) = Some (ex, r)"
proof -
  have "span_digits (show_nat (nat \<bar>ex\<bar>) @ r) = (show_nat (nat \<bar>ex\<bar>), r)"
    using assms show_nat_digits by (intro span_digits_append) (auto simp: num_end_def)
  then show ?thesis by (auto simp: parse_exp_def exp_text_def opt_sign_def opt_minus_def)
qed

text \<open>The general shape of a number's text: sign, integer digits, fraction, exponent.\<close>

lemma parse_num_shape:
  assumes ds: "ds \<noteq> []" "\<forall>c \<in> set ds. is_digit c" "length ds = 1 \<or> hd ds \<noteq> CHR ''0''"
    and fs: "\<forall>c \<in> set fs. is_digit c"
    and ex: "et = '''' \<and> ex = 0 \<or> et = exp_text ex"
    and r: "num_end r"
  shows "parse_num ((if neg then ''-'' else '''') @ ds @ (if fs = [] then '''' else ''.'' @ fs) @ et @ r)
    = Some (canon ((if neg then -1 else 1) * int (read_nat (ds @ fs))) (ex - int (length fs)), r)"
proof -
  let ?tail = "(if fs = [] then '''' else ''.'' @ fs) @ et @ r"
  have hd_tail: "?tail = [] \<or> \<not> is_digit (hd ?tail)"
    using ex r by (auto simp: num_end_def exp_text_def is_digit_def)
  have et_hd: "et @ r = [] \<or> \<not> is_digit (hd (et @ r))"
    using ex r by (auto simp: num_end_def exp_text_def is_digit_def)
  have pe: "parse_exp (et @ r) = Some (ex, r)"
    using ex r by (auto simp: parse_exp_end parse_exp_text)
  have pf: "parse_frac ?tail = Some (fs, et @ r)"
  proof (cases "fs = []")
    case True
    have "hd (et @ r) \<noteq> CHR ''.''" if "et @ r \<noteq> []"
      using that ex r by (auto simp: num_end_def exp_text_def)
    then have "strip_prefix ''.'' (et @ r) = None" by (cases "et @ r") auto
    with True show ?thesis by (simp add: parse_frac_def)
  next
    case False
    then show ?thesis using fs et_hd by (simp add: parse_frac_digits)
  qed
  have om: "opt_minus ((if neg then ''-'' else '''') @ ds @ ?tail) = (neg, ds @ ?tail)"
  proof (cases neg)
    case True
    then show ?thesis by (simp add: opt_minus_def)
  next
    case False
    have "is_digit (hd ds)" using ds by simp
    with False show ?thesis using opt_minus_digits [OF ds(1), of ?tail] by simp
  qed
  have sp: "span_digits (ds @ ?tail) = (ds, ?tail)"
    by (rule span_digits_append [OF ds(2) hd_tail])
  have lead: "\<not> (ds = [] \<or> 1 < length ds \<and> hd ds = CHR ''0'')" using ds by auto
  show ?thesis
    unfolding parse_num_def om prod.case sp using lead pf pe by (auto simp: Let_def)
qed

theorem parse_show_num:
  assumes w: "wf_num x" and r: "num_end r"
  shows "parse_num (show_num x @ r) = Some (x, r)"
proof (cases "mant x = 0")
  case True
  then have "x = Dec 0 0" using w by (cases x) (auto simp: wf_num_def)
  moreover have "canon 0 0 = Dec 0 0" by (subst canon.simps) simp
  ultimately show ?thesis
    using parse_num_shape [of "''0''" "[]" "[]" 0 r False] r
    by (simp add: show_num_def is_digit_0 read_nat_def digit_val_0)
next
  case False
  define neg where "neg = (mant x < 0)"
  define N where "N = nat \<bar>mant x\<bar>"
  define ds where "ds = show_nat N"
  define k where "k = int (length ds)"
  define n where "n = k + expo x"
  have N0: "N \<noteq> 0" using False by (simp add: N_def)
  have dg: "\<forall>c \<in> set ds. is_digit c" using show_nat_digits by (auto simp: ds_def)
  have ne: "ds \<noteq> []" by (simp add: ds_def)
  have h0: "hd ds \<noteq> CHR ''0''" using N0 by (simp add: ds_def show_nat_hd)
  have rd: "read_nat ds = N" by (simp add: ds_def)
  have sg: "(if neg then -1 else 1) * int N = mant x" by (simp add: neg_def N_def)
  have m10: "mant x mod 10 \<noteq> 0" using w False by (simp add: wf_num_def)
  have cw: "canon (mant x) (expo x) = x" by (rule canon_wf [OF w])
  have kpos: "1 \<le> k" using ne by (cases ds) (auto simp: k_def)
  note sh = show_num_def Let_def ds_def [symmetric] N_def [symmetric] k_def [symmetric] n_def [symmetric]
  have sgn: "(if mant x < 0 then ''-'' @ b else b) = (if neg then ''-'' else '''') @ b" for b
    by (simp add: neg_def)
  consider (int) "k \<le> n" "n \<le> 21" | (dec) "0 < n" "n < k" "n \<le> 21" | (small) "-6 < n" "n \<le> 0"
    | (sci) "\<not> (k \<le> n \<and> n \<le> 21)" "\<not> (0 < n \<and> n \<le> 21)" "\<not> (-6 < n \<and> n \<le> 0)"
    by linarith
  then show ?thesis
  proof cases
    case int
    let ?j = "nat (n - k)"
    have t: "show_num x = (if neg then ''-'' else '''') @ ds @ replicate ?j CHR ''0''"
      using int False by (simp only: sh sgn) simp
    have zd: "\<forall>c \<in> set (ds @ replicate ?j CHR ''0''). is_digit c"
      using dg by (auto simp: is_digit_0 set_replicate_conv_if)
    have rn: "read_nat (ds @ replicate ?j CHR ''0'') = N * 10 ^ ?j"
      by (simp add: read_nat_append rd)
    have "parse_num (show_num x @ r)
      = Some (canon ((if neg then -1 else 1) * int (N * 10 ^ ?j)) 0, r)"
      using parse_num_shape [of "ds @ replicate ?j CHR ''0''" "[]" "[]" 0 r neg] ne dg h0 r zd
      by (auto simp: t rn)
    also have "(if neg then -1 else 1) * int (N * 10 ^ ?j) = mant x * 10 ^ ?j"
      using sg by (simp add: mult.assoc [symmetric])
    also have "canon (mant x * 10 ^ ?j) 0 = Dec (mant x) (0 + int ?j)" by (rule canon_pow [OF m10])
    also have "0 + int ?j = expo x" using int by (simp add: n_def)
    finally show ?thesis by simp
  next
    case dec
    let ?a = "take (nat n) ds" and ?b = "drop (nat n) ds"
    have len: "nat n < length ds" using dec by (simp add: k_def)
    have t: "show_num x = (if neg then ''-'' else '''') @ ?a @ ''.'' @ ?b"
      using dec False by (simp only: sh sgn) simp
    have abd: "\<forall>c \<in> set ?a. is_digit c" "\<forall>c \<in> set ?b. is_digit c"
      using dg by (auto dest: in_set_takeD in_set_dropD)
    have bne: "?b \<noteq> []" using len by simp
    have ha: "hd ?a = hd ds" using dec ne by (cases ds) (auto simp: take_Cons')
    have "parse_num (show_num x @ r)
      = Some (canon ((if neg then -1 else 1) * int (read_nat (?a @ ?b))) (0 - int (length ?b)), r)"
      using parse_num_shape [of ?a ?b "[]" 0 r neg] dec ne abd h0 r bne ha
      by (auto simp: t)
    also have "read_nat (?a @ ?b) = N" using rd by simp
    also have "0 - int (length ?b) = expo x" using dec len by (simp add: n_def k_def)
    finally show ?thesis using sg cw by simp
  next
    case small
    let ?z = "replicate (nat (- n)) CHR ''0''"
    have zd: "\<forall>c \<in> set (?z @ ds). is_digit c"
      using dg by (auto simp: is_digit_0 set_replicate_conv_if)
    have t: "show_num x = (if neg then ''-'' else '''') @ ''0'' @ ''.'' @ ?z @ ds"
      using small False kpos by (simp only: sh sgn) simp
    have "parse_num (show_num x @ r)
      = Some (canon ((if neg then -1 else 1) * int (read_nat (''0'' @ ?z @ ds))) (0 - int (length (?z @ ds))), r)"
      using parse_num_shape [of "''0''" "?z @ ds" "[]" 0 r neg] ne zd r
      by (auto simp: t is_digit_0)
    also have "read_nat (''0'' @ ?z @ ds) = N"
    proof -
      have z0: "read_nat ''0'' = 0" using read_nat_snoc [of "[]" "CHR ''0''"] by (simp add: digit_val_0)
      show ?thesis unfolding read_nat_append [of "''0''"] read_nat_append [of ?z ds] z0 rd by simp
    qed
    also have "0 - int (length (?z @ ds)) = expo x" using small by (simp add: n_def k_def)
    finally show ?thesis using sg cw by simp
  next
    case sci
    let ?a = "take 1 ds" and ?b = "drop 1 ds"
    have abd: "\<forall>c \<in> set ?a. is_digit c" "\<forall>c \<in> set ?b. is_digit c"
      using dg by (auto dest: in_set_takeD in_set_dropD)
    have la: "length ?a = 1" using ne by (cases ds) auto
    have "show_num x = (if neg then ''-'' else '''')
      @ (if k = 1 then ds @ exp_text (n - 1) else ?a @ ''.'' @ ?b @ exp_text (n - 1))"
      using sci False by (simp only: sh sgn exp_text_def) auto
    moreover have "?b = [] \<longleftrightarrow> k = 1" "k = 1 \<Longrightarrow> ?a = ds"
      using kpos by (auto simp: k_def)
    ultimately have t: "show_num x = (if neg then ''-'' else '''') @ ?a
      @ (if ?b = [] then '''' else ''.'' @ ?b) @ exp_text (n - 1)"
      by auto
    have "parse_num (show_num x @ r)
      = Some (canon ((if neg then -1 else 1) * int (read_nat (?a @ ?b))) (n - 1 - int (length ?b)), r)"
      using parse_num_shape [of ?a ?b "exp_text (n - 1)" "n - 1" r neg] ne abd la r
      by (auto simp: t)
    also have "read_nat (?a @ ?b) = N" using rd by simp
    also have "n - 1 - int (length ?b) = expo x" using kpos by (simp add: n_def k_def)
    finally show ?thesis using sg cw by simp
  qed
qed

subsection \<open>Strings\<close>

lemma hex_val_char: "d < 16 \<Longrightarrow> hex_val (hex_char d) = Some d"
  by (auto simp: hex_val_def hex_char_def Let_def)

lemma hex_val_0: "hex_val CHR ''0'' = Some 0"
  by (simp add: hex_val_def)

lemma hex4_char:
  assumes "(of_char c :: nat) < 32"
  shows "hex4 CHR ''0'' CHR ''0'' (hex_char (of_char c div 16)) (hex_char (of_char c mod 16)) = Some c"
proof -
  have "(of_char c :: nat) div 16 < 16" using assms by simp
  then show ?thesis using assms by (simp add: hex4_def hex_val_0 hex_val_char Let_def)
qed

lemma parse_str_esc:
  "parse_str (esc_char c @ t) = map_option (\<lambda>(u, r). (c # u, r)) (parse_str t)"
proof -
  have "parse_str ([CHR 0x5C, CHR ''u'', CHR ''0'', CHR ''0'', hex_char (of_char c div 16), hex_char (of_char c mod 16)] @ t)
      = map_option (\<lambda>(u, r). (c # u, r)) (parse_str t)" if "(of_char c :: nat) < 32"
    using hex4_char [OF that] by simp
  then show ?thesis
    unfolding esc_char_def by (simp add: simple_esc_def)
qed

lemma parse_str_body: "parse_str (concat (map esc_char s) @ CHR 0x22 # r) = Some (s, r)"
  by (induction s) (simp_all add: parse_str_esc)

subsection \<open>Values\<close>

fun wf_json :: "json \<Rightarrow> bool" where
  "wf_json (JNum x) = wf_num x"
| "wf_json (JArr xs) = (\<forall>x \<in> set xs. wf_json x)"
| "wf_json (JObj ob) = (owf ob \<and> own_entries ob = ob \<and> (\<forall>p \<in> set ob. wf_json (snd p)))"
| "wf_json _ = True"

text \<open>What may follow a value: nothing, a comma or a closing bracket.\<close>

definition val_end :: "string \<Rightarrow> bool" where
  "val_end r \<longleftrightarrow> r = [] \<or> hd r \<in> {CHR '','', CHR '']'', CHR 0x7D}"

lemma val_end_num: "val_end r \<Longrightarrow> num_end r"
  by (auto simp: val_end_def num_end_def is_digit_def)

lemma val_end_simps [simp]: "val_end []" "val_end (CHR '','' # r)" "val_end (CHR '']'' # r)" "val_end (CHR 0x7D # r)"
  by (auto simp: val_end_def)

definition num_start :: "char \<Rightarrow> bool" where
  "num_start c \<longleftrightarrow> c = CHR ''-'' \<or> is_digit c"

lemma hd_show_nat_digit: "is_digit (hd (show_nat n))"
  using show_nat_digits [of "hd (show_nat n)" n] by simp

lemma show_num_hd: "\<exists>c t. show_num x = c # t \<and> num_start c"
proof -
  obtain d ds where ds: "show_nat (nat \<bar>mant x\<bar>) = d # ds" by (cases "show_nat (nat \<bar>mant x\<bar>)") auto
  then have "is_digit d" using hd_show_nat_digit [of "nat \<bar>mant x\<bar>"] by simp
  then show ?thesis
    by (auto simp: show_num_def Let_def ds num_start_def is_digit_0 take_Cons')
qed

lemma num_start_branch:
  "num_start c \<Longrightarrow> \<not> json_ws c \<and> c \<notin> {CHR 0x22, CHR ''['', CHR 0x7B, CHR ''t'', CHR ''f'', CHR ''n'', CHR '']'', CHR 0x7D}"
  by (auto simp: num_start_def is_digit_def json_ws_def)

lemma stringify_hd:
  "\<exists>c t. stringify v = c # t \<and> \<not> json_ws c \<and> c \<noteq> CHR '']'' \<and> c \<noteq> CHR 0x7D"
proof (cases v)
  case (JNum x)
  then show ?thesis using show_num_hd [of x] num_start_branch by fastforce
qed (auto simp: json_ws_def quote_def)

lemma skip_stringify [simp]: "skip (stringify v @ r) = stringify v @ r"
  using stringify_hd [of v] by auto

lemma length_stringify_pos: "0 < length (stringify v)"
  using stringify_hd [of v] by auto

lemma parse_val_num:
  assumes "wf_num x" "val_end r"
  shows "parse_val (Suc n) (show_num x @ r) = Some (JNum x, r)"
proof -
  obtain c t where c: "show_num x = c # t" "num_start c" using show_num_hd by blast
  have "parse_num (c # t @ r) = Some (x, r)"
    using parse_show_num [OF assms(1) val_end_num [OF assms(2)]] c by simp
  then show ?thesis using c num_start_branch [OF c(2)] by simp
qed

lemma parse_elems_join:
  assumes "xs \<noteq> []"
    and IH: "\<And>x n r. x \<in> set xs \<Longrightarrow> length (stringify x) \<le> n \<Longrightarrow> val_end r
      \<Longrightarrow> parse_val n (stringify x @ r) = Some (x, r)"
    and "length (join '','' (map stringify xs)) < n"
  shows "parse_elems n (join '','' (map stringify xs) @ CHR '']'' # r) = Some (xs, r)"
  using assms
proof (induction xs arbitrary: n)
  case Nil
  then show ?case by simp
next
  case (Cons x xs)
  from Cons.prems(3) obtain m where n: "n = Suc m" by (cases n) auto
  have hx: "parse_val m (stringify x @ q) = Some (x, q)" if "val_end q" for q
    using Cons.prems(3) length_join_hd [of "stringify x" "'',''" "map stringify xs"] that n
    by (intro Cons.prems(2)) auto
  show ?case
  proof (cases "xs = []")
    case True
    then show ?thesis using hx n by (simp add: json_ws_def)
  next
    case False
    then have j: "join '','' (map stringify (x # xs)) = stringify x @ '','' @ join '','' (map stringify xs)"
      by (simp add: join_Cons)
    have "parse_elems m (join '','' (map stringify xs) @ CHR '']'' # r) = Some (xs, r)"
      using False Cons.prems n j by (intro Cons.IH) auto
    then show ?thesis using hx n j by (simp add: json_ws_def)
  qed
qed

definition member_text :: "string \<times> json \<Rightarrow> string" where
  "member_text p = quote (fst p) @ '':'' @ stringify (snd p)"

lemma parse_mems_step:
  "parse_mems (Suc m) acc (member_text p @ q)
    = (case parse_val m (stringify (snd p) @ q) of
         None \<Rightarrow> None
       | Some (v, r'') \<Rightarrow>
           (case skip r'' of
              [] \<Rightarrow> None
            | c # q \<Rightarrow>
                (if c = CHR '','' then parse_mems m (oput (fst p) v acc) q
                 else if c = CHR 0x7D then Some (oput (fst p) v acc, q)
                 else None)))"
  by (simp add: member_text_def quote_def json_ws_def parse_str_body)

lemma oput_fresh: "k \<notin> fst ` set ob \<Longrightarrow> oput k v ob = ob @ [(k, v)]"
  by (induction ob) auto

lemma parse_mems_join:
  assumes "ob \<noteq> []"
    and IH: "\<And>p n r. p \<in> set ob \<Longrightarrow> length (stringify (snd p)) \<le> n \<Longrightarrow> val_end r
      \<Longrightarrow> parse_val n (stringify (snd p) @ r) = Some (snd p, r)"
    and "length (join '','' (map member_text ob)) < n"
    and "distinct (map fst (acc @ ob))"
  shows "parse_mems n acc (join '','' (map member_text ob) @ CHR 0x7D # r) = Some (acc @ ob, r)"
  using assms
proof (induction ob arbitrary: n acc)
  case Nil
  then show ?case by simp
next
  case (Cons p ob)
  from Cons.prems(3) obtain m where n: "n = Suc m" by (cases n) auto
  have len: "length (stringify (snd p)) \<le> m"
  proof -
    have "length (stringify (snd p)) < length (member_text p)" by (simp add: member_text_def)
    also have "\<dots> \<le> length (join '','' (map member_text (p # ob)))"
      using length_join_hd by simp
    finally show ?thesis using Cons.prems(3) n by simp
  qed
  have hp: "parse_val m (stringify (snd p) @ q) = Some (snd p, q)" if "val_end q" for q
    using Cons.prems(2) len that by simp
  have fresh: "oput (fst p) (snd p) acc = acc @ [p]"
    using Cons.prems(4) by (subst oput_fresh) auto
  show ?case
  proof (cases "ob = []")
    case True
    then show ?thesis using hp n fresh by (simp add: parse_mems_step json_ws_def del: parse_mems.simps)
  next
    case False
    then have j: "join '','' (map member_text (p # ob)) = member_text p @ '','' @ join '','' (map member_text ob)"
      by (simp add: join_Cons)
    have "parse_mems m (acc @ [p]) (join '','' (map member_text ob) @ CHR 0x7D # r) = Some ((acc @ [p]) @ ob, r)"
      using False Cons.prems n j by (intro Cons.IH) auto
    then show ?thesis using hp n j fresh by (simp add: parse_mems_step json_ws_def del: parse_mems.simps)
  qed
qed

lemma stringify_JObj: "own_entries ob = ob \<Longrightarrow>
  stringify (JObj ob) = ''{'' @ join '','' (map member_text ob) @ ''}''"
  by (simp add: member_text_def [abs_def])

theorem parse_stringify_val:
  "wf_json v \<Longrightarrow> length (stringify v) \<le> n \<Longrightarrow> val_end r \<Longrightarrow> parse_val n (stringify v @ r) = Some (v, r)"
proof (induction v arbitrary: n r)
  case JNull
  then show ?case by (cases n) (auto simp: json_ws_def)
next
  case (JBool b)
  then show ?case by (cases n; cases b) (auto simp: json_ws_def)
next
  case (JNum x)
  then obtain m where "n = Suc m" using length_stringify_pos [of "JNum x"] by (cases n) auto
  then show ?case using parse_val_num [of x r m] JNum.prems by simp
next
  case (JStr s)
  then show ?case by (cases n) (auto simp: quote_def json_ws_def parse_str_body)
next
  case (JArr xs)
  then obtain m where n: "n = Suc m" by (cases n) auto
  show ?case
  proof (cases "xs = []")
    case True
    then show ?thesis using n by (simp add: json_ws_def)
  next
    case False
    obtain c t where c: "join '','' (map stringify xs) = c # t" "\<not> json_ws c" "c \<noteq> CHR '']''"
    proof -
      from False obtain y ys where xs: "xs = y # ys" by (cases xs) auto
      from stringify_hd [of y] show thesis
        using that xs by (cases ys) auto
    qed
    have "parse_elems m (join '','' (map stringify xs) @ CHR '']'' # r) = Some (xs, r)"
      using False JArr n by (intro parse_elems_join) auto
    then show ?thesis using n c by (simp add: json_ws_def)
  qed
next
  case (JObj ob)
  then have oe: "own_entries ob = ob" by simp
  from JObj obtain m where n: "n = Suc m" by (cases n) auto
  show ?case
  proof (cases "ob = []")
    case True
    then show ?thesis using n by (simp add: json_ws_def own_entries_def)
  next
    case False
    obtain t where t: "join '','' (map member_text ob) = CHR 0x22 # t"
    proof -
      from False obtain p ps where "ob = p # ps" by (cases ob) auto
      then show thesis using that by (cases ps) (auto simp: member_text_def quote_def)
    qed
    have "parse_mems m [] (join '','' (map member_text ob) @ CHR 0x7D # r) = Some ([] @ ob, r)"
      using False JObj.prems n oe unfolding stringify_JObj [OF oe]
      by (intro parse_mems_join) (auto simp: owf_def intro: JObj.IH)
    then show ?thesis using n t unfolding stringify_JObj [OF oe] by (simp add: json_ws_def)
  qed
qed

theorem json_parse_stringify:
  assumes "wf_json v"
  shows "json_parse (stringify v) = Some v"
proof -
  have "parse_val (2 * length (stringify v) + 2) (stringify v @ []) = Some (v, [])"
    using assms by (intro parse_stringify_val) auto
  then show ?thesis by (simp add: json_parse_def)
qed

subsection \<open>Well-formed objects under assignment and deletion\<close>

lemma filter_oput_other: "\<not> P k \<Longrightarrow> filter (\<lambda>p. P (fst p)) (oput k v ob) = filter (\<lambda>p. P (fst p)) ob"
  by (induction k v ob rule: oput.induct) auto

lemma filter_oput_same: "P k \<Longrightarrow> filter (\<lambda>p. P (fst p)) (oput k v ob) = oput k v (filter (\<lambda>p. P (fst p)) ob)"
  by (induction k v ob rule: oput.induct) auto

lemma oput_append: "k \<notin> fst ` set xs \<Longrightarrow> oput k v (xs @ ys) = xs @ oput k v ys"
  by (induction k v xs rule: oput.induct) auto

lemma own_entries_oput: "\<not> is_index k \<Longrightarrow> own_entries (oput k v ob) = oput k v (own_entries ob)"
proof -
  assume k: "\<not> is_index k"
  then have "k \<notin> fst ` set (sort_key (\<lambda>p. read_nat (fst p)) (filter (\<lambda>p. is_index (fst p)) ob))" by auto
  with k show ?thesis
    unfolding own_entries_def
    using filter_oput_same [of "\<lambda>k. \<not> is_index k" k v ob] filter_oput_other [of is_index k v ob]
    by (simp add: oput_append)
qed

lemma set_oput: "p \<in> set (oput k v ob) \<Longrightarrow> p = (k, v) \<or> p \<in> set ob"
  by (induction k v ob rule: oput.induct) (auto split: if_splits)

lemma wf_json_oput:
  "wf_json (JObj ob) \<Longrightarrow> \<not> is_index k \<Longrightarrow> wf_json v \<Longrightarrow> wf_json (JObj (oput k v ob))"
  by (auto simp: own_entries_oput dest!: set_oput)

lemma own_entries_odel: "\<not> is_index k \<Longrightarrow> own_entries (odel k ob) = odel k (own_entries ob)"
proof -
  assume k: "\<not> is_index k"
  have id: "filter (\<lambda>p. is_index (fst p)) (filter (\<lambda>p. fst p \<noteq> k) ob) = filter (\<lambda>p. is_index (fst p)) ob"
    using k by (auto simp: filter_filter intro: filter_cong)
  have "filter (\<lambda>p. fst p \<noteq> k) (sort_key (\<lambda>p. read_nat (fst p)) (filter (\<lambda>p. is_index (fst p)) ob))
      = sort_key (\<lambda>p. read_nat (fst p)) (filter (\<lambda>p. is_index (fst p)) ob)"
    using k by (auto simp: filter_id_conv)
  moreover have "filter (\<lambda>p. \<not> is_index (fst p)) (filter (\<lambda>p. fst p \<noteq> k) ob)
      = filter (\<lambda>p. fst p \<noteq> k) (filter (\<lambda>p. \<not> is_index (fst p)) ob)"
    by (simp add: filter_filter conj_commute)
  ultimately show ?thesis
    unfolding own_entries_def odel_def id by simp
qed

lemma wf_json_odel: "wf_json (JObj ob) \<Longrightarrow> \<not> is_index k \<Longrightarrow> wf_json (JObj (odel k ob))"
  by (auto simp: own_entries_odel owf_odel) (auto simp: odel_def)

text \<open>The integers among the numbers: what \<open>Number.isInteger\<close> accepts.\<close>

definition int_of_num :: "num \<Rightarrow> int option" where
  "int_of_num x = (if 0 \<le> expo x then Some (mant x * 10 ^ nat (expo x)) else None)"

lemma canon_is_int: "0 \<le> e \<Longrightarrow> int_of_num (canon m e) = Some (m * 10 ^ nat e)"
proof (induction m e rule: canon.induct)
  case (1 m e)
  show ?case
  proof (cases "m \<noteq> 0 \<and> m mod 10 = 0")
    case True
    then obtain q where q: "m = 10 * q" by (auto simp: mod_eq_0_iff_dvd elim: dvdE)
    have "canon m e = canon (m div 10) (e + 1)" using True by (subst canon.simps) simp
    moreover have "int_of_num (canon (m div 10) (e + 1)) = Some (m div 10 * 10 ^ nat (e + 1))"
      using 1 True by auto
    moreover have "m div 10 * 10 ^ nat (e + 1) = m * 10 ^ nat e"
      using 1 by (simp add: q nat_add_distrib)
    ultimately show ?thesis by simp
  next
    case False
    then show ?thesis using 1 by (subst canon.simps) (auto simp: int_of_num_def)
  qed
qed

lemma int_of_num_of_int [simp]: "int_of_num (num_of_int i) = Some i"
  by (simp add: num_of_int_def canon_is_int)

lemma not_index_start: "k \<noteq> [] \<Longrightarrow> \<not> is_digit (hd k) \<Longrightarrow> \<not> is_index k"
  by (cases k) (auto simp: is_index_def)

lemma not_digit_letters [simp]:
  "\<not> is_digit CHR ''k''" "\<not> is_digit CHR ''f''" "\<not> is_digit CHR ''v''" "\<not> is_digit CHR ''s''"
  "\<not> is_digit CHR ''r''" "\<not> is_digit CHR ''i''" "\<not> is_digit CHR ''e''" "\<not> is_digit CHR ''c''"
  "\<not> is_digit CHR ''a''" "\<not> is_digit CHR ''o''" "\<not> is_digit CHR ''u''" "\<not> is_digit CHR ''p''" "\<not> is_digit CHR ''d''" "\<not> is_digit CHR ''h''" "\<not> is_digit CHR ''t''"
  by (simp_all add: is_digit_def)

lemma wf_num_of_int [simp]: "wf_num (num_of_int i)"
  by (simp add: num_of_int_def wf_canon)

lemma wf_obj:
  assumes "distinct (map fst ob)" "\<forall>p \<in> set ob. fst p \<noteq> [] \<and> \<not> is_digit (hd (fst p)) \<and> wf_json (snd p)"
  shows "wf_json (JObj ob)"
  using assms by (auto simp: owf_def own_entries_id not_index_start)

subsection \<open>The interface of a text codec\<close>

text \<open>
  What code that stores values as text relies on: on well-formed values decoding undoes encoding.
  The components that persist state use the laws of this interface; \<open>JSON.stringify\<close> and
  \<open>JSON.parse\<close> provide it.
\<close>

locale text_codec =
  fixes enc :: "'v \<Rightarrow> string"
    and dec :: "string \<Rightarrow> 'v option"
    and wf :: "'v \<Rightarrow> bool"
  assumes dec_enc: "wf v \<Longrightarrow> dec (enc v) = Some v"
begin

lemma enc_inj: "wf v \<Longrightarrow> wf w \<Longrightarrow> enc v = enc w \<Longrightarrow> v = w"
  by (metis dec_enc option.inject)

lemma reenc: "wf v \<Longrightarrow> map_option enc (dec (enc v)) = Some (enc v)"
  by (simp add: dec_enc)

end

interpretation json_text: text_codec stringify json_parse wf_json
  by unfold_locales (rule json_parse_stringify)

end
