(* ===== verification/JsStorage.thy ===== *)
theory JsStorage
  imports JsJsonFacts
begin

text \<open>
  The browser's \<open>localStorage\<close>: a string map whose calls may throw (storage disabled, quota
  reached); whether they do is part of the state, so that the callers' try/catch blocks are branches of
  the model. The locale \<open>persisted\<close> is what the components that keep a value in one slot rely on.
\<close>

record Storage =
  items :: "string obj"
  readable :: bool
  writable :: bool

definition getItem :: "string \<Rightarrow> Storage \<Rightarrow> string option option" where
  "getItem k st = (if readable st then Some (oget (items st) k) else None)"

definition setItem :: "string \<Rightarrow> string \<Rightarrow> Storage \<Rightarrow> Storage option" where
  "setItem k v st = (if writable st then Some (st\<lparr>items := oput k v (items st)\<rparr>) else None)"

definition removeItem :: "string \<Rightarrow> Storage \<Rightarrow> Storage option" where
  "removeItem k st = (if writable st then Some (st\<lparr>items := odel k (items st)\<rparr>) else None)"

text \<open>\<open>try { localStorage.setItem(k, v) } catch { ... }\<close>: a throw leaves the storage as it was.\<close>

definition try_set :: "string \<Rightarrow> string \<Rightarrow> Storage \<Rightarrow> Storage" where
  "try_set k v st = (case setItem k v st of Some st' \<Rightarrow> st' | None \<Rightarrow> st)"

definition try_get :: "string \<Rightarrow> Storage \<Rightarrow> string option" where
  "try_get k st = (case getItem k st of Some v \<Rightarrow> v | None \<Rightarrow> None)"

lemma try_get_set [simp]:
  "try_get k (try_set k' v st)
    = (if k = k' \<and> writable st \<and> readable st then Some v else try_get k st)"
  by (auto simp: try_get_def try_set_def getItem_def setItem_def)

lemma try_set_flags [simp]:
  "readable (try_set k v st) = readable st" "writable (try_set k v st) = writable st"
  by (auto simp: try_set_def setItem_def)

lemma try_set_set [simp]: "try_set k v (try_set k w st) = try_set k v st"
proof -
  have "oput k v (oput k w ob) = oput k v ob" for ob :: "string obj"
    by (induction k w ob rule: oput.induct) auto
  then show ?thesis by (auto simp: try_set_def setItem_def split: option.splits)
qed

subsection \<open>A value kept in one slot\<close>

locale persisted = text_codec enc dec wf
  for enc :: "'v \<Rightarrow> string" and dec :: "string \<Rightarrow> 'v option" and wf :: "'v \<Rightarrow> bool" +
  fixes slot :: string
begin

definition save_slot :: "'v \<Rightarrow> Storage \<Rightarrow> Storage" where
  "save_slot v = try_set slot (enc v)"

definition load_slot :: "Storage \<Rightarrow> 'v option" where
  "load_slot st = Option.bind (try_get slot st) dec"

lemma load_save:
  "wf v \<Longrightarrow> writable st \<Longrightarrow> readable st \<Longrightarrow> load_slot (save_slot v st) = Some v"
  by (simp add: load_slot_def save_slot_def dec_enc)

lemma save_last: "save_slot v (save_slot w st) = save_slot v st"
  by (simp add: save_slot_def)

lemma load_other: "k \<noteq> slot \<Longrightarrow> load_slot (try_set k x st) = load_slot st"
  by (simp add: load_slot_def)

lemma save_blocked: "\<not> writable st \<Longrightarrow> save_slot v st = st"
  by (simp add: save_slot_def try_set_def setItem_def)

end

end
