(* ===== verification/PlaygroundStorage.thy ===== *)
theory PlaygroundStorage
  imports PlaygroundMessages JsStorage
begin

text \<open>
  What the playground keeps in \<open>localStorage\<close> (\<^verbatim>\<open>features/playground/lib/storage.ts\<close>) and the state
  hook on top of it (\<^verbatim>\<open>hooks/use-playground-state.ts\<close>). Configurations are JavaScript
  objects; messages are the records of \<open>PlaygroundMessages\<close> with their JSON form. Stored text that
  is no list of messages is passed on by the code without a check: that case is a value of its own.
\<close>

definition CONFIG_KEY :: string where "CONFIG_KEY = ''playground_config''"
definition MESSAGES_KEY :: string where "MESSAGES_KEY = ''playground_messages''"
definition PARAMETER_ENABLED_KEY :: string where "PARAMETER_ENABLED_KEY = ''playground_parameter_enabled''"

definition DEFAULT_CONFIG :: "json obj" where
  "DEFAULT_CONFIG =
     [(''model'', JStr ''gpt-4o''), (''group'', JStr ''auto''), (''temperature'', JNum (Dec 7 (-1))),
      (''top_p'', JNum (Dec 1 0)), (''max_tokens'', JNum (Dec 4096 0)),
      (''frequency_penalty'', JNum (Dec 0 0)), (''presence_penalty'', JNum (Dec 0 0)),
      (''seed'', JNull), (''stream'', JBool True)]"

definition DEFAULT_PARAMETER_ENABLED :: "json obj" where
  "DEFAULT_PARAMETER_ENABLED =
     [(''temperature'', JBool True), (''top_p'', JBool True), (''max_tokens'', JBool False),
      (''frequency_penalty'', JBool True), (''presence_penalty'', JBool True), (''seed'', JBool False)]"

subsection \<open>Messages as JSON\<close>

fun role_text :: "MessageRole \<Rightarrow> string" where
  "role_text User = ''user''"
| "role_text Assistant = ''assistant''"
| "role_text System = ''system''"

definition text_role :: "string \<Rightarrow> MessageRole option" where
  "text_role t = (if t = ''user'' then Some User else if t = ''assistant'' then Some Assistant
     else if t = ''system'' then Some System else None)"

fun status_text :: "MessageStatus \<Rightarrow> string" where
  "status_text Loading = ''loading''"
| "status_text Streaming = ''streaming''"
| "status_text Complete = ''complete''"
| "status_text Error = ''error''"

definition text_status :: "string \<Rightarrow> MessageStatus option" where
  "text_status t = (if t = ''loading'' then Some Loading else if t = ''streaming'' then Some Streaming
     else if t = ''complete'' then Some Complete else if t = ''error'' then Some Error else None)"

lemma text_role_text [simp]: "text_role (role_text r) = Some r"
  by (cases r) (auto simp: text_role_def)

lemma text_status_text [simp]: "text_status (status_text st) = Some st"
  by (cases st) (auto simp: text_status_def)

text \<open>A key whose value is undefined is left out by \<open>JSON.stringify\<close>.\<close>

definition opt_entry :: "string \<Rightarrow> json option \<Rightarrow> json obj" where
  "opt_entry k v = (case v of None \<Rightarrow> [] | Some j \<Rightarrow> [(k, j)])"

definition version_json :: "MessageVersion \<Rightarrow> json" where
  "version_json v = JObj [(''id'', JStr (vid v)), (''content'', JStr (content v))]"

definition source_json :: "string \<times> string \<Rightarrow> json" where
  "source_json p = JObj [(''href'', JStr (fst p)), (''title'', JStr (snd p))]"

definition reasoning_json :: "Reasoning \<Rightarrow> json" where
  "reasoning_json r = JObj [(''content'', JStr (rcontent r)), (''duration'', JNum (num_of_int (duration r)))]"

definition error_code_json :: "string option \<Rightarrow> json" where
  "error_code_json c = (case c of None \<Rightarrow> JNull | Some t \<Rightarrow> JStr t)"

definition message_fields :: "Message \<Rightarrow> json obj" where
  "message_fields m =
     [(''key'', JStr (key m)), (''from'', JStr (role_text (mfrom m))), (''versions'', JArr (map version_json (versions m)))]
     @ opt_entry ''sources'' (map_option (\<lambda>ss. JArr (map source_json ss)) (sources m))
     @ opt_entry ''reasoning'' (map_option reasoning_json (reasoning m))
     @ opt_entry ''isReasoningStreaming'' (map_option JBool (isReasoningStreaming m))
     @ opt_entry ''isReasoningComplete'' (map_option JBool (isReasoningComplete m))
     @ opt_entry ''isContentComplete'' (map_option JBool (isContentComplete m))
     @ opt_entry ''status'' (map_option (JStr \<circ> status_text) (status m))
     @ opt_entry ''errorCode'' (map_option error_code_json (errorCode m))"

definition message_json :: "Message \<Rightarrow> json" where
  "message_json m = JObj (message_fields m)"

fun jstr :: "json \<Rightarrow> string option" where
  "jstr (JStr t) = Some t"
| "jstr _ = None"

fun jbool :: "json \<Rightarrow> bool option" where
  "jbool (JBool b) = Some b"
| "jbool _ = None"

fun jint :: "json \<Rightarrow> int option" where
  "jint (JNum x) = int_of_num x"
| "jint _ = None"

fun map_opt :: "('a \<Rightarrow> 'b option) \<Rightarrow> 'a list \<Rightarrow> 'b list option" where
  "map_opt f [] = Some []"
| "map_opt f (x # xs) = (case (f x, map_opt f xs) of (Some y, Some ys) \<Rightarrow> Some (y # ys) | _ \<Rightarrow> None)"

fun jlist :: "(json \<Rightarrow> 'a option) \<Rightarrow> json \<Rightarrow> 'a list option" where
  "jlist f (JArr xs) = map_opt f xs"
| "jlist f _ = None"

text \<open>A required field, and one that may be absent.\<close>

definition req :: "(json \<Rightarrow> 'a option) \<Rightarrow> string \<Rightarrow> json \<Rightarrow> 'a option" where
  "req f k v = Option.bind (jfield k v) f"

definition opt :: "(json \<Rightarrow> 'a option) \<Rightarrow> string \<Rightarrow> json \<Rightarrow> 'a option option" where
  "opt f k v = (case jfield k v of None \<Rightarrow> Some None | Some j \<Rightarrow> map_option Some (f j))"

definition json_version :: "json \<Rightarrow> MessageVersion option" where
  "json_version v = Option.bind (req jstr ''id'' v) (\<lambda>i. Option.bind (req jstr ''content'' v) (\<lambda>c.
     Some \<lparr>vid = i, content = c\<rparr>))"

definition json_source :: "json \<Rightarrow> (string \<times> string) option" where
  "json_source v = Option.bind (req jstr ''href'' v) (\<lambda>h. Option.bind (req jstr ''title'' v) (\<lambda>t. Some (h, t)))"

definition json_reasoning :: "json \<Rightarrow> Reasoning option" where
  "json_reasoning v = Option.bind (req jstr ''content'' v) (\<lambda>c. Option.bind (req jint ''duration'' v) (\<lambda>d.
     Some \<lparr>rcontent = c, duration = d\<rparr>))"

definition json_error_code :: "json \<Rightarrow> string option option" where
  "json_error_code v = (case v of JNull \<Rightarrow> Some None | _ \<Rightarrow> map_option Some (jstr v))"

definition json_message :: "json \<Rightarrow> Message option" where
  "json_message v =
     Option.bind (req jstr ''key'' v) (\<lambda>k.
     Option.bind (req (\<lambda>j. Option.bind (jstr j) text_role) ''from'' v) (\<lambda>r.
     Option.bind (req (jlist json_version) ''versions'' v) (\<lambda>vs.
     Option.bind (opt (jlist json_source) ''sources'' v) (\<lambda>ss.
     Option.bind (opt json_reasoning ''reasoning'' v) (\<lambda>re.
     Option.bind (opt jbool ''isReasoningStreaming'' v) (\<lambda>rs.
     Option.bind (opt jbool ''isReasoningComplete'' v) (\<lambda>rc.
     Option.bind (opt jbool ''isContentComplete'' v) (\<lambda>cc.
     Option.bind (opt (\<lambda>j. Option.bind (jstr j) text_status) ''status'' v) (\<lambda>st.
     Option.bind (opt json_error_code ''errorCode'' v) (\<lambda>ec.
       Some \<lparr>key = k, mfrom = r, versions = vs, sources = ss, reasoning = re, isReasoningStreaming = rs,
             isReasoningComplete = rc, isContentComplete = cc, status = st, errorCode = ec\<rparr>))))))))))"

lemma map_opt_map [simp]: "\<forall>x \<in> set xs. f (g x) = Some x \<Longrightarrow> map_opt f (map g xs) = Some xs"
  by (induction xs) auto

lemma json_version_json [simp]: "json_version (version_json v) = Some v"
  by (simp add: json_version_def version_json_def req_def)

lemma json_source_json [simp]: "json_source (source_json p) = Some p"
  by (simp add: json_source_def source_json_def req_def)

lemma json_reasoning_json [simp]: "json_reasoning (reasoning_json r) = Some r"
  by (simp add: json_reasoning_def reasoning_json_def req_def)

lemma json_error_code_json [simp]: "json_error_code (error_code_json c) = Some c"
  by (cases c) (simp_all add: json_error_code_def error_code_json_def)

lemma map_of_opt_entry: "map_of (opt_entry k v @ ps) k' = (if k = k' \<and> v \<noteq> None then v else map_of ps k')"
  by (cases v) (auto simp: opt_entry_def)

lemma map_of_opt_entry_last: "map_of (opt_entry k v) k' = (if k = k' then v else None)"
  by (cases v) (auto simp: opt_entry_def)

lemma jfield_message [simp]:
  "jfield ''key'' (message_json m) = Some (JStr (key m))"
  "jfield ''from'' (message_json m) = Some (JStr (role_text (mfrom m)))"
  "jfield ''versions'' (message_json m) = Some (JArr (map version_json (versions m)))"
  "jfield ''sources'' (message_json m) = map_option (\<lambda>ss. JArr (map source_json ss)) (sources m)"
  "jfield ''reasoning'' (message_json m) = map_option reasoning_json (reasoning m)"
  "jfield ''isReasoningStreaming'' (message_json m) = map_option JBool (isReasoningStreaming m)"
  "jfield ''isReasoningComplete'' (message_json m) = map_option JBool (isReasoningComplete m)"
  "jfield ''isContentComplete'' (message_json m) = map_option JBool (isContentComplete m)"
  "jfield ''status'' (message_json m) = map_option (JStr \<circ> status_text) (status m)"
  "jfield ''errorCode'' (message_json m) = map_option error_code_json (errorCode m)"
  by (simp_all add: message_json_def message_fields_def map_of_opt_entry map_of_opt_entry_last del: map_of_append)

lemma opt_map_option:
  "jfield k v = map_option g x \<Longrightarrow> (\<And>y. f (g y) = Some y) \<Longrightarrow> opt f k v = Some x"
  by (cases x) (simp_all add: opt_def)

lemma json_message_json [simp]: "json_message (message_json m) = Some m"
proof -
  have o: "opt (jlist json_source) ''sources'' (message_json m) = Some (sources m)"
    "opt json_reasoning ''reasoning'' (message_json m) = Some (reasoning m)"
    "opt jbool ''isReasoningStreaming'' (message_json m) = Some (isReasoningStreaming m)"
    "opt jbool ''isReasoningComplete'' (message_json m) = Some (isReasoningComplete m)"
    "opt jbool ''isContentComplete'' (message_json m) = Some (isContentComplete m)"
    "opt (\<lambda>j. Option.bind (jstr j) text_status) ''status'' (message_json m) = Some (status m)"
    "opt json_error_code ''errorCode'' (message_json m) = Some (errorCode m)"
    by (rule opt_map_option, rule jfield_message, simp)+
  show ?thesis by (simp add: json_message_def o) (simp add: req_def)
qed

definition messages_text :: "Message list \<Rightarrow> string" where
  "messages_text ms = stringify (JArr (map message_json ms))"

definition text_messages :: "string \<Rightarrow> Message list option" where
  "text_messages t = Option.bind (json_parse t) (jlist json_message)"

text \<open>The JSON of a message is well formed, so that the text codec of JSON applies to it.\<close>

lemma wf_version [simp]: "wf_json (version_json v)"
  unfolding version_json_def by (rule wf_obj) simp_all

lemma wf_source [simp]: "wf_json (source_json v)"
  unfolding source_json_def by (rule wf_obj) simp_all

lemma wf_reasoning [simp]: "wf_json (reasoning_json v)"
  unfolding reasoning_json_def by (rule wf_obj) simp_all

lemma wf_error_code [simp]: "wf_json (error_code_json c)"
  by (cases c) (simp_all add: error_code_json_def)

lemma keys_opt_entry: "map fst (opt_entry k v) = (if v = None then [] else [k])"
  by (cases v) (simp_all add: opt_entry_def)

lemma set_opt_entry: "p \<in> set (opt_entry k v) \<longleftrightarrow> (\<exists>j. v = Some j \<and> p = (k, j))"
  by (cases v) (auto simp: opt_entry_def)

lemma wf_message [simp]: "wf_json (message_json m)"
  unfolding message_json_def
proof (rule wf_obj)
  show "distinct (map fst (message_fields m))"
    by (simp add: message_fields_def keys_opt_entry)
  show "\<forall>p \<in> set (message_fields m). fst p \<noteq> [] \<and> \<not> is_digit (hd (fst p)) \<and> wf_json (snd p)"
    by (auto simp: message_fields_def set_opt_entry)
qed

lemma text_messages_text [simp]: "text_messages (messages_text ms) = Some ms"
proof -
  have "json_parse (messages_text ms) = Some (JArr (map message_json ms))"
    unfolding messages_text_def by (rule json_text.dec_enc) simp
  then show ?thesis by (simp add: text_messages_def)
qed

interpretation message_store: persisted messages_text text_messages "\<lambda>_. True" MESSAGES_KEY
  by unfold_locales simp

lemma messages_text_nonempty [simp]: "messages_text ms \<noteq> []"
  by (simp add: messages_text_def)

subsection \<open>Loading and saving\<close>

text \<open>
  \<open>if (saved) return JSON.parse(saved)\<close> in a try block: the parsed value, the empty object when there is
  no text, reading throws or the text is no JSON.
\<close>

definition load_json :: "string \<Rightarrow> Storage \<Rightarrow> json" where
  "load_json k st =
     (case try_get k st of
        None \<Rightarrow> JObj []
      | Some saved \<Rightarrow> if saved = [] then JObj []
                      else (case json_parse saved of None \<Rightarrow> JObj [] | Some v \<Rightarrow> v))"

definition loadConfig :: "Storage \<Rightarrow> json" where
  "loadConfig st = load_json CONFIG_KEY st"

definition saveConfig :: "json obj \<Rightarrow> Storage \<Rightarrow> Storage" where
  "saveConfig cfg st = try_set CONFIG_KEY (stringify (JObj cfg)) st"

definition loadParameterEnabled :: "Storage \<Rightarrow> json" where
  "loadParameterEnabled st = load_json PARAMETER_ENABLED_KEY st"

definition saveParameterEnabled :: "json obj \<Rightarrow> Storage \<Rightarrow> Storage" where
  "saveParameterEnabled pe st = try_set PARAMETER_ENABLED_KEY (stringify (JObj pe)) st"

definition saveMessages :: "Message list \<Rightarrow> Storage \<Rightarrow> Storage" where
  "saveMessages ms st = try_set MESSAGES_KEY (messages_text ms) st"

text \<open>
  \<open>loadMessages\<close>: the messages, null, or a parsed value that is no list of messages, which the code
  hands on unchecked (\<open>null.length\<close> throws inside the try block).
\<close>

datatype LoadedMessages = NoMessages | LoadedList "Message list" | Unchecked json

definition loadMessages :: "Storage \<Rightarrow> LoadedMessages \<times> Storage" where
  "loadMessages st =
     (case try_get MESSAGES_KEY st of
        None \<Rightarrow> (NoMessages, st)
      | Some saved \<Rightarrow>
          (if saved = [] then (NoMessages, st)
           else (case json_parse saved of
                   None \<Rightarrow> (NoMessages, st)
                 | Some v \<Rightarrow>
                     (if v = JNull then (NoMessages, st)
                      else (case jlist json_message v of
                              None \<Rightarrow> (Unchecked v, st)
                            | Some parsed \<Rightarrow>
                                (let sanitized = sanitizeMessagesOnLoad parsed
                                 in (LoadedList sanitized,
                                     if \<exists>m \<in> set parsed. stuck m then saveMessages sanitized st else st)))))))"

text \<open>The three calls share one try block: a throw of the first leaves the others undone.\<close>

definition clearPlaygroundData :: "Storage \<Rightarrow> Storage" where
  "clearPlaygroundData st =
     (case removeItem CONFIG_KEY st of None \<Rightarrow> st | Some s1 \<Rightarrow>
       (case removeItem PARAMETER_ENABLED_KEY s1 of None \<Rightarrow> s1 | Some s2 \<Rightarrow>
         (case removeItem MESSAGES_KEY s2 of None \<Rightarrow> s2 | Some s3 \<Rightarrow> s3)))"

subsection \<open>The state hook\<close>

record ModelOption =
  mlabel :: string
  mvalue :: string

record GroupOption =
  glabel :: string
  gvalue :: string
  gratio :: num
  gdesc :: "string option"

record PlaygroundState =
  config :: "json obj"
  parameterEnabled :: "json obj"
  messages :: "Message list"
  models :: "ModelOption list"
  groups :: "GroupOption list"
  storage :: Storage

text \<open>The own properties that \<open>{...v}\<close> copies from any JSON value.\<close>

fun spread_entries :: "json \<Rightarrow> json obj" where
  "spread_entries (JObj ob) = ob"
| "spread_entries (JArr xs) = map (\<lambda>(i, v). (show_nat i, v)) (enumerate 0 xs)"
| "spread_entries (JStr t) = map (\<lambda>(i, c). (show_nat i, JStr [c])) (enumerate 0 t)"
| "spread_entries _ = []"

text \<open>
  The initial state of the hook from a given storage. \<open>None\<close>: the stored messages are no list of
  messages and the page runs on unchecked data.
\<close>

definition initPlayground :: "Storage \<Rightarrow> PlaygroundState option" where
  "initPlayground st =
     (let cfg = spread DEFAULT_CONFIG (spread_entries (loadConfig st));
          pe = spread DEFAULT_PARAMETER_ENABLED (spread_entries (loadParameterEnabled st));
          mk = (\<lambda>ms st'. Some \<lparr>config = cfg, parameterEnabled = pe, messages = ms, models = [], groups = [],
                               storage = st'\<rparr>)
      in case loadMessages st of
           (NoMessages, st') \<Rightarrow> mk [] st'
         | (LoadedList ms, st') \<Rightarrow> mk ms st'
         | (Unchecked _, st') \<Rightarrow> None)"

definition updateConfig :: "string \<Rightarrow> json \<Rightarrow> 'a PlaygroundState_scheme \<Rightarrow> 'a PlaygroundState_scheme" where
  "updateConfig k v s =
     (let updated = oput k v (config s)
      in s\<lparr>config := updated, storage := saveConfig updated (storage s)\<rparr>)"

definition updateParameterEnabled :: "string \<Rightarrow> bool \<Rightarrow> 'a PlaygroundState_scheme \<Rightarrow> 'a PlaygroundState_scheme" where
  "updateParameterEnabled k v s =
     (let updated = oput k (JBool v) (parameterEnabled s)
      in s\<lparr>parameterEnabled := updated, storage := saveParameterEnabled updated (storage s)\<rparr>)"

definition updateMessages :: "(Message list \<Rightarrow> Message list) \<Rightarrow> 'a PlaygroundState_scheme \<Rightarrow> 'a PlaygroundState_scheme" where
  "updateMessages updater s =
     (let newMessages = updater (messages s)
      in s\<lparr>messages := newMessages, storage := saveMessages newMessages (storage s)\<rparr>)"

definition clearMessages :: "'a PlaygroundState_scheme \<Rightarrow> 'a PlaygroundState_scheme" where
  "clearMessages s = updateMessages (\<lambda>_. []) s"

definition resetConfig :: "'a PlaygroundState_scheme \<Rightarrow> 'a PlaygroundState_scheme" where
  "resetConfig s =
     s\<lparr>config := DEFAULT_CONFIG, parameterEnabled := DEFAULT_PARAMETER_ENABLED,
       storage := saveParameterEnabled DEFAULT_PARAMETER_ENABLED (saveConfig DEFAULT_CONFIG (storage s))\<rparr>"

text \<open>The effects of the page that run when the lists of models and groups arrive (\<^verbatim>\<open>index.tsx\<close>).\<close>

definition onModelsData :: "ModelOption list \<Rightarrow> 'a PlaygroundState_scheme \<Rightarrow> 'a PlaygroundState_scheme" where
  "onModelsData ms s =
     (let s1 = s\<lparr>models := ms\<rparr>;
          isCurrentModelValid = list_ex (\<lambda>m. oget (config s) ''model'' = Some (JStr (mvalue m))) ms
      in if 0 < length ms \<and> \<not> isCurrentModelValid
         then updateConfig ''model'' (JStr (mvalue (hd ms))) s1 else s1)"

definition onGroupsData :: "GroupOption list \<Rightarrow> 'a PlaygroundState_scheme \<Rightarrow> 'a PlaygroundState_scheme" where
  "onGroupsData gs s =
     s\<lparr>groups := (if list_ex (\<lambda>g. gvalue g = ''auto'') gs then gs
                  else \<lparr>glabel = ''Auto'', gvalue = ''auto'', gratio = Dec 1 0, gdesc = Some ''Circuit Breaker''\<rparr> # gs)\<rparr>"

subsection \<open>The stored text mirrors the state\<close>

lemma saveMessages_slot: "saveMessages = message_store.save_slot"
  by (simp add: saveMessages_def message_store.save_slot_def fun_eq_iff)

lemma storage_flags [simp]:
  "readable (saveMessages ms st) = readable st" "writable (saveMessages ms st) = writable st"
  "readable (saveConfig c st) = readable st" "writable (saveConfig c st) = writable st"
  "readable (saveParameterEnabled p st) = readable st" "writable (saveParameterEnabled p st) = writable st"
  by (simp_all add: saveMessages_def saveConfig_def saveParameterEnabled_def)

lemma keys_distinct [simp]:
  "CONFIG_KEY \<noteq> MESSAGES_KEY" "MESSAGES_KEY \<noteq> CONFIG_KEY" "CONFIG_KEY \<noteq> PARAMETER_ENABLED_KEY"
  "PARAMETER_ENABLED_KEY \<noteq> CONFIG_KEY" "MESSAGES_KEY \<noteq> PARAMETER_ENABLED_KEY" "PARAMETER_ENABLED_KEY \<noteq> MESSAGES_KEY"
  by (simp_all add: CONFIG_KEY_def MESSAGES_KEY_def PARAMETER_ENABLED_KEY_def)

lemma json_parse_messages_text [simp]: "json_parse (messages_text ms) = Some (JArr (map message_json ms))"
  unfolding messages_text_def by (rule json_text.dec_enc) simp

lemma stringify_obj_nonempty [simp]: "stringify (JObj ob) \<noteq> []"
  by simp

lemma sanitize_id: "\<not> (\<exists>m \<in> set ms. stuck m) \<Longrightarrow> sanitizeMessagesOnLoad ms = ms"
  by (simp add: sanitizeMessagesOnLoad_def sanitize_rev_none)

lemma load_saved_messages:
  assumes "try_get MESSAGES_KEY st = Some (messages_text ms)"
  shows "loadMessages st = (LoadedList (sanitizeMessagesOnLoad ms),
      if \<exists>m \<in> set ms. stuck m then saveMessages (sanitizeMessagesOnLoad ms) st else st)"
  using assms by (simp add: loadMessages_def Let_def)

text \<open>
  The stored texts are those of the state: what the operations keep while the storage works.
\<close>

definition mirrored :: "'a PlaygroundState_scheme \<Rightarrow> bool" where
  "mirrored s \<longleftrightarrow> try_get MESSAGES_KEY (storage s) = Some (messages_text (messages s))
     \<and> readable (storage s) \<and> writable (storage s)"

lemma mirrored_updateMessages [intro]:
  "readable (storage s) \<Longrightarrow> writable (storage s) \<Longrightarrow> mirrored (updateMessages f s)"
  by (simp add: mirrored_def updateMessages_def Let_def saveMessages_def)

lemma mirrored_other [intro]:
  "mirrored s \<Longrightarrow> mirrored (updateConfig k v s)"
  "mirrored s \<Longrightarrow> mirrored (updateParameterEnabled k b s)"
  "mirrored s \<Longrightarrow> mirrored (resetConfig s)"
  by (simp_all add: mirrored_def updateConfig_def updateParameterEnabled_def resetConfig_def Let_def
      saveConfig_def saveParameterEnabled_def)

lemma init_messages:
  assumes "try_get MESSAGES_KEY st = Some (messages_text ms)"
  shows "\<exists>s. initPlayground st = Some s \<and> messages s = sanitizeMessagesOnLoad ms
     \<and> storage s = (if \<exists>m \<in> set ms. stuck m then saveMessages (sanitizeMessagesOnLoad ms) st else st)"
  using assms by (simp add: initPlayground_def load_saved_messages Let_def)

text \<open>The loaded configuration after it was saved, key by key.\<close>

lemma load_saved_json:
  assumes "wf_json (JObj cfg)" "readable st" "writable st"
  shows "load_json k (try_set k (stringify (JObj cfg)) st) = JObj cfg"
  using assms json_text.dec_enc [OF assms(1)] by (simp add: load_json_def del: stringify.simps)

lemma init_config:
  assumes "initPlayground st = Some s"
  shows "config s = spread DEFAULT_CONFIG (spread_entries (loadConfig st))"
    "parameterEnabled s = spread DEFAULT_PARAMETER_ENABLED (spread_entries (loadParameterEnabled st))"
  using assms by (auto simp: initPlayground_def Let_def split: prod.splits LoadedMessages.splits)

subsection \<open>Properties\<close>

text \<open>
  Nothing of the conversation is lost by reloading the page. After any update of the messages, while
  the storage works, the next page starts with exactly the updated messages, with the last stuck one
  repaired; and what that page leaves in the storage is what it shows, so that a second reload
  starts from the repaired messages.
\<close>

theorem reload_after_updateMessages:
  assumes "readable (storage s)" "writable (storage s)"
  shows "\<exists>s'. initPlayground (storage (updateMessages f s)) = Some s'
      \<and> messages s' = sanitizeMessagesOnLoad (f (messages s)) \<and> mirrored s'
      \<and> (\<exists>s''. initPlayground (storage s') = Some s''
           \<and> messages s'' = sanitizeMessagesOnLoad (sanitizeMessagesOnLoad (f (messages s))))"
proof -
  have t: "try_get MESSAGES_KEY (storage (updateMessages f s)) = Some (messages_text (f (messages s)))"
    and fl: "readable (storage (updateMessages f s))" "writable (storage (updateMessages f s))"
    using assms by (simp_all add: updateMessages_def Let_def saveMessages_def)
  obtain s' where s': "initPlayground (storage (updateMessages f s)) = Some s'"
      "messages s' = sanitizeMessagesOnLoad (f (messages s))"
      "storage s' = (if \<exists>m \<in> set (f (messages s)). stuck m
         then saveMessages (sanitizeMessagesOnLoad (f (messages s))) (storage (updateMessages f s))
         else storage (updateMessages f s))"
    using init_messages [OF t] by auto
  then have m: "mirrored s'"
    using t fl by (auto simp: mirrored_def saveMessages_def sanitize_id)
  then obtain s'' where "initPlayground (storage s') = Some s''"
      "messages s'' = sanitizeMessagesOnLoad (messages s')"
    using init_messages unfolding mirrored_def by blast
  with s' m show ?thesis by auto
qed

definition demoStorage :: Storage where
  "demoStorage = \<lparr>items = [], readable = True, writable = True\<rparr>"

definition demoState :: PlaygroundState where
  "demoState = \<lparr>config = DEFAULT_CONFIG, parameterEnabled = DEFAULT_PARAMETER_ENABLED, messages = [],
     models = [], groups = [], storage = demoStorage\<rparr>"

theorem reload_after_updateMessages_witness:
  "\<exists>s'. initPlayground (storage (updateMessages (\<lambda>ms. ms @ [createUserMessage ''a'' ''b'' ''hi'']) demoState)) = Some s'
      \<and> messages s' = [createUserMessage ''a'' ''b'' ''hi'']"
proof -
  have "\<not> stuck (createUserMessage ''a'' ''b'' ''hi'')" by (simp add: stuck_def createUserMessage_def)
  then show ?thesis
    using reload_after_updateMessages [of demoState "\<lambda>ms. ms @ [createUserMessage ''a'' ''b'' ''hi'']"]
    by (auto simp: demoState_def demoStorage_def sanitize_id)
qed

text \<open>
  A configuration survives a reload. After a configuration value is changed (or reset), while the
  storage works, the next page has that configuration, with the default for every key the
  saved one lacks, and the flags of the enabled parameters are untouched by the change.
\<close>

theorem config_survives_reload:
  assumes "wf_json (JObj (oput k v (config s)))" "readable (storage s)" "writable (storage s)"
    and "initPlayground (storage (updateConfig k v s)) = Some s'"
  shows "oget (config s') x =
      (if x = k then Some v else case oget (config s) x of Some w \<Rightarrow> Some w | None \<Rightarrow> oget DEFAULT_CONFIG x)
    \<and> loadParameterEnabled (storage (updateConfig k v s)) = loadParameterEnabled (storage s)"
proof -
  have l: "loadConfig (storage (updateConfig k v s)) = JObj (oput k v (config s))"
    using load_saved_json [OF assms(1-3), of CONFIG_KEY]
    by (simp add: loadConfig_def updateConfig_def saveConfig_def Let_def del: stringify.simps)
  have "owf (oput k v (config s))" using assms(1) by simp
  then have "oget (config s') x =
      (case oget (oput k v (config s)) x of None \<Rightarrow> oget DEFAULT_CONFIG x | Some w \<Rightarrow> Some w)"
    by (simp add: init_config(1) [OF assms(4)] l oget_spread)
  then show ?thesis
    by (simp add: loadParameterEnabled_def load_json_def updateConfig_def saveConfig_def Let_def
        del: stringify.simps split: option.splits)
qed

theorem config_survives_reload_witness:
  "\<exists>s'. initPlayground (storage (updateConfig ''model'' (JStr ''m2'') demoState)) = Some s'
     \<and> oget (config s') ''model'' = Some (JStr ''m2'') \<and> oget (config s') ''stream'' = Some (JBool True)"
proof -
  have w: "wf_json (JObj (oput ''model'' (JStr ''m2'') (config demoState)))"
    by code_simp
  have n: "try_get MESSAGES_KEY (storage (updateConfig ''model'' (JStr ''m2'') demoState)) = None"
    by (simp add: updateConfig_def Let_def saveConfig_def) (simp add: demoState_def demoStorage_def try_get_def getItem_def)
  then obtain s' where i: "initPlayground (storage (updateConfig ''model'' (JStr ''m2'') demoState)) = Some s'"
    by (simp add: initPlayground_def loadMessages_def Let_def)
  have rw: "readable (storage demoState)" "writable (storage demoState)"
    by (simp_all add: demoState_def demoStorage_def)
  have d: "oget (config demoState) ''stream'' = Some (JBool True)"
    by (simp add: demoState_def DEFAULT_CONFIG_def)
  show ?thesis
    using config_survives_reload [OF w rw i, of "''model''"] config_survives_reload [OF w rw i, of "''stream''"] i
    by (auto simp: d)
qed

end
