(* ===== verification/PlaygroundChat.thy ===== *)
theory PlaygroundChat
  imports PlaygroundStorage
begin

text \<open>
  The chat of the playground: the request payload (\<^verbatim>\<open>lib/payload-builder.ts\<close>), the stream request and
  its event listeners (\<^verbatim>\<open>hooks/use-stream-request.ts\<close>), the handlers that turn stream
  callbacks into updates of the message list (\<^verbatim>\<open>hooks/use-chat-handler.ts\<close>), and the actions
  of the page (\<^verbatim>\<open>index.tsx\<close>), all of \<^verbatim>\<open>features/playground\<close>. The SSE source is third-party code: its
  events are arbitrary inputs, of which the model keeps what the listeners read. Toasts and the
  payloads of the requests are collected in lists.
\<close>

subsection \<open>Payload\<close>

text \<open>The configuration and the enabled parameters are JavaScript objects; \<open>oget\<close> of an absent key is undefined.\<close>

definition parameterKeys :: "string list" where
  "parameterKeys = [''temperature'', ''top_p'', ''max_tokens'', ''frequency_penalty'', ''presence_penalty'', ''seed'']"

text \<open>A property read of an object: \<open>None\<close> stands for undefined; \<open>value_set\<close> is \<open>value !== undefined && value !== null\<close>.\<close>

definition truthy_opt :: "json option \<Rightarrow> bool" where
  "truthy_opt v = (case v of None \<Rightarrow> False | Some j \<Rightarrow> jtruthy j)"

fun content_json :: "MessageContent \<Rightarrow> json" where
  "content_json (TextContent s) = JStr s"
| "content_json (PartsContent ps) = JArr (map (\<lambda>p. JObj
     ([(''type'', JStr (if ptype p = TextPart then ''text'' else ''image_url''))]
      @ (case ptext p of None \<Rightarrow> [] | Some t \<Rightarrow> [(''text'', JStr t)])
      @ (case image_url p of None \<Rightarrow> [] | Some u \<Rightarrow> [(''image_url'', JObj [(''url'', JStr u)])]))) ps)"

definition api_message_json :: "ChatCompletionMessage \<Rightarrow> json" where
  "api_message_json cm = JObj [(''role'', JStr (role_text (crole cm))), (''content'', content_json (ccontent cm))]"

fun add_parameters :: "json obj \<Rightarrow> json obj \<Rightarrow> string list \<Rightarrow> json obj \<Rightarrow> json obj" where
  "add_parameters cfg pe [] payload = payload"
| "add_parameters cfg pe (k # ks) payload =
     add_parameters cfg pe ks
       (if truthy_opt (oget pe k)
        then (case oget cfg k of
                None \<Rightarrow> payload
              | Some v \<Rightarrow> if v = JNull then payload else oput k v payload)
        else payload)"

definition buildChatCompletionPayload :: "Message list \<Rightarrow> json obj \<Rightarrow> json obj \<Rightarrow> json obj" where
  "buildChatCompletionPayload ms cfg pe =
     (let processed = map (api_message_json \<circ> formatMessageForAPI) (filter isValidMessage ms);
          payload = opt_entry ''model'' (oget cfg ''model'') @ opt_entry ''group'' (oget cfg ''group'')
            @ [(''messages'', JArr processed)] @ opt_entry ''stream'' (oget cfg ''stream'')
      in add_parameters cfg pe parameterKeys payload)"

subsection \<open>Handlers of the stream callbacks\<close>

datatype UpdateType = ReasoningUpdate | ContentUpdate

record ChatState = PlaygroundState +
  toasts :: "string list"
  sseSource :: "nat option"      \<comment> \<open>\<open>sseSourceRef.current\<close>: the number of the source it holds\<close>
  isStreamComplete :: bool       \<comment> \<open>\<open>isStreamCompleteRef.current\<close>\<close>
  closedSources :: "nat list"    \<comment> \<open>the sources on which \<open>close()\<close> was called\<close>
  requests :: "json obj list"    \<comment> \<open>the payloads sent; the next stream source has the number of their count\<close>
  editingMessageKey :: "string option"

definition streamUpdateMessage :: "UpdateType \<Rightarrow> string \<Rightarrow> Message \<Rightarrow> Message" where
  "streamUpdateMessage ty chunk m =
     (if status m = Some Error then m
      else if ty = ReasoningUpdate
      then m\<lparr>reasoning := Some \<lparr>rcontent = (case reasoning m of None \<Rightarrow> '''' | Some r \<Rightarrow> rcontent r) @ chunk, duration = 0\<rparr>,
             isReasoningStreaming := Some True, status := Some Streaming\<rparr>
      else (processStreamingContent m (Some chunk))\<lparr>status := Some Streaming\<rparr>)"

definition handleStreamUpdate :: "UpdateType \<Rightarrow> string \<Rightarrow> ChatState \<Rightarrow> ChatState" where
  "handleStreamUpdate ty chunk s =
     updateMessages (\<lambda>prev. updateLastAssistantMessage prev (streamUpdateMessage ty chunk)) s"

definition completeMessage :: "Message \<Rightarrow> Message" where
  "completeMessage m =
     (if status m = Some Complete \<or> status m = Some Error then m
      else (finalizeMessage m None)\<lparr>status := Some Complete\<rparr>)"

definition handleStreamComplete :: "ChatState \<Rightarrow> ChatState" where
  "handleStreamComplete s = updateMessages (\<lambda>prev. updateLastAssistantMessage prev completeMessage) s"

definition handleStreamError :: "string \<Rightarrow> string option \<Rightarrow> ChatState \<Rightarrow> ChatState" where
  "handleStreamError err code s =
     updateMessages (\<lambda>prev. updateAssistantMessageWithError prev err code) (s\<lparr>toasts := toasts s @ [err]\<rparr>)"

subsection \<open>The stream request\<close>

definition PARSE_ERROR :: string where "PARSE_ERROR = ''Error parsing response data''"
definition STREAM_START_ERROR :: string where "STREAM_START_ERROR = ''Error establishing connection''"
definition CONNECTION_CLOSED :: string where "CONNECTION_CLOSED = ''Connection closed''"

definition closeSource :: "nat \<Rightarrow> ChatState \<Rightarrow> ChatState" where
  "closeSource n s = s\<lparr>closedSources := n # closedSources s, sseSource := None\<rparr>"

definition handleError :: "nat \<Rightarrow> string \<Rightarrow> string option \<Rightarrow> ChatState \<Rightarrow> ChatState" where
  "handleError n msg code s =
     (if \<not> isStreamComplete s then closeSource n (handleStreamError msg code s) else s)"

text \<open>
  \<open>sendStreamRequest\<close>, with its new source; \<open>starts\<close> says whether \<open>source.stream()\<close> returned, and not threw.
\<close>

definition sendStreamRequest :: "json obj \<Rightarrow> bool \<Rightarrow> ChatState \<Rightarrow> ChatState" where
  "sendStreamRequest payload starts s =
     (let s1 = s\<lparr>sseSource := Some (length (requests s)), isStreamComplete := False, requests := requests s @ [payload]\<rparr>
      in if starts then s1 else (handleStreamError STREAM_START_ERROR None s1)\<lparr>sseSource := None\<rparr>)"

text \<open>
  What the message listener reads of a parsed chunk: \<open>chunk.choices?.[0]?.delta\<close>, outer \<open>None\<close> when the
  read throws (a chunk that is null). The text fields of a delta are strings when present.
\<close>

definition chunk_delta :: "json \<Rightarrow> json option option" where
  "chunk_delta chunk =
     (if chunk = JNull then None
      else Some (case jfield ''choices'' chunk of
          None \<Rightarrow> None
        | Some choices \<Rightarrow> (case jindex0 choices of
            None \<Rightarrow> None
          | Some c0 \<Rightarrow> jfield ''delta'' c0)))"

definition str_field :: "string \<Rightarrow> json \<Rightarrow> string" where
  "str_field k v = (case jfield k v of Some (JStr t) \<Rightarrow> t | _ \<Rightarrow> '''')"

definition apply_delta :: "json \<Rightarrow> ChatState \<Rightarrow> ChatState" where
  "apply_delta delta s =
     (let r = str_field ''reasoning_content'' delta; c = str_field ''content'' delta;
          s1 = (if r \<noteq> '''' then handleStreamUpdate ReasoningUpdate r s else s)
      in if c \<noteq> '''' then handleStreamUpdate ContentUpdate c s1 else s1)"

definition onMessage :: "nat \<Rightarrow> string \<Rightarrow> ChatState \<Rightarrow> ChatState" where
  "onMessage n data s =
     (if data = ''[DONE]''
      then handleStreamComplete (closeSource n (s\<lparr>isStreamComplete := True\<rparr>))
      else (case json_parse data of
              None \<Rightarrow> handleError n PARSE_ERROR None s
            | Some chunk \<Rightarrow>
                (case chunk_delta chunk of
                   None \<Rightarrow> handleError n PARSE_ERROR None s
                 | Some None \<Rightarrow> s
                 | Some (Some delta) \<Rightarrow> (if jtruthy delta then apply_delta delta s else s))))"

text \<open>The message and code of an error event's data.\<close>

definition error_details :: "string \<Rightarrow> string \<times> string option" where
  "error_details data =
     (let base = or_str data API_REQUEST_ERROR in
      if data = '''' then (base, None)
      else (case json_parse data of
              None \<Rightarrow> (base, None)
            | Some v \<Rightarrow>
                (case jfield ''error'' v of
                   None \<Rightarrow> (base, None)
                 | Some e \<Rightarrow>
                     (if jtruthy e
                      then (or_str (str_field ''message'' e) base,
                            (let c = str_field ''code'' e in if c = '''' then None else Some c))
                      else (base, None)))))"

definition onError :: "nat \<Rightarrow> int \<Rightarrow> string \<Rightarrow> ChatState \<Rightarrow> ChatState" where
  "onError n readyState data s =
     (if readyState \<noteq> 2 then handleError n (fst (error_details data)) (snd (error_details data)) s else s)"

text \<open>\<open>String(i)\<close> of an integer.\<close>

definition show_int :: "int \<Rightarrow> string" where
  "show_int i = show_num (num_of_int i)"

definition onReadyState :: "nat \<Rightarrow> int option \<Rightarrow> int option \<Rightarrow> ChatState \<Rightarrow> ChatState" where
  "onReadyState n readyState st s =
     (case (readyState, st) of
        (Some r, Some code) \<Rightarrow>
          (if 2 \<le> r \<and> code \<noteq> 200
           then handleError n (''HTTP '' @ show_int code @ '': '' @ CONNECTION_CLOSED) None s else s)
      | _ \<Rightarrow> s)"

definition stopStream :: "ChatState \<Rightarrow> ChatState" where
  "stopStream s =
     (case sseSource s of None \<Rightarrow> s
      | Some n \<Rightarrow> s\<lparr>closedSources := n # closedSources s, sseSource := None\<rparr>)"

definition isStreaming :: "ChatState \<Rightarrow> bool" where
  "isStreaming s \<longleftrightarrow> sseSource s \<noteq> None"

definition stopMessage :: "Message \<Rightarrow> Message" where
  "stopMessage m =
     (if status m = Some Loading \<or> status m = Some Streaming
      then (finalizeMessage m None)\<lparr>status := Some Complete\<rparr> else m)"

definition stopGeneration :: "ChatState \<Rightarrow> ChatState" where
  "stopGeneration s = updateMessages (\<lambda>prev. updateLastAssistantMessage prev stopMessage) (stopStream s)"

subsection \<open>The request without streaming\<close>

text \<open>
  What \<open>await sendChatCompletion(payload)\<close> gives: a response (the message of its first choice, if there is
  one: content and reasoning), or an exception (the message and code the server sent, the exception's own message).
\<close>

record ChoiceMessage =
  cmContent :: "string option"
  cmReasoning :: "string option"

datatype SendResult =
    Response "ChoiceMessage option"
  | Failure (serverMessage: "string option") (serverCode: "string option") (ownMessage: "string option")

definition the_str :: "string option \<Rightarrow> string" where
  "the_str x = (case x of None \<Rightarrow> '''' | Some t \<Rightarrow> t)"

text \<open>
  \<open>{...m, versions: [{...m.versions[0], content: c}]}\<close>. Every message the page makes has a version
  (\<open>versions_nonempty\<close> below); without one the new version would have no id, here the empty one.
\<close>

definition replaceContent :: "string \<Rightarrow> Message \<Rightarrow> Message" where
  "replaceContent c m =
     m\<lparr>versions := [case versions m of v # _ \<Rightarrow> v\<lparr>content := c\<rparr> | [] \<Rightarrow> \<lparr>vid = '''', content = c\<rparr>]\<rparr>"

definition nonStreamMessage :: "ChoiceMessage \<Rightarrow> Message \<Rightarrow> Message" where
  "nonStreamMessage ch m =
     (finalizeMessage (replaceContent (the_str (cmContent ch)) m) (cmReasoning ch))\<lparr>status := Some Complete\<rparr>"

text \<open>What happens when the awaited call is back.\<close>

fun nonStreamingResult :: "SendResult \<Rightarrow> ChatState \<Rightarrow> ChatState" where
  "nonStreamingResult (Response None) s = s"
| "nonStreamingResult (Response (Some ch)) s =
     updateMessages (\<lambda>prev. updateLastAssistantMessage prev (nonStreamMessage ch)) s"
| "nonStreamingResult (Failure srv code own) s =
     handleStreamError (or_str (the_str srv) (or_str (the_str own) API_REQUEST_ERROR))
       (if the_str code = '''' then None else code) s"

definition sendNonStreamingChat :: "Message list \<Rightarrow> ChatState \<Rightarrow> ChatState" where
  "sendNonStreamingChat ms s =
     s\<lparr>requests := requests s @ [buildChatCompletionPayload ms (config s) (parameterEnabled s)]\<rparr>"

definition sendStreamingChat :: "bool \<Rightarrow> Message list \<Rightarrow> ChatState \<Rightarrow> ChatState" where
  "sendStreamingChat starts ms s =
     sendStreamRequest (buildChatCompletionPayload ms (config s) (parameterEnabled s)) starts s"

definition sendChat :: "bool \<Rightarrow> Message list \<Rightarrow> ChatState \<Rightarrow> ChatState" where
  "sendChat starts ms s =
     (if truthy_opt (oget (config s) ''stream'') then sendStreamingChat starts ms s
      else sendNonStreamingChat ms s)"

subsection \<open>Actions of the page\<close>

text \<open>\<open>ids\<close> are the identifiers nanoid returns; \<open>findKey\<close> is \<open>findIndex\<close> by key.\<close>

definition findKey :: "string \<Rightarrow> Message list \<Rightarrow> nat option" where
  "findKey k ms = map_option fst (find (\<lambda>p. key (snd p) = k) (enumerate 0 ms))"

definition handleSendMessage :: "bool \<Rightarrow> (nat \<Rightarrow> string) \<Rightarrow> string \<Rightarrow> ChatState \<Rightarrow> ChatState" where
  "handleSendMessage starts ids text s =
     (let newMessages = messages s @ [createUserMessage (ids 0) (ids 1) text, createLoadingAssistantMessage (ids 2) (ids 3)]
      in sendChat starts newMessages (updateMessages (\<lambda>_. newMessages) s))"

definition handleRegenerateMessage :: "bool \<Rightarrow> (nat \<Rightarrow> string) \<Rightarrow> string \<Rightarrow> ChatState \<Rightarrow> ChatState" where
  "handleRegenerateMessage starts ids k s =
     (case findKey k (messages s) of
        None \<Rightarrow> s
      | Some i \<Rightarrow>
          (let newMessages = take i (messages s) @ [createLoadingAssistantMessage (ids 0) (ids 1)]
           in sendChat starts newMessages (updateMessages (\<lambda>_. newMessages) s)))"

definition handleEditMessage :: "string \<Rightarrow> ChatState \<Rightarrow> ChatState" where
  "handleEditMessage k s = s\<lparr>editingMessageKey := Some k\<rparr>"

definition handleEditOpenChange :: "bool \<Rightarrow> ChatState \<Rightarrow> ChatState" where
  "handleEditOpenChange is_open s = (if \<not> is_open then s\<lparr>editingMessageKey := None\<rparr> else s)"

definition applyEdit :: "bool \<Rightarrow> (nat \<Rightarrow> string) \<Rightarrow> string \<Rightarrow> bool \<Rightarrow> ChatState \<Rightarrow> ChatState" where
  "applyEdit starts ids newContent submit s =
     (case editingMessageKey s of
        None \<Rightarrow> s
      | Some k \<Rightarrow>
          (if k = '''' then s
           else (case findKey k (messages s) of
                   None \<Rightarrow> s
                 | Some i \<Rightarrow>
                     (let updated = map (\<lambda>m. if key m = k then replaceContent newContent m else m) (messages s);
                          s1 = s\<lparr>editingMessageKey := None\<rparr>
                      in if \<not> submit \<or> mfrom (updated ! i) \<noteq> User
                         then updateMessages (\<lambda>_. updated) s1
                         else (let toSubmit = take (i + 1) updated @ [createLoadingAssistantMessage (ids 0) (ids 1)]
                               in sendChat starts toSubmit (updateMessages (\<lambda>_. toSubmit) s1))))))"

definition handleDeleteMessage :: "string \<Rightarrow> ChatState \<Rightarrow> ChatState" where
  "handleDeleteMessage k s = updateMessages (\<lambda>_. filter (\<lambda>m. key m \<noteq> k) (messages s)) s"

subsection \<open>Sessions\<close>

text \<open>
  Everything that can happen on the page, in any order: the actions of the user (the buttons that are
  disabled while a stream runs are not assumed to be), the events of any source opened so far, answers of awaited
  calls, and the arrival of the lists of models and groups.
\<close>

datatype Action =
    Send bool "nat \<Rightarrow> string" string
  | Regenerate bool "nat \<Rightarrow> string" string
  | Edit string
  | EditOpen bool
  | ApplyEdit bool "nat \<Rightarrow> string" string bool
  | Delete string
  | Stop
  | SseMessage nat string
  | SseError nat int string
  | SseReady nat "int option" "int option"
  | CallReturned SendResult
  | SetConfig string json
  | SetParameter string bool
  | Clear
  | ResetConfig
  | ModelsArrived "ModelOption list"
  | GroupsArrived "GroupOption list"

fun perform :: "Action \<Rightarrow> ChatState \<Rightarrow> ChatState" where
  "perform (Send st ids t) = handleSendMessage st ids t"
| "perform (Regenerate st ids k) = handleRegenerateMessage st ids k"
| "perform (Edit k) = handleEditMessage k"
| "perform (EditOpen b) = handleEditOpenChange b"
| "perform (ApplyEdit st ids c b) = applyEdit st ids c b"
| "perform (Delete k) = handleDeleteMessage k"
| "perform Stop = stopGeneration"
| "perform (SseMessage n d) = onMessage n d"
| "perform (SseError n r d) = onError n r d"
| "perform (SseReady n r st) = onReadyState n r st"
| "perform (CallReturned r) = nonStreamingResult r"
| "perform (SetConfig k v) = updateConfig k v"
| "perform (SetParameter k b) = updateParameterEnabled k b"
| "perform Clear = clearMessages"
| "perform ResetConfig = resetConfig"
| "perform (ModelsArrived ms) = onModelsData ms"
| "perform (GroupsArrived gs) = onGroupsData gs"

definition openPage :: "PlaygroundState \<Rightarrow> ChatState" where
  "openPage ps = PlaygroundState.extend ps
     \<lparr>toasts = [], sseSource = None, isStreamComplete = False, closedSources = [], requests = [],
      editingMessageKey = None\<rparr>"

text \<open>The source an event comes from, if the action is one.\<close>

fun event_source :: "Action \<Rightarrow> nat option" where
  "event_source (SseMessage n d) = Some n"
| "event_source (SseError n r d) = Some n"
| "event_source (SseReady n r st) = Some n"
| "event_source _ = None"

inductive session :: "Storage \<Rightarrow> ChatState \<Rightarrow> bool" for st where
  opened: "initPlayground st = Some ps \<Longrightarrow> session st (openPage ps)"
| happens: "session st s \<Longrightarrow> (\<And>n. event_source a = Some n \<Longrightarrow> n < length (requests s)) \<Longrightarrow> session st (perform a s)"

inductive_cases session_E: "session st s"

subsection \<open>What the operations do to the fields\<close>

named_theorems chat_simps \<open>fields after an operation\<close>

lemma updateMessages_fields [chat_simps, simp]:
  "messages (updateMessages f s) = f (messages s)"
  "config (updateMessages f s) = config s" "parameterEnabled (updateMessages f s) = parameterEnabled s"
  "storage (updateMessages f s) = saveMessages (f (messages s)) (storage s)"
  by (simp_all add: updateMessages_def Let_def)

lemma updateMessages_chat [chat_simps, simp]:
  "toasts (updateMessages f s) = toasts (s :: ChatState)" "sseSource (updateMessages f s) = sseSource s"
  "isStreamComplete (updateMessages f s) = isStreamComplete s"
  "closedSources (updateMessages f s) = closedSources s" "requests (updateMessages f s) = requests s"
  by (simp_all add: updateMessages_def Let_def)

lemma closeSource_fields [chat_simps, simp]:
  "messages (closeSource n s) = messages s" "storage (closeSource n s) = storage s"
  "sseSource (closeSource n s) = None" "isStreamComplete (closeSource n s) = isStreamComplete s"
  "config (closeSource n s) = config s" "requests (closeSource n s) = requests s"
  by (simp_all add: closeSource_def)

lemma stopStream_fields [chat_simps, simp]:
  "messages (stopStream s) = messages s" "storage (stopStream s) = storage s"
  "isStreamComplete (stopStream s) = isStreamComplete s" "sseSource (stopStream s) = None"
  by (auto simp: stopStream_def split: option.splits)

lemma handleStreamError_fields [chat_simps, simp]:
  "messages (handleStreamError e c s) = updateAssistantMessageWithError (messages s) e c"
  "storage (handleStreamError e c s) = saveMessages (updateAssistantMessageWithError (messages s) e c) (storage s)"
  "isStreamComplete (handleStreamError e c s) = isStreamComplete s"
  by (simp_all add: handleStreamError_def)

lemma sendChat_fields [chat_simps, simp]:
  "config (sendChat b ms s) = config s"
  "requests (sendChat b ms s) = requests s @ [buildChatCompletionPayload ms (config s) (parameterEnabled s)]"
  by (simp_all add: sendChat_def sendStreamingChat_def sendNonStreamingChat_def sendStreamRequest_def
      handleStreamError_def Let_def)

lemma handleError_cases:
  "handleError n e c s = (if isStreamComplete s then s else closeSource n (handleStreamError e c s))"
  by (simp add: handleError_def)

subsection \<open>The last message\<close>

text \<open>
  The handlers of events, answers and of the stop button replace the last message through a function that keeps its key and author;
  \<open>last_only s s'\<close> says that this is all a step did to the messages.
\<close>

definition keeps_identity :: "(Message \<Rightarrow> Message) \<Rightarrow> bool" where
  "keeps_identity f \<longleftrightarrow> (\<forall>m. key (f m) = key m \<and> mfrom (f m) = mfrom m)"

definition last_only :: "Message list \<Rightarrow> Message list \<Rightarrow> bool" where
  "last_only ms ms' \<longleftrightarrow> (\<exists>f. keeps_identity f \<and> ms' = updateLastAssistantMessage ms f)"

lemma keeps_identity_comp: "keeps_identity f \<Longrightarrow> keeps_identity g \<Longrightarrow> keeps_identity (g \<circ> f)"
  by (simp add: keeps_identity_def)

lemma updateLast_id [simp]: "updateLastAssistantMessage ms (\<lambda>m. m) = ms"
  by (simp add: updateLastAssistantMessage_def)

lemma updateLast_comp:
  "keeps_identity f \<Longrightarrow>
   updateLastAssistantMessage (updateLastAssistantMessage ms f) g = updateLastAssistantMessage ms (g \<circ> f)"
  by (cases ms rule: rev_cases) (auto simp: updateLast_snoc keeps_identity_def)

lemma last_only_refl [intro, simp]: "last_only ms ms"
  unfolding last_only_def by (rule exI [of _ "\<lambda>m. m"]) (simp add: keeps_identity_def)

lemma last_only_trans: "last_only a b \<Longrightarrow> last_only b c \<Longrightarrow> last_only a c"
  unfolding last_only_def by (metis keeps_identity_comp updateLast_comp)

lemma last_only_updateLast [intro]: "keeps_identity f \<Longrightarrow> last_only ms (updateLastAssistantMessage ms f)"
  unfolding last_only_def by blast

lemma replaceContent_fields [chat_simps, simp]:
  "key (replaceContent c m) = key m" "mfrom (replaceContent c m) = mfrom m"
  "reasoning (replaceContent c m) = reasoning m" "status (replaceContent c m) = status m"
  "content (getCurrentVersion (replaceContent c m)) = c"
  by (auto simp: replaceContent_def getCurrentVersion_def split: list.splits)

lemma identity_kept [intro, simp]:
  "keeps_identity (streamUpdateMessage ty c)" "keeps_identity completeMessage" "keeps_identity stopMessage"
  "keeps_identity (nonStreamMessage ch)"
  by (auto simp: keeps_identity_def streamUpdateMessage_def completeMessage_def stopMessage_def nonStreamMessage_def)

lemma last_only_error [intro, simp]: "last_only ms (updateAssistantMessageWithError ms e c)"
  unfolding updateAssistantMessageWithError_def
  by (rule last_only_updateLast) (simp add: keeps_identity_def)

lemma last_only_ops [intro, simp]:
  "last_only (messages s) (messages (handleStreamUpdate ty c s))"
  "last_only (messages s) (messages (handleStreamComplete s))"
  "last_only (messages s) (messages (handleError n e co s))"
  "last_only (messages s) (messages (stopGeneration s))"
  by (auto simp: handleStreamUpdate_def handleStreamComplete_def handleError_cases stopGeneration_def)

lemma last_only_delta: "last_only (messages s) (messages (apply_delta d s))"
  unfolding apply_delta_def Let_def
  by (auto intro: last_only_trans [OF last_only_ops(1)])

lemma last_only_message: "last_only (messages s) (messages (onMessage n d s))"
proof -
  have "last_only (messages s) (messages (handleStreamComplete (closeSource n (s\<lparr>isStreamComplete := True\<rparr>))))"
    using last_only_ops(2) [of "closeSource n (s\<lparr>isStreamComplete := True\<rparr>)"] by simp
  then show ?thesis
    by (auto simp: onMessage_def last_only_delta split: option.splits)
qed

lemma last_only_result: "last_only (messages s) (messages (nonStreamingResult r s))"
  by (cases "(r, s)" rule: nonStreamingResult.cases) auto

text \<open>The actions that are events, answers or the stop button, and runs of actions.\<close>

fun is_reaction :: "Action \<Rightarrow> bool" where
  "is_reaction (SseMessage n d) = True"
| "is_reaction (SseError n r d) = True"
| "is_reaction (SseReady n r st) = True"
| "is_reaction (CallReturned r) = True"
| "is_reaction Stop = True"
| "is_reaction _ = False"

definition performs :: "Action list \<Rightarrow> ChatState \<Rightarrow> ChatState" where
  "performs as s = foldl (\<lambda>s a. perform a s) s as"

lemma performs_simps [simp]:
  "performs [] s = s" "performs (a # as) s = performs as (perform a s)"
  "performs (as @ bs) s = performs bs (performs as s)"
  by (simp_all add: performs_def)

lemma last_only_reaction: "is_reaction a \<Longrightarrow> last_only (messages s) (messages (perform a s))"
  by (cases a) (auto simp: last_only_message last_only_result onError_def onReadyState_def split: option.splits)

lemma last_only_reactions: "list_all is_reaction as \<Longrightarrow> last_only (messages s) (messages (performs as s))"
  by (induction as arbitrary: s) (auto intro: last_only_trans last_only_reaction)

lemma last_only_cases:
  assumes "last_only ms ms'"
  shows "ms' = ms \<or> (\<exists>pre m m'. ms = pre @ [m] \<and> ms' = pre @ [m'] \<and> mfrom m = Assistant \<and> mfrom m' = Assistant \<and> key m' = key m)"
  using assms by (cases ms rule: rev_cases) (auto simp: last_only_def updateLast_snoc keeps_identity_def)

text \<open>
  C33: what the network can do to a conversation. Whatever events any sources deliver, in any order and mixed with
  answers of calls and presses of the stop button, every message but the last stays as it is, no message is added or
  removed, and the last one changes only if it is the assistant's, keeping its key.
\<close>

theorem reactions_touch_last_only:
  assumes "list_all is_reaction as"
  shows "messages (performs as s) = messages s
     \<or> (\<exists>pre m m'. messages s = pre @ [m] \<and> messages (performs as s) = pre @ [m']
          \<and> mfrom m = Assistant \<and> mfrom m' = Assistant \<and> key m' = key m)"
  by (rule last_only_cases) (rule last_only_reactions, fact)

subsection \<open>The end of a stream\<close>

lemma completeMessage_status: "status (completeMessage m) = Some Complete \<or> status (completeMessage m) = Some Error"
  by (auto simp: completeMessage_def)

lemma messages_done:
  "messages (perform (SseMessage n ''[DONE]'') s) = updateLastAssistantMessage (messages s) completeMessage"
  by (simp add: onMessage_def handleStreamComplete_def)

lemma done_flag: "isStreamComplete (perform (SseMessage n ''[DONE]'') s)"
  by (simp add: onMessage_def handleStreamComplete_def closeSource_def)

lemma handleError_done: "isStreamComplete s \<Longrightarrow> handleError n e c s = s"
  by (simp add: handleError_def)

lemma last_updateLast:
  "ms \<noteq> [] \<Longrightarrow> mfrom (last ms) = Assistant \<Longrightarrow> last (updateLastAssistantMessage ms f) = f (last ms)"
  by (cases ms rule: rev_cases) (auto simp: updateLast_snoc)

lemma onError_done: "isStreamComplete s \<Longrightarrow> onError n r d s = s"
  by (simp add: onError_def handleError_done)

lemma onReady_done: "isStreamComplete s \<Longrightarrow> onReadyState n r st s = s"
  by (simp add: onReadyState_def handleError_done split: option.splits)

text \<open>
  The end of a stream. After the \<open>[DONE]\<close> event no source is held, a last message of the assistant is
  complete or in error and no more stuck, and until the next request no error event, no change
  of the ready state and no unreadable chunk of any source changes anything.
\<close>

theorem done_ends_stream:
  assumes "messages s \<noteq> []" "mfrom (last (messages s)) = Assistant"
    and "s' = perform (SseMessage n ''[DONE]'') s"
  shows "sseSource s' = None \<and> n \<in> set (closedSources s')
     \<and> (status (last (messages s')) = Some Complete \<or> status (last (messages s')) = Some Error)
     \<and> perform (SseError k r d) s' = s' \<and> perform (SseReady k r2 st) s' = s'
     \<and> (json_parse bad = None \<longrightarrow> bad \<noteq> ''[DONE]'' \<longrightarrow> perform (SseMessage k bad) s' = s')"
proof -
  have f: "isStreamComplete s'" using done_flag assms(3) by simp
  have "last (messages s') = completeMessage (last (messages s))"
    using assms by (simp add: messages_done last_updateLast del: perform.simps)
  then have "status (last (messages s')) = Some Complete \<or> status (last (messages s')) = Some Error"
    using completeMessage_status by simp
  moreover have "sseSource s' = None \<and> n \<in> set (closedSources s')"
    by (simp add: assms(3) onMessage_def handleStreamComplete_def) (simp add: closeSource_def)
  ultimately show ?thesis
    using f by (simp add: onError_done onReady_done onMessage_def handleError_done)
qed

subsection \<open>An error is final\<close>

text \<open>A chunk that is read without an exception.\<close>

definition readable_chunk :: "string \<Rightarrow> bool" where
  "readable_chunk d \<longleftrightarrow> (case json_parse d of None \<Rightarrow> False | Some v \<Rightarrow> v \<noteq> JNull)"

fun harmless :: "Action \<Rightarrow> bool" where
  "harmless (SseMessage n d) \<longleftrightarrow> d = ''[DONE]'' \<or> readable_chunk d"
| "harmless Stop \<longleftrightarrow> True"
| "harmless _ \<longleftrightarrow> False"

lemma updateLast_fix: "ms \<noteq> [] \<Longrightarrow> f (last ms) = last ms \<Longrightarrow> updateLastAssistantMessage ms f = ms"
  by (simp add: updateLastAssistantMessage_def)

lemma error_fixed:
  assumes "messages s \<noteq> []" "status (last (messages s)) = Some Error"
  shows "messages (handleStreamUpdate ty c s) = messages s" "messages (handleStreamComplete s) = messages s"
    "messages (stopGeneration s) = messages s"
  using assms
  by (auto simp: handleStreamUpdate_def handleStreamComplete_def stopGeneration_def streamUpdateMessage_def
      completeMessage_def stopMessage_def intro: updateLast_fix)

lemma error_fixed_message:
  assumes "messages s \<noteq> []" "status (last (messages s)) = Some Error" "d = ''[DONE]'' \<or> readable_chunk d"
  shows "messages (onMessage n d s) = messages s"
proof (cases "d = ''[DONE]''")
  case True
  then show ?thesis
    using error_fixed(2) [of "closeSource n (s\<lparr>isStreamComplete := True\<rparr>)"] assms by (simp add: onMessage_def)
next
  case False
  with assms(3) obtain v where v: "json_parse d = Some v" "v \<noteq> JNull"
    by (auto simp: readable_chunk_def split: option.splits)
  have "messages (apply_delta x s) = messages s" for x
    using assms error_fixed by (simp add: apply_delta_def Let_def)
  with False v show ?thesis by (simp add: onMessage_def chunk_delta_def split: option.splits)
qed

text \<open>
  Once the answer is marked as failed, chunks that still arrive, the end of the stream and the stop button
  do not touch it: the error text the user sees is not overwritten by late content.
\<close>

theorem error_is_final:
  assumes "messages s \<noteq> []" "status (last (messages s)) = Some Error" "list_all harmless as"
  shows "messages (performs as s) = messages s"
  using assms
proof (induction as arbitrary: s)
  case (Cons a as)
  have "messages (perform a s) = messages s"
    using Cons.prems by (cases a) (auto simp: error_fixed_message error_fixed)
  with Cons show ?case by simp
qed simp

subsection \<open>A whole stream\<close>

text \<open>The text of a chunk that carries a piece of content.\<close>

definition content_chunk :: "string \<Rightarrow> string" where
  "content_chunk c = stringify (JObj [(''choices'', JArr [JObj [(''delta'', JObj [(''content'', JStr c)])]])])"

lemma parse_content_chunk:
  "json_parse (content_chunk c) = Some (JObj [(''choices'', JArr [JObj [(''delta'', JObj [(''content'', JStr c)])]])])"
  unfolding content_chunk_def
  by (rule json_text.dec_enc) (simp add: own_entries_id not_index_start owf_def)

lemma content_chunk_not_done: "content_chunk c \<noteq> ''[DONE]''"
  by (simp add: content_chunk_def)

lemma onMessage_chunk: "c \<noteq> '''' \<Longrightarrow> onMessage n (content_chunk c) s = handleStreamUpdate ContentUpdate c s"
  by (simp add: onMessage_def content_chunk_not_done parse_content_chunk chunk_delta_def apply_delta_def str_field_def)

lemma process_status: "processStreamingContent (m\<lparr>status := st\<rparr>) c = (processStreamingContent m c)\<lparr>status := st\<rparr>"
  by (simp add: processStreamingContent_def Let_def updateCurrentVersionContent_def getCurrentVersion_def)

lemma finalize_status: "finalizeMessage (m\<lparr>status := st\<rparr>) a = (finalizeMessage m a)\<lparr>status := st\<rparr>"
  by (simp add: finalizeMessage_def Let_def updateCurrentVersionContent_def getCurrentVersion_def)

lemma chunks_run:
  assumes "messages s = pre @ [m]" "mfrom m = Assistant" "status m \<noteq> Some Error" "cs \<noteq> []" "\<forall>c \<in> set cs. c \<noteq> ''''"
  shows "messages (performs (map (\<lambda>c. SseMessage n (content_chunk c)) cs) s)
      = pre @ [(stream_chunks m cs)\<lparr>status := Some Streaming\<rparr>]"
  using assms(4,5)
proof (induction cs rule: rev_induct)
  case (snoc c cs)
  show ?case
  proof (cases "cs = []")
    case True
    then show ?thesis using assms snoc.prems
      by (simp add: onMessage_chunk handleStreamUpdate_def updateLast_snoc streamUpdateMessage_def stream_chunks_def)
  next
    case False
    with snoc have "messages (performs (map (\<lambda>c. SseMessage n (content_chunk c)) cs) s)
        = pre @ [(stream_chunks m cs)\<lparr>status := Some Streaming\<rparr>]" by simp
    then show ?thesis using assms(2) snoc.prems
      by (simp add: onMessage_chunk handleStreamUpdate_def updateLast_snoc streamUpdateMessage_def
          stream_chunks_snoc process_status stream_fields)
  qed
qed simp

lemma loading_fields [simp]:
  "mfrom (createLoadingAssistantMessage i j) = Assistant" "status (createLoadingAssistantMessage i j) = Some Loading"
  "reasoning (createLoadingAssistantMessage i j) = None" "content (getCurrentVersion (createLoadingAssistantMessage i j)) = ''''"
  "key (createLoadingAssistantMessage i j) = i"
  by (simp_all add: createLoadingAssistantMessage_def createMessageVersion_def getCurrentVersion_def)

lemma user_fields [simp]:
  "mfrom (createUserMessage i j t) = User" "status (createUserMessage i j t) = None"
  "content (getCurrentVersion (createUserMessage i j t)) = t" "key (createUserMessage i j t) = i"
  "versions (createUserMessage i j t) = [createMessageVersion j t]"
  by (simp_all add: createUserMessage_def createMessageVersion_def getCurrentVersion_def)

lemma sendChat_stream_messages:
  "messages (sendChat True ms s) = messages s"
  by (simp add: sendChat_def sendStreamingChat_def sendNonStreamingChat_def sendStreamRequest_def Let_def)

lemma handleSend_messages:
  "messages (handleSendMessage True ids t s)
    = messages s @ [createUserMessage (ids 0) (ids 1) t, createLoadingAssistantMessage (ids 2) (ids 3)]"
  by (simp add: handleSendMessage_def Let_def sendChat_stream_messages)

text \<open>
  C2: a question and its streamed answer, for an answer whose complete text has non-empty reasoning or no think tag
  at all. From any state, sending a text, receiving its answer in any non-empty pieces and the \<open>[DONE]\<close> event gives the old
  messages followed by the question and one complete answer: the finalised form of the whole text, however it was cut,
  and no source held. (For an empty think section the outcome does depend on the cut: \<open>stale_reasoning_of_split_tag\<close>.)
\<close>

theorem streamed_answer:
  assumes "cs \<noteq> []" "\<forall>c \<in> set cs. c \<noteq> ''''"
    and "treasoning (parseThinkTags (concat cs)) \<noteq> '''' \<or> \<not> str_includes OPEN_TAG (concat cs)"
    and "s' = performs (Send True ids t # map (\<lambda>c. SseMessage n (content_chunk c)) cs @ [SseMessage n ''[DONE]'']) s"
  shows "messages s' = messages s @
      [createUserMessage (ids 0) (ids 1) t,
       (finalizeMessage (updateCurrentVersionContent (createLoadingAssistantMessage (ids 2) (ids 3)) (concat cs)) None)
         \<lparr>status := Some Complete\<rparr>]
    \<and> sseSource s' = None"
proof -
  let ?m = "createLoadingAssistantMessage (ids 2) (ids 3)"
  let ?pre = "messages s @ [createUserMessage (ids 0) (ids 1) t]"
  let ?r = "performs (map (\<lambda>c. SseMessage n (content_chunk c)) cs) (handleSendMessage True ids t s)"
  have r: "messages ?r = ?pre @ [(stream_chunks ?m cs)\<lparr>status := Some Streaming\<rparr>]"
    by (rule chunks_run) (use assms in \<open>auto simp: handleSend_messages\<close>)
  have "finalizeMessage (stream_chunks ?m cs) None
      = finalizeMessage (updateCurrentVersionContent ?m (concat cs)) None"
    using stream_finalize [of cs ?m] assms(1,3) by simp
  then have "completeMessage ((stream_chunks ?m cs)\<lparr>status := Some Streaming\<rparr>)
      = (finalizeMessage (updateCurrentVersionContent ?m (concat cs)) None)\<lparr>status := Some Complete\<rparr>"
    by (simp add: completeMessage_def finalize_status)
  moreover have s': "s' = perform (SseMessage n ''[DONE]'') ?r" using assms(4) by simp
  have "messages s' = ?pre @ [completeMessage ((stream_chunks ?m cs)\<lparr>status := Some Streaming\<rparr>)]"
    unfolding s' messages_done r updateLast_snoc by (simp add: stream_fields)
  moreover have "sseSource s' = None"
    unfolding s' by (simp add: onMessage_def handleStreamComplete_def)
  ultimately show ?thesis by simp
qed

subsection \<open>What a request sends\<close>

definition value_set :: "json option \<Rightarrow> bool" where
  "value_set v \<longleftrightarrow> v \<noteq> None \<and> v \<noteq> Some JNull"

lemma oget_add_parameters:
  "oget (add_parameters cfg pe ks p) k
    = (if k \<in> set ks \<and> truthy_opt (oget pe k) \<and> value_set (oget cfg k) then oget cfg k else oget p k)"
  by (induction ks arbitrary: p) (auto simp: value_set_def split: option.splits)

lemma valid_loading: "filter isValidMessage (ms @ [createLoadingAssistantMessage i j]) = filter isValidMessage ms"
  by (simp add: isValidMessage_def createLoadingAssistantMessage_def createMessageVersion_def)

lemma payload_ignores_loading:
  "buildChatCompletionPayload (ms @ [createLoadingAssistantMessage i j]) cfg pe = buildChatCompletionPayload ms cfg pe"
  unfolding buildChatCompletionPayload_def valid_loading ..

lemma oget_payload:
  "oget (buildChatCompletionPayload ms cfg pe) k =
     (if k = ''messages'' then Some (JArr (map (api_message_json \<circ> formatMessageForAPI) (filter isValidMessage ms)))
      else if k = ''model'' \<or> k = ''group'' \<or> k = ''stream'' then oget cfg k
      else if k \<in> set parameterKeys \<and> truthy_opt (oget pe k) \<and> value_set (oget cfg k) then oget cfg k
      else None)"
proof -
  have base: "oget (opt_entry ''model'' (oget cfg ''model'') @ opt_entry ''group'' (oget cfg ''group'')
      @ [(''messages'', v)] @ opt_entry ''stream'' (oget cfg ''stream'')) k
    = (if k = ''messages'' then Some v
       else if k = ''model'' \<or> k = ''group'' \<or> k = ''stream'' then oget cfg k else None)" for v
    by (cases "k = ''model''"; cases "k = ''group''"; cases "k = ''stream''")
      (simp_all add: map_of_opt_entry map_of_opt_entry_last del: map_of_append)
  have par: "k \<in> set parameterKeys \<Longrightarrow> k \<noteq> ''messages'' \<and> k \<noteq> ''model'' \<and> k \<noteq> ''group'' \<and> k \<noteq> ''stream''"
    unfolding parameterKeys_def by (simp, elim disjE, simp_all)
  show ?thesis
    unfolding buildChatCompletionPayload_def Let_def oget_add_parameters base
    by (cases "k \<in> set parameterKeys") (simp_all add: par)
qed

text \<open>
  What pressing send transmits. One more request is made, and its payload has, key by key: the API form of exactly
  the valid messages of the conversation and the new question (never the empty placeholder of the
  answer), the configured model, group and stream flag, each sampling parameter exactly when it is
  enabled and has a value, and nothing else.
\<close>

theorem send_payload:
  "requests (perform (Send starts ids t) s) = requests s @ [last (requests (perform (Send starts ids t) s))]
   \<and> oget (last (requests (perform (Send starts ids t) s))) k =
     (if k = ''messages'' then Some (JArr (map (api_message_json \<circ> formatMessageForAPI)
         (filter isValidMessage (messages s @ [createUserMessage (ids 0) (ids 1) t]))))
      else if k = ''model'' \<or> k = ''group'' \<or> k = ''stream'' then oget (config s) k
      else if k \<in> set parameterKeys \<and> truthy_opt (oget (parameterEnabled s) k) \<and> value_set (oget (config s) k)
      then oget (config s) k else None)"
proof -
  have "requests (perform (Send starts ids t) s) = requests s @ [buildChatCompletionPayload
      (messages s @ [createUserMessage (ids 0) (ids 1) t]) (config s) (parameterEnabled s)]"
    using payload_ignores_loading [of "messages s @ [createUserMessage (ids 0) (ids 1) t]"]
    by (simp add: handleSendMessage_def Let_def)
  then show ?thesis unfolding oget_payload [symmetric] by simp
qed

subsection \<open>Answers without streaming\<close>

lemma sendChat_nonstream:
  "\<not> truthy_opt (oget (config s) ''stream'') \<Longrightarrow> sendChat b ms s = sendNonStreamingChat ms s"
  by (simp add: sendChat_def)

lemma updateLast_append2: "updateLastAssistantMessage (ms @ [a, b]) f = (if mfrom b = Assistant then ms @ [a, f b] else ms @ [a, b])"
  using updateLast_snoc [of "ms @ [a]" b f] by simp

lemma nonStream_from [simp]: "mfrom (nonStreamMessage ch m) = mfrom m"
  by (simp add: nonStreamMessage_def)

text \<open>
  Two questions asked without streaming before the first answer is back (nothing is held that would show the page
  as busy) race for the last message: both answers are written to the second placeholder, the later one over the
  earlier, and the first question's placeholder stays in the loading state.
\<close>

theorem nonstreaming_answers_race:
  assumes "\<not> truthy_opt (oget (config s) ''stream'')"
  shows "messages (performs [Send b1 i1 t1, Send b2 i2 t2, CallReturned (Response (Some c1)), CallReturned (Response (Some c2))] s)
     = messages s @ [createUserMessage (i1 0) (i1 1) t1, createLoadingAssistantMessage (i1 2) (i1 3),
         createUserMessage (i2 0) (i2 1) t2,
         nonStreamMessage c2 (nonStreamMessage c1 (createLoadingAssistantMessage (i2 2) (i2 3)))]
    \<and> isStreaming (perform (Send b1 i1 t1) s) = isStreaming s"
proof -
  have m: "messages (handleSendMessage b i t u) = messages u @ [createUserMessage (i 0) (i 1) t, createLoadingAssistantMessage (i 2) (i 3)]"
    "config (handleSendMessage b i t u) = config u" "sseSource (handleSendMessage b i t u) = sseSource u"
    if "\<not> truthy_opt (oget (config u) ''stream'')" for u b i t
    using that by (simp_all add: handleSendMessage_def sendChat_nonstream sendNonStreamingChat_def Let_def)
  show ?thesis
    using assms updateLast_append2 [of "messages s @ [createUserMessage (i1 0) (i1 1) t1, createLoadingAssistantMessage (i1 2) (i1 3)]"]
    by (simp add: m isStreaming_def)
qed

subsection \<open>Reloading at any moment of a session\<close>

text \<open>
  A step either leaves messages and their stored text alone or stores the text of the new messages.
\<close>

definition stores :: "ChatState \<Rightarrow> ChatState \<Rightarrow> bool" where
  "stores s s' \<longleftrightarrow> readable (storage s') = readable (storage s) \<and> writable (storage s') = writable (storage s)
     \<and> (messages s' = messages s \<and> try_get MESSAGES_KEY (storage s') = try_get MESSAGES_KEY (storage s)
        \<or> (readable (storage s) \<and> writable (storage s)
            \<longrightarrow> try_get MESSAGES_KEY (storage s') = Some (messages_text (messages s'))))"

lemma stores_refl [intro, simp]: "stores s s"
  by (simp add: stores_def)

lemma stores_trans: "stores a b \<Longrightarrow> stores b c \<Longrightarrow> stores a c"
  unfolding stores_def by metis

lemma stores_update [intro, simp]: "stores s (updateMessages f s)"
  by (simp add: stores_def saveMessages_def)

lemma stores_same: "messages s' = messages s \<Longrightarrow> storage s' = storage s \<Longrightarrow> stores s s'"
  by (simp add: stores_def)

lemma stores_via: "messages t = messages s \<Longrightarrow> storage t = storage s \<Longrightarrow> stores t s' \<Longrightarrow> stores s s'"
  by (simp add: stores_def)

lemma stores_then: "stores s s1 \<Longrightarrow> messages s' = messages s1 \<Longrightarrow> storage s' = storage s1 \<Longrightarrow> stores s s'"
  by (simp add: stores_def)

lemma stores_error [intro, simp]: "stores s (handleStreamError e c s)"
  unfolding handleStreamError_def by (rule stores_via [where t = "s\<lparr>toasts := toasts s @ [e]\<rparr>"]) simp_all

lemma stores_handleError [intro, simp]: "stores s (handleError n e c s)"
  by (auto simp: handleError_cases intro: stores_then [OF stores_error])

lemma stores_config [intro, simp]:
  "stores s (updateConfig k v s)" "stores s (updateParameterEnabled k b s)" "stores s (resetConfig s)"
  "stores s (onModelsData ms s)" "stores s (onGroupsData gs s)"
  by (auto simp: stores_def updateConfig_def updateParameterEnabled_def resetConfig_def onModelsData_def
      onGroupsData_def saveConfig_def saveParameterEnabled_def Let_def)

lemma stores_sendChat [intro, simp]: "stores s (sendChat b ms s)"
proof -
  let ?s1 = "s\<lparr>sseSource := Some (length (requests s)), isStreamComplete := False,
      requests := requests s @ [buildChatCompletionPayload ms (config s) (parameterEnabled s)]\<rparr>"
  have "stores s (handleStreamError STREAM_START_ERROR None ?s1)"
    by (rule stores_via [OF _ _ stores_error]) simp_all
  then have "stores s ((handleStreamError STREAM_START_ERROR None ?s1)\<lparr>sseSource := None\<rparr>)"
    by (rule stores_then) simp_all
  moreover have "stores s ?s1" by (rule stores_same) simp_all
  ultimately show ?thesis
    by (auto simp: sendChat_def sendStreamingChat_def sendStreamRequest_def sendNonStreamingChat_def Let_def
        intro: stores_same)
qed

lemma stores_send_after: "stores s (sendChat b ms (updateMessages f s))"
  by (rule stores_trans [OF stores_update stores_sendChat])

lemma stores_actions:
  "stores s (handleSendMessage b ids t s)" "stores s (handleRegenerateMessage b ids k s)"
  "stores s (handleEditMessage k s)" "stores s (handleEditOpenChange b s)" "stores s (handleDeleteMessage k s)"
  "stores s (clearMessages s)" "stores s (stopGeneration s)"
  by (auto simp: handleSendMessage_def handleRegenerateMessage_def handleDeleteMessage_def clearMessages_def
      stopGeneration_def handleEditMessage_def handleEditOpenChange_def Let_def stores_send_after
      split: option.splits intro: stores_same stores_via [OF _ _ stores_update, of "stopStream s"])

lemma stores_edit: "stores s (applyEdit b ids c sub s)"
proof -
  have "stores s (updateMessages f (s\<lparr>editingMessageKey := None\<rparr>))" for f
    by (rule stores_via [OF _ _ stores_update]) simp_all
  moreover have "stores s (sendChat b ms (updateMessages f (s\<lparr>editingMessageKey := None\<rparr>)))" for f ms
    by (rule stores_via [OF _ _ stores_send_after]) simp_all
  ultimately show ?thesis
    by (auto simp: applyEdit_def Let_def split: option.splits)
qed

lemma stores_delta: "stores s (apply_delta d s)"
proof -
  have u: "stores t (handleStreamUpdate ty c t)" for t ty c by (simp add: handleStreamUpdate_def)
  show ?thesis unfolding apply_delta_def Let_def by (auto intro: u stores_trans [OF u u])
qed

lemma stores_events:
  "stores s (onMessage n d s)" "stores s (onError n r d s)" "stores s (onReadyState n ro st s)"
  "stores s (nonStreamingResult res s)"
proof -
  have "stores s (handleStreamComplete (closeSource n (s\<lparr>isStreamComplete := True\<rparr>)))"
    unfolding handleStreamComplete_def by (rule stores_via [OF _ _ stores_update]) simp_all
  then show "stores s (onMessage n d s)"
    by (auto simp: onMessage_def stores_delta split: option.splits)
  show "stores s (onError n r d s)" "stores s (onReadyState n ro st s)"
    by (auto simp: onError_def onReadyState_def split: option.splits)
  show "stores s (nonStreamingResult res s)"
    by (cases "(res, s)" rule: nonStreamingResult.cases) auto
qed

lemmas stores_all = stores_actions stores_edit stores_events stores_config

lemma stores_perform: "stores s (perform a s)"
  by (cases a) (simp_all add: stores_all)

text \<open>What a reload of the page would show.\<close>

definition reloads :: "ChatState \<Rightarrow> bool" where
  "reloads s \<longleftrightarrow> (\<exists>ps. initPlayground (storage s) = Some ps \<and> messages ps = sanitizeMessagesOnLoad (messages s))"

lemma init_cong:
  assumes "try_get MESSAGES_KEY st = try_get MESSAGES_KEY st'"
  shows "map_option messages (initPlayground st) = map_option messages (initPlayground st')"
proof -
  have "fst (loadMessages st) = fst (loadMessages st')"
    using assms by (simp add: loadMessages_def Let_def split: option.splits)
  then show ?thesis
    by (auto simp: initPlayground_def Let_def split: prod.splits LoadedMessages.splits)
qed

lemma reloads_map: "reloads s \<longleftrightarrow> map_option messages (initPlayground (storage s)) = Some (sanitizeMessagesOnLoad (messages s))"
  by (auto simp: reloads_def)

lemma reloads_stores:
  assumes "reloads s" "stores s s'" "readable (storage s)" "writable (storage s)"
  shows "reloads s'"
proof (cases "messages s' = messages s \<and> try_get MESSAGES_KEY (storage s') = try_get MESSAGES_KEY (storage s)")
  case True
  then show ?thesis
    using assms(1) init_cong [of "storage s'" "storage s"] by (simp add: reloads_map)
next
  case False
  then have "try_get MESSAGES_KEY (storage s') = Some (messages_text (messages s'))"
    using assms by (auto simp: stores_def)
  then show ?thesis using init_messages unfolding reloads_def by blast
qed

lemma openPage_fields [simp]:
  "messages (openPage ps) = messages ps" "storage (openPage ps) = storage ps" "config (openPage ps) = config ps"
  "requests (openPage ps) = []" "sseSource (openPage ps) = None"
  by (simp_all add: openPage_def PlaygroundState.defs)

lemma reloads_opened:
  assumes "initPlayground st = Some ps" "readable st" "writable st"
  shows "reloads (openPage ps) \<and> readable (storage ps) \<and> writable (storage ps)"
proof -
  have "fst (loadMessages st) = NoMessages \<and> snd (loadMessages st) = st \<and> messages ps = []
      \<or> (\<exists>parsed. fst (loadMessages st) = LoadedList (sanitizeMessagesOnLoad parsed)
          \<and> messages ps = sanitizeMessagesOnLoad parsed
          \<and> snd (loadMessages st) = (if \<exists>m \<in> set parsed. stuck m
              then saveMessages (sanitizeMessagesOnLoad parsed) st else st))"
    using assms(1)
    by (auto simp: initPlayground_def loadMessages_def Let_def split: option.splits if_splits)
  then consider
    (none) "snd (loadMessages st) = st" "fst (loadMessages st) = NoMessages" "messages ps = []"
  | (some) parsed where "messages ps = sanitizeMessagesOnLoad parsed"
      "snd (loadMessages st) = (if \<exists>m \<in> set parsed. stuck m then saveMessages (sanitizeMessagesOnLoad parsed) st else st)"
    by blast
  note c = this
  have st: "storage ps = snd (loadMessages st)"
    using assms(1) by (auto simp: initPlayground_def Let_def split: prod.splits LoadedMessages.splits)
  consider
    (none) "storage ps = st" "messages ps = []"
  | (saved) "try_get MESSAGES_KEY (storage ps) = Some (messages_text (messages ps))" "readable (storage ps)" "writable (storage ps)"
  | (kept) "storage ps = st" "sanitizeMessagesOnLoad (messages ps) = messages ps"
  proof (cases rule: c)
    case none
    then show ?thesis using none st that(1) by simp
  next
    case (some parsed)
    show ?thesis
    proof (cases "\<exists>m \<in> set parsed. stuck m")
      case True
      then show ?thesis using some st assms(2,3) by (intro that(2)) (simp_all add: saveMessages_def)
    next
      case False
      then show ?thesis using some st by (intro that(3)) (simp_all add: sanitize_id)
    qed
  qed
  then show ?thesis
  proof cases
    case none
    then show ?thesis using assms by (simp add: reloads_def sanitizeMessagesOnLoad_def)
  next
    case saved
    then show ?thesis using init_messages [OF saved(1)] by (auto simp: reloads_def)
  next
    case kept
    then show ?thesis using assms by (auto simp: reloads_def)
  qed
qed

text \<open>
  C27: a reload at any moment of any session. If the storage works when the page opens, then in every state that
  actions of the user, events of the sources and answers can reach, opening the page again shows
  exactly the current messages, the last stuck one repaired.
\<close>

theorem session_survives_reload:
  assumes "session st s" "readable st" "writable st"
  shows "\<exists>ps. initPlayground (storage s) = Some ps \<and> messages ps = sanitizeMessagesOnLoad (messages s)"
proof -
  have "reloads s \<and> readable (storage s) \<and> writable (storage s)"
    using assms
  proof (induction rule: session.induct)
    case (opened ps)
    then show ?case using reloads_opened by simp
  next
    case (happens s a)
    then have IH: "reloads s" "readable (storage s)" "writable (storage s)" by simp_all
    have "stores s (perform a s)" by (rule stores_perform)
    with IH show ?case using reloads_stores by (simp add: stores_def)
  qed
  then show ?thesis by (simp add: reloads_def)
qed

subsection \<open>Instances\<close>

definition demoIds :: "nat \<Rightarrow> string" where
  "demoIds n = [digit_char n]"

definition demoChat :: ChatState where
  "demoChat = openPage demoState"

definition demoAsked :: ChatState where
  "demoAsked = perform (Send True demoIds ''hi'') demoChat"

lemma demo_messages:
  "messages demoAsked = [createUserMessage ''0'' ''1'' ''hi'', createLoadingAssistantMessage ''2'' ''3'']"
proof -
  have "demoIds 0 = ''0''" "demoIds 1 = ''1''" "demoIds 2 = ''2''" "demoIds 3 = ''3''" by code_simp+
  then show ?thesis
    by (simp add: demoAsked_def handleSend_messages) (simp add: demoChat_def demoState_def)
qed

lemma demo_store: "readable demoStorage" "writable demoStorage" "initPlayground demoStorage = Some demoState"
  by (simp_all add: demoStorage_def demoState_def initPlayground_def loadMessages_def loadConfig_def
      loadParameterEnabled_def load_json_def try_get_def getItem_def spread_def)

theorem reactions_touch_last_only_witness:
  "\<exists>m. messages (performs [SseMessage 0 (content_chunk ''a''), Stop] demoAsked) = [createUserMessage ''0'' ''1'' ''hi'', m]"
proof -
  have "list_all is_reaction [SseMessage 0 (content_chunk ''a''), Stop]" by simp
  from reactions_touch_last_only [OF this, of demoAsked] show ?thesis
    by (auto simp: demo_messages simp del: performs_simps)
qed

theorem done_ends_stream_witness:
  "sseSource (perform (SseMessage 0 ''[DONE]'') demoAsked) = None
   \<and> perform (SseError 0 1 ''x'') (perform (SseMessage 0 ''[DONE]'') demoAsked) = perform (SseMessage 0 ''[DONE]'') demoAsked
   \<and> perform (SseMessage 0 ''x'') (perform (SseMessage 0 ''[DONE]'') demoAsked) = perform (SseMessage 0 ''[DONE]'') demoAsked"
proof -
  have ne: "messages demoAsked \<noteq> []" and la: "mfrom (last (messages demoAsked)) = Assistant"
    by (simp_all add: demo_messages)
  have "json_parse ''x'' = None" by code_simp
  then show ?thesis
    using done_ends_stream [OF ne la refl, of 0 0 1 "''x''" None None "''x''"] by simp
qed

theorem error_is_final_witness:
  "messages (performs [SseMessage 0 (content_chunk ''late''), SseMessage 0 ''[DONE]'', Stop] (perform (SseError 0 1 ''down'') demoAsked))
     = messages (perform (SseError 0 1 ''down'') demoAsked)
   \<and> status (last (messages (perform (SseError 0 1 ''down'') demoAsked))) = Some Error"
proof -
  have nc: "\<not> isStreamComplete demoAsked"
    by (simp add: demoAsked_def handleSendMessage_def Let_def demoChat_def sendChat_def sendStreamingChat_def
        sendStreamRequest_def demoState_def DEFAULT_CONFIG_def truthy_opt_def)
  have m: "messages (perform (SseError 0 1 ''down'') demoAsked) = updateAssistantMessageWithError (messages demoAsked)
      (fst (error_details ''down'')) (snd (error_details ''down''))"
    using nc by (simp add: onError_def handleError_cases)
  then have st: "messages (perform (SseError 0 1 ''down'') demoAsked) \<noteq> []"
      "status (last (messages (perform (SseError 0 1 ''down'') demoAsked))) = Some Error"
    unfolding m by (simp_all add: demo_messages updateAssistantMessageWithError_def updateLastAssistantMessage_def)
  have h: "list_all harmless [SseMessage 0 (content_chunk ''late''), SseMessage 0 ''[DONE]'', Stop]"
    by (simp add: readable_chunk_def parse_content_chunk)
  from error_is_final [OF st h] st(2) show ?thesis by blast
qed

theorem streamed_answer_witness:
  "messages (performs (Send True demoIds ''hi'' # map (\<lambda>c. SseMessage 0 (content_chunk c)) [''he'', ''y''] @ [SseMessage 0 ''[DONE]'']) demoChat)
     = [createUserMessage (demoIds 0) (demoIds 1) ''hi'',
        (finalizeMessage (updateCurrentVersionContent (createLoadingAssistantMessage (demoIds 2) (demoIds 3)) ''hey'') None)\<lparr>status := Some Complete\<rparr>]"
proof -
  have "messages demoChat = []" by (simp add: demoChat_def demoState_def)
  then show ?thesis
    using streamed_answer [OF _ _ _ refl, of "[''he'', ''y'']" demoIds "''hi''" 0 demoChat]
    by (simp add: str_includes_def OPEN_TAG_def del: performs_simps)
qed

theorem nonstreaming_answers_race_witness:
  "let s = updateConfig ''stream'' (JBool False) demoChat; c = \<lparr>cmContent = Some ''one'', cmReasoning = None\<rparr>;
       d = \<lparr>cmContent = Some ''two'', cmReasoning = None\<rparr> in
   map status (messages (performs [Send True demoIds ''a'', Send True demoIds ''b'', CallReturned (Response (Some c)), CallReturned (Response (Some d))] s))
     = [None, Some Loading, None, Some Complete]"
proof -
  have t: "\<not> truthy_opt (oget (config (updateConfig ''stream'' (JBool False) demoChat)) ''stream'')"
    by (simp add: updateConfig_def Let_def truthy_opt_def)
  have m: "messages (updateConfig ''stream'' (JBool False) demoChat) = []"
    by (simp add: updateConfig_def Let_def demoChat_def demoState_def)
  show ?thesis
    using nonstreaming_answers_race [OF t]
    by (simp add: Let_def m nonStreamMessage_def del: performs_simps)
qed

theorem session_survives_reload_witness:
  "\<exists>ps. initPlayground (storage demoAsked) = Some ps
     \<and> messages ps = sanitizeMessagesOnLoad [createUserMessage ''0'' ''1'' ''hi'', createLoadingAssistantMessage ''2'' ''3'']"
proof -
  have "session demoStorage demoAsked"
    unfolding demoAsked_def demoChat_def by (rule session.happens [OF session.opened]) (simp_all add: demo_store)
  from session_survives_reload [OF this demo_store(1,2)] show ?thesis by (simp add: demo_messages)
qed

end
