(* ===== verification/HttpStatusRules.thy ===== *)
theory HttpStatusRules
  imports JsJson
begin

text \<open>
  Rules for HTTP status codes (\<^verbatim>\<open>lib/http-status-code-rules.ts\<close>): a text such as \<open>400,404-410\<close> is
  parsed into ranges, which are sorted and merged. Text is a list of UTF-16 code units, because
  the full-width comma U+FF0C is a separator.
\<close>

subsection \<open>Code units\<close>

type_synonym units = "nat list"

text \<open>White space of \<open>trim\<close> and of the class \<open>\s\<close> in regular expressions.\<close>

definition unit_ws :: "nat \<Rightarrow> bool" where
  "unit_ws c \<longleftrightarrow> c \<in> {9, 10, 11, 12, 13, 32, 160, 5760, 8232, 8233, 8239, 8287, 12288, 65279}
     \<or> 8192 \<le> c \<and> c \<le> 8202"

definition units_of :: "string \<Rightarrow> units" where
  "units_of s = map of_char s"

definition COMMA :: nat where "COMMA = 44"
definition MINUS :: nat where "MINUS = 45"
definition FULLWIDTH_COMMA :: nat where "FULLWIDTH_COMMA = 65292"

definition unit_digit :: "nat \<Rightarrow> bool" where
  "unit_digit c \<longleftrightarrow> 48 \<le> c \<and> c \<le> 57"

definition parse_int :: "units \<Rightarrow> nat" where
  "parse_int s = foldl (\<lambda>a c. 10 * a + (c - 48)) 0 s"

definition show_units :: "nat \<Rightarrow> units" where
  "show_units n = units_of (show_nat n)"

subsection \<open>Ranges\<close>

datatype StatusCodeRange = Range (start: nat) (stop: nat)

text \<open>The order of the comparison function given to \<open>sort\<close>: by start, then by end.\<close>

instantiation StatusCodeRange :: linorder
begin

definition less_eq_StatusCodeRange :: "StatusCodeRange \<Rightarrow> StatusCodeRange \<Rightarrow> bool" where
  "less_eq_StatusCodeRange a b \<longleftrightarrow> (if start a \<noteq> start b then start a < start b else stop a \<le> stop b)"

definition less_StatusCodeRange :: "StatusCodeRange \<Rightarrow> StatusCodeRange \<Rightarrow> bool" where
  "less_StatusCodeRange a b \<longleftrightarrow> (if start a \<noteq> start b then start a < start b else stop a < stop b)"

instance
  by standard (auto simp: less_eq_StatusCodeRange_def less_StatusCodeRange_def StatusCodeRange.expand split: if_splits)

end

definition merge_step :: "StatusCodeRange list \<Rightarrow> StatusCodeRange \<Rightarrow> StatusCodeRange list" where
  "merge_step merged current =
     (if merged = [] \<or> stop (last merged) + 1 < start current then merged @ [current]
      else butlast merged @ [Range (start (last merged)) (max (stop (last merged)) (stop current))])"

definition mergeRanges :: "StatusCodeRange list \<Rightarrow> StatusCodeRange list" where
  "mergeRanges ranges = foldl merge_step [] (sort ranges)"

definition isNumber :: "units \<Rightarrow> bool" where
  "isNumber s \<longleftrightarrow> s \<noteq> [] \<and> list_all unit_digit s"

definition isValidCode :: "nat \<Rightarrow> bool" where
  "isValidCode code \<longleftrightarrow> 100 \<le> code \<and> code \<le> 599"

definition parseToken :: "units \<Rightarrow> StatusCodeRange option" where
  "parseToken token =
     (let cleaned = filter (\<lambda>c. \<not> unit_ws c) (trim_by unit_ws token) in
      if cleaned = [] then None
      else if MINUS \<in> set cleaned then
        (let parts = split_on MINUS cleaned; a = parts ! 0; b = parts ! 1 in
         if \<not> isNumber a \<or> \<not> isNumber b then None
         else (let st = parse_int a; en = parse_int b in
               if \<not> isValidCode st \<or> \<not> isValidCode en \<or> en < st then None else Some (Range st en)))
      else if \<not> isNumber cleaned then None
      else (let code = parse_int cleaned in if \<not> isValidCode code then None else Some (Range code code)))"

record ParsedHttpStatusCodeRules =
  ok :: bool
  ranges :: "StatusCodeRange list"
  tokens :: "units list"
  normalized :: units
  invalidTokens :: "units list"

definition range_token :: "StatusCodeRange \<Rightarrow> units" where
  "range_token r = (if start r = stop r then show_units (start r)
                    else show_units (start r) @ [MINUS] @ show_units (stop r))"

definition segments_of :: "units \<Rightarrow> units list" where
  "segments_of raw =
     filter (\<lambda>w. w \<noteq> []) (map (trim_by unit_ws)
       (split_on COMMA (map (\<lambda>c. if c = FULLWIDTH_COMMA then COMMA else c) raw)))"

definition parseHttpStatusCodeRules :: "units \<Rightarrow> ParsedHttpStatusCodeRules" where
  "parseHttpStatusCodeRules input =
     (let raw = trim_by unit_ws input in
      if raw = [] then \<lparr>ok = True, ranges = [], tokens = [], normalized = [], invalidTokens = []\<rparr>
      else
        (let segments = segments_of raw;
             rs = List.map_filter parseToken segments;
             invalid = filter (\<lambda>s. parseToken s = None) segments
         in if invalid \<noteq> []
            then \<lparr>ok = False, ranges = [], tokens = [], normalized = raw, invalidTokens = invalid\<rparr>
            else (let merged = mergeRanges rs; toks = map range_token merged
                  in \<lparr>ok = True, ranges = merged, tokens = toks, normalized = join [COMMA] toks, invalidTokens = []\<rparr>)))"

subsection \<open>Merging is a normal form\<close>

definition codes :: "StatusCodeRange list \<Rightarrow> nat set" where
  "codes rs = (\<Union>r \<in> set rs. {start r .. stop r})"

definition proper :: "StatusCodeRange list \<Rightarrow> bool" where
  "proper rs \<longleftrightarrow> (\<forall>r \<in> set rs. start r \<le> stop r)"

text \<open>Sorted, with a gap of at least one code between neighbours.\<close>

definition separated :: "StatusCodeRange list \<Rightarrow> bool" where
  "separated rs \<longleftrightarrow> proper rs \<and> sorted_wrt (\<lambda>a b. stop a + 1 < start b) rs"

lemma codes_simps [simp]:
  "codes [] = {}" "codes (r # rs) = {start r .. stop r} \<union> codes rs" "codes (xs @ ys) = codes xs \<union> codes ys"
  by (auto simp: codes_def)

lemma codes_cong: "set xs = set ys \<Longrightarrow> codes xs = codes ys"
  by (simp add: codes_def)

lemma proper_simps [simp]:
  "proper []" "proper (r # rs) \<longleftrightarrow> start r \<le> stop r \<and> proper rs" "proper (xs @ ys) \<longleftrightarrow> proper xs \<and> proper ys"
  by (auto simp: proper_def)

lemma merge_step_sound:
  assumes "separated merged" "start current \<le> stop current" "merged \<noteq> [] \<Longrightarrow> start (last merged) \<le> start current"
  shows "separated (merge_step merged current)
     \<and> codes (merge_step merged current) = codes merged \<union> {start current .. stop current}
     \<and> start (last (merge_step merged current)) \<le> start current"
proof (cases merged rule: rev_cases)
  case Nil
  then show ?thesis using assms by (simp add: merge_step_def separated_def)
next
  case (snoc pre r)
  have far: "stop a + 1 < start r" if "a \<in> set pre" for a
    using assms(1) that snoc by (auto simp: separated_def sorted_wrt_append)
  have pr: "start r \<le> stop r" "start r \<le> start current" using assms snoc by (auto simp: separated_def)
  have gap: "stop a + 1 < start current" if "a \<in> set pre" for a
    using far [OF that] pr by simp
  show ?thesis
    using snoc assms far gap pr
    by (cases "stop r + 1 < start current") (auto simp: merge_step_def separated_def sorted_wrt_append)
qed

lemma fold_merge_sound:
  assumes "separated merged" "proper rs" "sorted rs"
    and "merged \<noteq> [] \<Longrightarrow> \<forall>r \<in> set rs. start (last merged) \<le> start r"
  shows "separated (foldl merge_step merged rs) \<and> codes (foldl merge_step merged rs) = codes merged \<union> codes rs"
  using assms
proof (induction rs arbitrary: merged)
  case Nil
  then show ?case by simp
next
  case (Cons r rs)
  have le: "\<forall>x \<in> set rs. start r \<le> start x"
    using Cons.prems(3) by (auto simp: less_eq_StatusCodeRange_def split: if_splits)
  have st: "separated (merge_step merged r)" "codes (merge_step merged r) = codes merged \<union> {start r .. stop r}"
      "start (last (merge_step merged r)) \<le> start r"
    using merge_step_sound [of merged r] Cons.prems by auto
  have "separated (foldl merge_step (merge_step merged r) rs)
      \<and> codes (foldl merge_step (merge_step merged r) rs) = codes (merge_step merged r) \<union> codes rs"
    by (rule Cons.IH) (use Cons.prems st le in \<open>auto intro: order_trans\<close>)
  then show ?case using st by auto
qed

lemma mergeRanges_sound:
  assumes "proper rs"
  shows "separated (mergeRanges rs)" "codes (mergeRanges rs) = codes rs"
proof -
  have "proper (sort rs)" using assms by (simp add: proper_def)
  then have "separated (mergeRanges rs) \<and> codes (mergeRanges rs) = codes [] \<union> codes (sort rs)"
    unfolding mergeRanges_def by (intro fold_merge_sound) (auto simp: separated_def)
  then show "separated (mergeRanges rs)" "codes (mergeRanges rs) = codes rs"
    using codes_cong [of "sort rs" rs] by auto
qed

lemma separated_tail: "separated (r # rs) \<Longrightarrow> separated rs \<and> (\<forall>c \<in> codes rs. stop r + 1 < c)"
  by (fastforce simp: separated_def codes_def)

lemma separated_unique: "separated xs \<Longrightarrow> separated ys \<Longrightarrow> codes xs = codes ys \<Longrightarrow> xs = ys"
proof (induction xs arbitrary: ys)
  case Nil
  then show ?case by (cases ys) (auto simp: separated_def)
next
  case (Cons x xs)
  from Cons.prems obtain y ys' where ys: "ys = y # ys'" by (cases ys) (auto simp: separated_def)
  have x: "start x \<le> stop x" "\<forall>c \<in> codes xs. stop x + 1 < c" "separated xs"
    using Cons.prems separated_tail [of x xs] by (auto simp: separated_def)
  have y: "start y \<le> stop y" "\<forall>c \<in> codes ys'. stop y + 1 < c" "separated ys'"
    using Cons.prems ys separated_tail [of y ys'] by (auto simp: separated_def)
  have eq: "c \<in> {start x .. stop x} \<union> codes xs \<longleftrightarrow> c \<in> {start y .. stop y} \<union> codes ys'" for c
    using Cons.prems(3) ys by auto
  have st: "start x = start y"
    using eq [of "start x"] eq [of "start y"] x y by fastforce
  have "stop x = stop y"
  proof (rule ccontr)
    assume ne: "stop x \<noteq> stop y"
    show False
    proof (cases "stop x < stop y")
      case True
      then have "stop x + 1 \<in> {start y .. stop y}" using x st by auto
      then have "stop x + 1 \<in> {start x .. stop x} \<union> codes xs" using eq by blast
      then show False using x by auto
    next
      case False
      then have "stop y + 1 \<in> {start x .. stop x}" using y st ne by auto
      then have "stop y + 1 \<in> {start y .. stop y} \<union> codes ys'" using eq by blast
      then show False using y by auto
    qed
  qed
  with st have xy: "x = y" by (simp add: StatusCodeRange.expand)
  have tail: "zs = {c. c \<in> {start x .. stop x} \<union> zs \<and> stop x < c}" if "\<forall>c \<in> zs. stop x + 1 < c" for zs
    using that by fastforce
  have "codes xs = {c. c \<in> {start x .. stop x} \<union> codes xs \<and> stop x < c}" using x(2) by (rule tail)
  also have "\<dots> = {c. c \<in> {start x .. stop x} \<union> codes ys' \<and> stop x < c}" using eq xy by simp
  also have "\<dots> = codes ys'" by (rule tail [symmetric]) (use y(2) xy in simp)
  finally have "xs = ys'" by (rule Cons.IH [OF x(3) y(3)])
  then show ?case by (simp add: ys xy)
qed

interpretation ranges: canonical_form mergeRanges codes proper separated
proof unfold_locales
  show "separated x \<Longrightarrow> proper x" for x by (simp add: separated_def)
qed (auto simp: mergeRanges_sound intro: separated_unique)

subsection \<open>Texts\<close>

lemma unit_digit_not [simp]: "unit_digit c \<Longrightarrow> \<not> unit_ws c \<and> c \<noteq> COMMA \<and> c \<noteq> MINUS \<and> c \<noteq> FULLWIDTH_COMMA"
  by (auto simp: unit_digit_def unit_ws_def COMMA_def MINUS_def FULLWIDTH_COMMA_def)

lemma show_units_digits: "c \<in> set (show_units n) \<Longrightarrow> unit_digit c"
  by (auto simp: show_units_def units_of_def unit_digit_def dest: show_nat_digits simp: is_digit_def)

lemma show_units_Nil [simp]: "show_units n \<noteq> []"
  by (simp add: show_units_def units_of_def)

lemma isNumber_show [simp]: "isNumber (show_units n)"
  by (auto simp: isNumber_def list_all_iff dest: show_units_digits)

lemma foldl_units: "foldl (\<lambda>a c. 10 * a + (c - 48)) k (map of_char s) = foldl (\<lambda>a c. 10 * a + digit_val c) k s"
  by (induction s arbitrary: k) (simp_all add: digit_val_def)

lemma parse_int_show [simp]: "parse_int (show_units n) = n"
  using read_show_nat [of n] by (simp add: parse_int_def show_units_def units_of_def foldl_units read_nat_def)

lemma range_token_chars: "c \<in> set (range_token r) \<Longrightarrow> unit_digit c \<or> c = MINUS"
  by (auto simp: range_token_def dest: show_units_digits split: if_splits)

lemma no_ws_token: "\<forall>c \<in> set (range_token r). \<not> unit_ws c"
  using range_token_chars by (fastforce simp: unit_ws_def MINUS_def dest: unit_digit_not)

lemma range_token_Nil [simp]: "range_token r \<noteq> []"
  by (simp add: range_token_def)

lemma trim_no_ws: "\<forall>c \<in> set s. \<not> p c \<Longrightarrow> trim_by p s = s"
  by (rule trim_by_id) (cases s rule: rev_cases; auto simp: trimmed_by_def hd_append)

lemma parseToken_range_token:
  assumes "isValidCode (start r)" "isValidCode (stop r)" "start r \<le> stop r"
  shows "parseToken (range_token r) = Some r"
proof -
  have m: "MINUS \<notin> set (show_units n)" for n using show_units_digits unit_digit_not by blast
  have sp: "split_on MINUS (show_units (start r) @ MINUS # show_units (stop r)) = [show_units (start r), show_units (stop r)]"
    by (simp add: split_on_append m split_on_no_sep)
  have cl: "filter (\<lambda>c. \<not> unit_ws c) (trim_by unit_ws (range_token r)) = range_token r"
    using no_ws_token [of r] by (simp add: trim_no_ws filter_id_conv)
  show ?thesis
    unfolding parseToken_def Let_def cl
    using assms m [of "start r"] by (auto simp: range_token_def sp StatusCodeRange.expand)
qed

lemma parseToken_valid:
  "parseToken t = Some r \<Longrightarrow> isValidCode (start r) \<and> isValidCode (stop r) \<and> start r \<le> stop r"
  by (auto simp: parseToken_def Let_def split: if_splits)

lemma set_join: "c \<in> set (join sep ws) \<Longrightarrow> c \<in> set sep \<or> (\<exists>w \<in> set ws. c \<in> set w)"
  by (induction sep ws rule: join.induct) auto

text \<open>The normalized text of valid ranges is read back as these ranges.\<close>

lemma segments_join:
  assumes "rs \<noteq> []"
  shows "segments_of (join [COMMA] (map range_token rs)) = map range_token rs"
proof -
  have ch: "\<forall>w \<in> set (map range_token rs). COMMA \<notin> set w"
    by (auto dest!: range_token_chars simp: COMMA_def MINUS_def unit_digit_def)
  have "c \<noteq> FULLWIDTH_COMMA" if "c \<in> set (join [COMMA] (map range_token rs))" for c
  proof -
    have "c = COMMA \<or> (\<exists>r. c \<in> set (range_token r))" using that set_join [of c "[COMMA]"] by fastforce
    then show ?thesis
      by (auto dest!: range_token_chars simp: COMMA_def MINUS_def FULLWIDTH_COMMA_def unit_digit_def)
  qed
  then have "map (\<lambda>c. if c = FULLWIDTH_COMMA then COMMA else c) (join [COMMA] (map range_token rs))
      = join [COMMA] (map range_token rs)"
    by (intro map_idI) auto
  then have "segments_of (join [COMMA] (map range_token rs))
      = filter (\<lambda>w. w \<noteq> []) (map (trim_by unit_ws) (map range_token rs))"
    using ch assms by (simp add: segments_of_def split_on_join)
  then show ?thesis
    using no_ws_token by (simp add: comp_def trim_no_ws filter_id_conv)
qed

lemma trim_join_tokens:
  "trim_by unit_ws (join [COMMA] (map range_token rs)) = join [COMMA] (map range_token rs)"
proof (rule trim_no_ws, rule ballI)
  fix c
  assume "c \<in> set (join [COMMA] (map range_token rs))"
  then have "c = COMMA \<or> (\<exists>r. c \<in> set (range_token r))" using set_join [of c "[COMMA]"] by fastforce
  then show "\<not> unit_ws c" using no_ws_token by (auto simp: COMMA_def unit_ws_def)
qed

definition valid_ranges :: "StatusCodeRange list \<Rightarrow> bool" where
  "valid_ranges rs \<longleftrightarrow> (\<forall>r \<in> set rs. isValidCode (start r) \<and> isValidCode (stop r) \<and> start r \<le> stop r)"

lemma valid_proper: "valid_ranges rs \<Longrightarrow> proper rs"
  by (simp add: valid_ranges_def proper_def)

lemma codes_bounds: "proper rs \<Longrightarrow> valid_ranges rs \<longleftrightarrow> (\<forall>c \<in> codes rs. isValidCode c)"
proof -
  assume p: "proper rs"
  show ?thesis
  proof
    assume "valid_ranges rs"
    then show "\<forall>c \<in> codes rs. isValidCode c"
      by (fastforce simp: valid_ranges_def codes_def isValidCode_def)
  next
    assume c: "\<forall>c \<in> codes rs. isValidCode c"
    have "isValidCode (start r) \<and> isValidCode (stop r) \<and> start r \<le> stop r" if r: "r \<in> set rs" for r
    proof -
      have le: "start r \<le> stop r" using p r by (simp add: proper_def)
      then have "start r \<in> codes rs" "stop r \<in> codes rs" using r by (auto simp: codes_def)
      then show ?thesis using c le by blast
    qed
    then show "valid_ranges rs" by (simp add: valid_ranges_def)
  qed
qed

lemma valid_merge: "valid_ranges rs \<Longrightarrow> valid_ranges (mergeRanges rs)"
  using codes_bounds [of rs] codes_bounds [of "mergeRanges rs"] mergeRanges_sound [of rs] valid_proper [of rs]
    ranges.canonical_valid [of "mergeRanges rs"] by simp

lemma map_filter_tokens: "valid_ranges rs \<Longrightarrow> List.map_filter parseToken (map range_token rs) = rs"
  by (induction rs) (auto simp: valid_ranges_def parseToken_range_token List.map_filter_simps)

lemma valid_parsed: "valid_ranges (List.map_filter parseToken ss)"
  by (auto simp: valid_ranges_def List.map_filter_def dest: parseToken_valid)

lemma parse_ok:
  assumes "ok (parseHttpStatusCodeRules input)" "trim_by unit_ws input \<noteq> []"
  shows "parseHttpStatusCodeRules input =
    (let merged = mergeRanges (List.map_filter parseToken (segments_of (trim_by unit_ws input)));
         toks = map range_token merged
     in \<lparr>ok = True, ranges = merged, tokens = toks, normalized = join [COMMA] toks, invalidTokens = []\<rparr>)"
  using assms by (auto simp: parseHttpStatusCodeRules_def Let_def split: if_splits)

lemma join_tokens_Nil: "join [COMMA] (map range_token rs) = [] \<longleftrightarrow> rs = []"
  by (cases rs; cases "tl rs") (auto simp: neq_Nil_conv)

lemma parse_normalized:
  assumes "valid_ranges rs" "separated rs"
  shows "parseHttpStatusCodeRules (join [COMMA] (map range_token rs)) =
    \<lparr>ok = True, ranges = rs, tokens = map range_token rs, normalized = join [COMMA] (map range_token rs), invalidTokens = []\<rparr>"
proof (cases "rs = []")
  case True
  then show ?thesis by (simp add: parseHttpStatusCodeRules_def)
next
  case False
  have inv: "filter (\<lambda>s. parseToken s = None) (map range_token rs) = []"
    using assms(1) by (auto simp: filter_empty_conv valid_ranges_def parseToken_range_token)
  show ?thesis
    using False assms join_tokens_Nil [of rs]
    by (simp add: parseHttpStatusCodeRules_def trim_join_tokens segments_join inv map_filter_tokens
        ranges.norm_canonical_id Let_def)
qed

lemma accepted_normal_at:
  assumes "ok (parseHttpStatusCodeRules input)" "r = parseHttpStatusCodeRules input"
  shows "separated (ranges r) \<and> valid_ranges (ranges r)
    \<and> codes (ranges r) = codes (List.map_filter parseToken (segments_of (trim_by unit_ws input)))
    \<and> tokens r = map range_token (ranges r) \<and> normalized r = join [COMMA] (tokens r)
    \<and> parseHttpStatusCodeRules (normalized r) = r"
proof (cases "trim_by unit_ws input = []")
  case True
  then show ?thesis
    using assms(2) by (simp add: parseHttpStatusCodeRules_def segments_of_def separated_def valid_ranges_def List.map_filter_simps)
next
  case False
  let ?rs = "List.map_filter parseToken (segments_of (trim_by unit_ws input))"
  have v: "valid_ranges ?rs" by (rule valid_parsed)
  note r = parse_ok [OF assms(1) False, folded assms(2), unfolded Let_def]
  show ?thesis
    using parse_normalized [OF valid_merge [OF v] mergeRanges_sound(1) [OF valid_proper [OF v]]]
      mergeRanges_sound [OF valid_proper [OF v]] valid_merge [OF v]
    by (simp add: r)
qed

lemmas accepted_normal = accepted_normal_at [OF _ refl]

text \<open>
  C10: the accepted rules in normal form. The ranges of an accepted text are sorted, separated by gaps and within
  100 to 599, and cover exactly the codes of the ranges written in it; parsing the normalized text
  gives the same result again.
\<close>

theorem rules_normal_form:
  assumes "ok (parseHttpStatusCodeRules input)" "r = parseHttpStatusCodeRules input"
  shows "separated (ranges r) \<and> valid_ranges (ranges r)
    \<and> codes (ranges r) = codes (List.map_filter parseToken (segments_of (trim_by unit_ws input)))
    \<and> tokens r = map range_token (ranges r) \<and> normalized r = join [COMMA] (tokens r)
    \<and> parseHttpStatusCodeRules (normalized r) = r"
  using assms by (rule accepted_normal_at)

theorem rules_normal_form_witness:
  "normalized (parseHttpStatusCodeRules (units_of '' 404 , 400-403, 500'')) = units_of ''400-404,500''
   \<and> separated (ranges (parseHttpStatusCodeRules (units_of '' 404 , 400-403, 500'')))"
proof -
  have "ok (parseHttpStatusCodeRules (units_of '' 404 , 400-403, 500''))" by code_simp
  from rules_normal_form [OF this refl]
  show ?thesis by (intro conjI) (code_simp, blast)
qed

text \<open>
  Equal meaning, equal text. Two accepted rule texts are normalized to the same text exactly when they cover
  the same status codes, however their ranges are ordered, overlap, touch or are spaced.
\<close>

theorem normalized_determined_by_codes:
  assumes "ok (parseHttpStatusCodeRules a)" "ok (parseHttpStatusCodeRules b)"
  shows "normalized (parseHttpStatusCodeRules a) = normalized (parseHttpStatusCodeRules b)
    \<longleftrightarrow> codes (ranges (parseHttpStatusCodeRules a)) = codes (ranges (parseHttpStatusCodeRules b))"
proof -
  have n: "separated (ranges (parseHttpStatusCodeRules x))
      \<and> parseHttpStatusCodeRules (normalized (parseHttpStatusCodeRules x)) = parseHttpStatusCodeRules x
      \<and> normalized (parseHttpStatusCodeRules x) = join [COMMA] (map range_token (ranges (parseHttpStatusCodeRules x)))"
    if "ok (parseHttpStatusCodeRules x)" for x
    using accepted_normal [OF that] by metis
  show ?thesis
    using n [OF assms(1)] n [OF assms(2)] separated_unique by metis
qed

theorem normalized_determined_by_codes_witness:
  "normalized (parseHttpStatusCodeRules (units_of ''400,401'')) = normalized (parseHttpStatusCodeRules (units_of ''400-401''))
    \<longleftrightarrow> codes (ranges (parseHttpStatusCodeRules (units_of ''400,401''))) = codes (ranges (parseHttpStatusCodeRules (units_of ''400-401'')))"
  by (rule normalized_determined_by_codes) (code_simp, code_simp)

text \<open>
  A text is rejected exactly when one of its parts is no range; then no ranges are returned, the parts at fault are
  listed in order, and the text itself stays as typed but for the outer blanks.
\<close>

theorem rules_rejected:
  "(ok (parseHttpStatusCodeRules input) \<longleftrightarrow> list_all (\<lambda>s. parseToken s \<noteq> None) (segments_of (trim_by unit_ws input)))
   \<and> invalidTokens (parseHttpStatusCodeRules input) = filter (\<lambda>s. parseToken s = None) (segments_of (trim_by unit_ws input))
   \<and> (ok (parseHttpStatusCodeRules input)
      \<or> ranges (parseHttpStatusCodeRules input) = [] \<and> normalized (parseHttpStatusCodeRules input) = trim_by unit_ws input)"
  by (auto simp: parseHttpStatusCodeRules_def Let_def filter_empty_conv list_all_iff segments_of_def)

text \<open>
  A part with two dashes is accepted, and what follows the second dash is dropped without an error.
\<close>

theorem second_dash_ignored:
  "parseHttpStatusCodeRules (units_of ''400-450-500'') =
     \<lparr>ok = True, ranges = [Range 400 450], tokens = [units_of ''400-450''], normalized = units_of ''400-450'',
      invalidTokens = []\<rparr>
   \<and> parseToken (units_of ''400-450-junk'') = Some (Range 400 450)"
  by (rule conjI; code_simp)

end
