(* ===== verification/StatusRisk.thy ===== *)
theory StatusRisk
  imports JsJsonFacts "HOL-Library.Char_ord" "HOL-Library.List_Lexorder"
begin

text \<open>
  The guard of a channel's status-code mapping (\<^verbatim>\<open>features/channels/lib/status-code-risk-guard.ts\<close>):
  which entries of the JSON text are malformed, which redirect a code that must not be
  redirected, and which of these an edit introduces. The default order of \<open>sort()\<close> is the lexicographic one on
  code units.
\<close>

definition NON_REDIRECTABLE_STATUS_CODES :: "nat list" where
  "NON_REDIRECTABLE_STATUS_CODES = [504, 524]"

text \<open>The regular expression \<open>/^[1-5]\d{2}$/\<close>.\<close>

definition is_status_text :: "string \<Rightarrow> bool" where
  "is_status_text s \<longleftrightarrow> length s = 3 \<and> list_all is_digit s \<and> 1 \<le> digit_val (s ! 0) \<and> digit_val (s ! 0) \<le> 5"

definition parseStatusCodeKey :: "string \<Rightarrow> nat option" where
  "parseStatusCodeKey rawKey =
     (let normalized = trim rawKey in if \<not> is_status_text normalized then None else Some (read_nat normalized))"

fun parseStatusCodeMappingTarget :: "json \<Rightarrow> nat option" where
  "parseStatusCodeMappingTarget (JNum x) =
     (case int_of_num x of None \<Rightarrow> None | Some i \<Rightarrow> if 100 \<le> i \<and> i \<le> 599 then Some (nat i) else None)"
| "parseStatusCodeMappingTarget (JStr s) =
     (let normalized = trim s in
      if \<not> is_status_text normalized then None
      else (let code = read_nat normalized in if 100 \<le> code \<and> code \<le> 599 then Some code else None))"
| "parseStatusCodeMappingTarget _ = None"

text \<open>The entries both collectors walk through: none for blank text, text that is no JSON, and JSON that is no object.\<close>

definition mapping_entries :: "string \<Rightarrow> json obj" where
  "mapping_entries s =
     (if trim s = [] then [] else (case json_parse s of Some (JObj ob) \<Rightarrow> own_entries ob | _ \<Rightarrow> []))"

text \<open>
  An invalid entry is shown as its key, an arrow (U+2192, beyond the characters of the model) and the text of its
  value: here the pair of both.
\<close>

definition collectInvalidStatusCodeEntries :: "string \<Rightarrow> (string \<times> string) list" where
  "collectInvalidStatusCodeEntries s =
     map (\<lambda>p. (fst p, js_String (snd p)))
       (filter (\<lambda>p. parseStatusCodeKey (fst p) = None \<or> parseStatusCodeMappingTarget (snd p) = None) (mapping_entries s))"

definition redirect_text :: "nat \<Rightarrow> nat \<Rightarrow> string" where
  "redirect_text from to = show_nat from @ '' -> '' @ show_nat to"

definition risky_mapping :: "string \<times> json \<Rightarrow> string option" where
  "risky_mapping p =
     (case (parseStatusCodeKey (fst p), parseStatusCodeMappingTarget (snd p)) of
        (Some from, Some to) \<Rightarrow>
          (if from \<notin> set NON_REDIRECTABLE_STATUS_CODES then None
           else if from = to then None else Some (redirect_text from to))
      | _ \<Rightarrow> None)"

definition collectDisallowedStatusCodeRedirects :: "string \<Rightarrow> string list" where
  "collectDisallowedStatusCodeRedirects s = sort (uniq (List.map_filter risky_mapping (mapping_entries s)))"

definition collectNewDisallowedStatusCodeRedirects :: "string \<Rightarrow> string \<Rightarrow> string list" where
  "collectNewDisallowedStatusCodeRedirects original current =
     (let currentRisky = collectDisallowedStatusCodeRedirects current in
      if currentRisky = [] then []
      else filter (\<lambda>w. w \<notin> set (collectDisallowedStatusCodeRedirects original)) currentRisky)"

subsection \<open>Properties\<close>

lemma redirect_text_inj: "redirect_text a b = redirect_text c d \<Longrightarrow> a = c \<and> b = d"
proof -
  assume eq: "redirect_text a b = redirect_text c d"
  have sp: "takeWhile is_digit (redirect_text x y) = show_nat x \<and> drop 4 (dropWhile is_digit (redirect_text x y)) = show_nat y" for x y
    using show_nat_digits by (auto simp: redirect_text_def takeWhile_append2 dropWhile_append2 is_digit_def)
  from eq sp have "show_nat a = show_nat c" "show_nat b = show_nat d" by metis+
  then show ?thesis by (metis read_show_nat)
qed

lemma in_map_filter: "y \<in> set (List.map_filter f xs) \<longleftrightarrow> (\<exists>x \<in> set xs. f x = Some y)"
  by (force simp: List.map_filter_def)

lemma risky_iff:
  "risky_mapping p = Some w \<longleftrightarrow> (\<exists>from to. parseStatusCodeKey (fst p) = Some from
     \<and> parseStatusCodeMappingTarget (snd p) = Some to \<and> from \<in> {504, 524} \<and> from \<noteq> to \<and> w = redirect_text from to)"
  by (auto simp: risky_mapping_def NON_REDIRECTABLE_STATUS_CODES_def split: option.splits)

lemma disallowed_set:
  "set (collectDisallowedStatusCodeRedirects s) = {redirect_text from to | from to k v. (k, v) \<in> set (mapping_entries s)
     \<and> parseStatusCodeKey k = Some from \<and> parseStatusCodeMappingTarget v = Some to \<and> from \<in> {504, 524} \<and> from \<noteq> to}"
proof (rule set_eqI)
  fix w
  have "w \<in> set (collectDisallowedStatusCodeRedirects s) \<longleftrightarrow> (\<exists>p \<in> set (mapping_entries s). risky_mapping p = Some w)"
    by (simp add: collectDisallowedStatusCodeRedirects_def in_map_filter)
  then show "w \<in> set (collectDisallowedStatusCodeRedirects s) \<longleftrightarrow> w \<in> {redirect_text from to | from to k v. (k, v) \<in> set (mapping_entries s)
     \<and> parseStatusCodeKey k = Some from \<and> parseStatusCodeMappingTarget v = Some to \<and> from \<in> {504, 524} \<and> from \<noteq> to}"
    unfolding risky_iff mem_Collect_eq by (metis fst_conv snd_conv surj_pair)
qed

lemma new_filter:
  "collectNewDisallowedStatusCodeRedirects original current =
     filter (\<lambda>w. w \<notin> set (collectDisallowedStatusCodeRedirects original)) (collectDisallowedStatusCodeRedirects current)"
  by (simp add: collectNewDisallowedStatusCodeRedirects_def Let_def)

text \<open>
  The redirects reported are exactly those the mapping makes. A pair of codes is reported if and only if the first is 504 or 524,
  differs from the second, and some entry of the mapping has these codes as its key and value; the
  report is sorted and has no duplicates.
\<close>

theorem disallowed_redirects_exact:
  "(redirect_text from to \<in> set (collectDisallowedStatusCodeRedirects s) \<longleftrightarrow>
      from \<in> {504, 524} \<and> from \<noteq> to
      \<and> (\<exists>k v. (k, v) \<in> set (mapping_entries s) \<and> parseStatusCodeKey k = Some from \<and> parseStatusCodeMappingTarget v = Some to))
   \<and> sorted (collectDisallowedStatusCodeRedirects s) \<and> distinct (collectDisallowedStatusCodeRedirects s)"
proof -
  have "redirect_text from to \<in> set (collectDisallowedStatusCodeRedirects s) \<longleftrightarrow>
      from \<in> {504, 524} \<and> from \<noteq> to
      \<and> (\<exists>k v. (k, v) \<in> set (mapping_entries s) \<and> parseStatusCodeKey k = Some from \<and> parseStatusCodeMappingTarget v = Some to)"
    unfolding disallowed_set by (auto dest: redirect_text_inj)
  moreover have "sorted (collectDisallowedStatusCodeRedirects s)" "distinct (collectDisallowedStatusCodeRedirects s)"
    by (simp_all add: collectDisallowedStatusCodeRedirects_def)
  ultimately show ?thesis by blast
qed

text \<open>
  What an edit is warned about. The new disallowed redirects are those of the edited mapping that the
  original did not have, in sorted order; an unchanged mapping never warns, and neither does one whose
  redirects were all there before.
\<close>

theorem new_redirects_are_the_difference:
  "set (collectNewDisallowedStatusCodeRedirects original current)
     = set (collectDisallowedStatusCodeRedirects current) - set (collectDisallowedStatusCodeRedirects original)
   \<and> sorted (collectNewDisallowedStatusCodeRedirects original current)
   \<and> collectNewDisallowedStatusCodeRedirects original original = []"
proof -
  have "sorted (collectDisallowedStatusCodeRedirects current)"
    by (simp add: collectDisallowedStatusCodeRedirects_def)
  then have "sorted (collectNewDisallowedStatusCodeRedirects original current)"
    unfolding new_filter by (rule sorted_wrt_filter)
  then show ?thesis by (auto simp: new_filter filter_empty_conv)
qed

end
