(* ===== verification/ChannelModels.thy ===== *)
theory ChannelModels
  imports JsJsonFacts
begin

text \<open>
  The models of a channel: the comma-separated model list and its model mapping
  (\<^verbatim>\<open>features/channels/lib/model-mapping-validation.ts\<close>), the model changes detected upstream
  (\<^verbatim>\<open>lib/upstream-update-utils.ts\<close>) and the hook that applies them (\<^verbatim>\<open>hooks/use-channel-upstream-updates.ts\<close>),
  with the small tables of \<^verbatim>\<open>lib/multi-key-utils.ts\<close>. A JavaScript \<open>Set\<close> is the list of its
  elements in insertion order.
\<close>

subsection \<open>Model lists\<close>

definition parseModelsString :: "string \<Rightarrow> string list" where
  "parseModelsString modelsStr = (if modelsStr \<noteq> [] then split_trim_filter CHR '','' modelsStr else [])"

definition formatModelsArray :: "string list \<Rightarrow> string" where
  "formatModelsArray models = join '','' (uniq models)"

definition normalizeModelName :: "string \<Rightarrow> string" where
  "normalizeModelName model = trim model"

text \<open>
  \<open>JSON.parse\<close> in a try block with the test for an object: the properties in the order of \<open>Object.keys\<close>, \<open>None\<close> when the
  text is no JSON or not an object.
\<close>

definition parse_mapping :: "string \<Rightarrow> json obj option" where
  "parse_mapping s = (case json_parse s of Some (JObj ob) \<Rightarrow> Some (own_entries ob) | _ \<Rightarrow> None)"

definition extractMappingSourceModels :: "string \<Rightarrow> string list" where
  "extractMappingSourceModels modelMapping =
     (let trimmed = trim modelMapping in
      if trimmed = [] then []
      else (case parse_mapping trimmed of
              None \<Rightarrow> []
            | Some es \<Rightarrow> uniq (filter (\<lambda>k. k \<noteq> []) (map (\<lambda>p. trim (fst p)) es))))"

fun string_value :: "json \<Rightarrow> string option" where
  "string_value (JStr t) = (if trim t = [] then None else Some (trim t))"
| "string_value _ = None"

definition extractRedirectModels :: "string \<Rightarrow> string list" where
  "extractRedirectModels modelMapping =
     (let trimmed = trim modelMapping in
      if trimmed = [] then []
      else (case parse_mapping trimmed of
              None \<Rightarrow> []
            | Some es \<Rightarrow> uniq (List.map_filter (\<lambda>p. string_value (snd p)) es)))"

definition hasModelConfigChanged :: "string list \<Rightarrow> string \<Rightarrow> string list \<Rightarrow> string \<Rightarrow> bool" where
  "hasModelConfigChanged currentModels currentModelMapping initialModels initialModelMapping =
     (if initialModels = [] \<and> initialModelMapping = [] then True
      else if length currentModels \<noteq> length initialModels then True
      else if list_ex (\<lambda>p. fst p \<noteq> snd p) (zip currentModels initialModels) then True
      else trim currentModelMapping \<noteq> trim initialModelMapping)"

definition findMissingModelsInMapping :: "string \<Rightarrow> string list \<Rightarrow> string list" where
  "findMissingModelsInMapping modelMapping currentModels =
     (if trim modelMapping = [] then []
      else (case parse_mapping modelMapping of
              None \<Rightarrow> []
            | Some es \<Rightarrow>
                (let modelSet = uniq (map normalizeModelName currentModels);
                     missingModels = filter (\<lambda>k. k \<noteq> [] \<and> k \<notin> set modelSet) (map (\<lambda>p. normalizeModelName (fst p)) es)
                 in uniq missingModels)))"

datatype Validity = Valid | Invalid string

definition validateModelMappingJson :: "string \<Rightarrow> Validity" where
  "validateModelMappingJson modelMapping =
     (if trim modelMapping = [] then Valid
      else (case json_parse modelMapping of
              None \<Rightarrow> Invalid ''Model mapping must be valid JSON format''
            | Some v \<Rightarrow> if \<not> is_plain_object v then Invalid ''Model mapping must be a valid JSON object'' else Valid))"

definition findExposedTargetModels :: "string \<Rightarrow> string list \<Rightarrow> string list" where
  "findExposedTargetModels modelMapping currentModels =
     (let redirectModels = extractRedirectModels modelMapping in
      if redirectModels = [] then []
      else (let modelSet = uniq (map normalizeModelName currentModels)
            in filter (\<lambda>m. normalizeModelName m \<in> set modelSet) redirectModels))"

record Categories =
  normalizedCurrentModels :: "string list"
  normalizedRedirectModels :: "string list"
  classificationSet :: "string list"
  redirectOnlySet :: "string list"

definition categorizeModelsWithRedirect :: "string list \<Rightarrow> string list \<Rightarrow> Categories" where
  "categorizeModelsWithRedirect currentModels redirectModels =
     (let cur = uniq (filter (\<lambda>m. m \<noteq> []) (map normalizeModelName currentModels));
          red = uniq (filter (\<lambda>m. m \<noteq> []) (map normalizeModelName redirectModels))
      in \<lparr>normalizedCurrentModels = cur, normalizedRedirectModels = red,
          classificationSet = uniq (cur @ red),
          redirectOnlySet = uniq (filter (\<lambda>m. m \<notin> set cur) red)\<rparr>)"

subsection \<open>Multi-key tables\<close>

datatype MultiKeyActionType = MkEnable | MkDisable | MkDelete | MkEnableAll | MkDisableAll | MkDeleteDisabled

definition getMultiKeyStatusConfig :: "int \<Rightarrow> string \<times> string" where
  "getMultiKeyStatusConfig status =
     (if status = 1 then (''success'', ''Enabled'')
      else if status = 2 then (''neutral'', ''Manual Disabled'')
      else if status = 3 then (''danger'', ''Auto Disabled'')
      else (''neutral'', ''Unknown''))"

definition getMultiKeyConfirmMessage :: "MultiKeyActionType option \<Rightarrow> string" where
  "getMultiKeyConfirmMessage action =
     (case action of
        None \<Rightarrow> ''''
      | Some MkDelete \<Rightarrow> ''Are you sure you want to delete this key? This action cannot be undone.''
      | Some MkEnable \<Rightarrow> ''Enable this key?''
      | Some MkDisable \<Rightarrow> ''Disable this key?''
      | Some MkEnableAll \<Rightarrow> ''Are you sure you want to enable all keys?''
      | Some MkDisableAll \<Rightarrow> ''Are you sure you want to disable all enabled keys?''
      | Some MkDeleteDisabled \<Rightarrow>
          ''Are you sure you want to delete all auto-disabled keys? This action cannot be undone.'')"

definition isDestructiveAction :: "MultiKeyActionType option \<Rightarrow> bool" where
  "isDestructiveAction action \<longleftrightarrow> action \<in> {Some MkDelete, Some MkDeleteDisabled, Some MkDisableAll}"

subsection \<open>Detected upstream changes\<close>

text \<open>
  The outer \<open>None\<close> is the TypeError of calling \<open>map\<close> on a truthy value that is no array.
\<close>

fun normalizeModelList :: "json \<Rightarrow> string list option" where
  "normalizeModelList (JArr models) =
     Some (uniq (filter (\<lambda>m. m \<noteq> []) (map (\<lambda>m. trim (if jtruthy m then js_String m else '''')) models)))"
| "normalizeModelList v = (if jtruthy v then None else Some [])"

text \<open>\<open>(x || [])\<close> for a property that may be absent.\<close>

definition or_empty :: "json option \<Rightarrow> json" where
  "or_empty v = (case v of None \<Rightarrow> JArr [] | Some j \<Rightarrow> if jtruthy j then j else JArr [])"

record UpstreamMeta =
  enabled :: bool
  pendingAddModels :: "string list"
  pendingRemoveModels :: "string list"

definition settings_object :: "json \<Rightarrow> json option" where
  "settings_object settings =
     (case settings of
        JObj _ \<Rightarrow> Some settings
      | JStr t \<Rightarrow> json_parse t
      | _ \<Rightarrow> None)"

definition parseUpstreamUpdateMeta :: "json \<Rightarrow> UpstreamMeta option" where
  "parseUpstreamUpdateMeta settings =
     (case settings_object settings of
        Some parsed \<Rightarrow>
          (if jtruthy parsed \<and> (case parsed of JObj _ \<Rightarrow> True | JArr _ \<Rightarrow> True | _ \<Rightarrow> False)
           then Option.bind (normalizeModelList (or_empty (jfield ''upstream_model_update_last_detected_models'' parsed))) (\<lambda>adds.
                Option.bind (normalizeModelList (or_empty (jfield ''upstream_model_update_last_removed_models'' parsed))) (\<lambda>rems.
                Some \<lparr>enabled = jfield ''upstream_model_update_check_enabled'' parsed = Some (JBool True),
                      pendingAddModels = adds, pendingRemoveModels = rems\<rparr>))
           else Some \<lparr>enabled = False, pendingAddModels = [], pendingRemoveModels = []\<rparr>)
      | None \<Rightarrow> Some \<lparr>enabled = False, pendingAddModels = [], pendingRemoveModels = []\<rparr>)"

subsection \<open>Applying upstream changes\<close>

definition getManualIgnoredModelCount :: "json option \<Rightarrow> nat option" where
  "getManualIgnoredModelCount settings =
     (let parsed = (case settings of
          Some (JStr t) \<Rightarrow> json_parse t
        | Some (JObj ob) \<Rightarrow> Some (JObj ob)
        | Some (JArr xs) \<Rightarrow> Some (JArr xs)
        | _ \<Rightarrow> None)
      in case parsed of
           None \<Rightarrow> Some 0
         | Some v \<Rightarrow>
             (if \<not> jtruthy v then Some 0
              else map_option length (normalizeModelList (or_empty (jfield ''upstream_model_update_ignored_models'' v)))))"

datatype Tab = AddTab | RemoveTab

text \<open>The operations that talk to the server, and how far each has got.\<close>

datatype Operation = Apply | ApplyAll | Detect | DetectAll

datatype Phase = Idle | Posting | Refreshing

datatype UpstreamRequest =
    PostApply (reqId: int) (add_models: "string list") (ignore_models: "string list") (remove_models: "string list")
  | PostApplyAll
  | PostDetect int
  | PostDetectAll

datatype Toast = InfoToast string | ErrorToast string | TypeErrorToast | SuccessToast Operation "json list"

text \<open>
  The state of the hook. \<open>busy\<close> is the guard reference of each operation, \<open>loading\<close> its loading flag (\<open>Detect\<close> has
  none), \<open>phase\<close> where its asynchronous body waits. \<open>ignored\<close> holds the models the apply call under way leaves out.
\<close>

record UpstreamState =
  showModal :: bool
  channel :: "int option"
  addModels :: "string list"
  removeModels :: "string list"
  preferredTab :: Tab
  busy :: "Operation \<Rightarrow> bool"
  loading :: "Operation \<Rightarrow> bool"
  phase :: "Operation \<Rightarrow> Phase"
  ignored :: "string list"
  posted :: "UpstreamRequest list"
  utoasts :: "Toast list"
  refreshes :: nat

definition initUpstream :: UpstreamState where
  "initUpstream = \<lparr>showModal = False, channel = None, addModels = [], removeModels = [], preferredTab = AddTab,
     busy = (\<lambda>_. False), loading = (\<lambda>_. False), phase = (\<lambda>_. Idle), ignored = [], posted = [], utoasts = [], refreshes = 0\<rparr>"

definition norm_strings :: "string list \<Rightarrow> string list" where
  "norm_strings ms = the (normalizeModelList (JArr (map JStr ms)))"

text \<open>\<open>record?.id\<close> is falsy for a missing record and for 0.\<close>

definition truthy_id :: "int option \<Rightarrow> bool" where
  "truthy_id i \<longleftrightarrow> (case i of None \<Rightarrow> False | Some n \<Rightarrow> n \<noteq> 0)"

definition openModal :: "int option \<Rightarrow> string list \<Rightarrow> string list \<Rightarrow> Tab \<Rightarrow> UpstreamState \<Rightarrow> UpstreamState" where
  "openModal record_id pendingAdd pendingRemove tab s =
     (let normAdd = norm_strings pendingAdd; normRemove = norm_strings pendingRemove in
      if \<not> truthy_id record_id \<or> (normAdd = [] \<and> normRemove = [])
      then s\<lparr>utoasts := utoasts s @ [InfoToast ''No processable upstream model updates for this channel'']\<rparr>
      else s\<lparr>channel := record_id, addModels := normAdd, removeModels := normRemove, preferredTab := tab, showModal := True\<rparr>)"

definition closeModal :: "UpstreamState \<Rightarrow> UpstreamState" where
  "closeModal s = s\<lparr>showModal := False, channel := None, addModels := [], removeModels := [], preferredTab := AddTab\<rparr>"

text \<open>Entering an operation: the guard, the loading flag, and the request that is posted.\<close>

definition has_loading :: "Operation \<Rightarrow> bool" where
  "has_loading p \<longleftrightarrow> p \<noteq> Detect"

definition begin_post :: "Operation \<Rightarrow> UpstreamRequest \<Rightarrow> UpstreamState \<Rightarrow> UpstreamState" where
  "begin_post p req s =
     s\<lparr>busy := (busy s)(p := True), loading := (if has_loading p then (loading s)(p := True) else loading s),
       phase := (phase s)(p := Posting), posted := posted s @ [req]\<rparr>"

definition applyUpdates :: "string list \<Rightarrow> string list \<Rightarrow> UpstreamState \<Rightarrow> UpstreamState" where
  "applyUpdates selectedAdd selectedRemove s =
     (if busy s Apply then s
      else if \<not> truthy_id (channel s) then closeModal s
      else (let normSelectedAdd = norm_strings selectedAdd;
                ignoreModels = filter (\<lambda>m. m \<notin> set normSelectedAdd) (addModels s)
            in (begin_post Apply
                 (PostApply (the (channel s)) normSelectedAdd ignoreModels (norm_strings selectedRemove)) s)
                 \<lparr>ignored := ignoreModels\<rparr>))"

definition applyAllUpdates :: "UpstreamState \<Rightarrow> UpstreamState" where
  "applyAllUpdates s = (if busy s ApplyAll then s else begin_post ApplyAll PostApplyAll s)"

definition detectChannelUpdates :: "int option \<Rightarrow> UpstreamState \<Rightarrow> UpstreamState" where
  "detectChannelUpdates ch s =
     (if busy s Detect \<or> \<not> truthy_id ch then s else begin_post Detect (PostDetect (the ch)) s)"

definition detectAllUpdates :: "UpstreamState \<Rightarrow> UpstreamState" where
  "detectAllUpdates s = (if busy s DetectAll then s else begin_post DetectAll PostDetectAll s)"

text \<open>The finally block.\<close>

definition finally_done :: "Operation \<Rightarrow> UpstreamState \<Rightarrow> UpstreamState" where
  "finally_done p s =
     s\<lparr>busy := (busy s)(p := False), loading := (if has_loading p then (loading s)(p := False) else loading s),
       phase := (phase s)(p := Idle)\<rparr>"

fun failure_text :: "Operation \<Rightarrow> string" where
  "failure_text Apply = ''Operation failed''"
| "failure_text ApplyAll = ''Batch processing failed''"
| "failure_text Detect = ''Detection failed''"
| "failure_text DetectAll = ''Batch detection failed''"

text \<open>What the awaited post gives: the body of the response, or an exception with the messages it may carry.\<close>

datatype Reply = Replied json | Threw "string option" "string option"

definition text_or :: "string option \<Rightarrow> string \<Rightarrow> string" where
  "text_or x d = (case x of None \<Rightarrow> d | Some t \<Rightarrow> if t = [] then d else t)"

definition fail_toast :: "Operation \<Rightarrow> Reply \<Rightarrow> Toast" where
  "fail_toast p r =
     (case r of
        Replied body \<Rightarrow> ErrorToast (text_or (case jfield ''message'' body of Some (JStr t) \<Rightarrow> Some t | _ \<Rightarrow> None) (failure_text p))
      | Threw srv own \<Rightarrow> ErrorToast (text_or srv (text_or own (failure_text p))))"

fun jlength :: "json option \<Rightarrow> json" where
  "jlength (Some (JArr xs)) = JNum (num_of_int (int (length xs)))"
| "jlength (Some (JStr t)) = JNum (num_of_int (int (length t)))"
| "jlength _ = JNum (Dec 0 0)"

definition or_zero :: "json option \<Rightarrow> json" where
  "or_zero v = (case v of None \<Rightarrow> JNum (Dec 0 0) | Some j \<Rightarrow> if jtruthy j then j else JNum (Dec 0 0))"

text \<open>The numbers of the success toast; \<open>None\<close> when counting throws a TypeError.\<close>

definition success_numbers :: "Operation \<Rightarrow> UpstreamState \<Rightarrow> json \<Rightarrow> json list option" where
  "success_numbers p s body =
     (let data = (case jfield ''data'' body of None \<Rightarrow> JNull | Some d \<Rightarrow> d);
          count = (\<lambda>k. jlength (jfield k data)); num = (\<lambda>k. or_zero (jfield k data));
          ofn = (\<lambda>n. JNum (num_of_int (int n)))
      in case p of
           Apply \<Rightarrow> map_option (\<lambda>ig. [count ''added_models'', count ''removed_models'', ofn (length (norm_strings (ignored s))), ofn ig])
                      (getManualIgnoredModelCount (jfield ''settings'' data))
         | ApplyAll \<Rightarrow> Some [num ''processed_channels'', num ''added_models'', num ''removed_models'', count ''failed_channel_ids'']
         | Detect \<Rightarrow> Some [count ''add_models'', count ''remove_models'']
         | DetectAll \<Rightarrow> Some [num ''processed_channels'', num ''detected_add_models'', num ''detected_remove_models'', count ''failed_channel_ids''])"

definition reply_success :: "Reply \<Rightarrow> bool" where
  "reply_success r \<longleftrightarrow>
     (case r of Replied body \<Rightarrow> (case jfield ''success'' body of Some v \<Rightarrow> jtruthy v | None \<Rightarrow> False) | Threw _ _ \<Rightarrow> False)"

text \<open>The rest of an operation when its post is back: on success the toast, the closing of the modal (\<open>Apply\<close> only) and the refresh.\<close>

definition onReply :: "Operation \<Rightarrow> Reply \<Rightarrow> UpstreamState \<Rightarrow> UpstreamState" where
  "onReply p r s =
     (if \<not> reply_success r then finally_done p (s\<lparr>utoasts := utoasts s @ [fail_toast p r]\<rparr>)
      else (case r of
              Replied body \<Rightarrow>
                (case success_numbers p s body of
                   None \<Rightarrow> finally_done p (s\<lparr>utoasts := utoasts s @ [TypeErrorToast]\<rparr>)
                 | Some ns \<Rightarrow>
                     (let s1 = s\<lparr>utoasts := utoasts s @ [SuccessToast p ns]\<rparr>;
                          s2 = (if p = Apply then closeModal s1 else s1)
                      in s2\<lparr>phase := (phase s2)(p := Refreshing), refreshes := Suc (refreshes s2)\<rparr>))
            | Threw _ _ \<Rightarrow> s))"

text \<open>The refresh settles: well, or with an exception that the catch block reports.\<close>

definition onRefreshed :: "Operation \<Rightarrow> (string option \<times> string option) option \<Rightarrow> UpstreamState \<Rightarrow> UpstreamState" where
  "onRefreshed p failure s =
     finally_done p (case failure of None \<Rightarrow> s | Some (srv, own) \<Rightarrow> s\<lparr>utoasts := utoasts s @ [fail_toast p (Threw srv own)]\<rparr>)"

text \<open>One thing that happens to the hook; a reply or refresh only where one is awaited.\<close>

inductive upstream_step :: "UpstreamState \<Rightarrow> UpstreamState \<Rightarrow> bool" where
  open_it: "upstream_step s (openModal i a r t s)"
| close_it: "upstream_step s (closeModal s)"
| apply_it: "upstream_step s (applyUpdates a r s)"
| apply_all: "upstream_step s (applyAllUpdates s)"
| detect_it: "upstream_step s (detectChannelUpdates c s)"
| detect_all: "upstream_step s (detectAllUpdates s)"
| reply: "phase s p = Posting \<Longrightarrow> upstream_step s (onReply p r s)"
| refreshed: "phase s p = Refreshing \<Longrightarrow> upstream_step s (onRefreshed p f s)"

inductive upstream_reach :: "UpstreamState \<Rightarrow> bool" where
  init: "upstream_reach initUpstream"
| step: "upstream_reach s \<Longrightarrow> upstream_step s s' \<Longrightarrow> upstream_reach s'"

inductive_cases upstream_stepE: "upstream_step s s'"

subsection \<open>Facts\<close>

lemma parseModelsString_eq: "parseModelsString s = split_trim_filter CHR '','' s"
  by (simp add: parseModelsString_def split_trim_filter_def)

lemma format_parse_models:
  "\<forall>m \<in> set ms. m \<noteq> [] \<and> trimmed m \<and> CHR '','' \<notin> set m \<Longrightarrow> parseModelsString (formatModelsArray ms) = uniq ms"
  by (simp add: parseModelsString_eq formatModelsArray_def split_trim_filter_join)

lemma parse_models_sound: "m \<in> set (parseModelsString s) \<Longrightarrow> m \<noteq> [] \<and> trimmed m \<and> CHR '','' \<notin> set m"
  unfolding parseModelsString_eq by (rule split_trim_filter_sound)

text \<open>Rewriting the list through its array is a normal form; the meaning of a text is its list of distinct models.\<close>

definition models_of :: "string \<Rightarrow> string list" where
  "models_of s = uniq (parseModelsString s)"

definition rewrite_models :: "string \<Rightarrow> string" where
  "rewrite_models s = formatModelsArray (parseModelsString s)"

lemma rewrite_models_eq: "rewrite_models s = list_text CHR '','' s"
  by (simp add: rewrite_models_def formatModelsArray_def list_text_def parseModelsString_eq)

lemma models_of_eq: "models_of s = uniq (split_trim_filter CHR '','' s)"
  by (simp add: models_of_def parseModelsString_eq)

lemma norm_strings_eq: "norm_strings ms = uniq (filter (\<lambda>m. m \<noteq> []) (map trim ms))"
proof -
  have "trim (if jtruthy (JStr m) then js_String (JStr m) else '''') = trim m" for m by simp
  then show ?thesis by (simp add: norm_strings_def comp_def del: jtruthy.simps js_String.simps)
qed

lemma norm_strings_props: "m \<in> set (norm_strings ms) \<Longrightarrow> m \<noteq> [] \<and> trimmed m" "distinct (norm_strings ms)"
  by (auto simp: norm_strings_eq trimmed_trim)

text \<open>
  The model list text. Parsing gives non-blank trimmed names without commas; formatting drops repetitions
  and is undone by parsing; and formatting what was parsed gives the same text for two lists
  exactly when they name the same models in the same order of first appearance.
\<close>

theorem models_text_normal_form:
  "(rewrite_models s = rewrite_models t \<longleftrightarrow> models_of s = models_of t)
   \<and> rewrite_models (rewrite_models s) = rewrite_models s
   \<and> parseModelsString (rewrite_models s) = models_of s"
  using list_text.norm_eq_iff [where c = "CHR '',''" and x = s and y = t] list_text.norm_idem [where c = "CHR '',''" and x = s]
  by (simp add: rewrite_models_eq models_of_eq list_text_meaning parseModelsString_eq)

subsection \<open>The mapping and the list\<close>

definition source_keys :: "string \<Rightarrow> string list" where
  "source_keys m = (if trim m = [] then [] else (case parse_mapping m of None \<Rightarrow> [] | Some es \<Rightarrow> map (\<lambda>p. trim (fst p)) es))"

lemma missing_eq:
  "findMissingModelsInMapping m ms = uniq (filter (\<lambda>k. k \<noteq> [] \<and> k \<notin> trim ` set ms) (source_keys m))"
  by (auto simp: findMissingModelsInMapping_def source_keys_def normalizeModelName_def [abs_def] Let_def split: option.splits)

lemma sources_eq: "extractMappingSourceModels m = uniq (filter (\<lambda>k. k \<noteq> []) (source_keys (trim m)))"
  by (auto simp: extractMappingSourceModels_def source_keys_def Let_def split: option.splits)

lemma source_keys_trimmed: "k \<in> set (source_keys m) \<Longrightarrow> trim k = k"
  by (auto simp: source_keys_def split: if_splits option.splits)

lemma redirect_trimmed: "k \<in> set (extractRedirectModels m) \<Longrightarrow> k \<noteq> [] \<and> trim k = k"
proof -
  have v: "string_value v = Some k \<Longrightarrow> k \<noteq> [] \<and> trim k = k" for v k
    by (cases v) (auto split: if_splits)
  assume "k \<in> set (extractRedirectModels m)"
  then show ?thesis
    by (auto simp: extractRedirectModels_def Let_def List.map_filter_def dest: v split: option.splits if_splits)
qed

lemma exposed_eq:
  "findExposedTargetModels m ms = filter (\<lambda>k. k \<in> trim ` set ms) (extractRedirectModels m)"
  using redirect_trimmed [of _ m]
  by (auto simp: findExposedTargetModels_def Let_def normalizeModelName_def intro: filter_cong)

text \<open>
  The two warnings about a mapping and the cures the form offers. For a mapping text without outer blanks the missing
  models are exactly the source models that the list lacks; adding them leaves none missing. The
  exposed targets are exactly the redirect targets in the list; taking them out leaves none exposed.
\<close>

theorem mapping_warnings_and_cures:
  assumes "trim m = m"
  shows "set (findMissingModelsInMapping m ms) = set (extractMappingSourceModels m) - trim ` set ms
    \<and> findMissingModelsInMapping m (ms @ findMissingModelsInMapping m ms) = []
    \<and> set (findExposedTargetModels m ms) = set (extractRedirectModels m) \<inter> trim ` set ms
    \<and> findExposedTargetModels m (filter (\<lambda>x. trim x \<notin> set (findExposedTargetModels m ms)) ms) = []"
proof -
  have "k \<in> trim ` set (ms @ findMissingModelsInMapping m ms)" if "k \<in> set (source_keys m)" "k \<noteq> []" for k
  proof (cases "k \<in> trim ` set ms")
    case False
    then have "k \<in> set (findMissingModelsInMapping m ms)" using that by (simp add: missing_eq)
    moreover have "trim k = k" using that(1) by (rule source_keys_trimmed)
    ultimately show ?thesis by (metis UnCI image_eqI set_append)
  qed auto
  then have "findMissingModelsInMapping m (ms @ findMissingModelsInMapping m ms) = []"
    unfolding missing_eq [of m "ms @ _"] by (subst filter_False) auto
  then show ?thesis
    using assms by (auto simp: missing_eq sources_eq exposed_eq filter_empty_conv)
qed

definition demoMapping :: string where
  "demoMapping = [CHR 0x7B, CHR 0x22, CHR ''a'', CHR 0x22, CHR '':'', CHR 0x22, CHR ''b'', CHR 0x22, CHR 0x7D]"

theorem mapping_warnings_and_cures_witness:
  "set (findMissingModelsInMapping demoMapping [''b'', ''c'']) = {''a''}
   \<and> findMissingModelsInMapping demoMapping ([''b'', ''c''] @ findMissingModelsInMapping demoMapping [''b'', ''c'']) = []
   \<and> set (findExposedTargetModels demoMapping [''b'', ''c'']) = {''b''}"
proof -
  have t: "trim demoMapping = demoMapping" by code_simp
  have "set (extractMappingSourceModels demoMapping) = {''a''}" "set (extractRedirectModels demoMapping) = {''b''}"
    "trim ` set [''b'', ''c''] = {''b'', ''c''}"
    by code_simp+
  then show ?thesis using mapping_warnings_and_cures [OF t, of "[''b'', ''c'']"] by auto
qed

text \<open>
  The classes the model picker shows. The redirect-only class holds exactly the redirect targets that are not in
  the list; current models and redirect-only models together are all that is classified, without overlap.
\<close>

theorem categories_partition:
  "let c = categorizeModelsWithRedirect ms rs in
     set (classificationSet c) = set (normalizedCurrentModels c) \<union> set (redirectOnlySet c)
     \<and> set (normalizedCurrentModels c) \<inter> set (redirectOnlySet c) = {}
     \<and> set (redirectOnlySet c) = set (normalizedRedirectModels c) - set (normalizedCurrentModels c)
     \<and> set (normalizedCurrentModels c) = trim ` set ms - {''''}
     \<and> distinct (classificationSet c)"
  by (auto simp: categorizeModelsWithRedirect_def Let_def normalizeModelName_def)

subsection \<open>The hook\<close>

lemma has_loading_simps [simp]:
  "has_loading Apply" "has_loading ApplyAll" "has_loading DetectAll" "\<not> has_loading Detect"
  by (simp_all add: has_loading_def)

text \<open>
  The guards mirror the asynchronous bodies, the loading flags mirror the guards, and an open modal shows a channel
  with at least one model to process.
\<close>

definition upstream_inv :: "UpstreamState \<Rightarrow> bool" where
  "upstream_inv s \<longleftrightarrow>
     (\<forall>p. busy s p = (phase s p \<noteq> Idle)) \<and> (\<forall>p. loading s p = (busy s p \<and> has_loading p))
     \<and> (if showModal s then truthy_id (channel s) \<and> (addModels s \<noteq> [] \<or> removeModels s \<noteq> [])
        else channel s = None \<and> addModels s = [] \<and> removeModels s = [])
     \<and> distinct (addModels s) \<and> distinct (removeModels s)"

lemma inv_close: "upstream_inv s \<Longrightarrow> upstream_inv (closeModal s)"
  by (simp add: upstream_inv_def closeModal_def)

lemma inv_toast: "upstream_inv s \<Longrightarrow> upstream_inv (s\<lparr>utoasts := ts\<rparr>)"
  by (auto simp: upstream_inv_def split: if_splits)

lemma inv_finally: "upstream_inv s \<Longrightarrow> upstream_inv (finally_done p s)"
  by (cases p) (auto simp: upstream_inv_def finally_done_def split: if_splits)

lemma inv_begin: "upstream_inv s \<Longrightarrow> upstream_inv (begin_post p req s)"
  by (cases p) (auto simp: upstream_inv_def begin_post_def split: if_splits)

lemma inv_reply:
  assumes "upstream_inv s" "phase s p = Posting"
  shows "upstream_inv (onReply p r s)"
proof -
  have ref: "upstream_inv (t\<lparr>phase := (phase t)(p := Refreshing), refreshes := n\<rparr>)"
    if "upstream_inv t" "phase t p = Posting" for t n
    using that by (auto simp: upstream_inv_def split: if_splits)
  have t: "upstream_inv (s\<lparr>utoasts := ts\<rparr>)" for ts using assms(1) by (rule inv_toast)
  show ?thesis
  proof (cases r)
    case (Threw srv own)
    then show ?thesis by (auto simp: onReply_def reply_success_def intro: inv_finally t)
  next
    case (Replied body)
    have "upstream_inv ((if p = Apply then closeModal (s\<lparr>utoasts := ts\<rparr>) else s\<lparr>utoasts := ts\<rparr>)
        \<lparr>phase := (phase s)(p := Refreshing), refreshes := n\<rparr>)" for ts n
      using ref [of "closeModal (s\<lparr>utoasts := ts\<rparr>)" n] ref [of "s\<lparr>utoasts := ts\<rparr>" n] assms(2) t inv_close [OF t]
      by (auto simp: closeModal_def)
    moreover have "phase (if p = Apply then closeModal (s\<lparr>utoasts := ts\<rparr>) else s\<lparr>utoasts := ts\<rparr>) = phase s" for ts
      by (simp add: closeModal_def)
    ultimately show ?thesis
      using Replied by (auto simp: onReply_def Let_def intro: inv_finally t split: option.splits)
  qed
qed

lemma inv_step: "upstream_step s s' \<Longrightarrow> upstream_inv s \<Longrightarrow> upstream_inv s'"
proof (induction rule: upstream_step.induct)
  case (open_it s i a r t)
  then show ?case
    using norm_strings_props(2) [of a] norm_strings_props(2) [of r]
    by (auto simp: openModal_def Let_def inv_toast) (auto simp: upstream_inv_def)
next
  case (apply_it s a r)
  have "upstream_inv (t\<lparr>ignored := g\<rparr>)" if "upstream_inv t" for t g using that by (auto simp: upstream_inv_def split: if_splits)
  then show ?case using apply_it by (auto simp: applyUpdates_def Let_def intro: inv_close inv_begin)
next
  case (refreshed s p f)
  then show ?case by (auto simp: onRefreshed_def intro: inv_finally inv_toast split: option.splits)
qed (auto simp: applyAllUpdates_def detectChannelUpdates_def detectAllUpdates_def intro: inv_close inv_begin inv_reply)

text \<open>
  C9: the guards of the upstream operations. In every reachable state an operation is guarded exactly while its
  request or its refresh is under way, its loading flag tells the same, so that no operation is ever
  posted twice at once; and the modal is open exactly when it shows a channel with something to process.
\<close>

theorem upstream_guards:
  assumes "upstream_reach s"
  shows "upstream_inv s \<and> (busy s p \<longleftrightarrow> phase s p \<noteq> Idle) \<and> (loading s p \<longleftrightarrow> busy s p \<and> p \<noteq> Detect)
    \<and> (phase s Apply = Idle \<or> applyUpdates a r s = s)"
proof -
  have "upstream_inv s"
    using assms
  proof (induction rule: upstream_reach.induct)
    case init
    then show ?case by (simp add: upstream_inv_def initUpstream_def)
  qed (rule inv_step)
  then show ?thesis by (auto simp: upstream_inv_def has_loading_def applyUpdates_def)
qed

lemma demo_reach: "upstream_reach (applyUpdates [''m''] [] (openModal (Some 7) [''m'', ''n''] [] AddTab initUpstream))"
  by (rule upstream_reach.step [OF upstream_reach.step [OF upstream_reach.init]])
    (rule upstream_step.open_it, rule upstream_step.apply_it)

theorem upstream_guards_witness:
  "\<not> loading (applyUpdates [''m''] [] (openModal (Some 7) [''m'', ''n''] [] AddTab initUpstream)) Detect
   \<and> upstream_inv (applyUpdates [''m''] [] (openModal (Some 7) [''m'', ''n''] [] AddTab initUpstream))"
  using upstream_guards [OF demo_reach, of Detect] by blast

text \<open>
  What applying a selection sends. Unless one is under way, applying posts one request for the channel of the
  modal that splits the pending models: every pending addition is either added or ignored, none is both,
  only pending models are ignored, and the selected names are sent trimmed and without repetitions.
\<close>

theorem apply_splits_pending:
  assumes "\<not> busy s Apply" "channel s = Some i" "i \<noteq> 0"
  shows "\<exists>add ig rm. posted (applyUpdates a r s) = posted s @ [PostApply i add ig rm]
    \<and> set (addModels s) \<subseteq> set add \<union> set ig \<and> set add \<inter> set ig = {} \<and> set ig \<subseteq> set (addModels s)
    \<and> set add = trim ` set a - {''''} \<and> set rm = trim ` set r - {''''} \<and> distinct add \<and> distinct rm"
  using assms by (auto simp: applyUpdates_def truthy_id_def Let_def begin_post_def norm_strings_eq)

theorem apply_splits_pending_witness:
  "\<exists>add ig rm. posted (applyUpdates [''m''] [] (openModal (Some 7) [''m'', ''n''] [] AddTab initUpstream)) = [PostApply 7 add ig rm]
     \<and> set add = {''m''} \<and> set add \<inter> set ig = {}"
proof -
  let ?s = "openModal (Some 7) [''m'', ''n''] [] AddTab initUpstream"
  have h: "\<not> busy ?s Apply" "channel ?s = Some 7" "posted ?s = []"
    by (simp_all add: openModal_def Let_def truthy_id_def initUpstream_def norm_strings_eq trim_def trim_by_def is_ws_def)
  have "trim ''m'' = ''m''" by code_simp
  then have t: "trim ` set [''m''] - {''''} = {''m''}" by simp
  have z: "(7 :: int) \<noteq> 0" by simp
  obtain add ig rm where o: "posted (applyUpdates [''m''] [] ?s) = posted ?s @ [PostApply 7 add ig rm]"
      "set add \<inter> set ig = {}" "set add = trim ` set [''m''] - {''''}"
    using apply_splits_pending [OF h(1,2) z, of "[''m'']" "[]"] by (elim exE conjE)
  show ?thesis by (rule exI [of _ add], rule exI [of _ ig], rule exI [of _ rm]) (use o in \<open>simp only: h(3) t append_Nil\<close>)
qed

text \<open>
  An answer closes whatever modal is open. When the modal was closed and opened for another channel while a request was
  under way, the success of that request closes the other channel's modal and discards its pending models.
\<close>

theorem late_answer_closes_other_modal:
  assumes "phase s Apply = Posting" "i \<noteq> 0" "norm_strings a \<noteq> []"
    and "reply_success (Replied body)" "success_numbers Apply s body \<noteq> None"
  shows "channel (openModal (Some i) a r t (closeModal s)) = Some i
    \<and> channel (onReply Apply (Replied body) (openModal (Some i) a r t (closeModal s))) = None
    \<and> \<not> showModal (onReply Apply (Replied body) (openModal (Some i) a r t (closeModal s)))"
proof -
  have "success_numbers Apply (openModal (Some i) a r t (closeModal s)) body = success_numbers Apply s body"
    by (simp add: success_numbers_def openModal_def closeModal_def Let_def)
  then show ?thesis
    using assms by (auto simp: onReply_def Let_def closeModal_def openModal_def truthy_id_def)
qed

theorem late_answer_closes_other_modal_witness:
  "channel (onReply Apply (Replied (JObj [(''success'', JBool True)])) (openModal (Some 8) [''x''] [] AddTab
     (closeModal (applyUpdates [''m''] [] (openModal (Some 7) [''m'', ''n''] [] AddTab initUpstream))))) = None"
proof -
  let ?s = "applyUpdates [''m''] [] (openModal (Some 7) [''m'', ''n''] [] AddTab initUpstream)"
  have p: "phase ?s Apply = Posting"
    by (simp add: applyUpdates_def openModal_def Let_def truthy_id_def initUpstream_def norm_strings_eq trim_def
        trim_by_def is_ws_def begin_post_def)
  have n: "norm_strings [''x''] \<noteq> []" by code_simp
  have r: "reply_success (Replied (JObj [(''success'', JBool True)]))" by code_simp
  have c: "success_numbers Apply ?s (JObj [(''success'', JBool True)]) \<noteq> None"
    by (simp add: success_numbers_def getManualIgnoredModelCount_def)
  show ?thesis using late_answer_closes_other_modal [OF p _ n r c, of 8] by simp
qed

end
