(* ===== verification/ChannelUtils.thy ===== *)
theory ChannelUtils
  imports JsJsonFacts Complex_Main
begin

text \<open>
  Channel helpers (\<^verbatim>\<open>features/channels/lib/channel-utils.ts\<close>): type tables, badges, key masking and
  de-duplication, list fields, settings parsing, attention checks, and the aggregation of channels by tag.
  Amounts and times that the code averages are rational numbers: the rounding of doubles is not
  modelled. \<open>localeCompare\<close> is a parameter.
\<close>

subsection \<open>Tables\<close>

definition CHANNEL_TYPES :: "(int \<times> string) list" where
  "CHANNEL_TYPES =
     [(0, ''Unknown''), (1, ''OpenAI''), (2, ''Midjourney''),
      (3, ''Azure''), (4, ''Ollama''), (5, ''MidjourneyPlus''),
      (6, ''OpenAIMax''), (7, ''OhMyGPT''), (8, ''Custom''),
      (9, ''AILS''), (10, ''AI Proxy''), (11, ''PaLM''),
      (12, ''API2GPT''), (13, ''AIGC2D''), (14, ''Anthropic''),
      (15, ''Baidu''), (16, ''Zhipu''), (17, ''Ali''),
      (18, ''Xunfei''), (19, ''360''), (20, ''OpenRouter''),
      (21, ''AI Proxy Library''), (22, ''FastGPT''), (23, ''Tencent''),
      (24, ''Gemini''), (25, ''Moonshot''), (26, ''Zhipu V4''),
      (27, ''Perplexity''), (31, ''LingYiWanWu''), (33, ''AWS''),
      (34, ''Cohere''), (35, ''MiniMax''), (36, ''SunoAPI''),
      (37, ''Dify''), (38, ''Jina''), (39, ''Cloudflare''),
      (40, ''SiliconFlow''), (41, ''Vertex AI''), (42, ''Mistral''),
      (43, ''DeepSeek''), (44, ''MokaAI''), (45, ''VolcEngine''),
      (46, ''Baidu V2''), (47, ''Xinference''), (48, ''xAI''),
      (49, ''Coze''), (50, ''Kling''), (51, ''Jimeng''),
      (52, ''Vidu''), (53, ''Submodel''), (54, ''DoubaoVideo''),
      (55, ''Sora''), (56, ''Replicate''), (57, ''Codex'')]"

definition TYPE_TO_ICON :: "(int \<times> string) list" where
  "TYPE_TO_ICON =
     [(1, ''OpenAI''), (6, ''OpenAI''), (7, ''OpenAI''),
      (8, ''OpenAI''), (3, ''Azure''), (14, ''Claude''),
      (24, ''Gemini''), (11, ''Google''), (41, ''Gemini''),
      (33, ''Aws''), (39, ''Cloudflare''), (15, ''Baidu''),
      (46, ''Baidu''), (16, ''Zhipu''), (26, ''Zhipu''),
      (17, ''Qwen''), (18, ''Spark''), (23, ''Hunyuan''),
      (19, ''Ai360''), (25, ''Moonshot''), (31, ''Yi''),
      (35, ''Minimax''), (45, ''Volcengine''), (4, ''Ollama''),
      (27, ''Perplexity''), (34, ''Cohere''), (42, ''Mistral''),
      (43, ''DeepSeek''), (48, ''XAI''), (49, ''Coze''),
      (40, ''SiliconCloud''), (44, ''OpenAI''), (20, ''OpenRouter''),
      (2, ''Midjourney''), (5, ''Midjourney''), (50, ''Kling''),
      (51, ''Jimeng''), (52, ''Vidu''), (36, ''Suno''),
      (55, ''OpenAI''), (54, ''Doubao''), (56, ''Replicate''),
      (37, ''Dify''), (38, ''Jina''), (22, ''FastGPT''),
      (47, ''Xinference''), (53, ''OpenAI''), (10, ''OpenAI''),
      (21, ''OpenAI''), (12, ''OpenAI''), (13, ''OpenAI''),
      (9, ''OpenAI'')]"

definition TYPE_TO_KEY_PROMPT :: "(int \<times> string) list" where
  "TYPE_TO_KEY_PROMPT =
     [(15, ''Format: APIKey|SecretKey''), (18, ''Format: APPID|APISecret|APIKey''), (22, ''Format: APIKey-AppId, e.g., fastgpt-0sp2gtvfdgyi4k30jwlgwf1i-64f335d84283f05518e9e041''),
      (23, ''Format: AppId|SecretId|SecretKey''), (33, ''Format: Ak|Sk|Region''), (50, ''Format: AccessKey|SecretKey (or just ApiKey if upstream is heqiuyu)''),
      (51, ''Format: Access Key ID|Secret Access Key''), (57, ''Paste Codex OAuth JSON credential (access_token / refresh_token / account_id)'')]"

definition lookup_or :: "(int \<times> string) list \<Rightarrow> string \<Rightarrow> int \<Rightarrow> string" where
  "lookup_or table d k = (case map_of table k of Some v \<Rightarrow> v | None \<Rightarrow> d)"

definition getChannelTypeLabel :: "int \<Rightarrow> string" where
  "getChannelTypeLabel = lookup_or CHANNEL_TYPES ''Unknown''"

definition getChannelTypeIcon :: "int \<Rightarrow> string" where
  "getChannelTypeIcon = lookup_or TYPE_TO_ICON ''OpenAI''"

definition getKeyPromptForType :: "int \<Rightarrow> string" where
  "getKeyPromptForType = lookup_or TYPE_TO_KEY_PROMPT ''Enter API key for this channel''"

text \<open>A badge: its variant and label.\<close>

definition getChannelStatusBadge :: "int \<Rightarrow> string \<times> string" where
  "getChannelStatusBadge st =
     (if st = 1 then (''success'', ''Enabled'') else if st = 2 then (''neutral'', ''Disabled'')
      else if st = 3 then (''danger'', ''Auto Disabled'') else (''neutral'', ''Unknown''))"

definition getMultiKeyStatusBadge :: "int \<Rightarrow> string \<times> string" where
  "getMultiKeyStatusBadge st =
     (if st = 2 then (''neutral'', ''Manual Disabled'') else if st = 3 then (''danger'', ''Auto Disabled'')
      else (''success'', ''Enabled''))"

subsection \<open>Channels\<close>

record ChannelInfo =
  is_multi_key :: bool
  multi_key_size :: int
  multi_key_status_list :: "int obj option"
  multi_key_mode :: string

text \<open>The id of a channel is a number; an aggregate row has its tag in that place. Null and undefined are both \<open>None\<close>.\<close>

datatype ChannelId = NumId int | TagId string

record Channel =
  cid :: ChannelId
  ctype :: int
  ckey :: string
  openai_organization :: "string option"
  test_model :: "string option"
  cstatus :: "int option"
  cname :: string
  weight :: "int option"
  created_time :: int
  test_time :: int
  response_time :: rat
  base_url :: "string option"
  cother :: string
  balance :: rat
  balance_updated_time :: int
  cmodels :: string
  cgroup :: string
  used_quota :: int
  model_mapping :: "string option"
  status_code_mapping :: "string option"
  priority :: "int option"
  auto_ban :: "int option"
  ctag :: "string option"
  csetting :: "string option"
  param_override :: "string option"
  header_override :: "string option"
  remark :: string
  channel_info :: "ChannelInfo option"
  csettings :: string

definition isChannelEnabled :: "Channel \<Rightarrow> bool" where
  "isChannelEnabled c \<longleftrightarrow> cstatus c = Some 1"

definition isMultiKeyChannel :: "Channel \<Rightarrow> bool" where
  "isMultiKeyChannel c = (case channel_info c of None \<Rightarrow> False | Some i \<Rightarrow> is_multi_key i)"

subsection \<open>Keys\<close>

definition newline :: char where "newline = CHR 0x0A"

definition key_lines :: "string \<Rightarrow> string list" where
  "key_lines key = filter (\<lambda>k. trim k \<noteq> []) (split_on newline key)"

definition formatChannelKey :: "string \<Rightarrow> bool \<Rightarrow> string" where
  "formatChannelKey key isMultiKey =
     (if key = [] then ''''
      else if isMultiKey then show_nat (length (key_lines key)) @ '' keys''
      else if length key \<le> 16 then slice 0 4 key @ ''...'' @ slice_last 4 key
      else slice 0 8 key @ ''...'' @ slice_last 8 key)"

definition formatKeyPreview :: "string \<Rightarrow> nat \<Rightarrow> string" where
  "formatKeyPreview key maxLength =
     (if key = [] then '''' else if length key \<le> maxLength then key else slice 0 maxLength key @ ''...'')"

definition countKeys :: "string \<Rightarrow> nat" where
  "countKeys key = (if key = [] then 0 else length (key_lines key))"

record Deduplicated =
  deduplicatedText :: string
  beforeCount :: nat
  afterCount :: nat
  removedCount :: nat

fun dedup_step :: "string list \<times> string list \<Rightarrow> string \<Rightarrow> string list \<times> string list" where
  "dedup_step (keySet, out) line =
     (let trimmedLine = trim line in
      if trimmedLine \<noteq> [] \<and> trimmedLine \<notin> set keySet
      then (trimmedLine # keySet, out @ [trimmedLine]) else (keySet, out))"

definition deduplicateKeys :: "string \<Rightarrow> Deduplicated" where
  "deduplicateKeys keysText =
     (if trim keysText = [] then \<lparr>deduplicatedText = '''', beforeCount = 0, afterCount = 0, removedCount = 0\<rparr>
      else
        (let keyLines = split_on newline keysText;
             before = length keyLines;
             deduplicatedKeys = snd (foldl dedup_step ([], []) keyLines);
             after = length deduplicatedKeys
         in \<lparr>deduplicatedText = join [newline] deduplicatedKeys, beforeCount = before, afterCount = after,
             removedCount = before - after\<rparr>))"

subsection \<open>List fields and settings\<close>

definition parseModelsList :: "string \<Rightarrow> string list" where
  "parseModelsList models = (if models = [] then [] else split_trim_filter CHR '','' models)"

definition group_order :: "(string \<Rightarrow> string \<Rightarrow> int) \<Rightarrow> string \<Rightarrow> string \<Rightarrow> int" where
  "group_order localeCompare a b =
     (if a = ''default'' then - 1 else if b = ''default'' then 1 else localeCompare a b)"

definition parseGroupsList :: "(string \<Rightarrow> string \<Rightarrow> int) \<Rightarrow> string \<Rightarrow> string list" where
  "parseGroupsList localeCompare groups =
     (if groups = [] then [] else sort_by (group_order localeCompare) (split_trim_filter CHR '','' groups))"

definition formatModelsString :: "string list \<Rightarrow> string" where
  "formatModelsString models = join '','' models"

definition formatGroupsString :: "string list \<Rightarrow> string" where
  "formatGroupsString groups = join '','' groups"

definition parseChannelSettings :: "string option \<Rightarrow> json" where
  "parseChannelSettings settingStr =
     (case settingStr of None \<Rightarrow> JObj []
      | Some s \<Rightarrow> if s = [] then JObj [] else (case json_parse s of None \<Rightarrow> JObj [] | Some v \<Rightarrow> v))"

definition parseChannelOtherSettings :: "string option \<Rightarrow> json" where
  "parseChannelOtherSettings settingsStr =
     (case settingsStr of None \<Rightarrow> JObj []
      | Some s \<Rightarrow> if s = [] \<or> s = ''{}'' then JObj [] else (case json_parse s of None \<Rightarrow> JObj [] | Some v \<Rightarrow> v))"

definition validateChannelSettings :: "string \<Rightarrow> bool" where
  "validateChannelSettings settings \<longleftrightarrow> trim settings = [] \<or> json_parse settings \<noteq> None"

definition getBalanceVariant :: "rat \<Rightarrow> string" where
  "getBalanceVariant b =
     (if b = 0 then ''neutral'' else if b < 1 then ''danger'' else if b < 10 then ''warning'' else ''success'')"

definition getResponseTimeConfig :: "rat \<Rightarrow> string \<times> string" where
  "getResponseTimeConfig t =
     (if t = 0 then (''neutral'', ''Not tested'') else if t \<le> 500 then (''success'', ''Excellent'')
      else if t \<le> 1000 then (''info'', ''Good'') else if t \<le> 2000 then (''warning'', ''Fair'')
      else (''danger'', ''Poor''))"

definition getPriorityDisplay :: "int option \<Rightarrow> string" where
  "getPriorityDisplay p = (case p of None \<Rightarrow> ''0'' | Some i \<Rightarrow> show_num (num_of_int i))"

definition getWeightDisplay :: "int option \<Rightarrow> string" where
  "getWeightDisplay w = (case w of None \<Rightarrow> ''0'' | Some i \<Rightarrow> show_num (num_of_int i))"

definition validateChannelName :: "string \<Rightarrow> bool" where
  "validateChannelName n \<longleftrightarrow> 0 < length (trim n)"

definition validateApiKey :: "string \<Rightarrow> bool" where
  "validateApiKey k \<longleftrightarrow> 0 < length (trim k)"

definition validateModels :: "string \<Rightarrow> bool" where
  "validateModels models \<longleftrightarrow> 0 < length (parseModelsList models)"

definition validateGroups :: "(string \<Rightarrow> string \<Rightarrow> int) \<Rightarrow> string \<Rightarrow> bool" where
  "validateGroups localeCompare groups \<longleftrightarrow> 0 < length (parseGroupsList localeCompare groups)"

subsection \<open>Attention\<close>

definition all_keys_disabled :: "Channel \<Rightarrow> bool" where
  "all_keys_disabled c =
     (case channel_info c of
        None \<Rightarrow> False
      | Some i \<Rightarrow> is_multi_key i \<and>
          (case multi_key_status_list i of None \<Rightarrow> False | Some l \<Rightarrow> multi_key_size i \<le> int (length l)))"

definition channelNeedsAttention :: "Channel \<Rightarrow> bool" where
  "channelNeedsAttention c =
     (if cstatus c = Some 3 then True
      else if 0 < balance c \<and> balance c < 1 then True
      else if all_keys_disabled c then True
      else False)"

definition getAttentionReason :: "Channel \<Rightarrow> string option" where
  "getAttentionReason c =
     (if cstatus c = Some 3 then Some ''Auto-disabled''
      else if 0 < balance c \<and> balance c < 1 then Some ''Low balance''
      else if all_keys_disabled c then Some ''All keys disabled''
      else None)"

subsection \<open>Aggregation by tag\<close>

record TagRow = Channel +
  row_key :: string
  children :: "Channel list"

definition the_tag :: "Channel \<Rightarrow> string" where
  "the_tag c = (case ctag c of None \<Rightarrow> '''' | Some t \<Rightarrow> t)"

definition newTagRow :: "string \<Rightarrow> Channel \<Rightarrow> TagRow" where
  "newTagRow tag c =
     Channel.extend
       (c\<lparr>cid := TagId tag, ctag := Some tag, cname := tag, ctype := 0, cstatus := None, cgroup := '''',
          used_quota := 0, response_time := 0, priority := Some (- 1), weight := Some (- 1), balance := 0,
          test_time := 0, created_time := 0, balance_updated_time := 0, cmodels := ''''\<rparr>)
       \<lparr>row_key = tag, children = []\<rparr>"

definition split_groups :: "string \<Rightarrow> string list" where
  "split_groups g = filter (\<lambda>w. w \<noteq> []) (split_on CHR '','' g)"

text \<open>Priority and weight share one rule: \<open>-1\<close> stands for no value yet, null for different values.\<close>

definition merge_same :: "int option \<Rightarrow> int option \<Rightarrow> int option" where
  "merge_same row child = (if row = Some (- 1) then child else if row \<noteq> child then None else row)"

definition merge_group :: "string \<Rightarrow> string \<Rightarrow> string" where
  "merge_group row child =
     (if row = '''' then child
      else (let existingGroups = split_groups row
            in foldl (\<lambda>acc g. if g \<notin> set existingGroups then acc @ '','' @ g else acc) row (split_groups child)))"

definition merge_status :: "int option \<Rightarrow> int option \<Rightarrow> int option" where
  "merge_status row child = (if child = Some 1 then Some 1 else if row = None then child else row)"

definition addChild :: "Channel \<Rightarrow> TagRow \<Rightarrow> TagRow" where
  "addChild c r =
     (let kids = children r @ [c]; n = rat_of_nat (length kids)
      in r\<lparr>children := kids,
           used_quota := used_quota r + used_quota c,
           response_time := (response_time r * (n - 1) + response_time c) / n,
           priority := merge_same (priority r) (priority c),
           weight := merge_same (weight r) (weight c),
           cgroup := merge_group (cgroup r) (cgroup c),
           cstatus := merge_status (cstatus r) (cstatus c)\<rparr>)"

text \<open>One channel of the loop: the result list holds the rows in order of creation, and the map finds them by tag.\<close>

fun update_row :: "string \<Rightarrow> Channel \<Rightarrow> TagRow list \<Rightarrow> TagRow list" where
  "update_row tag c [] = [addChild c (newTagRow tag c)]"
| "update_row tag c (r # rs) = (if row_key r = tag then addChild c r # rs else r # update_row tag c rs)"

definition aggregateChannelsByTag :: "Channel list \<Rightarrow> TagRow list" where
  "aggregateChannelsByTag channels = foldl (\<lambda>rows c. update_row (the_tag c) c rows) [] channels"

subsection \<open>Facts: keys\<close>

lemma dedup_fold:
  "snd (foldl dedup_step ([], []) ls) = uniq (filter (\<lambda>w. w \<noteq> []) (map trim ls))
   \<and> set (fst (foldl dedup_step ([], []) ls)) = set (snd (foldl dedup_step ([], []) ls))"
proof (induction ls rule: rev_induct)
  case (snoc l ls)
  obtain K out where f: "foldl dedup_step ([], []) ls = (K, out)" by (cases "foldl dedup_step ([], []) ls")
  show ?case using snoc by (simp add: f uniq_snoc Let_def)
qed simp

lemma split_newline_blank: "trim s = [] \<Longrightarrow> split_trim_filter newline s = []"
proof -
  assume "trim s = []"
  then have ws: "\<forall>c \<in> set s. is_ws c" by (simp add: trim_def trim_by_eq_Nil)
  have "trim w = []" if "w \<in> set (split_on newline s)" for w
    using split_on_subset [OF that] ws by (auto simp: trim_def trim_by_eq_Nil)
  then show ?thesis by (auto simp: split_trim_filter_def filter_empty_conv)
qed

lemma dedup_text: "deduplicatedText (deduplicateKeys s) = list_text newline s"
proof (cases "trim s = []")
  case True
  then show ?thesis by (simp add: deduplicateKeys_def list_text_def split_newline_blank)
next
  case False
  then show ?thesis using dedup_fold by (simp add: deduplicateKeys_def list_text_def split_trim_filter_def Let_def)
qed

lemma after_count: "afterCount (deduplicateKeys s) = length (uniq (split_trim_filter newline s))"
proof (cases "trim s = []")
  case True
  then show ?thesis by (simp add: deduplicateKeys_def split_newline_blank)
next
  case False
  then show ?thesis using dedup_fold by (simp add: deduplicateKeys_def split_trim_filter_def Let_def)
qed

lemma length_split_trim_filter_le: "length (split_trim_filter c s) \<le> length (split_on c s)"
  by (metis length_filter_le length_map split_trim_filter_def)

lemma key_lines_length: "length (key_lines s) = length (split_trim_filter newline s)"
proof -
  have "length (filter (\<lambda>k. trim k \<noteq> []) ws) = length (filter (\<lambda>w. w \<noteq> []) (map trim ws))" for ws
    by (induction ws) auto
  then show ?thesis by (simp add: key_lines_def split_trim_filter_def)
qed

text \<open>
  Removing repeated keys. The text keeps each non-blank trimmed key once, in the order of first appearance; the counts
  add up and the count after is that of the distinct keys; doing it again changes nothing, and the
  number of keys the result shows is the count after.
\<close>

theorem deduplicateKeys_spec:
  "split_trim_filter newline (deduplicatedText (deduplicateKeys s)) = uniq (split_trim_filter newline s)
   \<and> afterCount (deduplicateKeys s) = length (uniq (split_trim_filter newline s))
   \<and> beforeCount (deduplicateKeys s) = afterCount (deduplicateKeys s) + removedCount (deduplicateKeys s)
   \<and> deduplicatedText (deduplicateKeys (deduplicatedText (deduplicateKeys s))) = deduplicatedText (deduplicateKeys s)
   \<and> countKeys (deduplicatedText (deduplicateKeys s)) = afterCount (deduplicateKeys s)"
proof -
  have "beforeCount (deduplicateKeys s) = afterCount (deduplicateKeys s) + removedCount (deduplicateKeys s)"
  proof (cases "trim s = []")
    case False
    have "length (snd (foldl dedup_step ([], []) (split_on newline s))) \<le> length (split_on newline s)"
      using dedup_fold [of "split_on newline s"] order_trans [OF length_uniq_le length_split_trim_filter_le]
      by (metis split_trim_filter_def)
    with False show ?thesis by (simp add: deduplicateKeys_def Let_def)
  qed (simp add: deduplicateKeys_def)
  moreover have "countKeys (list_text newline s) = length (uniq (split_trim_filter newline s))"
    using list_text_meaning [of newline s]
    by (cases "list_text newline s = []") (simp_all add: countKeys_def key_lines_length split_trim_filter_def)
  ultimately show ?thesis
    by (simp add: dedup_text after_count list_text_meaning list_text.norm_idem)
qed

text \<open>
  How much of a key its masked form shows. The middle of a key of more than 16 characters, all but the outer
  eight on each side, is hidden: any two such keys of the same outer parts look alike. Of a key of 9 to 16 characters all but
  four on each side; but a key of at most 8 characters is shown in full, and can be read off its masked form.
\<close>

theorem masked_key_exposure:
  "(length k > 16 \<longrightarrow> formatChannelKey k False = take 8 k @ ''...'' @ drop (length k - 8) k)
   \<and> (8 < length k \<longrightarrow> length k \<le> 16 \<longrightarrow> formatChannelKey k False = take 4 k @ ''...'' @ drop (length k - 4) k)
   \<and> (0 < length k \<longrightarrow> length k \<le> 8 \<longrightarrow>
       k = take (min 4 (length k)) (formatChannelKey k False) @ drop (2 * min 4 (length k) + 3 - (length k - min 4 (length k))) (formatChannelKey k False))"
proof -
  have "k = take (min 4 (length k)) (formatChannelKey k False) @ drop (2 * min 4 (length k) + 3 - (length k - min 4 (length k))) (formatChannelKey k False)"
    if "0 < length k" "length k \<le> 8"
  proof (cases "length k \<le> 4")
    case True
    then show ?thesis using that by (simp add: formatChannelKey_def slice_def slice_last_def)
  next
    case False
    then have n: "11 - length k = Suc (Suc (Suc (8 - length k)))" "8 - length k + (length k - 4) = 4" using that by simp_all
    then show ?thesis using that False
      by (simp add: formatChannelKey_def slice_def slice_last_def drop_append del: drop_drop) (simp add: add.commute)
  qed
  then show ?thesis
    by (auto simp: formatChannelKey_def slice_def slice_last_def)
qed

theorem masked_key_exposure_witness:
  "formatChannelKey ''secret12'' False = ''secr...et12''
   \<and> ''secret12'' = take 4 (formatChannelKey ''secret12'' False) @ drop 7 (formatChannelKey ''secret12'' False)"
proof -
  have l: "length ''secret12'' = 8" by simp
  have "formatChannelKey ''secret12'' False = ''secr...et12''" by code_simp
  moreover note masked_key_exposure [of "''secret12''", unfolded l, simplified]
  ultimately show ?thesis by simp
qed

subsection \<open>Facts: list fields\<close>

text \<open>
  The groups of a channel. For a consistent locale comparison the list shown has exactly the groups of the text, with their
  multiplicities; the default group comes before all others, and these are in the order of the locale.
\<close>

theorem groups_sorted:
  assumes "consistent lc"
  shows "sorted_wrt (\<lambda>a b. a = ''default'' \<or> (b \<noteq> ''default'' \<and> lc a b \<le> 0)) (parseGroupsList lc s)
    \<and> length (filter P (parseGroupsList lc s)) = length (filter P (split_trim_filter CHR '','' s))"
proof -
  have c: "consistent (group_order lc)"
    using assms by (auto simp: consistent_def group_order_def)
  have p: "parseGroupsList lc s = sort_by (group_order lc) (split_trim_filter CHR '','' s)"
    by (simp add: parseGroupsList_def split_trim_filter_def)
  have "sorted_wrt (\<lambda>a b. group_order lc a b \<le> 0) (parseGroupsList lc s)"
    unfolding p using c by (rule sorted_sort_by)
  then have "sorted_wrt (\<lambda>a b. a = ''default'' \<or> (b \<noteq> ''default'' \<and> lc a b \<le> 0)) (parseGroupsList lc s)"
    by (rule sorted_wrt_mono_rel [rotated]) (auto simp: group_order_def split: if_splits)
  then show ?thesis by (simp add: p count_sort_by)
qed

definition by_length :: "string \<Rightarrow> string \<Rightarrow> int" where
  "by_length a b = int (length a) - int (length b)"

theorem groups_sorted_witness:
  "parseGroupsList by_length ''vip,b,default'' = [''default'', ''b'', ''vip'']
   \<and> sorted_wrt (\<lambda>a b. a = ''default'' \<or> (b \<noteq> ''default'' \<and> by_length a b \<le> 0)) (parseGroupsList by_length ''vip,b,default'')"
proof -
  have "consistent by_length" by (auto simp: consistent_def by_length_def)
  moreover have "parseGroupsList by_length ''vip,b,default'' = [''default'', ''b'', ''vip'']" by code_simp
  ultimately show ?thesis using groups_sorted [of by_length "''vip,b,default''"] by blast
qed

text \<open>
  The badge and its tooltip agree: a channel needs attention exactly when there is a reason to show.
\<close>

theorem attention_iff_reason: "channelNeedsAttention c \<longleftrightarrow> getAttentionReason c \<noteq> None"
  by (simp add: channelNeedsAttention_def getAttentionReason_def)

subsection \<open>Facts: aggregation\<close>

text \<open>What the row of a tag is: the fold of its channels over the fresh row made from the first of them.\<close>

definition of_tag :: "string \<Rightarrow> Channel list \<Rightarrow> Channel list" where
  "of_tag t cs = filter (\<lambda>c. the_tag c = t) cs"

definition fold_row :: "string \<Rightarrow> Channel list \<Rightarrow> TagRow" where
  "fold_row t ds = foldl (\<lambda>r c. addChild c r) (newTagRow t (hd ds)) ds"

lemma newTagRow_fields [simp]:
  "row_key (newTagRow t c) = t" "children (newTagRow t c) = []" "used_quota (newTagRow t c) = 0"
  "response_time (newTagRow t c) = 0" "priority (newTagRow t c) = Some (- 1)" "weight (newTagRow t c) = Some (- 1)"
  "cgroup (newTagRow t c) = ''''" "cstatus (newTagRow t c) = None" "ctag (newTagRow t c) = Some t"
  by (simp_all add: newTagRow_def Channel.defs)

lemma addChild_fields [simp]:
  "row_key (addChild c r) = row_key r" "children (addChild c r) = children r @ [c]"
  "used_quota (addChild c r) = used_quota r + used_quota c"
  "priority (addChild c r) = merge_same (priority r) (priority c)"
  "weight (addChild c r) = merge_same (weight r) (weight c)"
  "cgroup (addChild c r) = merge_group (cgroup r) (cgroup c)"
  "cstatus (addChild c r) = merge_status (cstatus r) (cstatus c)"
  "response_time (addChild c r) = (response_time r * (rat_of_nat (Suc (length (children r))) - 1) + response_time c)
     / rat_of_nat (Suc (length (children r)))"
  by (simp_all add: addChild_def Let_def)

lemma fold_row_snoc: "ds \<noteq> [] \<Longrightarrow> fold_row t (ds @ [c]) = addChild c (fold_row t ds)"
  by (simp add: fold_row_def)

lemma fold_row_single: "fold_row t [c] = addChild c (newTagRow t c)"
  by (simp add: fold_row_def)

lemma fold_row_key [simp]: "row_key (fold_row t ds) = t"
proof -
  have "row_key (foldl (\<lambda>r c. addChild c r) r ds) = row_key r" for r by (induction ds arbitrary: r) auto
  then show ?thesis by (simp add: fold_row_def)
qed

lemma update_row_map:
  assumes "distinct ts" "\<And>u. row_key (f u) = u"
  shows "update_row t c (map f ts) = (if t \<in> set ts then map (f(t := addChild c (f t))) ts
           else map f ts @ [addChild c (newTagRow t c)])"
  using assms by (induction ts) auto

lemma of_tag_snoc: "of_tag t (cs @ [c]) = (if the_tag c = t then of_tag t cs @ [c] else of_tag t cs)"
  by (simp add: of_tag_def)

lemma of_tag_nonempty: "t \<in> set (map the_tag cs) \<longleftrightarrow> of_tag t cs \<noteq> []"
  by (auto simp: of_tag_def filter_empty_conv)

lemma aggregate_eq: "aggregateChannelsByTag cs = map (\<lambda>t. fold_row t (of_tag t cs)) (uniq (map the_tag cs))"
proof (induction cs rule: rev_induct)
  case Nil
  then show ?case by (simp add: aggregateChannelsByTag_def)
next
  case (snoc c cs)
  let ?t = "the_tag c"
  have st: "aggregateChannelsByTag (cs @ [c]) = update_row ?t c (map (\<lambda>t. fold_row t (of_tag t cs)) (uniq (map the_tag cs)))"
    using snoc by (simp add: aggregateChannelsByTag_def)
  show ?case
  proof (cases "?t \<in> set (map the_tag cs)")
    case True
    then have ne: "of_tag ?t cs \<noteq> []" using of_tag_nonempty by blast
    have "((\<lambda>t. fold_row t (of_tag t cs))(?t := addChild c (fold_row ?t (of_tag ?t cs)))) u = fold_row u (of_tag u (cs @ [c]))" for u
      using ne by (simp add: of_tag_snoc fold_row_snoc)
    then show ?thesis unfolding st using True by (subst update_row_map) (simp_all add: uniq_snoc)
  next
    case False
    then have "of_tag ?t cs = []" using of_tag_nonempty by blast
    then have "fold_row ?t (of_tag ?t (cs @ [c])) = addChild c (newTagRow ?t c)"
      by (simp add: of_tag_snoc fold_row_single)
    moreover have "map (\<lambda>t. fold_row t (of_tag t cs)) (uniq (map the_tag cs))
        = map (\<lambda>t. fold_row t (of_tag t (cs @ [c]))) (uniq (map the_tag cs))"
      using False by (auto simp: of_tag_snoc)
    ultimately show ?thesis unfolding st using False by (subst update_row_map) (simp_all add: uniq_snoc)
  qed
qed

lemma fold_induct [consumes 1, case_names one more]:
  assumes "ds \<noteq> []" "\<And>c. P [c]" "\<And>ds c. ds \<noteq> [] \<Longrightarrow> P ds \<Longrightarrow> P (ds @ [c])"
  shows "P ds"
  using assms(1)
proof (induction ds rule: rev_induct)
  case (snoc c ds)
  then show ?case using assms(2,3) by (cases "ds = []") auto
qed simp

lemma fold_row_children: "ds \<noteq> [] \<Longrightarrow> children (fold_row t ds) = ds"
  by (induction ds rule: fold_induct) (simp_all add: fold_row_single fold_row_snoc)

lemma fold_row_quota: "ds \<noteq> [] \<Longrightarrow> used_quota (fold_row t ds) = sum_list (map used_quota ds)"
  by (induction ds rule: fold_induct) (simp_all add: fold_row_single fold_row_snoc)

lemma fold_row_time:
  "ds \<noteq> [] \<Longrightarrow> response_time (fold_row t ds) = sum_list (map response_time ds) / rat_of_nat (length ds)"
proof (induction ds rule: fold_induct)
  case (more ds c)
  then show ?case
    by (simp add: fold_row_snoc fold_row_children add_divide_distrib)
qed (simp add: fold_row_single)

lemma fold_row_same:
  assumes "ds \<noteq> []" "\<forall>c \<in> set ds. f c \<noteq> Some (- 1)"
    and "\<And>c. f' (newTagRow t c) = Some (- 1)" "\<And>c r. f' (addChild c r) = merge_same (f' r) (f c)"
  shows "f' (fold_row t ds) = (if \<forall>c \<in> set ds. f c = f (hd ds) then f (hd ds) else None)"
  using assms(1,2)
proof (induction ds rule: fold_induct)
  case (one c)
  then show ?case by (simp add: fold_row_single assms merge_same_def)
next
  case (more ds c)
  define p q where "p = f (hd ds)" and "q = f c"
  have p: "p \<noteq> Some (- 1)" using more.prems more.hyps by (simp add: p_def)
  have st: "f' (fold_row t (ds @ [c])) = merge_same (f' (fold_row t ds)) q"
    using more.hyps by (simp add: fold_row_snoc assms(4) q_def)
  have IH: "f' (fold_row t ds) = (if \<forall>x \<in> set ds. f x = p then p else None)"
    unfolding p_def using more.prems by (intro more.IH) simp
  have al: "(\<forall>x \<in> set (ds @ [c]). f x = p) \<longleftrightarrow> (\<forall>x \<in> set ds. f x = p) \<and> q = p" by (auto simp: q_def)
  have hd': "f (hd (ds @ [c])) = p" using more.hyps by (simp add: p_def)
  show ?case unfolding st IH hd' al using p by (simp add: merge_same_def)
qed

lemma fold_row_status:
  "ds \<noteq> [] \<Longrightarrow> \<forall>c \<in> set ds. cstatus c \<noteq> None \<Longrightarrow>
   cstatus (fold_row t ds) = (if \<exists>c \<in> set ds. cstatus c = Some 1 then Some 1 else cstatus (hd ds))"
proof (induction ds rule: fold_induct)
  case (one c)
  then show ?case by (simp add: fold_row_single merge_status_def)
next
  case (more ds c)
  from more.hyps have "hd ds \<in> set ds" by simp
  with more.prems obtain y where "cstatus (hd ds) = Some y" by fastforce
  with more show ?case by (auto simp: fold_row_snoc merge_status_def)
qed

lemma split_groups_append: "set (split_groups (a @ CHR '','' # b)) = set (split_groups a) \<union> set (split_groups b)"
proof -
  have "split_on c (a @ c # b) = split_on c a @ split_on c b" for c :: char
    by (induction a) (auto split: list.splits)
  then show ?thesis by (auto simp: split_groups_def)
qed

lemma split_groups_part: "g \<in> set (split_groups b) \<Longrightarrow> set (split_groups g) = {g}"
proof -
  assume "g \<in> set (split_groups b)"
  then have "g \<noteq> []" "CHR '','' \<notin> set g" using split_on_no_sep_in [of g _ b] by (auto simp: split_groups_def)
  then show ?thesis by (simp add: split_groups_def split_on_no_sep)
qed

lemma merge_group_set: "set (split_groups (merge_group row child)) = set (split_groups row) \<union> set (split_groups child)"
proof (cases "row = ''''")
  case True
  then show ?thesis by (simp add: merge_group_def split_groups_def)
next
  case False
  have "set (split_groups (foldl (\<lambda>acc g. if g \<notin> E then acc @ '','' @ g else acc) a gs))
      = set (split_groups a) \<union> (set gs - E)" if "\<forall>g \<in> set gs. set (split_groups g) = {g}" for E a gs
    using that by (induction gs arbitrary: a) (auto simp: split_groups_append)
  then have "set (split_groups (foldl (\<lambda>acc g. if g \<notin> set (split_groups row) then acc @ '','' @ g else acc) row (split_groups child)))
      = set (split_groups row) \<union> (set (split_groups child) - set (split_groups row))"
    using split_groups_part by blast
  with False show ?thesis by (auto simp: merge_group_def Let_def)
qed

lemma fold_row_groups: "ds \<noteq> [] \<Longrightarrow> set (split_groups (cgroup (fold_row t ds))) = (\<Union>c \<in> set ds. set (split_groups (cgroup c)))"
proof (induction ds rule: fold_induct)
  case (one c)
  then show ?case by (simp add: fold_row_single merge_group_def)
next
  case (more ds c)
  then show ?case by (auto simp: fold_row_snoc merge_group_set)
qed

lemmas fold_row_facts = fold_row_children fold_row_quota fold_row_time fold_row_groups

text \<open>
  C28: the tag view loses nothing and invents nothing. There is one row per tag, in the order in which the tags first
  appear; the children of a row are the channels with its tag in their order, so that every
  channel is in exactly one row; the quota of a row is the sum and its response time the
  average over its children, and its groups are the groups any of them has.
\<close>

theorem aggregate_by_tag:
  "map row_key (aggregateChannelsByTag cs) = uniq (map the_tag cs)
   \<and> list_all (\<lambda>r. children r = filter (\<lambda>c. the_tag c = row_key r) cs \<and> children r \<noteq> []
       \<and> used_quota r = sum_list (map used_quota (children r))
       \<and> response_time r = sum_list (map response_time (children r)) / rat_of_nat (length (children r))
       \<and> set (split_groups (cgroup r)) = (\<Union>c \<in> set (children r). set (split_groups (cgroup c))))
     (aggregateChannelsByTag cs)"
proof -
  have "of_tag t cs \<noteq> []" if "t \<in> set (uniq (map the_tag cs))" for t
    using that of_tag_nonempty [of t cs] by simp
  then show ?thesis
    by (auto simp: aggregate_eq comp_def list_all_iff fold_row_facts) (auto simp: of_tag_def)
qed

text \<open>
  The other columns of a row. When every channel has a status and none uses the value -1, a row is enabled if one of its channels is,
  and has the status of its first channel otherwise; its priority and weight are the common value of its
  channels, or null when they differ.
\<close>

theorem aggregate_columns:
  assumes "r \<in> set (aggregateChannelsByTag cs)" "\<forall>c \<in> set cs. cstatus c \<noteq> None"
    and "\<forall>c \<in> set cs. priority c \<noteq> Some (- 1) \<and> weight c \<noteq> Some (- 1)"
  shows "cstatus r = (if list_ex isChannelEnabled (children r) then Some 1 else cstatus (hd (children r)))
    \<and> priority r = (if list_all (\<lambda>c. priority c = priority (hd (children r))) (children r) then priority (hd (children r)) else None)
    \<and> weight r = (if list_all (\<lambda>c. weight c = weight (hd (children r))) (children r) then weight (hd (children r)) else None)"
proof -
  obtain t where t: "r = fold_row t (of_tag t cs)" "of_tag t cs \<noteq> []"
    using assms(1) of_tag_nonempty [of _ cs] by (auto simp: aggregate_eq)
  have sub: "set (of_tag t cs) \<subseteq> set cs" by (auto simp: of_tag_def)
  have "priority r = (if \<forall>c \<in> set (of_tag t cs). priority c = priority (hd (of_tag t cs)) then priority (hd (of_tag t cs)) else None)"
    unfolding t(1) by (rule fold_row_same) (use t(2) sub assms(3) in auto)
  moreover have "weight r = (if \<forall>c \<in> set (of_tag t cs). weight c = weight (hd (of_tag t cs)) then weight (hd (of_tag t cs)) else None)"
    unfolding t(1) by (rule fold_row_same) (use t(2) sub assms(3) in auto)
  moreover have "cstatus r = (if \<exists>c \<in> set (of_tag t cs). cstatus c = Some 1 then Some 1 else cstatus (hd (of_tag t cs)))"
    unfolding t(1) by (rule fold_row_status) (use t(2) sub assms(2) in auto)
  moreover have "children r = of_tag t cs" by (simp add: t fold_row_children)
  ultimately show ?thesis by (simp add: list_all_iff list_ex_iff isChannelEnabled_def)
qed

definition demoChannel :: "int option \<Rightarrow> int option \<Rightarrow> Channel" where
  "demoChannel st pr =
     \<lparr>cid = NumId 1, ctype = 1, ckey = '''', openai_organization = None, test_model = None, cstatus = st, cname = ''c'',
      weight = Some 0, created_time = 0, test_time = 0, response_time = 100, base_url = None, cother = '''', balance = 0,
      balance_updated_time = 0, cmodels = '''', cgroup = ''default'', used_quota = 5, model_mapping = None,
      status_code_mapping = None, priority = pr, auto_ban = Some 1, ctag = Some ''t'', csetting = None,
      param_override = None, header_override = None, remark = '''', channel_info = None, csettings = ''{}''\<rparr>"

theorem aggregate_columns_witness:
  "\<exists>r \<in> set (aggregateChannelsByTag [demoChannel (Some 2) (Some 0), demoChannel (Some 1) (Some 7)]).
     cstatus r = Some 1 \<and> priority r = None \<and> weight r = Some 0"
proof -
  let ?cs = "[demoChannel (Some 2) (Some 0), demoChannel (Some 1) (Some 7)]"
  have tg: "map the_tag ?cs = [''t'', ''t'']" by (simp add: the_tag_def demoChannel_def)
  have ot: "of_tag ''t'' ?cs = ?cs" by (simp add: of_tag_def the_tag_def demoChannel_def)
  have r: "aggregateChannelsByTag ?cs = [fold_row ''t'' ?cs]" unfolding aggregate_eq tg by (simp add: ot)
  have h: "\<forall>c \<in> set ?cs. cstatus c \<noteq> None" "\<forall>c \<in> set ?cs. priority c \<noteq> Some (- 1) \<and> weight c \<noteq> Some (- 1)"
    by (simp_all add: demoChannel_def)
  have "children (fold_row ''t'' ?cs) = ?cs" by (rule fold_row_children) simp
  then show ?thesis
    using aggregate_columns [of "fold_row ''t'' ?cs" ?cs, OF _ h] by (simp add: r) (simp add: demoChannel_def isChannelEnabled_def)
qed

text \<open>
  -1 as a real value. The value that stands for no priority yet is also a priority a channel may have: after children of priority -1 the
  next child's priority is shown as the common one of the row, although they differ.
\<close>

theorem minus_one_priority_hidden:
  "map priority (aggregateChannelsByTag [demoChannel (Some 1) (Some (- 1)), demoChannel (Some 1) (Some 5)]) = [Some 5]"
proof -
  let ?cs = "[demoChannel (Some 1) (Some (- 1)), demoChannel (Some 1) (Some 5)]"
  have tg: "map the_tag ?cs = [''t'', ''t'']" by (simp add: the_tag_def demoChannel_def)
  have ot: "of_tag ''t'' ?cs = ?cs" by (simp add: of_tag_def the_tag_def demoChannel_def)
  have "priority (fold_row ''t'' ?cs) = Some 5"
    by (simp add: fold_row_def merge_same_def) (simp add: demoChannel_def)
  then show ?thesis unfolding aggregate_eq tg by (simp add: ot)
qed

end
