(* ===== verification/ChannelForm.thy ===== *)
theory ChannelForm
  imports ChannelUtils
begin

text \<open>
  The channel form (\<^verbatim>\<open>features/channels/lib/channel-form.ts\<close>): its values, the transformation of a channel into form
  values, the two JSON texts it writes, and the payloads for creating and updating. Form fields that are read out of stored
  JSON without a check are JSON values. \<open>None\<close> results are the TypeErrors of reading or writing a
  property where there is none. The zod schema is a library call and is not modelled.
\<close>

subsection \<open>Form values\<close>

record ChannelFormValues =
  fname :: string
  ftype :: int
  fbase_url :: "string option"
  fkey :: string
  fopenai_organization :: "string option"
  fmodels :: string
  fgroup :: "string list"
  fmodel_mapping :: "string option"
  fpriority :: "int option"
  fweight :: "int option"
  ftest_model :: "string option"
  fauto_ban :: "int option"
  fstatus :: "int option"
  fstatus_code_mapping :: "string option"
  ftag :: "string option"
  fremark :: "string option"
  fsetting :: "string option"
  fparam_override :: "string option"
  fheader_override :: "string option"
  fsettings :: "string option"
  fother :: "string option"
  fmulti_key_mode :: "string option"
  fmulti_key_type :: "string option"
  fbatch_prefix :: "bool option"
  fkey_mode :: "string option"
  fforce_format :: "json option"
  fthinking_to_content :: "json option"
  fproxy :: "json option"
  fpass_through_body_enabled :: "json option"
  fsystem_prompt :: "json option"
  fsystem_prompt_override :: "json option"
  fis_enterprise_account :: "bool option"
  fvertex_key_type :: "json option"
  faws_key_type :: "json option"
  fazure_responses_version :: "json option"
  fallow_service_tier :: "bool option"
  fdisable_store :: "bool option"
  fallow_safety_identifier :: "bool option"
  fallow_include_obfuscation :: "bool option"
  fallow_inference_geo :: "bool option"
  fallow_speed :: "bool option"
  fclaude_beta_query :: "bool option"
  fupdate_check_enabled :: "bool option"
  fupdate_auto_sync_enabled :: "bool option"

definition CHANNEL_FORM_DEFAULT_VALUES :: ChannelFormValues where
  "CHANNEL_FORM_DEFAULT_VALUES =
     \<lparr>fname = '''', ftype = 1, fbase_url = Some '''', fkey = '''', fopenai_organization = Some '''', fmodels = '''',
      fgroup = [''default''], fmodel_mapping = Some '''', fpriority = Some 0, fweight = Some 0, ftest_model = Some '''',
      fauto_ban = Some 1, fstatus = Some 1, fstatus_code_mapping = Some '''', ftag = Some '''', fremark = Some '''',
      fsetting = Some '''', fparam_override = Some '''', fheader_override = Some '''', fsettings = Some ''{}'',
      fother = Some '''', fmulti_key_mode = Some ''single'', fmulti_key_type = Some ''random'',
      fbatch_prefix = Some False, fkey_mode = Some ''append'', fforce_format = Some (JBool False),
      fthinking_to_content = Some (JBool False), fproxy = Some (JStr ''''), fpass_through_body_enabled = Some (JBool False),
      fsystem_prompt = Some (JStr ''''), fsystem_prompt_override = Some (JBool False),
      fis_enterprise_account = Some False, fvertex_key_type = Some (JStr ''json''), faws_key_type = Some (JStr ''ak_sk''),
      fazure_responses_version = Some (JStr ''''), fallow_service_tier = Some False, fdisable_store = Some False,
      fallow_safety_identifier = Some False, fallow_include_obfuscation = Some False, fallow_inference_geo = Some False,
      fallow_speed = Some False, fclaude_beta_query = Some False, fupdate_check_enabled = None,
      fupdate_auto_sync_enabled = None\<rparr>"

definition MODEL_FETCHABLE_TYPES :: "int list" where
  "MODEL_FETCHABLE_TYPES = [1, 4, 14, 17, 20, 23, 24, 25, 26, 31, 34, 35, 40, 42, 43, 47, 48]"

subsection \<open>Lists\<close>

definition parseModels :: "string \<Rightarrow> string list" where
  "parseModels models = (if models = [] then [] else split_trim_filter CHR '','' models)"

definition parseGroups :: "string \<Rightarrow> string list" where
  "parseGroups groups = (if groups = [] then [] else split_trim_filter CHR '','' groups)"

definition formatModels :: "string list \<Rightarrow> string" where
  "formatModels models = join '','' models"

definition formatGroups :: "string list \<Rightarrow> string" where
  "formatGroups groups = join '','' groups"

definition validateJSON :: "string \<Rightarrow> bool" where
  "validateJSON v \<longleftrightarrow> trim v = [] \<or> json_parse v \<noteq> None"

definition validateModelMapping :: "string \<Rightarrow> bool" where
  "validateModelMapping v \<longleftrightarrow> trim v = [] \<or> validateJSON v"

subsection \<open>From a channel to the form\<close>

text \<open>\<open>a || d\<close> on JSON values, on texts and on numbers.\<close>

definition or_json :: "json option \<Rightarrow> json \<Rightarrow> json" where
  "or_json v d = (case v of None \<Rightarrow> d | Some j \<Rightarrow> if jtruthy j then j else d)"

definition or_text :: "string option \<Rightarrow> string \<Rightarrow> string" where
  "or_text v d = (case v of None \<Rightarrow> d | Some t \<Rightarrow> if t = [] then d else t)"

definition or_int :: "int option \<Rightarrow> int \<Rightarrow> int" where
  "or_int v d = (case v of None \<Rightarrow> d | Some i \<Rightarrow> if i = 0 then d else i)"

text \<open>
  The stored JSON of a text field in a try block. When the text is missing, empty or no JSON, or JSON null (reading its
  properties throws), the defaults stay; reading an absent property gives the same defaults, so null stands for all of these.
\<close>

definition stored_json :: "string option \<Rightarrow> json" where
  "stored_json t = (case t of None \<Rightarrow> JNull | Some s \<Rightarrow> if s = [] then JNull else (case json_parse s of None \<Rightarrow> JNull | Some v \<Rightarrow> v))"

definition is_true :: "string \<Rightarrow> json \<Rightarrow> bool" where
  "is_true k v \<longleftrightarrow> jfield k v = Some (JBool True)"

definition transformChannelToFormDefaults :: "Channel \<Rightarrow> ChannelFormValues option" where
  "transformChannelToFormDefaults ch =
     (case channel_info ch of
        None \<Rightarrow> None
      | Some info \<Rightarrow>
         (let ex = stored_json (csetting ch); st = stored_json (Some (csettings ch)) in
          Some \<lparr>fname = cname ch, ftype = ctype ch, fbase_url = Some (or_text (base_url ch) ''''), fkey = '''',
            fopenai_organization = Some (or_text (openai_organization ch) ''''), fmodels = cmodels ch,
            fgroup = parseGroups (or_text (Some (cgroup ch)) ''default''),
            fmodel_mapping = Some (or_text (model_mapping ch) ''''),
            fpriority = Some (or_int (priority ch) 0), fweight = Some (or_int (weight ch) 0),
            ftest_model = Some (or_text (test_model ch) ''''),
            fauto_ban = Some (case auto_ban ch of None \<Rightarrow> 1 | Some b \<Rightarrow> b), fstatus = cstatus ch,
            fstatus_code_mapping = Some (or_text (status_code_mapping ch) ''''), ftag = Some (or_text (ctag ch) ''''),
            fremark = Some (remark ch), fsetting = Some (or_text (csetting ch) ''''),
            fparam_override = Some (or_text (param_override ch) ''''),
            fheader_override = Some (or_text (header_override ch) ''''),
            fsettings = Some (or_text (Some (csettings ch)) ''{}''), fother = Some (cother ch),
            fmulti_key_mode = Some ''single'', fmulti_key_type = Some (or_text (Some (multi_key_mode info)) ''random''),
            fbatch_prefix = Some False, fkey_mode = Some ''append'',
            fforce_format = Some (or_json (jfield ''force_format'' ex) (JBool False)),
            fthinking_to_content = Some (or_json (jfield ''thinking_to_content'' ex) (JBool False)),
            fproxy = Some (or_json (jfield ''proxy'' ex) (JStr '''')),
            fpass_through_body_enabled = Some (or_json (jfield ''pass_through_body_enabled'' ex) (JBool False)),
            fsystem_prompt = Some (or_json (jfield ''system_prompt'' ex) (JStr '''')),
            fsystem_prompt_override = Some (or_json (jfield ''system_prompt_override'' ex) (JBool False)),
            fis_enterprise_account = Some (is_true ''openrouter_enterprise'' st),
            fvertex_key_type = Some (or_json (jfield ''vertex_key_type'' st) (JStr ''json'')),
            faws_key_type = Some (or_json (jfield ''aws_key_type'' st) (JStr ''ak_sk'')),
            fazure_responses_version = Some (or_json (jfield ''azure_responses_version'' st) (JStr '''')),
            fallow_service_tier = Some (is_true ''allow_service_tier'' st),
            fdisable_store = Some (is_true ''disable_store'' st),
            fallow_safety_identifier = Some (is_true ''allow_safety_identifier'' st),
            fallow_include_obfuscation = Some (is_true ''allow_include_obfuscation'' st),
            fallow_inference_geo = Some (is_true ''allow_inference_geo'' st),
            fallow_speed = Some (is_true ''allow_speed'' st),
            fclaude_beta_query = Some (is_true ''claude_beta_query'' st),
            fupdate_check_enabled = Some (is_true ''upstream_model_update_check_enabled'' st),
            fupdate_auto_sync_enabled = Some (is_true ''upstream_model_update_auto_sync_enabled'' st)\<rparr>))"

subsection \<open>The two JSON texts\<close>

definition setting_obj :: "ChannelFormValues \<Rightarrow> json obj" where
  "setting_obj f =
     [(''force_format'', or_json (fforce_format f) (JBool False)),
      (''thinking_to_content'', or_json (fthinking_to_content f) (JBool False)),
      (''proxy'', or_json (fproxy f) (JStr '''')),
      (''pass_through_body_enabled'', or_json (fpass_through_body_enabled f) (JBool False)),
      (''system_prompt'', or_json (fsystem_prompt f) (JStr '''')),
      (''system_prompt_override'', or_json (fsystem_prompt_override f) (JBool False))]"

definition buildSettingJSON :: "ChannelFormValues \<Rightarrow> string" where
  "buildSettingJSON f = stringify (JObj (setting_obj f))"

text \<open>Assign the property when the condition holds, delete it if it is there otherwise.\<close>

definition put_if :: "bool \<Rightarrow> string \<Rightarrow> json \<Rightarrow> json obj \<Rightarrow> json obj" where
  "put_if c k v ob = (if c then oput k v ob else odel k ob)"

abbreviation flag :: "bool option \<Rightarrow> json" where
  "flag b \<equiv> JBool (b = Some True)"

definition truthy_json :: "json option \<Rightarrow> bool" where
  "truthy_json v = (case v of None \<Rightarrow> False | Some j \<Rightarrow> jtruthy j)"

definition provider_settings :: "ChannelFormValues \<Rightarrow> json obj \<Rightarrow> json obj" where
  "provider_settings f ob =
     put_if (ftype f = 33) ''aws_key_type'' (or_json (faws_key_type f) (JStr ''ak_sk''))
       (put_if (ftype f = 20) ''openrouter_enterprise'' (flag (fis_enterprise_account f))
         (put_if (ftype f = 3 \<and> truthy_json (fazure_responses_version f)) ''azure_responses_version''
            (case fazure_responses_version f of None \<Rightarrow> JNull | Some v \<Rightarrow> v)
           (put_if (ftype f = 41) ''vertex_key_type'' (or_json (fvertex_key_type f) (JStr ''json'')) ob)))"

definition openai_settings :: "ChannelFormValues \<Rightarrow> json obj \<Rightarrow> json obj" where
  "openai_settings f ob =
     (let ob1 = put_if (ftype f = 1 \<or> ftype f = 14) ''allow_service_tier'' (flag (fallow_service_tier f)) ob in
      if ftype f = 1
      then oput ''allow_inference_geo'' (flag (fallow_inference_geo f))
             (oput ''allow_include_obfuscation'' (flag (fallow_include_obfuscation f))
               (oput ''allow_safety_identifier'' (flag (fallow_safety_identifier f))
                 (oput ''disable_store'' (flag (fdisable_store f)) ob1)))
      else (let ob2 = odel ''allow_include_obfuscation'' (odel ''allow_safety_identifier'' (odel ''disable_store'' ob1))
            in if ftype f \<noteq> 14 then odel ''allow_inference_geo'' ob2 else ob2))"

definition anthropic_settings :: "ChannelFormValues \<Rightarrow> json obj \<Rightarrow> json obj" where
  "anthropic_settings f ob =
     (if ftype f = 14
      then oput ''claude_beta_query'' (flag (fclaude_beta_query f))
             (oput ''allow_speed'' (flag (fallow_speed f))
               (oput ''allow_inference_geo'' (flag (fallow_inference_geo f)) ob))
      else odel ''claude_beta_query'' (odel ''allow_speed'' ob))"

definition upstream_settings :: "ChannelFormValues \<Rightarrow> json obj \<Rightarrow> json obj" where
  "upstream_settings f ob =
     (if ftype f \<in> set MODEL_FETCHABLE_TYPES
      then oput ''upstream_model_update_auto_sync_enabled'' (flag (fupdate_auto_sync_enabled f))
             (oput ''upstream_model_update_check_enabled'' (flag (fupdate_check_enabled f)) ob)
      else ob)"

definition edit_settings :: "ChannelFormValues \<Rightarrow> json obj \<Rightarrow> json obj" where
  "edit_settings f ob = upstream_settings f (anthropic_settings f (openai_settings f (provider_settings f ob)))"

text \<open>
  The settings to start from: the parsed text, the empty object when it is missing, \<open>{}\<close> or no JSON. Properties set on an array
  are not part of its JSON text; on any other value that is no object the \<open>in\<close> operator throws.
\<close>

definition buildSettingsJSON :: "ChannelFormValues \<Rightarrow> string option" where
  "buildSettingsJSON f =
     (let start = (case fsettings f of
          None \<Rightarrow> JObj []
        | Some s \<Rightarrow> if s = [] \<or> s = ''{}'' then JObj [] else (case json_parse s of None \<Rightarrow> JObj [] | Some v \<Rightarrow> v))
      in case start of
           JObj ob \<Rightarrow> Some (stringify (JObj (edit_settings f ob)))
         | JArr xs \<Rightarrow> Some (stringify (JArr xs))
         | _ \<Rightarrow> None)"

subsection \<open>Payloads\<close>

definition str_null :: "string option \<Rightarrow> json" where
  "str_null v = (case v of None \<Rightarrow> JNull | Some t \<Rightarrow> if t = [] then JNull else JStr t)"

definition int_null :: "int option \<Rightarrow> json" where
  "int_null v = (case v of None \<Rightarrow> JNull | Some i \<Rightarrow> if i = 0 then JNull else JNum (num_of_int i))"

definition int_json :: "int option \<Rightarrow> json" where
  "int_json v = (case v of None \<Rightarrow> JNull | Some i \<Rightarrow> JNum (num_of_int i))"

text \<open>The clean-up pass over the payload: empty texts become null.\<close>

definition null_empty :: "json obj \<Rightarrow> json obj" where
  "null_empty ob = map (\<lambda>p. (fst p, if snd p = JStr '''' then JNull else snd p)) ob"

definition common_fields :: "ChannelFormValues \<Rightarrow> string \<Rightarrow> json obj" where
  "common_fields f settings =
     [(''openai_organization'', str_null (fopenai_organization f)), (''models'', JStr (fmodels f)),
      (''group'', JStr (formatGroups (fgroup f))), (''model_mapping'', str_null (fmodel_mapping f)),
      (''priority'', int_null (fpriority f)), (''weight'', int_null (fweight f)),
      (''test_model'', str_null (ftest_model f)),
      (''auto_ban'', JNum (num_of_int (case fauto_ban f of None \<Rightarrow> 1 | Some b \<Rightarrow> b))),
      (''status'', int_json (fstatus f)), (''status_code_mapping'', str_null (fstatus_code_mapping f)),
      (''tag'', str_null (ftag f)), (''remark'', JStr (or_text (fremark f) '''')),
      (''setting'', JStr (buildSettingJSON f)), (''param_override'', str_null (fparam_override f)),
      (''header_override'', str_null (fheader_override f)), (''settings'', JStr settings),
      (''other'', JStr (or_text (fother f) ''''))]"

record CreatePayload =
  mode :: string
  cp_multi_key_mode :: "string option"
  cp_batch_prefix :: "bool option"
  cp_channel :: "json obj"

definition transformFormDataToCreatePayload :: "ChannelFormValues \<Rightarrow> CreatePayload option" where
  "transformFormDataToCreatePayload f =
     (let md = or_text (fmulti_key_mode f) ''single'' in
      map_option (\<lambda>settings.
        \<lparr>mode = md,
         cp_multi_key_mode = (if md = ''multi_to_single'' then fmulti_key_type f else None),
         cp_batch_prefix = (if md = ''batch'' then fbatch_prefix f else None),
         cp_channel = null_empty
           ([(''name'', JStr (fname f)), (''type'', JNum (num_of_int (ftype f))), (''base_url'', str_null (fbase_url f)),
             (''key'', JStr (fkey f))] @ common_fields f settings)\<rparr>)
        (buildSettingsJSON f))"

definition transformFormDataToUpdatePayload :: "ChannelFormValues \<Rightarrow> int \<Rightarrow> json obj option" where
  "transformFormDataToUpdatePayload f channelId =
     map_option (\<lambda>settings.
       (let payload = [(''id'', JNum (num_of_int channelId)), (''name'', JStr (fname f)),
              (''type'', JNum (num_of_int (ftype f))), (''base_url'', str_null (fbase_url f))] @ common_fields f settings;
            payload1 = (if fkey f \<noteq> [] \<and> trim (fkey f) \<noteq> [] then oput ''key'' (JStr (fkey f)) payload else payload)
        in null_empty payload1))
       (buildSettingsJSON f)"

subsection \<open>Facts: the settings object\<close>

lemma oget_put_if [simp]: "oget (put_if c k v ob) k' = (if k' = k then (if c then Some v else None) else oget ob k')"
  by (simp add: put_if_def)

text \<open>The properties an edit manages: for each its name, when the channel type has it, and the value it gets.\<close>

definition managed :: "ChannelFormValues \<Rightarrow> (string \<times> bool \<times> json) list" where
  "managed f =
     [(''vertex_key_type'', ftype f = 41, or_json (fvertex_key_type f) (JStr ''json'')),
      (''azure_responses_version'', ftype f = 3 \<and> truthy_json (fazure_responses_version f), or_json (fazure_responses_version f) JNull),
      (''openrouter_enterprise'', ftype f = 20, flag (fis_enterprise_account f)),
      (''aws_key_type'', ftype f = 33, or_json (faws_key_type f) (JStr ''ak_sk'')),
      (''allow_service_tier'', ftype f \<in> {1, 14}, flag (fallow_service_tier f)),
      (''disable_store'', ftype f = 1, flag (fdisable_store f)),
      (''allow_safety_identifier'', ftype f = 1, flag (fallow_safety_identifier f)),
      (''allow_include_obfuscation'', ftype f = 1, flag (fallow_include_obfuscation f)),
      (''allow_inference_geo'', ftype f \<in> {1, 14}, flag (fallow_inference_geo f)),
      (''allow_speed'', ftype f = 14, flag (fallow_speed f)),
      (''claude_beta_query'', ftype f = 14, flag (fclaude_beta_query f))]"

definition managed_upstream :: "ChannelFormValues \<Rightarrow> (string \<times> json) list" where
  "managed_upstream f =
     [(''upstream_model_update_check_enabled'', flag (fupdate_check_enabled f)),
      (''upstream_model_update_auto_sync_enabled'', flag (fupdate_auto_sync_enabled f))]"

lemma oget_provider:
  "oget (provider_settings f ob) k =
     (if k = ''aws_key_type'' then (if ftype f = 33 then Some (or_json (faws_key_type f) (JStr ''ak_sk'')) else None)
      else if k = ''openrouter_enterprise'' then (if ftype f = 20 then Some (flag (fis_enterprise_account f)) else None)
      else if k = ''azure_responses_version''
      then (if ftype f = 3 \<and> truthy_json (fazure_responses_version f) then Some (or_json (fazure_responses_version f) JNull) else None)
      else if k = ''vertex_key_type'' then (if ftype f = 41 then Some (or_json (fvertex_key_type f) (JStr ''json'')) else None)
      else oget ob k)"
proof -
  have "truthy_json (fazure_responses_version f) \<Longrightarrow>
    (case fazure_responses_version f of None \<Rightarrow> JNull | Some v \<Rightarrow> v) = or_json (fazure_responses_version f) JNull"
    by (auto simp: truthy_json_def or_json_def split: option.splits)
  then show ?thesis by (simp add: provider_settings_def)
qed

lemma oget_openai:
  "oget (openai_settings f ob) k =
     (if k = ''allow_service_tier'' then (if ftype f \<in> {1, 14} then Some (flag (fallow_service_tier f)) else None)
      else if k = ''disable_store'' then (if ftype f = 1 then Some (flag (fdisable_store f)) else None)
      else if k = ''allow_safety_identifier'' then (if ftype f = 1 then Some (flag (fallow_safety_identifier f)) else None)
      else if k = ''allow_include_obfuscation'' then (if ftype f = 1 then Some (flag (fallow_include_obfuscation f)) else None)
      else if k = ''allow_inference_geo''
      then (if ftype f = 1 then Some (flag (fallow_inference_geo f)) else if ftype f = 14 then oget ob k else None)
      else oget ob k)"
proof -
  consider "ftype f = 1" | "ftype f = 14" | "ftype f \<noteq> 1" "ftype f \<noteq> 14" by blast
  then show ?thesis by cases (simp_all add: openai_settings_def Let_def)
qed

lemma oget_anthropic:
  "oget (anthropic_settings f ob) k =
     (if k = ''claude_beta_query'' then (if ftype f = 14 then Some (flag (fclaude_beta_query f)) else None)
      else if k = ''allow_speed'' then (if ftype f = 14 then Some (flag (fallow_speed f)) else None)
      else if k = ''allow_inference_geo'' then (if ftype f = 14 then Some (flag (fallow_inference_geo f)) else oget ob k)
      else oget ob k)"
  by (cases "ftype f = 14") (simp_all add: anthropic_settings_def)

lemma oget_upstream:
  "oget (upstream_settings f ob) k =
     (if ftype f \<notin> set MODEL_FETCHABLE_TYPES then oget ob k
      else if k = ''upstream_model_update_auto_sync_enabled'' then Some (flag (fupdate_auto_sync_enabled f))
      else if k = ''upstream_model_update_check_enabled'' then Some (flag (fupdate_check_enabled f))
      else oget ob k)"
  by (simp add: upstream_settings_def)

lemmas oget_settings = edit_settings_def oget_upstream oget_anthropic oget_openai oget_provider

lemma edit_managed:
  "(k, c, v) \<in> set (managed f) \<Longrightarrow> oget (edit_settings f ob) k = (if c then Some v else None)"
  unfolding managed_def set_simps insert_iff empty_iff Pair_inject
  by (elim disjE conjE FalseE) (simp_all add: oget_settings)

lemma edit_upstream:
  "(k, v) \<in> set (managed_upstream f) \<Longrightarrow>
   oget (edit_settings f ob) k = (if ftype f \<in> set MODEL_FETCHABLE_TYPES then Some v else oget ob k)"
  unfolding managed_upstream_def set_simps insert_iff empty_iff Pair_inject
  by (elim disjE conjE FalseE) (simp_all add: oget_settings)

lemma edit_other:
  assumes "k \<notin> fst ` set (managed f)" "k \<notin> fst ` set (managed_upstream f)"
  shows "oget (edit_settings f ob) k = oget ob k"
  using assms by (simp add: managed_def managed_upstream_def oget_settings)

text \<open>
  The settings text of an edited channel. Every property that belongs to another channel type is removed, every one
  that belongs to this type has the value of the form, the two upstream-update flags are set for
  the types whose models can be fetched and left alone for the others, and every other property that was in the stored settings survives.
\<close>

theorem settings_by_type:
  "oget (edit_settings f ob) k =
     (case map_of (managed f) k of
        Some (c, v) \<Rightarrow> if c then Some v else None
      | None \<Rightarrow>
         (case map_of (managed_upstream f) k of
            Some v \<Rightarrow> if ftype f \<in> set MODEL_FETCHABLE_TYPES then Some v else oget ob k
          | None \<Rightarrow> oget ob k))"
proof (cases "map_of (managed f) k")
  case None
  show ?thesis
  proof (cases "map_of (managed_upstream f) k")
    case None
    then have "k \<notin> fst ` set (managed_upstream f)" "k \<notin> fst ` set (managed f)"
      using \<open>map_of (managed f) k = None\<close> by (simp_all only: map_of_eq_None_iff not_False_eq_True)
    then show ?thesis using None \<open>map_of (managed f) k = None\<close> by (simp add: edit_other)
  next
    case (Some v)
    then show ?thesis using \<open>map_of (managed f) k = None\<close> edit_upstream [OF map_of_SomeD [OF Some], of ob] by simp
  qed
next
  case (Some cv)
  obtain c v where cv: "cv = (c, v)" by (cases cv)
  show ?thesis using Some cv edit_managed [of k c v f ob] map_of_SomeD [OF Some] by simp
qed

subsection \<open>Facts: the payload\<close>

lemma oget_null_empty:
  "oget (null_empty ob) k = (case oget ob k of None \<Rightarrow> None | Some v \<Rightarrow> Some (if v = JStr '''' then JNull else v))"
  by (induction ob) (auto simp: null_empty_def)

lemma str_null_not_empty [simp]: "str_null v \<noteq> JStr ''''"
  by (auto simp: str_null_def split: option.splits)

lemma int_null_not_str [simp]: "int_null v \<noteq> JStr t" "int_json v \<noteq> JStr t"
  by (auto simp: int_null_def int_json_def split: option.splits)

lemma null_str [simp]: "(if str_null v = JStr '''' then JNull else str_null v) = str_null v"
  by simp

definition update_base :: "ChannelFormValues \<Rightarrow> int \<Rightarrow> string \<Rightarrow> json obj" where
  "update_base f i settings =
     [(''id'', JNum (num_of_int i)), (''name'', JStr (fname f)), (''type'', JNum (num_of_int (ftype f))),
      (''base_url'', str_null (fbase_url f))] @ common_fields f settings"

lemma update_payload_eq:
  "transformFormDataToUpdatePayload f i = map_option (\<lambda>st. null_empty
     (if fkey f \<noteq> [] \<and> trim (fkey f) \<noteq> [] then oput ''key'' (JStr (fkey f)) (update_base f i st) else update_base f i st))
     (buildSettingsJSON f)"
  unfolding transformFormDataToUpdatePayload_def update_base_def Let_def ..

lemma update_base_key: "oget (update_base f i st) ''key'' = None"
  by (simp add: update_base_def common_fields_def)

lemma oget_update:
  assumes "transformFormDataToUpdatePayload f i = Some P"
  obtains st where "buildSettingsJSON f = Some st"
    "\<And>k. oget P k = (if k = ''key'' then (if trim (fkey f) = [] then None else Some (JStr (fkey f)))
       else oget (null_empty (update_base f i st)) k)"
proof -
  from assms obtain st where st: "buildSettingsJSON f = Some st" and P: "P = null_empty
     (if fkey f \<noteq> [] \<and> trim (fkey f) \<noteq> [] then oput ''key'' (JStr (fkey f)) (update_base f i st) else update_base f i st)"
    by (auto simp: update_payload_eq)
  have "oget P k = (if k = ''key'' then (if trim (fkey f) = [] then None else Some (JStr (fkey f)))
       else oget (null_empty (update_base f i st)) k)" for k
    by (auto simp: P oget_null_empty update_base_key split: option.splits)
  with st show ?thesis by (rule that)
qed

text \<open>
  C29: a stored key never travels through the form. The form of an existing channel starts without a key, and an
  update carries a key exactly when a non-blank one was typed.
\<close>

theorem key_only_when_typed:
  assumes "transformChannelToFormDefaults ch = Some f" "transformFormDataToUpdatePayload (f\<lparr>fkey := typed\<rparr>) i = Some P"
  shows "fkey f = '''' \<and> oget P ''key'' = (if trim typed = '''' then None else Some (JStr typed))"
proof -
  have "fkey f = ''''" using assms(1) by (auto simp: transformChannelToFormDefaults_def Let_def split: option.splits)
  moreover have "oget P ''key'' = (if trim typed = [] then None else Some (JStr typed))"
    using oget_update [OF assms(2)] by (metis ChannelFormValues.select_convs(4) ChannelFormValues.update_convs(4) ChannelFormValues.surjective)
  ultimately show ?thesis by simp
qed

text \<open>
  Cleared and zero look like missing. A priority or weight of 0 and a cleared base URL, model mapping or tag are sent
  as null, the same payload as when the value is absent, so that the receiver cannot tell a value that was reset from one that was not given.
\<close>

theorem cleared_sent_as_null:
  "transformFormDataToUpdatePayload (f\<lparr>fpriority := Some 0, fweight := Some 0, fbase_url := Some '''', fmodel_mapping := Some '''', ftag := Some ''''\<rparr>) i
     = transformFormDataToUpdatePayload (f\<lparr>fpriority := None, fweight := None, fbase_url := None, fmodel_mapping := None, ftag := None\<rparr>) i
   \<and> int_null (Some 0) = JNull \<and> str_null (Some '''') = JNull"
proof -
  let ?g = "f\<lparr>fpriority := Some 0, fweight := Some 0, fbase_url := Some '''', fmodel_mapping := Some '''', ftag := Some ''''\<rparr>"
  let ?h = "f\<lparr>fpriority := None, fweight := None, fbase_url := None, fmodel_mapping := None, ftag := None\<rparr>"
  have s: "setting_obj ?g = setting_obj ?h" by (simp add: setting_obj_def)
  have b: "update_base ?g i st = update_base ?h i st" for st
    by (simp add: update_base_def common_fields_def s buildSettingJSON_def int_null_def str_null_def)
  have e: "edit_settings ?g ob = edit_settings ?h ob" for ob
    by (simp add: edit_settings_def upstream_settings_def anthropic_settings_def openai_settings_def provider_settings_def Let_def)
  have fs: "fsettings ?g = fsettings ?h" by simp
  have "buildSettingsJSON ?g = buildSettingsJSON ?h"
    unfolding buildSettingsJSON_def e fs ..
  moreover have "fkey ?g = fkey ?h" by simp
  ultimately have "transformFormDataToUpdatePayload ?g i = transformFormDataToUpdatePayload ?h i"
    unfolding update_payload_eq b by (simp only:)
  then show ?thesis by (simp only: int_null_def str_null_def option.case if_True simp_thms)
qed

definition demoEdited :: Channel where
  "demoEdited = (demoChannel (Some 1) (Some 0))\<lparr>channel_info := Some \<lparr>is_multi_key = False, multi_key_size = 0,
     multi_key_status_list = None, multi_key_mode = ''random''\<rparr>\<rparr>"

theorem key_only_when_typed_witness:
  "\<exists>f P. transformChannelToFormDefaults demoEdited = Some f \<and> fkey f = ''''
     \<and> transformFormDataToUpdatePayload (f\<lparr>fkey := ''sk''\<rparr>) 7 = Some P \<and> oget P ''key'' = Some (JStr ''sk'')"
proof -
  obtain f where f: "transformChannelToFormDefaults demoEdited = Some f" "fsettings f = Some ''{}''"
    by (simp add: transformChannelToFormDefaults_def demoEdited_def demoChannel_def Let_def or_text_def)
  then obtain P where P: "transformFormDataToUpdatePayload (f\<lparr>fkey := ''sk''\<rparr>) 7 = Some P"
    by (simp add: update_payload_eq buildSettingsJSON_def)
  have "trim ''sk'' \<noteq> ''''" by code_simp
  then show ?thesis using key_only_when_typed [OF f(1) P] f(1) P by auto
qed

subsection \<open>Facts: reading the texts back\<close>

lemma wf_put_if: "wf_json (JObj ob) \<Longrightarrow> \<not> is_index k \<Longrightarrow> wf_json v \<Longrightarrow> wf_json (JObj (put_if c k v ob))"
  unfolding put_if_def by (cases c) (auto simp del: wf_json.simps intro: wf_json_oput wf_json_odel)

definition wf_opt :: "json option \<Rightarrow> bool" where
  "wf_opt v \<longleftrightarrow> (case v of None \<Rightarrow> True | Some j \<Rightarrow> wf_json j)"

definition wf_form :: "ChannelFormValues \<Rightarrow> bool" where
  "wf_form f \<longleftrightarrow> wf_opt (fforce_format f) \<and> wf_opt (fthinking_to_content f) \<and> wf_opt (fproxy f)
     \<and> wf_opt (fpass_through_body_enabled f) \<and> wf_opt (fsystem_prompt f) \<and> wf_opt (fsystem_prompt_override f)
     \<and> wf_opt (fvertex_key_type f) \<and> wf_opt (faws_key_type f) \<and> wf_opt (fazure_responses_version f)"

lemma wf_or_json [simp]: "wf_opt v \<Longrightarrow> wf_json d \<Longrightarrow> wf_json (or_json v d)"
  by (auto simp: wf_opt_def or_json_def split: option.splits)

lemma wf_case_null: "wf_opt v \<Longrightarrow> wf_json (case v of None \<Rightarrow> JNull | Some j \<Rightarrow> j)"
  by (auto simp: wf_opt_def split: option.splits)

lemmas wf_steps = wf_put_if wf_json_oput wf_json_odel not_index_start

lemma wf_provider: "wf_form f \<Longrightarrow> wf_json (JObj ob) \<Longrightarrow> wf_json (JObj (provider_settings f ob))"
  unfolding provider_settings_def wf_form_def
  by (intro wf_put_if wf_case_null wf_or_json not_index_start) simp_all

lemma wf_edit: "wf_form f \<Longrightarrow> wf_json (JObj ob) \<Longrightarrow> wf_json (JObj (edit_settings f ob))"
proof -
  assume f: "wf_form f" and ob: "wf_json (JObj ob)"
  have o: "wf_json (JObj (openai_settings f b))" if "wf_json (JObj b)" for b
    unfolding openai_settings_def Let_def using that
    by (simp only: split: if_split, intro conjI impI) (intro wf_steps; simp)+
  have a: "wf_json (JObj (anthropic_settings f b))" if "wf_json (JObj b)" for b
    unfolding anthropic_settings_def using that
    by (simp only: split: if_split, intro conjI impI) (intro wf_steps; simp)+
  have b: "wf_json (JBool x)" for x by simp
  have u: "wf_json (JObj (upstream_settings f b))" if "wf_json (JObj b)" for b
    unfolding upstream_settings_def using that
    by (auto simp: not_index_start simp del: wf_json.simps intro!: wf_json_oput b)
  show ?thesis unfolding edit_settings_def by (rule u, rule a, rule o, rule wf_provider [OF f ob])
qed

lemma stored_stringify: "wf_json (JObj ob) \<Longrightarrow> stored_json (Some (stringify (JObj ob))) = JObj ob"
  using json_text.dec_enc [of "JObj ob"] by (simp add: stored_json_def del: wf_json.simps)

lemma wf_setting: "wf_form f \<Longrightarrow> wf_json (JObj (setting_obj f))"
  unfolding setting_obj_def wf_form_def by (rule wf_obj) simp_all

text \<open>
  What is saved is what the form shows next. For well-formed values, reading back the two texts that the form
  writes gives the six extra settings of the form (with the default for a missing or empty one) and, for every managed
  property, its value when the channel type has it and nothing otherwise.
\<close>

theorem saved_settings_read_back:
  assumes "wf_form f" "fsettings f = Some s" "json_parse s = Some (JObj ob)" "wf_json (JObj ob)" "s \<noteq> ''{}''"
    and "buildSettingsJSON f = Some st"
  shows "list_all (\<lambda>(k, c, v). jfield k (stored_json (Some st)) = (if c then Some v else None)) (managed f)
    \<and> stored_json (Some (buildSettingJSON f)) = JObj (setting_obj f)
    \<and> or_json (jfield ''proxy'' (stored_json (Some (buildSettingJSON f)))) (JStr '''') = or_json (fproxy f) (JStr '''')
    \<and> or_json (jfield ''system_prompt'' (stored_json (Some (buildSettingJSON f)))) (JStr '''') = or_json (fsystem_prompt f) (JStr '''')
    \<and> or_json (jfield ''force_format'' (stored_json (Some (buildSettingJSON f)))) (JBool False) = or_json (fforce_format f) (JBool False)"
proof -
  have "s \<noteq> []" using assms(3) by (auto simp: json_parse_def)
  then have "st = stringify (JObj (edit_settings f ob))"
    using assms(2,3,5,6) by (simp add: buildSettingsJSON_def del: stringify.simps)
  then have st: "stored_json (Some st) = JObj (edit_settings f ob)"
    using wf_edit [OF assms(1,4)] by (simp only: stored_stringify)
  have se: "stored_json (Some (buildSettingJSON f)) = JObj (setting_obj f)"
    unfolding buildSettingJSON_def by (rule stored_stringify) (rule wf_setting, fact)
  have idem: "or_json (Some (or_json v d)) d = or_json v d" for v d
    by (auto simp: or_json_def split: option.splits)
  have "list_all (\<lambda>(k, c, v). jfield k (stored_json (Some st)) = (if c then Some v else None)) (managed f)"
    unfolding list_all_iff st
  proof (rule ballI)
    fix x
    assume x: "x \<in> set (managed f)"
    obtain k c v where kcv: "x = (k, c, v)" by (cases x)
    show "case x of (k, c, v) \<Rightarrow> jfield k (JObj (edit_settings f ob)) = (if c then Some v else None)"
      using edit_managed [of k c v f ob] x by (simp add: kcv)
  qed
  then show ?thesis unfolding se by (simp add: setting_obj_def idem)
qed

definition demoForm :: ChannelFormValues where
  "demoForm = CHANNEL_FORM_DEFAULT_VALUES\<lparr>ftype := 20, fis_enterprise_account := Some True,
     fsettings := Some (stringify (JObj [(''x'', JNull), (''aws_key_type'', JStr ''api_key'')]))\<rparr>"

theorem saved_settings_read_back_witness:
  "\<exists>st. buildSettingsJSON demoForm = Some st \<and> jfield ''openrouter_enterprise'' (stored_json (Some st)) = Some (JBool True)
     \<and> jfield ''aws_key_type'' (stored_json (Some st)) = None"
proof -
  let ?ob = "[(''x'', JNull), (''aws_key_type'', JStr ''api_key'')]"
  have w: "wf_json (JObj ?ob)" by (rule wf_obj) (simp_all add: is_digit_def)
  have p: "json_parse (stringify (JObj ?ob)) = Some (JObj ?ob)" using w by (rule json_text.dec_enc)
  have s: "fsettings demoForm = Some (stringify (JObj ?ob))" "wf_form demoForm"
    by (simp_all add: demoForm_def CHANNEL_FORM_DEFAULT_VALUES_def wf_form_def wf_opt_def del: stringify.simps)
  have ne: "stringify (JObj ?ob) \<noteq> ''{}''" by (simp add: own_entries_id not_index_start is_digit_def quote_def)
  have "stringify (JObj ?ob) \<noteq> []" by simp
  with ne p s(1) obtain st where st: "buildSettingsJSON demoForm = Some st"
    by (simp add: buildSettingsJSON_def del: stringify.simps)
  have "list_all (\<lambda>(k, c, v). jfield k (stored_json (Some st)) = (if c then Some v else None)) (managed demoForm)"
    using saved_settings_read_back [OF s(2,1) p w ne st] by blast
  then show ?thesis using st
    by (simp add: managed_def demoForm_def CHANNEL_FORM_DEFAULT_VALUES_def)
qed

end
