(* ===== verification/BillingExpr.thy ===== *)
theory BillingExpr
  imports JsJsonFacts
begin

text \<open>
  Billing expressions (\<^verbatim>\<open>features/pricing/lib/billing-expr.ts\<close>): the variable registry, the parser and the builder of
  request rules, and the splitting and combining of the price expression with its rules. The anchored regular
  expressions of the source are scanners here: each of their groups ends at a character that
  the group cannot contain, so that there is one way to match. A parser returns \<open>Throws\<close> where
  \<open>JSON.parse\<close> on a matched literal throws, \<open>NoMatch\<close> for null.
\<close>

subsection \<open>Registry and constants\<close>

record BillingVar =
  vkey :: string
  vfield :: "string option"
  tierField :: "string option"
  label :: string
  shortLabel :: string
  side :: string
  isBase :: bool
  isConditionOnly :: bool
  vgroup :: "string option"

definition BILLING_VARS :: "BillingVar list" where
  "BILLING_VARS =
     [\<lparr>vkey = ''p'', vfield = Some ''inputPrice'', tierField = Some ''input_unit_cost'', label = ''Input price'', shortLabel = ''Input'', side = ''input'', isBase = True, isConditionOnly = False, vgroup = None\<rparr>,
      \<lparr>vkey = ''c'', vfield = Some ''outputPrice'', tierField = Some ''output_unit_cost'', label = ''Completion price'', shortLabel = ''Output'', side = ''output'', isBase = True, isConditionOnly = False, vgroup = None\<rparr>,
      \<lparr>vkey = ''len'', vfield = None, tierField = None, label = ''Input length'', shortLabel = ''Length'', side = ''condition'', isBase = False, isConditionOnly = True, vgroup = None\<rparr>,
      \<lparr>vkey = ''cr'', vfield = Some ''cacheReadPrice'', tierField = Some ''cache_read_unit_cost'', label = ''Cache read price'', shortLabel = ''Cache Read'', side = ''input'', isBase = False, isConditionOnly = False, vgroup = Some ''cache''\<rparr>,
      \<lparr>vkey = ''cc'', vfield = Some ''cacheCreatePrice'', tierField = Some ''cache_create_unit_cost'', label = ''Cache create price'', shortLabel = ''Cache Write'', side = ''input'', isBase = False, isConditionOnly = False, vgroup = Some ''cache''\<rparr>,
      \<lparr>vkey = ''cc1h'', vfield = Some ''cacheCreate1hPrice'', tierField = Some ''cache_create_1h_unit_cost'', label = ''Cache create (1h) price'', shortLabel = ''Cache Write (1h)'', side = ''input'', isBase = False, isConditionOnly = False, vgroup = Some ''cache''\<rparr>,
      \<lparr>vkey = ''img'', vfield = Some ''imagePrice'', tierField = Some ''image_unit_cost'', label = ''Image input price'', shortLabel = ''Image In'', side = ''input'', isBase = False, isConditionOnly = False, vgroup = Some ''media''\<rparr>,
      \<lparr>vkey = ''img_o'', vfield = Some ''imageOutputPrice'', tierField = Some ''image_output_unit_cost'', label = ''Image output price'', shortLabel = ''Image Out'', side = ''output'', isBase = False, isConditionOnly = False, vgroup = Some ''media''\<rparr>,
      \<lparr>vkey = ''ai'', vfield = Some ''audioInputPrice'', tierField = Some ''audio_input_unit_cost'', label = ''Audio input price'', shortLabel = ''Audio In'', side = ''input'', isBase = False, isConditionOnly = False, vgroup = Some ''media''\<rparr>,
      \<lparr>vkey = ''ao'', vfield = Some ''audioOutputPrice'', tierField = Some ''audio_output_unit_cost'', label = ''Audio output price'', shortLabel = ''Audio Out'', side = ''output'', isBase = False, isConditionOnly = False, vgroup = Some ''media''\<rparr>]"

definition BILLING_PRICING_VARS :: "BillingVar list" where
  "BILLING_PRICING_VARS = filter (\<lambda>v. \<not> isConditionOnly v) BILLING_VARS"

definition BILLING_CONDITION_VARS :: "string list" where
  "BILLING_CONDITION_VARS = map vkey (filter (\<lambda>v. isBase v \<or> isConditionOnly v) BILLING_VARS)"

definition BILLING_EXTRA_VARS :: "BillingVar list" where
  "BILLING_EXTRA_VARS = filter (\<lambda>v. \<not> isBase v \<and> \<not> isConditionOnly v) BILLING_VARS"

definition BILLING_CACHE_VAR_MAP :: "(string option \<times> string) list" where
  "BILLING_CACHE_VAR_MAP = map (\<lambda>v. (tierField v, vkey v)) BILLING_EXTRA_VARS"

definition MATCH_EQ :: string where "MATCH_EQ = ''eq''"
definition MATCH_CONTAINS :: string where "MATCH_CONTAINS = ''contains''"
definition MATCH_GT :: string where "MATCH_GT = ''gt''"
definition MATCH_GTE :: string where "MATCH_GTE = ''gte''"
definition MATCH_LT :: string where "MATCH_LT = ''lt''"
definition MATCH_LTE :: string where "MATCH_LTE = ''lte''"
definition MATCH_EXISTS :: string where "MATCH_EXISTS = ''exists''"
definition MATCH_RANGE :: string where "MATCH_RANGE = ''range''"

lemmas match_defs = MATCH_EQ_def MATCH_CONTAINS_def MATCH_GT_def MATCH_GTE_def MATCH_LT_def MATCH_LTE_def
  MATCH_EXISTS_def MATCH_RANGE_def

definition TIME_FUNCS :: "string list" where
  "TIME_FUNCS = [''hour'', ''minute'', ''weekday'', ''month'', ''day'']"

text \<open>\<open>SParam\<close> and \<open>SHeader\<close> are the sources of the first constructor; the second has the source time.\<close>

datatype Source = SParam | SHeader

datatype RequestCondition =
    ParamHeader Source (path: string) (cmode: string) (cvalue: string)
  | TimeCond (timeFunc: string) (timezone: string) (cmode: string) (cvalue: string) (rangeStart: string) (rangeEnd: string)

record RequestRuleGroup =
  conditions :: "RequestCondition list"
  multiplier :: string

subsection \<open>Scanners\<close>

abbreviation dquote :: char where
  "dquote \<equiv> CHR 0x22"

text \<open>The class \<open>[\d.eE+-]\<close>, a non-empty run of it, and a name in double quotes without a quote inside.\<close>

definition num_char :: "char \<Rightarrow> bool" where
  "num_char c \<longleftrightarrow> is_digit c \<or> c \<in> {CHR ''.'', CHR ''e'', CHR ''E'', CHR ''+'', CHR ''-''}"

definition num_run :: "string \<Rightarrow> (string \<times> string) option" where
  "num_run s = (let t = takeWhile num_char s in if t = [] then None else Some (t, dropWhile num_char s))"

definition until_quote :: "string \<Rightarrow> (string \<times> string) option" where
  "until_quote s =
     (let t = takeWhile (\<lambda>c. c \<noteq> dquote) s; r = dropWhile (\<lambda>c. c \<noteq> dquote) s
      in if t = [] \<or> r = [] then None else Some (t, tl r))"

text \<open>The rest of \<open>"(?:[^"\\]|\\.)*"\<close> after its first quote: the body as written, and what follows the closing quote.\<close>

fun scan_literal :: "string \<Rightarrow> (string \<times> string) option" where
  "scan_literal [] = None"
| "scan_literal (c # s) =
     (if c = dquote then Some ([], s)
      else if c = CHR 0x5C then
        (case s of
           [] \<Rightarrow> None
         | d # s' \<Rightarrow> if d = CHR 0x0A \<or> d = CHR 0x0D then None
                     else map_option (\<lambda>(t, r). (c # d # t, r)) (scan_literal s'))
      else map_option (\<lambda>(t, r). (c # t, r)) (scan_literal s))"

text \<open>\<open>/^-?(?:\d+\.?\d*|\.\d+)(?:[eE][+-]?\d+)?$/\<close>\<close>

definition exponent_ok :: "string \<Rightarrow> bool" where
  "exponent_ok s =
     (case s of
        [] \<Rightarrow> True
      | c # r \<Rightarrow> (c = CHR ''e'' \<or> c = CHR ''E'') \<and>
          (let ds = snd (opt_sign r) in ds \<noteq> [] \<and> list_all is_digit ds))"

definition is_numeric :: "string \<Rightarrow> bool" where
  "is_numeric s =
     (case span_digits (snd (opt_minus s)) of (ds, r) \<Rightarrow>
        if ds \<noteq> [] then
          exponent_ok (case strip_prefix ''.'' r of Some r' \<Rightarrow> snd (span_digits r') | None \<Rightarrow> r)
        else (case strip_prefix ''.'' r of
                None \<Rightarrow> False
              | Some r' \<Rightarrow> fst (span_digits r') \<noteq> [] \<and> exponent_ok (snd (span_digits r'))))"

subsection \<open>Splitting at the top level\<close>

definition step_depth :: "char \<Rightarrow> int \<Rightarrow> int" where
  "step_depth c d = (if c = CHR ''('' then d + 1 else if c = CHR '')'' then d - 1 else d)"

text \<open>The loop of both splitters: \<open>cur\<close> is the text from \<open>start\<close> to the current position.\<close>

function split_top :: "string \<Rightarrow> int \<Rightarrow> string \<Rightarrow> string \<Rightarrow> string list" where
  "split_top sep d cur [] = [trim cur]"
| "split_top sep d cur (c # s) =
     (let d' = step_depth c d in
      case (if d' = 0 \<and> sep \<noteq> [] then strip_prefix sep (c # s) else None) of
        Some r \<Rightarrow> trim cur # split_top sep d' [] r
      | None \<Rightarrow> split_top sep d' (cur @ [c]) s)"
  by pat_completeness auto
termination
  by (relation "measure (\<lambda>(sep, d, cur, s). length s)")
    (auto simp: strip_prefix_Some neq_Nil_conv split: if_splits)

definition splitTopLevelMultiply :: "string \<Rightarrow> string list" where
  "splitTopLevelMultiply expr = filter (\<lambda>p. p \<noteq> []) (split_top '' * '' 0 [] expr)"

definition splitTopLevelAnd :: "string \<Rightarrow> string list" where
  "splitTopLevelAnd expr = filter (\<lambda>p. p \<noteq> []) (split_top '' && '' 0 [] expr)"

subsection \<open>The parser\<close>

datatype 'a outcome = Throws | NoMatch | Match 'a

text \<open>The next alternative is tried when the one before does not match.\<close>

fun or_else :: "'a outcome \<Rightarrow> 'a outcome \<Rightarrow> 'a outcome" where
  "or_else NoMatch b = b"
| "or_else a b = a"

definition of_option :: "'a option \<Rightarrow> 'a outcome" where
  "of_option x = (case x of None \<Rightarrow> NoMatch | Some y \<Rightarrow> Match y)"

definition parseExprLiteral :: "string \<Rightarrow> json option" where
  "parseExprLiteral raw =
     (let text = trim raw in
      if text = ''true'' \<or> text = ''false'' then Some (JStr text)
      else if is_numeric text then Some (JStr text)
      else (case json_parse text of
              None \<Rightarrow> None
            | Some v \<Rightarrow> if v = JNull then None else Some v))"

text \<open>\<open>(hour|minute|weekday|month|day)\("([^"]+)"\)\<close>: the function, the time zone and the rest.\<close>

definition call_head :: "string \<Rightarrow> string \<Rightarrow> (string \<times> string) option" where
  "call_head name s =
     Option.bind (strip_prefix (name @ [CHR ''('', dquote]) s) (\<lambda>r.
     Option.bind (until_quote r) (\<lambda>(p, r1). map_option (\<lambda>r2. (p, r2)) (strip_prefix '')'' r1)))"

fun time_head :: "string list \<Rightarrow> string \<Rightarrow> (string \<times> string \<times> string) option" where
  "time_head [] s = None"
| "time_head (f # fs) s =
     (case call_head f s of
        None \<Rightarrow> time_head fs s
      | Some (tz, r) \<Rightarrow> Some (f, tz, r))"

definition match_range :: "string \<Rightarrow> string \<Rightarrow> RequestCondition option" where
  "match_range tail s =
     Option.bind (time_head TIME_FUNCS s) (\<lambda>(f, tz, r1).
     Option.bind (strip_prefix '' >= '' r1) (\<lambda>r2.
     Option.bind (num_run r2) (\<lambda>(a, r3).
     Option.bind (strip_prefix ('' || '' @ f @ [CHR ''('', dquote] @ tz @ [dquote] @ '') < '') r3) (\<lambda>r4.
     Option.bind (num_run r4) (\<lambda>(b, r5).
       if r5 = tail then Some (TimeCond f tz MATCH_RANGE '''' a b) else None)))))"

definition time_op :: "string \<Rightarrow> (string \<times> string) option" where
  "time_op s =
     (case strip_prefix ''== '' s of
        Some r \<Rightarrow> Some (MATCH_EQ, r)
      | None \<Rightarrow> (case strip_prefix ''>= '' s of
                   Some r \<Rightarrow> Some (MATCH_GTE, r)
                 | None \<Rightarrow> map_option (\<lambda>r. (MATCH_LT, r)) (strip_prefix ''< '' s)))"

definition match_compare :: "string \<Rightarrow> RequestCondition option" where
  "match_compare s =
     Option.bind (time_head TIME_FUNCS s) (\<lambda>(f, tz, r1).
     Option.bind (strip_prefix '' '' r1) (\<lambda>r2.
     Option.bind (time_op r2) (\<lambda>(md, r3).
     Option.bind (num_run r3) (\<lambda>(v, r4).
       if r4 = [] then Some (TimeCond f tz md v '''' '''') else None))))"

definition tryParseTimeCondition :: "string \<Rightarrow> RequestCondition option" where
  "tryParseTimeCondition expr =
     (case match_range '''' expr of
        Some c \<Rightarrow> Some c
      | None \<Rightarrow>
          (case Option.bind (strip_prefix ''('' expr) (match_range '')'') of
             Some c \<Rightarrow> Some c
           | None \<Rightarrow> match_compare expr))"

text \<open>A quoted literal, a closing parenthesis and the end; the literal is then given to \<open>JSON.parse\<close>.\<close>

definition literal_end :: "string \<Rightarrow> string option" where
  "literal_end s =
     Option.bind (strip_prefix [dquote] s) (\<lambda>r.
     Option.bind (scan_literal r) (\<lambda>(t, r1). if r1 = '')'' then Some (dquote # t @ [dquote]) else None))"

definition contains_outcome :: "Source \<Rightarrow> string \<times> string \<Rightarrow> RequestCondition outcome" where
  "contains_outcome src pl =
     (case json_parse (snd pl) of
        Some v \<Rightarrow> Match (ParamHeader src (fst pl) MATCH_CONTAINS (js_String v))
      | None \<Rightarrow> Throws)"

definition match_exists :: "string \<Rightarrow> string \<Rightarrow> string \<Rightarrow> string option" where
  "match_exists name tail s =
     Option.bind (call_head name s) (\<lambda>(p, r). if r = tail then Some p else None)"

definition match_header_contains :: "string \<Rightarrow> (string \<times> string) option" where
  "match_header_contains s =
     Option.bind (strip_prefix ''has('' s) (\<lambda>r.
     Option.bind (call_head ''header'' r) (\<lambda>(p, r1).
     Option.bind (strip_prefix '', '' r1) (\<lambda>r2. map_option (\<lambda>lit. (p, lit)) (literal_end r2))))"

definition match_param_contains :: "string \<Rightarrow> (string \<times> string) option" where
  "match_param_contains s =
     Option.bind (call_head ''param'' s) (\<lambda>(p, r).
     Option.bind (strip_prefix '' != nil && has('' r) (\<lambda>r1.
     Option.bind (call_head ''param'' r1) (\<lambda>(q, r2).
     Option.bind (strip_prefix '', '' r2) (\<lambda>r3.
     Option.bind (literal_end r3) (\<lambda>lit. if p = q then Some (p, lit) else None)))))"

definition num_op :: "string \<Rightarrow> (string \<times> string) option" where
  "num_op s =
     (case strip_prefix ''> '' s of
        Some r \<Rightarrow> Some (MATCH_GT, r)
      | None \<Rightarrow> (case strip_prefix ''>= '' s of
          Some r \<Rightarrow> Some (MATCH_GTE, r)
        | None \<Rightarrow> (case strip_prefix ''< '' s of
            Some r \<Rightarrow> Some (MATCH_LT, r)
          | None \<Rightarrow> map_option (\<lambda>r. (MATCH_LTE, r)) (strip_prefix ''<= '' s))))"

definition match_param_compare :: "string \<Rightarrow> RequestCondition option" where
  "match_param_compare s =
     Option.bind (call_head ''param'' s) (\<lambda>(p, r).
     Option.bind (strip_prefix '' != nil && '' r) (\<lambda>r1.
     Option.bind (call_head ''param'' r1) (\<lambda>(q, r2).
     Option.bind (strip_prefix '' '' r2) (\<lambda>r3.
     Option.bind (num_op r3) (\<lambda>(md, r4).
     Option.bind (num_run r4) (\<lambda>(v, r5).
       if r5 = [] \<and> p = q then Some (ParamHeader SParam p md v) else None))))))"

text \<open>\<open>(param|header)\("([^"]+)"\) == (.+)\<close>, the dot being any character but a line end.\<close>

definition match_equals :: "string \<Rightarrow> (Source \<times> string \<times> string) option" where
  "match_equals s =
     Option.bind (case call_head ''param'' s of
                    Some (p, r) \<Rightarrow> Some (SParam, p, r)
                  | None \<Rightarrow> map_option (\<lambda>(p, r). (SHeader, p, r)) (call_head ''header'' s)) (\<lambda>(src, p, r).
     Option.bind (strip_prefix '' == '' r) (\<lambda>v.
       if v \<noteq> [] \<and> CHR 0x0A \<notin> set v \<and> CHR 0x0D \<notin> set v then Some (src, p, v) else None))"

definition equals_outcome :: "string \<Rightarrow> RequestCondition outcome" where
  "equals_outcome s =
     (case match_equals s of
        None \<Rightarrow> NoMatch
      | Some (src, p, v) \<Rightarrow>
          (case parseExprLiteral v of
             None \<Rightarrow> NoMatch
           | Some parsedValue \<Rightarrow> Match (ParamHeader src p MATCH_EQ (js_String parsedValue))))"

definition tryParseRequestCondition :: "string \<Rightarrow> RequestCondition outcome" where
  "tryParseRequestCondition expr =
     or_else (of_option (tryParseTimeCondition expr))
    (or_else (of_option (map_option (\<lambda>p. ParamHeader SHeader p MATCH_EXISTS '''')
                (match_exists ''header'' ('' != '' @ [dquote, dquote]) expr)))
    (or_else (of_option (map_option (\<lambda>p. ParamHeader SParam p MATCH_EXISTS '''') (match_exists ''param'' '' != nil'' expr)))
    (or_else (case match_header_contains expr of None \<Rightarrow> NoMatch | Some pl \<Rightarrow> contains_outcome SHeader pl)
    (or_else (case match_param_contains expr of None \<Rightarrow> NoMatch | Some pl \<Rightarrow> contains_outcome SParam pl)
    (or_else (of_option (match_param_compare expr))
      (equals_outcome expr))))))"

text \<open>\<open>/^\((.+) \? ([\d.eE+-]+) : 1\)$/s\<close>: the number before the fixed end is read backwards.\<close>

definition match_factor :: "string \<Rightarrow> (string \<times> string) option" where
  "match_factor part =
     Option.bind (strip_prefix ''('' part) (\<lambda>s.
     Option.bind (strip_prefix (rev '' : 1)'') (rev s)) (\<lambda>r.
     Option.bind (num_run r) (\<lambda>(n, r1).
     Option.bind (strip_prefix (rev '' ? '') r1) (\<lambda>c.
       if c = [] then None else Some (rev c, rev n)))))"

text \<open>All of a list of outcomes, in order: the first that is no match decides.\<close>

fun all_match :: "'a outcome list \<Rightarrow> 'a list outcome" where
  "all_match [] = Match []"
| "all_match (a # as) =
     (case a of
        Throws \<Rightarrow> Throws
      | NoMatch \<Rightarrow> NoMatch
      | Match x \<Rightarrow> (case all_match as of Throws \<Rightarrow> Throws | NoMatch \<Rightarrow> NoMatch | Match xs \<Rightarrow> Match (x # xs)))"

definition tryParseRuleGroupFactor :: "string \<Rightarrow> RequestRuleGroup outcome" where
  "tryParseRuleGroupFactor part =
     (case match_factor part of
        None \<Rightarrow> NoMatch
      | Some (conditionStr, m) \<Rightarrow>
          (case all_match (map (\<lambda>ap. tryParseRequestCondition (trim ap)) (splitTopLevelAnd conditionStr)) of
             Throws \<Rightarrow> Throws
           | NoMatch \<Rightarrow> NoMatch
           | Match cs \<Rightarrow> if cs = [] then NoMatch else Match \<lparr>conditions = cs, multiplier = m\<rparr>))"

definition tryParseRequestRuleExpr :: "string \<Rightarrow> RequestRuleGroup list outcome" where
  "tryParseRequestRuleExpr expr =
     (let trimmed = trim expr in
      if trimmed = [] then Match []
      else all_match (map tryParseRuleGroupFactor (splitTopLevelMultiply trimmed)))"

subsection \<open>Splitting off and combining the rules\<close>

text \<open>The depth after each character but the last must not be 0, and be 0 at the end.\<close>

fun parens_loop :: "int \<Rightarrow> string \<Rightarrow> bool" where
  "parens_loop d [] = (d = 0)"
| "parens_loop d (c # s) =
     (let d' = step_depth c d in if d' = 0 \<and> s \<noteq> [] then False else parens_loop d' s)"

definition hasFullOuterParens :: "string \<Rightarrow> bool" where
  "hasFullOuterParens expr =
     (if \<not> starts_with ''('' expr \<or> \<not> ends_with '')'' expr then False else parens_loop 0 expr)"

function unwrap_loop :: "string \<Rightarrow> string" where
  "unwrap_loop current =
     (if hasFullOuterParens current then unwrap_loop (trim (butlast (tl current))) else current)"
  by pat_completeness auto
termination
proof (relation "measure length", simp)
  fix current
  assume "hasFullOuterParens current"
  then have ne: "current \<noteq> []" by (auto simp: hasFullOuterParens_def starts_with_def split: if_splits)
  have "length (trim (butlast (tl current))) \<le> length (butlast (tl current))" by (rule length_trim)
  also have "\<dots> < length current" using ne by (cases current) (simp_all add: less_Suc_eq_le)
  finally show "(trim (butlast (tl current)), current) \<in> measure length" by simp
qed

declare unwrap_loop.simps [simp del]

definition unwrapOuterParens :: "string \<Rightarrow> string" where
  "unwrapOuterParens expr = unwrap_loop (trim expr)"

record SplitExpr =
  billingExpr :: string
  requestRuleExpr :: string

text \<open>A part is a rule when it parses to at least one group.\<close>

definition is_rule :: "string \<Rightarrow> bool outcome" where
  "is_rule part =
     (case tryParseRequestRuleExpr part of Throws \<Rightarrow> Throws | NoMatch \<Rightarrow> Match False | Match gs \<Rightarrow> Match (gs \<noteq> []))"

definition splitBillingExprAndRequestRules :: "string \<Rightarrow> SplitExpr outcome" where
  "splitBillingExprAndRequestRules expr =
     (let trimmed = trim expr; parts = splitTopLevelMultiply trimmed;
          whole = \<lparr>billingExpr = trimmed, requestRuleExpr = ''''\<rparr>
      in if trimmed = [] then Match \<lparr>billingExpr = '''', requestRuleExpr = ''''\<rparr>
         else if length parts \<le> 1 then Match whole
         else (case all_match (map is_rule parts) of
                 Throws \<Rightarrow> Throws
               | NoMatch \<Rightarrow> NoMatch
               | Match bs \<Rightarrow>
                  (let ruleParts = map fst (filter snd (zip parts bs));
                       baseParts = map fst (filter (\<lambda>p. \<not> snd p) (zip parts bs))
                   in if ruleParts = [] \<or> length baseParts \<noteq> 1 then Match whole
                      else Match \<lparr>billingExpr = unwrapOuterParens (hd baseParts),
                                  requestRuleExpr = join '' * '' ruleParts\<rparr>)))"

definition combineBillingExpr :: "string \<Rightarrow> string \<Rightarrow> string" where
  "combineBillingExpr baseExpr ruleExpr =
     (let base = trim baseExpr; rules = trim ruleExpr in
      if base = [] then '''' else if rules = [] then base
      else ''('' @ base @ '') * '' @ rules)"

subsection \<open>The editor\<close>

definition createEmptyCondition :: RequestCondition where
  "createEmptyCondition = ParamHeader SParam '''' MATCH_EQ ''''"

definition createEmptyTimeCondition :: RequestCondition where
  "createEmptyTimeCondition = TimeCond ''hour'' ''Asia/Shanghai'' MATCH_GTE '''' '''' ''''"

definition createEmptyRuleGroup :: RequestRuleGroup where
  "createEmptyRuleGroup = \<lparr>conditions = [createEmptyCondition], multiplier = ''''\<rparr>"

definition createEmptyTimeRuleGroup :: RequestRuleGroup where
  "createEmptyTimeRuleGroup = \<lparr>conditions = [createEmptyTimeCondition], multiplier = ''''\<rparr>"

text \<open>The options of a source, as pairs of value and label.\<close>

definition getRequestRuleMatchOptions :: "string \<Rightarrow> (string \<times> string) list" where
  "getRequestRuleMatchOptions source =
     (if source = ''time'' then
        [(MATCH_EQ, ''Equals''), (MATCH_GTE, ''Greater than or equal''), (MATCH_LT, ''Less than''),
         (MATCH_RANGE, ''Overnight range'')]
      else
        (let base = [(MATCH_EQ, ''Equals''), (MATCH_CONTAINS, ''Contains''), (MATCH_EXISTS, ''Exists'')] in
         if source = ''header'' then base
         else base @ [(MATCH_GT, ''Greater than''), (MATCH_GTE, ''Greater than or equal''), (MATCH_LT, ''Less than''),
                      (MATCH_LTE, ''Less than or equal'')]))"

text \<open>A partial condition: any field may be missing (or null).\<close>

record PartialCondition =
  pSource :: "string option"
  pTimeFunc :: "string option"
  pTimezone :: "string option"
  pPath :: "string option"
  pMode :: "string option"
  pValue :: "string option"
  pRangeStart :: "string option"
  pRangeEnd :: "string option"

definition opt_text :: "string option \<Rightarrow> string" where
  "opt_text x = (case x of None \<Rightarrow> '''' | Some t \<Rightarrow> t)"

definition pick_mode :: "string \<Rightarrow> string option \<Rightarrow> string \<Rightarrow> string" where
  "pick_mode source md dflt =
     (case md of None \<Rightarrow> dflt
      | Some m \<Rightarrow> if m \<in> fst ` set (getRequestRuleMatchOptions source) then m else dflt)"

definition isTimeFunc :: "string option \<Rightarrow> bool" where
  "isTimeFunc v \<longleftrightarrow> (case v of None \<Rightarrow> False | Some f \<Rightarrow> f \<in> set TIME_FUNCS)"

definition normalizeCondition :: "PartialCondition \<Rightarrow> RequestCondition" where
  "normalizeCondition c =
     (if pSource c = Some ''time''
      then TimeCond (if isTimeFunc (pTimeFunc c) then opt_text (pTimeFunc c) else ''hour'')
             (if opt_text (pTimezone c) = '''' then ''Asia/Shanghai'' else opt_text (pTimezone c))
             (pick_mode ''time'' (pMode c) MATCH_GTE)
             (opt_text (pValue c)) (opt_text (pRangeStart c)) (opt_text (pRangeEnd c))
      else if pSource c = Some ''header''
      then ParamHeader SHeader (opt_text (pPath c)) (pick_mode ''header'' (pMode c) MATCH_EQ) (opt_text (pValue c))
      else ParamHeader SParam (opt_text (pPath c)) (pick_mode ''param'' (pMode c) MATCH_EQ) (opt_text (pValue c)))"

fun partial_of :: "RequestCondition \<Rightarrow> PartialCondition" where
  "partial_of (ParamHeader src p md v) =
     \<lparr>pSource = Some (if src = SParam then ''param'' else ''header''), pTimeFunc = None, pTimezone = None, pPath = Some p,
      pMode = Some md, pValue = Some v, pRangeStart = None, pRangeEnd = None\<rparr>"
| "partial_of (TimeCond f tz md v a b) =
     \<lparr>pSource = Some ''time'', pTimeFunc = Some f, pTimezone = Some tz, pPath = None, pMode = Some md, pValue = Some v,
      pRangeStart = Some a, pRangeEnd = Some b\<rparr>"

definition buildExprLiteral :: "string \<Rightarrow> string \<Rightarrow> string" where
  "buildExprLiteral md v =
     (let text = trim v in
      if md = MATCH_CONTAINS then quote text
      else if text = ''true'' \<or> text = ''false'' then text
      else if is_numeric text then text
      else quote text)"

definition time_op_text :: "string \<Rightarrow> string" where
  "time_op_text md = (if md = MATCH_GTE then ''>='' else if md = MATCH_LT then ''<'' else ''=='')"

definition num_op_text :: "string \<Rightarrow> string" where
  "num_op_text md = (if md = MATCH_GT then ''>'' else if md = MATCH_GTE then ''>='' else if md = MATCH_LT then ''<'' else ''<='')"

text \<open>The text of a normalized condition; the empty text stands for a condition that cannot be built.\<close>

fun condition_text :: "RequestCondition \<Rightarrow> string" where
  "condition_text (TimeCond f tz md v a b) =
     (let fn = f @ ''('' @ quote tz @ '')'' in
      if md = MATCH_RANGE
      then (let s = trim a; e = trim b in
            if \<not> is_numeric s \<or> \<not> is_numeric e then ''''
            else fn @ '' >= '' @ s @ '' || '' @ fn @ '' < '' @ e)
      else (let n = trim v in
            if \<not> is_numeric n then '''' else fn @ '' '' @ time_op_text md @ '' '' @ n))"
| "condition_text (ParamHeader src p0 md v) =
     (let p = trim p0; se = (if src = SHeader then ''header('' else ''param('') @ quote p @ '')'' in
      if p = [] then ''''
      else if md = MATCH_EXISTS then (if src = SHeader then se @ '' != '' @ [dquote, dquote] else se @ '' != nil'')
      else if md = MATCH_CONTAINS then
        (if src = SHeader then ''has('' @ se @ '', '' @ buildExprLiteral md v @ '')''
         else se @ '' != nil && has('' @ se @ '', '' @ buildExprLiteral md v @ '')'')
      else if md \<in> {MATCH_GT, MATCH_GTE, MATCH_LT, MATCH_LTE} then
        (if \<not> is_numeric (trim v) then ''''
         else se @ '' != nil && '' @ se @ '' '' @ num_op_text md @ '' '' @ trim v)
      else se @ '' == '' @ buildExprLiteral md v)"

definition buildRequestConditionExpr :: "RequestCondition \<Rightarrow> string" where
  "buildRequestConditionExpr c = condition_text (normalizeCondition (partial_of c))"

definition wrap_or :: "string \<Rightarrow> string" where
  "wrap_or e = (if str_includes '' || '' e then ''('' @ e @ '')'' else e)"

definition buildRuleGroupFactor :: "RequestRuleGroup \<Rightarrow> string" where
  "buildRuleGroupFactor g =
     (let m = trim (multiplier g);
          condExprs = filter (\<lambda>e. e \<noteq> []) (map buildRequestConditionExpr (conditions g))
      in if \<not> is_numeric m then ''''
         else if condExprs = [] then ''''
         else ''('' @ (if length condExprs = 1 then hd condExprs else join '' && '' (map wrap_or condExprs))
                @ '' ? '' @ m @ '' : 1)'')"

definition buildRequestRuleExpr :: "RequestRuleGroup list \<Rightarrow> string" where
  "buildRequestRuleExpr groups = join '' * '' (filter (\<lambda>e. e \<noteq> []) (map buildRuleGroupFactor groups))"

end
