(* ===== verification/BillingRules.thy ===== *)
theory BillingRules
  imports BillingExpr
begin

text \<open>
  Properties of \<open>BillingExpr\<close>: what the rule editor builds is read back, the split undoes the combination, and where
  both fail. The lemmas follow the texts: literals, names in calls, conditions, factors, products.
\<close>

subsection \<open>Literals and names\<close>

lemma num_char_not:
  "num_char c \<Longrightarrow> c \<noteq> CHR '' '' \<and> c \<noteq> CHR ''('' \<and> c \<noteq> CHR '')'' \<and> c \<noteq> CHR ''&'' \<and> c \<noteq> CHR ''|'' \<and> c \<noteq> dquote \<and> \<not> is_ws c"
  by (auto simp: num_char_def is_digit_def is_ws_def)

lemma digit_num_char: "is_digit c \<Longrightarrow> num_char c"
  by (simp add: num_char_def)

lemma num_char_marks [simp]:
  "num_char CHR ''.''" "num_char CHR ''e''" "num_char CHR ''E''" "num_char CHR ''+''" "num_char CHR ''-''"
  by (simp_all add: num_char_def)

lemma num_char_end [simp]: "\<not> num_char CHR '' ''" "\<not> num_char CHR '')''"
  by (simp_all add: num_char_def is_digit_def)

lemma set_opt_minus: "c \<in> set s \<Longrightarrow> c = CHR ''-'' \<or> c \<in> set (snd (opt_minus s))"
  by (cases s) (auto simp: opt_minus_def)

lemma set_opt_sign: "c \<in> set s \<Longrightarrow> c = CHR ''+'' \<or> c = CHR ''-'' \<or> c \<in> set (snd (opt_sign s))"
  using set_opt_minus [of c s] by (cases s) (auto simp: opt_sign_def)

lemma set_span_digits: "c \<in> set s \<Longrightarrow> is_digit c \<or> c \<in> set (snd (span_digits s))"
  by (induction s) (auto simp: span_digits_def)

lemma exponent_chars: "exponent_ok s \<Longrightarrow> c \<in> set s \<Longrightarrow> num_char c"
proof (cases s)
  case (Cons d r)
  assume e: "exponent_ok s" and c: "c \<in> set s"
  have all: "\<forall>x \<in> set (snd (opt_sign r)). num_char x"
    using e Cons digit_num_char by (simp add: exponent_ok_def Let_def list_all_iff)
  have "num_char d" using e Cons by (auto simp: exponent_ok_def)
  then show ?thesis using c Cons set_opt_sign [of c r] all by auto
qed simp

lemma numeric_chars:
  assumes n: "is_numeric s" and c: "c \<in> set s"
  shows "num_char c"
proof -
  define t where "t = snd (opt_minus s)"
  define r where "r = snd (span_digits t)"
  have num: "is_numeric s = (if fst (span_digits t) \<noteq> [] then
          exponent_ok (case strip_prefix ''.'' r of Some r' \<Rightarrow> snd (span_digits r') | None \<Rightarrow> r)
        else (case strip_prefix ''.'' r of None \<Rightarrow> False
              | Some r' \<Rightarrow> fst (span_digits r') \<noteq> [] \<and> exponent_ok (snd (span_digits r'))))"
    unfolding is_numeric_def t_def r_def by (simp add: case_prod_unfold)
  have tail: "num_char x" if x: "x \<in> set r" for x
  proof (cases "strip_prefix ''.'' r")
    case None
    then have "exponent_ok r" using n num by (simp split: if_splits)
    then show ?thesis using x by (rule exponent_chars)
  next
    case (Some r')
    then have "exponent_ok (snd (span_digits r'))" using n num by (simp split: if_splits)
    then have "num_char y" if "y \<in> set r'" for y
      using set_span_digits [OF that] exponent_chars digit_num_char by blast
    moreover have "r = CHR ''.'' # r'" using Some by (simp add: strip_prefix_Some)
    ultimately show ?thesis using x by auto
  qed
  have "num_char x" if x: "x \<in> set t" for x
    using set_span_digits [OF x] tail digit_num_char unfolding r_def by blast
  then show ?thesis using set_opt_minus [OF c] num_char_marks unfolding t_def by blast
qed

lemma numeric_nonempty: "is_numeric s \<Longrightarrow> s \<noteq> []"
  by (auto simp: is_numeric_def opt_minus_def span_digits_def)

lemma numeric_trim [simp]: "is_numeric s \<Longrightarrow> trim s = s"
proof (rule trim_id)
  assume n: "is_numeric s"
  have "\<not> is_ws c" if "c \<in> set s" for c using numeric_chars [OF n that] num_char_not by blast
  then show "trimmed s" using numeric_nonempty [OF n] by (simp add: trimmed_by_def)
qed

lemma takeWhile_stop: "\<forall>c \<in> set n. P c \<Longrightarrow> r = [] \<or> \<not> P (hd r) \<Longrightarrow> takeWhile P (n @ r) = n \<and> dropWhile P (n @ r) = r"
  by (induction n) (cases r; simp)+

lemma num_run_append:
  assumes n: "is_numeric n" and r: "r = [] \<or> \<not> num_char (hd r)"
  shows "num_run (n @ r) = Some (n, r)"
proof -
  have "\<forall>c \<in> set n. num_char c" using numeric_chars [OF n] by blast
  from takeWhile_stop [OF this r] numeric_nonempty [OF n] show ?thesis by (simp add: num_run_def)
qed

lemma num_run_end: "is_numeric n \<Longrightarrow> num_run n = Some (n, [])"
  using num_run_append [of n "[]"] by simp

text \<open>Texts without a parenthesis, an ampersand or a bar, and names that need no escaping.\<close>

definition calm :: "string \<Rightarrow> bool" where
  "calm s \<longleftrightarrow> (\<forall>c \<in> set s. c \<notin> {CHR ''('', CHR '')'', CHR ''&'', CHR ''|''})"

definition plain :: "string \<Rightarrow> bool" where
  "plain s \<longleftrightarrow> s \<noteq> [] \<and> calm s \<and> (\<forall>c \<in> set s. c \<noteq> dquote \<and> c \<noteq> CHR 0x5C \<and> 32 \<le> (of_char c :: nat))"

lemma calm_append [simp]: "calm (s @ t) \<longleftrightarrow> calm s \<and> calm t"
  by (auto simp: calm_def)

lemma calm_Cons [simp]: "calm (c # t) \<longleftrightarrow> c \<notin> {CHR ''('', CHR '')'', CHR ''&'', CHR ''|''} \<and> calm t"
  by (auto simp: calm_def)

lemma calm_Nil [simp]: "calm []"
  by (simp add: calm_def)

lemma calm_numeric [simp]: "is_numeric s \<Longrightarrow> calm s"
  using numeric_chars num_char_not unfolding calm_def by blast

lemma hex_safe: "d < 16 \<Longrightarrow> hex_char d \<notin> {CHR ''('', CHR '')'', CHR ''&'', CHR ''|'', CHR 0x0A, CHR 0x0D, dquote, CHR 0x5C}"
proof -
  assume d: "d < 16"
  have "\<forall>d \<in> set [0..<16]. hex_char d \<notin> {CHR ''('', CHR '')'', CHR ''&'', CHR ''|'', CHR 0x0A, CHR 0x0D, dquote, CHR 0x5C}" by code_simp
  with d show ?thesis by simp
qed

lemma esc_char_safe: "c \<in> set (esc_char x) \<Longrightarrow> c \<notin> {CHR ''('', CHR '')'', CHR ''&'', CHR ''|''} - {x} \<and> c \<notin> {CHR 0x0A, CHR 0x0D}"
proof -
  assume c: "c \<in> set (esc_char x)"
  show ?thesis
  proof (cases "of_char x < (32 :: nat)")
    case True
    then have "hex_char (of_char x div 16) \<notin> {CHR ''('', CHR '')'', CHR ''&'', CHR ''|'', CHR 0x0A, CHR 0x0D, dquote, CHR 0x5C}"
      "hex_char (of_char x mod 16) \<notin> {CHR ''('', CHR '')'', CHR ''&'', CHR ''|'', CHR 0x0A, CHR 0x0D, dquote, CHR 0x5C}"
      using hex_safe [of "of_char x div 16"] hex_safe [of "of_char x mod 16"] by simp_all
    with c show ?thesis unfolding esc_char_def by (auto split: if_splits)
  next
    case False
    with c show ?thesis unfolding esc_char_def by (auto split: if_splits)
  qed
qed

lemma calm_quote [simp]: "calm s \<Longrightarrow> calm (quote s)"
proof -
  assume s: "calm s"
  have "calm (esc_char x)" if "x \<in> set s" for x
    using esc_char_safe [of _ x] that s unfolding calm_def by blast
  then have "calm (concat (map esc_char s))" unfolding calm_def by auto
  then show ?thesis by (simp add: quote_def)
qed

lemma no_line_end_quote: "CHR 0x0A \<notin> set (quote s)" "CHR 0x0D \<notin> set (quote s)"
proof -
  have "c \<notin> set (concat (map esc_char s))" if "c = CHR 0x0A \<or> c = CHR 0x0D" for c
    using esc_char_safe [of c] that by auto
  then show "CHR 0x0A \<notin> set (quote s)" "CHR 0x0D \<notin> set (quote s)" by (simp_all add: quote_def)
qed

lemma plain_calm: "plain p \<Longrightarrow> calm p"
  by (simp add: plain_def)

lemma quote_plain: "plain p \<Longrightarrow> quote p = dquote # p @ [dquote]"
proof -
  assume p: "plain p"
  have "\<forall>c \<in> set s. c \<noteq> dquote \<and> c \<noteq> CHR 0x5C \<and> 32 \<le> (of_char c :: nat) \<Longrightarrow> concat (map esc_char s) = s" for s
  proof (induction s)
    case (Cons c s)
    have "esc_char c = [c]" if "c \<noteq> dquote" "c \<noteq> CHR 0x5C" "32 \<le> (of_char c :: nat)"
    proof -
      have "c \<notin> {CHR 0x08, CHR 0x09, CHR 0x0A, CHR 0x0C, CHR 0x0D}" using that(3) by auto
      with that show ?thesis by (simp add: esc_char_def)
    qed
    with Cons show ?case by simp
  qed simp
  with p have "concat (map esc_char p) = p" unfolding plain_def by blast
  then show ?thesis by (simp add: quote_def)
qed

lemma until_quote_append: "plain p \<Longrightarrow> until_quote (p @ dquote # r) = Some (p, r)"
proof -
  assume p: "plain p"
  then have "\<forall>c \<in> set p. c \<noteq> dquote" by (simp add: plain_def)
  from takeWhile_stop [OF this, of "dquote # r"] p show ?thesis by (simp add: until_quote_def plain_def)
qed

text \<open>A call with a quoted name, the name unfolded, and the text of a call of \<open>name\<close> on \<open>p\<close>.\<close>

definition call_text :: "string \<Rightarrow> string \<Rightarrow> string" where
  "call_text name p = name @ CHR ''('' # quote p @ [CHR '')'']"

lemma call_head_same: "plain p \<Longrightarrow> call_head name (call_text name p @ r) = Some (p, r)"
proof -
  assume p: "plain p"
  have "call_text name p @ r = (name @ [CHR ''('', dquote]) @ (p @ dquote # CHR '')'' # r)"
    by (simp add: quote_plain [OF p] call_text_def)
  then have "strip_prefix (name @ [CHR ''('', dquote]) (call_text name p @ r) = Some (p @ dquote # CHR '')'' # r)"
    by (simp only: strip_prefix_append)
  then show ?thesis by (simp add: call_head_def until_quote_append [OF p])
qed

lemma call_head_other:
  assumes "CHR ''('' \<notin> set name" "CHR ''('' \<notin> set other" "other \<noteq> name"
  shows "call_head name (other @ CHR ''('' # r) = None"
proof -
  have "strip_prefix (name @ [CHR ''('', dquote]) (other @ CHR ''('' # r) = None"
    using assms
  proof (induction name arbitrary: other)
    case Nil
    then show ?case by (cases other) auto
  next
    case (Cons c name)
    then show ?case by (cases other) auto
  qed
  then show ?thesis by (simp add: call_head_def)
qed

lemma call_head_call: 
  "CHR ''('' \<notin> set name \<Longrightarrow> CHR ''('' \<notin> set other \<Longrightarrow> other \<noteq> name \<Longrightarrow> call_head name (call_text other p @ r) = None"
  by (simp add: call_text_def call_head_other)

lemma time_funcs_no_paren: "f \<in> set TIME_FUNCS \<Longrightarrow> CHR ''('' \<notin> set f"
  by (auto simp: TIME_FUNCS_def)

lemma time_head_in:
  "f \<in> set fs \<Longrightarrow> \<forall>g \<in> set fs. CHR ''('' \<notin> set g \<Longrightarrow> plain tz \<Longrightarrow> time_head fs (call_text f tz @ r) = Some (f, tz, r)"
proof (induction fs)
  case (Cons g fs)
  then have g: "CHR ''('' \<notin> set g" "CHR ''('' \<notin> set f" by auto
  show ?case
  proof (cases "g = f")
    case True
    with Cons.prems show ?thesis by (simp add: call_head_same)
  next
    case False
    with Cons call_head_call [OF g] show ?thesis by auto
  qed
qed simp

lemma time_head_same: "f \<in> set TIME_FUNCS \<Longrightarrow> plain tz \<Longrightarrow> time_head TIME_FUNCS (call_text f tz @ r) = Some (f, tz, r)"
  by (rule time_head_in) (auto simp: time_funcs_no_paren)

lemma time_head_none [simp]:
  "CHR ''('' \<notin> set other \<Longrightarrow> other \<notin> set TIME_FUNCS \<Longrightarrow> time_head TIME_FUNCS (other @ CHR ''('' # r) = None"
proof -
  assume a: "CHR ''('' \<notin> set other" "other \<notin> set TIME_FUNCS"
  have "\<forall>g \<in> set fs. CHR ''('' \<notin> set g \<and> other \<noteq> g \<Longrightarrow> time_head fs (other @ CHR ''('' # r) = None" for fs
    by (induction fs) (use a in \<open>auto simp: call_head_other\<close>)
  moreover have "\<forall>g \<in> set TIME_FUNCS. CHR ''('' \<notin> set g \<and> other \<noteq> g" using a time_funcs_no_paren by blast
  ultimately show ?thesis by blast
qed

subsection \<open>Texts of conditions\<close>

definition src_name :: "Source \<Rightarrow> string" where
  "src_name src = (if src = SHeader then ''header'' else ''param'')"

lemma src_name_simps [simp]: "src_name SHeader = ''header''" "src_name SParam = ''param''"
  by (simp_all add: src_name_def)

definition named :: "string \<Rightarrow> bool" where
  "named p \<longleftrightarrow> plain p \<and> trimmed p"

lemma named_plain: "named p \<Longrightarrow> plain p" "named p \<Longrightarrow> trim p = p" "named p \<Longrightarrow> p \<noteq> []"
  by (simp_all add: named_def trim_id plain_def)

lemma mode_simps [simp]: "MATCH_EXISTS \<noteq> MATCH_EQ" "MATCH_EQ \<noteq> MATCH_EXISTS" "MATCH_CONTAINS \<noteq> MATCH_EXISTS" "MATCH_EXISTS \<noteq> MATCH_CONTAINS"
  "MATCH_EQ \<noteq> MATCH_CONTAINS" "MATCH_CONTAINS \<noteq> MATCH_EQ"
  "MATCH_EQ \<notin> {MATCH_GT, MATCH_GTE, MATCH_LT, MATCH_LTE}" "MATCH_EQ \<noteq> MATCH_RANGE"
  by (simp_all add: match_defs)

lemma text_exists: "named p \<Longrightarrow> condition_text (ParamHeader src p MATCH_EXISTS v)
    = call_text (src_name src) p @ (if src = SHeader then '' != '' @ [dquote, dquote] else '' != nil'')"
  by (cases src) (simp_all add: named_plain call_text_def Let_def)

lemma text_eq: "named p \<Longrightarrow> condition_text (ParamHeader src p MATCH_EQ v)
    = call_text (src_name src) p @ '' == '' @ buildExprLiteral MATCH_EQ v"
  by (cases src) (simp_all add: named_plain call_text_def Let_def match_defs)

lemma text_contains: "named p \<Longrightarrow> condition_text (ParamHeader SHeader p MATCH_CONTAINS v)
    = ''has('' @ call_text ''header'' p @ '', '' @ quote (trim v) @ '')''"
  by (simp add: named_plain call_text_def Let_def buildExprLiteral_def)

definition guard_text :: "string \<Rightarrow> string" where
  "guard_text p = call_text ''param'' p @ '' != nil''"

definition guarded_text :: "string \<Rightarrow> string \<Rightarrow> string \<Rightarrow> string" where
  "guarded_text p md v =
     (if md = MATCH_CONTAINS then ''has('' @ call_text ''param'' p @ '', '' @ quote (trim v) @ '')''
      else call_text ''param'' p @ '' '' @ num_op_text md @ '' '' @ v)"

definition guarded_modes :: "string set" where
  "guarded_modes = {MATCH_CONTAINS, MATCH_GT, MATCH_GTE, MATCH_LT, MATCH_LTE}"

lemma text_guarded:
  "named p \<Longrightarrow> md \<in> guarded_modes \<Longrightarrow> md = MATCH_CONTAINS \<or> is_numeric v \<Longrightarrow>
   condition_text (ParamHeader SParam p md v) = guard_text p @ '' && '' @ guarded_text p md v"
  by (auto simp: named_plain call_text_def Let_def guarded_modes_def guard_text_def guarded_text_def buildExprLiteral_def match_defs)

lemma text_range: "is_numeric a \<Longrightarrow> is_numeric b \<Longrightarrow> condition_text (TimeCond f tz MATCH_RANGE v a b)
    = call_text f tz @ '' >= '' @ a @ '' || '' @ call_text f tz @ '' < '' @ b"
  by (simp add: call_text_def Let_def)

lemma text_time: "is_numeric v \<Longrightarrow> md \<noteq> MATCH_RANGE \<Longrightarrow> condition_text (TimeCond f tz md v a b)
    = call_text f tz @ '' '' @ time_op_text md @ '' '' @ v"
  by (simp add: call_text_def Let_def)

subsection \<open>Reading one condition\<close>

lemma parse_range: 
  assumes f: "f \<in> set TIME_FUNCS" "plain tz" and n: "is_numeric a" "is_numeric b" and t: "tail = [] \<or> tail = '')''"
  shows "match_range tail (call_text f tz @ '' >= '' @ a @ '' || '' @ call_text f tz @ '' < '' @ b @ tail) = Some (TimeCond f tz MATCH_RANGE '''' a b)"
proof -
  have "num_run (b @ tail) = Some (b, tail)" using t by (intro num_run_append [OF n(2)]) auto
  moreover have "num_run (a @ '' || '' @ u) = Some (a, '' || '' @ u)" for u by (rule num_run_append [OF n(1)]) simp
  moreover have "strip_prefix ('' || '' @ f @ [CHR ''('', dquote] @ tz @ [dquote] @ '') < '') ('' || '' @ call_text f tz @ '' < '' @ u) = Some u" for u
  proof -
    have "'' || '' @ call_text f tz @ '' < '' @ u = ('' || '' @ f @ [CHR ''('', dquote] @ tz @ [dquote] @ '') < '') @ u"
      by (simp add: call_text_def quote_plain [OF f(2)])
    then show ?thesis by (simp only: strip_prefix_append)
  qed
  ultimately show ?thesis
    unfolding match_range_def time_head_same [OF f] by (simp del: append_Cons append_assoc strip_prefix.simps)
qed

text \<open>What the text of a call starts with: the scanners for other calls do not match it.\<close>

lemma strip_call_text:
  "strip_prefix (c # ps) (call_text nm p @ r) = (if nm = [] then strip_prefix (c # ps) (call_text nm p @ r)
     else if hd nm = c then strip_prefix ps (tl nm @ CHR ''('' # quote p @ CHR '')'' # r) else None)"
  by (cases nm) (auto simp: call_text_def)

lemma time_none_call: "nm \<in> {''header'', ''param''} \<Longrightarrow> tryParseTimeCondition (call_text nm p @ r) = None"
proof -
  assume nm: "nm \<in> {''header'', ''param''}"
  have t: "time_head TIME_FUNCS (call_text nm p @ r) = None"
    using nm time_head_none [of nm "quote p @ CHR '')'' # r"] by (auto simp: call_text_def TIME_FUNCS_def)
  have "strip_prefix ''('' (call_text nm p @ r) = None" using nm by (auto simp: call_text_def)
  with t show ?thesis by (simp add: tryParseTimeCondition_def match_range_def match_compare_def)
qed

lemma time_none_has: "tryParseTimeCondition (''has('' @ r) = None"
proof -
  have "time_head TIME_FUNCS (''has'' @ CHR ''('' # r) = None" by (rule time_head_none) (simp_all add: TIME_FUNCS_def)
  then have "time_head TIME_FUNCS (''has('' @ r) = None" by simp
  then show ?thesis by (simp add: tryParseTimeCondition_def match_range_def match_compare_def)
qed

lemma head_same: "named p \<Longrightarrow> call_head nm (call_text nm p @ r) = Some (p, r)"
  by (simp add: call_head_same named_plain)

lemma head_cross [simp]:
  "call_head ''header'' (call_text ''param'' p @ r) = None" "call_head ''param'' (call_text ''header'' p @ r) = None"
  by (simp_all add: call_head_call)

lemma head_has [simp]: "call_head ''header'' (''has('' @ r) = None" "call_head ''param'' (''has('' @ r) = None"
  by (simp_all add: call_head_def)

lemma has_call [simp]: "nm \<in> {''header'', ''param''} \<Longrightarrow> strip_prefix ''has('' (call_text nm p @ r) = None"
  by (auto simp: call_text_def)

lemma read_exists: "named p \<Longrightarrow> tryParseRequestCondition (call_text (src_name src) p @ (if src = SHeader then '' != '' @ [dquote, dquote] else '' != nil''))
    = Match (ParamHeader src p MATCH_EXISTS '''')"
  by (cases src)
    (simp_all add: tryParseRequestCondition_def time_none_call match_exists_def head_same of_option_def)

lemma json_quote: "json_parse (quote t) = Some (JStr t)"
  using json_parse_stringify [of "JStr t"] by simp

lemma scan_literal_body: "scan_literal (concat (map esc_char t) @ dquote # r) = Some (concat (map esc_char t), r)"
proof (induction t)
  case (Cons c t)
  have "scan_literal (esc_char c @ u) = map_option (\<lambda>(x, r). (esc_char c @ x, r)) (scan_literal u)" for u
  proof (cases "of_char c < (32 :: nat)")
    case True
    then have "hex_char (of_char c div 16) \<notin> {dquote, CHR 0x5C, CHR 0x0A, CHR 0x0D}" "hex_char (of_char c mod 16) \<notin> {dquote, CHR 0x5C, CHR 0x0A, CHR 0x0D}"
      using hex_safe [of "of_char c div 16"] hex_safe [of "of_char c mod 16"] by simp_all
    then show ?thesis by (cases "scan_literal u") (auto simp: esc_char_def)
  next
    case False
    then show ?thesis by (cases "scan_literal u") (auto simp: esc_char_def)
  qed
  with Cons show ?case by simp
qed simp

lemma literal_end_quote: "literal_end (quote t @ '')'') = Some (quote t)"
  using scan_literal_body [of t "'')''"] by (simp add: literal_end_def quote_def)

lemma read_header_contains: "named p \<Longrightarrow> tryParseRequestCondition (''has('' @ call_text ''header'' p @ '', '' @ quote t @ '')'')
    = Match (ParamHeader SHeader p MATCH_CONTAINS t)"
proof -
  assume p: "named p"
  have "strip_prefix ''has('' (''has('' @ u) = Some u" for u by (rule strip_prefix_append)
  moreover have "strip_prefix '', '' ('', '' @ u) = Some u" for u by (rule strip_prefix_append)
  ultimately have h: "match_header_contains (''has('' @ call_text ''header'' p @ '', '' @ quote t @ '')'') = Some (p, quote t)"
    by (simp add: match_header_contains_def head_same [OF p] literal_end_quote del: append_Cons strip_prefix.simps)
  show ?thesis
    unfolding tryParseRequestCondition_def h
    by (simp add: time_none_has match_exists_def of_option_def contains_outcome_def json_quote del: append_Cons)
qed

lemma read_equals:
  assumes p: "named p" and v: "trimmed v"
  shows "tryParseRequestCondition (call_text (src_name src) p @ '' == '' @ buildExprLiteral MATCH_EQ v) = Match (ParamHeader src p MATCH_EQ v)"
proof -
  define lit where "lit = buildExprLiteral MATCH_EQ v"
  have tv: "trim v = v" by (rule trim_id [OF v])
  have lit: "lit = (if v = ''true'' \<or> v = ''false'' \<or> is_numeric v then v else quote v)"
    by (simp add: lit_def buildExprLiteral_def tv Let_def)
  have tq: "trim (quote v) = quote v" by (rule trim_id) (simp add: quote_def trimmed_by_def is_ws_def)
  have nq: "\<not> is_numeric (quote v)" using numeric_chars [of "quote v" dquote] num_char_not [of dquote] by (auto simp: quote_def)
  have q: "quote v \<noteq> ''true'' \<and> quote v \<noteq> ''false''" by (simp add: quote_def)
  have read: "parseExprLiteral lit = Some (JStr v)"
    unfolding lit parseExprLiteral_def using tv tq nq q by (auto simp: json_quote Let_def)
  have chars: "lit \<noteq> [] \<and> CHR 0x0A \<notin> set lit \<and> CHR 0x0D \<notin> set lit"
  proof -
    have "CHR 0x0A \<notin> set v \<and> CHR 0x0D \<notin> set v" if "is_numeric v"
      using numeric_chars [OF that] num_char_not by (metis is_ws_def insertCI)
    then show ?thesis using numeric_nonempty [of v] no_line_end_quote [of v]
      unfolding lit by (auto simp: quote_def)
  qed
  have eq: "match_equals (call_text (src_name src) p @ '' == '' @ lit) = Some (src, p, lit)"
    using chars by (cases src) (simp_all add: match_equals_def head_same [OF p])
  have "equals_outcome (call_text (src_name src) p @ '' == '' @ lit) = Match (ParamHeader src p MATCH_EQ v)"
    unfolding equals_outcome_def eq by (simp add: read)
  moreover have "match_exists ''header'' ('' != '' @ [dquote, dquote]) (call_text (src_name src) p @ '' == '' @ lit) = None"
    "match_exists ''param'' '' != nil'' (call_text (src_name src) p @ '' == '' @ lit) = None"
    "match_header_contains (call_text (src_name src) p @ '' == '' @ lit) = None"
    "match_param_contains (call_text (src_name src) p @ '' == '' @ lit) = None"
    "match_param_compare (call_text (src_name src) p @ '' == '' @ lit) = None"
    "tryParseTimeCondition (call_text (src_name src) p @ '' == '' @ lit) = None"
    by (cases src; simp add: match_exists_def match_header_contains_def match_param_contains_def match_param_compare_def
        head_same [OF p] time_none_call)+
  ultimately show ?thesis
    unfolding lit_def [symmetric] tryParseRequestCondition_def by (simp add: of_option_def)
qed

subsection \<open>Reading a group and a product\<close>

text \<open>
  The depth after a text, a text that never comes back to depth 0, and balanced texts: the depth is the same after
  them, and within parentheses they stay within.
\<close>

fun depth_after :: "int \<Rightarrow> string \<Rightarrow> int" where
  "depth_after d [] = d"
| "depth_after d (c # s) = depth_after (step_depth c d) s"

fun inside :: "int \<Rightarrow> string \<Rightarrow> bool" where
  "inside d [] = True"
| "inside d (c # s) = (0 < step_depth c d \<and> inside (step_depth c d) s)"

definition balanced :: "string \<Rightarrow> bool" where
  "balanced s \<longleftrightarrow> (\<forall>d. depth_after d s = d) \<and> (\<forall>d > 0. inside d s)"

lemma depth_append [simp]: "depth_after d (s @ t) = depth_after (depth_after d s) t"
  by (induction s arbitrary: d) auto

lemma inside_append [simp]: "inside d (s @ t) \<longleftrightarrow> inside d s \<and> inside (depth_after d s) t"
  by (induction s arbitrary: d) auto

lemma balanced_append: "balanced s \<Longrightarrow> balanced t \<Longrightarrow> balanced (s @ t)"
  by (simp add: balanced_def)

lemma balanced_paren: "balanced s \<Longrightarrow> balanced (CHR ''('' # s @ [CHR '')''])"
  by (simp add: balanced_def step_depth_def)

lemma balanced_calm: "calm s \<Longrightarrow> balanced s"
proof -
  assume c: "calm s"
  have "depth_after d s = d" for d using c by (induction s) (auto simp: step_depth_def)
  moreover have "0 < d \<Longrightarrow> inside d s" for d using c by (induction s) (auto simp: step_depth_def)
  ultimately show ?thesis by (simp add: balanced_def)
qed

lemma balanced_call: "calm name \<Longrightarrow> calm p \<Longrightarrow> balanced (call_text name p)"
  unfolding call_text_def by (intro balanced_append balanced_paren balanced_calm) simp_all

lemma split_top_inside:
  "inside d s \<Longrightarrow> split_top sep d cur (s @ t) = split_top sep (depth_after d s) (cur @ s) t"
  by (induction s arbitrary: d cur) auto

lemma strip_and_None: "CHR ''&'' \<notin> set s \<Longrightarrow> s \<noteq> [] \<Longrightarrow> strip_prefix '' && '' (s @ '' && '' @ r) = None"
proof (rule ccontr)
  assume s: "CHR ''&'' \<notin> set s" "s \<noteq> []" and "strip_prefix '' && '' (s @ '' && '' @ r) \<noteq> None"
  then obtain u where u: "s @ '' && '' @ r = '' && '' @ u" by (auto simp: strip_prefix_Some)
  obtain c t where st: "s = c # t" using s by (cases s) auto
  with u s show False by (cases t) auto
qed

lemma split_and_step:
  assumes "CHR ''&'' \<notin> set s" "depth_after d s = 0"
  shows "split_top '' && '' d cur (s @ '' && '' @ r) = trim (cur @ s) # split_top '' && '' 0 [] r"
  using assms
proof (induction s arbitrary: d cur)
  case Nil
  then have "d = 0" by simp
  then show ?case by (simp add: step_depth_def)
next
  case (Cons c s)
  have "strip_prefix '' && '' ((c # s) @ '' && '' @ r) = None" by (rule strip_and_None) (use Cons.prems in auto)
  then have "split_top '' && '' d cur ((c # s) @ '' && '' @ r) = split_top '' && '' (step_depth c d) (cur @ [c]) (s @ '' && '' @ r)"
    by (simp add: Let_def del: strip_prefix.simps)
  with Cons show ?case by simp
qed

lemma split_and_last: "CHR ''&'' \<notin> set s \<Longrightarrow> split_top '' && '' d cur s = [trim (cur @ s)]"
proof (induction s arbitrary: d cur)
  case (Cons c s)
  have "strip_prefix '' && '' (c # s) = None"
  proof (rule ccontr)
    assume "\<not> ?thesis"
    then obtain u where "strip_prefix '' && '' (c # s) = Some u" by blast
    then have "c # s = '' && '' @ u" by (simp only: strip_prefix_Some)
    with Cons.prems show False by auto
  qed
  with Cons show ?case by (simp add: Let_def del: strip_prefix.simps)
qed simp

text \<open>A piece between two ampersands: it has none itself, is balanced, trimmed and not empty.\<close>

definition piece :: "string \<Rightarrow> bool" where
  "piece s \<longleftrightarrow> s \<noteq> [] \<and> trimmed s \<and> CHR ''&'' \<notin> set s \<and> balanced s"

lemma split_pieces: "ps \<noteq> [] \<Longrightarrow> \<forall>p \<in> set ps. piece p \<Longrightarrow> splitTopLevelAnd (join '' && '' ps) = ps"
proof -
  assume ne: "ps \<noteq> []" and p: "\<forall>p \<in> set ps. piece p"
  have tr: "trim p = p" if "piece p" for p using that by (simp add: piece_def trim_id)
  have "split_top '' && '' 0 [] (join '' && '' ps) = ps"
    using ne p
  proof (induction ps rule: induct_list012)
    case (2 x)
    then have "trim x = x" "CHR ''&'' \<notin> set x" by (simp_all add: tr piece_def)
    then show ?case by (simp add: split_and_last del: split_top.simps)
  next
    case (3 x y zs)
    then have x: "CHR ''&'' \<notin> set x" "depth_after 0 x = 0" "trim x = x" by (simp_all add: tr piece_def balanced_def)
    have IH: "split_top '' && '' 0 [] (join '' && '' (y # zs)) = y # zs" by (rule "3.IH"(2)) (use "3.prems" in simp_all)
    show ?case unfolding join.simps split_and_step [OF x(1,2)] IH by (simp add: x(3))
  qed simp
  moreover have "filter (\<lambda>p. p \<noteq> []) ps = ps" using p by (simp add: piece_def filter_id_conv)
  ultimately show ?thesis by (simp add: splitTopLevelAnd_def)
qed

text \<open>A factor is closed by its parentheses: the product is split between the factors.\<close>

definition factor :: "string \<Rightarrow> bool" where
  "factor f \<longleftrightarrow> (\<exists>s. f = CHR ''('' # s @ [CHR '')''] \<and> balanced s)"

lemma factor_trim: "factor f \<Longrightarrow> trim f = f" "factor f \<Longrightarrow> f \<noteq> []"
proof -
  have "trimmed f" if "factor f" using that by (auto simp: factor_def trimmed_by_def is_ws_def)
  then show "factor f \<Longrightarrow> trim f = f" by (rule trim_id)
qed (auto simp: factor_def)

lemma split_factor: "factor f \<Longrightarrow> split_top '' * '' 0 [] (f @ t) = split_top '' * '' 0 f t"
proof -
  assume "factor f"
  then obtain s where f: "f = CHR ''('' # s @ [CHR '')'']" and b: "balanced s" by (auto simp: factor_def)
  have "f @ t = (CHR ''('' # s) @ CHR '')'' # t" by (simp add: f)
  moreover have "inside 0 (CHR ''('' # s)" "depth_after 0 (CHR ''('' # s) = 1" using b by (simp_all add: balanced_def step_depth_def)
  ultimately have "split_top '' * '' 0 [] (f @ t) = split_top '' * '' 1 (CHR ''('' # s) (CHR '')'' # t)"
    by (metis append_Nil split_top_inside)
  also have "\<dots> = split_top '' * '' 0 f t" by (simp add: step_depth_def f)
  finally show ?thesis .
qed

lemma split_factors: "fs \<noteq> [] \<Longrightarrow> \<forall>f \<in> set fs. factor f \<Longrightarrow> splitTopLevelMultiply (join '' * '' fs) = fs"
proof -
  assume ne: "fs \<noteq> []" and f: "\<forall>f \<in> set fs. factor f"
  have "split_top '' * '' 0 [] (join '' * '' fs) = fs"
    using ne f
  proof (induction fs rule: induct_list012)
    case (2 x)
    then show ?case using split_factor [of x "[]"] by (simp add: factor_trim)
  next
    case (3 x y zs)
    have x: "factor x" using "3.prems" by simp
    have IH: "split_top '' * '' 0 [] (join '' * '' (y # zs)) = y # zs" by (rule "3.IH"(2)) (use "3.prems" in simp_all)
    have "split_top '' * '' 0 x ('' * '' @ r) = x # split_top '' * '' 0 [] r" for r
      by (simp add: step_depth_def factor_trim [OF x])
    then show ?case by (simp only: join.simps split_factor [OF x] IH)
  qed simp
  moreover have "filter (\<lambda>p. p \<noteq> []) fs = fs" using f by (auto simp: factor_trim filter_id_conv)
  ultimately show ?thesis by (simp add: splitTopLevelMultiply_def)
qed

subsection \<open>Conditions of the editor\<close>

text \<open>
  Conditions as the editor fills them in: names without quotes and parentheses, numbers where the mode asks for them,
  trimmed values without parentheses, ampersands and bars. The modes in \<open>guarded_modes\<close> of a parameter are
  written as a conjunction with a nil test.
\<close>

fun ok_cond :: "RequestCondition \<Rightarrow> bool" where
  "ok_cond (TimeCond f tz md v a b) \<longleftrightarrow> f \<in> set TIME_FUNCS \<and> plain tz \<and>
     (if md = MATCH_RANGE then v = [] \<and> is_numeric a \<and> is_numeric b
      else md \<in> {MATCH_EQ, MATCH_GTE, MATCH_LT} \<and> is_numeric v \<and> a = [] \<and> b = [])"
| "ok_cond (ParamHeader src p md v) \<longleftrightarrow> named p \<and>
     (if md = MATCH_EXISTS then v = []
      else if md \<in> {MATCH_EQ, MATCH_CONTAINS} then trimmed v \<and> calm v
      else src = SParam \<and> md \<in> {MATCH_GT, MATCH_GTE, MATCH_LT, MATCH_LTE} \<and> is_numeric v)"

fun guarded :: "RequestCondition \<Rightarrow> bool" where
  "guarded (ParamHeader src p md v) \<longleftrightarrow> src = SParam \<and> md \<in> guarded_modes"
| "guarded (TimeCond f tz md v a b) \<longleftrightarrow> False"

lemma normalize_ok: "ok_cond c \<Longrightarrow> normalizeCondition (partial_of c) = c"
proof (cases c)
  case (ParamHeader src p md v)
  assume "ok_cond c"
  then have "md \<in> fst ` set (getRequestRuleMatchOptions (if src = SParam then ''param'' else ''header''))"
    using ParamHeader by (cases src) (auto simp: getRequestRuleMatchOptions_def split: if_splits)
  then show ?thesis using ParamHeader by (cases src) (auto simp: normalizeCondition_def opt_text_def pick_mode_def)
next
  case (TimeCond f tz md v a b)
  assume "ok_cond c"
  then have f: "f \<in> set TIME_FUNCS" and tz: "tz \<noteq> []" and md: "md \<in> fst ` set (getRequestRuleMatchOptions ''time'')"
    using TimeCond by (auto simp: getRequestRuleMatchOptions_def plain_def split: if_splits)
  then show ?thesis using TimeCond by (simp add: normalizeCondition_def opt_text_def pick_mode_def isTimeFunc_def)
qed

lemma build_ok: "ok_cond c \<Longrightarrow> buildRequestConditionExpr c = condition_text c"
  by (simp add: buildRequestConditionExpr_def normalize_ok)

definition pieces :: "bool \<Rightarrow> RequestCondition \<Rightarrow> string list" where
  "pieces many c =
     (case c of
        ParamHeader src p md v \<Rightarrow> if guarded c then [guard_text p, guarded_text p md v] else [condition_text c]
      | TimeCond f tz md v a b \<Rightarrow> [if many then wrap_or (condition_text c) else condition_text c])"

lemma no_bar_include: "CHR ''|'' \<notin> set s \<Longrightarrow> \<not> str_includes '' || '' s"
  by (auto simp: str_includes_iff)

lemma calm_num_op [simp]: "calm (num_op_text md)" "calm (time_op_text md)"
  by (simp_all add: num_op_text_def time_op_text_def)

lemma calm_literal [simp]: "calm v \<Longrightarrow> trimmed v \<Longrightarrow> calm (buildExprLiteral md v)"
  by (simp add: buildExprLiteral_def trim_id Let_def)

lemma calm_no: "calm s \<Longrightarrow> CHR ''|'' \<notin> set s" "calm s \<Longrightarrow> CHR ''&'' \<notin> set s"
  by (auto simp: calm_def)

lemma call_no: "calm nm \<Longrightarrow> calm p \<Longrightarrow> CHR ''|'' \<notin> set (call_text nm p) \<and> CHR ''&'' \<notin> set (call_text nm p)"
  using calm_no [of nm] calm_no [of "quote p"] by (simp add: call_text_def)

lemma time_func_calm: "f \<in> set TIME_FUNCS \<Longrightarrow> calm f \<and> f \<noteq> [] \<and> \<not> is_ws (hd f)"
  by (auto simp: TIME_FUNCS_def is_ws_def)

lemma trimmed_ends: "s \<noteq> [] \<Longrightarrow> \<not> is_ws (hd s) \<Longrightarrow> t \<noteq> [] \<Longrightarrow> \<not> is_ws (last t) \<Longrightarrow> trimmed (s @ t)"
  by (simp add: trimmed_by_def)

lemma call_ends: "nm \<noteq> [] \<Longrightarrow> \<not> is_ws (hd nm) \<Longrightarrow> call_text nm p \<noteq> [] \<and> \<not> is_ws (hd (call_text nm p))"
  by (simp add: call_text_def)

lemma numeric_last: "is_numeric v \<Longrightarrow> \<not> is_ws (last v)"
  using numeric_chars [of v "last v"] numeric_nonempty [of v] num_char_not [of "last v"] by simp

text \<open>A call followed by a calm end is a piece.\<close>

lemma piece_call:
  assumes "calm nm" "nm \<noteq> []" "\<not> is_ws (hd nm)" "calm p" "calm t" "t \<noteq> []" "\<not> is_ws (last t)"
  shows "piece (call_text nm p @ t)" "CHR ''|'' \<notin> set (call_text nm p @ t)"
  using assms call_no [of nm p] calm_no [of t] call_ends [of nm p] trimmed_ends [of "call_text nm p" t]
  by (auto simp: piece_def balanced_append balanced_call balanced_calm)

lemma piece_has:
  assumes "calm nm" "calm p" "calm t"
  shows "piece (''has('' @ call_text nm p @ '', '' @ t @ '')'')" "CHR ''|'' \<notin> set (''has('' @ call_text nm p @ '', '' @ t @ '')'')"
proof -
  have h: "balanced ''has''" by (rule balanced_calm) simp
  have b: "balanced (call_text nm p @ '', '' @ t)" using assms by (intro balanced_append balanced_call balanced_calm) simp_all
  from balanced_append [OF h balanced_paren [OF b]] show "piece (''has('' @ call_text nm p @ '', '' @ t @ '')'')" "CHR ''|'' \<notin> set (''has('' @ call_text nm p @ '', '' @ t @ '')'')"
    using call_no [of nm p] calm_no [of t] assms by (simp_all add: piece_def trimmed_by_def is_ws_def)
qed

text \<open>Every piece of an acceptable condition, and what it is read as.\<close>

lemma quote_last: "\<not> is_ws (last (quote v))" "quote v \<noteq> []"
  by (simp_all add: quote_def is_ws_def)

lemma literal_ends: "trimmed v \<Longrightarrow> buildExprLiteral MATCH_EQ v \<noteq> [] \<and> \<not> is_ws (last (buildExprLiteral MATCH_EQ v))"
  using quote_last [of v] numeric_last [of v] numeric_nonempty [of v]
  by (auto simp: buildExprLiteral_def trim_id Let_def is_ws_def)

lemma ok_param_modes:
  "ok_cond (ParamHeader src p md v) \<Longrightarrow> \<not> guarded (ParamHeader src p md v)
     \<Longrightarrow> md = MATCH_EXISTS \<and> v = [] \<or> md = MATCH_EQ \<and> trimmed v \<and> calm v \<or> src = SHeader \<and> md = MATCH_CONTAINS \<and> trimmed v \<and> calm v"
  by (cases src) (auto simp: guarded_modes_def split: if_splits)

lemma plain_text:
  assumes ok: "ok_cond (ParamHeader src p md v)" and g: "\<not> guarded (ParamHeader src p md v)"
  shows "piece (condition_text (ParamHeader src p md v)) \<and> CHR ''|'' \<notin> set (condition_text (ParamHeader src p md v))"
    and "tryParseRequestCondition (condition_text (ParamHeader src p md v)) = Match (ParamHeader src p md v)"
proof -
  have p: "named p" "calm p" using ok by (auto simp: named_def plain_calm)
  have nm: "calm (src_name src)" "src_name src \<noteq> []" "\<not> is_ws (hd (src_name src))" by (cases src; simp add: is_ws_def)+
  consider (ex) "md = MATCH_EXISTS" "v = []" | (eq) "md = MATCH_EQ" "trimmed v" "calm v"
    | (co) "src = SHeader" "md = MATCH_CONTAINS" "trimmed v" "calm v"
    using ok_param_modes [OF ok g] by blast
  then have "piece (condition_text (ParamHeader src p md v)) \<and> CHR ''|'' \<notin> set (condition_text (ParamHeader src p md v))
    \<and> tryParseRequestCondition (condition_text (ParamHeader src p md v)) = Match (ParamHeader src p md v)"
  proof cases
    case ex
    define t where "t = (if src = SHeader then '' != '' @ [dquote, dquote] else '' != nil'')"
    have t: "calm t" "t \<noteq> []" "\<not> is_ws (last t)" by (auto simp: t_def is_ws_def)
    from piece_call [OF nm p(2) t] read_exists [OF p(1), of src] show ?thesis
      unfolding ex text_exists [OF p(1)] t_def by blast
  next
    case eq
    have t: "calm ('' == '' @ buildExprLiteral MATCH_EQ v)" "'' == '' @ buildExprLiteral MATCH_EQ v \<noteq> []"
      "\<not> is_ws (last ('' == '' @ buildExprLiteral MATCH_EQ v))"
      using eq literal_ends [OF eq(2)] by simp_all
    from piece_call [OF nm p(2) t] read_equals [OF p(1) eq(2), of src] show ?thesis
      unfolding eq(1) text_eq [OF p(1)] by blast
  next
    case co
    have "calm (quote v)" using co by simp
    from piece_has [OF _ p(2) this, of "''header''"] read_header_contains [OF p(1), of v] show ?thesis
      unfolding co(1,2) text_contains [OF p(1)] trim_id [OF co(3)] by simp
  qed
  then show "piece (condition_text (ParamHeader src p md v)) \<and> CHR ''|'' \<notin> set (condition_text (ParamHeader src p md v))"
    "tryParseRequestCondition (condition_text (ParamHeader src p md v)) = Match (ParamHeader src p md v)" by blast+
qed

text \<open>The two halves of a guarded condition: the nil test is read as a test of existence, the rest is not read.\<close>

lemma guard_piece: "named p \<Longrightarrow> piece (guard_text p)"
  and guard_read: "named p \<Longrightarrow> tryParseRequestCondition (guard_text p) = Match (ParamHeader SParam p MATCH_EXISTS '''')"
proof -
  assume p: "named p"
  have "calm p" using p by (simp add: named_def plain_calm)
  from piece_call(1) [OF _ _ _ this, of "''param''" "'' != nil''"] show "piece (guard_text p)"
    by (simp add: guard_text_def is_ws_def)
  from read_exists [OF p, of SParam] show "tryParseRequestCondition (guard_text p) = Match (ParamHeader SParam p MATCH_EXISTS '''')"
    by (simp add: guard_text_def)
qed

lemma guarded_piece:
  assumes p: "named p" and m: "md \<in> guarded_modes" and v: "md = MATCH_CONTAINS \<and> trimmed v \<and> calm v \<or> is_numeric v"
  shows "piece (guarded_text p md v)"
proof -
  have cp: "calm p" using p by (simp add: named_def plain_calm)
  have cv: "calm (quote (trim v))" using v by (auto simp: trim_id)
  show ?thesis
  proof (cases "md = MATCH_CONTAINS")
    case True
    then show ?thesis using piece_has(1) [OF _ cp cv, of "''param''"] by (simp add: guarded_text_def)
  next
    case False
    then have n: "is_numeric v" using v by simp
    have "calm ('' '' @ num_op_text md @ '' '' @ v)" "'' '' @ num_op_text md @ '' '' @ v \<noteq> []" "\<not> is_ws (last ('' '' @ num_op_text md @ '' '' @ v))"
      using n numeric_last [OF n] numeric_nonempty [OF n] by simp_all
    from piece_call(1) [OF _ _ _ cp this, of "''param''"] False show ?thesis by (simp add: guarded_text_def is_ws_def)
  qed
qed

lemma guarded_read:
  assumes p: "named p" and m: "md \<in> guarded_modes"
  shows "tryParseRequestCondition (guarded_text p md v) = NoMatch"
proof (cases "md = MATCH_CONTAINS")
  case True
  define r where "r = call_text ''param'' p @ '', '' @ quote (trim v) @ '')''"
  have g: "guarded_text p md v = ''has('' @ r" by (simp add: guarded_text_def True r_def)
  have r: "call_head ''header'' r = None" by (simp add: r_def)
  have "strip_prefix ''has('' (''has('' @ r) = Some r" by (rule strip_prefix_append)
  with r have h: "match_header_contains (''has('' @ r) = None" by (simp add: match_header_contains_def del: append_Cons strip_prefix.simps)
  have "match_exists nm t (''has('' @ r) = None" if "nm \<in> {''header'', ''param''}" for nm t
    using that by (auto simp: match_exists_def simp del: append_Cons)
  moreover have "match_param_contains (''has('' @ r) = None" "match_param_compare (''has('' @ r) = None" "equals_outcome (''has('' @ r) = NoMatch"
    by (simp_all add: match_param_contains_def match_param_compare_def equals_outcome_def match_equals_def del: append_Cons)
  ultimately show ?thesis
    unfolding g tryParseRequestCondition_def time_none_has h by (simp add: of_option_def del: append_Cons)
next
  case False
  define r where "r = '' '' @ num_op_text md @ '' '' @ v"
  have g: "guarded_text p md v = call_text ''param'' p @ r" by (simp add: guarded_text_def False r_def)
  have r: "strip_prefix '' != nil && has('' r = None" "strip_prefix '' != nil && '' r = None" "strip_prefix '' == '' r = None"
    "r \<noteq> '' != nil''"
    by (simp_all add: r_def num_op_text_def)
  have "match_exists ''header'' t (call_text ''param'' p @ r) = None" "match_exists ''param'' '' != nil'' (call_text ''param'' p @ r) = None" for t
    using r(4) by (simp_all add: match_exists_def head_same [OF p])
  moreover have "match_header_contains (call_text ''param'' p @ r) = None" by (simp add: match_header_contains_def)
  moreover have "match_param_contains (call_text ''param'' p @ r) = None" "match_param_compare (call_text ''param'' p @ r) = None"
    "equals_outcome (call_text ''param'' p @ r) = NoMatch"
    using r(1-3) by (simp_all add: match_param_contains_def match_param_compare_def equals_outcome_def match_equals_def head_same [OF p] del: strip_prefix.simps)
  ultimately show ?thesis
    unfolding g tryParseRequestCondition_def using time_none_call [of "''param''" p r] by (simp add: of_option_def)
qed

text \<open>Time conditions: a range has a bar and is put in parentheses when there are several conditions.\<close>

definition wrap_if :: "bool \<Rightarrow> string \<Rightarrow> string" where
  "wrap_if many e = (if many then wrap_or e else e)"

lemma time_range_text:
  assumes f: "f \<in> set TIME_FUNCS" "plain tz" and n: "is_numeric a" "is_numeric b"
  defines "t \<equiv> call_text f tz @ '' >= '' @ a @ '' || '' @ call_text f tz @ '' < '' @ b"
  shows "piece (wrap_if many t)" "tryParseRequestCondition (wrap_if many t) = Match (TimeCond f tz MATCH_RANGE '''' a b)"
proof -
  have fc: "calm f" "f \<noteq> []" "\<not> is_ws (hd f)" using time_func_calm [OF f(1)] by auto
  have tz: "calm tz" using f(2) by (rule plain_calm)
  have inc: "str_includes '' || '' t" unfolding t_def str_includes_iff by (metis append_assoc)
  have call: "balanced (call_text f tz)" using fc tz by (simp add: balanced_call)
  have br: "balanced '' || ''" by (simp add: balanced_def step_depth_def)
  have na: "balanced ('' >= '' @ a)" "balanced ('' < '' @ b)" using n by (auto intro!: balanced_calm)
  have bal: "balanced t"
    using balanced_append [OF balanced_append [OF balanced_append [OF balanced_append [OF call na(1)] br] call] na(2)] by (simp add: t_def)
  have amp: "CHR ''&'' \<notin> set t" using call_no [OF fc(1) tz] calm_no [of a] calm_no [of b] n by (simp add: t_def)
  have ends: "trimmed t \<and> t \<noteq> []"
    using call_ends [OF fc(2,3), of tz] numeric_last [OF n(2)] numeric_nonempty [OF n(2)] by (auto simp: t_def trimmed_by_def)
  have "piece t" using bal amp ends by (simp add: piece_def)
  moreover have "piece (CHR ''('' # t @ [CHR '')''])" using balanced_paren [OF bal] amp by (simp add: piece_def trimmed_by_def is_ws_def)
  ultimately show "piece (wrap_if many t)" using inc by (simp add: wrap_if_def wrap_or_def)
  have read: "match_range '''' t = Some (TimeCond f tz MATCH_RANGE '''' a b)" using parse_range [OF f n, of "[]"] by (simp add: t_def)
  have read_tail: "match_range '')'' (t @ '')'') = Some (TimeCond f tz MATCH_RANGE '''' a b)"
    using parse_range [OF f n, of "'')''"] by (simp add: t_def)
  have "time_head TIME_FUNCS (CHR ''('' # u) = None" for u by (simp add: TIME_FUNCS_def call_head_def)
  then have none: "match_range '''' (CHR ''('' # u) = None" for u by (simp add: match_range_def)
  show "tryParseRequestCondition (wrap_if many t) = Match (TimeCond f tz MATCH_RANGE '''' a b)"
    using read read_tail none inc
    by (simp add: wrap_if_def wrap_or_def tryParseRequestCondition_def tryParseTimeCondition_def of_option_def)
qed

lemma time_op_read: "md \<in> {MATCH_EQ, MATCH_GTE, MATCH_LT} \<Longrightarrow> time_op (time_op_text md @ '' '' @ r) = Some (md, r)"
  by (auto simp: time_op_def time_op_text_def match_defs)

lemma time_compare_text:
  assumes f: "f \<in> set TIME_FUNCS" "plain tz" and n: "is_numeric v" and md: "md \<in> {MATCH_EQ, MATCH_GTE, MATCH_LT}"
  defines "t \<equiv> call_text f tz @ '' '' @ time_op_text md @ '' '' @ v"
  shows "piece (wrap_if many t)" "tryParseRequestCondition (wrap_if many t) = Match (TimeCond f tz md v '''' '''')"
proof -
  have fc: "calm f" "f \<noteq> []" "\<not> is_ws (hd f)" using time_func_calm [OF f(1)] by auto
  have tz: "calm tz" using f(2) by (rule plain_calm)
  have e: "calm ('' '' @ time_op_text md @ '' '' @ v)" "'' '' @ time_op_text md @ '' '' @ v \<noteq> []" "\<not> is_ws (last ('' '' @ time_op_text md @ '' '' @ v))"
    using n numeric_last [OF n] numeric_nonempty [OF n] by simp_all
  have wrap: "wrap_if many t = t"
    unfolding wrap_if_def wrap_or_def t_def using no_bar_include [OF piece_call(2) [OF fc tz e]] by simp
  have "piece t" unfolding t_def by (rule piece_call(1) [OF fc tz e])
  then show "piece (wrap_if many t)" by (simp only: wrap)
  define r where "r = '' '' @ time_op_text md @ '' '' @ v"
  have t: "t = call_text f tz @ r" by (simp add: t_def r_def)
  have r1: "strip_prefix '' >= '' r = None \<or> (\<exists>u. strip_prefix '' >= '' r = Some u \<and> u = v)"
    by (auto simp: r_def time_op_text_def)
  have noram: "strip_prefix ('' || '' @ f @ [CHR ''('', dquote] @ tz @ [dquote] @ '') < '') [] = None" by simp
  have range_none: "match_range '''' t = None"
    using r1 unfolding match_range_def t time_head_same [OF f] by (auto simp: num_run_end [OF n])
  have "strip_prefix ''('' t = None"
    using fc(2) calm_no(1) [OF fc(1)] fc(1) by (cases f) (auto simp: t call_text_def)
  moreover have "match_compare t = Some (TimeCond f tz md v '''' '''')"
    unfolding match_compare_def t time_head_same [OF f]
    using time_op_read [OF md, of v] by (simp add: r_def num_run_end [OF n])
  ultimately show "tryParseRequestCondition (wrap_if many t) = Match (TimeCond f tz md v '''' '''')"
    using range_none by (simp add: wrap tryParseRequestCondition_def tryParseTimeCondition_def of_option_def)
qed

lemma pieces_plain:
  assumes ok: "ok_cond c" and g: "\<not> guarded c"
  shows "\<exists>t. pieces many c = [t] \<and> wrap_if many (condition_text c) = t \<and> piece t \<and> tryParseRequestCondition t = Match c"
proof (cases c)
  case (ParamHeader src p md v)
  from plain_text [of src p md v] ok g have "piece (condition_text c)" "CHR ''|'' \<notin> set (condition_text c)"
    "tryParseRequestCondition (condition_text c) = Match c" unfolding ParamHeader by blast+
  moreover have "pieces many c = [condition_text c]" using g ParamHeader by (simp add: pieces_def del: condition_text.simps)
  moreover have "wrap_if many (condition_text c) = condition_text c"
    using no_bar_include [OF calculation(2)] by (simp add: wrap_if_def wrap_or_def del: condition_text.simps)
  ultimately show ?thesis by blast
next
  case (TimeCond f tz md v a b)
  have f: "f \<in> set TIME_FUNCS" "plain tz" using ok TimeCond by auto
  have p: "pieces many c = [wrap_if many (condition_text c)]" by (simp add: pieces_def TimeCond wrap_if_def del: condition_text.simps)
  have "piece (wrap_if many (condition_text c)) \<and> tryParseRequestCondition (wrap_if many (condition_text c)) = Match c"
  proof (cases "md = MATCH_RANGE")
    case True
    then have n: "v = []" "is_numeric a" "is_numeric b" using ok TimeCond by auto
    show ?thesis unfolding TimeCond True text_range [OF n(2,3)] using time_range_text [OF f n(2,3)] n(1) by simp
  next
    case False
    then have n: "is_numeric v" "md \<in> {MATCH_EQ, MATCH_GTE, MATCH_LT}" "a = []" "b = []" using ok TimeCond by auto
    show ?thesis unfolding TimeCond text_time [OF n(1) False] using time_compare_text [OF f n(1,2)] n(3,4) by simp
  qed
  with p show ?thesis by blast
qed

lemma pieces_guarded:
  assumes ok: "ok_cond c" and g: "guarded c"
  shows "\<exists>t u d. pieces many c = [t, u] \<and> wrap_if many (condition_text c) = t @ '' && '' @ u \<and> piece t \<and> piece u
    \<and> tryParseRequestCondition t = Match d \<and> tryParseRequestCondition u = NoMatch"
proof (cases c)
  case (ParamHeader src p md v)
  have src: "src = SParam" and md: "md \<in> guarded_modes" and p: "named p" using ok g ParamHeader by auto
  have v: "md = MATCH_CONTAINS \<and> trimmed v \<and> calm v \<or> is_numeric v"
    using ok g ParamHeader by (auto simp: guarded_modes_def match_defs split: if_splits)
  have tx: "condition_text c = guard_text p @ '' && '' @ guarded_text p md v"
    unfolding ParamHeader src by (rule text_guarded [OF p md]) (use v in auto)
  have cp: "calm p" using p by (simp add: named_def plain_calm)
  have "calm (quote (trim v))" "calm v" using v by (auto simp: trim_id)
  then have "CHR ''|'' \<notin> set (condition_text c)"
    unfolding tx guard_text_def guarded_text_def
    using call_no [OF _ cp, of "''param''"] calm_no [of "quote (trim v)"] calm_no [of v] calm_no [OF calm_num_op(1), of md] by simp
  then have "wrap_if many (condition_text c) = condition_text c" by (simp add: wrap_if_def wrap_or_def no_bar_include)
  moreover have "pieces many c = [guard_text p, guarded_text p md v]" using g by (simp add: pieces_def ParamHeader)
  ultimately show ?thesis using tx guard_piece [OF p] guard_read [OF p] guarded_piece [OF p md v] guarded_read [OF p md] by auto
next
  case TimeCond
  with g show ?thesis by simp
qed

subsection \<open>Groups\<close>

lemma all_match_Match: "all_match (map Match xs) = Match xs"
  by (induction xs) auto

lemma all_match_NoMatch: "Throws \<notin> set xs \<Longrightarrow> NoMatch \<in> set xs \<Longrightarrow> all_match xs = NoMatch"
proof (induction xs)
  case (Cons x xs)
  have "all_match ys \<noteq> Throws" if "Throws \<notin> set ys" for ys :: "'a outcome list"
    using that by (induction ys) (auto split: outcome.splits)
  with Cons show ?case by (cases x) (auto split: outcome.splits)
qed simp

lemma join_concat: "pss \<noteq> [] \<Longrightarrow> \<forall>ps \<in> set pss. ps \<noteq> [] \<Longrightarrow> join sep (concat pss) = join sep (map (join sep) pss)"
proof (induction pss)
  case (Cons ps pss)
  have app: "join sep (xs @ ys) = join sep xs @ sep @ join sep ys" if "xs \<noteq> []" "ys \<noteq> []" for xs ys :: "'a list list"
    using that by (induction xs rule: induct_list012) (auto simp: join_Cons)
  show ?case
  proof (cases "pss = []")
    case False
    then obtain q qs where q: "pss = q # qs" by (cases pss) auto
    then have "concat pss \<noteq> []" using Cons.prems by auto
    with Cons q app [of ps "concat pss"] show ?thesis by simp
  qed simp
qed simp

lemma num_run_chars: "n \<noteq> [] \<Longrightarrow> \<forall>c \<in> set n. num_char c \<Longrightarrow> r = [] \<or> \<not> num_char (hd r) \<Longrightarrow> num_run (n @ r) = Some (n, r)"
  using takeWhile_stop [of n num_char r] by (simp add: num_run_def)

definition factor_text :: "string \<Rightarrow> string \<Rightarrow> string" where
  "factor_text body m = CHR ''('' # body @ '' ? '' @ m @ '' : 1)''"

lemma match_factor_text: "is_numeric m \<Longrightarrow> body \<noteq> [] \<Longrightarrow> match_factor (factor_text body m) = Some (body, m)"
proof -
  assume m: "is_numeric m" and b: "body \<noteq> []"
  have r: "rev (body @ '' ? '' @ m @ '' : 1)'') = rev '' : 1)'' @ rev m @ rev '' ? '' @ rev body" by simp
  have n: "num_run (rev m @ rev '' ? '' @ rev body) = Some (rev m, rev '' ? '' @ rev body)"
    by (rule num_run_chars) (use numeric_nonempty [OF m] numeric_chars [OF m] in auto)
  show ?thesis
    unfolding match_factor_def factor_text_def using b
    by (simp add: r n strip_prefix_append del: rev_append rev.simps append_assoc append_Cons)
qed

definition ok_group :: "RequestRuleGroup \<Rightarrow> bool" where
  "ok_group g \<longleftrightarrow> conditions g \<noteq> [] \<and> (\<forall>c \<in> set (conditions g). ok_cond c) \<and> is_numeric (multiplier g)"

definition group_pieces :: "RequestRuleGroup \<Rightarrow> string list" where
  "group_pieces g = concat (map (pieces (length (conditions g) \<noteq> 1)) (conditions g))"

lemma pieces_cases:
  assumes ok: "ok_cond c"
  shows "pieces many c \<noteq> []" "\<forall>t \<in> set (pieces many c). piece t" "join '' && '' (pieces many c) = wrap_if many (condition_text c)"
    "\<forall>t \<in> set (pieces many c). tryParseRequestCondition t \<noteq> Throws"
proof -
  have "pieces many c \<noteq> [] \<and> (\<forall>t \<in> set (pieces many c). piece t) \<and> join '' && '' (pieces many c) = wrap_if many (condition_text c)
    \<and> (\<forall>t \<in> set (pieces many c). tryParseRequestCondition t \<noteq> Throws)"
  proof (cases "guarded c")
    case True
    then obtain t u d where "pieces many c = [t, u]" "wrap_if many (condition_text c) = t @ '' && '' @ u" "piece t" "piece u"
      "tryParseRequestCondition t = Match d" "tryParseRequestCondition u = NoMatch"
      using pieces_guarded [OF ok True, of many] by blast
    then show ?thesis by simp
  next
    case False
    then obtain t where "pieces many c = [t]" "wrap_if many (condition_text c) = t" "piece t" "tryParseRequestCondition t = Match c"
      using pieces_plain [OF ok False, of many] by blast
    then show ?thesis by simp
  qed
  then show "pieces many c \<noteq> []" "\<forall>t \<in> set (pieces many c). piece t" "join '' && '' (pieces many c) = wrap_if many (condition_text c)"
    "\<forall>t \<in> set (pieces many c). tryParseRequestCondition t \<noteq> Throws" by blast+
qed

lemma wrap_nonempty: "ok_cond c \<Longrightarrow> wrap_if many (condition_text c) \<noteq> []"
proof -
  assume ok: "ok_cond c"
  obtain t ts where p: "pieces many c = t # ts" using pieces_cases(1) [OF ok, of many] by (cases "pieces many c") auto
  then have "t \<noteq> []" using pieces_cases(2) [OF ok, of many] by (simp add: piece_def)
  then have "join '' && '' (pieces many c) \<noteq> []" unfolding p using length_join_hd [of t "'' && ''" ts] by auto
  then show ?thesis using pieces_cases(3) [OF ok] by simp
qed

lemma group_pieces_props:
  assumes g: "ok_group g"
  shows "group_pieces g \<noteq> []" "\<forall>t \<in> set (group_pieces g). piece t" "Throws \<notin> tryParseRequestCondition ` set (group_pieces g)"
    "join '' && '' (group_pieces g) = join '' && '' (map (\<lambda>c. wrap_if (length (conditions g) \<noteq> 1) (condition_text c)) (conditions g))"
proof -
  define many where "many = (length (conditions g) \<noteq> 1)"
  have ok: "ok_cond c" if "c \<in> set (conditions g)" for c using g that by (simp add: ok_group_def)
  have ne: "map (pieces many) (conditions g) \<noteq> []" "\<forall>ps \<in> set (map (pieces many) (conditions g)). ps \<noteq> []"
    using g pieces_cases(1) ok by (auto simp: ok_group_def)
  have "map (join '' && '') (map (pieces many) (conditions g)) = map (\<lambda>c. wrap_if many (condition_text c)) (conditions g)"
    using pieces_cases(3) [OF ok] by simp
  then show "join '' && '' (group_pieces g) = join '' && '' (map (\<lambda>c. wrap_if (length (conditions g) \<noteq> 1) (condition_text c)) (conditions g))"
    unfolding group_pieces_def many_def [symmetric] join_concat [OF ne] by (rule arg_cong)
  show "group_pieces g \<noteq> []" using ne by (cases "conditions g") (auto simp: group_pieces_def many_def)
  show "\<forall>t \<in> set (group_pieces g). piece t" using pieces_cases(2) [OF ok] unfolding group_pieces_def by auto
  show "Throws \<notin> tryParseRequestCondition ` set (group_pieces g)"
  proof
    assume "Throws \<in> tryParseRequestCondition ` set (group_pieces g)"
    then obtain t c where "c \<in> set (conditions g)" "t \<in> set (pieces many c)" "tryParseRequestCondition t = Throws"
      unfolding group_pieces_def many_def by force
    then show False using pieces_cases(4) [OF ok] by blast
  qed
qed

lemma group_text: "ok_group g \<Longrightarrow> buildRuleGroupFactor g = factor_text (join '' && '' (group_pieces g)) (multiplier g)"
proof -
  assume g: "ok_group g"
  have ok: "ok_cond c" if "c \<in> set (conditions g)" for c using g that by (simp add: ok_group_def)
  have texts: "map buildRequestConditionExpr (conditions g) = map condition_text (conditions g)" using ok build_ok by simp
  have "condition_text c \<noteq> []" if "c \<in> set (conditions g)" for c using wrap_nonempty [OF ok [OF that], of False] by (simp add: wrap_if_def)
  then have keep: "filter (\<lambda>e. e \<noteq> []) (map condition_text (conditions g)) = map condition_text (conditions g)"
    by (auto simp: filter_id_conv)
  have m: "is_numeric (multiplier g)" using g by (simp add: ok_group_def)
  have ne: "conditions g \<noteq> []" using g by (simp add: ok_group_def)
  have "join '' && '' (group_pieces g) = (if length (conditions g) = 1 then hd (map condition_text (conditions g))
      else join '' && '' (map wrap_or (map condition_text (conditions g))))"
  proof (cases "length (conditions g) = 1")
    case True
    then obtain c where "conditions g = [c]" by (auto simp: length_Suc_conv)
    then show ?thesis using group_pieces_props(4) [OF g] by (simp add: wrap_if_def)
  next
    case False
    then show ?thesis using group_pieces_props(4) [OF g] by (simp add: wrap_if_def comp_def)
  qed
  then show ?thesis
    unfolding buildRuleGroupFactor_def texts keep Let_def numeric_trim [OF m] factor_text_def using m ne by simp
qed

lemma group_body_nonempty: "ok_group g \<Longrightarrow> join '' && '' (group_pieces g) \<noteq> []"
proof -
  assume g: "ok_group g"
  obtain t ts where p: "group_pieces g = t # ts" using group_pieces_props(1) [OF g] by (cases "group_pieces g") auto
  then have "t \<noteq> []" using group_pieces_props(2) [OF g] by (simp add: piece_def)
  then show ?thesis unfolding p using length_join_hd [of t "'' && ''" ts] by auto
qed

lemma balanced_join: "\<forall>t \<in> set ts. balanced t \<Longrightarrow> balanced sep \<Longrightarrow> balanced (join sep ts)"
proof (induction ts rule: induct_list012)
  case (3 x y zs)
  then show ?case by (simp add: balanced_append)
qed (simp_all add: balanced_def)

lemma group_factor: "ok_group g \<Longrightarrow> factor (buildRuleGroupFactor g)"
proof -
  assume g: "ok_group g"
  have "balanced '' && ''" "balanced '' ? ''" "balanced '' : 1''" by (simp_all add: balanced_def step_depth_def)
  moreover have "balanced (multiplier g)" using g by (intro balanced_calm) (simp add: ok_group_def)
  moreover have "balanced (join '' && '' (group_pieces g))"
    using group_pieces_props(2) [OF g] calculation(1) by (intro balanced_join) (simp_all add: piece_def)
  ultimately have "balanced (join '' && '' (group_pieces g) @ '' ? '' @ multiplier g @ '' : 1'')" by (intro balanced_append)
  moreover have "buildRuleGroupFactor g = CHR ''('' # (join '' && '' (group_pieces g) @ '' ? '' @ multiplier g @ '' : 1'') @ [CHR '')'']"
    by (simp add: group_text [OF g] factor_text_def)
  ultimately show ?thesis unfolding factor_def by blast
qed

text \<open>A group is read back, unless one of its conditions is guarded.\<close>

lemma group_read:
  assumes g: "ok_group g"
  shows "tryParseRuleGroupFactor (buildRuleGroupFactor g) = (if \<exists>c \<in> set (conditions g). guarded c then NoMatch else Match g)"
proof -
  define outs where "outs = map tryParseRequestCondition (group_pieces g)"
  define many where "many = (length (conditions g) \<noteq> 1)"
  have ok: "ok_cond c" if "c \<in> set (conditions g)" for c using g that by (simp add: ok_group_def)
  have m: "is_numeric (multiplier g)" using g by (simp add: ok_group_def)
  have "map (\<lambda>ap. tryParseRequestCondition (trim ap)) (group_pieces g) = outs"
    using group_pieces_props(2) [OF g] by (simp add: outs_def piece_def trim_id)
  then have read: "tryParseRuleGroupFactor (buildRuleGroupFactor g)
      = (case all_match outs of Throws \<Rightarrow> Throws | NoMatch \<Rightarrow> NoMatch
         | Match cs \<Rightarrow> if cs = [] then NoMatch else Match \<lparr>conditions = cs, multiplier = multiplier g\<rparr>)"
    by (simp add: tryParseRuleGroupFactor_def group_text [OF g] match_factor_text [OF m group_body_nonempty [OF g]]
        split_pieces [OF group_pieces_props(1,2) [OF g]])
  show ?thesis
  proof (cases "\<exists>c \<in> set (conditions g). guarded c")
    case True
    then obtain c where c: "c \<in> set (conditions g)" "guarded c" by blast
    obtain t u where "pieces many c = [t, u]" "tryParseRequestCondition u = NoMatch"
      using pieces_guarded [OF ok [OF c(1)] c(2), of many] by blast
    then have "NoMatch \<in> set outs" using c(1) unfolding outs_def group_pieces_def many_def by force
    moreover have "Throws \<notin> set outs" using group_pieces_props(3) [OF g] by (simp add: outs_def)
    ultimately show ?thesis using True by (simp add: read all_match_NoMatch)
  next
    case False
    have one: "\<exists>t. pieces many c = [t] \<and> tryParseRequestCondition t = Match c" if "c \<in> set (conditions g)" for c
      using pieces_plain [OF ok [OF that], of many] False that by blast
    have "\<forall>c \<in> set cs. \<exists>t. pieces many c = [t] \<and> tryParseRequestCondition t = Match c
      \<Longrightarrow> map tryParseRequestCondition (concat (map (pieces many) cs)) = map Match cs" for cs
      by (induction cs) auto
    then have "outs = map Match (conditions g)" using one by (simp add: outs_def group_pieces_def many_def)
    moreover have "conditions g \<noteq> []" using g by (simp add: ok_group_def)
    ultimately show ?thesis using False by (simp add: read all_match_Match)
  qed
qed

subsection \<open>Products of groups\<close>

lemma build_factors:
  "\<forall>g \<in> set gs. ok_group g \<Longrightarrow> buildRequestRuleExpr gs = join '' * '' (map buildRuleGroupFactor gs)"
  "\<forall>g \<in> set gs. ok_group g \<Longrightarrow> \<forall>f \<in> set (map buildRuleGroupFactor gs). factor f"
proof -
  assume g: "\<forall>g \<in> set gs. ok_group g"
  then show f: "\<forall>f \<in> set (map buildRuleGroupFactor gs). factor f" using group_factor by simp
  then have "filter (\<lambda>e. e \<noteq> []) (map buildRuleGroupFactor gs) = map buildRuleGroupFactor gs" using factor_trim(2) by (auto simp: filter_id_conv)
  then show "buildRequestRuleExpr gs = join '' * '' (map buildRuleGroupFactor gs)" by (simp add: buildRequestRuleExpr_def)
qed

lemma join_factors: 
  assumes "fs \<noteq> []" "\<forall>f \<in> set fs. factor f"
  shows "trim (join '' * '' fs) = join '' * '' fs" "join '' * '' fs \<noteq> []"
proof -
  obtain f rest where f: "fs = f # rest" using assms(1) by (cases fs) auto
  then obtain s where "f = CHR ''('' # s" using assms(2) by (auto simp: factor_def)
  then have hd: "\<exists>t. join '' * '' fs = CHR ''('' # t" by (cases rest) (simp_all add: f)
  have last: "\<exists>t. join '' * '' fs = t @ [CHR '')'']"
    using assms
  proof (induction fs rule: induct_list012)
    case (2 x)
    then obtain s where "x = (CHR ''('' # s) @ [CHR '')'']" by (auto simp: factor_def)
    then show ?case unfolding join.simps by blast
  next
    case (3 x y zs)
    then obtain t where "join '' * '' (y # zs) = t @ [CHR '')'']" by auto
    then show ?case by (intro exI [of _ "x @ '' * '' @ t"]) simp
  qed simp
  have "\<not> is_ws (hd (join '' * '' fs))" using hd by (auto simp: is_ws_def)
  moreover have "\<not> is_ws (last (join '' * '' fs))" using last by (auto simp: is_ws_def)
  ultimately have "trimmed (join '' * '' fs)" by (simp add: trimmed_by_def)
  then show "trim (join '' * '' fs) = join '' * '' fs" by (rule trim_id)
  from hd show "join '' * '' fs \<noteq> []" by auto
qed

lemma rules_read:
  assumes g: "\<forall>g \<in> set gs. ok_group g"
  shows "tryParseRequestRuleExpr (buildRequestRuleExpr gs)
    = (if \<exists>g \<in> set gs. \<exists>c \<in> set (conditions g). guarded c then NoMatch else Match gs)"
proof (cases "gs = []")
  case True
  then show ?thesis by (simp add: tryParseRequestRuleExpr_def buildRequestRuleExpr_def)
next
  case False
  let ?fs = "map buildRuleGroupFactor gs"
  have ne: "?fs \<noteq> []" using False by simp
  have read: "tryParseRequestRuleExpr (buildRequestRuleExpr gs) = all_match (map tryParseRuleGroupFactor ?fs)"
    unfolding build_factors(1) [OF g] tryParseRequestRuleExpr_def Let_def join_factors(1) [OF ne build_factors(2) [OF g]]
    using join_factors(2) [OF ne build_factors(2) [OF g]] split_factors [OF ne build_factors(2) [OF g]] by simp
  have outs: "map tryParseRuleGroupFactor ?fs = map (\<lambda>g. if \<exists>c \<in> set (conditions g). guarded c then NoMatch else Match g) gs"
    using g group_read by simp
  show ?thesis
  proof (cases "\<exists>g \<in> set gs. \<exists>c \<in> set (conditions g). guarded c")
    case True
    have "all_match (map (\<lambda>g. if \<exists>c \<in> set (conditions g). guarded c then NoMatch else Match g) gs) = NoMatch"
      by (rule all_match_NoMatch) (use True in auto)
    with True show ?thesis by (simp only: read outs if_True)
  next
    case False
    then have "map (\<lambda>g. if \<exists>c \<in> set (conditions g). guarded c then NoMatch else Match g) gs = map Match gs" by simp
    with False show ?thesis by (simp only: read outs all_match_Match if_False)
  qed
qed

text \<open>
  C6: what the rule editor builds is read back: for groups of acceptable conditions with numeric multipliers the
  parser returns exactly the groups that were built - unless a condition compares a parameter or looks for a text in it.
  Such a condition is written as a conjunction with a nil test, the parser splits the conjunction before it looks at the
  conditions, and the whole text is not recognised.
\<close>

theorem rules_roundtrip:
  "\<forall>g \<in> set gs. ok_group g \<Longrightarrow>
   tryParseRequestRuleExpr (buildRequestRuleExpr gs)
     = (if \<exists>g \<in> set gs. \<exists>c \<in> set (conditions g). guarded c then NoMatch else Match gs)"
  by (rule rules_read)

definition demoRules :: "RequestRuleGroup list" where
  "demoRules =
     [\<lparr>conditions = [ParamHeader SHeader ''x-tier'' MATCH_EQ ''pro'', TimeCond ''hour'' ''UTC'' MATCH_RANGE '''' ''21'' ''6''], multiplier = ''0.5''\<rparr>,
      \<lparr>conditions = [ParamHeader SParam ''stream'' MATCH_EXISTS ''''], multiplier = ''2''\<rparr>]"

definition demoGuarded :: "RequestRuleGroup list" where
  "demoGuarded = [\<lparr>conditions = [ParamHeader SParam ''n'' MATCH_GT ''3''], multiplier = ''2''\<rparr>]"

lemma rules_roundtrip_witness:
  "tryParseRequestRuleExpr (buildRequestRuleExpr demoRules) = Match demoRules
   \<and> tryParseRequestRuleExpr (buildRequestRuleExpr demoGuarded) = NoMatch"
proof -
  have "\<forall>g \<in> set demoRules. ok_group g" by code_simp
  moreover have "\<not> (\<exists>g \<in> set demoRules. \<exists>c \<in> set (conditions g). guarded c)" by code_simp
  moreover have "\<forall>g \<in> set demoGuarded. ok_group g" by code_simp
  moreover have "\<exists>g \<in> set demoGuarded. \<exists>c \<in> set (conditions g). guarded c" by code_simp
  ultimately show ?thesis using rules_roundtrip [of demoRules] rules_roundtrip [of demoGuarded] by presburger
qed

subsection \<open>Splitting what was combined\<close>

lemma parens_inside: "inside d s \<Longrightarrow> parens_loop d (s @ t) = parens_loop (depth_after d s) t"
  by (induction s arbitrary: d) (auto simp: Let_def)

lemma full_parens: "balanced b \<Longrightarrow> hasFullOuterParens (CHR ''('' # b @ [CHR '')''])"
proof -
  assume b: "balanced b"
  have "inside 0 (CHR ''('' # b)" "depth_after 0 (CHR ''('' # b) = 1" using b by (simp_all add: balanced_def step_depth_def)
  then have "parens_loop 0 ((CHR ''('' # b) @ '')'') = parens_loop 1 '')''" using parens_inside by metis
  then show ?thesis by (simp add: hasFullOuterParens_def ends_with_def starts_with_def step_depth_def)
qed

lemma unwrap_once: "balanced b \<Longrightarrow> trimmed b \<Longrightarrow> \<not> hasFullOuterParens b \<Longrightarrow> unwrapOuterParens (CHR ''('' # b @ [CHR '')'']) = b"
proof -
  assume b: "balanced b" and t: "trimmed b" and n: "\<not> hasFullOuterParens b"
  have "factor (CHR ''('' # b @ [CHR '')''])" using b by (auto simp: factor_def)
  then have tr: "trim (CHR ''('' # b @ [CHR '')'']) = CHR ''('' # b @ [CHR '')'']" by (rule factor_trim)
  have "unwrap_loop b = b" using n unwrap_loop.simps [of b] by simp
  then show ?thesis
    unfolding unwrapOuterParens_def tr using full_parens [OF b] unwrap_loop.simps [of "CHR ''('' # b @ [CHR '')'']"] trim_id [OF t]
    by (simp add: butlast_append)
qed

lemma rule_factor: "ok_group g \<Longrightarrow> is_rule (buildRuleGroupFactor g) = Match (\<not> (\<exists>c \<in> set (conditions g). guarded c))"
proof -
  assume g: "ok_group g"
  have "filter (\<lambda>e. e \<noteq> []) [buildRuleGroupFactor g] = [buildRuleGroupFactor g]" using factor_trim(2) [OF group_factor [OF g]] by simp
  then have "buildRequestRuleExpr [g] = buildRuleGroupFactor g" by (simp add: buildRequestRuleExpr_def)
  then show ?thesis using rules_read [of "[g]"] g by (simp add: is_rule_def split: if_splits)
qed

text \<open>A price expression that the split leaves alone: balanced, without outer parentheses, and not itself a rule.\<close>

definition base_expr :: "string \<Rightarrow> bool" where
  "base_expr b \<longleftrightarrow> b \<noteq> [] \<and> trimmed b \<and> balanced b \<and> \<not> hasFullOuterParens b
     \<and> is_rule (CHR ''('' # b @ [CHR '')'']) = Match False"

lemma split_combined:
  assumes b: "base_expr b" and ne: "gs \<noteq> []" and g: "\<forall>g \<in> set gs. ok_group g"
  shows "splitBillingExprAndRequestRules (combineBillingExpr b (buildRequestRuleExpr gs)) =
    (if \<exists>g \<in> set gs. \<exists>c \<in> set (conditions g). guarded c
     then Match \<lparr>billingExpr = combineBillingExpr b (buildRequestRuleExpr gs), requestRuleExpr = ''''\<rparr>
     else Match \<lparr>billingExpr = b, requestRuleExpr = buildRequestRuleExpr gs\<rparr>)"
proof -
  define base where "base = CHR ''('' # b @ [CHR '')'']"
  define fs where "fs = map buildRuleGroupFactor gs"
  define bad :: "RequestRuleGroup \<Rightarrow> bool" where "bad g \<longleftrightarrow> (\<exists>c \<in> set (conditions g). guarded c)" for g
  have bp: "b \<noteq> []" "trimmed b" "balanced b" "\<not> hasFullOuterParens b" "is_rule base = Match False"
    using b by (simp_all add: base_expr_def base_def)
  have fac: "factor base" using bp(3) by (auto simp: factor_def base_def)
  have fs: "fs \<noteq> []" "\<forall>f \<in> set fs. factor f" using ne build_factors(2) [OF g] by (simp_all add: fs_def)
  have build: "buildRequestRuleExpr gs = join '' * '' fs" using build_factors(1) [OF g] by (simp add: fs_def)
  have comb: "combineBillingExpr b (buildRequestRuleExpr gs) = join '' * '' (base # fs)"
    unfolding build using bp(1) join_factors [OF fs] fs(1)
    by (simp add: combineBillingExpr_def trim_id [OF bp(2)] base_def join_Cons)
  have all: "\<forall>f \<in> set (base # fs). factor f" using fac fs(2) by simp
  note parts = split_factors [OF _ all, simplified] and whole = join_factors [OF _ all, simplified]
  have rules: "map is_rule (base # fs) = map Match (False # map (\<lambda>g. \<not> bad g) gs)"
    using bp(5) g rule_factor by (simp add: fs_def bad_def)
  have read: "all_match (map is_rule (base # fs)) = Match (False # map (\<lambda>g. \<not> bad g) gs)" unfolding rules by (rule all_match_Match)
  have keep: "map fst (filter snd (zip (base # fs) (False # map (\<lambda>g. \<not> bad g) gs))) = map buildRuleGroupFactor (filter (\<lambda>g. \<not> bad g) gs)"
    unfolding fs_def by (induction gs) auto
  have drop: "map fst (filter (\<lambda>p. \<not> snd p) (zip (base # fs) (False # map (\<lambda>g. \<not> bad g) gs))) = base # map buildRuleGroupFactor (filter bad gs)"
    unfolding fs_def by (induction gs) auto
  have eq: "splitBillingExprAndRequestRules (join '' * '' (base # fs)) =
    (if filter (\<lambda>g. \<not> bad g) gs = [] \<or> filter bad gs \<noteq> [] then Match \<lparr>billingExpr = join '' * '' (base # fs), requestRuleExpr = ''''\<rparr>
     else Match \<lparr>billingExpr = unwrapOuterParens base, requestRuleExpr = join '' * '' (map buildRuleGroupFactor (filter (\<lambda>g. \<not> bad g) gs))\<rparr>)"
    unfolding splitBillingExprAndRequestRules_def Let_def whole(1) parts read outcome.case keep drop
    using whole(2) fs(1) by simp
  have un: "unwrapOuterParens base = b" unfolding base_def by (rule unwrap_once [OF bp(3,2,4)])
  show ?thesis
  proof (cases "\<exists>g \<in> set gs. bad g")
    case True
    then have "filter bad gs \<noteq> []" by (auto simp: filter_empty_conv)
    with True show ?thesis unfolding comb eq bad_def by simp
  next
    case False
    then have "filter bad gs = []" "filter (\<lambda>g. \<not> bad g) gs = gs" by (auto simp: filter_empty_conv filter_id_conv)
    with False ne show ?thesis unfolding comb eq un bad_def by (simp add: build fs_def)
  qed
qed

text \<open>
  The split undoes the combination: a price expression with its rules is taken apart into the same two texts. When
  some rule has a condition that compares a parameter or looks for a text in it, nothing is taken apart: the whole
  product becomes the price expression and the rules are empty.
\<close>

theorem split_undoes_combine:
  "base_expr b \<Longrightarrow> gs \<noteq> [] \<Longrightarrow> \<forall>g \<in> set gs. ok_group g \<Longrightarrow>
   splitBillingExprAndRequestRules (combineBillingExpr b (buildRequestRuleExpr gs)) =
    (if \<exists>g \<in> set gs. \<exists>c \<in> set (conditions g). guarded c
     then Match \<lparr>billingExpr = combineBillingExpr b (buildRequestRuleExpr gs), requestRuleExpr = ''''\<rparr>
     else Match \<lparr>billingExpr = b, requestRuleExpr = buildRequestRuleExpr gs\<rparr>)"
  by (rule split_combined)

definition demoBase :: string where
  "demoBase = ''tier(\"base\", p * 2.5 + c * 15)''"

lemma base_exprI:
  assumes "b \<noteq> []" "trimmed b" "depth_after 0 b = 0" "inside 1 b" "\<not> hasFullOuterParens b" "is_rule (CHR ''('' # b @ [CHR '')'']) = Match False"
  shows "base_expr b"
proof -
  have shift: "depth_after (d + k) s = depth_after d s + k" for d k s
  proof (induction s arbitrary: d)
    case (Cons c s)
    have "step_depth c (d + k) = step_depth c d + k" by (simp add: step_depth_def)
    with Cons show ?case by simp
  qed simp
  have mono: "inside d s \<Longrightarrow> d \<le> e \<Longrightarrow> inside e s" for d e s
  proof (induction s arbitrary: d e)
    case (Cons c s)
    then have "step_depth c d \<le> step_depth c e" by (simp add: step_depth_def)
    with Cons show ?case by auto
  qed simp
  have "depth_after d b = d" for d using shift [of 0 d b] assms(3) by simp
  moreover have "inside d b" if "0 < d" for d using mono [OF assms(4), of d] that by simp
  ultimately show ?thesis using assms by (simp add: base_expr_def balanced_def)
qed

lemma split_undoes_combine_witness:
  "splitBillingExprAndRequestRules (combineBillingExpr demoBase (buildRequestRuleExpr demoRules))
     = Match \<lparr>billingExpr = demoBase, requestRuleExpr = buildRequestRuleExpr demoRules\<rparr>"
proof -
  have b: "base_expr demoBase"
    by (rule base_exprI) code_simp+
  have "demoRules \<noteq> []" "\<forall>g \<in> set demoRules. ok_group g" "\<not> (\<exists>g \<in> set demoRules. \<exists>c \<in> set (conditions g). guarded c)" by code_simp+
  then show ?thesis using split_undoes_combine [OF b, of demoRules] by presburger
qed

end
