(* ===== verification/HtmlSanitizer.thy ===== *)
theory HtmlSanitizer
  imports JsPrelude
begin

text \<open>
  The HTML sanitizer (\<^verbatim>\<open>lib/sanitize-html.ts\<close>) on the document tree, and the check of redirect targets
  (\<^verbatim>\<open>lib/redirect.ts\<close>). The parser and the serialiser of the browser are arguments of \<open>sanitizeHtml\<close>; element
  and attribute names are as the parser stores them.
\<close>

subsection \<open>Lists of names\<close>

definition ALLOWED_TAGS :: "string list" where
  "ALLOWED_TAGS =
     [''a'', ''b'', ''strong'', ''i'', ''em'', ''u'', ''s'', ''small'', ''sub'', ''sup'', ''br'', ''p'', ''div'', ''span'',
      ''h1'', ''h2'', ''h3'', ''h4'', ''h5'', ''h6'', ''ul'', ''ol'', ''li'', ''dl'', ''dt'', ''dd'', ''img'', ''figure'',
      ''figcaption'', ''table'', ''thead'', ''tbody'', ''tfoot'', ''tr'', ''th'', ''td'', ''blockquote'', ''pre'', ''code'',
      ''hr'', ''details'', ''summary'', ''mark'', ''abbr'', ''cite'', ''kbd'']"

definition ALLOWED_ATTRS :: "string list" where
  "ALLOWED_ATTRS =
     [''class'', ''id'', ''title'', ''alt'', ''width'', ''height'', ''align'', ''dir'', ''lang'', ''target'', ''rel'', ''start'',
      ''type'', ''colspan'', ''rowspan'', ''scope'', ''headers'']"

definition URL_ATTRS :: "string list" where
  "URL_ATTRS =
     [''href'', ''src'', ''srcset'', ''poster'', ''cite'', ''action'', ''formaction'', ''background'', ''longdesc'', ''usemap'',
      ''xlink:href'']"

definition SAFE_PROTOCOLS :: "string list" where
  "SAFE_PROTOCOLS = [''http:'', ''https:'', ''mailto:'', ''tel:'', ''ftp:'']"

definition DANGEROUS_TAGS :: "string list" where
  "DANGEROUS_TAGS =
     [''script'', ''iframe'', ''object'', ''embed'', ''link'', ''meta'', ''base'', ''form'', ''input'', ''button'', ''textarea'',
      ''select'', ''option'', ''optgroup'', ''frame'', ''frameset'', ''applet'', ''audio'', ''video'', ''source'', ''track'',
      ''svg'', ''math'', ''template'', ''style'', ''title'', ''head'', ''body'']"

subsection \<open>URLs\<close>

definition is_alpha :: "char \<Rightarrow> bool" where
  "is_alpha c \<longleftrightarrow> (let n = of_char c :: nat in 65 \<le> n \<and> n \<le> 90 \<or> 97 \<le> n \<and> n \<le> 122)"

definition scheme_char :: "char \<Rightarrow> bool" where
  "scheme_char c \<longleftrightarrow> is_alpha c \<or> 48 \<le> (of_char c :: nat) \<and> (of_char c :: nat) \<le> 57 \<or> c \<in> {CHR ''+'', CHR ''.'', CHR ''-''}"

text \<open>\<open>/^[a-zA-Z][a-zA-Z0-9+.-]*:/\<close>: the text before the colon, when it matches.\<close>

definition scheme_of :: "string \<Rightarrow> string option" where
  "scheme_of s =
     (case s of
        [] \<Rightarrow> None
      | c # r \<Rightarrow> if is_alpha c \<and> starts_with '':'' (dropWhile scheme_char r) then Some (c # takeWhile scheme_char r) else None)"

definition isSafeUrl :: "string \<Rightarrow> bool" where
  "isSafeUrl v =
     (if v = [] then False
      else (let trimmed = trim v in
        if trimmed = [] then False
        else if starts_with ''//'' trimmed then False
        else if starts_with ''#'' trimmed \<or> starts_with ''/'' trimmed \<or> starts_with ''./'' trimmed \<or> starts_with ''../'' trimmed
             \<or> starts_with ''?'' trimmed then True
        else (case scheme_of trimmed of
                Some sch \<Rightarrow> lower sch @ '':'' \<in> set SAFE_PROTOCOLS
              | None \<Rightarrow> True)))"

subsection \<open>Inline styles\<close>

text \<open>A word at the start of a text, whatever the case of its letters; then white space and a closing character.\<close>

fun strip_word :: "string \<Rightarrow> string \<Rightarrow> string option" where
  "strip_word [] s = Some s"
| "strip_word (w # ws) [] = None"
| "strip_word (w # ws) (c # s) =
     (if (of_char c :: nat) < 128 \<and> lower_char c = w \<or> c = w then strip_word ws s else None)"

definition match_css :: "string \<Rightarrow> char option \<Rightarrow> string \<Rightarrow> string option" where
  "match_css w fin s =
     (case strip_word w s of
        None \<Rightarrow> None
      | Some r \<Rightarrow>
          (case fin of
             None \<Rightarrow> Some r
           | Some f \<Rightarrow> (case dropWhile is_ws r of [] \<Rightarrow> None | c # r' \<Rightarrow> if c = f then Some r' else None)))"

lemma strip_word_shorter: "strip_word ws s = Some r \<Longrightarrow> length r + length ws = length s"
  by (induction ws s rule: strip_word.induct) (auto split: if_splits)

lemma match_css_shorter: "match_css w fin s = Some r \<Longrightarrow> length r + length w \<le> length s"
proof -
  assume m: "match_css w fin s = Some r"
  then obtain t where t: "strip_word w s = Some t" by (auto simp: match_css_def split: option.splits)
  have "length (dropWhile is_ws t) \<le> length t" by (rule length_dropWhile_le)
  then have "length r \<le> length t" using m t by (auto simp: match_css_def split: option.splits list.splits if_splits)
  then show ?thesis using strip_word_shorter [OF t] by simp
qed

function replace_css :: "string \<Rightarrow> char option \<Rightarrow> string \<Rightarrow> string \<Rightarrow> string" where
  "replace_css w fin by_text [] = []"
| "replace_css w fin by_text (c # s) =
     (case (if w = [] then None else match_css w fin (c # s)) of
        Some r \<Rightarrow> by_text @ replace_css w fin by_text r
      | None \<Rightarrow> c # replace_css w fin by_text s)"
  by pat_completeness auto
termination
proof (relation "measure (\<lambda>(w, fin, by_text, s). length s)", simp_all split: if_splits)
  fix w :: string and fin c s r
  assume "w \<noteq> []" "match_css w fin (c # s) = Some r"
  then show "length r < Suc (length s)" using match_css_shorter [of w fin "c # s" r] by (cases w) simp_all
qed

definition SANITIZED :: string where "SANITIZED = '' /*sanitized*/ ''"

definition cleanInlineStyle :: "string option \<Rightarrow> string" where
  "cleanInlineStyle styleValue =
     replace_css ''data'' (Some CHR '':'') '' ''
    (replace_css ''vbscript'' (Some CHR '':'') '' ''
    (replace_css ''javascript'' (Some CHR '':'') '' ''
    (replace_css ''@import'' None SANITIZED
    (replace_css ''expression'' (Some CHR ''('') SANITIZED
    (replace_css ''url'' (Some CHR ''('') SANITIZED (case styleValue of None \<Rightarrow> '''' | Some t \<Rightarrow> t))))))"

subsection \<open>The document tree\<close>

datatype node =
    TextNode string
  | CommentNode string
  | Elem (tagName: string) (attributes: "(string \<times> string) list") (childNodes: "node list")

text \<open>Step 1: the elements with a dangerous tag go with all they contain.\<close>

fun remove_tag :: "string \<Rightarrow> node list \<Rightarrow> node list" where
  "remove_tag t [] = []"
| "remove_tag t (Elem n as cs # ns) =
     (if lower n = t then remove_tag t ns else Elem n as (remove_tag t cs) # remove_tag t ns)"
| "remove_tag t (n # ns) = n # remove_tag t ns"

definition remove_dangerous :: "node list \<Rightarrow> node list" where
  "remove_dangerous ns = fold remove_tag DANGEROUS_TAGS ns"

text \<open>Step 2: an element that is not on the list is replaced by its children, the attributes of the others are checked.\<close>

definition keep_attr :: "string \<times> string \<Rightarrow> bool" where
  "keep_attr a =
     (let nm = lower (fst a) in
      if starts_with ''on'' nm then False
      else if nm \<in> set URL_ATTRS then isSafeUrl (snd a)
      else nm \<in> set ALLOWED_ATTRS)"

fun clean_nodes :: "node list \<Rightarrow> node list" where
  "clean_nodes [] = []"
| "clean_nodes (Elem n as cs # ns) =
     (if lower n \<notin> set ALLOWED_TAGS then clean_nodes cs @ clean_nodes ns
      else Elem n (filter keep_attr as) (clean_nodes cs) # clean_nodes ns)"
| "clean_nodes (n # ns) = n # clean_nodes ns"

text \<open>Step 3: the style attributes.\<close>

fun clean_styles :: "node list \<Rightarrow> node list" where
  "clean_styles [] = []"
| "clean_styles (Elem n as cs # ns) =
     Elem n (if ohas ''style'' as then oput ''style'' (cleanInlineStyle (oget as ''style'')) as else as) (clean_styles cs)
       # clean_styles ns"
| "clean_styles (n # ns) = n # clean_styles ns"

definition sanitize_tree :: "node list \<Rightarrow> node list" where
  "sanitize_tree ns = clean_styles (clean_nodes (remove_dangerous ns))"

definition sanitizeHtml :: "bool \<Rightarrow> (string \<Rightarrow> node list) \<Rightarrow> (node list \<Rightarrow> string) \<Rightarrow> string \<Rightarrow> string" where
  "sanitizeHtml has_document parse serialize html =
     (if html = [] then ''''
      else if \<not> has_document then ''''
      else serialize (sanitize_tree (parse html)))"

subsection \<open>Redirect targets\<close>

definition isInternalPath :: "string \<Rightarrow> bool" where
  "isInternalPath target =
     (if \<not> starts_with ''/'' target then False
      else if starts_with ''//'' target then False
      else if CHR 0x5C \<in> set target then False
      else if scheme_of (tl target) \<noteq> None then False
      else True)"

definition normalizeInternalRedirect :: "string option \<Rightarrow> string option" where
  "normalizeInternalRedirect v =
     (case v of
        None \<Rightarrow> None
      | Some s \<Rightarrow> (let target = trim s in if target = '''' then None else if \<not> isInternalPath target then None else Some target))"

definition resolveInternalRedirect :: "string option \<Rightarrow> string \<Rightarrow> string" where
  "resolveInternalRedirect v fallback = (case normalizeInternalRedirect v of None \<Rightarrow> fallback | Some t \<Rightarrow> t)"

subsection \<open>One pass over the tree\<close>

text \<open>What the three steps amount to, for one node list.\<close>

fun one_pass :: "node list \<Rightarrow> node list" where
  "one_pass [] = []"
| "one_pass (Elem n as cs # ns) =
     (if lower n \<in> set DANGEROUS_TAGS then one_pass ns
      else if lower n \<notin> set ALLOWED_TAGS then one_pass cs @ one_pass ns
      else Elem n (filter keep_attr as) (one_pass cs) # one_pass ns)"
| "one_pass (n # ns) = n # one_pass ns"

fun drop_tags :: "string set \<Rightarrow> node list \<Rightarrow> node list" where
  "drop_tags T [] = []"
| "drop_tags T (Elem n as cs # ns) =
     (if lower n \<in> T then drop_tags T ns else Elem n as (drop_tags T cs) # drop_tags T ns)"
| "drop_tags T (n # ns) = n # drop_tags T ns"

lemma remove_tag_drop: "remove_tag t (drop_tags T ns) = drop_tags (insert t T) ns"
  by (induction T ns rule: drop_tags.induct) auto

lemma drop_none: "drop_tags {} ns = ns"
  by (induction "{} :: string set" ns rule: drop_tags.induct) auto

lemma remove_dangerous_drop: "remove_dangerous ns = drop_tags (set DANGEROUS_TAGS) ns"
proof -
  have "fold remove_tag ts (drop_tags T ns) = drop_tags (T \<union> set ts) ns" for ts T
    by (induction ts arbitrary: T) (simp_all add: remove_tag_drop)
  from this [of DANGEROUS_TAGS "{}"] show ?thesis by (simp add: remove_dangerous_def drop_none)
qed

fun every_elem :: "(string \<Rightarrow> (string \<times> string) list \<Rightarrow> bool) \<Rightarrow> node list \<Rightarrow> bool" where
  "every_elem P [] = True"
| "every_elem P (Elem n as cs # ns) = (P n as \<and> every_elem P cs \<and> every_elem P ns)"
| "every_elem P (n # ns) = every_elem P ns"

lemma every_elem_append [simp]: "every_elem P (xs @ ys) \<longleftrightarrow> every_elem P xs \<and> every_elem P ys"
  by (induction P xs rule: every_elem.induct) auto

lemma no_style: "keep_attr a \<Longrightarrow> fst a \<noteq> ''style''"
proof
  assume "keep_attr a" "fst a = ''style''"
  moreover have "lower ''style'' = ''style''" by code_simp
  moreover have "''style'' \<notin> set URL_ATTRS" "''style'' \<notin> set ALLOWED_ATTRS" by code_simp+
  ultimately show False by (simp add: keep_attr_def split: if_splits)
qed

lemma no_style_attr: "\<forall>a \<in> set as. keep_attr a \<Longrightarrow> \<not> ohas ''style'' as"
  unfolding ohas_def using no_style by fastforce

lemma every_elem_mono: "(\<And>n as. P n as \<Longrightarrow> Q n as) \<Longrightarrow> every_elem P ns \<Longrightarrow> every_elem Q ns"
  by (induction P ns rule: every_elem.induct) auto

lemma clean_styles_id: "every_elem (\<lambda>n as. \<forall>a \<in> set as. keep_attr a) ns \<Longrightarrow> clean_styles ns = ns"
proof (induction ns rule: clean_styles.induct)
  case (2 n as cs ns)
  then have "\<not> ohas ''style'' as" by (intro no_style_attr) simp
  with 2 show ?case by simp
qed simp_all

lemma clean_attrs: "every_elem (\<lambda>n as. \<forall>a \<in> set as. keep_attr a) (clean_nodes ns)"
  by (induction ns rule: clean_nodes.induct) auto

lemma clean_drop: "clean_nodes (drop_tags (set DANGEROUS_TAGS) ns) = one_pass ns"
  by (induction ns rule: one_pass.induct) auto

lemma sanitize_tree_one_pass: "sanitize_tree ns = one_pass ns"
  unfolding sanitize_tree_def clean_styles_id [OF clean_attrs] remove_dangerous_drop by (rule clean_drop)

subsection \<open>What the sanitizer guarantees\<close>

definition safe_elem :: "string \<Rightarrow> (string \<times> string) list \<Rightarrow> bool" where
  "safe_elem n as \<longleftrightarrow> lower n \<in> set ALLOWED_TAGS \<and> lower n \<notin> set DANGEROUS_TAGS
     \<and> (\<forall>(k, v) \<in> set as. \<not> starts_with ''on'' (lower k)
          \<and> (if lower k \<in> set URL_ATTRS then isSafeUrl v else lower k \<in> set ALLOWED_ATTRS))"

lemma safe_elem_keep: "safe_elem n as \<longleftrightarrow> lower n \<in> set ALLOWED_TAGS \<and> lower n \<notin> set DANGEROUS_TAGS \<and> (\<forall>a \<in> set as. keep_attr a)"
  by (auto simp: safe_elem_def keep_attr_def Let_def)

lemma one_pass_safe: "every_elem safe_elem (one_pass ns)"
  by (induction ns rule: one_pass.induct) (auto simp: safe_elem_keep)

lemma one_pass_fixed: "every_elem safe_elem ns \<Longrightarrow> one_pass ns = ns"
  by (induction ns rule: one_pass.induct) (auto simp: safe_elem_keep filter_id_conv)

interpretation sanitizer: projection sanitize_tree "every_elem safe_elem"
  by unfold_locales (simp_all add: sanitize_tree_one_pass one_pass_safe one_pass_fixed)

fun inner_text :: "node list \<Rightarrow> string" where
  "inner_text [] = ''''"
| "inner_text (TextNode t # ns) = t @ inner_text ns"
| "inner_text (CommentNode t # ns) = inner_text ns"
| "inner_text (Elem n as cs # ns) = inner_text cs @ inner_text ns"

lemma inner_text_append [simp]: "inner_text (xs @ ys) = inner_text xs @ inner_text ys"
  by (induction xs rule: inner_text.induct) auto

lemma inner_text_one_pass: "inner_text (one_pass ns) = inner_text (drop_tags (set DANGEROUS_TAGS) ns)"
  by (induction ns rule: one_pass.induct) auto

text \<open>
  C4: the sanitizer on any document tree: every element of the result has an allowed tag, none is dangerous, no
  attribute is an event handler, and each is either an allowed one or a URL attribute with an accepted URL. Exactly the
  documents that are of this kind already are left as they are, a second pass changes nothing, and no text is lost or added
  other than the text within dangerous elements.
\<close>

theorem sanitize_tree_safe:
  "every_elem safe_elem (sanitize_tree ns)
   \<and> (sanitize_tree ns = ns \<longleftrightarrow> every_elem safe_elem ns)
   \<and> sanitize_tree (sanitize_tree ns) = sanitize_tree ns
   \<and> inner_text (sanitize_tree ns) = inner_text (drop_tags (set DANGEROUS_TAGS) ns)"
  using sanitizer.ok_f sanitizer.fixed_iff sanitizer.f_idem inner_text_one_pass by (simp add: sanitize_tree_one_pass)

text \<open>
  The three steps of the sanitizer are equivalent to one pass that drops, unwraps or filters each element. The
  last step has no effect: no style attribute is left by the second, so that inline styles are removed, not cleaned.
\<close>

theorem sanitize_tree_equivalent:
  "sanitize_tree ns = one_pass ns \<and> sanitize_tree ns = clean_nodes (remove_dangerous ns)
   \<and> every_elem (\<lambda>n as. oget as ''style'' = None) (sanitize_tree ns)"
proof -
  have none: "oget as ''style'' = None" if "\<forall>a \<in> set as. keep_attr a" for as :: "(string \<times> string) list"
    using no_style_attr [OF that] by (simp add: ohas_iff)
  have "every_elem (\<lambda>n as. oget as ''style'' = None) (clean_nodes (remove_dangerous ns))"
    by (rule every_elem_mono [OF _ clean_attrs]) (rule none)
  moreover have "sanitize_tree ns = clean_nodes (remove_dangerous ns)"
    unfolding sanitize_tree_def by (rule clean_styles_id [OF clean_attrs])
  ultimately show ?thesis by (simp add: sanitize_tree_one_pass [symmetric])
qed

subsection \<open>What the URL checks guarantee\<close>

lemma scheme_of_hd: "scheme_of (c # r) \<noteq> None \<Longrightarrow> is_alpha c"
  by (simp add: scheme_of_def split: if_splits)

lemma starts_hd: "starts_with (c # p) s \<Longrightarrow> \<exists>r. s = c # r"
  by (auto simp: starts_with_iff)

lemma local_hd:
  "starts_with ''#'' s \<or> starts_with ''/'' s \<or> starts_with ''./'' s \<or> starts_with ''../'' s \<or> starts_with ''?'' s
   \<Longrightarrow> \<exists>c r. s = c # r \<and> c \<in> {CHR ''#'', CHR ''/'', CHR ''.'', CHR ''?''}"
  by (elim disjE; drule starts_hd; elim exE; simp)

lemma local_no_scheme:
  "starts_with ''#'' s \<or> starts_with ''/'' s \<or> starts_with ''./'' s \<or> starts_with ''../'' s \<or> starts_with ''?'' s \<Longrightarrow> scheme_of s = None"
proof -
  assume a: "starts_with ''#'' s \<or> starts_with ''/'' s \<or> starts_with ''./'' s \<or> starts_with ''../'' s \<or> starts_with ''?'' s"
  obtain c r where cr: "s = c # r \<and> c \<in> {CHR ''#'', CHR ''/'', CHR ''.'', CHR ''?''}"
    using local_hd [OF a] by (elim exE) (erule that)
  have "\<forall>x \<in> set ''#/.?''. \<not> is_alpha x" by code_simp
  then have "\<not> is_alpha c" using cr by auto
  with cr scheme_of_hd [of c r] show ?thesis by (cases "scheme_of s") simp_all
qed

definition tab :: string where "tab = [CHR 0x09]"

text \<open>
  A URL attribute is kept exactly when its trimmed value is not empty, does not start with two slashes, and its
  scheme, when it has one, is on the list. A value with a tab inside the name of the scheme, or with a control character before
  it, counts as having no scheme and is kept, whatever the scheme - a browser removes these characters and runs it.
\<close>

theorem isSafeUrl_exact:
  "(isSafeUrl v \<longleftrightarrow> trim v \<noteq> [] \<and> \<not> starts_with ''//'' (trim v)
      \<and> (case scheme_of (trim v) of None \<Rightarrow> True | Some sch \<Rightarrow> lower sch @ '':'' \<in> set SAFE_PROTOCOLS))
   \<and> \<not> isSafeUrl ''javascript:alert(1)''
   \<and> isSafeUrl (''java'' @ tab @ ''script:alert(1)'') \<and> isSafeUrl (CHR 0x01 # ''javascript:alert(1)'')"
proof -
  have "isSafeUrl v \<longleftrightarrow> trim v \<noteq> [] \<and> \<not> starts_with ''//'' (trim v)
      \<and> (case scheme_of (trim v) of None \<Rightarrow> True | Some sch \<Rightarrow> lower sch @ '':'' \<in> set SAFE_PROTOCOLS)"
  proof (cases "starts_with ''#'' (trim v) \<or> starts_with ''/'' (trim v) \<or> starts_with ''./'' (trim v) \<or> starts_with ''../'' (trim v) \<or> starts_with ''?'' (trim v)")
    case True
    have t: "trim v \<noteq> []" using local_hd [OF True] by auto
    then have "v \<noteq> []" by (cases v) simp_all
    note True this t
    then show ?thesis unfolding isSafeUrl_def Let_def local_no_scheme [OF True] by simp
  next
    case False
    have "trim v = [] \<Longrightarrow> \<not> isSafeUrl v" by (simp add: isSafeUrl_def Let_def)
    with False show ?thesis unfolding isSafeUrl_def Let_def by (cases "v = []") simp_all
  qed
  moreover have "\<not> isSafeUrl ''javascript:alert(1)''" "isSafeUrl (''java'' @ tab @ ''script:alert(1)'')"
    "isSafeUrl (CHR 0x01 # ''javascript:alert(1)'')" by code_simp+
  ultimately show ?thesis by blast
qed

text \<open>
  A redirect target is accepted exactly when, trimmed, it is a slash followed by a text that does not start with
  another slash or a scheme and has no backslash; anything else is replaced by the fallback. A tab between two slashes is
  accepted; a browser removes it and reads the rest as a host.
\<close>

theorem redirect_targets:
  "(normalizeInternalRedirect v = Some t \<longleftrightarrow>
      (\<exists>s r. v = Some s \<and> t = trim s \<and> t = CHR ''/'' # r \<and> \<not> starts_with ''/'' r \<and> CHR 0x5C \<notin> set r \<and> scheme_of r = None))
   \<and> resolveInternalRedirect v fallback = (case normalizeInternalRedirect v of None \<Rightarrow> fallback | Some u \<Rightarrow> u)
   \<and> resolveInternalRedirect (Some ''//evil.com'') fallback = fallback
   \<and> resolveInternalRedirect (Some (''/'' @ tab @ ''/evil.com'')) fallback = ''/'' @ tab @ ''/evil.com''"
proof -
  have path: "isInternalPath u \<longleftrightarrow> (\<exists>r. u = CHR ''/'' # r \<and> \<not> starts_with ''/'' r \<and> CHR 0x5C \<notin> set r \<and> scheme_of r = None)" for u
    by (cases u) (auto simp: isInternalPath_def starts_with_def)
  have "normalizeInternalRedirect v = Some t \<longleftrightarrow> (\<exists>s. v = Some s \<and> t = trim s \<and> isInternalPath t)"
    by (auto simp: normalizeInternalRedirect_def Let_def path split: option.splits)
  then have "normalizeInternalRedirect v = Some t \<longleftrightarrow>
      (\<exists>s r. v = Some s \<and> t = trim s \<and> t = CHR ''/'' # r \<and> \<not> starts_with ''/'' r \<and> CHR 0x5C \<notin> set r \<and> scheme_of r = None)"
    unfolding path by blast
  moreover have "normalizeInternalRedirect (Some ''//evil.com'') = None"
    "normalizeInternalRedirect (Some (''/'' @ tab @ ''/evil.com'')) = Some (''/'' @ tab @ ''/evil.com'')" by code_simp+
  ultimately show ?thesis by (simp add: resolveInternalRedirect_def)
qed

end
