(* ===== verification/SidebarConfig.thy ===== *)
theory SidebarConfig
  imports JsJsonFacts
begin

text \<open>
  Which navigation entries are shown (\<^verbatim>\<open>hooks/use-sidebar-config.ts\<close>) and the settings page that edits the
  same configuration (\<^verbatim>\<open>features/system-settings/maintenance/config.ts\<close>). Both read the text of the option
  \<open>SidebarModulesAdmin\<close>. An array on which properties are set is represented by the object of these properties: only
  properties with the fixed names below are read from it. Keys that name a member of \<open>Object.prototype\<close> are outside
  the model.
\<close>

subsection \<open>The sidebar\<close>

definition section_of :: "(string \<times> bool) list \<Rightarrow> json" where
  "section_of ms = JObj (map (\<lambda>p. (fst p, JBool (snd p))) ms)"

definition DEFAULT_CHAT :: json where
  "DEFAULT_CHAT = section_of [(''enabled'', True), (''playground'', True), (''chat'', True)]"

definition DEFAULT_SIDEBAR_MODULES :: json where
  "DEFAULT_SIDEBAR_MODULES =
     JObj [(''chat'', DEFAULT_CHAT),
           (''console'', section_of [(''enabled'', True), (''detail'', True), (''token'', True), (''log'', True), (''midjourney'', True), (''task'', True)]),
           (''personal'', section_of [(''enabled'', True), (''personal'', True)]),
           (''admin'', section_of [(''enabled'', True), (''channel'', True), (''models'', True), (''redemption'', True), (''user'', True), (''setting'', True)])]"

definition URL_TO_CONFIG_MAP :: "(string \<times> string \<times> string) list" where
  "URL_TO_CONFIG_MAP =
     [(''/playground'', ''chat'', ''playground''), (''/dashboard'', ''console'', ''detail''),
      (''/dashboard/overview'', ''console'', ''detail''), (''/dashboard/models'', ''console'', ''detail''),
      (''/dashboard/users'', ''console'', ''detail''), (''/keys'', ''console'', ''token''),
      (''/usage-logs/common'', ''console'', ''log''), (''/usage-logs/drawing'', ''console'', ''midjourney''),
      (''/usage-logs/task'', ''console'', ''task''), (''/recharge'', ''personal'', ''topup''), (''/wallet'', ''personal'', ''topup''),
      (''/profile'', ''personal'', ''personal''), (''/channels'', ''admin'', ''channel''), (''/models'', ''admin'', ''models''),
      (''/models/metadata'', ''admin'', ''models''), (''/models/deployments'', ''admin'', ''models''),
      (''/users'', ''admin'', ''user''), (''/redemption-codes'', ''admin'', ''redemption'')]"

text \<open>Set a property that is undefined.\<close>

definition put_missing :: "string \<Rightarrow> json \<Rightarrow> json obj \<Rightarrow> json obj" where
  "put_missing k v ob = (if oget ob k = None then oput k v ob else ob)"

text \<open>The chat section after its missing modules are set; \<open>None\<close> when it is a value on which no property can be set.\<close>

definition complete_chat :: "json \<Rightarrow> json option" where
  "complete_chat chat =
     map_option (\<lambda>ob. JObj (put_missing ''chat'' (JBool True) (put_missing ''playground'' (JBool True) (put_missing ''enabled'' (JBool True) ob))))
       (case chat of JObj ob \<Rightarrow> Some ob | JArr _ \<Rightarrow> Some [] | _ \<Rightarrow> None)"

definition parseSidebarConfig :: "string option \<Rightarrow> json" where
  "parseSidebarConfig v =
     (case v of
        None \<Rightarrow> DEFAULT_SIDEBAR_MODULES
      | Some s \<Rightarrow>
          if trim s = [] then DEFAULT_SIDEBAR_MODULES
          else (case (case json_parse s of Some (JObj ob) \<Rightarrow> Some ob | Some (JArr _) \<Rightarrow> Some [] | _ \<Rightarrow> None) of
                  None \<Rightarrow> DEFAULT_SIDEBAR_MODULES
                | Some ob \<Rightarrow>
                    (case oget ob ''chat'' of
                       None \<Rightarrow> JObj (oput ''chat'' DEFAULT_CHAT ob)
                     | Some chat \<Rightarrow>
                         if \<not> jtruthy chat then JObj (oput ''chat'' DEFAULT_CHAT ob)
                         else (case complete_chat chat of
                                 None \<Rightarrow> DEFAULT_SIDEBAR_MODULES
                               | Some chat' \<Rightarrow> JObj (oput ''chat'' chat' ob)))))"

definition parseUserSidebarConfig :: "string option \<Rightarrow> json option" where
  "parseUserSidebarConfig v =
     (case v of
        None \<Rightarrow> None
      | Some s \<Rightarrow>
          if trim s = [] then None
          else (case json_parse s of
                  Some (JObj ob) \<Rightarrow> Some (JObj ob)
                | Some (JArr xs) \<Rightarrow> Some (JArr xs)
                | _ \<Rightarrow> None))"

text \<open>The two layers: what the administrator allows, and what the user does not hide.\<close>

definition adminAllowed :: "json \<Rightarrow> string \<Rightarrow> string \<Rightarrow> bool" where
  "adminAllowed adminConfig sec md =
     (case jfield sec adminConfig of
        None \<Rightarrow> False
      | Some s \<Rightarrow> jtruthy s \<and> (case jfield ''enabled'' s of None \<Rightarrow> False | Some e \<Rightarrow> jtruthy e) \<and> jfield md s = Some (JBool True))"

definition userAllowed :: "json option \<Rightarrow> string \<Rightarrow> string \<Rightarrow> bool" where
  "userAllowed userConfig sec md =
     (case userConfig of
        None \<Rightarrow> True
      | Some u \<Rightarrow>
          (case jfield sec u of
             None \<Rightarrow> True
           | Some s \<Rightarrow> if \<not> jtruthy s then True
                       else if jfield ''enabled'' s = Some (JBool False) then False
                       else jfield md s \<noteq> Some (JBool False)))"

definition isModuleEnabled :: "string \<Rightarrow> json \<Rightarrow> json option \<Rightarrow> bool" where
  "isModuleEnabled url adminConfig userConfig =
     (case map_of URL_TO_CONFIG_MAP url of
        None \<Rightarrow> True
      | Some (sec, md) \<Rightarrow> if \<not> adminAllowed adminConfig sec md then False else userAllowed userConfig sec md)"

text \<open>An item carries its title, badge and icon as a value of any type.\<close>

datatype 'a NavItem =
    NavChatPresets (base: 'a)
  | NavLink (base: 'a) (url: string)
  | NavCollapsible (base: 'a) (subitems: "('a \<times> string) list")

record 'a NavGroup =
  gtitle :: string
  gitems :: "'a NavItem list"

definition isNavItemVisible :: "json \<Rightarrow> json option \<Rightarrow> 'a NavItem \<Rightarrow> bool" where
  "isNavItemVisible adminConfig userConfig item =
     (case item of
        NavChatPresets _ \<Rightarrow> if \<not> adminAllowed adminConfig ''chat'' ''chat'' then False else userAllowed userConfig ''chat'' ''chat''
      | NavLink _ u \<Rightarrow> if u \<noteq> '''' then isModuleEnabled u adminConfig userConfig else True
      | NavCollapsible _ items \<Rightarrow> list_ex (\<lambda>sub. isModuleEnabled (snd sub) adminConfig userConfig) items)"

definition filterSubItems :: "json \<Rightarrow> json option \<Rightarrow> 'a NavItem \<Rightarrow> 'a NavItem" where
  "filterSubItems adminConfig userConfig item =
     (case item of
        NavCollapsible b items \<Rightarrow> NavCollapsible b (filter (\<lambda>sub. isModuleEnabled (snd sub) adminConfig userConfig) items)
      | _ \<Rightarrow> item)"

definition filterNavItems :: "json \<Rightarrow> json option \<Rightarrow> 'a NavItem list \<Rightarrow> 'a NavItem list" where
  "filterNavItems adminConfig userConfig items =
     filter (isNavItemVisible adminConfig userConfig) (map (filterSubItems adminConfig userConfig) items)"

text \<open>The user layer is skipped when the server says that the user cannot configure the sidebar.\<close>

definition useSidebarConfig :: "string option \<Rightarrow> bool option \<Rightarrow> string option \<Rightarrow> 'a NavGroup list \<Rightarrow> 'a NavGroup list" where
  "useSidebarConfig adminText sidebar_settings sidebar_modules navGroups =
     (let adminConfig = parseSidebarConfig adminText;
          userConfig = (if sidebar_settings = Some False then None else parseUserSidebarConfig sidebar_modules)
      in filter (\<lambda>g. gitems g \<noteq> [])
           (map (\<lambda>g. g\<lparr>gitems := filterNavItems adminConfig userConfig (gitems g)\<rparr>) navGroups))"

subsection \<open>The settings page\<close>

type_synonym Section = "bool obj"

definition SIDEBAR_MODULES_DEFAULT :: "Section obj" where
  "SIDEBAR_MODULES_DEFAULT =
     [(''chat'', [(''enabled'', True), (''playground'', True), (''chat'', True)]),
      (''console'', [(''enabled'', True), (''detail'', True), (''token'', True), (''log'', True), (''midjourney'', True), (''task'', True)]),
      (''personal'', [(''enabled'', True), (''topup'', True), (''personal'', True)]),
      (''admin'', [(''enabled'', True), (''channel'', True), (''models'', True), (''redemption'', True), (''user'', True),
                   (''setting'', True), (''subscription'', True)])]"

datatype HeaderValue = Flag bool | Pricing (penabled: bool) (requireAuth: bool)

definition HEADER_NAV_DEFAULT :: "HeaderValue obj" where
  "HEADER_NAV_DEFAULT =
     [(''home'', Flag True), (''console'', Flag True), (''pricing'', Pricing True False), (''docs'', Flag True), (''about'', Flag True)]"

definition toBoolean :: "json option \<Rightarrow> bool \<Rightarrow> bool" where
  "toBoolean v fallback =
     (case v of
        Some (JBool b) \<Rightarrow> b
      | Some (JNum n) \<Rightarrow> n = num_of_int 1
      | Some (JStr s) \<Rightarrow>
          (let normalized = lower (trim s) in
           if normalized = ''true'' \<or> normalized = ''1'' then True
           else if normalized = ''false'' \<or> normalized = ''0'' then False
           else fallback)
      | _ \<Rightarrow> fallback)"

text \<open>\<open>Object.entries\<close>: of null it throws; texts and arrays have their indices as keys, numbers and booleans have none.\<close>

definition indexed :: "json list \<Rightarrow> json obj" where
  "indexed xs = zip (map show_nat [0..<length xs]) xs"

definition json_entries :: "json \<Rightarrow> json obj option" where
  "json_entries v =
     (case v of
        JNull \<Rightarrow> None
      | JObj ob \<Rightarrow> Some (own_entries ob)
      | JArr xs \<Rightarrow> Some (indexed xs)
      | JStr s \<Rightarrow> Some (indexed (map (\<lambda>c. JStr [c]) s))
      | _ \<Rightarrow> Some [])"

definition header_entry :: "string \<times> json \<Rightarrow> HeaderValue obj \<Rightarrow> HeaderValue obj" where
  "header_entry p result =
     (let key = fst p; raw = snd p in
      if key = ''pricing'' then
        (case raw of
           JObj ob \<Rightarrow> oput ''pricing'' (Pricing (toBoolean (oget ob ''enabled'') True) (toBoolean (oget ob ''requireAuth'') False)) result
         | JArr _ \<Rightarrow> oput ''pricing'' (Pricing (toBoolean None True) (toBoolean None False)) result
         | _ \<Rightarrow> result)
      else
        (case raw of
           JBool b \<Rightarrow> oput key (Flag b) result
         | JStr _ \<Rightarrow> oput key (Flag (toBoolean (Some raw) (oget HEADER_NAV_DEFAULT key \<noteq> None))) result
         | JNum _ \<Rightarrow> oput key (Flag (toBoolean (Some raw) (oget HEADER_NAV_DEFAULT key \<noteq> None))) result
         | _ \<Rightarrow> result))"

definition parseHeaderNavModules :: "string option \<Rightarrow> HeaderValue obj" where
  "parseHeaderNavModules v =
     (case v of
        None \<Rightarrow> HEADER_NAV_DEFAULT
      | Some s \<Rightarrow>
          if s = '''' then HEADER_NAV_DEFAULT
          else (case Option.bind (json_parse s) json_entries of
                  None \<Rightarrow> HEADER_NAV_DEFAULT
                | Some es \<Rightarrow> fold header_entry es HEADER_NAV_DEFAULT))"

definition header_json :: "HeaderValue \<Rightarrow> json" where
  "header_json h =
     (case h of Flag b \<Rightarrow> JBool b | Pricing e r \<Rightarrow> JObj [(''enabled'', JBool e), (''requireAuth'', JBool r)])"

definition serializeHeaderNavModules :: "HeaderValue obj \<Rightarrow> string" where
  "serializeHeaderNavModules config = stringify (JObj (map (\<lambda>p. (fst p, header_json (snd p))) config))"

text \<open>One section as the page reads it: the switch of the section first, then its modules in order.\<close>

definition section_entry :: "Section \<Rightarrow> string \<times> json \<Rightarrow> Section \<Rightarrow> Section" where
  "section_entry defaultSection p sectionConfig =
     (if fst p = ''enabled'' then sectionConfig
      else oput (fst p) (toBoolean (Some (snd p)) (case oget defaultSection (fst p) of None \<Rightarrow> True | Some b \<Rightarrow> b)) sectionConfig)"

definition read_section :: "string \<Rightarrow> json option \<Rightarrow> json obj \<Rightarrow> Section" where
  "read_section sectionKey en es =
     (let defaultSection = (case oget SIDEBAR_MODULES_DEFAULT sectionKey of None \<Rightarrow> [(''enabled'', True)] | Some d \<Rightarrow> d)
      in fold (section_entry defaultSection) es
           [(''enabled'', toBoolean en (case oget defaultSection ''enabled'' of None \<Rightarrow> True | Some b \<Rightarrow> b))])"

definition sidebar_entry :: "string \<times> json \<Rightarrow> Section obj \<Rightarrow> Section obj" where
  "sidebar_entry p result =
     (case snd p of
        JObj ob \<Rightarrow> oput (fst p) (read_section (fst p) (oget ob ''enabled'') (own_entries ob)) result
      | JArr xs \<Rightarrow> oput (fst p) (read_section (fst p) None (indexed xs)) result
      | _ \<Rightarrow> result)"

definition add_missing_modules :: "Section \<Rightarrow> Section \<Rightarrow> Section" where
  "add_missing_modules config sec = fold (\<lambda>p s. if ohas (fst p) s then s else oput (fst p) (snd p) s) config sec"

definition merge_default :: "string \<times> Section \<Rightarrow> Section obj \<Rightarrow> Section obj" where
  "merge_default p result =
     (case oget result (fst p) of
        None \<Rightarrow> oput (fst p) (snd p) result
      | Some sec \<Rightarrow> oput (fst p) (add_missing_modules (snd p) sec) result)"

definition parseSidebarModulesAdmin :: "string option \<Rightarrow> Section obj" where
  "parseSidebarModulesAdmin v =
     (case v of
        None \<Rightarrow> SIDEBAR_MODULES_DEFAULT
      | Some s \<Rightarrow>
          if trim s = '''' then SIDEBAR_MODULES_DEFAULT
          else (case Option.bind (json_parse s) json_entries of
                  None \<Rightarrow> SIDEBAR_MODULES_DEFAULT
                | Some es \<Rightarrow> fold merge_default SIDEBAR_MODULES_DEFAULT (fold sidebar_entry es [])))"

definition serializeSidebarModulesAdmin :: "Section obj \<Rightarrow> string" where
  "serializeSidebarModulesAdmin config = stringify (JObj (map (\<lambda>p. (fst p, section_of (snd p))) config))"

subsection \<open>What is shown\<close>

text \<open>The entries of the menu in order: the chat presets and the links, those of collapsible items included.\<close>

definition item_leaves :: "'a NavItem \<Rightarrow> ('a \<times> string option) list" where
  "item_leaves item =
     (case item of
        NavChatPresets b \<Rightarrow> [(b, None)]
      | NavLink b u \<Rightarrow> [(b, Some u)]
      | NavCollapsible _ items \<Rightarrow> map (\<lambda>sub. (fst sub, Some (snd sub))) items)"

definition leaves :: "'a NavGroup list \<Rightarrow> ('a \<times> string option) list" where
  "leaves gs = concat (map (\<lambda>g. concat (map item_leaves (gitems g))) gs)"

text \<open>The module of an entry, and the decision of each layer on it.\<close>

definition leaf_module :: "string option \<Rightarrow> (string \<times> string) option" where
  "leaf_module u = (case u of None \<Rightarrow> Some (''chat'', ''chat'') | Some x \<Rightarrow> map_of URL_TO_CONFIG_MAP x)"

definition admin_shows :: "json \<Rightarrow> string option \<Rightarrow> bool" where
  "admin_shows a u = (case leaf_module u of None \<Rightarrow> True | Some (sec, md) \<Rightarrow> adminAllowed a sec md)"

definition user_shows :: "json option \<Rightarrow> string option \<Rightarrow> bool" where
  "user_shows uc u = (case leaf_module u of None \<Rightarrow> True | Some (sec, md) \<Rightarrow> userAllowed uc sec md)"

lemma module_two_layers: "isModuleEnabled u a uc \<longleftrightarrow> admin_shows a (Some u) \<and> user_shows uc (Some u)"
  by (auto simp: isModuleEnabled_def admin_shows_def user_shows_def leaf_module_def split: option.splits)

lemma no_url_module: "isModuleEnabled '''' a uc"
  by (simp add: isModuleEnabled_def URL_TO_CONFIG_MAP_def)

lemma item_leaves_filtered:
  "concat (map item_leaves (filterNavItems a uc items)) = filter (\<lambda>l. admin_shows a (snd l) \<and> user_shows uc (snd l)) (concat (map item_leaves items))"
proof (induction items)
  case (Cons item items)
  have one: "(if isNavItemVisible a uc (filterSubItems a uc item) then item_leaves (filterSubItems a uc item) else [])
      = filter (\<lambda>l. admin_shows a (snd l) \<and> user_shows uc (snd l)) (item_leaves item)"
  proof (cases item)
    case (NavChatPresets b)
    then show ?thesis
      by (simp add: isNavItemVisible_def filterSubItems_def item_leaves_def admin_shows_def user_shows_def leaf_module_def)
  next
    case (NavLink b u)
    then show ?thesis using no_url_module [of a uc]
      by (cases "u = ''''") (auto simp: isNavItemVisible_def filterSubItems_def item_leaves_def module_two_layers)
  next
    case (NavCollapsible b subs)
    have "map (\<lambda>sub. (fst sub, Some (snd sub))) (filter (\<lambda>sub. isModuleEnabled (snd sub) a uc) subs)
      = filter (\<lambda>l. admin_shows a (snd l) \<and> user_shows uc (snd l)) (map (\<lambda>sub. (fst sub, Some (snd sub))) subs)"
      by (induction subs) (auto simp: module_two_layers)
    moreover have "filter (\<lambda>sub. isModuleEnabled (snd sub) a uc) subs = []" if "\<not> list_ex (\<lambda>sub. isModuleEnabled (snd sub) a uc) (filter (\<lambda>sub. isModuleEnabled (snd sub) a uc) subs)"
      using that by (auto simp: list_ex_iff filter_empty_conv)
    ultimately show ?thesis
      by (auto simp: NavCollapsible isNavItemVisible_def filterSubItems_def item_leaves_def)
  qed
  have "concat (map item_leaves (filterNavItems a uc (item # items)))
      = (if isNavItemVisible a uc (filterSubItems a uc item) then item_leaves (filterSubItems a uc item) else [])
        @ concat (map item_leaves (filterNavItems a uc items))"
    by (simp add: filterNavItems_def)
  with Cons show ?case unfolding one by simp
qed (simp add: filterNavItems_def)

text \<open>The configuration that the user layer contributes.\<close>

definition user_layer :: "bool option \<Rightarrow> string option \<Rightarrow> json option" where
  "user_layer sidebar_settings sidebar_modules =
     (if sidebar_settings = Some False then None else parseUserSidebarConfig sidebar_modules)"

lemma leaves_shown:
  "leaves (useSidebarConfig t p m gs) = filter (\<lambda>l. admin_shows (parseSidebarConfig t) (snd l) \<and> user_shows (user_layer p m) (snd l)) (leaves gs)"
proof -
  define a where "a = parseSidebarConfig t"
  define uc where "uc = user_layer p m"
  have hook: "useSidebarConfig t p m gs = filter (\<lambda>g. gitems g \<noteq> []) (map (\<lambda>g. g\<lparr>gitems := filterNavItems a uc (gitems g)\<rparr>) gs)"
    by (simp add: useSidebarConfig_def a_def uc_def user_layer_def Let_def)
  have "leaves (filter (\<lambda>g. gitems g \<noteq> []) hs) = leaves hs" for hs :: "'a NavGroup list"
    by (induction hs) (auto simp: leaves_def)
  then have "leaves (useSidebarConfig t p m gs) = leaves (map (\<lambda>g. g\<lparr>gitems := filterNavItems a uc (gitems g)\<rparr>) gs)" by (simp add: hook)
  also have "\<dots> = filter (\<lambda>l. admin_shows a (snd l) \<and> user_shows uc (snd l)) (leaves gs)"
    by (induction gs) (simp_all add: leaves_def item_leaves_filtered)
  finally show ?thesis by (simp add: a_def uc_def)
qed

fun leafy :: "'a NavItem \<Rightarrow> bool" where
  "leafy (NavCollapsible b subs) = (subs \<noteq> [])"
| "leafy _ = True"

lemma shown_not_empty: "list_all (\<lambda>g. gitems g \<noteq> [] \<and> list_all leafy (gitems g)) (useSidebarConfig t p m gs)"
proof -
  have "leafy item" if "item \<in> set (filterNavItems a uc items)" for a uc item and items :: "'a NavItem list"
  proof -
    have "isNavItemVisible a uc item" using that by (auto simp: filterNavItems_def)
    then show ?thesis by (cases item) (auto simp: isNavItemVisible_def)
  qed
  then show ?thesis by (auto simp: useSidebarConfig_def Let_def list_all_iff)
qed

text \<open>
  The menu that is shown: the entries, in order, that the administrator allows and the user does not hide, no group
  and no collapsible item without an entry. What the user sees is the administrator's view narrowed by the user's own
  configuration, which can hide an entry but never show one.
\<close>

theorem sidebar_shows:
  "leaves (useSidebarConfig t p m gs)
     = filter (\<lambda>l. admin_shows (parseSidebarConfig t) (snd l) \<and> user_shows (user_layer p m) (snd l)) (leaves gs)
   \<and> leaves (useSidebarConfig t p m gs)
     = filter (\<lambda>l. user_shows (user_layer p m) (snd l)) (leaves (useSidebarConfig t (Some False) m gs))
   \<and> list_all (\<lambda>g. gitems g \<noteq> [] \<and> list_all leafy (gitems g)) (useSidebarConfig t p m gs)"
proof -
  have "user_shows (user_layer (Some False) m) u" for u
    by (simp add: user_shows_def user_layer_def userAllowed_def split: option.splits)
  then show ?thesis using shown_not_empty [of t p m gs] unfolding leaves_shown by (simp add: conj_commute)
qed

subsection \<open>The settings page and the menu\<close>

lemma oput_same: "oget ob k = Some v \<Longrightarrow> oput k v ob = ob"
  by (induction k v ob rule: oput.induct) (auto split: if_splits)

lemma fold_oput_fresh:
  "distinct (map fst ps) \<Longrightarrow> fst ` set ps \<inter> fst ` set ob = {} \<Longrightarrow> fold (\<lambda>p. oput (fst p) (g p)) ps ob = ob @ map (\<lambda>p. (fst p, g p)) ps"
proof (induction ps arbitrary: ob)
  case (Cons p ps)
  then have "oput (fst p) (g p) ob = ob @ [(fst p, g p)]" by (intro oput_fresh) auto
  with Cons show ?case by auto
qed simp

lemma oget_map: "oget (map (\<lambda>p. (fst p, f (snd p))) ob) k = map_option f (oget ob k)"
  by (induction ob) auto

definition name_ok :: "string \<Rightarrow> bool" where
  "name_ok k \<longleftrightarrow> k \<noteq> [] \<and> \<not> is_digit (hd k)"

text \<open>
  A configuration as the page holds it: named sections whose switch comes first, named modules, and every section and
  module of the defaults.
\<close>

definition ok_section :: "Section \<Rightarrow> bool" where
  "ok_section sec \<longleftrightarrow> sec \<noteq> [] \<and> fst (hd sec) = ''enabled'' \<and> distinct (map fst sec) \<and> list_all (\<lambda>p. name_ok (fst p)) sec"

definition ok_config :: "Section obj \<Rightarrow> bool" where
  "ok_config c \<longleftrightarrow> distinct (map fst c) \<and> list_all (\<lambda>p. name_ok (fst p) \<and> ok_section (snd p)) c
     \<and> list_all (\<lambda>d. case oget c (fst d) of None \<Rightarrow> False | Some sec \<Rightarrow> list_all (\<lambda>q. ohas (fst q) sec) (snd d)) SIDEBAR_MODULES_DEFAULT"

lemma section_read:
  assumes "ok_section sec"
  shows "read_section k (oget (map (\<lambda>p. (fst p, JBool (snd p))) sec) ''enabled'') (own_entries (map (\<lambda>p. (fst p, JBool (snd p))) sec)) = sec"
proof -
  obtain b ms where sec: "sec = (''enabled'', b) # ms" using assms by (cases sec) (auto simp: ok_section_def)
  define d where "d = (case oget SIDEBAR_MODULES_DEFAULT k of None \<Rightarrow> [(''enabled'', True)] | Some d \<Rightarrow> d)"
  have ids: "own_entries (map (\<lambda>p. (fst p, JBool (snd p))) sec) = map (\<lambda>p. (fst p, JBool (snd p))) sec"
    using assms by (intro own_entries_id) (auto simp: ok_section_def list_all_iff name_ok_def not_index_start)
  have ne: "''enabled'' \<notin> fst ` set ms" "distinct (map fst ms)" using assms by (auto simp: ok_section_def sec)
  have "fold (section_entry d) (map (\<lambda>p. (fst p, JBool (snd p))) ns) acc = fold (\<lambda>p. oput (fst p) (snd p)) ns acc"
    if "''enabled'' \<notin> fst ` set ns" for ns acc
    using that by (induction ns arbitrary: acc) (auto simp: section_entry_def toBoolean_def)
  from this [OF ne(1)] have "fold (section_entry d) (map (\<lambda>p. (fst p, JBool (snd p))) ms) [(''enabled'', b)] = (''enabled'', b) # ms"
    using fold_oput_fresh [OF ne(2), of "[(''enabled'', b)]" snd] ne(1) by simp
  then show ?thesis unfolding read_section_def ids d_def [symmetric] Let_def by (simp add: sec section_entry_def toBoolean_def)
qed

lemma add_missing_none: "list_all (\<lambda>q. ohas (fst q) sec) d \<Longrightarrow> add_missing_modules d sec = sec"
  unfolding add_missing_modules_def by (induction d) auto

lemma merge_none:
  "list_all (\<lambda>d. case oget c (fst d) of None \<Rightarrow> False | Some sec \<Rightarrow> list_all (\<lambda>q. ohas (fst q) sec) (snd d)) ds \<Longrightarrow> fold merge_default ds c = c"
proof (induction ds)
  case (Cons d ds)
  then obtain sec where "oget c (fst d) = Some sec" "list_all (\<lambda>q. ohas (fst q) sec) (snd d)" by (auto split: option.splits)
  then have "merge_default d c = c" by (simp add: merge_default_def add_missing_none oput_same)
  with Cons show ?case by simp
qed simp

definition config_json :: "Section obj \<Rightarrow> json obj" where
  "config_json c = map (\<lambda>p. (fst p, section_of (snd p))) c"

lemma config_parse:
  assumes "ok_config c"
  shows "json_parse (serializeSidebarModulesAdmin c) = Some (JObj (config_json c))" "own_entries (config_json c) = config_json c"
proof -
  have "wf_json (section_of sec)" if "ok_section sec" for sec
    unfolding section_of_def by (rule wf_obj) (use that in \<open>auto simp: ok_section_def list_all_iff name_ok_def comp_def\<close>)
  then have "wf_json (JObj (config_json c))"
    using assms by (intro wf_obj) (auto simp: ok_config_def config_json_def list_all_iff name_ok_def comp_def)
  then show "json_parse (serializeSidebarModulesAdmin c) = Some (JObj (config_json c))"
    unfolding serializeSidebarModulesAdmin_def config_json_def [symmetric] by (rule json_parse_stringify)
  show "own_entries (config_json c) = config_json c"
    using assms by (intro own_entries_id) (auto simp: ok_config_def config_json_def list_all_iff name_ok_def not_index_start)
qed

lemma config_not_blank: "trim (serializeSidebarModulesAdmin c) \<noteq> []"
proof -
  have "CHR 0x7B \<in> set (serializeSidebarModulesAdmin c)" unfolding serializeSidebarModulesAdmin_def stringify.simps by simp
  moreover have "\<not> is_ws CHR 0x7B" by code_simp
  ultimately show ?thesis unfolding trim_def trim_by_eq_Nil by blast
qed

lemma config_read_back: "ok_config c \<Longrightarrow> parseSidebarModulesAdmin (Some (serializeSidebarModulesAdmin c)) = c"
proof -
  assume c: "ok_config c"
  have "fold sidebar_entry (config_json c') acc = fold (\<lambda>p. oput (fst p) (snd p)) c' acc"
    if "list_all (\<lambda>p. ok_section (snd p)) c'" for c' acc
    using that
  proof (induction c' arbitrary: acc)
    case (Cons p ps)
    then have "sidebar_entry (fst p, section_of (snd p)) acc = oput (fst p) (snd p) acc"
      using section_read [of "snd p" "fst p"] by (simp add: sidebar_entry_def section_of_def)
    with Cons show ?case by (simp add: config_json_def)
  qed (simp add: config_json_def)
  moreover have "list_all (\<lambda>p. ok_section (snd p)) c" "distinct (map fst c)" using c by (auto simp: ok_config_def list_all_iff)
  ultimately have "fold sidebar_entry (config_json c) [] = c" using fold_oput_fresh [of c "[]" snd] by simp
  then show ?thesis
    using config_parse [OF c] config_not_blank [of c] c
    by (simp add: parseSidebarModulesAdmin_def json_entries_def merge_none ok_config_def)
qed

lemma config_governs:
  assumes c: "ok_config c"
  shows "adminAllowed (parseSidebarConfig (Some (serializeSidebarModulesAdmin c))) sec md
    \<longleftrightarrow> (\<exists>s. oget c sec = Some s \<and> oget s ''enabled'' = Some True \<and> oget s md = Some True)"
proof -
  have get: "oget (config_json c) k = map_option section_of (oget c k)" for k
    by (simp add: config_json_def oget_map)
  have field: "jfield k (section_of s) = map_option JBool (oget s k)" for k s
    by (simp add: section_of_def oget_map)
  obtain ch where ch: "oget c ''chat'' = Some ch" "list_all (\<lambda>q. ohas (fst q) ch) [(''enabled'', True), (''playground'', True), (''chat'', True)]"
    using c by (auto simp: ok_config_def SIDEBAR_MODULES_DEFAULT_def split: option.splits)
  have present: "oget (map (\<lambda>p. (fst p, JBool (snd p))) ch) k = None \<longleftrightarrow> \<not> ohas k ch" for k
    by (simp add: ohas_iff oget_map)
  have "complete_chat (section_of ch) = Some (section_of ch)"
    using ch(2) present by (simp add: complete_chat_def section_of_def put_missing_def)
  moreover have "jtruthy (section_of ch)" by (simp add: section_of_def)
  moreover have "oput ''chat'' (section_of ch) (config_json c) = config_json c" by (rule oput_same) (simp add: get ch(1))
  ultimately have "parseSidebarConfig (Some (serializeSidebarModulesAdmin c)) = JObj (config_json c)"
    using config_not_blank [of c] by (simp add: parseSidebarConfig_def config_parse(1) [OF c] get ch(1))
  then show ?thesis by (auto simp: adminAllowed_def get field section_of_def [of "_ # _"] split: option.splits) (auto simp: section_of_def)
qed

text \<open>
  A configuration saved on the settings page is read back by the page unchanged, and governs the menu: a module is
  allowed exactly when its section and the module are switched on in it.
\<close>

theorem saved_config_governs:
  "ok_config c \<Longrightarrow>
   parseSidebarModulesAdmin (Some (serializeSidebarModulesAdmin c)) = c
   \<and> (adminAllowed (parseSidebarConfig (Some (serializeSidebarModulesAdmin c))) sec md
        \<longleftrightarrow> (\<exists>s. oget c sec = Some s \<and> oget s ''enabled'' = Some True \<and> oget s md = Some True))"
  by (simp add: config_read_back config_governs)

lemma saved_config_governs_witness:
  "parseSidebarModulesAdmin (Some (serializeSidebarModulesAdmin SIDEBAR_MODULES_DEFAULT)) = SIDEBAR_MODULES_DEFAULT
   \<and> adminAllowed (parseSidebarConfig (Some (serializeSidebarModulesAdmin SIDEBAR_MODULES_DEFAULT))) ''personal'' ''topup''"
proof -
  have "ok_config SIDEBAR_MODULES_DEFAULT" by code_simp
  from saved_config_governs [OF this, of "''personal''" "''topup''"] show ?thesis by (simp add: SIDEBAR_MODULES_DEFAULT_def)
qed

text \<open>
  Without a saved configuration the page and the menu disagree: the page shows the wallet switched on, and
  the menu hides the wallet and the recharge page whatever the user configured, as its own defaults lack the module.
\<close>

theorem wallet_hidden_by_default:
  "map_option (\<lambda>s. oget s ''topup'') (oget (parseSidebarModulesAdmin (Some '''')) ''personal'') = Some (Some True)
   \<and> \<not> isModuleEnabled ''/wallet'' (parseSidebarConfig (Some '''')) uc
   \<and> \<not> isModuleEnabled ''/recharge'' (parseSidebarConfig (Some '''')) uc
   \<and> isModuleEnabled ''/wallet'' (parseSidebarConfig (Some (serializeSidebarModulesAdmin (parseSidebarModulesAdmin (Some ''''))))) None"
proof -
  have "\<not> adminAllowed (parseSidebarConfig (Some '''')) ''personal'' ''topup''" by code_simp
  moreover have "map_option (\<lambda>s. oget s ''topup'') (oget (parseSidebarModulesAdmin (Some '''')) ''personal'') = Some (Some True)" by code_simp
  moreover have "map_of URL_TO_CONFIG_MAP ''/wallet'' = Some (''personal'', ''topup'')" "map_of URL_TO_CONFIG_MAP ''/recharge'' = Some (''personal'', ''topup'')"
    by code_simp+
  moreover have "isModuleEnabled ''/wallet'' (parseSidebarConfig (Some (serializeSidebarModulesAdmin (parseSidebarModulesAdmin (Some ''''))))) None"
    by code_simp
  ultimately show ?thesis by (simp add: isModuleEnabled_def)
qed

end
