(* ===== verification/SecureVerification.thy ===== *)
theory SecureVerification
  imports JsPrelude
begin

text \<open>
  Two-factor and passkey verification of sensitive calls
  (\<^verbatim>\<open>features/auth/secure-verification/hooks/use-secure-verification.ts\<close> and \<^verbatim>\<open>api.ts\<close>,
  \<^verbatim>\<open>lib/secure-verification.ts\<close>). A protected call is a value of any type; the functions that return a promise leave a
  task, and the outcome of a task arrives in any order with the actions of the user. The passkey exchange is one task.
\<close>

subsection \<open>State\<close>

datatype VerificationMethod = TwoFA | Passkey

record VerificationMethods =
  has2FA :: bool
  hasPasskey :: bool
  passkeySupported :: bool

record StartVerificationOptions =
  preferredMethod :: "VerificationMethod option"
  sv_title :: "string option"
  sv_description :: "string option"

record 'c InternalState =
  v_method :: "VerificationMethod option"
  loading :: bool
  code :: string
  title :: "string option"
  description :: "string option"
  apiCall :: "'c option"

record 'c Verification =
  methods :: VerificationMethods
  state :: "'c InternalState"
  is_open :: bool

record UseSecureVerificationOptions =
  successMessage :: "string option"
  autoReset :: bool

definition defaultMethods :: VerificationMethods where
  "defaultMethods = \<lparr>has2FA = False, hasPasskey = False, passkeySupported = False\<rparr>"

definition initialState :: "'c InternalState" where
  "initialState = \<lparr>v_method = None, loading = False, code = '''', title = None, description = None, apiCall = None\<rparr>"

definition initVerification :: "'c Verification" where
  "initVerification = \<lparr>methods = defaultMethods, state = initialState, is_open = False\<rparr>"

text \<open>What the hook does to the outside, and what it waits for.\<close>

datatype 'c effect =
    CheckMethods
  | VerifyRequest VerificationMethod string
  | CallApi 'c
  | ToastError string
  | ToastInfo string
  | ToastSuccess string
  | OnSuccess 'c VerificationMethod
  | OnError string

datatype 'c task =
    FetchMethods
  | StartAfterFetch 'c StartVerificationOptions
  | Verifying 'c VerificationMethod
  | Calling 'c VerificationMethod
  | FirstTry 'c StartVerificationOptions

subsection \<open>Operations\<close>

definition reset :: "'c Verification \<Rightarrow> 'c Verification" where
  "reset h = h\<lparr>state := initialState, is_open := False\<rparr>"

definition cancel :: "'c Verification \<Rightarrow> 'c Verification" where
  "cancel h = reset h"

definition setCode :: "string \<Rightarrow> 'c Verification \<Rightarrow> 'c Verification" where
  "setCode c h = h\<lparr>state := (state h)\<lparr>code := c\<rparr>\<rparr>"

definition switchMethod :: "VerificationMethod \<Rightarrow> 'c Verification \<Rightarrow> 'c Verification" where
  "switchMethod m h = h\<lparr>state := (state h)\<lparr>v_method := Some m, code := ''''\<rparr>\<rparr>"

definition setLoading :: "bool \<Rightarrow> 'c Verification \<Rightarrow> 'c Verification" where
  "setLoading b h = h\<lparr>state := (state h)\<lparr>loading := b\<rparr>\<rparr>"

definition canUseMethod :: "VerificationMethods \<Rightarrow> VerificationMethod \<Rightarrow> bool" where
  "canUseMethod ms m = (case m of TwoFA \<Rightarrow> has2FA ms | Passkey \<Rightarrow> hasPasskey ms \<and> passkeySupported ms)"

definition recommendedMethod :: "VerificationMethods \<Rightarrow> VerificationMethod option" where
  "recommendedMethod ms =
     (if hasPasskey ms \<and> passkeySupported ms then Some Passkey else if has2FA ms then Some TwoFA else None)"

text \<open>The two status responses and the browser's answer; a failure of any of them counts as no method.\<close>

definition checkVerificationMethods :: "((bool \<times> bool) \<times> (bool \<times> bool) \<times> bool) option \<Rightarrow> VerificationMethods" where
  "checkVerificationMethods responses =
     (case responses of
        Some ((twoFA_success, twoFA_enabled), (passkey_success, passkey_enabled), supported) \<Rightarrow>
          \<lparr>has2FA = twoFA_success \<and> twoFA_enabled, hasPasskey = passkey_success \<and> passkey_enabled, passkeySupported = supported\<rparr>
      | None \<Rightarrow> defaultMethods)"

definition fetchVerificationMethods :: "VerificationMethods \<Rightarrow> 'c Verification \<Rightarrow> 'c Verification" where
  "fetchVerificationMethods result h = h\<lparr>methods := result\<rparr>"

definition NO_METHOD_TOAST :: string where
  "NO_METHOD_TOAST = ''Please enable Two-factor Authentication or Passkey before proceeding''"

definition NO_METHOD_ERROR :: string where
  "NO_METHOD_ERROR = ''No verification methods available. Enable 2FA or Passkey to continue.''"

text \<open>The rest of \<open>startVerification\<close> when the methods have arrived.\<close>

definition startVerification :: "'c \<Rightarrow> StartVerificationOptions \<Rightarrow> VerificationMethods \<Rightarrow> 'c Verification \<Rightarrow> 'c Verification \<times> 'c effect list" where
  "startVerification c config available h =
     (let h1 = fetchVerificationMethods available h in
      if \<not> has2FA available \<and> \<not> hasPasskey available
      then (h1, [ToastError NO_METHOD_TOAST, OnError NO_METHOD_ERROR])
      else (let defaultMethod =
                  (case preferredMethod config of
                     Some m \<Rightarrow> Some m
                   | None \<Rightarrow> if hasPasskey available \<and> passkeySupported available then Some Passkey
                             else if has2FA available then Some TwoFA else None)
            in (h1\<lparr>state := (state h1)\<lparr>apiCall := Some c, v_method := defaultMethod, title := sv_title config,
                     description := sv_description config\<rparr>, is_open := True\<rparr>, [])))"

definition fail_with :: "string option \<Rightarrow> 'c Verification \<Rightarrow> 'c Verification \<times> 'c effect list" where
  "fail_with msg h =
     (let message = (case msg of Some m \<Rightarrow> m | None \<Rightarrow> ''Verification failed'') in
      (setLoading False h, [ToastError message, OnError message]))"

text \<open>\<open>executeVerification\<close> up to the request of the verification; a blank code is refused before a request is made.\<close>

definition executeVerification ::
    "VerificationMethod option \<Rightarrow> string option \<Rightarrow> 'c Verification \<Rightarrow> 'c Verification \<times> 'c effect list \<times> 'c task list" where
  "executeVerification md cd h =
     (case apiCall (state h) of
        None \<Rightarrow> (h, [ToastError ''Verification is not configured properly''], [])
      | Some call \<Rightarrow>
          (case (case md of Some m \<Rightarrow> Some m | None \<Rightarrow> v_method (state h)) of
             None \<Rightarrow> (h, [ToastError ''Select a verification method first''], [])
           | Some actualMethod \<Rightarrow>
               (let trimmed = trim (case cd of Some c \<Rightarrow> c | None \<Rightarrow> code (state h)); h1 = setLoading True h in
                if actualMethod = TwoFA \<and> trimmed = ''''
                then (case fail_with (Some ''Please enter the verification code or backup code'') h1 of (h2, es) \<Rightarrow> (h2, es, []))
                else (h1, [VerifyRequest actualMethod (if actualMethod = TwoFA then trimmed else '''')], [Verifying call actualMethod]))))"

text \<open>The rest of \<open>executeVerification\<close>: the call it was given when it started is made, whatever the state is by now.\<close>

definition onVerified :: "'c \<Rightarrow> VerificationMethod \<Rightarrow> 'c effect list \<times> 'c task list" where
  "onVerified call m = ([CallApi call], [Calling call m])"

definition onCallSuccess ::
    "UseSecureVerificationOptions \<Rightarrow> 'c \<Rightarrow> VerificationMethod \<Rightarrow> 'c Verification \<Rightarrow> 'c Verification \<times> 'c effect list" where
  "onCallSuccess options call m h =
     (let h1 = (if autoReset options then reset h else h) in
      (setLoading False h1,
       (case successMessage options of None \<Rightarrow> [] | Some t \<Rightarrow> if t = '''' then [] else [ToastSuccess t]) @ [OnSuccess call m]))"

text \<open>An error with a response has a status and possibly a code and a message.\<close>

record ApiError =
  err_status :: "int option"
  err_code :: "string option"
  err_message :: "string option"

definition VERIFICATION_CODES :: "string list" where
  "VERIFICATION_CODES = [''VERIFICATION_REQUIRED'', ''VERIFICATION_EXPIRED'', ''VERIFICATION_INVALID'']"

definition isVerificationRequiredError :: "ApiError \<Rightarrow> bool" where
  "isVerificationRequiredError e =
     (if err_status e \<noteq> Some 403 then False
      else (case err_code e of None \<Rightarrow> False | Some c \<Rightarrow> if c = '''' then False else c \<in> set VERIFICATION_CODES))"

definition extractVerificationMessage :: "ApiError \<Rightarrow> string" where
  "extractVerificationMessage e =
     (case err_message e of Some m \<Rightarrow> m | None \<Rightarrow> ''Secure verification is required'')"

text \<open>
  \<open>withVerification\<close> makes the protected call at once, before any verification; the dialog is for the case that
  the server refuses it. After the first attempt failed: \<open>None\<close> when the error is thrown on.
\<close>

definition withVerification :: "'c \<Rightarrow> StartVerificationOptions \<Rightarrow> 'c effect list \<times> 'c task list" where
  "withVerification call config = ([CallApi call], [FirstTry call config])"

definition onFirstTryFailed :: "'c \<Rightarrow> StartVerificationOptions \<Rightarrow> ApiError \<Rightarrow> ('c effect list \<times> 'c task list) option" where
  "onFirstTryFailed call config e =
     (if isVerificationRequiredError e
      then Some ([ToastInfo (extractVerificationMessage e), CheckMethods], [StartAfterFetch call config])
      else None)"

subsection \<open>Interleavings\<close>

text \<open>
  The hook with its open tasks and the history: what the page asked of the hook (\<open>Started\<close> for
  \<open>startVerification\<close>, \<open>Asked\<close> for \<open>withVerification\<close>), the effects, and the answers that arrived.
\<close>

datatype 'c event =
    Started 'c
  | Asked 'c
  | Did "'c effect"
  | MethodsArrived 'c VerificationMethods
  | Verified 'c VerificationMethod
  | Refused 'c ApiError

record 'c World =
  hook :: "'c Verification"
  tasks :: "'c task list"
  hist :: "'c event list"

definition initWorld :: "'c World" where
  "initWorld = \<lparr>hook = initVerification, tasks = [FetchMethods], hist = [Did CheckMethods]\<rparr>"

definition continue :: "'c World \<Rightarrow> 'c Verification \<Rightarrow> 'c task list \<Rightarrow> 'c event list \<Rightarrow> 'c World" where
  "continue w h ts es = \<lparr>hook = h, tasks = ts, hist = hist w @ es\<rparr>"

inductive verification_step :: "UseSecureVerificationOptions \<Rightarrow> 'c World \<Rightarrow> 'c World \<Rightarrow> bool"
  for options :: UseSecureVerificationOptions where
  start: "verification_step options w (continue w (hook w) (tasks w @ [StartAfterFetch c cfg]) [Started c, Did CheckMethods])"
| mounted: "tasks w = xs @ FetchMethods # ys \<Longrightarrow>
    verification_step options w (continue w (fetchVerificationMethods ms (hook w)) (xs @ ys) [])"
| started: "tasks w = xs @ StartAfterFetch c cfg # ys \<Longrightarrow> startVerification c cfg ms (hook w) = (h, es) \<Longrightarrow>
    verification_step options w (continue w h (xs @ ys) (MethodsArrived c ms # map Did es))"
| execute: "executeVerification m cd (hook w) = (h, es, ts) \<Longrightarrow>
    verification_step options w (continue w h (tasks w @ ts) (map Did es))"
| verified: "tasks w = xs @ Verifying c m # ys \<Longrightarrow> onVerified c m = (es, ts) \<Longrightarrow>
    verification_step options w (continue w (hook w) (xs @ ys @ ts) (Verified c m # map Did es))"
| rejected: "tasks w = xs @ Verifying c m # ys \<Longrightarrow> fail_with msg (hook w) = (h, es) \<Longrightarrow>
    verification_step options w (continue w h (xs @ ys) (map Did es))"
| called: "tasks w = xs @ Calling c m # ys \<Longrightarrow> onCallSuccess options c m (hook w) = (h, es) \<Longrightarrow>
    verification_step options w (continue w h (xs @ ys) (map Did es))"
| call_failed: "tasks w = xs @ Calling c m # ys \<Longrightarrow> fail_with msg (hook w) = (h, es) \<Longrightarrow>
    verification_step options w (continue w h (xs @ ys) (map Did es))"
| try_first: "withVerification c cfg = (es, ts) \<Longrightarrow>
    verification_step options w (continue w (hook w) (tasks w @ ts) (Asked c # map Did es))"
| first_ok: "tasks w = xs @ FirstTry c cfg # ys \<Longrightarrow> verification_step options w (continue w (hook w) (xs @ ys) [])"
| first_refused: "tasks w = xs @ FirstTry c cfg # ys \<Longrightarrow> onFirstTryFailed c cfg e = Some (es, ts) \<Longrightarrow>
    verification_step options w (continue w (hook w) (xs @ ys @ ts) (Refused c e # map Did es))"
| first_failed: "tasks w = xs @ FirstTry c cfg # ys \<Longrightarrow> onFirstTryFailed c cfg e = None \<Longrightarrow>
    verification_step options w (continue w (hook w) (xs @ ys) [])"
| cancelled: "verification_step options w (continue w (cancel (hook w)) (tasks w) [])"
| typed: "verification_step options w (continue w (setCode cd (hook w)) (tasks w) [])"
| switched: "verification_step options w (continue w (switchMethod m (hook w)) (tasks w) [])"
| toggled: "verification_step options w (continue w ((hook w)\<lparr>is_open := b\<rparr>) (tasks w) [])"

inductive verification_reach :: "UseSecureVerificationOptions \<Rightarrow> 'c World \<Rightarrow> bool"
  for options :: UseSecureVerificationOptions where
  init: "verification_reach options initWorld"
| step: "verification_reach options w \<Longrightarrow> verification_step options w w' \<Longrightarrow> verification_reach options w'"

inductive_cases verification_stepE: "verification_step options w w'"

subsection \<open>Which protected calls are made\<close>

text \<open>What the history says of a call: its methods arrived and there was one; its verification was started.\<close>

definition offered :: "'c event set \<Rightarrow> 'c \<Rightarrow> bool" where
  "offered E c \<longleftrightarrow> (\<exists>ms. MethodsArrived c ms \<in> E \<and> (has2FA ms \<or> hasPasskey ms))"

definition was_started :: "'c event set \<Rightarrow> 'c \<Rightarrow> bool" where
  "was_started E c \<longleftrightarrow> Started c \<in> E \<or> (\<exists>e. Refused c e \<in> E)"

definition requested :: "'c event set \<Rightarrow> VerificationMethod \<Rightarrow> bool" where
  "requested E m \<longleftrightarrow> (\<exists>cd. Did (VerifyRequest m cd) \<in> E)"

text \<open>What must have happened before an event, and before a task is open.\<close>

fun event_ok :: "'c event set \<Rightarrow> 'c event \<Rightarrow> bool" where
  "event_ok E (MethodsArrived c ms) = was_started E c"
| "event_ok E (Verified c m) = (offered E c \<and> requested E m)"
| "event_ok E (Refused c e) = (Asked c \<in> E \<and> isVerificationRequiredError e)"
| "event_ok E (Did (OnSuccess c m)) = (Verified c m \<in> E)"
| "event_ok E (Did (VerifyRequest m cd)) = (m = TwoFA \<longrightarrow> trim cd = cd \<and> cd \<noteq> [])"
| "event_ok E _ = True"

fun task_ok :: "'c event set \<Rightarrow> 'c task \<Rightarrow> bool" where
  "task_ok E FetchMethods = True"
| "task_ok E (StartAfterFetch c cfg) = was_started E c"
| "task_ok E (Verifying c m) = (offered E c \<and> requested E m)"
| "task_ok E (Calling c m) = (Verified c m \<in> E)"
| "task_ok E (FirstTry c cfg) = (Asked c \<in> E)"

definition call_ok :: "'c event set \<Rightarrow> 'c option \<Rightarrow> bool" where
  "call_ok E a \<longleftrightarrow> (\<forall>c. a = Some c \<longrightarrow> offered E c)"

definition verification_inv :: "'c World \<Rightarrow> bool" where
  "verification_inv w \<longleftrightarrow>
     call_ok (set (hist w)) (apiCall (state (hook w)))
   \<and> (\<forall>t \<in> set (tasks w). task_ok (set (hist w)) t)
   \<and> (\<forall>e \<in> set (hist w). event_ok (set (hist w)) e)"

lemma event_ok_mono: "event_ok E x \<Longrightarrow> E \<subseteq> F \<Longrightarrow> event_ok F x"
  by (induction E x rule: event_ok.induct) (auto simp: was_started_def offered_def requested_def)

lemma task_ok_mono: "task_ok E t \<Longrightarrow> E \<subseteq> F \<Longrightarrow> task_ok F t"
  by (cases t) (auto simp: was_started_def offered_def requested_def)

lemma call_ok_mono: "call_ok E a \<Longrightarrow> E \<subseteq> F \<Longrightarrow> call_ok F a"
  by (auto simp: call_ok_def offered_def)

lemma call_ok_None [simp]: "call_ok E None"
  by (simp add: call_ok_def)

lemmas hook_defs = reset_def cancel_def setCode_def switchMethod_def setLoading_def fetchVerificationMethods_def initialState_def

text \<open>A step keeps the invariant when its call, its new tasks and its new events are in order.\<close>

lemma inv_continue:
  assumes i: "verification_inv w"
    and c: "apiCall (state h) = None \<or> apiCall (state h) = apiCall (state (hook w)) \<or> call_ok (set (hist w @ es)) (apiCall (state h))"
    and t: "\<forall>t \<in> set ts. t \<in> set (tasks w) \<or> task_ok (set (hist w @ es)) t"
    and e: "\<forall>x \<in> set es. event_ok (set (hist w @ es)) x"
  shows "verification_inv (continue w h ts es)"
proof -
  have sub: "set (hist w) \<subseteq> set (hist w @ es)" by simp
  have "call_ok (set (hist w @ es)) (apiCall (state h))"
    using c call_ok_mono [OF _ sub] i by (auto simp: verification_inv_def)
  moreover have "task_ok (set (hist w @ es)) x" if "x \<in> set ts" for x
    using t that i task_ok_mono [OF _ sub] unfolding verification_inv_def by blast
  moreover have "event_ok (set (hist w @ es)) x" if "x \<in> set (hist w @ es)" for x
    using e that i event_ok_mono [OF _ sub] unfolding verification_inv_def by auto
  ultimately show ?thesis by (simp add: verification_inv_def continue_def)
qed

lemma inv_task: "verification_inv w \<Longrightarrow> tasks w = xs @ t # ys \<Longrightarrow> task_ok (set (hist w)) t"
  by (simp add: verification_inv_def)

lemma event_ok_Did:
  "(\<And>c m. x \<noteq> OnSuccess c m) \<Longrightarrow> (\<And>cd. x = VerifyRequest TwoFA cd \<Longrightarrow> trim cd = cd \<and> cd \<noteq> []) \<Longrightarrow> event_ok E (Did x)"
  by (cases x) auto

lemma executeVerification_effects:
  assumes "executeVerification md cd h = (h', es, ts)"
  shows "apiCall (state h') = apiCall (state h)"
    and "t \<in> set ts \<Longrightarrow> \<exists>c m cd'. t = Verifying c m \<and> apiCall (state h) = Some c \<and> VerifyRequest m cd' \<in> set es"
    and "CallApi c \<notin> set es" and "OnSuccess c m \<notin> set es"
    and "VerifyRequest TwoFA cc \<in> set es \<Longrightarrow> trim cc = cc \<and> cc \<noteq> []"
  using assms by (auto simp: executeVerification_def fail_with_def setLoading_def Let_def split: option.splits if_splits)

lemma verification_inv_step:
  assumes "verification_step options w w'" and i: "verification_inv w"
  shows "verification_inv w'"
  using assms(1)
proof (cases rule: verification_step.cases)
  case (start c cfg)
  show ?thesis unfolding start by (rule inv_continue [OF i]) (auto simp: was_started_def)
next
  case (mounted xs ys ms)
  show ?thesis unfolding mounted(1) by (rule inv_continue [OF i]) (use mounted(2) in \<open>auto simp: fetchVerificationMethods_def\<close>)
next
  case (started xs c cfg ys ms h es)
  have st: "was_started (set (hist w)) c" using inv_task [OF i started(2)] by simp
  have "apiCall (state h) = apiCall (state (hook w)) \<or> apiCall (state h) = Some c \<and> (has2FA ms \<or> hasPasskey ms)"
    "set es \<subseteq> {ToastError NO_METHOD_TOAST, OnError NO_METHOD_ERROR}"
    using started(3) by (auto simp: startVerification_def fetchVerificationMethods_def Let_def split: if_splits)
  then show ?thesis unfolding started(1)
    by (intro inv_continue [OF i]) (use st started(2) in \<open>auto simp: call_ok_def offered_def was_started_def\<close>)
next
  case (execute m cd h es ts)
  note ex = executeVerification_effects [OF execute(2)]
  have "task_ok (set (hist w @ map Did es)) t" if new: "t \<in> set ts" for t
  proof -
    obtain d m' cd' where t: "t = Verifying d m'" and d: "apiCall (state (hook w)) = Some d" and v: "VerifyRequest m' cd' \<in> set es"
      using ex(2) [OF new] by blast
    have "offered (set (hist w)) d" using i d by (simp add: verification_inv_def call_ok_def)
    then have "offered (set (hist w @ map Did es)) d" by (auto simp: offered_def)
    moreover have "requested (set (hist w @ map Did es)) m'" using v by (auto simp: requested_def)
    ultimately show ?thesis by (simp add: t)
  qed
  moreover have "event_ok (set (hist w @ map Did es)) (Did x)" if "x \<in> set es" for x
    by (rule event_ok_Did) (use that ex(4,5) in blast)+
  ultimately show ?thesis unfolding execute(1) by (intro inv_continue [OF i]) (use ex(1) in auto)
next
  case (verified xs c m ys es ts)
  have "offered (set (hist w)) c \<and> requested (set (hist w)) m" using inv_task [OF i verified(2)] by simp
  then show ?thesis unfolding verified(1)
    by (intro inv_continue [OF i]) (use verified(2,3) in \<open>auto simp: onVerified_def offered_def requested_def\<close>)
next
  case (rejected xs c m ys msg h es)
  show ?thesis unfolding rejected(1)
    by (rule inv_continue [OF i]) (use rejected(2,3) in \<open>auto simp: fail_with_def setLoading_def Let_def\<close>)
next
  case (called xs c m ys h es)
  have "Verified c m \<in> set (hist w)" using inv_task [OF i called(2)] by simp
  then show ?thesis unfolding called(1)
    by (intro inv_continue [OF i]) (use called(2,3) in \<open>auto simp: onCallSuccess_def hook_defs Let_def split: option.splits if_splits\<close>)
next
  case (call_failed xs c m ys msg h es)
  show ?thesis unfolding call_failed(1)
    by (rule inv_continue [OF i]) (use call_failed(2,3) in \<open>auto simp: fail_with_def setLoading_def Let_def\<close>)
next
  case (try_first c cfg es ts)
  show ?thesis unfolding try_first(1) by (rule inv_continue [OF i]) (use try_first(2) in \<open>auto simp: withVerification_def\<close>)
next
  case (first_ok xs c cfg ys)
  show ?thesis unfolding first_ok(1) by (rule inv_continue [OF i]) (use first_ok(2) in auto)
next
  case (first_refused xs c cfg ys e es ts)
  have "Asked c \<in> set (hist w)" using inv_task [OF i first_refused(2)] by simp
  then show ?thesis unfolding first_refused(1)
    by (intro inv_continue [OF i])
      (use first_refused(2,3) in \<open>auto simp: onFirstTryFailed_def was_started_def split: if_splits\<close>)
next
  case (first_failed xs c cfg ys e)
  show ?thesis unfolding first_failed(1) by (rule inv_continue [OF i]) (use first_failed(2) in auto)
next
  case cancelled
  show ?thesis unfolding cancelled by (rule inv_continue [OF i]) (auto simp: hook_defs)
next
  case (typed cd)
  show ?thesis unfolding typed by (rule inv_continue [OF i]) (auto simp: hook_defs)
next
  case (switched m)
  show ?thesis unfolding switched by (rule inv_continue [OF i]) (auto simp: hook_defs)
next
  case (toggled b)
  show ?thesis unfolding toggled by (rule inv_continue [OF i]) auto
qed

lemma reach_inv: "verification_reach options w \<Longrightarrow> verification_inv w"
proof (induction rule: verification_reach.induct)
  case init
  then show ?case by (simp add: verification_inv_def initWorld_def initVerification_def initialState_def)
next
  case (step w w')
  then show ?case using verification_inv_step by blast
qed

text \<open>
  The calls are counted: how often a protected call was made, how often the page asked \<open>withVerification\<close> for it, and
  how often a verification of it succeeded.
\<close>

definition calls_made :: "'c event list \<Rightarrow> 'c \<Rightarrow> nat" where
  "calls_made es c = length (filter (\<lambda>e. e = Did (CallApi c)) es)"

definition times_asked :: "'c event list \<Rightarrow> 'c \<Rightarrow> nat" where
  "times_asked es c = length (filter (\<lambda>e. e = Asked c) es)"

definition times_verified :: "'c event list \<Rightarrow> 'c \<Rightarrow> nat" where
  "times_verified es c = length (filter (\<lambda>e. \<exists>m \<in> {TwoFA, Passkey}. e = Verified c m) es)"

lemmas counting_defs = calls_made_def times_asked_def times_verified_def

lemma counting_append [simp]:
  "calls_made (es @ fs) c = calls_made es c + calls_made fs c"
  "times_asked (es @ fs) c = times_asked es c + times_asked fs c"
  "times_verified (es @ fs) c = times_verified es c + times_verified fs c"
  by (simp_all add: counting_defs)

lemma counting_effects:
  "times_asked (map Did es) c = 0" "times_verified (map Did es) c = 0"
  "\<forall>c. CallApi c \<notin> set es \<Longrightarrow> calls_made (map Did es) c = 0"
  by (auto simp: counting_defs filter_map o_def filter_empty_conv)

lemma counting_Cons:
  "calls_made (Started d # es) c = calls_made es c" "calls_made (MethodsArrived d ms # es) c = calls_made es c"
  "calls_made (Refused d e # es) c = calls_made es c"
  "times_asked (Started d # es) c = times_asked es c" "times_asked (MethodsArrived d ms # es) c = times_asked es c"
  "times_asked (Refused d e # es) c = times_asked es c"
  "times_verified (Started d # es) c = times_verified es c" "times_verified (MethodsArrived d ms # es) c = times_verified es c"
  "times_verified (Refused d e # es) c = times_verified es c"
  by (simp_all add: counting_defs)

lemmas counting = counting_effects counting_Cons

lemma step_counts:
  assumes "verification_step options w w'"
  shows "\<exists>es. hist w' = hist w @ es \<and> (\<forall>c. calls_made es c = times_asked es c + times_verified es c)"
proof -
  have no_calls: "\<forall>c. calls_made (map Did es) c = times_asked (map Did es) c + times_verified (map Did es) c"
    if "\<forall>c. CallApi c \<notin> set es" for es :: "'a effect list"
    using that by (simp add: counting)
  have "\<exists>h ts es. w' = continue w h ts es \<and> (\<forall>c. calls_made es c = times_asked es c + times_verified es c)"
    using assms
  proof (cases rule: verification_step.cases)
    case (start c cfg)
    then show ?thesis by (intro exI conjI, assumption) (simp add: counting_defs)
  next
    case (started xs c cfg ys ms h es)
    have nc: "\<forall>c. CallApi c \<notin> set es" using started(3) by (auto simp: startVerification_def Let_def split: if_splits)
    show ?thesis by (intro exI conjI, rule started(1)) (simp add: counting nc)
  next
    case (execute m cd h es ts)
    show ?thesis by (intro exI conjI, rule execute(1), rule no_calls) (use executeVerification_effects(3) [OF execute(2)] in blast)
  next
    case (verified xs c m ys es ts)
    have es: "es = [CallApi c]" using verified(3) by (simp add: onVerified_def)
    show ?thesis by (intro exI conjI, rule verified(1)) (cases m; simp add: es counting_defs)
  next
    case (rejected xs c m ys msg h es)
    show ?thesis by (intro exI conjI, rule rejected(1), rule no_calls) (use rejected(3) in \<open>auto simp: fail_with_def Let_def\<close>)
  next
    case (called xs c m ys h es)
    show ?thesis by (intro exI conjI, rule called(1), rule no_calls)
        (use called(3) in \<open>auto simp: onCallSuccess_def Let_def split: option.splits if_splits\<close>)
  next
    case (call_failed xs c m ys msg h es)
    show ?thesis by (intro exI conjI, rule call_failed(1), rule no_calls) (use call_failed(3) in \<open>auto simp: fail_with_def Let_def\<close>)
  next
    case (try_first c cfg es ts)
    have es: "es = [CallApi c]" using try_first(2) by (simp add: withVerification_def)
    show ?thesis by (intro exI conjI, rule try_first(1)) (simp add: es counting_defs)
  next
    case (first_refused xs c cfg ys e es ts)
    have nc: "\<forall>c. CallApi c \<notin> set es" using first_refused(3) by (auto simp: onFirstTryFailed_def split: if_splits)
    show ?thesis by (intro exI conjI, rule first_refused(1)) (simp add: counting nc)
  qed (intro exI conjI, assumption, simp add: counting_defs)+
  then show ?thesis by (auto simp: continue_def)
qed

lemma reach_counts:
  "verification_reach options w \<Longrightarrow> calls_made (hist w) c = times_asked (hist w) c + times_verified (hist w) c"
proof (induction rule: verification_reach.induct)
  case init
  then show ?case by (simp add: initWorld_def counting_defs)
next
  case (step w w')
  then show ?case using step_counts [OF step.hyps(2)] by auto
qed

text \<open>
  C3: in every reachable state the protected calls are accounted for: each was made either at once by a
  \<open>withVerification\<close> of the page - the one attempt without a verification, which the server may refuse - or after a
  verification of that call succeeded, and each of these makes exactly one call. A verification that succeeded was requested
  with its method, and its dialog had been opened because the server listed some method of the user, when the page
  started it or when the server had refused the first attempt with a verification error; only a call that was
  verified is reported to \<open>onSuccess\<close>; and no request for a second factor was ever sent with a blank code.
\<close>

theorem protected_calls_accounted:
  assumes "verification_reach options w"
  shows "calls_made (hist w) c = times_asked (hist w) c + times_verified (hist w) c
    \<and> (Verified c m \<in> set (hist w) \<longrightarrow>
         (\<exists>cd. Did (VerifyRequest m cd) \<in> set (hist w))
       \<and> (\<exists>ms. MethodsArrived c ms \<in> set (hist w) \<and> (has2FA ms \<or> hasPasskey ms))
       \<and> (Started c \<in> set (hist w)
          \<or> Asked c \<in> set (hist w) \<and> (\<exists>e. Refused c e \<in> set (hist w) \<and> isVerificationRequiredError e)))
    \<and> (Did (OnSuccess c m) \<in> set (hist w) \<longrightarrow> Verified c m \<in> set (hist w))
    \<and> (Did (VerifyRequest TwoFA cd) \<in> set (hist w) \<longrightarrow> trim cd = cd \<and> cd \<noteq> [])"
proof -
  have ok: "event_ok (set (hist w)) x" if "x \<in> set (hist w)" for x
    using reach_inv [OF assms] that by (simp add: verification_inv_def)
  have "Started c \<in> set (hist w) \<or> Asked c \<in> set (hist w) \<and> (\<exists>e. Refused c e \<in> set (hist w) \<and> isVerificationRequiredError e)"
    if "MethodsArrived c ms \<in> set (hist w)" for ms
    using ok [OF that] ok [of "Refused c _"] by (auto simp: was_started_def)
  then show ?thesis
    using reach_counts [OF assms, of c] ok [of "Verified c m"] ok [of "Did (OnSuccess c m)"] ok [of "Did (VerifyRequest TwoFA cd)"]
    by (auto simp: offered_def requested_def)
qed

subsection \<open>One run, and a cancelled one\<close>

text \<open>The state after a verification of \<open>c\<close> was started with the second factor as the only method.\<close>

definition twoFactorOnly :: VerificationMethods where
  "twoFactorOnly = \<lparr>has2FA = True, hasPasskey = False, passkeySupported = False\<rparr>"

definition noOptions :: StartVerificationOptions where
  "noOptions = \<lparr>preferredMethod = None, sv_title = None, sv_description = None\<rparr>"

lemma verified_late:
  assumes "apiCall (state h) = Some c" "trim cd \<noteq> []"
  shows "executeVerification (Some TwoFA) (Some cd) h = (setLoading True h, [VerifyRequest TwoFA (trim cd)], [Verifying c TwoFA])"
    and "onVerified c TwoFA = ([CallApi c], [Calling c TwoFA])"
    and "autoReset options \<Longrightarrow> is_open (fst (onCallSuccess options c TwoFA h')) = False \<and> apiCall (state (fst (onCallSuccess options c TwoFA h'))) = None"
  using assms by (simp_all add: executeVerification_def onVerified_def onCallSuccess_def Let_def hook_defs)

text \<open>
  Cancelling does not stop a verification that is under way: after the dialog was cancelled, the answer still makes the
  protected call; and when that call succeeds, a dialog opened meanwhile for another call is closed and its call forgotten.
\<close>

theorem cancel_does_not_stop:
  assumes "apiCall (state (hook w)) = Some c" and "trim cd \<noteq> []" and "tasks w = []" and "autoReset options"
  shows "\<exists>w1 w2 w3. verification_step options w w1 \<and> verification_step options w1 w2 \<and> verification_step options w2 w3
    \<and> hook w2 = cancel (hook w1) \<and> \<not> is_open (hook w2) \<and> apiCall (state (hook w2)) = None
    \<and> hist w3 = hist w @ [Did (VerifyRequest TwoFA (trim cd)), Verified c TwoFA, Did (CallApi c)]
    \<and> (\<forall>h'. \<not> is_open (fst (onCallSuccess options c TwoFA h')) \<and> apiCall (state (fst (onCallSuccess options c TwoFA h'))) = None)"
proof -
  define w1 where "w1 = continue w (setLoading True (hook w)) [Verifying c TwoFA] [Did (VerifyRequest TwoFA (trim cd))]"
  define w2 where "w2 = continue w1 (cancel (hook w1)) (tasks w1) []"
  define w3 where "w3 = continue w2 (hook w2) [Calling c TwoFA] [Verified c TwoFA, Did (CallApi c)]"
  have s1: "verification_step options w w1"
    using verification_step.execute [OF verified_late(1) [OF assms(1,2)], of options] assms(3) by (simp add: w1_def)
  have s2: "verification_step options w1 w2" unfolding w2_def by (rule verification_step.cancelled)
  have "tasks w2 = [] @ Verifying c TwoFA # []" by (simp add: w2_def w1_def continue_def)
  from verification_step.verified [OF this verified_late(2) [OF assms(1,2)], of options]
  have s3: "verification_step options w2 w3" by (simp add: w3_def)
  have "hook w2 = cancel (hook w1) \<and> \<not> is_open (hook w2) \<and> apiCall (state (hook w2)) = None"
    by (simp add: w2_def w1_def continue_def hook_defs)
  moreover have "hist w3 = hist w @ [Did (VerifyRequest TwoFA (trim cd)), Verified c TwoFA, Did (CallApi c)]"
    by (simp add: w3_def w2_def w1_def continue_def)
  ultimately show ?thesis using s1 s2 s3 verified_late(3) [OF assms(1,2,4)] by blast
qed

definition demoOptions :: UseSecureVerificationOptions where
  "demoOptions = \<lparr>successMessage = None, autoReset = True\<rparr>"

definition demoWorld :: "string World" where
  "demoWorld = \<lparr>hook = fst (startVerification ''delete passkey'' noOptions twoFactorOnly initVerification), tasks = [],
     hist = [MethodsArrived ''delete passkey'' twoFactorOnly]\<rparr>"

lemma cancel_does_not_stop_witness:
  "\<exists>w1 w2 w3. verification_step demoOptions demoWorld w1 \<and> verification_step demoOptions w1 w2 \<and> verification_step demoOptions w2 w3
    \<and> hook w2 = cancel (hook w1) \<and> Did (CallApi ''delete passkey'') \<in> set (hist w3)"
proof -
  have "apiCall (state (hook demoWorld)) = Some ''delete passkey''" "trim ''123456'' \<noteq> []" "tasks demoWorld = []" "autoReset demoOptions"
    by code_simp+
  from cancel_does_not_stop [OF this] obtain w1 w2 w3 where
    "verification_step demoOptions demoWorld w1" "verification_step demoOptions w1 w2" "verification_step demoOptions w2 w3"
    "hook w2 = cancel (hook w1)"
    "hist w3 = hist demoWorld @ [Did (VerifyRequest TwoFA (trim ''123456'')), Verified ''delete passkey'' TwoFA, Did (CallApi ''delete passkey'')]"
    by blast
  moreover from this(5) have "Did (CallApi ''delete passkey'') \<in> set (hist w3)" by simp
  ultimately show ?thesis by blast
qed

text \<open>A run: the first attempt is refused, the dialog opens, the code is accepted, and the call is made again.\<close>

definition refusal :: ApiError where
  "refusal = \<lparr>err_status = Some 403, err_code = Some ''VERIFICATION_REQUIRED'', err_message = None\<rparr>"

lemma refused_run:
  defines "c \<equiv> ''reveal key''"
  shows "\<exists>w :: string World. verification_reach demoOptions w
    \<and> hist w = [Did CheckMethods, Asked c, Did (CallApi c), Refused c refusal, Did (ToastInfo (extractVerificationMessage refusal)),
        Did CheckMethods, MethodsArrived c twoFactorOnly, Did (VerifyRequest TwoFA ''123456''), Verified c TwoFA, Did (CallApi c)]"
proof -
  define h where "h = fst (startVerification c noOptions twoFactorOnly initVerification)"
  define q where "q = continue initWorld (hook initWorld) [FetchMethods, FirstTry c noOptions] [Asked c, Did (CallApi c)]"
  define r where "r = continue q (hook q) [FetchMethods, StartAfterFetch c noOptions]
    [Refused c refusal, Did (ToastInfo (extractVerificationMessage refusal)), Did CheckMethods]"
  define a where "a = continue r h [FetchMethods] [MethodsArrived c twoFactorOnly]"
  define b where "b = continue a (setLoading True h) [FetchMethods, Verifying c TwoFA] [Did (VerifyRequest TwoFA ''123456'')]"
  define d where "d = continue b (setLoading True h) [FetchMethods, Calling c TwoFA] [Verified c TwoFA, Did (CallApi c)]"
  have "verification_reach demoOptions q" unfolding q_def
    using verification_reach.step [OF verification_reach.init verification_step.try_first, of c noOptions "[CallApi c]" "[FirstTry c noOptions]" demoOptions]
    by (simp add: initWorld_def withVerification_def)
  moreover have "verification_step demoOptions q r"
    using verification_step.first_refused [of q "[FetchMethods]" c noOptions "[]" refusal
        "[ToastInfo (extractVerificationMessage refusal), CheckMethods]" "[StartAfterFetch c noOptions]" demoOptions]
    by (simp add: r_def q_def continue_def onFirstTryFailed_def isVerificationRequiredError_def refusal_def VERIFICATION_CODES_def)
  ultimately have "verification_reach demoOptions r" by (rule verification_reach.step)
  moreover have "verification_step demoOptions r a"
  proof -
    have "tasks r = [FetchMethods] @ StartAfterFetch c noOptions # []" by (simp add: r_def continue_def)
    moreover have "startVerification c noOptions twoFactorOnly (hook r) = (h, [])"
      by (simp add: h_def r_def q_def continue_def initWorld_def startVerification_def twoFactorOnly_def Let_def)
    ultimately show ?thesis using verification_step.started [of r "[FetchMethods]" c noOptions "[]" twoFactorOnly h "[]"] by (simp add: a_def)
  qed
  ultimately have "verification_reach demoOptions a" by (rule verification_reach.step)
  moreover have "verification_step demoOptions a b"
  proof -
    have "apiCall (state (hook a)) = Some c" by (simp add: a_def continue_def h_def startVerification_def twoFactorOnly_def Let_def)
    moreover have "trim ''123456'' \<noteq> []" "trim ''123456'' = ''123456''" by code_simp+
    ultimately show ?thesis
      using verification_step.execute [OF verified_late(1), of a c "''123456''" demoOptions] by (simp add: b_def a_def continue_def)
  qed
  ultimately have "verification_reach demoOptions b" by (rule verification_reach.step)
  moreover have "verification_step demoOptions b d"
    using verification_step.verified [of b "[FetchMethods]" c TwoFA "[]" "[CallApi c]" "[Calling c TwoFA]" demoOptions]
    by (simp add: b_def d_def continue_def onVerified_def)
  ultimately have "verification_reach demoOptions d" by (rule verification_reach.step)
  then show ?thesis
    by (intro exI [of _ d]) (simp add: d_def b_def a_def r_def q_def continue_def initWorld_def)
qed

lemma protected_calls_accounted_witness:
  "\<exists>w :: string World. calls_made (hist w) ''reveal key'' = 2 \<and> times_asked (hist w) ''reveal key'' = 1
     \<and> times_verified (hist w) ''reveal key'' = 1"
proof -
  obtain w :: "string World" where w: "verification_reach demoOptions w" and
    hw: "hist w = [Did CheckMethods, Asked ''reveal key'', Did (CallApi ''reveal key''), Refused ''reveal key'' refusal,
        Did (ToastInfo (extractVerificationMessage refusal)), Did CheckMethods, MethodsArrived ''reveal key'' twoFactorOnly,
        Did (VerifyRequest TwoFA ''123456''), Verified ''reveal key'' TwoFA, Did (CallApi ''reveal key'')]"
    using refused_run by blast
  have "times_asked (hist w) ''reveal key'' = 1" "times_verified (hist w) ''reveal key'' = 1"
    by (simp_all add: hw counting_defs)
  moreover have "calls_made (hist w) ''reveal key'' = times_asked (hist w) ''reveal key'' + times_verified (hist w) ''reveal key''"
    using protected_calls_accounted [OF w] by blast
  ultimately show ?thesis by (intro exI [of _ w]) simp
qed

text \<open>
  What the dialog offers when no method is preferred: a method that can be used, the recommended one; none exactly
  when the only method is a passkey that the browser does not support - the dialog opens all the same, and the
  verification is then refused. Without any method nothing opens and nothing is remembered.
\<close>

theorem offered_method:
  assumes p: "preferredMethod cfg = None" and s: "startVerification c cfg ms h = (h', es)"
  shows "(\<not> has2FA ms \<and> \<not> hasPasskey ms \<longrightarrow> h' = h\<lparr>methods := ms\<rparr> \<and> es \<noteq> [])
    \<and> (has2FA ms \<or> hasPasskey ms \<longrightarrow> is_open h' \<and> apiCall (state h') = Some c \<and> es = []
         \<and> v_method (state h') = recommendedMethod ms
         \<and> (case v_method (state h') of
              Some m \<Rightarrow> canUseMethod ms m
            | None \<Rightarrow> \<not> has2FA ms \<and> hasPasskey ms \<and> \<not> passkeySupported ms
                \<and> executeVerification None cd h' = (h', [ToastError ''Select a verification method first''], [])))"
  using assms
  by (auto simp: startVerification_def fetchVerificationMethods_def recommendedMethod_def canUseMethod_def executeVerification_def Let_def)

lemma offered_method_witness:
  "v_method (state (fst (startVerification ''x'' noOptions \<lparr>has2FA = False, hasPasskey = True, passkeySupported = False\<rparr> initVerification))) = None"
proof -
  define ms where "ms = \<lparr>has2FA = False, hasPasskey = True, passkeySupported = False\<rparr>"
  obtain h es where he: "startVerification ''x'' noOptions ms initVerification = (h, es)" by (cases "startVerification ''x'' noOptions ms initVerification")
  have "preferredMethod noOptions = None" by (simp add: noOptions_def)
  from offered_method [OF this he] have "v_method (state h) = recommendedMethod ms" by (simp add: ms_def)
  then show ?thesis unfolding ms_def [symmetric] he by (simp add: recommendedMethod_def ms_def)
qed

end
