(* ===== verification/ApiClient.thy ===== *)
theory ApiClient
  imports JsStorage JsJsonFacts
begin

text \<open>
  The shared HTTP client of \<^verbatim>\<open>lib/api.ts\<close>: the response interceptor that reports failures, the
  headers of a request, and the sharing of concurrent GET requests. axios and the server are outside the
  source: what a request comes back with is a parameter of the handlers (type \<open>Outcome\<close>).

  A toast is a message of the server or a translation key with its arguments; what i18next makes of it is
  outside the source. A body is read through the fields the sources read; \<open>success\<close> is \<open>None\<close> when it is no boolean.
\<close>

subsection \<open>Replies and what the user sees\<close>

datatype Txt = Raw string | Tr string "json obj"

datatype Toast = Success Txt | Error Txt

record Body =
  success :: "bool option"
  message :: "string option"
  error_code :: "string option"
  data :: "json option"
  balance :: "num option"

record Failure =
  status :: "int option"
  server_message :: "string option"
  err_message :: string

datatype Outcome = Reply Body | Rejected Failure

record Config =
  skipBusinessError :: bool
  skipErrorHandler :: bool
  disableDuplicate :: bool
  params :: "json option"

definition no_config :: Config where
  "no_config = \<lparr>skipBusinessError = False, skipErrorHandler = False, disableDuplicate = False, params = None\<rparr>"

record Request =
  verb :: string
  url :: string
  payload :: "json option"
  config :: Config

text \<open>An argument of a callback: a value (\<open>None\<close> is undefined) or a text shown to the user.\<close>

datatype Arg = Val "json option" | Msg Txt

text \<open>The page: requests sent, toasts shown, query keys invalidated, calls of the caller's callback.\<close>

record App =
  sent :: "Request list"
  toasts :: "Toast list"
  stale :: "string list list"
  calls :: "Arg list list"
  logged_in :: bool

definition toast :: "Toast \<Rightarrow> App \<Rightarrow> App" where
  "toast t app = app\<lparr>toasts := toasts app @ [t]\<rparr>"

text \<open>\<open>m || t(key)\<close>.\<close>

definition or_text :: "string option \<Rightarrow> Txt \<Rightarrow> Txt" where
  "or_text m t = (case m of Some s \<Rightarrow> if s \<noteq> [] then Raw s else t | None \<Rightarrow> t)"

subsection \<open>The response interceptor\<close>

definition on_response :: "Config \<Rightarrow> Body \<Rightarrow> App \<Rightarrow> App" where
  "on_response cfg b app =
     (if \<not> skipBusinessError cfg \<and> success b = Some False
      then toast (Error (or_text (message b) (Raw ''Request failed''))) app
      else app)"

definition on_error :: "Config \<Rightarrow> Failure \<Rightarrow> App \<Rightarrow> App" where
  "on_error cfg e app =
     (if skipErrorHandler cfg then app
      else if status e = Some 401
      then (toast (Error (or_text (server_message e) (Tr ''Session expired!'' []))) app)\<lparr>logged_in := False\<rparr>
      else toast (Error (or_text (server_message e) (or_text (Some (err_message e)) (Raw ''Request error'')))) app)"

definition settle :: "Config \<Rightarrow> Outcome \<Rightarrow> App \<Rightarrow> App" where
  "settle cfg out app = (case out of Reply b \<Rightarrow> on_response cfg b app | Rejected e \<Rightarrow> on_error cfg e app)"

text \<open>
  One awaited request: the network answers the \<open>n\<close>-th request sent, the interceptor runs, the caller goes on with
  the outcome.
\<close>

definition request :: "(nat \<Rightarrow> Request \<Rightarrow> Outcome) \<Rightarrow> Request \<Rightarrow> App \<Rightarrow> Outcome \<times> App" where
  "request net r app =
     (let out = net (length (sent app)) r
      in (out, settle (config r) out (app\<lparr>sent := sent app @ [r]\<rparr>)))"

subsection \<open>Headers\<close>

definition getUserId :: "Storage \<Rightarrow> string option" where
  "getUserId st = try_get ''uid'' st"

definition getCommonHeaders :: "Storage \<Rightarrow> string obj" where
  "getCommonHeaders st =
     (let headers = [(''Content-Type'', ''application/json'')]
      in case getUserId st of
           Some uid \<Rightarrow> if uid \<noteq> [] then oput ''Heqiuyu-Api-User'' uid headers else headers
         | None \<Rightarrow> headers)"

definition attach_user :: "Storage \<Rightarrow> string obj \<Rightarrow> string obj" where
  "attach_user st headers =
     (case getUserId st of
        Some uid \<Rightarrow> if uid \<noteq> [] then oput ''Heqiuyu-Api-User'' uid headers else headers
      | None \<Rightarrow> headers)"

subsection \<open>Sharing concurrent GET requests\<close>

text \<open>
  A promise is its index in \<open>issued\<close>, the GET requests that reached the network; \<open>inFlightGet\<close> is the map of the source.
  A request settles once, and its \<open>finally\<close> callback then drops the key, before any caller that awaits the
  promise goes on; a request with \<open>disableDuplicate\<close> has no such callback.
\<close>

record Gets =
  issued :: "(string \<times> Config) list"
  inFlightGet :: "nat obj"
  settled :: "nat list"

definition get_key :: "string \<Rightarrow> Config \<Rightarrow> string" where
  "get_key u cfg =
     u @ ''?'' @ (case params cfg of Some v \<Rightarrow> if jtruthy v then stringify v else ''{}'' | None \<Rightarrow> ''{}'')"

definition originalGet :: "string \<Rightarrow> Config \<Rightarrow> Gets \<Rightarrow> nat \<times> Gets" where
  "originalGet u cfg g = (length (issued g), g\<lparr>issued := issued g @ [(u, cfg)]\<rparr>)"

definition api_get :: "string \<Rightarrow> Config \<Rightarrow> Gets \<Rightarrow> nat \<times> Gets" where
  "api_get u cfg g =
     (if disableDuplicate cfg then originalGet u cfg g
      else (case oget (inFlightGet g) (get_key u cfg) of
              Some req \<Rightarrow> (req, g)
            | None \<Rightarrow>
                (let (req, g1) = originalGet u cfg g
                 in (req, g1\<lparr>inFlightGet := oput (get_key u cfg) req (inFlightGet g1)\<rparr>))))"

definition finish_get :: "nat \<Rightarrow> Gets \<Rightarrow> Gets" where
  "finish_get p g =
     (let (u, cfg) = issued g ! p; g1 = g\<lparr>settled := settled g @ [p]\<rparr>
      in if disableDuplicate cfg then g1 else g1\<lparr>inFlightGet := odel (get_key u cfg) (inFlightGet g1)\<rparr>)"

definition initGets :: Gets where
  "initGets = \<lparr>issued = [], inFlightGet = [], settled = []\<rparr>"

inductive get_step :: "Gets \<Rightarrow> Gets \<Rightarrow> bool" where
  call: "get_step g (snd (api_get u cfg g))"
| finish: "p < length (issued g) \<Longrightarrow> p \<notin> set (settled g) \<Longrightarrow> get_step g (finish_get p g)"

inductive get_reach :: "Gets \<Rightarrow> bool" where
  init: "get_reach initGets"
| step: "get_reach g \<Longrightarrow> get_step g g' \<Longrightarrow> get_reach g'"

text \<open>The requests that others may join: not settled, and sent without \<open>disableDuplicate\<close>.\<close>

definition joinable :: "Gets \<Rightarrow> string \<Rightarrow> nat \<Rightarrow> bool" where
  "joinable g k p \<longleftrightarrow>
     p < length (issued g) \<and> p \<notin> set (settled g) \<and> \<not> disableDuplicate (snd (issued g ! p)) \<and>
     get_key (fst (issued g ! p)) (snd (issued g ! p)) = k"

text \<open>The map holds exactly the joinable requests, so there is at most one for a key.\<close>

definition flights_exact :: "Gets \<Rightarrow> bool" where
  "flights_exact g \<longleftrightarrow> (\<forall>k p. oget (inFlightGet g) k = Some p \<longleftrightarrow> joinable g k p)"

lemma joinable_issue:
  "joinable (g\<lparr>issued := issued g @ [(u, cfg)]\<rparr>) k p \<longleftrightarrow>
     joinable g k p \<or>
     p = length (issued g) \<and> p \<notin> set (settled g) \<and> \<not> disableDuplicate cfg \<and> get_key u cfg = k"
  by (auto simp: joinable_def nth_append less_Suc_eq)

lemma joinable_flights [simp]: "joinable (g\<lparr>inFlightGet := m\<rparr>) k p = joinable g k p"
  by (simp add: joinable_def)

definition gets_ok :: "Gets \<Rightarrow> bool" where
  "gets_ok g \<longleftrightarrow> flights_exact g \<and> (\<forall>p\<in>set (settled g). p < length (issued g)) \<and> distinct (settled g)"

lemma call_ok:
  assumes "gets_ok g" shows "gets_ok (snd (api_get u cfg g))"
proof (cases "disableDuplicate cfg")
  case True
  then show ?thesis using assms
    by (auto simp: api_get_def originalGet_def gets_ok_def flights_exact_def joinable_issue)
next
  case False
  have fresh: "length (issued g) \<notin> set (settled g)" using assms by (auto simp: gets_ok_def)
  show ?thesis
  proof (cases "oget (inFlightGet g) (get_key u cfg)")
    case (Some req)
    with False assms show ?thesis by (simp add: api_get_def)
  next
    case None
    then have none: "\<not> joinable g (get_key u cfg) p" for p
      using assms unfolding gets_ok_def flights_exact_def by (metis option.distinct(1))
    have "flights_exact (snd (api_get u cfg g))"
      using False None none fresh assms
      by (auto simp: api_get_def originalGet_def flights_exact_def gets_ok_def joinable_issue)
    with assms False None show ?thesis
      by (auto simp: gets_ok_def api_get_def originalGet_def)
  qed
qed

lemma finish_ok:
  assumes ok: "gets_ok g" and p: "p < length (issued g)" "p \<notin> set (settled g)"
  shows "gets_ok (finish_get p g)"
proof -
  obtain u cfg where r: "issued g ! p = (u, cfg)" by (cases "issued g ! p")
  have j: "joinable (g\<lparr>settled := settled g @ [p]\<rparr>) k q \<longleftrightarrow> joinable g k q \<and> q \<noteq> p" for k q
    by (auto simp: joinable_def)
  have one: "q = p" if "joinable g (get_key u cfg) q" "\<not> disableDuplicate cfg" for q
  proof -
    have "joinable g (get_key u cfg) p" using p r that by (simp add: joinable_def)
    with that(1) ok show ?thesis unfolding gets_ok_def flights_exact_def by (metis option.inject)
  qed
  have pk: "k = get_key u cfg \<and> \<not> disableDuplicate cfg" if "joinable g k p" for k
    using that r by (simp add: joinable_def)
  have ex: "oget (inFlightGet g) k = Some q \<longleftrightarrow> joinable g k q" for k q
    using ok by (simp add: gets_ok_def flights_exact_def)
  have "flights_exact (finish_get p g)"
    unfolding flights_exact_def
  proof (intro allI)
    fix k q
    show "oget (inFlightGet (finish_get p g)) k = Some q \<longleftrightarrow> joinable (finish_get p g) k q"
    proof (cases "disableDuplicate cfg")
      case True
      have "\<not> joinable g k p" using True pk [of k] by (iprover)
      then have "joinable g k q \<Longrightarrow> q \<noteq> p" by (rule contrapos_nn) simp
      with True show ?thesis by (simp add: finish_get_def r j ex) iprover
    next
      case False
      then have e: "finish_get p g = g\<lparr>settled := settled g @ [p], inFlightGet := odel (get_key u cfg) (inFlightGet g)\<rparr>"
        by (simp add: finish_get_def r)
      show ?thesis
      proof (cases "k = get_key u cfg")
        case True
        with one [OF _ False, of q] show ?thesis by (simp add: e j)
      next
        case False
        then have "\<not> joinable g k p" using pk [of k] by iprover
        then have "joinable g k q \<Longrightarrow> q \<noteq> p" by (rule contrapos_nn) simp
        with False show ?thesis by (simp add: e j ex) iprover
      qed
    qed
  qed
  with ok p show ?thesis by (auto simp: gets_ok_def finish_get_def r Let_def)
qed

lemma reach_ok: "get_reach g \<Longrightarrow> gets_ok g"
proof (induction rule: get_reach.induct)
  case init
  show ?case by (simp add: gets_ok_def flights_exact_def joinable_def initGets_def)
next
  case (step g g')
  from step.hyps(2) step.IH show ?case by (cases rule: get_step.cases) (auto intro: call_ok finish_ok)
qed

subsection \<open>A key tells the URL and the parameters\<close>

text \<open>
  Between URL and parameters the key has a question mark, and either may contain more of them. That the key is
  still unambiguous rests on the form of a JSON text: outside string literals it has no question mark and no
  backslash, and it ends outside of them. \<open>scan\<close> follows a text through its literals.
\<close>

datatype place = Outside | Inside | Escaped | Impossible

fun scan :: "place \<Rightarrow> string \<Rightarrow> place" where
  "scan p [] = p"
| "scan Outside (c # s) =
     scan (if c = CHR 0x22 then Inside else if c = CHR 0x5C \<or> c = CHR ''?'' then Impossible else Outside) s"
| "scan Inside (c # s) = scan (if c = CHR 0x22 then Outside else if c = CHR 0x5C then Escaped else Inside) s"
| "scan Escaped (c # s) = scan Inside s"
| "scan Impossible (c # s) = scan Impossible s"

lemma scan_append: "scan p (s @ t) = scan (scan p s) t"
  by (induction p s rule: scan.induct) auto

lemma scan_Impossible [simp]: "scan Impossible s = Impossible"
  by (induction s) auto

definition plain_char :: "char \<Rightarrow> bool" where
  "plain_char c \<longleftrightarrow> c \<notin> {CHR 0x22, CHR 0x5C, CHR ''?''}"

lemma scan_plain: "list_all plain_char s \<Longrightarrow> scan Outside s = Outside"
  by (induction s) (auto simp: plain_char_def)

lemma hex_char_inside: "d < 16 \<Longrightarrow> hex_char d \<noteq> CHR 0x22 \<and> hex_char d \<noteq> CHR 0x5C"
  using hex_val_char [of d] by (auto simp: hex_val_def)

lemma scan_esc_char: "scan Inside (esc_char c) = Inside"
proof (cases "(of_char c :: nat) < 32")
  case True
  then have "of_char c div 16 < (16 :: nat)" by simp
  then show ?thesis using hex_char_inside [of "of_char c div 16"] hex_char_inside [of "of_char c mod 16"] by (auto simp: esc_char_def)
next
  case False
  then show ?thesis by (auto simp: esc_char_def)
qed

lemma scan_body: "scan Inside (concat (map esc_char s)) = Inside"
  by (induction s) (simp_all add: scan_append scan_esc_char)

lemma scan_quote: "scan Outside (quote s) = Outside"
  by (simp add: quote_def scan_append scan_body)

lemma scan_join: "\<forall>x \<in> set xs. scan Outside x = Outside \<Longrightarrow> scan Outside (join '','' xs) = Outside"
  by (induction xs rule: induct_list012) (simp_all add: scan_append)

lemma digit_plain: "is_digit c \<Longrightarrow> plain_char c"
  by (auto simp: is_digit_def plain_char_def)

lemma show_nat_plain: "list_all plain_char (show_nat n)"
  using show_nat_digits digit_plain by (auto simp: list_all_iff)

lemma plain_pieces:
  "list_all plain_char s \<Longrightarrow> list_all plain_char (take n s)" "list_all plain_char s \<Longrightarrow> list_all plain_char (drop n s)"
  "list_all plain_char (replicate n CHR ''0'')"
  by (auto simp: list_all_iff plain_char_def dest: in_set_takeD in_set_dropD)

lemma plain_if: "list_all plain_char s \<Longrightarrow> list_all plain_char t \<Longrightarrow> list_all plain_char (if b then s else t)"
  by simp

lemma show_num_plain: "list_all plain_char (show_num x)"
proof -
  have "plain_char CHR ''0''" "plain_char CHR ''.''" "plain_char CHR ''e''" "plain_char CHR ''-''" "plain_char CHR ''+''"
    by (simp_all add: plain_char_def)
  then show ?thesis unfolding show_num_def Let_def
    by (intro plain_if) (simp_all only: list_all_append list.pred_inject show_nat_plain plain_pieces simp_thms plain_if if_True if_False)
qed

lemma scan_stringify: "scan Outside (stringify v) = Outside"
proof (induction v)
  case (JNum x)
  then show ?case using scan_plain [OF show_num_plain] by simp
next
  case (JArr xs)
  then have "scan Outside (join '','' (map stringify xs)) = Outside" by (intro scan_join) auto
  then show ?case by (simp add: scan_append)
next
  case (JObj ob)
  then have "scan Outside (join '','' (map (\<lambda>p. quote (fst p) @ '':'' @ stringify (snd p)) (own_entries ob))) = Outside"
    by (intro scan_join) (auto simp: scan_append scan_quote)
  then show ?case by (simp add: scan_append)
qed (simp_all add: scan_quote)

text \<open>From the two places a text is followed in opposite places, as long as both are possible.\<close>

lemma scan_swap:
  "scan Outside s \<noteq> Impossible \<Longrightarrow> scan Inside s \<noteq> Impossible \<Longrightarrow> scan Outside s = Outside \<Longrightarrow> scan Inside s \<noteq> Outside"
  and scan_swap': "scan Outside s \<noteq> Impossible \<Longrightarrow> scan Inside s \<noteq> Impossible \<Longrightarrow> scan Inside s = Outside \<Longrightarrow> scan Outside s \<noteq> Outside"
  by (induction s) (auto split: if_splits)

lemma key_split_half:
  assumes s: "scan Outside s = Outside" and s': "scan Outside s' = Outside" and e: "us @ CHR ''?'' # s = CHR ''?'' # s'"
  shows "us = []"
proof (cases us)
  case (Cons c w)
  with e have w: "s' = w @ CHR ''?'' # s" by simp
  have "scan (scan Outside w) (CHR ''?'' # s) = Outside" using s' by (simp add: w scan_append)
  then have "scan Inside s = Outside" by (cases "scan Outside w") simp_all
  with s scan_swap [of s] show ?thesis by simp
qed

lemma key_split:
  assumes "scan Outside s = Outside" "scan Outside s' = Outside" "u @ CHR ''?'' # s = u' @ CHR ''?'' # s'"
  shows "u = u' \<and> s = s'"
proof -
  from assms(3) obtain us where "u = u' @ us \<and> us @ CHR ''?'' # s = CHR ''?'' # s' \<or> u @ us = u' \<and> CHR ''?'' # s = us @ CHR ''?'' # s'"
    by (auto simp: append_eq_append_conv2)
  then show ?thesis
  proof (elim disjE conjE)
    assume "u = u' @ us" "us @ CHR ''?'' # s = CHR ''?'' # s'"
    with key_split_half [OF assms(1,2)] show ?thesis by fastforce
  next
    assume "u @ us = u'" "CHR ''?'' # s = us @ CHR ''?'' # s'"
    with key_split_half [OF assms(2,1)] show ?thesis by fastforce
  qed
qed

text \<open>What a call asks for: no parameters and falsy ones are the empty object.\<close>

definition asked_params :: "Config \<Rightarrow> json" where
  "asked_params cfg = (case params cfg of Some v \<Rightarrow> if jtruthy v then v else JObj [] | None \<Rightarrow> JObj [])"

lemma get_key_eq_iff:
  "get_key u cfg = get_key u' cfg' \<longleftrightarrow> u = u' \<and> stringify (asked_params cfg) = stringify (asked_params cfg')"
proof -
  have k: "get_key u cfg = u @ CHR ''?'' # stringify (asked_params cfg)" for u cfg
    by (simp add: get_key_def asked_params_def own_entries_def split: option.splits)
  show ?thesis unfolding k using key_split [OF scan_stringify scan_stringify] by blast
qed

lemma stringify_inj: "wf_json v \<Longrightarrow> wf_json w \<Longrightarrow> stringify v = stringify w \<Longrightarrow> v = w"
  using json_parse_stringify by (metis option.inject)

text \<open>
  C12: A GET call always gets a request that is still running and was sent for the same URL and the same
  parameters (the same JSON text, which for well-formed values are equal parameters), and nothing is sent twice: a new request
  goes out exactly when the caller opted out or no request for that URL and these parameters that others may join is running.
\<close>

theorem get_shares_running_request:
  assumes "get_reach g" "api_get u cfg g = (p, g')"
  shows "p < length (issued g') \<and> p \<notin> set (settled g')
    \<and> fst (issued g' ! p) = u
    \<and> stringify (asked_params (snd (issued g' ! p))) = stringify (asked_params cfg)
    \<and> (wf_json (asked_params cfg) \<and> wf_json (asked_params (snd (issued g' ! p))) \<longrightarrow> asked_params (snd (issued g' ! p)) = asked_params cfg)
    \<and> length (issued g')
        = length (issued g)
          + (if disableDuplicate cfg
                \<or> \<not> (\<exists>q < length (issued g). q \<notin> set (settled g) \<and> \<not> disableDuplicate (snd (issued g ! q))
                      \<and> fst (issued g ! q) = u \<and> stringify (asked_params (snd (issued g ! q))) = stringify (asked_params cfg))
             then 1 else 0)"
proof -
  have ok: "gets_ok g" using assms(1) by (rule reach_ok)
  then have fresh: "length (issued g) \<notin> set (settled g)" by (auto simp: gets_ok_def)
  have ex: "oget (inFlightGet g) (get_key u cfg) = Some q \<longleftrightarrow> joinable g (get_key u cfg) q" for q
    using ok by (simp add: gets_ok_def flights_exact_def)
  have j: "joinable g (get_key u cfg) q \<longleftrightarrow> q < length (issued g) \<and> q \<notin> set (settled g) \<and> \<not> disableDuplicate (snd (issued g ! q))
      \<and> fst (issued g ! q) = u \<and> stringify (asked_params (snd (issued g ! q))) = stringify (asked_params cfg)" for q
    by (simp add: joinable_def get_key_eq_iff)
  have main: "p < length (issued g') \<and> p \<notin> set (settled g') \<and> get_key (fst (issued g' ! p)) (snd (issued g' ! p)) = get_key u cfg
    \<and> length (issued g') = length (issued g) + (if disableDuplicate cfg \<or> \<not> (\<exists>q. joinable g (get_key u cfg) q) then 1 else 0)"
  proof (cases "oget (inFlightGet g) (get_key u cfg)")
    case None
    then have "\<not> joinable g (get_key u cfg) q" for q using ex [of q] by simp
    with None assms(2) fresh show ?thesis
      by (auto simp: api_get_def originalGet_def split: if_splits)
  next
    case (Some q)
    then have "joinable g (get_key u cfg) q" using ex by simp
    with Some assms(2) fresh show ?thesis
      by (auto simp: api_get_def originalGet_def joinable_def split: if_splits)
  qed
  then have same: "fst (issued g' ! p) = u \<and> stringify (asked_params (snd (issued g' ! p))) = stringify (asked_params cfg)"
    by (simp add: get_key_eq_iff)
  with stringify_inj have "wf_json (asked_params cfg) \<and> wf_json (asked_params (snd (issued g' ! p)))
      \<longrightarrow> asked_params (snd (issued g' ! p)) = asked_params cfg"
    by blast
  moreover have "length (issued g') = length (issued g) + (if disableDuplicate cfg \<or> \<not> (\<exists>q. joinable g (get_key u cfg) q) then 1 else 0)"
    using main by blast
  ultimately show ?thesis using main same unfolding j by blast
qed

text \<open>
  Two callers ask for the first page while the first request runs: the second joins the first. A caller that asks for
  the second page sends its own request.
\<close>

definition page_config :: "int \<Rightarrow> Config" where
  "page_config n = no_config\<lparr>params := Some (JObj [(''p'', JNum (num_of_int n))])\<rparr>"

lemma get_shares_running_request_witness:
  "let g = snd (api_get ''/api/models'' (page_config 1) initGets)
   in fst (api_get ''/api/models'' (page_config 1) g) = 0
    \<and> length (issued (snd (api_get ''/api/models'' (page_config 1) g))) = 1
    \<and> length (issued (snd (api_get ''/api/models'' (page_config 2) g))) = 2"
proof -
  let ?g = "snd (api_get ''/api/models'' (page_config 1) initGets)"
  have r: "get_reach ?g" by (rule get_reach.step [OF get_reach.init get_step.call])
  have g: "issued ?g = [(''/api/models'', page_config 1)]" "settled ?g = []"
    by (simp_all add: api_get_def originalGet_def initGets_def page_config_def no_config_def)
  have d: "\<not> disableDuplicate (page_config n)" for n by (simp add: page_config_def no_config_def)
  have w: "asked_params (page_config n) = JObj [(''p'', JNum (num_of_int n))]" "wf_json (asked_params (page_config n))" for n
    by (simp_all add: page_config_def asked_params_def owf_def own_entries_id not_index_start)
  obtain p g1 where one: "api_get ''/api/models'' (page_config 1) ?g = (p, g1)" by fastforce
  obtain q g2 where two: "api_get ''/api/models'' (page_config 2) ?g = (q, g2)" by fastforce
  have n: "length (issued g1) = 1" using get_shares_running_request [OF r one] g d by auto
  moreover have "p = 0" using get_shares_running_request [OF r one] n by simp
  moreover have "stringify (asked_params (page_config 1)) \<noteq> stringify (asked_params (page_config 2))"
  proof
    assume "stringify (asked_params (page_config 1)) = stringify (asked_params (page_config 2))"
    then have "num_of_int 1 = num_of_int 2" using stringify_inj [OF w(2) w(2)] by (simp add: w(1))
    then have "int_of_num (num_of_int 1) = int_of_num (num_of_int 2)" by (rule arg_cong)
    then show False unfolding int_of_num_of_int by simp
  qed
  then have "length (issued g2) = 2" using get_shares_running_request [OF r two] g d by auto
  ultimately show ?thesis using one two by (simp add: Let_def)
qed

end
