(* ===== verification/ChannelActions.thy ===== *)
theory ChannelActions
  imports ApiClient "HOL-Library.Multiset"
begin

text \<open>
  What the buttons of the channel and model tables do: \<^verbatim>\<open>features/channels/lib/channel-actions.ts\<close> and
  \<^verbatim>\<open>features/models/lib/model-actions.ts\<close>, with the request functions of the two \<^verbatim>\<open>api.ts\<close> files they call.
  \<open>net\<close> answers the \<open>n\<close>-th request the page sends; \<open>arrive\<close> is the order in which the replies to requests sent
  together come in. \<open>qc\<close> and \<open>cb\<close> say whether the caller passed a query client and a callback. Ids are integers.
\<close>

type_synonym net = "nat \<Rightarrow> Request \<Rightarrow> Outcome"

abbreviation num_json :: "int \<Rightarrow> json" where
  "num_json i \<equiv> JNum (num_of_int i)"

subsection \<open>Requests of the channel and model tables\<close>

definition api_put :: "string \<Rightarrow> json \<Rightarrow> Request" where
  "api_put u b = \<lparr>verb = ''PUT'', url = u, payload = Some b, config = no_config\<rparr>"

definition api_post :: "string \<Rightarrow> json option \<Rightarrow> Request" where
  "api_post u b = \<lparr>verb = ''POST'', url = u, payload = b, config = no_config\<rparr>"

definition api_delete :: "string \<Rightarrow> Request" where
  "api_delete u = \<lparr>verb = ''DELETE'', url = u, payload = None, config = no_config\<rparr>"

definition api_get_request :: "string \<Rightarrow> json option \<Rightarrow> Request" where
  "api_get_request u ps = \<lparr>verb = ''GET'', url = u, payload = None, config = no_config\<lparr>params := ps\<rparr>\<rparr>"

definition url_id :: "string \<Rightarrow> int \<Rightarrow> string" where
  "url_id u i = u @ show_num (num_of_int i)"

definition updateChannel :: "int \<Rightarrow> json obj \<Rightarrow> Request" where
  "updateChannel i d = api_put ''/api/channel/'' (JObj (spread [(''id'', num_json i)] d))"

definition deleteChannel :: "int \<Rightarrow> Request" where
  "deleteChannel i = api_delete (url_id ''/api/channel/'' i)"

definition batchDeleteChannels :: "int list \<Rightarrow> Request" where
  "batchDeleteChannels ids = api_post ''/api/channel/batch'' (Some (JObj [(''ids'', JArr (map num_json ids))]))"

definition batchSetChannelTag :: "int list \<Rightarrow> string option \<Rightarrow> Request" where
  "batchSetChannelTag ids tag =
     api_post ''/api/channel/batch/tag''
       (Some (JObj [(''ids'', JArr (map num_json ids)), (''tag'', case tag of Some t \<Rightarrow> JStr t | None \<Rightarrow> JNull)]))"

definition testChannel :: "int \<Rightarrow> json option \<Rightarrow> Request" where
  "testChannel i ps = api_get_request (url_id ''/api/channel/test/'' i) ps"

definition updateChannelBalance :: "int \<Rightarrow> Request" where
  "updateChannelBalance i = api_get_request (url_id ''/api/channel/update_balance/'' i) None"

definition copyChannel :: "int \<Rightarrow> json obj \<Rightarrow> Request" where
  "copyChannel i ps =
     (api_post (url_id ''/api/channel/copy/'' i) (Some JNull))\<lparr>config := no_config\<lparr>params := Some (JObj ps)\<rparr>\<rparr>"

definition fixChannelAbilities :: Request where
  "fixChannelAbilities = api_post ''/api/channel/fix'' None"

definition deleteDisabledChannels :: Request where
  "deleteDisabledChannels = api_delete ''/api/channel/disabled''"

definition enableTagChannels :: "string \<Rightarrow> Request" where
  "enableTagChannels tag = api_post ''/api/channel/tag/enabled'' (Some (JObj [(''tag'', JStr tag)]))"

definition disableTagChannels :: "string \<Rightarrow> Request" where
  "disableTagChannels tag = api_post ''/api/channel/tag/disabled'' (Some (JObj [(''tag'', JStr tag)]))"

definition editTagChannels :: "json obj \<Rightarrow> Request" where
  "editTagChannels ps = api_put ''/api/channel/tag'' (JObj ps)"

definition testAllChannels :: Request where
  "testAllChannels = api_get_request ''/api/channel/test'' None"

definition updateAllChannelsBalance :: Request where
  "updateAllChannelsBalance = api_get_request ''/api/channel/update_balance'' None"

definition updateModelStatus :: "int \<Rightarrow> int \<Rightarrow> Request" where
  "updateModelStatus i st =
     api_put ''/api/models/?status_only=true'' (JObj [(''id'', num_json i), (''status'', num_json st)])"

definition deleteModel :: "int \<Rightarrow> Request" where
  "deleteModel i = api_delete (url_id ''/api/models/'' i)"

subsection \<open>The parts the handlers share\<close>

definition channels_lists :: "string list" where
  "channels_lists = [''channels'', ''list'']"

definition models_lists :: "string list" where
  "models_lists = [''models'', ''list'']"

definition ENABLED :: int where "ENABLED = 1"
definition MANUAL_DISABLED :: int where "MANUAL_DISABLED = 2"

abbreviation accepted :: "Body \<Rightarrow> bool" where
  "accepted b \<equiv> success b = Some True"

text \<open>\<open>queryClient?.invalidateQueries(...)\<close> and \<open>onSuccess?.(...)\<close>.\<close>

definition invalidate :: "bool \<Rightarrow> string list \<Rightarrow> App \<Rightarrow> App" where
  "invalidate qc key app = (if qc then app\<lparr>stale := stale app @ [key]\<rparr> else app)"

definition callback :: "bool \<Rightarrow> Arg list \<Rightarrow> App \<Rightarrow> App" where
  "callback cb args app = (if cb then app\<lparr>calls := calls app @ [args]\<rparr> else app)"

text \<open>\<open>try { const response = await ...; body } catch (e) { handler }\<close>.\<close>

definition awaiting :: "net \<Rightarrow> Request \<Rightarrow> (Body \<Rightarrow> App \<Rightarrow> App) \<Rightarrow> (Failure \<Rightarrow> App \<Rightarrow> App) \<Rightarrow> App \<Rightarrow> App" where
  "awaiting net r body handler app =
     (case request net r app of
        (Reply b, app1) \<Rightarrow> body b app1
      | (Rejected e, app1) \<Rightarrow> handler e app1)"

definition succeed :: "Txt \<Rightarrow> string list \<Rightarrow> bool \<Rightarrow> bool \<Rightarrow> Arg list \<Rightarrow> App \<Rightarrow> App" where
  "succeed t key qc cb args app = callback cb args (invalidate qc key (toast (Success t) app))"

subsection \<open>Actions on one channel\<close>

definition handleEnableChannel :: "net \<Rightarrow> int \<Rightarrow> bool \<Rightarrow> bool \<Rightarrow> App \<Rightarrow> App" where
  "handleEnableChannel net i qc cb =
     awaiting net (updateChannel i [(''status'', num_json ENABLED)])
       (\<lambda>b. if accepted b then succeed (Tr ''Channel enabled successfully'' []) channels_lists qc cb [] else id)
       (\<lambda>_. toast (Error (Tr ''Failed to update channel'' [])))"

definition handleDisableChannel :: "net \<Rightarrow> int \<Rightarrow> bool \<Rightarrow> bool \<Rightarrow> App \<Rightarrow> App" where
  "handleDisableChannel net i qc cb =
     awaiting net (updateChannel i [(''status'', num_json MANUAL_DISABLED)])
       (\<lambda>b. if accepted b then succeed (Tr ''Channel disabled successfully'' []) channels_lists qc cb [] else id)
       (\<lambda>_. toast (Error (Tr ''Failed to update channel'' [])))"

definition handleToggleChannelStatus :: "net \<Rightarrow> int \<Rightarrow> int \<Rightarrow> bool \<Rightarrow> bool \<Rightarrow> App \<Rightarrow> App" where
  "handleToggleChannelStatus net i currentStatus qc cb =
     (if currentStatus = ENABLED then handleDisableChannel net i qc cb else handleEnableChannel net i qc cb)"

definition handleDeleteChannel :: "net \<Rightarrow> int \<Rightarrow> bool \<Rightarrow> bool \<Rightarrow> App \<Rightarrow> App" where
  "handleDeleteChannel net i qc cb =
     awaiting net (deleteChannel i)
       (\<lambda>b. if accepted b then succeed (Tr ''Channel deleted successfully'' []) channels_lists qc cb [] else id)
       (\<lambda>_. toast (Error (Tr ''Failed to delete channel'' [])))"

text \<open>\<open>name.charAt(0).toUpperCase() + name.slice(1).toLowerCase()\<close>, for a name that starts with an ASCII character.\<close>

definition upper_ascii :: "char \<Rightarrow> char" where
  "upper_ascii c = (let n = of_char c :: nat in if 97 \<le> n \<and> n \<le> 122 then char_of (n - 32) else c)"

definition field_label :: "string \<Rightarrow> string" where
  "field_label s = (case s of [] \<Rightarrow> [] | c # cs \<Rightarrow> upper_ascii c # lower cs)"

definition handleUpdateChannelField :: "net \<Rightarrow> int \<Rightarrow> string \<Rightarrow> int \<Rightarrow> bool \<Rightarrow> bool \<Rightarrow> App \<Rightarrow> App" where
  "handleUpdateChannelField net i fieldName v qc cb =
     awaiting net (updateChannel i [(fieldName, num_json v)])
       (\<lambda>b. if accepted b
            then succeed (Tr ''{{field}} updated to {{value}}''
                            [(''field'', JStr (field_label fieldName)), (''value'', num_json v)])
                   channels_lists qc cb []
            else toast (Error (or_text (message b) (Tr ''Failed to update channel'' []))))
       (\<lambda>_. toast (Error (Tr ''Failed to update channel'' [])))"

definition handleUpdateTagField :: "net \<Rightarrow> string \<Rightarrow> string \<Rightarrow> int \<Rightarrow> bool \<Rightarrow> bool \<Rightarrow> App \<Rightarrow> App" where
  "handleUpdateTagField net tag fieldName v qc cb =
     awaiting net (editTagChannels (oput fieldName (num_json v) [(''tag'', JStr tag)]))
       (\<lambda>b. if accepted b
            then succeed (Tr ''{{field}} updated to {{value}} for tag: {{tag}}''
                            [(''field'', JStr (field_label fieldName)), (''value'', num_json v), (''tag'', JStr tag)])
                   channels_lists qc cb []
            else toast (Error (or_text (message b) (Tr ''Failed to update channel'' []))))
       (\<lambda>_. toast (Error (Tr ''Failed to update channel'' [])))"

record TestOptions =
  testModel :: "string option"
  endpointType :: "string option"
  stream :: bool

abbreviation nonempty :: "string option \<Rightarrow> bool" where
  "nonempty v \<equiv> v \<noteq> None \<and> v \<noteq> Some []"

definition test_payload :: "TestOptions option \<Rightarrow> json option" where
  "test_payload opts =
     (case opts of
        Some op \<Rightarrow>
          if nonempty (testModel op) \<or> nonempty (endpointType op) \<or> stream op
          then Some (JObj
                 ((if nonempty (testModel op) then [(''model'', JStr (the (testModel op)))] else []) @
                  (if nonempty (endpointType op) then [(''endpoint_type'', JStr (the (endpointType op)))] else []) @
                  (if stream op then [(''stream'', JBool True)] else [])))
          else None
      | None \<Rightarrow> None)"

definition handleTestChannel :: "net \<Rightarrow> int \<Rightarrow> TestOptions option \<Rightarrow> bool \<Rightarrow> App \<Rightarrow> App" where
  "handleTestChannel net i opts cb =
     awaiting net (testChannel i (test_payload opts))
       (\<lambda>b app.
          if accepted b
          then callback cb [Val (Some (JBool True)), Val (Option.bind (data b) (jfield ''response_time''))]
                 (toast (Success (Tr ''Channel test completed'' [])) app)
          else callback cb 
                 [Val (Some (JBool False)), Val None, Val (map_option JStr (message b)), Val (map_option JStr (error_code b))]
                 (toast (Error (or_text (message b) (Tr ''Failed to test channel'' []))) app))
       (\<lambda>e app.
          let errorMsg = or_text (server_message e) (Tr ''Failed to test channel'' [])
          in callback cb [Val (Some (JBool False)), Val None, Msg errorMsg] (toast (Error errorMsg) app))"

definition handleCopyChannel :: "net \<Rightarrow> int \<Rightarrow> json obj \<Rightarrow> bool \<Rightarrow> bool \<Rightarrow> App \<Rightarrow> App" where
  "handleCopyChannel net i ps qc cb =
     awaiting net (copyChannel i ps)
       (\<lambda>b. case Option.bind (data b) (jfield ''id'') of
              Some v \<Rightarrow>
                if accepted b \<and> jtruthy v
                then succeed (Tr ''Channel copied successfully'' []) channels_lists qc cb [Val (Some v)] else id
            | None \<Rightarrow> id)
       (\<lambda>_. toast (Error (Tr ''Failed to copy channel'' [])))"

definition handleUpdateChannelBalance :: "net \<Rightarrow> int \<Rightarrow> bool \<Rightarrow> bool \<Rightarrow> App \<Rightarrow> App" where
  "handleUpdateChannelBalance net i qc cb =
     awaiting net (updateChannelBalance i)
       (\<lambda>b. case balance b of
              Some v \<Rightarrow>
                if accepted b
                then succeed (Tr ''Balance updated: {{balance}}'' [(''balance'', JNum v)]) channels_lists qc cb [Val (Some (JNum v))]
                else toast (Error (or_text (message b) (Tr ''Failed to update balance'' [])))
            | None \<Rightarrow> toast (Error (or_text (message b) (Tr ''Failed to update balance'' []))))
       (\<lambda>e. toast (Error (Raw (err_message e))))"

subsection \<open>Actions on many channels\<close>

text \<open>
  Requests sent together: the \<open>k\<close>-th is answered as the \<open>(n + k)\<close>-th of the page, and the interceptor sees the
  replies in the order of \<open>arrive\<close>.
\<close>

definition answers :: "net \<Rightarrow> App \<Rightarrow> Request list \<Rightarrow> Outcome list" where
  "answers net app rs = map (\<lambda>k. net (length (sent app) + k) (rs ! k)) [0..<length rs]"

definition send_all :: "Request list \<Rightarrow> App \<Rightarrow> App" where
  "send_all rs app = app\<lparr>sent := sent app @ rs\<rparr>"

definition settle_all :: "Outcome list \<Rightarrow> App \<Rightarrow> App" where
  "settle_all outs app = fold (settle no_config) outs app"

fun is_reply :: "Outcome \<Rightarrow> bool" where
  "is_reply (Reply _) = True"
| "is_reply (Rejected _) = False"

fun accepted_outcome :: "Outcome \<Rightarrow> bool" where
  "accepted_outcome (Reply b) = accepted b"
| "accepted_outcome (Rejected _) = False"

definition count_of :: "('a \<Rightarrow> bool) \<Rightarrow> 'a list \<Rightarrow> int" where
  "count_of p xs = int (length (filter p xs))"

abbreviation count_arg :: "int \<Rightarrow> json obj" where
  "count_arg n \<equiv> [(''count'', num_json n)]"

text \<open>\<open>response.data || n\<close>.\<close>

definition data_or :: "json option \<Rightarrow> int \<Rightarrow> json" where
  "data_or d n = (case d of Some v \<Rightarrow> if jtruthy v then v else num_json n | None \<Rightarrow> num_json n)"

definition handleBatchDelete :: "net \<Rightarrow> int list \<Rightarrow> bool \<Rightarrow> bool \<Rightarrow> App \<Rightarrow> App" where
  "handleBatchDelete net ids qc cb =
     (if ids = [] then toast (Error (Tr ''No channels selected'' []))
      else awaiting net (batchDeleteChannels ids)
        (\<lambda>b. if accepted b
             then let n = data_or (data b) (int (length ids))
                  in succeed (Tr ''{{count}} channel(s) deleted'' [(''count'', n)]) channels_lists qc cb [Val (Some n)]
             else id)
        (\<lambda>_. toast (Error (Tr ''Failed to delete channel'' []))))"

text \<open>\<open>Promise.allSettled\<close>: the handler goes on when every request has settled, and counts the fulfilled ones.\<close>

definition settled_batch :: "net \<Rightarrow> (Outcome list \<Rightarrow> Outcome list) \<Rightarrow> Request list \<Rightarrow> string \<Rightarrow> string \<Rightarrow> bool \<Rightarrow> bool \<Rightarrow> App \<Rightarrow> App" where
  "settled_batch net arrive rs done_key fail_key qc cb app =
     (let results = answers net app rs;
          app1 = settle_all (arrive results) (send_all rs app);
          successCount = count_of is_reply results;
          failCount = count_of (\<lambda>r. \<not> is_reply r) results;
          app2 = (if 0 < successCount
                  then succeed (Tr done_key (count_arg successCount)) channels_lists qc cb [] app1 else app1)
      in if 0 < failCount then toast (Error (Tr fail_key (count_arg failCount))) app2 else app2)"

definition handleBatchEnable :: "net \<Rightarrow> (Outcome list \<Rightarrow> Outcome list) \<Rightarrow> int list \<Rightarrow> bool \<Rightarrow> bool \<Rightarrow> App \<Rightarrow> App" where
  "handleBatchEnable net arrive ids qc cb =
     (if ids = [] then toast (Error (Tr ''No channels selected'' []))
      else settled_batch net arrive (map (\<lambda>i. updateChannel i [(''status'', num_json ENABLED)]) ids)
             ''{{count}} channel(s) enabled'' ''{{count}} channel(s) failed to enable'' qc cb)"

definition handleBatchDisable :: "net \<Rightarrow> (Outcome list \<Rightarrow> Outcome list) \<Rightarrow> int list \<Rightarrow> bool \<Rightarrow> bool \<Rightarrow> App \<Rightarrow> App" where
  "handleBatchDisable net arrive ids qc cb =
     (if ids = [] then toast (Error (Tr ''No channels selected'' []))
      else settled_batch net arrive (map (\<lambda>i. updateChannel i [(''status'', num_json MANUAL_DISABLED)]) ids)
             ''{{count}} channel(s) disabled'' ''{{count}} channel(s) failed to disable'' qc cb)"

definition handleBatchSetTag :: "net \<Rightarrow> int list \<Rightarrow> string option \<Rightarrow> bool \<Rightarrow> bool \<Rightarrow> App \<Rightarrow> App" where
  "handleBatchSetTag net ids tag qc cb =
     (if ids = [] then toast (Error (Tr ''No channels selected'' []))
      else awaiting net (batchSetChannelTag ids tag)
        (\<lambda>b. if accepted b then succeed (Tr ''Tag set successfully'' []) channels_lists qc cb [] else id)
        (\<lambda>_. toast (Error (Tr ''Failed to set tag'' []))))"

definition handleEnableTagChannels :: "net \<Rightarrow> string \<Rightarrow> bool \<Rightarrow> bool \<Rightarrow> App \<Rightarrow> App" where
  "handleEnableTagChannels net tag qc cb =
     awaiting net (enableTagChannels tag)
       (\<lambda>b. if accepted b
            then succeed (Tr ''Enabled all channels with tag: {{tag}}'' [(''tag'', JStr tag)]) channels_lists qc cb []
            else id)
       (\<lambda>_. toast (Error (Tr ''Failed to enable tag channels'' [])))"

definition handleDisableTagChannels :: "net \<Rightarrow> string \<Rightarrow> bool \<Rightarrow> bool \<Rightarrow> App \<Rightarrow> App" where
  "handleDisableTagChannels net tag qc cb =
     awaiting net (disableTagChannels tag)
       (\<lambda>b. if accepted b
            then succeed (Tr ''Disabled all channels with tag: {{tag}}'' [(''tag'', JStr tag)]) channels_lists qc cb []
            else id)
       (\<lambda>_. toast (Error (Tr ''Failed to disable tag channels'' [])))"

subsection \<open>Actions on the whole system\<close>

definition handleDeleteAllDisabled :: "net \<Rightarrow> bool \<Rightarrow> bool \<Rightarrow> App \<Rightarrow> App" where
  "handleDeleteAllDisabled net qc cb =
     awaiting net deleteDisabledChannels
       (\<lambda>b. if accepted b
            then let n = data_or (data b) 0
                 in succeed (Tr ''{{count}} disabled channel(s) deleted'' [(''count'', n)]) channels_lists qc cb [Val (Some n)]
            else id)
       (\<lambda>_. toast (Error (Tr ''Failed to delete disabled channels'' [])))"

text \<open>An undefined argument of \<open>t\<close> is left out.\<close>

definition field_arg :: "string \<Rightarrow> json \<Rightarrow> json obj" where
  "field_arg k v = (case jfield k v of Some x \<Rightarrow> [(k, x)] | None \<Rightarrow> [])"

definition handleFixAbilities :: "net \<Rightarrow> bool \<Rightarrow> bool \<Rightarrow> App \<Rightarrow> App" where
  "handleFixAbilities net qc cb =
     awaiting net fixChannelAbilities
       (\<lambda>b. case data b of
              Some d \<Rightarrow>
                if accepted b \<and> jtruthy d
                then succeed (Tr ''Fixed abilities: {{success}} succeeded, {{fails}} failed''
                                (field_arg ''success'' d @ field_arg ''fails'' d))
                       channels_lists qc cb [Val (Some d)]
                else id
            | None \<Rightarrow> id)
       (\<lambda>_. toast (Error (Tr ''Failed to fix abilities'' [])))"

definition handleTestAllChannels :: "net \<Rightarrow> bool \<Rightarrow> bool \<Rightarrow> App \<Rightarrow> App" where
  "handleTestAllChannels net qc cb =
     awaiting net testAllChannels
       (\<lambda>b. if accepted b
            then succeed (Tr ''Testing all enabled channels started. Please refresh to see results.'' []) channels_lists qc cb []
            else toast (Error (or_text (message b) (Tr ''Failed to start testing all channels'' []))))
       (\<lambda>_. toast (Error (Tr ''Failed to test all channels'' [])))"

definition handleUpdateAllBalances :: "net \<Rightarrow> bool \<Rightarrow> bool \<Rightarrow> App \<Rightarrow> App" where
  "handleUpdateAllBalances net qc cb =
     awaiting net updateAllChannelsBalance
       (\<lambda>b. if accepted b
            then succeed (Tr ''Updating all channel balances. This may take a while. Please refresh to see results.'' [])
                   channels_lists qc cb []
            else toast (Error (or_text (message b) (Tr ''Failed to update all balances'' []))))
       (\<lambda>_. toast (Error (Tr ''Failed to update all balances'' [])))"

subsection \<open>Actions on models\<close>

definition handleEnableModel :: "net \<Rightarrow> int \<Rightarrow> bool \<Rightarrow> bool \<Rightarrow> App \<Rightarrow> App" where
  "handleEnableModel net i qc cb =
     awaiting net (updateModelStatus i 1)
       (\<lambda>b. if accepted b then succeed (Tr ''Model enabled successfully'' []) models_lists qc cb []
            else toast (Error (or_text (message b) (Tr ''Failed to enable model'' []))))
       (\<lambda>e. toast (Error (or_text (Some (err_message e)) (Tr ''Failed to enable model'' []))))"

definition handleDisableModel :: "net \<Rightarrow> int \<Rightarrow> bool \<Rightarrow> bool \<Rightarrow> App \<Rightarrow> App" where
  "handleDisableModel net i qc cb =
     awaiting net (updateModelStatus i 0)
       (\<lambda>b. if accepted b then succeed (Tr ''Model disabled successfully'' []) models_lists qc cb []
            else toast (Error (or_text (message b) (Tr ''Failed to disable model'' []))))
       (\<lambda>e. toast (Error (or_text (Some (err_message e)) (Tr ''Failed to disable model'' []))))"

definition handleToggleModelStatus :: "net \<Rightarrow> int \<Rightarrow> int \<Rightarrow> bool \<Rightarrow> bool \<Rightarrow> App \<Rightarrow> App" where
  "handleToggleModelStatus net i currentStatus qc cb =
     (if currentStatus = 1 then handleDisableModel net i qc cb else handleEnableModel net i qc cb)"

definition handleDeleteModel :: "net \<Rightarrow> int \<Rightarrow> bool \<Rightarrow> bool \<Rightarrow> App \<Rightarrow> App" where
  "handleDeleteModel net i qc cb =
     awaiting net (deleteModel i)
       (\<lambda>b. if accepted b then succeed (Tr ''Model deleted successfully'' []) models_lists qc cb []
            else toast (Error (or_text (message b) (Tr ''Failed to delete model'' []))))
       (\<lambda>e. toast (Error (or_text (Some (err_message e)) (Tr ''Failed to delete model'' []))))"

text \<open>
  \<open>Promise.all\<close>: the handler goes on with every body when all requests are answered, or with the first
  rejection as soon as it comes in; the replies that come in later are seen by the interceptor only.
\<close>

definition all_batch :: "net \<Rightarrow> (Outcome list \<Rightarrow> Outcome list) \<Rightarrow> Request list \<Rightarrow> string \<Rightarrow> string \<Rightarrow> string \<Rightarrow> bool \<Rightarrow> bool \<Rightarrow> bool \<Rightarrow> App \<Rightarrow> App" where
  "all_batch net arrive rs done_key fail_key error_key counts qc cb app =
     (let results = answers net app rs; order = arrive results;
          app1 = settle_all (takeWhile is_reply order) (send_all rs app);
          successCount = count_of accepted_outcome results;
          failedCount = count_of (\<lambda>r. \<not> accepted_outcome r) results
      in case dropWhile is_reply order of
           [] \<Rightarrow>
             (let app2 = (if 0 < successCount
                          then succeed (Tr done_key (count_arg successCount)) models_lists qc cb
                                 (if counts then [Val (Some (num_json successCount))] else []) app1
                          else app1)
              in if 0 < failedCount then toast (Error (Tr fail_key (count_arg failedCount))) app2 else app2)
         | r # late \<Rightarrow>
             (let msg = (case r of Rejected e \<Rightarrow> Some (err_message e) | Reply _ \<Rightarrow> None)
              in settle_all late
                   (toast (Error (or_text msg (Tr error_key []))) (settle_all [r] app1))))"

definition handleBatchDeleteModels :: "net \<Rightarrow> (Outcome list \<Rightarrow> Outcome list) \<Rightarrow> int list \<Rightarrow> bool \<Rightarrow> bool \<Rightarrow> App \<Rightarrow> App" where
  "handleBatchDeleteModels net arrive ids qc cb =
     (if ids = [] then toast (Error (Tr ''Please select at least one model'' []))
      else all_batch net arrive (map deleteModel ids) ''Successfully deleted {{count}} model(s)''
             ''Failed to delete {{count}} model(s)'' ''Batch delete failed'' True qc cb)"

definition handleBatchEnableModels :: "net \<Rightarrow> (Outcome list \<Rightarrow> Outcome list) \<Rightarrow> int list \<Rightarrow> bool \<Rightarrow> bool \<Rightarrow> App \<Rightarrow> App" where
  "handleBatchEnableModels net arrive ids qc cb =
     (if ids = [] then toast (Error (Tr ''Please select at least one model'' []))
      else all_batch net arrive (map (\<lambda>i. updateModelStatus i 1) ids) ''Successfully enabled {{count}} model(s)''
             ''Failed to enable {{count}} model(s)'' ''Batch enable failed'' False qc cb)"

definition handleBatchDisableModels :: "net \<Rightarrow> (Outcome list \<Rightarrow> Outcome list) \<Rightarrow> int list \<Rightarrow> bool \<Rightarrow> bool \<Rightarrow> App \<Rightarrow> App" where
  "handleBatchDisableModels net arrive ids qc cb =
     (if ids = [] then toast (Error (Tr ''Please select at least one model'' []))
      else all_batch net arrive (map (\<lambda>i. updateModelStatus i 0) ids) ''Successfully disabled {{count}} model(s)''
             ''Failed to disable {{count}} model(s)'' ''Batch disable failed'' False qc cb)"

subsection \<open>What each part changes\<close>

named_theorems app_eff \<open>what the steps of a handler do to the fields of the page\<close>

lemma toast_fields [app_eff]:
  "sent (toast t app) = sent app" "stale (toast t app) = stale app" "calls (toast t app) = calls app"
  "logged_in (toast t app) = logged_in app" "toasts (toast t app) = toasts app @ [t]"
  by (simp_all add: toast_def)

lemma succeed_fields [app_eff]:
  "sent (succeed t key qc cb args app) = sent app"
  "stale (succeed t key qc cb args app) = stale app @ (if qc then [key] else [])"
  "calls (succeed t key qc cb args app) = calls app @ (if cb then [args] else [])"
  "logged_in (succeed t key qc cb args app) = logged_in app"
  "toasts (succeed t key qc cb args app) = toasts app @ [Success t]"
  by (simp_all add: succeed_def invalidate_def callback_def app_eff)

fun unauthorized :: "Outcome \<Rightarrow> bool" where
  "unauthorized (Rejected e) = (status e = Some 401)"
| "unauthorized (Reply _) = False"

text \<open>What the interceptor shows of an outcome of a request without options.\<close>

fun shown :: "Outcome \<Rightarrow> Toast list" where
  "shown (Reply b) = (if success b = Some False then [Error (or_text (message b) (Raw ''Request failed''))] else [])"
| "shown (Rejected e) =
     [Error (if status e = Some 401 then or_text (server_message e) (Tr ''Session expired!'' [])
             else or_text (server_message e) (or_text (Some (err_message e)) (Raw ''Request error'')))]"

lemma settle_fields [app_eff]:
  "sent (settle cfg out app) = sent app" "stale (settle cfg out app) = stale app"
  "calls (settle cfg out app) = calls app"
  "\<lbrakk>\<not> skipErrorHandler cfg; \<not> skipBusinessError cfg\<rbrakk> \<Longrightarrow> logged_in (settle cfg out app) = (logged_in app \<and> \<not> unauthorized out)"
  "\<lbrakk>\<not> skipErrorHandler cfg; \<not> skipBusinessError cfg\<rbrakk> \<Longrightarrow> toasts (settle cfg out app) = toasts app @ shown out"
  by (cases out; simp add: settle_def on_response_def on_error_def app_eff)+

lemma no_config_flags [simp]:
  "\<not> skipErrorHandler no_config" "\<not> skipBusinessError no_config"
  by (simp_all add: no_config_def)

lemma settle_all_fields [app_eff]:
  "sent (settle_all outs app) = sent app" "stale (settle_all outs app) = stale app"
  "calls (settle_all outs app) = calls app"
  "logged_in (settle_all outs app) = (logged_in app \<and> (\<forall>r\<in>set outs. \<not> unauthorized r))"
  "toasts (settle_all outs app) = toasts app @ concat (map shown outs)"
  unfolding settle_all_def by (induction outs arbitrary: app; simp add: app_eff)+

lemma send_all_fields [app_eff]:
  "sent (send_all rs app) = sent app @ rs" "stale (send_all rs app) = stale app" "calls (send_all rs app) = calls app"
  "logged_in (send_all rs app) = logged_in app" "toasts (send_all rs app) = toasts app"
  by (simp_all add: send_all_def)

fun is_success :: "Toast \<Rightarrow> bool" where
  "is_success (Success _) = True"
| "is_success (Error _) = False"

definition successes :: "App \<Rightarrow> nat" where
  "successes app = length (filter is_success (toasts app))"

lemma shown_no_success [simp]: "filter is_success (shown out) = []"
  by (cases out) simp_all

lemma no_success_concat [simp]: "filter is_success (concat (map shown outs)) = []"
  by (induction outs) simp_all

subsection \<open>Any sequence of table operations\<close>

text \<open>
  The contract of an operation that sends one request: the lists are refreshed and the callback is called exactly when the
  server accepted it, and a success message is shown exactly then. A client runs operations one after the other.
\<close>

locale operations =
  fixes act :: "'op \<Rightarrow> net \<Rightarrow> bool \<Rightarrow> bool \<Rightarrow> App \<Rightarrow> App"
    and req :: "'op \<Rightarrow> Request" and key :: "string list"
  assumes act_sent: "sent (act x net qc cb app) = sent app @ [req x]"
    and act_stale: "stale (act x net qc cb app)
          = stale app @ (if qc \<and> accepted_outcome (net (length (sent app)) (req x)) then [key] else [])"
    and act_calls: "length (calls (act x net qc cb app))
          = length (calls app) + (if cb \<and> accepted_outcome (net (length (sent app)) (req x)) then 1 else 0)"
    and act_successes: "successes (act x net qc cb app)
          = successes app + (if accepted_outcome (net (length (sent app)) (req x)) then 1 else 0)"
    and act_session: "logged_in (act x net qc cb app)
          = (logged_in app \<and> \<not> unauthorized (net (length (sent app)) (req x)))"
begin

definition run :: "'op list \<Rightarrow> net \<Rightarrow> bool \<Rightarrow> bool \<Rightarrow> App \<Rightarrow> App" where
  "run xs net qc cb app = fold (\<lambda>x. act x net qc cb) xs app"

lemma run_Cons: "run (x # xs) net qc cb app = run xs net qc cb (act x net qc cb app)"
  by (simp add: run_def)

lemma answers_Cons:
  "answers net app (req x # rs)
     = net (length (sent app)) (req x) # answers net (act x net qc cb app) rs"
  unfolding answers_def by (simp add: act_sent upt_conv_Cons comp_def del: upt_Suc flip: map_Suc_upt)

lemma run_report:
  "sent (run xs net qc cb app) = sent app @ map req xs
   \<and> stale (run xs net qc cb app)
       = stale app @ (if qc then replicate (length (filter accepted_outcome (answers net app (map req xs)))) key else [])
   \<and> length (calls (run xs net qc cb app))
       = length (calls app) + (if cb then length (filter accepted_outcome (answers net app (map req xs))) else 0)
   \<and> successes (run xs net qc cb app) = successes app + length (filter accepted_outcome (answers net app (map req xs)))
   \<and> logged_in (run xs net qc cb app) = (logged_in app \<and> list_all (\<lambda>r. \<not> unauthorized r) (answers net app (map req xs)))"
proof (induction xs arbitrary: app)
  case Nil
  show ?case by (simp add: run_def answers_def)
next
  case (Cons x xs)
  have ans: "answers net app (map req (x # xs))
      = net (length (sent app)) (req x) # answers net (act x net qc cb app) (map req xs)"
    by (simp add: answers_Cons)
  show ?case
    unfolding run_Cons ans using Cons.IH [of "act x net qc cb app"]
    by (auto simp: act_sent act_stale act_successes act_session act_calls replicate_append_same)
qed

end

text \<open>The operations of a channel row, a tag row and the table menu that send one request and report its outcome.\<close>

datatype ChannelOp =
    EnableChannel int | DisableChannel int | ToggleChannel int int | DeleteChannel int
  | SetField int string int | SetTagField string string int | EnableTag string | DisableTag string
  | DeleteDisabled | TestAll | UpdateBalances

fun channel_op :: "ChannelOp \<Rightarrow> net \<Rightarrow> bool \<Rightarrow> bool \<Rightarrow> App \<Rightarrow> App" where
  "channel_op (EnableChannel i) net = handleEnableChannel net i"
| "channel_op (DisableChannel i) net = handleDisableChannel net i"
| "channel_op (ToggleChannel i st) net = handleToggleChannelStatus net i st"
| "channel_op (DeleteChannel i) net = handleDeleteChannel net i"
| "channel_op (SetField i f v) net = handleUpdateChannelField net i f v"
| "channel_op (SetTagField t f v) net = handleUpdateTagField net t f v"
| "channel_op (EnableTag t) net = handleEnableTagChannels net t"
| "channel_op (DisableTag t) net = handleDisableTagChannels net t"
| "channel_op DeleteDisabled net = handleDeleteAllDisabled net"
| "channel_op TestAll net = handleTestAllChannels net"
| "channel_op UpdateBalances net = handleUpdateAllBalances net"

fun channel_req :: "ChannelOp \<Rightarrow> Request" where
  "channel_req (EnableChannel i) = updateChannel i [(''status'', num_json 1)]"
| "channel_req (DisableChannel i) = updateChannel i [(''status'', num_json 2)]"
| "channel_req (ToggleChannel i st) = updateChannel i [(''status'', num_json (if st = 1 then 2 else 1))]"
| "channel_req (DeleteChannel i) = deleteChannel i"
| "channel_req (SetField i f v) = updateChannel i [(f, num_json v)]"
| "channel_req (SetTagField t f v) = editTagChannels (oput f (num_json v) [(''tag'', JStr t)])"
| "channel_req (EnableTag t) = enableTagChannels t"
| "channel_req (DisableTag t) = disableTagChannels t"
| "channel_req DeleteDisabled = deleteDisabledChannels"
| "channel_req TestAll = testAllChannels"
| "channel_req UpdateBalances = updateAllChannelsBalance"

text \<open>A handler with a success branch and error messages meets the contract.\<close>

definition plain :: "Request \<Rightarrow> bool" where
  "plain r \<longleftrightarrow> \<not> skipErrorHandler (config r) \<and> \<not> skipBusinessError (config r)"

definition reports :: "(net \<Rightarrow> bool \<Rightarrow> bool \<Rightarrow> App \<Rightarrow> App) \<Rightarrow> Request \<Rightarrow> string list \<Rightarrow> bool" where
  "reports h r key \<longleftrightarrow> plain r \<and>
     (\<exists>t args refuse fail. \<forall>net qc cb.
        h net qc cb = awaiting net r
          (\<lambda>b. if accepted b then succeed (t b) key qc cb (args b) else refuse b)
          (\<lambda>e. toast (Error (fail e))) \<and>
        (\<forall>b. refuse b = id \<or> (\<exists>m. refuse b = toast (Error m))))"

lemma reportsI:
  assumes "plain r"
    and "\<And>net qc cb. h net qc cb = awaiting net r
          (\<lambda>b. if accepted b then succeed (t b) key qc cb (args b) else refuse b)
          (\<lambda>e. toast (Error (fail e)))"
    and "\<And>b. refuse b = id \<or> (\<exists>m. refuse b = toast (Error m))"
  shows "reports h r key"
  unfolding reports_def using assms by blast

lemma reports_laws:
  fixes net :: net and app :: App and r :: Request
  defines "out \<equiv> net (length (sent app)) r"
  assumes "reports h r key"
  shows "sent (h net qc cb app) = sent app @ [r]"
    "stale (h net qc cb app) = stale app @ (if qc \<and> accepted_outcome out then [key] else [])"
    "length (calls (h net qc cb app)) = length (calls app) + (if cb \<and> accepted_outcome out then 1 else 0)"
    "successes (h net qc cb app) = successes app + (if accepted_outcome out then 1 else 0)"
    "logged_in (h net qc cb app) = (logged_in app \<and> \<not> unauthorized out)"
proof -
  from assms(2) obtain t args refuse fail where pl: "plain r" and
    h: "h net qc cb = awaiting net r
          (\<lambda>b. if accepted b then succeed (t b) key qc cb (args b) else refuse b)
          (\<lambda>e. toast (Error (fail e)))" and
    rf: "\<And>b. refuse b = id \<or> (\<exists>m. refuse b = toast (Error m))"
    unfolding reports_def by blast
  define app1 where "app1 = settle (config r) out (app\<lparr>sent := sent app @ [r]\<rparr>)"
  have f: "sent app1 = sent app @ [r]" "stale app1 = stale app" "calls app1 = calls app"
    "logged_in app1 = (logged_in app \<and> \<not> unauthorized out)" "successes app1 = successes app"
    using pl by (simp_all add: app1_def app_eff plain_def successes_def)
  have e: "h net qc cb app
    = (case out of Reply b \<Rightarrow> (if accepted b then succeed (t b) key qc cb (args b) else refuse b) app1
       | Rejected e \<Rightarrow> toast (Error (fail e)) app1)"
    unfolding out_def app1_def by (simp add: h awaiting_def request_def Let_def)
  have g: "sent (refuse b a) = sent a" "stale (refuse b a) = stale a" "calls (refuse b a) = calls a"
    "logged_in (refuse b a) = logged_in a" "successes (refuse b a) = successes a" for b a
    using rf [of b] by (auto simp: app_eff successes_def)
  have k: "successes (succeed u key qc cb as a) = Suc (successes a)"
    "successes (toast (Error m) a) = successes a" for u as a m
    by (simp_all add: successes_def app_eff)
  have "sent (h net qc cb app) = sent app @ [r] \<and>
    stale (h net qc cb app) = stale app @ (if qc \<and> accepted_outcome out then [key] else []) \<and>
    length (calls (h net qc cb app)) = length (calls app) + (if cb \<and> accepted_outcome out then 1 else 0) \<and>
    successes (h net qc cb app) = successes app + (if accepted_outcome out then 1 else 0) \<and>
    logged_in (h net qc cb app) = (logged_in app \<and> \<not> unauthorized out)"
  proof (cases out)
    case (Reply b)
    show ?thesis
    proof (cases "accepted b")
      case True
      with Reply have "h net qc cb app = succeed (t b) key qc cb (args b) app1" by (simp add: e)
      with True Reply show ?thesis by (simp add: f k succeed_fields)
    next
      case False
      with Reply have "h net qc cb app = refuse b app1" by (simp add: e)
      with False Reply show ?thesis by (simp add: f g)
    qed
  next
    case (Rejected x)
    then have "h net qc cb app = toast (Error (fail x)) app1" by (simp add: e)
    with Rejected show ?thesis by (simp add: f k toast_fields)
  qed
  then show "sent (h net qc cb app) = sent app @ [r]"
    "stale (h net qc cb app) = stale app @ (if qc \<and> accepted_outcome out then [key] else [])"
    "length (calls (h net qc cb app)) = length (calls app) + (if cb \<and> accepted_outcome out then 1 else 0)"
    "successes (h net qc cb app) = successes app + (if accepted_outcome out then 1 else 0)"
    "logged_in (h net qc cb app) = (logged_in app \<and> \<not> unauthorized out)"
    by iprover+
qed

lemma plain_requests [simp]:
  "plain (updateChannel i d)" "plain (deleteChannel i)" "plain (editTagChannels d)" "plain (enableTagChannels tag)"
  "plain (disableTagChannels tag)" "plain deleteDisabledChannels" "plain testAllChannels" "plain updateAllChannelsBalance"
  "plain (updateModelStatus i v)" "plain (deleteModel i)"
  by (simp_all add: plain_def updateChannel_def deleteChannel_def editTagChannels_def enableTagChannels_def
      disableTagChannels_def deleteDisabledChannels_def testAllChannels_def updateAllChannelsBalance_def
      updateModelStatus_def deleteModel_def api_put_def api_post_def api_delete_def api_get_request_def no_config_def)

lemma enable_reports: "reports (\<lambda>net. handleEnableChannel net i) (updateChannel i [(''status'', num_json 1)]) channels_lists"
  by (rule reportsI, simp, unfold handleEnableChannel_def ENABLED_def, rule refl, simp)

lemma disable_reports: "reports (\<lambda>net. handleDisableChannel net i) (updateChannel i [(''status'', num_json 2)]) channels_lists"
  by (rule reportsI, simp, unfold handleDisableChannel_def MANUAL_DISABLED_def, rule refl, simp)

lemma channel_reports: "reports (channel_op x) (channel_req x) channels_lists"
proof (cases x)
  case (EnableChannel i)
  have "channel_op x = (\<lambda>net. handleEnableChannel net i)" by (rule ext) (simp add: EnableChannel)
  then show ?thesis using enable_reports [of i] EnableChannel by simp
next
  case (DisableChannel i)
  have "channel_op x = (\<lambda>net. handleDisableChannel net i)" by (rule ext) (simp add: DisableChannel)
  then show ?thesis using disable_reports [of i] DisableChannel by simp
next
  case (ToggleChannel i st)
  have "channel_op x = (if st = 1 then (\<lambda>net. handleDisableChannel net i) else (\<lambda>net. handleEnableChannel net i))"
    by (intro ext) (simp add: ToggleChannel handleToggleChannelStatus_def ENABLED_def)
  then show ?thesis using enable_reports [of i] disable_reports [of i] ToggleChannel by simp
next
  case (DeleteChannel i)
  show ?thesis unfolding DeleteChannel
    by (rule reportsI, simp, simp only: channel_op.simps, unfold handleDeleteChannel_def channel_req.simps, rule refl, simp)
next
  case (SetField i f v)
  show ?thesis unfolding SetField
    by (rule reportsI, simp, simp only: channel_op.simps, unfold handleUpdateChannelField_def channel_req.simps, rule refl, blast)
next
  case (SetTagField t f v)
  show ?thesis unfolding SetTagField
    by (rule reportsI, simp, simp only: channel_op.simps, unfold handleUpdateTagField_def channel_req.simps, rule refl, blast)
next
  case (EnableTag t)
  show ?thesis unfolding EnableTag
    by (rule reportsI, simp, simp only: channel_op.simps, unfold handleEnableTagChannels_def channel_req.simps, rule refl, simp)
next
  case (DisableTag t)
  show ?thesis unfolding DisableTag
    by (rule reportsI, simp, simp only: channel_op.simps, unfold handleDisableTagChannels_def channel_req.simps, rule refl, simp)
next
  case DeleteDisabled
  show ?thesis unfolding DeleteDisabled
    by (rule reportsI, simp, simp only: channel_op.simps, unfold handleDeleteAllDisabled_def channel_req.simps Let_def, rule refl, simp)
next
  case TestAll
  show ?thesis unfolding TestAll
    by (rule reportsI, simp, simp only: channel_op.simps, unfold handleTestAllChannels_def channel_req.simps, rule refl, blast)
next
  case UpdateBalances
  show ?thesis unfolding UpdateBalances
    by (rule reportsI, simp, simp only: channel_op.simps, unfold handleUpdateAllBalances_def channel_req.simps, rule refl, blast)
qed

interpretation channel_table: operations channel_op channel_req channels_lists
  by unfold_locales (rule reports_laws [OF channel_reports])+

text \<open>
  Any sequence of channel operations sends exactly its requests in order, and exactly for the ones the server accepted
  it refreshes the channel lists, calls the caller back and shows a success message; the session ends exactly on a 401.
\<close>

theorem channel_table_report:
  "let app' = fold (\<lambda>x. channel_op x net qc cb) ops app;
       outs = answers net app (map channel_req ops); n = length (filter accepted_outcome outs)
   in sent app' = sent app @ map channel_req ops
    \<and> stale app' = stale app @ (if qc then replicate n channels_lists else [])
    \<and> length (calls app') = length (calls app) + (if cb then n else 0)
    \<and> successes app' = successes app + n
    \<and> logged_in app' = (logged_in app \<and> list_all (\<lambda>r. \<not> unauthorized r) outs)"
  using channel_table.run_report [of ops net qc cb app] by (simp add: channel_table.run_def Let_def)

datatype ModelOp = EnableModel int | DisableModel int | ToggleModel int int | DeleteModel int

fun model_op :: "ModelOp \<Rightarrow> net \<Rightarrow> bool \<Rightarrow> bool \<Rightarrow> App \<Rightarrow> App" where
  "model_op (EnableModel i) net = handleEnableModel net i"
| "model_op (DisableModel i) net = handleDisableModel net i"
| "model_op (ToggleModel i st) net = handleToggleModelStatus net i st"
| "model_op (DeleteModel i) net = handleDeleteModel net i"

fun model_req :: "ModelOp \<Rightarrow> Request" where
  "model_req (EnableModel i) = updateModelStatus i 1"
| "model_req (DisableModel i) = updateModelStatus i 0"
| "model_req (ToggleModel i st) = updateModelStatus i (if st = 1 then 0 else 1)"
| "model_req (DeleteModel i) = deleteModel i"

lemma model_handler_reports:
  "reports (\<lambda>net. handleEnableModel net i) (updateModelStatus i 1) models_lists"
  "reports (\<lambda>net. handleDisableModel net i) (updateModelStatus i 0) models_lists"
  "reports (\<lambda>net. handleDeleteModel net i) (deleteModel i) models_lists"
proof -
  show "reports (\<lambda>net. handleEnableModel net i) (updateModelStatus i 1) models_lists"
    by (rule reportsI, simp, unfold handleEnableModel_def, rule refl, blast)
  show "reports (\<lambda>net. handleDisableModel net i) (updateModelStatus i 0) models_lists"
    by (rule reportsI, simp, unfold handleDisableModel_def, rule refl, blast)
  show "reports (\<lambda>net. handleDeleteModel net i) (deleteModel i) models_lists"
    by (rule reportsI, simp, unfold handleDeleteModel_def, rule refl, blast)
qed

lemma model_reports: "reports (model_op x) (model_req x) models_lists"
proof (cases x)
  case (EnableModel i)
  have "model_op x = (\<lambda>net. handleEnableModel net i)" by (rule ext) (simp add: EnableModel)
  then show ?thesis using model_handler_reports(1) [of i] EnableModel by simp
next
  case (DisableModel i)
  have "model_op x = (\<lambda>net. handleDisableModel net i)" by (rule ext) (simp add: DisableModel)
  then show ?thesis using model_handler_reports(2) [of i] DisableModel by simp
next
  case (ToggleModel i st)
  have "model_op x = (if st = 1 then (\<lambda>net. handleDisableModel net i) else (\<lambda>net. handleEnableModel net i))"
    by (intro ext) (simp add: ToggleModel handleToggleModelStatus_def)
  then show ?thesis using model_handler_reports(1,2) [of i] ToggleModel by simp
next
  case (DeleteModel i)
  have "model_op x = (\<lambda>net. handleDeleteModel net i)" by (rule ext) (simp add: DeleteModel)
  then show ?thesis using model_handler_reports(3) [of i] DeleteModel by simp
qed

interpretation model_table: operations model_op model_req models_lists
  by unfold_locales (rule reports_laws [OF model_reports])+

subsection \<open>Batches\<close>

lemma length_answers [simp]: "length (answers net app rs) = length rs"
  by (simp add: answers_def)

lemma count_of_complement: "count_of (\<lambda>r. \<not> p r) xs = int (length xs) - count_of p xs"
  using sum_length_filter_compl [of p xs] by (simp add: count_of_def)

lemma settled_batch_report:
  assumes "rs \<noteq> []"
  defines "n \<equiv> \<lambda>net app. count_of is_reply (answers net app rs)"
  shows "sent (settled_batch net arrive rs dk fk qc cb app) = sent app @ rs"
    "stale (settled_batch net arrive rs dk fk qc cb app) = stale app @ (if 0 < n net app \<and> qc then [channels_lists] else [])"
    "calls (settled_batch net arrive rs dk fk qc cb app) = calls app @ (if 0 < n net app \<and> cb then [[]] else [])"
    "toasts (settled_batch net arrive rs dk fk qc cb app)
       = toasts app @ concat (map shown (arrive (answers net app rs)))
         @ (if 0 < n net app then [Success (Tr dk (count_arg (n net app)))] else [])
         @ (if n net app < int (length rs) then [Error (Tr fk (count_arg (int (length rs) - n net app)))] else [])"
  by (simp_all add: settled_batch_def Let_def n_def app_eff count_of_complement)

text \<open>
  Enabling a selection sends one request per channel and reports as enabled every request that came back at all: the
  count includes the replies in which the server refused the change, and only rejected requests count as failed.
\<close>

theorem batch_enable_counts_answers:
  assumes "ids \<noteq> []"
  shows "let rs = map (\<lambda>i. updateChannel i [(''status'', num_json 1)]) ids; outs = answers net app rs;
             n = count_of is_reply outs; app' = handleBatchEnable net arrive ids qc cb app
         in sent app' = sent app @ rs
          \<and> toasts app' = toasts app @ concat (map shown (arrive outs))
              @ (if 0 < n then [Success (Tr ''{{count}} channel(s) enabled'' (count_arg n))] else [])
              @ (if n < int (length ids)
                 then [Error (Tr ''{{count}} channel(s) failed to enable'' (count_arg (int (length ids) - n)))] else [])
          \<and> stale app' = stale app @ (if 0 < n \<and> qc then [channels_lists] else [])
          \<and> calls app' = calls app @ (if 0 < n \<and> cb then [[]] else [])"
  using assms by (simp add: handleBatchEnable_def settled_batch_report Let_def ENABLED_def)

definition idle :: App where
  "idle = \<lparr>sent = [], toasts = [], stale = [], calls = [], logged_in = True\<rparr>"

definition refused :: Body where
  "refused = \<lparr>success = Some False, message = Some ''no permission'', error_code = None, data = None, balance = None\<rparr>"

text \<open>Two channels, both refused: the page still ends with ``2 channel(s) enabled''.\<close>

lemma batch_enable_counts_answers_witness:
  "toasts (handleBatchEnable (\<lambda>_ _. Reply refused) (\<lambda>outs. outs) [7, 8] True True idle)
    = [Error (Raw ''no permission''), Error (Raw ''no permission''),
       Success (Tr ''{{count}} channel(s) enabled'' (count_arg 2))]"
  using batch_enable_counts_answers [of "[7, 8]" "\<lambda>_ _. Reply refused" idle "\<lambda>outs. outs" True True]
  by (simp add: Let_def answers_def idle_def refused_def count_of_def or_text_def)

lemma first_rejection:
  assumes "mset order = mset outs" "\<exists>r\<in>set outs. \<not> is_reply r"
  obtains r late where "dropWhile is_reply order = r # late" "\<not> is_reply r"
proof (cases "dropWhile is_reply order")
  case Nil
  then have "\<forall>r\<in>set order. is_reply r" by (simp add: dropWhile_eq_Nil_conv)
  with assms show ?thesis using mset_eq_setD [OF assms(1)] by auto
next
  case (Cons r late)
  then have "\<not> is_reply r" using hd_dropWhile [of is_reply order] by simp
  with Cons show ?thesis by (rule that)
qed

lemma all_answered:
  assumes "mset order = mset outs" "\<forall>r\<in>set outs. is_reply r"
  shows "dropWhile is_reply order = []" "takeWhile is_reply order = order"
  using assms mset_eq_setD [OF assms(1)] by auto

text \<open>
  A batch deletion of models reports per model only when every request is answered. One rejected request, whenever it
  comes in, ends it: nothing is refreshed, the caller is not called and no success is shown, although the other deletions took place.
\<close>

theorem batch_delete_models_report:
  assumes "ids \<noteq> []" and "mset (arrive (answers net app (map deleteModel ids))) = mset (answers net app (map deleteModel ids))"
  shows "let outs = answers net app (map deleteModel ids); n = count_of accepted_outcome outs;
             app' = handleBatchDeleteModels net arrive ids qc cb app
         in sent app' = sent app @ map deleteModel ids \<and>
            (if \<exists>r\<in>set outs. \<not> is_reply r
             then stale app' = stale app \<and> calls app' = calls app \<and> successes app' = successes app
             else stale app' = stale app @ (if 0 < n \<and> qc then [models_lists] else [])
                \<and> calls app' = calls app @ (if 0 < n \<and> cb then [[Val (Some (num_json n))]] else [])
                \<and> toasts app' = toasts app @ concat (map shown (arrive outs))
                    @ (if 0 < n then [Success (Tr ''Successfully deleted {{count}} model(s)'' (count_arg n))] else [])
                    @ (if n < int (length ids)
                       then [Error (Tr ''Failed to delete {{count}} model(s)'' (count_arg (int (length ids) - n)))] else []))"
proof (cases "\<exists>r\<in>set (answers net app (map deleteModel ids)). \<not> is_reply r")
  case True
  obtain r late where d: "dropWhile is_reply (arrive (answers net app (map deleteModel ids))) = r # late"
    using first_rejection [OF assms(2) True] by metis
  show ?thesis using True assms(1)
    by (simp add: handleBatchDeleteModels_def all_batch_def Let_def d app_eff successes_def)
next
  case False
  note all = all_answered [OF assms(2)]
  have d: "dropWhile is_reply (arrive (answers net app (map deleteModel ids))) = []"
    and t: "takeWhile is_reply (arrive (answers net app (map deleteModel ids))) = arrive (answers net app (map deleteModel ids))"
    using all False by metis+
  show ?thesis using False assms(1)
    by (simp add: handleBatchDeleteModels_def all_batch_def Let_def d t app_eff count_of_complement)
qed

definition done_body :: Body where
  "done_body = \<lparr>success = Some True, message = None, error_code = None, data = None, balance = None\<rparr>"

definition lost :: Failure where
  "lost = \<lparr>status = None, server_message = None, err_message = ''Network Error''\<rparr>"

text \<open>Model 1 is deleted, the request for model 2 is lost: the list is not refreshed.\<close>

lemma batch_delete_models_report_witness:
  "let app' = handleBatchDeleteModels (\<lambda>k _. if k = 0 then Reply done_body else Rejected lost) (\<lambda>outs. outs) [1, 2] True True idle
   in stale app' = [] \<and> calls app' = [] \<and> successes app' = 0"
proof -
  let ?net = "\<lambda>k _. if k = 0 then Reply done_body else Rejected lost"
  have a: "answers ?net idle (map deleteModel [1, 2]) = [Reply done_body, Rejected lost]"
    by (simp add: answers_def idle_def)
  show ?thesis
    using batch_delete_models_report [of "[1, 2]" "\<lambda>outs. outs" ?net idle True True]
    unfolding a by (simp add: idle_def successes_def Let_def)
qed

end
