(* ===== verification/Notifications.thy ===== *)
theory Notifications
  imports JsJsonFacts "HOL-Library.Word"
begin

text \<open>
  The notification centre: \<^verbatim>\<open>hooks/use-notifications.ts\<close> with the persisted store of
  \<^verbatim>\<open>stores/notification-store.ts\<close>. The notice and the announcements come from the server and are
  arguments; the date of today is one too. The hash of an announcement is computed on numbers with the bit
  operations of JavaScript, which work on 32-bit words.
\<close>

subsection \<open>The store\<close>

record NotificationState =
  lastReadNotice :: string
  readAnnouncementKeys :: "string list"
  closedUntilDate :: "string option"

definition initNotifications :: NotificationState where
  "initNotifications = \<lparr>lastReadNotice = '''', readAnnouncementKeys = [], closedUntilDate = None\<rparr>"

definition markNoticeRead :: "string \<Rightarrow> NotificationState \<Rightarrow> NotificationState" where
  "markNoticeRead noticeContent st = st\<lparr>lastReadNotice := trim noticeContent\<rparr>"

definition markAnnouncementsRead :: "string list \<Rightarrow> NotificationState \<Rightarrow> NotificationState" where
  "markAnnouncementsRead keys st = st\<lparr>readAnnouncementKeys := uniq (readAnnouncementKeys st @ keys)\<rparr>"

definition setClosedUntilDate :: "string option \<Rightarrow> NotificationState \<Rightarrow> NotificationState" where
  "setClosedUntilDate date st = st\<lparr>closedUntilDate := date\<rparr>"

definition isAnnouncementRead :: "string \<Rightarrow> NotificationState \<Rightarrow> bool" where
  "isAnnouncementRead key st \<longleftrightarrow> key \<in> set (readAnnouncementKeys st)"

definition isNoticeClosed :: "string \<Rightarrow> NotificationState \<Rightarrow> bool" where
  "isNoticeClosed today st =
     (case closedUntilDate st of None \<Rightarrow> False | Some d \<Rightarrow> if d = '''' then False else d = today)"

subsection \<open>The key of an announcement\<close>

text \<open>\<open>x | 0\<close> and \<open>x << 5\<close>.\<close>

definition to_int32 :: "int \<Rightarrow> int" where
  "to_int32 x = sint (word_of_int x :: 32 word)"

definition shl5 :: "int \<Rightarrow> int" where
  "shl5 x = sint (push_bit 5 (word_of_int x :: 32 word))"

definition hash_step :: "int \<Rightarrow> char \<Rightarrow> int" where
  "hash_step hash chr = to_int32 (shl5 hash - hash + int (of_char chr))"

text \<open>\<open>toString(36)\<close>.\<close>

definition digit36 :: "nat \<Rightarrow> char" where
  "digit36 d = (if d < 10 then char_of (48 + d) else char_of (87 + d))"

fun show36_nat :: "nat \<Rightarrow> string" where
  "show36_nat n = (if n < 36 then [digit36 n] else show36_nat (n div 36) @ [digit36 (n mod 36)])"

declare show36_nat.simps [simp del]

definition show36 :: "int \<Rightarrow> string" where
  "show36 i = (if i < 0 then ''-'' @ show36_nat (nat (- i)) else show36_nat (nat i))"

definition hashString :: "string \<Rightarrow> string" where
  "hashString input = (if input = '''' then ''0'' else show36 (foldl hash_step 0 input))"

text \<open>A text property of an announcement, the empty text when it is missing; the properties are texts.\<close>

definition text_field :: "string \<Rightarrow> json obj \<Rightarrow> string" where
  "text_field k item = (case oget item k of Some (JStr s) \<Rightarrow> s | _ \<Rightarrow> '''')"

definition fingerprint :: "json obj \<Rightarrow> string" where
  "fingerprint item =
     stringify (JObj
       [(''publishDate'', JStr (text_field ''publishDate'' item)),
        (''content'', JStr (trim (text_field ''content'' item))),
        (''extra'', JStr (trim (text_field ''extra'' item))),
        (''type'', JStr (text_field ''type'' item)),
        (''title'', JStr (trim (text_field ''title'' item))),
        (''link'', JStr (trim (text_field ''link'' item)))])"

definition getAnnouncementKey :: "json obj \<Rightarrow> string" where
  "getAnnouncementKey item =
     (case oget item ''id'' of
        Some v \<Rightarrow> if v \<noteq> JNull then ''id:'' @ js_String v else ''hash:'' @ hashString (fingerprint item)
      | None \<Rightarrow> ''hash:'' @ hashString (fingerprint item))"

subsection \<open>The hook\<close>

datatype Tab = NoticeTab | AnnouncementsTab

record Panel =
  store :: NotificationState
  dialogOpen :: bool
  activeTab :: Tab

definition initPanel :: "NotificationState \<Rightarrow> Panel" where
  "initPanel st = \<lparr>store = st, dialogOpen = False, activeTab = NoticeTab\<rparr>"

text \<open>The texts of the server: the notice response (success, data) and the announcements of the status.\<close>

definition noticeContent :: "(bool \<times> string option) option \<Rightarrow> string" where
  "noticeContent response =
     (case response of
        Some (True, d) \<Rightarrow> trim (case d of Some s \<Rightarrow> s | None \<Rightarrow> '''')
      | _ \<Rightarrow> '''')"

definition shown_announcements :: "bool \<Rightarrow> json obj list \<Rightarrow> json obj list" where
  "shown_announcements enabled items = (if enabled then take 20 items else [])"

definition noticeUnread :: "string \<Rightarrow> NotificationState \<Rightarrow> nat" where
  "noticeUnread notice st = (if notice \<noteq> '''' \<and> notice \<noteq> lastReadNotice st then 1 else 0)"

definition announcementsUnread :: "json obj list \<Rightarrow> NotificationState \<Rightarrow> nat" where
  "announcementsUnread anns st = length (filter (\<lambda>item. \<not> isAnnouncementRead (getAnnouncementKey item) st) anns)"

definition unreadCount :: "string \<Rightarrow> json obj list \<Rightarrow> NotificationState \<Rightarrow> nat" where
  "unreadCount notice anns st = noticeUnread notice st + announcementsUnread anns st"

definition handleOpenDialog :: "string \<Rightarrow> Tab option \<Rightarrow> Panel \<Rightarrow> Panel" where
  "handleOpenDialog notice tab p =
     (let st = (if notice \<noteq> '''' then markNoticeRead notice (store p) else store p)
      in p\<lparr>store := st, activeTab := (case tab of Some t \<Rightarrow> t | None \<Rightarrow> NoticeTab), dialogOpen := True\<rparr>)"

definition handleTabChange :: "json obj list \<Rightarrow> Tab \<Rightarrow> Panel \<Rightarrow> Panel" where
  "handleTabChange anns tab p =
     (let p1 = p\<lparr>activeTab := tab\<rparr>
      in if tab = AnnouncementsTab \<and> anns \<noteq> []
         then p1\<lparr>store := markAnnouncementsRead (map getAnnouncementKey anns) (store p1)\<rparr>
         else p1)"

definition handleCloseToday :: "string \<Rightarrow> Panel \<Rightarrow> Panel" where
  "handleCloseToday today p = p\<lparr>store := setClosedUntilDate (Some today) (store p), dialogOpen := False\<rparr>"

definition closeDialog :: "Panel \<Rightarrow> Panel" where
  "closeDialog p = p\<lparr>dialogOpen := False\<rparr>"

text \<open>What the user does while the server sends the same texts.\<close>

datatype Act = Open "Tab option" | Switch Tab | CloseToday string | Close

fun act :: "string \<Rightarrow> json obj list \<Rightarrow> Act \<Rightarrow> Panel \<Rightarrow> Panel" where
  "act notice anns (Open t) p = handleOpenDialog notice t p"
| "act notice anns (Switch t) p = handleTabChange anns t p"
| "act notice anns (CloseToday d) p = handleCloseToday d p"
| "act notice anns Close p = closeDialog p"

subsection \<open>The value of the hash\<close>

text \<open>The polynomial in 31 that the loop evaluates, without wrapping.\<close>

definition poly31 :: "string \<Rightarrow> int" where
  "poly31 cs = foldl (\<lambda>h c. 31 * h + int (of_char c)) 0 cs"

lemma of_to_int32 [simp]: "word_of_int (to_int32 x) = (word_of_int x :: 32 word)"
  by (simp add: to_int32_def)

lemma to_int32_cong: "(word_of_int x :: 32 word) = word_of_int y \<Longrightarrow> to_int32 x = to_int32 y"
  by (simp add: to_int32_def)

lemma of_shl5: "(word_of_int (shl5 x) :: 32 word) = word_of_int (32 * x)"
proof -
  have "(push_bit 5 (word_of_int x) :: 32 word) = word_of_int x * 2 ^ 5" by (rule push_bit_eq_mult)
  also have "\<dots> = word_of_int (32 * x)" by (simp add: mult.commute)
  finally show ?thesis by (simp add: shl5_def)
qed

lemma hash_step_poly: "hash_step (to_int32 h) c = to_int32 (31 * h + int (of_char c))"
proof -
  have "(word_of_int (shl5 (to_int32 h) - to_int32 h + int (of_char c)) :: 32 word)
      = word_of_int (shl5 (to_int32 h)) - word_of_int (to_int32 h) + word_of_int (int (of_char c))"
    by simp
  also have "\<dots> = word_of_int (32 * to_int32 h) - word_of_int h + word_of_int (int (of_char c))"
    by (simp add: of_shl5)
  also have "(word_of_int (32 * to_int32 h) :: 32 word) = word_of_int 32 * word_of_int (to_int32 h)"
    by (rule wi_hom_mult [symmetric])
  also have "\<dots> = word_of_int (32 * h)" by simp
  finally have "(word_of_int (shl5 (to_int32 h) - to_int32 h + int (of_char c)) :: 32 word)
      = word_of_int (32 * h - h + int (of_char c))" by simp
  then show ?thesis unfolding hash_step_def by (intro to_int32_cong) (simp add: algebra_simps)
qed

lemma hash_loop: "foldl hash_step (to_int32 h) cs = to_int32 (foldl (\<lambda>h c. 31 * h + int (of_char c)) h cs)"
  by (induction cs arbitrary: h) (simp_all add: hash_step_poly)

lemma to_int32_value: "to_int32 x = (x + 2 ^ 31) mod 2 ^ 32 - 2 ^ 31"
proof -
  have "to_int32 x = signed_take_bit 31 x"
    by (simp add: to_int32_def signed_of_int)
  also have "\<dots> = take_bit (Suc 31) (x + 2 ^ 31) - 2 ^ 31" by (rule signed_take_bit_eq_take_bit_shift)
  finally show ?thesis by (simp add: take_bit_eq_mod)
qed

lemma hash_value: "foldl hash_step 0 cs = to_int32 (poly31 cs)"
proof -
  have "to_int32 0 = 0" by (simp add: to_int32_def)
  with hash_loop [of 0 cs] show ?thesis by (simp add: poly31_def)
qed

lemma hashString_poly: "hashString cs = show36 (to_int32 (poly31 cs))"
proof (cases "cs = ''''")
  case True
  have "show36 0 = ''0''" by code_simp
  with True show ?thesis by (simp add: hashString_def poly31_def to_int32_def)
qed (simp add: hashString_def hash_value)

text \<open>
  The hash of a text is the base-36 text of its polynomial in 31, wrapped once to a signed 32-bit number: the
  wrapping in every round changes nothing, and the result is within the 32-bit range.
\<close>

theorem hashString_wraps_once:
  "hashString cs = show36 ((poly31 cs + 2 ^ 31) mod 2 ^ 32 - 2 ^ 31) \<and>
   - (2 ^ 31) \<le> foldl hash_step 0 cs \<and> foldl hash_step 0 cs < 2 ^ 31"
proof -
  have "0 \<le> (poly31 cs + 2 ^ 31) mod (2 ^ 32 :: int)" "(poly31 cs + 2 ^ 31) mod (2 ^ 32 :: int) < 2 ^ 32"
    by simp_all
  then show ?thesis unfolding hashString_poly hash_value to_int32_value by auto
qed

subsection \<open>Edits that keep the key\<close>

lemma poly31_append: "poly31 (us @ vs) = foldl (\<lambda>h c. 31 * h + int (of_char c)) (poly31 us) vs"
  by (simp add: poly31_def)

lemma poly31_Aa: "poly31 (us @ ''Aa'' @ vs) = poly31 (us @ ''BB'' @ vs)"
  by (simp add: poly31_append)

lemma poly31_within: "poly31 (ls @ (us @ ''Aa'' @ vs) @ rs) = poly31 (ls @ (us @ ''BB'' @ vs) @ rs)"
  using poly31_Aa [of "ls @ us" "vs @ rs"] by (simp only: append_assoc)

lemma trim_inside:
  assumes "\<not> is_ws a" "\<not> is_ws b"
  shows "trim (us @ [a, b] @ vs) = dropWhile is_ws us @ [a, b] @ rev (dropWhile is_ws (rev vs))"
proof -
  have l: "dropWhile is_ws (us @ a # w) = dropWhile is_ws us @ a # w" for w
    using assms by (induction us) simp_all
  have r: "dropWhile is_ws (zs @ b # w) = dropWhile is_ws zs @ b # w" for zs w
    using assms by (induction zs) simp_all
  show ?thesis by (simp add: trim_def trim_by_def l r)
qed

lemma stringify_content:
  "stringify (JObj [(''publishDate'', JStr d), (''content'', JStr c), (''extra'', JStr e), (''type'', JStr t), (''title'', JStr h), (''link'', JStr l)])
    = ''{'' @ quote ''publishDate'' @ '':'' @ quote d @ '','' @ quote ''content'' @ '':'' @ quote c @ '','' @
      quote ''extra'' @ '':'' @ quote e @ '','' @ quote ''type'' @ '':'' @ quote t @ '','' @ quote ''title'' @ '':'' @ quote h @ '','' @
      quote ''link'' @ '':'' @ quote l @ ''}''"
  by (simp add: own_entries_def is_index_def)

text \<open>
  An edit of an announcement without an id need not be noticed: replacing Aa by BB anywhere in its text keeps its
  key, so that an announcement already read stays read.
\<close>

theorem edit_keeps_key:
  assumes "oget item ''id'' = None"
  shows "getAnnouncementKey (oput ''content'' (JStr (us @ ''Aa'' @ vs)) item)
       = getAnnouncementKey (oput ''content'' (JStr (us @ ''BB'' @ vs)) item)"
proof -
  define u where "u = dropWhile is_ws us"
  define v where "v = rev (dropWhile is_ws (rev vs))"
  have t: "trim (us @ ''Aa'' @ vs) = u @ ''Aa'' @ v" "trim (us @ ''BB'' @ vs) = u @ ''BB'' @ v"
    unfolding u_def v_def using trim_inside [of "CHR ''A''" "CHR ''a''" us vs] trim_inside [of "CHR ''B''" "CHR ''B''" us vs]
    by (simp_all add: is_ws_def)
  have q: "quote (u @ ''Aa'' @ v) = ([CHR 0x22] @ concat (map esc_char u)) @ ''Aa'' @ (concat (map esc_char v) @ [CHR 0x22])"
    "quote (u @ ''BB'' @ v) = ([CHR 0x22] @ concat (map esc_char u)) @ ''BB'' @ (concat (map esc_char v) @ [CHR 0x22])"
    by (simp_all add: quote_def esc_char_def)
  have f: "fingerprint (oput ''content'' (JStr w) item) =
      (''{'' @ quote ''publishDate'' @ '':'' @ quote (text_field ''publishDate'' item) @ '','' @ quote ''content'' @ '':'')
      @ quote (trim w) @
      ('','' @ quote ''extra'' @ '':'' @ quote (trim (text_field ''extra'' item)) @ '','' @ quote ''type'' @ '':'' @
       quote (text_field ''type'' item) @ '','' @ quote ''title'' @ '':'' @ quote (trim (text_field ''title'' item)) @ '','' @
       quote ''link'' @ '':'' @ quote (trim (text_field ''link'' item)) @ ''}'')" for w
    unfolding fingerprint_def stringify_content by (simp add: text_field_def)
  have "poly31 (fingerprint (oput ''content'' (JStr (us @ ''Aa'' @ vs)) item))
      = poly31 (fingerprint (oput ''content'' (JStr (us @ ''BB'' @ vs)) item))"
    unfolding f t q by (rule poly31_within)
  then show ?thesis using assms by (simp add: getAnnouncementKey_def hashString_poly)
qed

text \<open>A price announcement edited from plan Aa to plan BB.\<close>

lemma edit_keeps_key_witness:
  "getAnnouncementKey [(''type'', JStr ''info''), (''content'', JStr ''Plan Aa costs 5'')]
    = getAnnouncementKey [(''type'', JStr ''info''), (''content'', JStr ''Plan BB costs 5'')]"
  using edit_keeps_key [of "[(''type'', JStr ''info'')]" "''Plan ''" "'' costs 5''"] by simp

subsection \<open>Unread counts\<close>

lemma notice_trimmed: "trim (noticeContent r) = noticeContent r"
  by (auto simp: noticeContent_def split: option.splits prod.splits bool.splits)

lemma act_notice:
  assumes "trim notice = notice"
  shows "noticeUnread notice (store (act notice anns a p)) = (if \<exists>t. a = Open t then 0 else noticeUnread notice (store p))"
  using assms by (cases a) (auto simp: handleOpenDialog_def handleTabChange_def handleCloseToday_def closeDialog_def
      noticeUnread_def markNoticeRead_def markAnnouncementsRead_def setClosedUntilDate_def Let_def)

lemma act_announcements:
  "announcementsUnread anns (store (act notice anns a p))
    = (if a = Switch AnnouncementsTab then 0 else announcementsUnread anns (store p))"
  by (cases a) (auto simp: handleOpenDialog_def handleTabChange_def handleCloseToday_def closeDialog_def
      announcementsUnread_def isAnnouncementRead_def markNoticeRead_def markAnnouncementsRead_def setClosedUntilDate_def
      filter_empty_conv Let_def)

lemma acts_notice:
  assumes "trim notice = notice"
  shows "noticeUnread notice (store (fold (act notice anns) acts p))
    = (if \<exists>t. Open t \<in> set acts then 0 else noticeUnread notice (store p))"
proof (induction acts arbitrary: p)
  case (Cons a acts)
  have "noticeUnread notice (store (act notice anns a p)) = 0" if "\<exists>t. a = Open t"
    using act_notice [OF assms, of anns a p] that by simp
  with Cons.IH [of "act notice anns a p"] act_notice [OF assms, of anns a p] show ?case by auto
qed simp

lemma acts_announcements:
  "announcementsUnread anns (store (fold (act notice anns) acts p))
    = (if Switch AnnouncementsTab \<in> set acts then 0 else announcementsUnread anns (store p))"
proof (induction acts arbitrary: p)
  case (Cons a acts)
  with act_announcements [of anns notice a p] show ?case by auto
qed simp

text \<open>
  After any sequence of user actions the unread count is exact: the notice counts until the dialog is opened once, the
  announcements count until their tab is chosen once; nothing else, closing for today included, reads anything.
\<close>

theorem unread_count_after:
  "let notice = noticeContent r; anns = shown_announcements enabled items
   in unreadCount notice anns (store (fold (act notice anns) acts p))
      = (if \<exists>t. Open t \<in> set acts then 0 else noticeUnread notice (store p))
        + (if Switch AnnouncementsTab \<in> set acts then 0 else announcementsUnread anns (store p))"
  by (simp add: Let_def unreadCount_def acts_notice [OF notice_trimmed] acts_announcements)

end
