(* ===== verification/SettingsForm.thy ===== *)
theory SettingsForm
  imports JsJsonFacts "HOL-Library.Sublist" "HOL-Library.Multiset"
begin

text \<open>
  The form behind every page of the system settings: \<^verbatim>\<open>features/system-settings/hooks/use-settings-form.ts\<close>.
  Options come in as flat keys with dots, are edited as a tree and are saved key by key. The form library keeps the
  values and marks the edited fields; both are arguments of the model (type \<open>Dirty\<close> for the marks).

  Values are JSON values. An object built from a parsed text is fresh, so that the assignments of
  \<open>setDeepValue\<close> into shared sub-objects are updates of a value.
\<close>

subsection \<open>Flat and nested values\<close>

definition join_key :: "string option \<Rightarrow> string \<Rightarrow> string" where
  "join_key parentKey key =
     (case parentKey of
        Some p \<Rightarrow> if p \<noteq> '''' then p @ ''.'' @ key else key
      | None \<Rightarrow> key)"

fun flattenValues :: "json \<Rightarrow> string option \<Rightarrow> json obj \<Rightarrow> json obj" where
  "flattenValues (JObj ob) parentKey result =
     foldl (\<lambda>r p.
              let nextKey = join_key parentKey (fst p)
              in if is_plain_object (snd p) then flattenValues (snd p) (Some nextKey) r
                 else oput nextKey (snd p) r)
           result (own_entries ob)"
| "flattenValues v parentKey result = (case parentKey of Some k \<Rightarrow> oput k v result | None \<Rightarrow> result)"

text \<open>What the form library marks: a field is dirty or not, or its parts are (an array has its indices as keys).\<close>

datatype Dirty = Mark bool | Parts "(string \<times> Dirty) list"

text \<open>\<open>values[key]\<close> of an object or an array, undefined otherwise.\<close>

definition part_of :: "json option \<Rightarrow> string \<Rightarrow> json option" where
  "part_of v key =
     (case v of
        Some (JObj ob) \<Rightarrow> oget ob key
      | Some (JArr xs) \<Rightarrow> if is_index key \<and> read_nat key < length xs then Some (xs ! read_nat key) else None
      | _ \<Rightarrow> None)"

fun collectDirtyValues :: "Dirty \<Rightarrow> json option \<Rightarrow> string option \<Rightarrow> json option obj \<Rightarrow> json option obj" where
  "collectDirtyValues (Mark b) v parentKey result =
     (if b then (case parentKey of Some k \<Rightarrow> oput k v result | None \<Rightarrow> result) else result)"
| "collectDirtyValues (Parts ds) v parentKey result =
     foldl (\<lambda>r p.
              let nextKey = join_key parentKey (fst p); source = part_of v (fst p)
              in if snd p = Mark True then oput nextKey source r
                 else if snd p = Mark False then r
                 else collectDirtyValues (snd p) source (Some nextKey) r)
           result (own_entries ds)"

fun setDeepValue :: "json obj \<Rightarrow> string list \<Rightarrow> json \<Rightarrow> json obj" where
  "setDeepValue current [] v = current"
| "setDeepValue current [segment] v = oput segment v current"
| "setDeepValue current (segment # rest) v =
     (case oget current segment of
        Some (JObj next) \<Rightarrow> oput segment (JObj (setDeepValue next rest v)) current
      | _ \<Rightarrow> oput segment (JObj (setDeepValue [] rest v)) current)"

fun expandDotPaths :: "json \<Rightarrow> json" where
  "expandDotPaths (JObj ob) =
     JObj (foldl (\<lambda>r p.
                    if CHR ''.'' \<in> set (fst p) then setDeepValue r (split_on CHR ''.'' (fst p)) (snd p)
                    else if is_plain_object (snd p) then oput (fst p) (expandDotPaths (snd p)) r
                    else oput (fst p) (snd p) r)
                 [] (own_entries ob))"
| "expandDotPaths v = v"

subsection \<open>The hook\<close>

text \<open>
  \<open>a === b\<close> on values of the form, then the comparison by text: two objects or arrays are compared by their JSON
  text (the same object has the same text), everything else by value.
\<close>

definition object_like :: "json \<Rightarrow> bool" where
  "object_like v \<longleftrightarrow> (case v of JObj _ \<Rightarrow> True | JArr _ \<Rightarrow> True | _ \<Rightarrow> False)"

definition defaultCompare :: "json option \<Rightarrow> json option \<Rightarrow> bool" where
  "defaultCompare a b =
     (case (a, b) of
        (Some x, Some y) \<Rightarrow> if object_like x \<and> object_like y then stringify x = stringify y else x = y
      | (None, None) \<Rightarrow> True
      | _ \<Rightarrow> False)"

record SettingsState =
  defaultValues :: json
  baseline :: "json obj"
  serializedDefaults :: string

definition initSettings :: "json \<Rightarrow> SettingsState" where
  "initSettings defaults =
     (let expanded = expandDotPaths defaults; flat = flattenValues expanded None []
      in \<lparr>defaultValues = expanded, baseline = flat, serializedDefaults = stringify (JObj flat)\<rparr>)"

text \<open>The effect on new defaults: the new state and the values the form is reset to, if it is.\<close>

definition onDefaults :: "json \<Rightarrow> SettingsState \<Rightarrow> SettingsState \<times> json option" where
  "onDefaults defaults st =
     (let expanded = expandDotPaths defaults; flattened = flattenValues expanded None [];
          serialized = stringify (JObj flattened)
      in if serialized = serializedDefaults st then (st, None)
         else (\<lparr>defaultValues = expanded, baseline = flattened, serializedDefaults = serialized\<rparr>, Some expanded))"

definition changedFields :: "Dirty \<Rightarrow> json \<Rightarrow> SettingsState \<Rightarrow> json option obj" where
  "changedFields dirty d st =
     filter (\<lambda>p. \<not> defaultCompare (snd p) (oget (baseline st) (fst p)))
       (own_entries (collectDirtyValues dirty (Some d) None []))"

text \<open>
  A submit up to its \<open>await\<close>: nothing to save, or the fields given to \<open>onSubmit\<close>; and what follows when that
  call has succeeded (when it fails, the exception leaves the state as it is).
\<close>

definition handleSubmit :: "Dirty \<Rightarrow> json \<Rightarrow> SettingsState \<Rightarrow> json option obj option" where
  "handleSubmit dirty d st = (let changed = changedFields dirty d st in if changed = [] then None else Some changed)"

definition onSubmitted :: "json \<Rightarrow> SettingsState \<Rightarrow> SettingsState \<times> json option" where
  "onSubmitted d st =
     (let flat = flattenValues d None []
      in (\<lparr>defaultValues = d, baseline = flat, serializedDefaults = stringify (JObj flat)\<rparr>, Some d))"

definition handleReset :: "SettingsState \<Rightarrow> json" where
  "handleReset st = defaultValues st"

subsection \<open>Keys and paths\<close>

definition segment_ok :: "string \<Rightarrow> bool" where
  "segment_ok w \<longleftrightarrow> w \<noteq> '''' \<and> CHR ''.'' \<notin> set w"

abbreviation path_of :: "string \<Rightarrow> string list" where
  "path_of k \<equiv> split_on CHR ''.'' k"

definition parent_key :: "string list \<Rightarrow> string option" where
  "parent_key pp = (if pp = [] then None else Some (join ''.'' pp))"

lemma join_snoc: "ws \<noteq> [] \<Longrightarrow> join sep (ws @ [w]) = join sep ws @ sep @ w"
proof (induction ws)
  case (Cons v ws)
  then show ?case by (cases ws) (auto simp: join_Cons)
qed simp

lemma join_key_path: "list_all segment_ok pp \<Longrightarrow> join_key (parent_key pp) w = join ''.'' (pp @ [w])"
proof (cases "pp = []")
  case False
  assume ok: "list_all segment_ok pp"
  then obtain v ws where "pp = v # ws" "v \<noteq> ''''" using False by (cases pp) (auto simp: segment_ok_def)
  then have "join ''.'' pp \<noteq> ''''" using length_join_hd [of v "''.''" ws] by auto
  with False show ?thesis by (simp add: join_key_def parent_key_def join_snoc)
qed (simp add: join_key_def parent_key_def)

lemma key_path: "ws \<noteq> [] \<Longrightarrow> list_all segment_ok ws \<Longrightarrow> k = join ''.'' ws \<longleftrightarrow> path_of k = ws"
  using split_on_join [of ws "CHR ''.''"] join_split_on [of "CHR ''.''" k]
  by (auto simp: list_all_iff segment_ok_def)

lemma path_inj: "path_of k = path_of k' \<longleftrightarrow> k = k'"
  by (metis join_split_on)

lemma strip_prefix_snoc:
  "strip_prefix (pp @ [w]) qs
    = (case strip_prefix pp qs of Some (s # ss) \<Rightarrow> if s = w then Some ss else None | _ \<Rightarrow> None)"
  by (induction pp qs rule: strip_prefix.induct) (auto split: list.splits)

lemma owf_own_entries [simp]: "owf (own_entries ob) = owf ob"
proof -
  have "mset (map fst (own_entries ob)) = mset (map fst ob)"
    unfolding own_entries_def mset_map by (simp add: image_mset_union [symmetric] multiset_partition [symmetric])
  then show ?thesis unfolding owf_def by (metis mset_eq_imp_distinct_iff)
qed

lemma oget_own_entries [simp]: "owf ob \<Longrightarrow> oget (own_entries ob) = oget ob"
proof (rule ext)
  fix k
  assume wf: "owf ob"
  then have d: "distinct (map fst (own_entries ob))" using owf_own_entries [of ob] by (simp add: owf_def)
  show "oget (own_entries ob) k = oget ob k"
  proof (cases "oget ob k")
    case None
    then have "k \<notin> fst ` set (own_entries ob)" by (simp add: map_of_eq_None_iff)
    then have "oget (own_entries ob) k = None" unfolding map_of_eq_None_iff .
    with None show ?thesis by simp
  next
    case (Some v)
    then have "(k, v) \<in> set (own_entries ob)" by (simp add: map_of_SomeD)
    with d Some show ?thesis by (simp add: map_of_is_SomeI)
  qed
qed

text \<open>Folding over the entries of an object, each of which writes the keys of its own subtree.\<close>

lemma fold_subtrees:
  assumes step: "\<And>r p. p \<in> set es \<Longrightarrow>
      oget (step r p) k
        = (case qs of Some (s # ss) \<Rightarrow> if s = fst p \<and> g s (snd p) ss \<noteq> None then g s (snd p) ss else oget r k | _ \<Rightarrow> oget r k)"
    and dist: "distinct (map fst es)"
  shows "oget (foldl step r es) k
    = (case qs of
         Some (s # ss) \<Rightarrow>
           (case Option.bind (map_of es s) (\<lambda>x. g s x ss) of Some y \<Rightarrow> Some y | None \<Rightarrow> oget r k)
       | _ \<Rightarrow> oget r k)"
  using assms
proof (induction es arbitrary: r)
  case Nil
  show ?case by (simp split: option.splits list.splits)
next
  case (Cons p es)
  have ih: "oget (foldl step (step r p) es) k
    = (case qs of
         Some (s # ss) \<Rightarrow>
           (case Option.bind (map_of es s) (\<lambda>x. g s x ss) of Some y \<Rightarrow> Some y | None \<Rightarrow> oget (step r p) k)
       | _ \<Rightarrow> oget (step r p) k)"
    using Cons.prems by (intro Cons.IH) auto
  have fr: "map_of es (fst p) = None" using Cons.prems(2) by (auto simp: map_of_eq_None_iff)
  obtain w x where p: "p = (w, x)" by (cases p)
  show ?case
  proof (cases qs)
    case None
    with ih Cons.prems(1) [of p r] show ?thesis by simp
  next
    case (Some rest)
    show ?thesis
    proof (cases rest)
      case Nil
      with Some ih Cons.prems(1) [of p r] show ?thesis by simp
    next
      case (Cons s ss)
      show ?thesis
      proof (cases "s = w")
        case True
        with Some Cons ih [unfolded p] Cons.prems(1) [of p r, unfolded p] fr [unfolded p] show ?thesis
          unfolding p by (cases "g s x ss") auto
      next
        case False
        with Some Cons ih [unfolded p] Cons.prems(1) [of p r, unfolded p] show ?thesis
          unfolding p by (simp split: option.splits)
      qed
    qed
  qed
qed

subsection \<open>The flat form of a tree\<close>

text \<open>Trees as the form holds them: keys without dots, none of them empty.\<close>

fun tidy :: "json \<Rightarrow> bool" where
  "tidy (JObj ob) = (owf ob \<and> (\<forall>p\<in>set ob. segment_ok (fst p) \<and> tidy (snd p)))"
| "tidy _ = True"

fun leaf_at :: "json \<Rightarrow> string list \<Rightarrow> json option" where
  "leaf_at (JObj ob) [] = None"
| "leaf_at (JObj ob) (s # ss) = Option.bind (oget ob s) (\<lambda>x. leaf_at x ss)"
| "leaf_at v [] = Some v"
| "leaf_at v (s # ss) = None"

lemma leaf_at_plain: "\<not> is_plain_object v \<Longrightarrow> leaf_at v qs = (if qs = [] then Some v else None)"
  by (cases v; cases qs) (simp_all add: is_plain_object_def)

lemma flatten_path:
  "\<lbrakk>tidy v; is_plain_object v; list_all segment_ok pp\<rbrakk> \<Longrightarrow>
   oget (flattenValues v (parent_key pp) result) k
     = (case Option.bind (strip_prefix pp (path_of k)) (leaf_at v) of Some x \<Rightarrow> Some x | None \<Rightarrow> oget result k)"
proof (induction v "parent_key pp" result arbitrary: pp rule: flattenValues.induct)
  case (1 ob result)
  have wf: "owf ob" and sub: "\<And>p. p \<in> set ob \<Longrightarrow> segment_ok (fst p) \<and> tidy (snd p)"
    using "1.prems"(1) by auto
  let ?g = "\<lambda>s x ss. leaf_at x ss"
  have step: "oget (let nextKey = join_key (parent_key pp) (fst p)
               in if is_plain_object (snd p) then flattenValues (snd p) (Some nextKey) r else oput nextKey (snd p) r) k
      = (case strip_prefix pp (path_of k) of
           Some (s # ss) \<Rightarrow> if s = fst p \<and> ?g s (snd p) ss \<noteq> None then ?g s (snd p) ss else oget r k
         | _ \<Rightarrow> oget r k)" if p: "p \<in> set (own_entries ob)" for p r
  proof -
    from p sub have ok: "segment_ok (fst p)" "tidy (snd p)" by auto
    have key: "join_key (parent_key pp) (fst p) = join ''.'' (pp @ [fst p])"
      using "1.prems"(3) by (rule join_key_path)
    have pk: "Some (join_key (parent_key pp) (fst p)) = parent_key (pp @ [fst p])"
      unfolding key by (simp add: parent_key_def)
    have okp: "list_all segment_ok (pp @ [fst p])" using "1.prems"(3) ok by simp
    show ?thesis
    proof (cases "is_plain_object (snd p)")
      case True
      have "oget (flattenValues (snd p) (parent_key (pp @ [fst p])) r) k
          = (case Option.bind (strip_prefix (pp @ [fst p]) (path_of k)) (leaf_at (snd p)) of Some x \<Rightarrow> Some x | None \<Rightarrow> oget r k)"
        using "1.hyps" [OF p refl True pk ok(2) True okp] by (simp only: pk)
      with True show ?thesis
        by (auto simp: pk strip_prefix_snoc split: option.splits list.splits)
    next
      case False
      have "k = join ''.'' (pp @ [fst p]) \<longleftrightarrow> path_of k = pp @ [fst p]"
        using okp by (intro key_path) simp_all
      then show ?thesis using False
        by (auto simp: key leaf_at_plain strip_prefix_Some strip_prefix_None split: option.splits list.splits)
    qed
  qed
  have "oget (flattenValues (JObj ob) (parent_key pp) result) k
     = (case strip_prefix pp (path_of k) of
         Some (s # ss) \<Rightarrow>
           (case Option.bind (map_of (own_entries ob) s) (\<lambda>x. ?g s x ss) of Some y \<Rightarrow> Some y | None \<Rightarrow> oget result k)
       | _ \<Rightarrow> oget result k)"
    unfolding flattenValues.simps using wf
    by (intro fold_subtrees [where qs = "strip_prefix pp (path_of k)"] step) (simp_all add: owf_def [symmetric])
  with wf show ?case by (auto split: option.splits list.splits)
qed (simp_all add: is_plain_object_def)

lemma flatten_root:
  "tidy v \<Longrightarrow> is_plain_object v \<Longrightarrow> oget (flattenValues v None []) k = leaf_at v (path_of k)"
  using flatten_path [of v "[]" "[]" k] by (simp add: parent_key_def split: option.splits)

subsection \<open>The edited fields\<close>

fun tidy_marks :: "Dirty \<Rightarrow> bool" where
  "tidy_marks (Parts ds) = (owf ds \<and> (\<forall>p\<in>set ds. segment_ok (fst p) \<and> tidy_marks (snd p)))"
| "tidy_marks (Mark b) = True"

fun marked :: "Dirty \<Rightarrow> string list \<Rightarrow> bool" where
  "marked (Mark b) qs = (b \<and> qs = [])"
| "marked (Parts ds) [] = False"
| "marked (Parts ds) (s # ss) = (case oget ds s of Some d \<Rightarrow> marked d ss | None \<Rightarrow> False)"

fun value_at :: "json option \<Rightarrow> string list \<Rightarrow> json option" where
  "value_at v [] = v"
| "value_at v (s # ss) = value_at (part_of v s) ss"

lemma value_at_None [simp]: "value_at None qs = None"
  by (induction qs) (simp_all add: part_of_def)

lemma leaf_value: "leaf_at v qs = Some x \<Longrightarrow> value_at (Some v) qs = Some x"
proof (induction v qs rule: leaf_at.induct)
  case (2 ob s ss)
  then show ?case by (cases "oget ob s") (auto simp: part_of_def)
qed simp_all

lemma collect_path:
  "\<lbrakk>tidy_marks dirty; dirty = Parts ds; list_all segment_ok pp\<rbrakk> \<Longrightarrow>
   oget (collectDirtyValues dirty v (parent_key pp) result) k
     = (case strip_prefix pp (path_of k) of
          Some rest \<Rightarrow> if marked dirty rest then Some (value_at v rest) else oget result k
        | None \<Rightarrow> oget result k)"
proof (induction dirty v "parent_key pp" result arbitrary: pp ds rule: collectDirtyValues.induct)
  case (2 ds' v result)
  have wf: "owf ds'" and sub: "\<And>p. p \<in> set ds' \<Longrightarrow> segment_ok (fst p) \<and> tidy_marks (snd p)"
    using "2.prems"(1) by auto
  let ?g = "\<lambda>s d ss. if marked d ss then Some (value_at (part_of v s) ss) else None"
  have step: "oget (let nextKey = join_key (parent_key pp) (fst p); source = part_of v (fst p)
               in if snd p = Mark True then oput nextKey source r
                  else if snd p = Mark False then r
                  else collectDirtyValues (snd p) source (Some nextKey) r) k
      = (case strip_prefix pp (path_of k) of
           Some (s # ss) \<Rightarrow> if s = fst p \<and> ?g s (snd p) ss \<noteq> None then ?g s (snd p) ss else oget r k
         | _ \<Rightarrow> oget r k)" if p: "p \<in> set (own_entries ds')" for p r
  proof -
    from p sub have ok: "segment_ok (fst p)" "tidy_marks (snd p)" by auto
    have key: "join_key (parent_key pp) (fst p) = join ''.'' (pp @ [fst p])"
      using "2.prems"(3) by (rule join_key_path)
    have pk: "Some (join_key (parent_key pp) (fst p)) = parent_key (pp @ [fst p])"
      unfolding key by (simp add: parent_key_def)
    have okp: "list_all segment_ok (pp @ [fst p])" using "2.prems"(3) ok by simp
    show ?thesis
    proof (cases "snd p")
      case (Mark b)
      have "k = join ''.'' (pp @ [fst p]) \<longleftrightarrow> path_of k = pp @ [fst p]"
        using okp by (intro key_path) simp_all
      then show ?thesis using Mark
        by (cases b) (auto simp: key strip_prefix_Some strip_prefix_None split: option.splits list.splits)
    next
      case (Parts ds2)
      have nm: "snd p \<noteq> Mark True" "snd p \<noteq> Mark False" using Parts by simp_all
      have "oget (collectDirtyValues (snd p) (part_of v (fst p)) (parent_key (pp @ [fst p])) r) k
          = (case strip_prefix (pp @ [fst p]) (path_of k) of
               Some rest \<Rightarrow> if marked (snd p) rest then Some (value_at (part_of v (fst p)) rest) else oget r k
             | None \<Rightarrow> oget r k)"
        using "2.hyps" [OF p refl refl nm pk ok(2) Parts okp] by (simp only: pk)
      with nm show ?thesis
        by (auto simp: pk strip_prefix_snoc split: option.splits list.splits)
    qed
  qed
  have "oget (collectDirtyValues (Parts ds') v (parent_key pp) result) k
     = (case strip_prefix pp (path_of k) of
         Some (s # ss) \<Rightarrow>
           (case Option.bind (map_of (own_entries ds') s) (\<lambda>x. ?g s x ss) of Some y \<Rightarrow> Some y | None \<Rightarrow> oget result k)
       | _ \<Rightarrow> oget result k)"
    unfolding collectDirtyValues.simps using wf
    by (intro fold_subtrees [where qs = "strip_prefix pp (path_of k)"] step) (simp_all add: owf_def [symmetric])
  with wf show ?case by (auto split: option.splits list.splits)
qed simp_all

lemma owf_collect: "owf result \<Longrightarrow> owf (collectDirtyValues dirty v parentKey result)"
proof (induction dirty v parentKey result rule: collectDirtyValues.induct)
  case (1 b v parentKey result)
  then show ?case by (auto split: option.splits)
next
  case (2 ds v parentKey result)
  have "owf (foldl (\<lambda>r p. let nextKey = join_key parentKey (fst p); source = part_of v (fst p)
               in if snd p = Mark True then oput nextKey source r
                  else if snd p = Mark False then r
                  else collectDirtyValues (snd p) source (Some nextKey) r) r es)"
    if "owf r" "set es \<subseteq> set (own_entries ds)" for es r
    using that
  proof (induction es arbitrary: r)
    case (Cons p es)
    have "owf (let nextKey = join_key parentKey (fst p); source = part_of v (fst p)
               in if snd p = Mark True then oput nextKey source r
                  else if snd p = Mark False then r
                  else collectDirtyValues (snd p) source (Some nextKey) r)"
      using Cons.prems "2.IH" [of p] by (auto simp: Let_def)
    then show ?case using Cons.prems Cons.IH by simp
  qed simp
  from this [of result "own_entries ds"] "2.prems" show ?case by simp
qed

lemma oget_filter:
  assumes "owf ob"
  shows "oget (filter (\<lambda>p. Q (fst p) (snd p)) ob) k = (case oget ob k of Some v \<Rightarrow> if Q k v then Some v else None | None \<Rightarrow> None)"
  using assms unfolding owf_def
proof (induction ob)
  case (Cons p ob)
  have "oget ob (fst p) = None" using Cons.prems by (simp add: map_of_eq_None_iff)
  with Cons show ?case by (cases p) (auto split: option.splits)
qed simp

lemma empty_obj: "ob = [] \<longleftrightarrow> (\<forall>k. oget ob k = None)"
proof (cases ob)
  case (Cons p ps)
  then have "oget ob (fst p) = Some (snd p)" by (cases p) simp
  with Cons show ?thesis by auto
qed simp

definition marks_leaves :: "Dirty \<Rightarrow> json \<Rightarrow> bool" where
  "marks_leaves dirty d \<longleftrightarrow> (\<forall>qs. marked dirty qs \<longrightarrow> leaf_at d qs \<noteq> None)"

lemma changed_field:
  assumes "tidy_marks (Parts ds)" and "marks_leaves (Parts ds) d"
  shows "oget (changedFields (Parts ds) d st) k
    = (case leaf_at d (path_of k) of
         Some x \<Rightarrow> if marked (Parts ds) (path_of k) \<and> \<not> defaultCompare (Some x) (oget (baseline st) k) then Some (Some x) else None
       | None \<Rightarrow> None)"
proof -
  let ?c = "collectDirtyValues (Parts ds) (Some d) None []"
  have wf: "owf ?c" by (rule owf_collect) (simp add: owf_def)
  have c: "oget ?c k = (if marked (Parts ds) (path_of k) then Some (value_at (Some d) (path_of k)) else None)"
    using collect_path [OF assms(1) refl, of "[]" "Some d" "[]" k] by (simp add: parent_key_def)
  have "oget (changedFields (Parts ds) d st) k
      = (case oget ?c k of Some v \<Rightarrow> if \<not> defaultCompare v (oget (baseline st) k) then Some v else None | None \<Rightarrow> None)"
    unfolding changedFields_def using wf by (subst oget_filter) simp_all
  then show ?thesis
    using assms(2) leaf_value [of d "path_of k"] unfolding marks_leaves_def c
    by (cases "leaf_at d (path_of k)") auto
qed

subsection \<open>Options in, options out\<close>

text \<open>Flat options: leaves under keys of non-empty segments, no key of which continues another.\<close>

definition flat_options :: "json obj \<Rightarrow> bool" where
  "flat_options ob \<longleftrightarrow> owf ob \<and>
     (\<forall>p\<in>set ob. \<not> is_plain_object (snd p) \<and> list_all segment_ok (path_of (fst p)) \<and>
        (\<forall>q\<in>set ob. prefix (path_of (fst p)) (path_of (fst q)) \<longrightarrow> fst p = fst q))"

lemma tidy_leaf [simp]: "\<not> is_plain_object v \<Longrightarrow> tidy v"
  by (cases v) (simp_all add: is_plain_object_def)

lemma set_oput_sub: "set (oput k v ob) \<subseteq> insert (k, v) (set ob)"
  by (induction k v ob rule: oput.induct) auto

lemma tidy_oput:
  assumes "tidy (JObj ob)" "segment_ok k" "tidy v"
  shows "tidy (JObj (oput k v ob))"
proof -
  have "segment_ok (fst p) \<and> tidy (snd p)" if "p \<in> set (oput k v ob)" for p
    using subsetD [OF set_oput_sub that] assms by auto
  with assms(1) show ?thesis by (simp add: owf_oput)
qed

lemma tidy_setDeep_Nil: "list_all segment_ok qs \<Longrightarrow> tidy v \<Longrightarrow> tidy (JObj (setDeepValue [] qs v))"
  by (induction "[] :: json obj" qs v rule: setDeepValue.induct) (simp_all add: owf_def)

lemma tidy_setDeep:
  "\<lbrakk>tidy (JObj cur); list_all segment_ok qs; tidy v\<rbrakk> \<Longrightarrow> tidy (JObj (setDeepValue cur qs v))"
proof (induction cur qs v rule: setDeepValue.induct)
  case (3 cur s w ws v)
  have nil: "tidy (JObj (setDeepValue [] (w # ws) v))"
    using "3.prems" by (intro tidy_setDeep_Nil) simp_all
  have sub: "tidy x" if "oget cur s = Some x" for x
    using map_of_SomeD [OF that] "3.prems"(1) by fastforce
  have s: "segment_ok s" using "3.prems"(2) by simp
  show ?case
  proof (cases "\<exists>next. oget cur s = Some (JObj next)")
    case True
    then obtain ob where ob: "oget cur s = Some (JObj ob)" by auto
    have t: "tidy (JObj (setDeepValue ob (w # ws) v))"
      using "3.prems" sub [OF ob] by (intro "3.IH"(7) [OF ob refl]) simp_all
    have "setDeepValue cur (s # w # ws) v = oput s (JObj (setDeepValue ob (w # ws) v)) cur" by (simp add: ob)
    then show ?thesis using tidy_oput [OF "3.prems"(1) s t] by simp
  next
    case False
    then have "setDeepValue cur (s # w # ws) v = oput s (JObj (setDeepValue [] (w # ws) v)) cur"
      by (auto split: option.splits json.splits)
    then show ?thesis using tidy_oput [OF "3.prems"(1) s nil] by simp
  qed
next
  case (2 cur s v)
  then show ?case using tidy_oput [of cur s v] by simp
qed simp

lemma leaf_oput:
  "leaf_at (JObj (oput s x ob)) (w # ws) = (if w = s then leaf_at x ws else leaf_at (JObj ob) (w # ws))"
  by simp

text \<open>Writing a leaf at a path: what is read at the path, and at the paths it does not touch.\<close>

lemma leaf_setDeep_Nil:
  "qs \<noteq> [] \<Longrightarrow> \<not> is_plain_object v \<Longrightarrow> leaf_at (JObj (setDeepValue [] qs v)) rs = (if rs = qs then Some v else None)"
proof (induction "[] :: json obj" qs v arbitrary: rs rule: setDeepValue.induct)
  case (2 s v)
  then show ?case by (cases rs) (auto simp: leaf_at_plain)
next
  case (3 s w ws v)
  show ?case
  proof (cases rs)
    case (Cons r rs')
    have "setDeepValue [] (s # w # ws) v = [(s, JObj (setDeepValue [] (w # ws) v))]" by simp
    moreover have "leaf_at (JObj [(s, y)]) (r # rs') = (if r = s then leaf_at y rs' else None)" for y by simp
    moreover have "leaf_at (JObj (setDeepValue [] (w # ws) v)) rs' = (if rs' = w # ws then Some v else None)"
      using 3 by simp
    ultimately show ?thesis using Cons by (auto simp del: leaf_at.simps setDeepValue.simps)
  qed simp
qed simp

lemma leaf_setDeep:
  "\<lbrakk>qs \<noteq> []; \<not> is_plain_object v\<rbrakk> \<Longrightarrow>
   leaf_at (JObj (setDeepValue cur qs v)) rs
     = (if rs = qs then Some v else if prefix qs rs \<or> prefix rs qs then None else leaf_at (JObj cur) rs)"
proof (induction cur qs v arbitrary: rs rule: setDeepValue.induct)
  case (2 cur s v)
  then show ?case by (cases rs) (auto simp: leaf_at_plain)
next
  case (3 cur s w ws v)
  show ?case
  proof (cases rs)
    case (Cons r rs')
    show ?thesis
    proof (cases "\<exists>next. oget cur s = Some (JObj next)")
      case True
      then obtain ob where ob: "oget cur s = Some (JObj ob)" by auto
      have "leaf_at (JObj (setDeepValue ob (w # ws) v)) rs'
          = (if rs' = w # ws then Some v else if prefix (w # ws) rs' \<or> prefix rs' (w # ws) then None else leaf_at (JObj ob) rs')"
        using "3.prems" by (intro "3.IH"(7) [OF ob refl]) simp_all
      with ob Cons show ?thesis by (auto simp del: leaf_at.simps(1) setDeepValue.simps(2))
    next
      case False
      have n: "leaf_at x (r' # rs'') = None" if "oget cur s = Some x" for x r' rs''
        using that False by (cases x) auto
      have e: "setDeepValue cur (s # w # ws) v = oput s (JObj (setDeepValue [] (w # ws) v)) cur"
        using False by (auto split: option.splits json.splits)
      have l: "leaf_at (JObj (setDeepValue [] (w # ws) v)) rs' = (if rs' = w # ws then Some v else None)"
        using "3.prems" by (intro leaf_setDeep_Nil) simp_all
      have "leaf_at (JObj cur) (s # rs') = None" if "rs' \<noteq> []"
        using that n by (cases rs'; cases "oget cur s") auto
      with Cons show ?thesis unfolding e Cons leaf_oput l by (cases rs') auto
    qed
  qed simp
qed simp

text \<open>The tree of flat options: its leaves are the options at their paths.\<close>

lemma expand_flat:
  assumes "flat_options ob"
  defines "es \<equiv> own_entries ob"
  shows "expandDotPaths (JObj ob) = JObj (foldl (\<lambda>r p. setDeepValue r (path_of (fst p)) (snd p)) [] es)"
proof -
  have "foldl (\<lambda>r p. if CHR ''.'' \<in> set (fst p) then setDeepValue r (path_of (fst p)) (snd p)
                    else if is_plain_object (snd p) then oput (fst p) (expandDotPaths (snd p)) r
                    else oput (fst p) (snd p) r) [] es
      = foldl (\<lambda>r p. setDeepValue r (path_of (fst p)) (snd p)) [] es"
    using assms by (intro foldl_cong) (auto simp: flat_options_def split_on_no_sep)
  then show ?thesis by (simp add: es_def)
qed

lemma expanded_leaves:
  assumes "distinct (map fst es)"
    and "\<And>p. p \<in> set es \<Longrightarrow> \<not> is_plain_object (snd p) \<and> list_all segment_ok (path_of (fst p))"
    and "\<And>p q. p \<in> set es \<Longrightarrow> q \<in> set es \<Longrightarrow> prefix (path_of (fst p)) (path_of (fst q)) \<Longrightarrow> fst p = fst q"
  shows "tidy (JObj (foldl (\<lambda>r p. setDeepValue r (path_of (fst p)) (snd p)) [] es)) \<and>
         leaf_at (JObj (foldl (\<lambda>r p. setDeepValue r (path_of (fst p)) (snd p)) [] es)) (path_of k) = map_of es k"
  using assms
proof (induction es arbitrary: k rule: rev_induct)
  case Nil
  show ?case by (cases "path_of k") (simp_all add: owf_def)
next
  case (snoc p es)
  let ?r = "foldl (\<lambda>r p. setDeepValue r (path_of (fst p)) (snd p)) [] es"
  have ih: "tidy (JObj ?r) \<and> leaf_at (JObj ?r) (path_of k) = map_of es k" for k
  proof (rule snoc.IH)
    show "distinct (map fst es)" using snoc.prems(1) by simp
    show "\<not> is_plain_object (snd q) \<and> list_all segment_ok (path_of (fst q))" if "q \<in> set es" for q
      using snoc.prems(2) [of q] that by simp
    show "fst q = fst q'" if "q \<in> set es" "q' \<in> set es" "prefix (path_of (fst q)) (path_of (fst q'))" for q q'
      using snoc.prems(3) [of q q'] that by simp
  qed
  have p: "\<not> is_plain_object (snd p)" "list_all segment_ok (path_of (fst p))" using snoc.prems(2) [of p] by auto
  have apart: "map_of es k = None" if "prefix (path_of (fst p)) (path_of k) \<or> prefix (path_of k) (path_of (fst p))"
  proof (rule ccontr)
    assume "map_of es k \<noteq> None"
    then obtain q where q: "q \<in> set es" "fst q = k" by (auto dest!: map_of_SomeD)
    then have "fst p = fst q" using snoc.prems(3) [of p q] snoc.prems(3) [of q p] that by auto
    with q snoc.prems(1) show False by auto
  qed
  have "tidy (JObj (setDeepValue ?r (path_of (fst p)) (snd p)))"
    using ih p by (intro tidy_setDeep) simp_all
  moreover have "leaf_at (JObj (setDeepValue ?r (path_of (fst p)) (snd p))) (path_of k) = map_of (es @ [p]) k"
  proof (cases "k = fst p")
    case True
    have "map_of es (fst p) = None" using snoc.prems(1) by (auto simp: map_of_eq_None_iff)
    with True p show ?thesis by (cases p) (simp add: leaf_setDeep map_add_def)
  next
    case False
    then have n: "path_of k \<noteq> path_of (fst p)" by (simp add: path_inj)
    have m: "map_of (es @ [p]) k = map_of es k" using False by (cases p) (simp add: map_add_def split: option.splits)
    show ?thesis using n p ih [of k] apart unfolding m by (simp add: leaf_setDeep)
  qed
  ultimately show ?case by simp
qed

lemma flat_options_entries:
  assumes "flat_options ob"
  shows "tidy (expandDotPaths (JObj ob))" "is_plain_object (expandDotPaths (JObj ob))"
    "leaf_at (expandDotPaths (JObj ob)) (path_of k) = oget ob k"
proof -
  have d: "distinct (map fst (own_entries ob))" and wf: "owf ob"
    using assms owf_own_entries [of ob] by (auto simp: flat_options_def owf_def)
  have e: "tidy (expandDotPaths (JObj ob)) \<and> leaf_at (expandDotPaths (JObj ob)) (path_of k) = map_of (own_entries ob) k"
    unfolding expand_flat [OF assms] using assms by (intro expanded_leaves [OF d]) (auto simp: flat_options_def)
  with wf show "tidy (expandDotPaths (JObj ob))" "leaf_at (expandDotPaths (JObj ob)) (path_of k) = oget ob k"
    by simp_all
  show "is_plain_object (expandDotPaths (JObj ob))" by (simp add: is_plain_object_def)
qed

lemma flat_options_roundtrip_core:
  "flat_options ob \<Longrightarrow> oget (baseline (initSettings (JObj ob))) k = oget ob k"
  using flatten_root [of "expandDotPaths (JObj ob)" k] flat_options_entries(1,2) [of ob] flat_options_entries(3) [of ob k]
  by (simp add: initSettings_def Let_def del: expandDotPaths.simps flattenValues.simps)

text \<open>
  Flat options survive the form: after expanding their dotted keys into a tree and flattening it, every key has its
  option again and there are no others, so that the baseline the edits are compared with is what the server sent.
\<close>

theorem flat_options_roundtrip:
  assumes "flat_options ob"
  shows "oget (baseline (initSettings (JObj ob))) = oget ob"
  using flat_options_roundtrip_core [OF assms] by (rule ext)

definition demo_options :: "json obj" where
  "demo_options = [(''performance.disk'', JBool True), (''Notice'', JStr ''hi''), (''performance.cpu.limit'', JNum (num_of_int 90))]"

lemma demo_flat: "flat_options demo_options"
  by code_simp

lemma flat_options_roundtrip_witness:
  "oget (baseline (initSettings (JObj demo_options))) ''performance.cpu.limit'' = Some (JNum (num_of_int 90))"
  using flat_options_roundtrip [OF demo_flat] by (simp add: demo_options_def)

text \<open>
  C11: A submit sends exactly the fields that were edited and now differ from the options the form was opened with, each
  under its flat key with the value of its field; when there are none, nothing is sent.
\<close>

theorem submit_sends_edits:
  assumes "flat_options ob" and "tidy_marks (Parts ds)" and "marks_leaves (Parts ds) d"
  shows "(\<forall>k x. oget (changedFields (Parts ds) d (initSettings (JObj ob))) k = Some x \<longleftrightarrow>
            x = leaf_at d (path_of k) \<and> marked (Parts ds) (path_of k) \<and> \<not> defaultCompare x (oget ob k)) \<and>
         (handleSubmit (Parts ds) d (initSettings (JObj ob)) = None \<longleftrightarrow>
            (\<forall>k. marked (Parts ds) (path_of k) \<longrightarrow> defaultCompare (leaf_at d (path_of k)) (oget ob k)))"
proof -
  let ?c = "changedFields (Parts ds) d (initSettings (JObj ob))"
  have c: "oget ?c k = (case leaf_at d (path_of k) of
         Some x \<Rightarrow> if marked (Parts ds) (path_of k) \<and> \<not> defaultCompare (Some x) (oget ob k) then Some (Some x) else None
       | None \<Rightarrow> None)" for k
    using changed_field [OF assms(2,3), of "initSettings (JObj ob)" k] unfolding flat_options_roundtrip_core [OF assms(1)] .
  have m: "marked (Parts ds) (path_of k) \<Longrightarrow> leaf_at d (path_of k) \<noteq> None" for k
    using assms(3) by (simp add: marks_leaves_def)
  have iff: "oget ?c k = Some x \<longleftrightarrow>
      x = leaf_at d (path_of k) \<and> marked (Parts ds) (path_of k) \<and> \<not> defaultCompare x (oget ob k)" for k x
    using c [of k] m [of k] by (cases "leaf_at d (path_of k)") auto
  have "?c = [] \<longleftrightarrow> (\<forall>k. oget ?c k = None)" by (rule empty_obj)
  also have "\<dots> \<longleftrightarrow> (\<forall>k. marked (Parts ds) (path_of k) \<longrightarrow> defaultCompare (leaf_at d (path_of k)) (oget ob k))"
    using iff by (metis not_None_eq)
  finally show ?thesis using iff by (simp add: handleSubmit_def Let_def)
qed

text \<open>One field edited to a new value, one edited back.\<close>

lemma submit_sends_edits_witness:
  "oget (changedFields (Parts [(''Notice'', Mark True), (''performance'', Parts [(''disk'', Mark True)])])
      (JObj [(''Notice'', JStr ''new''), (''performance'', JObj [(''disk'', JBool True)])])
      (initSettings (JObj demo_options))) ''Notice'' = Some (Some (JStr ''new''))"
proof -
  let ?ds = "[(''Notice'', Mark True), (''performance'', Parts [(''disk'', Mark True)])]"
  let ?d = "JObj [(''Notice'', JStr ''new''), (''performance'', JObj [(''disk'', JBool True)])]"
  have t: "tidy_marks (Parts ?ds)" by code_simp
  have l: "marks_leaves (Parts ?ds) ?d"
    unfolding marks_leaves_def
  proof (intro allI impI)
    fix qs
    assume "marked (Parts ?ds) qs"
    then have "qs = [''Notice''] \<or> qs = [''performance'', ''disk'']"
      by (cases qs) (auto split: if_splits option.splits, (case_tac list, auto split: if_splits)+)
    then show "leaf_at ?d qs \<noteq> None" by auto
  qed
  show ?thesis using submit_sends_edits [OF demo_flat t l]
    by (auto simp: demo_options_def defaultCompare_def object_like_def)
qed

text \<open>
  What has just been saved is saved: submitting the same values again, whatever fields are marked, finds nothing to
  send, and a reset shows the saved values.
\<close>

theorem saved_is_clean:
  assumes "tidy d" and "is_plain_object d" and "tidy_marks (Parts ds)" and "marks_leaves (Parts ds) d"
  shows "handleSubmit (Parts ds) d (fst (onSubmitted d st)) = None \<and> handleReset (fst (onSubmitted d st)) = d"
proof -
  let ?st = "fst (onSubmitted d st)"
  have b: "oget (baseline ?st) k = leaf_at d (path_of k)" for k
    using assms(1,2) by (simp add: onSubmitted_def Let_def flatten_root)
  have refl: "defaultCompare (Some x) (Some x)" for x by (simp add: defaultCompare_def)
  have "oget (changedFields (Parts ds) d ?st) k = None" for k
    using changed_field [OF assms(3,4), of ?st k] refl b [of k] by (cases "leaf_at d (path_of k)") auto
  then have "changedFields (Parts ds) d ?st = []"
    by (simp add: empty_obj)
  then show ?thesis by (simp add: handleSubmit_def handleReset_def onSubmitted_def Let_def)
qed

lemma saved_is_clean_witness:
  "handleSubmit (Parts [(''a'', Mark True)]) (JObj [(''a'', JStr ''x'')]) (fst (onSubmitted (JObj [(''a'', JStr ''x'')]) (initSettings JNull))) = None"
proof -
  have t: "tidy (JObj [(''a'', JStr ''x'')])" "tidy_marks (Parts [(''a'', Mark True)])" by code_simp+
  have "marks_leaves (Parts [(''a'', Mark True)]) (JObj [(''a'', JStr ''x'')])"
    unfolding marks_leaves_def
  proof (intro allI impI)
    fix qs
    assume "marked (Parts [(''a'', Mark True)]) qs"
    then have "qs = [''a'']" by (cases qs) (auto split: if_splits)
    then show "leaf_at (JObj [(''a'', JStr ''x'')]) qs \<noteq> None" by simp
  qed
  then show ?thesis using saved_is_clean [of "JObj [(''a'', JStr ''x'')]" "[(''a'', Mark True)]" "initSettings JNull"] t
    by (simp add: is_plain_object_def)
qed

end
