(* ===== verification/TableUrlState.thy ===== *)
theory TableUrlState
  imports Complex_Main JsPrelude
begin

text \<open>
  The state every table keeps in the URL: \<^verbatim>\<open>hooks/use-table-url-state.ts\<close>. The router is outside the source: it
  calls the function given to \<open>navigate\<close> on the current search record and drops undefined values, and it hands
  out the same record again when nothing changed, so that records are compared by value. A navigation is taken as complete at once: what happens between the call and
  the next render with the new record is not modelled. What a filter
  configuration does to a value (\<open>serialize\<close>, \<open>deserialize\<close>) is a parameter.
\<close>

subsection \<open>Search records and configuration\<close>

datatype uval = UNum rat | UStr string | UList "uval list" | UOther

type_synonym search = "uval obj"

record FilterConfig =
  columnId :: string
  searchKey :: string
  filter_type :: "string option"
  serialize :: "uval \<Rightarrow> uval"
  deserialize :: "uval option \<Rightarrow> uval option"

record TableConfig =
  pageKey :: string
  pageSizeKey :: string
  defaultPage :: rat
  defaultPageSize :: rat
  globalFilterEnabled :: bool
  globalFilterKey :: string
  trimGlobal :: bool
  columnFiltersCfg :: "FilterConfig list"

definition default_config :: TableConfig where
  "default_config =
     \<lparr>pageKey = ''page'', pageSizeKey = ''pageSize'', defaultPage = 1, defaultPageSize = 20,
      globalFilterEnabled = True, globalFilterKey = ''filter'', trimGlobal = True, columnFiltersCfg = []\<rparr>"

subsection \<open>The state\<close>

type_synonym column_filters = "(string \<times> uval) list"

text \<open>\<open>search\<close> is the record of the URL, \<open>syncedSearch\<close> the one the filters were last read from.\<close>

record Table =
  search :: search
  syncedSearch :: search
  columnFilters :: column_filters
  globalFilter :: "string option"

fun blank_text :: "uval option \<Rightarrow> bool" where
  "blank_text (Some (UStr s)) = (trim s = '''')"
| "blank_text _ = True"

fun empty_list :: "uval option \<Rightarrow> bool" where
  "empty_list (Some (UList xs)) = (xs = [])"
| "empty_list _ = True"

definition read_filter :: "FilterConfig \<Rightarrow> search \<Rightarrow> (string \<times> uval) option" where
  "read_filter cfg s =
     (let v = deserialize cfg (oget s (searchKey cfg))
      in if filter_type cfg = Some ''string''
         then (if blank_text v then None else Some (columnId cfg, the v))
         else (if empty_list v then None else Some (columnId cfg, the v)))"

definition initialColumnFilters :: "TableConfig \<Rightarrow> search \<Rightarrow> column_filters" where
  "initialColumnFilters c s = List.map_filter (\<lambda>cfg. read_filter cfg s) (columnFiltersCfg c)"

definition initialGlobalFilter :: "TableConfig \<Rightarrow> search \<Rightarrow> string option" where
  "initialGlobalFilter c s =
     (if globalFilterEnabled c
      then Some (case oget s (globalFilterKey c) of Some (UStr t) \<Rightarrow> t | _ \<Rightarrow> '''')
      else None)"

definition initTable :: "TableConfig \<Rightarrow> search \<Rightarrow> Table" where
  "initTable c s = \<lparr>search = s, syncedSearch = s, columnFilters = initialColumnFilters c s, globalFilter = initialGlobalFilter c s\<rparr>"

text \<open>A render with a new search record.\<close>

definition render :: "TableConfig \<Rightarrow> search \<Rightarrow> Table \<Rightarrow> Table" where
  "render c s t =
     (let t1 = t\<lparr>search := s\<rparr>
      in if syncedSearch t1 \<noteq> s then t1\<lparr>syncedSearch := s, columnFilters := initialColumnFilters c s\<rparr> else t1)"

definition num_or :: "uval option \<Rightarrow> rat \<Rightarrow> rat" where
  "num_or v d = (case v of Some (UNum n) \<Rightarrow> n | _ \<Rightarrow> d)"

definition pagination :: "TableConfig \<Rightarrow> search \<Rightarrow> rat \<times> rat" where
  "pagination c s =
     (max 0 (num_or (oget s (pageKey c)) (defaultPage c) - 1), num_or (oget s (pageSizeKey c)) (defaultPageSize c))"

subsection \<open>Handlers\<close>

definition onPaginationChange :: "TableConfig \<Rightarrow> (rat \<times> rat \<Rightarrow> rat \<times> rat) \<Rightarrow> Table \<Rightarrow> Table" where
  "onPaginationChange c updater t =
     (let (pageIndex, pageSize) = updater (pagination c (search t)); nextPage = pageIndex + 1
      in render c
           (patch_search
              [(pageKey c, if nextPage \<le> defaultPage c then None else Some (UNum nextPage)),
               (pageSizeKey c, if pageSize = defaultPageSize c then None else Some (UNum pageSize))] (search t)) t)"

definition onGlobalFilterChange :: "TableConfig \<Rightarrow> (string \<Rightarrow> string) \<Rightarrow> Table \<Rightarrow> Table" where
  "onGlobalFilterChange c updater t =
     (if globalFilterEnabled c
      then let next = updater (case globalFilter t of Some s \<Rightarrow> s | None \<Rightarrow> '''');
               v = (if trimGlobal c then trim next else next)
           in render c
                (patch_search [(pageKey c, None), (globalFilterKey c, if v \<noteq> '''' then Some (UStr v) else None)] (search t))
                (t\<lparr>globalFilter := Some v\<rparr>)
      else t)"

definition filter_value :: "FilterConfig \<Rightarrow> column_filters \<Rightarrow> uval option" where
  "filter_value cfg next =
     (let found = map_of next (columnId cfg)
      in if filter_type cfg = Some ''string''
         then (if blank_text found then None else Some (serialize cfg (the found)))
         else (if empty_list found then None else Some (serialize cfg (the found))))"

definition onColumnFiltersChange :: "TableConfig \<Rightarrow> (column_filters \<Rightarrow> column_filters) \<Rightarrow> Table \<Rightarrow> Table" where
  "onColumnFiltersChange c updater t =
     (let next = updater (columnFilters t)
      in render c
           (patch_search ((pageKey c, None) # map (\<lambda>cfg. (searchKey cfg, filter_value cfg next)) (columnFiltersCfg c)) (search t))
           (t\<lparr>columnFilters := next\<rparr>))"


subsection \<open>Rendering\<close>

lemma search_render [simp]: "search (render c s t) = s"
  by (simp add: render_def Let_def)

lemma globalFilter_render [simp]: "globalFilter (render c s t) = globalFilter t"
  by (simp add: render_def Let_def)

subsection \<open>Filters live in the URL\<close>

text \<open>The keys of a configuration do not collide, and reading undoes writing.\<close>

definition config_ok :: "TableConfig \<Rightarrow> bool" where
  "config_ok c \<longleftrightarrow> distinct (pageKey c # map searchKey (columnFiltersCfg c)) \<and>
     list_all (\<lambda>cfg. deserialize cfg None = None) (columnFiltersCfg c)"

definition faithful :: "TableConfig \<Rightarrow> column_filters \<Rightarrow> bool" where
  "faithful c next \<longleftrightarrow>
     list_all (\<lambda>cfg. case map_of next (columnId cfg) of
         Some v \<Rightarrow> deserialize cfg (Some (serialize cfg v)) = Some v | None \<Rightarrow> True) (columnFiltersCfg c)"

text \<open>The filters of a change that count: in the order of the configuration, without blank texts, empty lists and values of
  another kind.\<close>

definition counting :: "TableConfig \<Rightarrow> column_filters \<Rightarrow> column_filters" where
  "counting c next = List.map_filter (\<lambda>cfg.
     let found = map_of next (columnId cfg)
     in if (if filter_type cfg = Some ''string'' then blank_text found else empty_list found) then None
        else Some (columnId cfg, the found)) (columnFiltersCfg c)"

lemma map_filter_cong: "(\<And>x. x \<in> set xs \<Longrightarrow> f x = g x) \<Longrightarrow> List.map_filter f xs = List.map_filter g xs"
  by (induction xs) (simp_all add: List.map_filter_simps split: option.split)

lemma blank_None: "blank_text v \<or> v \<noteq> None" "empty_list v \<or> v \<noteq> None"
  by (cases v; simp)+

lemma written_filters_read_back:
  assumes ok: "config_ok c" and f: "faithful c next"
  shows "initialColumnFilters c
      (patch_search ((pageKey c, None) # map (\<lambda>cfg. (searchKey cfg, filter_value cfg next)) (columnFiltersCfg c)) s)
    = counting c next"
  unfolding initialColumnFilters_def counting_def
proof (rule map_filter_cong)
  fix cfg
  assume m: "cfg \<in> set (columnFiltersCfg c)"
  let ?ps = "(pageKey c, None) # map (\<lambda>cfg. (searchKey cfg, filter_value cfg next)) (columnFiltersCfg c)"
  have "distinct (map fst ?ps)" using ok by (simp add: config_ok_def comp_def)
  then have g: "oget (patch_search ?ps s) (searchKey cfg) = filter_value cfg next"
    using m by (intro oget_patch) auto
  have n: "deserialize cfg None = None" using ok m by (simp add: config_ok_def list_all_iff)
  have b: "deserialize cfg (Some (serialize cfg v)) = Some v" if "map_of next (columnId cfg) = Some v" for v
    using f m that by (fastforce simp: faithful_def list_all_iff)
  show "read_filter cfg (patch_search ?ps s)
      = (let found = map_of next (columnId cfg)
         in if (if filter_type cfg = Some ''string'' then blank_text found else empty_list found) then None
            else Some (columnId cfg, the found))"
    unfolding read_filter_def g
    using n b by (cases "map_of next (columnId cfg)") (auto simp: filter_value_def Let_def)
qed

text \<open>
  A change of the column filters is in the URL: the page is reset, and reading the new URL gives exactly the filters of
  the change that count; the table shows these, or the change itself when the URL was already the same.
\<close>

theorem filters_live_in_url:
  assumes "config_ok c" and "faithful c (updater (columnFilters t))"
  shows "let next = updater (columnFilters t); t' = onColumnFiltersChange c updater t
         in initialColumnFilters c (search t') = counting c next
          \<and> columnFilters t' = (if search t' = syncedSearch t then next else counting c next)
          \<and> fst (pagination c (search t')) = max 0 (defaultPage c - 1)
          \<and> globalFilter t' = globalFilter t"
proof -
  let ?next = "updater (columnFilters t)"
  let ?ps = "(pageKey c, None) # map (\<lambda>cfg. (searchKey cfg, filter_value cfg ?next)) (columnFiltersCfg c)"
  have "distinct (map fst ?ps)" using assms(1) by (simp add: config_ok_def comp_def)
  then have "oget (patch_search ?ps (search t)) (pageKey c) = None" by (rule oget_patch) simp
  then show ?thesis
    using written_filters_read_back [OF assms, of "search t"]
    by (auto simp: onColumnFiltersChange_def Let_def render_def pagination_def num_or_def)
qed

definition demo_filter :: FilterConfig where
  "demo_filter = \<lparr>columnId = ''status'', searchKey = ''status'', filter_type = Some ''string'', serialize = (\<lambda>v. v), deserialize = (\<lambda>v. v)\<rparr>"

definition demo_config :: TableConfig where
  "demo_config = default_config\<lparr>columnFiltersCfg := [demo_filter]\<rparr>"

lemma filters_live_in_url_witness:
  "columnFilters (onColumnFiltersChange demo_config (\<lambda>_. [(''status'', UStr ''enabled'')]) (initTable demo_config [(''page'', UNum 4)]))
    = [(''status'', UStr ''enabled'')]"
proof -
  have ok: "config_ok demo_config" by (simp add: config_ok_def demo_config_def demo_filter_def default_config_def)
  have f: "faithful demo_config ((\<lambda>_. [(''status'', UStr ''enabled'')]) (columnFilters (initTable demo_config [(''page'', UNum 4)])))"
    by (simp add: faithful_def demo_config_def demo_filter_def default_config_def)
  have n: "counting demo_config [(''status'', UStr ''enabled'')] = [(''status'', UStr ''enabled'')]"
    by (simp add: counting_def demo_config_def demo_filter_def default_config_def trim_id trimmed_by_def is_ws_def List.map_filter_simps)
  show ?thesis using filters_live_in_url [OF ok f] n by (simp add: Let_def split: if_splits)
qed

subsection \<open>The page stays in range\<close>



subsection \<open>The global filter and the URL\<close>

text \<open>
  The URL is the source of the column filters and the page, but not of the text filter: when the user goes back to another
  URL the column filters are read from it, while the text filter stays what was typed last.
\<close>

theorem back_keeps_text_filter:
  "let t' = render c s t
   in (syncedSearch t \<noteq> s \<longrightarrow> columnFilters t' = initialColumnFilters c s)
    \<and> pagination c (search t') = pagination c s
    \<and> globalFilter t' = globalFilter t"
  by (simp add: render_def Let_def)

text \<open>The user types a filter and goes back to the first URL: its record has no filter, the table still shows it.\<close>

lemma back_keeps_text_filter_witness:
  "let t0 = initTable default_config []; t1 = onGlobalFilterChange default_config (\<lambda>_. ''gpt'') t0; t2 = render default_config [] t1
   in search t2 = [] \<and> globalFilter t2 = Some ''gpt'' \<and> initialGlobalFilter default_config (search t2) = Some ''''"
proof -
  let ?t1 = "onGlobalFilterChange default_config (\<lambda>_. ''gpt'') (initTable default_config [])"
  have g: "globalFilter ?t1 = Some ''gpt''"
    by (simp add: onGlobalFilterChange_def default_config_def trim_id trimmed_by_def is_ws_def Let_def)
  show ?thesis using back_keeps_text_filter [of default_config "[]" ?t1] g
    by (simp add: Let_def initialGlobalFilter_def default_config_def)
qed

end
