(* ===== verification/PricingCatalog.thy ===== *)
theory PricingCatalog
  imports Complex_Main JsPrelude "HOL-Library.Multiset"
begin

text \<open>
  The model catalogue: what it lists (\<^verbatim>\<open>features/pricing/lib/filters.ts\<close>), how its filters live in the URL
  (\<^verbatim>\<open>hooks/use-filters.ts\<close>) and the prices it shows (\<^verbatim>\<open>lib/price.ts\<close>). Prices and ratios are exact
  rationals, \<open>None\<close> where the source computes no finite number; how an amount is written (\<^verbatim>\<open>lib/currency.ts\<close>) and
  the order of \<open>localeCompare\<close> are outside the model.
\<close>

subsection \<open>Models\<close>

record PricingModel =
  model_name :: string
  description :: "string option"
  vendor_name :: "string option"
  quota_type :: int
  model_ratio :: rat
  completion_ratio :: rat
  model_price :: "rat option"
  cache_ratio :: "rat option"
  create_cache_ratio :: "rat option"
  image_ratio :: "rat option"
  audio_ratio :: "rat option"
  audio_completion_ratio :: "rat option"
  enable_groups :: "string list"
  tags :: "string option"
  supported_endpoint_types :: "string list option"
  group_ratio :: "rat obj option"

definition FILTER_ALL :: string where "FILTER_ALL = ''all''"
definition SORT_NAME :: string where "SORT_NAME = ''name''"
definition SORT_PRICE_LOW :: string where "SORT_PRICE_LOW = ''price-low''"
definition SORT_PRICE_HIGH :: string where "SORT_PRICE_HIGH = ''price-high''"
definition QUOTA_TYPE_TOKEN :: int where "QUOTA_TYPE_TOKEN = 0"
definition QUOTA_TYPE_REQUEST :: int where "QUOTA_TYPE_REQUEST = 1"

subsection \<open>Filters\<close>

definition opt_includes :: "string option \<Rightarrow> string \<Rightarrow> bool" where
  "opt_includes v q = (case v of Some s \<Rightarrow> str_includes q (lower s) | None \<Rightarrow> False)"

definition filterBySearch :: "PricingModel list \<Rightarrow> string \<Rightarrow> PricingModel list" where
  "filterBySearch models query =
     (if query = '''' then models
      else let lowerQuery = lower query
           in filter (\<lambda>m. opt_includes (Some (model_name m)) lowerQuery \<or> opt_includes (description m) lowerQuery \<or>
                          opt_includes (tags m) lowerQuery \<or> opt_includes (vendor_name m) lowerQuery) models)"

definition filterByVendor :: "PricingModel list \<Rightarrow> string \<Rightarrow> PricingModel list" where
  "filterByVendor models vendor =
     (if vendor = FILTER_ALL then models else filter (\<lambda>m. vendor_name m = Some vendor) models)"

definition filterByGroup :: "PricingModel list \<Rightarrow> string \<Rightarrow> PricingModel list" where
  "filterByGroup models grp =
     (if grp = FILTER_ALL then models else filter (\<lambda>m. grp \<in> set (enable_groups m)) models)"

definition filterByQuotaType :: "PricingModel list \<Rightarrow> string \<Rightarrow> PricingModel list" where
  "filterByQuotaType models quotaType =
     (if quotaType = ''all'' then models
      else let targetType = (if quotaType = ''token'' then QUOTA_TYPE_TOKEN else QUOTA_TYPE_REQUEST)
           in filter (\<lambda>m. quota_type m = targetType) models)"

definition filterByEndpointType :: "PricingModel list \<Rightarrow> string \<Rightarrow> PricingModel list" where
  "filterByEndpointType models endpointType =
     (if endpointType = ''all'' then models
      else filter (\<lambda>m. case supported_endpoint_types m of Some ts \<Rightarrow> endpointType \<in> set ts | None \<Rightarrow> False) models)"

text \<open>\<open>split(/[,;|\s]+/)\<close>, trimmed and without empty words: splitting at every separator only adds empty words.\<close>

definition tag_separator :: "char \<Rightarrow> bool" where
  "tag_separator c \<longleftrightarrow> c \<in> {CHR '','', CHR '';'', CHR ''|''} \<or> is_ws c"

fun split_by :: "('a \<Rightarrow> bool) \<Rightarrow> 'a list \<Rightarrow> 'a list list" where
  "split_by p [] = [[]]"
| "split_by p (x # xs) =
     (if p x then [] # split_by p xs
      else (case split_by p xs of [] \<Rightarrow> [[x]] | w # ws \<Rightarrow> (x # w) # ws))"

definition parseTags :: "string option \<Rightarrow> string list" where
  "parseTags tagsString =
     (case tagsString of
        None \<Rightarrow> []
      | Some s \<Rightarrow> if s = '''' then [] else filter (\<lambda>t. t \<noteq> '''') (map trim (split_by tag_separator s)))"

definition extractAllTags :: "(string \<Rightarrow> string \<Rightarrow> int) \<Rightarrow> PricingModel list \<Rightarrow> string list" where
  "extractAllTags localeCompare models =
     sort_by localeCompare (uniq (concat (map (\<lambda>m. map lower (parseTags (tags m))) models)))"

definition filterByTag :: "PricingModel list \<Rightarrow> string \<Rightarrow> PricingModel list" where
  "filterByTag models tag =
     (if tag = FILTER_ALL then models
      else filter (\<lambda>m. lower tag \<in> set (map lower (parseTags (tags m)))) models)"

definition getModelPrice :: "PricingModel \<Rightarrow> rat" where
  "getModelPrice m = (if quota_type m = 0 then model_ratio m else (case model_price m of Some p \<Rightarrow> p | None \<Rightarrow> 0))"

text \<open>The sign of \<open>a - b\<close>, which is all that sorting looks at.\<close>

definition minus_sign :: "rat \<Rightarrow> rat \<Rightarrow> int" where
  "minus_sign a b = (if a < b then -1 else if b < a then 1 else 0)"

definition sortModels :: "(string \<Rightarrow> string \<Rightarrow> int) \<Rightarrow> PricingModel list \<Rightarrow> string \<Rightarrow> PricingModel list" where
  "sortModels localeCompare models sortBy =
     (if sortBy = SORT_NAME then sort_by (\<lambda>a b. localeCompare (model_name a) (model_name b)) models
      else if sortBy = SORT_PRICE_LOW then sort_by (\<lambda>a b. minus_sign (getModelPrice a) (getModelPrice b)) models
      else if sortBy = SORT_PRICE_HIGH then sort_by (\<lambda>a b. minus_sign (getModelPrice b) (getModelPrice a)) models
      else models)"

record Filters =
  f_search :: string
  f_vendor :: string
  f_group :: string
  f_quotaType :: string
  f_endpointType :: string
  f_tag :: string
  f_sortBy :: string

definition filterAndSortModels :: "(string \<Rightarrow> string \<Rightarrow> int) \<Rightarrow> PricingModel list \<Rightarrow> Filters \<Rightarrow> PricingModel list" where
  "filterAndSortModels localeCompare models f =
     sortModels localeCompare
       (filterByTag
         (filterByEndpointType
           (filterByQuotaType
             (filterByGroup
               (filterByVendor (filterBySearch models (f_search f)) (f_vendor f)) (f_group f)) (f_quotaType f))
           (f_endpointType f)) (f_tag f)) (f_sortBy f)"

subsection \<open>The filters in the URL\<close>

datatype sval = SText string | SFlag bool

type_synonym search = "sval obj"

definition text_or :: "string \<Rightarrow> string \<Rightarrow> search \<Rightarrow> string" where
  "text_or k d s = (case oget s k of Some (SText t) \<Rightarrow> if t \<noteq> '''' then t else d | _ \<Rightarrow> d)"

record View = Filters +
  v_tokenUnit :: string
  v_viewMode :: string
  v_recharge :: bool

text \<open>What the hook reads from the search record.\<close>

definition useFilters :: "search \<Rightarrow> View" where
  "useFilters s =
     \<lparr>f_search = text_or ''search'' '''' s, f_vendor = text_or ''vendor'' FILTER_ALL s,
      f_group = text_or ''group'' FILTER_ALL s, f_quotaType = text_or ''quotaType'' ''all'' s,
      f_endpointType = text_or ''endpointType'' ''all'' s, f_tag = text_or ''tag'' FILTER_ALL s,
      f_sortBy = text_or ''sort'' SORT_NAME s,
      v_tokenUnit = (if oget s ''tokenUnit'' = Some (SText ''K'') then ''K'' else ''M''),
      v_viewMode = (if oget s ''view'' = Some (SText ''table'') then ''table'' else ''list''),
      v_recharge = (oget s ''rechargePrice'' = Some (SFlag True))\<rparr>"

definition updateSearch :: "(string \<times> sval option) list \<Rightarrow> search \<Rightarrow> search" where
  "updateSearch updates s = patch_search updates s"

definition unless :: "string \<Rightarrow> string \<Rightarrow> sval option" where
  "unless d v = (if v = d then None else Some (SText v))"

definition setSearchInput :: "string \<Rightarrow> search \<Rightarrow> search" where
  "setSearchInput v = updateSearch [(''search'', if v \<noteq> '''' then Some (SText v) else None)]"

definition setSortBy :: "string \<Rightarrow> search \<Rightarrow> search" where
  "setSortBy v = updateSearch [(''sort'', unless SORT_NAME v)]"

definition setVendorFilter :: "string \<Rightarrow> search \<Rightarrow> search" where
  "setVendorFilter v = updateSearch [(''vendor'', unless FILTER_ALL v)]"

definition setGroupFilter :: "string \<Rightarrow> search \<Rightarrow> search" where
  "setGroupFilter v = updateSearch [(''group'', unless FILTER_ALL v)]"

definition setQuotaTypeFilter :: "string \<Rightarrow> search \<Rightarrow> search" where
  "setQuotaTypeFilter v = updateSearch [(''quotaType'', unless ''all'' v)]"

definition setEndpointTypeFilter :: "string \<Rightarrow> search \<Rightarrow> search" where
  "setEndpointTypeFilter v = updateSearch [(''endpointType'', unless ''all'' v)]"

definition setTagFilter :: "string \<Rightarrow> search \<Rightarrow> search" where
  "setTagFilter v = updateSearch [(''tag'', unless FILTER_ALL v)]"

definition setTokenUnit :: "string \<Rightarrow> search \<Rightarrow> search" where
  "setTokenUnit v = updateSearch [(''tokenUnit'', unless ''M'' v)]"

definition setViewMode :: "string \<Rightarrow> search \<Rightarrow> search" where
  "setViewMode v = updateSearch [(''view'', unless ''list'' v)]"

definition setShowRechargePrice :: "bool \<Rightarrow> search \<Rightarrow> search" where
  "setShowRechargePrice v = updateSearch [(''rechargePrice'', if v then Some (SFlag True) else None)]"

definition clearFilters :: "search \<Rightarrow> search" where
  "clearFilters = updateSearch [(''vendor'', None), (''group'', None), (''quotaType'', None), (''endpointType'', None), (''tag'', None)]"

definition clearSearch :: "search \<Rightarrow> search" where
  "clearSearch = updateSearch [(''search'', None)]"

definition hasActiveFilters :: "View \<Rightarrow> bool" where
  "hasActiveFilters v \<longleftrightarrow> f_vendor v \<noteq> FILTER_ALL \<or> f_group v \<noteq> FILTER_ALL \<or> f_quotaType v \<noteq> ''all'' \<or>
     f_endpointType v \<noteq> ''all'' \<or> f_tag v \<noteq> FILTER_ALL"

definition activeFilterCount :: "View \<Rightarrow> nat" where
  "activeFilterCount v =
     (if f_vendor v \<noteq> FILTER_ALL then 1 else 0) + (if f_group v \<noteq> FILTER_ALL then 1 else 0) +
     (if f_quotaType v \<noteq> ''all'' then 1 else 0) + (if f_endpointType v \<noteq> ''all'' then 1 else 0) +
     (if f_tag v \<noteq> FILTER_ALL then 1 else 0)"

definition filteredModels :: "(string \<Rightarrow> string \<Rightarrow> int) \<Rightarrow> PricingModel list \<Rightarrow> search \<Rightarrow> PricingModel list" where
  "filteredModels localeCompare models s =
     (if models = [] then [] else filterAndSortModels localeCompare models (Filters.truncate (useFilters s)))"

subsection \<open>Prices\<close>

text \<open>A price as shown: a dash, or an amount in USD with its numbers of digits.\<close>

datatype Shown = Dash | Amount nat nat "rat option"

datatype PriceType = Input | Output | Cache | CreateCache | Image | AudioInput | AudioOutput

datatype TokenUnit = PerM | PerK

definition unit_divisor :: "TokenUnit \<Rightarrow> rat" where
  "unit_divisor u = (case u of PerM \<Rightarrow> 1 | PerK \<Rightarrow> 1000)"

fun min_ratio :: "rat option \<Rightarrow> rat obj \<Rightarrow> string list \<Rightarrow> rat option" where
  "min_ratio acc ratios [] = acc"
| "min_ratio acc ratios (g # gs) =
     (case oget ratios g of
        Some r \<Rightarrow> (if (case acc of Some m \<Rightarrow> r < m | None \<Rightarrow> True) then min_ratio (Some r) ratios gs else min_ratio acc ratios gs)
      | None \<Rightarrow> min_ratio acc ratios gs)"

definition getMinGroupRatio :: "string list \<Rightarrow> rat obj \<Rightarrow> rat" where
  "getMinGroupRatio enableGroups ratios =
     (if enableGroups = [] then 1
      else (case min_ratio None ratios enableGroups of Some m \<Rightarrow> m | None \<Rightarrow> 1))"

definition calculateTokenPrice :: "PricingModel \<Rightarrow> PriceType \<Rightarrow> rat \<Rightarrow> rat option" where
  "calculateTokenPrice m ty ratio =
     (let base = model_ratio m * 2 * ratio
      in case ty of
           Input \<Rightarrow> Some base
         | Output \<Rightarrow> Some (base * completion_ratio m)
         | Cache \<Rightarrow> map_option (\<lambda>r. base * r) (cache_ratio m)
         | CreateCache \<Rightarrow> map_option (\<lambda>r. base * r) (create_cache_ratio m)
         | Image \<Rightarrow> map_option (\<lambda>r. base * r) (image_ratio m)
         | AudioInput \<Rightarrow> map_option (\<lambda>r. base * r) (audio_ratio m)
         | AudioOutput \<Rightarrow> (case (audio_ratio m, audio_completion_ratio m) of
               (Some r, Some q) \<Rightarrow> Some (base * r * q) | _ \<Rightarrow> None))"

definition applyRechargeRate :: "rat option \<Rightarrow> bool \<Rightarrow> rat \<Rightarrow> rat \<Rightarrow> rat option" where
  "applyRechargeRate price showWithRecharge priceRate usdExchangeRate =
     (if \<not> showWithRecharge then price
      else if usdExchangeRate = 0 then None else map_option (\<lambda>p. p * priceRate / usdExchangeRate) price)"

definition model_min_ratio :: "PricingModel \<Rightarrow> rat" where
  "model_min_ratio m = getMinGroupRatio (enable_groups m) (case group_ratio m of Some r \<Rightarrow> r | None \<Rightarrow> [])"

definition ratio_or_1 :: "rat obj \<Rightarrow> string \<Rightarrow> rat" where
  "ratio_or_1 ratios grp = (case oget ratios grp of Some r \<Rightarrow> if r \<noteq> 0 then r else 1 | None \<Rightarrow> 1)"

definition formatPrice :: "PricingModel \<Rightarrow> PriceType \<Rightarrow> TokenUnit \<Rightarrow> bool \<Rightarrow> rat \<Rightarrow> rat \<Rightarrow> Shown" where
  "formatPrice m ty u showWithRecharge priceRate usdExchangeRate =
     (if quota_type m = QUOTA_TYPE_REQUEST then Dash
      else Amount 4 6 (map_option (\<lambda>p. p / unit_divisor u)
             (applyRechargeRate (calculateTokenPrice m ty (model_min_ratio m)) showWithRecharge priceRate usdExchangeRate)))"

definition formatGroupPrice :: "PricingModel \<Rightarrow> string \<Rightarrow> PriceType \<Rightarrow> TokenUnit \<Rightarrow> bool \<Rightarrow> rat \<Rightarrow> rat \<Rightarrow> rat obj \<Rightarrow> Shown" where
  "formatGroupPrice m grp ty u showWithRecharge priceRate usdExchangeRate ratios =
     (if quota_type m = QUOTA_TYPE_REQUEST then Dash
      else Amount 4 6 (map_option (\<lambda>p. p / unit_divisor u)
             (applyRechargeRate (calculateTokenPrice m ty (ratio_or_1 ratios grp)) showWithRecharge priceRate usdExchangeRate)))"

definition formatFixedPrice :: "PricingModel \<Rightarrow> string \<Rightarrow> bool \<Rightarrow> rat \<Rightarrow> rat \<Rightarrow> rat obj \<Rightarrow> Shown" where
  "formatFixedPrice m grp showWithRecharge priceRate usdExchangeRate ratios =
     (if quota_type m \<noteq> QUOTA_TYPE_REQUEST then Dash
      else Amount 4 4 (applyRechargeRate (Some ((case model_price m of Some p \<Rightarrow> p | None \<Rightarrow> 0) * ratio_or_1 ratios grp))
             showWithRecharge priceRate usdExchangeRate))"

definition formatRequestPrice :: "PricingModel \<Rightarrow> bool \<Rightarrow> rat \<Rightarrow> rat \<Rightarrow> Shown" where
  "formatRequestPrice m showWithRecharge priceRate usdExchangeRate =
     (if quota_type m \<noteq> QUOTA_TYPE_REQUEST then Dash
      else Amount 4 4 (applyRechargeRate (Some ((case model_price m of Some p \<Rightarrow> p | None \<Rightarrow> 0) * model_min_ratio m))
             showWithRecharge priceRate usdExchangeRate))"

subsection \<open>What the catalogue lists\<close>

definition matches :: "Filters \<Rightarrow> PricingModel \<Rightarrow> bool" where
  "matches f m \<longleftrightarrow>
     (f_search f = '''' \<or> (\<exists>t\<in>set [Some (model_name m), description m, tags m, vendor_name m]. opt_includes t (lower (f_search f)))) \<and>
     (f_vendor f = ''all'' \<or> vendor_name m = Some (f_vendor f)) \<and>
     (f_group f = ''all'' \<or> f_group f \<in> set (enable_groups m)) \<and>
     (f_quotaType f = ''all'' \<or> quota_type m = (if f_quotaType f = ''token'' then 0 else 1)) \<and>
     (f_endpointType f = ''all'' \<or> (\<exists>ts. supported_endpoint_types m = Some ts \<and> f_endpointType f \<in> set ts)) \<and>
     (f_tag f = ''all'' \<or> lower (f_tag f) \<in> set (map lower (parseTags (tags m))))"

lemma filters_conj:
  "filterByTag (filterByEndpointType (filterByQuotaType (filterByGroup (filterByVendor
       (filterBySearch models (f_search f)) (f_vendor f)) (f_group f)) (f_quotaType f)) (f_endpointType f)) (f_tag f)
    = filter (matches f) models"
proof -
  have "filterBySearch models (f_search f) = filter (\<lambda>m. f_search f = '''' \<or>
      (\<exists>t\<in>set [Some (model_name m), description m, tags m, vendor_name m]. opt_includes t (lower (f_search f)))) models" for models
    by (auto simp: filterBySearch_def Let_def intro: filter_cong)
  moreover have "filterByVendor models (f_vendor f) = filter (\<lambda>m. f_vendor f = ''all'' \<or> vendor_name m = Some (f_vendor f)) models" for models
    by (simp add: filterByVendor_def FILTER_ALL_def)
  moreover have "filterByGroup models (f_group f) = filter (\<lambda>m. f_group f = ''all'' \<or> f_group f \<in> set (enable_groups m)) models" for models
    by (simp add: filterByGroup_def FILTER_ALL_def)
  moreover have "filterByQuotaType models (f_quotaType f)
      = filter (\<lambda>m. f_quotaType f = ''all'' \<or> quota_type m = (if f_quotaType f = ''token'' then 0 else 1)) models" for models
    by (simp add: filterByQuotaType_def QUOTA_TYPE_TOKEN_def QUOTA_TYPE_REQUEST_def)
  moreover have "filterByEndpointType models (f_endpointType f)
      = filter (\<lambda>m. f_endpointType f = ''all'' \<or> (\<exists>ts. supported_endpoint_types m = Some ts \<and> f_endpointType f \<in> set ts)) models" for models
    by (auto simp: filterByEndpointType_def split: option.splits intro: filter_cong)
  moreover have "filterByTag models (f_tag f)
      = filter (\<lambda>m. f_tag f = ''all'' \<or> lower (f_tag f) \<in> set (map lower (parseTags (tags m)))) models" for models
    by (simp add: filterByTag_def FILTER_ALL_def)
  ultimately show ?thesis
    by (simp only: filter_filter) (rule filter_cong, simp, simp only: matches_def conj_ac)
qed

lemma mset_insert_by: "mset (insert_by cmp x ys) = add_mset x (mset ys)"
  by (induction ys) simp_all

lemma mset_sort_by [simp]: "mset (sort_by cmp xs) = mset xs"
  by (induction xs) (simp_all add: mset_insert_by)

lemma consistent_minus_sign: "consistent (\<lambda>a b. minus_sign (f a) (f b))"
  by (auto simp: consistent_def minus_sign_def)

lemma consistent_by: "consistent cmp \<Longrightarrow> consistent (\<lambda>a b. cmp (f a) (f b))"
  unfolding consistent_def by blast

text \<open>The order a sort option promises.\<close>

definition in_order :: "(string \<Rightarrow> string \<Rightarrow> int) \<Rightarrow> string \<Rightarrow> PricingModel \<Rightarrow> PricingModel \<Rightarrow> bool" where
  "in_order localeCompare sortBy a b =
     (if sortBy = ''name'' then localeCompare (model_name a) (model_name b) \<le> 0
      else if sortBy = ''price-low'' then getModelPrice a \<le> getModelPrice b
      else if sortBy = ''price-high'' then getModelPrice b \<le> getModelPrice a
      else True)"

lemma minus_sign_le: "minus_sign a b \<le> 0 \<longleftrightarrow> a \<le> b"
  by (auto simp: minus_sign_def)

lemma sortModels_sorted:
  assumes "consistent localeCompare"
  shows "sorted_wrt (in_order localeCompare sortBy) (sortModels localeCompare models sortBy)"
proof -
  have s1: "sorted_wrt (\<lambda>a b. localeCompare (model_name a) (model_name b) \<le> 0)
      (sort_by (\<lambda>a b. localeCompare (model_name a) (model_name b)) models)"
    by (rule sorted_sort_by [OF consistent_by [OF assms]])
  have s2: "sorted_wrt (\<lambda>a b. getModelPrice a \<le> getModelPrice b)
      (sort_by (\<lambda>a b. minus_sign (getModelPrice a) (getModelPrice b)) models)"
    using sorted_sort_by [OF consistent_minus_sign [of getModelPrice], of models] by (simp only: minus_sign_le)
  have s3: "sorted_wrt (\<lambda>a b. getModelPrice b \<le> getModelPrice a)
      (sort_by (\<lambda>a b. minus_sign (getModelPrice b) (getModelPrice a)) models)"
  proof -
    have "consistent (\<lambda>a b. minus_sign (getModelPrice b) (getModelPrice a))"
      by (auto simp: consistent_def minus_sign_def)
    from sorted_sort_by [OF this, of models] show ?thesis by (simp only: minus_sign_le)
  qed
  have s4: "sorted_wrt (\<lambda>a b. True) models" by (induction models) simp_all
  consider "sortBy = ''name''" | "sortBy = ''price-low''" | "sortBy = ''price-high''"
    | "sortBy \<notin> {''name'', ''price-low'', ''price-high''}" by blast
  then show ?thesis
  proof cases
    case 1
    have "in_order localeCompare ''name'' = (\<lambda>a b. localeCompare (model_name a) (model_name b) \<le> 0)"
      by (simp add: in_order_def fun_eq_iff)
    with s1 1 show ?thesis by (simp only: sortModels_def SORT_NAME_def if_True refl)
  next
    case 2
    have "in_order localeCompare ''price-low'' = (\<lambda>a b. getModelPrice a \<le> getModelPrice b)"
      by (simp add: in_order_def fun_eq_iff)
    with s2 2 show ?thesis by (simp add: sortModels_def SORT_NAME_def SORT_PRICE_LOW_def)
  next
    case 3
    have "in_order localeCompare ''price-high'' = (\<lambda>a b. getModelPrice b \<le> getModelPrice a)"
      by (simp add: in_order_def fun_eq_iff)
    with s3 3 show ?thesis by (simp add: sortModels_def SORT_NAME_def SORT_PRICE_LOW_def SORT_PRICE_HIGH_def)
  next
    case 4
    then have "in_order localeCompare sortBy = (\<lambda>a b. True)" by (simp add: in_order_def fun_eq_iff)
    with s4 4 show ?thesis by (simp add: sortModels_def SORT_NAME_def SORT_PRICE_LOW_def SORT_PRICE_HIGH_def)
  qed
qed

text \<open>
  C36: The catalogue lists exactly the models that match every filter of the URL, each as often as it is there, in the order of
  the chosen sorting.
\<close>

theorem catalogue_exact:
  assumes "consistent localeCompare"
  shows "let f = Filters.truncate (useFilters s); shown = filteredModels localeCompare models s
         in mset shown = mset (filter (matches f) models) \<and> sorted_wrt (in_order localeCompare (f_sortBy f)) shown"
proof (cases "models = []")
  case True
  then show ?thesis by (simp add: filteredModels_def)
next
  case False
  let ?f = "Filters.truncate (useFilters s)"
  have e: "filteredModels localeCompare models s = sortModels localeCompare (filter (matches ?f) models) (f_sortBy ?f)"
    using False by (simp add: filteredModels_def filterAndSortModels_def filters_conj)
  have "mset (sortModels localeCompare xs sb) = mset xs" for xs sb by (simp add: sortModels_def)
  with sortModels_sorted [OF assms] show ?thesis by (simp add: e Let_def)
qed

definition shorter_first :: "string \<Rightarrow> string \<Rightarrow> int" where
  "shorter_first a b = int (length a) - int (length b)"

definition demo_model :: "string \<Rightarrow> rat \<Rightarrow> PricingModel" where
  "demo_model n r = \<lparr>model_name = n, description = None, vendor_name = Some ''acme'', quota_type = 0, model_ratio = r,
     completion_ratio = 2, model_price = None, cache_ratio = None, create_cache_ratio = None, image_ratio = None,
     audio_ratio = None, audio_completion_ratio = None, enable_groups = [''free'', ''vip''], tags = Some ''chat,fast'',
     supported_endpoint_types = None, group_ratio = Some [(''free'', 0), (''vip'', 1)]\<rparr>"

lemma catalogue_exact_witness:
  "let shown = filteredModels shorter_first [demo_model ''b'' 3, demo_model ''a'' 1] [(''sort'', SText ''price-low'')]
   in mset shown = {#demo_model ''a'' 1, demo_model ''b'' 3#} \<and> sorted_wrt (\<lambda>a b. getModelPrice a \<le> getModelPrice b) shown"
proof -
  have c: "consistent shorter_first" by (auto simp: consistent_def shorter_first_def)
  let ?s = "[(''sort'', SText ''price-low'')]"
  have f: "useFilters ?s = \<lparr>f_search = '''', f_vendor = ''all'', f_group = ''all'', f_quotaType = ''all'', f_endpointType = ''all'',
      f_tag = ''all'', f_sortBy = ''price-low'', v_tokenUnit = ''M'', v_viewMode = ''list'', v_recharge = False\<rparr>"
    by (simp add: useFilters_def text_or_def FILTER_ALL_def)
  have m: "matches (Filters.truncate (useFilters ?s)) m" for m
    unfolding f by (simp add: matches_def Filters.truncate_def)
  have o1: "f_sortBy (Filters.truncate (useFilters ?s)) = ''price-low''" unfolding f by (simp add: Filters.truncate_def)
  have o2: "in_order shorter_first ''price-low'' = (\<lambda>a b. getModelPrice a \<le> getModelPrice b)"
    by (simp add: in_order_def fun_eq_iff)
  show ?thesis
    using catalogue_exact [OF c, of ?s "[demo_model ''b'' 3, demo_model ''a'' 1]", unfolded Let_def o1 o2]
    unfolding Let_def by (simp add: m add_mset_commute)
qed

subsection \<open>Setting and reading the filters\<close>

lemma text_or_patch:
  "text_or k d (patch_search [(k', v)] s)
    = (if k = k' then (case v of Some (SText t) \<Rightarrow> if t \<noteq> '''' then t else d | _ \<Rightarrow> d) else text_or k d s)"
  by (simp add: text_or_def patch_search_def oget_patch1)

lemmas setter_defs = setSearchInput_def setSortBy_def setVendorFilter_def setGroupFilter_def setQuotaTypeFilter_def
  setEndpointTypeFilter_def setTagFilter_def setTokenUnit_def setViewMode_def setShowRechargePrice_def updateSearch_def unless_def

definition or_default :: "string \<Rightarrow> string \<Rightarrow> string" where
  "or_default d v = (if v = '''' then d else v)"

text \<open>
  Each setter of the hook changes exactly its own filter and is read back, an empty value as the default; clearing resets the
  five counted filters and nothing else, and the badge is shown exactly when the count is positive.
\<close>

theorem url_filters_read_back:
  "useFilters (setSearchInput v s) = useFilters s\<lparr>f_search := v\<rparr> \<and>
   useFilters (setSortBy v s) = useFilters s\<lparr>f_sortBy := or_default ''name'' v\<rparr> \<and>
   useFilters (setVendorFilter v s) = useFilters s\<lparr>f_vendor := or_default ''all'' v\<rparr> \<and>
   useFilters (setGroupFilter v s) = useFilters s\<lparr>f_group := or_default ''all'' v\<rparr> \<and>
   useFilters (setQuotaTypeFilter v s) = useFilters s\<lparr>f_quotaType := or_default ''all'' v\<rparr> \<and>
   useFilters (setEndpointTypeFilter v s) = useFilters s\<lparr>f_endpointType := or_default ''all'' v\<rparr> \<and>
   useFilters (setTagFilter v s) = useFilters s\<lparr>f_tag := or_default ''all'' v\<rparr> \<and>
   useFilters (setTokenUnit v s) = useFilters s\<lparr>v_tokenUnit := (if v = ''K'' then ''K'' else ''M'')\<rparr> \<and>
   useFilters (setViewMode v s) = useFilters s\<lparr>v_viewMode := (if v = ''table'' then ''table'' else ''list'')\<rparr> \<and>
   useFilters (setShowRechargePrice b s) = useFilters s\<lparr>v_recharge := b\<rparr> \<and>
   useFilters (clearFilters s)
     = useFilters s\<lparr>f_vendor := ''all'', f_group := ''all'', f_quotaType := ''all'', f_endpointType := ''all'', f_tag := ''all''\<rparr> \<and>
   useFilters (clearSearch s) = useFilters s\<lparr>f_search := ''''\<rparr> \<and>
   activeFilterCount (useFilters (clearFilters s)) = 0 \<and>
   (hasActiveFilters (useFilters s) \<longleftrightarrow> 0 < activeFilterCount (useFilters s))"
proof -
  have c: "useFilters (clearFilters s)
     = useFilters s\<lparr>f_vendor := ''all'', f_group := ''all'', f_quotaType := ''all'', f_endpointType := ''all'', f_tag := ''all''\<rparr>"
    by (simp add: useFilters_def clearFilters_def updateSearch_def patch_search_def text_or_def oget_patch1 FILTER_ALL_def)
  then have "activeFilterCount (useFilters (clearFilters s)) = 0"
    by (simp add: activeFilterCount_def FILTER_ALL_def)
  moreover have "hasActiveFilters (useFilters s) \<longleftrightarrow> 0 < activeFilterCount (useFilters s)"
    by (simp add: hasActiveFilters_def activeFilterCount_def)
  moreover have "useFilters (clearSearch s) = useFilters s\<lparr>f_search := ''''\<rparr>"
    by (simp add: useFilters_def clearSearch_def updateSearch_def text_or_patch) (simp add: patch_search_def oget_patch1)
  moreover have "useFilters (setSearchInput v s) = useFilters s\<lparr>f_search := v\<rparr>"
    "useFilters (setSortBy v s) = useFilters s\<lparr>f_sortBy := or_default ''name'' v\<rparr>"
    "useFilters (setVendorFilter v s) = useFilters s\<lparr>f_vendor := or_default ''all'' v\<rparr>"
    "useFilters (setGroupFilter v s) = useFilters s\<lparr>f_group := or_default ''all'' v\<rparr>"
    "useFilters (setQuotaTypeFilter v s) = useFilters s\<lparr>f_quotaType := or_default ''all'' v\<rparr>"
    "useFilters (setEndpointTypeFilter v s) = useFilters s\<lparr>f_endpointType := or_default ''all'' v\<rparr>"
    "useFilters (setTagFilter v s) = useFilters s\<lparr>f_tag := or_default ''all'' v\<rparr>"
    "useFilters (setTokenUnit v s) = useFilters s\<lparr>v_tokenUnit := (if v = ''K'' then ''K'' else ''M'')\<rparr>"
    "useFilters (setViewMode v s) = useFilters s\<lparr>v_viewMode := (if v = ''table'' then ''table'' else ''list'')\<rparr>"
    "useFilters (setShowRechargePrice b s) = useFilters s\<lparr>v_recharge := b\<rparr>"
    by (simp_all add: useFilters_def setter_defs text_or_patch or_default_def FILTER_ALL_def SORT_NAME_def)
      (simp_all add: patch_search_def oget_patch1)
  ultimately show ?thesis using c by (intro conjI)
qed

subsection \<open>Tags\<close>

lemma lower_char_idem: "lower_char (lower_char c) = lower_char c"
proof -
  define n where "n = (of_char c :: nat)"
  have rt: "(of_char (char_of (k :: nat)) :: nat) = k" if "k < 256" for k using that by simp
  show ?thesis
  proof (cases "65 \<le> n \<and> n \<le> 90 \<or> 192 \<le> n \<and> n \<le> 222 \<and> n \<noteq> 215")
    case True
    then have l: "lower_char c = char_of (n + 32)" by (simp add: lower_char_def n_def Let_def)
    have b: "(of_char (char_of (n + 32)) :: nat) = n + 32" using True by (intro rt) auto
    have "\<not> (65 \<le> n + 32 \<and> n + 32 \<le> 90 \<or> 192 \<le> n + 32 \<and> n + 32 \<le> 222 \<and> n + 32 \<noteq> 215)" using True by auto
    then have "lower_char (char_of (n + 32)) = char_of (n + 32)" unfolding lower_char_def Let_def b by (simp only: if_False)
    with l show ?thesis by simp
  next
    case False
    then have "lower_char c = c" by (simp only: lower_char_def n_def Let_def if_False)
    then show ?thesis by simp
  qed
qed

lemma lower_idem: "lower (lower t) = lower t"
  by (simp add: lower_def lower_char_idem)

text \<open>
  The tag list offers exactly the tags, in lower case, of the models, once each, and choosing one lists exactly the models
  that have it in any spelling; the one exception is a tag named all, which lists every model.
\<close>

theorem offered_tags:
  "(t \<in> set (extractAllTags localeCompare models) \<longleftrightarrow> (\<exists>m\<in>set models. \<exists>t'\<in>set (parseTags (tags m)). lower t' = t)) \<and>
   (t \<in> set (extractAllTags localeCompare models) \<and> t \<noteq> ''all'' \<longrightarrow>
      filterByTag models t = filter (\<lambda>m. \<exists>t'\<in>set (parseTags (tags m)). lower t' = t) models \<and> filterByTag models t \<noteq> []) \<and>
   filterByTag models ''all'' = models"
proof -
  have s: "t \<in> set (extractAllTags localeCompare models) \<longleftrightarrow> (\<exists>m\<in>set models. \<exists>t'\<in>set (parseTags (tags m)). lower t' = t)"
    by (auto simp: extractAllTags_def)
  moreover have "filterByTag models t = filter (\<lambda>m. \<exists>t'\<in>set (parseTags (tags m)). lower t' = t) models \<and> filterByTag models t \<noteq> []"
    if "\<exists>m\<in>set models. \<exists>t'\<in>set (parseTags (tags m)). lower t' = t" "t \<noteq> ''all''"
  proof -
    from that(1) have "lower t = t" by (auto simp: lower_idem)
    then have "filterByTag models t = filter (\<lambda>m. \<exists>t'\<in>set (parseTags (tags m)). lower t' = t) models"
      using that(2) by (auto simp: filterByTag_def FILTER_ALL_def intro: filter_cong)
    with that(1) show ?thesis by (auto simp: filter_empty_conv)
  qed
  moreover have "filterByTag models ''all'' = models" by (simp add: filterByTag_def FILTER_ALL_def)
  ultimately show ?thesis by blast
qed

subsection \<open>The cheapest group\<close>

lemma min_ratio_least:
  assumes "acc = Some r \<or> (\<exists>g\<in>set gs. oget ratios g = Some r)"
    and "\<And>g r'. g \<in> set gs \<Longrightarrow> oget ratios g = Some r' \<Longrightarrow> r \<le> r'" and "\<And>a. acc = Some a \<Longrightarrow> r \<le> a"
  shows "min_ratio acc ratios gs = Some r"
  using assms
proof (induction acc ratios gs rule: min_ratio.induct)
  case (2 acc ratios g gs)
  show ?case
  proof (cases "oget ratios g")
    case None
    with 2 show ?thesis by auto
  next
    case (Some r')
    let ?b = "case acc of Some m \<Rightarrow> r' < m | None \<Rightarrow> True"
    show ?thesis
    proof (cases ?b)
      case True
      have "min_ratio (Some r') ratios gs = Some r"
      proof (rule "2.IH"(2) [OF Some True])
        show "Some r' = Some r \<or> (\<exists>g\<in>set gs. oget ratios g = Some r)"
          using "2.prems" Some True by (force split: option.splits)
      qed (use "2.prems" Some in auto)
      with Some True show ?thesis by simp
    next
      case False
      then obtain m where m: "acc = Some m" "m \<le> r'" by (auto split: option.splits)
      have "min_ratio acc ratios gs = Some r"
      proof (rule "2.IH"(3) [OF Some False])
        show "acc = Some r \<or> (\<exists>g\<in>set gs. oget ratios g = Some r)"
          using "2.prems" Some m by force
      qed (use "2.prems" in auto)
      with Some False show ?thesis by simp
    qed
  qed
qed auto

text \<open>
  The price in the catalogue is the price of the cheapest group that may use the model, as the details show it for that
  group, unless that group is free: then the catalogue shows 0 and the details show the price of a group with ratio 1.
\<close>

theorem catalogue_price_is_cheapest_group:
  assumes "group_ratio m = Some ratios" and "g \<in> set (enable_groups m)" and "oget ratios g = Some r"
    and "\<And>g' r'. g' \<in> set (enable_groups m) \<Longrightarrow> oget ratios g' = Some r' \<Longrightarrow> r \<le> r'"
  shows "(r \<noteq> 0 \<longrightarrow> formatGroupPrice m g ty u w pr ux ratios = formatPrice m ty u w pr ux \<and>
                   formatFixedPrice m g w pr ux ratios = formatRequestPrice m w pr ux) \<and>
         (r = 0 \<longrightarrow> quota_type m = 0 \<longrightarrow>
            formatPrice m Input PerM False pr ux = Amount 4 6 (Some 0) \<and>
            formatGroupPrice m g Input PerM False pr ux ratios = Amount 4 6 (Some (model_ratio m * 2)))"
proof -
  have "min_ratio None ratios (enable_groups m) = Some r"
    using assms(2-4) by (intro min_ratio_least) auto
  then have r: "model_min_ratio m = r"
    using assms(1,2) by (auto simp: model_min_ratio_def getMinGroupRatio_def)
  moreover have "r \<noteq> 0 \<Longrightarrow> ratio_or_1 ratios g = r" "r = 0 \<Longrightarrow> ratio_or_1 ratios g = 1"
    using assms(3) by (simp_all add: ratio_or_1_def)
  ultimately show ?thesis
    by (auto simp: formatPrice_def formatGroupPrice_def formatFixedPrice_def formatRequestPrice_def calculateTokenPrice_def
        applyRechargeRate_def unit_divisor_def QUOTA_TYPE_REQUEST_def Let_def)
qed

lemma catalogue_price_is_cheapest_group_witness:
  "formatPrice (demo_model ''a'' 3) Input PerM False 1 1 = Amount 4 6 (Some 0) \<and>
   formatGroupPrice (demo_model ''a'' 3) ''free'' Input PerM False 1 1 [(''free'', 0), (''vip'', 1)] = Amount 4 6 (Some 6)"
proof -
  have "group_ratio (demo_model ''a'' 3) = Some [(''free'', 0), (''vip'', 1)]" "''free'' \<in> set (enable_groups (demo_model ''a'' 3))"
    "oget [(''free'', 0), (''vip'', 1)] ''free'' = Some (0 :: rat)"
    by (simp_all add: demo_model_def)
  moreover have "(0 :: rat) \<le> r'" if "oget [(''free'', 0), (''vip'', 1)] g' = Some r'" for g' r'
    using that by (auto split: if_splits)
  ultimately show ?thesis
    using catalogue_price_is_cheapest_group [of "demo_model ''a'' 3" "[(''free'', 0), (''vip'', 1)]" "''free''" 0 Input PerM False 1 1]
    by (simp add: demo_model_def)
qed

end
