(* ===== verification/DeploymentSettings.thy ===== *)
theory DeploymentSettings
  imports Main
begin

text \<open>
  The settings and the connection test of model deployments:
  \<^verbatim>\<open>features/models/hooks/use-model-deployment-settings.ts\<close>. Several fetches and tests may be under way at once (the
  window gets the focus, the user retries); their replies come in any order. The time in milliseconds is an argument.
\<close>

subsection \<open>State\<close>

record ConnectionState =
  c_loading :: bool
  ok :: "bool option"
  error :: "string option"

datatype LoadingPhase = Idle | SettingsPhase | ConnectionPhase | DonePhase

text \<open>The hook with the module's cache: the result and time of a connection test.\<close>

record Deployment =
  d_loading :: bool
  loadingPhase :: LoadingPhase
  ionet_enabled :: bool
  connection :: ConnectionState
  connectionCache :: "(bool \<times> int) option"

definition CONNECTION_CACHE_TTL :: int where
  "CONNECTION_CACHE_TTL = 5 * 60 * 1000"

definition conn :: "bool \<Rightarrow> bool option \<Rightarrow> string option \<Rightarrow> ConnectionState" where
  "conn l r e = \<lparr>c_loading = l, ok = r, error = e\<rparr>"

definition initDeployment :: "(bool \<times> int) option \<Rightarrow> Deployment" where
  "initDeployment cache =
     \<lparr>d_loading = True, loadingPhase = SettingsPhase, ionet_enabled = False, connection = conn False None None,
      connectionCache = cache\<rparr>"

definition getCachedConnection :: "int \<Rightarrow> Deployment \<Rightarrow> bool option \<times> Deployment" where
  "getCachedConnection now d =
     (case connectionCache d of
        None \<Rightarrow> (None, d)
      | Some (r, timestamp) \<Rightarrow>
          if CONNECTION_CACHE_TTL < now - timestamp then (None, d\<lparr>connectionCache := None\<rparr>) else (Some r, d))"

definition setCachedConnection :: "bool \<Rightarrow> int \<Rightarrow> Deployment \<Rightarrow> Deployment" where
  "setCachedConnection r now d = d\<lparr>connectionCache := Some (r, now)\<rparr>"

definition clearConnectionCache :: "Deployment \<Rightarrow> Deployment" where
  "clearConnectionCache d = d\<lparr>connectionCache := None\<rparr>"

subsection \<open>Fetching\<close>

text \<open>A settings reply: success and the enabled flag; a test reply: success and message, or the text of an exception.\<close>

type_synonym settings_reply = "(bool \<times> bool) option"
type_synonym test_reply = "string + bool \<times> string option"

text \<open>What is under way: a fetch that waits for the settings, a fetch that waits for the connection, a manual test.\<close>

datatype task = AwaitSettings bool | AwaitConnection | ManualTest

definition fetchAll :: "bool \<Rightarrow> Deployment \<Rightarrow> Deployment \<times> task" where
  "fetchAll useCache d = (d\<lparr>d_loading := True, loadingPhase := SettingsPhase\<rparr>, AwaitSettings useCache)"

definition finished :: "Deployment \<Rightarrow> Deployment" where
  "finished d = d\<lparr>loadingPhase := DonePhase, d_loading := False\<rparr>"

definition onSettings :: "bool \<Rightarrow> int \<Rightarrow> settings_reply \<Rightarrow> Deployment \<Rightarrow> Deployment \<times> task option" where
  "onSettings useCache now reply d =
     (case reply of
        None \<Rightarrow> (finished (d\<lparr>connection := conn False None None\<rparr>), None)
      | Some (succ, en) \<Rightarrow>
          (let isEnabled = (succ \<and> en); d1 = d\<lparr>ionet_enabled := isEnabled\<rparr>
           in if \<not> isEnabled then (finished (d1\<lparr>connection := conn False None None\<rparr>), None)
              else (let (cached, d2) = (if useCache then getCachedConnection now d1 else (None, d1))
                    in case cached of
                         Some r \<Rightarrow> (finished (d2\<lparr>connection := conn False (Some r) None\<rparr>), None)
                       | None \<Rightarrow> (d2\<lparr>loadingPhase := ConnectionPhase, connection := conn True None None\<rparr>, Some AwaitConnection))))"

text \<open>The outcome of a connection test, shared by the fetch and the manual test.\<close>

definition test_message :: "string option \<Rightarrow> string" where
  "test_message m = (case m of Some s \<Rightarrow> if s \<noteq> '''' then s else ''Connection failed'' | None \<Rightarrow> ''Connection failed'')"

definition tested :: "int \<Rightarrow> test_reply \<Rightarrow> Deployment \<Rightarrow> Deployment" where
  "tested now reply d =
     (case reply of
        Inr (True, _) \<Rightarrow> (setCachedConnection True now d)\<lparr>connection := conn False (Some True) None\<rparr>
      | Inr (False, m) \<Rightarrow> (setCachedConnection False now d)\<lparr>connection := conn False (Some False) (Some (test_message m))\<rparr>
      | Inl msg \<Rightarrow> (setCachedConnection False now d)\<lparr>connection := conn False (Some False) (Some msg)\<rparr>)"

definition onConnection :: "int \<Rightarrow> test_reply \<Rightarrow> Deployment \<Rightarrow> Deployment" where
  "onConnection now reply d = finished (tested now reply d)"

definition testConnection :: "Deployment \<Rightarrow> Deployment \<times> task" where
  "testConnection d =
     ((clearConnectionCache d)\<lparr>connection := conn True None None, loadingPhase := ConnectionPhase\<rparr>, ManualTest)"

definition onManualTest :: "int \<Rightarrow> test_reply \<Rightarrow> Deployment \<Rightarrow> Deployment" where
  "onManualTest now reply d = (tested now reply d)\<lparr>loadingPhase := DonePhase\<rparr>"

definition refresh :: "Deployment \<Rightarrow> Deployment \<times> task" where
  "refresh d = fetchAll False (clearConnectionCache d)"

subsection \<open>The guard of the deployments page\<close>

text \<open>What \<^verbatim>\<open>features/models/components/deployment-access-guard.tsx\<close> shows.\<close>

datatype GuardView = LoadingView | DisabledView | ErrorView string | PageView

definition DeploymentAccessGuard :: "Deployment \<Rightarrow> GuardView" where
  "DeploymentAccessGuard d =
     (if d_loading d \<or> c_loading (connection d) then LoadingView
      else if \<not> ionet_enabled d then DisabledView
      else (case (ok (connection d), error (connection d)) of
              (Some False, Some e) \<Rightarrow> if e \<noteq> '''' then ErrorView e else PageView
            | _ \<Rightarrow> PageView))"

subsection \<open>Runs\<close>

text \<open>The page with the tasks under way, the clock, and the connection tests that have been answered (newest first).\<close>

record World =
  hook :: Deployment
  tasks :: "task list"
  clock :: int
  tests :: "(bool \<times> int) list"

definition result_of :: "test_reply \<Rightarrow> bool" where
  "result_of r = (case r of Inr (b, _) \<Rightarrow> b | Inl _ \<Rightarrow> False)"

definition started :: "Deployment \<times> task \<Rightarrow> World \<Rightarrow> World" where
  "started p w = w\<lparr>hook := fst p, tasks := tasks w @ [snd p]\<rparr>"

text \<open>A reply to the task at position \<open>i\<close>.\<close>

inductive reply_step :: "World \<Rightarrow> World \<Rightarrow> bool" where
  settings: "\<lbrakk>i < length (tasks w); tasks w ! i = AwaitSettings useCache; onSettings useCache (clock w) r (hook w) = (d, next)\<rbrakk> \<Longrightarrow>
     reply_step w (w\<lparr>hook := d, tasks := take i (tasks w) @ (case next of Some t \<Rightarrow> [t] | None \<Rightarrow> []) @ drop (Suc i) (tasks w)\<rparr>)"
| connected: "\<lbrakk>i < length (tasks w); tasks w ! i = AwaitConnection\<rbrakk> \<Longrightarrow>
     reply_step w (w\<lparr>hook := onConnection (clock w) r (hook w), tasks := take i (tasks w) @ drop (Suc i) (tasks w),
                     tests := (result_of r, clock w) # tests w\<rparr>)"
| tested: "\<lbrakk>i < length (tasks w); tasks w ! i = ManualTest\<rbrakk> \<Longrightarrow>
     reply_step w (w\<lparr>hook := onManualTest (clock w) r (hook w), tasks := take i (tasks w) @ drop (Suc i) (tasks w),
                     tests := (result_of r, clock w) # tests w\<rparr>)"

inductive user_step :: "World \<Rightarrow> World \<Rightarrow> bool" where
  focus: "user_step w (started (fetchAll True (hook w)) w)"
| refreshed: "user_step w (started (refresh (hook w)) w)"
| manual: "user_step w (started (testConnection (hook w)) w)"
| wait: "0 \<le> dt \<Longrightarrow> user_step w (w\<lparr>clock := clock w + dt\<rparr>)"

text \<open>The module is loaded with an empty cache; mounting starts the first fetch.\<close>

definition mounted :: "int \<Rightarrow> World" where
  "mounted now = started (fetchAll True (initDeployment None)) \<lparr>hook = initDeployment None, tasks = [], clock = now, tests = []\<rparr>"

inductive reachable :: "World \<Rightarrow> bool" where
  mount: "reachable (mounted now)"
| reply: "reachable w \<Longrightarrow> reply_step w w' \<Longrightarrow> reachable w'"
| user: "reachable w \<Longrightarrow> user_step w w' \<Longrightarrow> reachable w'"

subsection \<open>Every run of replies ends idle\<close>

definition task_weight :: "task \<Rightarrow> nat" where
  "task_weight t = (case t of AwaitSettings _ \<Rightarrow> 2 | _ \<Rightarrow> 1)"

definition weight :: "World \<Rightarrow> nat" where
  "weight w = sum_list (map task_weight (tasks w))"

definition is_fetch :: "task \<Rightarrow> bool" where
  "is_fetch t \<longleftrightarrow> t \<noteq> ManualTest"

definition is_test :: "task \<Rightarrow> bool" where
  "is_test t \<longleftrightarrow> t = AwaitConnection \<or> t = ManualTest"

text \<open>A flag is only set while a task that will clear it is under way.\<close>

definition flags_ok :: "World \<Rightarrow> bool" where
  "flags_ok w \<longleftrightarrow>
     (d_loading (hook w) \<longrightarrow> (\<exists>t\<in>set (tasks w). is_fetch t)) \<and>
     (c_loading (connection (hook w)) \<longrightarrow> (\<exists>t\<in>set (tasks w). is_test t)) \<and>
     (loadingPhase (hook w) \<noteq> DonePhase \<longrightarrow> tasks w \<noteq> []) \<and>
     (\<forall>r t. connectionCache (hook w) = Some (r, t) \<longrightarrow> (\<exists>rest. tests w = (r, t) # rest))"

definition cache_kept :: "Deployment \<Rightarrow> Deployment \<Rightarrow> bool" where
  "cache_kept d d' \<longleftrightarrow> connectionCache d' = None \<or> connectionCache d' = connectionCache d"

lemma onSettings_effect:
  assumes "onSettings uc now r d = (d', next)"
  shows "cache_kept d d' \<and>
    (next = None \<and> \<not> d_loading d' \<and> \<not> c_loading (connection d') \<and> loadingPhase d' = DonePhase \<or>
     next = Some AwaitConnection \<and> d_loading d' = d_loading d)"
  using assms
  by (auto simp: onSettings_def finished_def conn_def getCachedConnection_def cache_kept_def Let_def
      split: option.splits prod.splits if_splits)

lemma tested_effect:
  "\<not> c_loading (connection (tested now r d))" "d_loading (tested now r d) = d_loading d"
  "loadingPhase (tested now r d) = loadingPhase d" "connectionCache (tested now r d) = Some (result_of r, now)"
  by (auto simp: tested_def conn_def setCachedConnection_def result_of_def split: sum.splits prod.splits bool.splits)

lemma removed_tasks:
  assumes "i < length ts"
  shows "set (take i ts @ mid @ drop (Suc i) ts) \<union> {ts ! i} \<supseteq> set ts"
    "sum_list (map task_weight ts) = task_weight (ts ! i) + sum_list (map task_weight (take i ts @ drop (Suc i) ts))"
proof -
  have e: "ts = take i ts @ ts ! i # drop (Suc i) ts" using assms by (rule id_take_nth_drop)
  have "set ts = set (take i ts @ ts ! i # drop (Suc i) ts)" using e by (rule arg_cong)
  then show "set (take i ts @ mid @ drop (Suc i) ts) \<union> {ts ! i} \<supseteq> set ts" by auto
  have "sum_list (map task_weight ts) = sum_list (map task_weight (take i ts @ ts ! i # drop (Suc i) ts))"
    using e by (rule arg_cong)
  then show "sum_list (map task_weight ts) = task_weight (ts ! i) + sum_list (map task_weight (take i ts @ drop (Suc i) ts))"
    by simp
qed

lemma reply_weight: "reply_step w w' \<Longrightarrow> weight w' < weight w"
proof (induction rule: reply_step.induct)
  case (settings i w uc r d nxt)
  then have "nxt = None \<or> nxt = Some AwaitConnection" using onSettings_effect [OF settings.hyps(3)] by blast
  then show ?case using removed_tasks(2) [OF settings.hyps(1)] settings.hyps(2)
    by (auto simp: weight_def task_weight_def)
next
  case (connected i w r)
  then show ?case using removed_tasks(2) [OF connected.hyps(1)] by (simp add: weight_def task_weight_def)
next
  case (tested i w r)
  then show ?case using removed_tasks(2) [OF tested.hyps(1)] by (simp add: weight_def task_weight_def)
qed

lemma reply_flags: "reply_step w w' \<Longrightarrow> flags_ok w \<Longrightarrow> flags_ok w'"
proof (induction rule: reply_step.induct)
  case (settings i w uc r d nxt)
  note eff = onSettings_effect [OF settings.hyps(3)]
  have c: "\<exists>rest. tests w = (r', t') # rest" if "connectionCache d = Some (r', t')" for r' t'
    using eff settings.prems that by (auto simp: cache_kept_def flags_ok_def)
  from eff consider (fin) "nxt = None" "\<not> d_loading d" "\<not> c_loading (connection d)" "loadingPhase d = DonePhase"
    | (more) "nxt = Some AwaitConnection" by blast
  then show ?case
    by cases (use c in \<open>auto simp: flags_ok_def is_fetch_def is_test_def\<close>)
next
  case (connected i w r)
  then show ?case
    by (auto simp: flags_ok_def onConnection_def finished_def tested_effect)
next
  case (tested i w r)
  have k: "\<exists>t\<in>set (take i (tasks w) @ drop (Suc i) (tasks w)). is_fetch t" if "d_loading (hook w)"
  proof -
    from that tested.prems obtain t where t: "t \<in> set (tasks w)" "is_fetch t" by (auto simp: flags_ok_def)
    then have "t \<noteq> tasks w ! i" using tested.hyps(2) by (auto simp: is_fetch_def)
    with t removed_tasks(1) [OF tested.hyps(1), of "[]"] show ?thesis by auto
  qed
  show ?case using tested.prems k
    by (auto simp: flags_ok_def onManualTest_def tested_effect)
qed

lemma user_flags: "user_step w w' \<Longrightarrow> flags_ok w \<Longrightarrow> flags_ok w'"
  by (induction rule: user_step.induct)
    (auto simp: flags_ok_def started_def fetchAll_def refresh_def testConnection_def clearConnectionCache_def conn_def
      is_fetch_def is_test_def)

lemma reachable_flags: "reachable w \<Longrightarrow> flags_ok w"
proof (induction rule: reachable.induct)
  case (mount now)
  show ?case by (simp add: flags_ok_def mounted_def started_def fetchAll_def initDeployment_def conn_def is_fetch_def)
qed (auto intro: reply_flags user_flags)

lemma reply_progress: "tasks w \<noteq> [] \<Longrightarrow> \<exists>w'. reply_step w w'"
proof -
  assume "tasks w \<noteq> []"
  then have i: "0 < length (tasks w)" by simp
  show ?thesis
  proof (cases "tasks w ! 0")
    case (AwaitSettings uc)
    obtain d nxt where "onSettings uc (clock w) None (hook w) = (d, nxt)" by fastforce
    from reply_step.settings [OF i AwaitSettings this] show ?thesis by blast
  next
    case AwaitConnection
    from reply_step.connected [OF i this] show ?thesis by blast
  next
    case ManualTest
    from reply_step.tested [OF i this] show ?thesis by blast
  qed
qed

lemma replies_bounded: "(reply_step ^^ n) w w' \<Longrightarrow> weight w' + n \<le> weight w"
proof (induction n arbitrary: w')
  case (Suc n)
  then obtain v where "(reply_step ^^ n) w v" "reply_step v w'" by (auto simp: relcompp_apply)
  with Suc.IH [of v] reply_weight [of v w'] show ?case by simp
qed simp

lemma reachable_replies: "(reply_step ^^ n) w w' \<Longrightarrow> reachable w \<Longrightarrow> reachable w'"
proof (induction n arbitrary: w')
  case (Suc n)
  then obtain v where "(reply_step ^^ n) w v" "reply_step v w'" by (auto simp: relcompp_apply)
  with Suc show ?case by (auto intro: reachable.reply)
qed simp

text \<open>
  C40: Whatever the user did, the replies come to an end: there are at most two for every fetch and one for every test, one can
  come as long as anything is under way, and when the last one is in the page is idle.
\<close>

theorem replies_end_idle:
  assumes "reachable w" and "(reply_step ^^ n) w w'"
  shows "n \<le> weight w \<and>
         (if tasks w' = []
          then \<not> d_loading (hook w') \<and> \<not> c_loading (connection (hook w')) \<and> loadingPhase (hook w') = DonePhase
          else (\<exists>w''. reply_step w' w''))"
proof -
  have "flags_ok w'" using reachable_flags [OF reachable_replies [OF assms(2,1)]] .
  with replies_bounded [OF assms(2)] reply_progress [of w'] show ?thesis by (auto simp: flags_ok_def)
qed

lemma replies_end_idle_witness:
  "\<exists>w'. (reply_step ^^ 1) (mounted 0) w' \<and> tasks w' = [] \<and> \<not> d_loading (hook w')"
proof -
  have w: "tasks (mounted 0) = [AwaitSettings True]" by (simp add: mounted_def started_def fetchAll_def)
  obtain d nxt where o: "onSettings True (clock (mounted 0)) None (hook (mounted 0)) = (d, nxt)" by fastforce
  have n: "nxt = None" using o by (simp add: onSettings_def)
  have s: "reply_step (mounted 0) ((mounted 0)\<lparr>hook := d, tasks := []\<rparr>)"
    using reply_step.settings [of 0 "mounted 0" True None d nxt] w o n by simp
  have r: "(reply_step ^^ 1) (mounted 0) ((mounted 0)\<lparr>hook := d, tasks := []\<rparr>)" using s by (simp add: relcompp_apply)
  from replies_end_idle [OF reachable.mount this] r show ?thesis by (intro exI [of _ "(mounted 0)\<lparr>hook := d, tasks := []\<rparr>"]) simp
qed

subsection \<open>Cached results\<close>

text \<open>
  A fetch that answers from the cache shows the result of the newest connection test, at most five minutes old, but
  without its error text: after a failed test, the window's getting the focus opens the page the guard had closed.
\<close>

theorem cached_result_opens_page:
  assumes "reachable w" and "connectionCache (hook w) = Some (r, t)" and "clock w - t \<le> CONNECTION_CACHE_TTL"
  shows "let (d, next) = onSettings True (clock w) (Some (True, True)) (fst (fetchAll True (hook w)))
         in next = None \<and> ok (connection d) = Some r \<and> (\<exists>rest. tests w = (r, t) # rest) \<and> clock w - t \<le> 300000 \<and>
            DeploymentAccessGuard d = PageView"
proof -
  have "\<exists>rest. tests w = (r, t) # rest"
    using reachable_flags [OF assms(1)] assms(2) by (simp add: flags_ok_def)
  with assms(2,3) show ?thesis
    by (simp add: onSettings_def fetchAll_def getCachedConnection_def finished_def conn_def DeploymentAccessGuard_def
        CONNECTION_CACHE_TTL_def Let_def split: bool.splits)
qed

text \<open>The manual test fails and the guard shows it; one minute later the focus opens the page.\<close>

definition after_failure :: World where
  "after_failure =
     \<lparr>hook = onManualTest 0 (Inl ''timeout'') (fst (testConnection (hook (mounted 0)))), tasks = [AwaitSettings True],
      clock = 0, tests = [(False, 0)]\<rparr>"

lemma after_failure_reachable: "reachable after_failure"
proof -
  have u: "reachable (started (testConnection (hook (mounted 0))) (mounted 0))"
    by (rule reachable.user [OF reachable.mount user_step.manual])
  have "reply_step (started (testConnection (hook (mounted 0))) (mounted 0)) after_failure"
    using reply_step.tested [of 1 "started (testConnection (hook (mounted 0))) (mounted 0)" "Inl ''timeout''"]
    by (simp add: started_def mounted_def fetchAll_def testConnection_def after_failure_def result_of_def)
  with u show ?thesis by (rule reachable.reply)
qed

lemma cached_result_opens_page_witness:
  "DeploymentAccessGuard (fst (onSettings True 60000 (Some (True, True)) (fst (fetchAll True (hook after_failure))))) = PageView"
proof -
  have r: "reachable (after_failure\<lparr>clock := clock after_failure + 60000\<rparr>)"
    using after_failure_reachable user_step.wait [of 60000] by (auto intro: reachable.user)
  have c: "connectionCache (hook (after_failure\<lparr>clock := clock after_failure + 60000\<rparr>)) = Some (False, 0)"
    by (simp add: after_failure_def onManualTest_def tested_effect result_of_def)
  show ?thesis using cached_result_opens_page [OF r c]
    by (simp add: after_failure_def CONNECTION_CACHE_TTL_def Let_def split: prod.splits)
qed

end
