(* ===== verification/JsRegex.thy ===== *)
theory JsRegex
  imports JsJsonFacts
begin

text \<open>
  Backtracking regular expressions. A matcher maps the text at a position to the list of its ways to match there, in the
  order in which a JavaScript engine tries them: a greedy quantifier gives the longest first, an alternative gives its
  branches from left to right. Each way is the value of the captures with the rest of the text; the result of
  \<open>exec\<close> at a position is the first. \<open>first_way\<close> and \<open>no_way\<close> are the rules with which the components
  run a matcher on text they know.
\<close>

named_theorems rx \<open>running a matcher on known text\<close>

type_synonym 'a rx = "string \<Rightarrow> ('a \<times> string) list"

subsection \<open>Matchers\<close>

definition rx_bind :: "'a rx \<Rightarrow> ('a \<Rightarrow> 'b rx) \<Rightarrow> 'b rx" where
  "rx_bind p f s = concat (map (\<lambda>(x, r). f x r) (p s))"

definition rx_ret :: "'a \<Rightarrow> 'a rx" where
  "rx_ret x s = [(x, s)]"

definition rx_lit :: "string \<Rightarrow> string rx" where
  "rx_lit w s = (case strip_prefix w s of Some r \<Rightarrow> [(w, r)] | None \<Rightarrow> [])"

text \<open>The alternation of literal words.\<close>

definition rx_words :: "string list \<Rightarrow> string rx" where
  "rx_words ws s = concat (map (\<lambda>w. rx_lit w s) ws)"

text \<open>A class under \<open>*\<close> and under \<open>+\<close>.\<close>

fun rx_star :: "(char \<Rightarrow> bool) \<Rightarrow> string rx" where
  "rx_star P [] = [([], [])]"
| "rx_star P (c # s) = (if P c then map (\<lambda>(t, r). (c # t, r)) (rx_star P s) else []) @ [([], c # s)]"

definition rx_plus :: "(char \<Rightarrow> bool) \<Rightarrow> string rx" where
  "rx_plus P s = filter (\<lambda>(t, r). t \<noteq> []) (rx_star P s)"

abbreviation rx_ws :: "string rx" where
  "rx_ws \<equiv> rx_star is_ws"

definition rx_opt :: "'a rx \<Rightarrow> 'a option rx" where
  "rx_opt p s = map (\<lambda>(x, r). (Some x, r)) (p s) @ [(None, s)]"

text \<open>A group under \<open>*\<close>; an iteration that consumes nothing is not tried.\<close>

function rx_many :: "'a rx \<Rightarrow> 'a list rx" where
  "rx_many p s =
     concat (map (\<lambda>(x, r). map (\<lambda>(xs, r'). (x # xs, r')) (rx_many p r)) (filter (\<lambda>(x, r). length r < length s) (p s)))
     @ [([], s)]"
  by pat_completeness auto
termination
  by (relation "measure (length \<circ> snd)") auto

declare rx_many.simps [simp del]

text \<open>The text a matcher has consumed, as a capture.\<close>

definition rx_text :: "'a rx \<Rightarrow> string rx" where
  "rx_text p s = map (\<lambda>(x, r). (take (length s - length r) s, r)) (p s)"

text \<open>Anchored at both ends, and the leftmost match with the rest behind it.\<close>

definition rx_full :: "'a rx \<Rightarrow> string \<Rightarrow> 'a option" where
  "rx_full p s = (case filter (\<lambda>(x, r). r = []) (p s) of [] \<Rightarrow> None | (x, r) # _ \<Rightarrow> Some x)"

fun rx_exec :: "'a rx \<Rightarrow> string \<Rightarrow> ('a \<times> string) option" where
  "rx_exec p [] = (case p [] of [] \<Rightarrow> None | m # _ \<Rightarrow> Some m)"
| "rx_exec p (c # s) = (case p (c # s) of [] \<Rightarrow> rx_exec p s | m # _ \<Rightarrow> Some m)"

text \<open>The matches of a global expression, one after another; the loop ends when a match is empty.\<close>

function rx_all :: "'a rx \<Rightarrow> string \<Rightarrow> 'a list" where
  "rx_all p s =
     (case rx_exec p s of
        None \<Rightarrow> []
      | Some (x, r) \<Rightarrow> if length r < length s then x # rx_all p r else [x])"
  by pat_completeness auto
termination
  by (relation "measure (length \<circ> snd)") auto

declare rx_all.simps [simp del]

subsection \<open>The first way\<close>

definition first_way :: "'a rx \<Rightarrow> string \<Rightarrow> 'a \<Rightarrow> string \<Rightarrow> bool" where
  "first_way p s x r \<longleftrightarrow> (\<exists>ws. p s = (x, r) # ws)"

definition no_way :: "'a rx \<Rightarrow> string \<Rightarrow> bool" where
  "no_way p s \<longleftrightarrow> p s = []"

lemma first_bind [rx]: "first_way p s x r \<Longrightarrow> first_way (f x) r y r' \<Longrightarrow> first_way (rx_bind p f) s y r'"
  by (auto simp: first_way_def rx_bind_def)

lemma no_bind: "\<forall>(x, r) \<in> set (p s). no_way (f x) r \<Longrightarrow> no_way (rx_bind p f) s"
  by (auto simp: no_way_def rx_bind_def)

lemma no_bind_none [rx]: "no_way p s \<Longrightarrow> no_way (rx_bind p f) s"
  by (simp add: no_way_def rx_bind_def)

lemma first_ret [rx]: "first_way (rx_ret x) s x s"
  by (simp add: first_way_def rx_ret_def)

lemma first_lit [rx]: "first_way (rx_lit w) (w @ r) w r"
  by (simp add: first_way_def rx_lit_def strip_prefix_append)

lemma no_lit: "strip_prefix w s = None \<Longrightarrow> no_way (rx_lit w) s"
  by (simp add: no_way_def rx_lit_def)

lemma star_append: "\<forall>c \<in> set t. P c \<Longrightarrow> s = [] \<or> \<not> P (hd s) \<Longrightarrow> first_way (rx_star P) (t @ s) t s"
proof (induction t)
  case Nil
  then show ?case by (cases s) (auto simp: first_way_def)
next
  case (Cons c t)
  then obtain ws where "rx_star P (t @ s) = (t, s) # ws" by (auto simp: first_way_def)
  with Cons.prems show ?case by (simp add: first_way_def)
qed

lemma plus_append:
  assumes "t \<noteq> []" "\<forall>c \<in> set t. P c" "s = [] \<or> \<not> P (hd s)"
  shows "first_way (rx_plus P) (t @ s) t s"
  using star_append [OF assms(2,3)] assms(1) by (auto simp: first_way_def rx_plus_def)

lemma star_here: "s = [] \<or> \<not> P (hd s) \<Longrightarrow> rx_star P s = [([], s)]"
  by (cases s) auto

lemma ws_space: "s = [] \<or> \<not> is_ws (hd s) \<Longrightarrow> rx_ws (CHR '' '' # s) = [('' '', s), ([], CHR '' '' # s)]"
  by (simp add: star_here is_ws_def)

lemma no_plus: "s = [] \<or> \<not> P (hd s) \<Longrightarrow> no_way (rx_plus P) s"
  by (simp add: no_way_def rx_plus_def star_here)

lemma first_opt [rx]: "first_way p s x r \<Longrightarrow> first_way (rx_opt p) s (Some x) r"
  by (auto simp: first_way_def rx_opt_def)

lemma first_opt_none: "no_way p s \<Longrightarrow> first_way (rx_opt p) s None s"
  by (auto simp: first_way_def no_way_def rx_opt_def)

lemma first_many:
  assumes "first_way p s x r" "length r < length s" "first_way (rx_many p) r xs r'"
  shows "first_way (rx_many p) s (x # xs) r'"
  using assms unfolding first_way_def by (subst rx_many.simps) auto

lemma first_many_end: "no_way p s \<Longrightarrow> first_way (rx_many p) s [] s"
  unfolding first_way_def no_way_def by (subst rx_many.simps) simp

lemma first_text: "first_way p (t @ r) x r \<Longrightarrow> first_way (rx_text p) (t @ r) t r"
  by (auto simp: first_way_def rx_text_def)

lemma no_text: "no_way p s \<Longrightarrow> no_way (rx_text p) s"
  by (simp add: no_way_def rx_text_def)

text \<open>Alternatives that fail before the one that matches.\<close>

lemma first_bind_skip:
  assumes "p s = skipped @ (x, r) # ws" "\<forall>(y, q) \<in> set skipped. no_way (f y) q" "first_way (f x) r y r'"
  shows "first_way (rx_bind p f) s y r'"
proof -
  have c: "concat (map (\<lambda>(x, r). f x r) skipped) = []" using assms(2) by (auto simp: no_way_def)
  show ?thesis using assms(1,3) unfolding first_way_def rx_bind_def by (auto simp only: c map_append concat_append list.map concat.simps append_Nil append_Cons prod.case)
qed

lemma full_first: "first_way p s x [] \<Longrightarrow> rx_full p s = Some x"
  by (auto simp: first_way_def rx_full_def)

lemma full_none: "(\<And>x r. (x, r) \<in> set (p s) \<Longrightarrow> r \<noteq> []) \<Longrightarrow> rx_full p s = None"
proof -
  assume a: "\<And>x r. (x, r) \<in> set (p s) \<Longrightarrow> r \<noteq> []"
  have "filter (\<lambda>(x, r). r = []) (p s) = []" using a by (auto simp: filter_empty_conv)
  then show ?thesis by (simp add: rx_full_def)
qed

lemma exec_here: "first_way p s x r \<Longrightarrow> rx_exec p s = Some (x, r)"
  by (cases s) (auto simp: first_way_def)

lemma exec_skip: "no_way p (c # s) \<Longrightarrow> rx_exec p (c # s) = rx_exec p s"
  by (simp add: no_way_def)

lemma all_step:
  assumes "first_way p s x r" "length r < length s"
  shows "rx_all p s = x # rx_all p r"
  by (subst rx_all.simps) (simp add: exec_here [OF assms(1)] assms(2))

lemma all_skip:
  assumes "no_way p (c # s)" "\<And>x r. rx_exec p s = Some (x, r) \<Longrightarrow> length r < length s"
  shows "rx_all p (c # s) = rx_all p s"
proof (cases "rx_exec p s")
  case None
  then show ?thesis using assms(1) by (simp add: rx_all.simps [of p "c # s"] rx_all.simps [of p s] no_way_def)
next
  case (Some m)
  then obtain x r where m: "rx_exec p s = Some (x, r)" by (cases m) auto
  then show ?thesis using assms(1) assms(2) [OF m]
    by (simp add: rx_all.simps [of p "c # s"] rx_all.simps [of p s] no_way_def)
qed

lemma all_none: "rx_exec p s = None \<Longrightarrow> rx_all p s = []"
  by (simp add: rx_all.simps [of p s])

subsection \<open>What a matcher consumes\<close>

definition consumes :: "(char \<Rightarrow> bool) \<Rightarrow> 'a rx \<Rightarrow> bool" where
  "consumes P p \<longleftrightarrow> (\<forall>s x r. (x, r) \<in> set (p s) \<longrightarrow> (\<exists>t. s = t @ r \<and> (\<forall>c \<in> set t. P c)))"

lemma consumesD: "consumes P p \<Longrightarrow> (x, r) \<in> set (p s) \<Longrightarrow> \<exists>t. s = t @ r \<and> (\<forall>c \<in> set t. P c)"
  by (auto simp: consumes_def)

lemma consumes_bind: "consumes P p \<Longrightarrow> (\<And>x. consumes P (f x)) \<Longrightarrow> consumes P (rx_bind p f)"
proof -
  assume p: "consumes P p" and f: "\<And>x. consumes P (f x)"
  show ?thesis unfolding consumes_def
  proof (intro allI impI)
    fix s y r' assume "(y, r') \<in> set (rx_bind p f s)"
    then obtain x r where 1: "(x, r) \<in> set (p s)" and 2: "(y, r') \<in> set (f x r)" by (auto simp: rx_bind_def)
    obtain t where t: "s = t @ r" "\<forall>c \<in> set t. P c" using consumesD [OF p 1] by blast
    obtain t' where t': "r = t' @ r'" "\<forall>c \<in> set t'. P c" using consumesD [OF f 2] by blast
    show "\<exists>t. s = t @ r' \<and> (\<forall>c \<in> set t. P c)" using t t' by (intro exI [of _ "t @ t'"]) auto
  qed
qed

lemma in_bind_lit: "m \<in> set (rx_bind (rx_lit w) f s) \<longleftrightarrow> (\<exists>r. s = w @ r \<and> m \<in> set (f w r))"
proof (cases "strip_prefix w s")
  case None
  then show ?thesis using strip_prefix_None [of w s] by (simp add: rx_bind_def rx_lit_def)
next
  case (Some a)
  then have "s = w @ a" by (simp only: strip_prefix_Some)
  then show ?thesis by (auto simp: rx_bind_def rx_lit_def)
qed

lemma consumes_ret: "consumes P (rx_ret x)"
  by (simp add: consumes_def rx_ret_def)

lemma consumes_lit: "\<forall>c \<in> set w. P c \<Longrightarrow> consumes P (rx_lit w)"
  by (auto simp: consumes_def rx_lit_def split: option.splits) (metis strip_prefix_Some)

lemma consumes_star: "(\<And>c. Q c \<Longrightarrow> P c) \<Longrightarrow> consumes P (rx_star Q)"
proof -
  assume Q: "\<And>c. Q c \<Longrightarrow> P c"
  have "\<exists>t. s = t @ r \<and> (\<forall>c \<in> set t. P c)" if "(x, r) \<in> set (rx_star Q s)" for s x r
    using that
  proof (induction s arbitrary: x)
    case (Cons c s)
    then consider "Q c" "\<exists>x'. (x', r) \<in> set (rx_star Q s)" | "r = c # s" by (auto split: if_splits)
    then show ?case
    proof cases
      case 1
      then obtain t where "s = t @ r" "\<forall>c \<in> set t. P c" using Cons.IH by blast
      then show ?thesis using 1 Q by (intro exI [of _ "c # t"]) auto
    qed auto
  qed auto
  then show ?thesis by (auto simp: consumes_def)
qed

lemma consumes_plus: "(\<And>c. Q c \<Longrightarrow> P c) \<Longrightarrow> consumes P (rx_plus Q)"
  using consumes_star [of Q P] by (auto simp: consumes_def rx_plus_def)

lemma consumes_opt: "consumes P p \<Longrightarrow> consumes P (rx_opt p)"
  by (fastforce simp: consumes_def rx_opt_def)

lemmas consumes_intros = consumes_bind consumes_ret consumes_lit consumes_star consumes_plus consumes_opt

end
