(* ===== verification/TierExpr.thy ===== *)
theory TierExpr
  imports JsRegex BillingExpr
begin

text \<open>
  Tiered prices (\<^verbatim>\<open>features/pricing/lib/tier-expr.ts\<close>): the visual configuration, the expression generated from it,
  and the reading back of an expression. The unanchored and global regular expressions are the backtracking matchers of
  \<open>JsRegex\<close>, in the order of the source's groups. A number is a decimal, or \<open>None\<close> for NaN.
\<close>

subsection \<open>Configurations\<close>

type_synonym cost = "num option"

datatype CondVar = VarP | VarC | VarLen
datatype CondOp = OpLt | OpLe | OpGt | OpGe
datatype CondValue = CNum cost | CStr string

record TierConditionInput =
  cvar :: CondVar
  cop :: CondOp
  cval :: CondValue

datatype CacheMode = CACHE_MODE_TIMED | CACHE_MODE_GENERIC

text \<open>
  A field that is not set is \<open>None\<close>, which covers the type \<open>Partial<VisualTier>\<close>; the costs beyond input and output are
  read and written by name.
\<close>

record VisualTier =
  tlabel :: "string option"
  tconditions :: "TierConditionInput list option"
  input_unit_cost :: "cost option"
  output_unit_cost :: "cost option"
  cache_mode :: "CacheMode option"
  costs :: "cost obj"

type_synonym VisualConfig = "VisualTier list"

definition no_tier :: VisualTier where
  "no_tier = \<lparr>tlabel = None, tconditions = None, input_unit_cost = None, output_unit_cost = None, cache_mode = None, costs = []\<rparr>"

text \<open>\<open>Number(x) || 0\<close> for a field that may be absent.\<close>

definition zero_num :: num where
  "zero_num = Dec 0 0"

definition number_or_zero :: "cost option \<Rightarrow> num" where
  "number_or_zero x = (case x of Some (Some n) \<Rightarrow> n | _ \<Rightarrow> zero_num)"

definition getTierCacheMode :: "VisualTier \<Rightarrow> CacheMode" where
  "getTierCacheMode tier =
     (case cache_mode tier of
        Some mode \<Rightarrow> mode
      | None \<Rightarrow> if 0 < mant (number_or_zero (oget (costs tier) ''cache_create_1h_unit_cost'')) then CACHE_MODE_TIMED else CACHE_MODE_GENERIC)"

definition COST_FIELDS :: "string list" where
  "COST_FIELDS =
     [''cache_read_unit_cost'', ''cache_create_unit_cost'', ''cache_create_1h_unit_cost'', ''image_unit_cost'',
      ''image_output_unit_cost'', ''audio_input_unit_cost'', ''audio_output_unit_cost'']"

text \<open>The fields in front of the spread are overwritten by those the tier has, the costs behind it are not.\<close>

definition normalizeVisualTier :: "VisualTier \<Rightarrow> VisualTier" where
  "normalizeVisualTier tier =
     \<lparr>tlabel = Some (case tlabel tier of Some l \<Rightarrow> l | None \<Rightarrow> ''''),
      tconditions = Some (case tconditions tier of Some cs \<Rightarrow> cs | None \<Rightarrow> []),
      input_unit_cost = Some (case input_unit_cost tier of Some c \<Rightarrow> c | None \<Rightarrow> Some zero_num),
      output_unit_cost = Some (case output_unit_cost tier of Some c \<Rightarrow> c | None \<Rightarrow> Some zero_num),
      cache_mode = Some (getTierCacheMode tier),
      costs = map (\<lambda>f. (f, Some (number_or_zero (oget (costs tier) f)))) COST_FIELDS\<rparr>"

definition createDefaultVisualConfig :: VisualConfig where
  "createDefaultVisualConfig =
     [normalizeVisualTier
        \<lparr>tlabel = Some ''base'', tconditions = Some [], input_unit_cost = Some (Some zero_num),
         output_unit_cost = Some (Some zero_num), cache_mode = Some CACHE_MODE_GENERIC, costs = []\<rparr>]"

definition normalizeVisualConfig :: "VisualConfig option \<Rightarrow> VisualConfig" where
  "normalizeVisualConfig config =
     (case config of
        None \<Rightarrow> createDefaultVisualConfig
      | Some tiers \<Rightarrow> if tiers = [] then createDefaultVisualConfig else map normalizeVisualTier tiers)"

subsection \<open>The generated expression\<close>

definition var_text :: "CondVar \<Rightarrow> string" where
  "var_text v = (case v of VarP \<Rightarrow> ''p'' | VarC \<Rightarrow> ''c'' | VarLen \<Rightarrow> ''len'')"

definition op_text :: "CondOp \<Rightarrow> string" where
  "op_text p = (case p of OpLt \<Rightarrow> ''<'' | OpLe \<Rightarrow> ''<='' | OpGt \<Rightarrow> ''>'' | OpGe \<Rightarrow> ''>='')"

definition value_text :: "CondValue \<Rightarrow> string" where
  "value_text v = (case v of CNum (Some n) \<Rightarrow> show_num n | CNum None \<Rightarrow> ''NaN'' | CStr s \<Rightarrow> s)"

definition cond_text :: "TierConditionInput \<Rightarrow> string" where
  "cond_text c = var_text (cvar c) @ '' '' @ op_text (cop c) @ '' '' @ value_text (cval c)"

definition kept_cond :: "TierConditionInput \<Rightarrow> bool" where
  "kept_cond c \<longleftrightarrow> cval c \<noteq> CStr ''''"

definition buildConditionStr :: "TierConditionInput list option \<Rightarrow> string" where
  "buildConditionStr cs0 =
     (case cs0 of
        None \<Rightarrow> ''''
      | Some cs \<Rightarrow> join '' && '' (map cond_text (filter kept_cond cs)))"

definition cost_parts :: "VisualTier \<Rightarrow> (string \<times> num) list" where
  "cost_parts tier =
     filter (\<lambda>(v, n). n \<noteq> zero_num)
       (map (\<lambda>(f, v). (v, number_or_zero (case f of Some k \<Rightarrow> oget (costs tier) k | None \<Rightarrow> None))) BILLING_CACHE_VAR_MAP)"

definition part_text :: "string \<times> num \<Rightarrow> string" where
  "part_text p = fst p @ '' * '' @ show_num (snd p)"

definition buildTierBodyExpr :: "VisualTier \<Rightarrow> string" where
  "buildTierBodyExpr tier =
     join '' + '' (map part_text
       ([(''p'', number_or_zero (input_unit_cost tier)), (''c'', number_or_zero (output_unit_cost tier))] @ cost_parts tier))"

definition label_or :: "string \<Rightarrow> VisualTier \<Rightarrow> string" where
  "label_or d tier = (case tlabel tier of Some l \<Rightarrow> if l = '''' then d else l | None \<Rightarrow> d)"

definition tier_text :: "string \<Rightarrow> VisualTier \<Rightarrow> string" where
  "tier_text l tier = ''tier('' @ dquote # l @ dquote # '', '' @ buildTierBodyExpr tier @ '')''"

text \<open>The loop: \<open>n\<close> tiers, the one at position \<open>i\<close>.\<close>

definition tier_part :: "nat \<Rightarrow> nat \<Rightarrow> VisualTier \<Rightarrow> string" where
  "tier_part n i tier =
     (let body = tier_text (label_or (''tier_'' @ show_nat (i + 1)) tier) tier;
          cond = buildConditionStr (tconditions tier)
      in if i < n - 1 \<and> cond \<noteq> '''' then cond @ '' ? '' @ body else body)"

definition ZERO_EXPR :: string where
  "ZERO_EXPR = ''p * 0 + c * 0''"

definition generateExprFromVisualConfig :: "VisualConfig option \<Rightarrow> string" where
  "generateExprFromVisualConfig config =
     (case config of
        None \<Rightarrow> ZERO_EXPR
      | Some [] \<Rightarrow> ZERO_EXPR
      | Some [tier] \<Rightarrow>
          (let body = tier_text (label_or ''default'' tier) tier; cond = buildConditionStr (tconditions tier)
           in if cond \<noteq> '''' then cond @ '' ? '' @ body @ '' : '' @ ZERO_EXPR else body)
      | Some tiers \<Rightarrow> join '' : '' (map (\<lambda>(i, tier). tier_part (length tiers) i tier) (enumerate 0 tiers)))"

subsection \<open>Reading an expression\<close>

text \<open>
  \<open>Number\<close> of a run of digits, points, signs and exponent marks: a sign, digits with an optional fraction or a fraction
  alone, an exponent; any other run is NaN.
\<close>

definition js_Number :: "string \<Rightarrow> cost" where
  "js_Number s =
     (let (neg, s1) = opt_sign s;
          (ds, s2) = span_digits s1;
          (fs, s3) = (case strip_prefix ''.'' s2 of Some s' \<Rightarrow> span_digits s' | None \<Rightarrow> ([], s2))
      in if ds = [] \<and> fs = [] then None
         else (case parse_exp s3 of
                  Some (ex, []) \<Rightarrow>
                    (let m = int (read_nat (ds @ fs)) in Some (canon (if neg then - m else m) (ex - int (length fs))))
                | _ \<Rightarrow> None))"

text \<open>The class \<open>[\d.eE+]\<close> of the conditions has no minus sign.\<close>

definition cond_char :: "char \<Rightarrow> bool" where
  "cond_char c \<longleftrightarrow> num_char c \<and> c \<noteq> CHR ''-''"

text \<open>\<open>v\s*\*\s*([\d.eE+-]+)\<close>\<close>

definition rx_term :: "string \<Rightarrow> string rx" where
  "rx_term v =
     rx_bind (rx_lit v) (\<lambda>_. rx_bind rx_ws (\<lambda>_. rx_bind (rx_lit ''*'') (\<lambda>_. rx_bind rx_ws (\<lambda>_. rx_plus num_char))))"

text \<open>\<open>\s*\+\s*\<close> in front of a term.\<close>

definition rx_added :: "string \<Rightarrow> string rx" where
  "rx_added v = rx_bind rx_ws (\<lambda>_. rx_bind (rx_lit ''+'') (\<lambda>_. rx_bind rx_ws (\<lambda>_. rx_term v)))"

fun rx_costs :: "string list \<Rightarrow> string option list rx" where
  "rx_costs [] = rx_ret []"
| "rx_costs (v # vs) = rx_bind (rx_opt (rx_added v)) (\<lambda>x. rx_bind (rx_costs vs) (\<lambda>xs. rx_ret (x # xs)))"

definition cacheVarNames :: "string list" where
  "cacheVarNames = map snd BILLING_CACHE_VAR_MAP"

definition bodyPat :: "(string \<times> string \<times> string option list) rx" where
  "bodyPat =
     rx_bind (rx_term ''p'') (\<lambda>a. rx_bind (rx_added ''c'') (\<lambda>b. rx_bind (rx_costs cacheVarNames) (\<lambda>xs. rx_ret (a, b, xs))))"

definition no_dquote :: "char \<Rightarrow> bool" where
  "no_dquote c \<longleftrightarrow> c \<noteq> dquote"

text \<open>\<open>tier\("([^"]*)",\s*bodyPat\)\<close>\<close>

definition singleRe :: "(string \<times> string \<times> string \<times> string option list) rx" where
  "singleRe =
     rx_bind (rx_lit (''tier('' @ [dquote])) (\<lambda>_. rx_bind (rx_star no_dquote) (\<lambda>l.
       rx_bind (rx_lit (dquote # '','')) (\<lambda>_. rx_bind rx_ws (\<lambda>_. rx_bind bodyPat (\<lambda>b.
         rx_bind (rx_lit '')'') (\<lambda>_. rx_ret (l, b)))))))"

text \<open>\<open>(p|c|len)\s*(<|<=|>|>=)\s*([\d.eE+]+)\<close>\<close>

definition rx_cond :: "(string \<times> string \<times> string) rx" where
  "rx_cond =
     rx_bind (rx_words [''p'', ''c'', ''len'']) (\<lambda>v. rx_bind rx_ws (\<lambda>_.
       rx_bind (rx_words [''<'', ''<='', ''>'', ''>='']) (\<lambda>p. rx_bind rx_ws (\<lambda>_.
         rx_bind (rx_plus cond_char) (\<lambda>n. rx_ret (v, p, n))))))"

definition condGroup :: "string rx" where
  "condGroup =
     rx_text (rx_bind rx_cond (\<lambda>_. rx_many (rx_bind rx_ws (\<lambda>_. rx_bind (rx_lit ''&&'') (\<lambda>_. rx_bind rx_ws (\<lambda>_. rx_cond))))))"

definition tierRe :: "(string option \<times> string \<times> string \<times> string \<times> string option list) rx" where
  "tierRe =
     rx_bind (rx_opt (rx_bind condGroup (\<lambda>c. rx_bind rx_ws (\<lambda>_. rx_bind (rx_lit ''?'') (\<lambda>_. rx_bind rx_ws (\<lambda>_. rx_ret c)))))) (\<lambda>c.
       rx_bind singleRe (\<lambda>b. rx_ret (c, b)))"

text \<open>\<open>split(/\s*&&\s*/)\<close>\<close>

function split_and :: "string \<Rightarrow> string list" where
  "split_and s =
     (case strip_prefix ''&&'' (dropWhile is_ws s) of
        Some r \<Rightarrow> [] # split_and (dropWhile is_ws r)
      | None \<Rightarrow>
          (case s of
             [] \<Rightarrow> [[]]
           | c # t \<Rightarrow> (case split_and t of [] \<Rightarrow> [[c]] | w # ws \<Rightarrow> (c # w) # ws)))"
  by pat_completeness auto
termination
proof (relation "measure length")
  fix s r assume "strip_prefix ''&&'' (dropWhile is_ws s) = Some r"
  then have "dropWhile is_ws s = ''&&'' @ r" by (simp only: strip_prefix_Some)
  then have "length r < length (dropWhile is_ws s)" by simp
  also have "\<dots> \<le> length s" by (rule length_dropWhile_le)
  finally have "length r < length s" .
  then show "(dropWhile is_ws r, s) \<in> measure length" using length_dropWhile_le [of is_ws r] by simp
qed auto

declare split_and.simps [simp del]

definition read_var :: "string \<Rightarrow> CondVar" where
  "read_var s = (if s = ''p'' then VarP else if s = ''c'' then VarC else VarLen)"

definition read_op :: "string \<Rightarrow> CondOp" where
  "read_op s = (if s = ''<'' then OpLt else if s = ''<='' then OpLe else if s = ''>'' then OpGt else OpGe)"

definition read_conditions :: "string option \<Rightarrow> TierConditionInput list" where
  "read_conditions condStr =
     (case condStr of
        None \<Rightarrow> []
      | Some s \<Rightarrow>
          List.map_filter (\<lambda>cp. map_option (\<lambda>(v, p, n). \<lparr>cvar = read_var v, cop = read_op p, cval = CNum (js_Number n)\<rparr>) (rx_full rx_cond (trim cp)))
            (split_and s))"

definition read_costs :: "string option list \<Rightarrow> cost obj" where
  "read_costs xs =
     List.map_filter (\<lambda>((f, v), x). case (f, x) of (Some k, Some t) \<Rightarrow> Some (k, js_Number t) | _ \<Rightarrow> None)
       (zip BILLING_CACHE_VAR_MAP xs)"

definition read_tier :: "TierConditionInput list \<Rightarrow> string \<times> string \<times> string \<times> string option list \<Rightarrow> VisualTier" where
  "read_tier cs m =
     (case m of (l, a, b, xs) \<Rightarrow>
        normalizeVisualTier
          \<lparr>tlabel = Some l, tconditions = Some cs, input_unit_cost = Some (js_Number a), output_unit_cost = Some (js_Number b),
           cache_mode = None, costs = read_costs xs\<rparr>)"

definition no_ws :: "string \<Rightarrow> string" where
  "no_ws s = filter (\<lambda>c. \<not> is_ws c) s"

text \<open>\<open>/^v\d+:([\s\S]*)$/\<close>\<close>

definition drop_version :: "string \<Rightarrow> string" where
  "drop_version s =
     (case strip_prefix ''v'' s of
        None \<Rightarrow> s
      | Some r \<Rightarrow>
          (let (ds, q) = span_digits r
           in if ds = [] then s else (case strip_prefix '':'' q of Some body \<Rightarrow> body | None \<Rightarrow> s)))"

definition tryParseVisualConfig :: "string \<Rightarrow> VisualConfig option" where
  "tryParseVisualConfig exprStr =
     (if exprStr = '''' then None
      else (let body = drop_version exprStr in
        case rx_full singleRe body of
          Some m \<Rightarrow> Some (normalizeVisualConfig (Some [read_tier [] m]))
        | None \<Rightarrow>
            (let tiers = map (\<lambda>(c, m). read_tier (read_conditions c) m) (rx_all tierRe body)
             in if tiers = [] then None
                else (let cfg = normalizeVisualConfig (Some tiers)
                      in if no_ws (generateExprFromVisualConfig (Some cfg)) \<noteq> no_ws body then None else Some cfg))))"

end
