(* ===== verification/TierFacts.thy ===== *)
theory TierFacts
  imports TierExpr
begin

text \<open>
  The round trip between visual configurations and expressions: what the editor shows for an expression it has generated.
\<close>

subsection \<open>Numbers\<close>

lemma js_Number_json:
  assumes "parse_num s = Some (x, [])"
  shows "js_Number s = Some x"
proof -
  obtain neg s1 where m: "opt_minus s = (neg, s1)" by fastforce
  obtain ds s2 where d: "span_digits s1 = (ds, s2)" by fastforce
  from assms m d have ne: "ds \<noteq> []" by (auto simp: parse_num_def split: if_splits)
  then have d1: "s1 \<noteq> []" "is_digit (hd s1)" using d by (cases s1; auto simp: span_digits_def split: if_splits)+
  have sg: "opt_sign s = (neg, s1)"
  proof (cases s)
    case (Cons c t)
    then show ?thesis using m d1 by (auto simp: opt_sign_def opt_minus_def is_digit_def)
  qed (use m d1 in \<open>simp add: opt_minus_def\<close>)
  from assms m d ne obtain fs s3 ex where f: "parse_frac s2 = Some (fs, s3)" and e: "parse_exp s3 = Some (ex, [])"
    and x: "x = canon (if neg then - int (read_nat (ds @ fs)) else int (read_nat (ds @ fs))) (ex - int (length fs))"
    by (cases neg) (auto simp: parse_num_def Let_def bind_eq_Some_conv split: if_splits)
  have "(case strip_prefix ''.'' s2 of Some s' \<Rightarrow> span_digits s' | None \<Rightarrow> ([], s2)) = (fs, s3)"
    using f by (auto simp: parse_frac_def split: option.splits prod.splits if_splits)
  with sg d ne e x show ?thesis by (simp add: js_Number_def Let_def)
qed

lemma js_Number_show [simp]: "wf_num x \<Longrightarrow> js_Number (show_num x) = Some x"
  using parse_show_num [of x "[]"] by (intro js_Number_json) (simp add: num_end_def)

lemma show_nat_num_char: "c \<in> set (show_nat n) \<Longrightarrow> num_char c"
  by (auto simp: num_char_def dest: show_nat_digits)

lemma num_chars_sub: "\<forall>c \<in> set ds. num_char c \<Longrightarrow> \<forall>c \<in> set (take n ds). num_char c" "\<forall>c \<in> set ds. num_char c \<Longrightarrow> \<forall>c \<in> set (drop n ds). num_char c"
  by (auto dest: in_set_takeD in_set_dropD)

lemma num_char_signs [simp]: "num_char CHR ''.''" "num_char CHR ''e''" "num_char CHR ''+''" "num_char CHR ''-''" "num_char CHR ''0''"
  by (auto simp: num_char_def is_digit_0)

lemma show_num_chars: "c \<in> set (show_num x) \<Longrightarrow> num_char c"
proof -
  define ds where "ds = show_nat (nat \<bar>mant x\<bar>)"
  have ds: "\<forall>c \<in> set ds. num_char c" by (auto simp: ds_def show_nat_num_char)
  have ex: "\<forall>c \<in> set (show_nat n). num_char c" for n by (auto simp: show_nat_num_char)
  note sub = num_chars_sub(1) [OF ds] num_chars_sub(2) [OF ds]
  have "\<forall>c \<in> set (show_num x). num_char c"
    unfolding show_num_def ds_def [symmetric] Let_def by (simp add: ds ex sub ball_Un)
  then show "c \<in> set (show_num x) \<Longrightarrow> num_char c" by blast
qed

lemma show_num_nonempty [simp]: "show_num x \<noteq> []"
  by (auto simp: show_num_def Let_def)

lemma num_char_plain: "num_char c \<Longrightarrow> \<not> is_ws c \<and> no_dquote c \<and> c \<noteq> CHR ''&''"
  by (auto simp: num_char_def is_digit_def is_ws_def no_dquote_def)

lemma num_char_spaces [simp]: "\<not> num_char CHR '' ''" "\<not> num_char CHR '')''" "\<not> cond_char CHR '' ''"
  by (auto simp: num_char_def is_digit_def cond_char_def)

lemma ws_marks [simp]: "is_ws CHR '' ''" "\<not> is_ws CHR ''*''" "\<not> is_ws CHR ''+''" "\<not> is_ws CHR ''p''" "\<not> is_ws CHR ''c''"
  "\<not> is_ws CHR ''l''" "\<not> is_ws CHR ''?''" "\<not> is_ws CHR ''&''" "\<not> is_ws CHR '':''" "\<not> is_ws CHR ''t''" "\<not> is_ws CHR '')''" "\<not> is_ws CHR ''<''"
  "\<not> is_ws CHR ''>''" "\<not> is_ws dquote" "\<not> is_ws CHR '',''"
  by (auto simp: is_ws_def)

subsection \<open>Terms and bodies\<close>

lemma first_ws: "s = [] \<or> \<not> is_ws (hd s) \<Longrightarrow> first_way rx_ws (CHR '' '' # s) '' '' s"
  using star_append [of "'' ''" is_ws s] by simp

lemma first_ws_none: "s = [] \<or> \<not> is_ws (hd s) \<Longrightarrow> first_way rx_ws s '''' s"
  using star_append [of "''''" is_ws s] by simp

lemma show_num_hd_ws: "\<not> is_ws (hd (show_num x @ r))"
  using show_num_chars [of "hd (show_num x)" x] num_char_plain by (simp add: hd_append)

definition ends :: "string \<Rightarrow> bool" where
  "ends r \<longleftrightarrow> r = [] \<or> \<not> num_char (hd r)"

lemma first_term: "ends r \<Longrightarrow> first_way (rx_term v) (v @ '' * '' @ show_num x @ r) (show_num x) r"
proof -
  assume r: "ends r"
  have n: "first_way (rx_plus num_char) (show_num x @ r) (show_num x) r"
    using r by (intro plus_append) (auto simp: ends_def show_num_chars)
  have w: "first_way rx_ws (CHR '' '' # show_num x @ r) '' '' (show_num x @ r)"
    by (rule first_ws) (simp only: show_num_hd_ws simp_thms)
  have s: "first_way (rx_lit ''*'') (CHR ''*'' # CHR '' '' # show_num x @ r) ''*'' (CHR '' '' # show_num x @ r)"
    using first_lit [of "''*''"] by simp
  have w0: "first_way rx_ws (CHR '' '' # CHR ''*'' # CHR '' '' # show_num x @ r) '' '' (CHR ''*'' # CHR '' '' # show_num x @ r)"
    by (rule first_ws) simp
  have v: "first_way (rx_lit v) (v @ '' * '' @ show_num x @ r) v (CHR '' '' # CHR ''*'' # CHR '' '' # show_num x @ r)"
    using first_lit [of v "CHR '' '' # CHR ''*'' # CHR '' '' # show_num x @ r"] by simp
  show ?thesis unfolding rx_term_def by (rule first_bind [OF v first_bind [OF w0 first_bind [OF s first_bind [OF w n]]]])
qed

lemma first_added:
  assumes "first_way (rx_term v) s x r" "s \<noteq> []" "\<not> is_ws (hd s)"
  shows "first_way (rx_added v) ('' + '' @ s) x r"
proof -
  have 1: "first_way rx_ws ('' + '' @ s) '' '' (CHR ''+'' # CHR '' '' # s)" using first_ws [of "CHR ''+'' # CHR '' '' # s"] by simp
  have 2: "first_way (rx_lit ''+'') (CHR ''+'' # CHR '' '' # s) ''+'' (CHR '' '' # s)" using first_lit [of "''+''"] by simp
  have 3: "first_way rx_ws (CHR '' '' # s) '' '' s" using assms(3) by (intro first_ws) simp
  show ?thesis unfolding rx_added_def by (rule first_bind [OF 1 first_bind [OF 2 first_bind [OF 3 assms(1)]]])
qed

lemma lit_skip: "strip_prefix w s = None \<Longrightarrow> rx_lit w s = []"
  by (simp add: rx_lit_def)

lemma no_added:
  assumes "no_way (rx_term v) s" "v \<noteq> []" "hd v \<noteq> CHR '' ''" "s \<noteq> []" "\<not> is_ws (hd s)"
  shows "no_way (rx_added v) ('' + '' @ s)"
proof -
  have t: "rx_term v (CHR '' '' # s) = []" using assms(2,3) by (cases v) (auto simp: rx_term_def rx_bind_def rx_lit_def)
  have s1: "rx_ws (CHR '' '' # s) = [('' '', s), ([], CHR '' '' # s)]" using assms(5) by (intro ws_space) simp
  have s2: "rx_ws (CHR '' '' # CHR ''+'' # CHR '' '' # s) = [('' '', CHR ''+'' # CHR '' '' # s), ([], CHR '' '' # CHR ''+'' # CHR '' '' # s)]"
    by (intro ws_space) simp
  show ?thesis using assms(1) by (simp add: no_way_def rx_added_def rx_bind_def s2 s1 t rx_lit_def del: rx_star.simps)
qed

lemma no_added_paren: "no_way (rx_added v) (CHR '')'' # r)"
  by (simp add: no_way_def rx_added_def rx_bind_def rx_lit_def)

text \<open>The variables can be told apart.\<close>

fun apart :: "string list \<Rightarrow> bool" where
  "apart [] \<longleftrightarrow> True"
| "apart (v # vs) \<longleftrightarrow> v \<noteq> [] \<and> hd v \<noteq> CHR '' '' \<and> \<not> is_ws (hd v) \<and>
     (\<forall>w \<in> set vs. \<forall>s. no_way (rx_term v) (w @ CHR '' '' # s)) \<and> apart vs"

lemma apart_vars: "apart cacheVarNames"
  by (simp add: cacheVarNames_def BILLING_CACHE_VAR_MAP_def BILLING_EXTRA_VARS_def BILLING_VARS_def is_ws_def
      no_way_def rx_term_def rx_bind_def rx_lit_def)

text \<open>The costs of a tier as they are written behind input and output.\<close>

definition cost_text :: "(string \<times> num) list \<Rightarrow> string" where
  "cost_text ps = concat (map (\<lambda>p. '' + '' @ part_text p) (filter (\<lambda>(v, n). n \<noteq> zero_num) ps))"

lemma cost_text_simps [simp]:
  "cost_text [] = []"
  "cost_text (p # ps) = (if snd p = zero_num then cost_text ps else '' + '' @ part_text p @ cost_text ps)"
  by (auto simp: cost_text_def)

lemma cost_text_starts: "cost_text ps @ CHR '')'' # r \<noteq> [] \<and> hd (cost_text ps @ CHR '')'' # r) \<in> {CHR '' '', CHR '')''}"
  by (induction ps) auto

lemma cost_text_ends [simp]: "ends (cost_text ps @ CHR '')'' # r)"
  using cost_text_starts [of ps r] by (auto simp: ends_def)

lemma no_added_costs:
  assumes "v \<noteq> []" "hd v \<noteq> CHR '' ''" "\<forall>w \<in> fst ` set ps. (\<forall>s. no_way (rx_term v) (w @ CHR '' '' # s)) \<and> w \<noteq> [] \<and> \<not> is_ws (hd w)"
  shows "no_way (rx_added v) (cost_text ps @ CHR '')'' # r)"
  using assms(3)
proof (induction ps)
  case Nil
  then show ?case by (simp add: no_added_paren)
next
  case (Cons p ps)
  show ?case
  proof (cases "snd p = zero_num")
    case True
    then show ?thesis using Cons by simp
  next
    case False
    have w: "\<forall>s. no_way (rx_term v) (fst p @ CHR '' '' # s)" "fst p \<noteq> []" "\<not> is_ws (hd (fst p))" using Cons.prems by auto
    have n: "no_way (rx_term v) (part_text p @ cost_text ps @ CHR '')'' # r)" using w(1) by (simp add: part_text_def)
    show ?thesis using False no_added [OF n assms(1,2)] w(2,3) by (simp add: part_text_def)
  qed
qed

lemma first_costs:
  assumes "apart (map fst ps)"
  shows "first_way (rx_costs (map fst ps)) (cost_text ps @ CHR '')'' # r)
           (map (\<lambda>(v, n). if n = zero_num then None else Some (show_num n)) ps) (CHR '')'' # r)"
  using assms
proof (induction ps)
  case Nil
  then show ?case by (simp add: first_ret)
next
  case (Cons p ps)
  obtain v n where p: "p = (v, n)" by fastforce
  have a: "v \<noteq> []" "hd v \<noteq> CHR '' ''" "\<not> is_ws (hd v)" "\<forall>w \<in> fst ` set ps. \<forall>s. no_way (rx_term v) (w @ CHR '' '' # s)" "apart (map fst ps)"
    using Cons.prems p by auto
  have ne: "\<forall>w \<in> fst ` set ps. w \<noteq> [] \<and> \<not> is_ws (hd w)" using a(5) by (induction ps) auto
  note rest = first_bind [OF Cons.IH [OF a(5)] first_ret]
  show ?case
  proof (cases "n = zero_num")
    case True
    have "no_way (rx_added v) (cost_text ps @ CHR '')'' # r)" using a ne by (intro no_added_costs) auto
    from first_bind [OF first_opt_none [OF this] rest] True p show ?thesis by simp
  next
    case False
    have h: "part_text p @ cost_text ps @ CHR '')'' # r = v @ '' * '' @ show_num n @ cost_text ps @ CHR '')'' # r"
      by (simp add: part_text_def p)
    have "first_way (rx_added v) ('' + '' @ part_text p @ cost_text ps @ CHR '')'' # r) (show_num n) (cost_text ps @ CHR '')'' # r)"
      unfolding h using a by (intro first_added first_term) auto
    from first_bind [OF first_opt [OF this] rest] False p show ?thesis by simp
  qed
qed

lemma join_Cons_concat: "join sep (x # xs) = x @ concat (map (\<lambda>y. sep @ y) xs)"
  by (induction xs arbitrary: x) simp_all

definition tier_costs :: "VisualTier \<Rightarrow> (string \<times> num) list" where
  "tier_costs t = map (\<lambda>(f, v). (v, number_or_zero (case f of Some k \<Rightarrow> oget (costs t) k | None \<Rightarrow> None))) BILLING_CACHE_VAR_MAP"

lemma tier_cost_names [simp]: "map fst (tier_costs t) = cacheVarNames"
  by (auto simp: tier_costs_def cacheVarNames_def)

lemma body_text:
  "buildTierBodyExpr t = ''p * '' @ show_num (number_or_zero (input_unit_cost t)) @ '' + '' @ ''c * '' @ show_num (number_or_zero (output_unit_cost t))
     @ cost_text (tier_costs t)"
  by (simp add: buildTierBodyExpr_def join_Cons_concat cost_parts_def tier_costs_def [symmetric] cost_text_def part_text_def comp_def)

definition read_back_costs :: "VisualTier \<Rightarrow> string option list" where
  "read_back_costs t = map (\<lambda>(v, n). if n = zero_num then None else Some (show_num n)) (tier_costs t)"

lemma first_body:
  "first_way bodyPat (buildTierBodyExpr t @ CHR '')'' # r)
     (show_num (number_or_zero (input_unit_cost t)), show_num (number_or_zero (output_unit_cost t)), read_back_costs t) (CHR '')'' # r)"
proof -
  define a b where "a = number_or_zero (input_unit_cost t)" and "b = number_or_zero (output_unit_cost t)"
  define rest where "rest = cost_text (tier_costs t) @ CHR '')'' # r"
  have h: "buildTierBodyExpr t @ CHR '')'' # r = ''p'' @ '' * '' @ show_num a @ '' + '' @ ''c'' @ '' * '' @ show_num b @ rest"
    by (simp add: body_text a_def b_def rest_def)
  have 1: "first_way (rx_term ''p'') (''p'' @ '' * '' @ show_num a @ '' + '' @ ''c'' @ '' * '' @ show_num b @ rest) (show_num a)
     ('' + '' @ ''c'' @ '' * '' @ show_num b @ rest)"
    by (rule first_term) (simp add: ends_def)
  have 2: "first_way (rx_added ''c'') ('' + '' @ ''c'' @ '' * '' @ show_num b @ rest) (show_num b) rest"
    by (rule first_added [OF first_term]) (simp_all add: rest_def)
  have 3: "first_way (rx_costs cacheVarNames) rest (read_back_costs t) (CHR '')'' # r)"
    using first_costs [of "tier_costs t" r] apart_vars by (simp add: rest_def read_back_costs_def)
  show ?thesis unfolding h bodyPat_def a_def [symmetric] b_def [symmetric]
    by (rule first_bind [OF 1 first_bind [OF 2 first_bind [OF 3 first_ret]]])
qed

definition tier_match :: "string \<Rightarrow> VisualTier \<Rightarrow> string \<times> string \<times> string \<times> string option list" where
  "tier_match l t = (l, show_num (number_or_zero (input_unit_cost t)), show_num (number_or_zero (output_unit_cost t)), read_back_costs t)"

lemma first_single:
  assumes "dquote \<notin> set l"
  shows "first_way singleRe (tier_text l t @ r) (tier_match l t) r"
proof -
  define body where "body = buildTierBodyExpr t @ CHR '')'' # r"
  have h: "tier_text l t @ r = (''tier('' @ [dquote]) @ l @ (dquote # '','') @ CHR '' '' # body"
    by (simp add: tier_text_def body_def)
  have 1: "first_way (rx_lit (''tier('' @ [dquote])) ((''tier('' @ [dquote]) @ l @ (dquote # '','') @ CHR '' '' # body)
      (''tier('' @ [dquote]) (l @ (dquote # '','') @ CHR '' '' # body)" by (rule first_lit)
  have 2: "first_way (rx_star no_dquote) (l @ (dquote # '','') @ CHR '' '' # body) l ((dquote # '','') @ CHR '' '' # body)"
    using assms by (intro star_append) (auto simp: no_dquote_def)
  have 3: "first_way (rx_lit (dquote # '','')) ((dquote # '','') @ CHR '' '' # body) (dquote # '','') (CHR '' '' # body)" by (rule first_lit)
  have 4: "first_way rx_ws (CHR '' '' # body) '' '' body" by (rule first_ws) (simp add: body_def body_text)
  have 5: "first_way bodyPat body (show_num (number_or_zero (input_unit_cost t)), show_num (number_or_zero (output_unit_cost t)), read_back_costs t) (CHR '')'' # r)"
    unfolding body_def by (rule first_body)
  have 6: "first_way (rx_lit '')'') (CHR '')'' # r) '')'' r" using first_lit [of "'')''" r] by simp
  show ?thesis unfolding h singleRe_def tier_match_def
    by (rule first_bind, rule 1, rule first_bind, rule 2, rule first_bind, rule 3, rule first_bind, rule 4, rule first_bind, rule 5,
        rule first_bind, rule 6, rule first_ret)
qed

subsection \<open>Conditions\<close>

text \<open>A condition whose value is written as a number without a minus sign (at least \<open>1e-6\<close>, or zero).\<close>

definition ok_value :: "CondValue \<Rightarrow> bool" where
  "ok_value v \<longleftrightarrow> value_text v \<noteq> [] \<and> (\<forall>c \<in> set (value_text v). cond_char c)"

lemma cond_char_not: "cond_char c \<Longrightarrow> \<not> is_ws c \<and> c \<noteq> CHR ''&'' \<and> c \<noteq> CHR ''=''"
  using num_char_plain [of c] by (auto simp: cond_char_def num_char_def is_digit_def)

definition cond_match :: "TierConditionInput \<Rightarrow> string \<times> string \<times> string" where
  "cond_match c = (var_text (cvar c), op_text (cop c), value_text (cval c))"

lemma words_var: "rx_words [''p'', ''c'', ''len''] (var_text v @ CHR '' '' # s) = [(var_text v, CHR '' '' # s)]"
  by (cases v) (simp_all add: rx_words_def rx_lit_def var_text_def)

lemma first_op:
  assumes "\<And>q s'. q # s' = CHR ''='' # CHR '' '' # s \<Longrightarrow> no_way (f (if p = OpLe then ''<'' else ''>'')) (q # s')"
    and "first_way (f (op_text p)) (CHR '' '' # s) y r"
  shows "first_way (rx_bind (rx_words [''<'', ''<='', ''>'', ''>='']) f) (op_text p @ CHR '' '' # s) y r"
proof (cases p)
  case OpLt
  then show ?thesis using assms(2) by (intro first_bind_skip [where skipped = "[]" and ws = "[]"]) (auto simp: rx_words_def rx_lit_def op_text_def)
next
  case OpLe
  then show ?thesis using assms
    by (intro first_bind_skip [where skipped = "[(''<'', CHR ''='' # CHR '' '' # s)]" and ws = "[]" and x = "''<=''" and r = "CHR '' '' # s"])
      (auto simp: rx_words_def rx_lit_def op_text_def)
next
  case OpGt
  then show ?thesis using assms(2) by (intro first_bind_skip [where skipped = "[]" and ws = "[]"]) (auto simp: rx_words_def rx_lit_def op_text_def)
next
  case OpGe
  then show ?thesis using assms
    by (intro first_bind_skip [where skipped = "[(''>'', CHR ''='' # CHR '' '' # s)]" and ws = "[]" and x = "''>=''" and r = "CHR '' '' # s"])
      (auto simp: rx_words_def rx_lit_def op_text_def)
qed

lemma first_cond:
  assumes ok: "ok_value (cval c)" and r: "r = [] \<or> \<not> cond_char (hd r)"
  shows "first_way rx_cond (cond_text c @ r) (cond_match c) r"
proof -
  define t where "t = value_text (cval c) @ r"
  have t: "t \<noteq> []" "\<not> is_ws (hd t)" "cond_char (hd t)"
    using ok cond_char_not by (auto simp: ok_value_def t_def hd_append)
  have h: "cond_text c @ r = var_text (cvar c) @ CHR '' '' # op_text (cop c) @ CHR '' '' # t" by (simp add: cond_text_def t_def)
  have 1: "first_way (rx_words [''p'', ''c'', ''len'']) (var_text (cvar c) @ CHR '' '' # op_text (cop c) @ CHR '' '' # t)
     (var_text (cvar c)) (CHR '' '' # op_text (cop c) @ CHR '' '' # t)" by (simp only: words_var first_way_def) blast
  have 2: "first_way rx_ws (CHR '' '' # op_text (cop c) @ CHR '' '' # t) '' '' (op_text (cop c) @ CHR '' '' # t)"
    by (rule first_ws) (cases "cop c"; simp add: op_text_def)
  have 3: "first_way rx_ws (CHR '' '' # t) '' '' t" using t by (intro first_ws) simp
  have 4: "first_way (rx_plus cond_char) t (value_text (cval c)) r"
    unfolding t_def using ok r by (intro plus_append) (auto simp: ok_value_def)
  have tail: "first_way (rx_bind rx_ws (\<lambda>_. rx_bind (rx_plus cond_char) (\<lambda>n. rx_ret (v, p, n)))) (CHR '' '' # t) (v, p, value_text (cval c)) r"
    for v p :: string
    by (rule first_bind, rule 3, rule first_bind, rule 4, rule first_ret)
  have no: "no_way (rx_bind rx_ws (\<lambda>_. rx_bind (rx_plus cond_char) (\<lambda>n. rx_ret (v, p, n)))) (CHR ''='' # q)" for v p :: string and q
  proof -
    have "\<not> cond_char CHR ''=''" by (auto simp: cond_char_def num_char_def is_digit_def)
    then show ?thesis by (simp add: no_way_def rx_bind_def star_here is_ws_def rx_plus_def)
  qed
  have 5: "first_way (rx_bind (rx_words [''<'', ''<='', ''>'', ''>='']) (\<lambda>p. rx_bind rx_ws (\<lambda>_.
         rx_bind (rx_plus cond_char) (\<lambda>n. rx_ret (var_text (cvar c), p, n))))) (op_text (cop c) @ CHR '' '' # t)
     (cond_match c) r"
    unfolding cond_match_def by (rule first_op) (simp_all add: no tail)
  show ?thesis unfolding h rx_cond_def by (rule first_bind, rule 1, rule first_bind, rule 2, rule 5)
qed

definition conds_text :: "TierConditionInput list \<Rightarrow> string" where
  "conds_text cs = join '' && '' (map cond_text cs)"

definition more_conds :: "TierConditionInput list \<Rightarrow> string" where
  "more_conds cs = concat (map (\<lambda>c. '' && '' @ cond_text c) cs)"

lemma conds_text_Cons: "conds_text (c # cs) = cond_text c @ more_conds cs"
  by (simp add: conds_text_def more_conds_def join_Cons_concat comp_def)

definition and_cond :: "(string \<times> string \<times> string) rx" where
  "and_cond = rx_bind rx_ws (\<lambda>_. rx_bind (rx_lit ''&&'') (\<lambda>_. rx_bind rx_ws (\<lambda>_. rx_cond)))"

lemma first_and_cond:
  assumes "ok_value (cval c)" "r = [] \<or> \<not> cond_char (hd r)"
  shows "first_way and_cond ('' && '' @ cond_text c @ r) (cond_match c) r"
proof -
  define t where "t = cond_text c @ r"
  have ne: "t \<noteq> []" "\<not> is_ws (hd t)" by (cases "cvar c"; simp add: t_def cond_text_def var_text_def)+
  have 1: "first_way rx_ws ('' && '' @ t) '' '' (''&& '' @ t)" using first_ws [of "''&& '' @ t"] by simp
  have 2: "first_way (rx_lit ''&&'') (''&& '' @ t) ''&&'' (CHR '' '' # t)" using first_lit [of "''&&''" "CHR '' '' # t"] by simp
  have 3: "first_way rx_ws (CHR '' '' # t) '' '' t" using ne by (intro first_ws) simp
  show ?thesis unfolding and_cond_def t_def [symmetric]
    by (rule first_bind, rule 1, rule first_bind, rule 2, rule first_bind, rule 3, unfold t_def, rule first_cond [OF assms])
qed

lemma no_and_question: "no_way and_cond ('' ? '' @ r)"
  by (simp add: no_way_def and_cond_def rx_bind_def rx_lit_def star_here)

lemma more_conds_hd: "hd (more_conds cs @ '' ? '' @ r) = CHR '' ''"
  by (cases cs) (simp_all add: more_conds_def)

lemma first_many_conds:
  "\<forall>c \<in> set cs. ok_value (cval c) \<Longrightarrow> first_way (rx_many and_cond) (more_conds cs @ '' ? '' @ r) (map cond_match cs) ('' ? '' @ r)"
proof (induction cs)
  case Nil
  then show ?case using first_many_end [OF no_and_question] by (simp add: more_conds_def)
next
  case (Cons c cs)
  have h: "more_conds (c # cs) @ '' ? '' @ r = '' && '' @ cond_text c @ more_conds cs @ '' ? '' @ r" by (simp add: more_conds_def)
  have 1: "first_way and_cond ('' && '' @ cond_text c @ more_conds cs @ '' ? '' @ r) (cond_match c) (more_conds cs @ '' ? '' @ r)"
    using Cons.prems more_conds_hd [of cs r] by (intro first_and_cond) auto
  have 2: "first_way (rx_many and_cond) (more_conds cs @ '' ? '' @ r) (map cond_match cs) ('' ? '' @ r)" using Cons by simp
  show ?case unfolding h list.map by (rule first_many [OF 1 _ 2]) simp
qed

definition cond_prefix :: "string rx" where
  "cond_prefix = rx_bind condGroup (\<lambda>c. rx_bind rx_ws (\<lambda>_. rx_bind (rx_lit ''?'') (\<lambda>_. rx_bind rx_ws (\<lambda>_. rx_ret c))))"

lemma first_cond_prefix:
  assumes "cs \<noteq> []" "\<forall>c \<in> set cs. ok_value (cval c)" "r = [] \<or> \<not> is_ws (hd r)"
  shows "first_way cond_prefix (conds_text cs @ '' ? '' @ r) (conds_text cs) r"
proof -
  obtain c ds where cs: "cs = c # ds" using assms(1) by (cases cs) auto
  have h: "conds_text cs @ '' ? '' @ r = cond_text c @ more_conds ds @ '' ? '' @ r" by (simp add: cs conds_text_Cons)
  have 1: "first_way rx_cond (cond_text c @ more_conds ds @ '' ? '' @ r) (cond_match c) (more_conds ds @ '' ? '' @ r)"
    using assms(2) more_conds_hd [of ds r] by (intro first_cond) (auto simp: cs)
  have 2: "first_way (rx_many and_cond) (more_conds ds @ '' ? '' @ r) (map cond_match ds) ('' ? '' @ r)"
    using assms(2) by (intro first_many_conds) (simp add: cs)
  have g: "first_way condGroup (conds_text cs @ '' ? '' @ r) (conds_text cs) ('' ? '' @ r)"
    unfolding condGroup_def and_cond_def [symmetric]
    by (rule first_text, unfold h, rule first_bind, rule 1, rule 2)
  have 3: "first_way rx_ws ('' ? '' @ r) '' '' (''? '' @ r)" using first_ws [of "''? '' @ r"] by simp
  have 4: "first_way (rx_lit ''?'') (''? '' @ r) ''?'' (CHR '' '' # r)" using first_lit [of "''?''" "CHR '' '' # r"] by simp
  have 5: "first_way rx_ws (CHR '' '' # r) '' '' r" using assms(3) by (rule first_ws)
  show ?thesis unfolding cond_prefix_def
    by (rule first_bind, rule g, rule first_bind, rule 3, rule first_bind, rule 4, rule first_bind, rule 5, rule first_ret)
qed

lemma tier_text_hd: "tier_text l t @ r = CHR ''t'' # tl (tier_text l t) @ r"
  by (simp add: tier_text_def)

lemma no_cond_prefix_t: "no_way cond_prefix (CHR ''t'' # r)"
  unfolding cond_prefix_def condGroup_def
  by (intro no_bind_none no_text) (simp add: no_way_def rx_cond_def rx_bind_def rx_words_def rx_lit_def)

text \<open>A tier with the conditions in front of it.\<close>

definition guarded_tier_text :: "TierConditionInput list \<Rightarrow> string \<Rightarrow> VisualTier \<Rightarrow> string" where
  "guarded_tier_text cs l t = (if cs = [] then '''' else conds_text cs @ '' ? '') @ tier_text l t"

definition guarded_match :: "TierConditionInput list \<Rightarrow> string \<Rightarrow> VisualTier \<Rightarrow>
    string option \<times> string \<times> string \<times> string \<times> string option list" where
  "guarded_match cs l t = (if cs = [] then None else Some (conds_text cs), tier_match l t)"

lemma first_tier:
  assumes "\<forall>c \<in> set cs. ok_value (cval c)" "dquote \<notin> set l"
  shows "first_way tierRe (guarded_tier_text cs l t @ r) (guarded_match cs l t) r"
proof (cases "cs = []")
  case True
  have 1: "first_way (rx_opt cond_prefix) (tier_text l t @ r) None (tier_text l t @ r)"
    unfolding tier_text_hd by (rule first_opt_none [OF no_cond_prefix_t])
  show ?thesis using True unfolding tierRe_def cond_prefix_def [symmetric] guarded_tier_text_def guarded_match_def
    by (simp, intro first_bind [OF 1] first_bind [OF first_single [OF assms(2)]] first_ret)
next
  case False
  have 1: "first_way cond_prefix (conds_text cs @ '' ? '' @ tier_text l t @ r) (conds_text cs) (tier_text l t @ r)"
    using False assms(1) by (intro first_cond_prefix) (simp_all add: tier_text_def)
  have h: "guarded_tier_text cs l t @ r = conds_text cs @ '' ? '' @ tier_text l t @ r" using False by (simp add: guarded_tier_text_def)
  show ?thesis unfolding h tierRe_def cond_prefix_def [symmetric] guarded_match_def using False
    by (simp only: if_False, intro first_bind [OF first_opt [OF 1]] first_bind [OF first_single [OF assms(2)]] first_ret)
qed

subsection \<open>All tiers of an expression\<close>

lemma no_tier_at: "c \<notin> {CHR ''p'', CHR ''c'', CHR ''l'', CHR ''t''} \<Longrightarrow> no_way tierRe (c # s)"
proof -
  assume c: "c \<notin> {CHR ''p'', CHR ''c'', CHR ''l'', CHR ''t''}"
  have "no_way rx_cond (c # s)" unfolding rx_cond_def
    by (rule no_bind_none) (use c in \<open>auto simp: no_way_def rx_words_def rx_lit_def\<close>)
  then have "no_way cond_prefix (c # s)" unfolding cond_prefix_def condGroup_def by (intro no_bind_none no_text)
  moreover have "no_way singleRe (c # s)" unfolding singleRe_def
    by (intro no_bind_none no_lit) (use c in auto)
  ultimately show ?thesis
    by (simp add: tierRe_def cond_prefix_def [symmetric] no_way_def rx_bind_def rx_opt_def)
qed

lemma all_after_colon:
  assumes "first_way tierRe s x r" "length r < length s"
  shows "rx_all tierRe ('' : '' @ s) = rx_all tierRe s"
proof -
  have e: "rx_exec tierRe s = Some (x, r)" by (rule exec_here [OF assms(1)])
  have e1: "rx_exec tierRe (CHR '' '' # s) = Some (x, r)" using exec_skip [OF no_tier_at] e by simp
  have e2: "rx_exec tierRe (CHR '':'' # CHR '' '' # s) = Some (x, r)" using exec_skip [OF no_tier_at [of "CHR '':''"]] e1 by simp
  have 1: "rx_all tierRe (CHR '' '' # s) = rx_all tierRe s" using e assms(2) by (intro all_skip no_tier_at) auto
  have 2: "rx_all tierRe (CHR '':'' # CHR '' '' # s) = rx_all tierRe (CHR '' '' # s)"
    using e1 assms(2) by (intro all_skip no_tier_at) (simp_all del: rx_exec.simps)
  have 3: "rx_all tierRe (CHR '' '' # CHR '':'' # CHR '' '' # s) = rx_all tierRe (CHR '':'' # CHR '' '' # s)"
    using e2 assms(2) by (intro all_skip no_tier_at) (simp_all del: rx_exec.simps)
  show ?thesis using 1 2 3 by simp
qed

definition ok_part :: "TierConditionInput list \<times> string \<times> VisualTier \<Rightarrow> bool" where
  "ok_part p \<longleftrightarrow> (\<forall>c \<in> set (fst p). ok_value (cval c)) \<and> dquote \<notin> set (fst (snd p))"

definition part_expr :: "TierConditionInput list \<times> string \<times> VisualTier \<Rightarrow> string" where
  "part_expr p = guarded_tier_text (fst p) (fst (snd p)) (snd (snd p))"

definition part_match :: "TierConditionInput list \<times> string \<times> VisualTier \<Rightarrow> string option \<times> string \<times> string \<times> string \<times> string option list" where
  "part_match p = guarded_match (fst p) (fst (snd p)) (snd (snd p))"

lemma first_part: "ok_part p \<Longrightarrow> first_way tierRe (part_expr p @ r) (part_match p) r \<and> length r < length (part_expr p @ r)"
  using first_tier by (simp add: ok_part_def part_expr_def part_match_def guarded_tier_text_def tier_text_def)

lemma all_parts:
  assumes "\<forall>p \<in> set (p # ps). ok_part p" "rx_all tierRe z = []"
  shows "rx_all tierRe (part_expr p @ concat (map (\<lambda>q. '' : '' @ part_expr q) ps) @ z) = map part_match (p # ps)"
  using assms(1)
proof (induction ps arbitrary: p)
  case Nil
  then show ?case using all_step [of tierRe "part_expr p @ z" "part_match p" z] first_part [of p z] assms(2) by simp
next
  case (Cons q ps)
  define w where "w = part_expr q @ concat (map (\<lambda>q. '' : '' @ part_expr q) ps) @ z"
  have IH: "rx_all tierRe w = map part_match (q # ps)" unfolding w_def using Cons by simp
  obtain f: "first_way tierRe w (part_match q) (concat (map (\<lambda>q. '' : '' @ part_expr q) ps) @ z)"
    and l: "length (concat (map (\<lambda>q. '' : '' @ part_expr q) ps) @ z) < length w"
    using first_part [of q] Cons.prems unfolding w_def by (metis list.set_intros(1,2))
  have "rx_all tierRe (part_expr p @ '' : '' @ w) = part_match p # rx_all tierRe ('' : '' @ w)"
    using first_part [of p "'' : '' @ w"] Cons.prems by (intro all_step) auto
  also have "rx_all tierRe ('' : '' @ w) = rx_all tierRe w" by (rule all_after_colon [OF f l])
  finally show ?case using IH by (simp add: w_def)
qed

lemma all_tail: "rx_all tierRe [] = []" "rx_all tierRe ('' : '' @ ZERO_EXPR) = []"
  by (rule all_none, code_simp)+

subsection \<open>Conditions read back\<close>

lemma split_and_text:
  assumes "\<forall>c \<in> set w. c \<noteq> CHR ''&''" "w \<noteq> []" "\<not> is_ws (last w)"
  shows "split_and (w @ '' && '' @ s) = w # split_and (dropWhile is_ws s)"
    "split_and w = [w]"
proof -
  have none: "strip_prefix ''&&'' (dropWhile is_ws (w @ q)) = None"
    if a: "\<forall>c \<in> set w. c \<noteq> CHR ''&''" and b: "w \<noteq> []" "\<not> is_ws (last w)" for w q
  proof -
    obtain c where "c \<in> set w" "\<not> is_ws c" using b last_in_set by blast
    then have d: "dropWhile is_ws (w @ q) = dropWhile is_ws w @ q" by (rule dropWhile_append1)
    have ne: "dropWhile is_ws w \<noteq> []" using \<open>c \<in> set w\<close> \<open>\<not> is_ws c\<close> by (auto simp: dropWhile_eq_Nil_conv)
    then have "hd (dropWhile is_ws w) \<noteq> CHR ''&''" using a by (meson hd_in_set set_dropWhileD)
    then show ?thesis unfolding d using ne by (cases "dropWhile is_ws w") auto
  qed
  show "split_and (w @ '' && '' @ s) = w # split_and (dropWhile is_ws s)"
    using assms
  proof (induction w)
    case (Cons c w)
    have n: "strip_prefix ''&&'' (dropWhile is_ws ((c # w) @ '' && '' @ s)) = None" by (rule none [OF Cons.prems])
    show ?case
    proof (cases "w = []")
      case True
      have "split_and ('' && '' @ s) = [] # split_and (dropWhile is_ws s)"
        by (subst split_and.simps) simp
      with n True show ?thesis by (subst split_and.simps) simp
    next
      case False
      then have "split_and (w @ '' && '' @ s) = w # split_and (dropWhile is_ws s)" using Cons by auto
      with n show ?thesis by (subst split_and.simps) simp
    qed
  qed simp
  show "split_and w = [w]"
    using assms
  proof (induction w)
    case (Cons c w)
    have n: "strip_prefix ''&&'' (dropWhile is_ws (c # w)) = None" using none [OF Cons.prems, of "[]"] by simp
    show ?case
    proof (cases "w = []")
      case True
      have "split_and [] = [[]]" by (subst split_and.simps) simp
      with n True show ?thesis by (subst split_and.simps) simp
    next
      case False
      with Cons have "split_and w = [w]" by auto
      with n show ?thesis by (subst split_and.simps) simp
    qed
  qed simp
qed

lemma cond_text_facts:
  assumes "ok_value (cval c)"
  shows "\<forall>d \<in> set (cond_text c). d \<noteq> CHR ''&''" "cond_text c \<noteq> []" "\<not> is_ws (last (cond_text c))" "\<not> is_ws (hd (cond_text c))"
proof -
  have v: "value_text (cval c) \<noteq> []" "\<forall>d \<in> set (value_text (cval c)). cond_char d" using assms by (auto simp: ok_value_def)
  show "\<forall>d \<in> set (cond_text c). d \<noteq> CHR ''&''" using v(2) cond_char_not
    by (cases "cvar c"; cases "cop c"; auto simp: cond_text_def var_text_def op_text_def)
  show "cond_text c \<noteq> []" by (simp add: cond_text_def)
  show "\<not> is_ws (last (cond_text c))" using v cond_char_not by (simp add: cond_text_def)
  show "\<not> is_ws (hd (cond_text c))" by (cases "cvar c") (simp_all add: cond_text_def var_text_def)
qed

lemma split_conds:
  "cs \<noteq> [] \<Longrightarrow> \<forall>c \<in> set cs. ok_value (cval c) \<Longrightarrow> split_and (conds_text cs) = map cond_text cs"
proof (induction cs)
  case (Cons c cs)
  note f = cond_text_facts [of c]
  show ?case
  proof (cases cs)
    case Nil
    then show ?thesis using split_and_text(2) [of "cond_text c"] f Cons.prems by (simp add: conds_text_def)
  next
    case (Cons d ds)
    have h: "conds_text (c # cs) = cond_text c @ '' && '' @ conds_text cs" by (simp add: conds_text_def Cons)
    have "dropWhile is_ws (conds_text cs) = conds_text cs"
      using cond_text_facts(2,4) [of d] Cons.prems Cons by (cases "cond_text d") (auto simp: conds_text_Cons)
    then show ?thesis unfolding h using split_and_text(1) [of "cond_text c" "conds_text cs"] f Cons.prems Cons.IH Cons by simp
  qed
qed simp

definition read_cond :: "TierConditionInput \<Rightarrow> TierConditionInput" where
  "read_cond c = c\<lparr>cval := CNum (js_Number (value_text (cval c)))\<rparr>"

lemma read_vars [simp]: "read_var (var_text v) = v" "read_op (op_text q) = q"
  by (cases v; simp add: read_var_def var_text_def) (cases q; simp add: read_op_def op_text_def)

lemma read_conds:
  assumes "\<forall>c \<in> set cs. ok_value (cval c)"
  shows "read_conditions (if cs = [] then None else Some (conds_text cs)) = map read_cond cs"
proof (cases "cs = []")
  case True
  then show ?thesis by (simp add: read_conditions_def)
next
  case False
  have one: "rx_full rx_cond (trim (cond_text c)) = Some (cond_match c)" if "c \<in> set cs" for c
  proof -
    have ok: "ok_value (cval c)" using assms that by blast
    have "trim (cond_text c) = cond_text c" using cond_text_facts [OF ok] by (intro trim_id) (simp add: trimmed_by_def)
    then show ?thesis using full_first [OF first_cond [OF ok, of "[]"]] by simp
  qed
  have "List.map_filter (\<lambda>cp. map_option (\<lambda>(v, p, n). \<lparr>cvar = read_var v, cop = read_op p, cval = CNum (js_Number n)\<rparr>) (rx_full rx_cond (trim cp)))
     (map cond_text ds) = map read_cond ds" if "set ds \<subseteq> set cs" for ds
    using that
  proof (induction ds)
    case (Cons c ds)
    then show ?case using one [of c] by (simp add: List.map_filter_simps cond_match_def read_cond_def)
  qed (simp add: List.map_filter_simps)
  then show ?thesis using False split_conds [OF False assms] by (simp add: read_conditions_def)
qed

subsection \<open>What is read back\<close>

definition wf_tier :: "VisualTier \<Rightarrow> bool" where
  "wf_tier t \<longleftrightarrow> wf_num (number_or_zero (input_unit_cost t)) \<and> wf_num (number_or_zero (output_unit_cost t))
     \<and> (\<forall>f \<in> set COST_FIELDS. wf_num (number_or_zero (oget (costs t) f)))"

definition kept :: "VisualTier \<Rightarrow> TierConditionInput list" where
  "kept t = filter kept_cond (case tconditions t of None \<Rightarrow> [] | Some cs \<Rightarrow> cs)"

text \<open>The text of the value is that of a number without a minus sign, as JavaScript prints it.\<close>

definition plain_value :: "CondValue \<Rightarrow> bool" where
  "plain_value v \<longleftrightarrow> ok_value v \<and> (case js_Number (value_text v) of Some n \<Rightarrow> show_num n = value_text v | None \<Rightarrow> False)"

definition plain_tier :: "VisualTier \<Rightarrow> bool" where
  "plain_tier t \<longleftrightarrow> wf_tier t \<and> (\<forall>c \<in> set (kept t). plain_value (cval c)) \<and> (case tlabel t of Some l \<Rightarrow> dquote \<notin> set l | None \<Rightarrow> True)"

text \<open>A tier after the round trip, with the label \<open>l\<close> and the conditions \<open>cs\<close>.\<close>

definition read_back :: "TierConditionInput list \<times> string \<times> VisualTier \<Rightarrow> VisualTier" where
  "read_back p =
     (let t = snd (snd p) in
      normalizeVisualTier
        (t\<lparr>tlabel := Some (fst (snd p)), tconditions := Some (map read_cond (fst p)),
           input_unit_cost := Some (Some (number_or_zero (input_unit_cost t))), output_unit_cost := Some (Some (number_or_zero (output_unit_cost t))),
           cache_mode := None\<rparr>))"

text \<open>The parts of a configuration: the last of several tiers loses its conditions, an empty label gets its default.\<close>

definition config_parts :: "VisualConfig \<Rightarrow> (TierConditionInput list \<times> string \<times> VisualTier) list" where
  "config_parts ts =
     (case ts of
        [t] \<Rightarrow> [(kept t, label_or ''default'' t, t)]
      | _ \<Rightarrow> map (\<lambda>(i, t). (if i < length ts - 1 then kept t else [], label_or (''tier_'' @ show_nat (i + 1)) t, t)) (enumerate 0 ts))"

definition readBack :: "VisualConfig \<Rightarrow> VisualConfig" where
  "readBack ts = map read_back (config_parts ts)"

lemma condition_str: "buildConditionStr (tconditions t) = conds_text (kept t)"
  by (auto simp: buildConditionStr_def conds_text_def kept_def split: option.splits)

lemma conds_text_Nil [simp]: "conds_text cs = [] \<longleftrightarrow> cs = []"
proof (cases cs)
  case Nil
  then show ?thesis by (simp add: conds_text_def)
next
  case (Cons c ds)
  then show ?thesis by (simp add: conds_text_Cons cond_text_def)
qed

lemma label_or_ok:
  assumes "plain_tier t" "dquote \<notin> set d" "d \<noteq> []"
  shows "dquote \<notin> set (label_or d t)" "label_or d t \<noteq> []"
  using assms by (auto simp: plain_tier_def label_or_def split: option.splits)

lemma tier_label_ok: "dquote \<notin> set (''tier_'' @ show_nat n)"
proof -
  have "\<not> is_digit dquote" by (simp add: is_digit_def)
  then show ?thesis using show_nat_digits [of dquote n] by auto
qed

lemma plain_parts:
  assumes "\<forall>t \<in> set ts. plain_tier t"
  shows "\<forall>p \<in> set (config_parts ts). ok_part p \<and> snd (snd p) \<in> set ts \<and> fst (snd p) \<noteq> [] \<and> (fst p = [] \<or> fst p = kept (snd (snd p)))"
proof -
  have k: "\<forall>c \<in> set (kept t). ok_value (cval c)" if "t \<in> set ts" for t
    using assms that by (auto simp: plain_tier_def plain_value_def)
  have l: "dquote \<notin> set (label_or (''tier_'' @ show_nat n) t)" "label_or (''tier_'' @ show_nat n) t \<noteq> []" if "t \<in> set ts" for t n
    using label_or_ok [of t "''tier_'' @ show_nat n"] tier_label_ok assms that by auto
  have d: "dquote \<notin> set (label_or ''default'' t)" "label_or ''default'' t \<noteq> []" if "t \<in> set ts" for t
    using label_or_ok [of t "''default''"] assms that by auto
  show ?thesis
  proof (cases "\<exists>t. ts = [t]")
    case True
    then show ?thesis using k d by (auto simp: config_parts_def ok_part_def)
  next
    case False
    then have e: "config_parts ts =
       map (\<lambda>(i, t). (if i < length ts - 1 then kept t else [], label_or (''tier_'' @ show_nat (i + 1)) t, t)) (enumerate 0 ts)"
      by (auto simp: config_parts_def split: list.splits)
    show ?thesis unfolding e
    proof (intro ballI)
      fix p assume "p \<in> set (map (\<lambda>(i, t). (if i < length ts - 1 then kept t else [], label_or (''tier_'' @ show_nat (i + 1)) t, t)) (enumerate 0 ts))"
      then obtain i t where t: "t \<in> set ts" and p: "p = (if i < length ts - 1 then kept t else [], label_or (''tier_'' @ show_nat (i + 1)) t, t)"
        by (auto dest: in_set_enumerate_eq [THEN iffD1] simp: in_set_enumerate_eq)
      show "ok_part p \<and> snd (snd p) \<in> set ts \<and> fst (snd p) \<noteq> [] \<and> (fst p = [] \<or> fst p = kept (snd (snd p)))"
        using k [OF t] l [OF t, of "i + 1"] t unfolding p ok_part_def by simp
    qed
  qed
qed

definition COST_NAMES :: "(string \<times> string) list" where
  "COST_NAMES = zip COST_FIELDS cacheVarNames"

lemma cost_names: "BILLING_CACHE_VAR_MAP = map (\<lambda>(f, v). (Some f, v)) COST_NAMES"
  by (simp add: COST_NAMES_def COST_FIELDS_def cacheVarNames_def BILLING_CACHE_VAR_MAP_def BILLING_EXTRA_VARS_def BILLING_VARS_def)

lemma cost_fields: "map fst COST_NAMES = COST_FIELDS" "distinct COST_FIELDS"
  by (simp_all add: COST_NAMES_def COST_FIELDS_def cacheVarNames_def BILLING_CACHE_VAR_MAP_def BILLING_EXTRA_VARS_def BILLING_VARS_def)

lemma zip_map_same: "zip (map g xs) (map k xs) = map (\<lambda>x. (g x, k x)) xs"
  by (induction xs) simp_all

lemma oget_filtered:
  "distinct (map fst kv) \<Longrightarrow> f \<in> fst ` set kv \<Longrightarrow>
   number_or_zero (oget (List.map_filter (\<lambda>(k, v). if c k = zero_num then None else Some (k, Some (c k))) kv) f) = c f"
proof (induction kv)
  case (Cons p kv)
  have miss: "oget (List.map_filter (\<lambda>(k, v). if c k = zero_num then None else Some (k, Some (c k))) xs) f = None" if "f \<notin> fst ` set xs" for xs :: "(string \<times> 'b) list"
    using that by (induction xs) (auto simp: List.map_filter_simps)
  show ?case
  proof (cases "fst p = f")
    case True
    with Cons.prems(1) have "f \<notin> fst ` set kv" by auto
    with True miss [of kv] show ?thesis by (cases p) (auto simp: List.map_filter_simps number_or_zero_def)
  next
    case False
    with Cons show ?thesis by (cases p) (auto simp: List.map_filter_simps number_or_zero_def)
  qed
qed simp

lemma map_filter_cong2: "(\<And>x. x \<in> set xs \<Longrightarrow> g x = h x) \<Longrightarrow> List.map_filter g xs = List.map_filter h xs"
  by (induction xs) (auto simp: List.map_filter_simps split: option.splits)

lemma read_costs_back:
  assumes "wf_tier t" "f \<in> set COST_FIELDS"
  shows "number_or_zero (oget (read_costs (read_back_costs t)) f) = number_or_zero (oget (costs t) f)"
proof -
  define c where "c k = number_or_zero (oget (costs t) k)" for k
  have w: "js_Number (show_num (c k)) = Some (c k)" if "k \<in> set COST_FIELDS" for k
    using assms(1) that by (auto simp: wf_tier_def c_def)
  have z: "zip BILLING_CACHE_VAR_MAP (read_back_costs t) =
     map (\<lambda>(k, v). ((Some k, v), if c k = zero_num then None else Some (show_num (c k)))) COST_NAMES"
    by (simp add: read_back_costs_def tier_costs_def cost_names zip_map_same comp_def case_prod_unfold c_def split_def)
  have "read_costs (read_back_costs t) =
     List.map_filter (\<lambda>(k, v). if c k = zero_num then None else Some (k, js_Number (show_num (c k)))) COST_NAMES"
    unfolding read_costs_def z by (auto simp: List.map_filter_def comp_def case_prod_unfold filter_map intro!: map_cong filter_cong)
  also have "\<dots> = List.map_filter (\<lambda>(k, v). if c k = zero_num then None else Some (k, Some (c k))) COST_NAMES"
  proof (rule map_filter_cong2)
    fix p assume "p \<in> set COST_NAMES"
    then have "fst p \<in> set COST_FIELDS" unfolding cost_fields(1) [symmetric] by simp
    then show "(case p of (k, v) \<Rightarrow> if c k = zero_num then None else Some (k, js_Number (show_num (c k)))) =
       (case p of (k, v) \<Rightarrow> if c k = zero_num then None else Some (k, Some (c k)))"
      using w [of "fst p"] by (simp add: case_prod_unfold)
  qed
  finally have e: "read_costs (read_back_costs t) = List.map_filter (\<lambda>(k, v). if c k = zero_num then None else Some (k, Some (c k))) COST_NAMES" .
  have d: "distinct (map fst COST_NAMES)" "f \<in> fst ` set COST_NAMES"
    using cost_fields(2) assms(2) unfolding cost_fields(1) [symmetric] by simp_all
  show ?thesis using oget_filtered [OF d, of c] unfolding e by (simp add: c_def)
qed

lemma normalize_cong:
  assumes "tlabel a = tlabel b" "tconditions a = tconditions b" "input_unit_cost a = input_unit_cost b"
    "output_unit_cost a = output_unit_cost b" "cache_mode a = cache_mode b"
    "\<And>f. f \<in> set COST_FIELDS \<Longrightarrow> number_or_zero (oget (costs a) f) = number_or_zero (oget (costs b) f)"
  shows "normalizeVisualTier a = normalizeVisualTier b"
proof -
  have "''cache_create_1h_unit_cost'' \<in> set COST_FIELDS" by (simp add: COST_FIELDS_def)
  from assms(6) [OF this] have "getTierCacheMode a = getTierCacheMode b" using assms(5) by (simp add: getTierCacheMode_def)
  then show ?thesis using assms by (simp add: normalizeVisualTier_def)
qed

lemma normalized_cost: "f \<in> set COST_FIELDS \<Longrightarrow> number_or_zero (oget (costs (normalizeVisualTier t)) f) = number_or_zero (oget (costs t) f)"
  by (simp add: normalizeVisualTier_def map_of_map_restrict number_or_zero_def del: set_map split: option.splits)

lemma normalize_idem [simp]: "normalizeVisualTier (normalizeVisualTier t) = normalizeVisualTier t"
proof -
  have "map (\<lambda>f. (f, Some (number_or_zero (oget (costs (normalizeVisualTier t)) f)))) COST_FIELDS
      = map (\<lambda>f. (f, Some (number_or_zero (oget (costs t) f)))) COST_FIELDS"
    using normalized_cost by auto
  then show ?thesis
    by (simp add: normalizeVisualTier_def [of "normalizeVisualTier t"]) (simp add: normalizeVisualTier_def getTierCacheMode_def)
qed

lemma read_tier_back:
  assumes "wf_tier (snd (snd p))"
  shows "read_tier (map read_cond (fst p)) (tier_match (fst (snd p)) (snd (snd p))) = read_back p"
proof -
  define t where "t = snd (snd p)"
  have w: "wf_num (number_or_zero (input_unit_cost t))" "wf_num (number_or_zero (output_unit_cost t))" using assms by (auto simp: wf_tier_def t_def)
  show ?thesis unfolding read_tier_def read_back_def tier_match_def t_def [symmetric] Let_def prod.case
    by (rule normalize_cong) (use w assms in \<open>simp_all add: read_costs_back t_def\<close>)
qed

lemma parts_expr:
  assumes "length ts \<noteq> 1"
  shows "map part_expr (config_parts ts) = map (\<lambda>(i, t). tier_part (length ts) i t) (enumerate 0 ts)"
proof -
  have e: "config_parts ts =
     map (\<lambda>(i, t). (if i < length ts - 1 then kept t else [], label_or (''tier_'' @ show_nat (i + 1)) t, t)) (enumerate 0 ts)"
    using assms by (auto simp: config_parts_def split: list.splits)
  show ?thesis unfolding e
    by (auto simp: part_expr_def guarded_tier_text_def tier_part_def Let_def condition_str split: if_splits)
qed

definition config_tail :: "VisualConfig \<Rightarrow> string" where
  "config_tail ts = (case ts of [t] \<Rightarrow> if kept t = [] then [] else '' : '' @ ZERO_EXPR | _ \<Rightarrow> [])"

lemma generate_parts:
  assumes "ts \<noteq> []"
  shows "generateExprFromVisualConfig (Some ts) = join '' : '' (map part_expr (config_parts ts)) @ config_tail ts"
proof (cases "length ts = 1")
  case True
  then obtain t where t: "ts = [t]" by (cases ts) auto
  show ?thesis
    by (simp add: t generateExprFromVisualConfig_def config_parts_def config_tail_def condition_str part_expr_def guarded_tier_text_def Let_def)
next
  case False
  obtain a b r where ts: "ts = a # b # r" using assms False by (cases ts; cases "tl ts") auto
  have g: "generateExprFromVisualConfig (Some ts) = join '' : '' (map (\<lambda>(i, tier). tier_part (length ts) i tier) (enumerate 0 ts))"
    by (simp add: generateExprFromVisualConfig_def ts)
  have "config_tail ts = []" by (simp add: config_tail_def ts)
  then show ?thesis unfolding g parts_expr [OF False] by simp
qed

lemma length_config_parts: "length (config_parts ts) = length ts"
  by (auto simp: config_parts_def split: list.splits)

lemma config_parts_nth:
  "length ts \<noteq> 1 \<Longrightarrow> i < length ts \<Longrightarrow>
   config_parts ts ! i = (if i < length ts - 1 then kept (ts ! i) else [], label_or (''tier_'' @ show_nat (i + 1)) (ts ! i), ts ! i)"
proof -
  assume n: "length ts \<noteq> 1" and i: "i < length ts"
  have "config_parts ts =
     map (\<lambda>(i, t). (if i < length ts - 1 then kept t else [], label_or (''tier_'' @ show_nat (i + 1)) t, t)) (enumerate 0 ts)"
    using n by (auto simp: config_parts_def split: list.splits)
  then show ?thesis using i by (simp add: nth_enumerate_eq)
qed

lemma config_parts_ne: "ts \<noteq> [] \<Longrightarrow> config_parts ts \<noteq> []"
  by (auto simp: config_parts_def split: list.splits)

lemma tail_all: "rx_all tierRe (config_tail ts) = []"
  using all_tail by (auto simp: config_tail_def split: list.splits)

lemma generate_matches:
  assumes "ts \<noteq> []" "\<forall>t \<in> set ts. plain_tier t"
  shows "rx_all tierRe (generateExprFromVisualConfig (Some ts)) = map part_match (config_parts ts)"
proof -
  obtain p ps where p: "config_parts ts = p # ps" using config_parts_ne [OF assms(1)] by (cases "config_parts ts") auto
  have ok: "\<forall>q \<in> set (p # ps). ok_part q" using plain_parts [OF assms(2)] p by auto
  have "generateExprFromVisualConfig (Some ts) = part_expr p @ concat (map (\<lambda>q. '' : '' @ part_expr q) ps) @ config_tail ts"
    unfolding generate_parts [OF assms(1)] p by (simp add: join_Cons_concat comp_def)
  with all_parts [OF ok tail_all [of ts]] p show ?thesis by simp
qed

lemma read_parts:
  assumes "\<forall>t \<in> set ts. plain_tier t"
  shows "map (\<lambda>(c, m). read_tier (read_conditions c) m) (map part_match (config_parts ts)) = readBack ts"
proof -
  have "(\<lambda>(c, m). read_tier (read_conditions c) m) (part_match p) = read_back p" if "p \<in> set (config_parts ts)" for p
  proof -
    have 1: "\<forall>c \<in> set (fst p). ok_value (cval c)" and 2: "wf_tier (snd (snd p))"
      using plain_parts [OF assms] that assms by (auto simp: ok_part_def plain_tier_def)
    show ?thesis using read_conds [OF 1] read_tier_back [OF 2] by (simp add: part_match_def guarded_match_def)
  qed
  then show ?thesis by (simp add: readBack_def)
qed

subsection \<open>The anchored expression\<close>

lemma consumes_term: "\<forall>c \<in> set v. no_dquote c \<Longrightarrow> consumes no_dquote (rx_term v)"
  unfolding rx_term_def using num_char_plain
  by (intro consumes_intros) (auto simp: no_dquote_def is_ws_def)

lemma consumes_added: "\<forall>c \<in> set v. no_dquote c \<Longrightarrow> consumes no_dquote (rx_added v)"
  unfolding rx_added_def by (intro consumes_intros consumes_term) (auto simp: no_dquote_def is_ws_def)

lemma consumes_costs: "\<forall>v \<in> set vs. \<forall>c \<in> set v. no_dquote c \<Longrightarrow> consumes no_dquote (rx_costs vs)"
proof (induction vs)
  case Nil
  then show ?case by (simp add: consumes_ret)
next
  case (Cons v vs)
  then have 1: "consumes no_dquote (rx_added v)" by (intro consumes_added) simp
  have 2: "consumes no_dquote (rx_costs vs)" using Cons by simp
  show ?case unfolding rx_costs.simps by (intro consumes_bind consumes_opt 1 2 consumes_ret)
qed

lemma consumes_body: "consumes no_dquote bodyPat"
proof -
  have "\<forall>v \<in> set cacheVarNames. \<forall>c \<in> set v. no_dquote c"
    by (simp add: cacheVarNames_def BILLING_CACHE_VAR_MAP_def BILLING_EXTRA_VARS_def BILLING_VARS_def no_dquote_def)
  then show ?thesis unfolding bodyPat_def
    by (intro consumes_bind consumes_ret consumes_term consumes_added consumes_costs) (auto simp: no_dquote_def)
qed

definition quotes :: "string \<Rightarrow> nat" where
  "quotes s = length (filter (\<lambda>c. c = dquote) s)"

lemma quotes_simps [simp]: "quotes (s @ t) = quotes s + quotes t" "quotes [] = 0" "quotes (c # s) = (if c = dquote then 1 else 0) + quotes s"
  by (simp_all add: quotes_def)

lemma quotes_none: "\<forall>c \<in> set s. no_dquote c \<Longrightarrow> quotes s = 0"
  by (simp add: quotes_def no_dquote_def filter_empty_conv)

lemma single_two_quotes:
  assumes "(x, r) \<in> set (singleRe s)"
  shows "quotes s = 2 + quotes r"
proof -
  obtain s1 where 1: "s = (''tier('' @ [dquote]) @ s1"
      and a: "(x, r) \<in> set (rx_bind (rx_star no_dquote) (\<lambda>l. rx_bind (rx_lit (dquote # '','')) (\<lambda>_. rx_bind rx_ws (\<lambda>_. rx_bind bodyPat (\<lambda>b.
         rx_bind (rx_lit '')'') (\<lambda>_. rx_ret (l, b)))))) s1)"
    using assms unfolding singleRe_def
    by (simp only: in_bind_lit) blast
  obtain l s2 where l: "(l, s2) \<in> set (rx_star no_dquote s1)"
      and b: "(x, r) \<in> set (rx_bind (rx_lit (dquote # '','')) (\<lambda>_. rx_bind rx_ws (\<lambda>_. rx_bind bodyPat (\<lambda>b.
         rx_bind (rx_lit '')'') (\<lambda>_. rx_ret (l, b))))) s2)"
    using a unfolding rx_bind_def [of "rx_star no_dquote"] by auto
  obtain s3 where 3: "s2 = (dquote # '','') @ s3" and c: "(x, r) \<in> set (rx_bind rx_ws (\<lambda>_. rx_bind bodyPat (\<lambda>b.
         rx_bind (rx_lit '')'') (\<lambda>_. rx_ret (l, b)))) s3)"
    using b by (simp only: in_bind_lit) blast
  have "consumes no_dquote (rx_bind rx_ws (\<lambda>_. rx_bind bodyPat (\<lambda>b. rx_bind (rx_lit '')'') (\<lambda>_. rx_ret (l, b)))))"
    by (intro consumes_bind consumes_star consumes_body consumes_lit consumes_ret) (auto simp: no_dquote_def is_ws_def)
  from consumesD [OF this c] obtain u where u: "s3 = u @ r" "\<forall>c \<in> set u. no_dquote c" by blast
  from consumesD [OF consumes_star [of no_dquote no_dquote] l] obtain t where t: "s1 = t @ s2" "\<forall>c \<in> set t. no_dquote c" by blast
  show ?thesis using 1 3 u t by (simp add: quotes_none)
qed

lemma part_quotes: "2 \<le> quotes (part_expr p)"
  by (simp add: part_expr_def guarded_tier_text_def tier_text_def)

lemma single_generated:
  assumes "ts \<noteq> []" "\<forall>t \<in> set ts. plain_tier t"
  shows "rx_full singleRe (generateExprFromVisualConfig (Some ts)) =
    (case ts of [t] \<Rightarrow> if kept t = [] then Some (tier_match (label_or ''default'' t) t) else None | _ \<Rightarrow> None)"
proof (cases "length ts = 1")
  case True
  then obtain t where t: "ts = [t]" by (cases ts) auto
  have l: "dquote \<notin> set (label_or ''default'' t)" using label_or_ok(1) [of t "''default''"] assms(2) t by auto
  show ?thesis
  proof (cases "kept t = []")
    case True
    then have "generateExprFromVisualConfig (Some ts) = tier_text (label_or ''default'' t) t"
      by (simp add: t generateExprFromVisualConfig_def condition_str Let_def)
    with True t full_first [of singleRe "tier_text (label_or ''default'' t) t"] first_single [OF l, of t "[]"] show ?thesis by simp
  next
    case False
    then obtain c cs where k: "kept t = c # cs" by (cases "kept t") auto
    have "no_way singleRe (conds_text (kept t) @ q)" for q
      unfolding singleRe_def by (intro no_bind_none no_lit) (cases "cvar c"; simp add: k conds_text_Cons cond_text_def var_text_def)
    then have "rx_full singleRe (generateExprFromVisualConfig (Some ts)) = None"
      using False by (simp add: t generateExprFromVisualConfig_def condition_str Let_def no_way_def rx_full_def)
    with False t show ?thesis by simp
  qed
next
  case False
  then obtain a b r where ts: "ts = a # b # r" using assms(1) by (cases ts; cases "tl ts") auto
  have "length (config_parts ts) = length ts" using False by (auto simp: config_parts_def split: list.splits)
  then obtain p q ps where p: "config_parts ts = p # q # ps" using ts by (cases "config_parts ts"; cases "tl (config_parts ts)") auto
  have g: "generateExprFromVisualConfig (Some ts) = part_expr p @ '' : '' @ join '' : '' (map part_expr (q # ps)) @ config_tail ts"
    unfolding generate_parts [OF assms(1)] p by simp
  have q: "2 \<le> quotes (join '' : '' (map part_expr (q # ps)))"
    using part_quotes [of q] by (simp only: list.map join_Cons_concat quotes_simps)
  have "rx_full singleRe (generateExprFromVisualConfig (Some ts)) = None"
  proof (rule full_none)
    fix x r assume "(x, r) \<in> set (singleRe (generateExprFromVisualConfig (Some ts)))"
    from single_two_quotes [OF this] q part_quotes [of p] show "r \<noteq> []" unfolding g by auto
  qed
  then show ?thesis by (simp add: ts)
qed

lemma generated_start:
  assumes "ts \<noteq> []"
  shows "generateExprFromVisualConfig (Some ts) \<noteq> [] \<and> hd (generateExprFromVisualConfig (Some ts)) \<in> {CHR ''p'', CHR ''c'', CHR ''l'', CHR ''t''}"
proof -
  obtain p ps where p: "config_parts ts = p # ps" using config_parts_ne [OF assms] by (cases "config_parts ts") auto
  obtain d q where "part_expr p = d # q" "d \<in> {CHR ''p'', CHR ''c'', CHR ''l'', CHR ''t''}"
  proof (cases "fst p")
    case Nil
    then show ?thesis using that by (simp add: part_expr_def guarded_tier_text_def tier_text_def)
  next
    case (Cons c cs)
    then show ?thesis using that by (cases "cvar c") (simp_all add: part_expr_def guarded_tier_text_def conds_text_Cons cond_text_def var_text_def)
  qed
  then show ?thesis unfolding generate_parts [OF assms] p by (simp add: join_Cons_concat)
qed

lemma no_version: "s \<noteq> [] \<Longrightarrow> hd s \<noteq> CHR ''v'' \<Longrightarrow> drop_version s = s"
  by (cases s) (auto simp: drop_version_def)

subsection \<open>The round trip\<close>

lemma kept_back: "kept (read_back p) = map read_cond (fst p)"
  by (induction "fst p") (auto simp: kept_def read_back_def normalizeVisualTier_def Let_def kept_cond_def read_cond_def)

lemma label_back: "fst (snd p) \<noteq> [] \<Longrightarrow> label_or d (read_back p) = fst (snd p)"
  by (simp add: label_or_def read_back_def normalizeVisualTier_def Let_def)

lemma body_back: "buildTierBodyExpr (read_back p) = buildTierBodyExpr (snd (snd p))"
proof -
  define t where "t = snd (snd p)"
  define u where "u = t\<lparr>tlabel := Some (fst (snd p)), tconditions := Some (map read_cond (fst p)),
    input_unit_cost := Some (Some (number_or_zero (input_unit_cost t))), output_unit_cost := Some (Some (number_or_zero (output_unit_cost t))), cache_mode := None\<rparr>"
  have b: "read_back p = normalizeVisualTier u" by (simp add: read_back_def t_def u_def Let_def)
  have c: "number_or_zero (oget (costs (read_back p)) f) = number_or_zero (oget (costs t) f)" if "f \<in> fst ` set COST_NAMES" for f
    unfolding b using normalized_cost [of f u] that by (simp add: u_def flip: cost_fields(1))
  have "tier_costs (read_back p) = tier_costs t"
    unfolding tier_costs_def cost_names using c by (force intro!: map_cong)
  moreover have "number_or_zero (input_unit_cost (read_back p)) = number_or_zero (input_unit_cost t)"
    "number_or_zero (output_unit_cost (read_back p)) = number_or_zero (output_unit_cost t)"
    by (simp_all add: b u_def normalizeVisualTier_def number_or_zero_def)
  ultimately show ?thesis by (simp add: body_text t_def)
qed

lemma conds_back: "\<forall>c \<in> set cs. plain_value (cval c) \<Longrightarrow> conds_text (map read_cond cs) = conds_text cs"
proof -
  assume a: "\<forall>c \<in> set cs. plain_value (cval c)"
  have "cond_text (read_cond c) = cond_text c" if "c \<in> set cs" for c
    using a that by (auto simp: plain_value_def cond_text_def read_cond_def value_text_def [of "CNum _"] split: option.splits)
  then have "map cond_text (map read_cond cs) = map cond_text cs" by simp
  then show ?thesis by (simp only: conds_text_def)
qed

lemma guarded_back:
  assumes "\<forall>c \<in> set (fst p). plain_value (cval c)"
  shows "guarded_tier_text (map read_cond (fst p)) l (read_back p) = guarded_tier_text (fst p) l (snd (snd p))"
  using conds_back [OF assms] by (simp add: guarded_tier_text_def tier_text_def body_back)

lemma generate_back:
  assumes "ts \<noteq> []" "\<forall>t \<in> set ts. plain_tier t"
  shows "generateExprFromVisualConfig (Some (readBack ts)) = generateExprFromVisualConfig (Some ts)"
proof -
  have pl: "\<forall>c \<in> set (fst p). plain_value (cval c)" "fst (snd p) \<noteq> []" if "p \<in> set (config_parts ts)" for p
  proof -
    from plain_parts [OF assms(2)] that have "snd (snd p) \<in> set ts" "fst (snd p) \<noteq> []" "fst p = [] \<or> fst p = kept (snd (snd p))" by auto
    with assms(2) show "\<forall>c \<in> set (fst p). plain_value (cval c)" "fst (snd p) \<noteq> []" by (auto simp: plain_tier_def)
  qed
  have len: "length (config_parts ts) = length ts" by (auto simp: config_parts_def split: list.splits)
  have ne: "readBack ts \<noteq> []" using config_parts_ne [OF assms(1)] by (simp add: readBack_def)
  show ?thesis
  proof (cases "length ts = 1")
    case True
    then obtain t where t: "ts = [t]" by (cases ts) auto
    define p where "p = (kept t, label_or ''default'' t, t)"
    have c: "config_parts ts = [p]" by (simp add: t config_parts_def p_def)
    have p: "\<forall>c \<in> set (fst p). plain_value (cval c)" "fst (snd p) \<noteq> []" using pl [of p] c by auto
    have r: "readBack ts = [read_back p]" by (simp add: readBack_def c)
    have q: "config_parts (readBack ts) = [(map read_cond (fst p), fst (snd p), read_back p)]"
      by (simp add: r config_parts_def kept_back label_back [OF p(2)])
    have "config_tail (readBack ts) = (if kept t = [] then [] else '' : '' @ ZERO_EXPR)"
      unfolding r config_tail_def by (simp add: kept_back p_def)
    then have "config_tail (readBack ts) = config_tail ts" by (simp add: t config_tail_def)
    then show ?thesis unfolding generate_parts [OF ne] generate_parts [OF assms(1)] q c
      using guarded_back [OF p(1)] by (simp add: part_expr_def)
  next
    case False
    have n: "length (readBack ts) \<noteq> 1" using False len by (simp add: readBack_def)
    have tails: "config_tail (readBack ts) = []" "config_tail ts = []"
      using n False by (auto simp: config_tail_def split: list.splits)
    have "map part_expr (config_parts (readBack ts)) = map part_expr (config_parts ts)"
    proof (rule nth_equalityI)
      show "length (map part_expr (config_parts (readBack ts))) = length (map part_expr (config_parts ts))"
        by (simp add: length_config_parts readBack_def)
    next
      fix i assume "i < length (map part_expr (config_parts (readBack ts)))"
      then have i: "i < length ts" by (simp add: length_config_parts readBack_def)
      define p where "p = config_parts ts ! i"
      have p: "p \<in> set (config_parts ts)" using i len by (simp add: p_def)
      have p': "fst p = (if i < length ts - 1 then kept (ts ! i) else [])" by (simp add: p_def config_parts_nth [OF False i])
      have r: "readBack ts ! i = read_back p" using i len by (simp add: readBack_def p_def)
      have lr: "length (readBack ts) = length ts" by (simp add: readBack_def len)
      have "config_parts (readBack ts) ! i = (if i < length ts - 1 then map read_cond (fst p) else [], fst (snd p), read_back p)"
        using config_parts_nth [OF n, of i] i unfolding lr r kept_back label_back [OF pl(2) [OF p]] by simp
      then have "config_parts (readBack ts) ! i = (map read_cond (fst p), fst (snd p), read_back p)" by (simp add: p')
      then show "map part_expr (config_parts (readBack ts)) ! i = map part_expr (config_parts ts) ! i"
        using i len guarded_back [OF pl(1) [OF p]] by (simp add: length_config_parts readBack_def part_expr_def p_def)
    qed
    then show ?thesis unfolding generate_parts [OF ne] generate_parts [OF assms(1)] tails by simp
  qed
qed

lemma normalize_back: "normalizeVisualConfig (Some (readBack ts)) = (if readBack ts = [] then createDefaultVisualConfig else readBack ts)"
  by (auto simp: normalizeVisualConfig_def readBack_def read_back_def Let_def)

lemma parse_generated:
  assumes "ts \<noteq> []" "\<forall>t \<in> set ts. plain_tier t"
  shows "tryParseVisualConfig (generateExprFromVisualConfig (Some ts)) = Some (readBack ts)"
proof -
  define e where "e = generateExprFromVisualConfig (Some ts)"
  have s: "e \<noteq> []" "drop_version e = e" using generated_start [OF assms(1)] by (auto simp: e_def intro!: no_version)
  have ne: "readBack ts \<noteq> []" using config_parts_ne [OF assms(1)] by (simp add: readBack_def)
  have all: "map (\<lambda>(c, m). read_tier (read_conditions c) m) (rx_all tierRe e) = readBack ts"
    unfolding e_def generate_matches [OF assms] by (rule read_parts [OF assms(2)])
  show ?thesis
  proof (cases "\<exists>t. ts = [t] \<and> kept t = []")
    case True
    then obtain t where t: "ts = [t]" "kept t = []" by blast
    have p: "config_parts ts = [([], label_or ''default'' t, t)]" by (simp add: t config_parts_def)
    have "rx_full singleRe e = Some (tier_match (label_or ''default'' t) t)" unfolding e_def single_generated [OF assms] by (simp add: t)
    moreover have "read_tier [] (tier_match (label_or ''default'' t) t) = read_back ([], label_or ''default'' t, t)"
      using read_tier_back [of "([], label_or ''default'' t, t)"] assms(2) t by (simp add: plain_tier_def)
    ultimately have "tryParseVisualConfig e = Some (normalizeVisualConfig (Some (readBack ts)))"
      using s by (simp add: tryParseVisualConfig_def readBack_def p)
    then show ?thesis using normalize_back [of ts] ne by (simp add: e_def)
  next
    case False
    then have f: "rx_full singleRe e = None" unfolding e_def single_generated [OF assms] by (auto split: list.splits)
    have g: "generateExprFromVisualConfig (Some (normalizeVisualConfig (Some (readBack ts)))) = e"
      using normalize_back [of ts] ne generate_back [OF assms] by (simp add: e_def)
    have "tryParseVisualConfig e = Some (normalizeVisualConfig (Some (readBack ts)))"
      unfolding tryParseVisualConfig_def s(2) Let_def f all using s(1) ne g by simp
    then show ?thesis using normalize_back [of ts] ne by (simp add: e_def)
  qed
qed

text \<open>
  C7: What the visual editor writes it can read: for tiers whose numbers are decimals, whose condition values are written
  as JavaScript prints numbers (without a minus sign) and whose labels have no double quote, the generated expression parses.
  The configuration read back has the same costs and conditions, the default label where a label was empty, and no
  conditions on the last of several tiers; and the expression generated from it is the same text.
\<close>

theorem visual_roundtrip:
  assumes "ts \<noteq> []" "\<forall>t \<in> set ts. plain_tier t"
  shows "tryParseVisualConfig (generateExprFromVisualConfig (Some ts)) = Some (readBack ts)
    \<and> generateExprFromVisualConfig (Some (readBack ts)) = generateExprFromVisualConfig (Some ts)"
  using parse_generated [OF assms] generate_back [OF assms] by blast

definition demo_tiers :: VisualConfig where
  "demo_tiers =
     [no_tier\<lparr>tlabel := Some ''short'',
        tconditions := Some [\<lparr>cvar = VarLen, cop = OpLe, cval = CNum (Some (Dec 32 3))\<rparr>, \<lparr>cvar = VarC, cop = OpLt, cval = CStr ''200''\<rparr>],
        input_unit_cost := Some (Some (Dec 8 (-1))), output_unit_cost := Some (Some (Dec 2 0)),
        costs := [(''cache_read_unit_cost'', Some (Dec 16 (-2)))]\<rparr>,
      no_tier\<lparr>input_unit_cost := Some (Some (Dec 12 (-1))), output_unit_cost := Some (Some (Dec 8 0))\<rparr>]"

lemma demo_plain: "\<forall>t \<in> set demo_tiers. plain_tier t"
  by code_simp

lemma visual_roundtrip_witness:
  "tryParseVisualConfig (generateExprFromVisualConfig (Some demo_tiers)) = Some (readBack demo_tiers) \<and> demo_tiers \<noteq> []"
  using visual_roundtrip [OF _ demo_plain] by (simp add: demo_tiers_def)

end
