(* ===== verification/TierCost.thy ===== *)
theory TierCost
  imports TierFacts Complex_Main
begin

text \<open>
  The cost estimator of tiered prices (\<open>evalExprLocally\<close> of \<^verbatim>\<open>features/pricing/lib/tier-expr.ts\<close>). The source hands the text to
  \<open>new Function\<close>; here are the JavaScript expressions that billing expressions are made of: numbers, strings, the variables and
  functions of the estimator, \<open>+ - *\<close>, comparisons, \<open>&&\<close>, the conditional and parentheses. A text outside this part of the
  language is \<open>Unmodelled\<close>. Arithmetic is exact.
\<close>

subsection \<open>Tokens\<close>

datatype token = TNum num | TId string | TStr string | TOp string

definition id_start :: "char \<Rightarrow> bool" where
  "id_start c \<longleftrightarrow> (let n = (of_char c :: nat) in 65 \<le> n \<and> n \<le> 90 \<or> 97 \<le> n \<and> n \<le> 122 \<or> c = CHR ''_'' \<or> c = CHR ''$'')"

definition id_char :: "char \<Rightarrow> bool" where
  "id_char c \<longleftrightarrow> id_start c \<or> is_digit c"

text \<open>A decimal literal: no leading zero before other digits, no identifier directly behind it.\<close>

definition lex_num :: "string \<Rightarrow> (token \<times> string) option" where
  "lex_num s =
     (let (ds, s2) = span_digits s;
          (fs, s3) = (case strip_prefix ''.'' s2 of Some s' \<Rightarrow> span_digits s' | None \<Rightarrow> ([], s2))
      in if ds = [] \<and> fs = [] \<or> 1 < length ds \<and> hd ds = CHR ''0'' then None
         else (case parse_exp s3 of
                 None \<Rightarrow> None
               | Some (ex, r) \<Rightarrow>
                   if r \<noteq> [] \<and> (id_char (hd r) \<or> hd r = CHR ''.'') then None
                   else Some (TNum (canon (int (read_nat (ds @ fs))) (ex - int (length fs))), r)))"

definition str_char :: "char \<Rightarrow> bool" where
  "str_char c \<longleftrightarrow> c \<notin> {dquote, CHR 0x5C, CHR 0x0A, CHR 0x0D}"

definition lex_str :: "string \<Rightarrow> (token \<times> string) option" where
  "lex_str s =
     (case dropWhile str_char s of c # r \<Rightarrow> if c = dquote then Some (TStr (takeWhile str_char s), r) else None | [] \<Rightarrow> None)"

definition OTHER_OPS :: "string list" where
  "OTHER_OPS = [''++'', ''--'', ''**'', ''<<'', ''>>'', ''?.'', ''??'', ''==='', ''=='', ''=>'', ''<!'']"

definition OPS :: "string list" where
  "OPS = [''&&'', ''<='', ''>='', ''<'', ''>'', ''?'', '':'', ''+'', ''-'', ''*'', ''('', '')'', '','']"

definition lex_op :: "string \<Rightarrow> (token \<times> string) option" where
  "lex_op s =
     (if \<exists>w \<in> set OTHER_OPS. starts_with w s then None
      else (case filter (\<lambda>w. starts_with w s) OPS of [] \<Rightarrow> None | w # _ \<Rightarrow> Some (TOp w, drop (length w) s)))"

definition lex_one :: "string \<Rightarrow> (token \<times> string) option" where
  "lex_one s =
     (case s of
        [] \<Rightarrow> None
      | c # r \<Rightarrow>
          if is_digit c \<or> c = CHR ''.'' then lex_num s
          else if id_start c then Some (TId (takeWhile id_char s), dropWhile id_char s)
          else if c = dquote then lex_str r
          else lex_op s)"

text \<open>White space between tokens is skipped; every token takes at least one character.\<close>

function lex_all :: "string \<Rightarrow> token list option" where
  "lex_all s =
     (let t = dropWhile is_ws s
      in if t = [] then Some []
         else (case lex_one t of
                 None \<Rightarrow> None
               | Some (k, r) \<Rightarrow> if length r < length t then map_option (\<lambda>ks. k # ks) (lex_all r) else None))"
  by pat_completeness auto
termination
  by (relation "measure length") (auto intro: less_le_trans length_dropWhile_le)

declare lex_all.simps [simp del]

subsection \<open>Expressions\<close>

datatype expr =
    ENum num
  | EStr string
  | EVar string
  | ENeg expr
  | EBin string expr expr
  | ECond expr expr expr
  | ECall string "expr list"

text \<open>The level at which a token continues an expression: 0 the conditional, 1 \<open>&&\<close>, 2 comparison, 3 addition, 4 multiplication.\<close>

definition prec :: "string \<Rightarrow> nat option" where
  "prec q =
     (if q = ''?'' then Some 0 else if q = ''&&'' then Some 1
      else if q \<in> {''<'', ''<='', ''>'', ''>=''} then Some 2
      else if q \<in> {''+'', ''-''} then Some 3 else if q = ''*'' then Some 4 else None)"

fun expr_at :: "nat \<Rightarrow> nat \<Rightarrow> token list \<Rightarrow> (expr \<times> token list) option"
  and chain :: "nat \<Rightarrow> nat \<Rightarrow> expr \<Rightarrow> token list \<Rightarrow> (expr \<times> token list) option"
  and args :: "nat \<Rightarrow> token list \<Rightarrow> (expr list \<times> token list) option" where
  "expr_at 0 lv ts = None"
| "expr_at (Suc n) lv ts =
     (if lv = 0 then
        Option.bind (expr_at n 1 ts) (\<lambda>(a, r).
          case r of
            TOp q # r1 \<Rightarrow>
              if q \<noteq> ''?'' then Some (a, r)
              else Option.bind (expr_at n 0 r1) (\<lambda>(b, r2).
                case r2 of
                  TOp q' # r3 \<Rightarrow>
                    if q' \<noteq> '':'' then None
                    else Option.bind (expr_at n 0 r3) (\<lambda>(c, r4). Some (ECond a b c, r4))
                | _ \<Rightarrow> None)
          | _ \<Rightarrow> Some (a, r))
      else if lv \<le> 4 then Option.bind (expr_at n (lv + 1) ts) (\<lambda>(a, r). chain n lv a r)
      else
        (case ts of
           TNum x # r \<Rightarrow> Some (ENum x, r)
         | TStr s # r \<Rightarrow> Some (EStr s, r)
         | TId v # TOp q # r \<Rightarrow>
             if q = ''('' then Option.bind (args n r) (\<lambda>(es, r'). Some (ECall v es, r')) else Some (EVar v, TOp q # r)
         | TId v # r \<Rightarrow> Some (EVar v, r)
         | TOp q # r \<Rightarrow>
             if q = ''-'' then Option.bind (expr_at n 5 r) (\<lambda>(e, r'). Some (ENeg e, r'))
             else if q = ''('' then Option.bind (expr_at n 0 r) (\<lambda>(e, r'). case r' of TOp q' # r'' \<Rightarrow> if q' = '')'' then Some (e, r'') else None | _ \<Rightarrow> None)
             else None
         | [] \<Rightarrow> None))"
| "chain 0 lv a ts = None"
| "chain (Suc n) lv a ts =
     (case ts of
        TOp q # r \<Rightarrow>
          if prec q = Some lv then Option.bind (expr_at n (lv + 1) r) (\<lambda>(b, r'). chain n lv (EBin q a b) r')
          else Some (a, ts)
      | _ \<Rightarrow> Some (a, ts))"
| "args 0 ts = None"
| "args (Suc n) ts =
     Option.bind (expr_at n 0 ts) (\<lambda>(e, r).
       case r of
         TOp q # r' \<Rightarrow>
           if q = '')'' then Some ([e], r')
           else if q = '','' then Option.bind (args n r') (\<lambda>(es, r''). Some (e # es, r''))
           else None
       | _ \<Rightarrow> None)"

text \<open>
  The whole text between the parentheses of the \<open>return\<close> statement. Tokens that cannot continue an expression are a
  SyntaxError; a comma, a closing parenthesis or a word behind it may be more than an expression.
\<close>

datatype program = Parsed expr | SyntaxErr | Unmodelled

definition js_program :: "string \<Rightarrow> program" where
  "js_program s =
     (case lex_all s of
        None \<Rightarrow> Unmodelled
      | Some ts \<Rightarrow>
          (case expr_at (8 * length ts + 6) 0 ts of
             None \<Rightarrow> Unmodelled
           | Some (e, []) \<Rightarrow> Parsed e
           | Some (e, TOp q # _) \<Rightarrow> if q = '':'' then SyntaxErr else Unmodelled
           | Some (e, TNum _ # _) \<Rightarrow> SyntaxErr
           | Some (e, TStr _ # _) \<Rightarrow> SyntaxErr
           | Some (e, TId _ # _) \<Rightarrow> Unmodelled))"

subsection \<open>Evaluation\<close>

datatype js_value = VNum rat | VBool bool | VStr string

definition rat_of :: "num \<Rightarrow> rat" where
  "rat_of x = (if 0 \<le> expo x then of_int (mant x * 10 ^ nat (expo x)) else of_int (mant x) / of_int (10 ^ nat (- expo x)))"

definition truthy_value :: "js_value \<Rightarrow> bool" where
  "truthy_value v = (case v of VNum r \<Rightarrow> r \<noteq> 0 | VBool b \<Rightarrow> b | VStr s \<Rightarrow> s \<noteq> '''')"

definition js_binary :: "string \<Rightarrow> rat \<Rightarrow> rat \<Rightarrow> js_value option" where
  "js_binary q a b =
     (if q = ''+'' then Some (VNum (a + b)) else if q = ''-'' then Some (VNum (a - b)) else if q = ''*'' then Some (VNum (a * b))
      else if q = ''<'' then Some (VBool (a < b)) else if q = ''<='' then Some (VBool (a \<le> b))
      else if q = ''>'' then Some (VBool (b < a)) else if q = ''>='' then Some (VBool (b \<le> a)) else None)"

text \<open>The functions of the environment on evaluated arguments; \<open>tier\<close> also sets the matched tier.\<close>

definition js_call :: "string \<Rightarrow> js_value list \<Rightarrow> string \<Rightarrow> (js_value \<times> string) option" where
  "js_call f vs matchedTier =
     (case vs of
        [VStr name, v] \<Rightarrow> if f = ''tier'' then Some (v, name) else None
      | [VNum a] \<Rightarrow>
          if f = ''abs'' then Some (VNum \<bar>a\<bar>, matchedTier)
          else if f = ''ceil'' then Some (VNum (of_int \<lceil>a\<rceil>), matchedTier)
          else if f = ''floor'' then Some (VNum (of_int \<lfloor>a\<rfloor>), matchedTier) else None
      | [VNum a, VNum b] \<Rightarrow>
          if f = ''max'' then Some (VNum (max a b), matchedTier)
          else if f = ''min'' then Some (VNum (min a b), matchedTier) else None
      | _ \<Rightarrow> None)"

fun eval :: "(string \<Rightarrow> rat option) \<Rightarrow> expr \<Rightarrow> string \<Rightarrow> (js_value \<times> string) option"
  and eval_args :: "(string \<Rightarrow> rat option) \<Rightarrow> expr list \<Rightarrow> string \<Rightarrow> (js_value list \<times> string) option" where
  "eval env (ENum x) m = Some (VNum (rat_of x), m)"
| "eval env (EStr s) m = Some (VStr s, m)"
| "eval env (EVar v) m = map_option (\<lambda>r. (VNum r, m)) (env v)"
| "eval env (ENeg e) m = Option.bind (eval env e m) (\<lambda>(v, m'). case v of VNum r \<Rightarrow> Some (VNum (- r), m') | _ \<Rightarrow> None)"
| "eval env (EBin q a b) m =
     Option.bind (eval env a m) (\<lambda>(x, m1).
       if q = ''&&'' then (if truthy_value x then eval env b m1 else Some (x, m1))
       else Option.bind (eval env b m1) (\<lambda>(y, m2).
         case (x, y) of (VNum r, VNum s) \<Rightarrow> map_option (\<lambda>v. (v, m2)) (js_binary q r s) | _ \<Rightarrow> None))"
| "eval env (ECond a b c) m =
     Option.bind (eval env a m) (\<lambda>(x, m1). if truthy_value x then eval env b m1 else eval env c m1)"
| "eval env (ECall f es) m = Option.bind (eval_args env es m) (\<lambda>(vs, m'). js_call f vs m')"
| "eval_args env [] m = Some ([], m)"
| "eval_args env (e # es) m =
     Option.bind (eval env e m) (\<lambda>(v, m1). map_option (\<lambda>(vs, m2). (v # vs, m2)) (eval_args env es m1))"

subsection \<open>The estimator\<close>

record ExtraTokenValues =
  cacheReadTokens :: rat
  cacheCreateTokens :: rat
  cacheCreate1hTokens :: rat
  imageTokens :: rat
  imageOutputTokens :: rat
  audioInputTokens :: rat
  audioOutputTokens :: rat

definition ESTIMATOR_VARS :: "(string \<times> (ExtraTokenValues \<Rightarrow> rat)) list" where
  "ESTIMATOR_VARS =
     [(''cr'', cacheReadTokens), (''cc'', cacheCreateTokens), (''cc1h'', cacheCreate1hTokens), (''img'', imageTokens),
      (''img_o'', imageOutputTokens), (''ai'', audioInputTokens), (''ao'', audioOutputTokens)]"

definition estimator_env :: "rat \<Rightarrow> rat \<Rightarrow> ExtraTokenValues \<Rightarrow> string \<Rightarrow> rat option" where
  "estimator_env promptTokens completionTokens x v =
     (if v = ''p'' then Some promptTokens else if v = ''c'' then Some completionTokens
      else if v = ''len'' then Some (promptTokens + cacheReadTokens x + cacheCreateTokens x + cacheCreate1hTokens x)
      else map_option (\<lambda>f. f x) (map_of ESTIMATOR_VARS v))"

record EvalResult =
  ecost :: rat
  matchedTier :: string
  eerror :: "string option"

text \<open>\<open>msg\<close> is the engine's text for a SyntaxError. No result: the text is outside the modelled part of the language.\<close>

definition evalExprLocally :: "string \<Rightarrow> string \<Rightarrow> rat \<Rightarrow> rat \<Rightarrow> ExtraTokenValues \<Rightarrow> EvalResult option" where
  "evalExprLocally msg exprStr promptTokens completionTokens x =
     (if trim exprStr = '''' then Some \<lparr>ecost = 0, matchedTier = '''', eerror = None\<rparr>
      else (case js_program exprStr of
              Unmodelled \<Rightarrow> None
            | SyntaxErr \<Rightarrow> Some \<lparr>ecost = 0, matchedTier = '''', eerror = Some msg\<rparr>
            | Parsed e \<Rightarrow>
                (case eval (estimator_env promptTokens completionTokens x) e '''' of
                   Some (VNum r, m) \<Rightarrow> Some \<lparr>ecost = r, matchedTier = m, eerror = None\<rparr>
                 | Some (VBool b, m) \<Rightarrow> Some \<lparr>ecost = (if b then 1 else 0), matchedTier = m, eerror = None\<rparr>
                 | _ \<Rightarrow> None)))"

end
