(* ===== verification/TierEval.thy ===== *)
theory TierEval
  imports TierCost
begin

text \<open>
  What the estimator computes for a generated expression: the text is lexed and parsed to the expression meant, and its value
  is the price of the first tier whose conditions hold.
\<close>

subsection \<open>Lexing\<close>

text \<open>What may follow a token of the generated text.\<close>

definition sep :: "string \<Rightarrow> bool" where
  "sep r \<longleftrightarrow> r = [] \<or> hd r \<in> {CHR '' '', CHR '')'', CHR '',''}"

definition lexes :: "string \<Rightarrow> token list \<Rightarrow> bool" where
  "lexes w ts \<longleftrightarrow> (\<forall>r. sep r \<longrightarrow> lex_all (w @ r) = map_option (\<lambda>ks. ts @ ks) (lex_all r))"

lemma lexesD: "lexes w ts \<Longrightarrow> sep r \<Longrightarrow> lex_all (w @ r) = map_option (\<lambda>ks. ts @ ks) (lex_all r)"
  by (simp add: lexes_def)

lemma lex_space: "lex_all (CHR '' '' # s) = lex_all s"
  by (simp add: lex_all.simps [of "CHR '' '' # s"] lex_all.simps [of s])

lemma lex_step:
  assumes "s \<noteq> []" "\<not> is_ws (hd s)" "lex_one s = Some (k, r)" "length r < length s"
  shows "lex_all s = map_option (\<lambda>ks. k # ks) (lex_all r)"
  using assms by (subst lex_all.simps) (cases s; simp)

lemma lex_Nil: "lex_all [] = Some []"
  by (simp add: lex_all.simps)

lemma lexes_one:
  assumes "w \<noteq> []" "\<not> is_ws (hd w)" "\<And>r. sep r \<Longrightarrow> lex_one (w @ r) = Some (k, r)"
  shows "lexes w [k]"
  unfolding lexes_def
proof (intro allI impI)
  fix r assume "sep r"
  from lex_step [OF _ _ assms(3) [OF this]] assms(1,2) show "lex_all (w @ r) = map_option (\<lambda>ks. [k] @ ks) (lex_all r)"
    by simp
qed

lemma lexes_Nil: "lexes [] []"
  by (simp add: lexes_def option.map_ident)

lemma lexes_space: "lexes w ts \<Longrightarrow> lexes (CHR '' '' # w) ts"
  by (simp add: lexes_def lex_space)

lemma lexes_append:
  assumes "lexes u us" "lexes v vs" "v \<noteq> []" "hd v \<in> {CHR '' '', CHR '')'', CHR '',''}"
  shows "lexes (u @ v) (us @ vs)"
  unfolding lexes_def
proof (intro allI impI)
  fix r assume "sep r"
  moreover have "sep (v @ r)" using assms(3,4) by (simp add: sep_def)
  ultimately show "lex_all ((u @ v) @ r) = map_option (\<lambda>ks. (us @ vs) @ ks) (lex_all r)"
    using lexesD [OF assms(1)] lexesD [OF assms(2)] by (simp add: option.map_comp comp_def)
qed

lemma lexes_spaced: "lexes u us \<Longrightarrow> lexes v vs \<Longrightarrow> lexes (u @ CHR '' '' # v) (us @ vs)"
  by (intro lexes_append lexes_space) simp_all

lemma sep_cases: "sep r \<Longrightarrow> r = [] \<or> (\<exists>q. r = CHR '' '' # q) \<or> (\<exists>q. r = CHR '')'' # q) \<or> (\<exists>q. r = CHR '','' # q)"
  by (cases r) (auto simp: sep_def)

lemma sep_not_id: "sep r \<Longrightarrow> r = [] \<or> \<not> id_char (hd r) \<and> hd r \<noteq> CHR ''.''"
  by (auto simp: sep_def id_char_def id_start_def is_digit_def)

lemma lexes_op:
  assumes "q \<in> {''*'', ''+'', ''&&'', ''?'', '':'', ''<'', ''<='', ''>'', ''>=''}"
  shows "lexes q [TOp q]"
proof (rule lexes_one)
  show "q \<noteq> []" "\<not> is_ws (hd q)" using assms by (auto simp: is_ws_def)
  fix r assume r: "sep r"
  then show "lex_one (q @ r) = Some (TOp q, r)"
    using assms by (auto dest!: sep_cases simp: lex_one_def lex_op_def OPS_def OTHER_OPS_def starts_with_def is_digit_def id_start_def)
qed

lemma id_word: "\<forall>c \<in> set v. id_char c \<Longrightarrow> sep r \<Longrightarrow> takeWhile id_char (v @ r) = v \<and> dropWhile id_char (v @ r) = r"
  using sep_not_id [of r] by (cases r) (auto simp: takeWhile_append2 dropWhile_append2)

definition is_name :: "string \<Rightarrow> bool" where
  "is_name v \<longleftrightarrow> v \<noteq> [] \<and> id_start (hd v) \<and> (\<forall>c \<in> set v. id_char c)"

lemma id_start_not: "id_start c \<Longrightarrow> \<not> is_digit c \<and> c \<noteq> CHR ''.'' \<and> \<not> is_ws c"
  by (auto simp: id_start_def is_digit_def is_ws_def Let_def)

lemma lexes_name:
  assumes "is_name v"
  shows "lexes v [TId v]"
proof (rule lexes_one)
  show "v \<noteq> []" "\<not> is_ws (hd v)" using assms id_start_not by (auto simp: is_name_def)
  fix r assume r: "sep r"
  obtain c w where v: "v = c # w" "id_start c" using assms by (cases v) (auto simp: is_name_def)
  have "takeWhile id_char (v @ r) = v" "dropWhile id_char (v @ r) = r" using assms id_word [OF _ r] by (auto simp: is_name_def)
  with v id_start_not [OF v(2)] show "lex_one (v @ r) = Some (TId v, r)" by (simp add: lex_one_def)
qed

lemma lex_num_json:
  assumes "parse_num s = Some (x, r)" "hd s \<noteq> CHR ''-''" "sep r"
  shows "lex_num s = Some (TNum x, r)"
proof -
  have m: "opt_minus s = (False, s)" using assms(2) by (cases s) (auto simp: opt_minus_def)
  obtain ds s2 where d: "span_digits s = (ds, s2)" by fastforce
  from assms(1) m d have ne: "ds \<noteq> []" "\<not> (1 < length ds \<and> hd ds = CHR ''0'')" by (auto simp: parse_num_def split: if_splits)
  from assms(1) m d ne obtain fs s3 ex where f: "parse_frac s2 = Some (fs, s3)" and e: "parse_exp s3 = Some (ex, r)"
    and x: "x = canon (int (read_nat (ds @ fs))) (ex - int (length fs))"
    by (auto simp: parse_num_def Let_def bind_eq_Some_conv split: if_splits)
  have "(case strip_prefix ''.'' s2 of Some s' \<Rightarrow> span_digits s' | None \<Rightarrow> ([], s2)) = (fs, s3)"
    using f by (auto simp: parse_frac_def split: option.splits prod.splits if_splits)
  moreover have "\<not> (r \<noteq> [] \<and> (id_char (hd r) \<or> hd r = CHR ''.''))" using sep_not_id [OF assms(3)] by auto
  ultimately show ?thesis using d ne e x by (simp add: lex_num_def Let_def)
qed

lemma sep_num_end: "sep r \<Longrightarrow> num_end r"
  by (auto simp: sep_def num_end_def is_digit_def)

lemma show_num_first: "0 \<le> mant x \<Longrightarrow> is_digit (hd (show_num x)) \<or> hd (show_num x) = CHR ''.''"
proof -
  define ds where "ds = show_nat (nat \<bar>mant x\<bar>)"
  have d1: "ds \<noteq> []" by (simp add: ds_def)
  have "is_digit (hd ds)" using hd_in_set [OF d1] show_nat_digits unfolding ds_def by blast
  note d = d1 this
  have t: "0 < n \<Longrightarrow> take n ds \<noteq> [] \<and> hd (take n ds) = hd ds" for n using d(1) by (cases ds; cases n) auto
  assume "0 \<le> mant x"
  then show ?thesis using d t unfolding show_num_def ds_def [symmetric] Let_def
    by (auto simp: is_digit_0 hd_append)
qed

lemma lexes_nonneg:
  assumes "wf_num x" "0 \<le> mant x"
  shows "lexes (show_num x) [TNum x]"
proof (rule lexes_one)
  have h: "is_digit (hd (show_num x)) \<or> hd (show_num x) = CHR ''.''" by (rule show_num_first [OF assms(2)])
  show "show_num x \<noteq> []" by simp
  show "\<not> is_ws (hd (show_num x))" using h by (auto simp: is_ws_def is_digit_def)
  fix r assume r: "sep r"
  have "parse_num (show_num x @ r) = Some (x, r)" by (rule parse_show_num [OF assms(1) sep_num_end [OF r]])
  moreover have "hd (show_num x @ r) \<noteq> CHR ''-''" using h by (auto simp: hd_append is_digit_def)
  ultimately have "lex_num (show_num x @ r) = Some (TNum x, r)" using r by (rule lex_num_json)
  then show "lex_one (show_num x @ r) = Some (TNum x, r)" using h by (cases "show_num x") (auto simp: lex_one_def)
qed

definition num_tokens :: "num \<Rightarrow> token list" where
  "num_tokens x = (if mant x < 0 then [TOp ''-'', TNum (Dec (- mant x) (expo x))] else [TNum x])"

definition num_expr :: "num \<Rightarrow> expr" where
  "num_expr x = (if mant x < 0 then ENeg (ENum (Dec (- mant x) (expo x))) else ENum x)"

lemma lexes_num:
  assumes "wf_num x"
  shows "lexes (show_num x) (num_tokens x)"
proof (cases "mant x < 0")
  case True
  define y where "y = Dec (- mant x) (expo x)"
  have y: "wf_num y" "0 \<le> mant y" using assms True by (auto simp: wf_num_def y_def)
  have s: "show_num x = CHR ''-'' # show_num y" using True by (simp add: show_num_def y_def Let_def)
  have h: "is_digit (hd (show_num y)) \<or> hd (show_num y) = CHR ''.''" by (rule show_num_first [OF y(2)])
  have "lex_all (show_num x @ r) = map_option (\<lambda>ks. [TOp ''-'', TNum y] @ ks) (lex_all r)" if "sep r" for r
  proof -
    have "lex_op (CHR ''-'' # show_num y @ r) = Some (TOp ''-'', show_num y @ r)"
      using h by (cases "show_num y") (auto simp: lex_op_def OPS_def OTHER_OPS_def starts_with_def is_digit_def)
    then have "lex_one (CHR ''-'' # show_num y @ r) = Some (TOp ''-'', show_num y @ r)" by (simp add: lex_one_def is_digit_def id_start_def)
    then have "lex_all (CHR ''-'' # show_num y @ r) = map_option (\<lambda>ks. TOp ''-'' # ks) (lex_all (show_num y @ r))"
      by (intro lex_step) (simp_all add: is_ws_def)
    with lexesD [OF lexes_nonneg [OF y] that] show ?thesis by (simp add: s option.map_comp comp_def)
  qed
  then show ?thesis using True by (simp add: lexes_def num_tokens_def y_def)
next
  case False
  then show ?thesis using lexes_nonneg [OF assms] by (simp add: num_tokens_def)
qed

subsection \<open>The tokens of a generated expression\<close>

definition part_tokens :: "string \<times> num \<Rightarrow> token list" where
  "part_tokens p = [TId (fst p), TOp ''*''] @ num_tokens (snd p)"

definition body_parts :: "VisualTier \<Rightarrow> (string \<times> num) list" where
  "body_parts t = [(''p'', number_or_zero (input_unit_cost t)), (''c'', number_or_zero (output_unit_cost t))] @ cost_parts t"

definition body_tokens :: "VisualTier \<Rightarrow> token list" where
  "body_tokens t = part_tokens (hd (body_parts t)) @ concat (map (\<lambda>p. TOp ''+'' # part_tokens p) (tl (body_parts t)))"

definition tier_tokens :: "string \<Rightarrow> VisualTier \<Rightarrow> token list" where
  "tier_tokens l t = [TId ''tier'', TOp ''('', TStr l, TOp '',''] @ body_tokens t @ [TOp '')'']"

definition ok_part_value :: "string \<times> num \<Rightarrow> bool" where
  "ok_part_value p \<longleftrightarrow> is_name (fst p) \<and> wf_num (snd p)"

lemma lexes_part: "ok_part_value p \<Longrightarrow> lexes (part_text p) (part_tokens p)"
proof -
  assume a: "ok_part_value p"
  have "lexes (fst p @ CHR '' '' # ''*'' @ CHR '' '' # show_num (snd p)) ([TId (fst p)] @ [TOp ''*''] @ num_tokens (snd p))"
    using a by (intro lexes_spaced lexes_name lexes_op lexes_num) (simp_all add: ok_part_value_def)
  then show ?thesis by (simp add: part_text_def part_tokens_def)
qed

lemma lexes_parts:
  "\<forall>p \<in> set ps. ok_part_value p \<Longrightarrow> lexes u us \<Longrightarrow>
   lexes (u @ concat (map (\<lambda>p. '' + '' @ part_text p) ps)) (us @ concat (map (\<lambda>p. TOp ''+'' # part_tokens p) ps))"
proof (induction ps arbitrary: u us)
  case (Cons p ps)
  have p: "lexes (''+'' @ CHR '' '' # part_text p) ([TOp ''+''] @ part_tokens p)"
    using Cons.prems by (intro lexes_spaced lexes_op lexes_part) simp_all
  have "lexes (u @ CHR '' '' # (''+'' @ CHR '' '' # part_text p)) (us @ [TOp ''+''] @ part_tokens p)"
    by (rule lexes_spaced [OF Cons.prems(2) p])
  then have "lexes ((u @ '' + '' @ part_text p) @ concat (map (\<lambda>p. '' + '' @ part_text p) ps))
     ((us @ TOp ''+'' # part_tokens p) @ concat (map (\<lambda>p. TOp ''+'' # part_tokens p) ps))"
    using Cons by (intro Cons.IH) simp_all
  then show ?case by simp
qed simp

lemma cost_var_names: "\<forall>v \<in> set cacheVarNames. is_name v"
  by (simp add: cacheVarNames_def BILLING_CACHE_VAR_MAP_def BILLING_EXTRA_VARS_def BILLING_VARS_def is_name_def id_char_def
      id_start_def is_digit_def)

lemma cost_parts_values:
  assumes "wf_tier t" "p \<in> set (cost_parts t)"
  shows "ok_part_value p \<and> fst p \<in> set cacheVarNames"
proof -
  obtain f v where m: "(f, v) \<in> set COST_NAMES" and p: "p = (v, number_or_zero (oget (costs t) f))"
    using assms(2) by (auto simp: cost_parts_def cost_names)
  have "f \<in> set COST_FIELDS" using m by (force simp flip: cost_fields(1))
  moreover have "v \<in> set cacheVarNames" using m by (force simp: cacheVarNames_def cost_names)
  ultimately show ?thesis using assms(1) cost_var_names by (auto simp: p ok_part_value_def wf_tier_def)
qed

lemma body_part_values: "wf_tier t \<Longrightarrow> \<forall>p \<in> set (body_parts t). ok_part_value p"
  using cost_parts_values [of t]
  by (auto simp: body_parts_def ok_part_value_def wf_tier_def is_name_def id_char_def id_start_def)

lemma lexes_body:
  assumes "wf_tier t"
  shows "lexes (buildTierBodyExpr t) (body_tokens t)"
proof -
  obtain p ps where ps: "body_parts t = p # ps" by (simp add: body_parts_def)
  have "buildTierBodyExpr t = join '' + '' (map part_text (body_parts t))" by (simp add: buildTierBodyExpr_def body_parts_def)
  then have e: "buildTierBodyExpr t = part_text p @ concat (map (\<lambda>p. '' + '' @ part_text p) ps)"
    by (simp add: ps join_Cons_concat comp_def)
  show ?thesis unfolding e body_tokens_def ps list.sel
    using body_part_values [OF assms] by (intro lexes_parts lexes_part) (simp_all add: ps)
qed

lemma lexes_tier:
  assumes "wf_tier t" "\<forall>c \<in> set l. str_char c"
  shows "lexes (tier_text l t) (tier_tokens l t)"
  unfolding lexes_def
proof (intro allI impI)
  fix r assume r: "sep r"
  define body where "body = CHR '' '' # buildTierBodyExpr t @ CHR '')'' # r"
  have 1: "lex_all (CHR '')'' # r) = map_option (\<lambda>ks. TOp '')'' # ks) (lex_all r)"
    by (rule lex_step) (auto simp: lex_one_def lex_op_def OPS_def OTHER_OPS_def starts_with_def is_digit_def id_start_def)
  have 2: "lex_all body = map_option (\<lambda>ks. body_tokens t @ TOp '')'' # ks) (lex_all r)"
    using lexesD [OF lexes_body [OF assms(1)], of "CHR '')'' # r"] 1 by (simp add: body_def lex_space sep_def option.map_comp comp_def)
  have 3: "lex_all (CHR '','' # body) = map_option (\<lambda>ks. TOp '','' # ks) (lex_all body)"
    by (rule lex_step) (auto simp: lex_one_def lex_op_def OPS_def OTHER_OPS_def starts_with_def is_digit_def id_start_def)
  have s: "takeWhile str_char (l @ dquote # CHR '','' # body) = l" "dropWhile str_char (l @ dquote # CHR '','' # body) = dquote # CHR '','' # body"
    using assms(2) by (simp_all add: str_char_def takeWhile_append2 dropWhile_append2)
  have 4: "lex_all (dquote # l @ dquote # CHR '','' # body) = map_option (\<lambda>ks. TStr l # ks) (lex_all (CHR '','' # body))"
    by (rule lex_step) (simp_all add: lex_one_def lex_str_def s is_digit_def id_start_def)
  have 5: "lex_all (CHR ''('' # dquote # l @ dquote # CHR '','' # body) = map_option (\<lambda>ks. TOp ''('' # ks) (lex_all (dquote # l @ dquote # CHR '','' # body))"
    by (rule lex_step) (auto simp: lex_one_def lex_op_def OPS_def OTHER_OPS_def starts_with_def is_digit_def id_start_def is_ws_def)
  have 6: "lex_all (''tier('' @ dquote # l @ dquote # CHR '','' # body)
     = map_option (\<lambda>ks. TId ''tier'' # ks) (lex_all (CHR ''('' # dquote # l @ dquote # CHR '','' # body))"
    by (rule lex_step) (auto simp: lex_one_def id_char_def is_digit_def id_start_def is_ws_def)
  have "tier_text l t @ r = ''tier('' @ dquote # l @ dquote # CHR '','' # body" by (simp add: tier_text_def body_def)
  then show "lex_all (tier_text l t @ r) = map_option (\<lambda>ks. tier_tokens l t @ ks) (lex_all r)"
    using 2 3 4 5 6 by (simp add: tier_tokens_def option.map_comp comp_def)
qed

definition cond_num :: "TierConditionInput \<Rightarrow> num" where
  "cond_num c = (case js_Number (value_text (cval c)) of Some n \<Rightarrow> n | None \<Rightarrow> zero_num)"

definition cond_tokens :: "TierConditionInput \<Rightarrow> token list" where
  "cond_tokens c = [TId (var_text (cvar c)), TOp (op_text (cop c)), TNum (cond_num c)]"

definition conds_tokens :: "TierConditionInput list \<Rightarrow> token list" where
  "conds_tokens cs = (case cs of [] \<Rightarrow> [] | c # ds \<Rightarrow> cond_tokens c @ concat (map (\<lambda>d. TOp ''&&'' # cond_tokens d) ds))"

lemma js_Number_wf: "js_Number s = Some n \<Longrightarrow> wf_num n"
  by (auto simp: js_Number_def Let_def wf_canon split: prod.splits if_splits option.splits list.splits)

lemma plain_value_num:
  assumes "plain_value (cval c)"
  shows "value_text (cval c) = show_num (cond_num c)" "wf_num (cond_num c)" "0 \<le> mant (cond_num c)"
proof -
  obtain n where n: "js_Number (value_text (cval c)) = Some n" and t: "show_num n = value_text (cval c)"
    using assms by (auto simp: plain_value_def split: option.splits)
  have e: "cond_num c = n" by (simp add: cond_num_def n)
  show "value_text (cval c) = show_num (cond_num c)" "wf_num (cond_num c)" using t js_Number_wf [OF n] by (simp_all add: e)
  show "0 \<le> mant (cond_num c)"
  proof (rule ccontr)
    assume "\<not> 0 \<le> mant (cond_num c)"
    then have "CHR ''-'' \<in> set (show_num n)" by (simp add: show_num_def e Let_def)
    then have "CHR ''-'' \<in> set (value_text (cval c))" using t by simp
    then show False using assms by (auto simp: plain_value_def ok_value_def cond_char_def)
  qed
qed

lemma lexes_cond: "plain_value (cval c) \<Longrightarrow> lexes (cond_text c) (cond_tokens c)"
proof -
  assume a: "plain_value (cval c)"
  have v: "is_name (var_text (cvar c))" by (cases "cvar c") (simp_all add: var_text_def is_name_def id_char_def id_start_def)
  have q: "lexes (op_text (cop c)) [TOp (op_text (cop c))]" by (rule lexes_op) (cases "cop c"; simp add: op_text_def)
  have "lexes (var_text (cvar c) @ CHR '' '' # op_text (cop c) @ CHR '' '' # show_num (cond_num c))
     ([TId (var_text (cvar c))] @ [TOp (op_text (cop c))] @ [TNum (cond_num c)])"
    by (intro lexes_spaced lexes_name v q lexes_nonneg plain_value_num [OF a])
  then show ?thesis by (simp add: cond_text_def cond_tokens_def plain_value_num(1) [OF a])
qed

lemma lexes_more_conds:
  "\<forall>c \<in> set cs. plain_value (cval c) \<Longrightarrow> lexes u us \<Longrightarrow>
   lexes (u @ more_conds cs) (us @ concat (map (\<lambda>d. TOp ''&&'' # cond_tokens d) cs))"
proof (induction cs arbitrary: u us)
  case (Cons c cs)
  have p: "lexes (''&&'' @ CHR '' '' # cond_text c) ([TOp ''&&''] @ cond_tokens c)"
    using Cons.prems by (intro lexes_spaced lexes_op lexes_cond) simp_all
  have "lexes (u @ CHR '' '' # (''&&'' @ CHR '' '' # cond_text c)) (us @ [TOp ''&&''] @ cond_tokens c)"
    by (rule lexes_spaced [OF Cons.prems(2) p])
  then have "lexes ((u @ '' && '' @ cond_text c) @ more_conds cs)
     ((us @ TOp ''&&'' # cond_tokens c) @ concat (map (\<lambda>d. TOp ''&&'' # cond_tokens d) cs))"
    using Cons by (intro Cons.IH) simp_all
  then show ?case by (simp add: more_conds_def)
qed (simp add: more_conds_def)

lemma lexes_conds: "cs \<noteq> [] \<Longrightarrow> \<forall>c \<in> set cs. plain_value (cval c) \<Longrightarrow> lexes (conds_text cs) (conds_tokens cs)"
  by (cases cs) (auto simp: conds_text_Cons conds_tokens_def intro!: lexes_more_conds lexes_cond)

definition guard_tokens :: "TierConditionInput list \<Rightarrow> token list" where
  "guard_tokens cs = (if cs = [] then [] else conds_tokens cs @ [TOp ''?''])"

definition plain_part :: "TierConditionInput list \<times> string \<times> VisualTier \<Rightarrow> bool" where
  "plain_part p \<longleftrightarrow> (\<forall>c \<in> set (fst p). plain_value (cval c)) \<and> (\<forall>c \<in> set (fst (snd p)). str_char c) \<and> wf_tier (snd (snd p))"

lemma lexes_tier_part:
  assumes "plain_part p"
  shows "lexes (part_expr p) (guard_tokens (fst p) @ tier_tokens (fst (snd p)) (snd (snd p)))"
proof -
  have t: "lexes (tier_text (fst (snd p)) (snd (snd p))) (tier_tokens (fst (snd p)) (snd (snd p)))"
    using assms by (intro lexes_tier) (simp_all add: plain_part_def)
  show ?thesis
  proof (cases "fst p = []")
    case True
    with t show ?thesis by (simp add: part_expr_def guarded_tier_text_def guard_tokens_def)
  next
    case False
    have "lexes (conds_text (fst p) @ CHR '' '' # ''?'' @ CHR '' '' # tier_text (fst (snd p)) (snd (snd p)))
       (conds_tokens (fst p) @ [TOp ''?''] @ tier_tokens (fst (snd p)) (snd (snd p)))"
      using assms False by (intro lexes_spaced lexes_op lexes_conds t) (simp_all add: plain_part_def)
    with False show ?thesis by (simp add: part_expr_def guarded_tier_text_def guard_tokens_def)
  qed
qed

subsection \<open>Parsing\<close>

text \<open>
  Where an expression of level \<open>lv\<close> ends, and the tokens \<open>u\<close> that are read as \<open>e\<close> at that level. The fuel counts
  eight steps for every token, which is more than the six levels through which a token is read and the step of its chain.
\<close>

definition stop :: "nat \<Rightarrow> token list \<Rightarrow> bool" where
  "stop lv r \<longleftrightarrow>
     (case r of
        [] \<Rightarrow> True
      | TOp q # _ \<Rightarrow> q \<noteq> ''('' \<and> (case prec q of None \<Rightarrow> True | Some k \<Rightarrow> k < lv)
      | _ \<Rightarrow> False)"

definition parses :: "nat \<Rightarrow> token list \<Rightarrow> expr \<Rightarrow> bool" where
  "parses lv u e \<longleftrightarrow> (\<forall>r n. stop lv r \<longrightarrow> 8 * length u + 6 \<le> n + lv \<longrightarrow> expr_at n lv (u @ r) = Some (e, r))"

lemma parsesD: "parses lv u e \<Longrightarrow> stop lv r \<Longrightarrow> 8 * length u + 6 \<le> n + lv \<Longrightarrow> expr_at n lv (u @ r) = Some (e, r)"
  by (simp add: parses_def)

lemma stop_mono: "stop lv r \<Longrightarrow> lv \<le> lv' \<Longrightarrow> stop lv' r"
  by (auto simp: stop_def split: list.splits token.splits option.splits)

lemma chain_stop: "stop lv r \<Longrightarrow> 0 < n \<Longrightarrow> chain n lv a r = Some (a, r)"
  by (cases n) (auto simp: stop_def split: list.splits token.splits option.splits)

lemma chain_items:
  assumes "1 \<le> lv" "lv \<le> 4" "stop lv r"
    and "\<forall>(q, u, e) \<in> set items. prec q = Some lv \<and> parses (lv + 1) u e"
    and "8 * length (concat (map (\<lambda>(q, u, e). TOp q # u) items)) + 6 \<le> n + lv"
  shows "chain n lv a (concat (map (\<lambda>(q, u, e). TOp q # u) items) @ r)
    = Some (foldl (\<lambda>b (q, u, e). EBin q b e) a items, r)"
  using assms
proof (induction items arbitrary: n a)
  case Nil
  then show ?case by (simp add: chain_stop)
next
  case (Cons it items)
  obtain q u e where it: "it = (q, u, e)" by (cases it) auto
  define rest where "rest = concat (map (\<lambda>(q, u, e). TOp q # u) items)"
  have q: "prec q = Some lv" "parses (lv + 1) u e" using Cons.prems(4) it by auto
  obtain m where n: "n = Suc m" using Cons.prems(2,5) it by (cases n) auto
  have st: "stop (lv + 1) (rest @ r)"
  proof (cases items)
    case Nil
    then show ?thesis using Cons.prems(3) by (simp add: rest_def stop_mono)
  next
    case (Cons it' its)
    then obtain q' u' e' where "it' = (q', u', e')" "prec q' = Some lv" using Cons.prems(4) by (cases it') auto
    then show ?thesis using Cons by (auto simp: rest_def stop_def prec_def)
  qed
  have "expr_at m (lv + 1) (u @ rest @ r) = Some (e, rest @ r)"
    using Cons.prems(5) by (intro parsesD [OF q(2) st]) (simp add: it n)
  moreover have "chain m lv (EBin q a e) (rest @ r) = Some (foldl (\<lambda>b (q, u, e). EBin q b e) (EBin q a e) items, r)"
    unfolding rest_def using Cons.prems by (intro Cons.IH) (auto simp: it n)
  ultimately show ?case by (simp add: it n rest_def q(1))
qed

lemma parses_chain:
  assumes "1 \<le> lv" "lv \<le> 4" "parses (lv + 1) u e" "\<forall>(q, u, e) \<in> set items. prec q = Some lv \<and> parses (lv + 1) u e"
  shows "parses lv (u @ concat (map (\<lambda>(q, u, e). TOp q # u) items)) (foldl (\<lambda>b (q, u, e). EBin q b e) e items)"
  unfolding parses_def
proof (intro allI impI)
  fix r n
  assume st: "stop lv r" and n: "8 * length (u @ concat (map (\<lambda>(q, u, e). TOp q # u) items)) + 6 \<le> n + lv"
  define rest where "rest = concat (map (\<lambda>(q, u, e). TOp q # u) items)"
  obtain m where m: "n = Suc m" using n assms(2) by (cases n) auto
  have st': "stop (lv + 1) (rest @ r)"
  proof (cases items)
    case Nil
    then show ?thesis using st by (simp add: rest_def stop_mono)
  next
    case (Cons it' its)
    then obtain q' u' e' where "it' = (q', u', e')" "prec q' = Some lv" using assms(4) by (cases it') auto
    then show ?thesis using Cons by (auto simp: rest_def stop_def prec_def)
  qed
  have 1: "expr_at m (lv + 1) (u @ rest @ r) = Some (e, rest @ r)"
    using n by (intro parsesD [OF assms(3) st']) (simp add: m)
  have 2: "chain m lv e (rest @ r) = Some (foldl (\<lambda>b (q, u, e). EBin q b e) e items, r)" if "u \<noteq> []"
    unfolding rest_def
  proof (rule chain_items [OF assms(1,2) st assms(4)])
    have "1 \<le> length u" using that by (cases u) simp_all
    then show "8 * length (concat (map (\<lambda>(q, u, e). TOp q # u) items)) + 6 \<le> m + lv" using n by (simp add: m)
  qed
  have u: "u \<noteq> []"
  proof
    assume "u = []"
    with parsesD [OF assms(3), of "[]" 6] show False using assms(1,2)
      by (auto simp: stop_def eval_nat_numeral le_Suc_eq)
  qed
  show "expr_at n lv ((u @ concat (map (\<lambda>(q, u, e). TOp q # u) items)) @ r) = Some (foldl (\<lambda>b (q, u, e). EBin q b e) e items, r)"
    using 1 2 [OF u] assms(1,2) by (simp add: m rest_def)
qed

lemma parses_lift: "1 \<le> lv \<Longrightarrow> lv \<le> 4 \<Longrightarrow> parses (lv + 1) u e \<Longrightarrow> parses lv u e"
  using parses_chain [of lv u e "[]"] by simp

lemma parses_0: "parses 1 u e \<Longrightarrow> parses 0 u e"
  unfolding parses_def
proof (intro allI impI)
  fix r n
  assume p: "\<forall>r n. stop 1 r \<longrightarrow> 8 * length u + 6 \<le> n + 1 \<longrightarrow> expr_at n 1 (u @ r) = Some (e, r)"
    and st: "stop 0 r" and n: "8 * length u + 6 \<le> n + 0"
  obtain m where m: "n = Suc m" using n by (cases n) auto
  have "expr_at m 1 (u @ r) = Some (e, r)" using p stop_mono [OF st] n by (simp add: m)
  then show "expr_at n 0 (u @ r) = Some (e, r)" using st
    by (auto simp: m stop_def prec_def split: list.splits token.splits)
qed

lemma parses_up: "k \<le> 5 \<Longrightarrow> 1 \<le> k \<Longrightarrow> parses 5 u e \<Longrightarrow> parses k u e"
proof -
  assume a: "k \<le> 5" "1 \<le> k" "parses 5 u e"
  have 4: "parses 4 u e" using parses_lift [of 4 u e] a(3) by (simp add: eval_nat_numeral)
  have 3: "parses 3 u e" using parses_lift [of 3 u e] 4 by (simp add: eval_nat_numeral)
  have 2: "parses 2 u e" using parses_lift [of 2 u e] 3 by (simp add: eval_nat_numeral)
  have 1: "parses 1 u e" using parses_lift [of 1 u e] 2 by (simp add: eval_nat_numeral)
  have "k = 1 \<or> k = 2 \<or> k = 3 \<or> k = 4 \<or> k = 5" using a by auto
  then show ?thesis using 1 2 3 4 a(3) by auto
qed

lemma parses_var: "parses 5 [TId v] (EVar v)"
  unfolding parses_def
proof (intro allI impI)
  fix r n assume "stop 5 r" "8 * length [TId v] + 6 \<le> n + 5"
  then obtain m where "n = Suc m" by (cases n) auto
  with \<open>stop 5 r\<close> show "expr_at n 5 ([TId v] @ r) = Some (EVar v, r)"
    by (auto simp: stop_def split: list.splits token.splits)
qed

lemma parses_lit: "parses 5 [TNum x] (ENum x)" "parses 5 [TStr s] (EStr s)"
proof -
  have "expr_at n 5 (TNum x # r) = Some (ENum x, r) \<and> expr_at n 5 (TStr s # r) = Some (EStr s, r)" if "14 \<le> n + 5" for n r
    using that by (cases n) simp_all
  then show "parses 5 [TNum x] (ENum x)" "parses 5 [TStr s] (EStr s)" by (simp_all add: parses_def)
qed

lemma parses_num: "parses 5 (num_tokens x) (num_expr x)"
proof (cases "mant x < 0")
  case True
  define y where "y = Dec (- mant x) (expo x)"
  have "expr_at n 5 ([TOp ''-'', TNum y] @ r) = Some (ENeg (ENum y), r)" if st: "stop 5 r" and n: "22 \<le> n + 5" for r n
  proof -
    obtain m where m: "n = Suc m" using n by (cases n) auto
    have "expr_at m 5 ([TNum y] @ r) = Some (ENum y, r)" using n m by (intro parsesD [OF parses_lit(1) st]) simp
    then show ?thesis by (simp add: m)
  qed
  then show ?thesis using True by (simp add: parses_def num_tokens_def num_expr_def y_def)
next
  case False
  then show ?thesis using parses_lit by (simp add: num_tokens_def num_expr_def)
qed

lemma expr_call: "expr_at (Suc n) 5 (TId f # TOp ''('' # r) = Option.bind (args n r) (\<lambda>(es, r'). Some (ECall f es, r'))"
  by simp

lemma args_last: "expr_at n 0 ts = Some (e, TOp '')'' # r) \<Longrightarrow> args (Suc n) ts = Some ([e], r)"
  by simp

lemma args_more:
  "expr_at n 0 ts = Some (e, TOp '','' # r) \<Longrightarrow> args n r = Some (es, r') \<Longrightarrow> args (Suc n) ts = Some (e # es, r')"
  by simp

lemma parses_call:
  assumes "parses 0 u a" "parses 0 v b"
  shows "parses 5 ([TId f, TOp ''(''] @ u @ [TOp '',''] @ v @ [TOp '')'']) (ECall f [a, b])"
  unfolding parses_def
proof (intro allI impI)
  fix r n assume st: "stop 5 r" and n: "8 * length ([TId f, TOp ''(''] @ u @ [TOp '',''] @ v @ [TOp '')'']) + 6 \<le> n + 5"
  obtain k where k: "n = Suc (Suc (Suc k))" using n by (cases n; cases "n - 1"; cases "n - 2") auto
  have "expr_at (Suc k) 0 (u @ TOp '','' # v @ TOp '')'' # r) = Some (a, TOp '','' # v @ TOp '')'' # r)"
    using n k by (intro parsesD [OF assms(1)]) (auto simp: stop_def prec_def)
  moreover have "expr_at k 0 (v @ TOp '')'' # r) = Some (b, TOp '')'' # r)"
    using n k by (intro parsesD [OF assms(2)]) (auto simp: stop_def prec_def)
  ultimately have "args (Suc (Suc k)) (u @ TOp '','' # v @ TOp '')'' # r) = Some ([a, b], r)"
    by (intro args_more args_last)
  then show "expr_at n 5 (([TId f, TOp ''(''] @ u @ [TOp '',''] @ v @ [TOp '')'']) @ r) = Some (ECall f [a, b], r)"
    by (simp only: k append.simps append_assoc expr_call) simp
qed

lemma parses_cond:
  assumes "parses 1 u a" "parses 0 v b" "parses 0 w c"
  shows "parses 0 (u @ [TOp ''?''] @ v @ [TOp '':''] @ w) (ECond a b c)"
  unfolding parses_def
proof (intro allI impI)
  fix r n assume st: "stop 0 r" and n: "8 * length (u @ [TOp ''?''] @ v @ [TOp '':''] @ w) + 6 \<le> n + 0"
  obtain m where m: "n = Suc m" using n by (cases n) auto
  have 1: "expr_at m 1 (u @ TOp ''?'' # v @ TOp '':'' # w @ r) = Some (a, TOp ''?'' # v @ TOp '':'' # w @ r)"
    using n m by (intro parsesD [OF assms(1)]) (auto simp: stop_def prec_def)
  have 2: "expr_at m 0 (v @ TOp '':'' # w @ r) = Some (b, TOp '':'' # w @ r)"
    using n m by (intro parsesD [OF assms(2)]) (auto simp: stop_def prec_def)
  have 3: "expr_at m 0 (w @ r) = Some (c, r)" using n m by (intro parsesD [OF assms(3) st]) auto
  show "expr_at n 0 ((u @ [TOp ''?''] @ v @ [TOp '':''] @ w) @ r) = Some (ECond a b c, r)"
    using 1 2 3 by (simp add: m)
qed

subsection \<open>The expression meant and its value\<close>

definition part_term :: "string \<times> num \<Rightarrow> expr" where
  "part_term p = EBin ''*'' (EVar (fst p)) (num_expr (snd p))"

definition sum_expr :: "expr \<Rightarrow> (string \<times> num) list \<Rightarrow> expr" where
  "sum_expr e ps = foldl (\<lambda>b (q, u, e). EBin q b e) e (map (\<lambda>p. (''+'', part_tokens p, part_term p)) ps)"

definition tier_expr :: "string \<Rightarrow> VisualTier \<Rightarrow> expr" where
  "tier_expr l t = ECall ''tier'' [EStr l, sum_expr (part_term (hd (body_parts t))) (tl (body_parts t))]"

definition cond_term :: "TierConditionInput \<Rightarrow> expr" where
  "cond_term c = EBin (op_text (cop c)) (EVar (var_text (cvar c))) (ENum (cond_num c))"

definition conds_expr :: "expr \<Rightarrow> TierConditionInput list \<Rightarrow> expr" where
  "conds_expr e cs = foldl (\<lambda>b (q, u, e). EBin q b e) e (map (\<lambda>c. (''&&'', cond_tokens c, cond_term c)) cs)"

lemma parses_part: "parses 4 (part_tokens p) (part_term p)"
  using parses_chain [of 4 "[TId (fst p)]" "EVar (fst p)" "[(''*'', num_tokens (snd p), num_expr (snd p))]"]
    parses_var parses_num by (simp add: part_tokens_def part_term_def prec_def)

lemma parses_sum:
  "parses 3 (part_tokens p @ concat (map (\<lambda>p. TOp ''+'' # part_tokens p) ps)) (sum_expr (part_term p) ps)"
  using parses_chain [of 3 "part_tokens p" "part_term p" "map (\<lambda>p. (''+'', part_tokens p, part_term p)) ps"] parses_part
  by (simp add: sum_expr_def prec_def comp_def)

lemma parses_tier: "parses 0 (tier_tokens l t) (tier_expr l t)"
proof -
  have b: "parses 3 (body_tokens t) (sum_expr (part_term (hd (body_parts t))) (tl (body_parts t)))"
    unfolding body_tokens_def by (rule parses_sum)
  have 2: "parses 2 (body_tokens t) (sum_expr (part_term (hd (body_parts t))) (tl (body_parts t)))"
    using parses_lift [of 2] b by (simp add: eval_nat_numeral)
  have 1: "parses 1 (body_tokens t) (sum_expr (part_term (hd (body_parts t))) (tl (body_parts t)))"
    using parses_lift [of 1] 2 by (simp add: eval_nat_numeral)
  have s: "parses 0 [TStr l] (EStr l)" by (rule parses_0, rule parses_up [OF _ _ parses_lit(2)]) simp_all
  have c: "parses 5 (tier_tokens l t) (tier_expr l t)"
    using parses_call [OF s parses_0 [OF 1], of "''tier''"] by (simp add: tier_tokens_def tier_expr_def)
  show ?thesis by (rule parses_0, rule parses_up [OF _ _ c]) simp_all
qed

lemma parses_cond_term: "parses 2 (cond_tokens c) (cond_term c)"
proof -
  have "prec (op_text (cop c)) = Some 2" by (cases "cop c") (simp_all add: op_text_def prec_def)
  moreover have "parses 3 [TId (var_text (cvar c))] (EVar (var_text (cvar c)))" "parses 3 [TNum (cond_num c)] (ENum (cond_num c))"
    by (rule parses_up [OF _ _ parses_var] parses_up [OF _ _ parses_lit(1)]; simp)+
  ultimately show ?thesis
    using parses_chain [of 2 "[TId (var_text (cvar c))]" "EVar (var_text (cvar c))" "[(op_text (cop c), [TNum (cond_num c)], ENum (cond_num c))]"]
    by (simp add: cond_tokens_def cond_term_def)
qed

lemma parses_conds: "parses 1 (conds_tokens (c # cs)) (conds_expr (cond_term c) cs)"
  using parses_chain [of 1 "cond_tokens c" "cond_term c" "map (\<lambda>c. (''&&'', cond_tokens c, cond_term c)) cs"] parses_cond_term
  by (simp add: conds_tokens_def conds_expr_def prec_def comp_def eval_nat_numeral)

text \<open>The guarded tiers in front of an expression.\<close>

definition guards_tokens :: "(TierConditionInput list \<times> string \<times> VisualTier) list \<Rightarrow> token list \<Rightarrow> token list" where
  "guards_tokens ps w = concat (map (\<lambda>p. guard_tokens (fst p) @ tier_tokens (fst (snd p)) (snd (snd p)) @ [TOp '':'']) ps) @ w"

fun guards_expr :: "(TierConditionInput list \<times> string \<times> VisualTier) list \<Rightarrow> expr \<Rightarrow> expr" where
  "guards_expr [] e = e"
| "guards_expr ((cs, l, t) # ps) e = ECond (conds_expr (cond_term (hd cs)) (tl cs)) (tier_expr l t) (guards_expr ps e)"

lemma parses_guards:
  assumes "parses 0 w e" "\<forall>p \<in> set ps. fst p \<noteq> []"
  shows "parses 0 (guards_tokens ps w) (guards_expr ps e)"
  using assms(2)
proof (induction ps)
  case Nil
  then show ?case using assms(1) by (simp add: guards_tokens_def)
next
  case (Cons p ps)
  obtain c cs l t where p: "p = (c # cs, l, t)" using Cons.prems by (cases p; cases "fst p") auto
  have "parses 0 (guards_tokens ps w) (guards_expr ps e)" using Cons by simp
  from parses_cond [OF parses_conds [of c cs] parses_tier [of l t] this]
  show ?case by (simp add: p guards_tokens_def guard_tokens_def)
qed

subsection \<open>Evaluation\<close>

text \<open>The token counts by variable.\<close>

definition cond_holds :: "(string \<Rightarrow> rat) \<Rightarrow> TierConditionInput \<Rightarrow> bool" where
  "cond_holds tok c =
     (let a = tok (var_text (cvar c)); b = rat_of (cond_num c)
      in case cop c of OpLt \<Rightarrow> a < b | OpLe \<Rightarrow> a \<le> b | OpGt \<Rightarrow> b < a | OpGe \<Rightarrow> b \<le> a)"

definition tier_price :: "(string \<Rightarrow> rat) \<Rightarrow> VisualTier \<Rightarrow> rat" where
  "tier_price tok t =
     tok ''p'' * rat_of (number_or_zero (input_unit_cost t)) + tok ''c'' * rat_of (number_or_zero (output_unit_cost t))
     + sum_list (map (\<lambda>(f, v). tok v * rat_of (number_or_zero (oget (costs t) f))) COST_NAMES)"

text \<open>The price and the label of the first part whose conditions all hold.\<close>

fun first_price :: "(string \<Rightarrow> rat) \<Rightarrow> (TierConditionInput list \<times> string \<times> VisualTier) list \<Rightarrow> rat \<times> string" where
  "first_price tok [] = (0, '''')"
| "first_price tok ((cs, l, t) # ps) = (if \<forall>c \<in> set cs. cond_holds tok c then (tier_price tok t, l) else first_price tok ps)"

definition knows :: "(string \<Rightarrow> rat option) \<Rightarrow> (string \<Rightarrow> rat) \<Rightarrow> bool" where
  "knows env tok \<longleftrightarrow> (\<forall>v \<in> {''p'', ''c'', ''len''} \<union> set cacheVarNames. env v = Some (tok v))"

lemma eval_num: "eval env (num_expr x) m = Some (VNum (rat_of x), m)"
  by (simp add: num_expr_def rat_of_def)

lemma eval_part: "env (fst p) = Some (tok (fst p)) \<Longrightarrow> eval env (part_term p) m = Some (VNum (tok (fst p) * rat_of (snd p)), m)"
  by (simp add: part_term_def eval_num js_binary_def)

lemma eval_sum:
  "eval env e m = Some (VNum r, m) \<Longrightarrow> \<forall>p \<in> set ps. env (fst p) = Some (tok (fst p)) \<Longrightarrow>
   eval env (sum_expr e ps) m = Some (VNum (r + sum_list (map (\<lambda>p. tok (fst p) * rat_of (snd p)) ps)), m)"
proof (induction ps arbitrary: e r)
  case (Cons p ps)
  have "eval env (EBin ''+'' e (part_term p)) m = Some (VNum (r + tok (fst p) * rat_of (snd p)), m)"
    using Cons.prems eval_part [of env p tok m] by (simp add: js_binary_def)
  from Cons.IH [OF this] Cons.prems show ?case by (simp add: sum_expr_def algebra_simps)
qed (simp add: sum_expr_def)

lemma rat_of_zero [simp]: "rat_of zero_num = 0"
  by (simp add: rat_of_def zero_num_def)

lemma sum_nonzero: "sum_list (map (\<lambda>p. tok (fst p) * rat_of (snd p)) (filter (\<lambda>p. snd p \<noteq> zero_num) ps))
    = sum_list (map (\<lambda>p. tok (fst p) * rat_of (snd p)) ps)"
  by (induction ps) auto

lemma body_price: "sum_list (map (\<lambda>p. tok (fst p) * rat_of (snd p)) (body_parts t)) = tier_price tok t"
  by (simp add: body_parts_def cost_parts_def case_prod_unfold sum_nonzero) (simp add: tier_price_def cost_names comp_def case_prod_unfold)

lemma eval_tier:
  assumes "knows env tok"
  shows "eval env (tier_expr l t) m = Some (VNum (tier_price tok t), l)"
proof -
  obtain p ps where ps: "body_parts t = p # ps" by (simp add: body_parts_def)
  have "fst q \<in> {''p'', ''c''} \<union> set cacheVarNames" if "q \<in> set (body_parts t)" for q
    using that by (force simp: body_parts_def cost_parts_def cacheVarNames_def)
  with assms have k: "\<forall>q \<in> set (body_parts t). env (fst q) = Some (tok (fst q))" unfolding knows_def by blast
  have "eval env (sum_expr (part_term p) ps) m = Some (VNum (tok (fst p) * rat_of (snd p) + sum_list (map (\<lambda>p. tok (fst p) * rat_of (snd p)) ps)), m)"
    using k by (intro eval_sum eval_part) (simp_all add: ps)
  then show ?thesis using body_price [of tok t] by (simp add: tier_expr_def ps js_call_def)
qed

lemma eval_cond: "knows env tok \<Longrightarrow> eval env (cond_term c) m = Some (VBool (cond_holds tok c), m)"
  by (cases "cvar c"; cases "cop c")
    (simp_all add: knows_def cond_term_def cond_holds_def js_binary_def op_text_def var_text_def)

lemma eval_conds:
  "knows env tok \<Longrightarrow> eval env e m = Some (VBool b, m) \<Longrightarrow>
   eval env (conds_expr e cs) m = Some (VBool (b \<and> (\<forall>c \<in> set cs. cond_holds tok c)), m)"
proof (induction cs arbitrary: e b)
  case (Cons c cs)
  have "eval env (EBin ''&&'' e (cond_term c)) m = Some (VBool (b \<and> cond_holds tok c), m)"
    using Cons.prems eval_cond [OF Cons.prems(1), of c m] by (simp add: truthy_value_def)
  from Cons.IH [OF Cons.prems(1) this] show ?case by (simp add: conds_expr_def)
qed (simp add: conds_expr_def)

lemma eval_guards:
  assumes "knows env tok" "\<forall>p \<in> set ps. fst p \<noteq> []"
    and "eval env e m = Some (VNum (fst (first_price tok zs)), snd (first_price tok zs))"
  shows "eval env (guards_expr ps e) m = Some (VNum (fst (first_price tok (ps @ zs))), snd (first_price tok (ps @ zs)))"
  using assms(2)
proof (induction ps)
  case Nil
  then show ?case using assms(3) by simp
next
  case (Cons p ps)
  obtain c cs l t where p: "p = (c # cs, l, t)" using Cons.prems by (cases p; cases "fst p") auto
  have "eval env (conds_expr (cond_term c) cs) m = Some (VBool (\<forall>c \<in> set (c # cs). cond_holds tok c), m)"
    using eval_conds [OF assms(1) eval_cond [OF assms(1)], of c cs m] by simp
  with Cons eval_tier [OF assms(1), of l t m] show ?case by (simp add: p truthy_value_def)
qed

subsection \<open>The estimate\<close>

definition plain_label :: "VisualTier \<Rightarrow> bool" where
  "plain_label t \<longleftrightarrow> (case tlabel t of Some l \<Rightarrow> (\<forall>c \<in> set l. str_char c) | None \<Rightarrow> True)"

lemma label_chars: "plain_label t \<Longrightarrow> \<forall>c \<in> set d. str_char c \<Longrightarrow> \<forall>c \<in> set (label_or d t). str_char c"
  by (auto simp: plain_label_def label_or_def split: option.splits)

lemma str_char_digit: "is_digit c \<Longrightarrow> str_char c"
  by (auto simp: str_char_def is_digit_def)

lemma tier_n_chars: "\<forall>c \<in> set (''tier_'' @ show_nat n). str_char c"
  using show_nat_digits str_char_digit by (auto simp: str_char_def)

lemma parts_plain:
  assumes "\<forall>t \<in> set ts. plain_tier t \<and> plain_label t"
  shows "\<forall>p \<in> set (config_parts ts). plain_part p"
proof -
  have 1: "plain_part (kept t, label_or ''default'' t, t)" "plain_part (kept t, label_or (''tier_'' @ show_nat n) t, t)"
    "plain_part ([], label_or (''tier_'' @ show_nat n) t, t)" if t: "t \<in> set ts" for t n
  proof -
    have k: "\<forall>c \<in> set (kept t). plain_value (cval c)" "wf_tier t" "plain_label t" using assms t by (auto simp: plain_tier_def)
    have d: "\<forall>c \<in> set (label_or ''default'' t). str_char c" by (rule label_chars [OF k(3)]) (simp add: str_char_def)
    have n: "\<forall>c \<in> set (label_or (''tier_'' @ show_nat n) t). str_char c" by (rule label_chars [OF k(3) tier_n_chars])
    show "plain_part (kept t, label_or ''default'' t, t)" "plain_part (kept t, label_or (''tier_'' @ show_nat n) t, t)"
      "plain_part ([], label_or (''tier_'' @ show_nat n) t, t)"
      using k d n unfolding plain_part_def by simp_all
  qed
  show ?thesis
  proof (cases "length ts = 1")
    case True
    then obtain t where "ts = [t]" by (cases ts) auto
    then show ?thesis using 1 by (simp add: config_parts_def)
  next
    case False
    show ?thesis
    proof
      fix p assume "p \<in> set (config_parts ts)"
      then obtain i where i: "i < length ts" and p: "p = config_parts ts ! i" by (auto simp: in_set_conv_nth length_config_parts)
      show "plain_part p" unfolding p config_parts_nth [OF False i] using 1 [OF nth_mem [OF i]] by simp
    qed
  qed
qed

definition toks :: "TierConditionInput list \<times> string \<times> VisualTier \<Rightarrow> token list" where
  "toks p = guard_tokens (fst p) @ tier_tokens (fst (snd p)) (snd (snd p))"

definition more_toks :: "(TierConditionInput list \<times> string \<times> VisualTier) list \<Rightarrow> token list" where
  "more_toks ps = concat (map (\<lambda>p. TOp '':'' # toks p) ps)"

lemma lexes_join_parts:
  "\<forall>p \<in> set ps. plain_part p \<Longrightarrow> lexes u us \<Longrightarrow>
   lexes (u @ concat (map (\<lambda>p. '' : '' @ part_expr p) ps)) (us @ more_toks ps)"
proof (induction ps arbitrary: u us)
  case (Cons p ps)
  have p: "lexes ('':'' @ CHR '' '' # part_expr p) ([TOp '':''] @ toks p)"
    using Cons.prems unfolding toks_def by (intro lexes_spaced lexes_op lexes_tier_part) simp_all
  have "lexes (u @ CHR '' '' # ('':'' @ CHR '' '' # part_expr p)) (us @ [TOp '':''] @ toks p)"
    by (rule lexes_spaced [OF Cons.prems(2) p])
  then have "lexes ((u @ '' : '' @ part_expr p) @ concat (map (\<lambda>p. '' : '' @ part_expr p) ps)) ((us @ TOp '':'' # toks p) @ more_toks ps)"
    using Cons by (intro Cons.IH) simp_all
  then show ?case by (simp add: more_toks_def)
qed (simp add: more_toks_def)

lemma lexes_parts_join:
  assumes "\<forall>p \<in> set (p # ps). plain_part p"
  shows "lexes (join '' : '' (map part_expr (p # ps))) (toks p @ more_toks ps)"
  using lexes_join_parts [of ps "part_expr p" "toks p"] lexes_tier_part [of p] assms
  by (simp add: join_Cons_concat toks_def comp_def)

lemma guards_more: "guards_tokens (p # ps) w = toks p @ more_toks ps @ TOp '':'' # w"
proof (induction ps arbitrary: p)
  case (Cons q ps)
  from Cons.IH [of q] show ?case by (simp add: guards_tokens_def more_toks_def toks_def)
qed (simp add: guards_tokens_def more_toks_def toks_def)

definition zero_tokens :: "token list" where
  "zero_tokens = [TId ''p'', TOp ''*'', TNum zero_num, TOp ''+'', TId ''c'', TOp ''*'', TNum zero_num]"

definition zero_expr :: expr where
  "zero_expr = sum_expr (part_term (''p'', zero_num)) [(''c'', zero_num)]"

lemma zero_parses: "parses 0 zero_tokens zero_expr"
proof -
  have 3: "parses 3 zero_tokens zero_expr"
    using parses_sum [of "(''p'', zero_num)" "[(''c'', zero_num)]"]
    by (simp add: part_tokens_def num_tokens_def zero_num_def zero_tokens_def zero_expr_def)
  have 2: "parses 2 zero_tokens zero_expr" using parses_lift [of 2] 3 by (simp add: eval_nat_numeral)
  have 1: "parses 1 zero_tokens zero_expr" using parses_lift [of 1] 2 by (simp add: eval_nat_numeral)
  show ?thesis by (rule parses_0 [OF 1])
qed

lemma lexes_zero: "lexes ZERO_EXPR zero_tokens"
proof -
  have z: "show_num zero_num = ''0''" "num_tokens zero_num = [TNum zero_num]" "wf_num zero_num"
    by (simp_all add: zero_num_def show_num_def num_tokens_def wf_num_def)
  have "lexes (part_text (''p'', zero_num) @ concat (map (\<lambda>p. '' + '' @ part_text p) [(''c'', zero_num)]))
     (part_tokens (''p'', zero_num) @ concat (map (\<lambda>p. TOp ''+'' # part_tokens p) [(''c'', zero_num)]))"
    by (intro lexes_parts lexes_part) (simp_all add: ok_part_value_def z is_name_def id_char_def id_start_def)
  then show ?thesis by (simp add: ZERO_EXPR_def zero_tokens_def part_text_def part_tokens_def z)
qed

lemma eval_zero: "knows env tok \<Longrightarrow> eval env zero_expr m = Some (VNum 0, m)"
proof -
  assume k: "knows env tok"
  have "eval env (part_term (''p'', zero_num)) m = Some (VNum (tok ''p'' * rat_of zero_num), m)"
    using eval_part [of env "(''p'', zero_num)" tok m] k by (simp add: knows_def)
  from eval_sum [OF this, of "[(''c'', zero_num)]" tok] k show ?thesis by (simp add: zero_expr_def knows_def)
qed

lemma parse_program:
  assumes "lexes s ts" "parses 0 u e" "ts = u @ r" "r = [] \<or> (\<exists>q. r = TOp '':'' # q)"
  shows "js_program s = (if r = [] then Parsed e else SyntaxErr)"
proof -
  have l: "lex_all s = Some ts" using lexesD [OF assms(1), of "[]"] by (simp add: sep_def lex_Nil)
  have st: "stop 0 r" using assms(4) by (auto simp: stop_def prec_def)
  have "expr_at (8 * length ts + 6) 0 (u @ r) = Some (e, r)"
    using assms(3) by (intro parsesD [OF assms(2) st]) simp
  with l assms(3,4) show ?thesis by (auto simp: js_program_def)
qed

lemma tier_texts_not_blank: "ts \<noteq> [] \<Longrightarrow> trim (generateExprFromVisualConfig (Some ts)) \<noteq> ''''"
proof -
  assume "ts \<noteq> []"
  then obtain c s where g: "generateExprFromVisualConfig (Some ts) = c # s" "c \<in> {CHR ''p'', CHR ''c'', CHR ''l'', CHR ''t''}"
    using generated_start [of ts] by (cases "generateExprFromVisualConfig (Some ts)") auto
  then have "\<not> is_ws c" by auto
  then show ?thesis unfolding g(1) trim_def trim_by_eq_Nil by auto
qed

text \<open>The program of a configuration: a SyntaxError when one of several tiers but the last has no conditions.\<close>

lemma config_program:
  assumes "ts \<noteq> []" "\<forall>t \<in> set ts. plain_tier t \<and> plain_label t" "knows env tok"
  shows "if \<forall>i < length ts - 1. kept (ts ! i) \<noteq> []
    then \<exists>e. js_program (generateExprFromVisualConfig (Some ts)) = Parsed e \<and>
       eval env e '''' = Some (VNum (fst (first_price tok (config_parts ts))), snd (first_price tok (config_parts ts)))
    else js_program (generateExprFromVisualConfig (Some ts)) = SyntaxErr"
proof -
  define ps where "ps = config_parts ts"
  have pl: "\<forall>p \<in> set ps. plain_part p" unfolding ps_def by (rule parts_plain [OF assms(2)])
  have ne: "ps \<noteq> []" unfolding ps_def by (rule config_parts_ne [OF assms(1)])
  have len: "length ps = length ts" by (simp add: ps_def length_config_parts)
  have tier: "eval env (tier_expr l t) m = Some (VNum (fst (first_price tok [([], l, t)])), snd (first_price tok [([], l, t)]))" for l t m
    using eval_tier [OF assms(3)] by simp
  show ?thesis
  proof (cases "length ts = 1 \<and> kept (hd ts) \<noteq> []")
    case True
    then obtain t where t: "ts = [t]" "kept t \<noteq> []" by (cases ts) auto
    define p where "p = (kept t, label_or ''default'' t, t)"
    have ps: "ps = [p]" by (simp add: ps_def t config_parts_def p_def)
    have g: "generateExprFromVisualConfig (Some ts) = part_expr p @ CHR '' '' # '':'' @ CHR '' '' # ZERO_EXPR"
      unfolding generate_parts [OF assms(1)] ps_def [symmetric] using t by (simp add: ps config_tail_def)
    have lx: "lexes (generateExprFromVisualConfig (Some ts)) (toks p @ [TOp '':''] @ zero_tokens)"
      unfolding g using pl ps lexes_tier_part [of p] by (intro lexes_spaced lexes_op lexes_zero) (simp_all add: toks_def)
    have "fst p \<noteq> []" using t by (simp add: p_def)
    then have pa: "parses 0 (guards_tokens [p] zero_tokens) (guards_expr [p] zero_expr)" by (intro parses_guards zero_parses) simp
    have "eval env (guards_expr [p] zero_expr) '''' = Some (VNum (fst (first_price tok ([p] @ []))), snd (first_price tok ([p] @ [])))"
      by (rule eval_guards [OF assms(3)]) (use \<open>fst p \<noteq> []\<close> eval_zero [OF assms(3)] in simp_all)
    with parse_program [OF lx pa, of "[]"] show ?thesis using t(2) unfolding ps_def [symmetric] ps
      by (simp add: t(1) guards_tokens_def toks_def)
  next
    case False
    have tl: "config_tail ts = []" using False by (auto simp: config_tail_def split: list.splits)
    have g: "generateExprFromVisualConfig (Some ts) = join '' : '' (map part_expr ps)"
      unfolding generate_parts [OF assms(1)] ps_def [symmetric] tl by simp
    have kept_nth: "fst (ps ! i) = (if i < length ts - 1 then kept (ts ! i) else [])" if "i < length ts" for i
    proof (cases "length ts = 1")
      case True
      then obtain t where "ts = [t]" by (cases ts) auto
      with False that show ?thesis by (simp add: ps_def config_parts_def)
    next
      case False
      then show ?thesis using config_parts_nth [OF False that] by (simp add: ps_def)
    qed
    text \<open>The first part without conditions is the last one that is read.\<close>
    have "fst (last ps) = []" using kept_nth [of "length ts - 1"] assms(1) len ne by (simp add: last_conv_nth)
    then have "\<exists>p \<in> set ps. fst p = []" using ne last_in_set by blast
    then obtain as q bs where sp: "ps = as @ q # bs" "fst q = []" "\<forall>p \<in> set as. fst p \<noteq> []"
      using split_list_first_prop [of ps "\<lambda>p. fst p = []"] by blast
    have lx: "lexes (generateExprFromVisualConfig (Some ts)) (toks (hd ps) @ more_toks (tl ps))"
      unfolding g using lexes_parts_join [of "hd ps" "tl ps"] pl ne by simp
    have w: "parses 0 (toks q) (tier_expr (fst (snd q)) (snd (snd q)))"
      using parses_tier sp(2) by (simp add: toks_def guard_tokens_def)
    have pa: "parses 0 (guards_tokens as (toks q)) (guards_expr as (tier_expr (fst (snd q)) (snd (snd q))))"
      by (rule parses_guards [OF w sp(3)])
    have split: "toks (hd ps) @ more_toks (tl ps) = guards_tokens as (toks q) @ more_toks bs"
    proof (cases as)
      case Nil
      then show ?thesis by (simp add: sp guards_tokens_def)
    next
      case (Cons a as')
      then show ?thesis using guards_more [of a as' "toks q"] by (simp add: sp more_toks_def)
    qed
    have r: "more_toks bs = [] \<longleftrightarrow> bs = []" "bs \<noteq> [] \<Longrightarrow> \<exists>q. more_toks bs = TOp '':'' # q"
      by (cases bs; simp add: more_toks_def)+
    have prog: "js_program (generateExprFromVisualConfig (Some ts)) =
       (if bs = [] then Parsed (guards_expr as (tier_expr (fst (snd q)) (snd (snd q)))) else SyntaxErr)"
      using parse_program [OF lx pa split] r by auto
    have iff: "bs = [] \<longleftrightarrow> (\<forall>i < length ts - 1. kept (ts ! i) \<noteq> [])"
    proof
      assume "bs = []"
      then have l: "length as = length ts - 1" using len sp(1) by simp
      show "\<forall>i < length ts - 1. kept (ts ! i) \<noteq> []"
      proof (intro allI impI)
        fix i assume i: "i < length ts - 1"
        then have "ps ! i \<in> set as" using l sp(1) by (simp add: nth_append)
        moreover have "i < length ts" using i by simp
        ultimately show "kept (ts ! i) \<noteq> []" using sp(3) kept_nth [of i] i by auto
      qed
    next
      assume a: "\<forall>i < length ts - 1. kept (ts ! i) \<noteq> []"
      show "bs = []"
      proof (rule ccontr)
        assume "bs \<noteq> []"
        then have l: "length as < length ts - 1" using len sp(1) by (cases bs) auto
        from l have "length as < length ts" by simp
        with l have "kept (ts ! length as) = []" using kept_nth [of "length as"] sp(1,2) by (simp add: nth_append)
        with a l show False by blast
      qed
    qed
    show ?thesis
    proof (cases "bs = []")
      case True
      obtain l t where q: "q = ([], l, t)" using sp(2) by (cases q) auto
      have "eval env (guards_expr as (tier_expr l t)) '''' = Some (VNum (fst (first_price tok (as @ [q]))), snd (first_price tok (as @ [q])))"
        unfolding q by (rule eval_guards [OF assms(3) sp(3) tier])
      then show ?thesis using True prog iff q sp(1) by (simp add: ps_def [symmetric])
    next
      case False
      then have "\<not> (\<forall>i < length ts - 1. kept (ts ! i) \<noteq> [])" using iff by blast
      then show ?thesis using prog False by (simp only: if_False)
    qed
  qed
qed

definition token_count :: "rat \<Rightarrow> rat \<Rightarrow> ExtraTokenValues \<Rightarrow> string \<Rightarrow> rat" where
  "token_count pt ct x v = (case estimator_env pt ct x v of Some r \<Rightarrow> r | None \<Rightarrow> 0)"

lemma env_knows: "knows (estimator_env pt ct x) (token_count pt ct x)"
  by (simp add: knows_def token_count_def estimator_env_def ESTIMATOR_VARS_def cacheVarNames_def BILLING_CACHE_VAR_MAP_def
      BILLING_EXTRA_VARS_def BILLING_VARS_def)

text \<open>
  C5: The estimator computes the price that the visual editor shows: for plain tiers with plain labels the generated text is
  lexed, parsed and evaluated to the price and the label of the first tier whose conditions hold (price 0 when a single tier
  does not apply) - as long as every tier but the last has a condition. Otherwise the text is a SyntaxError.
\<close>

theorem estimate_of_config:
  assumes "ts \<noteq> []" "\<forall>t \<in> set ts. plain_tier t \<and> plain_label t"
  shows "evalExprLocally msg (generateExprFromVisualConfig (Some ts)) pt ct x =
    Some (if \<forall>i < length ts - 1. kept (ts ! i) \<noteq> []
          then \<lparr>ecost = fst (first_price (token_count pt ct x) (config_parts ts)),
                matchedTier = snd (first_price (token_count pt ct x) (config_parts ts)), eerror = None\<rparr>
          else \<lparr>ecost = 0, matchedTier = '''', eerror = Some msg\<rparr>)"
  using config_program [OF assms env_knows, of pt ct x] tier_texts_not_blank [OF assms(1)]
  by (auto simp: evalExprLocally_def split: if_splits)

definition open_tiers :: VisualConfig where
  "open_tiers = map (\<lambda>t. t\<lparr>tconditions := Some []\<rparr>) demo_tiers"

definition no_extras :: ExtraTokenValues where
  "no_extras = \<lparr>cacheReadTokens = 0, cacheCreateTokens = 0, cacheCreate1hTokens = 0, imageTokens = 0, imageOutputTokens = 0,
     audioInputTokens = 0, audioOutputTokens = 0\<rparr>"

lemma plain_demo: "\<forall>t \<in> set demo_tiers. plain_tier t \<and> plain_label t" "\<forall>t \<in> set open_tiers. plain_tier t \<and> plain_label t"
  by code_simp+

lemma estimate_of_config_witness:
  "evalExprLocally ''m'' (generateExprFromVisualConfig (Some demo_tiers)) 1000 10 no_extras
     = Some \<lparr>ecost = 820, matchedTier = ''short'', eerror = None\<rparr> \<and>
   evalExprLocally ''m'' (generateExprFromVisualConfig (Some open_tiers)) 1000 10 no_extras
     = Some \<lparr>ecost = 0, matchedTier = '''', eerror = Some ''m''\<rparr>"
proof -
  have ne: "demo_tiers \<noteq> []" "open_tiers \<noteq> []" by (simp_all add: demo_tiers_def open_tiers_def)
  have k: "\<forall>i < length demo_tiers - 1. kept (demo_tiers ! i) \<noteq> []" "\<not> (\<forall>i < length open_tiers - 1. kept (open_tiers ! i) \<noteq> [])"
    by code_simp+
  have p: "first_price (token_count 1000 10 no_extras) (config_parts demo_tiers) = (820, ''short'')" by code_simp
  show ?thesis unfolding estimate_of_config [OF ne(1) plain_demo(1)] estimate_of_config [OF ne(2) plain_demo(2)]
    using k p by simp
qed

end
