(* ===== verification/TierTypes.thy ===== *)
theory TierTypes
  imports TierEval
begin

text \<open>
  Types of the estimator's expressions: a well-typed expression has a value of its type, so that the estimate of a text that
  parses to one is never an error. Also the test of \<open>exprUsesExtraVars\<close> for the variables behind the extra fields.
\<close>

subsection \<open>Extra variables\<close>

text \<open>The maximal words of a text; the expression \<open>\b(cr|cc|...)\b\<close> matches exactly when one of them is a variable.\<close>

fun words_of :: "string \<Rightarrow> string list" where
  "words_of [] = [[]]"
| "words_of (c # s) =
     (if id_char c \<and> c \<noteq> CHR ''$'' then (case words_of s of w # ws \<Rightarrow> (c # w) # ws | [] \<Rightarrow> [[c]]) else [] # words_of s)"

definition exprUsesExtraVars :: "string \<Rightarrow> bool" where
  "exprUsesExtraVars s \<longleftrightarrow> (\<exists>w \<in> set (words_of s). w \<in> fst ` set ESTIMATOR_VARS)"

subsection \<open>Typing\<close>

datatype js_type = TNumber | TBool | TString

fun type_of :: "js_value \<Rightarrow> js_type" where
  "type_of (VNum r) = TNumber"
| "type_of (VBool b) = TBool"
| "type_of (VStr s) = TString"

definition known_var :: "string \<Rightarrow> bool" where
  "known_var v \<longleftrightarrow> v \<in> {''p'', ''c'', ''len''} \<union> fst ` set ESTIMATOR_VARS"

definition binary_type :: "string \<Rightarrow> js_type option" where
  "binary_type q =
     (if q \<in> {''+'', ''-'', ''*''} then Some TNumber else if q \<in> {''<'', ''<='', ''>'', ''>=''} then Some TBool else None)"

definition call_type :: "string \<Rightarrow> js_type list \<Rightarrow> js_type option" where
  "call_type f ts =
     (if f = ''tier'' \<and> length ts = 2 \<and> ts ! 0 = TString then Some (ts ! 1)
      else if f \<in> {''abs'', ''ceil'', ''floor''} \<and> ts = [TNumber] then Some TNumber
      else if f \<in> {''max'', ''min''} \<and> ts = [TNumber, TNumber] then Some TNumber else None)"

fun typing :: "expr \<Rightarrow> js_type option" and typings :: "expr list \<Rightarrow> js_type list option" where
  "typing (ENum x) = Some TNumber"
| "typing (EStr s) = Some TString"
| "typing (EVar v) = (if known_var v then Some TNumber else None)"
| "typing (ENeg e) = (if typing e = Some TNumber then Some TNumber else None)"
| "typing (EBin q a b) =
     (if q = ''&&'' then (if typing a = typing b then typing a else None)
      else if typing a = Some TNumber \<and> typing b = Some TNumber then binary_type q else None)"
| "typing (ECond a b c) = (if typing a \<noteq> None \<and> typing b = typing c then typing b else None)"
| "typing (ECall f es) = (case typings es of Some ts \<Rightarrow> call_type f ts | None \<Rightarrow> None)"
| "typings [] = Some []"
| "typings (e # es) = (case (typing e, typings es) of (Some t, Some ts) \<Rightarrow> Some (t # ts) | _ \<Rightarrow> None)"

text \<open>The string literals of an expression: a tier is matched under one of them.\<close>

fun literals :: "expr \<Rightarrow> string set" and literals_list :: "expr list \<Rightarrow> string set" where
  "literals (ENum x) = {}"
| "literals (EStr s) = {s}"
| "literals (EVar v) = {}"
| "literals (ENeg e) = literals e"
| "literals (EBin q a b) = literals a \<union> literals b"
| "literals (ECond a b c) = literals a \<union> literals b \<union> literals c"
| "literals (ECall f es) = literals_list es"
| "literals_list [] = {}"
| "literals_list (e # es) = literals e \<union> literals_list es"

definition sound_value :: "string set \<Rightarrow> string \<Rightarrow> js_value \<Rightarrow> string \<Rightarrow> bool" where
  "sound_value ls m v m' \<longleftrightarrow> m' \<in> insert m ls \<and> (\<forall>s. v = VStr s \<longrightarrow> s \<in> ls)"

lemma type_of_cases: "type_of v = TNumber \<longleftrightarrow> (\<exists>r. v = VNum r)" "type_of v = TBool \<longleftrightarrow> (\<exists>b. v = VBool b)"
  "type_of v = TString \<longleftrightarrow> (\<exists>s. v = VStr s)"
  by (cases v; simp)+

lemma binary_value: "binary_type q = Some t \<Longrightarrow> \<exists>v. js_binary q r s = Some v \<and> type_of v = t \<and> (\<forall>w. v \<noteq> VStr w)"
  by (auto simp: binary_type_def js_binary_def split: if_splits)

lemma call_value:
  assumes "call_type f (map type_of vs) = Some t"
  shows "\<exists>v m'. js_call f vs m = Some (v, m') \<and> type_of v = t \<and>
    (m' = m \<or> VStr m' \<in> set vs) \<and> (\<forall>s. v = VStr s \<longrightarrow> v \<in> set vs)"
proof -
  from assms consider
      (tier) a b where "vs = [VStr a, b]" "f = ''tier''" "t = type_of b"
    | (one) r where "vs = [VNum r]" "f \<in> {''abs'', ''ceil'', ''floor''}" "t = TNumber"
    | (two) r s where "vs = [VNum r, VNum s]" "f \<in> {''max'', ''min''}" "t = TNumber"
    by (auto simp: call_type_def length_Suc_conv numeral_2_eq_2 type_of_cases split: if_splits)
  then show ?thesis by cases (auto simp: js_call_def)
qed

lemma progress:
  assumes env: "\<And>v. known_var v \<Longrightarrow> env v \<noteq> None"
  shows "typing e = Some t \<Longrightarrow> \<exists>v m'. eval env e m = Some (v, m') \<and> type_of v = t \<and> sound_value (literals e) m v m'"
    and "typings es = Some ts \<Longrightarrow> \<exists>vs m'. eval_args env es m = Some (vs, m') \<and> map type_of vs = ts \<and>
      m' \<in> insert m (literals_list es) \<and> (\<forall>s. VStr s \<in> set vs \<longrightarrow> s \<in> literals_list es)"
proof (induction e and es arbitrary: t m and ts m rule: literals_literals_list.induct)
  case (3 v)
  then show ?case using env [of v] by (auto simp: sound_value_def split: if_splits)
next
  case (4 e)
  then have "typing e = Some TNumber" "t = TNumber" by (auto split: if_splits)
  with "4.IH" [of TNumber m] show ?case by (auto simp: type_of_cases sound_value_def)
next
  case (5 q a b)
  show ?case
  proof (cases "q = ''&&''")
    case True
    then have ty: "typing a = Some t" "typing b = Some t" using "5.prems" by (auto split: if_splits)
    obtain x m1 where a: "eval env a m = Some (x, m1)" "type_of x = t" "sound_value (literals a) m x m1" using "5.IH"(1) [OF ty(1)] by blast
    obtain y m2 where b: "eval env b m1 = Some (y, m2)" "type_of y = t" "sound_value (literals b) m1 y m2" using "5.IH"(2) [OF ty(2)] by blast
    show ?thesis using a b True by (auto simp: sound_value_def)
  next
    case False
    then have ty: "typing a = Some TNumber" "typing b = Some TNumber" "binary_type q = Some t" using "5.prems" by (auto split: if_splits)
    obtain x m1 where a: "eval env a m = Some (VNum x, m1)" "sound_value (literals a) m (VNum x) m1"
      using "5.IH"(1) [OF ty(1), of m] by (auto simp: type_of_cases)
    obtain y m2 where b: "eval env b m1 = Some (VNum y, m2)" "sound_value (literals b) m1 (VNum y) m2"
      using "5.IH"(2) [OF ty(2), of m1] by (auto simp: type_of_cases)
    obtain v where v: "js_binary q x y = Some v" "type_of v = t" "\<forall>w. v \<noteq> VStr w" using binary_value [OF ty(3)] by blast
    show ?thesis using a b v False by (auto simp: sound_value_def)
  qed
next
  case (6 a b c)
  then obtain t0 where ty: "typing a = Some t0" "typing b = Some t" "typing c = Some t" by (auto split: if_splits)
  obtain x m1 where a: "eval env a m = Some (x, m1)" "sound_value (literals a) m x m1" using "6.IH"(1) [OF ty(1)] by blast
  obtain y m2 where b: "eval env b m1 = Some (y, m2)" "type_of y = t" "sound_value (literals b) m1 y m2" using "6.IH"(2) [OF ty(2)] by blast
  obtain z m3 where c: "eval env c m1 = Some (z, m3)" "type_of z = t" "sound_value (literals c) m1 z m3" using "6.IH"(3) [OF ty(3)] by blast
  show ?case using a b c by (auto simp: sound_value_def)
next
  case (7 f es)
  then obtain ts where ty: "typings es = Some ts" "call_type f ts = Some t" by (auto split: option.splits)
  obtain vs m1 where a: "eval_args env es m = Some (vs, m1)" "map type_of vs = ts" "m1 \<in> insert m (literals_list es)"
    "\<forall>s. VStr s \<in> set vs \<longrightarrow> s \<in> literals_list es" using "7.IH" [OF ty(1)] by blast
  obtain v m2 where c: "js_call f vs m1 = Some (v, m2)" "type_of v = t" "m2 = m1 \<or> VStr m2 \<in> set vs" "\<forall>s. v = VStr s \<longrightarrow> v \<in> set vs"
    using call_value [of f vs t m1] a(2) ty(2) by auto
  show ?case using a c by (auto simp: sound_value_def)
next
  case (9 e es)
  then obtain t0 us where ty: "typing e = Some t0" "typings es = Some us" "ts = t0 # us" by (auto split: option.splits)
  obtain v m1 where a: "eval env e m = Some (v, m1)" "type_of v = t0" "sound_value (literals e) m v m1" using "9.IH"(1) [OF ty(1)] by blast
  obtain vs m2 where b: "eval_args env es m1 = Some (vs, m2)" "map type_of vs = us" "m2 \<in> insert m1 (literals_list es)"
    "\<forall>s. VStr s \<in> set vs \<longrightarrow> s \<in> literals_list es" using "9.IH"(2) [OF ty(2)] by blast
  show ?case using a b ty(3) by (auto simp: sound_value_def)
qed (auto simp: sound_value_def)

lemma estimator_knows: "known_var v \<Longrightarrow> estimator_env pt ct x v \<noteq> None"
  by (auto simp: known_var_def estimator_env_def ESTIMATOR_VARS_def)

text \<open>
  C31: Well-typed expressions are estimated: a text that parses to an expression of type number or boolean - written in the visual
  editor or by hand - has a cost and no error for all token counts, and the matched tier is a string of the expression, or empty.
\<close>

theorem well_typed_estimate:
  assumes "js_program s = Parsed e" "typing e = Some t" "t \<noteq> TString"
  shows "\<exists>r m. evalExprLocally msg s pt ct x = Some \<lparr>ecost = r, matchedTier = m, eerror = None\<rparr> \<and> m \<in> insert '''' (literals e)"
proof (cases "trim s = ''''")
  case True
  then show ?thesis by (simp add: evalExprLocally_def)
next
  case False
  obtain v m where v: "eval (estimator_env pt ct x) e '''' = Some (v, m)" "type_of v = t" "sound_value (literals e) '''' v m"
    using progress(1) [of "estimator_env pt ct x", OF estimator_knows assms(2)] by blast
  show ?thesis using v assms False by (cases v) (auto simp: evalExprLocally_def sound_value_def)
qed

text \<open>The preset \<open>doubao-seed-1.8\<close>, and an expression with \<open>max\<close> that only the text field can show.\<close>

definition q_text :: "string \<Rightarrow> string" where
  "q_text s = dquote # s @ [dquote]"

definition doubao :: string where
  "doubao = ''len <= 32000 && c <= 200 ? tier('' @ q_text ''discount'' @ '', p * 0.8 + c * 2 + cr * 0.16 + cc * 0.17) : len <= 32000 ? tier(''
     @ q_text ''short'' @ '', p * 0.8 + c * 8 + cr * 0.16 + cc * 0.17) : len <= 128000 ? tier('' @ q_text ''mid''
     @ '', p * 1.2 + c * 16 + cr * 0.16 + cc * 0.17) : tier('' @ q_text ''long'' @ '', p * 2.4 + c * 24 + cr * 0.16 + cc * 0.17)''"

definition parsed_type :: "string \<Rightarrow> js_type option" where
  "parsed_type s = (case js_program s of Parsed e \<Rightarrow> typing e | _ \<Rightarrow> None)"

lemma well_typed_estimate_witness:
  "(\<exists>r m. evalExprLocally ''e'' doubao 40000 500 no_extras = Some \<lparr>ecost = r, matchedTier = m, eerror = None\<rparr>) \<and>
   (\<exists>r m. evalExprLocally ''e'' ''max(p * 2, c * 3)'' 40000 500 no_extras = Some \<lparr>ecost = r, matchedTier = m, eerror = None\<rparr>)"
proof -
  have w: "\<exists>r m. evalExprLocally ''e'' s 40000 500 no_extras = Some \<lparr>ecost = r, matchedTier = m, eerror = None\<rparr>"
    if "parsed_type s = Some TNumber" for s
  proof -
    from that obtain e where "js_program s = Parsed e" "typing e = Some TNumber" by (auto simp: parsed_type_def split: program.splits)
    from well_typed_estimate [OF this] show ?thesis by blast
  qed
  have "parsed_type doubao = Some TNumber" "parsed_type ''max(p * 2, c * 3)'' = Some TNumber" by code_simp+
  then show ?thesis using w by blast
qed

end
