(* ===== verification/TierEditor.thy ===== *)
theory TierEditor
  imports TierFacts BillingRules
begin

text \<open>
  The editor of tiered prices (\<^verbatim>\<open>features/system-settings/models/tiered-pricing-editor.tsx\<close>) inside its dialog
  (\<^verbatim>\<open>model-ratio-dialog.tsx\<close>), which holds the price expression and the rule expression as state and hands their setters
  down. A render commits: its effects run in the order of the source, each with the values of that render, and the states they
  set are those of the next render. A parser that throws makes the component fail (\<open>None\<close>).
\<close>

subsection \<open>A tier\<close>

definition remove_at :: "nat \<Rightarrow> 'a list \<Rightarrow> 'a list" where
  "remove_at i xs = take i xs @ drop (Suc i) xs"

definition tier_conditions :: "VisualTier \<Rightarrow> TierConditionInput list" where
  "tier_conditions tier = (case tconditions tier of Some cs \<Rightarrow> cs | None \<Rightarrow> [])"

definition cardConditionChange :: "nat \<Rightarrow> TierConditionInput \<Rightarrow> VisualTier \<Rightarrow> VisualTier" where
  "cardConditionChange i nxt tier = tier\<lparr>tconditions := Some ((tier_conditions tier)[i := nxt])\<rparr>"

definition cardConditionRemove :: "nat \<Rightarrow> VisualTier \<Rightarrow> VisualTier" where
  "cardConditionRemove i tier = tier\<lparr>tconditions := Some (remove_at i (tier_conditions tier))\<rparr>"

definition handlePriceChange :: "string \<Rightarrow> num \<Rightarrow> VisualTier \<Rightarrow> VisualTier" where
  "handlePriceChange field v tier =
     (if field = ''input_unit_cost'' then tier\<lparr>input_unit_cost := Some (Some v)\<rparr>
      else if field = ''output_unit_cost'' then tier\<lparr>output_unit_cost := Some (Some v)\<rparr>
      else tier\<lparr>costs := oput field (Some v) (costs tier)\<rparr>)"

definition handleCacheModeChange :: "CacheMode \<Rightarrow> VisualTier \<Rightarrow> VisualTier" where
  "handleCacheModeChange md tier =
     tier\<lparr>cache_mode := Some md,
          costs := oput ''cache_create_1h_unit_cost''
            (if md = CACHE_MODE_TIMED
             then (case oget (costs tier) ''cache_create_1h_unit_cost'' of Some c \<Rightarrow> c | None \<Rightarrow> Some zero_num)
             else Some zero_num) (costs tier)\<rparr>"

definition handleLabelChange :: "string \<Rightarrow> VisualTier \<Rightarrow> VisualTier" where
  "handleLabelChange l tier = tier\<lparr>tlabel := Some l\<rparr>"

subsection \<open>The tiers\<close>

definition handleTierChange :: "nat \<Rightarrow> VisualTier \<Rightarrow> VisualConfig option \<Rightarrow> VisualConfig" where
  "handleTierChange i nxt vc = (normalizeVisualConfig vc)[i := normalizeVisualTier nxt]"

definition default_cond :: "CondVar \<Rightarrow> TierConditionInput" where
  "default_cond v = \<lparr>cvar = v, cop = OpLt, cval = CNum (Some (Dec 2 5))\<rparr>"

definition handleAddTier :: "VisualConfig option \<Rightarrow> VisualConfig" where
  "handleAddTier vc =
     (let tiers = normalizeVisualConfig vc;
          bounded = (if tiers \<noteq> [] \<and> tier_conditions (last tiers) = []
                     then butlast tiers @ [normalizeVisualTier ((last tiers)\<lparr>tconditions := Some [default_cond VarLen]\<rparr>)]
                     else tiers)
      in bounded @ [normalizeVisualTier
           (no_tier\<lparr>tlabel := Some (''tier_'' @ show_nat (length bounded + 1)), tconditions := Some [],
                    input_unit_cost := Some (Some zero_num), output_unit_cost := Some (Some zero_num)\<rparr>)])"

definition handleRemoveTier :: "nat \<Rightarrow> VisualConfig option \<Rightarrow> VisualConfig" where
  "handleRemoveTier i vc =
     (let tiers = remove_at i (normalizeVisualConfig vc) in if tiers \<noteq> [] then tiers else normalizeVisualConfig vc)"

text \<open>\<open>None\<close>: nothing changes, as the tier has two conditions already.\<close>

definition handleAddCondition :: "nat \<Rightarrow> VisualConfig option \<Rightarrow> VisualConfig option" where
  "handleAddCondition i vc =
     (let tiers = normalizeVisualConfig vc; cs = tier_conditions (tiers ! i) in
      if 2 \<le> length cs then None
      else Some (tiers[i := (tiers ! i)\<lparr>tconditions := Some (cs @ [default_cond (if VarLen \<in> cvar ` set cs then VarC else VarLen)])\<rparr>]))"

subsection \<open>A rule group\<close>

fun handleSourceChange :: "string \<Rightarrow> RequestCondition \<Rightarrow> RequestCondition" where
  "handleSourceChange source c =
     (if source = ''time'' then createEmptyTimeCondition
      else if source = ''header'' then ParamHeader SHeader '''' MATCH_EQ ''''
      else if source = ''param'' then createEmptyCondition else c)"

fun handleConditionMode :: "string \<Rightarrow> RequestCondition \<Rightarrow> RequestCondition" where
  "handleConditionMode md (ParamHeader src p m v) = ParamHeader src p md v"
| "handleConditionMode md (TimeCond f tz m v a b) = TimeCond f tz md v a b"

definition groupConditionChange :: "nat \<Rightarrow> RequestCondition \<Rightarrow> RequestRuleGroup \<Rightarrow> RequestRuleGroup" where
  "groupConditionChange i nxt g = g\<lparr>conditions := (conditions g)[i := nxt]\<rparr>"

definition groupAddCondition :: "bool \<Rightarrow> RequestRuleGroup \<Rightarrow> RequestRuleGroup" where
  "groupAddCondition timeMode g =
     g\<lparr>conditions := conditions g @ [if timeMode then createEmptyTimeCondition else createEmptyCondition]\<rparr>"

definition groupConditionRemove :: "nat \<Rightarrow> RequestRuleGroup \<Rightarrow> RequestRuleGroup" where
  "groupConditionRemove i g = g\<lparr>conditions := remove_at i (conditions g)\<rparr>"

subsection \<open>The editor in its dialog\<close>

datatype EditorMode = Visual | Raw

text \<open>
  The states of the editor, the two expressions of the dialog, and what React keeps for the first two effects: the
  expressions they have seen, and whether the model's name is new.
\<close>

record Editor =
  editorMode :: EditorMode
  visualConfig :: "VisualConfig option"
  rawExpr :: string
  requestRuleGroups :: "RequestRuleGroup list"
  initRef :: bool
  currentExpr :: string
  currentRequestRuleExpr :: string
  seen :: "(string \<times> string) option"
  newName :: bool

definition rules_or_empty :: "string \<Rightarrow> RequestRuleGroup list option" where
  "rules_or_empty s = (case tryParseRequestRuleExpr s of Match gs \<Rightarrow> Some gs | NoMatch \<Rightarrow> Some [] | Throws \<Rightarrow> None)"

definition split_expr :: "string \<Rightarrow> SplitExpr option" where
  "split_expr s = (case splitBillingExprAndRequestRules s of Match x \<Rightarrow> Some x | _ \<Rightarrow> None)"

definition openEditor :: "string \<Rightarrow> string \<Rightarrow> Editor option" where
  "openEditor expr rules =
     map_option (\<lambda>gs.
       \<lparr>editorMode = Visual, visualConfig = tryParseVisualConfig expr, rawExpr = combineBillingExpr expr rules,
        requestRuleGroups = gs, initRef = False, currentExpr = expr, currentRequestRuleExpr = rules, seen = None, newName = True\<rparr>)
     (rules_or_empty rules)"

definition effectiveExpr :: "Editor \<Rightarrow> string option" where
  "effectiveExpr e =
     (case editorMode e of
        Visual \<Rightarrow> Some (generateExprFromVisualConfig (visualConfig e))
      | Raw \<Rightarrow> map_option billingExpr (split_expr (rawExpr e)))"

text \<open>The first effect: the expressions are loaded into the editor.\<close>

definition loadExpressions :: "Editor \<Rightarrow> Editor option" where
  "loadExpressions e =
     (if initRef e then Some e
      else map_option (\<lambda>gs.
        (let expr = currentExpr e; parsed = tryParseVisualConfig expr;
             e1 = (case parsed of
                     Some cfg \<Rightarrow> e\<lparr>visualConfig := Some cfg, editorMode := Visual\<rparr>
                   | None \<Rightarrow> if expr \<noteq> '''' then e\<lparr>visualConfig := None, editorMode := Raw\<rparr>
                             else e\<lparr>visualConfig := Some createDefaultVisualConfig\<rparr>)
         in e1\<lparr>initRef := True, rawExpr := combineBillingExpr expr (currentRequestRuleExpr e), requestRuleGroups := gs\<rparr>))
      (rules_or_empty (currentRequestRuleExpr e)))"

text \<open>
  One commit. The last two effects compare what this render shows with the dialog's expressions; they call its setters
  whether the first effect has run or not.
\<close>

definition commit :: "Editor \<Rightarrow> Editor option" where
  "commit e =
     Option.bind (if seen e = Some (currentExpr e, currentRequestRuleExpr e) then Some e else loadExpressions e) (\<lambda>e1.
       Option.bind (effectiveExpr e) (\<lambda>effective.
         let e2 = e1\<lparr>seen := Some (currentExpr e, currentRequestRuleExpr e)\<rparr>;
             e3 = (if newName e then e2\<lparr>initRef := False, newName := False\<rparr> else e2);
             e4 = (if effective \<noteq> currentExpr e then e3\<lparr>currentExpr := effective\<rparr> else e3);
             ruleExpr = buildRequestRuleExpr (requestRuleGroups e)
         in Some (if editorMode e = Visual \<and> ruleExpr \<noteq> currentRequestRuleExpr e
                  then e4\<lparr>currentRequestRuleExpr := ruleExpr\<rparr> else e4)))"

fun commits :: "nat \<Rightarrow> Editor \<Rightarrow> Editor option" where
  "commits 0 e = Some e"
| "commits (Suc n) e = Option.bind (commit e) (commits n)"

subsection \<open>What the user does\<close>

definition handleVisualChange :: "VisualConfig \<Rightarrow> Editor \<Rightarrow> Editor" where
  "handleVisualChange nxt e = e\<lparr>visualConfig := Some nxt\<rparr>"

definition handleRawChange :: "string \<Rightarrow> Editor \<Rightarrow> Editor option" where
  "handleRawChange v e =
     map_option (\<lambda>s. e\<lparr>rawExpr := v, currentRequestRuleExpr := requestRuleExpr s\<rparr>) (split_expr v)"

definition handleModeChange :: "EditorMode \<Rightarrow> Editor \<Rightarrow> Editor option" where
  "handleModeChange nxt e =
     (case nxt of
        Visual \<Rightarrow>
          Option.bind (split_expr (rawExpr e)) (\<lambda>s.
            map_option (\<lambda>gs.
              e\<lparr>visualConfig := Some (case tryParseVisualConfig (billingExpr s) of Some cfg \<Rightarrow> cfg | None \<Rightarrow> createDefaultVisualConfig),
                requestRuleGroups := gs, currentRequestRuleExpr := requestRuleExpr s, editorMode := Visual\<rparr>)
            (rules_or_empty (requestRuleExpr s)))
      | Raw \<Rightarrow>
          (let expr = generateExprFromVisualConfig (visualConfig e);
               ruleExpr = buildRequestRuleExpr (requestRuleGroups e);
               both = combineBillingExpr expr ruleExpr
           in Some (e\<lparr>rawExpr := if both = '''' then expr else both, editorMode := Raw\<rparr>)))"

record Preset =
  pkey :: string
  pexpr :: string
  prules :: "RequestRuleGroup list"

definition applyPreset :: "Preset \<Rightarrow> Editor \<Rightarrow> Editor" where
  "applyPreset preset e =
     (let ruleExpr = buildRequestRuleExpr (prules preset);
          both = combineBillingExpr (pexpr preset) ruleExpr;
          e1 = e\<lparr>rawExpr := if both = '''' then pexpr preset else both\<rparr>;
          e2 = (case tryParseVisualConfig (pexpr preset) of
                  Some cfg \<Rightarrow> e1\<lparr>visualConfig := Some cfg, editorMode := Visual\<rparr>
                | None \<Rightarrow> e1\<lparr>editorMode := Raw, visualConfig := None\<rparr>)
      in e2\<lparr>requestRuleGroups := prules preset, currentRequestRuleExpr := ruleExpr\<rparr>)"

definition handleRuleGroupsChange :: "RequestRuleGroup list \<Rightarrow> Editor \<Rightarrow> Editor" where
  "handleRuleGroupsChange gs e = e\<lparr>requestRuleGroups := gs\<rparr>"

definition addRuleGroup :: "Editor \<Rightarrow> Editor" where
  "addRuleGroup e = handleRuleGroupsChange (requestRuleGroups e @ [createEmptyRuleGroup]) e"

definition addTimeRuleGroup :: "Editor \<Rightarrow> Editor" where
  "addTimeRuleGroup e = handleRuleGroupsChange (requestRuleGroups e @ [createEmptyTimeRuleGroup]) e"

definition removeRuleGroup :: "nat \<Rightarrow> Editor \<Rightarrow> Editor" where
  "removeRuleGroup i e = handleRuleGroupsChange (remove_at i (requestRuleGroups e)) e"

definition changeRuleGroup :: "nat \<Rightarrow> RequestRuleGroup \<Rightarrow> Editor \<Rightarrow> Editor" where
  "changeRuleGroup i nxt e = handleRuleGroupsChange ((requestRuleGroups e)[i := nxt]) e"

subsection \<open>Opening the editor\<close>

lemma zero_not_visual: "tryParseVisualConfig ZERO_EXPR = None"
  by code_simp

lemma zero_rules: "tryParseRequestRuleExpr '''' = Match []" "buildRequestRuleExpr [] = ''''"
  by (simp_all add: tryParseRequestRuleExpr_def buildRequestRuleExpr_def)

lemma zero_split: "split_expr ZERO_EXPR = Some \<lparr>billingExpr = ZERO_EXPR, requestRuleExpr = ''''\<rparr>"
  by code_simp

lemma combine_alone: "trimmed s \<Longrightarrow> combineBillingExpr s '''' = s"
  by (simp add: combineBillingExpr_def trim_id Let_def)

text \<open>
  C32: An expression that the visual editor cannot show does not survive its being opened: the first render is visual and
  has no configuration, so its effect hands the zero price to the dialog; loading that puts it in the text field, and after
  four commits the price is zero in both places and nothing changes any more.
\<close>

theorem opening_zeroes_other_expressions:
  assumes "tryParseVisualConfig x = None" "x \<noteq> ''''" "trimmed x" "x \<noteq> ZERO_EXPR"
    and "split_expr x = Some \<lparr>billingExpr = x, requestRuleExpr = ''''\<rparr>"
  shows "\<exists>e. Option.bind (openEditor x '''') (commits 4) = Some e \<and> currentExpr e = ZERO_EXPR \<and> rawExpr e = ZERO_EXPR
    \<and> editorMode e = Raw \<and> commit e = Some e"
proof -
  have z: "trimmed ZERO_EXPR" "ZERO_EXPR \<noteq> ''''" by (simp_all add: ZERO_EXPR_def trimmed_by_def is_ws_def)
  have g: "generateExprFromVisualConfig None = ZERO_EXPR" by (simp add: generateExprFromVisualConfig_def)
  note simps = commit_def loadExpressions_def effectiveExpr_def rules_or_empty_def zero_rules zero_not_visual zero_split assms g
    combine_alone z Let_def
  have 0: "\<exists>e0. openEditor x '''' = Some e0 \<and> editorMode e0 = Visual \<and> visualConfig e0 = None \<and> requestRuleGroups e0 = []
    \<and> \<not> initRef e0 \<and> currentExpr e0 = x \<and> currentRequestRuleExpr e0 = '''' \<and> seen e0 = None \<and> newName e0"
    by (simp add: openEditor_def simps)
  have 1: "\<exists>e1. commit e0 = Some e1 \<and> editorMode e1 = Raw \<and> rawExpr e1 = x \<and> requestRuleGroups e1 = [] \<and> visualConfig e1 = None
    \<and> \<not> initRef e1 \<and> currentExpr e1 = ZERO_EXPR \<and> currentRequestRuleExpr e1 = '''' \<and> seen e1 = Some (x, '''') \<and> \<not> newName e1"
    if "editorMode e0 = Visual" "visualConfig e0 = None" "requestRuleGroups e0 = []" "\<not> initRef e0" "currentExpr e0 = x"
      "currentRequestRuleExpr e0 = ''''" "seen e0 = None" "newName e0" for e0
    using that by (simp add: simps)
  have 2: "\<exists>e2. commit e1 = Some e2 \<and> editorMode e2 = Raw \<and> rawExpr e2 = ZERO_EXPR \<and> requestRuleGroups e2 = []
    \<and> initRef e2 \<and> currentExpr e2 = x \<and> currentRequestRuleExpr e2 = '''' \<and> seen e2 = Some (ZERO_EXPR, '''') \<and> \<not> newName e2"
    if "editorMode e1 = Raw" "rawExpr e1 = x" "requestRuleGroups e1 = []" "\<not> initRef e1" "currentExpr e1 = ZERO_EXPR"
      "currentRequestRuleExpr e1 = ''''" "seen e1 = Some (x, '''')" "\<not> newName e1" for e1
    using that by (simp add: simps)
  have 3: "\<exists>e3. commit e2 = Some e3 \<and> editorMode e3 = Raw \<and> rawExpr e3 = ZERO_EXPR
    \<and> initRef e3 \<and> currentExpr e3 = ZERO_EXPR \<and> currentRequestRuleExpr e3 = '''' \<and> seen e3 = Some (currentExpr e2, '''') \<and> \<not> newName e3"
    if "editorMode e2 = Raw" "rawExpr e2 = ZERO_EXPR" "initRef e2" "currentRequestRuleExpr e2 = ''''" "\<not> newName e2" for e2
    using that by (simp add: simps)
  have 4: "commit e4 = Some e4" if "editorMode e4 = Raw" "rawExpr e4 = ZERO_EXPR" "initRef e4" "currentExpr e4 = ZERO_EXPR"
      "currentRequestRuleExpr e4 = ''''" "seen e4 = Some (ZERO_EXPR, '''')" "\<not> newName e4" for e4
    using that by (simp add: simps)
  obtain e0 where e0: "openEditor x '''' = Some e0" "editorMode e0 = Visual" "visualConfig e0 = None" "requestRuleGroups e0 = []"
    "\<not> initRef e0" "currentExpr e0 = x" "currentRequestRuleExpr e0 = ''''" "seen e0 = None" "newName e0" using 0 by blast
  obtain e1 where e1: "commit e0 = Some e1" "editorMode e1 = Raw" "rawExpr e1 = x" "requestRuleGroups e1 = []"
    "\<not> initRef e1" "currentExpr e1 = ZERO_EXPR" "currentRequestRuleExpr e1 = ''''" "seen e1 = Some (x, '''')" "\<not> newName e1"
    using 1 [OF e0(2-9)] by blast
  obtain e2 where e2: "commit e1 = Some e2" "editorMode e2 = Raw" "rawExpr e2 = ZERO_EXPR" "initRef e2"
    "currentRequestRuleExpr e2 = ''''" "\<not> newName e2" using 2 [OF e1(2-9)] by blast
  obtain e3 where e3: "commit e2 = Some e3" "editorMode e3 = Raw" "rawExpr e3 = ZERO_EXPR" "initRef e3" "currentExpr e3 = ZERO_EXPR"
    "currentRequestRuleExpr e3 = ''''" "\<not> newName e3" using 3 [OF e2(2-6)] by blast
  obtain e4 where e4: "commit e3 = Some e4" "editorMode e4 = Raw" "rawExpr e4 = ZERO_EXPR" "initRef e4" "currentExpr e4 = ZERO_EXPR"
    "currentRequestRuleExpr e4 = ''''" "seen e4 = Some (currentExpr e3, '''')" "\<not> newName e4" using 3 [OF e3(2-4,6-7)] by blast
  have "Option.bind (openEditor x '''') (commits 4) = Some e4"
    using e0(1) e1(1) e2(1) e3(1) e4(1) by (simp add: eval_nat_numeral)
  then show ?thesis using e4 4 [OF e4(2-6) _ e4(8)] e3(5) by auto
qed

lemma opening_zeroes_other_expressions_witness:
  "\<exists>e. Option.bind (openEditor ''max(p * 2, c * 3)'' '''') (commits 4) = Some e \<and> currentExpr e = ''p * 0 + c * 0''"
proof -
  have "tryParseVisualConfig ''max(p * 2, c * 3)'' = None" by code_simp
  moreover have "split_expr ''max(p * 2, c * 3)'' = Some \<lparr>billingExpr = ''max(p * 2, c * 3)'', requestRuleExpr = ''''\<rparr>" by code_simp
  ultimately show ?thesis
    using opening_zeroes_other_expressions [of "''max(p * 2, c * 3)''"] by (auto simp: ZERO_EXPR_def trimmed_by_def is_ws_def)
qed

text \<open>What the editor has built comes back when it is opened - but for the rules it cannot read.\<close>

lemma opening_built:
  assumes ts: "ts \<noteq> []" "\<forall>t \<in> set ts. plain_tier t"
    and r: "tryParseRequestRuleExpr (buildRequestRuleExpr gs) = (if bad then NoMatch else Match gs)"
  shows "\<exists>e. Option.bind (openEditor (generateExprFromVisualConfig (Some ts)) (buildRequestRuleExpr gs)) (commits 3) = Some e
    \<and> commit e = Some e \<and> editorMode e = Visual \<and> visualConfig e = Some (readBack ts)
    \<and> currentExpr e = generateExprFromVisualConfig (Some ts)
    \<and> requestRuleGroups e = (if bad then [] else gs)
    \<and> currentRequestRuleExpr e = (if bad then '''' else buildRequestRuleExpr gs)"
proof -
  define x where "x = generateExprFromVisualConfig (Some ts)"
  define R where "R = buildRequestRuleExpr gs"
  define hs where "hs = (if bad then [] else gs)"
  have p: "tryParseVisualConfig x = Some (readBack ts)" unfolding x_def by (rule parse_generated [OF ts])
  have g: "generateExprFromVisualConfig (Some (readBack ts)) = x" unfolding x_def by (rule generate_back [OF ts])
  have rs: "rules_or_empty R = Some hs" using r by (simp add: rules_or_empty_def R_def hs_def)
  have r0: "rules_or_empty (buildRequestRuleExpr hs) = Some hs"
    using rs by (auto simp: hs_def R_def zero_rules rules_or_empty_def)
  note simps = commit_def loadExpressions_def effectiveExpr_def p g Let_def
  have 0: "\<exists>e. openEditor x R = Some e \<and> editorMode e = Visual \<and> visualConfig e = Some (readBack ts) \<and> requestRuleGroups e = hs
    \<and> \<not> initRef e \<and> currentExpr e = x \<and> currentRequestRuleExpr e = R \<and> seen e = None \<and> newName e"
    by (simp add: openEditor_def rs p)
  have 1: "\<exists>e'. commit e = Some e' \<and> editorMode e' = Visual \<and> visualConfig e' = Some (readBack ts) \<and> requestRuleGroups e' = hs
    \<and> \<not> initRef e' \<and> currentExpr e' = x \<and> currentRequestRuleExpr e' = buildRequestRuleExpr hs \<and> seen e' = Some (x, R) \<and> \<not> newName e'"
    if "editorMode e = Visual" "visualConfig e = Some (readBack ts)" "requestRuleGroups e = hs" "\<not> initRef e" "currentExpr e = x"
      "currentRequestRuleExpr e = R" "seen e = None" "newName e" for e
    using that by (simp add: simps rs)
  have 2: "\<exists>e'. commit e = Some e' \<and> editorMode e' = Visual \<and> visualConfig e' = Some (readBack ts) \<and> requestRuleGroups e' = hs
    \<and> currentExpr e' = x \<and> currentRequestRuleExpr e' = buildRequestRuleExpr hs
    \<and> seen e' = Some (x, buildRequestRuleExpr hs) \<and> \<not> newName e'"
    if "editorMode e = Visual" "visualConfig e = Some (readBack ts)" "requestRuleGroups e = hs" "currentExpr e = x"
      "currentRequestRuleExpr e = buildRequestRuleExpr hs" "\<not> newName e" for e
    using that by (simp add: simps r0)
  have 3: "commit e = Some e" if "editorMode e = Visual" "visualConfig e = Some (readBack ts)" "requestRuleGroups e = hs" "currentExpr e = x"
      "currentRequestRuleExpr e = buildRequestRuleExpr hs" "seen e = Some (x, buildRequestRuleExpr hs)" "\<not> newName e" for e
    using that by (simp add: simps)
  obtain e0 where e0: "openEditor x R = Some e0" "editorMode e0 = Visual" "visualConfig e0 = Some (readBack ts)" "requestRuleGroups e0 = hs"
    "\<not> initRef e0" "currentExpr e0 = x" "currentRequestRuleExpr e0 = R" "seen e0 = None" "newName e0" using 0 by blast
  obtain e1 where e1: "commit e0 = Some e1" "editorMode e1 = Visual" "visualConfig e1 = Some (readBack ts)" "requestRuleGroups e1 = hs"
    "currentExpr e1 = x" "currentRequestRuleExpr e1 = buildRequestRuleExpr hs" "\<not> newName e1" using 1 [OF e0(2-9)] by blast
  obtain e2 where e2: "commit e1 = Some e2" "editorMode e2 = Visual" "visualConfig e2 = Some (readBack ts)" "requestRuleGroups e2 = hs"
    "currentExpr e2 = x" "currentRequestRuleExpr e2 = buildRequestRuleExpr hs" "seen e2 = Some (x, buildRequestRuleExpr hs)" "\<not> newName e2"
    using 2 [OF e1(2-7)] by blast
  have c: "commit e2 = Some e2" by (rule 3 [OF e2(2-8)])
  have "Option.bind (openEditor x R) (commits 3) = Some e2"
    using e0(1) e1(1) e2(1) c by (simp add: eval_nat_numeral)
  then show ?thesis using e2 c unfolding x_def R_def hs_def by (auto simp: zero_rules)
qed

text \<open>
  C8: Opening what the editor itself has built, for plain tiers and acceptable rules: after at most three commits nothing
  changes any more, the tiers are those read back and the price expression is unchanged. The rules are unchanged too, unless one
  of them compares a parameter or looks for a text in it: then the first render, which shows no rules, deletes them all
  from the dialog.
\<close>

theorem opening_keeps_or_deletes_rules:
  assumes "ts \<noteq> []" "\<forall>t \<in> set ts. plain_tier t" "\<forall>g \<in> set gs. ok_group g"
  shows "\<exists>e. Option.bind (openEditor (generateExprFromVisualConfig (Some ts)) (buildRequestRuleExpr gs)) (commits 3) = Some e
    \<and> commit e = Some e \<and> editorMode e = Visual \<and> visualConfig e = Some (readBack ts)
    \<and> currentExpr e = generateExprFromVisualConfig (Some ts)
    \<and> (let bad = (\<exists>g \<in> set gs. \<exists>c \<in> set (conditions g). guarded c) in
       requestRuleGroups e = (if bad then [] else gs) \<and>
       currentRequestRuleExpr e = (if bad then '''' else buildRequestRuleExpr gs))"
  using opening_built [OF assms(1,2) rules_read [OF assms(3)]] by (simp add: Let_def)

lemma demo_guarded_ok: "\<forall>g \<in> set demoGuarded. ok_group g" "\<exists>g \<in> set demoGuarded. \<exists>c \<in> set (conditions g). guarded c"
  by code_simp+

lemma opening_keeps_or_deletes_rules_witness:
  "\<exists>e. Option.bind (openEditor (generateExprFromVisualConfig (Some demo_tiers)) (buildRequestRuleExpr demoGuarded)) (commits 3) = Some e
    \<and> currentExpr e = generateExprFromVisualConfig (Some demo_tiers) \<and> currentRequestRuleExpr e = ''''"
proof -
  have "demo_tiers \<noteq> []" by (simp add: demo_tiers_def)
  from opening_keeps_or_deletes_rules [OF this demo_plain demo_guarded_ok(1)] demo_guarded_ok(2) show ?thesis
    unfolding Let_def by auto
qed

subsection \<open>Switching and editing\<close>

text \<open>Switching to the visual editor replaces an expression it cannot show by the default tier, whose costs are zero.\<close>

lemma switching_zeroes:
  assumes "split_expr (rawExpr e) = Some \<lparr>billingExpr = x, requestRuleExpr = ''''\<rparr>" "tryParseVisualConfig x = None"
    "seen e = Some (currentExpr e, currentRequestRuleExpr e)" "currentRequestRuleExpr e = ''''"
  shows "\<exists>e1 e2. handleModeChange Visual e = Some e1 \<and> commit e1 = Some e2
    \<and> currentExpr e2 = ''tier('' @ dquote # ''base'' @ dquote # '', p * 0 + c * 0)''"
proof -
  have g: "generateExprFromVisualConfig (Some createDefaultVisualConfig) = ''tier('' @ dquote # ''base'' @ dquote # '', p * 0 + c * 0)''"
    by code_simp
  define e1 where "e1 = e\<lparr>visualConfig := Some createDefaultVisualConfig, requestRuleGroups := [], currentRequestRuleExpr := '''', editorMode := Visual\<rparr>"
  have 1: "handleModeChange Visual e = Some e1" using assms by (simp add: handleModeChange_def rules_or_empty_def zero_rules e1_def)
  have "\<exists>e2. commit e1 = Some e2 \<and> currentExpr e2 = generateExprFromVisualConfig (Some createDefaultVisualConfig)"
    using assms(3,4) by (simp add: commit_def effectiveExpr_def e1_def Let_def)
  with 1 g show ?thesis by auto
qed

text \<open>Every tier but the last has a condition, so that the expression of the tiers is no SyntaxError.\<close>

definition runnable :: "VisualConfig \<Rightarrow> bool" where
  "runnable ts \<longleftrightarrow> (\<forall>t \<in> set (butlast ts). kept t \<noteq> [])"

lemma kept_normalized: "kept (normalizeVisualTier t) = kept t" "tier_conditions (normalizeVisualTier t) = tier_conditions t"
  by (auto simp: kept_def tier_conditions_def normalizeVisualTier_def split: option.splits)

lemma kept_conditions: "kept t = filter kept_cond (tier_conditions t)"
  by (simp add: kept_def tier_conditions_def)

lemma adding_tier_runnable:
  assumes "ts \<noteq> []"
  shows "runnable (handleAddTier (Some ts)) \<longleftrightarrow> runnable ts \<and> (tier_conditions (last ts) = [] \<or> kept (last ts) \<noteq> [])"
proof -
  define ns where "ns = map normalizeVisualTier ts"
  have ns: "normalizeVisualConfig (Some ts) = ns" "ns \<noteq> []" using assms by (simp_all add: normalizeVisualConfig_def ns_def)
  have l: "last ns = normalizeVisualTier (last ts)" using assms by (simp add: ns_def last_map)
  have b: "butlast ns = map normalizeVisualTier (butlast ts)" by (simp add: ns_def map_butlast)
  have a: "ns = butlast ns @ [last ns]" using ns(2) by simp
  have k: "(\<forall>t \<in> set (butlast ns). kept t \<noteq> []) \<longleftrightarrow> runnable ts" by (simp add: b runnable_def kept_normalized)
  have d: "kept (normalizeVisualTier (t\<lparr>tconditions := Some [default_cond VarLen]\<rparr>)) \<noteq> []" for t
    by (simp add: kept_normalized) (simp add: kept_def kept_cond_def default_cond_def)
  have snoc: "runnable (us @ [t]) \<longleftrightarrow> (\<forall>u \<in> set us. kept u \<noteq> [])" for us t by (simp add: runnable_def)
  define bounded where "bounded = (if tier_conditions (last ts) = []
     then butlast ns @ [normalizeVisualTier ((last ns)\<lparr>tconditions := Some [default_cond VarLen]\<rparr>)] else ns)"
  have "\<exists>t. handleAddTier (Some ts) = bounded @ [t]"
    unfolding handleAddTier_def ns(1) Let_def l kept_normalized bounded_def using ns(2) by auto
  then have "runnable (handleAddTier (Some ts)) \<longleftrightarrow> (\<forall>u \<in> set bounded. kept u \<noteq> [])" using snoc by auto
  also have "\<dots> \<longleftrightarrow> (\<forall>t \<in> set (butlast ns). kept t \<noteq> []) \<and> (tier_conditions (last ts) = [] \<or> kept (last ns) \<noteq> [])"
  proof (cases "tier_conditions (last ts) = []")
    case True
    then show ?thesis using d [of "last ns"] by (auto simp: bounded_def)
  next
    case False
    have "set ns = insert (last ns) (set (butlast ns))" by (subst a) simp
    with False show ?thesis by (auto simp: bounded_def)
  qed
  finally show ?thesis using k by (simp add: l kept_normalized)
qed

end
