(* ===== verification/TierPresets.thy ===== *)
theory TierPresets
  imports TierEditor
begin

definition quoted :: "string \<Rightarrow> string" where
  "quoted s = dquote # s @ [dquote]"

text \<open>The presets of the editor (\<open>PRESET_GROUPS\<close> of \<^verbatim>\<open>tiered-pricing-editor.tsx\<close>).\<close>

definition PRESETS :: "Preset list" where
  "PRESETS =
     [\<lparr>pkey = ''flat'',
        pexpr = ''tier('' @ quoted ''base'' @ '', p * 2 + c * 4)'',
        prules = []\<rparr>,
      \<lparr>pkey = ''claude-opus'',
        pexpr = ''tier('' @ quoted ''base'' @ '', p * 5 + c * 25 + cr * 0.5 + cc * 6.25 + cc1h * 10)'',
        prules = []\<rparr>,
      \<lparr>pkey = ''gpt-5.4'',
        pexpr = ''len <= 272000 ? tier('' @ quoted ''standard'' @ '', p * 2.5 + c * 15 + cr * 0.25) : tier(''
           @ quoted ''long_context'' @ '', p * 5 + c * 22.5 + cr * 0.5)'',
        prules = []\<rparr>,
      \<lparr>pkey = ''claude-sonnet'',
        pexpr = ''len <= 200000 ? tier('' @ quoted ''standard''
           @ '', p * 3 + c * 15 + cr * 0.3 + cc * 3.75 + cc1h * 6) : tier('' @ quoted ''long_context''
           @ '', p * 6 + c * 22.5 + cr * 0.6 + cc * 7.5 + cc1h * 12)'',
        prules = []\<rparr>,
      \<lparr>pkey = ''qwen3-max'',
        pexpr = ''len <= 32000 ? tier('' @ quoted ''short''
           @ '', p * 1.2 + c * 6 + cr * 0.24 + cc * 1.5) : len <= 128000 ? tier('' @ quoted ''mid''
           @ '', p * 2.4 + c * 12 + cr * 0.48 + cc * 3) : tier('' @ quoted ''long''
           @ '', p * 3 + c * 15 + cr * 0.6 + cc * 3.75)'',
        prules = []\<rparr>,
      \<lparr>pkey = ''glm-4.5-air'',
        pexpr = ''len < 32000 && c < 200 ? tier('' @ quoted ''short_output''
           @ '', p * 0.8 + c * 2 + cr * 0.16) : len < 32000 && c >= 200 ? tier('' @ quoted ''long_output''
           @ '', p * 0.8 + c * 6 + cr * 0.16) : tier('' @ quoted ''mid_context''
           @ '', p * 1.2 + c * 8 + cr * 0.24)'',
        prules = []\<rparr>,
      \<lparr>pkey = ''doubao-seed-1.8'',
        pexpr = ''len <= 32000 && c <= 200 ? tier('' @ quoted ''discount''
           @ '', p * 0.8 + c * 2 + cr * 0.16 + cc * 0.17) : len <= 32000 ? tier('' @ quoted ''short''
           @ '', p * 0.8 + c * 8 + cr * 0.16 + cc * 0.17) : len <= 128000 ? tier('' @ quoted ''mid''
           @ '', p * 1.2 + c * 16 + cr * 0.16 + cc * 0.17) : tier('' @ quoted ''long''
           @ '', p * 2.4 + c * 24 + cr * 0.16 + cc * 0.17)'',
        prules = []\<rparr>,
      \<lparr>pkey = ''gpt-image-1-mini'',
        pexpr = ''tier('' @ quoted ''base'' @ '', p * 2 + c * 8 + img * 2.5)'',
        prules = []\<rparr>,
      \<lparr>pkey = ''gemini-2.5-flash'',
        pexpr = ''tier('' @ quoted ''base'' @ '', p * 0.3 + c * 2.5 + cr * 0.03 + ai * 1.0)'',
        prules = []\<rparr>,
      \<lparr>pkey = ''gemini-3-pro-image'',
        pexpr = ''tier('' @ quoted ''base'' @ '', p * 2 + c * 12 + img_o * 120)'',
        prules = []\<rparr>,
      \<lparr>pkey = ''qwen3-omni-flash'',
        pexpr = ''tier('' @ quoted ''base'' @ '', p * 0.43 + c * 3.06 + img * 0.78 + ai * 3.81 + ao * 15.11)'',
        prules = []\<rparr>,
      \<lparr>pkey = ''claude-opus-fast'',
        pexpr = ''tier('' @ quoted ''base'' @ '', p * 5 + c * 25 + cr * 0.5 + cc * 6.25 + cc1h * 10)'',
        prules = [\<lparr>conditions = [ParamHeader SHeader ''anthropic-beta'' MATCH_CONTAINS ''fast-mode-2026-02-01''], multiplier = ''6''\<rparr>]\<rparr>,
      \<lparr>pkey = ''gpt-5.4-tiers'',
        pexpr = ''len <= 272000 ? tier('' @ quoted ''standard'' @ '', p * 2.5 + c * 15 + cr * 0.25) : tier(''
           @ quoted ''long_context'' @ '', p * 5 + c * 22.5 + cr * 0.5)'',
        prules = [\<lparr>conditions = [ParamHeader SParam ''service_tier'' MATCH_EQ ''priority''], multiplier = ''2''\<rparr>,
                  \<lparr>conditions = [ParamHeader SParam ''service_tier'' MATCH_EQ ''flex''], multiplier = ''0.5''\<rparr>]\<rparr>,
      \<lparr>pkey = ''night-discount'',
        pexpr = ''tier('' @ quoted ''base'' @ '', p * 3 + c * 15)'',
        prules = [\<lparr>conditions = [TimeCond ''hour'' ''Asia/Shanghai'' MATCH_RANGE '''' ''21'' ''6''], multiplier = ''0.5''\<rparr>]\<rparr>,
      \<lparr>pkey = ''weekend-discount'',
        pexpr = ''tier('' @ quoted ''base'' @ '', p * 3 + c * 15)'',
        prules = [\<lparr>conditions = [TimeCond ''weekday'' ''Asia/Shanghai'' MATCH_EQ ''0'' '''' ''''], multiplier = ''0.8''\<rparr>,
                  \<lparr>conditions = [TimeCond ''weekday'' ''Asia/Shanghai'' MATCH_EQ ''6'' '''' ''''], multiplier = ''0.8''\<rparr>]\<rparr>]"

text \<open>The editor reads back the rules of every preset.\<close>

lemma presets_rules: "\<forall>p \<in> set PRESETS. tryParseRequestRuleExpr (buildRequestRuleExpr (prules p)) = Match (prules p)"
  by code_simp

end
