(* ===== verification/JsValues.thy ===== *)
theory JsValues
  imports JsJsonFacts
begin

text \<open>
  More of JavaScript on parsed values: \<open>JSON.stringify(v, null, 2)\<close> with its round trip, the own fields of any value,
  reading, assigning and deleting a property of an object, and \<open>parseFloat\<close>.
\<close>

subsection \<open>Indented text\<close>

definition newline :: "nat \<Rightarrow> string" where
  "newline k = CHR 0x0A # replicate (2 * k) CHR '' ''"

text \<open>Members or elements on lines of their own, one level deeper than their brackets.\<close>

definition block_text :: "nat \<Rightarrow> string list \<Rightarrow> string" where
  "block_text k ts = newline (Suc k) @ join ('','' @ newline (Suc k)) ts @ newline k"

fun pretty :: "nat \<Rightarrow> json \<Rightarrow> string" where
  "pretty k (JArr xs) = (if xs = [] then ''[]'' else ''['' @ block_text k (map (pretty (Suc k)) xs) @ '']'')"
| "pretty k (JObj ob) =
     (if ob = [] then ''{}''
      else ''{'' @ block_text k (map (\<lambda>p. quote (fst p) @ '': '' @ pretty (Suc k) (snd p)) (own_entries ob)) @ ''}'')"
| "pretty k JNull = ''null''"
| "pretty k (JBool b) = (if b then ''true'' else ''false'')"
| "pretty k (JNum x) = show_num x"
| "pretty k (JStr s) = quote s"

text \<open>\<open>JSON.stringify(v, null, 2)\<close>.\<close>

definition stringify2 :: "json \<Rightarrow> string" where
  "stringify2 v = pretty 0 v"

lemma newline_ws [simp]: "list_all json_ws (newline k)"
  by (simp add: newline_def list_all_iff json_ws_def)

lemma length_newline [simp]: "length (newline k) = Suc (2 * k)" "newline k \<noteq> []"
  by (simp_all add: newline_def)

lemma skip_ws [simp]: "list_all json_ws ws \<Longrightarrow> skip (ws @ s) = skip s"
  by (induction ws) auto

lemma not_ws_marks [simp]: "\<not> json_ws CHR '',''" "\<not> json_ws CHR '']''" "\<not> json_ws CHR 0x7D" "\<not> json_ws CHR 0x22"
    "\<not> json_ws CHR '':''" "json_ws CHR '' ''"
  by (simp_all add: json_ws_def)

lemma parse_val_ws: "list_all json_ws ws \<Longrightarrow> parse_val n (ws @ s) = parse_val n s"
  by (cases n) simp_all

lemma parse_elems_ws: "list_all json_ws ws \<Longrightarrow> parse_elems n (ws @ s) = parse_elems n s"
  by (cases n) (simp_all add: parse_val_ws)

lemma parse_mems_ws: "list_all json_ws ws \<Longrightarrow> parse_mems n acc (ws @ s) = parse_mems n acc s"
  by (cases n) simp_all

lemma num_end_simps [simp]: "num_end (CHR '','' # r)" "num_end (newline k @ r)" "num_end []"
  by (auto simp: num_end_def newline_def is_digit_def)

lemma pretty_hd: "\<exists>c t. pretty k v = c # t \<and> \<not> json_ws c \<and> c \<noteq> CHR '']'' \<and> c \<noteq> CHR 0x7D"
proof (cases v)
  case (JNum x)
  then show ?thesis using show_num_hd [of x] num_start_branch by fastforce
qed (auto simp: json_ws_def quote_def)

lemma length_pretty_pos: "0 < length (pretty k v)"
  using pretty_hd [of k v] by auto

lemma parse_indented_elems:
  assumes "xs \<noteq> []" "list_all json_ws ws" "list_all json_ws ws'" "ws \<noteq> []"
    and "\<And>x n q. x \<in> set xs \<Longrightarrow> length (p x) \<le> n \<Longrightarrow> num_end q \<Longrightarrow> parse_val n (p x @ q) = Some (x, q)"
    and "\<And>q. num_end (ws' @ q)"
    and "length (join ('','' @ ws) (map p xs)) < n"
  shows "parse_elems n (join ('','' @ ws) (map p xs) @ ws' @ CHR '']'' # r) = Some (xs, r)"
  using assms
proof (induction xs arbitrary: n)
  case Nil
  then show ?case by simp
next
  case (Cons x xs)
  from Cons.prems(7) obtain m where n: "n = Suc m" by (cases n) auto
  have hx: "parse_val m (p x @ q) = Some (x, q)" if "num_end q" for q
    using Cons.prems(7) length_join_hd [of "p x" "'','' @ ws" "map p xs"] that n by (intro Cons.prems(5)) auto
  show ?case
  proof (cases "xs = []")
    case True
    then show ?thesis using hx [OF Cons.prems(6)] n Cons.prems(3) by simp
  next
    case False
    then have j: "join ('','' @ ws) (map p (x # xs)) = p x @ '','' @ ws @ join ('','' @ ws) (map p xs)"
      by (simp add: join_Cons)
    have "parse_elems m (join ('','' @ ws) (map p xs) @ ws' @ CHR '']'' # r) = Some (xs, r)"
      using False Cons.prems n j by (intro Cons.IH) auto
    then have "parse_elems m (ws @ join ('','' @ ws) (map p xs) @ ws' @ CHR '']'' # r) = Some (xs, r)"
      using Cons.prems(2) by (simp add: parse_elems_ws)
    then show ?thesis using hx n j by simp
  qed
qed

definition member2 :: "(json \<Rightarrow> string) \<Rightarrow> string \<times> json \<Rightarrow> string" where
  "member2 p m = quote (fst m) @ '': '' @ p (snd m)"

lemma parse_member2:
  "parse_mems (Suc m) acc (member2 p e @ q)
    = (case parse_val m (p (snd e) @ q) of
         None \<Rightarrow> None
       | Some (v, r'') \<Rightarrow>
           (case skip r'' of
              [] \<Rightarrow> None
            | c # q \<Rightarrow>
                (if c = CHR '','' then parse_mems m (oput (fst e) v acc) q
                 else if c = CHR 0x7D then Some (oput (fst e) v acc, q)
                 else None)))"
  using parse_val_ws [of "'' ''" m "p (snd e) @ q"] by (simp add: member2_def quote_def parse_str_body)

lemma parse_indented_mems:
  assumes "ob \<noteq> []" "list_all json_ws ws" "list_all json_ws ws'" "ws \<noteq> []"
    and "\<And>e n q. e \<in> set ob \<Longrightarrow> length (p (snd e)) \<le> n \<Longrightarrow> num_end q \<Longrightarrow> parse_val n (p (snd e) @ q) = Some (snd e, q)"
    and "\<And>q. num_end (ws' @ q)"
    and "length (join ('','' @ ws) (map (member2 p) ob)) < n" "distinct (map fst (acc @ ob))"
  shows "parse_mems n acc (join ('','' @ ws) (map (member2 p) ob) @ ws' @ CHR 0x7D # r) = Some (acc @ ob, r)"
  using assms
proof (induction ob arbitrary: n acc)
  case Nil
  then show ?case by simp
next
  case (Cons e ob)
  from Cons.prems(7) obtain m where n: "n = Suc m" by (cases n) auto
  have "length (p (snd e)) < length (member2 p e)" by (simp add: member2_def)
  then have len: "length (p (snd e)) \<le> m"
    using Cons.prems(7) length_join_hd [of "member2 p e" "'','' @ ws" "map (member2 p) ob"] n by simp
  have hp: "parse_val m (p (snd e) @ q) = Some (snd e, q)" if "num_end q" for q
    using Cons.prems(5) len that by simp
  have fresh: "oput (fst e) (snd e) acc = acc @ [e]"
    using Cons.prems(8) by (subst oput_fresh) auto
  show ?case
  proof (cases "ob = []")
    case True
    then show ?thesis using hp [OF Cons.prems(6)] n fresh Cons.prems(3)
      by (simp add: parse_member2 del: parse_mems.simps)
  next
    case False
    then have j: "join ('','' @ ws) (map (member2 p) (e # ob))
        = member2 p e @ '','' @ ws @ join ('','' @ ws) (map (member2 p) ob)"
      by (simp add: join_Cons)
    have "parse_mems m (acc @ [e]) (join ('','' @ ws) (map (member2 p) ob) @ ws' @ CHR 0x7D # r) = Some ((acc @ [e]) @ ob, r)"
      using False Cons.prems n j by (intro Cons.IH) auto
    then have "parse_mems m (acc @ [e]) (ws @ join ('','' @ ws) (map (member2 p) ob) @ ws' @ CHR 0x7D # r) = Some ((acc @ [e]) @ ob, r)"
      using Cons.prems(2) by (simp add: parse_mems_ws)
    then show ?thesis using hp n j fresh by (simp add: parse_member2 del: parse_mems.simps)
  qed
qed

lemma block_elems:
  assumes "xs \<noteq> []"
    and "\<And>x n q. x \<in> set xs \<Longrightarrow> length (p x) \<le> n \<Longrightarrow> num_end q \<Longrightarrow> parse_val n (p x @ q) = Some (x, q)"
    and "length (block_text k (map p xs)) \<le> n"
  shows "parse_elems n (block_text k (map p xs) @ CHR '']'' # r) = Some (xs, r)"
proof -
  have "parse_elems n (join ('','' @ newline (Suc k)) (map p xs) @ newline k @ CHR '']'' # r) = Some (xs, r)"
    by (rule parse_indented_elems) (use assms in \<open>auto simp: block_text_def\<close>)
  then show ?thesis by (simp add: block_text_def parse_elems_ws)
qed

lemma block_mems:
  assumes "ob \<noteq> []" "distinct (map fst ob)"
    and "\<And>e n q. e \<in> set ob \<Longrightarrow> length (p (snd e)) \<le> n \<Longrightarrow> num_end q \<Longrightarrow> parse_val n (p (snd e) @ q) = Some (snd e, q)"
    and "length (block_text k (map (member2 p) ob)) \<le> n"
  shows "parse_mems n [] (block_text k (map (member2 p) ob) @ CHR 0x7D # r) = Some (ob, r)"
proof -
  have "parse_mems n [] (join ('','' @ newline (Suc k)) (map (member2 p) ob) @ newline k @ CHR 0x7D # r) = Some ([] @ ob, r)"
    by (rule parse_indented_mems) (use assms in \<open>auto simp: block_text_def\<close>)
  then show ?thesis by (simp add: block_text_def parse_mems_ws)
qed

lemma skip_block: "ts \<noteq> [] \<Longrightarrow> c # t = hd ts \<Longrightarrow> \<not> json_ws c \<Longrightarrow> \<exists>q. skip (block_text k ts @ r) = c # q"
proof -
  assume "ts \<noteq> []" "c # t = hd ts" "\<not> json_ws c"
  then obtain us where "ts = (c # t) # us" by (cases ts) auto
  then show ?thesis using \<open>\<not> json_ws c\<close> by (cases us) (auto simp: block_text_def)
qed

lemma pretty_JObj: "own_entries ob = ob \<Longrightarrow> ob \<noteq> [] \<Longrightarrow>
  pretty k (JObj ob) = ''{'' @ block_text k (map (member2 (pretty (Suc k))) ob) @ ''}''"
  by (simp add: member2_def [abs_def])

theorem parse_pretty_val:
  "wf_json v \<Longrightarrow> length (pretty k v) \<le> n \<Longrightarrow> num_end r \<Longrightarrow> parse_val n (pretty k v @ r) = Some (v, r)"
proof (induction v arbitrary: k n r)
  case JNull
  then show ?case by (cases n) (auto simp: json_ws_def)
next
  case (JBool b)
  then show ?case by (cases n; cases b) (auto simp: json_ws_def)
next
  case (JNum x)
  obtain c t where c: "show_num x = c # t" "num_start c" using show_num_hd by blast
  then obtain m where n: "n = Suc m" using JNum.prems by (cases n) auto
  have "parse_num (c # t @ r) = Some (x, r)"
    using parse_show_num [of x r] JNum.prems c by simp
  then show ?case using c n num_start_branch [OF c(2)] by simp
next
  case (JStr s)
  then show ?case by (cases n) (auto simp: quote_def json_ws_def parse_str_body)
next
  case (JArr xs)
  then obtain m where n: "n = Suc m" using length_pretty_pos [of k "JArr xs"] by (cases n) auto
  show ?case
  proof (cases "xs = []")
    case True
    then show ?thesis using n by (simp add: json_ws_def)
  next
    case False
    obtain c t where c: "c # t = hd (map (pretty (Suc k)) xs)" "\<not> json_ws c" "c \<noteq> CHR '']''"
      using False pretty_hd [of "Suc k" "hd xs"] by (auto simp: hd_map)
    obtain q where q: "skip (block_text k (map (pretty (Suc k)) xs) @ CHR '']'' # r) = c # q"
      using skip_block [OF _ c(1,2)] False by blast
    have "parse_elems m (block_text k (map (pretty (Suc k)) xs) @ CHR '']'' # r) = Some (xs, r)"
      using False JArr n by (intro block_elems) auto
    then show ?thesis using n q c False by (simp add: json_ws_def)
  qed
next
  case (JObj ob)
  then have oe: "own_entries ob = ob" by simp
  from JObj obtain m where n: "n = Suc m" using length_pretty_pos [of k "JObj ob"] by (cases n) auto
  show ?case
  proof (cases "ob = []")
    case True
    then show ?thesis using n by (simp add: json_ws_def own_entries_def)
  next
    case False
    obtain t where t: "CHR 0x22 # t = hd (map (member2 (pretty (Suc k))) ob)"
      using False by (simp add: hd_map member2_def quote_def)
    obtain q where q: "skip (block_text k (map (member2 (pretty (Suc k))) ob) @ CHR 0x7D # r) = CHR 0x22 # q"
      using skip_block [OF _ t] False by auto
    have "parse_mems m [] (block_text k (map (member2 (pretty (Suc k))) ob) @ CHR 0x7D # r) = Some (ob, r)"
      using False JObj.prems n oe unfolding pretty_JObj [OF oe False]
      by (intro block_mems) (auto simp: owf_def intro: JObj.IH)
    then show ?thesis using n q unfolding pretty_JObj [OF oe False] by (simp add: json_ws_def)
  qed
qed

theorem json_parse_stringify2: "wf_json v \<Longrightarrow> json_parse (stringify2 v) = Some v"
  using parse_pretty_val [of v 0 "2 * length (stringify2 v) + 2" "[]"] by (simp add: json_parse_def stringify2_def)

interpretation indented_text: text_codec stringify2 json_parse wf_json
  by unfold_locales (rule json_parse_stringify2)

text \<open>The text of an object is trimmed already.\<close>

lemma trim_stringify2_obj [simp]: "trim (stringify2 (JObj ob)) = stringify2 (JObj ob)"
proof (rule trim_id)
  show "trimmed (stringify2 (JObj ob))"
    by (auto simp: stringify2_def trimmed_by_def is_ws_def)
qed

lemma trim_stringify2_arr [simp]: "trim (stringify2 (JArr xs)) = stringify2 (JArr xs)"
proof (rule trim_id)
  show "trimmed (stringify2 (JArr xs))"
    by (auto simp: stringify2_def trimmed_by_def is_ws_def)
qed

lemma stringify2_ne [simp]: "stringify2 v \<noteq> []"
  using length_pretty_pos [of 0 v] by (auto simp: stringify2_def)

subsection \<open>Fields of any value\<close>

text \<open>\<open>{...v}\<close>: own fields of an object, elements of an array, characters of a string, nothing of the rest.\<close>

definition indexed :: "json list \<Rightarrow> json obj" where
  "indexed xs = map (\<lambda>(i, v). (show_nat i, v)) (zip [0..<length xs] xs)"

fun spread_fields :: "json \<Rightarrow> json obj" where
  "spread_fields (JObj ob) = ob"
| "spread_fields (JArr xs) = indexed xs"
| "spread_fields (JStr s) = indexed (map (\<lambda>c. JStr [c]) s)"
| "spread_fields _ = []"

text \<open>\<open>Object.entries(v)\<close>: a TypeError (\<open>None\<close>) on null.\<close>

definition object_entries :: "json \<Rightarrow> json obj option" where
  "object_entries v = (if v = JNull then None else Some (own_entries (spread_fields v)))"

text \<open>
  Objects read from JSON inherit from \<open>Object.prototype\<close>: its names read as something truthy, and assigning
  \<open>__proto__\<close> is no own property.
\<close>

definition PROTOTYPE_NAMES :: "string list" where
  "PROTOTYPE_NAMES =
     [''constructor'', ''__defineGetter__'', ''__defineSetter__'', ''hasOwnProperty'', ''__lookupGetter__'',
      ''__lookupSetter__'', ''isPrototypeOf'', ''propertyIsEnumerable'', ''toString'', ''valueOf'', ''__proto__'',
      ''toLocaleString'']"

definition assign :: "string \<Rightarrow> json \<Rightarrow> json obj \<Rightarrow> json obj" where
  "assign k v ob = (if k = ''__proto__'' \<and> \<not> ohas k ob then ob else oput k v ob)"

lemma assign_oput: "k \<noteq> ''__proto__'' \<Longrightarrow> assign k v ob = oput k v ob"
  by (simp add: assign_def)

text \<open>
  \<open>v[k] = w\<close> and \<open>delete v[k]\<close>. \<open>None\<close>: null and primitive values throw; arrays used as
  dictionaries are not modelled.
\<close>

fun set_prop :: "string \<Rightarrow> json \<Rightarrow> json \<Rightarrow> json option" where
  "set_prop k w (JObj ob) = Some (JObj (assign k w ob))"
| "set_prop k w _ = None"

fun del_prop :: "string \<Rightarrow> json \<Rightarrow> json option" where
  "del_prop k (JObj ob) = Some (JObj (odel k ob))"
| "del_prop k _ = None"

subsection \<open>\<open>parseFloat\<close>\<close>

datatype jsfloat = NaN | Infinite bool | Finite num

definition parseFloat :: "string \<Rightarrow> jsfloat" where
  "parseFloat s =
     (case opt_sign (dropWhile is_ws s) of (neg, u) \<Rightarrow>
        if strip_prefix ''Infinity'' u \<noteq> None then Infinite neg
        else (case span_digits u of (ds, r) \<Rightarrow>
          case (case strip_prefix ''.'' r of Some q \<Rightarrow> span_digits q | None \<Rightarrow> ([], r)) of (fs, q) \<Rightarrow>
            if ds = [] \<and> fs = [] then NaN
            else (let m = int (read_nat (ds @ fs)); e = (case parse_exp q of Some (x, _) \<Rightarrow> x | None \<Rightarrow> 0)
                  in Finite (canon (if neg then - m else m) (e - int (length fs))))))"

text \<open>What \<open>JSON.stringify\<close> makes of a number: \<open>NaN\<close> and the infinities print as null.\<close>

fun float_json :: "jsfloat \<Rightarrow> json" where
  "float_json (Finite x) = JNum x"
| "float_json _ = JNull"

lemma wf_parseFloat: "wf_json (float_json (parseFloat s))"
  by (simp add: parseFloat_def Let_def wf_canon split: prod.splits option.splits)

end
