(* ===== verification/OptionStore.thy ===== *)
theory OptionStore
  imports JsValues ApiClient
begin

text \<open>
  How the settings pages save an option: the request and the callbacks of the mutation that they share
  (\<^verbatim>\<open>features/system-settings/api.ts\<close>, \<^verbatim>\<open>features/system-settings/hooks/use-update-option.ts\<close>).
\<close>

definition STATUS_RELATED_KEYS :: "string list" where
  "STATUS_RELATED_KEYS =
     [''HeaderNavModules'', ''SidebarModulesAdmin'', ''Notice'', ''LogConsumeEnabled'', ''QuotaPerUnit'',
      ''USDExchangeRate'', ''DisplayInCurrencyEnabled'', ''DisplayTokenStatEnabled'',
      ''general_setting.quota_display_type'', ''general_setting.custom_currency_symbol'',
      ''general_setting.custom_currency_exchange_rate'']"

definition isStatusRelatedKey :: "string \<Rightarrow> bool" where
  "isStatusRelatedKey key \<longleftrightarrow>
     key \<in> set STATUS_RELATED_KEYS \<or> strip_prefix ''registration_setting.'' key \<noteq> None"

definition updateSystemOption :: "string \<Rightarrow> json \<Rightarrow> Request" where
  "updateSystemOption key v =
     \<lparr>verb = ''PUT'', url = ''/api/option/'', payload = Some (JObj [(''key'', JStr key), (''value'', v)]),
      config = no_config\<rparr>"

text \<open>\<open>onSuccess\<close> and \<open>onError\<close> of the mutation; the interceptor of the client has run before (\<open>settle\<close>).\<close>

definition onSuccess :: "string \<Rightarrow> Body \<Rightarrow> App \<Rightarrow> App" where
  "onSuccess key b app =
     (if success b = Some True
      then toast (Success (Tr ''Setting updated successfully'' []))
             (app\<lparr>stale := stale app @ [[''system-options'']] @ (if isStatusRelatedKey key then [[''status'']] else [])\<rparr>)
      else toast (Error (or_text (message b) (Tr ''Failed to update setting'' []))) app)"

definition onError :: "Failure \<Rightarrow> App \<Rightarrow> App" where
  "onError e app = toast (Error (or_text (Some (err_message e)) (Tr ''Failed to update setting'' []))) app"

definition mutation_settled :: "string \<Rightarrow> Outcome \<Rightarrow> App \<Rightarrow> App" where
  "mutation_settled key out app =
     (case out of
        Reply b \<Rightarrow> onSuccess key b (settle no_config out app)
      | Rejected e \<Rightarrow> onError e (settle no_config out app))"

end
