(* ===== verification/ContentSections.thy ===== *)
theory ContentSections
  imports OptionStore
begin

text \<open>
  The four lists of the dashboard content settings: announcements, API addresses, questions and uptime groups
  (\<^verbatim>\<open>features/system-settings/content/*-section.tsx\<close>), with \<^verbatim>\<open>lib/parse-option-list.ts\<close>, on
  top of \<open>OptionStore\<close>. The four components are the same code over different item
  types: a \<open>Kind\<close> holds what differs (option keys, form schema, form values, messages), a \<open>Section\<close> is the state, and
  \<open>section_step\<close> the handlers. An item is the object read from the option, unknown fields included.

  The props (the option text and its switch) may change at any time. The answer to a request comes later than the click, and
  the page goes on in between. \<open>possible\<close> says which controls the page offers: the dialogs are modal, and buttons
  are disabled as in the source. zod's URL check and the clock are parameters.
\<close>

subsection \<open>Reading the option (lib/parse-option-list.ts)\<close>

type_synonym Item = "json obj"

definition with_id :: "json \<Rightarrow> nat \<Rightarrow> Item" where
  "with_id item idx =
     oput ''id''
       (case jfield ''id'' item of
          Some v \<Rightarrow> if jtruthy v then v else JNum (num_of_int (int idx + 1))
        | None \<Rightarrow> JNum (num_of_int (int idx + 1)))
       (spread_fields item)"

definition parseOptionList :: "string \<Rightarrow> Item list" where
  "parseOptionList s =
     (case json_parse (if s = [] then ''[]'' else s) of
        Some (JArr xs) \<Rightarrow> map (\<lambda>(item, idx). with_id item idx) (zip xs [0..<length xs])
      | _ \<Rightarrow> [])"

subsection \<open>Form schemas\<close>

text \<open>
  A check of zod on a text: the message when it fails. A field is required or optional text, or one of a list; \<open>Mismatch\<close> is zod's own message
  for a value of another type. The form keeps the first issue of a field; the values have the order of the schema.
\<close>

type_synonym Check = "string \<Rightarrow> string option"

definition zmin :: "nat \<Rightarrow> string \<Rightarrow> Check" where
  "zmin n msg s = (if length s < n then Some msg else None)"

definition zmax :: "nat \<Rightarrow> string \<Rightarrow> Check" where
  "zmax n msg s = (if n < length s then Some msg else None)"

definition zurl :: "(string \<Rightarrow> bool) \<Rightarrow> string \<Rightarrow> Check" where
  "zurl url_ok msg s = (if url_ok s then None else Some msg)"

datatype Issue = Mismatch | Says string

datatype Field = Text "Check list" | OptText "Check list" | Enum "string list"

definition first_issue :: "Check list \<Rightarrow> string \<Rightarrow> Issue option" where
  "first_issue cs s =
     (case List.map_filter (\<lambda>c. c s) cs of [] \<Rightarrow> None | msg # _ \<Rightarrow> Some (Says msg))"

fun check_field :: "Field \<Rightarrow> json option \<Rightarrow> Issue option" where
  "check_field (Text cs) (Some (JStr s)) = first_issue cs s"
| "check_field (OptText cs) (Some (JStr s)) = first_issue cs s"
| "check_field (OptText cs) None = None"
| "check_field (Enum vs) (Some (JStr s)) = (if s \<in> set vs then None else Some Mismatch)"
| "check_field _ _ = Some Mismatch"

type_synonym Schema = "(string \<times> Field) list"

definition zod_object :: "Schema \<Rightarrow> json obj \<Rightarrow> (string \<times> Issue) list + json obj" where
  "zod_object sch raw =
     (let issues = List.map_filter (\<lambda>(k, f). map_option (Pair k) (check_field f (oget raw k))) sch
      in if issues = [] then Inr (List.map_filter (\<lambda>(k, f). map_option (Pair k) (oget raw k)) sch)
         else Inl issues)"

subsection \<open>The state of a section\<close>

datatype Target = Single | Batch

text \<open>What an awaiting handler goes on with.\<close>

datatype Awaiting = Toggling bool | Saving

record Section =
  items :: "Item list"
  syncedData :: string
  isEnabled :: bool
  syncedEnabled :: bool
  hasChanges :: bool
  selectedIds :: "json option list"
  showDialog :: bool
  showDeleteDialog :: bool
  editing :: "Item option"
  deleteTarget :: Target
  formValues :: "json obj"
  formErrors :: "(string \<times> Issue) list"
  awaited :: "(nat \<times> Awaiting) list"
  mutation :: "nat option"
  page :: App

text \<open>What differs between the four components.\<close>

record Kind =
  enabledKey :: string
  dataKey :: string
  schema :: Schema
  blankValues :: "string \<Rightarrow> json obj"
  editValues :: "Item \<Rightarrow> json obj"
  deletedText :: string
  batchText :: string
  updatedText :: string
  addedText :: string
  savedText :: string
  saveFailedText :: string

definition item_id :: "Item \<Rightarrow> json option" where
  "item_id it = oget it ''id''"

definition openSection :: "Kind \<Rightarrow> string \<Rightarrow> bool \<Rightarrow> string \<Rightarrow> App \<Rightarrow> Section" where
  "openSection K s enabled now app =
     \<lparr>items = parseOptionList s, syncedData = s, isEnabled = enabled, syncedEnabled = enabled,
      hasChanges = False, selectedIds = [], showDialog = False, showDeleteDialog = False, editing = None,
      deleteTarget = Single, formValues = blankValues K now, formErrors = [], awaited = [], mutation = None, page = app\<rparr>"

definition shown :: "Toast \<Rightarrow> Section \<Rightarrow> Section" where
  "shown t st = st\<lparr>page := toast t (page st)\<rparr>"

text \<open>\<open>updateOption.isPending\<close>: the last request of the mutation has no answer yet.\<close>

definition isPending :: "Section \<Rightarrow> bool" where
  "isPending st = (case mutation st of Some i \<Rightarrow> i \<in> fst ` set (awaited st) | None \<Rightarrow> False)"


subsection \<open>Handlers\<close>

text \<open>A render with new props: the local copies follow.\<close>

definition syncProps :: "string \<Rightarrow> bool \<Rightarrow> Section \<Rightarrow> Section" where
  "syncProps s enabled st =
     (let st1 = (if syncedData st \<noteq> s then st\<lparr>syncedData := s, items := parseOptionList s\<rparr> else st)
      in if syncedEnabled st1 \<noteq> enabled then st1\<lparr>syncedEnabled := enabled, isEnabled := enabled\<rparr> else st1)"

text \<open>\<open>updateOption.mutateAsync\<close>: the request goes out, the handler awaits its answer.\<close>

definition mutateAsync :: "string \<Rightarrow> json \<Rightarrow> Awaiting \<Rightarrow> Section \<Rightarrow> Section" where
  "mutateAsync key v w st =
     (let i = length (sent (page st))
      in st\<lparr>page := (page st)\<lparr>sent := sent (page st) @ [updateSystemOption key v]\<rparr>,
            awaited := awaited st @ [(i, w)], mutation := Some i\<rparr>)"

definition handleToggleEnabled :: "Kind \<Rightarrow> bool \<Rightarrow> Section \<Rightarrow> Section" where
  "handleToggleEnabled K checked st = mutateAsync (enabledKey K) (JBool checked) (Toggling checked) st"

definition handleSaveAll :: "Kind \<Rightarrow> Section \<Rightarrow> Section" where
  "handleSaveAll K st = mutateAsync (dataKey K) (JStr (stringify (JArr (map JObj (items st))))) Saving st"

text \<open>The answer of the \<open>i\<close>-th request: the mutation's callbacks, then the rest of the handler.\<close>

fun after_await :: "Kind \<Rightarrow> Awaiting \<Rightarrow> Outcome \<Rightarrow> Section \<Rightarrow> Section" where
  "after_await K (Toggling checked) (Reply _) st =
     shown (Success (Tr ''Setting saved'' [])) (st\<lparr>isEnabled := checked\<rparr>)"
| "after_await K (Toggling checked) (Rejected _) st = shown (Error (Tr ''Failed to update setting'' [])) st"
| "after_await K Saving (Reply _) st = shown (Success (Tr (savedText K) [])) (st\<lparr>hasChanges := False\<rparr>)"
| "after_await K Saving (Rejected _) st = shown (Error (Tr (saveFailedText K) [])) st"

definition key_of :: "Kind \<Rightarrow> Awaiting \<Rightarrow> string" where
  "key_of K w = (case w of Toggling _ \<Rightarrow> enabledKey K | Saving \<Rightarrow> dataKey K)"

definition answered :: "Kind \<Rightarrow> nat \<Rightarrow> Outcome \<Rightarrow> Section \<Rightarrow> Section" where
  "answered K i out st =
     (case map_of (awaited st) i of
        None \<Rightarrow> st
      | Some w \<Rightarrow>
          after_await K w out
            (st\<lparr>awaited := filter (\<lambda>p. fst p \<noteq> i) (awaited st),
                page := mutation_settled (key_of K w) out (page st)\<rparr>))"

definition handleAdd :: "Kind \<Rightarrow> string \<Rightarrow> Section \<Rightarrow> Section" where
  "handleAdd K now st =
     st\<lparr>editing := None, formValues := blankValues K now, formErrors := [], showDialog := True\<rparr>"

definition handleEdit :: "Kind \<Rightarrow> Item \<Rightarrow> Section \<Rightarrow> Section" where
  "handleEdit K it st =
     st\<lparr>editing := Some it, formValues := editValues K it, formErrors := [], showDialog := True\<rparr>"

definition handleDelete :: "Item \<Rightarrow> Section \<Rightarrow> Section" where
  "handleDelete it st = st\<lparr>editing := Some it, deleteTarget := Single, showDeleteDialog := True\<rparr>"

definition handleBatchDelete :: "Section \<Rightarrow> Section" where
  "handleBatchDelete st =
     (if selectedIds st = [] then shown (Error (Tr ''Please select items to delete'' [])) st
      else st\<lparr>deleteTarget := Batch, showDeleteDialog := True\<rparr>)"

definition confirmDelete :: "Kind \<Rightarrow> Section \<Rightarrow> Section" where
  "confirmDelete K st =
     (let st1 =
        (case (deleteTarget st, editing st) of
           (Single, Some x) \<Rightarrow>
             shown (Success (Tr (deletedText K) []))
               (st\<lparr>items := filter (\<lambda>it. item_id it \<noteq> item_id x) (items st), hasChanges := True\<rparr>)
         | (Single, None) \<Rightarrow> st
         | (Batch, _) \<Rightarrow>
             shown (Success (Tr (batchText K) [(''count'', JNum (num_of_int (int (length (selectedIds st)))))]))
               (st\<lparr>items := filter (\<lambda>it. item_id it \<notin> set (selectedIds st)) (items st), selectedIds := [],
                   hasChanges := True\<rparr>))
      in st1\<lparr>showDeleteDialog := False, editing := None\<rparr>)"

text \<open>\<open>Math.max(...ids, 0) + 1\<close>, for whole ids (the declared type is number).\<close>

definition whole_id :: "Item \<Rightarrow> int option" where
  "whole_id it = (case item_id it of Some (JNum x) \<Rightarrow> int_of_num x | _ \<Rightarrow> None)"

definition newId :: "Item list \<Rightarrow> int" where
  "newId its = foldr max (List.map_filter whole_id its) 0 + 1"

definition handleSubmitForm :: "Kind \<Rightarrow> json obj \<Rightarrow> Section \<Rightarrow> Section" where
  "handleSubmitForm K values st =
     (let st1 =
        (case editing st of
           Some x \<Rightarrow>
             shown (Success (Tr (updatedText K) []))
               (st\<lparr>items := map (\<lambda>it. if item_id it = item_id x then spread it values else it) (items st)\<rparr>)
         | None \<Rightarrow>
             shown (Success (Tr (addedText K) []))
               (st\<lparr>items := items st @ [spread [(''id'', JNum (num_of_int (newId (items st))))] values]\<rparr>))
      in st1\<lparr>hasChanges := True, showDialog := False\<rparr>)"

text \<open>\<open>form.handleSubmit\<close>: the handler runs on values that pass the schema.\<close>

definition submit :: "Kind \<Rightarrow> json obj \<Rightarrow> Section \<Rightarrow> Section" where
  "submit K raw st =
     (case zod_object (schema K) raw of
        Inl issues \<Rightarrow> st\<lparr>formValues := raw, formErrors := issues\<rparr>
      | Inr values \<Rightarrow> handleSubmitForm K values (st\<lparr>formValues := raw, formErrors := []\<rparr>))"

definition toggleSelectAll :: "bool \<Rightarrow> Section \<Rightarrow> Section" where
  "toggleSelectAll checked st = st\<lparr>selectedIds := (if checked then map item_id (items st) else [])\<rparr>"

definition toggleSelectOne :: "json option \<Rightarrow> bool \<Rightarrow> Section \<Rightarrow> Section" where
  "toggleSelectOne k checked st =
     st\<lparr>selectedIds := (if checked then selectedIds st @ [k] else filter (\<lambda>x. x \<noteq> k) (selectedIds st))\<rparr>"

definition all_checked :: "Section \<Rightarrow> bool" where
  "all_checked st \<longleftrightarrow> length (selectedIds st) = length (items st) \<and> items st \<noteq> []"

subsection \<open>The page\<close>

datatype Event =
    Props string bool
  | Toggle bool
  | Add string
  | Edit Item
  | Remove Item
  | RemoveSelected
  | Confirm
  | CancelDelete
  | CloseDialog
  | Submit "json obj"
  | SaveAll
  | SelectAll bool
  | SelectOne "json option" bool
  | Answer nat Outcome

fun section_step :: "Kind \<Rightarrow> Event \<Rightarrow> Section \<Rightarrow> Section" where
  "section_step K (Props s enabled) st = syncProps s enabled st"
| "section_step K (Toggle checked) st = handleToggleEnabled K checked st"
| "section_step K (Add now) st = handleAdd K now st"
| "section_step K (Edit it) st = handleEdit K it st"
| "section_step K (Remove it) st = handleDelete it st"
| "section_step K RemoveSelected st = handleBatchDelete st"
| "section_step K Confirm st = confirmDelete K st"
| "section_step K CancelDelete st = st\<lparr>showDeleteDialog := False\<rparr>"
| "section_step K CloseDialog st = st\<lparr>showDialog := False\<rparr>"
| "section_step K (Submit raw) st = submit K raw st"
| "section_step K SaveAll st = handleSaveAll K st"
| "section_step K (SelectAll checked) st = toggleSelectAll checked st"
| "section_step K (SelectOne k checked) st = toggleSelectOne k checked st"
| "section_step K (Answer i out) st = answered K i out st"

text \<open>Which controls the page offers: modal dialogs, disabled buttons, boxes that flip.\<close>

definition no_dialog :: "Section \<Rightarrow> bool" where
  "no_dialog st \<longleftrightarrow> \<not> showDialog st \<and> \<not> showDeleteDialog st"

fun possible :: "Section \<Rightarrow> Event \<Rightarrow> bool" where
  "possible st (Props s enabled) = True"
| "possible st (Toggle checked) = (no_dialog st \<and> checked = (\<not> isEnabled st))"
| "possible st (Add now) = no_dialog st"
| "possible st (Edit it) = (no_dialog st \<and> it \<in> set (items st))"
| "possible st (Remove it) = (no_dialog st \<and> it \<in> set (items st))"
| "possible st RemoveSelected = (no_dialog st \<and> selectedIds st \<noteq> [])"
| "possible st Confirm = showDeleteDialog st"
| "possible st CancelDelete = showDeleteDialog st"
| "possible st CloseDialog = showDialog st"
| "possible st (Submit raw) = showDialog st"
| "possible st SaveAll = (no_dialog st \<and> hasChanges st \<and> \<not> isPending st)"
| "possible st (SelectAll checked) = (no_dialog st \<and> checked = (\<not> all_checked st))"
| "possible st (SelectOne k checked) =
     (no_dialog st \<and> k \<in> set (map item_id (items st)) \<and> checked = (k \<notin> set (selectedIds st)))"
| "possible st (Answer i out) = (i \<in> fst ` set (awaited st))"

text \<open>A run of possible events; \<open>None\<close> when one of them is not offered.\<close>

fun run :: "Kind \<Rightarrow> Event list \<Rightarrow> Section \<Rightarrow> Section option" where
  "run K [] st = Some st"
| "run K (e # es) st = (if possible st e then run K es (section_step K e st) else None)"

subsection \<open>The four components\<close>

text \<open>A form value that \<open>form.reset\<close> takes from an item; \<open>or_empty\<close> is \<open>item.k || ''\<close>.\<close>

definition pick :: "string list \<Rightarrow> Item \<Rightarrow> json obj" where
  "pick ks it = List.map_filter (\<lambda>k. map_option (Pair k) (oget it k)) ks"

definition or_empty :: "string \<Rightarrow> Item \<Rightarrow> json" where
  "or_empty k it = (case oget it k of Some v \<Rightarrow> if jtruthy v then v else JStr [] | None \<Rightarrow> JStr [])"

definition texts :: "string list \<Rightarrow> json obj" where
  "texts ks = map (\<lambda>k. (k, JStr [])) ks"

text \<open>Announcements.\<close>

definition announcementSchema :: Schema where
  "announcementSchema =
     [(''content'', Text [zmin 1 ''Content is required'', zmax 500 ''Content must be less than 500 characters'']),
      (''publishDate'', Text [zmin 1 ''Publish date is required'']),
      (''type'', Enum [''default'', ''ongoing'', ''success'', ''warning'', ''error'']),
      (''extra'', OptText [zmax 100 ''Extra must be less than 100 characters''])]"

definition blankAnnouncement :: "string \<Rightarrow> json obj" where
  "blankAnnouncement now =
     [(''content'', JStr []), (''publishDate'', JStr now), (''type'', JStr ''default''), (''extra'', JStr [])]"

definition editAnnouncement :: "Item \<Rightarrow> json obj" where
  "editAnnouncement it = pick [''content'', ''publishDate'', ''type''] it @ [(''extra'', or_empty ''extra'' it)]"

definition announcements :: Kind where
  "announcements =
     \<lparr>enabledKey = ''console_setting.announcements_enabled'', dataKey = ''console_setting.announcements'',
      schema = announcementSchema, blankValues = blankAnnouncement, editValues = editAnnouncement,
      deletedText = ''Announcement deleted. Click \"Save Settings\" to apply.'',
      batchText = ''{{count}} announcements deleted. Click \"Save Settings\" to apply.'',
      updatedText = ''Announcement updated. Click \"Save Settings\" to apply.'',
      addedText = ''Announcement added. Click \"Save Settings\" to apply.'',
      savedText = ''Announcements saved successfully'', saveFailedText = ''Failed to save announcements''\<rparr>"

definition AnnouncementsSection :: "Event \<Rightarrow> Section \<Rightarrow> Section" where
  "AnnouncementsSection = section_step announcements"

text \<open>API addresses. The check of a URL is zod's.\<close>

definition apiInfoSchema :: "(string \<Rightarrow> bool) \<Rightarrow> Schema" where
  "apiInfoSchema url_ok =
     [(''url'', Text [zurl url_ok ''Must be a valid URL'']),
      (''route'', Text [zmin 1 ''Route is required'']),
      (''description'', Text [zmin 1 ''Description is required'']),
      (''color'', Text [zmin 1 ''Color is required''])]"

definition colorOptions :: "(string \<times> string \<times> string) list" where
  "colorOptions =
     [(''blue'', ''Blue'', ''bg-blue-500''), (''green'', ''Green'', ''bg-green-500''), (''cyan'', ''Cyan'', ''bg-cyan-500''),
      (''purple'', ''Purple'', ''bg-purple-500''), (''pink'', ''Pink'', ''bg-pink-500''), (''red'', ''Red'', ''bg-red-500''),
      (''orange'', ''Orange'', ''bg-orange-500''), (''amber'', ''Amber'', ''bg-amber-500''),
      (''yellow'', ''Yellow'', ''bg-yellow-500''), (''lime'', ''Lime'', ''bg-lime-500''), (''teal'', ''Teal'', ''bg-teal-500''),
      (''indigo'', ''Indigo'', ''bg-indigo-500''), (''violet'', ''Violet'', ''bg-violet-500''),
      (''slate'', ''Slate'', ''bg-slate-500'')]"

definition getColorClass :: "string \<Rightarrow> string" where
  "getColorClass c =
     (case find (\<lambda>(v, label, cls). v = c) colorOptions of
        Some (v, label, cls) \<Rightarrow> if cls \<noteq> [] then cls else ''bg-blue-500''
      | None \<Rightarrow> ''bg-blue-500'')"

definition apiInfo :: "(string \<Rightarrow> bool) \<Rightarrow> Kind" where
  "apiInfo url_ok =
     \<lparr>enabledKey = ''console_setting.api_info_enabled'', dataKey = ''console_setting.api_info'',
      schema = apiInfoSchema url_ok,
      blankValues = (\<lambda>now. texts [''url'', ''route'', ''description''] @ [(''color'', JStr ''blue'')]),
      editValues = pick [''url'', ''route'', ''description'', ''color''],
      deletedText = ''API info deleted. Click \"Save Settings\" to apply.'',
      batchText = ''{{count}} API entries deleted. Click \"Save Settings\" to apply.'',
      updatedText = ''API info updated. Click \"Save Settings\" to apply.'',
      addedText = ''API info added. Click \"Save Settings\" to apply.'',
      savedText = ''API info saved successfully'', saveFailedText = ''Failed to save API info''\<rparr>"

definition ApiInfoSection :: "(string \<Rightarrow> bool) \<Rightarrow> Event \<Rightarrow> Section \<Rightarrow> Section" where
  "ApiInfoSection url_ok = section_step (apiInfo url_ok)"

text \<open>Questions and answers.\<close>

definition faqSchema :: Schema where
  "faqSchema =
     [(''question'', Text [zmin 1 ''Question is required'', zmax 200 ''Question must be less than 200 characters'']),
      (''answer'', Text [zmin 1 ''Answer is required'', zmax 1000 ''Answer must be less than 1000 characters''])]"

definition faq :: Kind where
  "faq =
     \<lparr>enabledKey = ''console_setting.faq_enabled'', dataKey = ''console_setting.faq'', schema = faqSchema,
      blankValues = (\<lambda>now. texts [''question'', ''answer'']), editValues = pick [''question'', ''answer''],
      deletedText = ''FAQ deleted. Click \"Save Settings\" to apply.'',
      batchText = ''{{count}} FAQs deleted. Click \"Save Settings\" to apply.'',
      updatedText = ''FAQ updated. Click \"Save Settings\" to apply.'',
      addedText = ''FAQ added. Click \"Save Settings\" to apply.'',
      savedText = ''FAQ saved successfully'', saveFailedText = ''Failed to save FAQ''\<rparr>"

definition FAQSection :: "Event \<Rightarrow> Section \<Rightarrow> Section" where
  "FAQSection = section_step faq"

text \<open>Groups of Uptime Kuma. The slug matches \<^verbatim>\<open>/^[a-zA-Z0-9_-]+$/\<close>.\<close>

definition slug_char :: "char \<Rightarrow> bool" where
  "slug_char c \<longleftrightarrow>
     (let n = of_char c :: nat in
      97 \<le> n \<and> n \<le> 122 \<or> 65 \<le> n \<and> n \<le> 90 \<or> is_digit c \<or> c = CHR ''_'' \<or> c = CHR ''-'')"

definition zslug :: "string \<Rightarrow> Check" where
  "zslug msg s = (if s \<noteq> [] \<and> list_all slug_char s then None else Some msg)"

definition uptimeKumaSchema :: "(string \<Rightarrow> bool) \<Rightarrow> Schema" where
  "uptimeKumaSchema url_ok =
     [(''categoryName'', Text [zmin 1 ''Category name is required'',
                               zmax 50 ''Category name must be less than 50 characters'']),
      (''url'', Text [zurl url_ok ''Must be a valid URL'']),
      (''slug'', Text [zmin 1 ''Slug is required'', zmax 100 ''Slug must be less than 100 characters'',
                       zslug ''Slug can only contain letters, numbers, hyphens, and underscores''])]"

definition uptimeKuma :: "(string \<Rightarrow> bool) \<Rightarrow> Kind" where
  "uptimeKuma url_ok =
     \<lparr>enabledKey = ''console_setting.uptime_kuma_enabled'', dataKey = ''console_setting.uptime_kuma_groups'',
      schema = uptimeKumaSchema url_ok, blankValues = (\<lambda>now. texts [''categoryName'', ''url'', ''slug'']),
      editValues = pick [''categoryName'', ''url'', ''slug''],
      deletedText = ''Group deleted. Click \"Save Settings\" to apply.'',
      batchText = ''{{count}} groups deleted. Click \"Save Settings\" to apply.'',
      updatedText = ''Group updated. Click \"Save Settings\" to apply.'',
      addedText = ''Group added. Click \"Save Settings\" to apply.'',
      savedText = ''Uptime Kuma groups saved successfully'', saveFailedText = ''Failed to save Uptime Kuma groups''\<rparr>"

definition UptimeKumaSection :: "(string \<Rightarrow> bool) \<Rightarrow> Event \<Rightarrow> Section \<Rightarrow> Section" where
  "UptimeKumaSection url_ok = section_step (uptimeKuma url_ok)"

definition content_kinds :: "(string \<Rightarrow> bool) \<Rightarrow> Kind set" where
  "content_kinds url_ok = {announcements, apiInfo url_ok, faq, uptimeKuma url_ok}"

subsection \<open>Reading back\<close>

text \<open>An item as the section keeps it: a well-formed object whose id is a whole number other than zero.\<close>

definition sound_item :: "Item \<Rightarrow> bool" where
  "sound_item it \<longleftrightarrow> wf_json (JObj it) \<and> (\<exists>i. i \<noteq> 0 \<and> item_id it = Some (JNum (num_of_int i)))"

definition sound_items :: "Item list \<Rightarrow> bool" where
  "sound_items its \<longleftrightarrow> (\<forall>it \<in> set its. sound_item it) \<and> distinct (map item_id its)"

definition items_text :: "Item list \<Rightarrow> string" where
  "items_text its = stringify (JArr (map JObj its))"

lemma oput_present: "oget ob k = Some v \<Longrightarrow> oput k v ob = ob"
  by (induction k v ob rule: oput.induct) (auto split: if_splits)

lemma mant_num_of_int: "mant (num_of_int i) = 0 \<longleftrightarrow> i = 0"
proof -
  have "mant (canon m e) = 0 \<longleftrightarrow> m = 0" for m e
  proof (induction m e rule: canon.induct)
    case (1 m e)
    then show ?case by (subst canon.simps) (auto simp: mod_eq_0_iff_dvd)
  qed
  then show ?thesis by (simp add: num_of_int_def)
qed

lemma with_id_sound: "sound_item it \<Longrightarrow> with_id (JObj it) idx = it"
  by (auto simp: sound_item_def item_id_def with_id_def mant_num_of_int oput_present)

lemma sound_items_read_back: "sound_items its \<Longrightarrow> parseOptionList (items_text its) = its"
proof -
  assume s: "sound_items its"
  have "wf_json (JArr (map JObj its))" using s by (auto simp: sound_items_def sound_item_def)
  then have "json_parse (items_text its) = Some (JArr (map JObj its))"
    unfolding items_text_def by (rule json_parse_stringify)
  moreover have "items_text its \<noteq> []" by (simp add: items_text_def)
  moreover have "map (\<lambda>(item, idx). with_id item idx) (zip (map JObj its) [0..<length its]) = its"
    using s by (intro nth_equalityI) (auto simp: sound_items_def with_id_sound)
  ultimately show ?thesis by (simp add: parseOptionList_def)
qed

subsection \<open>What a section relies on in its form\<close>

text \<open>
  The values a form submits leave the id of an item alone and are texts under names that are no array indices: spreading
  them over an item keeps its id, and the result prints and reads back.
\<close>

definition tame :: "json obj \<Rightarrow> bool" where
  "tame vs \<longleftrightarrow> (\<forall>p \<in> set vs. fst p \<noteq> ''id'' \<and> \<not> is_index (fst p) \<and> wf_json (snd p))"

lemma oget_spread_other: "k \<notin> fst ` set b \<Longrightarrow> oget (spread a b) k = oget a k"
  by (induction b arbitrary: a) (auto simp: spread_def)

lemma item_id_spread: "tame vs \<Longrightarrow> item_id (spread it vs) = item_id it"
  by (auto simp: item_id_def tame_def intro!: oget_spread_other)

lemma wf_json_spread: "tame vs \<Longrightarrow> wf_json (JObj it) \<Longrightarrow> wf_json (JObj (spread it vs))"
proof (induction vs arbitrary: it)
  case Nil
  then show ?case by (simp add: spread_def)
next
  case (Cons p vs)
  have "wf_json (JObj (oput (fst p) (snd p) it))"
    by (rule wf_json_oput) (use Cons.prems in \<open>auto simp: tame_def\<close>)
  then have "wf_json (JObj (spread (oput (fst p) (snd p) it) vs))"
    using Cons.prems by (intro Cons.IH) (auto simp: tame_def)
  then show ?case by (simp add: spread_def)
qed

lemma sound_item_spread: "tame vs \<Longrightarrow> sound_item it \<Longrightarrow> sound_item (spread it vs)"
  unfolding sound_item_def by (simp add: item_id_spread wf_json_spread del: wf_json.simps)

lemma whole_id_lt_newId: "it \<in> set its \<Longrightarrow> whole_id it = Some i \<Longrightarrow> i < newId its"
  by (induction its) (auto simp: newId_def List.map_filter_simps split: option.splits)

lemma newId_pos: "0 < newId its"
proof -
  have "0 \<le> foldr max xs (0 :: int)" for xs by (induction xs) auto
  then show ?thesis by (simp add: newId_def add_nonneg_pos)
qed

lemma whole_id_num [simp]: "item_id it = Some (JNum (num_of_int i)) \<Longrightarrow> whole_id it = Some i"
  by (simp add: whole_id_def)

text \<open>The id of a new item is none of the ids in the list.\<close>

lemma newId_fresh: "item_id it = Some (JNum (num_of_int (newId its))) \<Longrightarrow> it \<notin> set its"
  using whole_id_lt_newId [of it its "newId its"] by auto

lemma newId_fresh_id: "Some (JNum (num_of_int (newId its))) \<notin> item_id ` set its"
proof
  assume "Some (JNum (num_of_int (newId its))) \<in> item_id ` set its"
  then obtain it where "it \<in> set its" "item_id it = Some (JNum (num_of_int (newId its)))" by auto
  then show False using newId_fresh by blast
qed

lemma sound_new_item:
  assumes "tame vs"
  shows "sound_item (spread [(''id'', JNum (num_of_int (newId its)))] vs)"
    "item_id (spread [(''id'', JNum (num_of_int (newId its)))] vs) = Some (JNum (num_of_int (newId its)))"
proof -
  have id: "item_id [(''id'', JNum i)] = Some (JNum i)" for i by (simp add: item_id_def)
  have "\<not> is_index ''id''" by (rule not_index_start) auto
  then have "wf_json (JObj [(''id'', JNum (num_of_int (newId its)))])"
    by (simp add: owf_def own_entries_id)
  then have "sound_item [(''id'', JNum (num_of_int (newId its)))]"
    unfolding sound_item_def id using newId_pos [of its] by (intro conjI exI [of _ "newId its"]) auto
  then show "sound_item (spread [(''id'', JNum (num_of_int (newId its)))] vs)"
    by (rule sound_item_spread [OF assms])
  show "item_id (spread [(''id'', JNum (num_of_int (newId its)))] vs) = Some (JNum (num_of_int (newId its)))"
    by (simp add: item_id_spread assms id)
qed

text \<open>What zod returns has keys of the schema only, and texts.\<close>

lemma map_fst_picked:
  "map fst (List.map_filter (\<lambda>(k, f). map_option (Pair k) (g k)) sch) = filter (\<lambda>k. g k \<noteq> None) (map fst sch)"
  by (induction sch) (auto simp: List.map_filter_simps split: option.splits)

lemma check_field_text: "check_field f (Some v) = None \<Longrightarrow> \<exists>s. v = JStr s"
  by (cases v; cases f) auto

lemma set_map_filter: "y \<in> set (List.map_filter f xs) \<longleftrightarrow> (\<exists>x \<in> set xs. f x = Some y)"
  by (induction xs) (auto simp: List.map_filter_simps split: option.splits)

lemma map_filter_Nil: "List.map_filter f xs = [] \<longleftrightarrow> (\<forall>x \<in> set xs. f x = None)"
  by (induction xs) (auto simp: List.map_filter_simps split: option.splits)

lemma zod_values:
  assumes "zod_object sch raw = Inr vs" "(k, v) \<in> set vs"
  shows "k \<in> fst ` set sch" "\<exists>s. v = JStr s"
proof -
  have ok: "List.map_filter (\<lambda>(k, f). map_option (Pair k) (check_field f (oget raw k))) sch = []"
    and vs: "vs = List.map_filter (\<lambda>(k, f). map_option (Pair k) (oget raw k)) sch"
    using assms(1) by (auto simp: zod_object_def Let_def split: if_splits)
  from assms(2) obtain f where f: "(k, f) \<in> set sch" "oget raw k = Some v"
    unfolding vs set_map_filter by (auto split: option.splits)
  then show "k \<in> fst ` set sch" by force
  have "check_field f (oget raw k) = None" using ok f unfolding map_filter_Nil by auto
  then show "\<exists>s. v = JStr s" using f check_field_text by simp
qed

lemma zod_tame:
  assumes "zod_object sch raw = Inr vs" "\<forall>k \<in> fst ` set sch. k \<noteq> ''id'' \<and> \<not> is_index k"
  shows "tame vs"
  unfolding tame_def
proof
  fix p assume "p \<in> set vs"
  then show "fst p \<noteq> ''id'' \<and> \<not> is_index (fst p) \<and> wf_json (snd p)"
    using zod_values [OF assms(1), of "fst p" "snd p"] assms(2) by auto
qed

definition sound_event :: "Event \<Rightarrow> bool" where
  "sound_event e = (case e of Props s _ \<Rightarrow> sound_items (parseOptionList s) | _ \<Rightarrow> True)"

locale content_list =
  fixes K :: Kind
  assumes values_tame: "zod_object (schema K) raw = Inr vs \<Longrightarrow> tame vs"
begin

lemma items_shown [simp]: "items (shown t st) = items st"
  by (simp add: shown_def)

lemma submit_form_sound:
  assumes "sound_items (items st)" "tame vs"
  shows "sound_items (items (handleSubmitForm K vs st))"
proof (cases "editing st")
  case None
  then show ?thesis
    using assms sound_new_item [OF assms(2), of "items st"] newId_fresh_id [of "items st"]
    by (auto simp: handleSubmitForm_def sound_items_def)
next
  case (Some x)
  define e where "e = (\<lambda>it. if item_id it = item_id x then spread it vs else it)"
  have "map item_id (map e (items st)) = map item_id (items st)"
    using assms(2) by (simp add: e_def item_id_spread)
  moreover have "\<forall>it \<in> set (items st). sound_item (e it)"
    using assms by (auto simp: e_def sound_items_def sound_item_spread)
  ultimately show ?thesis
    using assms(1) Some by (auto simp: handleSubmitForm_def sound_items_def e_def [symmetric] simp del: map_map)
qed

lemma after_await_items: "items (after_await K w out st) = items st"
  by (induction K w out st rule: after_await.induct) auto

lemma step_sound:
  assumes "sound_items (items st)" "sound_event e"
  shows "sound_items (items (section_step K e st))"
proof (cases e)
  case (Props s en)
  then show ?thesis using assms by (auto simp: syncProps_def Let_def sound_event_def)
next
  case Confirm
  have "sound_items (filter P its)" if "sound_items its" for P its
    using that by (auto simp: sound_items_def distinct_map_filter)
  then show ?thesis using assms Confirm
    by (auto simp: confirmDelete_def Let_def split: Target.splits option.splits)
next
  case (Submit raw)
  show ?thesis
  proof (cases "zod_object (schema K) raw")
    case (Inl issues)
    then show ?thesis using assms Submit by (simp add: submit_def)
  next
    case (Inr vs)
    have "sound_items (items (handleSubmitForm K vs (st\<lparr>formValues := raw, formErrors := []\<rparr>)))"
      by (rule submit_form_sound) (use assms values_tame [OF Inr] in auto)
    then show ?thesis using Submit Inr by (simp add: submit_def)
  qed
next
  case (Answer i out)
  then show ?thesis using assms by (simp add: answered_def after_await_items split: option.splits)
qed (use assms in \<open>simp_all add: handleToggleEnabled_def handleSaveAll_def mutateAsync_def Let_def handleAdd_def handleEdit_def
      handleDelete_def handleBatchDelete_def toggleSelectAll_def toggleSelectOne_def\<close>)

lemma run_sound:
  "run K es st = Some st' \<Longrightarrow> sound_items (items st) \<Longrightarrow> \<forall>e \<in> set es. sound_event e \<Longrightarrow> sound_items (items st')"
  by (induction es arbitrary: st) (auto split: if_splits intro: step_sound)

end

lemma kind_schemas [simp]:
  "schema announcements = announcementSchema" "schema (apiInfo url_ok) = apiInfoSchema url_ok"
  "schema faq = faqSchema" "schema (uptimeKuma url_ok) = uptimeKumaSchema url_ok"
  by (simp_all add: announcements_def apiInfo_def faq_def uptimeKuma_def)

lemma kind_keys:
  assumes "K \<in> content_kinds url_ok" "k \<in> fst ` set (schema K)"
  shows "k \<noteq> ''id'' \<and> \<not> is_index k"
proof -
  have "k \<in> {''content'', ''publishDate'', ''type'', ''extra'', ''url'', ''route'', ''description'', ''color'',
      ''question'', ''answer'', ''categoryName'', ''slug''}"
    using assms by (auto simp: content_kinds_def announcementSchema_def apiInfoSchema_def faqSchema_def
      uptimeKumaSchema_def)
  then have "k \<noteq> ''id''" "k \<noteq> []" "\<not> is_digit (hd k)"
    by (auto simp: is_digit_def)
  then show ?thesis using not_index_start by blast
qed

lemma content_kinds_tame: "K \<in> content_kinds url_ok \<Longrightarrow> zod_object (schema K) raw = Inr vs \<Longrightarrow> tame vs"
  using kind_keys by (blast intro: zod_tame)

text \<open>The four components are lists in the sense of the interface.\<close>

lemma kind_list: "K \<in> content_kinds url_ok \<Longrightarrow> content_list K"
  by unfold_locales (rule content_kinds_tame)

interpretation announcement_list: content_list announcements
  by (rule kind_list [of _ "\<lambda>_. True"]) (simp add: content_kinds_def)

interpretation api_list: content_list "apiInfo url_ok" for url_ok
  by (rule kind_list [of _ url_ok]) (simp add: content_kinds_def)

interpretation faq_list: content_list faq
  by (rule kind_list [of _ "\<lambda>_. True"]) (simp add: content_kinds_def)

interpretation uptime_list: content_list "uptimeKuma url_ok" for url_ok
  by (rule kind_list [of _ url_ok]) (simp add: content_kinds_def)

text \<open>Whatever the user does in a section, and whatever sound option comes in, the list stays sound.\<close>

lemma kinds_run_sound:
  assumes "K \<in> content_kinds url_ok" "run K es (openSection K d en now app) = Some st"
    and "sound_items (parseOptionList d)" "\<forall>e \<in> set es. sound_event e"
  shows "sound_items (items st)"
proof -
  show ?thesis
    using content_list.run_sound [OF kind_list [OF assms(1)] assms(2)] assms(3,4) by (simp add: openSection_def)
qed

text \<open>
  C37: in each of the four sections, as long as the option text that comes in holds items with distinct whole ids, the
  ids in the edited list stay distinct, and the text that saving sends reads back as exactly that list.
\<close>

theorem saved_list_reads_back:
  assumes "K \<in> content_kinds url_ok" "sound_items (parseOptionList d)" "\<forall>e \<in> set es. sound_event e"
    and "run K es (openSection K d en now app) = Some st"
  shows "distinct (map item_id (items st))
    \<and> (\<exists>s. sent (page (section_step K SaveAll st)) = sent (page st) @ [updateSystemOption (dataKey K) (JStr s)]
        \<and> parseOptionList s = items st)"
proof -
  have "sound_items (items st)" by (rule kinds_run_sound [OF assms(1,4,2,3)])
  then show ?thesis using sound_items_read_back
    by (auto simp: sound_items_def items_text_def handleSaveAll_def mutateAsync_def Let_def)
qed

text \<open>
  A save or a switch that the server refuses is reported as done: two error messages are followed by the
  message of success, the list counts as saved (its button is off), and the switch shows the refused position.
\<close>

theorem refused_change_reported_done:
  assumes "map_of (awaited st) i = Some w" "success b = Some False"
  shows "possible st (Answer i (Reply b))
    \<and> (let st' = section_step K (Answer i (Reply b)) st
       in toasts (page st') = toasts (page st) @
            [Error (or_text (message b) (Raw ''Request failed'')),
             Error (or_text (message b) (Tr ''Failed to update setting'' [])),
             Success (Tr (case w of Saving \<Rightarrow> savedText K | Toggling _ \<Rightarrow> ''Setting saved'') [])]
          \<and> stale (page st') = stale (page st) \<and> items st' = items st
          \<and> (case w of Saving \<Rightarrow> \<not> possible st' SaveAll | Toggling checked \<Rightarrow> isEnabled st' = checked))"
proof -
  have "(i, w) \<in> set (awaited st)" by (rule map_of_SomeD [OF assms(1)])
  then have "i \<in> fst ` set (awaited st)" by force
  with assms show ?thesis
    by (cases w) (simp_all add: answered_def mutation_settled_def onSuccess_def settle_def on_response_def
      no_config_def toast_def shown_def)
qed

subsection \<open>Requests and answers\<close>

text \<open>Every awaited request is one that was sent; a later event only takes it off the list.\<close>

definition awaits_sent :: "Section \<Rightarrow> bool" where
  "awaits_sent st \<longleftrightarrow> (\<forall>p \<in> set (awaited st). fst p < length (sent (page st)))"

lemma sent_settled [simp]: "sent (mutation_settled k out app) = sent app"
  by (simp add: mutation_settled_def onSuccess_def onError_def settle_def on_response_def on_error_def toast_def
    split: Outcome.split)

lemma after_await_simps [simp]:
  "awaited (after_await K w out st) = awaited st" "sent (page (after_await K w out st)) = sent (page st)"
  "syncedData (after_await K w out st) = syncedData st"
  by (induction K w out st rule: after_await.induct) (auto simp: shown_def toast_def)

lemma awaited_answered: "awaited (answered K i out st) = filter (\<lambda>p. fst p \<noteq> i) (awaited st)"
proof (cases "map_of (awaited st) i")
  case None
  then have "\<forall>p \<in> set (awaited st). fst p \<noteq> i" by (metis map_of_eq_None_iff image_eqI)
  then show ?thesis using None by (simp add: answered_def filter_id_conv)
qed (simp add: answered_def)

lemma sent_answered [simp]: "sent (page (answered K i out st)) = sent (page st)"
  by (simp add: answered_def split: option.splits)

lemma quiet_steps:
  "awaited (confirmDelete K st) = awaited st" "sent (page (confirmDelete K st)) = sent (page st)"
  "syncedData (confirmDelete K st) = syncedData st"
  "awaited (submit K raw st) = awaited st" "sent (page (submit K raw st)) = sent (page st)"
  "syncedData (submit K raw st) = syncedData st"
  "awaited (handleBatchDelete st) = awaited st" "sent (page (handleBatchDelete st)) = sent (page st)"
  "syncedData (handleBatchDelete st) = syncedData st"
  "awaited (syncProps s en st) = awaited st" "sent (page (syncProps s en st)) = sent (page st)"
  by (auto simp: confirmDelete_def submit_def handleSubmitForm_def handleBatchDelete_def syncProps_def shown_def toast_def
    Let_def split: Target.splits option.splits sum.splits)

lemmas still_steps = handleAdd_def handleEdit_def handleDelete_def toggleSelectAll_def toggleSelectOne_def

lemmas sending_steps = handleToggleEnabled_def handleSaveAll_def mutateAsync_def Let_def

lemma step_awaits:
  assumes "awaits_sent st"
  shows "awaits_sent (section_step K e st)"
  using assms by (cases e) (auto simp: awaits_sent_def quiet_steps still_steps sending_steps awaited_answered)

lemma step_sent: "length (sent (page st)) \<le> length (sent (page (section_step K e st)))"
  by (cases e) (simp_all add: quiet_steps still_steps sending_steps)

lemma step_keeps_await:
  assumes "i < length (sent (page st))"
  shows "map_of (awaited (section_step K e st)) i \<in> {map_of (awaited st) i, None}"
proof -
  have f: "map_of (filter (\<lambda>p. fst p \<noteq> j) aw) i \<in> {map_of aw i, None}" for j and aw :: "(nat \<times> Awaiting) list"
  proof (cases "i = j")
    case True
    then show ?thesis by (auto simp: map_of_eq_None_iff)
  next
    case False
    then have "map_of (filter (\<lambda>p. fst p \<noteq> j) aw) i = map_of aw i" by (induction aw) auto
    then show ?thesis by simp
  qed
  have a: "map_of (awaited st @ [(length (sent (page st)), w)]) i = map_of (awaited st) i" for w
    using assms by (simp add: map_add_def split: option.splits)
  show ?thesis
    using f by (cases e) (simp_all add: quiet_steps still_steps sending_steps awaited_answered a del: map_of_append)
qed

lemma run_awaits: "run K es st = Some st' \<Longrightarrow> awaits_sent st \<Longrightarrow> awaits_sent st'"
  by (induction es arbitrary: st) (auto split: if_splits intro: step_awaits)

lemma run_append: "run K (es @ fs) st = Option.bind (run K es st) (run K fs)"
  by (induction es arbitrary: st) auto

definition is_props :: "Event \<Rightarrow> bool" where
  "is_props e \<longleftrightarrow> (case e of Props _ _ \<Rightarrow> True | _ \<Rightarrow> False)"

lemma run_keeps_await:
  "run K es st = Some st' \<Longrightarrow> i < length (sent (page st)) \<Longrightarrow>
     map_of (awaited st') i \<in> {map_of (awaited st) i, None}"
proof (induction es arbitrary: st)
  case Nil
  then show ?case by simp
next
  case (Cons e es)
  let ?st = "section_step K e st"
  from Cons.prems have "map_of (awaited st') i \<in> {map_of (awaited ?st) i, None}"
    using step_sent [of st K e] by (intro Cons.IH) (auto split: if_splits)
  then show ?case using step_keeps_await [OF Cons.prems(2), of K e] by auto
qed

lemma run_keeps_props:
  "run K es st = Some st' \<Longrightarrow> \<forall>e \<in> set es. \<not> is_props e \<Longrightarrow> syncedData st' = syncedData st"
proof (induction es arbitrary: st)
  case Nil
  then show ?case by simp
next
  case (Cons e es)
  have "syncedData (section_step K e st) = syncedData st"
    using Cons.prems by (cases e) (simp_all add: quiet_steps still_steps sending_steps is_props_def answered_def split: option.splits)
  then show ?case using Cons by (auto split: if_splits)
qed

text \<open>
  What the user changes between a save and its answer is lost. Whatever edits are made meanwhile, after the
  answer and the reload of the option that it triggers the list is the one that was sent, and saving is off.
\<close>

theorem edits_during_save_lost:
  assumes "K \<in> content_kinds url_ok" "sound_items (parseOptionList d)" "\<forall>e \<in> set es. sound_event e"
    and "run K es (openSection K d en now app) = Some st"
    and "s = items_text (items st)" "syncedData st \<noteq> s" "\<forall>e \<in> set fs. \<not> is_props e"
    and "run K (SaveAll # fs @ [Answer (length (sent (page st))) (Reply b), Props s en']) st = Some st'"
  shows "items st' = items st \<and> \<not> possible st' SaveAll"
proof -
  let ?i = "length (sent (page st))" and ?st1 = "section_step K SaveAll st"
  from assms(8) obtain st2 where r: "run K fs ?st1 = Some st2" and p: "?i \<in> fst ` set (awaited st2)"
    and st': "st' = syncProps s en' (answered K ?i (Reply b) st2)"
    by (auto simp: run_append split: if_splits Option.bind_splits)
  have "awaits_sent st" by (rule run_awaits [OF assms(4)]) (simp add: awaits_sent_def openSection_def)
  then have "map_of (awaited st) ?i = None" by (force simp: awaits_sent_def map_of_eq_None_iff)
  then have "map_of (awaited ?st1) ?i = Some Saving"
    by (simp add: sending_steps map_add_def)
  moreover have "map_of (awaited st2) ?i \<in> {map_of (awaited ?st1) ?i, None}"
    by (rule run_keeps_await [OF r]) (simp add: sending_steps)
  ultimately have w: "map_of (awaited st2) ?i = Some Saving"
    using p by (auto simp: map_of_eq_None_iff)
  have "syncedData st2 = syncedData ?st1" by (rule run_keeps_props [OF r assms(7)])
  then have "syncedData st2 \<noteq> s" using assms(6) by (simp add: sending_steps)
  moreover have "parseOptionList s = items st"
    unfolding assms(5) by (rule sound_items_read_back, rule kinds_run_sound [OF assms(1,4,2,3)])
  ultimately show ?thesis
    using w unfolding st' by (auto simp: answered_def syncProps_def Let_def shown_def)
qed

subsection \<open>One item at a time, and the selection\<close>

lemma filter_id_remove1:
  assumes "distinct (map item_id its)" "it \<in> set its"
  shows "filter (\<lambda>x. item_id x \<noteq> item_id it) its = remove1 it its"
proof -
  have "distinct its" using assms(1) by (simp add: distinct_map)
  moreover have "item_id x \<noteq> item_id it \<longleftrightarrow> it \<noteq> x" if "x \<in> set its" for x
    using assms that by (auto simp: distinct_map inj_on_def)
  ultimately show ?thesis
    by (simp add: distinct_remove1_removeAll removeAll_filter_not_eq cong: filter_cong)
qed

lemma map_id_at:
  assumes "distinct (map item_id its)" "it \<in> set its"
  shows "map (\<lambda>x. if item_id x = item_id it then f x else x) its = map (\<lambda>x. if x = it then f it else x) its"
  using assms by (auto simp: distinct_map inj_on_def)

text \<open>The three edits of a list, from a page without a dialog.\<close>

lemma removing:
  assumes "distinct (map item_id (items st))" "it \<in> set (items st)" "no_dialog st"
  shows "\<exists>st'. run K [Remove it, Confirm] st = Some st' \<and> items st' = remove1 it (items st) \<and> no_dialog st'
    \<and> selectedIds st' = selectedIds st"
  using assms
  by (simp add: handleDelete_def confirmDelete_def no_dialog_def shown_def toast_def filter_id_remove1)

lemma changing:
  assumes "distinct (map item_id (items st))" "it \<in> set (items st)" "no_dialog st" "zod_object (schema K) raw = Inr vs"
  shows "\<exists>st'. run K [Edit it, Submit raw] st = Some st' \<and> no_dialog st'
    \<and> items st' = map (\<lambda>x. if x = it then spread it vs else x) (items st)"
  using assms map_id_at [OF assms(1,2), of "\<lambda>x. spread x vs"]
  by (simp add: handleEdit_def submit_def handleSubmitForm_def no_dialog_def shown_def toast_def)

lemma adding:
  assumes "no_dialog st" "zod_object (schema K) raw = Inr vs"
  shows "\<exists>st'. run K [Add now, Submit raw] st = Some st' \<and> no_dialog st' \<and> selectedIds st' = selectedIds st
    \<and> items st' = items st @ [spread [(''id'', JNum (num_of_int (newId (items st))))] vs]"
  using assms by (simp add: handleAdd_def submit_def handleSubmitForm_def no_dialog_def shown_def toast_def)

lemma removing_selected:
  assumes "no_dialog st" "selectedIds st \<noteq> []"
  shows "\<exists>st'. run K [RemoveSelected, Confirm] st = Some st' \<and> no_dialog st' \<and> selectedIds st' = []
    \<and> items st' = filter (\<lambda>x. item_id x \<notin> set (selectedIds st)) (items st)"
  using assms by (auto simp: handleBatchDelete_def confirmDelete_def no_dialog_def shown_def toast_def)

lemma refusing:
  assumes "it \<in> set (items st)" "no_dialog st" "zod_object (schema K) raw = Inl issues"
  shows "\<exists>st'. run K [Edit it, Submit raw] st = Some st' \<and> items st' = items st \<and> showDialog st' \<and> formErrors st' = issues"
  using assms by (simp add: handleEdit_def submit_def no_dialog_def)

text \<open>
  Deleting removes the chosen item only, editing replaces it in place by its fields overlaid with the values of the form, and
  values that break the schema change nothing and leave the dialog open with the issues.
\<close>

theorem edits_touch_one:
  assumes "K \<in> content_kinds url_ok" "sound_items (parseOptionList d)" "\<forall>e \<in> set es. sound_event e"
    and "run K es (openSection K d en now app) = Some st" "it \<in> set (items st)" "no_dialog st"
  shows "(\<exists>st'. run K [Remove it, Confirm] st = Some st' \<and> items st' = remove1 it (items st) \<and> no_dialog st')
    \<and> (case zod_object (schema K) raw of
         Inr vs \<Rightarrow> \<exists>st'. run K [Edit it, Submit raw] st = Some st' \<and> no_dialog st'
           \<and> items st' = map (\<lambda>x. if x = it then spread it vs else x) (items st)
       | Inl issues \<Rightarrow> \<exists>st'. run K [Edit it, Submit raw] st = Some st' \<and> items st' = items st \<and> showDialog st'
           \<and> formErrors st' = issues)"
proof -
  have d: "distinct (map item_id (items st))"
    using kinds_run_sound [OF assms(1,4,2,3)] by (simp add: sound_items_def)
  have "\<exists>st'. run K [Remove it, Confirm] st = Some st' \<and> items st' = remove1 it (items st) \<and> no_dialog st'"
    using removing [OF d assms(5,6), of K] by blast
  then show ?thesis
    using changing [OF d assms(5,6), of K raw] refusing [OF assms(5,6), of K raw]
    by (cases "zod_object (schema K) raw") (simp_all del: run.simps)
qed

text \<open>
  The selection outlives its items. A ticked item is deleted by its own button; the item added next gets its number, counts as
  ticked, and goes when the selected items are deleted, although the user never ticked it.
\<close>

theorem deleted_selection_takes_new_item:
  assumes "K \<in> content_kinds url_ok" "sound_items (parseOptionList d)" "\<forall>e \<in> set es. sound_event e"
    and "run K es (openSection K d en now app) = Some st" "it \<in> set (items st)" "no_dialog st"
    and "item_id it \<in> set (selectedIds st)" "item_id it = Some (JNum (num_of_int i))"
    and "newId (remove1 it (items st)) = i" "zod_object (schema K) raw = Inr vs"
  shows "\<exists>st1 new st2. run K [Remove it, Confirm, Add now', Submit raw] st = Some st1
    \<and> items st1 = remove1 it (items st) @ [new] \<and> item_id new = item_id it
    \<and> run K [RemoveSelected, Confirm] st1 = Some st2
    \<and> items st2 = filter (\<lambda>x. item_id x \<notin> set (selectedIds st)) (items st)"
proof -
  let ?new = "spread [(''id'', JNum (num_of_int i))] vs"
  have d: "distinct (map item_id (items st))"
    using kinds_run_sound [OF assms(1,4,2,3)] by (simp add: sound_items_def)
  obtain st0 where s0: "run K [Remove it, Confirm] st = Some st0" "items st0 = remove1 it (items st)" "no_dialog st0"
      "selectedIds st0 = selectedIds st"
    using removing [OF d assms(5,6)] by blast
  obtain st1 where s1: "run K [Add now', Submit raw] st0 = Some st1" "no_dialog st1" "selectedIds st1 = selectedIds st"
      "items st1 = remove1 it (items st) @ [?new]"
    using adding [OF s0(3) assms(10)] s0 assms(9) by auto
  have id: "item_id ?new = item_id it"
    using sound_new_item(2) [OF content_kinds_tame [OF assms(1,10)], of "remove1 it (items st)"] assms(8,9) by simp
  have ne: "selectedIds st1 \<noteq> []" using s1(3) assms(7) by auto
  obtain st2 where s2: "run K [RemoveSelected, Confirm] st1 = Some st2"
      "items st2 = filter (\<lambda>x. item_id x \<notin> set (selectedIds st)) (items st1)"
    using removing_selected [OF s1(2) ne, of K] unfolding s1(3) by blast
  have "run K ([Remove it, Confirm] @ [Add now', Submit raw]) st = Some st1"
    unfolding run_append s0(1) using s1(1) by simp
  moreover have "items st2 = filter (\<lambda>x. item_id x \<notin> set (selectedIds st)) (items st)"
    unfolding s2(2) s1(4) filter_id_remove1 [OF d assms(5), symmetric]
    using id assms(7) by (auto simp: filter_filter intro!: filter_cong)
  ultimately show ?thesis using s1 id s2 by (auto simp del: run.simps)
qed

text \<open>An id filled in for a missing one can be that of another item; deleting one then deletes both.\<close>

definition half_numbered :: string where
  "half_numbered = stringify (JArr [JObj [(''id'', JNum (num_of_int 2)), (''question'', JStr ''a'')], JObj [(''question'', JStr ''b'')]])"

lemma filled_ids_collide:
  "map item_id (parseOptionList half_numbered) = [Some (JNum (num_of_int 2)), Some (JNum (num_of_int 2))]"
  "map_option items (run faq [Remove (hd (parseOptionList half_numbered)), Confirm]
     (openSection faq half_numbered True [] app)) = Some []"
proof -
  have p: "parseOptionList half_numbered =
      [[(''id'', JNum (Dec 2 0)), (''question'', JStr ''a'')], [(''question'', JStr ''b''), (''id'', JNum (Dec 2 0))]]"
    by code_simp
  have n: "num_of_int 2 = Dec 2 0" by code_simp
  show "map item_id (parseOptionList half_numbered) = [Some (JNum (num_of_int 2)), Some (JNum (num_of_int 2))]"
    by (simp add: p n item_id_def)
  show "map_option items (run faq [Remove (hd (parseOptionList half_numbered)), Confirm]
     (openSection faq half_numbered True [] app)) = Some []"
    by (simp add: openSection_def p no_dialog_def handleDelete_def confirmDelete_def shown_def toast_def item_id_def)
qed

subsection \<open>Witnesses\<close>

definition faq_item :: "int \<Rightarrow> string \<Rightarrow> Item" where
  "faq_item i q = [(''id'', JNum (num_of_int i)), (''question'', JStr q), (''answer'', JStr ''yes'')]"

definition two_faqs :: "Item list" where
  "two_faqs = [faq_item 1 ''a'', faq_item 2 ''b'']"

definition blank_page :: App where
  "blank_page = \<lparr>sent = [], toasts = [], stale = [], calls = [], logged_in = True\<rparr>"

definition opened :: Section where
  "opened = openSection faq (items_text two_faqs) True [] blank_page"

definition new_faq :: "json obj" where
  "new_faq = [(''question'', JStr ''c''), (''answer'', JStr ''d'')]"

lemma item_id_faq [simp]: "item_id (faq_item i q) = Some (JNum (num_of_int i))"
  by (simp add: item_id_def faq_item_def)

lemma num_of_int_eq [simp]: "num_of_int i = num_of_int j \<longleftrightarrow> i = j"
  by (metis int_of_num_of_int option.inject)

lemma sound_faq_item: "i \<noteq> 0 \<Longrightarrow> sound_item (faq_item i q)"
proof -
  assume i: "i \<noteq> 0"
  have "wf_json (JObj (faq_item i q))" by (rule wf_obj) (auto simp: faq_item_def is_digit_def)
  then show ?thesis using i unfolding sound_item_def by (intro conjI exI [of _ i]) simp_all
qed

lemma sound_two: "sound_items two_faqs"
  by (simp add: sound_items_def two_faqs_def sound_faq_item)

lemma sound_first: "sound_items [faq_item 1 ''a'']"
  by (simp add: sound_items_def sound_faq_item)

lemma read_two [simp]: "parseOptionList (items_text two_faqs) = two_faqs"
  by (rule sound_items_read_back [OF sound_two])

lemma items_opened [simp]: "items opened = two_faqs"
  by (simp add: opened_def openSection_def)

lemma faq_kinds: "faq \<in> content_kinds (\<lambda>_. True)"
  by (simp add: content_kinds_def)

lemma faq_ok: "zod_object (schema faq) new_faq = Inr new_faq"
  by (simp add: zod_object_def faqSchema_def new_faq_def first_issue_def List.map_filter_simps zmin_def zmax_def)

lemma opened_run: "run faq [] (openSection faq (items_text two_faqs) True [] blank_page) = Some opened"
  by (simp add: opened_def)

lemma sound_option: "sound_items (parseOptionList (items_text two_faqs))"
  by (simp add: sound_two)

lemma no_events: "\<forall>e \<in> set []. sound_event e"
  by simp

lemma no_dialog_opened: "no_dialog opened"
  by (simp add: opened_def openSection_def no_dialog_def)

lemma saved_list_reads_back_witness: "distinct (map item_id two_faqs)"
  using saved_list_reads_back [OF faq_kinds sound_option no_events opened_run] by simp

definition refusal :: Body where
  "refusal = \<lparr>success = Some False, message = None, error_code = None, data = None, balance = None\<rparr>"

lemma refused_change_reported_done_witness:
  "possible (section_step faq (Toggle False) opened) (Answer 0 (Reply refusal))"
  using refused_change_reported_done [of "section_step faq (Toggle False) opened" 0 "Toggling False" refusal faq]
  by (simp add: opened_def openSection_def sending_steps refusal_def blank_page_def)

lemma second_faq: "faq_item 2 ''b'' \<in> set (items opened)"
  by (simp add: two_faqs_def)

lemma remove_second: "remove1 (faq_item 2 ''b'') two_faqs = [faq_item 1 ''a'']"
  by (simp add: two_faqs_def faq_item_def)

lemma edits_touch_one_witness:
  "\<exists>st'. run faq [Remove (faq_item 2 ''b''), Confirm] opened = Some st' \<and> items st' = [faq_item 1 ''a'']"
  using edits_touch_one [OF faq_kinds sound_option no_events opened_run second_faq no_dialog_opened, of new_faq]
  unfolding items_opened remove_second by blast

text \<open>The second item is ticked, deleted by its own button, and another one is added.\<close>

definition ticked :: Section where
  "ticked = toggleSelectOne (Some (JNum (num_of_int 2))) True opened"

lemma ticked_run:
  "run faq [SelectOne (Some (JNum (num_of_int 2))) True] (openSection faq (items_text two_faqs) True [] blank_page)
   = Some ticked"
  using no_dialog_opened by (simp add: ticked_def opened_def [symmetric]) (simp add: opened_def openSection_def two_faqs_def)

lemma sound_tick: "\<forall>e \<in> set [SelectOne (Some (JNum (num_of_int 2))) True]. sound_event e"
  by (simp add: sound_event_def)

lemma deleted_selection_takes_new_item_witness:
  "\<exists>st1 new st2. run faq [Remove (faq_item 2 ''b''), Confirm, Add ''now'', Submit new_faq] ticked = Some st1
    \<and> items st1 = [faq_item 1 ''a'', new] \<and> run faq [RemoveSelected, Confirm] st1 = Some st2
    \<and> items st2 = [faq_item 1 ''a'']"
proof -
  have h: "faq_item 2 ''b'' \<in> set (items ticked)" "no_dialog ticked" "item_id (faq_item 2 ''b'') \<in> set (selectedIds ticked)"
    "item_id (faq_item 2 ''b'') = Some (JNum (num_of_int 2))"
    using second_faq no_dialog_opened by (simp_all add: ticked_def toggleSelectOne_def no_dialog_def)
  have its: "items ticked = two_faqs" "selectedIds ticked = [Some (JNum (num_of_int 2))]"
    by (simp_all add: ticked_def toggleSelectOne_def opened_def openSection_def)
  have n: "newId (remove1 (faq_item 2 ''b'') (items ticked)) = 2"
    by (simp add: its remove_second newId_def List.map_filter_simps)
  have "filter (\<lambda>x. item_id x \<notin> set (selectedIds ticked)) (items ticked) = [faq_item 1 ''a'']"
    by (simp add: its two_faqs_def)
  then show ?thesis
    using deleted_selection_takes_new_item [OF faq_kinds sound_option sound_tick ticked_run h n faq_ok, of "''now''"]
    unfolding its remove_second by (auto simp del: run.simps)
qed

text \<open>The second item is removed, the list saved, and a new item added before the answer comes.\<close>

definition removed :: Section where
  "removed = confirmDelete faq (handleDelete (faq_item 2 ''b'') opened)"

lemma removed_run:
  "run faq [Remove (faq_item 2 ''b''), Confirm] (openSection faq (items_text two_faqs) True [] blank_page) = Some removed"
  using no_dialog_opened second_faq
  by (simp add: opened_def [symmetric] removed_def) (simp add: handleDelete_def)

definition accepted :: Body where
  "accepted = \<lparr>success = Some True, message = None, error_code = None, data = None, balance = None\<rparr>"

lemma removed_items: "items removed = [faq_item 1 ''a'']" "syncedData removed = items_text two_faqs"
proof -
  have "filter (\<lambda>it. item_id it \<noteq> Some (JNum (num_of_int 2))) two_faqs = [faq_item 1 ''a'']" by (simp add: two_faqs_def)
  then show "items removed = [faq_item 1 ''a'']" "syncedData removed = items_text two_faqs"
    by (simp_all add: removed_def handleDelete_def confirmDelete_def shown_def toast_def opened_def openSection_def)
qed

lemma one_text: "items_text [faq_item 1 ''a''] \<noteq> items_text two_faqs"
proof
  assume "items_text [faq_item 1 ''a''] = items_text two_faqs"
  then have "[faq_item 1 ''a''] = two_faqs" using sound_items_read_back [OF sound_first] by simp
  then show False by (simp add: two_faqs_def)
qed

lemma edits_during_save_lost_witness:
  "\<exists>st'. run faq [SaveAll, Add ''now'', Submit new_faq, Answer 0 (Reply accepted), Props (items_text [faq_item 1 ''a'']) True]
     removed = Some st' \<and> items st' = [faq_item 1 ''a'']"
proof -
  have n: "length (sent (page removed)) = 0" "no_dialog removed" "hasChanges removed" "awaited removed = []" "mutation removed = None"
    by (simp_all add: removed_def handleDelete_def confirmDelete_def shown_def toast_def opened_def openSection_def
      blank_page_def no_dialog_def)
  have ev: "\<forall>e \<in> set [Remove (faq_item 2 ''b''), Confirm]. sound_event e"
    "\<forall>e \<in> set [Add ''now'', Submit new_faq]. \<not> is_props e"
    by (simp_all add: sound_event_def is_props_def)
  have ne: "syncedData removed \<noteq> items_text (items removed)" using one_text by (simp add: removed_items)
  obtain st' where st': "run faq (SaveAll # [Add ''now'', Submit new_faq]
      @ [Answer (length (sent (page removed))) (Reply accepted), Props (items_text (items removed)) True]) removed = Some st'"
    using n by (simp add: no_dialog_def isPending_def sending_steps handleAdd_def submit_def faq_ok [simplified] handleSubmitForm_def
      shown_def toast_def)
  have "items st' = items removed"
    using edits_during_save_lost [OF faq_kinds sound_option ev(1) removed_run refl ne ev(2) st'] by simp
  with st' show ?thesis unfolding n(1) removed_items by (auto simp del: run.simps)
qed

end
