(* ===== verification/SettingsJson.thy ===== *)
theory SettingsJson
  imports JsValues "HOL-Library.Multiset"
begin

text \<open>
  JSON texts in the settings pages: tolerant reading (\<^verbatim>\<open>features/system-settings/utils/json-parser.ts\<close>), the
  validators (\<^verbatim>\<open>utils/json-validators.ts\<close>), formatting, normalising and validating
  (\<^verbatim>\<open>models/utils.ts\<close>, \<^verbatim>\<open>content/utils.ts\<close>). The main fact: two texts have the same normal form exactly when they
  hold the same value. The message of a SyntaxError is the engine's and is a parameter.
\<close>

subsection \<open>Tolerant reading (utils/json-parser.ts)\<close>

text \<open>\<open>fallback ?? null\<close> when the text is blank or broken.\<close>

definition safeJsonParse :: "string \<Rightarrow> json option \<Rightarrow> json" where
  "safeJsonParse value fallback =
     (let fb = (case fallback of Some v \<Rightarrow> v | None \<Rightarrow> JNull)
      in if value = [] \<or> trim value = [] then fb
         else (case json_parse (trim value) of Some v \<Rightarrow> v | None \<Rightarrow> fb))"

definition safeJsonParseWithValidation :: "string \<Rightarrow> json \<Rightarrow> (json \<Rightarrow> bool) \<Rightarrow> json" where
  "safeJsonParseWithValidation value fallback validator =
     (let parsed = safeJsonParse value (Some fallback) in if validator parsed then parsed else fallback)"

text \<open>\<open>tryJsonParse\<close>: the message of the SyntaxError is the engine's.\<close>

definition tryJsonParse :: "string \<Rightarrow> (string \<Rightarrow> string) \<Rightarrow> string + json" where
  "tryJsonParse value syntax_error =
     (if value = [] \<or> trim value = [] then Inl ''Empty value''
      else (case json_parse (trim value) of Some v \<Rightarrow> Inr v | None \<Rightarrow> Inl (syntax_error (trim value))))"

abbreviation read_map :: "string \<Rightarrow> json" where
  "read_map s \<equiv> safeJsonParse s (Some (JObj []))"

lemma read_stringify2 [simp]:
  "wf_json (JObj ob) \<Longrightarrow> safeJsonParse (stringify2 (JObj ob)) f = JObj ob"
  "wf_json (JArr xs) \<Longrightarrow> safeJsonParse (stringify2 (JArr xs)) f = JArr xs"
  by (simp_all add: safeJsonParse_def json_parse_stringify2 del: wf_json.simps)

subsection \<open>Validators (utils/json-validators.ts)\<close>

definition isObjectRecord :: "json \<Rightarrow> bool" where
  "isObjectRecord v \<longleftrightarrow> is_plain_object v"

fun isArray :: "json \<Rightarrow> bool" where
  "isArray (JArr xs) = True"
| "isArray _ = False"

definition createArrayValidator :: "(json \<Rightarrow> bool) \<Rightarrow> json \<Rightarrow> bool" where
  "createArrayValidator item_ok v = (case v of JArr xs \<Rightarrow> list_all item_ok xs | _ \<Rightarrow> False)"

definition isStringArray :: "json \<Rightarrow> bool" where
  "isStringArray = createArrayValidator (\<lambda>v. case v of JStr _ \<Rightarrow> True | _ \<Rightarrow> False)"

definition isNumberArray :: "json \<Rightarrow> bool" where
  "isNumberArray = createArrayValidator (\<lambda>v. case v of JNum _ \<Rightarrow> True | _ \<Rightarrow> False)"

definition isObjectArray :: "json \<Rightarrow> bool" where
  "isObjectArray = createArrayValidator isObjectRecord"

text \<open>\<open>key in data\<close> also finds what the object inherits.\<close>

definition createObjectValidator :: "string list \<Rightarrow> json \<Rightarrow> bool" where
  "createObjectValidator requiredKeys v =
     (case v of JObj ob \<Rightarrow> list_all (\<lambda>k. ohas k ob \<or> k \<in> set PROTOTYPE_NAMES) requiredKeys | _ \<Rightarrow> False)"

subsection \<open>Formatting, normalising, validating\<close>

definition formatJsonForTextarea :: "string \<Rightarrow> string" where
  "formatJsonForTextarea value =
     (if value = [] \<or> trim value = [] then []
      else (case json_parse value of Some v \<Rightarrow> stringify2 v | None \<Rightarrow> value))"

definition normalizeJsonString :: "string \<Rightarrow> string" where
  "normalizeJsonString value =
     (let trimmed_value = trim value
      in if trimmed_value = [] then []
         else (case json_parse trimmed_value of Some v \<Rightarrow> stringify v | None \<Rightarrow> trimmed_value))"

text \<open>The same with a fallback for blank texts (content/utils.ts).\<close>

definition formatJsonForEditor :: "string \<Rightarrow> string \<Rightarrow> string" where
  "formatJsonForEditor value fallback =
     (let target = (if value \<noteq> [] \<and> trim value \<noteq> [] then value else fallback)
      in case json_parse target of Some v \<Rightarrow> stringify2 v | None \<Rightarrow> target)"

definition normalizeJsonOr :: "string \<Rightarrow> string \<Rightarrow> string" where
  "normalizeJsonOr value fallback =
     (let target = (if value \<noteq> [] \<and> trim value \<noteq> [] then value else fallback)
      in case json_parse target of Some v \<Rightarrow> stringify v | None \<Rightarrow> trim target)"

record JsonValidationOptions =
  allowEmpty :: bool
  predicate :: "(json \<Rightarrow> bool) option"
  predicateMessage :: "string option"

definition default_options :: JsonValidationOptions where
  "default_options = \<lparr>allowEmpty = True, predicate = None, predicateMessage = None\<rparr>"

text \<open>\<open>None\<close>: valid; otherwise the message (\<open>syntax_error\<close> of a text that does not parse).\<close>

definition validateJsonString :: "(string \<Rightarrow> string) \<Rightarrow> JsonValidationOptions \<Rightarrow> string \<Rightarrow> string option" where
  "validateJsonString syntax_error opts value =
     (let trimmed_value = trim value
      in if trimmed_value = [] then (if allowEmpty opts then None else Some ''Value is required'')
         else (case json_parse trimmed_value of
                 None \<Rightarrow> Some (syntax_error trimmed_value)
               | Some v \<Rightarrow>
                   (case predicate opts of
                      Some p \<Rightarrow>
                        if p v then None
                        else Some (case predicateMessage opts of
                                     Some msg \<Rightarrow> if msg \<noteq> [] then msg else ''JSON structure is invalid''
                                   | None \<Rightarrow> ''JSON structure is invalid'')
                    | None \<Rightarrow> None)))"

subsection \<open>What parsing returns\<close>

text \<open>Parsed values have one entry per key and canonical numbers.\<close>

fun parsed_ok :: "json \<Rightarrow> bool" where
  "parsed_ok (JNum x) = wf_num x"
| "parsed_ok (JArr xs) = (\<forall>x \<in> set xs. parsed_ok x)"
| "parsed_ok (JObj ob) = (owf ob \<and> (\<forall>p \<in> set ob. parsed_ok (snd p)))"
| "parsed_ok _ = True"

lemma parse_num_wf: "parse_num s = Some (x, r) \<Longrightarrow> wf_num x"
  by (auto simp: parse_num_def Let_def wf_canon split: prod.splits if_splits Option.bind_splits)

lemma parsed_ok_oput: "parsed_ok (JObj ob) \<Longrightarrow> parsed_ok v \<Longrightarrow> parsed_ok (JObj (oput k v ob))"
  by (auto simp: owf_oput dest!: set_oput)

lemma parser_ok:
  "(\<forall>s v r. parse_val n s = Some (v, r) \<longrightarrow> parsed_ok v)
   \<and> (\<forall>s vs r. parse_elems n s = Some (vs, r) \<longrightarrow> (\<forall>v \<in> set vs. parsed_ok v))
   \<and> (\<forall>acc s ob r. parse_mems n acc s = Some (ob, r) \<longrightarrow> parsed_ok (JObj acc) \<longrightarrow> parsed_ok (JObj ob))"
proof (induction n)
  case 0
  then show ?case by simp
next
  case (Suc n)
  then have v: "parsed_ok v" if "parse_val n s = Some (v, r)" for s v r using that by blast
  from Suc have e: "\<forall>v \<in> set vs. parsed_ok v" if "parse_elems n s = Some (vs, r)" for s vs r using that by blast
  from Suc have m: "parsed_ok (JObj ob)" if "parse_mems n acc s = Some (ob, r)" "parsed_ok (JObj acc)" for acc s ob r
    using that by blast
  have "parsed_ok v" if "parse_val (Suc n) s = Some (v, r)" for s v r
    using that e m [of "[]"]
    by (auto simp: owf_def dest: parse_num_wf split: list.splits if_splits option.splits)
  moreover have "\<forall>v \<in> set vs. parsed_ok v" if "parse_elems (Suc n) s = Some (vs, r)" for s vs r
    using that v e by (auto split: list.splits if_splits option.splits)
  moreover have "parsed_ok (JObj ob)" if "parse_mems (Suc n) acc s = Some (ob, r)" "parsed_ok (JObj acc)" for acc s ob r
    using that v m parsed_ok_oput
    by (auto simp del: parsed_ok.simps split: list.splits if_splits option.splits)
  ultimately show ?case by blast
qed

lemma parse_val_ok: "parse_val n s = Some (v, r) \<Longrightarrow> parsed_ok v"
  using parser_ok by blast

lemma json_parse_ok: "json_parse s = Some v \<Longrightarrow> parsed_ok v"
  using parse_val_ok by (auto simp: json_parse_def simp del: parse_val.simps split: option.splits if_splits)

subsection \<open>The value of a text\<close>

text \<open>
  Two objects with the same entries print alike when their entries come in the order in which JavaScript lists them; \<open>tidy\<close> puts all
  objects of a value into that order.
\<close>

fun tidy :: "json \<Rightarrow> json" where
  "tidy (JArr xs) = JArr (map tidy xs)"
| "tidy (JObj ob) = JObj (map (\<lambda>p. (fst p, tidy (snd p))) (own_entries ob))"
| "tidy v = v"

lemma insort_key_map: "insort_key g (h x) (map h xs) = map h (insort_key (\<lambda>x. g (h x)) x xs)"
  by (induction xs) auto

lemma sort_key_map: "sort_key g (map h xs) = map h (sort_key (\<lambda>x. g (h x)) xs)"
  by (induction xs) (simp_all add: insort_key_map)

lemma own_entries_map: "own_entries (map (\<lambda>p. (fst p, f (snd p))) ob) = map (\<lambda>p. (fst p, f (snd p))) (own_entries ob)"
  by (simp add: own_entries_def filter_map comp_def sort_key_map)

lemma own_entries_idem [simp]: "own_entries (own_entries ob) = own_entries ob"
proof -
  let ?s = "sort_key (\<lambda>p. read_nat (fst p)) (filter (\<lambda>p. is_index (fst p)) ob)"
  let ?t = "filter (\<lambda>p. \<not> is_index (fst p)) ob"
  have i: "\<forall>p \<in> set ?s. is_index (fst p)" by simp
  have "filter (\<lambda>p. is_index (fst p)) (?s @ ?t) = ?s" "filter (\<lambda>p. \<not> is_index (fst p)) (?s @ ?t) = ?t"
    using i by (simp_all add: filter_id_conv filter_empty_conv)
  moreover have "sort_key (\<lambda>p. read_nat (fst p)) ?s = ?s" by (rule sort_key_id_if_sorted) simp
  ultimately show ?thesis unfolding own_entries_def [of ob] own_entries_def [of "?s @ ?t"] by simp
qed

lemma own_entries_distinct: "owf ob \<Longrightarrow> owf (own_entries ob)"
proof -
  assume "owf ob"
  then have "distinct (map fst ob)" by (simp add: owf_def)
  moreover have "mset (own_entries ob) = mset ob" by (simp add: own_entries_def)
  then have "mset (map fst (own_entries ob)) = mset (map fst ob)" by simp
  ultimately show ?thesis unfolding owf_def by (metis mset_eq_imp_distinct_iff)
qed

lemma wf_tidy: "parsed_ok v \<Longrightarrow> wf_json (tidy v)"
proof (induction v)
  case (JObj ob)
  have "owf (map (\<lambda>p. (fst p, tidy (snd p))) (own_entries ob))"
    using own_entries_distinct [of ob] JObj.prems by (simp add: owf_def comp_def)
  then show ?case using JObj by (fastforce simp: own_entries_map)
qed auto

lemma stringify_tidy: "stringify (tidy v) = stringify v"
proof (induction v)
  case (JObj ob)
  have "map (\<lambda>p. quote (fst p) @ '':'' @ stringify (tidy (snd p))) (own_entries ob)
      = map (\<lambda>p. quote (fst p) @ '':'' @ stringify (snd p)) (own_entries ob)"
    using JObj by (auto intro: snds.intros)
  then show ?case by (simp add: own_entries_map comp_def del: map_eq_conv)
qed (simp_all add: comp_def cong: map_cong)

lemma pretty_tidy: "pretty k (tidy v) = pretty k v"
proof (induction v arbitrary: k)
  case (JObj ob)
  have "map (\<lambda>p. quote (fst p) @ '': '' @ pretty (Suc k) (tidy (snd p))) (own_entries ob)
      = map (\<lambda>p. quote (fst p) @ '': '' @ pretty (Suc k) (snd p)) (own_entries ob)"
    using JObj by (auto intro: snds.intros)
  moreover have "own_entries ob = [] \<longleftrightarrow> ob = []" by (metis set_own_entries set_empty)
  ultimately show ?case by (simp add: own_entries_map comp_def del: map_eq_conv)
qed (simp_all add: comp_def cong: map_cong)

lemma parse_stringify_tidy: "parsed_ok v \<Longrightarrow> json_parse (stringify v) = Some (tidy v)"
  using json_parse_stringify [OF wf_tidy, of v] by (simp add: stringify_tidy)

lemma parse_stringify2_tidy: "parsed_ok v \<Longrightarrow> json_parse (stringify2 v) = Some (tidy v)"
  using json_parse_stringify2 [OF wf_tidy, of v] by (simp add: stringify2_def pretty_tidy)

lemma tidy_idem [simp]: "parsed_ok v \<Longrightarrow> tidy (tidy v) = tidy v"
proof -
  assume ok: "parsed_ok v"
  have "json_parse (stringify (tidy v)) = Some (tidy v)" by (rule json_parse_stringify [OF wf_tidy [OF ok]])
  then have "parsed_ok (tidy v)" by (rule json_parse_ok)
  then have "json_parse (stringify (tidy v)) = Some (tidy (tidy v))" by (rule parse_stringify_tidy)
  then show ?thesis using \<open>json_parse (stringify (tidy v)) = Some (tidy v)\<close> by simp
qed

text \<open>What a text says: nothing, a value, or something that is no JSON.\<close>

datatype content = Blank | Value json | Broken string

definition content_of :: "string \<Rightarrow> content" where
  "content_of s =
     (if trim s = [] then Blank
      else (case json_parse (trim s) of Some v \<Rightarrow> Value (tidy v) | None \<Rightarrow> Broken (trim s)))"

lemma show_nat_no_ws: "c \<in> set (show_nat n) \<Longrightarrow> \<not> is_ws c"
  using show_nat_digits [of c n] by (auto simp: is_digit_def is_ws_def)

lemma marks_no_ws: "\<not> is_ws CHR ''-''" "\<not> is_ws CHR ''+''" "\<not> is_ws CHR ''.''" "\<not> is_ws CHR ''e''" "\<not> is_ws CHR ''0''"
  by (simp_all add: is_ws_def)

definition solid :: "string \<Rightarrow> bool" where
  "solid s \<longleftrightarrow> (\<forall>c \<in> set s. \<not> is_ws c)"

lemma solid_intros:
  "solid []" "\<not> is_ws c \<Longrightarrow> solid s \<Longrightarrow> solid (c # s)" "solid s \<Longrightarrow> solid t \<Longrightarrow> solid (s @ t)"
  "\<not> is_ws c \<Longrightarrow> solid (replicate n c)" "solid s \<Longrightarrow> solid (take n s)" "solid s \<Longrightarrow> solid (drop n s)"
  "solid (show_nat m)" "solid s \<Longrightarrow> solid t \<Longrightarrow> solid (if P then s else t)"
  by (auto simp: solid_def show_nat_no_ws dest: in_set_takeD in_set_dropD)

lemma solid_show_num: "solid (show_num x)"
  unfolding show_num_def Let_def by (intro solid_intros marks_no_ws)

lemma show_num_no_ws: "\<forall>c \<in> set (show_num x). \<not> is_ws c"
  using solid_show_num by (simp add: solid_def)

lemma trimmed_show_num: "trimmed (show_num x)"
proof -
  have "show_num x \<noteq> []" using show_num_hd [of x] by auto
  then show ?thesis using show_num_no_ws [of x] by (simp add: trimmed_by_def)
qed

lemma trimmed_between: "\<not> is_ws a \<Longrightarrow> \<not> is_ws b \<Longrightarrow> trimmed (a # t @ [b])"
  by (simp add: trimmed_by_def)

lemma trimmed_stringify: "trimmed (stringify v)"
proof (cases v)
  case (JBool b)
  then show ?thesis by (cases b) (simp_all add: trimmed_by_def is_ws_def)
next
  case (JNum x)
  then show ?thesis by (simp add: trimmed_show_num)
next
  case (JObj ob)
  have "trimmed (CHR 0x7B # t @ [CHR 0x7D])" for t by (rule trimmed_between) (simp_all add: is_ws_def)
  then show ?thesis by (simp add: JObj)
next
  case (JArr xs)
  have "trimmed (CHR ''['' # t @ [CHR '']''])" for t by (rule trimmed_between) (simp_all add: is_ws_def)
  then show ?thesis by (simp add: JArr)
next
  case (JStr s)
  have "trimmed (CHR 0x22 # t @ [CHR 0x22])" for t by (rule trimmed_between) (simp_all add: is_ws_def)
  then show ?thesis by (simp add: JStr quote_def)
qed (simp add: trimmed_by_def is_ws_def)

lemma trim_stringify [simp]: "trim (stringify v) = stringify v"
  by (rule trim_id [OF trimmed_stringify])

lemma trim_stringify2 [simp]: "trim (stringify2 v) = stringify2 v"
proof (cases "(\<exists>ob. v = JObj ob) \<or> (\<exists>xs. v = JArr xs)")
  case True
  then show ?thesis by auto
next
  case False
  then have "stringify2 v = stringify v" by (cases v) (simp_all add: stringify2_def)
  then show ?thesis by simp
qed

lemma stringify_ne [simp]: "stringify v \<noteq> []"
  using length_stringify_pos [of v] by auto

lemma normalize_content:
  "normalizeJsonString s = (case content_of s of Blank \<Rightarrow> [] | Value v \<Rightarrow> stringify v | Broken t \<Rightarrow> t)"
  by (simp add: normalizeJsonString_def content_of_def Let_def stringify_tidy split: option.split)

lemma content_normalize: "content_of (normalizeJsonString s) = content_of s"
proof (cases "json_parse (trim s)")
  case None
  then show ?thesis by (simp add: normalizeJsonString_def content_of_def Let_def)
next
  case (Some v)
  then have "json_parse (stringify v) = Some (tidy v)" "parsed_ok v"
    using json_parse_ok parse_stringify_tidy by blast+
  then show ?thesis using Some by (simp add: normalizeJsonString_def content_of_def Let_def)
qed

text \<open>Two texts have the same normal form exactly when they say the same.\<close>

interpretation json_normal: total_canonical_form normalizeJsonString content_of "\<lambda>_. True" "\<lambda>s. normalizeJsonString s = s"
proof (unfold_locales, simp_all add: content_normalize)
  have same: "normalizeJsonString s = normalizeJsonString t" if "content_of s = content_of t" for s t
    using that by (simp add: normalize_content)
  show "normalizeJsonString (normalizeJsonString s) = normalizeJsonString s" for s
    by (rule same [OF content_normalize])
  show "s = t" if "normalizeJsonString s = s" "normalizeJsonString t = t" "content_of s = content_of t" for s t
    using same [OF that(3)] that(1,2) by simp
qed

lemma normalize_eq_iff: "normalizeJsonString s = normalizeJsonString t \<longleftrightarrow> content_of s = content_of t"
  by (rule json_normal.norm_eq_iff) simp_all

lemma content_stringify2: "parsed_ok v \<Longrightarrow> content_of (stringify2 v) = Value (tidy v)"
  by (simp add: content_of_def parse_stringify2_tidy)

lemma normalize_format: "trimmed s \<Longrightarrow> normalizeJsonString (formatJsonForTextarea s) = normalizeJsonString s"
proof -
  assume "trimmed s"
  then have ts: "trim s = s" by (rule trim_id)
  show ?thesis
  proof (cases "s = [] \<or> json_parse s = None")
    case True
    then show ?thesis using ts by (auto simp: formatJsonForTextarea_def)
  next
    case False
    then obtain v where v: "json_parse s = Some v" "s \<noteq> []" by auto
    then have "formatJsonForTextarea s = stringify2 v" "content_of s = Value (tidy v)"
      unfolding formatJsonForTextarea_def content_of_def ts by simp_all
    then show ?thesis unfolding normalize_eq_iff using content_stringify2 [OF json_parse_ok [OF v(1)]] by simp
  qed
qed

end
