(* ===== verification/GroupRatios.thy ===== *)
theory GroupRatios
  imports SettingsJson "HOL-Library.Multiset"
begin

text \<open>
  The visual editor of group ratios (\<^verbatim>\<open>features/system-settings/models/group-ratio-visual-editor.tsx\<close>) on top
  of \<open>SettingsJson\<close>. The options are JSON texts in a form; every handler parses one,
  changes it and writes it back. \<open>GroupEditor\<close> holds the form's texts, the state of the editor, and the inputs of the three
  dialogs, which are components of their own and stay mounted: they are told to open by a prop, while their
  own open handler, which fills or clears the inputs, runs only when the user dismisses the dialog (Radix calls it for its own
  triggers, Escape, the cross and clicks outside; there are no triggers here).
\<close>

subsection \<open>The state\<close>

datatype SimpleType = SimpleRatio | SimpleTopup

record SimpleGroup =
  gname :: string
  gvalue :: string

record UsableGroup =
  uname :: string
  udescription :: string

record GroupOverride =
  otarget :: string
  oratio :: json

text \<open>The two inputs of a dialog component.\<close>

record Draft =
  input1 :: string
  input2 :: string

definition no_draft :: Draft where
  "no_draft = \<lparr>input1 = [], input2 = []\<rparr>"

record GroupEditor =
  groupRatio :: string
  topupGroupRatio :: string
  userUsableGroups :: string
  groupGroupRatio :: string
  autoGroups :: string
  simpleDialogOpen :: bool
  simpleDialogType :: "SimpleType option"
  simpleEditData :: "SimpleGroup option"
  simpleDraft :: Draft
  usableDialogOpen :: bool
  usableEditData :: "UsableGroup option"
  usableDraft :: Draft
  autoGroupDialogOpen :: bool
  autoGroupInput :: string
  groupOverrideDialogOpen :: bool
  groupOverrideUserGroup :: "string option"
  groupOverrideEditData :: "GroupOverride option"
  overrideDraft :: Draft
  userGroupDialogOpen :: bool
  userGroupInput :: string

text \<open>What the page lists. \<open>None\<close>: \<open>Object.entries\<close> throws while rendering.\<close>

definition simpleList :: "string \<Rightarrow> SimpleGroup list option" where
  "simpleList s =
     map_option (map (\<lambda>(k, v). \<lparr>gname = k, gvalue = js_String v\<rparr>)) (object_entries (read_map s))"

definition usableGroupsList :: "GroupEditor \<Rightarrow> UsableGroup list option" where
  "usableGroupsList st =
     map_option (map (\<lambda>(k, v). \<lparr>uname = k, udescription = js_String v\<rparr>)) (object_entries (read_map (userUsableGroups st)))"

definition autoGroupsList :: "GroupEditor \<Rightarrow> json" where
  "autoGroupsList st = safeJsonParse (autoGroups st) (Some (JArr []))"

fun all_some :: "'a option list \<Rightarrow> 'a list option" where
  "all_some [] = Some []"
| "all_some (x # xs) = (case x of None \<Rightarrow> None | Some v \<Rightarrow> map_option (Cons v) (all_some xs))"

definition overridesOf :: "json \<Rightarrow> GroupOverride list option" where
  "overridesOf v = map_option (map (\<lambda>(k, r). \<lparr>otarget = k, oratio = r\<rparr>)) (object_entries v)"

definition groupGroupRatioList :: "GroupEditor \<Rightarrow> (string \<times> GroupOverride list) list option" where
  "groupGroupRatioList st =
     Option.bind (object_entries (read_map (groupGroupRatio st)))
       (\<lambda>es. all_some (map (\<lambda>(k, v). map_option (Pair k) (overridesOf v)) es))"

subsection \<open>Group ratios and top-up ratios\<close>

definition simpleField :: "SimpleType \<Rightarrow> GroupEditor \<Rightarrow> string" where
  "simpleField t st = (case t of SimpleRatio \<Rightarrow> groupRatio st | SimpleTopup \<Rightarrow> topupGroupRatio st)"

definition changeSimple :: "SimpleType \<Rightarrow> string \<Rightarrow> GroupEditor \<Rightarrow> GroupEditor" where
  "changeSimple t s st =
     (case t of SimpleRatio \<Rightarrow> st\<lparr>groupRatio := s\<rparr> | SimpleTopup \<Rightarrow> st\<lparr>topupGroupRatio := s\<rparr>)"

definition handleSimpleAdd :: "SimpleType \<Rightarrow> GroupEditor \<Rightarrow> GroupEditor" where
  "handleSimpleAdd t st = st\<lparr>simpleDialogType := Some t, simpleEditData := None, simpleDialogOpen := True\<rparr>"

definition handleSimpleEdit :: "SimpleType \<Rightarrow> SimpleGroup \<Rightarrow> GroupEditor \<Rightarrow> GroupEditor" where
  "handleSimpleEdit t g st = st\<lparr>simpleDialogType := Some t, simpleEditData := Some g, simpleDialogOpen := True\<rparr>"

text \<open>A map without its old name when the name changed, then with the new entry.\<close>

definition put_renamed :: "string option \<Rightarrow> string \<Rightarrow> json \<Rightarrow> json \<Rightarrow> json option" where
  "put_renamed old k v m =
     Option.bind (case old of Some n \<Rightarrow> if n \<noteq> k then del_prop n m else Some m | None \<Rightarrow> Some m) (set_prop k v)"

definition handleSimpleSave :: "string \<Rightarrow> string \<Rightarrow> GroupEditor \<Rightarrow> GroupEditor option" where
  "handleSimpleSave name value st =
     (case simpleDialogType st of
        None \<Rightarrow> Some st
      | Some t \<Rightarrow>
          map_option (\<lambda>m. changeSimple t (stringify2 m) (st\<lparr>simpleDialogOpen := False\<rparr>))
            (put_renamed (map_option gname (simpleEditData st)) name (float_json (parseFloat value))
               (read_map (simpleField t st))))"

definition handleSimpleDelete :: "SimpleType \<Rightarrow> string \<Rightarrow> GroupEditor \<Rightarrow> GroupEditor option" where
  "handleSimpleDelete t name st =
     map_option (\<lambda>m. changeSimple t (stringify2 m) st) (del_prop name (read_map (simpleField t st)))"

text \<open>The dialog: its open handler, its inputs and its button.\<close>

definition simpleOpenChange :: "bool \<Rightarrow> GroupEditor \<Rightarrow> GroupEditor" where
  "simpleOpenChange b st =
     (let st1 = st\<lparr>simpleDialogOpen := b\<rparr>
      in case (b, simpleEditData st) of
           (True, Some g) \<Rightarrow> st1\<lparr>simpleDraft := \<lparr>input1 = gname g, input2 = gvalue g\<rparr>\<rparr>
         | _ \<Rightarrow> st1\<lparr>simpleDraft := no_draft\<rparr>)"

definition simpleCancel :: "GroupEditor \<Rightarrow> GroupEditor" where
  "simpleCancel st = st\<lparr>simpleDialogOpen := False\<rparr>"

definition number_input :: "string \<Rightarrow> string \<Rightarrow> string" where
  "number_input old val = (if val = [] \<or> parseFloat val \<noteq> NaN then val else old)"

definition simpleTypeName :: "string \<Rightarrow> GroupEditor \<Rightarrow> GroupEditor" where
  "simpleTypeName s st = st\<lparr>simpleDraft := (simpleDraft st)\<lparr>input1 := s\<rparr>\<rparr>"

definition simpleTypeValue :: "string \<Rightarrow> GroupEditor \<Rightarrow> GroupEditor" where
  "simpleTypeValue s st =
     st\<lparr>simpleDraft := (simpleDraft st)\<lparr>input2 := number_input (input2 (simpleDraft st)) s\<rparr>\<rparr>"

definition simpleSave :: "GroupEditor \<Rightarrow> GroupEditor option" where
  "simpleSave st =
     (let d = simpleDraft st
      in if trim (input1 d) = [] \<or> trim (input2 d) = [] then Some st
         else map_option (\<lambda>s. s\<lparr>simpleDraft := no_draft\<rparr>) (handleSimpleSave (trim (input1 d)) (trim (input2 d)) st))"

subsection \<open>Selectable groups\<close>

definition handleUsableAdd :: "GroupEditor \<Rightarrow> GroupEditor" where
  "handleUsableAdd st = st\<lparr>usableEditData := None, usableDialogOpen := True\<rparr>"

definition handleUsableEdit :: "UsableGroup \<Rightarrow> GroupEditor \<Rightarrow> GroupEditor" where
  "handleUsableEdit g st = st\<lparr>usableEditData := Some g, usableDialogOpen := True\<rparr>"

definition handleUsableSave :: "string \<Rightarrow> string \<Rightarrow> GroupEditor \<Rightarrow> GroupEditor option" where
  "handleUsableSave name description st =
     map_option (\<lambda>m. st\<lparr>userUsableGroups := stringify2 m, usableDialogOpen := False\<rparr>)
       (put_renamed (map_option uname (usableEditData st)) name (JStr description) (read_map (userUsableGroups st)))"

definition handleUsableDelete :: "string \<Rightarrow> GroupEditor \<Rightarrow> GroupEditor option" where
  "handleUsableDelete name st =
     map_option (\<lambda>m. st\<lparr>userUsableGroups := stringify2 m\<rparr>) (del_prop name (read_map (userUsableGroups st)))"

definition usableOpenChange :: "bool \<Rightarrow> GroupEditor \<Rightarrow> GroupEditor" where
  "usableOpenChange b st =
     (let st1 = st\<lparr>usableDialogOpen := b\<rparr>
      in case (b, usableEditData st) of
           (True, Some g) \<Rightarrow> st1\<lparr>usableDraft := \<lparr>input1 = uname g, input2 = udescription g\<rparr>\<rparr>
         | _ \<Rightarrow> st1\<lparr>usableDraft := no_draft\<rparr>)"

definition usableSave :: "GroupEditor \<Rightarrow> GroupEditor option" where
  "usableSave st =
     (let d = usableDraft st
      in if trim (input1 d) = [] \<or> trim (input2 d) = [] then Some st
         else map_option (\<lambda>s. s\<lparr>usableDraft := no_draft\<rparr>) (handleUsableSave (trim (input1 d)) (trim (input2 d)) st))"

subsection \<open>Automatic groups\<close>

text \<open>The list is an array of the option; spreading or filtering anything else throws or is not modelled.\<close>

definition auto_array :: "GroupEditor \<Rightarrow> json list option" where
  "auto_array st = (case autoGroupsList st of JArr xs \<Rightarrow> Some xs | _ \<Rightarrow> None)"

definition handleAutoGroupAdd :: "GroupEditor \<Rightarrow> GroupEditor" where
  "handleAutoGroupAdd st = st\<lparr>autoGroupInput := [], autoGroupDialogOpen := True\<rparr>"

definition handleAutoGroupSave :: "GroupEditor \<Rightarrow> GroupEditor option" where
  "handleAutoGroupSave st =
     (if trim (autoGroupInput st) = [] then Some st
      else map_option
             (\<lambda>xs. st\<lparr>autoGroups := stringify2 (JArr (xs @ [JStr (trim (autoGroupInput st))])), autoGroupDialogOpen := False\<rparr>)
             (auto_array st))"

definition handleAutoGroupDelete :: "nat \<Rightarrow> GroupEditor \<Rightarrow> GroupEditor option" where
  "handleAutoGroupDelete index st =
     map_option (\<lambda>xs. st\<lparr>autoGroups := stringify2 (JArr (take index xs @ drop (Suc index) xs))\<rparr>) (auto_array st)"

datatype Direction = Up | Down

definition handleAutoGroupMove :: "nat \<Rightarrow> Direction \<Rightarrow> GroupEditor \<Rightarrow> GroupEditor option" where
  "handleAutoGroupMove index dir st =
     map_option
       (\<lambda>xs. let newIndex = (case dir of Up \<Rightarrow> int index - 1 | Down \<Rightarrow> int index + 1)
             in if newIndex < 0 \<or> int (length xs) \<le> newIndex then st
                else let j = nat newIndex
                     in st\<lparr>autoGroups := stringify2 (JArr (xs[index := xs ! j, j := xs ! index]))\<rparr>)
       (auto_array st)"

subsection \<open>Overrides\<close>

definition handleUserGroupAdd :: "GroupEditor \<Rightarrow> GroupEditor" where
  "handleUserGroupAdd st = st\<lparr>userGroupInput := [], userGroupDialogOpen := True\<rparr>"

text \<open>
  \<open>if (!map[g]) map[g] = \{\}\<close>, then \<open>f\<close> on \<open>map[g]\<close>. An inherited \<open>map[g]\<close> is truthy and no part of the map: what is
  written there does not reach the text.
\<close>

definition with_group :: "string \<Rightarrow> (json \<Rightarrow> json option) \<Rightarrow> json \<Rightarrow> json option" where
  "with_group g f m =
     (case m of
        JObj ob \<Rightarrow>
          (case oget ob g of
             Some v \<Rightarrow> Option.bind (f (if jtruthy v then v else JObj [])) (\<lambda>w. Some (JObj (oput g w ob)))
           | None \<Rightarrow>
               if g \<in> set PROTOTYPE_NAMES then Some m
               else Option.bind (f (JObj [])) (\<lambda>w. Some (JObj (oput g w ob))))
      | _ \<Rightarrow> None)"

definition handleUserGroupSave :: "GroupEditor \<Rightarrow> GroupEditor option" where
  "handleUserGroupSave st =
     (if trim (userGroupInput st) = [] then Some st
      else map_option (\<lambda>m. st\<lparr>groupGroupRatio := stringify2 m, userGroupDialogOpen := False\<rparr>)
             (with_group (trim (userGroupInput st)) Some (read_map (groupGroupRatio st))))"

definition handleUserGroupDelete :: "string \<Rightarrow> GroupEditor \<Rightarrow> GroupEditor option" where
  "handleUserGroupDelete userGroup st =
     map_option (\<lambda>m. st\<lparr>groupGroupRatio := stringify2 m\<rparr>) (del_prop userGroup (read_map (groupGroupRatio st)))"

definition handleOverrideAdd :: "string \<Rightarrow> GroupEditor \<Rightarrow> GroupEditor" where
  "handleOverrideAdd userGroup st =
     st\<lparr>groupOverrideUserGroup := Some userGroup, groupOverrideEditData := None, groupOverrideDialogOpen := True\<rparr>"

definition handleOverrideEdit :: "string \<Rightarrow> GroupOverride \<Rightarrow> GroupEditor \<Rightarrow> GroupEditor" where
  "handleOverrideEdit userGroup ov st =
     st\<lparr>groupOverrideUserGroup := Some userGroup, groupOverrideEditData := Some ov, groupOverrideDialogOpen := True\<rparr>"

definition handleOverrideSave :: "string \<Rightarrow> jsfloat \<Rightarrow> string option \<Rightarrow> GroupEditor \<Rightarrow> GroupEditor option" where
  "handleOverrideSave target r old st =
     (case groupOverrideUserGroup st of
        None \<Rightarrow> Some st
      | Some g \<Rightarrow>
          if g = [] then Some st
          else map_option (\<lambda>m. st\<lparr>groupGroupRatio := stringify2 m, groupOverrideDialogOpen := False\<rparr>)
                 (with_group g
                    (put_renamed (case old of Some n \<Rightarrow> if n = [] then None else Some n | None \<Rightarrow> None) target (float_json r))
                    (read_map (groupGroupRatio st))))"

definition handleOverrideDelete :: "string \<Rightarrow> string \<Rightarrow> GroupEditor \<Rightarrow> GroupEditor option" where
  "handleOverrideDelete userGroup target st =
     map_option (\<lambda>m. st\<lparr>groupGroupRatio := stringify2 m\<rparr>)
       (case read_map (groupGroupRatio st) of
          JObj ob \<Rightarrow>
            (case oget ob userGroup of
               Some v \<Rightarrow>
                 if jtruthy v
                 then Option.bind (del_prop target v)
                        (\<lambda>w. Some (JObj (if w = JObj [] then odel userGroup ob else oput userGroup w ob)))
                 else Some (JObj ob)
             | None \<Rightarrow> Some (JObj ob))
        | _ \<Rightarrow> None)"

definition overrideOpenChange :: "bool \<Rightarrow> GroupEditor \<Rightarrow> GroupEditor" where
  "overrideOpenChange b st =
     (let st1 = st\<lparr>groupOverrideDialogOpen := b\<rparr>
      in case (b, groupOverrideEditData st) of
           (True, Some ov) \<Rightarrow> st1\<lparr>overrideDraft := \<lparr>input1 = otarget ov, input2 = js_String (oratio ov)\<rparr>\<rparr>
         | _ \<Rightarrow> st1\<lparr>overrideDraft := no_draft\<rparr>)"

definition overrideSave :: "GroupEditor \<Rightarrow> GroupEditor option" where
  "overrideSave st =
     (let d = overrideDraft st; r = parseFloat (input2 d)
      in if trim (input1 d) = [] \<or> trim (input2 d) = [] \<or> r = NaN then Some st
         else map_option (\<lambda>s. s\<lparr>overrideDraft := no_draft\<rparr>)
                (handleOverrideSave (trim (input1 d)) r (map_option otarget (groupOverrideEditData st)) st))"

subsection \<open>The page\<close>

datatype GroupEvent =
    SimpleAdd SimpleType
  | SimpleEdit SimpleType SimpleGroup
  | SimpleRemove SimpleType string
  | SimpleName string
  | SimpleValue string
  | SimpleSave
  | SimpleCancel
  | SimpleDismiss
  | UsableAdd
  | UsableEdit UsableGroup
  | UsableRemove string
  | UsableName string
  | UsableDescription string
  | UsableSave
  | UsableCancel
  | UsableDismiss
  | AutoAdd
  | AutoInput string
  | AutoSave
  | AutoClose
  | AutoRemove nat
  | AutoMove nat Direction
  | GroupAdd
  | GroupInput string
  | GroupSave
  | GroupClose
  | GroupRemove string
  | OverrideAdd string
  | OverrideEdit string GroupOverride
  | OverrideTarget string
  | OverrideRatio string
  | OverrideSave
  | OverrideCancel
  | OverrideDismiss
  | OverrideRemove string string
  | FormReset string string string string string

text \<open>\<open>None\<close>: the handler throws, or an array stands for a dictionary.\<close>

fun editor_step :: "GroupEvent \<Rightarrow> GroupEditor \<Rightarrow> GroupEditor option" where
  "editor_step (SimpleAdd t) st = Some (handleSimpleAdd t st)"
| "editor_step (SimpleEdit t g) st = Some (handleSimpleEdit t g st)"
| "editor_step (SimpleRemove t n) st = handleSimpleDelete t n st"
| "editor_step (SimpleName s) st = Some (simpleTypeName s st)"
| "editor_step (SimpleValue s) st = Some (simpleTypeValue s st)"
| "editor_step SimpleSave st = simpleSave st"
| "editor_step SimpleCancel st = Some (simpleCancel st)"
| "editor_step SimpleDismiss st = Some (simpleOpenChange False st)"
| "editor_step UsableAdd st = Some (handleUsableAdd st)"
| "editor_step (UsableEdit g) st = Some (handleUsableEdit g st)"
| "editor_step (UsableRemove n) st = handleUsableDelete n st"
| "editor_step (UsableName s) st = Some (st\<lparr>usableDraft := (usableDraft st)\<lparr>input1 := s\<rparr>\<rparr>)"
| "editor_step (UsableDescription s) st = Some (st\<lparr>usableDraft := (usableDraft st)\<lparr>input2 := s\<rparr>\<rparr>)"
| "editor_step UsableSave st = usableSave st"
| "editor_step UsableCancel st = Some (st\<lparr>usableDialogOpen := False\<rparr>)"
| "editor_step UsableDismiss st = Some (usableOpenChange False st)"
| "editor_step AutoAdd st = Some (handleAutoGroupAdd st)"
| "editor_step (AutoInput s) st = Some (st\<lparr>autoGroupInput := s\<rparr>)"
| "editor_step AutoSave st = handleAutoGroupSave st"
| "editor_step AutoClose st = Some (st\<lparr>autoGroupDialogOpen := False\<rparr>)"
| "editor_step (AutoRemove i) st = handleAutoGroupDelete i st"
| "editor_step (AutoMove i d) st = handleAutoGroupMove i d st"
| "editor_step GroupAdd st = Some (handleUserGroupAdd st)"
| "editor_step (GroupInput s) st = Some (st\<lparr>userGroupInput := s\<rparr>)"
| "editor_step GroupSave st = handleUserGroupSave st"
| "editor_step GroupClose st = Some (st\<lparr>userGroupDialogOpen := False\<rparr>)"
| "editor_step (GroupRemove g) st = handleUserGroupDelete g st"
| "editor_step (OverrideAdd g) st = Some (handleOverrideAdd g st)"
| "editor_step (OverrideEdit g ov) st = Some (handleOverrideEdit g ov st)"
| "editor_step (OverrideTarget s) st = Some (st\<lparr>overrideDraft := (overrideDraft st)\<lparr>input1 := s\<rparr>\<rparr>)"
| "editor_step (OverrideRatio s) st =
     Some (st\<lparr>overrideDraft := (overrideDraft st)\<lparr>input2 := number_input (input2 (overrideDraft st)) s\<rparr>\<rparr>)"
| "editor_step OverrideSave st = overrideSave st"
| "editor_step OverrideCancel st = Some (st\<lparr>groupOverrideDialogOpen := False\<rparr>)"
| "editor_step OverrideDismiss st = Some (overrideOpenChange False st)"
| "editor_step (OverrideRemove g t) st = handleOverrideDelete g t st"
| "editor_step (FormReset a b c d e) st =
     Some (st\<lparr>groupRatio := a, topupGroupRatio := b, userUsableGroups := c, groupGroupRatio := d, autoGroups := e\<rparr>)"

definition closed :: "GroupEditor \<Rightarrow> bool" where
  "closed st \<longleftrightarrow> \<not> simpleDialogOpen st \<and> \<not> usableDialogOpen st \<and> \<not> autoGroupDialogOpen st \<and> \<not> groupOverrideDialogOpen st
     \<and> \<not> userGroupDialogOpen st"

definition listed :: "'a list option \<Rightarrow> 'a \<Rightarrow> bool" where
  "listed xs x \<longleftrightarrow> (case xs of Some ys \<Rightarrow> x \<in> set ys | None \<Rightarrow> False)"

text \<open>The controls on offer: buttons of the rows without a dialog; the name input is disabled while editing.\<close>

fun offered :: "GroupEditor \<Rightarrow> GroupEvent \<Rightarrow> bool" where
  "offered st (SimpleAdd t) = closed st"
| "offered st (SimpleEdit t g) = (closed st \<and> listed (simpleList (simpleField t st)) g)"
| "offered st (SimpleRemove t n) = (closed st \<and> listed (map_option (map gname) (simpleList (simpleField t st))) n)"
| "offered st (SimpleName s) = (simpleDialogOpen st \<and> simpleEditData st = None)"
| "offered st (SimpleValue s) = simpleDialogOpen st"
| "offered st SimpleSave = simpleDialogOpen st"
| "offered st SimpleCancel = simpleDialogOpen st"
| "offered st SimpleDismiss = simpleDialogOpen st"
| "offered st UsableAdd = closed st"
| "offered st (UsableEdit g) = (closed st \<and> listed (usableGroupsList st) g)"
| "offered st (UsableRemove n) = (closed st \<and> listed (map_option (map uname) (usableGroupsList st)) n)"
| "offered st (UsableName s) = (usableDialogOpen st \<and> usableEditData st = None)"
| "offered st (UsableDescription s) = usableDialogOpen st"
| "offered st UsableSave = usableDialogOpen st"
| "offered st UsableCancel = usableDialogOpen st"
| "offered st UsableDismiss = usableDialogOpen st"
| "offered st AutoAdd = closed st"
| "offered st (AutoInput s) = autoGroupDialogOpen st"
| "offered st AutoSave = autoGroupDialogOpen st"
| "offered st AutoClose = autoGroupDialogOpen st"
| "offered st (AutoRemove i) = (closed st \<and> (case auto_array st of Some xs \<Rightarrow> i < length xs | None \<Rightarrow> False))"
| "offered st (AutoMove i d) =
     (closed st \<and> (case auto_array st of
                      Some xs \<Rightarrow> i < length xs \<and> (case d of Up \<Rightarrow> i \<noteq> 0 | Down \<Rightarrow> Suc i \<noteq> length xs)
                    | None \<Rightarrow> False))"
| "offered st GroupAdd = closed st"
| "offered st (GroupInput s) = userGroupDialogOpen st"
| "offered st GroupSave = userGroupDialogOpen st"
| "offered st GroupClose = userGroupDialogOpen st"
| "offered st (GroupRemove g) = (closed st \<and> listed (map_option (map fst) (groupGroupRatioList st)) g)"
| "offered st (OverrideAdd g) = (closed st \<and> listed (map_option (map fst) (groupGroupRatioList st)) g)"
| "offered st (OverrideEdit g ov) =
     (closed st \<and> (case groupGroupRatioList st of Some gs \<Rightarrow> (\<exists>p \<in> set gs. fst p = g \<and> ov \<in> set (snd p)) | None \<Rightarrow> False))"
| "offered st (OverrideTarget s) = (groupOverrideDialogOpen st \<and> groupOverrideEditData st = None)"
| "offered st (OverrideRatio s) = groupOverrideDialogOpen st"
| "offered st OverrideSave = groupOverrideDialogOpen st"
| "offered st OverrideCancel = groupOverrideDialogOpen st"
| "offered st OverrideDismiss = groupOverrideDialogOpen st"
| "offered st (OverrideRemove g t) =
     (closed st \<and> (case groupGroupRatioList st of
                      Some gs \<Rightarrow> (\<exists>p \<in> set gs. fst p = g \<and> t \<in> otarget ` set (snd p))
                    | None \<Rightarrow> False))"
| "offered st (FormReset a b c d e) = True"

definition openGroupEditor :: "string \<Rightarrow> string \<Rightarrow> string \<Rightarrow> string \<Rightarrow> string \<Rightarrow> GroupEditor" where
  "openGroupEditor a b c d e =
     \<lparr>groupRatio = a, topupGroupRatio = b, userUsableGroups = c, groupGroupRatio = d, autoGroups = e,
      simpleDialogOpen = False, simpleDialogType = None, simpleEditData = None, simpleDraft = no_draft,
      usableDialogOpen = False, usableEditData = None, usableDraft = no_draft,
      autoGroupDialogOpen = False, autoGroupInput = [],
      groupOverrideDialogOpen = False, groupOverrideUserGroup = None, groupOverrideEditData = None, overrideDraft = no_draft,
      userGroupDialogOpen = False, userGroupInput = []\<rparr>"

text \<open>A state that the user reaches by offered events out of \<open>P\<close>.\<close>

inductive editor_reach :: "(GroupEvent \<Rightarrow> bool) \<Rightarrow> GroupEditor \<Rightarrow> bool" for P where
  opened: "editor_reach P (openGroupEditor a b c d e)"
| event: "editor_reach P st \<Longrightarrow> P e \<Longrightarrow> offered st e \<Longrightarrow> editor_step e st = Some st' \<Longrightarrow> editor_reach P st'"

fun editor_run :: "GroupEvent list \<Rightarrow> GroupEditor \<Rightarrow> GroupEditor option" where
  "editor_run [] st = Some st"
| "editor_run (e # es) st = (if offered st e then Option.bind (editor_step e st) (editor_run es) else None)"

subsection \<open>Editing\<close>

text \<open>
  The name inputs are empty while their dialog is closed or edits an entry: nothing fills them when a row's edit
  button opens the dialog.
\<close>

definition names_blank :: "GroupEditor \<Rightarrow> bool" where
  "names_blank st \<longleftrightarrow>
     ((\<not> simpleDialogOpen st \<or> simpleEditData st \<noteq> None) \<longrightarrow> input1 (simpleDraft st) = [])
     \<and> ((\<not> usableDialogOpen st \<or> usableEditData st \<noteq> None) \<longrightarrow> input1 (usableDraft st) = [])
     \<and> ((\<not> groupOverrideDialogOpen st \<or> groupOverrideEditData st \<noteq> None) \<longrightarrow> input1 (overrideDraft st) = [])"

definition no_cancel :: "GroupEvent \<Rightarrow> bool" where
  "no_cancel e \<longleftrightarrow> e \<notin> {SimpleCancel, UsableCancel, OverrideCancel}"

lemmas editor_defs = handleSimpleAdd_def handleSimpleEdit_def handleSimpleSave_def handleSimpleDelete_def changeSimple_def
  simpleOpenChange_def simpleCancel_def simpleTypeName_def simpleTypeValue_def simpleSave_def
  handleUsableAdd_def handleUsableEdit_def handleUsableSave_def handleUsableDelete_def usableOpenChange_def usableSave_def
  handleAutoGroupAdd_def handleAutoGroupSave_def handleAutoGroupDelete_def handleAutoGroupMove_def
  handleUserGroupAdd_def handleUserGroupSave_def handleUserGroupDelete_def handleOverrideAdd_def handleOverrideEdit_def
  handleOverrideSave_def handleOverrideDelete_def overrideOpenChange_def overrideSave_def

text \<open>What the buttons of the rows and the two small dialogs leave alone.\<close>

definition same_dialogs :: "GroupEditor \<Rightarrow> GroupEditor \<Rightarrow> bool" where
  "same_dialogs st st' \<longleftrightarrow>
     simpleDialogOpen st' = simpleDialogOpen st \<and> simpleEditData st' = simpleEditData st \<and> simpleDraft st' = simpleDraft st
     \<and> usableDialogOpen st' = usableDialogOpen st \<and> usableEditData st' = usableEditData st \<and> usableDraft st' = usableDraft st
     \<and> groupOverrideDialogOpen st' = groupOverrideDialogOpen st \<and> groupOverrideEditData st' = groupOverrideEditData st
     \<and> overrideDraft st' = overrideDraft st"

lemma same_names_blank: "same_dialogs st st' \<Longrightarrow> names_blank st \<Longrightarrow> names_blank st'"
  by (simp add: same_dialogs_def names_blank_def)

lemma row_buttons_same:
  "handleSimpleDelete t n st = Some st' \<Longrightarrow> same_dialogs st st'"
  "handleUsableDelete n st = Some st' \<Longrightarrow> same_dialogs st st'"
  "handleUserGroupDelete n st = Some st' \<Longrightarrow> same_dialogs st st'"
  "handleOverrideDelete g n st = Some st' \<Longrightarrow> same_dialogs st st'"
  "handleAutoGroupDelete i st = Some st' \<Longrightarrow> same_dialogs st st'"
  "handleAutoGroupMove i d st = Some st' \<Longrightarrow> same_dialogs st st'"
  "handleAutoGroupSave st = Some st' \<Longrightarrow> same_dialogs st st'"
  "handleUserGroupSave st = Some st' \<Longrightarrow> same_dialogs st st'"
proof -
  show "handleSimpleDelete t n st = Some st' \<Longrightarrow> same_dialogs st st'"
    by (cases t) (auto simp: handleSimpleDelete_def changeSimple_def same_dialogs_def)
  show "handleOverrideDelete g n st = Some st' \<Longrightarrow> same_dialogs st st'"
    unfolding handleOverrideDelete_def by (auto simp: same_dialogs_def)
  show "handleAutoGroupMove i d st = Some st' \<Longrightarrow> same_dialogs st st'"
    unfolding handleAutoGroupMove_def by (auto simp: same_dialogs_def Let_def split: if_splits)
qed (auto simp: handleUsableDelete_def handleUserGroupDelete_def handleAutoGroupDelete_def handleAutoGroupSave_def
    handleUserGroupSave_def same_dialogs_def split: if_splits)

lemma simple_save_blank:
  assumes "simpleSave st = Some st'" "names_blank st"
  shows "names_blank st'"
proof (cases "st' = st")
  case False
  then obtain s where s: "handleSimpleSave (trim (input1 (simpleDraft st))) (trim (input2 (simpleDraft st))) st = Some s"
      "st' = s\<lparr>simpleDraft := no_draft\<rparr>"
    using assms(1) by (auto simp: simpleSave_def Let_def split: if_splits)
  have "usableDialogOpen s = usableDialogOpen st \<and> usableEditData s = usableEditData st \<and> usableDraft s = usableDraft st
      \<and> groupOverrideDialogOpen s = groupOverrideDialogOpen st \<and> groupOverrideEditData s = groupOverrideEditData st
      \<and> overrideDraft s = overrideDraft st"
  proof (cases "simpleDialogType st")
    case None
    then show ?thesis using s(1) by (simp add: handleSimpleSave_def)
  next
    case (Some t)
    then show ?thesis using s(1) by (cases t) (auto simp: handleSimpleSave_def changeSimple_def)
  qed
  then show ?thesis using assms(2) by (simp add: s(2) names_blank_def no_draft_def)
qed (use assms in simp)

lemma usable_save_blank:
  assumes "usableSave st = Some st'" "names_blank st"
  shows "names_blank st'"
proof (cases "st' = st")
  case False
  then obtain m where "st' = st\<lparr>userUsableGroups := stringify2 m, usableDialogOpen := False, usableDraft := no_draft\<rparr>"
    using assms(1) by (auto simp: usableSave_def handleUsableSave_def Let_def split: if_splits)
  then show ?thesis using assms(2) by (simp add: names_blank_def no_draft_def)
qed (use assms in simp)

lemma override_save_blank:
  assumes "overrideSave st = Some st'" "names_blank st"
  shows "names_blank st'"
proof (cases "st' = st")
  case False
  then obtain r old s where s: "handleOverrideSave (trim (input1 (overrideDraft st))) r old st = Some s"
      "st' = s\<lparr>overrideDraft := no_draft\<rparr>"
    using assms(1) unfolding overrideSave_def Let_def by (auto split: if_split_asm)
  have "s = st \<or> (\<exists>m. s = st\<lparr>groupGroupRatio := m, groupOverrideDialogOpen := False\<rparr>)"
  proof (cases "groupOverrideUserGroup st")
    case None
    then show ?thesis using s(1) by (simp add: handleOverrideSave_def)
  next
    case (Some g)
    then show ?thesis using s(1) unfolding handleOverrideSave_def by (auto split: if_split_asm)
  qed
  then show ?thesis
  proof
    assume "s = st"
    then show ?thesis using assms(2) by (simp add: s(2) names_blank_def no_draft_def)
  next
    assume "\<exists>m. s = st\<lparr>groupGroupRatio := m, groupOverrideDialogOpen := False\<rparr>"
    then obtain m where "s = st\<lparr>groupGroupRatio := m, groupOverrideDialogOpen := False\<rparr>" ..
    then show ?thesis using assms(2) by (simp add: s(2) names_blank_def no_draft_def)
  qed
qed (use assms in simp)

lemma step_names_blank:
  assumes "names_blank st" "offered st e" "no_cancel e" "editor_step e st = Some st'"
  shows "names_blank st'"
proof -
  have row: "names_blank st'" if "same_dialogs st st'"
    by (rule same_names_blank [OF that assms(1)])
  have st': "st' = the (editor_step e st)" using assms(4) by simp
  show ?thesis
  proof (cases e)
    case SimpleSave
    then show ?thesis using assms simple_save_blank by simp
  next
    case UsableSave
    then show ?thesis using assms usable_save_blank by simp
  next
    case OverrideSave
    then show ?thesis using assms override_save_blank by simp
  next
    case (SimpleRemove t n)
    then show ?thesis using assms(4) row row_buttons_same(1) by simp
  next
    case (UsableRemove n)
    then show ?thesis using assms(4) row row_buttons_same(2) by simp
  next
    case (GroupRemove n)
    then show ?thesis using assms(4) row row_buttons_same(3) by simp
  next
    case (OverrideRemove g n)
    then show ?thesis using assms(4) row row_buttons_same(4) by simp
  next
    case (AutoRemove i)
    then show ?thesis using assms(4) row row_buttons_same(5) by simp
  next
    case (AutoMove i d)
    then show ?thesis using assms(4) row row_buttons_same(6) by simp
  next
    case AutoSave
    then show ?thesis using assms(4) row row_buttons_same(7) by simp
  next
    case GroupSave
    then show ?thesis using assms(4) row row_buttons_same(8) by simp
  qed (use assms(1-3) in \<open>simp_all add: st' names_blank_def no_cancel_def closed_def handleSimpleAdd_def handleSimpleEdit_def
      simpleTypeName_def simpleTypeValue_def simpleOpenChange_def handleUsableAdd_def handleUsableEdit_def usableOpenChange_def
      handleAutoGroupAdd_def handleUserGroupAdd_def handleOverrideAdd_def handleOverrideEdit_def overrideOpenChange_def
      no_draft_def Let_def\<close>)
qed

lemma reach_names_blank: "editor_reach no_cancel st \<Longrightarrow> names_blank st"
proof (induction rule: editor_reach.induct)
  case opened
  then show ?case by (simp add: names_blank_def openGroupEditor_def no_draft_def)
next
  case (event st e st')
  then show ?case using step_names_blank by blast
qed

text \<open>
  C35: with no dialog closed by its cancel button, an entry cannot be edited. Whenever one of the three dialogs edits an
  entry, its name input is empty and disabled, and its button does nothing.
\<close>

theorem editing_never_saves:
  assumes "editor_reach no_cancel st"
  shows "(simpleDialogOpen st \<and> simpleEditData st \<noteq> None \<longrightarrow>
            input1 (simpleDraft st) = [] \<and> \<not> offered st (SimpleName s) \<and> editor_step SimpleSave st = Some st)
       \<and> (usableDialogOpen st \<and> usableEditData st \<noteq> None \<longrightarrow>
            input1 (usableDraft st) = [] \<and> \<not> offered st (UsableName s) \<and> editor_step UsableSave st = Some st)
       \<and> (groupOverrideDialogOpen st \<and> groupOverrideEditData st \<noteq> None \<longrightarrow>
            input1 (overrideDraft st) = [] \<and> \<not> offered st (OverrideTarget s) \<and> editor_step OverrideSave st = Some st)"
  using reach_names_blank [OF assms]
  by (simp add: names_blank_def simpleSave_def usableSave_def overrideSave_def Let_def)

text \<open>
  A cancelled addition takes over the next edit. Its inputs stay in the dialog, so that updating an entry
  deletes that entry and writes the cancelled one.
\<close>

theorem cancelled_add_replaces_edited:
  assumes "closed st" "read_map (simpleField t st) = JObj ob" "listed (simpleList (simpleField t st)) g"
    and "trim n \<noteq> []" "trim n \<noteq> gname g" "trim v \<noteq> []" "parseFloat v \<noteq> NaN"
  shows "\<exists>st'. editor_run [SimpleAdd t, SimpleName n, SimpleValue v, SimpleCancel, SimpleEdit t g, SimpleSave] st = Some st'
    \<and> simpleField t st' = stringify2 (JObj (assign (trim n) (float_json (parseFloat (trim v))) (odel (gname g) ob)))"
  using assms
  by (cases t)
    (simp_all add: closed_def handleSimpleAdd_def simpleTypeName_def simpleTypeValue_def number_input_def simpleCancel_def
      handleSimpleEdit_def simpleSave_def handleSimpleSave_def put_renamed_def changeSimple_def simpleField_def Let_def)

subsection \<open>Adding and deleting\<close>

text \<open>What a text means to the reader: a finite map, when it holds an object.\<close>

definition meaning :: "string \<Rightarrow> (string \<Rightarrow> json option) option" where
  "meaning s = (case read_map s of JObj ob \<Rightarrow> Some (oget ob) | _ \<Rightarrow> None)"

definition stored_map :: "string \<Rightarrow> bool" where
  "stored_map s \<longleftrightarrow> (\<exists>ob. read_map s = JObj ob \<and> wf_json (JObj ob))"

lemma own_entries_odel_any: "own_entries (odel k ob) = odel k (own_entries ob)"
  unfolding own_entries_def odel_def by (simp add: filter_sort filter_filter conj_commute)

lemma wf_odel: "wf_json (JObj ob) \<Longrightarrow> wf_json (JObj (odel k ob))"
  using own_entries_odel_any [of k ob] owf_odel [of ob k] by (auto simp: odel_def)

lemma meaning_stringify2 [simp]: "wf_json (JObj ob) \<Longrightarrow> meaning (stringify2 (JObj ob)) = Some (oget ob)"
  by (simp add: meaning_def del: wf_json.simps)

lemma oget_odel_fun: "oget (odel k ob) = (oget ob)(k := None)"
  by (rule ext) simp

lemma oget_oput_fun: "oget (oput k v ob) = (oget ob)(k \<mapsto> v)"
  by (rule ext) simp

text \<open>
  On the texts as finite maps, adding an entry is a map update, deleting one removes its key, the other
  options stay as they are, and the texts stay readable.
\<close>

theorem simple_entries_refine_map:
  assumes "closed st" "stored_map (simpleField t st)" "trim n \<noteq> []" "\<not> is_index (trim n)" "trim n \<noteq> ''__proto__''"
    and "trim v \<noteq> []" "parseFloat v \<noteq> NaN" "listed (map_option (map gname) (simpleList (simpleField t st))) k"
  shows "\<exists>a d M. meaning (simpleField t st) = Some M
    \<and> editor_run [SimpleAdd t, SimpleName n, SimpleValue v, SimpleSave] st = Some a
    \<and> meaning (simpleField t a) = Some (M(trim n \<mapsto> float_json (parseFloat (trim v)))) \<and> stored_map (simpleField t a)
    \<and> editor_run [SimpleRemove t k] st = Some d
    \<and> meaning (simpleField t d) = Some (M(k := None)) \<and> stored_map (simpleField t d)
    \<and> (\<forall>u. u \<noteq> t \<longrightarrow> simpleField u a = simpleField u st \<and> simpleField u d = simpleField u st)"
proof -
  obtain ob where ob: "read_map (simpleField t st) = JObj ob" "wf_json (JObj ob)"
    using assms(2) by (auto simp: stored_map_def)
  define x where "x = float_json (parseFloat (trim v))"
  have w: "wf_json (JObj (oput (trim n) x ob))"
    by (rule wf_json_oput) (use assms ob in \<open>simp_all add: x_def wf_parseFloat del: wf_json.simps\<close>)
  have d: "wf_json (JObj (odel k ob))" by (rule wf_odel [OF ob(2)])
  define a where "a = (changeSimple t (stringify2 (JObj (oput (trim n) x ob))) st)
    \<lparr>simpleDialogOpen := False, simpleDialogType := Some t, simpleEditData := None, simpleDraft := no_draft\<rparr>"
  define e where "e = changeSimple t (stringify2 (JObj (odel k ob))) st"
  have f: "simpleField t (changeSimple t s st) = s" "u \<noteq> t \<longrightarrow> simpleField u (changeSimple t s st) = simpleField u st" for s u
    by (cases t; cases u; simp add: simpleField_def changeSimple_def)+
  have g: "simpleField u a = simpleField u (changeSimple t (stringify2 (JObj (oput (trim n) x ob))) st)" for u
    by (cases u; simp add: a_def simpleField_def)
  have "editor_run [SimpleAdd t, SimpleName n, SimpleValue v, SimpleSave] st = Some a"
    using assms(1,3,5,6,7) ob(1) unfolding a_def x_def
    by (cases t)
      (simp_all add: closed_def handleSimpleAdd_def simpleTypeName_def simpleTypeValue_def number_input_def simpleSave_def
        handleSimpleSave_def put_renamed_def changeSimple_def simpleField_def assign_def Let_def)
  moreover have "editor_run [SimpleRemove t k] st = Some e"
    using assms(1,8) ob(1) unfolding e_def by (simp add: handleSimpleDelete_def)
  moreover have "meaning (simpleField t st) = Some (oget ob)" by (simp add: meaning_def ob(1))
  moreover have "meaning (simpleField t a) = Some ((oget ob)(trim n \<mapsto> x))" "stored_map (simpleField t a)"
    using w by (simp_all add: g f stored_map_def oget_oput_fun del: wf_json.simps)
  moreover have "meaning (simpleField t e) = Some ((oget ob)(k := None))" "stored_map (simpleField t e)"
    using d by (simp_all add: e_def f stored_map_def oget_odel_fun del: wf_json.simps)
  moreover have "\<forall>u. u \<noteq> t \<longrightarrow> simpleField u a = simpleField u st \<and> simpleField u e = simpleField u st"
    by (simp add: g f e_def)
  ultimately show ?thesis unfolding x_def by blast
qed

text \<open>
  A text that does not parse, or that is JSON but no object: the first is lost with the next save, the
  second makes the page throw when it is null.
\<close>

lemma broken_text_lost:
  assumes "closed st" "trim (simpleField t st) \<noteq> []" "json_parse (trim (simpleField t st)) = None"
    and "trim n \<noteq> []" "trim v \<noteq> []" "parseFloat v \<noteq> NaN" "trim n \<noteq> ''__proto__''"
  shows "\<exists>a. editor_run [SimpleAdd t, SimpleName n, SimpleValue v, SimpleSave] st = Some a
    \<and> simpleField t a = stringify2 (JObj [(trim n, float_json (parseFloat (trim v)))])"
proof -
  have "read_map (simpleField t st) = JObj []"
    using assms(2,3) by (auto simp: safeJsonParse_def Let_def)
  then show ?thesis using assms
    by (cases t)
      (simp_all add: closed_def handleSimpleAdd_def simpleTypeName_def simpleTypeValue_def number_input_def simpleSave_def
        handleSimpleSave_def put_renamed_def changeSimple_def simpleField_def assign_def ohas_def Let_def)
qed

lemma null_text_throws: "simpleList ''null'' = None"
  by code_simp

text \<open>The order of the automatic groups: moving swaps neighbours, and moving back restores the order.\<close>

lemma auto_array_stringify2: "wf_json (JArr xs) \<Longrightarrow> auto_array (st\<lparr>autoGroups := stringify2 (JArr xs)\<rparr>) = Some xs"
  by (simp add: auto_array_def autoGroupsList_def del: wf_json.simps)

lemma move_up_swaps:
  assumes "auto_array st = Some xs" "wf_json (JArr xs)" "offered st (AutoMove i Up)"
  shows "\<exists>a b ys. handleAutoGroupMove i Up st = Some a \<and> auto_array a = Some ys
    \<and> ys = xs[i := xs ! (i - 1), i - 1 := xs ! i] \<and> mset ys = mset xs
    \<and> handleAutoGroupMove (i - 1) Down a = Some b \<and> auto_array b = Some xs"
proof -
  define ys where "ys = xs[i := xs ! (i - 1), i - 1 := xs ! i]"
  have i: "i < length xs" "0 < i" using assms by auto
  have m: "mset ys = mset xs"
  proof -
    have "ys = xs[i := xs ! (i - 1), i - 1 := xs ! i]" by (rule ys_def)
    also have "mset \<dots> = mset xs" using i by (intro mset_swap) auto
    finally show ?thesis .
  qed
  have "set ys = set xs" using m by (metis set_mset_mset)
  then have w: "wf_json (JArr ys)" using assms(2) by simp
  have undo: "ys[i - 1 := ys ! i, i := ys ! (i - 1)] = xs"
    using i by (auto simp: ys_def nth_list_update list_eq_iff_nth_eq)
  have a: "handleAutoGroupMove i Up st = Some (st\<lparr>autoGroups := stringify2 (JArr ys)\<rparr>)"
    using i assms(1) by (simp add: handleAutoGroupMove_def Let_def ys_def nat_diff_distrib)
  have b: "handleAutoGroupMove (i - 1) Down (st\<lparr>autoGroups := stringify2 (JArr ys)\<rparr>)
      = Some (st\<lparr>autoGroups := stringify2 (JArr xs)\<rparr>)"
    using i auto_array_stringify2 [OF w, of st] undo by (simp add: handleAutoGroupMove_def Let_def ys_def)
  show ?thesis
    using a b m auto_array_stringify2 [OF w, of st] auto_array_stringify2 [OF assms(2), of st] unfolding ys_def by blast
qed

subsection \<open>Witnesses\<close>

definition vip_map :: "json obj" where
  "vip_map = [(''default'', JNum (Dec 1 0)), (''vip'', JNum (Dec 5 (-1)))]"

definition vip_page :: GroupEditor where
  "vip_page = openGroupEditor (stringify2 (JObj vip_map)) [] [] [] []"

definition vip_row :: SimpleGroup where
  "vip_row = \<lparr>gname = ''vip'', gvalue = ''0.5''\<rparr>"

lemma wf_vip: "wf_json (JObj vip_map)"
  by (rule wf_obj) (auto simp: vip_map_def is_digit_def wf_num_def)

lemma vip_text: "simpleField SimpleRatio vip_page = stringify2 (JObj vip_map)"
  by (simp add: simpleField_def vip_page_def openGroupEditor_def)

lemma vip_read: "read_map (simpleField SimpleRatio vip_page) = JObj vip_map"
  unfolding vip_text by (rule read_stringify2(1) [OF wf_vip])

lemma vip_closed: "closed vip_page"
  by (simp add: closed_def vip_page_def openGroupEditor_def)

lemma vip_list: "simpleList (simpleField SimpleRatio vip_page)
  = Some [\<lparr>gname = ''default'', gvalue = ''1''\<rparr>, vip_row]"
proof -
  have "own_entries vip_map = vip_map" using wf_vip by simp
  moreover have "show_num (Dec 1 0) = ''1''" "show_num (Dec 5 (-1)) = ''0.5''" by code_simp+
  ultimately show ?thesis
    unfolding simpleList_def vip_read by (simp add: object_entries_def) (simp add: vip_map_def vip_row_def)
qed

lemma vip_inputs: "trim ''pro'' = ''pro''" "trim ''2'' = ''2''" "parseFloat ''2'' \<noteq> NaN" "\<not> is_index ''pro''"
  by code_simp+

lemma editing_never_saves_witness:
  "editor_step SimpleSave (handleSimpleEdit SimpleRatio vip_row vip_page) = Some (handleSimpleEdit SimpleRatio vip_row vip_page)"
proof -
  have "editor_reach no_cancel vip_page"
    unfolding vip_page_def by (rule editor_reach.opened)
  then have r: "editor_reach no_cancel (handleSimpleEdit SimpleRatio vip_row vip_page)"
  proof (rule editor_reach.event)
    show "no_cancel (SimpleEdit SimpleRatio vip_row)" by (simp add: no_cancel_def)
    show "offered vip_page (SimpleEdit SimpleRatio vip_row)" by (simp add: vip_closed vip_list listed_def)
    show "editor_step (SimpleEdit SimpleRatio vip_row) vip_page = Some (handleSimpleEdit SimpleRatio vip_row vip_page)"
      by simp
  qed
  show ?thesis
    using editing_never_saves [OF r] by (simp add: handleSimpleEdit_def)
qed

lemma cancelled_add_replaces_edited_witness:
  "\<exists>st'. editor_run [SimpleAdd SimpleRatio, SimpleName ''pro'', SimpleValue ''2'', SimpleCancel,
       SimpleEdit SimpleRatio vip_row, SimpleSave] vip_page = Some st'
    \<and> simpleField SimpleRatio st' = stringify2 (JObj [(''default'', JNum (Dec 1 0)), (''pro'', JNum (Dec 2 0))])"
proof -
  have l: "listed (simpleList (simpleField SimpleRatio vip_page)) vip_row" by (simp add: vip_list listed_def)
  have n: "trim ''pro'' \<noteq> []" "trim ''pro'' \<noteq> gname vip_row" "trim ''2'' \<noteq> []"
    by (simp_all add: vip_inputs vip_row_def)
  have p: "float_json (parseFloat ''2'') = JNum (Dec 2 0)" by code_simp
  have "assign ''pro'' (JNum (Dec 2 0)) (odel (gname vip_row) vip_map) = [(''default'', JNum (Dec 1 0)), (''pro'', JNum (Dec 2 0))]"
    by (simp add: vip_row_def vip_map_def odel_def assign_def)
  then show ?thesis
    using cancelled_add_replaces_edited [OF vip_closed vip_read l n vip_inputs(3)]
    unfolding vip_inputs(1,2) p by simp
qed

lemma simple_entries_refine_map_witness:
  "\<exists>d. editor_run [SimpleRemove SimpleRatio ''vip''] vip_page = Some d
    \<and> meaning (simpleField SimpleRatio d) = Some ((oget vip_map)(''vip'' := None))"
proof -
  have s: "stored_map (simpleField SimpleRatio vip_page)"
    unfolding stored_map_def using vip_read wf_vip by blast
  have l: "listed (map_option (map gname) (simpleList (simpleField SimpleRatio vip_page))) ''vip''"
    by (simp add: vip_list listed_def vip_row_def)
  have n: "trim ''pro'' \<noteq> []" "\<not> is_index (trim ''pro'')" "trim ''pro'' \<noteq> ''__proto__''" "trim ''2'' \<noteq> []"
    by (simp_all add: vip_inputs)
  have m: "meaning (simpleField SimpleRatio vip_page) = Some (oget vip_map)" by (simp add: meaning_def vip_read)
  show ?thesis
    using simple_entries_refine_map [OF vip_closed s n vip_inputs(3) l] unfolding m by (auto simp del: editor_run.simps)
qed

end
