(* ===== verification/RatioSettings.thy ===== *)
theory RatioSettings
  imports OptionStore SettingsJson
begin

text \<open>
  The pricing card (\<^verbatim>\<open>features/system-settings/models/ratio-settings-card.tsx\<close>): the two forms of JSON texts, their
  schemas, and the saves, which send the options whose normal form changed, one after the other. The page's
  defaults come from the server; a form is reset whenever they change.
\<close>

subsection \<open>The forms\<close>

text \<open>The fields in the order in which a save goes through them. All but two are JSON texts.\<close>

definition MODEL_FIELDS :: "string list" where
  "MODEL_FIELDS =
     [''ModelPrice'', ''ModelRatio'', ''CacheRatio'', ''CreateCacheRatio'', ''CompletionRatio'', ''ImageRatio'',
      ''AudioRatio'', ''AudioCompletionRatio'', ''ExposeRatioEnabled'', ''BillingMode'', ''BillingExpr'']"

definition GROUP_FIELDS :: "string list" where
  "GROUP_FIELDS =
     [''GroupRatio'', ''TopupGroupRatio'', ''UserUsableGroups'', ''GroupGroupRatio'', ''AutoGroups'',
      ''DefaultUseAutoGroup'', ''GroupSpecialUsableGroup'']"

datatype Value = Txt string | Flag bool

type_synonym Values = "string \<Rightarrow> Value"

fun normalized :: "Value \<Rightarrow> Value" where
  "normalized (Txt s) = Txt (normalizeJsonString s)"
| "normalized (Flag b) = Flag b"

fun formatted :: "Value \<Rightarrow> Value" where
  "formatted (Txt s) = Txt (formatJsonForTextarea s)"
| "formatted (Flag b) = Flag b"

fun value_json :: "Value \<Rightarrow> json" where
  "value_json (Txt s) = JStr s"
| "value_json (Flag b) = JBool b"

text \<open>The card: for each form the normalised defaults (a ref) and the values shown.\<close>

record RatioCard =
  modelNormalizedDefaults :: Values
  modelValues :: Values
  groupNormalizedDefaults :: Values
  groupValues :: Values
  confirmOpen :: bool

definition openRatioCard :: "Values \<Rightarrow> Values \<Rightarrow> RatioCard" where
  "openRatioCard modelDefaults groupDefaults =
     \<lparr>modelNormalizedDefaults = (\<lambda>k. normalized (modelDefaults k)), modelValues = (\<lambda>k. formatted (modelDefaults k)),
      groupNormalizedDefaults = (\<lambda>k. normalized (groupDefaults k)), groupValues = (\<lambda>k. formatted (groupDefaults k)),
      confirmOpen = False\<rparr>"

definition modelDefaultsChanged :: "Values \<Rightarrow> RatioCard \<Rightarrow> RatioCard" where
  "modelDefaultsChanged modelDefaults st =
     st\<lparr>modelNormalizedDefaults := (\<lambda>k. normalized (modelDefaults k)), modelValues := (\<lambda>k. formatted (modelDefaults k))\<rparr>"

definition groupDefaultsChanged :: "Values \<Rightarrow> RatioCard \<Rightarrow> RatioCard" where
  "groupDefaultsChanged groupDefaults st =
     st\<lparr>groupNormalizedDefaults := (\<lambda>k. normalized (groupDefaults k)), groupValues := (\<lambda>k. formatted (groupDefaults k))\<rparr>"

subsection \<open>Schemas\<close>

text \<open>The options of the check and the message when the check has none.\<close>

definition groupOptions :: "string \<Rightarrow> JsonValidationOptions \<times> string" where
  "groupOptions k =
     (if k = ''AutoGroups''
      then (\<lparr>allowEmpty = True, predicate = Some isStringArray,
             predicateMessage = Some ''Expected a JSON array of group identifiers''\<rparr>, ''Invalid JSON array'')
      else (default_options, ''Invalid JSON''))"

definition modelOptions :: "string \<Rightarrow> JsonValidationOptions \<times> string" where
  "modelOptions k = (default_options, ''Invalid JSON'')"

definition field_issue ::
  "(string \<Rightarrow> string) \<Rightarrow> JsonValidationOptions \<times> string \<Rightarrow> Value \<Rightarrow> string option" where
  "field_issue syntax_error o_msg v =
     (case v of
        Flag b \<Rightarrow> None
      | Txt s \<Rightarrow> map_option (\<lambda>m. if m \<noteq> [] then m else snd o_msg) (validateJsonString syntax_error (fst o_msg) s))"

definition form_issues ::
  "(string \<Rightarrow> string) \<Rightarrow> (string \<Rightarrow> JsonValidationOptions \<times> string) \<Rightarrow> string list \<Rightarrow> Values \<Rightarrow> (string \<times> string) list" where
  "form_issues syntax_error opts ks vs =
     List.map_filter (\<lambda>k. map_option (Pair k) (field_issue syntax_error (opts k) (vs k))) ks"

subsection \<open>Saving\<close>

text \<open>The names of the options on the server.\<close>

definition modelApiKey :: "string \<Rightarrow> string" where
  "modelApiKey k =
     (if k = ''BillingMode'' then ''billing_setting.billing_mode''
      else if k = ''BillingExpr'' then ''billing_setting.billing_expr'' else k)"

definition groupApiKey :: "string \<Rightarrow> string" where
  "groupApiKey k =
     (if k = ''GroupSpecialUsableGroup'' then ''group_ratio_setting.group_special_usable_group'' else k)"

text \<open>
  The loop awaits each request; a rejected one ends it. \<open>net\<close> is what the network answers to the \<open>n\<close>-th request.
\<close>

fun send_updates :: "(nat \<Rightarrow> Request \<Rightarrow> Outcome) \<Rightarrow> (string \<times> json) list \<Rightarrow> App \<Rightarrow> App" where
  "send_updates net [] app = app"
| "send_updates net ((key, v) # us) app =
     (let r = updateSystemOption key v; out = net (length (sent app)) r;
          app1 = mutation_settled key out (app\<lparr>sent := sent app @ [r]\<rparr>)
      in case out of Reply _ \<Rightarrow> send_updates net us app1 | Rejected _ \<Rightarrow> app1)"

definition updates :: "(string \<Rightarrow> string) \<Rightarrow> string list \<Rightarrow> Values \<Rightarrow> Values \<Rightarrow> (string \<times> json) list" where
  "updates apiKey ks defaults vs =
     map (\<lambda>k. (apiKey k, value_json (normalized (vs k)))) (filter (\<lambda>k. normalized (vs k) \<noteq> defaults k) ks)"

definition saveModelRatios :: "(nat \<Rightarrow> Request \<Rightarrow> Outcome) \<Rightarrow> RatioCard \<Rightarrow> App \<Rightarrow> App" where
  "saveModelRatios net st app =
     send_updates net (updates modelApiKey MODEL_FIELDS (modelNormalizedDefaults st) (modelValues st)) app"

definition saveGroupRatios :: "(nat \<Rightarrow> Request \<Rightarrow> Outcome) \<Rightarrow> RatioCard \<Rightarrow> App \<Rightarrow> App" where
  "saveGroupRatios net st app =
     send_updates net (updates groupApiKey GROUP_FIELDS (groupNormalizedDefaults st) (groupValues st)) app"

text \<open>The forms call them on valid values.\<close>

definition submitModels :: "(string \<Rightarrow> string) \<Rightarrow> (nat \<Rightarrow> Request \<Rightarrow> Outcome) \<Rightarrow> RatioCard \<Rightarrow> App \<Rightarrow> App" where
  "submitModels syntax_error net st app =
     (if form_issues syntax_error modelOptions MODEL_FIELDS (modelValues st) = [] then saveModelRatios net st app else app)"

definition submitGroups :: "(string \<Rightarrow> string) \<Rightarrow> (nat \<Rightarrow> Request \<Rightarrow> Outcome) \<Rightarrow> RatioCard \<Rightarrow> App \<Rightarrow> App" where
  "submitGroups syntax_error net st app =
     (if form_issues syntax_error groupOptions GROUP_FIELDS (groupValues st) = [] then saveGroupRatios net st app else app)"

text \<open>Resetting the model ratios.\<close>

definition handleResetRatios :: "RatioCard \<Rightarrow> RatioCard" where
  "handleResetRatios st = st\<lparr>confirmOpen := True\<rparr>"

definition resetModelRatios :: Request where
  "resetModelRatios = \<lparr>verb = ''POST'', url = ''/api/option/rest_model_ratio'', payload = None, config = no_config\<rparr>"

definition handleConfirmReset :: "(nat \<Rightarrow> Request \<Rightarrow> Outcome) \<Rightarrow> RatioCard \<Rightarrow> App \<Rightarrow> RatioCard \<times> App" where
  "handleConfirmReset net st app =
     (case request net resetModelRatios app of
        (Reply b, app1) \<Rightarrow>
          if success b = Some True
          then (st\<lparr>confirmOpen := False\<rparr>,
                (toast (Success (Tr ''Model ratios reset successfully'' [])) app1)\<lparr>stale := stale app1 @ [[''system-options'']]\<rparr>)
          else (st, toast (Error (or_text (message b) (Tr ''Failed to reset model ratios'' []))) app1)
      | (Rejected e, app1) \<Rightarrow>
          (st, toast (Error (or_text (Some (err_message e)) (Tr ''Failed to reset model ratios'' []))) app1))"

subsection \<open>What a save sends\<close>

text \<open>The prefix of a list of requests up to the first that is rejected.\<close>

fun until_rejected :: "(nat \<Rightarrow> Request \<Rightarrow> Outcome) \<Rightarrow> nat \<Rightarrow> Request list \<Rightarrow> Request list" where
  "until_rejected net n [] = []"
| "until_rejected net n (r # rs) =
     r # (case net n r of Reply _ \<Rightarrow> until_rejected net (Suc n) rs | Rejected _ \<Rightarrow> [])"

lemma sent_mutation_settled [simp]: "sent (mutation_settled k out app) = sent app"
  by (simp add: mutation_settled_def onSuccess_def onError_def settle_def on_response_def on_error_def toast_def
    split: Outcome.split)

lemma sent_send_updates:
  "sent (send_updates net us app)
   = sent app @ until_rejected net (length (sent app)) (map (\<lambda>(k, v). updateSystemOption k v) us)"
proof (induction net us app rule: send_updates.induct)
  case (1 net app)
  then show ?case by simp
next
  case (2 net key v us app)
  define r where "r = updateSystemOption key v"
  define out where "out = net (length (sent app)) r"
  define app1 where "app1 = mutation_settled key out (app\<lparr>sent := sent app @ [r]\<rparr>)"
  have s: "sent app1 = sent app @ [r]" by (simp add: app1_def)
  show ?case
  proof (cases out)
    case (Reply b)
    then have "sent (send_updates net us app1)
        = sent app1 @ until_rejected net (length (sent app1)) (map (\<lambda>(k, v). updateSystemOption k v) us)"
      using 2 by (simp add: r_def out_def app1_def)
    moreover have "send_updates net ((key, v) # us) app = send_updates net us app1"
      using Reply unfolding app1_def out_def r_def by (simp add: Let_def)
    moreover have "net (length (sent app)) r = Reply b" using Reply by (simp add: out_def)
    ultimately show ?thesis using s by (simp add: r_def)
  next
    case (Rejected e)
    then have "send_updates net ((key, v) # us) app = app1" "net (length (sent app)) r = Rejected e"
      unfolding app1_def out_def r_def by (simp_all add: Let_def)
    then show ?thesis using s by (simp add: r_def)
  qed
qed

text \<open>What a field says: a text its JSON value, a switch its position.\<close>

datatype Meaning = Says content | Is bool

fun meaning_of :: "Value \<Rightarrow> Meaning" where
  "meaning_of (Txt s) = Says (content_of s)"
| "meaning_of (Flag b) = Is b"

lemma normalized_eq_iff: "normalized u = normalized v \<longleftrightarrow> meaning_of u = meaning_of v"
  by (cases u; cases v) (simp_all add: normalize_eq_iff)

text \<open>What the server holds is trimmed text.\<close>

definition plain_defaults :: "Values \<Rightarrow> bool" where
  "plain_defaults d \<longleftrightarrow> (\<forall>k. case d k of Txt s \<Rightarrow> trimmed s | Flag b \<Rightarrow> True)"

lemma normalized_formatted: "plain_defaults d \<Longrightarrow> normalized (formatted (d k)) = normalized (d k)"
  by (cases "d k") (auto simp: plain_defaults_def normalize_format dest: spec [of _ k])

text \<open>
  C34: a valid form sends exactly the options whose value differs from the server's, in the order of the fields, one
  after the other up to the first request that fails; formatting and white space make no difference, and an
  untouched form sends nothing.
\<close>

theorem save_sends_changed_values:
  assumes "plain_defaults d"
  shows "sent (submitModels syntax_error net (st\<lparr>modelNormalizedDefaults := (\<lambda>k. normalized (d k))\<rparr>) app)
      = sent app @
        (if form_issues syntax_error modelOptions MODEL_FIELDS (modelValues st) = []
         then until_rejected net (length (sent app))
                (map (\<lambda>k. updateSystemOption (modelApiKey k) (value_json (normalized (modelValues st k))))
                  (filter (\<lambda>k. meaning_of (modelValues st k) \<noteq> meaning_of (d k)) MODEL_FIELDS))
         else [])
    \<and> (\<forall>k. meaning_of (modelValues (openRatioCard d g) k) = meaning_of (d k))
    \<and> submitModels syntax_error net (openRatioCard d g) app = app"
proof -
  have f: "meaning_of (formatted (d k)) = meaning_of (d k)" for k
    using normalized_formatted [OF assms, of k] by (simp add: normalized_eq_iff)
  have "updates modelApiKey MODEL_FIELDS (\<lambda>k. normalized (d k)) (\<lambda>k. formatted (d k)) = []"
    by (simp add: updates_def normalized_formatted [OF assms] filter_empty_conv)
  then have "submitModels syntax_error net (openRatioCard d g) app = app"
    by (simp add: submitModels_def saveModelRatios_def openRatioCard_def)
  moreover have "\<forall>k. meaning_of (modelValues (openRatioCard d g) k) = meaning_of (d k)"
    by (simp add: openRatioCard_def f)
  ultimately show ?thesis
    by (simp add: submitModels_def saveModelRatios_def sent_send_updates updates_def normalized_eq_iff comp_def)
qed

definition sample_defaults :: Values where
  "sample_defaults k = (if k = ''ExposeRatioEnabled'' then Flag False else Txt (stringify (JObj [])))"

lemma save_sends_changed_values_witness:
  "submitModels (\<lambda>s. s) (\<lambda>n r. Rejected \<lparr>status = None, server_message = None, err_message = []\<rparr>)
     (openRatioCard sample_defaults sample_defaults)
     \<lparr>sent = [], toasts = [], stale = [], calls = [], logged_in = True\<rparr>
   = \<lparr>sent = [], toasts = [], stale = [], calls = [], logged_in = True\<rparr>"
proof -
  have "plain_defaults sample_defaults"
    unfolding plain_defaults_def sample_defaults_def using trimmed_stringify [of "JObj []"] by simp
  then show ?thesis using save_sends_changed_values by blast
qed

text \<open>The same for the group options.\<close>

lemma group_save_sends:
  "sent (submitGroups syntax_error net (st\<lparr>groupNormalizedDefaults := (\<lambda>k. normalized (d k))\<rparr>) app)
      = sent app @
        (if form_issues syntax_error groupOptions GROUP_FIELDS (groupValues st) = []
         then until_rejected net (length (sent app))
                (map (\<lambda>k. updateSystemOption (groupApiKey k) (value_json (normalized (groupValues st k))))
                  (filter (\<lambda>k. meaning_of (groupValues st k) \<noteq> meaning_of (d k)) GROUP_FIELDS))
         else [])"
  by (simp add: submitGroups_def saveGroupRatios_def sent_send_updates updates_def normalized_eq_iff comp_def)

end
