(* ===== verification/ModelRatios.thy ===== *)
theory ModelRatios
  imports SettingsJson BillingExpr
begin

text \<open>
  The visual editor of model prices (\<^verbatim>\<open>features/system-settings/models/model-ratio-visual-editor.tsx\<close>) and its dialog
  (\<^verbatim>\<open>models/model-ratio-dialog.tsx\<close>). Ten JSON texts of the form, each a dictionary from model names, are shown
  as one table; a save rewrites a model's entry in all of them. A form is a function from field names to texts. Texts that
  hold no object, and model names that every object inherits (\<open>constructor\<close> and the like), are outside the model.
\<close>

subsection \<open>The table\<close>

definition RATIO_FIELDS :: "string list" where
  "RATIO_FIELDS =
     [''ModelPrice'', ''ModelRatio'', ''CacheRatio'', ''CreateCacheRatio'', ''CompletionRatio'', ''ImageRatio'',
      ''AudioRatio'', ''AudioCompletionRatio'']"

definition EDITOR_FIELDS :: "string list" where
  "EDITOR_FIELDS = RATIO_FIELDS @ [''BillingMode'', ''BillingExpr'']"

type_synonym Texts = "string \<Rightarrow> string"

type_synonym Dicts = "string \<Rightarrow> json obj"

fun dict_of :: "json \<Rightarrow> json obj option" where
  "dict_of (JObj ob) = Some ob"
| "dict_of _ = None"

definition dicts :: "Texts \<Rightarrow> Dicts option" where
  "dicts f =
     (let d = (\<lambda>k. dict_of (safeJsonParse (f k) (Some (JObj []))))
      in if list_all (\<lambda>k. d k \<noteq> None) EDITOR_FIELDS then Some (\<lambda>k. case d k of Some ob \<Rightarrow> ob | None \<Rightarrow> []) else None)"

datatype PricingMode = PerToken | PerRequest | TieredExpr

text \<open>What the dialog edits: \<open>rvalues\<close> has the eight prices and ratios as texts, by field.\<close>

record ModelRatioData =
  rname :: string
  rvalues :: Texts
  rmode :: PricingMode
  rexpr :: string
  rrules :: string

record ModelRow = ModelRatioData +
  hasConflict :: bool

text \<open>\<open>map[name]?.toString() || ''\<close>.\<close>

definition entry_text :: "Dicts \<Rightarrow> string \<Rightarrow> string \<Rightarrow> string" where
  "entry_text d name k =
     (case oget (d k) name of Some v \<Rightarrow> if v = JNull then [] else js_String v | None \<Rightarrow> [])"

definition is_tiered :: "Dicts \<Rightarrow> string \<Rightarrow> bool" where
  "is_tiered d name \<longleftrightarrow> oget (d ''BillingMode'') name = Some (JStr ''tiered_expr'')"

text \<open>One row. \<open>None\<close>: the expression of a tiered model is no text, or its splitter throws.\<close>

definition model_row :: "Dicts \<Rightarrow> string \<Rightarrow> ModelRow option" where
  "model_row d name =
     (let vals = (\<lambda>k. if k \<in> set RATIO_FIELDS then entry_text d name k else [])
      in if is_tiered d name
         then (case (case oget (d ''BillingExpr'') name of
                       Some (JStr s) \<Rightarrow> Some s
                     | Some v \<Rightarrow> if jtruthy v then None else Some []
                     | None \<Rightarrow> Some []) of
                 None \<Rightarrow> None
               | Some fullExpr \<Rightarrow>
                   (case splitBillingExprAndRequestRules fullExpr of
                      Match sp \<Rightarrow>
                        Some \<lparr>rname = name, rvalues = vals, rmode = TieredExpr, rexpr = billingExpr sp,
                              rrules = requestRuleExpr sp, hasConflict = False\<rparr>
                    | _ \<Rightarrow> None))
         else Some \<lparr>rname = name, rvalues = vals,
                    rmode = (if vals ''ModelPrice'' \<noteq> [] then PerRequest else PerToken), rexpr = [], rrules = [],
                    hasConflict = (vals ''ModelPrice'' \<noteq> [] \<and> (\<exists>k \<in> set (tl RATIO_FIELDS). vals k \<noteq> []))\<rparr>)"

definition model_names :: "Dicts \<Rightarrow> string list" where
  "model_names d = uniq (concat (map (\<lambda>k. map fst (own_entries (d k))) EDITOR_FIELDS))"

fun all_rows :: "Dicts \<Rightarrow> string list \<Rightarrow> ModelRow list option" where
  "all_rows d [] = Some []"
| "all_rows d (n # ns) =
     (case model_row d n of None \<Rightarrow> None | Some r \<Rightarrow> map_option (Cons r) (all_rows d ns))"

definition models :: "(string \<Rightarrow> string \<Rightarrow> int) \<Rightarrow> Texts \<Rightarrow> ModelRow list option" where
  "models localeCompare f =
     Option.bind (dicts f)
       (\<lambda>d. map_option (sort_by (\<lambda>a b. localeCompare (rname a) (rname b))) (all_rows d (model_names d)))"

subsection \<open>Deleting and saving\<close>

definition write_dicts :: "Dicts \<Rightarrow> Texts \<Rightarrow> Texts" where
  "write_dicts d f = (\<lambda>k. if k \<in> set EDITOR_FIELDS then stringify2 (JObj (d k)) else f k)"

definition handleDelete :: "string \<Rightarrow> Texts \<Rightarrow> Texts option" where
  "handleDelete name f = map_option (\<lambda>d. write_dicts (\<lambda>k. odel name (d k)) f) (dicts f)"

definition setIfPresent :: "string \<Rightarrow> string \<Rightarrow> json obj \<Rightarrow> json obj" where
  "setIfPresent name value target =
     (if value = [] then target
      else (case parseFloat value of Finite x \<Rightarrow> assign name (JNum x) target | _ \<Rightarrow> target))"

definition saved_dicts :: "ModelRatioData \<Rightarrow> Dicts \<Rightarrow> Dicts" where
  "saved_dicts x d =
     (let name = rname x; d0 = (\<lambda>k. odel name (d k));
          put = (\<lambda>ks k. if k \<in> set ks then setIfPresent name (rvalues x k) (d0 k) else d0 k)
      in case rmode x of
           TieredExpr \<Rightarrow>
             (let combined = combineBillingExpr (rexpr x) (rrules x); d1 = put RATIO_FIELDS
              in if combined \<noteq> []
                 then d1(''BillingMode'' := assign name (JStr ''tiered_expr'') (d1 ''BillingMode''),
                         ''BillingExpr'' := assign name (JStr combined) (d1 ''BillingExpr''))
                 else d1)
         | _ \<Rightarrow> if rvalues x ''ModelPrice'' \<noteq> [] then put [''ModelPrice''] else put (tl RATIO_FIELDS))"

definition handleSave :: "ModelRatioData \<Rightarrow> Texts \<Rightarrow> Texts option" where
  "handleSave x f = map_option (\<lambda>d. write_dicts (saved_dicts x d) f) (dicts f)"

definition handleEdit :: "ModelRow \<Rightarrow> ModelRatioData" where
  "handleEdit row =
     \<lparr>rname = rname row, rvalues = rvalues row,
      rmode = (if rmode row = TieredExpr then TieredExpr else if rvalues row ''ModelPrice'' \<noteq> [] then PerRequest else PerToken),
      rexpr = rexpr row, rrules = rrules row\<rparr>"

subsection \<open>The dialog\<close>

text \<open>The form's fields, the chosen mode, the two expressions and the input of the price mode.\<close>

record ModelDialog =
  editData :: "ModelRatioData option"
  fname :: string
  fvalues :: Texts
  pricingMode :: PricingMode
  subPrice :: bool
  promptPrice :: string
  dexpr :: string
  drules :: string

text \<open>\<open>parseFloat(s) * 2\<close> and \<open>parseFloat(s) / 2\<close>, printed.\<close>

fun show_float :: "jsfloat \<Rightarrow> string" where
  "show_float NaN = ''NaN''"
| "show_float (Infinite neg) = (if neg then ''-Infinity'' else ''Infinity'')"
| "show_float (Finite x) = show_num x"

fun double :: "jsfloat \<Rightarrow> jsfloat" where
  "double (Finite x) = Finite (canon (2 * mant x) (expo x))"
| "double f = f"

fun half :: "jsfloat \<Rightarrow> jsfloat" where
  "half (Finite x) = Finite (canon (5 * mant x) (expo x - 1))"
| "half f = f"

text \<open>The effect that runs when the dialog opens or closes, or gets another model.\<close>

definition loadDialog :: "ModelDialog \<Rightarrow> ModelDialog" where
  "loadDialog dl =
     (case editData dl of
        Some x \<Rightarrow>
          (let dl1 = dl\<lparr>fname := rname x, fvalues := rvalues x, dexpr := rexpr x, drules := rrules x\<rparr>
           in if rmode x = TieredExpr then dl1\<lparr>pricingMode := TieredExpr\<rparr>
              else if rvalues x ''ModelPrice'' \<noteq> [] then dl1\<lparr>pricingMode := PerRequest\<rparr>
              else (let dl2 = dl1\<lparr>pricingMode := PerToken\<rparr>
                    in if rvalues x ''ModelRatio'' \<noteq> []
                       then dl2\<lparr>promptPrice := show_float (double (parseFloat (rvalues x ''ModelRatio'')))\<rparr> else dl2))
      | None \<Rightarrow>
          dl\<lparr>fname := [], fvalues := (\<lambda>_. []), pricingMode := PerToken, subPrice := False, promptPrice := [], dexpr := [],
             drules := []\<rparr>)"

definition validateNumber :: "string \<Rightarrow> bool" where
  "validateNumber s \<longleftrightarrow> s = [] \<or> parseFloat s \<noteq> NaN"

text \<open>Typing into a number field; the ratio also moves the price shown.\<close>

definition typeValue :: "string \<Rightarrow> string \<Rightarrow> ModelDialog \<Rightarrow> ModelDialog" where
  "typeValue k s dl =
     (if \<not> validateNumber s then dl
      else (let dl1 = dl\<lparr>fvalues := (fvalues dl)(k := s)\<rparr>
            in if k = ''ModelRatio''
               then dl1\<lparr>promptPrice := (if s \<noteq> [] then show_float (double (parseFloat s)) else [])\<rparr> else dl1))"

definition handlePromptPriceChange :: "string \<Rightarrow> ModelDialog \<Rightarrow> ModelDialog" where
  "handlePromptPriceChange s dl =
     dl\<lparr>promptPrice := s,
        fvalues := (fvalues dl)(''ModelRatio'' :=
          (if s \<noteq> [] \<and> parseFloat s \<noteq> NaN then show_float (half (parseFloat s)) else []))\<rparr>"

definition chooseMode :: "PricingMode \<Rightarrow> ModelDialog \<Rightarrow> ModelDialog" where
  "chooseMode m dl = dl\<lparr>pricingMode := m\<rparr>"

definition handleSubmit :: "ModelDialog \<Rightarrow> ModelRatioData" where
  "handleSubmit dl =
     \<lparr>rname = fname dl, rvalues = fvalues dl, rmode = pricingMode dl,
      rexpr = (if pricingMode dl = TieredExpr then dexpr dl else []),
      rrules = (if pricingMode dl = TieredExpr then drules dl else [])\<rparr>"

text \<open>The edit button of a row, up to the open dialog.\<close>

definition editRow :: "ModelRow \<Rightarrow> ModelDialog \<Rightarrow> ModelDialog" where
  "editRow row dl = loadDialog (dl\<lparr>editData := Some (handleEdit row)\<rparr>)"

subsection \<open>Entries after a save\<close>

definition num_entry :: "string \<Rightarrow> json option" where
  "num_entry s = (if s = [] then None else (case parseFloat s of Finite x \<Rightarrow> Some (JNum x) | _ \<Rightarrow> None))"

text \<open>The entry of the saved model in each dictionary.\<close>

definition saved_entry :: "ModelRatioData \<Rightarrow> string \<Rightarrow> json option" where
  "saved_entry x k =
     (case rmode x of
        TieredExpr \<Rightarrow>
          (let combined = combineBillingExpr (rexpr x) (rrules x)
           in if k \<in> set RATIO_FIELDS then num_entry (rvalues x k)
              else if combined = [] then None
              else if k = ''BillingMode'' then Some (JStr ''tiered_expr'') else Some (JStr combined))
      | _ \<Rightarrow>
          if rvalues x ''ModelPrice'' \<noteq> [] then (if k = ''ModelPrice'' then num_entry (rvalues x k) else None)
          else (if k \<in> set (tl RATIO_FIELDS) then num_entry (rvalues x k) else None))"

lemma oget_setIfPresent:
  "n \<noteq> ''__proto__'' \<Longrightarrow> oget (setIfPresent n s (odel n ob)) m = (if m = n then num_entry s else oget ob m)"
  by (auto simp: setIfPresent_def num_entry_def assign_oput split: jsfloat.split)

lemma oget_saved:
  assumes "rname x \<noteq> ''__proto__''" "k \<in> set EDITOR_FIELDS"
  shows "oget (saved_dicts x d k) m = (if m = rname x then saved_entry x k else oget (d k) m)"
proof -
  have m1: "''BillingMode'' \<notin> set RATIO_FIELDS" "''BillingExpr'' \<notin> set RATIO_FIELDS" by (simp_all add: RATIO_FIELDS_def)
  have k: "k \<in> set RATIO_FIELDS \<or> k = ''BillingMode'' \<or> k = ''BillingExpr''"
    using assms(2) by (auto simp: EDITOR_FIELDS_def)
  show ?thesis
  proof (cases "rmode x = TieredExpr")
    case True
    then show ?thesis using assms(1) k m1
      by (auto simp: saved_dicts_def saved_entry_def Let_def oget_setIfPresent assign_oput)
  next
    case False
    then have c: "(case rmode x of TieredExpr \<Rightarrow> a | _ \<Rightarrow> b) = b" for a b :: "'z" by (cases "rmode x") auto
    show ?thesis using assms(1)
      by (simp add: saved_dicts_def saved_entry_def Let_def c oget_setIfPresent)
  qed
qed

lemma wf_setIfPresent:
  assumes "wf_json (JObj ob)" "\<not> is_index n" "n \<noteq> ''__proto__''"
  shows "wf_json (JObj (setIfPresent n s ob))"
proof (cases "parseFloat s")
  case (Finite x)
  have "wf_json (JNum x)" using wf_parseFloat [of s] Finite by simp
  then show ?thesis using assms Finite wf_json_oput [of ob n "JNum x"] by (simp add: setIfPresent_def assign_oput del: wf_json.simps)
qed (use assms in \<open>simp_all add: setIfPresent_def del: wf_json.simps\<close>)

lemma own_entries_odel_all: "own_entries (odel k ob) = odel k (own_entries ob)"
  unfolding own_entries_def odel_def by (simp add: filter_sort filter_filter conj_commute)

lemma wf_odel_all: "wf_json (JObj ob) \<Longrightarrow> wf_json (JObj (odel k ob))"
  using own_entries_odel_all [of k ob] owf_odel [of ob k] by (auto simp: odel_def)

lemma wf_saved:
  assumes "wf_json (JObj (d k))" "\<not> is_index (rname x)" "rname x \<noteq> ''__proto__''"
  shows "wf_json (JObj (saved_dicts x d k))"
proof -
  have del: "wf_json (JObj (odel (rname x) (d k)))" by (rule wf_odel_all [OF assms(1)])
  have put: "wf_json (JObj (setIfPresent (rname x) s (odel (rname x) (d k))))" for s
    by (rule wf_setIfPresent [OF del assms(2,3)])
  have str: "wf_json (JObj (assign (rname x) (JStr t) ob))" if "wf_json (JObj ob)" for t ob
    using wf_json_oput [OF that assms(2), of "JStr t"] assms(3) by (simp add: assign_oput del: wf_json.simps) (simp add: that)
  define P where "P = (\<lambda>ob. wf_json (JObj ob))"
  have "P (saved_dicts x d k)"
  proof (cases "rmode x = TieredExpr")
    case True
    have m: "''BillingMode'' \<notin> set RATIO_FIELDS" "''BillingExpr'' \<notin> set RATIO_FIELDS" by (simp_all add: RATIO_FIELDS_def)
    consider "k = ''BillingMode''" | "k = ''BillingExpr''" | "k \<noteq> ''BillingMode''" "k \<noteq> ''BillingExpr''" by blast
    then show ?thesis
      by cases (use True m del put str [OF del] in \<open>simp_all add: saved_dicts_def Let_def P_def del: wf_json.simps\<close>)
  next
    case False
    then have c: "(case rmode x of TieredExpr \<Rightarrow> a | _ \<Rightarrow> b) = b" for a b :: Dicts by (cases "rmode x") auto
    show ?thesis using del put
      by (cases "k = ''ModelPrice''") (simp_all add: saved_dicts_def Let_def c P_def del: wf_json.simps)
  qed
  then show ?thesis by (simp only: P_def)
qed

definition sound_dicts :: "Dicts \<Rightarrow> bool" where
  "sound_dicts d \<longleftrightarrow> (\<forall>k \<in> set EDITOR_FIELDS. wf_json (JObj (d k)))"

lemma dicts_write:
  assumes "sound_dicts d"
  shows "\<exists>d'. dicts (write_dicts d f) = Some d' \<and> (\<forall>k \<in> set EDITOR_FIELDS. d' k = d k)"
proof -
  have r: "safeJsonParse (write_dicts d f k) g = JObj (d k)" if "k \<in> set EDITOR_FIELDS" for k g
    using assms that read_stringify2(1) [of "d k" g] by (simp add: write_dicts_def sound_dicts_def del: wf_json.simps)
  then show ?thesis by (auto simp: dicts_def Let_def list_all_iff)
qed

text \<open>A save as an update of the ten finite maps.\<close>

lemma save_updates:
  assumes "dicts f = Some d" "sound_dicts d" "\<not> is_index (rname x)" "rname x \<noteq> ''__proto__''"
  shows "\<exists>f' d'. handleSave x f = Some f' \<and> dicts f' = Some d' \<and> sound_dicts d'
    \<and> (\<forall>k \<in> set EDITOR_FIELDS. \<forall>m. oget (d' k) m = (if m = rname x then saved_entry x k else oget (d k) m))"
proof -
  have "sound_dicts (saved_dicts x d)" using assms wf_saved [of d _ x] by (simp add: sound_dicts_def del: wf_json.simps)
  then obtain d' where d': "dicts (write_dicts (saved_dicts x d) f) = Some d'" "\<forall>k \<in> set EDITOR_FIELDS. d' k = saved_dicts x d k"
    "sound_dicts (saved_dicts x d)"
    using dicts_write by blast
  then have "sound_dicts d'" by (simp add: sound_dicts_def del: wf_json.simps)
  with d' show ?thesis
    using assms(1) oget_saved [OF assms(4)] by (simp add: handleSave_def)
qed

subsection \<open>Editing a row\<close>

text \<open>\<open>parseFloat\<close> reads a printed number back.\<close>

lemma parseFloat_of_num: "parse_num s = Some (x, r) \<Longrightarrow> parseFloat s = Finite x"
proof -
  assume p: "parse_num s = Some (x, r)"
  obtain neg u where u: "opt_minus s = (neg, u)" by (cases "opt_minus s") auto
  obtain ds t where t: "span_digits u = (ds, t)" by (cases "span_digits u") auto
  from p u t have ne: "ds \<noteq> []" by (auto simp: parse_num_def split: if_splits)
  then obtain c v where c: "u = c # v" "is_digit c"
    using t by (cases u) (auto simp: span_digits_def split: if_splits)
  have s: "s = (if neg then CHR ''-'' # u else u)"
    using u by (auto simp: opt_minus_def strip_prefix_Some split: option.splits)
  have nd: "\<not> is_ws c" "c \<noteq> CHR ''I''" "c \<noteq> CHR ''+''" using c(2) by (auto simp: is_digit_def is_ws_def)
  have w: "dropWhile is_ws s = s" using s c nd by (auto simp: is_ws_def)
  have o: "opt_sign s = (neg, u)" using s c nd u by (auto simp: opt_sign_def)
  have i: "strip_prefix ''Infinity'' u = None" using c nd by simp
  obtain fs q where fs: "parse_frac t = Some (fs, q)" using p u t ne
    by (cases "parse_frac t") (auto simp: parse_num_def split: if_splits)
  obtain e z where e: "parse_exp q = Some (e, z)" using p u t ne fs
    by (cases "parse_exp q") (auto simp: parse_num_def split: if_splits)
  have f: "(case strip_prefix ''.'' t of Some q \<Rightarrow> span_digits q | None \<Rightarrow> ([], t)) = (fs, q)"
    using fs by (auto simp: parse_frac_def split: option.splits prod.splits if_splits)
  have "x = canon (if neg then - int (read_nat (ds @ fs)) else int (read_nat (ds @ fs))) (e - int (length fs))"
    using p u t ne fs e by (auto simp: parse_num_def Let_def split: if_splits)
  then show ?thesis unfolding parseFloat_def w o i t prod.case f e
    by (simp add: ne i t f e Let_def)
qed

lemma parseFloat_show_num: "wf_num x \<Longrightarrow> parseFloat (show_num x) = Finite x"
  using parse_show_num [of x "[]"] by (intro parseFloat_of_num) simp

lemma show_num_ne [simp]: "show_num x \<noteq> []"
  using show_num_hd [of x] by auto

lemma num_entry_show: "wf_num x \<Longrightarrow> num_entry (show_num x) = Some (JNum x)"
  by (simp add: num_entry_def parseFloat_show_num)

lemma sound_num: "sound_dicts d \<Longrightarrow> k \<in> set EDITOR_FIELDS \<Longrightarrow> oget (d k) n = Some (JNum x) \<Longrightarrow> wf_num x"
proof -
  assume s: "sound_dicts d" "k \<in> set EDITOR_FIELDS" "oget (d k) n = Some (JNum x)"
  have "(n, JNum x) \<in> set (d k)" by (rule map_of_SomeD [OF s(3)])
  moreover have "\<forall>p \<in> set (d k). wf_json (snd p)" using s(1,2) by (simp add: sound_dicts_def)
  ultimately show "wf_num x" by fastforce
qed

lemma plain_row:
  assumes "model_row d n = Some row" "\<not> is_tiered d n"
  shows "rname row = n" "rvalues row = (\<lambda>k. if k \<in> set RATIO_FIELDS then entry_text d n k else [])"
    "rmode row = (if entry_text d n ''ModelPrice'' \<noteq> [] then PerRequest else PerToken)" "rexpr row = []" "rrules row = []"
    "hasConflict row \<longleftrightarrow> entry_text d n ''ModelPrice'' \<noteq> [] \<and> (\<exists>k \<in> set (tl RATIO_FIELDS). entry_text d n k \<noteq> [])"
proof -
  have m: "''ModelPrice'' \<in> set RATIO_FIELDS" "\<forall>k \<in> set (tl RATIO_FIELDS). k \<in> set RATIO_FIELDS"
    by (simp_all add: RATIO_FIELDS_def)
  have "row = \<lparr>rname = n, rvalues = (\<lambda>k. if k \<in> set RATIO_FIELDS then entry_text d n k else []),
      rmode = (if entry_text d n ''ModelPrice'' \<noteq> [] then PerRequest else PerToken), rexpr = [], rrules = [],
      hasConflict = (entry_text d n ''ModelPrice'' \<noteq> [] \<and> (\<exists>k \<in> set (tl RATIO_FIELDS). entry_text d n k \<noteq> []))\<rparr>"
    using assms m by (simp add: model_row_def Let_def cong: bex_cong)
  then show "rname row = n" "rvalues row = (\<lambda>k. if k \<in> set RATIO_FIELDS then entry_text d n k else [])"
    "rmode row = (if entry_text d n ''ModelPrice'' \<noteq> [] then PerRequest else PerToken)" "rexpr row = []" "rrules row = []"
    "hasConflict row \<longleftrightarrow> entry_text d n ''ModelPrice'' \<noteq> [] \<and> (\<exists>k \<in> set (tl RATIO_FIELDS). entry_text d n k \<noteq> [])"
    by simp_all
qed

text \<open>The dialog of such a row, once the effect has run.\<close>

lemma edited_row:
  assumes "model_row d n = Some row" "\<not> is_tiered d n"
  shows "fname (editRow row dl) = n" "fvalues (editRow row dl) = rvalues row" "pricingMode (editRow row dl) = rmode row"
    "dexpr (editRow row dl) = []" "drules (editRow row dl) = []"
  using plain_row [OF assms]
  by (simp_all add: editRow_def loadDialog_def handleEdit_def Let_def RATIO_FIELDS_def)

lemma field_facts: "''ModelPrice'' \<in> set EDITOR_FIELDS" "''ModelPrice'' \<in> set RATIO_FIELDS" "''ModelPrice'' \<notin> set (tl RATIO_FIELDS)"
  "k \<in> set RATIO_FIELDS \<Longrightarrow> k \<in> set EDITOR_FIELDS" "k \<in> set RATIO_FIELDS \<Longrightarrow> k \<noteq> ''ModelPrice'' \<Longrightarrow> k \<in> set (tl RATIO_FIELDS)"
  "k \<in> set (tl RATIO_FIELDS) \<Longrightarrow> k \<in> set RATIO_FIELDS"
  by (auto simp: EDITOR_FIELDS_def RATIO_FIELDS_def)

text \<open>
  A model cannot be moved from a fixed price to token ratios in its dialog. Whatever ratio is typed after choosing the other
  mode, the save keeps the price and drops the ratio.
\<close>

theorem mode_switch_ignored:
  assumes "dicts f = Some d" "sound_dicts d" "\<not> is_index n" "n \<noteq> ''__proto__''"
    and "model_row d n = Some row" "\<not> is_tiered d n" "oget (d ''ModelPrice'') n = Some (JNum p)"
  shows "\<exists>f' d'. handleSave (handleSubmit (typeValue ''ModelRatio'' r (chooseMode PerToken (editRow row dl)))) f = Some f'
    \<and> dicts f' = Some d'
    \<and> (\<forall>k \<in> set EDITOR_FIELDS. oget (d' k) n = (if k = ''ModelPrice'' then Some (JNum p) else None))"
proof -
  let ?x = "handleSubmit (typeValue ''ModelRatio'' r (chooseMode PerToken (editRow row dl)))"
  have wf: "wf_num p" by (rule sound_num [OF assms(2) field_facts(1) assms(7)])
  have x: "rname ?x = n" "rmode ?x = PerToken" "rvalues ?x ''ModelPrice'' = show_num p"
    using edited_row [OF assms(5,6), of dl] plain_row(2) [OF assms(5,6)] assms(7) field_facts(2)
    by (simp_all add: handleSubmit_def typeValue_def chooseMode_def Let_def entry_text_def)
  have e: "saved_entry ?x k = (if k = ''ModelPrice'' then Some (JNum p) else None)" for k
    by (simp add: saved_entry_def x num_entry_show [OF wf])
  obtain f' d' where s: "handleSave ?x f = Some f'" "dicts f' = Some d'"
      "\<forall>k \<in> set EDITOR_FIELDS. \<forall>m. oget (d' k) m = (if m = rname ?x then saved_entry ?x k else oget (d k) m)"
    using save_updates [OF assms(1,2), of ?x] assms(3,4) unfolding x by blast
  have "\<forall>k \<in> set EDITOR_FIELDS. oget (d' k) n = (if k = ''ModelPrice'' then Some (JNum p) else None)"
    using s(3) unfolding x e by simp
  with s(1,2) show ?thesis by blast
qed

text \<open>
  Opening a model and saving it unchanged changes no entry of any model, unless the row is marked as a conflict.
\<close>

theorem unchanged_edit_keeps_entries:
  assumes "dicts f = Some d" "sound_dicts d" "\<not> is_index n" "n \<noteq> ''__proto__''"
    and "model_row d n = Some row" "\<not> hasConflict row"
    and "\<forall>k \<in> set RATIO_FIELDS. \<forall>v. oget (d k) n = Some v \<longrightarrow> (\<exists>x. v = JNum x)"
    and "oget (d ''BillingMode'') n = None" "oget (d ''BillingExpr'') n = None"
  shows "\<exists>f' d'. handleSave (handleSubmit (editRow row dl)) f = Some f' \<and> dicts f' = Some d'
    \<and> (\<forall>k \<in> set EDITOR_FIELDS. oget (d' k) = oget (d k))"
proof -
  let ?x = "handleSubmit (editRow row dl)"
  have t: "\<not> is_tiered d n" using assms(8) by (simp add: is_tiered_def)
  have e: "num_entry (entry_text d n k) = oget (d k) n" if k: "k \<in> set RATIO_FIELDS" for k
  proof (cases "oget (d k) n")
    case None
    then show ?thesis by (simp add: entry_text_def num_entry_def)
  next
    case (Some v)
    then obtain x where v: "v = JNum x" using assms(7) k by blast
    have "wf_num x" using sound_num [OF assms(2) field_facts(4) [OF k]] Some v by simp
    then show ?thesis using Some v by (simp add: entry_text_def num_entry_show)
  qed
  have blank: "entry_text d n k = [] \<longleftrightarrow> oget (d k) n = None" if k: "k \<in> set RATIO_FIELDS" for k
    using e [OF k] assms(7) k by (auto simp: num_entry_def entry_text_def split: option.splits if_splits)
  have x: "rname ?x = n" "rmode ?x = rmode row" "rvalues ?x = rvalues row"
    using edited_row [OF assms(5) t, of dl] by (simp_all add: handleSubmit_def)
  note row = plain_row [OF assms(5) t]
  have mode: "rmode row \<noteq> TieredExpr" unfolding row(3) by simp
  have s: "saved_entry ?x k = oget (d k) n" if k: "k \<in> set EDITOR_FIELDS" for k
  proof -
    have c: "saved_entry ?x k =
        (if rvalues row ''ModelPrice'' \<noteq> [] then (if k = ''ModelPrice'' then num_entry (rvalues row k) else None)
         else (if k \<in> set (tl RATIO_FIELDS) then num_entry (rvalues row k) else None))"
      using mode by (cases "rmode row") (simp_all add: saved_entry_def x)
    consider "k = ''BillingMode''" | "k = ''BillingExpr''" | "k \<in> set RATIO_FIELDS"
      using k by (auto simp: EDITOR_FIELDS_def)
    then show ?thesis
    proof cases
      case 3
      show ?thesis
      proof (cases "entry_text d n ''ModelPrice'' = []")
        case True
        then have "oget (d ''ModelPrice'') n = None" using blank field_facts(2) by blast
        then show ?thesis using True 3 e field_facts(2,3,5) unfolding c row(2)
          by (cases "k = ''ModelPrice''") simp_all
      next
        case False
        then have "\<forall>j \<in> set (tl RATIO_FIELDS). entry_text d n j = []" using assms(6) unfolding row(6) by blast
        then have "k \<noteq> ''ModelPrice'' \<Longrightarrow> oget (d k) n = None" using 3 blank field_facts(5) by blast
        then show ?thesis using False 3 e field_facts(2) unfolding c row(2) by simp
      qed
    qed (use assms(8,9) c in \<open>simp_all add: RATIO_FIELDS_def\<close>)
  qed
  obtain f' d' where u: "handleSave ?x f = Some f'" "dicts f' = Some d'"
      "\<forall>k \<in> set EDITOR_FIELDS. \<forall>m. oget (d' k) m = (if m = rname ?x then saved_entry ?x k else oget (d k) m)"
    using save_updates [OF assms(1,2), of ?x] assms(3,4) unfolding x by blast
  have "\<forall>k \<in> set EDITOR_FIELDS. oget (d' k) = oget (d k)" using u(3) s unfolding x by (auto intro!: ext)
  with u(1,2) show ?thesis by blast
qed

text \<open>Deleting takes the model out of all ten dictionaries and leaves the others.\<close>

lemma delete_everywhere:
  assumes "dicts f = Some d" "sound_dicts d"
  shows "\<exists>f' d'. handleDelete n f = Some f' \<and> dicts f' = Some d'
    \<and> (\<forall>k \<in> set EDITOR_FIELDS. oget (d' k) = (oget (d k))(n := None)) \<and> n \<notin> set (model_names d')"
proof -
  have "sound_dicts (\<lambda>k. odel n (d k))" using assms(2) wf_odel_all by (simp add: sound_dicts_def del: wf_json.simps)
  then obtain d' where d': "dicts (write_dicts (\<lambda>k. odel n (d k)) f) = Some d'" "\<forall>k \<in> set EDITOR_FIELDS. d' k = odel n (d k)"
    using dicts_write by blast
  have "n \<notin> set (model_names d')" using d'(2) by (auto simp: model_names_def odel_def)
  moreover have "oget (odel n ob) = (oget ob)(n := None)" for ob :: "json obj" by (rule ext) simp
  ultimately show ?thesis using assms(1) d' by (simp add: handleDelete_def)
qed

subsection \<open>Witnesses\<close>

definition priced :: Dicts where
  "priced k = (if k = ''ModelPrice'' then [(''gpt'', JNum (Dec 5 (-2)))] else [])"

definition priced_form :: Texts where
  "priced_form k = stringify2 (JObj (priced k))"

lemma priced_sound: "sound_dicts priced"
proof -
  have "wf_json (JObj (priced k))" for k
    by (rule wf_obj) (auto simp: priced_def is_digit_def wf_num_def)
  then show ?thesis by (simp add: sound_dicts_def del: wf_json.simps)
qed

lemma priced_dicts: "dicts priced_form = Some priced"
proof -
  have w: "wf_json (JObj (priced k))" for k
    by (rule wf_obj) (auto simp: priced_def is_digit_def wf_num_def)
  then have r: "safeJsonParse (priced_form k) g = JObj (priced k)" for k g
    unfolding priced_form_def by (rule read_stringify2(1))
  show ?thesis by (simp add: dicts_def r list_all_iff)
qed

definition priced_row :: ModelRow where
  "priced_row = \<lparr>rname = ''gpt'', rvalues = (\<lambda>k. if k \<in> set RATIO_FIELDS then entry_text priced ''gpt'' k else []),
     rmode = PerRequest, rexpr = [], rrules = [], hasConflict = False\<rparr>"

lemma priced_text: "entry_text priced ''gpt'' k = (if k = ''ModelPrice'' then ''0.05'' else [])"
proof -
  have "show_num (Dec 5 (-2)) = ''0.05''" by code_simp
  then show ?thesis by (simp add: entry_text_def priced_def)
qed

lemma priced_is_row: "model_row priced ''gpt'' = Some priced_row"
  by (simp add: model_row_def is_tiered_def priced_text priced_row_def Let_def RATIO_FIELDS_def) (simp add: priced_def)

lemma gpt_name: "\<not> is_index ''gpt''" "''gpt'' \<noteq> ''__proto__''" "\<not> is_tiered priced ''gpt''"
  by (rule not_index_start) (simp_all add: is_digit_def is_tiered_def priced_def)

lemma mode_switch_ignored_witness:
  "\<forall>dl. \<exists>f' d'. handleSave (handleSubmit (typeValue ''ModelRatio'' ''1.5'' (chooseMode PerToken (editRow priced_row dl)))) priced_form = Some f'
    \<and> dicts f' = Some d' \<and> oget (d' ''ModelRatio'') ''gpt'' = None"
proof
  fix dl
  have p: "oget (priced ''ModelPrice'') ''gpt'' = Some (JNum (Dec 5 (-2)))" by (simp add: priced_def)
  have k: "''ModelRatio'' \<in> set EDITOR_FIELDS" by (simp add: EDITOR_FIELDS_def RATIO_FIELDS_def)
  show "\<exists>f' d'. handleSave (handleSubmit (typeValue ''ModelRatio'' ''1.5'' (chooseMode PerToken (editRow priced_row dl)))) priced_form = Some f'
    \<and> dicts f' = Some d' \<and> oget (d' ''ModelRatio'') ''gpt'' = None"
    using mode_switch_ignored [OF priced_dicts priced_sound gpt_name(1,2) priced_is_row gpt_name(3) p, of "''1.5''" dl] k
    by auto
qed

lemma unchanged_edit_keeps_entries_witness:
  "\<forall>dl. \<exists>f' d'. handleSave (handleSubmit (editRow priced_row dl)) priced_form = Some f' \<and> dicts f' = Some d'
    \<and> oget (d' ''ModelPrice'') = oget (priced ''ModelPrice'')"
proof
  fix dl
  have c: "\<not> hasConflict priced_row" by (simp add: priced_row_def)
  have n: "\<forall>k \<in> set RATIO_FIELDS. \<forall>v. oget (priced k) ''gpt'' = Some v \<longrightarrow> (\<exists>x. v = JNum x)" by (simp add: priced_def)
  have b: "oget (priced ''BillingMode'') ''gpt'' = None" "oget (priced ''BillingExpr'') ''gpt'' = None" by (simp_all add: priced_def)
  show "\<exists>f' d'. handleSave (handleSubmit (editRow priced_row dl)) priced_form = Some f' \<and> dicts f' = Some d'
    \<and> oget (d' ''ModelPrice'') = oget (priced ''ModelPrice'')"
    using unchanged_edit_keeps_entries [OF priced_dicts priced_sound gpt_name(1,2) priced_is_row c n b, of dl] field_facts(1)
    by auto
qed

end
