(* ===== verification/JsNumber.thy ===== *)
theory JsNumber
  imports TierExpr JsValues
begin

text \<open>
  \<open>Number(t)\<close> of a text, in full: white space around it is dropped, nothing is 0, a prefix gives the base, and what is
  left must be a decimal number.
\<close>

definition base_digits :: "nat \<Rightarrow> string \<Rightarrow> nat option" where
  "base_digits b s =
     (if s = [] then None
      else fold (\<lambda>c acc. case (acc, hex_val c) of (Some a, Some d) \<Rightarrow> if d < b then Some (b * a + d) else None | _ \<Rightarrow> None) s (Some 0))"

definition number_of_text :: "string \<Rightarrow> jsfloat" where
  "number_of_text s =
     (let t = trim s; num = (\<lambda>r. case r of Some n \<Rightarrow> Finite n | None \<Rightarrow> NaN);
          base = (\<lambda>b u. num (map_option (\<lambda>n. num_of_int (int n)) (base_digits b u)))
      in if t = [] then Finite zero_num
         else if t \<in> {''Infinity'', ''+Infinity''} then Infinite False else if t = ''-Infinity'' then Infinite True
         else if take 2 t \<in> {''0x'', ''0X''} then base 16 (drop 2 t)
         else if take 2 t \<in> {''0o'', ''0O''} then base 8 (drop 2 t)
         else if take 2 t \<in> {''0b'', ''0B''} then base 2 (drop 2 t)
         else num (js_Number t))"

text \<open>\<open>Number(v)\<close> of a number or a text, as \<open>JSON.stringify\<close> prints it.\<close>

definition number_json :: "json \<Rightarrow> json" where
  "number_json v = (case v of JStr s \<Rightarrow> float_json (number_of_text s) | _ \<Rightarrow> v)"

end
