(* ===== verification/RatioSync.thy ===== *)
theory RatioSync
  imports OptionStore SettingsJson JsNumber
begin

text \<open>
  Prices taken over from other servers (\<^verbatim>\<open>features/system-settings/models/upstream-ratio-sync.tsx\<close>, its helpers, table
  and channel dialog): what is fetched, which value is selected for each field of a model, and what a sync writes to
  the ten options, one after the other. An upstream value is a number, a text, or the text \<^verbatim>\<open>same\<close>.
\<close>

subsection \<open>Fields and differences (upstream-ratio-sync-helpers.ts)\<close>

record RatioDifference =
  dCurrent :: json
  upstreams :: "json obj"

type_synonym ModelDiffs = "RatioDifference obj"
type_synonym Resolutions = "json obj obj"

definition RATIO_SYNC_FIELDS :: "string list" where
  "RATIO_SYNC_FIELDS =
     [''model_ratio'', ''completion_ratio'', ''cache_ratio'', ''create_cache_ratio'', ''image_ratio'', ''audio_ratio'',
      ''audio_completion_ratio'']"

definition SYNC_FIELD_ORDER :: "string list" where
  "SYNC_FIELD_ORDER = RATIO_SYNC_FIELDS @ [''model_price'', ''billing_mode'', ''billing_expr'']"

definition NUMERIC_SYNC_FIELDS :: "string list" where
  "NUMERIC_SYNC_FIELDS = RATIO_SYNC_FIELDS @ [''model_price'']"

definition RATIO_TYPE_OPTIONS :: "(string \<times> string) list" where
  "RATIO_TYPE_OPTIONS =
     [(''model_ratio'', ''Model ratio''), (''completion_ratio'', ''Completion ratio''), (''cache_ratio'', ''Cache ratio''),
      (''create_cache_ratio'', ''Create cache ratio''), (''image_ratio'', ''Image ratio''), (''audio_ratio'', ''Audio ratio''),
      (''audio_completion_ratio'', ''Audio completion ratio''), (''model_price'', ''Fixed price''),
      (''billing_expr'', ''Expression billing'')]"

definition getSyncFieldLabel :: "string \<Rightarrow> string" where
  "getSyncFieldLabel rt = (case map_of RATIO_TYPE_OPTIONS rt of Some l \<Rightarrow> l | None \<Rightarrow> rt)"

definition getOrderedRatioTypes :: "ModelDiffs \<Rightarrow> string \<Rightarrow> string list" where
  "getOrderedRatioTypes ratioTypes flt =
     (let keys = map fst (own_entries ratioTypes);
          ordered = filter (\<lambda>f. f \<in> set keys) SYNC_FIELD_ORDER @ filter (\<lambda>f. f \<notin> set SYNC_FIELD_ORDER) keys
      in if flt = [] \<or> flt = ''__all__'' then ordered else filter (\<lambda>f. f = flt) ordered)"

text \<open>\<open>ratioTypes[f]?.upstreams?.[source]\<close>\<close>

definition upstream_at :: "ModelDiffs \<Rightarrow> string \<Rightarrow> string \<Rightarrow> json option" where
  "upstream_at ratioTypes f source = (case oget ratioTypes f of Some d \<Rightarrow> oget (upstreams d) source | None \<Rightarrow> None)"

definition isSelectableUpstreamValue :: "json option \<Rightarrow> bool" where
  "isSelectableUpstreamValue v \<longleftrightarrow> v \<noteq> None \<and> v \<noteq> Some JNull \<and> v \<noteq> Some (JStr ''same'')"

definition getPreferredSyncField :: "ModelDiffs \<Rightarrow> string \<Rightarrow> string \<Rightarrow> string" where
  "getPreferredSyncField ratioTypes rt source =
     (if rt \<noteq> ''billing_expr'' \<and> isSelectableUpstreamValue (upstream_at ratioTypes ''billing_expr'' source)
      then ''billing_expr'' else rt)"

datatype Billing = Price | Ratio | Tiered

definition getBillingCategory :: "string \<Rightarrow> Billing" where
  "getBillingCategory rt =
     (if rt = ''model_price'' then Price else if rt = ''billing_mode'' \<or> rt = ''billing_expr'' then Tiered else Ratio)"

text \<open>\<open>charAt(0).toUpperCase() + slice(1)\<close> on the code units below U+0080.\<close>

definition capitalized :: "string \<Rightarrow> string" where
  "capitalized w = (case w of [] \<Rightarrow> [] | c # r \<Rightarrow> (if 97 \<le> (of_char c :: nat) \<and> of_char c \<le> (122 :: nat) then char_of (of_char c - 32 :: nat) else c) # r)"

definition optionKeyBySyncField :: "string \<Rightarrow> string" where
  "optionKeyBySyncField rt =
     (if rt = ''billing_mode'' then ''billing_setting.billing_mode''
      else if rt = ''billing_expr'' then ''billing_setting.billing_expr''
      else concat (map capitalized (split_on CHR ''_'' rt)))"

definition parseJsonRecord :: "string \<Rightarrow> json" where
  "parseJsonRecord raw = (case json_parse (if raw = [] then ''{}'' else raw) of Some v \<Rightarrow> v | None \<Rightarrow> JObj [])"

definition deleteResolutionField :: "Resolutions \<Rightarrow> string \<Rightarrow> string \<Rightarrow> Resolutions" where
  "deleteResolutionField res model rt =
     (case oget res model of
        None \<Rightarrow> res
      | Some r \<Rightarrow>
          (let r1 = odel rt r;
               r2 = (if rt = ''billing_expr'' then odel ''billing_mode'' r1 else r1);
               r3 = (if rt = ''billing_mode'' then odel ''billing_expr'' r2 else r2)
           in if r3 = [] then odel model res else oput model r3 res))"

subsection \<open>Selecting values\<close>

definition clear_other_categories :: "Billing \<Rightarrow> json obj \<Rightarrow> json obj" where
  "clear_other_categories category r =
     filter (\<lambda>p. \<not> (category \<noteq> Tiered \<and> getBillingCategory (fst p) \<noteq> Tiered \<and> getBillingCategory (fst p) \<noteq> category)) r"

text \<open>The paired fields of a tiered price, from the same source.\<close>

definition pair_tiered :: "ModelDiffs \<Rightarrow> string \<Rightarrow> string \<Rightarrow> json obj \<Rightarrow> json obj" where
  "pair_tiered modelDiffs source finalType r =
     (let modeVal = upstream_at modelDiffs ''billing_mode'' source; exprVal = upstream_at modelDiffs ''billing_expr'' source;
          r1 = (if isSelectableUpstreamValue modeVal then oput ''billing_mode'' (the modeVal) r
                else if finalType = ''billing_expr'' then oput ''billing_mode'' (JStr ''tiered_expr'') r else r)
      in if isSelectableUpstreamValue exprVal then oput ''billing_expr'' (the exprVal) r1 else r1)"

definition handleSelectValue ::
  "ModelDiffs obj \<Rightarrow> string \<Rightarrow> string \<Rightarrow> json \<Rightarrow> string \<Rightarrow> Resolutions \<Rightarrow> Resolutions" where
  "handleSelectValue differences model rt v source prev =
     (let modelDiffs = oget differences model;
          md = (case modelDiffs of Some d \<Rightarrow> d | None \<Rightarrow> []);
          finalType = (if source \<noteq> [] then getPreferredSyncField md rt source else rt);
          finalValue = (if finalType = rt then v
                        else case upstream_at md finalType source of Some u \<Rightarrow> if u = JNull then v else u | None \<Rightarrow> v);
          category = getBillingCategory finalType;
          r0 = (case oget prev model of Some r \<Rightarrow> r | None \<Rightarrow> []);
          r1 = oput finalType finalValue (clear_other_categories category r0);
          r2 = (if category = Tiered \<and> source \<noteq> [] \<and> modelDiffs \<noteq> None then pair_tiered md source finalType r1 else r1)
      in oput model r2 prev)"

text \<open>The check box of a column, over the rows that are shown (upstream-ratio-sync-table.tsx, -columns.tsx).\<close>

type_synonym Row = "string \<times> ModelDiffs"

definition billingConflict :: "ModelDiffs \<Rightarrow> bool" where
  "billingConflict ratioTypes \<longleftrightarrow> ohas ''model_price'' ratioTypes \<and> (\<exists>f \<in> set RATIO_SYNC_FIELDS. ohas f ratioTypes)"

definition filteredData :: "ModelDiffs obj \<Rightarrow> string \<Rightarrow> string \<Rightarrow> Row list" where
  "filteredData differences query flt =
     (let d1 = (if trim query = [] then own_entries differences
                else filter (\<lambda>row. str_includes (lower query) (lower (fst row))) (own_entries differences))
      in if flt = [] \<or> flt = ''__all__'' then d1 else filter (\<lambda>row. ohas flt (snd row)) d1)"

definition row_sources :: "string \<Rightarrow> Row \<Rightarrow> string list" where
  "row_sources flt row =
     concat (map (\<lambda>f. case oget (snd row) f of Some d \<Rightarrow> map fst (own_entries (upstreams d)) | None \<Rightarrow> [])
       (getOrderedRatioTypes (snd row) flt))"

definition upstreamNames :: "Row list \<Rightarrow> string \<Rightarrow> string list" where
  "upstreamNames rows flt = uniq (concat (map (row_sources flt) rows))"

definition selectable_cells :: "string \<Rightarrow> string \<Rightarrow> Row \<Rightarrow> (string \<times> string \<times> json) list" where
  "selectable_cells upstream flt row =
     List.map_filter (\<lambda>f.
        if getPreferredSyncField (snd row) f upstream = f \<and> isSelectableUpstreamValue (upstream_at (snd row) f upstream)
        then Some (fst row, f, the (upstream_at (snd row) f upstream)) else None)
       (getOrderedRatioTypes (snd row) flt)"

definition handleBulkSelect :: "ModelDiffs obj \<Rightarrow> string \<Rightarrow> Row list \<Rightarrow> string \<Rightarrow> Resolutions \<Rightarrow> Resolutions" where
  "handleBulkSelect differences upstream rows flt prev =
     fold (\<lambda>(model, f, v). handleSelectValue differences model f v upstream)
       (concat (map (selectable_cells upstream flt) rows)) prev"

definition handleBulkUnselect :: "string \<Rightarrow> Row list \<Rightarrow> string \<Rightarrow> Resolutions \<Rightarrow> Resolutions" where
  "handleBulkUnselect upstream rows flt prev =
     fold (\<lambda>row res. fold (\<lambda>f res. if upstream_at (snd row) f upstream \<noteq> None then deleteResolutionField res (fst row) f else res)
             (getOrderedRatioTypes (snd row) flt) res) rows prev"

text \<open>The counts behind the box of a column, and whether it is ticked.\<close>

definition selected_at :: "Resolutions \<Rightarrow> string \<Rightarrow> string \<Rightarrow> json option" where
  "selected_at res model f = (case oget res model of Some r \<Rightarrow> oget r f | None \<Rightarrow> None)"

definition checkboxState :: "string \<Rightarrow> Row list \<Rightarrow> string \<Rightarrow> Resolutions \<Rightarrow> bool option" where
  "checkboxState upstream rows flt res =
     (let cells = concat (map (selectable_cells upstream flt) rows);
          selectableCount = length cells;
          selectedCount = length (filter (\<lambda>(model, f, v). selected_at res model f = Some v) cells)
      in if selectableCount > 0 \<and> selectedCount = selectableCount then Some True
         else if selectedCount > 0 \<and> selectedCount < selectableCount then None else Some False)"

subsection \<open>What a sync writes\<close>

definition RATIO_OPTIONS :: "string list" where
  "RATIO_OPTIONS =
     [''ModelRatio'', ''CompletionRatio'', ''CacheRatio'', ''CreateCacheRatio'', ''ImageRatio'', ''AudioRatio'', ''AudioCompletionRatio'']"

definition SYNC_OPTIONS :: "string list" where
  "SYNC_OPTIONS = RATIO_OPTIONS @ [''ModelPrice'', ''billing_setting.billing_mode'', ''billing_setting.billing_expr'']"

text \<open>\<open>L\<close> are the parsed options of the page; \<open>parsedRatios\<close> reads them from their texts.\<close>

definition parsedRatios :: "(string \<Rightarrow> string) \<Rightarrow> string \<Rightarrow> json" where
  "parsedRatios texts k = parseJsonRecord (texts k)"

text \<open>A change of one of the dictionaries.\<close>

definition at_option :: "string \<Rightarrow> (json obj \<Rightarrow> json obj) \<Rightarrow> json obj obj \<Rightarrow> json obj obj" where
  "at_option k f final = map (\<lambda>(k', d). (k', if k' = k then f d else d)) final"

definition write_field :: "string \<Rightarrow> string \<times> json \<Rightarrow> json obj obj \<Rightarrow> json obj obj" where
  "write_field model fv =
     at_option (optionKeyBySyncField (fst fv))
       (assign model (if fst fv \<in> set NUMERIC_SYNC_FIELDS then number_json (snd fv) else snd fv))"

definition merge_model :: "string \<times> json obj \<Rightarrow> json obj obj \<Rightarrow> json obj obj" where
  "merge_model mr final =
     (case mr of (model, ratios) \<Rightarrow>
        let hasPrice = ohas ''model_price'' ratios; hasRatio = (\<exists>f \<in> set RATIO_SYNC_FIELDS. ohas f ratios);
            f1 = (if hasPrice then fold (\<lambda>k. at_option k (odel model)) RATIO_OPTIONS final else final);
            f2 = (if hasRatio then at_option ''ModelPrice'' (odel model) f1 else f1)
        in fold (write_field model) (own_entries ratios) f2)"

definition finalRatios :: "(string \<Rightarrow> json) \<Rightarrow> Resolutions \<Rightarrow> json obj obj" where
  "finalRatios L res = fold merge_model (own_entries res) (map (\<lambda>k. (k, spread_fields (L k))) SYNC_OPTIONS)"

definition sync_updates :: "(string \<Rightarrow> json) \<Rightarrow> Resolutions \<Rightarrow> (string \<times> string) list" where
  "sync_updates L res = map (\<lambda>(k, d). (k, stringify2 (JObj d))) (finalRatios L res)"

text \<open>The mutation: one request after the other, whatever the replies say; a rejected one ends it.\<close>

fun send_syncs :: "(nat \<Rightarrow> Request \<Rightarrow> Outcome) \<Rightarrow> (string \<times> string) list \<Rightarrow> App \<Rightarrow> Failure option \<times> App" where
  "send_syncs net [] app = (None, app)"
| "send_syncs net ((k, v) # us) app =
     (case request net (updateSystemOption k (JStr v)) app of
        (Reply b, app1) \<Rightarrow> send_syncs net us app1
      | (Rejected e, app1) \<Rightarrow> (Some e, app1))"

text \<open>After a success, the differences that were resolved are dropped.\<close>

definition drop_resolved :: "Resolutions \<Rightarrow> ModelDiffs obj \<Rightarrow> ModelDiffs obj" where
  "drop_resolved res diffs =
     fold (\<lambda>(model, f) ds.
        case oget ds model of
          None \<Rightarrow> ds
        | Some d \<Rightarrow> if ohas f d then (let d1 = odel f d in if d1 = [] then odel model ds else oput model d1 ds) else ds)
       (concat (map (\<lambda>(model, r). map (\<lambda>p. (model, fst p)) (own_entries r)) (own_entries res))) diffs"

record SyncPage =
  differences :: "ModelDiffs obj"
  resolutions :: Resolutions
  conflictItems :: "(string \<times> string \<times> string \<times> string) list"
  conflictDialogOpen :: bool

definition initSync :: SyncPage where
  "initSync = \<lparr>differences = [], resolutions = [], conflictItems = [], conflictDialogOpen = False\<rparr>"

definition ratiosFetched :: "ModelDiffs obj \<Rightarrow> SyncPage \<Rightarrow> SyncPage" where
  "ratiosFetched diffs pg = pg\<lparr>differences := diffs, resolutions := []\<rparr>"

definition performSync ::
  "(nat \<Rightarrow> Request \<Rightarrow> Outcome) \<Rightarrow> (string \<Rightarrow> json) \<Rightarrow> SyncPage \<times> App \<Rightarrow> bool \<times> SyncPage \<times> App" where
  "performSync net L st =
     (case st of (pg, app) \<Rightarrow>
        case send_syncs net (sync_updates L (resolutions pg)) app of
          (None, app1) \<Rightarrow>
            (True, pg\<lparr>differences := drop_resolved (resolutions pg) (differences pg), resolutions := []\<rparr>,
             toast (Success (Tr ''Prices synced successfully'' [])) (app1\<lparr>stale := stale app1 @ [[''system-options'']]\<rparr>))
        | (Some e, app1) \<Rightarrow> (False, pg, toast (Error (or_text (Some (err_message e)) (Tr ''Failed to sync prices'' []))) app1))"

subsection \<open>Conflicts of billing categories\<close>

text \<open>Reading an entry throws (\<open>None\<close>) where the option is the JSON text \<^verbatim>\<open>null\<close>.\<close>

definition rec_value :: "json \<Rightarrow> string \<Rightarrow> json option option" where
  "rec_value v k = (if v = JNull then None else Some (oget (spread_fields v) k))"

fun any_local :: "(string \<Rightarrow> json) \<Rightarrow> string \<Rightarrow> string list \<Rightarrow> bool option" where
  "any_local L model [] = Some False"
| "any_local L model (k # ks) =
     Option.bind (rec_value (L k) model) (\<lambda>v. if v \<noteq> None then Some True else any_local L model ks)"

definition getLocalBillingCategory :: "(string \<Rightarrow> json) \<Rightarrow> string \<Rightarrow> Billing option option" where
  "getLocalBillingCategory L model =
     Option.bind (rec_value (L ''ModelPrice'') model) (\<lambda>v.
       if v \<noteq> None then Some (Some Price)
       else Option.bind (any_local L model RATIO_OPTIONS) (\<lambda>b. Some (if b then Some Ratio else None)))"

definition newCategory :: "json obj \<Rightarrow> Billing" where
  "newCategory ratios =
     (if ohas ''model_price'' ratios then Price else if \<exists>f \<in> set RATIO_SYNC_FIELDS. ohas f ratios then Ratio else Tiered)"

definition findSourceChannel :: "ModelDiffs obj \<Rightarrow> string \<Rightarrow> string \<Rightarrow> json \<Rightarrow> string" where
  "findSourceChannel diffs model f v =
     (case oget diffs model of
        None \<Rightarrow> ''Unknown''
      | Some md \<Rightarrow>
          (case oget md f of
             None \<Rightarrow> ''Unknown''
           | Some d \<Rightarrow> (case find (\<lambda>p. snd p = v) (own_entries (upstreams d)) of Some p \<Rightarrow> fst p | None \<Rightarrow> ''Unknown'')))"

definition or_dash :: "json option \<Rightarrow> string" where
  "or_dash v = (case v of None \<Rightarrow> ''-'' | Some j \<Rightarrow> if j = JNull then ''-'' else js_String j)"

definition undefined_text :: "json option \<Rightarrow> string" where
  "undefined_text v = (case v of None \<Rightarrow> ''undefined'' | Some j \<Rightarrow> js_String j)"

definition conflict_text :: "Billing \<Rightarrow> json option \<Rightarrow> json option \<Rightarrow> json option \<Rightarrow> string" where
  "conflict_text category price ratio completion =
     (if category = Price then ''Fixed price: '' @ undefined_text price
      else ''Model ratio: '' @ or_dash ratio @ [CHR 0x0A] @ ''Completion ratio: '' @ or_dash completion)"

definition conflictOf ::
  "(string \<Rightarrow> json) \<Rightarrow> ModelDiffs obj \<Rightarrow> string \<times> json obj \<Rightarrow> (string \<times> string \<times> string \<times> string) option option" where
  "conflictOf L diffs mr =
     (case mr of (model, ratios) \<Rightarrow>
        Option.bind (getLocalBillingCategory L model) (\<lambda>localCat.
          let newCat = newCategory ratios
          in case localCat of
               None \<Rightarrow> Some None
             | Some c \<Rightarrow>
                 if newCat = Tiered \<or> c = newCat then Some None
                 else Option.bind (if c = Price then Some None else rec_value (L ''ModelRatio'') model) (\<lambda>r.
                   Option.bind (if c = Price then Some None else rec_value (L ''CompletionRatio'') model) (\<lambda>cr.
                     Some (Some
                       (join '', '' (uniq (map (\<lambda>p. findSourceChannel diffs model (fst p) (snd p)) (own_entries ratios))),
                        model,
                        conflict_text c (oget (spread_fields (L ''ModelPrice'')) model) r cr,
                        conflict_text newCat (oget ratios ''model_price'') (oget ratios ''model_ratio'') (oget ratios ''completion_ratio'')))))))"

fun all_conflicts ::
  "(string \<Rightarrow> json) \<Rightarrow> ModelDiffs obj \<Rightarrow> Resolutions \<Rightarrow> (string \<times> string \<times> string \<times> string) list option" where
  "all_conflicts L diffs [] = Some []"
| "all_conflicts L diffs (mr # res) =
     Option.bind (conflictOf L diffs mr) (\<lambda>c. Option.bind (all_conflicts L diffs res) (\<lambda>cs.
       Some (case c of Some x \<Rightarrow> x # cs | None \<Rightarrow> cs)))"

text \<open>The button: nothing when it throws, the dialog when there are conflicts, the sync otherwise.\<close>

datatype ApplyResult = Threw | AskFirst | SyncNow

definition handleApplySync :: "(string \<Rightarrow> json) \<Rightarrow> SyncPage \<Rightarrow> ApplyResult \<times> SyncPage" where
  "handleApplySync L pg =
     (case all_conflicts L (differences pg) (own_entries (resolutions pg)) of
        None \<Rightarrow> (Threw, pg)
      | Some cs \<Rightarrow> if cs \<noteq> [] then (AskFirst, pg\<lparr>conflictItems := cs, conflictDialogOpen := True\<rparr>) else (SyncNow, pg))"

definition handleConfirmConflict ::
  "(nat \<Rightarrow> Request \<Rightarrow> Outcome) \<Rightarrow> (string \<Rightarrow> json) \<Rightarrow> SyncPage \<times> App \<Rightarrow> SyncPage \<times> App" where
  "handleConfirmConflict net L st =
     (case performSync net L st of (ok, pg, app) \<Rightarrow> (if ok then pg\<lparr>conflictDialogOpen := False\<rparr> else pg, app))"

subsection \<open>Channels and their endpoints (channel-selector-dialog.tsx)\<close>

record UpstreamChannel =
  upId :: int
  upName :: string
  upUrl :: string
  upType :: "int option"

definition DEFAULT_ENDPOINT :: string where "DEFAULT_ENDPOINT = ''/api/pricing''"
definition OFFICIAL_CHANNEL_ID :: int where "OFFICIAL_CHANNEL_ID = -100"
definition MODELS_DEV_PRESET_ID :: int where "MODELS_DEV_PRESET_ID = -101"

definition ENDPOINT_OPTIONS :: "string list" where
  "ENDPOINT_OPTIONS = [''/api/pricing'', ''/api/ratio_config'', ''openrouter'', ''custom'']"

definition getDefaultEndpointForChannel :: "UpstreamChannel \<Rightarrow> string" where
  "getDefaultEndpointForChannel ch =
     (if upId ch = MODELS_DEV_PRESET_ID then ''https://models.dev/api.json''
      else if upId ch = OFFICIAL_CHANNEL_ID then ''/llm-metadata/api/newapi/ratio_config-v1-base.json''
      else if upType ch = Some 20 then ''openrouter'' else DEFAULT_ENDPOINT)"

type_synonym Endpoints = "int \<Rightarrow> string option"

text \<open>\<open>channelEndpoints[id]\<close> is falsy when it is missing or empty.\<close>

definition fillEndpoints :: "UpstreamChannel list \<Rightarrow> Endpoints \<Rightarrow> Endpoints" where
  "fillEndpoints channels eps =
     fold (\<lambda>ch e. if e (upId ch) = None \<or> e (upId ch) = Some [] then e(upId ch \<mapsto> getDefaultEndpointForChannel ch) else e) channels eps"

definition currentEndpoint :: "Endpoints \<Rightarrow> int \<Rightarrow> string" where
  "currentEndpoint eps i = (case eps i of Some e \<Rightarrow> if e \<noteq> [] then e else DEFAULT_ENDPOINT | None \<Rightarrow> DEFAULT_ENDPOINT)"

definition getEndpointType :: "string \<Rightarrow> string" where
  "getEndpointType endpoint = (if endpoint \<in> set ENDPOINT_OPTIONS then endpoint else ''custom'')"

definition updateEndpoint :: "int \<Rightarrow> string \<Rightarrow> Endpoints \<Rightarrow> Endpoints" where
  "updateEndpoint i endpoint eps = eps(i \<mapsto> endpoint)"

definition handleTypeChange :: "int \<Rightarrow> string \<Rightarrow> Endpoints \<Rightarrow> Endpoints" where
  "handleTypeChange i v eps = updateEndpoint i (if v = ''custom'' then [] else v) eps"

text \<open>The input for an endpoint, which is there only for the type \<open>custom\<close>.\<close>

definition typeEndpoint :: "int \<Rightarrow> string \<Rightarrow> Endpoints \<Rightarrow> Endpoints" where
  "typeEndpoint i v eps = (if getEndpointType (currentEndpoint eps i) = ''custom'' then updateEndpoint i v eps else eps)"

definition isOfficialChannel :: "UpstreamChannel \<Rightarrow> bool" where
  "isOfficialChannel ch \<longleftrightarrow> upId ch = OFFICIAL_CHANNEL_ID \<or> upId ch = MODELS_DEV_PRESET_ID"

definition sortedChannels :: "string \<Rightarrow> UpstreamChannel list \<Rightarrow> UpstreamChannel list" where
  "sortedChannels query channels =
     (let chs = (if trim query = [] then channels
                 else filter (\<lambda>ch. str_includes (lower query) (lower (upName ch)) \<or> str_includes (lower query) (lower (upUrl ch))) channels)
      in filter isOfficialChannel chs @ filter (\<lambda>ch. \<not> isOfficialChannel ch) chs)"

definition fetchUpstreamRatios :: "UpstreamChannel list \<Rightarrow> Endpoints \<Rightarrow> Request" where
  "fetchUpstreamRatios selected eps =
     \<lparr>verb = ''POST'', url = ''/api/ratio_sync/fetch'',
      payload = Some (JObj [(''upstreams'', JArr (map (\<lambda>ch. JObj [(''id'', JNum (num_of_int (upId ch))), (''name'', JStr (upName ch)),
          (''base_url'', JStr (upUrl ch)), (''endpoint'', JStr (currentEndpoint eps (upId ch)))]) selected)),
        (''timeout'', JNum (num_of_int 10))]), config = no_config\<rparr>"

text \<open>\<open>None\<close>: the warning that no channel is selected.\<close>

definition handleConfirmChannelSelection :: "UpstreamChannel list \<Rightarrow> Endpoints \<Rightarrow> int list \<Rightarrow> Request option" where
  "handleConfirmChannelSelection channels eps selectedIds =
     (let selected = filter (\<lambda>ch. upId ch \<in> set selectedIds) channels
      in if selected = [] then None else Some (fetchUpstreamRatios selected eps))"

subsection \<open>What is selected for a model\<close>

text \<open>
  A selection of a model: one category besides the tiered fields, an expression only together with a mode, and never
  empty.
\<close>

definition coherent :: "json obj \<Rightarrow> bool" where
  "coherent r \<longleftrightarrow>
     r \<noteq> [] \<and> owf r \<and>
     (\<forall>f g. ohas f r \<longrightarrow> ohas g r \<longrightarrow> getBillingCategory f \<noteq> Tiered \<longrightarrow> getBillingCategory g \<noteq> Tiered \<longrightarrow>
        getBillingCategory f = getBillingCategory g) \<and>
     (ohas ''billing_expr'' r \<longrightarrow> ohas ''billing_mode'' r)"

datatype SyncEvent =
  RatiosFetched "ModelDiffs obj" | SelectValue string string json string | UnselectValue string string
| BulkSelect string string string | BulkUnselect string string string

text \<open>A value is selected in a cell of the table: for a model of the differences and a source with a name.\<close>

definition sync_possible :: "SyncPage \<Rightarrow> SyncEvent \<Rightarrow> bool" where
  "sync_possible pg ev =
     (case ev of
        SelectValue model f v source \<Rightarrow> ohas model (differences pg) \<and> source \<noteq> []
      | BulkSelect upstream query flt \<Rightarrow> upstream \<noteq> []
      | _ \<Rightarrow> True)"

definition sync_event :: "SyncEvent \<Rightarrow> SyncPage \<Rightarrow> SyncPage" where
  "sync_event ev pg =
     (case ev of
        RatiosFetched diffs \<Rightarrow> ratiosFetched diffs pg
      | SelectValue model f v source \<Rightarrow> pg\<lparr>resolutions := handleSelectValue (differences pg) model f v source (resolutions pg)\<rparr>
      | UnselectValue model f \<Rightarrow> pg\<lparr>resolutions := deleteResolutionField (resolutions pg) model f\<rparr>
      | BulkSelect upstream query flt \<Rightarrow>
          pg\<lparr>resolutions := handleBulkSelect (differences pg) upstream (filteredData (differences pg) query flt) flt (resolutions pg)\<rparr>
      | BulkUnselect upstream query flt \<Rightarrow>
          pg\<lparr>resolutions := handleBulkUnselect upstream (filteredData (differences pg) query flt) flt (resolutions pg)\<rparr>)"

inductive sync_steps :: "SyncPage \<Rightarrow> SyncEvent list \<Rightarrow> SyncPage \<Rightarrow> bool" where
  none: "sync_steps pg [] pg"
| more: "sync_possible pg ev \<Longrightarrow> sync_steps (sync_event ev pg) evs pg2 \<Longrightarrow> sync_steps pg (ev # evs) pg2"

inductive_simps sync_steps_simps: "sync_steps pg [] pg2" "sync_steps pg (ev # evs) pg2"

lemma ohas_oput: "ohas k (oput k' v ob) \<longleftrightarrow> k = k' \<or> ohas k ob"
  by (simp add: ohas_iff)

lemma ohas_odel: "ohas k (odel k' ob) \<longleftrightarrow> k \<noteq> k' \<and> ohas k ob"
  by (simp add: ohas_iff)

lemma oput_ne [simp]: "oput k v ob \<noteq> []"
  by (cases "(k, v, ob)" rule: oput.cases) auto

lemma category_simps [simp]:
  "getBillingCategory ''billing_mode'' = Tiered" "getBillingCategory ''billing_expr'' = Tiered" "getBillingCategory ''model_price'' = Price"
  by (simp_all add: getBillingCategory_def)

lemma ohas_clear:
  "ohas f (clear_other_categories c r) \<longleftrightarrow>
     ohas f r \<and> (c = Tiered \<or> getBillingCategory f = Tiered \<or> getBillingCategory f = c)"
  by (force simp: ohas_def clear_other_categories_def image_iff)

lemma owf_clear: "owf r \<Longrightarrow> owf (clear_other_categories c r)"
  by (simp add: owf_def clear_other_categories_def distinct_map_filter)

lemma ohas_pair:
  "ohas f (pair_tiered md source ft r) \<Longrightarrow> ohas f r \<or> getBillingCategory f = Tiered"
  "ohas f r \<Longrightarrow> ohas f (pair_tiered md source ft r)"
  "ft = ''billing_expr'' \<or> ohas ''billing_mode'' r \<Longrightarrow> ohas ''billing_mode'' (pair_tiered md source ft r)"
  "owf r \<Longrightarrow> owf (pair_tiered md source ft r)"
  "r \<noteq> [] \<Longrightarrow> pair_tiered md source ft r \<noteq> []"
  by (auto simp: pair_tiered_def Let_def ohas_oput split: if_splits)

lemma tiered_fields: "getBillingCategory f = Tiered \<Longrightarrow> f = ''billing_mode'' \<or> f = ''billing_expr''"
  by (auto simp: getBillingCategory_def split: if_splits)

lemma coherent_select:
  assumes r: "r0 = [] \<or> coherent r0"
  shows "coherent (let r1 = oput ft v (clear_other_categories (getBillingCategory ft) r0)
                   in if getBillingCategory ft = Tiered then pair_tiered md source ft r1 else r1)"
proof -
  let ?r1 = "oput ft v (clear_other_categories (getBillingCategory ft) r0)"
  have w: "owf ?r1" using r by (auto simp: coherent_def clear_other_categories_def owf_def intro!: owf_oput [unfolded owf_def] distinct_map_filter)
  have c0: "getBillingCategory f = getBillingCategory g"
    if "ohas f r0" "ohas g r0" "getBillingCategory f \<noteq> Tiered" "getBillingCategory g \<noteq> Tiered" for f g
    using r that by (auto simp: coherent_def ohas_def)
  have e0: "ohas ''billing_expr'' r0 \<Longrightarrow> ohas ''billing_mode'' r0" using r by (auto simp: coherent_def ohas_def)
  have c1: "getBillingCategory f = getBillingCategory g"
    if "ohas f ?r1" "ohas g ?r1" "getBillingCategory f \<noteq> Tiered" "getBillingCategory g \<noteq> Tiered" for f g
    using that c0 [of f g] by (auto simp: ohas_oput ohas_clear)
  show ?thesis
  proof (cases "getBillingCategory ft = Tiered")
    case True
    let ?r2 = "pair_tiered md source ft ?r1"
    have "ohas ''billing_mode'' ?r2" if "ohas ''billing_expr'' ?r2"
    proof (cases "ft = ''billing_expr''")
      case False
      then have "ft = ''billing_mode''" using tiered_fields [OF True] by simp
      then show ?thesis by (intro ohas_pair(2)) (simp add: ohas_oput)
    qed (simp add: ohas_pair(3))
    moreover have "getBillingCategory f = getBillingCategory g"
      if "ohas f ?r2" "ohas g ?r2" "getBillingCategory f \<noteq> Tiered" "getBillingCategory g \<noteq> Tiered" for f g
      using that c1 [of f g] ohas_pair(1) by blast
    ultimately show ?thesis using True w by (simp add: coherent_def ohas_pair(4,5) Let_def)
  next
    case False
    then have "ohas ''billing_mode'' ?r1" if "ohas ''billing_expr'' ?r1"
      using that e0 by (auto simp: ohas_oput ohas_clear)
    then show ?thesis using False w c1 by (simp add: coherent_def Let_def)
  qed
qed

definition selections_ok :: "Resolutions \<Rightarrow> bool" where
  "selections_ok res \<longleftrightarrow> owf res \<and> (\<forall>model r. oget res model = Some r \<longrightarrow> coherent r)"

lemma select_ok:
  assumes "selections_ok res" "source \<noteq> []" "ohas model diffs"
  shows "selections_ok (handleSelectValue diffs model f v source res)"
proof -
  obtain md where md: "oget diffs model = Some md" using assms(3) by (auto simp: ohas_iff)
  let ?r0 = "case oget res model of Some r \<Rightarrow> r | None \<Rightarrow> []"
  have "?r0 = [] \<or> coherent ?r0" using assms(1) by (auto simp: selections_ok_def split: option.splits)
  from coherent_select [OF this, of "getPreferredSyncField md f source" _ md source] assms(1,2)
  show ?thesis by (auto simp: selections_ok_def handleSelectValue_def md owf_oput Let_def)
qed

lemma delete_ok:
  assumes "selections_ok res"
  shows "selections_ok (deleteResolutionField res model f)"
proof (cases "oget res model")
  case (Some r)
  let ?r1 = "odel f r"
  let ?r2 = "if f = ''billing_expr'' then odel ''billing_mode'' ?r1 else ?r1"
  let ?r3 = "if f = ''billing_mode'' then odel ''billing_expr'' ?r2 else ?r2"
  have c: "coherent r" using assms Some by (simp add: selections_ok_def)
  have h: "ohas g ?r3 \<Longrightarrow> ohas g r" for g by (auto simp: ohas_odel split: if_splits)
  have "coherent ?r3" if "?r3 \<noteq> []"
    unfolding coherent_def
  proof (intro conjI allI impI)
    show "owf ?r3" using c by (simp add: coherent_def owf_odel)
    show "ohas ''billing_mode'' ?r3" if "ohas ''billing_expr'' ?r3"
      using that c by (auto simp: coherent_def ohas_odel split: if_splits)
    show "getBillingCategory g = getBillingCategory g'"
      if "ohas g ?r3" "ohas g' ?r3" "getBillingCategory g \<noteq> Tiered" "getBillingCategory g' \<noteq> Tiered" for g g'
      using that h c by (simp add: coherent_def)
  qed (fact that)
  then show ?thesis using assms Some by (auto simp: selections_ok_def deleteResolutionField_def Let_def owf_oput owf_odel split: if_splits)
qed (use assms in \<open>simp add: deleteResolutionField_def\<close>)

lemma bulk_select_ok:
  assumes "selections_ok res" "upstream \<noteq> []" "\<forall>row \<in> set rows. ohas (fst row) diffs"
  shows "selections_ok (handleBulkSelect diffs upstream rows flt res)"
proof -
  have "\<forall>(model, f, v) \<in> set (concat (map (selectable_cells upstream flt) rows)). ohas model diffs"
    using assms(3) by (auto simp: selectable_cells_def map_filter_def)
  then have "selections_ok (fold (\<lambda>(model, f, v). handleSelectValue diffs model f v upstream) cells res)"
    if "cells = concat (map (selectable_cells upstream flt) rows)" for cells
    unfolding that [symmetric] using assms(1) by (induction cells arbitrary: res) (auto simp: select_ok [OF _ assms(2)])
  then show ?thesis by (simp add: handleBulkSelect_def)
qed

lemma bulk_unselect_ok: "selections_ok res \<Longrightarrow> selections_ok (handleBulkUnselect upstream rows flt res)"
proof -
  have f: "selections_ok (fold (\<lambda>f res. if c f then deleteResolutionField res m f else res) fs res)" if "selections_ok res" for c m fs res
    using that by (induction fs arbitrary: res) (auto simp: delete_ok)
  show "selections_ok res \<Longrightarrow> ?thesis"
    unfolding handleBulkUnselect_def by (induction rows arbitrary: res) (auto simp: f)
qed

lemma filtered_rows: "row \<in> set (filteredData diffs query flt) \<Longrightarrow> ohas (fst row) diffs"
  by (auto simp: filteredData_def ohas_def Let_def split: if_splits)

lemma steps_ok: "sync_steps pg evs pg2 \<Longrightarrow> selections_ok (resolutions pg) \<Longrightarrow> selections_ok (resolutions pg2)"
proof (induction rule: sync_steps.induct)
  case (more pg ev evs pg2)
  have "selections_ok (resolutions (sync_event ev pg))"
    using more.hyps(1) more.prems
    by (cases ev) (auto simp: sync_event_def sync_possible_def ratiosFetched_def select_ok delete_ok bulk_unselect_ok
        selections_ok_def [of "[]"] owf_def intro!: bulk_select_ok dest: filtered_rows)
  then show ?case by (rule more.IH)
qed

lemma initial_ok: "selections_ok (resolutions initSync)"
  by (simp add: selections_ok_def initSync_def owf_def)

text \<open>
  Whatever is fetched, ticked and unticked, single values or whole columns, no model ever has both a fixed price and a
  ratio selected, an expression is never selected without a billing mode, and a model without any selected field is not listed.
\<close>
theorem selections_one_category:
  assumes "sync_steps initSync evs pg" "oget (resolutions pg) model = Some r"
  shows "r \<noteq> [] \<and> \<not> (ohas ''model_price'' r \<and> (\<exists>f \<in> set RATIO_SYNC_FIELDS. ohas f r)) \<and>
     (ohas ''billing_expr'' r \<longrightarrow> ohas ''billing_mode'' r)"
proof -
  have "coherent r" using steps_ok [OF assms(1) initial_ok] assms(2) by (simp add: selections_ok_def)
  moreover have "\<forall>f \<in> set RATIO_SYNC_FIELDS. getBillingCategory f = Ratio" by code_simp
  ultimately show ?thesis unfolding coherent_def
    by (metis Billing.distinct(1) Billing.distinct(3) Billing.distinct(5) category_simps(3))
qed

subsection \<open>What is written for a model\<close>

lemma entries_oget: "owf ob \<Longrightarrow> oget (own_entries ob) = oget ob"
proof
  fix k
  assume w: "owf ob"
  then have d: "distinct (map fst ob)" "distinct (map fst (own_entries ob))"
    using own_entries_distinct [of ob] by (simp_all add: owf_def)
  show "oget (own_entries ob) k = oget ob k"
  proof (cases "oget ob k")
    case None
    then show ?thesis by (metis map_of_eq_None_iff set_own_entries)
  next
    case (Some v)
    then show ?thesis using d by (simp add: map_of_eq_Some_iff)
  qed
qed

text \<open>The entry of a model in one of the dictionaries.\<close>

definition dict_view :: "json obj obj \<Rightarrow> string \<Rightarrow> string \<Rightarrow> json option" where
  "dict_view F k m = (case oget F k of Some d \<Rightarrow> oget d m | None \<Rightarrow> None)"

definition written_value :: "string \<Rightarrow> json \<Rightarrow> json" where
  "written_value f v = (if f \<in> set NUMERIC_SYNC_FIELDS then number_json v else v)"

lemma at_keys [simp]: "map fst (at_option k f F) = map fst F"
  by (simp add: at_option_def comp_def case_prod_beta)

lemma oget_at: "oget (at_option k f F) k' = map_option (\<lambda>d. if k' = k then f d else d) (oget F k')"
  by (induction F) (auto simp: at_option_def)

lemma keys_of: "map fst F = map fst G \<Longrightarrow> ohas k F = ohas k G"
  by (simp add: ohas_def) (metis list.set_map)

lemma view_at:
  "dict_view (at_option k f F) k' m = (if k' = k then (case oget F k of Some d \<Rightarrow> oget (f d) m | None \<Rightarrow> None) else dict_view F k' m)"
  by (auto simp: dict_view_def oget_at split: option.splits)

lemma view_delete:
  "dict_view (at_option k (odel m0) F) k' m = (if k' = k \<and> m = m0 then None else dict_view F k' m)"
  unfolding view_at by (auto simp: dict_view_def split: option.splits)

lemma view_deletes:
  "dict_view (fold (\<lambda>k. at_option k (odel m0)) ks F) k' m = (if k' \<in> set ks \<and> m = m0 then None else dict_view F k' m)"
  by (induction ks arbitrary: F) (auto simp: view_delete)

lemma deletes_keys [simp]: "map fst (fold (\<lambda>k. at_option k (odel m0)) ks F) = map fst F"
  by (induction ks arbitrary: F) simp_all

lemma write_keys [simp]: "map fst (write_field m0 fv F) = map fst F"
  by (simp add: write_field_def)

lemma writes_keys [simp]: "map fst (fold (write_field m0) fvs F) = map fst F"
  by (induction fvs arbitrary: F) simp_all

lemma view_write:
  "m0 \<noteq> ''__proto__'' \<Longrightarrow> ohas k F \<Longrightarrow>
     dict_view (write_field m0 (f, v) F) k m =
       (if k = optionKeyBySyncField f \<and> m = m0 then Some (written_value f v) else dict_view F k m)"
  unfolding write_field_def view_at by (auto simp: dict_view_def written_value_def assign_oput ohas_iff split: option.splits)

lemma view_writes:
  assumes "m0 \<noteq> ''__proto__''" "ohas k F" "distinct (map (optionKeyBySyncField \<circ> fst) fvs)"
  shows "dict_view (fold (write_field m0) fvs F) k m =
    (if m = m0 then (case map_of (map (\<lambda>(f, v). (optionKeyBySyncField f, written_value f v)) fvs) k of
                       Some w \<Rightarrow> Some w | None \<Rightarrow> dict_view F k m)
     else dict_view F k m)"
  using assms(2,3)
proof (induction fvs arbitrary: F)
  case (Cons fv fvs)
  obtain f v where fv: "fv = (f, v)" by (cases fv)
  have h: "ohas k (write_field m0 fv F)" using Cons.prems(1) keys_of [of "write_field m0 fv F" F k] by simp
  have n: "map_of (map (\<lambda>(f, v). (optionKeyBySyncField f, written_value f v)) fvs) (optionKeyBySyncField f) = None"
    using Cons.prems(2) by (force simp: fv map_of_eq_None_iff)
  show ?case
    using Cons.IH [OF h] Cons.prems n by (auto simp: fv view_write assms(1) split: option.splits)
qed simp

lemma merge_keys [simp]: "map fst (merge_model mr F) = map fst F"
  by (cases mr) (simp add: merge_model_def Let_def)

text \<open>What the selection of a model means for one of the options.\<close>

definition after_sync :: "json obj \<Rightarrow> string \<Rightarrow> json option \<Rightarrow> json option" where
  "after_sync r k old =
     (case find (\<lambda>f. optionKeyBySyncField f = k \<and> ohas f r) SYNC_FIELD_ORDER of
        Some f \<Rightarrow> map_option (written_value f) (oget r f)
      | None \<Rightarrow>
          if (k \<in> set RATIO_OPTIONS \<and> ohas ''model_price'' r) \<or> (k = ''ModelPrice'' \<and> (\<exists>f \<in> set RATIO_SYNC_FIELDS. ohas f r))
          then None else old)"

lemma option_keys:
  "map optionKeyBySyncField SYNC_FIELD_ORDER =
     [''ModelRatio'', ''CompletionRatio'', ''CacheRatio'', ''CreateCacheRatio'', ''ImageRatio'', ''AudioRatio'', ''AudioCompletionRatio'',
      ''ModelPrice'', ''billing_setting.billing_mode'', ''billing_setting.billing_expr'']"
  by code_simp

lemma option_keys_distinct: "distinct (map optionKeyBySyncField SYNC_FIELD_ORDER)"
  unfolding option_keys by code_simp

lemma option_key_inj: "f \<in> set SYNC_FIELD_ORDER \<Longrightarrow> g \<in> set SYNC_FIELD_ORDER \<Longrightarrow> optionKeyBySyncField f = optionKeyBySyncField g \<Longrightarrow> f = g"
  using option_keys_distinct by (auto simp: distinct_map inj_on_def)

lemma find_key:
  assumes "owf r" "fst ` set r \<subseteq> set SYNC_FIELD_ORDER"
  shows "map_of (map (\<lambda>(f, v). (optionKeyBySyncField f, written_value f v)) (own_entries r)) k =
    (case find (\<lambda>f. optionKeyBySyncField f = k \<and> ohas f r) SYNC_FIELD_ORDER of
       Some f \<Rightarrow> map_option (written_value f) (oget r f) | None \<Rightarrow> None)"
proof -
  let ?es = "map (\<lambda>(f, v). (optionKeyBySyncField f, written_value f v)) (own_entries r)"
  have "inj_on optionKeyBySyncField (fst ` set r)" using option_key_inj assms(2) by (intro inj_onI) blast
  then have d: "distinct (map fst ?es)"
    using own_entries_distinct [OF assms(1)] by (simp add: owf_def comp_def case_prod_beta distinct_map inj_on_def image_iff)
  show ?thesis
  proof (cases "find (\<lambda>f. optionKeyBySyncField f = k \<and> ohas f r) SYNC_FIELD_ORDER")
    case None
    then have "\<forall>f \<in> set SYNC_FIELD_ORDER. \<not> (optionKeyBySyncField f = k \<and> ohas f r)" by (simp add: find_None_iff)
    then have "k \<notin> fst ` set ?es" using assms(2) by (fastforce simp: ohas_def)
    then show ?thesis using None by (simp add: map_of_eq_None_iff)
  next
    case (Some f)
    then have f: "optionKeyBySyncField f = k" "ohas f r" by (auto simp: find_Some_iff)
    then obtain v where v: "oget r f = Some v" by (auto simp: ohas_iff)
    then have "(k, written_value f v) \<in> set ?es" using f(1) by (force dest: map_of_SomeD)
    then show ?thesis using Some v d by (simp add: map_of_is_SomeI)
  qed
qed

lemma view_merge:
  assumes "m0 \<noteq> ''__proto__''" "ohas k F" "owf r" "fst ` set r \<subseteq> set SYNC_FIELD_ORDER"
  shows "dict_view (merge_model (m0, r) F) k m = (if m = m0 then after_sync r k (dict_view F k m) else dict_view F k m)"
proof -
  define f1 where "f1 = (if ohas ''model_price'' r then fold (\<lambda>k. at_option k (odel m0)) RATIO_OPTIONS F else F)"
  define f2 where "f2 = (if \<exists>f \<in> set RATIO_SYNC_FIELDS. ohas f r then at_option ''ModelPrice'' (odel m0) f1 else f1)"
  have keys: "map fst f2 = map fst F" by (simp add: f2_def f1_def)
  have h: "ohas k f2" using keys_of [OF keys] assms(2) by simp
  have v2: "dict_view f2 k m =
      (if m = m0 \<and> ((k \<in> set RATIO_OPTIONS \<and> ohas ''model_price'' r) \<or> (k = ''ModelPrice'' \<and> (\<exists>f \<in> set RATIO_SYNC_FIELDS. ohas f r)))
       then None else dict_view F k m)"
    by (auto simp: f2_def f1_def view_delete view_deletes)
  have d: "distinct (map (optionKeyBySyncField \<circ> fst) (own_entries r))"
  proof -
    have "inj_on optionKeyBySyncField (fst ` set r)" using option_key_inj assms(4) by (intro inj_onI) blast
    moreover have "distinct (map fst (own_entries r))" using own_entries_distinct [OF assms(3)] by (simp add: owf_def)
    ultimately show ?thesis by (simp flip: map_map add: distinct_map)
  qed
  have "merge_model (m0, r) F = fold (write_field m0) (own_entries r) f2"
    by (simp add: merge_model_def f1_def f2_def Let_def)
  then have v: "dict_view (merge_model (m0, r) F) k m =
      (if m = m0 then (case (case find (\<lambda>f. optionKeyBySyncField f = k \<and> ohas f r) SYNC_FIELD_ORDER of
                               Some f \<Rightarrow> map_option (written_value f) (oget r f) | None \<Rightarrow> None) of
                         Some w \<Rightarrow> Some w | None \<Rightarrow> dict_view f2 k m)
       else dict_view f2 k m)"
    using view_writes [OF assms(1) h d, of m] find_key [OF assms(3,4), of k] by simp
  show ?thesis
  proof (cases "find (\<lambda>f. optionKeyBySyncField f = k \<and> ohas f r) SYNC_FIELD_ORDER")
    case None
    then show ?thesis using v v2 by (auto simp: after_sync_def)
  next
    case (Some f)
    then have "ohas f r" by (auto simp: find_Some_iff)
    then obtain x where "oget r f = Some x" by (auto simp: ohas_iff)
    then show ?thesis using v v2 Some by (simp add: after_sync_def)
  qed
qed

lemma view_merges:
  assumes "owf rs" "ohas k F" "\<forall>(m, r) \<in> set rs. m \<noteq> ''__proto__'' \<and> owf r \<and> fst ` set r \<subseteq> set SYNC_FIELD_ORDER"
  shows "dict_view (fold merge_model rs F) k m =
    (case oget rs m of Some r \<Rightarrow> after_sync r k (dict_view F k m) | None \<Rightarrow> dict_view F k m)"
  using assms
proof (induction rs arbitrary: F)
  case (Cons mr rs)
  obtain m0 r where mr: "mr = (m0, r)" by (cases mr)
  have p: "m0 \<noteq> ''__proto__''" "owf r" "fst ` set r \<subseteq> set SYNC_FIELD_ORDER" using Cons.prems(3) by (auto simp: mr)
  have h: "ohas k (merge_model mr F)" using Cons.prems(2) keys_of [of "merge_model mr F" F k] by simp
  have w: "owf rs" "m0 \<notin> fst ` set rs" using Cons.prems(1) by (auto simp: owf_def mr)
  have n: "oget rs m0 = None" using w(2) by (simp add: map_of_eq_None_iff)
  have "dict_view (fold merge_model (mr # rs) F) k m =
      (case oget rs m of Some r' \<Rightarrow> after_sync r' k (dict_view (merge_model mr F) k m) | None \<Rightarrow> dict_view (merge_model mr F) k m)"
    using Cons.IH [OF w(1) h] Cons.prems(3) by simp
  then show ?case
    unfolding mr view_merge [OF p(1) Cons.prems(2) p(2,3)] using n by (auto split: option.splits)
qed simp

subsection \<open>What a sync leaves on the server\<close>

definition dicts_ok :: "json obj obj \<Rightarrow> bool" where
  "dicts_ok F \<longleftrightarrow> (\<forall>p \<in> set F. parsed_ok (JObj (snd p)))"

lemma dicts_ok_at: "dicts_ok F \<Longrightarrow> (\<And>d. parsed_ok (JObj d) \<Longrightarrow> parsed_ok (JObj (f d))) \<Longrightarrow> dicts_ok (at_option k f F)"
  by (auto simp: dicts_ok_def at_option_def simp del: parsed_ok.simps)

lemma parsed_ok_odel: "parsed_ok (JObj d) \<Longrightarrow> parsed_ok (JObj (odel k d))"
  by (auto simp: owf_odel) (auto simp: odel_def)

lemma parsed_ok_number: "parsed_ok v \<Longrightarrow> parsed_ok (number_json v)"
proof (cases v)
  case (JStr s)
  have "wf_num n" if "js_Number t = Some n" for t n
    using that by (auto simp: js_Number_def Let_def wf_canon split: prod.splits if_splits option.splits list.splits)
  moreover have "wf_num zero_num" by code_simp
  ultimately show ?thesis
    by (auto simp: JStr number_json_def number_of_text_def Let_def split: jsfloat.splits option.splits)
qed (simp_all add: number_json_def)

lemma dicts_ok_write: "dicts_ok F \<Longrightarrow> parsed_ok (snd fv) \<Longrightarrow> dicts_ok (write_field m0 fv F)"
  unfolding write_field_def
  by (rule dicts_ok_at) (auto simp: assign_def parsed_ok_number simp del: parsed_ok.simps intro!: parsed_ok_oput)

lemma dicts_ok_writes: "dicts_ok F \<Longrightarrow> \<forall>fv \<in> set fvs. parsed_ok (snd fv) \<Longrightarrow> dicts_ok (fold (write_field m0) fvs F)"
  by (induction fvs arbitrary: F) (simp_all add: dicts_ok_write)

lemma dicts_ok_deletes: "dicts_ok F \<Longrightarrow> dicts_ok (fold (\<lambda>k. at_option k (odel m0)) ks F)"
  by (induction ks arbitrary: F) (simp_all add: dicts_ok_at parsed_ok_odel del: parsed_ok.simps)

lemma dicts_ok_merge: "dicts_ok F \<Longrightarrow> \<forall>p \<in> set (snd mr). parsed_ok (snd p) \<Longrightarrow> dicts_ok (merge_model mr F)"
  by (cases mr) (auto simp: merge_model_def Let_def dicts_ok_deletes dicts_ok_at parsed_ok_odel simp del: parsed_ok.simps intro!: dicts_ok_writes)

lemma dicts_ok_merges:
  "dicts_ok F \<Longrightarrow> \<forall>mr \<in> set rs. \<forall>p \<in> set (snd mr). parsed_ok (snd p) \<Longrightarrow> dicts_ok (fold merge_model rs F)"
  by (induction rs arbitrary: F) (simp_all add: dicts_ok_merge)

text \<open>What the selections hold: values that were parsed from a reply, for the known fields.\<close>

definition known_fields :: "Resolutions \<Rightarrow> bool" where
  "known_fields res \<longleftrightarrow>
     (\<forall>(m, r) \<in> set res. m \<noteq> ''__proto__'' \<and> fst ` set r \<subseteq> set SYNC_FIELD_ORDER \<and> (\<forall>p \<in> set r. parsed_ok (snd p)))"

definition texts_of :: "(string \<Rightarrow> string) \<Rightarrow> (string \<Rightarrow> json obj) \<Rightarrow> bool" where
  "texts_of texts D \<longleftrightarrow> (\<forall>k \<in> set SYNC_OPTIONS. json_parse (texts k) = Some (JObj (D k)))"

lemma parsed_dict: "texts_of texts D \<Longrightarrow> k \<in> set SYNC_OPTIONS \<Longrightarrow> parsedRatios texts k = JObj (D k)"
proof -
  have "json_parse [] = None" by code_simp
  then show "texts_of texts D \<Longrightarrow> k \<in> set SYNC_OPTIONS \<Longrightarrow> ?thesis"
    by (auto simp: parsedRatios_def parseJsonRecord_def texts_of_def)
qed

lemma merges_keys [simp]: "map fst (fold merge_model rs F) = map fst F"
  by (induction rs arbitrary: F) simp_all

lemma final_keys: "map fst (finalRatios L res) = SYNC_OPTIONS"
  by (simp add: finalRatios_def comp_def)

definition synced :: "(string \<Rightarrow> json obj) \<Rightarrow> Resolutions \<Rightarrow> string \<Rightarrow> string \<Rightarrow> json option" where
  "synced D res k m = (case oget res m of Some r \<Rightarrow> after_sync r k (oget (D k) m) | None \<Rightarrow> oget (D k) m)"

lemma final_dict:
  assumes "selections_ok res" "known_fields res" "texts_of texts D" "k \<in> set SYNC_OPTIONS"
  obtains d where "oget (finalRatios (parsedRatios texts) res) k = Some d" "parsed_ok (JObj d)" "\<And>m. oget d m = synced D res k m"
proof -
  let ?F = "map (\<lambda>k. (k, spread_fields (parsedRatios texts k))) SYNC_OPTIONS"
  have F: "?F = map (\<lambda>k. (k, D k)) SYNC_OPTIONS" using parsed_dict [OF assms(3)] by simp
  have ok: "dicts_ok ?F"
  proof -
    have "parsed_ok (JObj (D k))" if "k \<in> set SYNC_OPTIONS" for k
      using assms(3) that by (auto simp: texts_of_def simp del: parsed_ok.simps intro: json_parse_ok)
    then show ?thesis unfolding F by (auto simp: dicts_ok_def simp del: parsed_ok.simps)
  qed
  have w: "owf res" "owf (own_entries res)" using assms(1) own_entries_distinct [of res] by (simp_all add: selections_ok_def)
  have each: "m \<noteq> ''__proto__'' \<and> owf r \<and> fst ` set r \<subseteq> set SYNC_FIELD_ORDER" if "(m, r) \<in> set (own_entries res)" for m r
  proof -
    have "oget res m = Some r" using that w(1) by (simp add: owf_def)
    then show ?thesis using assms(1,2) that by (fastforce simp: selections_ok_def coherent_def known_fields_def)
  qed
  have h: "ohas k ?F" using assms(4) by (force simp: ohas_def)
  have "ohas k (finalRatios (parsedRatios texts) res)"
    using h keys_of [of "finalRatios (parsedRatios texts) res" ?F k] by (simp add: finalRatios_def)
  then obtain d where d: "oget (finalRatios (parsedRatios texts) res) k = Some d" by (auto simp: ohas_iff)
  have "dicts_ok (finalRatios (parsedRatios texts) res)"
    unfolding finalRatios_def using ok assms(2) by (intro dicts_ok_merges) (fastforce simp: known_fields_def)+
  then have p: "parsed_ok (JObj d)" using d by (force simp: dicts_ok_def simp del: parsed_ok.simps dest: map_of_SomeD)
  have v: "dict_view ?F k m = oget (D k) m" for m
    unfolding F dict_view_def using assms(4) by (simp add: map_of_map_restrict)
  have "dict_view (finalRatios (parsedRatios texts) res) k m = synced D res k m" for m
  proof -
    have "\<forall>(m, r) \<in> set (own_entries res). m \<noteq> ''__proto__'' \<and> owf r \<and> fst ` set r \<subseteq> set SYNC_FIELD_ORDER" using each by blast
    from view_merges [OF w(2) h this, of m] show ?thesis
      unfolding finalRatios_def by (simp add: synced_def entries_oget [OF w(1)] v split: option.splits)
  qed
  then have "oget d m = synced D res k m" for m using d by (simp add: dict_view_def)
  with d p show ?thesis by (rule that)
qed

lemma oget_tidy: "owf d \<Longrightarrow> tidy (JObj d) = JObj e \<Longrightarrow> oget e m = map_option tidy (oget d m)"
proof -
  assume d: "owf d" and e: "tidy (JObj d) = JObj e"
  have "e = map (\<lambda>(k, v). (k, tidy v)) (own_entries d)" using e by (auto simp: case_prod_beta)
  then show ?thesis using entries_oget [OF d] by (simp add: map_of_map)
qed

text \<open>
  Whatever was selected, a sync sends each of the ten options as a JSON text that reads back with exactly the selected values: a
  model whose fixed price was chosen loses its ratios, one whose ratio was chosen loses its price, and every other entry stays as it was.
\<close>
theorem sync_writes_selection:
  assumes "sync_steps initSync evs pg" "known_fields (resolutions pg)" "texts_of texts D" "k \<in> set SYNC_OPTIONS"
  shows "\<exists>text e. oget (sync_updates (parsedRatios texts) (resolutions pg)) k = Some text \<and> json_parse text = Some (JObj e) \<and>
    (\<forall>m. oget e m = map_option tidy (synced D (resolutions pg) k m))"
proof -
  have ok: "selections_ok (resolutions pg)" using steps_ok [OF assms(1) initial_ok] .
  obtain d where d: "oget (finalRatios (parsedRatios texts) (resolutions pg)) k = Some d" "parsed_ok (JObj d)"
    "\<And>m. oget d m = synced D (resolutions pg) k m"
    using final_dict [OF ok assms(2,3,4)] by metis
  have "oget (sync_updates (parsedRatios texts) (resolutions pg)) k = Some (stringify2 (JObj d))"
    using d(1) by (simp add: sync_updates_def map_of_map)
  moreover obtain e where e: "tidy (JObj d) = JObj e" by simp
  moreover have "json_parse (stringify2 (JObj d)) = Some (JObj e)" using parse_stringify2_tidy [OF d(2)] e by simp
  moreover have "oget e m = map_option tidy (synced D (resolutions pg) k m)" for m
    using oget_tidy [OF _ e] d(2,3) by simp
  ultimately show ?thesis by blast
qed

subsection \<open>When the page asks first\<close>

lemma any_local_dicts:
  "\<forall>k \<in> set ks. L k = JObj (D k) \<Longrightarrow> any_local L m ks = Some (\<exists>k \<in> set ks. oget (D k) m \<noteq> None)"
  by (induction ks) (auto simp: rec_value_def)

lemma local_category:
  assumes "texts_of texts D"
  shows "getLocalBillingCategory (parsedRatios texts) m =
    Some (if oget (D ''ModelPrice'') m \<noteq> None then Some Price
          else if \<exists>k \<in> set RATIO_OPTIONS. oget (D k) m \<noteq> None then Some Ratio else None)"
proof -
  have L: "parsedRatios texts ''ModelPrice'' = JObj (D ''ModelPrice'')" "\<forall>k \<in> set RATIO_OPTIONS. parsedRatios texts k = JObj (D k)"
    using parsed_dict [OF assms] by (auto simp: SYNC_OPTIONS_def)
  show ?thesis using any_local_dicts [OF L(2), of m] by (simp add: getLocalBillingCategory_def L(1) rec_value_def)
qed

lemma no_conflict:
  assumes "all_conflicts L diffs rs = Some []" "mr \<in> set rs"
  shows "conflictOf L diffs mr = Some None"
  using assms
proof (induction rs)
  case (Cons x rs)
  then obtain y cs where y: "conflictOf L diffs x = Some y" "all_conflicts L diffs rs = Some cs"
      "(case y of Some c \<Rightarrow> c # cs | None \<Rightarrow> cs) = []"
    by (auto simp: bind_eq_Some_conv)
  then have "y = None" "cs = []" by (cases y; simp)+
  then show ?case using Cons y by auto
qed simp

text \<open>
  A sync that is not confirmed in the dialog never takes a price away: for every model that had only a fixed price or only
  ratios, each entry that was there before is there afterwards, with the value that was selected for it or its old one.
\<close>
theorem unconfirmed_sync_keeps_prices:
  assumes "sync_steps initSync evs pg" "known_fields (resolutions pg)" "texts_of texts D"
    and "fst (handleApplySync (parsedRatios texts) pg) = SyncNow"
    and "\<not> (oget (D ''ModelPrice'') m \<noteq> None \<and> (\<exists>k \<in> set RATIO_OPTIONS. oget (D k) m \<noteq> None))"
    and "k \<in> set RATIO_OPTIONS \<union> {''ModelPrice''}" "oget (D k) m \<noteq> None"
  shows "synced D (resolutions pg) k m \<noteq> None"
proof (cases "oget (resolutions pg) m")
  case None
  then show ?thesis using assms(7) by (simp add: synced_def)
next
  case (Some r)
  have "\<exists>cs. all_conflicts (parsedRatios texts) (differences pg) (own_entries (resolutions pg)) = Some cs \<and> cs = []"
    using assms(4) by (auto simp: handleApplySync_def split: option.splits if_splits)
  then have "conflictOf (parsedRatios texts) (differences pg) (m, r) = Some None"
    using no_conflict Some by (metis map_of_SomeD set_own_entries)
  moreover define lc where "lc = (if oget (D ''ModelPrice'') m \<noteq> None then Some Price
          else if \<exists>k \<in> set RATIO_OPTIONS. oget (D k) m \<noteq> None then Some Ratio else None)"
  ultimately have c: "lc = None \<or> newCategory r = Tiered \<or> lc = Some (newCategory r)"
    unfolding conflictOf_def prod.case local_category [OF assms(3)] lc_def [symmetric]
    by (auto simp: Let_def bind_eq_Some_conv split: option.splits if_splits)
  have "lc \<noteq> None" using assms(6,7) by (auto simp: lc_def)
  moreover have "lc = Some Price \<longrightarrow> k = ''ModelPrice''" "lc = Some Ratio \<longrightarrow> k \<in> set RATIO_OPTIONS"
    using assms(5-7) by (auto simp: lc_def split: if_splits)
  moreover have "lc \<noteq> Some Tiered" by (simp add: lc_def)
  ultimately have n: "\<not> (k \<in> set RATIO_OPTIONS \<and> ohas ''model_price'' r)"
      "\<not> (k = ''ModelPrice'' \<and> (\<exists>f \<in> set RATIO_SYNC_FIELDS. ohas f r))"
    using c selections_one_category [OF assms(1) Some]
    by (auto simp: newCategory_def RATIO_OPTIONS_def split: if_splits)
  have "after_sync r k (oget (D k) m) \<noteq> None"
  proof (cases "find (\<lambda>f. optionKeyBySyncField f = k \<and> ohas f r) SYNC_FIELD_ORDER")
    case None
    then show ?thesis using n assms(7) by (auto simp: after_sync_def)
  next
    case (Some f)
    then have "ohas f r" by (auto simp: find_Some_iff)
    then show ?thesis using Some by (auto simp: after_sync_def ohas_iff)
  qed
  then show ?thesis using Some by (simp add: synced_def)
qed

subsection \<open>A sync that fails half-way\<close>

definition written :: "(string \<times> string) list \<Rightarrow> (string \<Rightarrow> string) \<Rightarrow> string \<Rightarrow> string" where
  "written us stored = fold (\<lambda>(k, v) st. st(k := v)) us stored"

lemma written_other: "k \<notin> fst ` set us \<Longrightarrow> written us stored k = stored k"
  unfolding written_def by (induction us arbitrary: stored) (auto simp: case_prod_beta)

lemma written_oget: "distinct (map fst us) \<Longrightarrow> oget us k = Some v \<Longrightarrow> written us stored k = v"
proof (induction us arbitrary: stored)
  case (Cons u us)
  then show ?case
    using written_other [of "fst u" us "stored(fst u := snd u)"] by (auto simp: written_def case_prod_beta split: if_splits)
qed simp

lemma settle_sent [simp]: "sent (settle c out app) = sent app"
  by (simp add: settle_def on_response_def on_error_def toast_def split: Outcome.split)

lemma sends_until_rejected:
  assumes "n < length us" "\<And>i rq. i < n \<Longrightarrow> \<exists>b. net (length (sent app) + i) rq = Reply b"
    and "\<And>rq. \<exists>e. net (length (sent app) + n) rq = Rejected e"
  shows "\<exists>e app1. send_syncs net us app = (Some e, app1) \<and>
    sent app1 = sent app @ map (\<lambda>(k, v). updateSystemOption k (JStr v)) (take (Suc n) us)"
  using assms
proof (induction us arbitrary: n app)
  case (Cons u us)
  obtain k v where u: "u = (k, v)" by (cases u)
  let ?r = "updateSystemOption k (JStr v)"
  show ?case
  proof (cases n)
    case 0
    obtain e where "net (length (sent app)) ?r = Rejected e" using Cons.prems(3) [of ?r] by (auto simp: 0)
    then show ?thesis by (simp add: u 0 request_def Let_def)
  next
    case (Suc n')
    obtain b where b: "net (length (sent app)) ?r = Reply b" using Cons.prems(2) [of 0 ?r] by (auto simp: Suc)
    let ?app1 = "settle (config ?r) (Reply b) (app\<lparr>sent := sent app @ [?r]\<rparr>)"
    have l: "length (sent ?app1) = Suc (length (sent app))" by simp
    have "\<exists>e app2. send_syncs net us ?app1 = (Some e, app2) \<and>
        sent app2 = sent ?app1 @ map (\<lambda>(k, v). updateSystemOption k (JStr v)) (take (Suc n') us)"
    proof (rule Cons.IH)
      show "n' < length us" using Cons.prems(1) by (simp add: Suc)
      show "\<exists>b. net (length (sent ?app1) + i) rq = Reply b" if "i < n'" for i rq
        using Cons.prems(2) [of "Suc i" rq] that unfolding l by (simp add: Suc)
      show "\<exists>e. net (length (sent ?app1) + n') rq = Rejected e" for rq
        using Cons.prems(3) [of rq] unfolding l by (simp add: Suc)
    qed
    then show ?thesis using b by (simp add: u Suc request_def Let_def)
  qed
qed simp

lemma updates_keys: "map fst (sync_updates L res) = SYNC_OPTIONS"
  using final_keys [of L res] by (simp add: sync_updates_def comp_def case_prod_beta)

lemma options_first: "take 7 SYNC_OPTIONS = RATIO_OPTIONS" "distinct SYNC_OPTIONS" "distinct RATIO_OPTIONS"
  by code_simp+

text \<open>
  The ten options are written one after the other, the ratios before the price. When a fixed price was chosen for a model and the
  connection fails between the two, the ratios of the model are gone and the price is not there: the model has no price at all.
\<close>
theorem failed_sync_leaves_model_unpriced:
  assumes "sync_steps initSync evs pg" "known_fields (resolutions pg)" "texts_of stored D"
    and "oget (resolutions pg) m = Some r" "ohas ''model_price'' r" "oget (D ''ModelPrice'') m = None"
    and "\<And>i rq. i < 7 \<Longrightarrow> \<exists>b. net (length (sent app) + i) rq = Reply b" "\<And>rq. \<exists>e. net (length (sent app) + 7) rq = Rejected e"
  shows "\<exists>e app1. send_syncs net (sync_updates (parsedRatios stored) (resolutions pg)) app = (Some e, app1) \<and>
    length (sent app1) = length (sent app) + 8 \<and>
    (\<forall>k \<in> set RATIO_OPTIONS \<union> {''ModelPrice''}.
       \<exists>d. parsedRatios (written (take 7 (sync_updates (parsedRatios stored) (resolutions pg))) stored) k = JObj d \<and> oget d m = None)"
proof -
  let ?us = "sync_updates (parsedRatios stored) (resolutions pg)"
  have len: "length ?us = 10" using arg_cong [OF updates_keys, of length] by (simp add: SYNC_OPTIONS_def RATIO_OPTIONS_def)
  have "7 < length ?us" by (simp add: len)
  then have "\<exists>e app1. send_syncs net ?us app = (Some e, app1) \<and>
      sent app1 = sent app @ map (\<lambda>(k, v). updateSystemOption k (JStr v)) (take (Suc 7) ?us)"
    using assms(7,8) by (rule sends_until_rejected)
  then obtain e app1 where send: "send_syncs net ?us app = (Some e, app1)"
      "sent app1 = sent app @ map (\<lambda>(k, v). updateSystemOption k (JStr v)) (take (Suc 7) ?us)"
    by (elim exE conjE) (rule that)
  have t7: "map fst (take 7 ?us) = RATIO_OPTIONS"
    by (simp only: take_map [symmetric] updates_keys options_first(1))
  have dist: "distinct (map fst (take 7 ?us))" "distinct (map fst ?us)"
    by (simp_all only: t7 updates_keys options_first(2,3))
  have "\<exists>d. parsedRatios (written (take 7 ?us) stored) k = JObj d \<and> oget d m = None" if k: "k \<in> set RATIO_OPTIONS \<union> {''ModelPrice''}" for k
  proof (cases "k \<in> set RATIO_OPTIONS")
    case True
    have ks: "k \<in> set SYNC_OPTIONS" using True by (simp add: SYNC_OPTIONS_def)
    obtain tx d where t: "oget ?us k = Some tx" "json_parse tx = Some (JObj d)" "oget d m = map_option tidy (synced D (resolutions pg) k m)"
      using sync_writes_selection [OF assms(1,2,3) ks] by blast
    have "(k, tx) \<in> set (take 7 ?us)"
    proof -
      have "k \<in> fst ` set (take 7 ?us)" using True t7 by (metis list.set_map)
      then obtain x where x: "(k, x) \<in> set (take 7 ?us)" by auto
      then have "(k, x) \<in> set ?us" by (rule in_set_takeD)
      then show ?thesis using t(1) x dist(2) by (simp add: map_of_is_SomeI)
    qed
    then have w: "written (take 7 ?us) stored k = tx" by (intro written_oget [OF dist(1)]) (simp add: dist(1) map_of_is_SomeI)
    have "find (\<lambda>f. optionKeyBySyncField f = k \<and> ohas f r) SYNC_FIELD_ORDER = None"
    proof -
      have one: "\<not> (\<exists>f \<in> set RATIO_SYNC_FIELDS. ohas f r)" using selections_one_category [OF assms(1,4)] assms(5) by blast
      have "\<forall>f \<in> set SYNC_FIELD_ORDER. optionKeyBySyncField f \<in> set RATIO_OPTIONS \<longrightarrow> f \<in> set RATIO_SYNC_FIELDS" by code_simp
      then show ?thesis using one True by (auto simp: find_None_iff)
    qed
    then have "synced D (resolutions pg) k m = None" using True assms(4,5) by (simp add: synced_def after_sync_def)
    moreover have "tx \<noteq> []" using t(2) by (cases tx) (auto simp: json_parse_def)
    ultimately show ?thesis using t(2,3) w by (simp add: parsedRatios_def parseJsonRecord_def)
  next
    case False
    then have "k = ''ModelPrice''" using k by simp
    moreover have "written (take 7 ?us) stored k = stored k" using False t7 by (intro written_other) (metis list.set_map)
    ultimately show ?thesis
      using assms(6) parsed_dict [OF assms(3), of k] by (simp add: parsedRatios_def SYNC_OPTIONS_def)
  qed
  then show ?thesis using send len by simp
qed

text \<open>
  A run: the server has a ratio for the model, another server a fixed price, which is selected; the eighth request, which
  would write the price, fails.
\<close>

definition demo_texts :: "string \<Rightarrow> string" where
  "demo_texts k = stringify (JObj (if k = ''ModelRatio'' then [(''m'', JNum (num_of_int 2))] else []))"

definition demo_dicts :: "string \<Rightarrow> json obj" where
  "demo_dicts k = (if k = ''ModelRatio'' then [(''m'', JNum (num_of_int 2))] else [])"

definition demo_diffs :: "ModelDiffs obj" where
  "demo_diffs = [(''m'', [(''model_price'', \<lparr>dCurrent = JNull, upstreams = [(''peer'', JNum (num_of_int 1))]\<rparr>)])]"

definition demo_events :: "SyncEvent list" where
  "demo_events = [RatiosFetched demo_diffs, SelectValue ''m'' ''model_price'' (JNum (num_of_int 1)) ''peer'']"

definition sync_demo_page :: SyncPage where
  "sync_demo_page = \<lparr>differences = demo_diffs, resolutions = [(''m'', [(''model_price'', JNum (num_of_int 1))])],
     conflictItems = [], conflictDialogOpen = False\<rparr>"

definition cut_line :: "nat \<Rightarrow> nat \<Rightarrow> Request \<Rightarrow> Outcome" where
  "cut_line n i rq = (if i < n then Reply \<lparr>success = Some True, message = None, error_code = None, data = None, balance = None\<rparr> else Rejected \<lparr>status = None, server_message = None, err_message = ''Network Error''\<rparr>)"

lemma demo_texts_of: "texts_of demo_texts demo_dicts"
proof -
  have "wf_json (JObj (demo_dicts k))" for k
    by (simp add: demo_dicts_def owf_def own_entries_id not_index_start own_entries_def)
  then have "json_parse (stringify (JObj (demo_dicts k))) = Some (JObj (demo_dicts k))" for k by (rule json_parse_stringify)
  moreover have "demo_texts k = stringify (JObj (demo_dicts k))" for k by (simp only: demo_texts_def demo_dicts_def)
  ultimately show ?thesis by (simp only: texts_of_def) blast
qed

lemma demo_steps: "sync_steps initSync demo_events sync_demo_page"
proof -
  have s: "handleSelectValue demo_diffs ''m'' ''model_price'' (JNum (num_of_int 1)) ''peer'' [] = resolutions sync_demo_page"
    by code_simp
  have "ohas ''m'' demo_diffs" by (simp add: demo_diffs_def ohas_def)
  then show ?thesis
    by (simp add: demo_events_def sync_steps_simps sync_possible_def sync_event_def ratiosFetched_def initSync_def s)
      (simp add: sync_demo_page_def)
qed

lemma half_sync_example:
  "\<exists>e app1. send_syncs (cut_line 7) (sync_updates (parsedRatios demo_texts) (resolutions sync_demo_page)) app0 = (Some e, app1)
    \<and> length (sent app1) = 8"
  if "sent app0 = []"
proof -
  have "known_fields (resolutions sync_demo_page)" by code_simp
  then show ?thesis
    using failed_sync_leaves_model_unpriced [OF demo_steps _ demo_texts_of, where m = "''m''" and r = "[(''model_price'', JNum (num_of_int 1))]" and app = app0 and net = "cut_line 7"] that
    by (auto simp: sync_demo_page_def ohas_def demo_dicts_def cut_line_def)
qed

subsection \<open>A check box of a column, and a custom endpoint\<close>

text \<open>Ticking off one source removes what was selected from another one for the same field.\<close>

lemma delete_filters:
  assumes "oget res m = Some r"
  shows "\<exists>P. oget (deleteResolutionField res m g) m = (if filter P r = [] then None else Some (filter P r))
    \<and> (\<forall>p. fst p = g \<longrightarrow> \<not> P p)"
proof -
  let ?P = "\<lambda>p :: string \<times> json. fst p \<noteq> g \<and> (g = ''billing_expr'' \<longrightarrow> fst p \<noteq> ''billing_mode'') \<and> (g = ''billing_mode'' \<longrightarrow> fst p \<noteq> ''billing_expr'')"
  define r3 where "r3 = filter ?P r"
  have "(let r1 = odel g r; r2 = (if g = ''billing_expr'' then odel ''billing_mode'' r1 else r1)
      in if g = ''billing_mode'' then odel ''billing_expr'' r2 else r2) = r3"
    unfolding r3_def by (auto simp: odel_def Let_def intro: filter_cong)
  then have "oget (deleteResolutionField res m g) m = (if r3 = [] then None else Some r3)"
    using assms by (auto simp: deleteResolutionField_def Let_def)
  then show ?thesis unfolding r3_def by (intro exI [of _ ?P]) simp
qed

lemma unselect_drops_other_source:
  assumes "oget res m = Some [(f, v)]" "f \<in> set (getOrderedRatioTypes d flt)" "upstream_at d f other \<noteq> None"
  shows "oget (handleBulkUnselect other [(m, d)] flt res) m = None"
proof -
  obtain xs ys where fs: "getOrderedRatioTypes d flt = xs @ f # ys" using assms(2) by (meson split_list)
  let ?step = "\<lambda>g res. if upstream_at d g other \<noteq> None then deleteResolutionField res m g else res"
  have one: "oget (?step g res) m \<in> {None, Some [(f, v)]}" if "oget res m \<in> {None, Some [(f, v)]}" for g res
  proof (cases "oget res m = None \<or> upstream_at d g other = None")
    case True
    then show ?thesis using that by (auto simp: deleteResolutionField_def)
  next
    case False
    then have "oget res m = Some [(f, v)]" using that by auto
    from delete_filters [OF this, of g] False show ?thesis by auto
  qed
  have same: "oget (fold ?step gs res) m \<in> {None, Some [(f, v)]}" if "oget res m \<in> {None, Some [(f, v)]}" for gs res
    using that by (induction gs arbitrary: res) (use one in \<open>simp_all del: insert_iff\<close>)
  have gone: "oget (fold ?step gs res) m = None" if "oget res m = None" for gs res
    using that by (induction gs arbitrary: res) (auto simp: deleteResolutionField_def)
  have "oget (fold ?step xs res) m \<in> {None, Some [(f, v)]}" using same assms(1) by blast
  then have "oget (?step f (fold ?step xs res)) m = None"
  proof
    assume "oget (fold ?step xs res) m = None"
    then show ?thesis by (auto simp: deleteResolutionField_def)
  next
    assume "oget (fold ?step xs res) m \<in> {Some [(f, v)]}"
    then have "oget (fold ?step xs res) m = Some [(f, v)]" by simp
    from delete_filters [OF this, of f] assms(3) show ?thesis by auto
  qed
  then have "oget (fold ?step ys (?step f (fold ?step xs res))) m = None" by (rule gone)
  moreover have "handleBulkUnselect other [(m, d)] flt res = fold ?step (xs @ f # ys) res"
    by (simp only: handleBulkUnselect_def fs fst_conv snd_conv fold_simps)
  ultimately show ?thesis by (simp only: fold_append fold_simps o_apply)
qed

text \<open>Choosing a custom endpoint shows the default one again, without the input for an address.\<close>

lemma custom_endpoint_unreachable:
  "currentEndpoint (handleTypeChange i ''custom'' eps) i = DEFAULT_ENDPOINT"
  "getEndpointType (currentEndpoint (handleTypeChange i ''custom'' eps) i) = DEFAULT_ENDPOINT"
  "typeEndpoint i v (handleTypeChange i ''custom'' eps) = handleTypeChange i ''custom'' eps"
proof -
  show e: "currentEndpoint (handleTypeChange i ''custom'' eps) i = DEFAULT_ENDPOINT"
    by (simp add: currentEndpoint_def handleTypeChange_def updateEndpoint_def)
  show k: "getEndpointType (currentEndpoint (handleTypeChange i ''custom'' eps) i) = DEFAULT_ENDPOINT"
    unfolding e by code_simp
  show "typeEndpoint i v (handleTypeChange i ''custom'' eps) = handleTypeChange i ''custom'' eps"
    unfolding typeEndpoint_def k by (simp add: DEFAULT_ENDPOINT_def)
qed

end
