(* ===== verification/JsDouble.thy ===== *)
theory JsDouble
  imports Complex_Main "HOL-Library.Log_Nat"
begin

text \<open>
  The double-precision numbers of the language, where their rounding matters: an operation gives the double nearest
  to the exact result, the one with the even significand of two that are equally near (IEEE 754, binary64). A finite
  double is the rational it stands for. Subnormal numbers are modelled, the overflow to an infinity is not: the
  results that use \<open>fl64\<close> keep below \<open>2 ^ 1024\<close>.
\<close>

subsection \<open>Rounding\<close>

text \<open>The exponent of a number: \<open>2 powi binade x \<le> \<bar>x\<bar> < 2 powi (binade x + 1)\<close>.\<close>

definition binade :: "rat \<Rightarrow> int" where
  "binade x =
     (let (a, b) = quotient_of \<bar>x\<bar>; k = bitlen a - bitlen b
      in if 2 powi k \<le> \<bar>x\<bar> then k else k - 1)"

definition round_even :: "rat \<Rightarrow> int" where
  "round_even y =
     (let n = \<lfloor>y\<rfloor>; d = y - of_int n
      in if d < 1 / 2 then n else if 1 / 2 < d then n + 1 else if even n then n else n + 1)"

definition fl64 :: "rat \<Rightarrow> rat" where
  "fl64 x =
     (if x = 0 then 0
      else let ulp = 2 powi (max (binade x - 52) (- 1074)) in of_int (round_even (x / ulp)) * ulp)"

subsection \<open>The error of one operation\<close>

lemma bitlen_powi:
  assumes "0 < a"
  shows "2 powi (bitlen a - 1) \<le> (of_int a :: rat)" "(of_int a :: rat) < 2 powi bitlen a"
proof -
  from bitlen_bounds [OF assms] have b: "2 ^ nat (bitlen a - 1) \<le> a" "a < 2 ^ nat (bitlen a)" by auto
  have "0 < bitlen a" using assms using bitlen_eq_zero_iff [of a] bitlen_nonneg [of a] by linarith
  then have p: "(2 :: rat) powi (bitlen a - 1) = 2 ^ nat (bitlen a - 1)" "(2 :: rat) powi bitlen a = 2 ^ nat (bitlen a)"
    by (simp_all add: power_int_def)
  have "(of_int (2 ^ nat (bitlen a - 1)) :: rat) \<le> of_int a" "(of_int a :: rat) < of_int (2 ^ nat (bitlen a))"
    using b by (simp_all only: of_int_le_iff of_int_less_iff)
  then show "2 powi (bitlen a - 1) \<le> (of_int a :: rat)" "(of_int a :: rat) < 2 powi bitlen a" by (simp_all add: p)
qed

lemma binade_bounds:
  assumes "x \<noteq> 0"
  shows "2 powi binade x \<le> \<bar>x\<bar>" "\<bar>x\<bar> < 2 powi (binade x + 1)"
proof -
  obtain a b where q: "quotient_of \<bar>x\<bar> = (a, b)" by fastforce
  have b: "0 < b" and x: "\<bar>x\<bar> = of_int a / of_int b"
    using q quotient_of_denom_pos quotient_of_div by blast+
  then have a: "0 < a" using assms zero_less_abs_iff [of x] by (simp add: zero_less_divide_iff)
  define k where "k = bitlen a - bitlen b"
  have "\<bar>x\<bar> < 2 powi bitlen a / 2 powi (bitlen b - 1)"
    unfolding x using bitlen_powi [OF a] bitlen_powi [OF b] b a by (intro frac_less) simp_all
  also have "\<dots> = 2 powi (k + 1)" by (simp add: k_def power_int_diff power_int_add)
  finally have up: "\<bar>x\<bar> < 2 powi (k + 1)" .
  have "2 powi (k - 1) = 2 powi (bitlen a - 1) / (2 powi bitlen b :: rat)" by (simp add: k_def power_int_diff)
  also have "\<dots> \<le> \<bar>x\<bar>"
    unfolding x using bitlen_powi [OF a] bitlen_powi [OF b] b a by (intro frac_le) simp_all
  finally have low: "2 powi (k - 1) \<le> \<bar>x\<bar>" .
  have "binade x = (if 2 powi k \<le> \<bar>x\<bar> then k else k - 1)" by (simp add: binade_def q k_def Let_def)
  then show "2 powi binade x \<le> \<bar>x\<bar>" "\<bar>x\<bar> < 2 powi (binade x + 1)" using up low by auto
qed

lemma round_even_error: "\<bar>of_int (round_even y) - y\<bar> \<le> 1 / 2"
proof -
  have "of_int \<lfloor>y\<rfloor> \<le> y" "y < of_int \<lfloor>y\<rfloor> + 1" by linarith+
  then show ?thesis by (auto simp: round_even_def Let_def)
qed

definition eps :: rat where
  "eps = 1 / 2 ^ 53"

text \<open>In the range of the normal numbers the relative error is at most \<open>2 ^ -53\<close>.\<close>

lemma fl64_error:
  assumes "2 powi (- 1022) \<le> \<bar>x\<bar>"
  shows "\<bar>fl64 x - x\<bar> \<le> \<bar>x\<bar> * eps"
proof -
  have "(0 :: rat) < 2 powi (- 1022)" by (rule zero_less_power_int) simp
  then have "0 < \<bar>x\<bar>" using assms by (rule less_le_trans)
  then have x: "x \<noteq> 0" by simp
  have "(2 :: rat) powi (- 1022) < 2 powi (binade x + 1)" by (rule le_less_trans [OF assms binade_bounds(2) [OF x]])
  then have "- 1022 < binade x + 1" using power_int_increasing [of "binade x + 1" "- 1022" "2 :: rat"] by linarith
  then have m: "max (binade x - 52) (- 1074) = binade x - 52" by simp
  define s :: rat where "s = 2 powi (binade x - 52)"
  have s: "0 < s" by (simp add: s_def)
  have f: "fl64 x = of_int (round_even (x / s)) * s" using x by (simp add: fl64_def m s_def Let_def)
  have "fl64 x - x = (of_int (round_even (x / s)) - x / s) * s" using s by (simp add: f left_diff_distrib)
  then have "\<bar>fl64 x - x\<bar> = \<bar>of_int (round_even (x / s)) - x / s\<bar> * s" using s by (simp add: abs_mult)
  also have "\<dots> \<le> 1 / 2 * s" using round_even_error s by (intro mult_right_mono) simp_all
  also have "1 / 2 * s = 2 powi binade x * eps"
    by (simp add: s_def power_int_diff eps_def)
  also have "\<dots> \<le> \<bar>x\<bar> * eps" using binade_bounds(1) [OF x] by (intro mult_right_mono) (simp_all add: eps_def)
  finally show ?thesis .
qed

subsection \<open>Several operations\<close>

text \<open>\<open>y\<close> is \<open>x\<close> with the errors of at most \<open>k\<close> operations.\<close>

definition near :: "nat \<Rightarrow> rat \<Rightarrow> rat \<Rightarrow> bool" where
  "near k x y \<longleftrightarrow> \<bar>y - x\<bar> \<le> \<bar>x\<bar> * ((1 + eps) ^ k - 1)"

lemma near_refl [simp]: "near 0 x x"
  by (simp add: near_def)

lemma near_mult: "near k x y \<Longrightarrow> near k (x * c) (y * c)"
proof -
  assume "near k x y"
  then have "\<bar>y - x\<bar> * \<bar>c\<bar> \<le> \<bar>x\<bar> * ((1 + eps) ^ k - 1) * \<bar>c\<bar>" unfolding near_def by (rule mult_right_mono) simp
  moreover have "\<bar>y * c - x * c\<bar> = \<bar>y - x\<bar> * \<bar>c\<bar>" by (simp add: left_diff_distrib [symmetric] abs_mult)
  ultimately show ?thesis by (simp add: near_def abs_mult mult_ac)
qed

lemma near_divide: "near k x y \<Longrightarrow> near k (x / c) (y / c)"
  unfolding divide_inverse by (rule near_mult)

lemma near_bounds:
  assumes "near k x y" "k \<le> 4"
  shows "\<bar>y - x\<bar> \<le> \<bar>x\<bar> * (5 * eps)"
proof -
  have "(1 + eps) ^ k \<le> (1 + eps) ^ 4" by (rule power_increasing [OF assms(2)]) (simp add: eps_def)
  also have "\<dots> \<le> 1 + 5 * eps" by (simp add: eps_def field_simps)
  finally have "\<bar>x\<bar> * ((1 + eps) ^ k - 1) \<le> \<bar>x\<bar> * (5 * eps)" by (intro mult_left_mono) simp_all
  with assms(1) show ?thesis by (simp add: near_def)
qed

lemma near_size:
  assumes "near k x y" "k \<le> 4"
  shows "\<bar>x\<bar> / 2 \<le> \<bar>y\<bar>" "\<bar>y\<bar> \<le> 2 * \<bar>x\<bar>"
proof -
  have "\<bar>x\<bar> * (5 * eps) \<le> \<bar>x\<bar> * (1 / 2)" by (intro mult_left_mono) (simp_all add: eps_def)
  with near_bounds [OF assms] have "\<bar>y - x\<bar> \<le> \<bar>x\<bar> / 2" by simp
  then show "\<bar>x\<bar> / 2 \<le> \<bar>y\<bar>" "\<bar>y\<bar> \<le> 2 * \<bar>x\<bar>" by linarith+
qed

lemma near_fl64:
  assumes "near k x y" "k < 4" "2 powi (- 1000) \<le> \<bar>x\<bar>"
  shows "near (Suc k) x (fl64 y)"
proof -
  define p where "p = (1 + eps) ^ k"
  have "(2 :: rat) powi (- 1022) \<le> 2 powi (- 1000 - 1)" by (rule power_int_increasing) simp_all
  also have "\<dots> = 2 powi (- 1000) / 2" by (subst power_int_diff) simp_all
  also have "\<dots> \<le> \<bar>x\<bar> / 2" using assms(3) by (rule divide_right_mono) simp
  also have "\<dots> \<le> \<bar>y\<bar>" using near_size(1) [OF assms(1)] assms(2) by simp
  finally have "\<bar>fl64 y - y\<bar> \<le> \<bar>y\<bar> * eps" by (rule fl64_error)
  moreover have n: "\<bar>y - x\<bar> \<le> \<bar>x\<bar> * (p - 1)" using assms(1) by (simp add: near_def p_def)
  then have "\<bar>y\<bar> \<le> \<bar>x\<bar> * p" by (simp add: right_diff_distrib)
  then have "\<bar>y\<bar> * eps \<le> \<bar>x\<bar> * p * eps" by (rule mult_right_mono) (simp add: eps_def)
  ultimately have "\<bar>fl64 y - x\<bar> \<le> \<bar>x\<bar> * (p - 1) + \<bar>x\<bar> * p * eps" using n by linarith
  also have "\<dots> = \<bar>x\<bar> * ((1 + eps) ^ Suc k - 1)" by (simp add: p_def algebra_simps)
  finally show ?thesis by (simp add: near_def)
qed

end
