(* ===== verification/Currency.thy ===== *)
theory Currency
  imports Complex_Main JsJsonFacts JsDouble
begin

text \<open>
  Amounts: the currency configuration and formatting of \<^verbatim>\<open>lib/currency.ts\<close>, and the conversion
  between quota units and the displayed currency of \<^verbatim>\<open>lib/format.ts\<close>. Numbers are rationals and finite. The formatting
  and the two conversion functions are modelled with exact arithmetic; the conversion is modelled a second time with the
  rounding of every double operation (\<open>quotaUnitsToDollars64\<close>, \<open>parseQuotaFromDollars64\<close>), which is what decides whether a
  quota survives the form. \<open>toFixed\<close> is used below 10^21.
  What \<open>Intl.NumberFormat\<close> writes is a parameter.
\<close>

subsection \<open>Configuration\<close>

datatype CurrencyDisplayType = USD | CNY | TOKENS | CUSTOM

record CurrencyConfig =
  displayInCurrency :: bool
  quotaDisplayType :: CurrencyDisplayType
  quotaPerUnit :: rat
  usdExchangeRate :: rat
  customCurrencySymbol :: string
  customCurrencyExchangeRate :: rat

definition DEFAULT_CURRENCY_CONFIG :: CurrencyConfig where
  "DEFAULT_CURRENCY_CONFIG =
     \<lparr>displayInCurrency = True, quotaDisplayType = USD, quotaPerUnit = 500000, usdExchangeRate = 1,
      customCurrencySymbol = [CHR 0xA4], customCurrencyExchangeRate = 1\<rparr>"

fun type_name :: "CurrencyDisplayType \<Rightarrow> string" where
  "type_name USD = ''USD''"
| "type_name CNY = ''CNY''"
| "type_name TOKENS = ''TOKENS''"
| "type_name CUSTOM = ''CUSTOM''"

definition DISPLAY_TYPE_VALUES :: "CurrencyDisplayType list" where
  "DISPLAY_TYPE_VALUES = [USD, CNY, TOKENS, CUSTOM]"

definition isCurrencyDisplayType :: "json \<Rightarrow> bool" where
  "isCurrencyDisplayType v = (case v of JStr s \<Rightarrow> s \<in> set (map type_name DISPLAY_TYPE_VALUES) | _ \<Rightarrow> False)"

definition parseCurrencyDisplayType :: "json \<Rightarrow> CurrencyDisplayType \<Rightarrow> CurrencyDisplayType" where
  "parseCurrencyDisplayType v fallback =
     (case v of
        JStr s \<Rightarrow> (case filter (\<lambda>d. type_name d = s) DISPLAY_TYPE_VALUES of d # _ \<Rightarrow> d | [] \<Rightarrow> fallback)
      | _ \<Rightarrow> fallback)"

definition positive_or :: "rat \<Rightarrow> rat \<Rightarrow> rat" where
  "positive_or x d = (if x > 0 then x else d)"

definition getConfig :: "CurrencyConfig option \<Rightarrow> CurrencyConfig" where
  "getConfig stored =
     (let currency = (case stored of Some c \<Rightarrow> c | None \<Rightarrow> DEFAULT_CURRENCY_CONFIG);
          symbol = trim (customCurrencySymbol currency)
      in currency
           \<lparr>quotaPerUnit := positive_or (quotaPerUnit currency) (quotaPerUnit DEFAULT_CURRENCY_CONFIG),
            usdExchangeRate := positive_or (usdExchangeRate currency) (usdExchangeRate DEFAULT_CURRENCY_CONFIG),
            customCurrencyExchangeRate :=
              positive_or (customCurrencyExchangeRate currency) (customCurrencyExchangeRate DEFAULT_CURRENCY_CONFIG),
            customCurrencySymbol := (if symbol \<noteq> [] then symbol else customCurrencySymbol DEFAULT_CURRENCY_CONFIG)\<rparr>)"

datatype DisplayMeta =
  KCurrency (currencySymbol: string) (currencyCode: string) rat
| KCustom (currencySymbol: string) rat
| KTokens rat

definition getDisplayMeta :: "CurrencyConfig \<Rightarrow> DisplayMeta" where
  "getDisplayMeta c =
     (case quotaDisplayType c of
        CNY \<Rightarrow> KCurrency [CHR 0xA5] ''CNY'' (usdExchangeRate c)
      | CUSTOM \<Rightarrow> KCustom (customCurrencySymbol c) (customCurrencyExchangeRate c)
      | TOKENS \<Rightarrow> KTokens (quotaPerUnit c)
      | USD \<Rightarrow> KCurrency [CHR 0x24] ''USD'' 1)"

definition getBillingDisplayMeta :: "CurrencyConfig \<Rightarrow> DisplayMeta" where
  "getBillingDisplayMeta c =
     (case getDisplayMeta c of KTokens _ \<Rightarrow> KCurrency [CHR 0x24] ''USD'' 1 | m \<Rightarrow> m)"

definition getCurrencyDisplay :: "CurrencyConfig option \<Rightarrow> CurrencyConfig \<times> DisplayMeta" where
  "getCurrencyDisplay stored = (let c = getConfig stored in (c, getDisplayMeta c))"

subsection \<open>Writing numbers\<close>

record FormatOptions =
  digitsLarge :: nat
  digitsSmall :: nat
  abbreviate :: bool
  minimumNonZero :: rat

definition DEFAULT_FORMAT_OPTIONS :: FormatOptions where
  "DEFAULT_FORMAT_OPTIONS = \<lparr>digitsLarge = 2, digitsSmall = 4, abbreviate = True, minimumNonZero = 0\<rparr>"

text \<open>The options a caller gives: each may be missing.\<close>

type_synonym GivenOptions = "nat option \<times> nat option \<times> bool option \<times> rat option"

definition mergeOptions :: "GivenOptions option \<Rightarrow> FormatOptions" where
  "mergeOptions opts =
     (case opts of
        None \<Rightarrow> DEFAULT_FORMAT_OPTIONS
      | Some (dl, ds, ab, mn) \<Rightarrow>
          \<lparr>digitsLarge = (case dl of Some n \<Rightarrow> n | None \<Rightarrow> digitsLarge DEFAULT_FORMAT_OPTIONS),
           digitsSmall = (case ds of Some n \<Rightarrow> n | None \<Rightarrow> digitsSmall DEFAULT_FORMAT_OPTIONS),
           abbreviate = (case ab of Some b \<Rightarrow> b | None \<Rightarrow> abbreviate DEFAULT_FORMAT_OPTIONS),
           minimumNonZero = (case mn of Some x \<Rightarrow> x | None \<Rightarrow> minimumNonZero DEFAULT_FORMAT_OPTIONS)\<rparr>)"

text \<open>\<open>Math.round\<close>: a half goes up.\<close>

definition js_round :: "rat \<Rightarrow> int" where
  "js_round x = \<lfloor>x + 1 / 2\<rfloor>"

text \<open>\<open>x.toFixed(f)\<close> of a non-negative number: of two nearest the larger, with at least \<open>f + 1\<close> digits.\<close>

definition fixed_digits :: "rat \<Rightarrow> nat \<Rightarrow> string" where
  "fixed_digits x f =
     (let m = show_nat (nat (js_round (x * 10 ^ f))) in replicate (f + 1 - length m) (CHR ''0'') @ m)"

definition toFixed :: "rat \<Rightarrow> nat \<Rightarrow> string" where
  "toFixed x f =
     (let m = fixed_digits \<bar>x\<bar> f; k = length m - f
      in (if x < 0 then ''-'' else '''') @ take k m @ (if f = 0 then [] else CHR ''.'' # drop k m))"

text \<open>\<open>s.replace(/(\.[0-9]*?)0+$/, '$1').replace(/\.$/, '')\<close> for a text with one point and digits after it.\<close>

definition removeTrailingZeros :: "string \<Rightarrow> string" where
  "removeTrailingZeros s =
     (case cut_at ''.'' s of
        None \<Rightarrow> s
      | Some (whole, decs) \<Rightarrow>
          (let kept = rev (dropWhile (\<lambda>c. c = CHR ''0'') (rev decs))
           in if kept = [] then whole else whole @ ''.'' @ kept))"

definition formatNumberWithSuffix :: "rat \<Rightarrow> nat \<Rightarrow> nat \<Rightarrow> bool \<Rightarrow> string" where
  "formatNumberWithSuffix v dl ds ab =
     (if ab \<and> \<bar>v\<bar> \<ge> 1000 then removeTrailingZeros (toFixed (v / 1000) 1) @ ''k''
      else removeTrailingZeros (toFixed v (if \<bar>v\<bar> \<ge> 1 then dl else ds)))"

definition adjustForMinimum :: "rat \<Rightarrow> nat \<Rightarrow> rat \<Rightarrow> rat" where
  "adjustForMinimum v digits mn =
     (if v = 0 then v
      else (let threshold = (if mn > 0 then mn else 1 / 10 ^ digits)
            in if \<bar>v\<bar> > 0 \<and> \<bar>v\<bar> < threshold then (if v > 0 then threshold else - threshold) else v))"

text \<open>
  \<open>Intl.NumberFormat\<close> as a parameter: the currency code (none for plain numbers), the most fraction digits and
  the value.
\<close>

type_synonym Intl = "string option \<Rightarrow> nat \<Rightarrow> rat \<Rightarrow> string"

definition formatCurrencyValue :: "Intl \<Rightarrow> rat \<Rightarrow> FormatOptions \<Rightarrow> DisplayMeta \<Rightarrow> string" where
  "formatCurrencyValue intl v op meta =
     (let digits = (if \<bar>v\<bar> \<ge> 1 then digitsLarge op else digitsSmall op);
          adjusted = adjustForMinimum v digits (minimumNonZero op)
      in case meta of
           KTokens _ \<Rightarrow> formatNumberWithSuffix v (digitsLarge op) (digitsSmall op) (abbreviate op)
         | KCurrency _ cc _ \<Rightarrow> intl (Some cc) digits adjusted
         | KCustom symb _ \<Rightarrow> symb @ intl None digits adjusted)"

text \<open>Amounts are \<open>None\<close> for null, undefined and NaN.\<close>

definition formatCurrencyFromUSD :: "Intl \<Rightarrow> CurrencyConfig option \<Rightarrow> rat option \<Rightarrow> GivenOptions option \<Rightarrow> string" where
  "formatCurrencyFromUSD intl stored amount opts =
     (case amount of
        None \<Rightarrow> ''-''
      | Some a \<Rightarrow>
          (let (c, meta) = getCurrencyDisplay stored; merged = mergeOptions opts
           in case meta of
                KTokens _ \<Rightarrow> formatNumberWithSuffix (a * quotaPerUnit c) 0 (digitsSmall merged) (abbreviate merged)
              | KCurrency _ _ r \<Rightarrow> formatCurrencyValue intl (a * r) merged meta
              | KCustom _ r \<Rightarrow> formatCurrencyValue intl (a * r) merged meta))"

definition formatBillingCurrencyFromUSD :: "Intl \<Rightarrow> CurrencyConfig option \<Rightarrow> rat option \<Rightarrow> GivenOptions option \<Rightarrow> string" where
  "formatBillingCurrencyFromUSD intl stored amount opts =
     (case amount of
        None \<Rightarrow> ''-''
      | Some a \<Rightarrow>
          (let (c, _) = getCurrencyDisplay stored; meta = getBillingDisplayMeta c;
               v = (case meta of KCurrency _ _ r \<Rightarrow> a * r | KCustom _ r \<Rightarrow> a * r | KTokens _ \<Rightarrow> a)
           in formatCurrencyValue intl v (mergeOptions opts) meta))"

definition formatQuotaWithCurrency :: "Intl \<Rightarrow> CurrencyConfig option \<Rightarrow> rat option \<Rightarrow> GivenOptions option \<Rightarrow> string" where
  "formatQuotaWithCurrency intl stored quota opts =
     (case quota of
        None \<Rightarrow> ''-''
      | Some q \<Rightarrow>
          (let (c, _) = getCurrencyDisplay stored
           in formatCurrencyFromUSD intl stored (Some (q / quotaPerUnit c)) opts))"

definition getCurrencyLabel :: "CurrencyConfig option \<Rightarrow> string" where
  "getCurrencyLabel stored =
     (let (c, meta) = getCurrencyDisplay stored
      in case meta of
           KTokens _ \<Rightarrow> ''Tokens''
         | _ \<Rightarrow>
             (case quotaDisplayType c of
                CNY \<Rightarrow> ''CNY''
              | CUSTOM \<Rightarrow> (case meta of KCustom symb _ \<Rightarrow> symb | _ \<Rightarrow> ''Custom'')
              | _ \<Rightarrow> ''USD''))"

definition isCurrencyDisplayEnabled :: "CurrencyConfig option \<Rightarrow> bool" where
  "isCurrencyDisplayEnabled stored = (case snd (getCurrencyDisplay stored) of KTokens _ \<Rightarrow> False | _ \<Rightarrow> True)"

definition formatLocalCurrencyAmount :: "Intl \<Rightarrow> CurrencyConfig option \<Rightarrow> rat option \<Rightarrow> GivenOptions option \<Rightarrow> string" where
  "formatLocalCurrencyAmount intl stored amount opts =
     (case amount of
        None \<Rightarrow> ''-''
      | Some a \<Rightarrow>
          (let (c, _) = getCurrencyDisplay stored
           in formatCurrencyValue intl a (mergeOptions opts) (getBillingDisplayMeta c)))"

subsection \<open>Quota units (lib/format.ts)\<close>

definition formatQuota :: "Intl \<Rightarrow> CurrencyConfig option \<Rightarrow> rat \<Rightarrow> string" where
  "formatQuota intl stored quota = formatQuotaWithCurrency intl stored (Some quota) (Some (Some 2, Some 4, Some True, None))"

definition exchange_rate :: "DisplayMeta \<Rightarrow> rat" where
  "exchange_rate meta = (case meta of KCurrency _ _ r \<Rightarrow> r | KCustom _ r \<Rightarrow> r | KTokens _ \<Rightarrow> 1)"

definition parseQuotaFromDollars :: "CurrencyConfig option \<Rightarrow> rat \<Rightarrow> int" where
  "parseQuotaFromDollars stored amount =
     (let (c, meta) = getCurrencyDisplay stored
      in case meta of
           KTokens _ \<Rightarrow> js_round amount
         | _ \<Rightarrow>
             (let r = exchange_rate meta; usd = (if r > 0 then amount / r else amount)
              in js_round (usd * quotaPerUnit c)))"

definition quotaUnitsToDollars :: "CurrencyConfig option \<Rightarrow> rat \<Rightarrow> rat" where
  "quotaUnitsToDollars stored units =
     (let (c, meta) = getCurrencyDisplay stored
      in case meta of
           KTokens _ \<Rightarrow> units
         | _ \<Rightarrow> units / quotaPerUnit c * exchange_rate meta)"

subsection \<open>Conversion\<close>

lemma positive_or: "0 < d \<Longrightarrow> 0 < positive_or x d"
  by (simp add: positive_or_def)

lemma getConfig_positive [simp]:
  "0 < quotaPerUnit (getConfig stored)" "0 < usdExchangeRate (getConfig stored)"
  "0 < customCurrencyExchangeRate (getConfig stored)"
  by (simp_all add: getConfig_def Let_def DEFAULT_CURRENCY_CONFIG_def positive_or_def split: option.splits)

lemma getConfig_type: "quotaDisplayType (getConfig (Some c)) = quotaDisplayType c"
  by (simp add: getConfig_def Let_def)

lemma exchange_rate_positive: "0 < exchange_rate (getDisplayMeta (getConfig stored))"
  by (simp add: exchange_rate_def getDisplayMeta_def split: CurrencyDisplayType.splits)

lemma js_round_of_int [simp]: "js_round (of_int u) = u"
  by (simp add: js_round_def floor_eq_iff)

lemma units_roundtrip: "parseQuotaFromDollars stored (quotaUnitsToDollars stored (of_int u)) = u"
proof -
  let ?c = "getConfig stored"
  have r: "0 < exchange_rate (getDisplayMeta ?c)" by (rule exchange_rate_positive)
  have q: "quotaPerUnit ?c \<noteq> 0" using getConfig_positive(1) [of stored] by linarith
  show ?thesis
    using r q by (cases "getDisplayMeta ?c")
      (simp_all add: parseQuotaFromDollars_def quotaUnitsToDollars_def getCurrencyDisplay_def Let_def)
qed

subsection \<open>Conversion with doubles\<close>

text \<open>The same two functions with the rounding of each division and multiplication.\<close>

definition parseQuotaFromDollars64 :: "CurrencyConfig option \<Rightarrow> rat \<Rightarrow> int" where
  "parseQuotaFromDollars64 stored amount =
     (let (c, meta) = getCurrencyDisplay stored
      in case meta of
           KTokens _ \<Rightarrow> js_round amount
         | _ \<Rightarrow>
             (let r = exchange_rate meta; usd = (if r > 0 then fl64 (amount / r) else amount)
              in js_round (fl64 (usd * quotaPerUnit c))))"

definition quotaUnitsToDollars64 :: "CurrencyConfig option \<Rightarrow> rat \<Rightarrow> rat" where
  "quotaUnitsToDollars64 stored units =
     (let (c, meta) = getCurrencyDisplay stored
      in case meta of
           KTokens _ \<Rightarrow> units
         | _ \<Rightarrow> fl64 (fl64 (units / quotaPerUnit c) * exchange_rate meta))"

lemma js_round_close: "\<bar>x - of_int u\<bar> < 1 / 2 \<Longrightarrow> js_round x = u"
  unfolding js_round_def by linarith

text \<open>A rate that the double range has room for: neither vanishing nor huge.\<close>

definition usable_rate :: "rat \<Rightarrow> bool" where
  "usable_rate r \<longleftrightarrow> 2 powi (- 300) \<le> r \<and> r \<le> 2 powi 300"

lemma usable_quotient:
  assumes "2 powi i \<le> \<bar>x\<bar>" "usable_rate q" shows "2 powi (i - 300) \<le> \<bar>x / q\<bar>"
proof -
  have q: "0 < q" using assms(2) zero_less_power_int [of "2 :: rat" "- 300"] unfolding usable_rate_def by linarith
  have "(2 :: rat) powi i / 2 powi 300 \<le> \<bar>x\<bar> / q"
    using assms q by (intro frac_le) (simp_all add: usable_rate_def)
  then show ?thesis using q by (simp add: power_int_diff abs_divide)
qed

lemma usable_product:
  assumes "2 powi i \<le> \<bar>x\<bar>" "usable_rate r" shows "2 powi (i - 300) \<le> \<bar>x * r\<bar>"
proof -
  have r: "0 < r" using assms(2) zero_less_power_int [of "2 :: rat" "- 300"] unfolding usable_rate_def by linarith
  have "(2 :: rat) powi i * 2 powi (- 300) \<le> \<bar>x\<bar> * r"
    using assms by (intro mult_mono) (simp_all add: usable_rate_def)
  moreover have "(2 :: rat) powi (i - 300) = 2 powi i * 2 powi (- 300)"
    using power_int_add [of "2 :: rat" i "- 300"] by simp
  ultimately show ?thesis using r by (simp only: abs_mult abs_of_pos)
qed

text \<open>The four operations of showing and reading a quota, and their errors.\<close>

lemma four_operations:
  assumes u: "u \<noteq> 0" and q: "usable_rate q" and r: "usable_rate r"
  defines "a \<equiv> fl64 (fl64 (of_int u / q) * r)"
  shows "near 4 (of_int u) (fl64 (fl64 (a / r) * q))"
proof -
  have pos: "0 < q" "0 < r"
    using q r zero_less_power_int [of "2 :: rat" "- 300"] unfolding usable_rate_def by linarith+
  have u1: "2 powi 0 \<le> \<bar>of_int u :: rat\<bar>" using u by simp
  have s1: "2 powi (- 300) \<le> \<bar>of_int u / q\<bar>" using usable_quotient [OF u1 q] by simp
  have s2: "2 powi (- 600) \<le> \<bar>of_int u / q * r\<bar>" using usable_product [OF s1 r] by simp
  have big: "2 powi (- 1000) \<le> y" if "2 powi i \<le> y" "- 600 \<le> i" for i and y :: rat
    using power_int_increasing [of "- 1000" i "2 :: rat"] that by linarith
  have "near 1 (of_int u / q) (fl64 (of_int u / q))"
    using near_fl64 [OF near_refl _ big [OF s1]] by simp
  then have "near 1 (of_int u / q * r) (fl64 (of_int u / q) * r)" by (rule near_mult)
  then have "near 2 (of_int u / q * r) a"
    unfolding a_def using near_fl64 [OF _ _ big [OF s2], of 1] by (simp add: numeral_2_eq_2)
  then have "near 2 (of_int u / q * r / r) (a / r)" by (rule near_divide)
  then have "near 2 (of_int u / q) (a / r)" using pos by simp
  then have "near 3 (of_int u / q) (fl64 (a / r))"
    using near_fl64 [OF _ _ big [OF s1], of 2] by (simp add: numeral_3_eq_3)
  then have "near 3 (of_int u / q * q) (fl64 (a / r) * q)" by (rule near_mult)
  then have "near 3 (of_int u) (fl64 (a / r) * q)" using pos by simp
  then show ?thesis using near_fl64 [OF _ _ big [OF u1], of 3] by (simp add: eval_nat_numeral)
qed

text \<open>
  C17: With the rounding of doubles, a quota of at most 2^49 units that is shown in an input field and read back is
  the same number of units, in every currency and with every stored configuration whose rates are neither below 2^-300
  nor above 2^300 (broken rates fall back to the defaults): the errors of the four operations stay below half a unit, which
  \<open>Math.round\<close> removes; cutting the fraction off instead would lose a unit, as in the witness.
\<close>
theorem quota_survives_form:
  assumes "\<bar>u\<bar> \<le> 2 ^ 49"
    and "usable_rate (quotaPerUnit (getConfig stored))" "usable_rate (exchange_rate (getDisplayMeta (getConfig stored)))"
  shows "parseQuotaFromDollars64 stored (quotaUnitsToDollars64 stored (of_int u)) = u"
proof -
  let ?c = "getConfig stored"
  let ?r = "exchange_rate (getDisplayMeta ?c)"
  let ?a = "fl64 (fl64 (of_int u / quotaPerUnit ?c) * ?r)"
  have r: "0 < ?r" by (rule exchange_rate_positive)
  have "js_round (fl64 (fl64 (?a / ?r) * quotaPerUnit ?c)) = u"
  proof (cases "u = 0")
    case True
    then show ?thesis using js_round_of_int [of 0] by (simp add: fl64_def)
  next
    case False
    have "\<bar>of_int u :: rat\<bar> \<le> of_int (2 ^ 49)" using assms(1) by (simp only: of_int_abs [symmetric] of_int_le_iff)
    then have "\<bar>of_int u :: rat\<bar> * (5 * eps) \<le> 2 ^ 49 * (5 * eps)" by (intro mult_right_mono) (simp_all add: eps_def)
    also have "\<dots> < 1 / 2" by (simp add: eps_def)
    finally show ?thesis
      using near_bounds [OF four_operations [OF False assms(2,3)]] by (intro js_round_close) simp
  qed
  then show ?thesis using r
    by (cases "getDisplayMeta ?c")
      (simp_all add: parseQuotaFromDollars64_def quotaUnitsToDollars64_def getCurrencyDisplay_def Let_def)
qed

text \<open>At 7.3 yuan for a dollar, 25 units are shown as an amount that reads 24.999999999999996 units before rounding.\<close>

definition yuanConfig :: CurrencyConfig where
  "yuanConfig = DEFAULT_CURRENCY_CONFIG\<lparr>quotaDisplayType := CNY, usdExchangeRate := fl64 (73 / 10)\<rparr>"

lemma yuan_rate: "fl64 (73 / 10) = 8219069319951155 / 2 ^ 50"
  by code_simp

lemma yuan_shown: "fl64 (25 / 500000) = 7378697629483821 / 2 ^ 67"
  "fl64 (7378697629483821 / 2 ^ 67 * (8219069319951155 / 2 ^ 50)) = 3366530793451993 / 2 ^ 63"
  by (code_simp, code_simp)

lemma yuan_read: "fl64 (3366530793451993 / 2 ^ 63 / (8219069319951155 / 2 ^ 50)) = 1844674407370955 / 2 ^ 65"
  "fl64 (1844674407370955 / 2 ^ 65 * 500000) = 7036874417766399 / 2 ^ 48"
  by (code_simp, code_simp)

lemma usable_rateI: "1 \<le> r \<Longrightarrow> r \<le> 2 ^ 20 \<Longrightarrow> usable_rate r"
  using power_int_increasing [of "- 300" 0 "2 :: rat"] power_int_increasing [of 20 300 "2 :: rat"]
  by (simp add: usable_rate_def)

lemma quota_survives_form_witness:
  "parseQuotaFromDollars64 (Some yuanConfig) (quotaUnitsToDollars64 (Some yuanConfig) 25) = 25
   \<and> fl64 (fl64 (quotaUnitsToDollars64 (Some yuanConfig) 25 / fl64 (73 / 10)) * 500000) = 25 - 1 / 2 ^ 48"
proof -
  have c: "quotaPerUnit (getConfig (Some yuanConfig)) = 500000"
    "getDisplayMeta (getConfig (Some yuanConfig)) = KCurrency [CHR 0xA5] ''CNY'' (fl64 (73 / 10))"
    by (simp_all add: yuanConfig_def getConfig_def DEFAULT_CURRENCY_CONFIG_def positive_or_def getDisplayMeta_def yuan_rate Let_def)
  have "usable_rate (quotaPerUnit (getConfig (Some yuanConfig)))"
    "usable_rate (exchange_rate (getDisplayMeta (getConfig (Some yuanConfig))))"
    unfolding c by (simp_all add: exchange_rate_def yuan_rate usable_rateI)
  from quota_survives_form [OF _ this, of 25]
  have "parseQuotaFromDollars64 (Some yuanConfig) (quotaUnitsToDollars64 (Some yuanConfig) 25) = 25" by simp
  moreover have "quotaUnitsToDollars64 (Some yuanConfig) 25 = 3366530793451993 / 2 ^ 63"
    by (simp only: quotaUnitsToDollars64_def getCurrencyDisplay_def Let_def prod.case c DisplayMeta.case exchange_rate_def
        yuan_rate yuan_shown)
  then have "fl64 (fl64 (quotaUnitsToDollars64 (Some yuanConfig) 25 / fl64 (73 / 10)) * 500000) = 25 - 1 / 2 ^ 48"
    by (simp only: yuan_rate yuan_read) simp
  ultimately show ?thesis by blast
qed

subsection \<open>What the written numbers say\<close>

definition read_decimal :: "string \<Rightarrow> rat" where
  "read_decimal s =
     (let (neg, body) = opt_minus s;
          (w, f) = (case cut_at ''.'' body of Some p \<Rightarrow> p | None \<Rightarrow> (body, []))
      in (if neg then -1 else 1) * (of_nat (read_nat w) + of_nat (read_nat f) / 10 ^ length f))"

lemma js_round_error: "\<bar>of_int (js_round x) - x\<bar> \<le> 1 / 2"
proof -
  have "of_int \<lfloor>x + 1 / 2\<rfloor> \<le> x + 1 / 2" "x + 1 / 2 < of_int \<lfloor>x + 1 / 2\<rfloor> + 1" by linarith+
  then show ?thesis unfolding js_round_def by linarith
qed

lemma js_round_nonneg: "0 \<le> x \<Longrightarrow> 0 \<le> js_round x"
  by (simp add: js_round_def)

lemma fixed_digits_facts:
  "\<forall>c \<in> set (fixed_digits x f). is_digit c" "f < length (fixed_digits x f)"
  "read_nat (fixed_digits x f) = nat (js_round (x * 10 ^ f))"
  using show_nat_digits by (auto simp: fixed_digits_def Let_def read_nat_append is_digit_0)

lemma point_absent: "\<forall>c \<in> set w. is_digit c \<Longrightarrow> CHR ''.'' \<notin> set w" "\<not> is_digit (CHR ''.'')" "\<not> is_digit (CHR ''-'')"
  using digit_not_minus by blast+

lemma cut_at_point:
  assumes "CHR ''.'' \<notin> set w"
  shows "cut_at ''.'' w = None" "cut_at ''.'' (w @ CHR ''.'' # r) = Some (w, r)"
proof -
  have n: "\<not> str_includes ''.'' w" using assms by (auto simp: str_includes_iff)
  then show "cut_at ''.'' w = None" unfolding str_includes_def by blast
  from cut_at_first [OF refl _ n, of r] show "cut_at ''.'' (w @ CHR ''.'' # r) = Some (w, r)" by simp
qed

abbreviation sign_text :: "bool \<Rightarrow> string" where
  "sign_text neg \<equiv> (if neg then ''-'' else '''')"

abbreviation decimals :: "string \<Rightarrow> string" where
  "decimals d \<equiv> (if d = [] then [] else CHR ''.'' # d)"

lemma read_decimal_text:
  assumes "w \<noteq> []" "\<forall>c \<in> set w. is_digit c" "\<forall>c \<in> set d. is_digit c"
  shows "read_decimal (sign_text neg @ w @ decimals d) =
    (if neg then -1 else 1) * (of_nat (read_nat w) + of_nat (read_nat d) / 10 ^ length d)"
proof -
  have "opt_minus (sign_text neg @ w @ r) = (neg, w @ r)" for r
    using assms opt_minus_digits [of w r] by (cases neg) (auto simp: opt_minus_def)
  moreover have "cut_at ''.'' (w @ decimals d) = (if d = [] then None else Some (w, d))"
    using cut_at_point [OF point_absent(1) [OF assms(2)]] by simp
  ultimately show ?thesis by (auto simp: read_decimal_def read_nat_def Let_def)
qed

text \<open>Zeros at the end of the decimals do not count.\<close>

lemma strip_zeros:
  fixes d :: string
  defines "kept \<equiv> rev (dropWhile (\<lambda>c. c = CHR ''0'') (rev d))"
  shows "\<exists>j. d = kept @ replicate j (CHR ''0'')"
proof -
  have "rev d = takeWhile (\<lambda>c. c = CHR ''0'') (rev d) @ dropWhile (\<lambda>c. c = CHR ''0'') (rev d)" by simp
  moreover have "takeWhile (\<lambda>c. c = CHR ''0'') (rev d) = replicate (length (takeWhile (\<lambda>c. c = CHR ''0'') (rev d))) (CHR ''0'')"
    by (intro replicate_length_same [symmetric]) (auto dest: set_takeWhileD)
  ultimately have "rev d = replicate (length (takeWhile (\<lambda>c. c = CHR ''0'') (rev d))) (CHR ''0'') @ rev kept"
    unfolding kept_def by simp
  then have "d = kept @ replicate (length (takeWhile (\<lambda>c. c = CHR ''0'') (rev d))) (CHR ''0'')"
    by (metis rev_append rev_replicate rev_rev_ident)
  then show ?thesis by blast
qed

lemma fraction_of_padded:
  "(of_nat (read_nat (d @ replicate j (CHR ''0''))) :: rat) / 10 ^ length (d @ replicate j (CHR ''0'')) =
   of_nat (read_nat d) / 10 ^ length d"
  by (simp add: read_nat_append power_add)

lemma removeTrailingZeros_text:
  assumes w: "CHR ''.'' \<notin> set w" and d: "d = kept @ replicate j (CHR ''0'')" "kept = rev (dropWhile (\<lambda>c. c = CHR ''0'') (rev d))"
  shows "removeTrailingZeros (w @ decimals d) = w @ decimals kept"
proof (cases "d = []")
  case True
  with d show ?thesis using cut_at_point(1) [OF w] by (simp add: removeTrailingZeros_def)
next
  case False
  with d(2) show ?thesis using cut_at_point(2) [OF w] by (simp add: removeTrailingZeros_def Let_def)
qed

lemma read_removeTrailingZeros:
  "read_decimal (removeTrailingZeros (toFixed x f)) =
   (if x < 0 then -1 else 1) * of_int (js_round (\<bar>x\<bar> * 10 ^ f)) / 10 ^ f"
proof -
  define m where "m = fixed_digits \<bar>x\<bar> f"
  define w where "w = take (length m - f) m"
  define d where "d = drop (length m - f) m"
  have m: "\<forall>c \<in> set m. is_digit c" "f < length m" "read_nat m = nat (js_round (\<bar>x\<bar> * 10 ^ f))"
    unfolding m_def by (rule fixed_digits_facts)+
  have wd: "m = w @ d" "length d = f" "w \<noteq> []" using m(2) by (auto simp: w_def d_def)
  then have digits: "\<forall>c \<in> set w. is_digit c" "\<forall>c \<in> set d. is_digit c" using m(1) by auto
  have t: "toFixed x f = (sign_text (x < 0) @ w) @ decimals d"
    using wd(2) by (auto simp: toFixed_def m_def [symmetric] w_def d_def Let_def)
  obtain kept j where k: "d = kept @ replicate j (CHR ''0'')" "kept = rev (dropWhile (\<lambda>c. c = CHR ''0'') (rev d))"
    using strip_zeros [of d] by blast
  have "CHR ''.'' \<notin> set (sign_text (x < 0) @ w)" using point_absent(1) [OF digits(1)] by simp
  from removeTrailingZeros_text [OF this k]
  have "removeTrailingZeros (toFixed x f) = sign_text (x < 0) @ w @ decimals kept" by (simp add: t)
  moreover have "\<forall>c \<in> set kept. is_digit c" using digits(2) k(1) by auto
  ultimately have "read_decimal (removeTrailingZeros (toFixed x f)) =
      (if x < 0 then -1 else 1) * (of_nat (read_nat w) + of_nat (read_nat kept) / 10 ^ length kept)"
    by (metis read_decimal_text wd(3) digits(1))
  also have "of_nat (read_nat kept) / 10 ^ length kept = of_nat (read_nat d) / (10 ^ f :: rat)"
    using fraction_of_padded [of kept j] k(1) wd(2) by metis
  also have "of_nat (read_nat w) + of_nat (read_nat d) / 10 ^ f = of_nat (read_nat m) / (10 ^ f :: rat)"
    using wd by (simp add: read_nat_append add_divide_distrib)
  also have "of_nat (read_nat m) = (of_int (js_round (\<bar>x\<bar> * 10 ^ f)) :: rat)"
    using m(3) js_round_nonneg [of "\<bar>x\<bar> * 10 ^ f"] by simp
  finally show ?thesis by simp
qed

lemma shown_error: "\<bar>read_decimal (removeTrailingZeros (toFixed x f)) - x\<bar> \<le> 1 / 2 / 10 ^ f"
proof -
  define y where "y = \<bar>x\<bar> * 10 ^ f"
  have p: "(0 :: rat) < 10 ^ f" by simp
  have "\<bar>of_int (js_round y) / 10 ^ f - \<bar>x\<bar>\<bar> = \<bar>(of_int (js_round y) - y) / 10 ^ f\<bar>"
    by (simp add: y_def diff_divide_distrib)
  also have "\<dots> = \<bar>of_int (js_round y) - y\<bar> / 10 ^ f" by (simp add: abs_divide)
  also have "\<dots> \<le> (1 / 2) / 10 ^ f" using js_round_error [of y] p by (intro divide_right_mono) auto
  finally have "\<bar>of_int (js_round y) / 10 ^ f - \<bar>x\<bar>\<bar> \<le> 1 / 2 / 10 ^ f" .
  then show ?thesis unfolding read_removeTrailingZeros y_def [symmetric]
    by (cases "x < 0") (auto simp: abs_if split: if_splits)
qed

definition token_amount :: "CurrencyConfig \<Rightarrow> rat \<Rightarrow> rat" where
  "token_amount c a = a * quotaPerUnit (getConfig (Some c))"

definition shortened :: "GivenOptions option \<Rightarrow> rat \<Rightarrow> bool" where
  "shortened opts v \<longleftrightarrow> abbreviate (mergeOptions opts) \<and> \<bar>v\<bar> \<ge> 1000"

definition half_digit :: "GivenOptions option \<Rightarrow> rat \<Rightarrow> rat" where
  "half_digit opts v =
     (if shortened opts v then 50 else if \<bar>v\<bar> \<ge> 1 then 1 / 2 else 1 / 2 / 10 ^ digitsSmall (mergeOptions opts))"

text \<open>
  C39: Where quotas are shown as tokens, the written number (in thousands when it ends in k) differs from the
  number of tokens by at most half of the last digit written: 50 tokens for abbreviated amounts.
\<close>
theorem token_text_accurate:
  assumes "quotaDisplayType c = TOKENS"
  shows "\<exists>t. formatCurrencyFromUSD intl (Some c) (Some a) opts = t @ (if shortened opts (token_amount c a) then ''k'' else '''')
    \<and> \<bar>read_decimal t * (if shortened opts (token_amount c a) then 1000 else 1) - token_amount c a\<bar>
      \<le> half_digit opts (token_amount c a)"
proof -
  let ?v = "token_amount c a"
  have f: "formatCurrencyFromUSD intl (Some c) (Some a) opts =
      formatNumberWithSuffix ?v 0 (digitsSmall (mergeOptions opts)) (abbreviate (mergeOptions opts))"
    using assms by (simp add: formatCurrencyFromUSD_def getCurrencyDisplay_def getDisplayMeta_def getConfig_def Let_def token_amount_def)
  have k: "\<bar>read_decimal (removeTrailingZeros (toFixed (?v / 1000) 1)) * 1000 - ?v\<bar> \<le> 50"
    using shown_error [of "?v / 1000" 1] by (simp add: abs_le_iff field_simps)
  show ?thesis
  proof (cases "shortened opts ?v")
    case True
    with k show ?thesis unfolding f by (simp add: formatNumberWithSuffix_def shortened_def half_digit_def)
  next
    case False
    with shown_error [of ?v 0] shown_error [of ?v "digitsSmall (mergeOptions opts)"]
    show ?thesis unfolding f by (auto simp: formatNumberWithSuffix_def shortened_def half_digit_def)
  qed
qed

definition token_config :: CurrencyConfig where
  "token_config = DEFAULT_CURRENCY_CONFIG\<lparr>quotaDisplayType := TOKENS\<rparr>"

lemma token_config_unit: "quotaPerUnit (getConfig (Some token_config)) = 500000"
  by (simp add: token_config_def getConfig_def Let_def DEFAULT_CURRENCY_CONFIG_def positive_or_def)

lemma token_text_accurate_witness:
  "\<exists>t. formatCurrencyFromUSD (\<lambda>_ _ _. []) (Some token_config) (Some 10) None = t @ ''k'' \<and>
     \<bar>read_decimal t * 1000 - 5000000\<bar> \<le> 50"
proof -
  have c: "quotaDisplayType token_config = TOKENS" by (simp add: token_config_def)
  from token_text_accurate [OF c, of "\<lambda>_ _ _. []" 10 None]
  show ?thesis
    by (simp add: token_config_unit token_amount_def shortened_def half_digit_def mergeOptions_def DEFAULT_FORMAT_OPTIONS_def)
qed

text \<open>The example of the source's documentation, which promises 5,000,000.\<close>

lemma documented_example: "formatCurrencyFromUSD intl (Some token_config) (Some 10) None = ''5000k''"
proof -
  have c: "quotaDisplayType token_config = TOKENS" by (simp add: token_config_def)
  have "formatNumberWithSuffix 5000000 0 4 True = ''5000k''" by code_simp
  with c show ?thesis
    by (simp add: formatCurrencyFromUSD_def getCurrencyDisplay_def getDisplayMeta_def token_config_unit mergeOptions_def
        DEFAULT_FORMAT_OPTIONS_def getConfig_type)
qed

end
