(* ===== verification/ApiKeys.thy ===== *)
theory ApiKeys
  imports ChannelActions Currency
begin

text \<open>
  API keys (\<^verbatim>\<open>features/keys\<close>): the form and its payload (\<^verbatim>\<open>lib/api-key-form.ts\<close>), the drawer that creates
  and updates keys with its answers in any order, and the actions of the table. A date is its time in
  milliseconds. The parts of the page that show nothing of the state (collapsed sections, the side of the
  drawer) are left out.
\<close>

subsection \<open>Keys and requests (types.ts, constants.ts, api.ts)\<close>

definition STATUS_ENABLED :: int where "STATUS_ENABLED = 1"
definition STATUS_DISABLED :: int where "STATUS_DISABLED = 2"

definition DEFAULT_GROUP :: string where "DEFAULT_GROUP = ''auto''"

record ApiKey =
  keyId :: int
  keyName :: string
  keyText :: string
  keyStatus :: int
  remain_quota :: int
  unlimited_quota :: bool
  expired_time :: int
  keyGroup :: "string option"
  cross_group_retry :: bool
  model_limits_enabled :: bool
  model_limits :: "string option"
  allow_ips :: "string option"

record ApiKeyFormData =
  dName :: string
  dRemain :: int
  dExpired :: int
  dUnlimited :: bool
  dLimitsEnabled :: bool
  dLimits :: string
  dIps :: string
  dGroup :: string
  dRetry :: bool

definition form_data_json :: "ApiKeyFormData \<Rightarrow> json obj" where
  "form_data_json d =
     [(''name'', JStr (dName d)), (''remain_quota'', num_json (dRemain d)), (''expired_time'', num_json (dExpired d)),
      (''unlimited_quota'', JBool (dUnlimited d)), (''model_limits_enabled'', JBool (dLimitsEnabled d)),
      (''model_limits'', JStr (dLimits d)), (''allow_ips'', JStr (dIps d)), (''group'', JStr (dGroup d)),
      (''cross_group_retry'', JBool (dRetry d))]"

definition getApiKey :: "int \<Rightarrow> Request" where
  "getApiKey i = api_get_request (url_id ''/api/token/'' i) None"

definition createApiKey :: "ApiKeyFormData \<Rightarrow> Request" where
  "createApiKey d = api_post ''/api/token/'' (Some (JObj (form_data_json d)))"

definition updateApiKey :: "ApiKeyFormData \<Rightarrow> int \<Rightarrow> Request" where
  "updateApiKey d i = api_put ''/api/token/'' (JObj (form_data_json d @ [(''id'', num_json i)]))"

definition deleteApiKey :: "int \<Rightarrow> Request" where
  "deleteApiKey i = api_delete (url_id ''/api/token/'' i @ ''/'')"

definition batchDeleteApiKeys :: "int list \<Rightarrow> Request" where
  "batchDeleteApiKeys ids = api_post ''/api/token/batch'' (Some (JObj [(''ids'', JArr (map num_json ids))]))"

definition updateApiKeyStatus :: "int \<Rightarrow> int \<Rightarrow> Request" where
  "updateApiKeyStatus i st =
     api_put ''/api/token/?status_only=true'' (JObj [(''id'', num_json i), (''status'', num_json st)])"

definition fetchTokenKey :: "int \<Rightarrow> Request" where
  "fetchTokenKey i = api_post (url_id ''/api/token/'' i @ ''/key'') None"

definition fetchTokenKeysBatch :: "int list \<Rightarrow> Request" where
  "fetchTokenKeysBatch ids = api_post ''/api/token/batch/keys'' (Some (JObj [(''ids'', JArr (map num_json ids))]))"

subsection \<open>The form (lib/api-key-form.ts)\<close>

record ApiKeyFormValues =
  fName :: string
  fRemain :: "rat option"
  fExpired :: "int option"
  fUnlimited :: bool
  fLimits :: "string list"
  fIps :: "string option"
  fGroup :: "string option"
  fRetry :: "bool option"
  fCount :: "int option"

definition apiKeyFormSchema :: "ApiKeyFormValues \<Rightarrow> bool" where
  "apiKeyFormSchema f \<longleftrightarrow>
     fName f \<noteq> [] \<and> (case fRemain f of None \<Rightarrow> True | Some x \<Rightarrow> 0 \<le> x) \<and>
     (case fCount f of None \<Rightarrow> True | Some n \<Rightarrow> 1 \<le> n)"

definition API_KEY_FORM_DEFAULT_VALUES :: ApiKeyFormValues where
  "API_KEY_FORM_DEFAULT_VALUES =
     \<lparr>fName = [], fRemain = Some 10, fExpired = None, fUnlimited = True, fLimits = [], fIps = Some [],
      fGroup = Some DEFAULT_GROUP, fRetry = Some True, fCount = Some 1\<rparr>"

text \<open>\<open>v || d\<close> for a text that may be missing.\<close>

definition text_or_else :: "string option \<Rightarrow> string \<Rightarrow> string" where
  "text_or_else v d = (case v of Some s \<Rightarrow> if s \<noteq> [] then s else d | None \<Rightarrow> d)"

definition transformFormDataToPayload :: "CurrencyConfig option \<Rightarrow> ApiKeyFormValues \<Rightarrow> ApiKeyFormData" where
  "transformFormDataToPayload cfg f =
     \<lparr>dName = fName f,
      dRemain = (if fUnlimited f then 0
                 else parseQuotaFromDollars cfg (case fRemain f of Some x \<Rightarrow> x | None \<Rightarrow> 0)),
      dExpired = (case fExpired f of Some ms \<Rightarrow> ms div 1000 | None \<Rightarrow> -1),
      dUnlimited = fUnlimited f,
      dLimitsEnabled = (fLimits f \<noteq> []),
      dLimits = join '','' (fLimits f),
      dIps = text_or_else (fIps f) [],
      dGroup = text_or_else (fGroup f) [],
      dRetry = (fGroup f = Some ''auto'' \<and> fRetry f = Some True)\<rparr>"

definition transformApiKeyToFormDefaults :: "CurrencyConfig option \<Rightarrow> ApiKey \<Rightarrow> ApiKeyFormValues" where
  "transformApiKeyToFormDefaults cfg k =
     \<lparr>fName = keyName k,
      fRemain = Some (quotaUnitsToDollars cfg (of_int (remain_quota k))),
      fExpired = (if expired_time k > 0 then Some (expired_time k * 1000) else None),
      fUnlimited = unlimited_quota k,
      fLimits = (case model_limits k of
                   Some s \<Rightarrow> if s \<noteq> [] then filter (\<lambda>m. m \<noteq> []) (split_on (CHR '','') s) else []
                 | None \<Rightarrow> []),
      fIps = Some (text_or_else (allow_ips k) []),
      fGroup = Some (text_or_else (keyGroup k) DEFAULT_GROUP),
      fRetry = Some (cross_group_retry k),
      fCount = Some 1\<rparr>"

subsection \<open>Saving (components/api-keys-mutate-drawer.tsx)\<close>

text \<open>
  A handler returns the page and whether it closed the drawer and refreshed the table. \<open>suffix i\<close> is the
  random text in the name of the \<open>i\<close>-th key of a batch.
\<close>

definition batch_name :: "(nat \<Rightarrow> string) \<Rightarrow> string \<Rightarrow> nat \<Rightarrow> string" where
  "batch_name suffix nm i =
     (if i = 0 \<and> nm \<noteq> [] then nm else (if nm \<noteq> [] then nm else ''default'') @ ''-'' @ suffix i)"

text \<open>
  The loop over \<open>i = 0 .. count - 1\<close> with \<open>n\<close> rounds left: the number of keys created and the page, or the page
  at a rejected request.
\<close>

fun create_loop :: "net \<Rightarrow> (nat \<Rightarrow> string) \<Rightarrow> ApiKeyFormData \<Rightarrow> nat \<Rightarrow> nat \<Rightarrow> nat \<Rightarrow> App \<Rightarrow> App + (nat \<times> App)" where
  "create_loop net suffix d 0 i successCount app = Inr (successCount, app)"
| "create_loop net suffix d (Suc n) i successCount app =
     (case request net (createApiKey (d\<lparr>dName := batch_name suffix (dName d) i\<rparr>)) app of
        (Rejected e, app1) \<Rightarrow> Inl app1
      | (Reply b, app1) \<Rightarrow>
          if accepted b then create_loop net suffix d n (i + 1) (successCount + 1) app1
          else Inr (successCount, toast (Error (or_text (message b) (Tr ''Failed to create API key'' []))) app1))"

definition onSubmitCreate :: "net \<Rightarrow> (nat \<Rightarrow> string) \<Rightarrow> CurrencyConfig option \<Rightarrow> ApiKeyFormValues \<Rightarrow> App \<Rightarrow> App \<times> bool" where
  "onSubmitCreate net suffix cfg f app =
     (let count = (case fCount f of Some n \<Rightarrow> if n \<noteq> 0 then nat n else 1 | None \<Rightarrow> 1)
      in case create_loop net suffix (transformFormDataToPayload cfg f) count 0 0 app of
           Inl app1 \<Rightarrow> (toast (Error (Tr ''An unexpected error occurred'' [])) app1, False)
         | Inr (successCount, app1) \<Rightarrow>
             if successCount > 0
             then (toast (Success (Tr ''Successfully created {{count}} API Key(s)'' [(''count'', num_json (int successCount))])) app1, True)
             else (app1, False))"

definition saved_result :: "Outcome \<times> App \<Rightarrow> Txt \<Rightarrow> Txt \<Rightarrow> App \<times> bool" where
  "saved_result r done_text failed_text =
     (case r of
        (Reply b, app1) \<Rightarrow>
          if accepted b then (toast (Success done_text) app1, True)
          else (toast (Error (or_text (message b) failed_text)) app1, False)
      | (Rejected e, app1) \<Rightarrow> (toast (Error (Tr ''An unexpected error occurred'' [])) app1, False))"

definition onSubmitUpdate :: "net \<Rightarrow> CurrencyConfig option \<Rightarrow> ApiKeyFormValues \<Rightarrow> int \<Rightarrow> App \<Rightarrow> App \<times> bool" where
  "onSubmitUpdate net cfg f i app =
     saved_result (request net (updateApiKey (transformFormDataToPayload cfg f) i) app)
       (Tr ''API Key updated successfully'' []) (Tr ''Failed to update API key'' [])"

subsection \<open>Other actions of the table\<close>

text \<open>\<open>handleDelete\<close> of the delete dialog, for the row it was opened on.\<close>

definition deleteKey :: "net \<Rightarrow> int option \<Rightarrow> App \<Rightarrow> App \<times> bool" where
  "deleteKey net currentRow app =
     (case currentRow of
        None \<Rightarrow> (app, False)
      | Some i \<Rightarrow>
          saved_result (request net (deleteApiKey i) app)
            (Tr ''API Key deleted successfully'' []) (Tr ''Failed to delete API key'' []))"

definition handleToggleStatus :: "net \<Rightarrow> ApiKey \<Rightarrow> App \<Rightarrow> App \<times> bool" where
  "handleToggleStatus net k app =
     (let isEnabled = (keyStatus k = STATUS_ENABLED)
      in saved_result (request net (updateApiKeyStatus (keyId k) (if isEnabled then STATUS_DISABLED else STATUS_ENABLED)) app)
           (Tr (if isEnabled then ''API Key disabled successfully'' else ''API Key enabled successfully'') [])
           (Tr ''Failed to update API key status'' []))"

text \<open>\<open>handleConfirm\<close> of the dialog that deletes the selected rows: \<open>result.data || ids.length\<close>.\<close>

definition deleteSelected :: "net \<Rightarrow> int list \<Rightarrow> App \<Rightarrow> App \<times> bool" where
  "deleteSelected net ids app =
     (case request net (batchDeleteApiKeys ids) app of
        (Reply b, app1) \<Rightarrow>
          if accepted b
          then (let count = (case data b of Some v \<Rightarrow> if jtruthy v then v else num_json (int (length ids))
                             | None \<Rightarrow> num_json (int (length ids)))
                in (toast (Success (Tr ''Successfully deleted {{count}} API key(s)'' [(''count'', count)])) app1, True))
          else (toast (Error (or_text (message b) (Tr ''Failed to delete API keys'' []))) app1, False)
      | (Rejected e, app1) \<Rightarrow> (toast (Error (Tr ''An unexpected error occurred'' [])) app1, False))"

text \<open>The cells of the table: the models and the IP addresses listed, \<open>None\<close> where the cell says there is no limit.\<close>

definition ModelLimitsCell :: "ApiKey \<Rightarrow> string list option" where
  "ModelLimitsCell k =
     (case model_limits k of
        Some s \<Rightarrow>
          if model_limits_enabled k \<and> s \<noteq> [] then Some (filter (\<lambda>m. m \<noteq> []) (split_on (CHR '','') s)) else None
      | None \<Rightarrow> None)"

definition IpRestrictionsCell :: "ApiKey \<Rightarrow> string list option" where
  "IpRestrictionsCell k =
     (let allowIps = (case allow_ips k of Some s \<Rightarrow> trim s | None \<Rightarrow> [])
      in if allowIps = [] then None else Some (split_trim_filter (CHR 0x0A) allowIps))"

subsection \<open>The drawer as a state machine\<close>

text \<open>
  \<open>shownFor\<close>: closed, creating, or updating a key. \<open>loads\<close> are the ids of the requests sent by the effect that
  loads a key, \<open>loaded\<close> those answered: nothing cancels them. \<open>values\<close> is the form, \<open>defaults\<close> what its
  \<open>reset()\<close> restores. The log has the requests a submit sends.
\<close>

datatype Mode = Closed | Creating | Updating int

record Drawer =
  shownFor :: Mode
  formValues :: ApiKeyFormValues
  formDefaults :: ApiKeyFormValues
  loads :: "int list"
  loaded :: "nat list"

definition closedDrawer :: Drawer where
  "closedDrawer =
     \<lparr>shownFor = Closed, formValues = API_KEY_FORM_DEFAULT_VALUES, formDefaults = API_KEY_FORM_DEFAULT_VALUES,
      loads = [], loaded = []\<rparr>"

definition openForCreate :: "Drawer \<Rightarrow> Drawer" where
  "openForCreate dr =
     dr\<lparr>shownFor := Creating, formValues := API_KEY_FORM_DEFAULT_VALUES, formDefaults := API_KEY_FORM_DEFAULT_VALUES\<rparr>"

definition openForUpdate :: "int \<Rightarrow> Drawer \<Rightarrow> Drawer" where
  "openForUpdate i dr = dr\<lparr>shownFor := Updating i, loads := loads dr @ [i]\<rparr>"

text \<open>The continuation of \<open>getApiKey(...).then\<close>; \<open>None\<close>: refused, or without data.\<close>

definition keyLoaded :: "CurrencyConfig option \<Rightarrow> nat \<Rightarrow> ApiKey option \<Rightarrow> Drawer \<Rightarrow> Drawer" where
  "keyLoaded cfg p answer dr =
     (let dr1 = dr\<lparr>loaded := p # loaded dr\<rparr>
      in case answer of
           None \<Rightarrow> dr1
         | Some k \<Rightarrow>
             dr1\<lparr>formValues := transformApiKeyToFormDefaults cfg k, formDefaults := transformApiKeyToFormDefaults cfg k\<rparr>)"

definition dismiss :: "Drawer \<Rightarrow> Drawer" where
  "dismiss dr = dr\<lparr>shownFor := Closed, formValues := formDefaults dr\<rparr>"

text \<open>
  The inputs: the quota is shown only for limited keys, the quantity only when creating; the buttons of the
  expiry set a date that depends on the clock.
\<close>

datatype Input =
  TypeName string | ChooseGroup string | SwitchRetry bool | SwitchUnlimited bool | TypeQuota rat
| PickExpiry "int option" | TypeCount int | ChooseModels "string list" | TypeIps string

definition input :: "Input \<Rightarrow> Drawer \<Rightarrow> Drawer" where
  "input x dr =
     (let f = formValues dr
      in case x of
           TypeName s \<Rightarrow> dr\<lparr>formValues := f\<lparr>fName := s\<rparr>\<rparr>
         | ChooseGroup g \<Rightarrow> dr\<lparr>formValues := f\<lparr>fGroup := Some g\<rparr>\<rparr>
         | SwitchRetry b \<Rightarrow> dr\<lparr>formValues := f\<lparr>fRetry := Some b\<rparr>\<rparr>
         | SwitchUnlimited b \<Rightarrow> dr\<lparr>formValues := f\<lparr>fUnlimited := b\<rparr>\<rparr>
         | TypeQuota q \<Rightarrow> (if fUnlimited f then dr else dr\<lparr>formValues := f\<lparr>fRemain := Some q\<rparr>\<rparr>)
         | PickExpiry e \<Rightarrow> dr\<lparr>formValues := f\<lparr>fExpired := e\<rparr>\<rparr>
         | TypeCount n \<Rightarrow> (if shownFor dr = Creating then dr\<lparr>formValues := f\<lparr>fCount := Some n\<rparr>\<rparr> else dr)
         | ChooseModels ms \<Rightarrow> dr\<lparr>formValues := f\<lparr>fLimits := ms\<rparr>\<rparr>
         | TypeIps s \<Rightarrow> dr\<lparr>formValues := f\<lparr>fIps := Some s\<rparr>\<rparr>)"

text \<open>
  \<open>form.handleSubmit(onSubmit)\<close> when the drawer updates a key: the request, if the schema accepts the form.
\<close>

definition updateRequest :: "CurrencyConfig option \<Rightarrow> Drawer \<Rightarrow> Request option" where
  "updateRequest cfg dr =
     (case shownFor dr of
        Updating i \<Rightarrow>
          if apiKeyFormSchema (formValues dr)
          then Some (updateApiKey (transformFormDataToPayload cfg (formValues dr)) i) else None
      | _ \<Rightarrow> None)"

datatype DrawerEvent =
  OpenCreate | OpenUpdate int | Loaded nat "ApiKey option" | Dismiss | Enter Input | Saved

text \<open>What can happen in a state, and what it does.\<close>

definition event_possible :: "Drawer \<Rightarrow> DrawerEvent \<Rightarrow> bool" where
  "event_possible dr ev =
     (case ev of
        OpenCreate \<Rightarrow> shownFor dr = Closed
      | OpenUpdate i \<Rightarrow> shownFor dr = Closed
      | Loaded p answer \<Rightarrow>
          p < length (loads dr) \<and> p \<notin> set (loaded dr) \<and>
          (case answer of Some k \<Rightarrow> keyId k = loads dr ! p | None \<Rightarrow> True)
      | _ \<Rightarrow> shownFor dr \<noteq> Closed)"

definition drawer_event :: "CurrencyConfig option \<Rightarrow> DrawerEvent \<Rightarrow> Drawer \<Rightarrow> Drawer" where
  "drawer_event cfg ev dr =
     (case ev of
        OpenCreate \<Rightarrow> openForCreate dr
      | OpenUpdate i \<Rightarrow> openForUpdate i dr
      | Loaded p answer \<Rightarrow> keyLoaded cfg p answer dr
      | Dismiss \<Rightarrow> dismiss dr
      | Enter x \<Rightarrow> input x dr
      | Saved \<Rightarrow> dr\<lparr>shownFor := Closed\<rparr>)"

inductive drawer_steps :: "CurrencyConfig option \<Rightarrow> Drawer \<Rightarrow> DrawerEvent list \<Rightarrow> Drawer \<Rightarrow> bool"
  for cfg where
  none: "drawer_steps cfg dr [] dr"
| more: "event_possible dr ev \<Longrightarrow> drawer_steps cfg (drawer_event cfg ev dr) evs dr2 \<Longrightarrow> drawer_steps cfg dr (ev # evs) dr2"

subsection \<open>An update without changes\<close>

definition model_names_of :: "ApiKey \<Rightarrow> string list" where
  "model_names_of k = filter (\<lambda>m. m \<noteq> []) (split_on (CHR '','') (text_or_else (model_limits k) []))"

text \<open>What the key says, in the form of a payload.\<close>

definition key_data :: "ApiKey \<Rightarrow> ApiKeyFormData" where
  "key_data k =
     \<lparr>dName = keyName k, dRemain = remain_quota k, dExpired = expired_time k, dUnlimited = unlimited_quota k,
      dLimitsEnabled = model_limits_enabled k, dLimits = text_or_else (model_limits k) [],
      dIps = text_or_else (allow_ips k) [], dGroup = text_or_else (keyGroup k) [], dRetry = cross_group_retry k\<rparr>"

lemma limits_shown: "fLimits (transformApiKeyToFormDefaults cfg k) = model_names_of k"
  by (simp add: transformApiKeyToFormDefaults_def model_names_of_def text_or_else_def split: option.splits)

lemma text_or_else_idem [simp]: "text_or_else (Some (text_or_else v d)) [] = text_or_else v d"
  by (simp add: text_or_else_def split: option.splits)

lemma unchanged_payload:
  "transformFormDataToPayload cfg (transformApiKeyToFormDefaults cfg k) =
     \<lparr>dName = keyName k, dRemain = (if unlimited_quota k then 0 else remain_quota k),
      dExpired = (if expired_time k > 0 then expired_time k else -1), dUnlimited = unlimited_quota k,
      dLimitsEnabled = (model_names_of k \<noteq> []), dLimits = join '','' (model_names_of k),
      dIps = text_or_else (allow_ips k) [], dGroup = text_or_else (keyGroup k) DEFAULT_GROUP,
      dRetry = (text_or_else (keyGroup k) DEFAULT_GROUP = ''auto'' \<and> cross_group_retry k)\<rparr>"
  using limits_shown [of cfg k]
  by (simp add: transformFormDataToPayload_def) (simp add: transformApiKeyToFormDefaults_def units_roundtrip)

text \<open>
  Opening a key and saving it unchanged sends the key's own data exactly if it is limited or has no quota
  left over, its expiry is a time or -1, it has a group, the retry flag is set only in the group auto, and its model list is enabled
  and without empty names; otherwise one of these is changed: a key without a group moves to the group auto.
\<close>
theorem unchanged_update_exact:
  "transformFormDataToPayload cfg (transformApiKeyToFormDefaults cfg k) = key_data k \<longleftrightarrow>
     (unlimited_quota k \<longrightarrow> remain_quota k = 0) \<and> (expired_time k > 0 \<or> expired_time k = -1) \<and>
     text_or_else (keyGroup k) [] \<noteq> [] \<and> (cross_group_retry k \<longrightarrow> keyGroup k = Some ''auto'') \<and>
     (model_limits_enabled k \<longleftrightarrow> model_names_of k \<noteq> []) \<and>
     join '','' (model_names_of k) = text_or_else (model_limits k) []"
  unfolding unchanged_payload key_data_def
  by (auto simp: text_or_else_def DEFAULT_GROUP_def split: option.splits if_splits)

definition demo_key :: "int \<Rightarrow> string \<Rightarrow> ApiKey" where
  "demo_key i nm =
     \<lparr>keyId = i, keyName = nm, keyText = ''abcd**********wxyz'', keyStatus = 1, remain_quota = 500000,
      unlimited_quota = False, expired_time = -1, keyGroup = Some ''vip'', cross_group_retry = False,
      model_limits_enabled = True, model_limits = Some ''gpt-4,o1'', allow_ips = None\<rparr>"

lemma unchanged_update_exact_witness:
  "transformFormDataToPayload None (transformApiKeyToFormDefaults None (demo_key 1 ''work'')) = key_data (demo_key 1 ''work'') \<and>
   transformFormDataToPayload None (transformApiKeyToFormDefaults None (demo_key 1 ''work''\<lparr>keyGroup := None\<rparr>)) \<noteq>
     key_data (demo_key 1 ''work''\<lparr>keyGroup := None\<rparr>)"
  unfolding unchanged_update_exact
  by (simp add: demo_key_def model_names_of_def text_or_else_def)

subsection \<open>Keys that cannot be saved\<close>

lemma quota_sign: "q < 0 \<Longrightarrow> quotaUnitsToDollars cfg (of_int q) < 0"
  using getConfig_positive(1) [of cfg] exchange_rate_positive [of cfg]
  by (cases "getDisplayMeta (getConfig cfg)")
    (simp_all add: quotaUnitsToDollars_def getCurrencyDisplay_def Let_def mult_neg_pos divide_neg_pos)

definition unsavable :: "Drawer \<Rightarrow> bool" where
  "unsavable dr \<longleftrightarrow> fUnlimited (formValues dr) \<and> (\<exists>x < 0. fRemain (formValues dr) = Some x)"

lemma unsavable_input: "unsavable dr \<Longrightarrow> x \<noteq> SwitchUnlimited False \<Longrightarrow> unsavable (input x dr)"
  by (cases x) (auto simp: unsavable_def input_def Let_def)

lemma unsavable_steps:
  "drawer_steps cfg dr evs dr2 \<Longrightarrow> unsavable dr \<Longrightarrow> \<forall>ev \<in> set evs. \<exists>x. ev = Enter x \<and> x \<noteq> SwitchUnlimited False \<Longrightarrow> unsavable dr2"
  by (induction rule: drawer_steps.induct) (auto simp: drawer_event_def unsavable_input)

text \<open>
  C30: A key without limit that has been used (its remaining quota is negative) cannot be updated: whatever is
  entered, short of switching the limit on, the form is refused because of the quota field, which is not shown.
\<close>
theorem used_unlimited_key_not_saved:
  assumes "unlimited_quota k" "remain_quota k < 0"
    and "drawer_steps cfg (keyLoaded cfg p (Some k) dr) evs dr2"
    and "\<forall>ev \<in> set evs. \<exists>x. ev = Enter x \<and> x \<noteq> SwitchUnlimited False"
  shows "updateRequest cfg dr2 = None"
proof -
  have "unsavable (keyLoaded cfg p (Some k) dr)"
    using assms(1) quota_sign [OF assms(2)] by (simp add: unsavable_def keyLoaded_def transformApiKeyToFormDefaults_def Let_def)
  then have "unsavable dr2" by (rule unsavable_steps [OF assms(3) _ assms(4)])
  then show ?thesis by (auto simp: unsavable_def updateRequest_def apiKeyFormSchema_def split: Mode.splits)
qed

lemma used_unlimited_key_not_saved_witness:
  "updateRequest None
     (input (TypeName ''renamed'') (keyLoaded None 0 (Some (demo_key 7 ''work''\<lparr>unlimited_quota := True, remain_quota := -25\<rparr>))
        (openForUpdate 7 closedDrawer))) = None"
  (is "updateRequest None (input ?x ?dr) = None")
proof -
  have "drawer_steps None ?dr [Enter ?x] (input ?x ?dr)"
    using drawer_steps.more [of ?dr "Enter ?x" None "[]" "input ?x ?dr"] drawer_steps.none [of None "input ?x ?dr"]
    by (simp add: event_possible_def drawer_event_def keyLoaded_def openForUpdate_def Let_def)
  then show ?thesis by (rule used_unlimited_key_not_saved [rotated 2]) (simp_all add: demo_key_def)
qed

subsection \<open>Answers that come late\<close>

definition fields_of :: "CurrencyConfig option \<Rightarrow> ApiKey \<Rightarrow> ApiKeyFormData" where
  "fields_of cfg k = transformFormDataToPayload cfg (transformApiKeyToFormDefaults cfg k)"

lemma schema_of_key:
  "apiKeyFormSchema (transformApiKeyToFormDefaults cfg k) \<longleftrightarrow> keyName k \<noteq> [] \<and> 0 \<le> remain_quota k"
proof -
  have "0 \<le> quotaUnitsToDollars cfg (of_int q)" if "0 \<le> q" for q
    using that getConfig_positive(1) [of cfg] exchange_rate_positive [of cfg]
    by (cases "getDisplayMeta (getConfig cfg)")
      (simp_all add: quotaUnitsToDollars_def getCurrencyDisplay_def Let_def less_imp_le)
  then have "0 \<le> quotaUnitsToDollars cfg (of_int q) \<longleftrightarrow> 0 \<le> q" for q
    using quota_sign [of q cfg] by (meson linorder_not_le)
  then show ?thesis by (simp add: apiKeyFormSchema_def transformApiKeyToFormDefaults_def)
qed

text \<open>
  C14: When a key is opened, closed, and another is opened before the first has loaded, the answer that
  comes last fills the form; saving writes the fields of the first key, name included, over the second.
\<close>
theorem late_key_overwrites_other:
  assumes "keyName a \<noteq> []" "0 \<le> remain_quota a"
  shows "\<exists>dr. drawer_steps cfg closedDrawer
        [OpenUpdate (keyId a), Dismiss, OpenUpdate (keyId b), Loaded 1 (Some b), Loaded 0 (Some a)] dr \<and>
      updateRequest cfg dr = Some (updateApiKey (fields_of cfg a) (keyId b))"
proof -
  let ?d1 = "dismiss (openForUpdate (keyId a) closedDrawer)"
  let ?d2 = "openForUpdate (keyId b) ?d1"
  let ?d3 = "keyLoaded cfg 1 (Some b) ?d2"
  let ?d4 = "keyLoaded cfg 0 (Some a) ?d3"
  note defs = closedDrawer_def openForUpdate_def dismiss_def keyLoaded_def Let_def
  have "drawer_steps cfg closedDrawer
      [OpenUpdate (keyId a), Dismiss, OpenUpdate (keyId b), Loaded 1 (Some b), Loaded 0 (Some a)] ?d4"
    by (intro drawer_steps.intros) (simp_all add: event_possible_def drawer_event_def defs drawer_steps.none)
  moreover have "updateRequest cfg ?d4 = Some (updateApiKey (fields_of cfg a) (keyId b))"
    using assms by (simp add: updateRequest_def defs schema_of_key fields_of_def)
  ultimately show ?thesis by blast
qed

lemma late_key_overwrites_other_witness:
  "\<exists>dr. drawer_steps None closedDrawer
        [OpenUpdate 1, Dismiss, OpenUpdate 2, Loaded 1 (Some (demo_key 2 ''home'')), Loaded 0 (Some (demo_key 1 ''work''))] dr \<and>
      updateRequest None dr = Some (updateApiKey (fields_of None (demo_key 1 ''work'')) 2)"
proof -
  have "keyId (demo_key i nm) = i" for i nm by (simp add: demo_key_def)
  then show ?thesis
    using late_key_overwrites_other [of "demo_key 1 ''work''" None "demo_key 2 ''home''"] by (simp add: demo_key_def)
qed

subsection \<open>Creating several keys\<close>

definition create_request :: "(nat \<Rightarrow> string) \<Rightarrow> ApiKeyFormData \<Rightarrow> nat \<Rightarrow> Request" where
  "create_request suffix d i = createApiKey (d\<lparr>dName := batch_name suffix (dName d) i\<rparr>)"

lemma request_sent: "request net r app = (out, app1) \<Longrightarrow> sent app1 = sent app @ [r] \<and> out = net (length (sent app)) r"
  by (auto simp: request_def Let_def app_eff)

lemma create_loop_rejected:
  assumes "\<forall>j < m. accepted_outcome (net (length (sent app) + j) (create_request suffix d (i + j)))"
    and "net (length (sent app) + m) (create_request suffix d (i + m)) = Rejected e" "m < n"
  shows "\<exists>app1. create_loop net suffix d n i s app = Inl app1 \<and>
           sent app1 = sent app @ map (create_request suffix d) [i..<i + Suc m]"
  using assms
proof (induction n arbitrary: m i s app)
  case 0
  then show ?case by simp
next
  case (Suc n)
  let ?r = "create_request suffix d i"
  obtain out app1 where r: "request net ?r app = (out, app1)" by force
  note s1 = request_sent [OF r]
  show ?case
  proof (cases m)
    case 0
    with Suc.prems(2) s1 r have "request net ?r app = (Rejected e, app1)" by simp
    with s1 0 show ?thesis by (simp add: create_request_def [symmetric])
  next
    case (Suc m')
    have "accepted_outcome out" using Suc.prems(1) s1 Suc by (metis add.right_neutral zero_less_Suc)
    then obtain b where b: "out = Reply b" "accepted b" by (cases out) auto
    have l: "length (sent app1) = Suc (length (sent app))" using s1 by simp
    have "\<exists>app2. create_loop net suffix d n (i + 1) (s + 1) app1 = Inl app2 \<and>
            sent app2 = sent app1 @ map (create_request suffix d) [i + 1..<i + 1 + Suc m']"
    proof (rule Suc.IH)
      show "\<forall>j < m'. accepted_outcome (net (length (sent app1) + j) (create_request suffix d (i + 1 + j)))"
        using Suc.prems(1) Suc l by auto
      show "net (length (sent app1) + m') (create_request suffix d (i + 1 + m')) = Rejected e"
        using Suc.prems(2) Suc l by simp
      show "m' < n" using Suc.prems(3) Suc by simp
    qed
    then show ?thesis using r b s1 Suc by (auto simp: create_request_def upt_conv_Cons simp del: upt_Suc)
  qed
qed

text \<open>
  When a request of a batch is rejected after some keys were created, the page shows only an error,
  keeps the drawer open and does not refresh the table, although the keys before exist.
\<close>
theorem rejected_batch_hides_created:
  assumes "fCount f = Some rounds" "0 < m" "int m < rounds"
    and "\<forall>j < m. accepted_outcome (net (length (sent app) + j) (create_request suffix (transformFormDataToPayload cfg f) j))"
    and "net (length (sent app) + m) (create_request suffix (transformFormDataToPayload cfg f) m) = Rejected e"
  shows "\<exists>app1. onSubmitCreate net suffix cfg f app = (app1, False) \<and>
      last (toasts app1) = Error (Tr ''An unexpected error occurred'' []) \<and>
      sent app1 = sent app @ map (create_request suffix (transformFormDataToPayload cfg f)) [0..<Suc m]"
proof -
  have "m < nat rounds" using assms(3) by linarith
  from create_loop_rejected [where i = 0 and s = 0, simplified, OF assms(4,5) this]
  obtain app1 where "create_loop net suffix (transformFormDataToPayload cfg f) (nat rounds) 0 0 app = Inl app1"
    "sent app1 = sent app @ map (create_request suffix (transformFormDataToPayload cfg f)) [0..<Suc m]" by auto
  moreover have "rounds \<noteq> 0" using assms(2,3) by linarith
  ultimately show ?thesis using assms(1) by (simp add: onSubmitCreate_def app_eff del: upt_Suc)
qed

definition demo_page :: App where
  "demo_page = \<lparr>sent = [], toasts = [], stale = [], calls = [], logged_in = True\<rparr>"

definition ok_body :: Body where
  "ok_body = \<lparr>success = Some True, message = None, error_code = None, data = None, balance = None\<rparr>"

definition second_fails :: net where
  "second_fails n r = (if n = 1 then Rejected \<lparr>status = None, server_message = None, err_message = ''Network Error''\<rparr> else Reply ok_body)"

lemma rejected_batch_hides_created_witness:
  "\<exists>app1. onSubmitCreate second_fails (\<lambda>_. ''x1y2z3'') None
       (API_KEY_FORM_DEFAULT_VALUES\<lparr>fName := ''ci'', fCount := Some 3\<rparr>) demo_page = (app1, False) \<and> length (sent app1) = 2"
  using rejected_batch_hides_created [of "API_KEY_FORM_DEFAULT_VALUES\<lparr>fName := ''ci'', fCount := Some 3\<rparr>" 3 1 second_fails
      demo_page "\<lambda>_. ''x1y2z3''" None "\<lparr>status = None, server_message = None, err_message = ''Network Error''\<rparr>"]
  by (auto simp: second_fails_def demo_page_def ok_body_def)

end
