(* ===== verification/KeyVault.thy ===== *)
theory KeyVault
  imports ApiKeys
begin

text \<open>
  The full API keys the page fetches (\<^verbatim>\<open>features/keys/components/api-keys-provider.tsx\<close>): the cache, the requests
  under way and the loading marks, as a state machine whose requests are answered in any order; copying keys
  (\<^verbatim>\<open>data-table-bulk-actions.tsx\<close>); and how the server masks the keys it lists
  (\<^verbatim>\<open>MaskTokenKey\<close> of the server, \<^verbatim>\<open>src/model/token.go\<close>).
\<close>

subsection \<open>Masked keys\<close>

definition MaskTokenKey :: "string \<Rightarrow> string" where
  "MaskTokenKey key =
     (if key = [] then []
      else if length key \<le> 4 then replicate (length key) (CHR ''*'')
      else if length key \<le> 8 then take 2 key @ ''****'' @ drop (length key - 2) key
      else take 4 key @ ''**********'' @ drop (length key - 4) key)"

lemma masked_has_star: "key \<noteq> [] \<Longrightarrow> CHR ''*'' \<in> set (MaskTokenKey key)"
  by (auto simp: MaskTokenKey_def)

lemma masked_differs: "key \<noteq> [] \<Longrightarrow> CHR ''*'' \<notin> set key \<Longrightarrow> MaskTokenKey key \<noteq> key"
  using masked_has_star by metis

subsection \<open>State\<close>

text \<open>
  \<open>resolvedKeys\<close> is the state, \<open>closure\<close> its value at the last render, which the callbacks see. A promise of
  \<open>resolveRealKey\<close> is its index in \<open>asked\<close>; \<open>results\<close> has the promises that are settled. A batch is its index in \<open>batches\<close>:
  its ids, those that were not cached, and the closure of the call.
\<close>

record Vault =
  resolvedKeys :: "int \<rightharpoonup> string"
  closure :: "int \<rightharpoonup> string"
  pendingRequests :: "int \<rightharpoonup> nat"
  asked :: "int list"
  results :: "nat \<rightharpoonup> string option"
  batches :: "(int list \<times> int list \<times> (int \<rightharpoonup> string)) list"
  batchResults :: "nat \<rightharpoonup> (int \<rightharpoonup> string)"
  loadingKeys :: "int set"
  vaultToasts :: "Toast list"

definition emptyVault :: Vault where
  "emptyVault =
     \<lparr>resolvedKeys = Map.empty, closure = Map.empty, pendingRequests = Map.empty, asked = [], results = Map.empty,
      batches = [], batchResults = Map.empty, loadingKeys = {}, vaultToasts = []\<rparr>"

text \<open>\<open>resolvedKeys[id]\<close> as a condition: an empty text counts as absent.\<close>

definition cached :: "Vault \<Rightarrow> int \<Rightarrow> string option" where
  "cached v i = (case closure v i of Some k \<Rightarrow> if k \<noteq> [] then Some k else None | None \<Rightarrow> None)"

subsection \<open>One key\<close>

datatype Promise = Ready string | Waiting nat

definition resolveRealKey :: "int \<Rightarrow> Vault \<Rightarrow> Promise \<times> Vault" where
  "resolveRealKey i v =
     (case cached v i of
        Some k \<Rightarrow> (Ready k, v)
      | None \<Rightarrow>
          (case pendingRequests v i of
             Some p \<Rightarrow> (Waiting p, v)
           | None \<Rightarrow>
               (let p = length (asked v)
                in (Waiting p,
                    v\<lparr>asked := asked v @ [i], pendingRequests := (pendingRequests v)(i \<mapsto> p),
                      loadingKeys := insert i (loadingKeys v)\<rparr>))))"

text \<open>\<open>res.success && res.data?.key\<close>.\<close>

definition replied_key :: "Body \<Rightarrow> string option" where
  "replied_key b =
     (if success b = Some True
      then (case Option.bind (data b) (jfield ''key'') of Some (JStr k) \<Rightarrow> if k \<noteq> [] then Some k else None | _ \<Rightarrow> None)
      else None)"

definition shown_in :: "Toast list \<Rightarrow> Vault \<Rightarrow> Vault" where
  "shown_in ts v = v\<lparr>vaultToasts := vaultToasts v @ ts\<rparr>"

definition failed_toast :: "Outcome \<Rightarrow> Toast" where
  "failed_toast out =
     Error (case out of
              Reply b \<Rightarrow> or_text (message b) (Tr ''An unexpected error occurred'' [])
            | Rejected e \<Rightarrow> Tr ''An unexpected error occurred'' [])"

text \<open>The continuation of request \<open>p\<close>, after the interceptor has shown what it shows.\<close>

definition keyAnswered :: "nat \<Rightarrow> Outcome \<Rightarrow> Vault \<Rightarrow> Vault" where
  "keyAnswered p out v =
     (let i = asked v ! p;
          v1 = shown_in (shown out) v;
          v2 = (case (case out of Reply b \<Rightarrow> replied_key b | Rejected e \<Rightarrow> None) of
                  Some k \<Rightarrow> v1\<lparr>resolvedKeys := (resolvedKeys v1)(i \<mapsto> ''sk-'' @ k), results := (results v1)(p \<mapsto> Some (''sk-'' @ k))\<rparr>
                | None \<Rightarrow> shown_in [failed_toast out] (v1\<lparr>results := (results v1)(p \<mapsto> None)\<rparr>))
      in v2\<lparr>pendingRequests := (pendingRequests v2)(i := None), loadingKeys := loadingKeys v2 - {i}\<rparr>)"

subsection \<open>Several keys\<close>

text \<open>\<open>None\<close>: the promise is ready at once with the keys of the closure.\<close>

definition resolveRealKeysBatch :: "int list \<Rightarrow> Vault \<Rightarrow> (int \<rightharpoonup> string) option \<times> Vault" where
  "resolveRealKeysBatch ids v =
     (let uncachedIds = filter (\<lambda>i. cached v i = None) ids
      in if uncachedIds = [] then (Some ((closure v) |` set ids), v)
         else (None, v\<lparr>batches := batches v @ [(ids, uncachedIds, closure v)], loadingKeys := loadingKeys v \<union> set uncachedIds\<rparr>))"

text \<open>\<open>Number(idStr)\<close> for the decimal texts that the server sends; other texts stand for no id.\<close>

definition id_of :: "string \<Rightarrow> int option" where
  "id_of s = (if s \<noteq> [] \<and> list_all is_digit s then Some (int (read_nat s)) else None)"

definition replied_keys :: "Body \<Rightarrow> json obj option" where
  "replied_keys b =
     (if success b = Some True
      then (case Option.bind (data b) (jfield ''keys'') of Some (JObj ob) \<Rightarrow> Some ob | _ \<Rightarrow> None)
      else None)"

fun new_keys :: "json obj \<Rightarrow> int \<rightharpoonup> string" where
  "new_keys [] = Map.empty"
| "new_keys ((t, k) # ob) =
     (case id_of t of Some i \<Rightarrow> (\<lambda>j. case new_keys ob j of Some x \<Rightarrow> Some x | None \<Rightarrow> if j = i then Some (''sk-'' @ js_String k) else None)
      | None \<Rightarrow> new_keys ob)"

text \<open>The keys of the closure are added for the ids of the batch.\<close>

definition batchAnswered :: "nat \<Rightarrow> Outcome \<Rightarrow> Vault \<Rightarrow> Vault" where
  "batchAnswered q out v =
     (let (ids, uncachedIds, old) = batches v ! q;
          v1 = shown_in (shown out) v;
          v2 = (case (case out of Reply b \<Rightarrow> replied_keys b | Rejected e \<Rightarrow> None) of
                  Some ob \<Rightarrow>
                    v1\<lparr>resolvedKeys := resolvedKeys v1 ++ new_keys (own_entries ob),
                      batchResults := (batchResults v1)(q \<mapsto> new_keys (own_entries ob) ++ (old |` {i \<in> set ids. old i \<noteq> Some []}))\<rparr>
                | None \<Rightarrow> shown_in [failed_toast out] (v1\<lparr>batchResults := (batchResults v1)(q \<mapsto> Map.empty)\<rparr>))
      in v2\<lparr>loadingKeys := loadingKeys v2 - set uncachedIds\<rparr>)"

subsection \<open>Copying the selected keys\<close>

text \<open>The text of the clipboard for the selected rows (id and name), \<open>None\<close> when nothing is copied.\<close>

definition handleBatchCopy :: "(int \<times> string) list \<Rightarrow> (int \<rightharpoonup> string) \<Rightarrow> string option" where
  "handleBatchCopy rows keysMap =
     (let ls = concat (map (\<lambda>(i, nm). case keysMap i of Some k \<Rightarrow> if k \<noteq> [] then [nm @ [CHR 0x09] @ k] else [] | None \<Rightarrow> []) rows)
      in if ls \<noteq> [] then Some (join [CHR 0x0A] ls) else None)"

subsection \<open>The provider as a step relation\<close>

text \<open>
  \<open>key i\<close> is the key of token \<open>i\<close> at the server; an honest answer has no other key.
\<close>

definition honest :: "(int \<Rightarrow> string) \<Rightarrow> int \<Rightarrow> Outcome \<Rightarrow> bool" where
  "honest key i out \<longleftrightarrow> (case out of Reply b \<Rightarrow> replied_key b \<in> {None, Some (key i)} | Rejected e \<Rightarrow> True)"

definition honest_batch :: "(int \<Rightarrow> string) \<Rightarrow> Outcome \<Rightarrow> bool" where
  "honest_batch key out \<longleftrightarrow>
     (case out of
        Reply b \<Rightarrow>
          (case replied_keys b of
             Some ob \<Rightarrow> list_all (\<lambda>(t, k). case id_of t of Some i \<Rightarrow> js_String k = key i | None \<Rightarrow> True) ob
           | None \<Rightarrow> True)
      | Rejected e \<Rightarrow> True)"

inductive vault_step :: "(int \<Rightarrow> string) \<Rightarrow> Vault \<Rightarrow> Vault \<Rightarrow> bool" for key where
  ask: "vault_step key v (snd (resolveRealKey i v))"
| answer: "p < length (asked v) \<Longrightarrow> results v p = None \<Longrightarrow> honest key (asked v ! p) out \<Longrightarrow> vault_step key v (keyAnswered p out v)"
| ask_batch: "vault_step key v (snd (resolveRealKeysBatch ids v))"
| answer_batch: "q < length (batches v) \<Longrightarrow> batchResults v q = None \<Longrightarrow> honest_batch key out \<Longrightarrow>
    vault_step key v (batchAnswered q out v)"
| render: "vault_step key v (v\<lparr>closure := resolvedKeys v\<rparr>)"

inductive vault_reach :: "(int \<Rightarrow> string) \<Rightarrow> Vault \<Rightarrow> bool" for key where
  init: "vault_reach key emptyVault"
| step: "vault_reach key v \<Longrightarrow> vault_step key v v' \<Longrightarrow> vault_reach key v'"

definition sk_keys :: "(int \<Rightarrow> string) \<Rightarrow> (int \<rightharpoonup> string) \<Rightarrow> bool" where
  "sk_keys key m \<longleftrightarrow> (\<forall>i k. m i = Some k \<longrightarrow> k = ''sk-'' @ key i)"

definition vault_inv :: "(int \<Rightarrow> string) \<Rightarrow> Vault \<Rightarrow> bool" where
  "vault_inv key v \<longleftrightarrow>
     sk_keys key (resolvedKeys v) \<and> sk_keys key (closure v) \<and>
     (\<forall>q m. batchResults v q = Some m \<longrightarrow> sk_keys key m) \<and> (\<forall>x \<in> set (batches v). sk_keys key (snd (snd x))) \<and>
     (\<forall>p k. results v p = Some (Some k) \<longrightarrow> k = ''sk-'' @ key (asked v ! p)) \<and>
     (\<forall>p. results v p \<noteq> None \<longrightarrow> p < length (asked v)) \<and>
     (\<forall>i p. pendingRequests v i = Some p \<longleftrightarrow> p < length (asked v) \<and> asked v ! p = i \<and> results v p = None)"

lemma sk_keys_intros:
  "sk_keys key m \<Longrightarrow> sk_keys key (m(i \<mapsto> ''sk-'' @ key i))"
  "sk_keys key m \<Longrightarrow> sk_keys key m' \<Longrightarrow> sk_keys key (m ++ m')"
  "sk_keys key m \<Longrightarrow> sk_keys key (m |` A)"
  "sk_keys key Map.empty"
  by (auto simp: sk_keys_def restrict_map_def map_add_Some_iff split: if_splits)

lemma sk_new_keys:
  "list_all (\<lambda>(t, k). case id_of t of Some i \<Rightarrow> js_String k = key i | None \<Rightarrow> True) ob \<Longrightarrow> sk_keys key (new_keys ob)"
  by (induction ob rule: new_keys.induct) (auto simp: sk_keys_def split: option.splits if_splits)

lemma own_entries_all: "list_all P ob \<Longrightarrow> list_all P (own_entries ob)"
  by (auto simp: own_entries_def list_all_iff)

lemma ask_inv: "vault_inv key v \<Longrightarrow> vault_inv key (snd (resolveRealKey i v))"
proof (cases "cached v i")
  case (Some k)
  assume "vault_inv key v"
  with Some show ?thesis by (simp add: resolveRealKey_def)
next
  case None
  assume inv: "vault_inv key v"
  show ?thesis
  proof (cases "pendingRequests v i")
    case (Some p)
    with None inv show ?thesis by (simp add: resolveRealKey_def)
  next
    case p: None
    have fresh: "results v (length (asked v)) = None" using inv unfolding vault_inv_def by (metis less_irrefl)
    have old: "p < length (asked v)" if "results v p \<noteq> None" for p using inv that unfolding vault_inv_def by blast
    have none: "results v q \<noteq> None" if "q < length (asked v)" "asked v ! q = i" for q
      using inv p that unfolding vault_inv_def by (metis option.distinct(1))
    show ?thesis using inv None p fresh none
      unfolding vault_inv_def resolveRealKey_def
      by (auto simp: Let_def nth_append less_Suc_eq dest: old)
  qed
qed

lemma answer_inv:
  assumes inv: "vault_inv key v" and p: "p < length (asked v)" "results v p = None" and h: "honest key (asked v ! p) out"
  shows "vault_inv key (keyAnswered p out v)"
proof -
  have one: "q = p" if "q < length (asked v)" "asked v ! q = asked v ! p" "results v q = None" for q
    using inv p that unfolding vault_inv_def by (metis option.inject)
  have pend: "pendingRequests v i = Some q \<longleftrightarrow> q < length (asked v) \<and> asked v ! q = i \<and> results v q = None" for i q
    using inv unfolding vault_inv_def by blast
  show ?thesis
  proof (cases "case out of Reply b \<Rightarrow> replied_key b | Rejected e \<Rightarrow> None")
    case None
    then show ?thesis using inv p
      unfolding vault_inv_def keyAnswered_def
      by (auto simp: Let_def shown_in_def pend dest: one)
  next
    case (Some k)
    then have "k = key (asked v ! p)" using h by (auto simp: honest_def split: Outcome.splits)
    with Some inv p show ?thesis
      unfolding vault_inv_def keyAnswered_def
      by (auto simp: Let_def shown_in_def pend sk_keys_intros [simplified] dest: one)
  qed
qed

lemma batch_inv:
  assumes inv: "vault_inv key v" and q: "q < length (batches v)" and h: "honest_batch key out"
  shows "vault_inv key (batchAnswered q out v)"
proof -
  obtain ids un old where b: "batches v ! q = (ids, un, old)" by (metis prod_cases3)
  then have old: "sk_keys key old" using inv q unfolding vault_inv_def by (metis nth_mem snd_conv)
  show ?thesis
  proof (cases "case out of Reply b \<Rightarrow> replied_keys b | Rejected e \<Rightarrow> None")
    case None
    with inv b show ?thesis unfolding vault_inv_def batchAnswered_def
      by (auto simp: Let_def shown_in_def sk_keys_intros)
  next
    case (Some ob)
    then have "list_all (\<lambda>(t, k). case id_of t of Some i \<Rightarrow> js_String k = key i | None \<Rightarrow> True) ob"
      using h by (auto simp: honest_batch_def split: Outcome.splits)
    then have "sk_keys key (new_keys (own_entries ob))" by (intro sk_new_keys own_entries_all)
    with Some inv b old show ?thesis unfolding vault_inv_def batchAnswered_def
      by (auto simp: Let_def shown_in_def sk_keys_intros)
  qed
qed

lemma vault_reach_inv: "vault_reach key v \<Longrightarrow> vault_inv key v"
proof (induction rule: vault_reach.induct)
  case init
  show ?case by (simp add: vault_inv_def emptyVault_def sk_keys_def)
next
  case (step v v')
  from step.hyps(2) step.IH show ?case
  proof (cases rule: vault_step.cases)
    case (ask_batch ids)
    with step.IH show ?thesis
      by (auto simp: vault_inv_def resolveRealKeysBatch_def Let_def)
  next
    case render
    with step.IH show ?thesis by (auto simp: vault_inv_def)
  qed (auto intro: ask_inv answer_inv batch_inv)
qed

text \<open>What is copied from a right map: a line for each row whose key is there, in the order of the rows.\<close>

definition key_line :: "(int \<Rightarrow> string) \<Rightarrow> int \<times> string \<Rightarrow> string" where
  "key_line key row = snd row @ [CHR 0x09] @ ''sk-'' @ key (fst row)"

lemma copied_lines:
  assumes "sk_keys key m"
  shows "handleBatchCopy rows m =
    (let ls = map (key_line key) (filter (\<lambda>row. m (fst row) \<noteq> None) rows) in if ls \<noteq> [] then Some (join [CHR 0x0A] ls) else None)"
proof -
  have "concat (map (\<lambda>(i, nm). case m i of Some k \<Rightarrow> if k \<noteq> [] then [nm @ [CHR 0x09] @ k] else [] | None \<Rightarrow> []) rows)
      = map (key_line key) (filter (\<lambda>row. m (fst row) \<noteq> None) rows)"
  proof -
    have line: "(case m i of Some k \<Rightarrow> if k \<noteq> [] then [nm @ [CHR 0x09] @ k] else [] | None \<Rightarrow> [])
        = (if m i = None then [] else [key_line key (i, nm)])" for i nm
    proof (cases "m i")
      case (Some k)
      then have "k = ''sk-'' @ key i" using assms by (simp add: sk_keys_def)
      with Some show ?thesis by (simp add: key_line_def)
    qed simp
    show ?thesis by (induction rows) (simp_all add: line split_beta)
  qed
  then show ?thesis by (simp add: handleBatchCopy_def Let_def)
qed

lemma cached_batch:
  assumes "sk_keys key (closure v)" "fst (resolveRealKeysBatch ids v) = Some m"
  shows "m j = (if j \<in> set ids then Some (''sk-'' @ key j) else None)"
proof -
  have "filter (\<lambda>i. cached v i = None) ids = []" and m: "m = (closure v) |` set ids"
    using assms(2) by (auto simp: resolveRealKeysBatch_def Let_def split: if_splits)
  then have "cached v i \<noteq> None" if "i \<in> set ids" for i using that by (auto simp: filter_empty_conv)
  then have "\<exists>k. closure v i = Some k" if "i \<in> set ids" for i using that by (fastforce simp: cached_def split: option.splits)
  then show ?thesis using assms(1) by (auto simp: m sk_keys_def restrict_map_def)
qed

text \<open>
  C13: With an honest server, in every reachable state: a key that \<open>resolveRealKey\<close> returns at once or that a request of it
  brings is the key of its token behind sk-; at most one request for a single key is under way, and a call for a
  key that is not cached joins it and sends nothing; the map that \<open>resolveRealKeysBatch\<close> returns at once has the right
  keys of all its tokens; and what is copied from the map of a batch request is one line for each selected row
  whose key came, in the order of the rows, each with the key of that row. (A batch request neither joins the single requests
  nor is joined: lemma \<open>batch_asks_again\<close>.)
\<close>
theorem resolved_keys_right:
  assumes "vault_reach key v"
  shows "fst (resolveRealKey i v) \<in> insert (Ready (''sk-'' @ key i)) (range Waiting)
    \<and> results v p \<in> {None, Some None, Some (Some (''sk-'' @ key (asked v ! p)))}
    \<and> card {q. q < length (asked v) \<and> asked v ! q = i \<and> results v q = None} \<le> 1
    \<and> (cached v i = None \<and> q < length (asked v) \<and> asked v ! q = i \<and> results v q = None \<longrightarrow> resolveRealKey i v = (Waiting q, v))
    \<and> (fst (resolveRealKeysBatch ids v) = Some m \<longrightarrow> (\<forall>j. m j = (if j \<in> set ids then Some (''sk-'' @ key j) else None)))
    \<and> (batchResults v b = Some m \<longrightarrow> handleBatchCopy rows m =
         (let ls = map (key_line key) (filter (\<lambda>row. m (fst row) \<noteq> None) rows)
          in if ls \<noteq> [] then Some (join [CHR 0x0A] ls) else None))"
proof -
  from vault_reach_inv [OF assms] have inv: "vault_inv key v" .
  then have sk: "sk_keys key (closure v)" and bt: "batchResults v b = Some m \<Longrightarrow> sk_keys key m"
    and res: "\<forall>p k. results v p = Some (Some k) \<longrightarrow> k = ''sk-'' @ key (asked v ! p)"
    and pend: "\<And>q. pendingRequests v i = Some q \<longleftrightarrow> q < length (asked v) \<and> asked v ! q = i \<and> results v q = None"
    unfolding vault_inv_def by blast+
  from sk have "fst (resolveRealKey i v) \<in> insert (Ready (''sk-'' @ key i)) (range Waiting)"
    by (auto simp: resolveRealKey_def cached_def sk_keys_def Let_def split: option.splits if_splits)
  moreover have "results v p \<in> {None, Some None, Some (Some (''sk-'' @ key (asked v ! p)))}"
    using res by (cases "results v p"; cases "the (results v p)") auto
  moreover have one: "{q. q < length (asked v) \<and> asked v ! q = i \<and> results v q = None} = set_option (pendingRequests v i)"
    using pend by (auto simp: set_eq_iff)
  have "card {q. q < length (asked v) \<and> asked v ! q = i \<and> results v q = None} \<le> 1"
    unfolding one by (cases "pendingRequests v i") auto
  moreover have "cached v i = None \<and> q < length (asked v) \<and> asked v ! q = i \<and> results v q = None \<longrightarrow> resolveRealKey i v = (Waiting q, v)"
    using pend [of q] by (auto simp: resolveRealKey_def)
  moreover have "fst (resolveRealKeysBatch ids v) = Some m \<longrightarrow> (\<forall>j. m j = (if j \<in> set ids then Some (''sk-'' @ key j) else None))"
    using cached_batch [OF sk] by blast
  moreover note copied_lines [OF bt, of rows]
  ultimately show ?thesis by blast
qed

definition key_body :: "string \<Rightarrow> Body" where
  "key_body k = ok_body\<lparr>data := Some (JObj [(''key'', JStr k)])\<rparr>"

text \<open>A run: key 3 is asked for twice while the request is under way, then it is answered and rendered.\<close>

definition demoVault :: Vault where
  "demoVault =
     (let v = keyAnswered 0 (Reply (key_body ''abc'')) (snd (resolveRealKey 3 (snd (resolveRealKey 3 emptyVault))))
      in v\<lparr>closure := resolvedKeys v\<rparr>)"

lemma asked_twice:
  "snd (resolveRealKey 3 (snd (resolveRealKey 3 emptyVault))) =
     \<lparr>resolvedKeys = Map.empty, closure = Map.empty, pendingRequests = [3 \<mapsto> 0], asked = [3], results = Map.empty,
      batches = [], batchResults = Map.empty, loadingKeys = {3}, vaultToasts = []\<rparr>"
  by (simp add: resolveRealKey_def emptyVault_def cached_def Let_def)

lemma replied_key_body [simp]: "k \<noteq> [] \<Longrightarrow> replied_key (key_body k) = Some k"
  by (simp add: replied_key_def key_body_def ok_body_def)

lemma demoVault_reach: "vault_reach (\<lambda>_. ''abc'') demoVault"
proof -
  have "vault_reach (\<lambda>_. ''abc'') (snd (resolveRealKey 3 (snd (resolveRealKey 3 emptyVault))))"
    by (intro vault_reach.step [OF vault_reach.step [OF vault_reach.init vault_step.ask] vault_step.ask])
  then have "vault_reach (\<lambda>_. ''abc'') (keyAnswered 0 (Reply (key_body ''abc'')) (snd (resolveRealKey 3 (snd (resolveRealKey 3 emptyVault)))))"
    by (rule vault_reach.step) (rule vault_step.answer, simp_all add: asked_twice honest_def)
  from vault_reach.step [OF this vault_step.render] show ?thesis by (simp add: demoVault_def Let_def)
qed

text \<open>Then the keys 3 and 5 are asked for together; only 5 is requested, and both are copied.\<close>

definition demoBatch :: Vault where
  "demoBatch =
     batchAnswered 0 (Reply (ok_body\<lparr>data := Some (JObj [(''keys'', JObj [(''5'', JStr ''abc'')])])\<rparr>))
       (snd (resolveRealKeysBatch [3, 5] demoVault))"

lemma demoVault_fields: "closure demoVault = [3 \<mapsto> ''sk-abc'']" "batches demoVault = []" "batchResults demoVault = Map.empty"
  "asked demoVault = [3]" "results demoVault 0 = Some (Some ''sk-abc'')"
  unfolding demoVault_def asked_twice by (simp_all add: Let_def keyAnswered_def shown_in_def)

lemma demo_asked: "batches (snd (resolveRealKeysBatch [3, 5] demoVault)) = [([3, 5], [5], [3 \<mapsto> ''sk-abc''])]"
  "batchResults (snd (resolveRealKeysBatch [3, 5] demoVault)) = Map.empty"
  by (simp_all add: resolveRealKeysBatch_def demoVault_fields cached_def Let_def)

lemma id_of_5: "id_of ''5'' = Some 5"
  by code_simp

lemma replied_keys_demo:
  "replied_keys (ok_body\<lparr>data := Some (JObj [(''keys'', JObj [(''5'', JStr ''abc'')])])\<rparr>) = Some [(''5'', JStr ''abc'')]"
  by (simp add: replied_keys_def ok_body_def)

lemma demoBatch_reach: "vault_reach (\<lambda>_. ''abc'') demoBatch"
proof -
  have "vault_reach (\<lambda>_. ''abc'') (snd (resolveRealKeysBatch [3, 5] demoVault))"
    by (rule vault_reach.step [OF demoVault_reach vault_step.ask_batch])
  then show ?thesis unfolding demoBatch_def
    by (rule vault_reach.step) (rule vault_step.answer_batch, simp_all add: demo_asked honest_batch_def replied_keys_demo id_of_5)
qed

lemma demoBatch_map: "\<exists>m. batchResults demoBatch 0 = Some m \<and> m 3 \<noteq> None \<and> m 5 \<noteq> None"
proof -
  have "own_entries [(''5'', JStr ''abc'')] = [(''5'', JStr ''abc'')]" by (simp add: own_entries_def)
  then show ?thesis by (simp add: demoBatch_def batchAnswered_def demo_asked replied_keys_demo Let_def shown_in_def id_of_5 restrict_map_def map_add_def)
qed

lemma resolved_keys_right_witness:
  "\<exists>m. batchResults demoBatch 0 = Some m
     \<and> handleBatchCopy [(5, ''b''), (7, ''c''), (3, ''a'')] (m(7 := None)) = handleBatchCopy [(5, ''b''), (3, ''a'')] m
     \<and> handleBatchCopy [(5, ''b''), (3, ''a'')] m = Some (''b'' @ [CHR 0x09] @ ''sk-abc'' @ [CHR 0x0A] @ ''a'' @ [CHR 0x09] @ ''sk-abc'')"
proof -
  obtain m where m: "batchResults demoBatch 0 = Some m" "m 3 \<noteq> None" "m 5 \<noteq> None" using demoBatch_map by blast
  have "handleBatchCopy [(5, ''b''), (3, ''a'')] m =
      (let ls = map (key_line (\<lambda>_. ''abc'')) (filter (\<lambda>row. m (fst row) \<noteq> None) [(5, ''b''), (3, ''a'')])
       in if ls \<noteq> [] then Some (join [CHR 0x0A] ls) else None)"
    using resolved_keys_right [OF demoBatch_reach] m(1) by blast
  then have "handleBatchCopy [(5, ''b''), (3, ''a'')] m = Some (''b'' @ [CHR 0x09] @ ''sk-abc'' @ [CHR 0x0A] @ ''a'' @ [CHR 0x09] @ ''sk-abc'')"
    using m by (simp add: key_line_def)
  moreover have "handleBatchCopy [(5, ''b''), (7, ''c''), (3, ''a'')] (m(7 := None)) = handleBatchCopy [(5, ''b''), (3, ''a'')] m"
    by (simp add: handleBatchCopy_def)
  ultimately show ?thesis using m(1) by blast
qed

text \<open>
  Batch requests do not look at the requests under way: a key whose own request is under way is asked for again by a
  batch, and by a second batch.
\<close>

lemma batch_asks_again:
  "\<exists>v. vault_reach key v \<and> pendingRequests v 3 = Some 0 \<and> results v 0 = None
     \<and> map (\<lambda>(ids, un, old). un) (batches v) = [[3], [3]] \<and> batchResults v 0 = None \<and> batchResults v 1 = None"
proof -
  let ?v = "snd (resolveRealKeysBatch [3] (snd (resolveRealKeysBatch [3] (snd (resolveRealKey 3 emptyVault)))))"
  have "vault_reach key ?v"
    by (intro vault_reach.step [OF vault_reach.step [OF vault_reach.step [OF vault_reach.init vault_step.ask] vault_step.ask_batch] vault_step.ask_batch])
  then show ?thesis
    by (intro exI [of _ ?v]) (simp add: resolveRealKey_def resolveRealKeysBatch_def emptyVault_def cached_def Let_def)
qed

text \<open>A batch that fails takes the loading mark of a key whose own request is still under way.\<close>

lemma loading_mark_lost:
  "\<exists>v. vault_reach key v \<and> pendingRequests v 3 = Some 0 \<and> 3 \<notin> loadingKeys v"
proof -
  let ?e = "Rejected \<lparr>status = None, server_message = None, err_message = []\<rparr>"
  let ?v2 = "snd (resolveRealKeysBatch [3] (snd (resolveRealKey 3 emptyVault)))"
  have b: "batches ?v2 = [([3], [3], Map.empty)]" "batchResults ?v2 0 = None"
    by (simp_all add: resolveRealKey_def resolveRealKeysBatch_def emptyVault_def cached_def Let_def)
  have "vault_reach key ?v2"
    by (intro vault_reach.step [OF vault_reach.step [OF vault_reach.init vault_step.ask] vault_step.ask_batch])
  then have "vault_reach key (batchAnswered 0 ?e ?v2)"
    by (rule vault_reach.step) (rule vault_step.answer_batch, simp_all add: b honest_batch_def)
  moreover have "pendingRequests (batchAnswered 0 ?e ?v2) 3 = Some 0" "3 \<notin> loadingKeys (batchAnswered 0 ?e ?v2)"
    by (simp_all add: batchAnswered_def b Let_def shown_in_def resolveRealKey_def resolveRealKeysBatch_def emptyVault_def cached_def)
  ultimately show ?thesis by blast
qed

end
