(* ===== verification/WebText.thy ===== *)
theory WebText
  imports JsJsonFacts
begin

text \<open>
  The text encodings of the web that the sources call: \<open>btoa\<close>, \<open>encodeURIComponent\<close> and the serialiser of
  \<open>URLSearchParams\<close>, each with the decoder of the other side and its round trip; \<open>split\<close> and \<open>join\<close> by a
  separator of several code units.
\<close>

subsection \<open>Replacing every occurrence\<close>

text \<open>\<open>s.split(p)\<close>; an empty separator gives the code units one by one.\<close>

function split_str :: "string \<Rightarrow> string \<Rightarrow> string list" where
  "split_str p s =
     (if p = [] then map (\<lambda>c. [c]) s
      else (case cut_at p s of None \<Rightarrow> [s] | Some (a, b) \<Rightarrow> a # split_str p b))"
  by pat_completeness auto

termination
  by (relation "measure (\<lambda>(p, s). length s)") (auto dest!: cut_at_Some)

declare split_str.simps [simp del]

text \<open>The recursion of \<open>split(p).join(v)\<close> on the text, which the proofs use.\<close>

definition replace_all :: "string \<Rightarrow> string \<Rightarrow> string \<Rightarrow> string" where
  "replace_all p v s = join v (split_str p s)"

lemma split_str_ne [simp]: "p \<noteq> [] \<Longrightarrow> split_str p s \<noteq> []"
  by (subst split_str.simps) (auto split: option.splits)

lemma replace_all_cut:
  assumes "p \<noteq> []"
  shows "replace_all p v s = (case cut_at p s of None \<Rightarrow> s | Some (a, b) \<Rightarrow> a @ v @ replace_all p v b)"
  using assms unfolding replace_all_def
  by (subst split_str.simps) (auto simp: join_Cons split: option.splits)

lemma cut_at_here: "p \<noteq> [] \<Longrightarrow> cut_at p (p @ r) = Some ([], r)"
  by (cases p) auto

lemma replace_all_here [simp]: "p \<noteq> [] \<Longrightarrow> replace_all p v (p @ r) = v @ replace_all p v r"
  by (subst replace_all_cut) (auto simp: cut_at_here)

lemma replace_all_Cons:
  assumes "p \<noteq> []" "strip_prefix p (x # s) = None"
  shows "replace_all p v (x # s) = x # replace_all p v s"
  using assms by (simp add: replace_all_cut [of p v "x # s"] replace_all_cut [of p v s] split: option.splits)

lemma replace_all_Nil [simp]: "p \<noteq> [] \<Longrightarrow> replace_all p v [] = []"
  by (simp add: replace_all_cut)

lemma replace_all_skip:
  assumes "p = c # ps" "c \<notin> set u"
  shows "replace_all p v (u @ r) = u @ replace_all p v r"
  using assms(2)
proof (induction u)
  case Nil
  show ?case by simp
next
  case (Cons x u)
  then have "strip_prefix p (x # u @ r) = None" by (auto simp: assms(1))
  with Cons show ?case by (simp add: replace_all_Cons assms(1))
qed

subsection \<open>Base64\<close>

definition b64_char :: "nat \<Rightarrow> char" where
  "b64_char n =
     (if n < 26 then char_of (65 + n) else if n < 52 then char_of (71 + n) else if n < 62 then char_of (n - 4)
      else if n = 62 then CHR ''+'' else CHR ''/'')"

definition b64_val :: "char \<Rightarrow> nat option" where
  "b64_val c =
     (let n = of_char c
      in if 65 \<le> n \<and> n \<le> 90 then Some (n - 65) else if 97 \<le> n \<and> n \<le> 122 then Some (n - 71)
         else if 48 \<le> n \<and> n \<le> 57 then Some (n + 4) else if c = CHR ''+'' then Some 62
         else if c = CHR ''/'' then Some 63 else None)"

abbreviation code :: "char \<Rightarrow> nat" where
  "code \<equiv> of_char"

text \<open>\<open>btoa\<close>, for code units below U+0100 (above it throws).\<close>

fun btoa :: "string \<Rightarrow> string" where
  "btoa [] = []"
| "btoa [a] = [b64_char (code a div 4), b64_char (code a mod 4 * 16), CHR ''='', CHR ''='']"
| "btoa [a, b] =
     [b64_char (code a div 4), b64_char (code a mod 4 * 16 + code b div 16), b64_char (code b mod 16 * 4), CHR ''='']"
| "btoa (a # b # c # s) =
     b64_char (code a div 4) # b64_char (code a mod 4 * 16 + code b div 16)
     # b64_char (code b mod 16 * 4 + code c div 64) # b64_char (code c mod 64) # btoa s"

text \<open>The decoder of the receiving side, for padded text without white space.\<close>

fun atob :: "string \<Rightarrow> string option" where
  "atob [] = Some []"
| "atob (p # q # r # s # t) =
     (case (b64_val p, b64_val q) of
        (Some i, Some j) \<Rightarrow>
          (let a = char_of (i * 4 + j div 16)
           in if r = CHR ''='' then (if s = CHR ''='' \<and> t = [] then Some [a] else None)
              else (case b64_val r of
                      None \<Rightarrow> None
                    | Some k \<Rightarrow>
                        (let b = char_of (j mod 16 * 16 + k div 4)
                         in if s = CHR ''='' then (if t = [] then Some [a, b] else None)
                            else (case b64_val s of
                                    None \<Rightarrow> None
                                  | Some l \<Rightarrow> map_option (\<lambda>u. a # b # char_of (k mod 4 * 64 + l) # u) (atob t)))))
      | _ \<Rightarrow> None)"
| "atob _ = None"

lemma b64_val_char: "n < 64 \<Longrightarrow> b64_val (b64_char n) = Some n"
  by (auto simp: b64_val_def b64_char_def Let_def)

lemma b64_char_pad: "n < 64 \<Longrightarrow> b64_char n \<noteq> CHR ''=''"
  using b64_val_char [of n] by (auto simp: b64_val_def split: if_splits)

lemma sextets:
  "code c div 4 < 64" "code c mod 4 * 16 < 64" "code c mod 4 * 16 + code d div 16 < 64"
  "code c mod 16 * 4 < 64" "code c mod 16 * 4 + code d div 64 < 64" "code c mod 64 < 64"
  using nat_of_char_less_256 [of c] nat_of_char_less_256 [of d] by linarith+

lemma sextet_pairs:
  "code b div 16 div 16 = 0" "code b div 16 mod 16 = code b div 16" "code c div 64 div 4 = 0"
  "code c div 64 mod 4 = code c div 64" "(code a mod 4 * 16 + code b div 16) div 16 = code a mod 4"
  "(code a mod 4 * 16 + code b div 16) mod 16 = code b div 16"
  "(code b mod 16 * 4 + code c div 64) div 4 = code b mod 16"
  "(code b mod 16 * 4 + code c div 64) mod 4 = code c div 64"
proof -
  have b: "code b div 16 < 16" using nat_of_char_less_256 [of b] by (simp add: less_mult_imp_div_less)
  have c: "code c div 64 < 4" using nat_of_char_less_256 [of c] by (simp add: less_mult_imp_div_less)
  from b show "code b div 16 div 16 = 0" "code b div 16 mod 16 = code b div 16"
    "(code a mod 4 * 16 + code b div 16) div 16 = code a mod 4"
    "(code a mod 4 * 16 + code b div 16) mod 16 = code b div 16" by simp_all
  from c show "code c div 64 div 4 = 0" "code c div 64 mod 4 = code c div 64"
    "(code b mod 16 * 4 + code c div 64) div 4 = code b mod 16"
    "(code b mod 16 * 4 + code c div 64) mod 4 = code c div 64" by simp_all
qed

theorem atob_btoa: "atob (btoa s) = Some s"
  by (induction s rule: btoa.induct) (simp_all add: b64_val_char b64_char_pad sextets sextet_pairs)

subsection \<open>Percent encoding\<close>

text \<open>
  The UTF-8 bytes of a code unit below U+0100, and a byte in hexadecimal with capital letters.
\<close>

definition utf8 :: "char \<Rightarrow> nat list" where
  "utf8 c = (if code c < 128 then [code c] else [192 + code c div 64, 128 + code c mod 64])"

definition upper_hex :: "nat \<Rightarrow> char" where
  "upper_hex d = (if d < 10 then char_of (48 + d) else char_of (55 + d))"

definition percent_byte :: "nat \<Rightarrow> string" where
  "percent_byte b = [CHR 0x25, upper_hex (b div 16), upper_hex (b mod 16)]"

definition percent :: "char \<Rightarrow> string" where
  "percent c = concat (map percent_byte (utf8 c))"

definition alnum :: "char \<Rightarrow> bool" where
  "alnum c \<longleftrightarrow> (let n = code c in 48 \<le> n \<and> n \<le> 57 \<or> 65 \<le> n \<and> n \<le> 90 \<or> 97 \<le> n \<and> n \<le> 122)"

definition uri_unreserved :: "char \<Rightarrow> bool" where
  "uri_unreserved c \<longleftrightarrow> alnum c \<or> c \<in> set ''-_.!~*'' \<or> c = CHR 0x27 \<or> c = CHR ''('' \<or> c = CHR '')''"

definition encodeURIComponent :: "string \<Rightarrow> string" where
  "encodeURIComponent s = concat (map (\<lambda>c. if uri_unreserved c then [c] else percent c) s)"

text \<open>\<open>URLSearchParams.toString()\<close>: the application/x-www-form-urlencoded serialiser.\<close>

definition form_unreserved :: "char \<Rightarrow> bool" where
  "form_unreserved c \<longleftrightarrow> alnum c \<or> c \<in> set ''*-._''"

definition form_char :: "char \<Rightarrow> string" where
  "form_char c = (if c = CHR '' '' then ''+'' else if form_unreserved c then [c] else percent c)"

definition form_component :: "string \<Rightarrow> string" where
  "form_component s = concat (map form_char s)"

definition search_text :: "(string \<times> string) list \<Rightarrow> string" where
  "search_text ps = join ''&'' (map (\<lambda>(k, v). form_component k @ ''='' @ form_component v) ps)"

text \<open>
  The decoders of the receiving side, for texts whose bytes stand for code units below U+0100: \<open>sp\<close>
  says whether \<^verbatim>\<open>+\<close> stands for a space.
\<close>

definition hex_byte :: "char \<Rightarrow> char \<Rightarrow> nat option" where
  "hex_byte h l = (case (hex_val h, hex_val l) of (Some a, Some b) \<Rightarrow> Some (16 * a + b) | _ \<Rightarrow> None)"

fun percent_decode :: "bool \<Rightarrow> string \<Rightarrow> string option" where
  "percent_decode sp [] = Some []"
| "percent_decode sp (c # s) =
     (if c = CHR 0x25
      then (case s of
              h # l # r \<Rightarrow>
                (case hex_byte h l of
                   None \<Rightarrow> None
                 | Some b \<Rightarrow>
                     if b < 128 then map_option ((#) (char_of b)) (percent_decode sp r)
                     else if b \<in> {194, 195}
                     then (case r of
                             p # h2 # l2 # r2 \<Rightarrow>
                               (case hex_byte h2 l2 of
                                  None \<Rightarrow> None
                                | Some b2 \<Rightarrow>
                                    if p = CHR 0x25 \<and> 128 \<le> b2 \<and> b2 < 192
                                    then map_option ((#) (char_of ((b - 192) * 64 + (b2 - 128)))) (percent_decode sp r2)
                                    else None)
                           | _ \<Rightarrow> None)
                     else None)
            | _ \<Rightarrow> None)
      else map_option ((#) (if sp \<and> c = CHR ''+'' then CHR '' '' else c)) (percent_decode sp s))"

definition decodeURIComponent :: "string \<Rightarrow> string option" where
  "decodeURIComponent = percent_decode False"

definition read_pair :: "string \<Rightarrow> (string \<times> string) option" where
  "read_pair w =
     (let (k, v) = (case cut_at ''='' w of Some kv \<Rightarrow> kv | None \<Rightarrow> (w, []))
      in case (percent_decode True k, percent_decode True v) of
           (Some k', Some v') \<Rightarrow> Some (k', v')
         | _ \<Rightarrow> None)"

definition read_search :: "string \<Rightarrow> (string \<times> string) option list" where
  "read_search s = map read_pair (filter (\<lambda>w. w \<noteq> []) (split_on (CHR ''&'') s))"

lemma hex_val_upper: "d < 16 \<Longrightarrow> hex_val (upper_hex d) = Some d"
proof -
  have "\<forall>i < 16. hex_val (upper_hex i) = Some i" by code_simp
  then show "d < 16 \<Longrightarrow> ?thesis" by blast
qed

lemma hex_byte_upper: "b < 256 \<Longrightarrow> hex_byte (upper_hex (b div 16)) (upper_hex (b mod 16)) = Some b"
  by (simp add: hex_byte_def hex_val_upper)

lemma percent_decode_byte: "b < 128 \<Longrightarrow> percent_decode sp (percent_byte b @ r) = map_option ((#) (char_of b)) (percent_decode sp r)"
  by (simp add: percent_byte_def hex_byte_upper)

lemma high_bytes:
  assumes "128 \<le> n" "n < (256 :: nat)"
  shows "192 + n div 64 \<in> {194, 195}" "128 + n mod 64 < 192"
    "(192 + n div 64 - 192) * 64 + (128 + n mod 64 - 128) = n"
proof -
  have "n div 64 = 2 \<or> n div 64 = 3" using assms by linarith
  then show "192 + n div 64 \<in> {194, 195}" by auto
qed simp_all

lemma percent_decode_two:
  assumes "b \<in> {194, 195}" "128 \<le> b2" "b2 < 192"
  shows "percent_decode sp (percent_byte b @ percent_byte b2 @ r) =
    map_option ((#) (char_of ((b - 192) * 64 + (b2 - 128)))) (percent_decode sp r)"
proof -
  have "b < 256" "\<not> b < 128" "b2 < 256" using assms by auto
  then show ?thesis using assms by (simp add: percent_byte_def hex_byte_upper del: insert_iff)
qed

lemma percent_decode_percent:
  "percent_decode sp (percent c @ r) = map_option ((#) c) (percent_decode sp r)"
proof (cases "code c < 128")
  case True
  then show ?thesis by (simp add: percent_def utf8_def percent_decode_byte del: percent_decode.simps)
next
  case False
  then have n: "128 \<le> code c" "code c < 256" by simp_all
  note h = high_bytes [OF n]
  have "percent_decode sp (percent c @ r) =
      percent_decode sp (percent_byte (192 + code c div 64) @ percent_byte (128 + code c mod 64) @ r)"
    using False by (simp add: percent_def utf8_def del: percent_decode.simps)
  also have "\<dots> = map_option ((#) c) (percent_decode sp r)"
    by (subst percent_decode_two [OF h(1) _ h(2)], simp, subst h(3), simp)
  finally show ?thesis .
qed

lemma decode_encoded_append:
  "percent_decode False (encodeURIComponent s @ r) = map_option ((@) s) (percent_decode False r)"
proof (induction s)
  case Nil
  show ?case by (simp add: encodeURIComponent_def option.map_ident)
next
  case (Cons c s)
  have "\<not> uri_unreserved (CHR 0x25)" by code_simp
  then have "percent_decode False ((if uri_unreserved c then [c] else percent c) @ q) = map_option ((#) c) (percent_decode False q)" for q
    by (auto simp: percent_decode_percent)
  with Cons show ?case by (simp add: encodeURIComponent_def option.map_comp comp_def del: percent_decode.simps)
qed

theorem decode_encodeURIComponent: "decodeURIComponent (encodeURIComponent s) = Some s"
  using decode_encoded_append [of s "[]"] by (simp add: decodeURIComponent_def)

lemma percent_decode_form_char:
  "percent_decode True (form_char c @ r) = map_option ((#) c) (percent_decode True r)"
proof -
  have "\<not> form_unreserved (CHR 0x25)" "\<not> form_unreserved (CHR ''+'')" by code_simp+
  then show ?thesis by (auto simp: form_char_def percent_decode_percent)
qed

lemma decode_form_component: "percent_decode True (form_component s) = Some s"
  by (induction s) (simp_all add: form_component_def percent_decode_form_char del: percent_decode.simps(2))

text \<open>Which characters the encoders write.\<close>

lemma alnum_upper_hex: "d < 16 \<Longrightarrow> alnum (upper_hex d)"
  by (auto simp: alnum_def upper_hex_def Let_def)

lemma utf8_bytes: "b \<in> set (utf8 c) \<Longrightarrow> b < 256"
  using nat_of_char_less_256 [of c] high_bytes [of "code c"] by (auto simp: utf8_def split: if_splits)

lemma percent_set:
  assumes "x \<in> set (percent c)"
  shows "x = CHR 0x25 \<or> alnum x"
proof -
  from assms obtain b where "b \<in> set (utf8 c)" "x \<in> set (percent_byte b)" by (auto simp only: percent_def set_concat set_map)
  moreover from this(1) have "b div 16 < 16" using utf8_bytes by fastforce
  ultimately show ?thesis by (auto simp: percent_byte_def alnum_upper_hex)
qed

lemma encoded_set: "x \<in> set (encodeURIComponent s) \<Longrightarrow> x = CHR 0x25 \<or> uri_unreserved x"
  by (auto simp: encodeURIComponent_def uri_unreserved_def dest: percent_set split: if_splits)

lemma form_component_set: "x \<in> set (form_component s) \<Longrightarrow> x \<in> set ''%+'' \<or> form_unreserved x"
  by (auto simp: form_component_def form_char_def form_unreserved_def dest: percent_set split: if_splits)

lemma form_component_plain [simp]: "CHR ''&'' \<notin> set (form_component s)" "CHR ''='' \<notin> set (form_component s)"
proof -
  have "\<not> form_unreserved (CHR ''&'')" "\<not> form_unreserved (CHR ''='')" by code_simp+
  then show "CHR ''&'' \<notin> set (form_component s)" "CHR ''='' \<notin> set (form_component s)"
    using form_component_set [of _ s] by auto
qed

lemma read_pair_written: "read_pair (form_component k @ ''='' @ form_component v) = Some (k, v)"
proof -
  have "CHR ''='' \<in> set (a @ ''='' @ b)" for a b by simp
  then have "\<not> str_includes ''='' (form_component k)"
    by (metis str_includes_iff form_component_plain(2))
  then have "cut_at ''='' (form_component k @ ''='' @ form_component v) = Some (form_component k, form_component v)"
    by (rule cut_at_first [OF refl, rotated]) simp
  then show ?thesis by (simp add: read_pair_def decode_form_component)
qed

theorem read_search_text: "ps \<noteq> [] \<Longrightarrow> read_search (search_text ps) = map Some ps"
proof -
  let ?ws = "map (\<lambda>(k, v). form_component k @ ''='' @ form_component v) ps"
  assume "ps \<noteq> []"
  then have "split_on (CHR ''&'') (join ''&'' ?ws) = ?ws"
    by (intro split_on_join) auto
  moreover have "filter (\<lambda>w. w \<noteq> []) ?ws = ?ws" by (auto simp: filter_id_conv)
  ultimately have "read_search (search_text ps) = map read_pair ?ws" by (simp add: read_search_def search_text_def)
  also have "\<dots> = map Some ps" by (induction ps) (auto simp: read_pair_written [simplified])
  finally show ?thesis .
qed

text \<open>What both encoders promise: the decoder returns the text.\<close>

interpretation uri_text: text_codec encodeURIComponent decodeURIComponent "\<lambda>_. True"
  by unfold_locales (simp add: decode_encodeURIComponent)

interpretation base64_text: text_codec btoa atob "\<lambda>_. True"
  by unfold_locales (simp add: atob_btoa)

end
