(* ===== verification/ChatLinks.thy ===== *)
theory ChatLinks
  imports KeyVault WebText
begin

text \<open>
  Links into chat clients (\<^verbatim>\<open>features/chat\<close>): presets and their templates (\<^verbatim>\<open>lib/chat-links.ts\<close>,
  \<^verbatim>\<open>hooks/use-chat-presets.ts\<close>), the key they are filled with (\<^verbatim>\<open>hooks/use-active-chat-key.ts\<close>) and the
  places that open them: the sidebar, the chat page, the redirect page and the key table.
\<close>

subsection \<open>Presets (lib/chat-links.ts)\<close>

datatype ChatLinkType = Web | CustomProtocol | Fluent

record ChatPreset =
  presetId :: string
  presetName :: string
  presetUrl :: string
  presetType :: ChatLinkType

text \<open>The pattern of the source is case-insensitive.\<close>

definition detectChatLinkType :: "string \<Rightarrow> ChatLinkType" where
  "detectChatLinkType u =
     (if starts_with ''http://'' (lower u) \<or> starts_with ''https://'' (lower u) then Web
      else if starts_with ''fluent'' (lower u) then Fluent
      else CustomProtocol)"

definition preset_of :: "nat \<Rightarrow> json \<Rightarrow> ChatPreset option" where
  "preset_of index entry =
     (case entry of
        JObj ob \<Rightarrow>
          (case own_entries ob of
             [(nm, JStr v)] \<Rightarrow>
               (let u = trim v
                in if u = [] then None
                   else Some \<lparr>presetId = show_nat index, presetName = nm, presetUrl = u, presetType = detectChatLinkType u\<rparr>)
           | _ \<Rightarrow> None)
      | _ \<Rightarrow> None)"

text \<open>A configuration is a text that is parsed, or a value; \<open>None\<close> is undefined.\<close>

definition parseChatConfig :: "json option \<Rightarrow> ChatPreset list" where
  "parseChatConfig raw =
     (let parsed = (case raw of Some (JStr s) \<Rightarrow> json_parse s | _ \<Rightarrow> raw)
      in case parsed of
           Some (JArr entries) \<Rightarrow> List.map_filter (\<lambda>(i, entry). preset_of i entry) (enumerate 0 entries)
         | _ \<Rightarrow> [])"

definition replaceToken :: "string \<Rightarrow> string \<Rightarrow> string \<Rightarrow> string" where
  "replaceToken source token v = join v (split_str token source)"

definition chat_payload :: "string \<Rightarrow> string \<Rightarrow> string \<Rightarrow> json" where
  "chat_payload tag server key = JObj [(tag, JStr ''heqiuyu-api''), (''baseUrl'', JStr server), (''apiKey'', JStr key)]"

definition encoded_payload :: "json \<Rightarrow> string" where
  "encoded_payload v = encodeURIComponent (btoa (stringify v))"

definition resolveChatUrl :: "string \<Rightarrow> string option \<Rightarrow> string \<Rightarrow> string" where
  "resolveChatUrl template apiKey serverAddress =
     (let safeApiKey = (case apiKey of Some k \<Rightarrow> k | None \<Rightarrow> [])
      in if str_includes ''{cherryConfig}'' template
         then replaceToken template ''{cherryConfig}'' (encoded_payload (chat_payload ''id'' serverAddress safeApiKey))
         else if str_includes ''{aionuiConfig}'' template
         then replaceToken template ''{aionuiConfig}'' (encoded_payload (chat_payload ''platform'' serverAddress safeApiKey))
         else (let u = (if serverAddress \<noteq> [] then replaceToken template ''{address}'' (encodeURIComponent serverAddress)
                        else template)
               in if safeApiKey \<noteq> [] then replaceToken u ''{key}'' safeApiKey else u))"

definition getFirstActiveKey :: "ApiKey list option \<Rightarrow> ApiKey option" where
  "getFirstActiveKey keys = Option.bind keys (find (\<lambda>k. keyStatus k = STATUS_ENABLED))"

subsection \<open>The presets of the page (hooks/use-chat-presets.ts)\<close>

text \<open>\<open>a ?? b\<close> on properties: null and undefined go on.\<close>

definition or_next :: "json option \<Rightarrow> json option \<Rightarrow> json option" where
  "or_next a b = (case a of None \<Rightarrow> b | Some JNull \<Rightarrow> b | _ \<Rightarrow> a)"

definition prop_of :: "string \<Rightarrow> json option \<Rightarrow> json option" where
  "prop_of k v = Option.bind v (jfield k)"

definition getStoredStatusChats :: "Storage \<Rightarrow> json option" where
  "getStoredStatusChats st =
     (case try_get ''status'' st of
        None \<Rightarrow> None
      | Some raw \<Rightarrow> if raw = [] then None
                    else or_next (prop_of ''chats'' (json_parse raw)) (prop_of ''Chats'' (json_parse raw)))"

definition extractServerAddress :: "json option \<Rightarrow> string \<Rightarrow> string" where
  "extractServerAddress st origin =
     (let d = prop_of ''data'' st;
          fromStatus = or_next (prop_of ''server_address'' st) (or_next (prop_of ''serverAddress'' st)
                         (or_next (prop_of ''server_address'' d) (prop_of ''serverAddress'' d)))
      in case fromStatus of Some (JStr s) \<Rightarrow> if s \<noteq> [] then s else origin | _ \<Rightarrow> origin)"

definition extractChats :: "json option \<Rightarrow> Storage \<Rightarrow> json option" where
  "extractChats st stored =
     (let d = prop_of ''data'' st
      in or_next (prop_of ''Chats'' st) (or_next (prop_of ''chats'' st) (or_next (prop_of ''Chats'' d)
           (or_next (prop_of ''chats'' d) (getStoredStatusChats stored)))))"

definition useChatPresets :: "json option \<Rightarrow> Storage \<Rightarrow> string \<Rightarrow> ChatPreset list \<times> string" where
  "useChatPresets st stored origin = (parseChatConfig (extractChats st stored), extractServerAddress st origin)"

subsection \<open>The key of the links (hooks/use-active-chat-key.ts)\<close>

text \<open>
  The answer to \<open>getApiKeys\<close>: a failed request, a refusal with its message, or the listed keys. The query
  throws an error or returns the text of the first enabled key.
\<close>

datatype KeyList = ListFailed string | ListRefused "string option" | Listed "ApiKey list"

definition useActiveChatKey :: "KeyList \<Rightarrow> string + string" where
  "useActiveChatKey answer =
     (case answer of
        ListFailed e \<Rightarrow> Inl e
      | ListRefused m \<Rightarrow> Inl (text_or_else m ''Failed to load API keys'')
      | Listed keys \<Rightarrow>
          (case find (\<lambda>k. keyStatus k = STATUS_ENABLED) keys of
             Some k \<Rightarrow> Inr (keyText k)
           | None \<Rightarrow> Inl ''No enabled API keys found. Create or enable one first.''))"

text \<open>The state of the query: under way (also when it is not enabled), failed, or the key.\<close>

datatype KeyState = KeyPending | KeyError string | KeyOf string

definition key_state :: "(string + string) option \<Rightarrow> KeyState" where
  "key_state r = (case r of None \<Rightarrow> KeyPending | Some (Inl e) \<Rightarrow> KeyError e | Some (Inr k) \<Rightarrow> KeyOf k)"

subsection \<open>Opening a preset from the sidebar (chat-presets-item.tsx)\<close>

datatype OpenResult = Nothing | Info string | Failed string | Opened string

definition requiresApiKey :: "ChatPreset \<Rightarrow> bool" where
  "requiresApiKey p \<longleftrightarrow> str_includes ''{key}'' (presetUrl p) \<or> str_includes ''{cherryConfig}'' (presetUrl p)"

definition visiblePresets :: "ChatPreset list \<Rightarrow> ChatPreset list" where
  "visiblePresets = filter (\<lambda>p. presetType p \<noteq> Fluent)"

definition hasKeyDependentPresets :: "ChatPreset list \<Rightarrow> bool" where
  "hasKeyDependentPresets ps \<longleftrightarrow> list_ex requiresApiKey (visiblePresets ps)"

definition active_key :: "KeyState \<Rightarrow> string option" where
  "active_key ks = (case ks of KeyOf k \<Rightarrow> if k \<noteq> [] then Some k else None | _ \<Rightarrow> None)"

definition handleOpenExternal :: "KeyState \<Rightarrow> string \<Rightarrow> ChatPreset \<Rightarrow> OpenResult" where
  "handleOpenExternal ks serverAddress p =
     (if presetType p = Web then Nothing
      else (let needsKey = requiresApiKey p
            in if needsKey \<and> ks = KeyPending
               then Info ''Preparing your chat link, please try again in a moment.''
               else if needsKey \<and> active_key ks = None
               then Failed (case ks of KeyError e \<Rightarrow> e
                            | _ \<Rightarrow> ''Unable to prepare chat link. Please ensure you have an enabled API key.'')
               else (let u = resolveChatUrl (presetUrl p) (if needsKey then active_key ks else None) serverAddress
                     in if u = [] then Failed ''Invalid chat link. Please contact the administrator.'' else Opened u)))"

subsection \<open>The chat page and the redirect page (routes)\<close>

text \<open>\<open>Number.isInteger(Number(chatId))\<close> for ids in decimal digits; the loader redirects for others.\<close>

definition chat_preset :: "string \<Rightarrow> ChatPreset list \<Rightarrow> ChatPreset option" where
  "chat_preset chatId ps = find (\<lambda>p. presetId p = chatId) ps"

definition iframeSrc :: "ChatPreset option \<Rightarrow> KeyState \<Rightarrow> string \<Rightarrow> string" where
  "iframeSrc preset ks serverAddress =
     (case preset of
        None \<Rightarrow> []
      | Some p \<Rightarrow>
          if presetType p \<noteq> Web then []
          else (let requiresActiveKey = requiresApiKey p
                in if requiresActiveKey \<and> active_key ks = None then []
                   else resolveChatUrl (presetUrl p) (if requiresActiveKey then active_key ks else None) serverAddress))"

datatype Redirect = Wait | NoWebPreset | NoPreset | NoKey | GoTo string

text \<open>The effect of \<^verbatim>\<open>routes/_authenticated/chat2link.tsx\<close>; the query there gives null when no key is enabled.\<close>

definition chat2link_key :: "KeyList \<Rightarrow> string option + string option" where
  "chat2link_key answer =
     (case answer of
        ListFailed e \<Rightarrow> Inl (Some e)
      | ListRefused m \<Rightarrow> Inl m
      | Listed keys \<Rightarrow> Inr (map_option keyText (find (\<lambda>k. keyStatus k = STATUS_ENABLED) keys)))"

definition Chat2LinkPage :: "ChatPreset list \<Rightarrow> (string option + string option) option \<Rightarrow> string \<Rightarrow> Redirect" where
  "Chat2LinkPage ps key serverAddress =
     (case find (\<lambda>p. presetType p = Web) ps of
        None \<Rightarrow> if ps \<noteq> [] then NoWebPreset else NoPreset
      | Some p \<Rightarrow>
          (case key of
             Some (Inr k) \<Rightarrow>
               (if text_or_else k [] = [] then NoKey
                else (let u = resolveChatUrl (presetUrl p) k serverAddress in if u \<noteq> [] then GoTo u else Wait))
           | _ \<Rightarrow> Wait))"

subsection \<open>Opening a preset from the key table (data-table-row-actions.tsx, send-to-fluent.ts)\<close>

definition fluent_detail :: "string \<Rightarrow> string \<Rightarrow> string \<Rightarrow> json" where
  "fluent_detail apiKey serverAddress origin =
     JObj [(''id'', JStr ''heqiuyu-api''), (''baseUrl'', JStr (if serverAddress \<noteq> [] then serverAddress else origin)),
           (''apiKey'', JStr (''sk-'' @ apiKey))]"

text \<open>The event sent to the extension's container, when the page has one.\<close>

definition sendToFluent :: "bool \<Rightarrow> string \<Rightarrow> string \<Rightarrow> string \<Rightarrow> json option" where
  "sendToFluent container apiKey serverAddress origin =
     (if container then Some (fluent_detail apiKey serverAddress origin) else None)"

datatype RowResult = NoRealKey | SentToFluent json | NoExtension | InvalidLink | RowOpened string

definition handleOpenChatPreset :: "string option \<Rightarrow> bool \<Rightarrow> string \<Rightarrow> string \<Rightarrow> ChatPreset \<Rightarrow> RowResult" where
  "handleOpenChatPreset realKey container serverAddress origin p =
     (if text_or_else realKey [] = [] then NoRealKey
      else if presetType p = Fluent
      then (case sendToFluent container (the realKey) serverAddress origin of Some d \<Rightarrow> SentToFluent d | None \<Rightarrow> NoExtension)
      else (let u = resolveChatUrl (presetUrl p) realKey serverAddress
            in if u = [] then InvalidLink else RowOpened u))"

definition encodeConnectionString :: "string \<Rightarrow> string \<Rightarrow> string" where
  "encodeConnectionString key u = stringify (JObj [(''_type'', JStr ''heqiuyu_channel_conn''), (''key'', JStr key), (''url'', JStr u)])"

text \<open>\<open>getServerAddress\<close> of the row actions and of the import dialog: the stored status, else the origin.\<close>

definition getServerAddress :: "Storage \<Rightarrow> string \<Rightarrow> string" where
  "getServerAddress st origin =
     (case try_get ''status'' st of
        Some raw \<Rightarrow>
          if raw = [] then origin
          else (case prop_of ''server_address'' (json_parse raw) of
                  Some v \<Rightarrow> if jtruthy v then js_String v else origin
                | None \<Rightarrow> origin)
      | None \<Rightarrow> origin)"

subsection \<open>Import into CC Switch (cc-switch-dialog.tsx)\<close>

datatype AppType = Claude | Codex | Gemini

fun app_text :: "AppType \<Rightarrow> string" where
  "app_text Claude = ''claude''"
| "app_text Codex = ''codex''"
| "app_text Gemini = ''gemini''"

fun defaultName :: "AppType \<Rightarrow> string" where
  "defaultName Claude = ''My Claude''"
| "defaultName Codex = ''My Codex''"
| "defaultName Gemini = ''My Gemini''"

record SwitchDialog =
  switchApp :: AppType
  switchName :: string
  switchModels :: "string obj"

definition openSwitchDialog :: SwitchDialog where
  "openSwitchDialog = \<lparr>switchApp = Claude, switchName = defaultName Claude, switchModels = []\<rparr>"

definition handleAppChange :: "AppType \<Rightarrow> SwitchDialog" where
  "handleAppChange a = \<lparr>switchApp = a, switchName = defaultName a, switchModels = []\<rparr>"

definition switch_pairs :: "AppType \<Rightarrow> string \<Rightarrow> string obj \<Rightarrow> string \<Rightarrow> string \<Rightarrow> (string \<times> string) list" where
  "switch_pairs app nm models apiKey serverAddress =
     (let endpoint = (if app = Codex then serverAddress @ ''/v1'' else serverAddress);
          ps = oput ''apiKey'' apiKey (oput ''endpoint'' endpoint (oput ''name'' nm
                 (oput ''app'' (app_text app) (oput ''resource'' ''provider'' []))));
          ms = fold (\<lambda>(k, v) acc. if v \<noteq> [] then oput k v acc else acc) (own_entries models) ps
      in oput ''enabled'' ''true'' (oput ''homepage'' serverAddress ms))"

definition buildCCSwitchURL :: "AppType \<Rightarrow> string \<Rightarrow> string obj \<Rightarrow> string \<Rightarrow> string \<Rightarrow> string" where
  "buildCCSwitchURL app nm models apiKey serverAddress =
     ''ccswitch://v1/import?'' @ search_text (switch_pairs app nm models apiKey serverAddress)"

text \<open>\<open>handleSubmit\<close>: \<open>None\<close> is the warning that the primary model is missing.\<close>

definition submitSwitch :: "SwitchDialog \<Rightarrow> string \<Rightarrow> string \<Rightarrow> string option" where
  "submitSwitch dg tokenKey serverAddress =
     (case oget (switchModels dg) ''model'' of
        Some m \<Rightarrow>
          if m = [] then None
          else (let key = (if starts_with ''sk-'' tokenKey then tokenKey else ''sk-'' @ tokenKey)
                in Some (buildCCSwitchURL (switchApp dg) (switchName dg) (switchModels dg) key serverAddress))
      | None \<Rightarrow> None)"

subsection \<open>What a link carries\<close>

lemma wf_payload: "tag \<in> {''id'', ''platform''} \<Longrightarrow> wf_json (chat_payload tag s k)"
  unfolding chat_payload_def by (intro wf_obj) (auto simp: is_digit_def)

definition decode_payload :: "string \<Rightarrow> json option" where
  "decode_payload e = Option.bind (Option.bind (decodeURIComponent e) atob) json_parse"

lemma decode_encoded_payload: "tag \<in> {''id'', ''platform''} \<Longrightarrow> decode_payload (encoded_payload (chat_payload tag s k)) = Some (chat_payload tag s k)"
  by (simp add: decode_payload_def encoded_payload_def decode_encodeURIComponent atob_btoa json_parse_stringify [OF wf_payload])

text \<open>
  A template with a configuration token becomes a link with the token replaced everywhere by one text,
  from which the client decodes the server address and the key that were given.
\<close>
theorem config_link_decodes:
  assumes "str_includes ''{cherryConfig}'' template"
  shows "\<exists>e. resolveChatUrl template apiKey server = join e (split_str ''{cherryConfig}'' template) \<and>
    decode_payload e = Some (chat_payload ''id'' server (case apiKey of Some k \<Rightarrow> k | None \<Rightarrow> []))"
  using assms decode_encoded_payload [of "''id''"] by (auto simp: resolveChatUrl_def replaceToken_def Let_def)

lemma config_link_decodes_witness:
  "\<exists>e. resolveChatUrl ''cherrystudio://providers?v=1&data={cherryConfig}'' (Some ''sk-abc'') ''https://api.example'' =
      ''cherrystudio://providers?v=1&data='' @ e \<and>
    decode_payload e = Some (chat_payload ''id'' ''https://api.example'' ''sk-abc'')"
proof -
  let ?t = "''cherrystudio://providers?v=1&data={cherryConfig}''"
  have "str_includes ''{cherryConfig}'' ?t" by code_simp
  moreover have "split_str ''{cherryConfig}'' ?t = [''cherrystudio://providers?v=1&data='', '''']" by code_simp
  ultimately show ?thesis using config_link_decodes [of ?t "Some ''sk-abc''" "''https://api.example''"] by simp
qed

subsection \<open>Filling a template\<close>

text \<open>Both tokens replaced in one pass over the template.\<close>

fun fill :: "string \<Rightarrow> string \<Rightarrow> string \<Rightarrow> string" where
  "fill a k [] = []"
| "fill a k (c # s) =
     (if c # take 8 s = ''{address}'' then a @ fill a k (drop 8 s)
      else if c # take 4 s = ''{key}'' then k @ fill a k (drop 4 s)
      else c # fill a k s)"

lemma replaceToken_all: "replaceToken s p v = replace_all p v s"
  by (simp add: replaceToken_def replace_all_def)

lemma strip_None_take: "strip_prefix p s = None \<longleftrightarrow> take (length p) s \<noteq> p"
proof (cases "strip_prefix p s")
  case None
  then show ?thesis using append_take_drop_id [of "length p" s] by (metis strip_prefix_None)
next
  case (Some r)
  then show ?thesis by (auto simp: strip_prefix_Some)
qed

abbreviation "ADDR \<equiv> ''{address}''"
abbreviation "KEY \<equiv> ''{key}''"

text \<open>
  Text that appears after the addresses are filled in, free of the characters of an encoded address, was there before.
\<close>

lemma filled_prefix:
  assumes e: "CHR 0x25 \<in> set e" "CHR 0x7D \<notin> set e"
    and w: "CHR 0x25 \<notin> set w" "CHR 0x7B \<notin> set w"
  shows "replace_all ADDR e s = w @ CHR 0x7D # q \<Longrightarrow> \<exists>q'. s = w @ CHR 0x7D # q'"
  using w
proof (induction s arbitrary: w q rule: length_induct)
  case (1 s)
  show ?case
  proof (cases "strip_prefix ADDR s")
    case (Some r)
    then have s: "s = ADDR @ r" by (simp only: strip_prefix_Some)
    have "e @ replace_all ADDR e r = w @ CHR 0x7D # q" using "1.prems"(1) unfolding s by (simp only: replace_all_here list.distinct not_False_eq_True)
    then consider us where "e = w @ us" "us @ replace_all ADDR e r = CHR 0x7D # q"
      | us where "e @ us = w" by (auto simp: append_eq_append_conv2)
    then show ?thesis
    proof cases
      case 1
      with e "1.prems"(2) show ?thesis by (cases us) auto
    next
      case 2
      with e "1.prems"(2) show ?thesis by auto
    qed
  next
    case None
    show ?thesis
    proof (cases s)
      case Nil
      with "1.prems"(1) show ?thesis by simp
    next
      case (Cons c t)
      with None "1.prems"(1) have r: "c # replace_all ADDR e t = w @ CHR 0x7D # q"
        by (simp only: replace_all_Cons list.distinct not_False_eq_True)
      show ?thesis
      proof (cases w)
        case Nil
        with r Cons show ?thesis by simp
      next
        case (Cons d w')
        with r have "c = d" "replace_all ADDR e t = w' @ CHR 0x7D # q" by auto
        moreover have "CHR 0x25 \<notin> set w'" "CHR 0x7B \<notin> set w'" using "1.prems" Cons by auto
        ultimately show ?thesis using "1.IH" \<open>s = c # t\<close> Cons by fastforce
      qed
    qed
  qed
qed

lemma encoded_no_braces: "CHR 0x7B \<notin> set (encodeURIComponent s)" "CHR 0x7D \<notin> set (encodeURIComponent s)"
proof -
  have "\<not> uri_unreserved (CHR 0x7B)" "\<not> uri_unreserved (CHR 0x7D)" by code_simp+
  then show "CHR 0x7B \<notin> set (encodeURIComponent s)" "CHR 0x7D \<notin> set (encodeURIComponent s)"
    by (auto dest: encoded_set)
qed

lemma encoded_percent: "CHR '':'' \<in> set s \<Longrightarrow> CHR 0x25 \<in> set (encodeURIComponent s)"
proof -
  have "\<not> uri_unreserved (CHR '':'')" "CHR 0x25 \<in> set (percent (CHR '':''))" by code_simp+
  then show "CHR '':'' \<in> set s \<Longrightarrow> ?thesis" by (force simp: encodeURIComponent_def)
qed

lemma fill_two_passes:
  assumes "CHR '':'' \<in> set server"
  shows "replace_all KEY k (replace_all ADDR (encodeURIComponent server) s) = fill (encodeURIComponent server) k s"
proof (induction "encodeURIComponent server" k s rule: fill.induct)
  case (1 k)
  show ?case by simp
next
  case (2 k c s)
  let ?e = "encodeURIComponent server"
  show ?case
  proof (cases "c # take 8 s = ADDR")
    case True
    then have cs: "c # s = ADDR @ drop 8 s" by (metis append_Cons append_take_drop_id)
    have "replace_all KEY k (replace_all ADDR ?e (c # s)) = replace_all KEY k (?e @ replace_all ADDR ?e (drop 8 s))"
      by (subst cs) (simp only: replace_all_here list.distinct not_False_eq_True)
    also have "\<dots> = ?e @ replace_all KEY k (replace_all ADDR ?e (drop 8 s))"
      by (rule replace_all_skip [OF refl]) (rule encoded_no_braces)
    finally show ?thesis using True 2 by simp
  next
    case addr: False
    show ?thesis
    proof (cases "c # take 4 s = KEY")
      case True
      then have cs: "c # s = KEY @ drop 4 s" by (metis append_Cons append_take_drop_id)
      have "replace_all ADDR ?e (KEY @ drop 4 s) = KEY @ replace_all ADDR ?e (drop 4 s)"
        using replace_all_skip [of ADDR _ _ "''key}''" ?e "drop 4 s"] by (simp add: replace_all_Cons)
      then have "replace_all KEY k (replace_all ADDR ?e (c # s)) = k @ replace_all KEY k (replace_all ADDR ?e (drop 4 s))"
        unfolding cs by (simp only: replace_all_here list.distinct not_False_eq_True)
      with True addr 2 show ?thesis by simp
    next
      case False
      have "strip_prefix ADDR (c # s) = None"
        unfolding strip_None_take using addr by (simp add: eval_nat_numeral)
      then have "replace_all ADDR ?e (c # s) = c # replace_all ADDR ?e s" by (simp only: replace_all_Cons list.distinct not_False_eq_True)
      moreover have "strip_prefix KEY (c # replace_all ADDR ?e s) = None"
      proof (rule ccontr)
        assume "\<not> ?thesis"
        then obtain q where "c # replace_all ADDR ?e s = KEY @ q" by (auto simp: strip_prefix_Some simp del: strip_prefix.simps)
        then have c: "c = CHR 0x7B" "replace_all ADDR ?e s = ''key'' @ CHR 0x7D # q" by auto
        have "\<exists>q'. s = ''key'' @ CHR 0x7D # q'"
          by (rule filled_prefix [OF encoded_percent [OF assms] encoded_no_braces(2) _ _ c(2)]) simp_all
        with c False show False by auto
      qed
      ultimately have "replace_all KEY k (replace_all ADDR ?e (c # s)) = c # replace_all KEY k (replace_all ADDR ?e s)"
        by (simp only: replace_all_Cons list.distinct not_False_eq_True)
      moreover have "fill ?e k (c # s) = c # fill ?e k s" using addr False by (simp only: fill.simps if_False)
      ultimately show ?thesis using 2(3) addr False by (simp only: simp_thms)
    qed
  qed
qed

text \<open>
  For a template without configuration tokens, replacing the address first and then the key is the same as
  filling both tokens in one pass: nothing that was filled in is taken for a token.
\<close>
theorem link_filled_in_one_pass:
  assumes "\<not> str_includes ''{cherryConfig}'' template" "\<not> str_includes ''{aionuiConfig}'' template"
    and "CHR '':'' \<in> set server" "k \<noteq> []"
  shows "resolveChatUrl template (Some k) server = fill (encodeURIComponent server) k template"
proof -
  have "server \<noteq> []" using assms(3) by auto
  then show ?thesis using assms fill_two_passes [OF assms(3)] by (simp add: resolveChatUrl_def replaceToken_all Let_def)
qed

lemma link_filled_in_one_pass_witness:
  "resolveChatUrl ''https://chat.example/#/?settings={{key},{address}}'' (Some ''sk-{address}'') ''http://a'' =
     ''https://chat.example/#/?settings={sk-{address},http%3A%2F%2Fa}''"
proof -
  have "resolveChatUrl ''https://chat.example/#/?settings={{key},{address}}'' (Some ''sk-{address}'') ''http://a'' =
      fill (encodeURIComponent ''http://a'') ''sk-{address}'' ''https://chat.example/#/?settings={{key},{address}}''"
    by (rule link_filled_in_one_pass) (simp_all add: str_includes_def)
  also have "\<dots> = ''https://chat.example/#/?settings={sk-{address},http%3A%2F%2Fa}''" by code_simp
  finally show ?thesis .
qed

subsection \<open>Which key the links carry\<close>

lemma btoa_ne: "s \<noteq> [] \<Longrightarrow> btoa s \<noteq> []"
  by (cases s rule: btoa.cases) auto

lemma encoded_payload_ne [simp]: "encoded_payload v \<noteq> []"
proof -
  have "stringify v \<noteq> []" using length_stringify_pos [of v] by auto
  then have "btoa (stringify v) \<noteq> []" by (rule btoa_ne)
  then show ?thesis using decode_encodeURIComponent [of "btoa (stringify v)"]
    by (auto simp: encoded_payload_def decodeURIComponent_def)
qed

lemma replaceToken_ne:
  assumes "str_includes p s" "p \<noteq> []" "e \<noteq> []"
  shows "replaceToken s p e \<noteq> []"
  using assms by (auto simp: replaceToken_all replace_all_cut str_includes_def)

text \<open>The listed keys are masked, as the server lists them.\<close>

definition masked_list :: "(int \<Rightarrow> string) \<Rightarrow> ApiKey list \<Rightarrow> bool" where
  "masked_list full ks \<longleftrightarrow> (\<forall>x \<in> set ks. keyText x = MaskTokenKey (full (keyId x)))"

text \<open>
  C16: The sidebar opens a link whose configuration decodes to the text listed for the first enabled key; the
  server lists keys masked, so the text is no key of the user, with or without sk- in front.
\<close>
theorem sidebar_link_carries_masked_key:
  assumes "presetType p \<noteq> Web" "str_includes ''{cherryConfig}'' (presetUrl p)"
    and "find (\<lambda>k. keyStatus k = STATUS_ENABLED) ks = Some x" "masked_list full ks"
    and "\<forall>y \<in> set ks. full (keyId y) \<noteq> [] \<and> CHR ''*'' \<notin> set (full (keyId y))"
  shows "\<exists>e. handleOpenExternal (key_state (Some (useActiveChatKey (Listed ks)))) server p =
        Opened (join e (split_str ''{cherryConfig}'' (presetUrl p))) \<and>
      decode_payload e = Some (chat_payload ''id'' server (keyText x)) \<and>
      keyText x \<notin> (\<lambda>y. full (keyId y)) ` set ks \<union> (\<lambda>y. ''sk-'' @ full (keyId y)) ` set ks"
proof -
  have x: "x \<in> set ks" using assms(3) by (metis find_Some_iff nth_mem)
  then have star: "CHR ''*'' \<in> set (keyText x)"
    using assms(4,5) masked_has_star unfolding masked_list_def by metis
  have needs: "requiresApiKey p" using assms(2) by (simp add: requiresApiKey_def)
  have ak: "active_key (key_state (Some (useActiveChatKey (Listed ks)))) = Some (keyText x)"
    using assms(3) star by (auto simp: useActiveChatKey_def key_state_def active_key_def)
  have pend: "key_state (Some (useActiveChatKey (Listed ks))) \<noteq> KeyPending"
    using assms(3) by (simp add: useActiveChatKey_def key_state_def)
  let ?e = "encoded_payload (chat_payload ''id'' server (keyText x))"
  have u: "resolveChatUrl (presetUrl p) (Some (keyText x)) server = replaceToken (presetUrl p) ''{cherryConfig}'' ?e"
    using assms(2) by (simp add: resolveChatUrl_def Let_def)
  have "replaceToken (presetUrl p) ''{cherryConfig}'' ?e \<noteq> []" using assms(2) by (intro replaceToken_ne) simp_all
  then have "handleOpenExternal (key_state (Some (useActiveChatKey (Listed ks)))) server p = Opened (join ?e (split_str ''{cherryConfig}'' (presetUrl p)))"
    using assms(1) needs ak pend u by (simp add: handleOpenExternal_def replaceToken_def Let_def)
  moreover have "decode_payload ?e = Some (chat_payload ''id'' server (keyText x))" by (rule decode_encoded_payload) simp
  moreover have "keyText x \<notin> (\<lambda>y. full (keyId y)) ` set ks \<union> (\<lambda>y. ''sk-'' @ full (keyId y)) ` set ks"
    using star assms(5) by auto
  ultimately show ?thesis by blast
qed

definition demo_preset :: "string \<Rightarrow> ChatPreset" where
  "demo_preset u = \<lparr>presetId = ''0'', presetName = ''Demo'', presetUrl = u, presetType = detectChatLinkType u\<rparr>"

lemma sidebar_link_carries_masked_key_witness:
  "\<exists>e. handleOpenExternal (key_state (Some (useActiveChatKey (Listed [demo_key 1 ''work'']))))
        ''https://api.example'' (demo_preset ''cherrystudio://x/{cherryConfig}'') = Opened (''cherrystudio://x/'' @ e) \<and>
      decode_payload e = Some (chat_payload ''id'' ''https://api.example'' ''abcd**********wxyz'')"
proof -
  let ?u = "''cherrystudio://x/{cherryConfig}''" and ?full = "\<lambda>_ :: int. ''abcd0123456789wxyz''"
  have t: "presetType (demo_preset ?u) \<noteq> Web" by code_simp
  have i: "str_includes ''{cherryConfig}'' (presetUrl (demo_preset ?u))" by code_simp
  have f: "find (\<lambda>k. keyStatus k = STATUS_ENABLED) [demo_key 1 ''work''] = Some (demo_key 1 ''work'')"
    by (simp add: demo_key_def STATUS_ENABLED_def)
  have m: "masked_list ?full [demo_key 1 ''work'']" by (simp add: masked_list_def demo_key_def MaskTokenKey_def)
  have s: "split_str ''{cherryConfig}'' ?u = [''cherrystudio://x/'', '''']" by code_simp
  from sidebar_link_carries_masked_key [OF t i f m, of "''https://api.example''"]
  show ?thesis using s by (simp add: demo_preset_def) (simp add: demo_key_def)
qed

text \<open>A preset with the AionUI token gets an empty key: the sidebar does not count it among those that need one.\<close>

lemma aionui_link_without_key:
  assumes "presetType p \<noteq> Web" "str_includes ''{aionuiConfig}'' (presetUrl p)" "\<not> requiresApiKey p"
  shows "\<exists>e. handleOpenExternal ks server p = Opened (join e (split_str ''{aionuiConfig}'' (presetUrl p))) \<and>
    decode_payload e = Some (chat_payload ''platform'' server [])"
proof -
  let ?e = "encoded_payload (chat_payload ''platform'' server [])"
  have n: "\<not> str_includes ''{cherryConfig}'' (presetUrl p)" using assms(3) by (simp add: requiresApiKey_def)
  have "replaceToken (presetUrl p) ''{aionuiConfig}'' ?e \<noteq> []" using assms(2) by (intro replaceToken_ne) simp_all
  then show ?thesis using assms n decode_encoded_payload [of "''platform''"]
    by (auto simp: handleOpenExternal_def resolveChatUrl_def replaceToken_def Let_def)
qed

text \<open>
  From the key table, the FluentRead extension gets the key with sk- twice in front, in every state of
  the key cache; a web client gets it with sk- once.
\<close>
theorem fluent_key_prefixed_twice:
  assumes "vault_reach key v"
    and "fst (resolveRealKey i v) = Ready k \<or> results v q = Some (Some k) \<and> asked v ! q = i"
  shows "handleOpenChatPreset (Some k) True server origin p =
      (if presetType p = Fluent
       then SentToFluent (JObj [(''id'', JStr ''heqiuyu-api''), (''baseUrl'', JStr (if server \<noteq> [] then server else origin)),
              (''apiKey'', JStr (''sk-sk-'' @ key i))])
       else if resolveChatUrl (presetUrl p) (Some (''sk-'' @ key i)) server = [] then InvalidLink
       else RowOpened (resolveChatUrl (presetUrl p) (Some (''sk-'' @ key i)) server))"
proof -
  from vault_reach_inv [OF assms(1)] have "sk_keys key (closure v)"
    "\<forall>p k. results v p = Some (Some k) \<longrightarrow> k = ''sk-'' @ key (asked v ! p)" unfolding vault_inv_def by blast+
  with assms(2) have k: "k = ''sk-'' @ key i"
    by (auto simp: resolveRealKey_def cached_def sk_keys_def Let_def split: option.splits if_splits)
  show ?thesis
    by (simp add: handleOpenChatPreset_def sendToFluent_def fluent_detail_def text_or_else_def k Let_def)
qed

lemma fluent_key_prefixed_twice_witness:
  "handleOpenChatPreset (Some ''sk-abc'') True ''https://api.example'' ''https://o.example'' (demo_preset ''fluentread'') =
     SentToFluent (JObj [(''id'', JStr ''heqiuyu-api''), (''baseUrl'', JStr ''https://api.example''), (''apiKey'', JStr ''sk-sk-abc'')])"
proof -
  have "closure demoVault 3 = Some ''sk-abc''"
    unfolding demoVault_def asked_twice by (simp add: Let_def keyAnswered_def shown_in_def)
  then have r: "fst (resolveRealKey 3 demoVault) = Ready ''sk-abc''" by (simp add: resolveRealKey_def cached_def)
  have t: "presetType (demo_preset ''fluentread'') = Fluent" by code_simp
  from fluent_key_prefixed_twice [OF demoVault_reach, of 3 "''sk-abc''"] r t show ?thesis by simp
qed

text \<open>The import link is read back as its parameters.\<close>

lemma switch_link_reads_back:
  "\<exists>t. buildCCSwitchURL app nm models apiKey server = ''ccswitch://v1/import?'' @ t \<and>
     read_search t = map Some (switch_pairs app nm models apiKey server)"
proof -
  have "oput k v ob \<noteq> []" for k :: string and v :: string and ob by (cases ob) (auto split: if_splits)
  then have "switch_pairs app nm models apiKey server \<noteq> []" by (simp add: switch_pairs_def Let_def)
  then show ?thesis by (auto simp: buildCCSwitchURL_def read_search_text)
qed

lemma connection_string_reads_back:
  "json_parse (encodeConnectionString key u) =
     Some (JObj [(''_type'', JStr ''heqiuyu_channel_conn''), (''key'', JStr key), (''url'', JStr u)])"
  unfolding encodeConnectionString_def
  by (intro json_parse_stringify wf_obj) (auto simp: is_digit_def)

end
