(* ===== verification/ChatSettings.thy ===== *)
theory ChatSettings
  imports ChatLinks SettingsJson OptionStore
begin

text \<open>
  The chat presets of the settings page: the section with its schema and save
  (\<^verbatim>\<open>features/system-settings/content/chat-settings-section.tsx\<close>), the table that edits the JSON text
  (\<^verbatim>\<open>chat-settings-visual-editor.tsx\<close>) and its dialog (\<^verbatim>\<open>chat-dialog.tsx\<close>). The text is refined to a list of
  names and addresses.
\<close>

subsection \<open>The visual editor\<close>

type_synonym ChatEntry = "string \<times> string"

definition chats_array :: "string \<Rightarrow> json list" where
  "chats_array text_value =
     (case safeJsonParseWithValidation text_value (JArr []) isArray of JArr xs \<Rightarrow> xs | _ \<Rightarrow> [])"

definition chat_entry :: "json \<Rightarrow> ChatEntry option" where
  "chat_entry item =
     (case item of
        JObj ob \<Rightarrow> (case own_entries ob of [(nm, u)] \<Rightarrow> Some (nm, js_String u) | _ \<Rightarrow> None)
      | _ \<Rightarrow> None)"

definition chats :: "string \<Rightarrow> ChatEntry list" where
  "chats text_value = List.map_filter chat_entry (chats_array text_value)"

definition filteredChats :: "string \<Rightarrow> ChatEntry list \<Rightarrow> ChatEntry list" where
  "filteredChats searchText cs =
     (if searchText = [] then cs
      else filter (\<lambda>(nm, u). str_includes (lower searchText) (lower nm) \<or> str_includes (lower searchText) (lower u)) cs)"

text \<open>The items without the objects that have a key.\<close>

definition without_key :: "string \<Rightarrow> json list \<Rightarrow> json list" where
  "without_key nm = filter (\<lambda>item. case item of JObj ob \<Rightarrow> \<not> ohas nm ob | _ \<Rightarrow> True)"

definition saveChat :: "ChatEntry option \<Rightarrow> ChatEntry \<Rightarrow> string \<Rightarrow> string" where
  "saveChat editing entry text_value =
     (let arr = chats_array text_value;
          kept = (case editing of Some (nm, _) \<Rightarrow> without_key nm arr | None \<Rightarrow> arr)
      in stringify2 (JArr (kept @ [JObj [(fst entry, JStr (snd entry))]])))"

definition deleteChat :: "string \<Rightarrow> string \<Rightarrow> string" where
  "deleteChat nm text_value = stringify2 (JArr (without_key nm (chats_array text_value)))"

subsection \<open>The dialog\<close>

text \<open>The text of the form field, the dialog and its inputs. The effect of the dialog sets the inputs.\<close>

record ChatEditor =
  chatsText :: string
  chatOpen :: bool
  editing :: "ChatEntry option"
  chatInputs :: ChatEntry

definition chatDialogSchema :: "ChatEntry \<Rightarrow> bool" where
  "chatDialogSchema e \<longleftrightarrow> fst e \<noteq> [] \<and> snd e \<noteq> []"

definition resetInputs :: "ChatEditor \<Rightarrow> ChatEditor" where
  "resetInputs ed = ed\<lparr>chatInputs := (case editing ed of Some e \<Rightarrow> e | None \<Rightarrow> ([], []))\<rparr>"

definition addChat :: "ChatEditor \<Rightarrow> ChatEditor" where
  "addChat ed = resetInputs (ed\<lparr>editing := None, chatOpen := True\<rparr>)"

definition editChat :: "ChatEntry \<Rightarrow> ChatEditor \<Rightarrow> ChatEditor" where
  "editChat e ed = resetInputs (ed\<lparr>editing := Some e, chatOpen := True\<rparr>)"

definition typeChat :: "ChatEntry \<Rightarrow> ChatEditor \<Rightarrow> ChatEditor" where
  "typeChat e ed = ed\<lparr>chatInputs := e\<rparr>"

definition closeChat :: "ChatEditor \<Rightarrow> ChatEditor" where
  "closeChat ed = resetInputs (ed\<lparr>chatOpen := False\<rparr>)"

definition submitChat :: "ChatEditor \<Rightarrow> ChatEditor" where
  "submitChat ed =
     (if chatDialogSchema (chatInputs ed)
      then closeChat (ed\<lparr>chatsText := saveChat (editing ed) (chatInputs ed) (chatsText ed)\<rparr>)
      else ed)"

definition removeChat :: "string \<Rightarrow> ChatEditor \<Rightarrow> ChatEditor" where
  "removeChat nm ed = ed\<lparr>chatsText := deleteChat nm (chatsText ed)\<rparr>"

subsection \<open>The section\<close>

text \<open>The schema of the section: the message of the issue, \<open>None\<close> when the text is accepted.\<close>

fun item_issue :: "json list \<Rightarrow> string option" where
  "item_issue [] = None"
| "item_issue (item # rest) =
     (case item of
        JObj ob \<Rightarrow> if length (own_entries ob) \<noteq> 1 then Some ''Each item must have exactly one key-value pair.'' else item_issue rest
      | _ \<Rightarrow> Some ''Each item must be an object with a single key-value pair.'')"

definition chatIssue :: "string \<Rightarrow> string option" where
  "chatIssue text_value =
     (case json_parse (if text_value \<noteq> [] then text_value else ''[]'') of
        None \<Rightarrow> Some ''Invalid JSON string.''
      | Some (JArr xs) \<Rightarrow> item_issue xs
      | Some _ \<Rightarrow> Some ''Expected a JSON array.'')"

record ChatSection =
  sectionText :: string
  initialNormalized :: string

definition openChatSection :: "string \<Rightarrow> ChatSection" where
  "openChatSection defaultValue =
     \<lparr>sectionText = formatJsonForEditor defaultValue ''[]'', initialNormalized = normalizeJsonOr defaultValue ''[]''\<rparr>"

definition submitChats :: "ChatSection \<Rightarrow> Request option" where
  "submitChats sec =
     (if chatIssue (sectionText sec) \<noteq> None then None
      else (let normalized = normalizeJsonOr (sectionText sec) ''[]''
            in if normalized = initialNormalized sec then None
               else Some (updateSystemOption ''Chats'' (JStr normalized))))"

subsection \<open>The list the text stands for\<close>

definition entry_json :: "ChatEntry \<Rightarrow> json" where
  "entry_json e = JObj [(fst e, JStr (snd e))]"

text \<open>The text is an array of objects with one text each.\<close>

definition stands_for :: "string \<Rightarrow> ChatEntry list \<Rightarrow> bool" where
  "stands_for text_value cs \<longleftrightarrow> chats_array text_value = map entry_json cs"

lemma own_entries_single [simp]: "own_entries [p] = [p]"
  by (simp add: own_entries_def)

lemma wf_entries: "wf_json (JArr (map entry_json cs))"
  by (simp add: entry_json_def owf_def)

lemma chats_array_stringify2: "wf_json (JArr xs) \<Longrightarrow> chats_array (stringify2 (JArr xs)) = xs"
  by (simp add: chats_array_def safeJsonParseWithValidation_def Let_def del: wf_json.simps)

lemma stands_for_stringify: "stands_for (stringify2 (JArr (map entry_json cs))) cs"
  using chats_array_stringify2 [OF wf_entries] by (simp add: stands_for_def)

lemma chats_of: "stands_for text_value cs \<Longrightarrow> chats text_value = cs"
  by (induction cs) (auto simp: stands_for_def chats_def List.map_filter_def entry_json_def chat_entry_def comp_def)

lemma without_key_entries: "without_key nm (map entry_json cs) = map entry_json (filter (\<lambda>e. fst e \<noteq> nm) cs)"
  by (induction cs) (auto simp: without_key_def entry_json_def ohas_def)

text \<open>What the operations do to the list.\<close>

definition save_in :: "ChatEntry option \<Rightarrow> ChatEntry \<Rightarrow> ChatEntry list \<Rightarrow> ChatEntry list" where
  "save_in ed e cs = (case ed of Some (nm, _) \<Rightarrow> filter (\<lambda>x. fst x \<noteq> nm) cs | None \<Rightarrow> cs) @ [e]"

lemma saveChat_refines: "stands_for text_value cs \<Longrightarrow> stands_for (saveChat ed e text_value) (save_in ed e cs)"
proof -
  assume "stands_for text_value cs"
  then have "saveChat ed e text_value = stringify2 (JArr (map entry_json (save_in ed e cs)))"
    by (auto simp: saveChat_def save_in_def stands_for_def without_key_entries entry_json_def Let_def split: option.splits)
  then show ?thesis by (simp only: stands_for_stringify)
qed

lemma deleteChat_refines: "stands_for text_value cs \<Longrightarrow> stands_for (deleteChat nm text_value) (filter (\<lambda>e. fst e \<noteq> nm) cs)"
  by (simp add: deleteChat_def stands_for_def without_key_entries chats_array_stringify2 [OF wf_entries])

subsection \<open>What editing does to the presets\<close>

text \<open>
  C15: On a text that lists presets, the dialog and the delete button act on the list: saving puts the entry at
  the end, after dropping every entry with the name that was edited; an entry with an empty field changes nothing.
\<close>
theorem chat_editor_refines_list:
  assumes "stands_for (chatsText ed) cs"
  shows "stands_for (chatsText (submitChat ed))
      (if chatDialogSchema (chatInputs ed) then save_in (editing ed) (chatInputs ed) cs else cs) \<and>
    stands_for (chatsText (removeChat nm ed)) (filter (\<lambda>e. fst e \<noteq> nm) cs)"
  using saveChat_refines [OF assms] deleteChat_refines [OF assms] assms
  by (simp add: submitChat_def removeChat_def closeChat_def resetInputs_def)

definition demo_editor :: ChatEditor where
  "demo_editor =
     \<lparr>chatsText = stringify2 (JArr (map entry_json [(''A'', ''https://a''), (''B'', ''b://x'')])), chatOpen = False, editing = None,
      chatInputs = ([], [])\<rparr>"

lemma demo_editor_stands: "stands_for (chatsText demo_editor) [(''A'', ''https://a''), (''B'', ''b://x'')]"
  unfolding demo_editor_def by (simp only: ChatEditor.simps stands_for_stringify)

lemma chat_editor_refines_list_witness:
  "chats (chatsText (submitChat (typeChat (''C'', ''c://'') (addChat demo_editor)))) =
     [(''A'', ''https://a''), (''B'', ''b://x''), (''C'', ''c://'')]"
proof -
  let ?ed = "typeChat (''C'', ''c://'') (addChat demo_editor)"
  have "stands_for (chatsText ?ed) [(''A'', ''https://a''), (''B'', ''b://x'')]"
    using demo_editor_stands by (simp add: typeChat_def addChat_def resetInputs_def)
  from chat_editor_refines_list [OF this]
  have "stands_for (chatsText (submitChat ?ed)) [(''A'', ''https://a''), (''B'', ''b://x''), (''C'', ''c://'')]"
    by (simp add: typeChat_def addChat_def resetInputs_def chatDialogSchema_def save_in_def)
  then show ?thesis by (rule chats_of)
qed

lemma edited_text:
  "chatDialogSchema e \<Longrightarrow> chatsText (submitChat (typeChat e (editChat old ed))) = saveChat (Some old) e (chatsText ed)"
  by (simp add: submitChat_def typeChat_def editChat_def closeChat_def resetInputs_def)

text \<open>Renaming a preset to the name of another is accepted; deleting either afterwards deletes both.\<close>

lemma renamed_presets_fall_together:
  assumes "stands_for (chatsText ed) cs" "chatDialogSchema (b, u)"
  shows "chats (chatsText (removeChat b (submitChat (typeChat (b, u) (editChat (a, ua) ed))))) =
    filter (\<lambda>e. fst e \<noteq> a \<and> fst e \<noteq> b) cs"
proof -
  from saveChat_refines [OF assms(1), of "Some (a, ua)" "(b, u)"]
  have "stands_for (chatsText (submitChat (typeChat (b, u) (editChat (a, ua) ed)))) (save_in (Some (a, ua)) (b, u) cs)"
    by (simp only: edited_text [OF assms(2)])
  from chat_editor_refines_list [OF this, of b]
  have "stands_for (chatsText (removeChat b (submitChat (typeChat (b, u) (editChat (a, ua) ed)))))
      (filter (\<lambda>e. fst e \<noteq> b) (save_in (Some (a, ua)) (b, u) cs))" by blast
  then have "chats (chatsText (removeChat b (submitChat (typeChat (b, u) (editChat (a, ua) ed))))) =
      filter (\<lambda>e. fst e \<noteq> b) (save_in (Some (a, ua)) (b, u) cs)" by (rule chats_of)
  also have "\<dots> = filter (\<lambda>e. fst e \<noteq> a \<and> fst e \<noteq> b) cs" by (auto simp: save_in_def intro: filter_cong)
  finally show ?thesis .
qed

text \<open>A text that is no array reads as the empty list; adding a preset replaces it.\<close>

lemma broken_text_replaced:
  assumes "json_parse (trim (chatsText ed)) = None" "chatDialogSchema e"
  shows "chats (chatsText (submitChat (typeChat e (addChat ed)))) = [e]"
proof -
  have "chats_array (chatsText ed) = map entry_json []"
    using assms(1) by (simp add: chats_array_def safeJsonParseWithValidation_def safeJsonParse_def Let_def)
  then have "stands_for (saveChat None e (chatsText ed)) (save_in None e [])"
    by (intro saveChat_refines) (simp add: stands_for_def)
  with assms(2) have "stands_for (chatsText (submitChat (typeChat e (addChat ed)))) [e]"
    by (simp add: submitChat_def typeChat_def addChat_def closeChat_def resetInputs_def save_in_def)
  then show ?thesis by (rule chats_of)
qed

subsection \<open>The saved presets and their ids\<close>

definition preset_at :: "nat \<Rightarrow> ChatEntry \<Rightarrow> ChatPreset" where
  "preset_at i e =
     \<lparr>presetId = show_nat i, presetName = fst e, presetUrl = trim (snd e), presetType = detectChatLinkType (trim (snd e))\<rparr>"

lemma parse_entries_from:
  "\<forall>e \<in> set cs. trim (snd e) \<noteq> [] \<Longrightarrow>
   List.map_filter (\<lambda>(i, entry). preset_of i entry) (enumerate n (map entry_json cs)) = map (\<lambda>(i, e). preset_at i e) (enumerate n cs)"
  by (induction cs arbitrary: n)
    (auto simp: List.map_filter_def preset_of_def entry_json_def preset_at_def Let_def)

lemma saved_text_reads:
  assumes "stands_for text_value cs" "text_value = stringify2 (JArr (map entry_json cs))" "\<forall>e \<in> set cs. trim (snd e) \<noteq> []"
  shows "parseChatConfig (Some (JStr (normalizeJsonOr text_value ''[]''))) = map (\<lambda>(i, e). preset_at i e) (enumerate 0 cs)"
proof -
  have "normalizeJsonOr text_value ''[]'' = stringify (JArr (map entry_json cs))"
    unfolding assms(2) normalizeJsonOr_def
    by (simp add: json_parse_stringify2 [OF wf_entries] Let_def del: stringify.simps)
  then show ?thesis using parse_entries_from [OF assms(3)]
    by (simp add: parseChatConfig_def json_parse_stringify [OF wf_entries] del: stringify.simps)
qed

lemma chat_preset_at:
  assumes "i < length cs"
  shows "chat_preset (show_nat i) (map (\<lambda>(i, e). preset_at i e) (enumerate 0 cs)) = Some (preset_at i (cs ! i))"
proof -
  have "show_nat j \<noteq> show_nat i" if "j < i" for j using that read_show_nat by (metis less_irrefl)
  then show ?thesis using assms unfolding chat_preset_def find_Some_iff
    by (intro exI [of _ i]) (auto simp: nth_enumerate_eq preset_at_def)
qed

lemma filter_other_names:
  assumes "distinct (map fst cs)" "i < length cs"
  shows "filter (\<lambda>x. fst x \<noteq> fst (cs ! i)) cs = take i cs @ drop (Suc i) cs"
  using assms
proof (induction cs arbitrary: i)
  case Nil
  then show ?case by simp
next
  case (Cons c cs)
  show ?case
  proof (cases i)
    case 0
    have "filter (\<lambda>x. fst x \<noteq> fst c) cs = cs" using Cons.prems(1) by (intro filter_True) (auto simp: image_iff)
    with 0 show ?thesis by simp
  next
    case (Suc j)
    then have "j < length cs" using Cons.prems(2) by simp
    then have "fst c \<noteq> fst (cs ! j)" using Cons.prems(1) by (force simp: in_set_conv_nth)
    with Suc Cons show ?thesis by simp
  qed
qed

text \<open>
  Saving a preset that is not the last moves it to the end, so that the address of its chat page opens the preset
  that came after it.
\<close>
theorem edited_preset_changes_page:
  assumes "stands_for (chatsText ed) cs" "distinct (map fst cs)" "Suc i < length cs"
    and "\<forall>c \<in> set cs. trim (snd c) \<noteq> []" "fst e \<noteq> []" "trim (snd e) \<noteq> []"
  shows "map_option presetName (chat_preset (show_nat i) (parseChatConfig (Some (JStr
      (normalizeJsonOr (chatsText (submitChat (typeChat e (editChat (cs ! i) ed)))) ''[]''))))) = Some (fst (cs ! Suc i))"
proof -
  let ?new = "take i cs @ drop (Suc i) cs @ [e]"
  have "snd e \<noteq> []" using assms(6) by auto
  then have ok: "chatDialogSchema e" using assms(5) by (simp add: chatDialogSchema_def)
  have new: "save_in (Some (cs ! i)) e cs = ?new"
    using filter_other_names [OF assms(2), of i] assms(3) by (cases "cs ! i") (simp add: save_in_def)
  have t: "chatsText (submitChat (typeChat e (editChat (cs ! i) ed))) = stringify2 (JArr (map entry_json ?new))"
    unfolding edited_text [OF ok] new [symmetric]
    using assms(1) by (auto simp: saveChat_def save_in_def stands_for_def without_key_entries entry_json_def Let_def split: prod.splits)
  have "\<forall>c \<in> set ?new. trim (snd c) \<noteq> []" using assms(4,6) by (auto dest: in_set_takeD in_set_dropD)
  then have "parseChatConfig (Some (JStr (normalizeJsonOr (chatsText (submitChat (typeChat e (editChat (cs ! i) ed)))) ''[]''))) =
      map (\<lambda>(i, e). preset_at i e) (enumerate 0 ?new)"
    unfolding t by (intro saved_text_reads stands_for_stringify refl)
  moreover have "?new ! i = cs ! Suc i" "i < length ?new" using assms(3) by (simp_all add: nth_append)
  ultimately show ?thesis using chat_preset_at [of i ?new] by (simp add: preset_at_def)
qed

lemma edited_preset_changes_page_witness:
  "map_option presetName (chat_preset (show_nat 0) (parseChatConfig (Some (JStr
      (normalizeJsonOr (chatsText (submitChat (typeChat (''A'', ''https://a2'') (editChat (''A'', ''https://a'') demo_editor)))) ''[]''))))) = Some ''B''"
  using edited_preset_changes_page [OF demo_editor_stands, of 0 "(''A'', ''https://a2'')"]
  by (simp add: trim_def trim_by_def is_ws_def)

end
