(* ===== verification/EditDrawers.thy ===== *)
theory EditDrawers
  imports ApiKeys
begin

text \<open>
  What the drawers that create and edit one row have in common: a form that the answer of a request fills,
  and a submit that sends the values of the form for the row that is shown. The contract is stated once as a
  locale; the drawers of keys, redemption codes and users provide it.
\<close>

subsection \<open>Forms filled by answers\<close>

locale answered_form =
  fixes fvals :: "'s \<Rightarrow> 'f"
    and target :: "'s \<Rightarrow> int option"
    and fills :: "nat \<Rightarrow> 'r option \<Rightarrow> 's \<Rightarrow> 's"
    and form_of :: "'r \<Rightarrow> 'f"
    and checked :: "'f \<Rightarrow> bool"
    and send :: "'f \<Rightarrow> int \<Rightarrow> 'q"
    and submit :: "'s \<Rightarrow> 'q option"
  assumes fills_row: "fvals (fills p (Some r) s) = form_of r"
    and fills_nothing: "fvals (fills p None s) = fvals s"
    and fills_target: "target (fills p a s) = target s"
    and submit_shown: "target s = Some i \<Longrightarrow> submit s = (if checked (fvals s) then Some (send (fvals s) i) else None)"
begin

text \<open>The answers that arrive, in order: each is the number of a request and the row, if one came.\<close>

definition fill_all :: "(nat \<times> 'r option) list \<Rightarrow> 's \<Rightarrow> 's" where
  "fill_all as s = fold (\<lambda>(p, a). fills p a) as s"

lemma fill_all_target: "target (fill_all as s) = target s"
  by (induction as arbitrary: s) (auto simp: fill_all_def fills_target)

lemma fill_all_append: "fill_all (as @ bs) s = fill_all bs (fill_all as s)"
  by (simp add: fill_all_def)

lemma fill_nothing: "\<forall>a \<in> set as. snd a = None \<Longrightarrow> fvals (fill_all as s) = fvals s"
  by (induction as arbitrary: s) (auto simp: fill_all_def fills_nothing)

text \<open>The form shows the last row that arrived, whatever was asked for, and that is what a submit sends.\<close>

lemma last_row_shown:
  assumes "\<forall>a \<in> set bs. snd a = None"
  shows "fvals (fill_all (as @ (p, Some r) # bs) s) = form_of r"
  using fill_nothing [OF assms] by (simp add: fill_all_append) (simp add: fill_all_def fills_row)

lemma last_row_sent:
  assumes "target s = Some i" "checked (form_of r)" "\<forall>a \<in> set bs. snd a = None"
  shows "submit (fill_all (as @ (p, Some r) # bs) s) = Some (send (form_of r) i)"
  using submit_shown [of "fill_all (as @ (p, Some r) # bs) s" i] last_row_shown [OF assms(3)] assms(1,2)
  by (simp add: fill_all_target)

lemma refused_row_not_sent:
  assumes "target s = Some i" "\<not> checked (form_of r)" "\<forall>a \<in> set bs. snd a = None"
  shows "submit (fill_all (as @ (p, Some r) # bs) s) = None"
  using submit_shown [of "fill_all (as @ (p, Some r) # bs) s" i] last_row_shown [OF assms(3)] assms(1,2)
  by (simp add: fill_all_target)

end

lemma shown_quota_sign: "0 \<le> quotaUnitsToDollars cfg (of_int q) \<longleftrightarrow> 0 \<le> q"
  using quota_sign [of q cfg] getConfig_positive(1) [of cfg] exchange_rate_positive [of cfg]
  by (cases "0 \<le> q"; cases "getDisplayMeta (getConfig cfg)")
    (simp_all add: quotaUnitsToDollars_def getCurrencyDisplay_def Let_def less_imp_le)

text \<open>The row a drawer is shown for.\<close>

definition row_of :: "Mode \<Rightarrow> int option" where
  "row_of m = (case m of Updating i \<Rightarrow> Some i | _ \<Rightarrow> None)"

lemma row_of_simps [simp]: "row_of (Updating i) = Some i" "row_of Creating = None" "row_of Closed = None"
  by (simp_all add: row_of_def)

lemma row_of_Some: "row_of m = Some i \<longleftrightarrow> m = Updating i"
  by (cases m) auto

interpretation key_drawer: answered_form formValues "\<lambda>dr. row_of (shownFor dr)" "keyLoaded cfg"
    "transformApiKeyToFormDefaults cfg" apiKeyFormSchema "\<lambda>f. updateApiKey (transformFormDataToPayload cfg f)"
    "updateRequest cfg"
  for cfg
  by unfold_locales (auto simp: keyLoaded_def updateRequest_def row_of_Some Let_def split: option.splits)

text \<open>Whatever answers arrive at an open key, a submit sends the fields of the last key that came.\<close>

lemma last_key_sent:
  assumes "shownFor dr = Updating i" "keyName k \<noteq> []" "0 \<le> remain_quota k" "\<forall>a \<in> set bs. snd a = None"
  shows "updateRequest cfg (fold (\<lambda>(p, a). keyLoaded cfg p a) (as @ (p, Some k) # bs) dr) =
           Some (updateApiKey (fields_of cfg k) i)"
  using key_drawer.last_row_sent [of dr i cfg k bs as p] assms
  by (simp add: key_drawer.fill_all_def schema_of_key fields_of_def)

end
