(* ===== verification/RedemptionCodes.thy ===== *)
theory RedemptionCodes
  imports EditDrawers
begin

text \<open>
  Redemption codes (\<^verbatim>\<open>features/redemption-codes\<close>): the form and its payload
  (\<^verbatim>\<open>lib/redemption-form.ts\<close>), the drawer with its answers in any order, the expiry of a code, and the
  actions of the table. A date is its time in milliseconds.
\<close>

subsection \<open>Codes and requests (types.ts, constants.ts, api.ts)\<close>

definition ENABLED :: int where "ENABLED = 1"
definition DISABLED :: int where "DISABLED = 2"
definition USED :: int where "USED = 3"

record Redemption =
  redId :: int
  redName :: string
  redKey :: string
  redStatus :: int
  redQuota :: int
  redExpired :: int

record RedemptionFormData =
  rdName :: string
  rdQuota :: int
  rdExpired :: int
  rdCount :: int

definition redemption_json :: "RedemptionFormData \<Rightarrow> json obj" where
  "redemption_json d =
     [(''name'', JStr (rdName d)), (''quota'', num_json (rdQuota d)), (''expired_time'', num_json (rdExpired d)),
      (''count'', num_json (rdCount d))]"

definition getRedemption :: "int \<Rightarrow> Request" where
  "getRedemption i = api_get_request (url_id ''/api/redemption/'' i) None"

definition createRedemption :: "RedemptionFormData \<Rightarrow> Request" where
  "createRedemption d = api_post ''/api/redemption/'' (Some (JObj (redemption_json d)))"

definition updateRedemption :: "RedemptionFormData \<Rightarrow> int \<Rightarrow> Request" where
  "updateRedemption d i = api_put ''/api/redemption/'' (JObj (redemption_json d @ [(''id'', num_json i)]))"

definition updateRedemptionStatus :: "int \<Rightarrow> int \<Rightarrow> Request" where
  "updateRedemptionStatus i st =
     api_put ''/api/redemption/?status_only=true'' (JObj [(''id'', num_json i), (''status'', num_json st)])"

definition deleteRedemption :: "int \<Rightarrow> Request" where
  "deleteRedemption i = api_delete (url_id ''/api/redemption/'' i @ ''/'')"

definition deleteInvalidRedemptions :: Request where
  "deleteInvalidRedemptions = api_delete ''/api/redemption/invalid''"

subsection \<open>The form (lib/redemption-form.ts)\<close>

record RedemptionFormValues =
  rName :: string
  rQuota :: rat
  rExpired :: "int option"
  rCount :: "int option"

definition getRedemptionFormSchema :: "RedemptionFormValues \<Rightarrow> bool" where
  "getRedemptionFormSchema f \<longleftrightarrow>
     1 \<le> length (rName f) \<and> length (rName f) \<le> 20 \<and> 0 \<le> rQuota f \<and>
     (case rCount f of Some n \<Rightarrow> 1 \<le> n \<and> n \<le> 100 | None \<Rightarrow> True)"

definition REDEMPTION_FORM_DEFAULT_VALUES :: RedemptionFormValues where
  "REDEMPTION_FORM_DEFAULT_VALUES = \<lparr>rName = [], rQuota = 10, rExpired = None, rCount = Some 1\<rparr>"

definition redemptionPayload :: "CurrencyConfig option \<Rightarrow> RedemptionFormValues \<Rightarrow> RedemptionFormData" where
  "redemptionPayload cfg f =
     \<lparr>rdName = rName f, rdQuota = parseQuotaFromDollars cfg (rQuota f),
      rdExpired = (case rExpired f of Some ms \<Rightarrow> ms div 1000 | None \<Rightarrow> 0),
      rdCount = (case rCount f of Some n \<Rightarrow> if n \<noteq> 0 then n else 1 | None \<Rightarrow> 1)\<rparr>"

definition redemptionDefaults :: "CurrencyConfig option \<Rightarrow> Redemption \<Rightarrow> RedemptionFormValues" where
  "redemptionDefaults cfg r =
     \<lparr>rName = redName r, rQuota = quotaUnitsToDollars cfg (of_int (redQuota r)),
      rExpired = (if redExpired r > 0 then Some (redExpired r * 1000) else None), rCount = Some 1\<rparr>"

subsection \<open>Expiry (lib/utils.ts)\<close>

text \<open>\<open>now\<close> is \<open>Date.now()\<close>, in milliseconds; the comparison with \<open>now / 1000\<close> is multiplied out.\<close>

definition isTimestampExpired :: "int \<Rightarrow> int \<Rightarrow> bool" where
  "isTimestampExpired now ts = (if ts = 0 then False else ts * 1000 < now)"

definition isRedemptionExpired :: "int \<Rightarrow> int \<Rightarrow> int \<Rightarrow> bool" where
  "isRedemptionExpired now expired st \<longleftrightarrow> st = 1 \<and> isTimestampExpired now expired"

text \<open>The entries of the menu of a row.\<close>

definition canEdit :: "int \<Rightarrow> Redemption \<Rightarrow> bool" where
  "canEdit now r \<longleftrightarrow> redStatus r = ENABLED \<and> \<not> isRedemptionExpired now (redExpired r) (redStatus r)"

definition canToggle :: "int \<Rightarrow> Redemption \<Rightarrow> bool" where
  "canToggle now r \<longleftrightarrow> redStatus r \<noteq> USED \<and> \<not> isRedemptionExpired now (redExpired r) (redStatus r)"

subsection \<open>The actions\<close>

text \<open>
  No handler has a \<open>catch\<close>: a rejected request leaves the page as the interceptor left it. Each returns the page
  and whether it closed the dialog and refreshed the table.
\<close>

definition quiet_result :: "Outcome \<times> App \<Rightarrow> (Body \<Rightarrow> Txt) \<Rightarrow> App \<times> bool" where
  "quiet_result r done_text =
     (case r of
        (Reply b, app1) \<Rightarrow> if accepted b then (toast (Success (done_text b)) app1, True) else (app1, False)
      | (Rejected e, app1) \<Rightarrow> (app1, False))"

definition updateCode :: "net \<Rightarrow> CurrencyConfig option \<Rightarrow> RedemptionFormValues \<Rightarrow> int \<Rightarrow> App \<Rightarrow> App \<times> bool" where
  "updateCode net cfg f i app =
     quiet_result (request net (updateRedemption (redemptionPayload cfg f) i) app)
       (\<lambda>_. Tr ''Redemption code updated successfully'' [])"

definition created_text :: "Body \<Rightarrow> Txt" where
  "created_text b =
     (let count = (case data b of Some (JArr keys) \<Rightarrow> length keys | _ \<Rightarrow> 0)
      in if count > 1 then Tr ''Successfully created {{count}} redemption codes'' [(''count'', num_json (int count))]
         else Tr ''Redemption code(s) created successfully'' [])"

definition createCodes :: "net \<Rightarrow> CurrencyConfig option \<Rightarrow> RedemptionFormValues \<Rightarrow> App \<Rightarrow> App \<times> bool" where
  "createCodes net cfg f app =
     quiet_result (request net (createRedemption (redemptionPayload cfg f)) app) created_text"

definition toggleCode :: "net \<Rightarrow> Redemption \<Rightarrow> App \<Rightarrow> App \<times> bool" where
  "toggleCode net r app =
     (let isEnabled = (redStatus r = ENABLED)
      in quiet_result (request net (updateRedemptionStatus (redId r) (if isEnabled then DISABLED else ENABLED)) app)
           (\<lambda>_. Tr (if isEnabled then ''Redemption code disabled successfully'' else ''Redemption code enabled successfully'') []))"

definition deleteCode :: "net \<Rightarrow> int option \<Rightarrow> App \<Rightarrow> App \<times> bool" where
  "deleteCode net currentRow app =
     (case currentRow of
        None \<Rightarrow> (app, False)
      | Some i \<Rightarrow> quiet_result (request net (deleteRedemption i) app) (\<lambda>_. Tr ''Redemption code deleted successfully'' []))"

definition deleteInvalid :: "net \<Rightarrow> App \<Rightarrow> App \<times> bool" where
  "deleteInvalid net app =
     quiet_result (request net deleteInvalidRedemptions app)
       (\<lambda>b. Tr ''Successfully deleted {{count}} invalid redemption codes''
              [(''count'', case data b of Some v \<Rightarrow> if jtruthy v then v else num_json 0 | None \<Rightarrow> num_json 0)])"

text \<open>What the button copies for the selected rows: a line for each, name and key with a tab between.\<close>

definition contentToCopy :: "Redemption list \<Rightarrow> string" where
  "contentToCopy rs = join [CHR 0x0A] (map (\<lambda>r. redName r @ CHR 0x09 # redKey r) rs)"

subsection \<open>The drawer as a state machine (components/redemptions-mutate-drawer.tsx)\<close>

text \<open>
  \<open>asked\<close> are the ids of the requests sent by the effect that loads a code, \<open>answered\<close> those answered: nothing
  cancels them. \<open>current\<close> is the form, \<open>restored\<close> what its \<open>reset()\<close> restores.
\<close>

record CodeDrawer =
  drawerFor :: Mode
  current :: RedemptionFormValues
  restored :: RedemptionFormValues
  asked :: "int list"
  answered :: "nat list"

definition closedCodes :: CodeDrawer where
  "closedCodes =
     \<lparr>drawerFor = Closed, current = REDEMPTION_FORM_DEFAULT_VALUES, restored = REDEMPTION_FORM_DEFAULT_VALUES,
      asked = [], answered = []\<rparr>"

definition openCreate :: "CodeDrawer \<Rightarrow> CodeDrawer" where
  "openCreate dr =
     dr\<lparr>drawerFor := Creating, current := REDEMPTION_FORM_DEFAULT_VALUES, restored := REDEMPTION_FORM_DEFAULT_VALUES\<rparr>"

definition openUpdate :: "int \<Rightarrow> CodeDrawer \<Rightarrow> CodeDrawer" where
  "openUpdate i dr = dr\<lparr>drawerFor := Updating i, asked := asked dr @ [i]\<rparr>"

definition codeLoaded :: "CurrencyConfig option \<Rightarrow> nat \<Rightarrow> Redemption option \<Rightarrow> CodeDrawer \<Rightarrow> CodeDrawer" where
  "codeLoaded cfg p answer dr =
     (let dr1 = dr\<lparr>answered := p # answered dr\<rparr>
      in case answer of
           None \<Rightarrow> dr1
         | Some r \<Rightarrow> dr1\<lparr>current := redemptionDefaults cfg r, restored := redemptionDefaults cfg r\<rparr>)"

definition closeDrawer :: "CodeDrawer \<Rightarrow> CodeDrawer" where
  "closeDrawer dr = dr\<lparr>drawerFor := Closed, current := restored dr\<rparr>"

datatype CodeInput = CodeName string | CodeQuota rat | CodeExpiry "int option" | CodeCount int

definition typeCode :: "CodeInput \<Rightarrow> CodeDrawer \<Rightarrow> CodeDrawer" where
  "typeCode x dr =
     (let f = current dr
      in case x of
           CodeName s \<Rightarrow> dr\<lparr>current := f\<lparr>rName := s\<rparr>\<rparr>
         | CodeQuota q \<Rightarrow> dr\<lparr>current := f\<lparr>rQuota := q\<rparr>\<rparr>
         | CodeExpiry e \<Rightarrow> dr\<lparr>current := f\<lparr>rExpired := e\<rparr>\<rparr>
         | CodeCount n \<Rightarrow> (if drawerFor dr = Creating then dr\<lparr>current := f\<lparr>rCount := Some n\<rparr>\<rparr> else dr))"

definition codeUpdate :: "CurrencyConfig option \<Rightarrow> CodeDrawer \<Rightarrow> Request option" where
  "codeUpdate cfg dr =
     (case drawerFor dr of
        Updating i \<Rightarrow>
          if getRedemptionFormSchema (current dr)
          then Some (updateRedemption (redemptionPayload cfg (current dr)) i) else None
      | _ \<Rightarrow> None)"

datatype CodeEvent =
  OpenNew | OpenCode Redemption | CodeAnswer nat "Redemption option" | CloseCode | TypeCode CodeInput | CodeSaved

text \<open>A code can be opened only through its menu entry. The second argument is the time.\<close>

definition code_possible :: "int \<Rightarrow> CodeDrawer \<Rightarrow> CodeEvent \<Rightarrow> bool" where
  "code_possible now dr ev =
     (case ev of
        OpenNew \<Rightarrow> drawerFor dr = Closed
      | OpenCode r \<Rightarrow> drawerFor dr = Closed \<and> canEdit now r
      | CodeAnswer p answer \<Rightarrow>
          p < length (asked dr) \<and> p \<notin> set (answered dr) \<and>
          (case answer of Some r \<Rightarrow> redId r = asked dr ! p | None \<Rightarrow> True)
      | _ \<Rightarrow> drawerFor dr \<noteq> Closed)"

definition code_event :: "CurrencyConfig option \<Rightarrow> CodeEvent \<Rightarrow> CodeDrawer \<Rightarrow> CodeDrawer" where
  "code_event cfg ev dr =
     (case ev of
        OpenNew \<Rightarrow> openCreate dr
      | OpenCode r \<Rightarrow> openUpdate (redId r) dr
      | CodeAnswer p answer \<Rightarrow> codeLoaded cfg p answer dr
      | CloseCode \<Rightarrow> closeDrawer dr
      | TypeCode x \<Rightarrow> typeCode x dr
      | CodeSaved \<Rightarrow> dr\<lparr>drawerFor := Closed\<rparr>)"

inductive code_steps :: "int \<Rightarrow> CurrencyConfig option \<Rightarrow> CodeDrawer \<Rightarrow> CodeEvent list \<Rightarrow> CodeDrawer \<Rightarrow> bool"
  for now cfg where
  none: "code_steps now cfg dr [] dr"
| more: "code_possible now dr ev \<Longrightarrow> code_steps now cfg (code_event cfg ev dr) evs dr2 \<Longrightarrow> code_steps now cfg dr (ev # evs) dr2"

inductive_simps code_steps_simps: "code_steps now cfg dr [] dr2" "code_steps now cfg dr (ev # evs) dr2"

interpretation code_drawer: answered_form current "\<lambda>dr. row_of (drawerFor dr)" "codeLoaded cfg"
    "redemptionDefaults cfg" getRedemptionFormSchema "\<lambda>f. updateRedemption (redemptionPayload cfg f)"
    "codeUpdate cfg"
  for cfg
  by unfold_locales (auto simp: codeLoaded_def codeUpdate_def row_of_Some Let_def split: option.splits)

subsection \<open>What a submit sends\<close>

text \<open>What the code says, in the form of a payload.\<close>

definition code_data :: "Redemption \<Rightarrow> RedemptionFormData" where
  "code_data r = \<lparr>rdName = redName r, rdQuota = redQuota r, rdExpired = max 0 (redExpired r), rdCount = 1\<rparr>"

lemma unchanged_code: "redemptionPayload cfg (redemptionDefaults cfg r) = code_data r"
  by (simp add: redemptionPayload_def redemptionDefaults_def code_data_def units_roundtrip)

lemma schema_of_code:
  "getRedemptionFormSchema (redemptionDefaults cfg r) \<longleftrightarrow> redName r \<noteq> [] \<and> length (redName r) \<le> 20 \<and> 0 \<le> redQuota r"
  by (auto simp: getRedemptionFormSchema_def redemptionDefaults_def shown_quota_sign Suc_le_eq)

text \<open>The last value entered of a kind, if any.\<close>

definition last_of :: "('a \<Rightarrow> 'b option) \<Rightarrow> 'a list \<Rightarrow> 'b \<Rightarrow> 'b" where
  "last_of g xs d = fold (\<lambda>x b. case g x of Some b' \<Rightarrow> b' | None \<Rightarrow> b) xs d"

definition typed_name :: "CodeInput \<Rightarrow> string option" where
  "typed_name x = (case x of CodeName s \<Rightarrow> Some s | _ \<Rightarrow> None)"

definition typed_quota :: "CurrencyConfig option \<Rightarrow> CodeInput \<Rightarrow> int option" where
  "typed_quota cfg x = (case x of CodeQuota q \<Rightarrow> Some (parseQuotaFromDollars cfg q) | _ \<Rightarrow> None)"

definition picked_expiry :: "CodeInput \<Rightarrow> int option" where
  "picked_expiry x = (case x of CodeExpiry e \<Rightarrow> Some (case e of Some ms \<Rightarrow> ms div 1000 | None \<Rightarrow> 0) | _ \<Rightarrow> None)"

lemma type_payload:
  assumes "drawerFor dr \<noteq> Creating"
  shows "redemptionPayload cfg (current (typeCode x dr)) =
    (let d = redemptionPayload cfg (current dr)
     in d\<lparr>rdName := last_of typed_name [x] (rdName d), rdQuota := last_of (typed_quota cfg) [x] (rdQuota d),
          rdExpired := last_of picked_expiry [x] (rdExpired d)\<rparr>)"
  using assms
  by (cases x) (auto simp: typeCode_def redemptionPayload_def last_of_def typed_name_def typed_quota_def picked_expiry_def Let_def)

lemma type_keeps: "drawerFor (typeCode x dr) = drawerFor dr" "restored (typeCode x dr) = restored dr" "asked (typeCode x dr) = asked dr"
  "answered (typeCode x dr) = answered dr"
  by (cases x; simp add: typeCode_def Let_def)+

lemma types_keep: "drawerFor (fold typeCode xs dr) = drawerFor dr" "asked (fold typeCode xs dr) = asked dr"
  "answered (fold typeCode xs dr) = answered dr" "restored (fold typeCode xs dr) = restored dr"
  by (induction xs arbitrary: dr) (simp_all add: type_keeps)

lemma types_payload:
  assumes "drawerFor dr \<noteq> Creating"
  shows "redemptionPayload cfg (current (fold typeCode xs dr)) =
    (let d = redemptionPayload cfg (current dr)
     in d\<lparr>rdName := last_of typed_name xs (rdName d), rdQuota := last_of (typed_quota cfg) xs (rdQuota d),
          rdExpired := last_of picked_expiry xs (rdExpired d)\<rparr>)"
  using assms
proof (induction xs arbitrary: dr)
  case Nil
  then show ?case by (simp add: last_of_def Let_def)
next
  case (Cons x xs)
  then show ?case using Cons.IH [of "typeCode x dr"] by (simp add: type_keeps type_payload last_of_def Let_def)
qed

lemma types_steps:
  "drawerFor dr \<noteq> Closed \<Longrightarrow> code_steps now cfg (fold typeCode xs dr) evs dr2 \<Longrightarrow>
     code_steps now cfg dr (map TypeCode xs @ evs) dr2"
proof (induction xs arbitrary: dr)
  case (Cons x xs)
  then show ?case by (auto simp: code_possible_def code_event_def type_keeps intro!: code_steps.more)
qed simp

text \<open>
  C25: Once a code has loaded and whatever has been typed since, an accepted submit sends the code's own name,
  quota and expiry except where something was typed, then the last value typed; the quota is the same number of units in every display
  currency although the form shows an amount.
\<close>
theorem only_typed_fields_change:
  assumes "drawerFor dr = Updating i"
    and "codeUpdate cfg (fold typeCode xs (codeLoaded cfg p (Some r) dr)) = Some req"
  shows "req = updateRedemption
      \<lparr>rdName = last_of typed_name xs (redName r), rdQuota = last_of (typed_quota cfg) xs (redQuota r),
       rdExpired = last_of picked_expiry xs (max 0 (redExpired r)), rdCount = 1\<rparr> i"
proof -
  let ?d = "codeLoaded cfg p (Some r) dr"
  have u: "drawerFor ?d = Updating i" "current ?d = redemptionDefaults cfg r"
    using assms(1) by (simp_all add: codeLoaded_def Let_def)
  then have "req = updateRedemption (redemptionPayload cfg (current (fold typeCode xs ?d))) i"
    using assms(2) by (simp add: codeUpdate_def types_keep split: if_splits)
  then show ?thesis using u by (simp add: types_payload unchanged_code code_data_def Let_def)
qed

definition gift :: "int \<Rightarrow> string \<Rightarrow> int \<Rightarrow> Redemption" where
  "gift i nm q = \<lparr>redId = i, redName = nm, redKey = ''k3y'', redStatus = 1, redQuota = q, redExpired = 0\<rparr>"

lemma only_typed_fields_change_witness:
  "codeUpdate None (fold typeCode [CodeName ''spring'', CodeName ''summer'']
       (codeLoaded None 0 (Some (gift 4 ''winter'' 333333)) (openUpdate 4 closedCodes))) =
     Some (updateRedemption \<lparr>rdName = ''summer'', rdQuota = 333333, rdExpired = 0, rdCount = 1\<rparr> 4)"
  (is "codeUpdate None (fold typeCode ?xs (codeLoaded None 0 (Some ?r) ?d)) = _")
proof -
  have d: "drawerFor ?d = Updating 4" by (simp add: openUpdate_def)
  have "getRedemptionFormSchema (current (fold typeCode ?xs (codeLoaded None 0 (Some ?r) ?d)))"
    using schema_of_code [of None ?r]
    by (simp add: typeCode_def codeLoaded_def getRedemptionFormSchema_def redemptionDefaults_def gift_def Let_def)
  moreover have "drawerFor (fold typeCode ?xs (codeLoaded None 0 (Some ?r) ?d)) = Updating 4"
    unfolding types_keep by (simp add: codeLoaded_def openUpdate_def Let_def)
  ultimately obtain req where "codeUpdate None (fold typeCode ?xs (codeLoaded None 0 (Some ?r) ?d)) = Some req"
    unfolding codeUpdate_def by simp
  then show ?thesis
    using only_typed_fields_change [OF d, of None ?xs 0 ?r req]
    by (simp add: last_of_def typed_name_def typed_quota_def picked_expiry_def gift_def)
qed

subsection \<open>A code saved before it has loaded\<close>

text \<open>
  C21: A code that is opened after another one has loaded shows the other one's values until its own answer arrives;
  saving before that writes the name, quota and expiry of the first code over the second, and so does the late
  answer for a code that was closed.
\<close>
theorem code_saved_with_other_values:
  assumes "canEdit now a" "canEdit now b" "redName a \<noteq> []" "length (redName a) \<le> 20" "0 \<le> redQuota a"
    and "evs = [OpenCode a, CodeAnswer 0 (Some a), CloseCode, OpenCode b] \<or>
         evs = [OpenCode a, CloseCode, OpenCode b, CodeAnswer 1 (Some b), CodeAnswer 0 (Some a)]"
  shows "\<exists>dr. code_steps now cfg closedCodes evs dr \<and> codeUpdate cfg dr = Some (updateRedemption (code_data a) (redId b))"
proof -
  note defs = closedCodes_def openUpdate_def closeDrawer_def codeLoaded_def code_possible_def code_event_def Let_def
  have run: "\<exists>dr. code_steps now cfg closedCodes evs dr \<and> drawerFor dr = Updating (redId b) \<and> current dr = redemptionDefaults cfg a"
    using assms(1,2,6) by (elim disjE) (simp_all add: code_steps_simps defs)
  then show ?thesis
    using assms(3-5) by (auto simp: codeUpdate_def unchanged_code schema_of_code)
qed

lemma code_saved_with_other_values_witness:
  "\<exists>dr. code_steps 1700000000000 None closedCodes
      [OpenCode (gift 1 ''big'' 50000000), CodeAnswer 0 (Some (gift 1 ''big'' 50000000)), CloseCode, OpenCode (gift 2 ''small'' 500)] dr \<and>
    codeUpdate None dr = Some (updateRedemption \<lparr>rdName = ''big'', rdQuota = 50000000, rdExpired = 0, rdCount = 1\<rparr> 2)"
  using code_saved_with_other_values [of 1700000000000 "gift 1 ''big'' 50000000" "gift 2 ''small'' 500"
      "[OpenCode (gift 1 ''big'' 50000000), CodeAnswer 0 (Some (gift 1 ''big'' 50000000)), CloseCode, OpenCode (gift 2 ''small'' 500)]" None]
  by (simp add: gift_def canEdit_def ENABLED_def isRedemptionExpired_def isTimestampExpired_def code_data_def)

text \<open>
  In every run, what the form restores is the default or some code that was asked for, so a submit never mixes
  codes unless something is typed.
\<close>

lemma restored_asked:
  "code_steps now cfg dr evs dr2 \<Longrightarrow>
     restored dr = REDEMPTION_FORM_DEFAULT_VALUES \<or> (\<exists>r. redId r \<in> set (asked dr) \<and> restored dr = redemptionDefaults cfg r) \<Longrightarrow>
     restored dr2 = REDEMPTION_FORM_DEFAULT_VALUES \<or> (\<exists>r. redId r \<in> set (asked dr2) \<and> restored dr2 = redemptionDefaults cfg r)"
proof (induction rule: code_steps.induct)
  case (more dr ev evs dr2)
  show ?case
    by (rule more.IH, use more.hyps(1) more.prems in \<open>auto simp: code_possible_def code_event_def openCreate_def openUpdate_def codeLoaded_def
        closeDrawer_def type_keeps Let_def split: CodeEvent.splits option.splits\<close>) (metis nth_mem)+
qed

end
