(* ===== verification/UserForms.thy ===== *)
theory UserForms
  imports EditDrawers JsValues
begin

text \<open>
  Users (\<^verbatim>\<open>features/users\<close>): the form and its payload (\<^verbatim>\<open>lib/user-form.ts\<close>), the drawer with its effect,
  which runs again whenever the page renders, the dialog that adjusts a quota, and the actions of a row. A number
  typed into a number field is the text of the field.
\<close>

subsection \<open>Users and requests (types.ts, constants.ts, api.ts)\<close>

definition ROLE_USER :: int where "ROLE_USER = 1"
definition ROLE_ADMIN :: int where "ROLE_ADMIN = 10"
definition ROLE_ROOT :: int where "ROLE_ROOT = 100"

definition USER_DISABLED :: int where "USER_DISABLED = 2"

definition USER_DEFAULT_GROUP :: string where "USER_DEFAULT_GROUP = ''default''"

record User =
  userId :: int
  username :: string
  display_name :: string
  userQuota :: int
  userGroup :: string
  userStatus :: int
  userRole :: int
  userRemark :: "string option"
  deletedAt :: "json option"

definition isUserDeleted :: "User \<Rightarrow> bool" where
  "isUserDeleted u \<longleftrightarrow> (case deletedAt u of None \<Rightarrow> False | Some JNull \<Rightarrow> False | Some _ \<Rightarrow> True)"

record UserFormData =
  udUsername :: string
  udDisplay :: string
  udPassword :: "string option"
  udRole :: "int option"
  udGroup :: "string option"
  udRemark :: "string option"

text \<open>An entry that is undefined is not part of the JSON text.\<close>

definition entry :: "string \<Rightarrow> json option \<Rightarrow> json obj" where
  "entry k v = (case v of Some j \<Rightarrow> [(k, j)] | None \<Rightarrow> [])"

definition user_json :: "UserFormData \<Rightarrow> json obj" where
  "user_json d =
     [(''username'', JStr (udUsername d)), (''display_name'', JStr (udDisplay d))] @
     entry ''password'' (map_option JStr (udPassword d)) @ entry ''role'' (map_option num_json (udRole d)) @
     entry ''group'' (map_option JStr (udGroup d)) @ entry ''remark'' (map_option JStr (udRemark d))"

definition getUser :: "int \<Rightarrow> Request" where
  "getUser i = api_get_request (url_id ''/api/user/'' i) None"

definition createUser :: "UserFormData \<Rightarrow> Request" where
  "createUser d = api_post ''/api/user/'' (Some (JObj (user_json d)))"

definition updateUser :: "UserFormData \<Rightarrow> int \<Rightarrow> Request" where
  "updateUser d i = api_put ''/api/user/'' (JObj (user_json d @ [(''id'', num_json i)]))"

definition deleteUser :: "int \<Rightarrow> Request" where
  "deleteUser i = api_delete (url_id ''/api/user/'' i)"

datatype ManageUserAction = Promote | Demote | EnableUser | DisableUser

definition action_name :: "ManageUserAction \<Rightarrow> string" where
  "action_name a = (case a of Promote \<Rightarrow> ''promote'' | Demote \<Rightarrow> ''demote'' | EnableUser \<Rightarrow> ''enable'' | DisableUser \<Rightarrow> ''disable'')"

definition manageUser :: "int \<Rightarrow> ManageUserAction \<Rightarrow> Request" where
  "manageUser i a =
     api_post ''/api/user/manage'' (Some (JObj [(''id'', num_json i), (''action'', JStr (action_name a))]))"

datatype QuotaAdjustMode = Add | Subtract | Override

definition mode_name :: "QuotaAdjustMode \<Rightarrow> string" where
  "mode_name m = (case m of Add \<Rightarrow> ''add'' | Subtract \<Rightarrow> ''subtract'' | Override \<Rightarrow> ''override'')"

definition adjustUserQuota :: "int \<Rightarrow> QuotaAdjustMode \<Rightarrow> int \<Rightarrow> Request" where
  "adjustUserQuota i m v =
     api_post ''/api/user/manage''
       (Some (JObj [(''id'', num_json i), (''action'', JStr ''add_quota''), (''mode'', JStr (mode_name m)), (''value'', num_json v)]))"

definition resetUserPasskey :: "int \<Rightarrow> Request" where
  "resetUserPasskey i = api_delete (url_id ''/api/user/'' i @ ''/reset_passkey'')"

definition resetUserTwoFA :: "int \<Rightarrow> Request" where
  "resetUserTwoFA i = api_delete (url_id ''/api/user/'' i @ ''/2fa'')"

subsection \<open>The form (lib/user-form.ts)\<close>

record UserFormValues =
  vUsername :: "string option"
  vDisplay :: "string option"
  vPassword :: "string option"
  vRole :: "int option"
  vQuota :: "rat option"
  vGroup :: "string option"
  vRemark :: "string option"

definition userFormSchema :: "UserFormValues \<Rightarrow> bool" where
  "userFormSchema f \<longleftrightarrow> (case vQuota f of None \<Rightarrow> True | Some x \<Rightarrow> 0 \<le> x)"

definition USER_FORM_DEFAULT_VALUES :: UserFormValues where
  "USER_FORM_DEFAULT_VALUES =
     \<lparr>vUsername = Some [], vDisplay = Some [], vPassword = Some [], vRole = Some 1, vQuota = Some 0,
      vGroup = Some USER_DEFAULT_GROUP, vRemark = Some []\<rparr>"

text \<open>\<open>v ?? ''\<close> trimmed, and \<open>v || undefined\<close>.\<close>

definition trimmed_text :: "string option \<Rightarrow> string" where
  "trimmed_text v = trim (case v of Some s \<Rightarrow> s | None \<Rightarrow> [])"

definition or_undefined :: "string option \<Rightarrow> string option" where
  "or_undefined v = (case v of Some s \<Rightarrow> if s \<noteq> [] then Some s else None | None \<Rightarrow> None)"

text \<open>\<open>None\<close> as user: the payload that creates one.\<close>

definition userPayload :: "UserFormValues \<Rightarrow> int option \<Rightarrow> UserFormData" where
  "userPayload f user =
     (let nm = trimmed_text (vUsername f);
          d = trimmed_text (vDisplay f);
          base = \<lparr>udUsername = nm, udDisplay = (if d \<noteq> [] then d else nm), udPassword = or_undefined (vPassword f),
                  udRole = None, udGroup = None, udRemark = None\<rparr>
      in case user of
           None \<Rightarrow> base\<lparr>udRole := Some (case vRole f of Some r \<Rightarrow> if r \<noteq> 0 then r else 1 | None \<Rightarrow> 1)\<rparr>
         | Some _ \<Rightarrow> base\<lparr>udGroup := vGroup f, udRemark := or_undefined (vRemark f)\<rparr>)"

definition transformUserToFormDefaults :: "CurrencyConfig option \<Rightarrow> User \<Rightarrow> UserFormValues" where
  "transformUserToFormDefaults cfg u =
     \<lparr>vUsername = Some (username u), vDisplay = Some (display_name u), vPassword = Some [], vRole = Some (userRole u),
      vQuota = Some (quotaUnitsToDollars cfg (of_int (userQuota u))),
      vGroup = Some (if userGroup u \<noteq> [] then userGroup u else USER_DEFAULT_GROUP),
      vRemark = Some (text_or_else (userRemark u) [])\<rparr>"

subsection \<open>The drawer (components/users-mutate-drawer.tsx)\<close>

text \<open>
  \<open>shown\<close> is what the page passes: closed, creating, or a row. \<open>fetches\<close> are the users asked for by the effect,
  \<open>live\<close> the one whose flag \<open>cancelled\<close> is not set, \<open>settled\<close> those answered. \<open>reloads\<close> are the users asked
  for after a quota was adjusted: no flag cancels these.
\<close>

datatype Sheet = NoSheet | NewUser | EditUser User

record UserDrawer =
  sheet :: Sheet
  uValues :: UserFormValues
  uRestored :: UserFormValues
  usernameEditable :: bool
  fetches :: "int list"
  live :: "nat option"
  settled :: "nat list"
  reloads :: "int list"
  reloaded :: "nat list"
  uToasts :: "Toast list"

definition closedUsers :: UserDrawer where
  "closedUsers =
     \<lparr>sheet = NoSheet, uValues = USER_FORM_DEFAULT_VALUES, uRestored = USER_FORM_DEFAULT_VALUES, usernameEditable = False,
      fetches = [], live = None, settled = [], reloads = [], reloaded = [], uToasts = []\<rparr>"

definition reset_form :: "UserFormValues \<Rightarrow> UserDrawer \<Rightarrow> UserDrawer" where
  "reset_form f dr = dr\<lparr>uValues := f, uRestored := f\<rparr>"

text \<open>
  The effect, after the cleanup of its last run. It depends on \<open>onOpenChange\<close>, which the page creates anew
  whenever it renders.
\<close>

definition run_effect :: "UserDrawer \<Rightarrow> UserDrawer" where
  "run_effect dr =
     (let dr1 = dr\<lparr>live := None\<rparr>
      in case sheet dr of
           NoSheet \<Rightarrow> dr1
         | EditUser row \<Rightarrow>
             dr1\<lparr>usernameEditable := (trim (username row) = []), fetches := fetches dr @ [userId row],
                 live := Some (length (fetches dr))\<rparr>
         | NewUser \<Rightarrow> (reset_form USER_FORM_DEFAULT_VALUES dr1)\<lparr>usernameEditable := False\<rparr>)"

definition showSheet :: "Sheet \<Rightarrow> UserDrawer \<Rightarrow> UserDrawer" where
  "showSheet sh dr = run_effect (dr\<lparr>sheet := sh\<rparr>)"

datatype UserReply = Got User | Refused "string option" | Threw

definition load_failed :: "Toast \<Rightarrow> UserDrawer \<Rightarrow> UserDrawer" where
  "load_failed t dr = showSheet NoSheet (dr\<lparr>uToasts := uToasts dr @ [t]\<rparr>)"

definition userAnswered :: "CurrencyConfig option \<Rightarrow> nat \<Rightarrow> UserReply \<Rightarrow> UserDrawer \<Rightarrow> UserDrawer" where
  "userAnswered cfg p reply dr =
     (let dr1 = dr\<lparr>settled := p # settled dr\<rparr>
      in if live dr \<noteq> Some p then dr1
         else case reply of
           Got u \<Rightarrow> (reset_form (transformUserToFormDefaults cfg u) dr1)\<lparr>usernameEditable := (trim (username u) = [])\<rparr>
         | Refused m \<Rightarrow> load_failed (Error (or_text m (Tr ''Failed to load users'' []))) dr1
         | Threw \<Rightarrow> load_failed (Error (Tr ''An unexpected error occurred'' [])) dr1)"

text \<open>The handler of the sheet: \<open>onOpenChange(false)\<close>, then \<open>form.reset()\<close>.\<close>

definition dismissUser :: "UserDrawer \<Rightarrow> UserDrawer" where
  "dismissUser dr = showSheet NoSheet (dr\<lparr>uValues := uRestored dr\<rparr>)"

text \<open>
  The inputs: the user name is disabled unless it is missing, the role is offered only for a new user (below the
  role of the actor), group and remark only for an existing one. The quota field is read-only.
\<close>

datatype UserInput =
  TypeUsername string | PickRole int | TypeDisplay string | TypePassword string | PickGroup string | TypeRemark string

definition creatableRoles :: "int \<Rightarrow> int list" where
  "creatableRoles actorRole = filter (\<lambda>r. r < actorRole) [ROLE_USER, ROLE_ADMIN]"

definition userInput :: "int \<Rightarrow> UserInput \<Rightarrow> UserDrawer \<Rightarrow> UserDrawer" where
  "userInput actorRole x dr =
     (let f = uValues dr; isUpdate = (sheet dr \<noteq> NewUser)
      in case x of
           TypeUsername s \<Rightarrow> (if isUpdate \<and> \<not> usernameEditable dr then dr else dr\<lparr>uValues := f\<lparr>vUsername := Some s\<rparr>\<rparr>)
         | PickRole r \<Rightarrow> (if isUpdate \<or> r \<notin> set (creatableRoles actorRole) then dr else dr\<lparr>uValues := f\<lparr>vRole := Some r\<rparr>\<rparr>)
         | TypeDisplay s \<Rightarrow> dr\<lparr>uValues := f\<lparr>vDisplay := Some s\<rparr>\<rparr>
         | TypePassword s \<Rightarrow> dr\<lparr>uValues := f\<lparr>vPassword := Some s\<rparr>\<rparr>
         | PickGroup g \<Rightarrow> (if isUpdate then dr\<lparr>uValues := f\<lparr>vGroup := Some g\<rparr>\<rparr> else dr)
         | TypeRemark s \<Rightarrow> (if isUpdate then dr\<lparr>uValues := f\<lparr>vRemark := Some s\<rparr>\<rparr> else dr))"

text \<open>What \<open>onSubmit\<close> sends, if the schema accepts the form and there is a user name.\<close>

definition shown_row :: "UserDrawer \<Rightarrow> int option" where
  "shown_row dr = (case sheet dr of EditUser row \<Rightarrow> Some (userId row) | _ \<Rightarrow> None)"

definition accepted_form :: "UserFormValues \<Rightarrow> bool" where
  "accepted_form f \<longleftrightarrow> userFormSchema f \<and> trimmed_text (vUsername f) \<noteq> []"

definition userRequest :: "UserDrawer \<Rightarrow> Request option" where
  "userRequest dr =
     (if \<not> accepted_form (uValues dr) then None
      else case sheet dr of
             NoSheet \<Rightarrow> None
           | NewUser \<Rightarrow> Some (createUser (userPayload (uValues dr) None))
           | EditUser row \<Rightarrow> Some (updateUser (userPayload (uValues dr) (Some (userId row))) (userId row)))"

definition submitUser :: "net \<Rightarrow> UserDrawer \<Rightarrow> App \<Rightarrow> App \<times> bool" where
  "submitUser net dr app =
     (let isUpdate = (shown_row dr \<noteq> None)
      in case userRequest dr of
           None \<Rightarrow> (app, False)
         | Some r \<Rightarrow>
             saved_result (request net r app)
               (Tr (if isUpdate then ''User updated successfully'' else ''User created successfully'') [])
               (Tr (if isUpdate then ''Failed to update user'' else ''Failed to create user'') []))"

text \<open>
  \<open>refreshUserData\<close>, the callback of an adjusted quota: the user is asked for, and the answer resets the form and
  refreshes the table, which renders the page and so runs the effect.
\<close>

definition quotaAdjusted :: "int \<Rightarrow> UserDrawer \<Rightarrow> UserDrawer" where
  "quotaAdjusted i dr = dr\<lparr>reloads := reloads dr @ [i]\<rparr>"

definition refill :: "CurrencyConfig option \<Rightarrow> User option \<Rightarrow> UserDrawer \<Rightarrow> UserDrawer" where
  "refill cfg answer dr =
     (case answer of Some u \<Rightarrow> reset_form (transformUserToFormDefaults cfg u) dr | None \<Rightarrow> dr)"

definition reloadAnswered :: "CurrencyConfig option \<Rightarrow> nat \<Rightarrow> UserReply \<Rightarrow> UserDrawer \<Rightarrow> UserDrawer" where
  "reloadAnswered cfg p reply dr =
     (let dr1 = dr\<lparr>reloaded := p # reloaded dr\<rparr>
      in case reply of
           Got u \<Rightarrow> run_effect (refill cfg (Some u) dr1)
         | Refused m \<Rightarrow> run_effect (refill cfg None dr1)
         | Threw \<Rightarrow> dr1)"

interpretation user_drawer: answered_form uValues shown_row "\<lambda>p. refill cfg" "transformUserToFormDefaults cfg"
    accepted_form "\<lambda>f i. updateUser (userPayload f (Some i)) i" userRequest
  for cfg
  by unfold_locales
    (auto simp: refill_def reset_form_def shown_row_def userRequest_def split: option.splits Sheet.splits)

text \<open>Events in any order; \<open>PageRendered\<close> stands for whatever renders the page, such as the answer to an action of a row.\<close>

datatype UserEvent =
  ShowSheet Sheet | UserAnswer nat UserReply | DismissUser | EnterUser UserInput
| QuotaAdjusted int | ReloadAnswer nat UserReply | PageRendered | UserSaved

definition reply_for :: "int \<Rightarrow> UserReply \<Rightarrow> bool" where
  "reply_for i reply = (case reply of Got u \<Rightarrow> userId u = i | _ \<Rightarrow> True)"

definition user_possible :: "UserDrawer \<Rightarrow> UserEvent \<Rightarrow> bool" where
  "user_possible dr ev =
     (case ev of
        ShowSheet sh \<Rightarrow> sheet dr = NoSheet \<and> sh \<noteq> NoSheet
      | UserAnswer p reply \<Rightarrow> p < length (fetches dr) \<and> p \<notin> set (settled dr) \<and> reply_for (fetches dr ! p) reply
      | QuotaAdjusted i \<Rightarrow> i \<in> set (fetches dr)
      | ReloadAnswer p reply \<Rightarrow> p < length (reloads dr) \<and> p \<notin> set (reloaded dr) \<and> reply_for (reloads dr ! p) reply
      | PageRendered \<Rightarrow> True
      | _ \<Rightarrow> sheet dr \<noteq> NoSheet)"

definition user_event :: "CurrencyConfig option \<Rightarrow> int \<Rightarrow> UserEvent \<Rightarrow> UserDrawer \<Rightarrow> UserDrawer" where
  "user_event cfg actorRole ev dr =
     (case ev of
        ShowSheet sh \<Rightarrow> showSheet sh dr
      | UserAnswer p reply \<Rightarrow> userAnswered cfg p reply dr
      | DismissUser \<Rightarrow> dismissUser dr
      | EnterUser x \<Rightarrow> userInput actorRole x dr
      | QuotaAdjusted i \<Rightarrow> quotaAdjusted i dr
      | ReloadAnswer p reply \<Rightarrow> reloadAnswered cfg p reply dr
      | PageRendered \<Rightarrow> run_effect dr
      | UserSaved \<Rightarrow> showSheet NoSheet dr)"

inductive user_steps :: "CurrencyConfig option \<Rightarrow> int \<Rightarrow> UserDrawer \<Rightarrow> UserEvent list \<Rightarrow> UserDrawer \<Rightarrow> bool"
  for cfg actorRole where
  none: "user_steps cfg actorRole dr [] dr"
| more: "user_possible dr ev \<Longrightarrow> user_steps cfg actorRole (user_event cfg actorRole ev dr) evs dr2 \<Longrightarrow>
    user_steps cfg actorRole dr (ev # evs) dr2"

inductive_simps user_steps_simps:
  "user_steps cfg actorRole dr [] dr2" "user_steps cfg actorRole dr (ev # evs) dr2"

lemma user_steps_append:
  "user_steps cfg r dr (evs @ fs) dr3 \<longleftrightarrow> (\<exists>dr2. user_steps cfg r dr evs dr2 \<and> user_steps cfg r dr2 fs dr3)"
  by (induction evs arbitrary: dr) (auto simp: user_steps_simps)

subsection \<open>Answers that come late\<close>

lemma input_keeps:
  "sheet (userInput r x dr) = sheet dr" "live (userInput r x dr) = live dr" "fetches (userInput r x dr) = fetches dr"
  "settled (userInput r x dr) = settled dr" "reloads (userInput r x dr) = reloads dr" "reloaded (userInput r x dr) = reloaded dr"
  "uRestored (userInput r x dr) = uRestored dr"
  by (cases x; simp add: userInput_def Let_def)+

text \<open>The fetch that is not cancelled is for the row shown, and there is one while a row is shown.\<close>

definition live_shown :: "UserDrawer \<Rightarrow> bool" where
  "live_shown dr \<longleftrightarrow>
     (\<forall>p. live dr = Some p \<longrightarrow> p < length (fetches dr) \<and> shown_row dr = Some (fetches dr ! p)) \<and>
     (shown_row dr \<noteq> None \<longrightarrow> live dr \<noteq> None)"

lemma shown_fetched: "live_shown dr \<Longrightarrow> shown_row dr = Some i \<Longrightarrow> i \<in> set (fetches dr)"
  by (force simp: live_shown_def)

lemma live_effect: "live_shown (run_effect dr)"
  by (auto simp: live_shown_def run_effect_def shown_row_def reset_form_def Let_def split: Sheet.splits)

lemma live_same:
  "sheet dr2 = sheet dr \<Longrightarrow> live dr2 = live dr \<Longrightarrow> fetches dr2 = fetches dr \<Longrightarrow> live_shown dr \<Longrightarrow> live_shown dr2"
  by (simp add: live_shown_def shown_row_def)

lemma live_event:
  assumes "live_shown dr"
  shows "live_shown (user_event cfg r ev dr)"
proof (cases ev)
  case (UserAnswer p reply)
  show ?thesis
    by (cases reply; cases "live dr = Some p")
      (auto simp: UserAnswer user_event_def userAnswered_def load_failed_def showSheet_def live_effect reset_form_def Let_def
        intro: live_same [OF _ _ _ assms])
next
  case (ReloadAnswer p reply)
  show ?thesis
    by (cases reply) (auto simp: ReloadAnswer user_event_def reloadAnswered_def live_effect Let_def intro: live_same [OF _ _ _ assms])
qed (auto simp: user_event_def showSheet_def dismissUser_def live_effect quotaAdjusted_def input_keeps
    intro: live_same [OF _ _ _ assms])

lemma live_steps: "user_steps cfg r dr evs dr2 \<Longrightarrow> live_shown dr \<Longrightarrow> live_shown dr2"
  by (induction rule: user_steps.induct) (auto simp: live_event)

lemma live_closed: "live_shown closedUsers"
  by (simp add: live_shown_def closedUsers_def shown_row_def)

lemma effect_fills:
  "shown_row dr = Some i \<Longrightarrow> uValues (run_effect dr) = uValues dr \<and> shown_row (run_effect dr) = Some i"
  by (auto simp: run_effect_def shown_row_def Let_def split: Sheet.splits)

lemma reload_sent:
  assumes "shown_row dr = Some i" "accepted_form (transformUserToFormDefaults cfg u)"
  shows "userRequest (reloadAnswered cfg q (Got u) dr) = Some (updateUser (userPayload (transformUserToFormDefaults cfg u) (Some i)) i)"
proof -
  let ?dr = "refill cfg (Some u) (dr\<lparr>reloaded := q # reloaded dr\<rparr>)"
  have s: "shown_row ?dr = Some i" using assms(1) by (simp add: refill_def reset_form_def shown_row_def split: Sheet.splits)
  have "uValues (reloadAnswered cfg q (Got u) dr) = transformUserToFormDefaults cfg u"
    "shown_row (reloadAnswered cfg q (Got u) dr) = Some i"
    using effect_fills [OF s] by (simp_all add: reloadAnswered_def refill_def reset_form_def)
  then show ?thesis using assms(2) user_drawer.submit_shown by simp
qed

text \<open>
  C19: In every run of the users drawer, an answer to a request of the effect that loads a user changes something
  only if it is for the user that is shown at that moment: the answers for users opened before are dropped, whether
  they carry data, a refusal or an error. The answers to the reloads after an adjusted quota are not dropped: whichever user
  such an answer brings, it fills the form that is shown, and until the next answer a submit saves that user's
  fields for the user shown.
\<close>
theorem late_user_answers:
  assumes "user_steps cfg actorRole closedUsers evs dr"
  shows "(user_possible dr (UserAnswer p reply) \<longrightarrow>
           userAnswered cfg p reply dr = dr\<lparr>settled := p # settled dr\<rparr> \<or> shown_row dr = Some (fetches dr ! p))
    \<and> (user_possible dr (ReloadAnswer q (Got u)) \<and> shown_row dr = Some i \<and> accepted_form (transformUserToFormDefaults cfg u) \<longrightarrow>
         userRequest (reloadAnswered cfg q (Got u) dr)
           = Some (updateUser (userPayload (transformUserToFormDefaults cfg u) (Some i)) i))"
  using live_steps [OF assms live_closed] reload_sent [of dr i cfg u q]
  by (auto simp: live_shown_def userAnswered_def Let_def)

definition member :: "int \<Rightarrow> string \<Rightarrow> int \<Rightarrow> User" where
  "member i nm q =
     \<lparr>userId = i, username = nm, display_name = nm, userQuota = q, userGroup = ''vip'', userStatus = 1, userRole = 1,
      userRemark = None, deletedAt = None\<rparr>"

text \<open>
  Ann's quota is adjusted, then her drawer is closed and Bob's is opened: the answer of her first request is dropped, the
  one of her reload makes Bob an Ann, with her name, group and remark, if the form is saved then.
\<close>

lemma late_user_answers_witness:
  "\<exists>dr. user_steps None 100 closedUsers [ShowSheet (EditUser (member 1 ''ann'' 5)), QuotaAdjusted 1, DismissUser, ShowSheet (EditUser (member 2 ''bob'' 7))] dr
    \<and> userAnswered None 0 (Got (member 1 ''ann'' 5)) dr = dr\<lparr>settled := [0]\<rparr>
    \<and> user_possible dr (ReloadAnswer 0 (Got (member 1 ''ann'' 9)))
    \<and> userRequest (reloadAnswered None 0 (Got (member 1 ''ann'' 9)) dr)
        = Some (updateUser (userPayload (transformUserToFormDefaults None (member 1 ''ann'' 9)) (Some 2)) 2)"
proof -
  let ?evs = "[ShowSheet (EditUser (member 1 ''ann'' 5)), QuotaAdjusted 1, DismissUser, ShowSheet (EditUser (member 2 ''bob'' 7))]"
  let ?dr = "fold (user_event None 100) ?evs closedUsers"
  note defs = user_possible_def user_event_def showSheet_def dismissUser_def quotaAdjusted_def run_effect_def closedUsers_def Let_def
  have s: "user_steps None 100 closedUsers ?evs ?dr" by (simp add: user_steps_simps defs member_def)
  have p: "user_possible ?dr (UserAnswer 0 (Got (member 1 ''ann'' 5)))" "shown_row ?dr \<noteq> Some (fetches ?dr ! 0)" "settled ?dr = []"
    by (simp_all add: defs reply_for_def shown_row_def member_def)
  have q: "user_possible ?dr (ReloadAnswer 0 (Got (member 1 ''ann'' 9)))" "shown_row ?dr = Some 2"
    by (simp_all add: defs reply_for_def shown_row_def member_def)
  have f: "accepted_form (transformUserToFormDefaults None (member 1 ''ann'' 9))"
  proof -
    have "trim ''ann'' \<noteq> []" by code_simp
    then show ?thesis
      using shown_quota_sign [of None 9]
      by (simp add: accepted_form_def userFormSchema_def transformUserToFormDefaults_def member_def trimmed_text_def)
  qed
  note late = late_user_answers [OF s]
  have "userAnswered None 0 (Got (member 1 ''ann'' 5)) ?dr = ?dr\<lparr>settled := [0]\<rparr>" using late p by metis
  moreover have "userRequest (reloadAnswered None 0 (Got (member 1 ''ann'' 9)) ?dr)
      = Some (updateUser (userPayload (transformUserToFormDefaults None (member 1 ''ann'' 9)) (Some 2)) 2)"
    using late q f by blast
  ultimately show ?thesis using s q(1) by blast
qed

subsection \<open>What is typed while the page renders\<close>

lemma inputs_keep:
  "sheet (fold (userInput r) xs dr) = sheet dr" "live (fold (userInput r) xs dr) = live dr"
  "fetches (fold (userInput r) xs dr) = fetches dr" "settled (fold (userInput r) xs dr) = settled dr"
  "reloads (fold (userInput r) xs dr) = reloads dr" "reloaded (fold (userInput r) xs dr) = reloaded dr"
  by (induction xs arbitrary: dr) (simp_all add: input_keeps)

lemma enter_steps:
  assumes "sheet dr \<noteq> NoSheet"
  shows "user_steps cfg r dr (map EnterUser xs @ evs) dr2 \<longleftrightarrow> user_steps cfg r (fold (userInput r) xs dr) evs dr2"
  using assms
proof (induction xs arbitrary: dr)
  case (Cons x xs)
  then show ?case by (simp add: user_steps_simps user_possible_def user_event_def input_keeps)
qed simp

text \<open>The numbers a run has settled belong to fetches and reloads that were sent.\<close>

definition numbered :: "UserDrawer \<Rightarrow> bool" where
  "numbered dr \<longleftrightarrow> (\<forall>p \<in> set (settled dr). p < length (fetches dr)) \<and> (\<forall>p \<in> set (reloaded dr). p < length (reloads dr))"

lemma numbered_effect: "numbered dr \<Longrightarrow> numbered (run_effect dr)"
  by (auto simp: numbered_def run_effect_def reset_form_def Let_def less_Suc_eq split: Sheet.splits)

lemma numbered_same:
  "settled dr2 = settled dr \<Longrightarrow> fetches dr2 = fetches dr \<Longrightarrow> reloaded dr2 = reloaded dr \<Longrightarrow> reloads dr2 = reloads dr \<Longrightarrow>
     numbered dr \<Longrightarrow> numbered dr2"
  by (simp add: numbered_def)

lemma numbered_event:
  assumes "numbered dr" "user_possible dr ev"
  shows "numbered (user_event cfg r ev dr)"
proof (cases ev)
  case (UserAnswer p reply)
  then have n: "numbered (dr\<lparr>settled := p # settled dr\<rparr>)" using assms by (simp add: numbered_def user_possible_def)
  show ?thesis
    by (cases reply; cases "live dr = Some p")
      (auto simp: UserAnswer user_event_def userAnswered_def load_failed_def showSheet_def reset_form_def Let_def
        intro!: numbered_effect intro: numbered_same [OF _ _ _ _ n])
next
  case (ReloadAnswer p reply)
  then have n: "numbered (dr\<lparr>reloaded := p # reloaded dr\<rparr>)" using assms by (simp add: numbered_def user_possible_def)
  show ?thesis
    by (cases reply) (auto simp: ReloadAnswer user_event_def reloadAnswered_def refill_def reset_form_def Let_def
        intro!: numbered_effect intro: numbered_same [OF _ _ _ _ n])
next
  case (QuotaAdjusted i)
  then show ?thesis using assms(1) by (auto simp: user_event_def quotaAdjusted_def numbered_def)
qed (auto simp: user_event_def showSheet_def dismissUser_def input_keeps intro!: numbered_effect intro: numbered_same [OF _ _ _ _ assms(1)])

lemma numbered_steps: "user_steps cfg r dr evs dr2 \<Longrightarrow> numbered dr \<Longrightarrow> numbered dr2"
  by (induction rule: user_steps.induct) (auto simp: numbered_event)

text \<open>
  C22: Adjusting the quota of the user shown discards what was typed before, and also what is typed until the
  second answer: the reload resets the form and renders the page, which makes the effect load the user again and reset the form once more.
\<close>
theorem typed_text_lost_on_adjust:
  assumes "user_steps cfg r closedUsers evs dr" "sheet dr = EditUser row" "userId u1 = userId row" "userId u2 = userId row"
  shows "\<exists>dr2. user_steps cfg r dr
      (map EnterUser xs @ [QuotaAdjusted (userId row), ReloadAnswer (length (reloads dr)) (Got u1)] @
       map EnterUser ys @ [UserAnswer (length (fetches dr)) (Got u2)]) dr2 \<and>
    sheet dr2 = EditUser row \<and> uValues dr2 = transformUserToFormDefaults cfg u2"
proof -
  have sh: "shown_row dr = Some (userId row)" by (simp add: shown_row_def assms(2))
  have inv: "live_shown dr" "numbered dr"
    using live_steps [OF assms(1) live_closed] numbered_steps [OF assms(1)] by (simp_all add: numbered_def closedUsers_def)
  let ?d1 = "fold (userInput r) xs dr"
  let ?d2 = "quotaAdjusted (userId row) ?d1"
  let ?d3 = "reloadAnswered cfg (length (reloads dr)) (Got u1) ?d2"
  let ?d4 = "fold (userInput r) ys ?d3"
  let ?d5 = "userAnswered cfg (length (fetches dr)) (Got u2) ?d4"
  have d2: "sheet ?d2 = EditUser row" "fetches ?d2 = fetches dr" "settled ?d2 = settled dr" "reloads ?d2 = reloads dr @ [userId row]"
    "reloaded ?d2 = reloaded dr"
    by (simp_all add: quotaAdjusted_def inputs_keep assms(2))
  have d3: "sheet ?d3 = EditUser row" "fetches ?d3 = fetches dr @ [userId row]" "settled ?d3 = settled dr" "live ?d3 = Some (length (fetches dr))"
    using d2 by (simp_all add: reloadAnswered_def refill_def reset_form_def run_effect_def Let_def)
  have new: "length (fetches dr) \<notin> set (settled dr)" "length (reloads dr) \<notin> set (reloaded dr)"
    using inv(2) by (auto simp: numbered_def)
  have "user_possible ?d1 (QuotaAdjusted (userId row))"
    using shown_fetched [OF inv(1) sh] by (simp add: user_possible_def inputs_keep)
  moreover have "user_possible ?d2 (ReloadAnswer (length (reloads dr)) (Got u1))"
    using d2 new assms(3) by (simp add: user_possible_def reply_for_def)
  moreover have "user_possible ?d4 (UserAnswer (length (fetches dr)) (Got u2))"
    using d3 new assms(4) by (simp add: user_possible_def reply_for_def inputs_keep)
  ultimately have "user_steps cfg r dr
      (map EnterUser xs @ [QuotaAdjusted (userId row), ReloadAnswer (length (reloads dr)) (Got u1)] @
       map EnterUser ys @ [UserAnswer (length (fetches dr)) (Got u2)]) ?d5"
    using d2(1) d3(1) assms(2) by (simp add: enter_steps user_steps_simps user_event_def)
  moreover have "sheet ?d5 = EditUser row" "uValues ?d5 = transformUserToFormDefaults cfg u2"
    using d3 by (simp_all add: userAnswered_def reset_form_def inputs_keep Let_def)
  ultimately show ?thesis by blast
qed

lemma typed_text_lost_on_adjust_witness:
  "\<exists>dr. user_steps None 100 (showSheet (EditUser (member 1 ''ann'' 5)) closedUsers)
      [EnterUser (TypeRemark ''vip''), QuotaAdjusted 1, ReloadAnswer 0 (Got (member 1 ''ann'' 9)),
       EnterUser (TypeDisplay ''Ann''), UserAnswer 1 (Got (member 1 ''ann'' 9))] dr \<and>
     vDisplay (uValues dr) = Some ''ann'' \<and> vRemark (uValues dr) = Some ''''"
proof -
  let ?d = "showSheet (EditUser (member 1 ''ann'' 5)) closedUsers"
  note defs = showSheet_def run_effect_def closedUsers_def member_def Let_def
  have "user_steps None 100 closedUsers [ShowSheet (EditUser (member 1 ''ann'' 5))] ?d"
    by (simp add: user_steps_simps user_possible_def user_event_def closedUsers_def)
  from typed_text_lost_on_adjust [OF this, of "member 1 ''ann'' 5" "member 1 ''ann'' 9" "member 1 ''ann'' 9" "[TypeRemark ''vip'']"
      "[TypeDisplay ''Ann'']"]
  show ?thesis by (auto simp: defs transformUserToFormDefaults_def text_or_else_def)
qed

text \<open>The same for anything that renders the page; a form that creates a user is emptied at once.\<close>

lemma typed_text_lost_on_render:
  assumes "sheet dr = NewUser"
  shows "uValues (run_effect (fold (userInput r) xs dr)) = USER_FORM_DEFAULT_VALUES"
  using assms by (simp add: run_effect_def reset_form_def inputs_keep Let_def)

subsection \<open>What a submit sends\<close>

lemma debt_kept: "vQuota (uValues (fold (userInput r) xs dr)) = vQuota (uValues dr)"
proof (induction xs arbitrary: dr)
  case (Cons x xs)
  have "vQuota (uValues (userInput r x dr)) = vQuota (uValues dr)" by (cases x) (simp_all add: userInput_def Let_def)
  with Cons show ?case by simp
qed simp

text \<open>
  A user whose quota is negative cannot be saved: whatever is entered, the form is refused because of the
  quota, which is shown read-only and not part of what a submit sends.
\<close>
theorem user_in_debt_not_saved:
  assumes "live dr = Some p" "userQuota u < 0"
  shows "userRequest (fold (userInput r) xs (userAnswered cfg p (Got u) dr)) = None"
proof -
  have "vQuota (uValues (userAnswered cfg p (Got u) dr)) = Some (quotaUnitsToDollars cfg (of_int (userQuota u)))"
    using assms(1) by (simp add: userAnswered_def reset_form_def transformUserToFormDefaults_def Let_def)
  then show ?thesis
    using quota_sign [OF assms(2), of cfg] by (simp add: userRequest_def accepted_form_def userFormSchema_def debt_kept)
qed

lemma user_in_debt_not_saved_witness:
  "userRequest (fold (userInput 100) [TypeRemark ''paid'', PickGroup ''vip'']
     (userAnswered None 0 (Got (member 3 ''eve'' (-25))) (showSheet (EditUser (member 3 ''eve'' (-25))) closedUsers))) = None"
  by (rule user_in_debt_not_saved) (simp_all add: showSheet_def run_effect_def closedUsers_def member_def Let_def)

text \<open>What the user says, in the form of a payload of an update.\<close>

definition user_data :: "User \<Rightarrow> UserFormData" where
  "user_data u =
     \<lparr>udUsername = username u, udDisplay = display_name u, udPassword = None, udRole = None,
      udGroup = Some (userGroup u), udRemark = or_undefined (userRemark u)\<rparr>"

lemma unchanged_user_exact:
  "userPayload (transformUserToFormDefaults cfg u) (Some i) = user_data u \<longleftrightarrow>
     trim (username u) = username u \<and>
     (if trim (display_name u) = [] then display_name u = trim (username u) else trim (display_name u) = display_name u) \<and>
     userGroup u \<noteq> []"
  by (auto simp: userPayload_def transformUserToFormDefaults_def user_data_def trimmed_text_def or_undefined_def
      text_or_else_def USER_DEFAULT_GROUP_def Let_def split: option.splits)

subsection \<open>Adjusting a quota (components/user-quota-dialog.tsx)\<close>

text \<open>
  \<open>qSent\<close> logs the requests, \<open>qLoading\<close> is the flag that disables the button. The key Enter in the field calls
  \<open>handleConfirm\<close> as well.
\<close>

record QuotaDialog =
  qUser :: int
  qMode :: QuotaAdjustMode
  qAmount :: string
  qLoading :: bool
  qSent :: "Request list"

definition openQuota :: "int \<Rightarrow> QuotaDialog" where
  "openQuota i = \<lparr>qUser = i, qMode = Add, qAmount = [], qLoading = False, qSent = []\<rparr>"

definition chooseMode :: "QuotaAdjustMode \<Rightarrow> QuotaDialog \<Rightarrow> QuotaDialog" where
  "chooseMode m q = q\<lparr>qMode := m, qAmount := []\<rparr>"

definition typeAmount :: "string \<Rightarrow> QuotaDialog \<Rightarrow> QuotaDialog" where
  "typeAmount s q = q\<lparr>qAmount := s\<rparr>"

definition cancelQuota :: "QuotaDialog \<Rightarrow> QuotaDialog" where
  "cancelQuota q = q\<lparr>qAmount := [], qMode := Add\<rparr>"

text \<open>\<open>parseFloat(amount) || 0\<close>; a number field never holds an infinite number.\<close>

definition amountValue :: "string \<Rightarrow> rat" where
  "amountValue s =
     (case parseFloat s of
        Finite x \<Rightarrow>
          if 0 \<le> expo x then of_int (mant x * 10 ^ nat (expo x)) else of_int (mant x) / of_int (10 ^ nat (- expo x))
      | _ \<Rightarrow> 0)"

definition quotaValue :: "CurrencyConfig option \<Rightarrow> string \<Rightarrow> int" where
  "quotaValue cfg s = parseQuotaFromDollars cfg \<bar>amountValue s\<bar>"

definition handleConfirm :: "CurrencyConfig option \<Rightarrow> QuotaDialog \<Rightarrow> QuotaDialog" where
  "handleConfirm cfg q =
     (if qAmount q = [] \<and> qMode q \<noteq> Override then q
      else if quotaValue cfg (qAmount q) \<le> 0 \<and> qMode q \<noteq> Override then q
      else let v = (if qMode q = Override then parseQuotaFromDollars cfg (amountValue (qAmount q)) else quotaValue cfg (qAmount q))
           in q\<lparr>qLoading := True,
                qSent := qSent q @ [adjustUserQuota (qUser q) (qMode q) (if qMode q = Override then v else \<bar>v\<bar>)]\<rparr>)"

definition confirmAnswered :: "bool \<Rightarrow> QuotaDialog \<Rightarrow> QuotaDialog" where
  "confirmAnswered accepted_answer q =
     (if accepted_answer then q\<lparr>qAmount := [], qMode := Add, qLoading := False\<rparr> else q\<lparr>qLoading := False\<rparr>)"

definition clickConfirm :: "CurrencyConfig option \<Rightarrow> QuotaDialog \<Rightarrow> QuotaDialog" where
  "clickConfirm cfg q = (if qLoading q then q else handleConfirm cfg q)"

text \<open>
  C26: For an amount worth a positive number of units, the confirm button sends one adjustment however often it is
  clicked before the answer, while every press of Enter sends another one, so that the quota is added again.
\<close>
theorem enter_adjusts_again:
  assumes "qMode q \<noteq> Override" "0 < quotaValue cfg (qAmount q)" "\<not> qLoading q"
  shows "qSent ((clickConfirm cfg ^^ Suc n) q) = qSent q @ [adjustUserQuota (qUser q) (qMode q) (quotaValue cfg (qAmount q))] \<and>
     qSent ((handleConfirm cfg ^^ n) q) = qSent q @ replicate n (adjustUserQuota (qUser q) (qMode q) (quotaValue cfg (qAmount q)))"
proof -
  let ?r = "adjustUserQuota (qUser q) (qMode q) (quotaValue cfg (qAmount q))"
  have "quotaUnitsToDollars cfg 0 = 0"
    by (simp add: quotaUnitsToDollars_def Let_def split: prod.splits DisplayMeta.splits)
  moreover have "parseFloat [] = NaN" by code_simp
  ultimately have "quotaValue cfg [] = 0"
    using units_roundtrip [of cfg 0] by (simp add: quotaValue_def amountValue_def)
  then have a: "qAmount q \<noteq> []" using assms(2) by auto
  have one: "handleConfirm cfg q' = q'\<lparr>qLoading := True, qSent := qSent q' @ [?r]\<rparr>"
    if "qMode q' = qMode q" "qAmount q' = qAmount q" "qUser q' = qUser q" for q'
    using that a assms by (simp add: handleConfirm_def Let_def)
  have many: "(handleConfirm cfg ^^ m) q = q\<lparr>qLoading := (qLoading q \<or> 0 < m), qSent := qSent q @ replicate m ?r\<rparr>" for m
    by (induction m) (simp_all add: one replicate_append_same)
  have clicks: "(clickConfirm cfg ^^ Suc m) q = handleConfirm cfg q" for m
    by (induction m) (use assms(3) one [of q] in \<open>simp_all add: clickConfirm_def\<close>)
  show ?thesis using many [of n] clicks [of n] one [of q] by simp
qed

lemma enter_adjusts_again_witness:
  "qSent ((handleConfirm None ^^ 2) (typeAmount ''2'' (openQuota 7))) =
     [adjustUserQuota 7 Add 1000000, adjustUserQuota 7 Add 1000000]"
proof -
  have "parseFloat ''2'' = Finite (Dec 2 0)" by code_simp
  then have v: "quotaValue None ''2'' = 1000000"
    by (simp add: quotaValue_def amountValue_def parseQuotaFromDollars_def getCurrencyDisplay_def getConfig_def
        DEFAULT_CURRENCY_CONFIG_def getDisplayMeta_def exchange_rate_def positive_or_def js_round_of_int [of 1000000, simplified] Let_def)
  have "qMode (typeAmount ''2'' (openQuota 7)) \<noteq> Override" "0 < quotaValue None (qAmount (typeAmount ''2'' (openQuota 7)))"
    "\<not> qLoading (typeAmount ''2'' (openQuota 7))"
    by (simp_all add: typeAmount_def openQuota_def v)
  from conjunct2 [OF enter_adjusts_again [OF this, of 2]]
  show ?thesis by (simp add: typeAmount_def openQuota_def v numeral_2_eq_2)
qed

text \<open>
  What an amount adds up to: the amount shown for \<open>u\<close> units is \<open>u\<close> units again. Overriding does not ask for an
  amount: an empty field sets the quota to zero.
\<close>

lemma override_without_amount: "qMode q = Override \<Longrightarrow> qAmount q = [] \<Longrightarrow>
    qSent (handleConfirm cfg q) = qSent q @ [adjustUserQuota (qUser q) Override 0]"
proof -
  have "quotaUnitsToDollars cfg 0 = 0"
    by (simp add: quotaUnitsToDollars_def Let_def split: prod.splits DisplayMeta.splits)
  moreover have "parseFloat [] = NaN" by code_simp
  ultimately show "qMode q = Override \<Longrightarrow> qAmount q = [] \<Longrightarrow> ?thesis"
    using units_roundtrip [of cfg 0] by (simp add: handleConfirm_def amountValue_def)
qed

subsection \<open>The actions of a row (components/data-table-row-actions.tsx, users-delete-dialog.tsx)\<close>

text \<open>The menu for a user: each entry that is shown, and whether it is enabled. The last entry deletes.\<close>

datatype RowEntry = Manage ManageUserAction | Bindings | ResetPasskey | ResetTwoFA | DeleteEntry

definition canManage :: "int \<Rightarrow> User \<Rightarrow> bool" where
  "canManage actorRole u \<longleftrightarrow> actorRole = ROLE_ROOT \<or> userRole u < actorRole"

definition canDelete :: "int \<Rightarrow> User \<Rightarrow> bool" where
  "canDelete actorRole u \<longleftrightarrow> userRole u < actorRole"

definition row_menu :: "int \<Rightarrow> User \<Rightarrow> (RowEntry \<times> bool) list" where
  "row_menu actorRole u =
     (let isAdmin = (ROLE_ADMIN \<le> userRole u); isRoot = (userRole u = ROLE_ROOT); m = canManage actorRole u
      in if isUserDeleted u then []
         else (if userStatus u = USER_DISABLED then [(Manage EnableUser, m)] else [(Manage DisableUser, m \<and> \<not> isRoot)]) @
              (if isAdmin \<and> \<not> isRoot then [(Manage Demote, m)] else []) @
              (if \<not> isAdmin then [(Manage Promote, m)] else []) @
              [(Bindings, m), (ResetPasskey, m \<and> \<not> isRoot), (ResetTwoFA, m \<and> \<not> isRoot),
               (DeleteEntry, canDelete actorRole u \<and> \<not> isRoot)])"

definition getUserActionMessage :: "ManageUserAction \<Rightarrow> string" where
  "getUserActionMessage a =
     (case a of EnableUser \<Rightarrow> ''User enabled successfully'' | DisableUser \<Rightarrow> ''User disabled successfully''
      | Promote \<Rightarrow> ''User promoted to admin successfully'' | Demote \<Rightarrow> ''User demoted to regular user successfully'')"

definition handleManage :: "net \<Rightarrow> User \<Rightarrow> ManageUserAction \<Rightarrow> App \<Rightarrow> App \<times> bool" where
  "handleManage net u a app =
     saved_result (request net (manageUser (userId u) a) app) (Tr (getUserActionMessage a) [])
       (Tr ''Failed to {{action}} user'' [(''action'', JStr (action_name a))])"

definition handleResetPasskey :: "net \<Rightarrow> User \<Rightarrow> App \<Rightarrow> App \<times> bool" where
  "handleResetPasskey net u app =
     saved_result (request net (resetUserPasskey (userId u)) app) (Tr ''Passkey reset successfully'' [])
       (Tr ''Failed to reset Passkey'' [])"

definition handleResetTwoFA :: "net \<Rightarrow> User \<Rightarrow> App \<Rightarrow> App \<times> bool" where
  "handleResetTwoFA net u app =
     saved_result (request net (resetUserTwoFA (userId u)) app) (Tr ''Two-factor authentication reset'' [])
       (Tr ''Failed to reset 2FA'' [])"

definition removeUser :: "net \<Rightarrow> User option \<Rightarrow> App \<Rightarrow> App \<times> bool" where
  "removeUser net currentRow app =
     (case currentRow of
        None \<Rightarrow> (app, False)
      | Some u \<Rightarrow> saved_result (request net (deleteUser (userId u)) app) (Tr ''User deleted successfully'' [])
                   (Tr ''Failed to delete user'' []))"

text \<open>
  What the menu enables is what the server grants: nothing on a user of the same or a higher role, except by
  root, and root itself is neither disabled, demoted, reset nor deleted.
\<close>

lemma menu_grants:
  "(e, True) \<in> set (row_menu actorRole u) \<Longrightarrow>
     \<not> isUserDeleted u \<and> (actorRole = ROLE_ROOT \<or> userRole u < actorRole) \<and>
     (userRole u = ROLE_ROOT \<longrightarrow> e = Bindings \<or> e = Manage EnableUser) \<and>
     (e = DeleteEntry \<longrightarrow> userRole u < actorRole)"
  by (auto simp: row_menu_def canManage_def canDelete_def ROLE_ROOT_def ROLE_ADMIN_def Let_def split: if_splits)

end
