(* ===== verification/BillingTiers.thy ===== *)
theory BillingTiers
  imports TierCost
begin

text \<open>
  The tiers that the catalogue and the logs show for a billing expression (\<open>parseTiersFromExpr\<close> of
  \<^verbatim>\<open>features/pricing/lib/billing-expr.ts\<close>): another reader than that of the visual editor, which takes every tier it finds
  and looks for prices anywhere in its body. The main results: for an expression of the editor it shows exactly the tiers that
  were entered, and for one written without spaces it shows wrong prices.
\<close>

subsection \<open>Reading the prices of a tier\<close>

text \<open>\<open>\w\<close>, for the word boundary in front of a variable, and the expression behind the boundary.\<close>

definition word_char :: "char \<Rightarrow> bool" where
  "word_char c \<longleftrightarrow> (let n = of_char c :: nat in 48 \<le> n \<and> n \<le> 57 \<or> 65 \<le> n \<and> n \<le> 90 \<or> n = 95 \<or> 97 \<le> n \<and> n \<le> 122)"

definition price_tail :: "string \<Rightarrow> (string \<times> string) rx" where
  "price_tail v =
     rx_bind rx_ws (\<lambda>_. rx_bind (rx_lit ''*'') (\<lambda>_. rx_bind rx_ws (\<lambda>_. rx_bind (rx_plus num_char) (\<lambda>n. rx_ret (v, n)))))"

definition BILLING_VAR_REGEX :: "(string \<times> string) rx" where
  "BILLING_VAR_REGEX = rx_bind (rx_words (map vkey BILLING_PRICING_VARS)) price_tail"

text \<open>
  The loop over \<open>exec\<close>. \<open>w\<close> tells whether the character before the position is a word character, where no variable
  starts: every variable begins with a letter.
\<close>

function all_prices :: "bool \<Rightarrow> string \<Rightarrow> (string \<times> string) list" where
  "all_prices w [] = []"
| "all_prices w (c # s) =
     (case (if w then [] else BILLING_VAR_REGEX (c # s)) of
        [] \<Rightarrow> all_prices (word_char c) s
      | ((v, n), r) # _ \<Rightarrow> if length r < length (c # s) then (v, n) # all_prices (word_char (last n)) r else [(v, n)])"
  by pat_completeness auto
termination
  by (relation "measure (length \<circ> snd)") auto

text \<open>The prices by field; the first one of a variable counts, and \<open>x || 0\<close> turns what is not a number into zero.\<close>

definition BILLING_VAR_KEY_TO_FIELD :: "(string \<times> string) list" where
  "BILLING_VAR_KEY_TO_FIELD = map (\<lambda>v. (vkey v, the (vfield v))) BILLING_PRICING_VARS"

definition parseTierBody :: "string \<Rightarrow> (string \<times> num) list" where
  "parseTierBody bodyStr =
     (let coeffs = map (\<lambda>(v, n). (v, js_Number n)) (all_prices False bodyStr)
      in map (\<lambda>(varName, field). (field, number_or_zero (map_of coeffs varName))) BILLING_VAR_KEY_TO_FIELD)"

subsection \<open>Reading the tiers\<close>

record ParsedTier =
  parsedLabel :: string
  parsedConditions :: "(CondVar \<times> CondOp \<times> cost) list"
  parsedPrices :: "(string \<times> num) list"

definition stripExprVersion :: "string \<Rightarrow> nat \<times> string" where
  "stripExprVersion exprStr =
     (case strip_prefix ''v'' exprStr of
        None \<Rightarrow> (1, exprStr)
      | Some r \<Rightarrow>
          (let (ds, q) = span_digits r
           in if ds = [] then (1, exprStr)
              else (case strip_prefix '':'' q of Some body \<Rightarrow> (read_nat ds, body) | None \<Rightarrow> (1, exprStr))))"

text \<open>\<open>(?:condGroup\s*\?\s*)?tier\("([^"]*)",\s*([^)]+)\)\<close>\<close>

definition listedRe :: "(string option \<times> string \<times> string) rx" where
  "listedRe =
     rx_bind (rx_opt (rx_bind condGroup (\<lambda>c. rx_bind rx_ws (\<lambda>_. rx_bind (rx_lit ''?'') (\<lambda>_. rx_bind rx_ws (\<lambda>_. rx_ret c)))))) (\<lambda>c.
       rx_bind (rx_lit (''tier('' @ [dquote])) (\<lambda>_. rx_bind (rx_star no_dquote) (\<lambda>l.
         rx_bind (rx_lit (dquote # '','')) (\<lambda>_. rx_bind rx_ws (\<lambda>_. rx_bind (rx_plus (\<lambda>d. d \<noteq> CHR '')'')) (\<lambda>b.
           rx_bind (rx_lit '')'') (\<lambda>_. rx_ret (c, l, b))))))))"

definition listed_conditions :: "string option \<Rightarrow> (CondVar \<times> CondOp \<times> cost) list" where
  "listed_conditions condStr =
     (case condStr of
        None \<Rightarrow> []
      | Some s \<Rightarrow>
          List.map_filter (\<lambda>cp. map_option (\<lambda>(v, p, n). (read_var v, read_op p, js_Number n)) (rx_full rx_cond (trim cp)))
            (split_and s))"

definition parseTiersFromExpr :: "string \<Rightarrow> ParsedTier list" where
  "parseTiersFromExpr exprStr =
     (if exprStr = [] then []
      else map (\<lambda>(c, l, b). \<lparr>parsedLabel = l, parsedConditions = listed_conditions c, parsedPrices = parseTierBody b\<rparr>)
             (rx_all listedRe (snd (stripExprVersion exprStr))))"

lemma strip_version: "snd (stripExprVersion s) = drop_version s"
  by (simp add: stripExprVersion_def drop_version_def Let_def split: option.splits prod.splits)

lemma conditions_same:
  "listed_conditions c = map (\<lambda>x. (cvar x, cop x, case cval x of CNum n \<Rightarrow> n | CStr _ \<Rightarrow> None)) (read_conditions c)"
proof -
  have "List.map_filter (\<lambda>cp. map_option (\<lambda>(v, p, n). (read_var v, read_op p, js_Number n)) (rx_full rx_cond (trim cp))) ws
      = map (\<lambda>x. (cvar x, cop x, case cval x of CNum n \<Rightarrow> n | CStr _ \<Rightarrow> None))
          (List.map_filter (\<lambda>cp. map_option (\<lambda>(v, p, n). \<lparr>cvar = read_var v, cop = read_op p, cval = CNum (js_Number n)\<rparr>)
            (rx_full rx_cond (trim cp))) ws)" for ws
    by (induction ws) (auto simp: List.map_filter_simps split: option.split)
  then show ?thesis by (simp add: listed_conditions_def read_conditions_def split: option.split)
qed

subsection \<open>The prices of a generated body\<close>

abbreviation price_vars :: "string list" where
  "price_vars \<equiv> map vkey BILLING_PRICING_VARS"

lemma price_vars_list: "price_vars = [''p'', ''c'', ''cr'', ''cc'', ''cc1h'', ''img'', ''img_o'', ''ai'', ''ao'']"
  by (simp add: BILLING_PRICING_VARS_def BILLING_VARS_def)

lemma price_tail_first: "ends r \<Longrightarrow> first_way (price_tail v) ('' * '' @ show_num x @ r) (v, show_num x) r"
proof -
  assume r: "ends r"
  have n: "first_way (rx_plus num_char) (show_num x @ r) (show_num x) r"
    using r by (intro plus_append) (auto simp: ends_def show_num_chars)
  have w: "first_way rx_ws (CHR '' '' # show_num x @ r) '' '' (show_num x @ r)"
    by (rule first_ws) (simp only: show_num_hd_ws simp_thms)
  have s: "first_way (rx_lit ''*'') (CHR ''*'' # CHR '' '' # show_num x @ r) ''*'' (CHR '' '' # show_num x @ r)"
    using first_lit [of "''*''"] by simp
  have w0: "first_way rx_ws ('' * '' @ show_num x @ r) '' '' (CHR ''*'' # CHR '' '' # show_num x @ r)"
    using first_ws [of "CHR ''*'' # CHR '' '' # show_num x @ r"] by simp
  show ?thesis unfolding price_tail_def
    by (rule first_bind [OF w0 first_bind [OF s first_bind [OF w first_bind [OF n first_ret]]]])
qed

lemma price_tail_none: "s = [] \<or> \<not> is_ws (hd s) \<and> hd s \<noteq> CHR ''*'' \<Longrightarrow> price_tail v s = []"
  by (cases s) (auto simp: price_tail_def rx_bind_def rx_lit_def star_here)

lemma price_here:
  assumes "v \<in> set price_vars" "ends r"
  shows "first_way BILLING_VAR_REGEX (v @ '' * '' @ show_num x @ r) (v, show_num x) r"
proof -
  obtain ws where t: "price_tail v ('' * '' @ show_num x @ r) = ((v, show_num x), r) # ws"
    using price_tail_first [OF assms(2)] by (auto simp: first_way_def)
  show ?thesis
    using assms(1) t unfolding price_vars_list BILLING_VAR_REGEX_def
    by (auto simp: first_way_def rx_bind_def rx_words_def rx_lit_def price_tail_none is_ws_def)
qed

lemma no_price_at: "c \<notin> {CHR ''p'', CHR ''c'', CHR ''i'', CHR ''a''} \<Longrightarrow> BILLING_VAR_REGEX (c # s) = []"
  unfolding BILLING_VAR_REGEX_def price_vars_list by (auto simp: rx_bind_def rx_words_def rx_lit_def)

lemma all_prices_plus: "all_prices w ('' + '' @ s) = all_prices False s"
  by (simp add: no_price_at word_char_def Let_def)

lemma all_prices_here:
  assumes "v \<in> set price_vars" "ends r"
  shows "all_prices False (v @ '' * '' @ show_num x @ r) = (v, show_num x) # all_prices (word_char (last (show_num x))) r"
proof -
  obtain ws where h: "BILLING_VAR_REGEX (v @ '' * '' @ show_num x @ r) = ((v, show_num x), r) # ws"
    using price_here [OF assms] by (auto simp: first_way_def)
  have "v \<noteq> []" using assms(1) unfolding price_vars_list by auto
  then obtain c s where v: "v @ '' * '' @ show_num x @ r = c # s" by (cases v) auto
  have "length r < length (c # s)" unfolding v [symmetric] by simp
  then show ?thesis using h unfolding v by (simp del: rx_star.simps)
qed

lemma all_prices_costs:
  assumes "set (map fst ps) \<subseteq> set price_vars"
  shows "all_prices w (cost_text ps) = map (\<lambda>(v, n). (v, show_num n)) (filter (\<lambda>(v, n). n \<noteq> zero_num) ps)"
  using assms
proof (induction ps arbitrary: w)
  case (Cons p ps)
  obtain v n where p: "p = (v, n)" by force
  have e: "ends (cost_text ps)" using cost_text_ends [of ps "[]"] by (cases "cost_text ps") (auto simp: ends_def)
  show ?case
  proof (cases "n = zero_num")
    case False
    then have "cost_text (p # ps) = '' + '' @ v @ '' * '' @ show_num n @ cost_text ps" by (simp add: p part_text_def)
    then have "all_prices w (cost_text (p # ps)) = (v, show_num n) # all_prices (word_char (last (show_num n))) (cost_text ps)"
      using all_prices_here [of v "cost_text ps" n] e Cons.prems p by (simp only: all_prices_plus) simp
    then show ?thesis using Cons.IH Cons.prems p False by simp
  qed (use Cons p in simp)
qed simp

text \<open>The prices of a tier as they are shown, by field.\<close>

definition tier_prices :: "VisualTier \<Rightarrow> (string \<times> num) list" where
  "tier_prices t =
     map (\<lambda>v. (the (vfield v),
        if vkey v = ''p'' then number_or_zero (input_unit_cost t)
        else if vkey v = ''c'' then number_or_zero (output_unit_cost t)
        else number_or_zero (oget (costs t) (the (tierField v))))) BILLING_PRICING_VARS"

lemma all_prices_body:
  "all_prices False (buildTierBodyExpr t) =
     (''p'', show_num (number_or_zero (input_unit_cost t))) # (''c'', show_num (number_or_zero (output_unit_cost t))) #
     map (\<lambda>(v, n). (v, show_num n)) (filter (\<lambda>(v, n). n \<noteq> zero_num) (tier_costs t))"
proof -
  define a b where "a = number_or_zero (input_unit_cost t)" and "b = number_or_zero (output_unit_cost t)"
  have e: "ends (cost_text (tier_costs t))" using cost_text_ends [of "tier_costs t" "[]"] by (cases "cost_text (tier_costs t)") (auto simp: ends_def)
  have k: "set (map fst (tier_costs t)) \<subseteq> set price_vars"
    unfolding tier_cost_names price_vars_list
    by (simp add: cacheVarNames_def BILLING_CACHE_VAR_MAP_def BILLING_EXTRA_VARS_def BILLING_VARS_def)
  have h: "buildTierBodyExpr t = ''p'' @ '' * '' @ show_num a @ '' + '' @ ''c'' @ '' * '' @ show_num b @ cost_text (tier_costs t)"
    by (simp add: body_text a_def b_def)
  have 1: "all_prices False (''p'' @ '' * '' @ show_num a @ '' + '' @ s) = (''p'', show_num a) # all_prices False s" for s
    using all_prices_here [of "''p''" "'' + '' @ s" a] all_prices_plus [of _ s] by (simp add: price_vars_list ends_def)
  have 2: "all_prices False (''c'' @ '' * '' @ show_num b @ cost_text (tier_costs t)) =
      (''c'', show_num b) # all_prices (word_char (last (show_num b))) (cost_text (tier_costs t))"
    by (rule all_prices_here [OF _ e]) (simp add: price_vars_list)
  show ?thesis unfolding h 1 2 all_prices_costs [OF k] by (simp add: a_def b_def)
qed

lemma map_of_nonzero:
  assumes "distinct (map fst ps)" "(v, n) \<in> set ps" "wf_num n"
  shows "number_or_zero (map_of (map (\<lambda>(v, n). (v, js_Number n)) (map (\<lambda>(v, n). (v, show_num n)) (filter (\<lambda>(v, n). n \<noteq> zero_num) ps))) v) = n"
  using assms
proof (induction ps)
  case (Cons p ps)
  obtain u m where p: "p = (u, m)" by force
  show ?case
  proof (cases "u = v")
    case True
    then have m: "m = n" "v \<notin> fst ` set ps" using Cons.prems p by (auto simp: image_iff)
    have "map_of (map (\<lambda>(v, n). (v, js_Number n)) (map (\<lambda>(v, n). (v, show_num n)) (filter (\<lambda>(v, n). n \<noteq> zero_num) ps))) v = None"
      using m(2) by (auto simp: map_of_eq_None_iff image_iff)
    then show ?thesis using p True m Cons.prems(3) by (simp add: number_or_zero_def)
  next
    case False
    then show ?thesis using Cons p by auto
  qed
qed simp

lemma distinct_vars: "distinct price_vars" "distinct (map vkey BILLING_EXTRA_VARS)" "''p'' \<notin> vkey ` set BILLING_EXTRA_VARS" "''c'' \<notin> vkey ` set BILLING_EXTRA_VARS"
  by (simp_all add: BILLING_PRICING_VARS_def BILLING_EXTRA_VARS_def BILLING_VARS_def)

lemma pricing_vars: "BILLING_PRICING_VARS = [BILLING_VARS ! 0, BILLING_VARS ! 1] @ BILLING_EXTRA_VARS"
  "vkey (BILLING_VARS ! 0) = ''p''" "vkey (BILLING_VARS ! 1) = ''c''"
  by (simp_all add: BILLING_PRICING_VARS_def BILLING_EXTRA_VARS_def BILLING_VARS_def)

lemma extra_fields: "v \<in> set BILLING_EXTRA_VARS \<Longrightarrow> \<exists>f \<in> set COST_FIELDS. tierField v = Some f"
  by (auto simp: BILLING_EXTRA_VARS_def BILLING_VARS_def COST_FIELDS_def)

lemma body_prices:
  assumes "wf_tier t"
  shows "parseTierBody (buildTierBodyExpr t) = tier_prices t"
proof -
  let ?f = "\<lambda>ps. map (\<lambda>(v, n). (v, js_Number n)) (map (\<lambda>(v, n). (v, show_num n)) (filter (\<lambda>(v, n). n \<noteq> zero_num) ps))"
  have wf: "wf_num (number_or_zero (input_unit_cost t))" "wf_num (number_or_zero (output_unit_cost t))"
    "\<And>f. f \<in> set COST_FIELDS \<Longrightarrow> wf_num (number_or_zero (oget (costs t) f))"
    using assms by (auto simp: wf_tier_def)
  have tc: "tier_costs t = map (\<lambda>v. (vkey v, number_or_zero (oget (costs t) (the (tierField v))))) BILLING_EXTRA_VARS"
    using extra_fields by (force simp: tier_costs_def BILLING_CACHE_VAR_MAP_def)
  have d: "distinct (map fst (tier_costs t))" unfolding tc using distinct_vars(2) by (simp add: comp_def)
  have extra: "number_or_zero (map_of (?f (tier_costs t)) (vkey v)) = number_or_zero (oget (costs t) (the (tierField v)))"
    if v: "v \<in> set BILLING_EXTRA_VARS" for v
  proof (rule map_of_nonzero [OF d])
    show "(vkey v, number_or_zero (oget (costs t) (the (tierField v)))) \<in> set (tier_costs t)" unfolding tc using v by auto
    show "wf_num (number_or_zero (oget (costs t) (the (tierField v))))" using extra_fields [OF v] wf(3) by force
  qed
  have ne: "vkey v \<noteq> ''p'' \<and> vkey v \<noteq> ''c''" if "v \<in> set BILLING_EXTRA_VARS" for v
    using distinct_vars(3,4) that by (metis image_eqI)
  show ?thesis
    unfolding parseTierBody_def all_prices_body Let_def BILLING_VAR_KEY_TO_FIELD_def tier_prices_def pricing_vars(1)
    using wf(1,2) extra ne pricing_vars(2,3) by (auto simp: number_or_zero_def)
qed

subsection \<open>The tiers of a generated expression\<close>

lemma body_no_paren: "CHR '')'' \<notin> set (buildTierBodyExpr t)"
proof -
  have n: "CHR '')'' \<notin> set (show_num x)" for x using show_num_chars num_char_spaces(2) by blast
  have m: "CHR '')'' \<notin> set (cost_text ps)" if "set (map fst ps) \<subseteq> set price_vars" for ps
    using that
  proof (induction ps)
    case (Cons p ps)
    have "CHR '')'' \<notin> set (fst p)" using Cons.prems unfolding price_vars_list by auto
    then show ?case using Cons n by (simp add: part_text_def)
  qed simp
  have "set (map fst (tier_costs t)) \<subseteq> set price_vars"
    unfolding tier_cost_names price_vars_list
    by (simp add: cacheVarNames_def BILLING_CACHE_VAR_MAP_def BILLING_EXTRA_VARS_def BILLING_VARS_def)
  then show ?thesis using n m [of "tier_costs t"] by (auto simp: body_text)
qed

definition listed_tail :: "string option \<Rightarrow> (string option \<times> string \<times> string) rx" where
  "listed_tail c =
     rx_bind (rx_lit (''tier('' @ [dquote])) (\<lambda>_. rx_bind (rx_star no_dquote) (\<lambda>l.
       rx_bind (rx_lit (dquote # '','')) (\<lambda>_. rx_bind rx_ws (\<lambda>_. rx_bind (rx_plus (\<lambda>d. d \<noteq> CHR '')'')) (\<lambda>b.
         rx_bind (rx_lit '')'') (\<lambda>_. rx_ret (c, l, b)))))))"

lemma listed_parts: "listedRe = rx_bind (rx_opt cond_prefix) listed_tail"
  by (simp add: listedRe_def cond_prefix_def listed_tail_def [abs_def])

lemma first_listed_tail:
  assumes "dquote \<notin> set l"
  shows "first_way (listed_tail c) (tier_text l t @ r) (c, l, buildTierBodyExpr t) r"
proof -
  define body where "body = buildTierBodyExpr t @ CHR '')'' # r"
  have h: "tier_text l t @ r = (''tier('' @ [dquote]) @ l @ (dquote # '','') @ CHR '' '' # body"
    by (simp add: tier_text_def body_def)
  have 1: "first_way (rx_lit (''tier('' @ [dquote])) ((''tier('' @ [dquote]) @ l @ (dquote # '','') @ CHR '' '' # body)
      (''tier('' @ [dquote]) (l @ (dquote # '','') @ CHR '' '' # body)" by (rule first_lit)
  have 2: "first_way (rx_star no_dquote) (l @ (dquote # '','') @ CHR '' '' # body) l ((dquote # '','') @ CHR '' '' # body)"
    using assms by (intro star_append) (auto simp: no_dquote_def)
  have 3: "first_way (rx_lit (dquote # '','')) ((dquote # '','') @ CHR '' '' # body) (dquote # '','') (CHR '' '' # body)" by (rule first_lit)
  have 4: "first_way rx_ws (CHR '' '' # body) '' '' body" by (rule first_ws) (simp add: body_def body_text)
  have 5: "first_way (rx_plus (\<lambda>d. d \<noteq> CHR '')'')) body (buildTierBodyExpr t) (CHR '')'' # r)"
    unfolding body_def using body_no_paren [of t] by (intro plus_append) (auto simp: body_text)
  have 6: "first_way (rx_lit '')'') (CHR '')'' # r) '')'' r" using first_lit [of "'')''" r] by simp
  show ?thesis unfolding h listed_tail_def
    by (rule first_bind, rule 1, rule first_bind, rule 2, rule first_bind, rule 3, rule first_bind, rule 4, rule first_bind, rule 5,
        rule first_bind, rule 6, rule first_ret)
qed

definition listed_match :: "TierConditionInput list \<times> string \<times> VisualTier \<Rightarrow> string option \<times> string \<times> string" where
  "listed_match p = ((if fst p = [] then None else Some (conds_text (fst p))), fst (snd p), buildTierBodyExpr (snd (snd p)))"

lemma first_listed:
  assumes "ok_part p"
  shows "first_way listedRe (part_expr p @ r) (listed_match p) r"
proof (cases "fst p = []")
  case True
  have 1: "first_way (rx_opt cond_prefix) (tier_text (fst (snd p)) (snd (snd p)) @ r) None (tier_text (fst (snd p)) (snd (snd p)) @ r)"
    unfolding tier_text_hd by (rule first_opt_none [OF no_cond_prefix_t])
  show ?thesis using True assms unfolding listed_parts part_expr_def guarded_tier_text_def listed_match_def ok_part_def
    by (simp, intro first_bind [OF 1] first_listed_tail) blast
next
  case False
  have 1: "first_way cond_prefix (conds_text (fst p) @ '' ? '' @ tier_text (fst (snd p)) (snd (snd p)) @ r) (conds_text (fst p))
      (tier_text (fst (snd p)) (snd (snd p)) @ r)"
    using False assms by (intro first_cond_prefix) (simp_all add: tier_text_def ok_part_def)
  have h: "part_expr p @ r = conds_text (fst p) @ '' ? '' @ tier_text (fst (snd p)) (snd (snd p)) @ r"
    using False by (simp add: part_expr_def guarded_tier_text_def)
  show ?thesis unfolding h listed_parts listed_match_def using False assms
    by (simp only: if_False, intro first_bind [OF first_opt [OF 1]] first_listed_tail) (simp add: ok_part_def)
qed

lemma part_longer: "length r < length (part_expr p @ r)"
  by (simp add: part_expr_def guarded_tier_text_def tier_text_def)

lemma no_listed_at: "c \<notin> {CHR ''p'', CHR ''c'', CHR ''l'', CHR ''t''} \<Longrightarrow> no_way listedRe (c # s)"
proof -
  assume c: "c \<notin> {CHR ''p'', CHR ''c'', CHR ''l'', CHR ''t''}"
  have "no_way rx_cond (c # s)" unfolding rx_cond_def
    by (rule no_bind_none) (use c in \<open>auto simp: no_way_def rx_words_def rx_lit_def\<close>)
  then have "no_way cond_prefix (c # s)" unfolding cond_prefix_def condGroup_def by (intro no_bind_none no_text)
  moreover have "no_way (listed_tail d) (c # s)" for d unfolding listed_tail_def
    by (intro no_bind_none no_lit) (use c in auto)
  ultimately show ?thesis by (simp add: listed_parts no_way_def rx_bind_def rx_opt_def)
qed

text \<open>The space, colon and space between two tiers are skipped.\<close>

lemma listed_after_colon:
  assumes "first_way listedRe s x r" "length r < length s"
  shows "rx_all listedRe ('' : '' @ s) = rx_all listedRe s"
proof -
  have e: "rx_exec listedRe s = Some (x, r)" by (rule exec_here [OF assms(1)])
  have e1: "rx_exec listedRe (CHR '' '' # s) = Some (x, r)" using exec_skip [OF no_listed_at] e by simp
  have e2: "rx_exec listedRe (CHR '':'' # CHR '' '' # s) = Some (x, r)" using exec_skip [OF no_listed_at [of "CHR '':''"]] e1 by simp
  have 1: "rx_all listedRe (CHR '' '' # s) = rx_all listedRe s" using e assms(2) by (intro all_skip no_listed_at) auto
  have 2: "rx_all listedRe (CHR '':'' # CHR '' '' # s) = rx_all listedRe (CHR '' '' # s)"
    using e1 assms(2) by (intro all_skip no_listed_at) (simp_all del: rx_exec.simps)
  have 3: "rx_all listedRe (CHR '' '' # CHR '':'' # CHR '' '' # s) = rx_all listedRe (CHR '':'' # CHR '' '' # s)"
    using e2 assms(2) by (intro all_skip no_listed_at) (simp_all del: rx_exec.simps)
  show ?thesis using 1 2 3 by simp
qed

lemma all_listed:
  assumes "\<forall>p \<in> set (p # ps). ok_part p" "rx_all listedRe z = []"
  shows "rx_all listedRe (part_expr p @ concat (map (\<lambda>q. '' : '' @ part_expr q) ps) @ z) = map listed_match (p # ps)"
  using assms(1)
proof (induction ps arbitrary: p)
  case Nil
  then show ?case using all_step [of listedRe "part_expr p @ z" "listed_match p" z] first_listed [of p z] part_longer [of z p] assms(2) by simp
next
  case (Cons q ps)
  define z' where "z' = concat (map (\<lambda>q. '' : '' @ part_expr q) ps) @ z"
  have IH: "rx_all listedRe (part_expr q @ z') = map listed_match (q # ps)" unfolding z'_def using Cons by simp
  have "rx_all listedRe (part_expr p @ '' : '' @ part_expr q @ z') = listed_match p # rx_all listedRe ('' : '' @ part_expr q @ z')"
    using first_listed [of p] part_longer [of _ p] Cons.prems by (intro all_step) auto
  also have "rx_all listedRe ('' : '' @ part_expr q @ z') = rx_all listedRe (part_expr q @ z')"
    using first_listed [of q z'] part_longer [of z' q] Cons.prems by (intro listed_after_colon) auto
  finally show ?case using IH by (simp add: z'_def)
qed

lemma listed_tail_none: "rx_all listedRe (config_tail ts) = []"
proof -
  have "rx_all listedRe [] = []" "rx_all listedRe ('' : '' @ ZERO_EXPR) = []" by (rule all_none, code_simp)+
  then show ?thesis by (auto simp: config_tail_def split: list.splits)
qed

text \<open>What is shown for a tier of a configuration: its label and conditions as written and its prices by field.\<close>

definition shown_part :: "TierConditionInput list \<times> string \<times> VisualTier \<Rightarrow> ParsedTier" where
  "shown_part p =
     \<lparr>parsedLabel = fst (snd p), parsedConditions = map (\<lambda>c. (cvar c, cop c, js_Number (value_text (cval c)))) (fst p),
      parsedPrices = tier_prices (snd (snd p))\<rparr>"

lemma tiers_of_generated:
  assumes "ts \<noteq> []" "\<forall>t \<in> set ts. plain_tier t"
  shows "parseTiersFromExpr (generateExprFromVisualConfig (Some ts)) = map shown_part (config_parts ts)"
proof -
  let ?e = "generateExprFromVisualConfig (Some ts)"
  obtain p ps where p: "config_parts ts = p # ps" using config_parts_ne [OF assms(1)] by (cases "config_parts ts") auto
  have ok: "\<forall>q \<in> set (p # ps). ok_part q" using plain_parts [OF assms(2)] p by auto
  have "?e = part_expr p @ concat (map (\<lambda>q. '' : '' @ part_expr q) ps) @ config_tail ts"
    unfolding generate_parts [OF assms(1)] p by (simp add: join_Cons_concat comp_def)
  then have m: "rx_all listedRe ?e = map listed_match (config_parts ts)" using all_listed [OF ok listed_tail_none [of ts]] p by simp
  have s: "?e \<noteq> []" "snd (stripExprVersion ?e) = ?e"
    using generated_start [OF assms(1)] unfolding strip_version by (auto intro!: no_version)
  have "(\<lambda>(c, l, b). \<lparr>parsedLabel = l, parsedConditions = listed_conditions c, parsedPrices = parseTierBody b\<rparr>) (listed_match q) = shown_part q"
    if "q \<in> set (config_parts ts)" for q
  proof -
    have "\<forall>c \<in> set (fst q). ok_value (cval c)" "wf_tier (snd (snd q))"
      using plain_parts [OF assms(2)] that assms(2) by (auto simp: ok_part_def plain_tier_def)
    then show ?thesis
      using read_conds [of "fst q"] body_prices [of "snd (snd q)"]
      by (simp add: listed_match_def shown_part_def conditions_same read_cond_def comp_def)
  qed
  then show ?thesis using s m by (simp add: parseTiersFromExpr_def)
qed

text \<open>
  C20: For the expression that the visual editor generates from tiers that are plain - decimal prices, condition values written
  as JavaScript prints numbers (without a minus sign), labels without a double quote - the catalogue and the logs show exactly
  its tiers: the label of each (the default one where it was empty), its conditions (none for the last of several) and every
  price that was entered, zero for the others. (A tier whose label has a double quote is not shown at all: lemma
  \<open>quoted_label_hides_tier\<close>.)
\<close>
theorem generated_tiers_shown:
  assumes "ts \<noteq> []" "\<forall>t \<in> set ts. plain_tier t"
  shows "parseTiersFromExpr (generateExprFromVisualConfig (Some ts)) = map shown_part (config_parts ts)"
  by (rule tiers_of_generated [OF assms])

lemma generated_tiers_shown_witness:
  "map parsedLabel (parseTiersFromExpr (generateExprFromVisualConfig (Some demo_tiers))) = [''short'', ''tier_2'']"
proof -
  have "parseTiersFromExpr (generateExprFromVisualConfig (Some demo_tiers)) = map shown_part (config_parts demo_tiers)"
    using generated_tiers_shown [OF _ demo_plain] by (simp add: demo_tiers_def)
  moreover have "map (fst \<circ> snd) (config_parts demo_tiers) = [''short'', ''tier_2'']" by code_simp
  ultimately show ?thesis by (simp add: shown_part_def comp_def)
qed

subsection \<open>Expressions written without spaces\<close>

lemma js_Number_rest:
  assumes "parse_num s = Some (x, r)" "r \<noteq> []"
  shows "js_Number s = None"
proof -
  obtain neg s1 where m: "opt_minus s = (neg, s1)" by fastforce
  obtain ds s2 where d: "span_digits s1 = (ds, s2)" by fastforce
  from assms m d have ne: "ds \<noteq> []" by (auto simp: parse_num_def split: if_splits)
  then have d1: "s1 \<noteq> []" "is_digit (hd s1)" using d by (cases s1; auto simp: span_digits_def split: if_splits)+
  have sg: "opt_sign s = (neg, s1)"
  proof (cases s)
    case (Cons c t)
    then show ?thesis using m d1 by (auto simp: opt_sign_def opt_minus_def is_digit_def)
  qed (use m d1 in \<open>simp add: opt_minus_def\<close>)
  from assms m d ne obtain fs s3 ex where f: "parse_frac s2 = Some (fs, s3)" and e: "parse_exp s3 = Some (ex, r)"
    by (cases neg) (auto simp: parse_num_def Let_def bind_eq_Some_conv split: if_splits)
  have "(case strip_prefix ''.'' s2 of Some s' \<Rightarrow> span_digits s' | None \<Rightarrow> ([], s2)) = (fs, s3)"
    using f by (auto simp: parse_frac_def split: option.splits prod.splits if_splits)
  then show ?thesis using sg d ne e assms(2) by (cases r) (simp_all add: js_Number_def Let_def)
qed

lemma plus_behind: "wf_num x \<Longrightarrow> js_Number (show_num x @ ''+'') = None"
  by (rule js_Number_rest [OF parse_show_num [of x "''+''"]]) (simp_all add: num_end_def is_digit_def)

lemma compact_tail:
  assumes "n \<noteq> []" "\<forall>c \<in> set n. num_char c" "ends r"
  shows "first_way (price_tail v) (CHR ''*'' # n @ r) (v, n) r"
proof -
  have h: "\<not> is_ws (hd (n @ r))" using assms(1,2) num_char_plain [of "hd n"] by (cases n) auto
  have w: "first_way rx_ws (n @ r) [] (n @ r)" by (rule first_ws_none) (simp only: h simp_thms)
  have p: "first_way (rx_plus num_char) (n @ r) n r" using assms by (intro plus_append) (auto simp: ends_def)
  have w0: "first_way rx_ws (CHR ''*'' # n @ r) [] (CHR ''*'' # n @ r)" by (rule first_ws_none) simp
  have l: "first_way (rx_lit ''*'') (CHR ''*'' # n @ r) ''*'' (n @ r)" using first_lit [of "''*''" "n @ r"] by simp
  show ?thesis unfolding price_tail_def 
    by (rule first_bind, rule w0, rule first_bind, rule l, rule first_bind, rule w, rule first_bind, rule p, rule first_ret)
qed

lemma compact_prices:
  assumes "v \<in> set price_vars" "n \<noteq> []" "\<forall>c \<in> set n. num_char c" "ends r"
  shows "all_prices False (v @ CHR ''*'' # n @ r) = (v, n) # all_prices (word_char (last n)) r"
proof -
  obtain ws where t: "price_tail v (CHR ''*'' # n @ r) = ((v, n), r) # ws"
    using compact_tail [OF assms(2-4)] by (auto simp: first_way_def)
  have h: "\<exists>ws. BILLING_VAR_REGEX (v @ CHR ''*'' # n @ r) = ((v, n), r) # ws"
    using assms(1) t unfolding price_vars_list BILLING_VAR_REGEX_def
    by (auto simp: rx_bind_def rx_words_def rx_lit_def price_tail_none is_ws_def)
  have "v \<noteq> []" using assms(1) unfolding price_vars_list by auto
  then obtain c s where v: "v @ CHR ''*'' # n @ r = c # s" by (cases v) auto
  have "length r < length (c # s)" unfolding v [symmetric] by simp
  then show ?thesis using h unfolding v by (auto simp del: rx_star.simps)
qed

text \<open>A sum of prices without spaces.\<close>

definition compact_sum :: "(string \<times> num) list \<Rightarrow> string" where
  "compact_sum ps = join ''+'' (map (\<lambda>(v, n). v @ ''*'' @ show_num n) ps)"

lemma compact_sum_simps:
  "compact_sum [(v, n)] = v @ CHR ''*'' # show_num n @ []"
  "ps \<noteq> [] \<Longrightarrow> compact_sum ((v, n) # ps) = v @ CHR ''*'' # (show_num n @ ''+'') @ compact_sum ps"
  by (cases ps; simp add: compact_sum_def)+

lemma compact_sum_ends:
  assumes "ps \<noteq> []" "fst ` set ps \<subseteq> set price_vars" shows "ends (compact_sum ps)"
proof -
  obtain v n qs where ps: "ps = (v, n) # qs" using assms(1) by (cases ps) auto
  have "\<exists>r. compact_sum ps = v @ CHR ''*'' # r" unfolding ps by (cases "qs = []") (simp_all add: compact_sum_simps)
  moreover have "v \<in> set price_vars" using assms(2) by (auto simp: ps)
  ultimately show ?thesis unfolding price_vars_list by (auto simp: ends_def num_char_def is_digit_def)
qed

lemma all_prices_compact:
  assumes "ps \<noteq> []" "fst ` set ps \<subseteq> set price_vars"
  shows "all_prices False (compact_sum ps) =
    map (\<lambda>(v, n). (v, show_num n @ ''+'')) (butlast ps) @ [(fst (last ps), show_num (snd (last ps)))]"
  using assms
proof (induction ps)
  case (Cons p ps)
  obtain v n where p: "p = (v, n)" by force
  have v: "v \<in> set price_vars" using Cons.prems p by auto
  have c: "\<forall>c \<in> set (show_num n). num_char c" using show_num_chars by blast
  show ?case
  proof (cases "ps = []")
    case True
    have "all_prices False (compact_sum [p]) = (v, show_num n) # all_prices (word_char (last (show_num n))) []"
      unfolding p compact_sum_simps by (rule compact_prices [OF v _ c]) (simp_all add: ends_def)
    then show ?thesis by (simp add: True p)
  next
    case False
    have "ends (compact_sum ps)" using Cons.prems by (intro compact_sum_ends [OF False]) auto
    then have "all_prices False (compact_sum (p # ps))
        = (v, show_num n @ ''+'') # all_prices (word_char (last (show_num n @ ''+''))) (compact_sum ps)"
      unfolding p compact_sum_simps(2) [OF False] using c by (intro compact_prices [OF v]) auto
    also have "word_char (last (show_num n @ ''+'')) = False" by (simp add: word_char_def)
    finally show ?thesis using Cons.IH [OF False] Cons.prems False by (simp add: p)
  qed
qed simp

text \<open>
  C24: Of a sum of prices of different variables that is written without spaces, as in \<^verbatim>\<open>p*2+c*8\<close>, only the last
  price is shown, whatever the others are: they appear as zero, because the run of digits, points and signs behind
  a price takes the plus sign along, and what is then no number becomes zero.
\<close>
theorem compact_prices_shown_as_zero:
  assumes "ps \<noteq> []" "distinct (map fst ps)" "fst ` set ps \<subseteq> set (map vkey BILLING_PRICING_VARS)" "\<forall>p \<in> set ps. wf_num (snd p)"
  shows "parseTierBody (compact_sum ps) =
    map (\<lambda>(v, field). (field, if v = fst (last ps) then snd (last ps) else zero_num)) BILLING_VAR_KEY_TO_FIELD"
proof -
  define coeffs where "coeffs = map (\<lambda>(v, n). (v, js_Number n)) (all_prices False (compact_sum ps))"
  have w: "wf_num (snd p)" if "p \<in> set (butlast ps)" for p using assms(4) that by (auto dest: in_set_butlastD)
  have front: "map (\<lambda>(v, n). (v, js_Number n)) (map (\<lambda>(v, n). (v, show_num n @ ''+'')) (butlast ps)) = map (\<lambda>p. (fst p, None)) (butlast ps)"
    using w plus_behind by (auto simp: split_beta)
  have "wf_num (snd (last ps))" using assms(1,4) by simp
  then have c: "coeffs = map (\<lambda>p. (fst p, None)) (butlast ps) @ [(fst (last ps), Some (snd (last ps)))]"
    unfolding coeffs_def all_prices_compact [OF assms(1,3)] map_append front by simp
  have "number_or_zero (map_of coeffs v) = (if v = fst (last ps) then snd (last ps) else zero_num)" for v
  proof -
    have "distinct (map fst (butlast ps @ [last ps]))" using assms(1,2) by simp
    then have "fst (last ps) \<notin> fst ` set (butlast ps)" by simp
    then have n: "map_of (map (\<lambda>p. (fst p, None :: cost)) (butlast ps)) (fst (last ps)) = None" by (simp add: map_of_eq_None_iff image_image)
    have o: "map_of (map (\<lambda>p. (fst p, None :: cost)) qs) v \<in> {None, Some None}" for qs :: "(string \<times> num) list" and v
      by (induction qs) auto
    show ?thesis
    proof (cases "v = fst (last ps)")
      case True
      then show ?thesis using n by (simp add: c number_or_zero_def map_add_def)
    next
      case False
      then show ?thesis using o [of "butlast ps" v] by (auto simp: c number_or_zero_def map_add_def)
    qed
  qed
  then show ?thesis unfolding parseTierBody_def coeffs_def [symmetric] by (simp add: Let_def)
qed

lemma compact_prices_shown_as_zero_witness:
  "parseTierBody ''p*2+c*8'' = map (\<lambda>(v, field). (field, if v = ''c'' then Dec 8 0 else zero_num)) BILLING_VAR_KEY_TO_FIELD"
proof -
  let ?ps = "[(''p'', Dec 2 0), (''c'', Dec 8 0)]"
  have "?ps \<noteq> []" "distinct (map fst ?ps)" "fst ` set ?ps \<subseteq> set price_vars" "\<forall>p \<in> set ?ps. wf_num (snd p)"
    by (simp_all add: price_vars_list wf_num_def)
  note zero = compact_prices_shown_as_zero [OF this]
  have s: "compact_sum ?ps = ''p*2+c*8''" by code_simp
  have l: "last ?ps = (''c'', Dec 8 0)" by simp
  show ?thesis using zero unfolding s l fst_conv snd_conv .
qed

text \<open>A double quote in a label ends the label for the reader, which then finds no tier.\<close>

lemma quoted_label_hides_tier:
  "parseTiersFromExpr (generateExprFromVisualConfig (Some
     [no_tier\<lparr>tlabel := Some (''a'' @ [dquote] @ ''b''), input_unit_cost := Some (Some (Dec 2 0)), output_unit_cost := Some (Some (Dec 8 0))\<rparr>])) = []"
  by code_simp

text \<open>The estimator of the editor charges the input price of the same text.\<close>

lemma compact_price_charged:
  "evalExprLocally m (''tier('' @ [dquote] @ ''base'' @ [dquote] @ '', p*2+c*8)'') 1000 10 x =
     Some \<lparr>ecost = 2080, matchedTier = ''base'', eerror = None\<rparr>"
proof -
  have "js_program (''tier('' @ [dquote] @ ''base'' @ [dquote] @ '', p*2+c*8)'') =
      Parsed (ECall ''tier'' [EStr ''base'', EBin ''+'' (EBin ''*'' (EVar ''p'') (ENum (Dec 2 0))) (EBin ''*'' (EVar ''c'') (ENum (Dec 8 0)))])"
    by code_simp
  then show ?thesis
    by (simp add: evalExprLocally_def estimator_env_def js_binary_def js_call_def rat_of_def truthy_value_def trim_def trim_by_eq_Nil is_ws_def)
qed

end
