(* ===== verification/UsageLogs.thy ===== *)
theory UsageLogs
  imports BillingTiers WebText TableUrlState JsNumber "HOL-Library.Sublist"
begin

text \<open>
  Usage logs (\<^verbatim>\<open>features/usage-logs\<close>): from the filters typed on the page to the search record of the URL
  (\<^verbatim>\<open>lib/filter.ts\<close>, the filter bar and the filter dialog), from there to the query of the request
  (\<^verbatim>\<open>lib/utils.ts\<close>, \<^verbatim>\<open>api.ts\<close>), and what is shown for an entry (\<^verbatim>\<open>lib/format.ts\<close>).
  A date is its time in milliseconds. \<open>Clock\<close> is what the code reads of the environment: the time, and the start of its day in the
  local time zone.
\<close>

subsection \<open>Filters and search records (types.ts, lib/filter.ts, the route)\<close>

datatype LogCategory = Common | Drawing | TaskLogs

text \<open>The text filters by field; a field that is missing is undefined.\<close>

record LogFilters =
  startTime :: "int option"
  endTime :: "int option"
  ftexts :: "string obj"

definition opt_time :: "string \<Rightarrow> int option \<Rightarrow> json obj" where
  "opt_time k t = (case t of Some ms \<Rightarrow> [(k, JNum (num_of_int ms))] | None \<Rightarrow> [])"

text \<open>\<open>...(filters.f && { k: filters.f })\<close>\<close>

definition opt_text :: "string \<Rightarrow> string \<Rightarrow> LogFilters \<Rightarrow> json obj" where
  "opt_text k f fs = (case oget (ftexts fs) f of Some s \<Rightarrow> if s \<noteq> [] then [(k, JStr s)] else [] | None \<Rightarrow> [])"

definition buildSearchParams :: "LogFilters \<Rightarrow> LogCategory \<Rightarrow> json obj" where
  "buildSearchParams fs cat =
     opt_time ''startTime'' (startTime fs) @ opt_time ''endTime'' (endTime fs) @ opt_text ''channel'' ''channel'' fs @
     (case cat of
        Common \<Rightarrow> opt_text ''model'' ''model'' fs @ opt_text ''token'' ''token'' fs @ opt_text ''group'' ''group'' fs @
          opt_text ''username'' ''username'' fs @ opt_text ''requestId'' ''requestId'' fs
      | Drawing \<Rightarrow> opt_text ''filter'' ''mjId'' fs
      | TaskLogs \<Rightarrow> opt_text ''filter'' ''taskId'' fs)"

definition getLogCategoryLabel :: "LogCategory \<Rightarrow> string" where
  "getLogCategoryLabel cat = (case cat of Common \<Rightarrow> ''Common'' | Drawing \<Rightarrow> ''Drawing'' | TaskLogs \<Rightarrow> ''Task'')"

text \<open>
  The schema of the route: a text of another kind becomes empty, a list of types with another entry becomes empty, a
  page of another kind its default; a time of another kind is an error.
\<close>

definition schema_text :: "json obj \<Rightarrow> string \<Rightarrow> json obj" where
  "schema_text s k = (case oget s k of None \<Rightarrow> [] | Some (JStr t) \<Rightarrow> [(k, JStr t)] | Some _ \<Rightarrow> [(k, JStr [])])"

definition schema_number :: "json obj \<Rightarrow> string \<Rightarrow> int \<Rightarrow> json obj" where
  "schema_number s k d = (case oget s k of None \<Rightarrow> [] | Some (JNum n) \<Rightarrow> [(k, JNum n)] | Some _ \<Rightarrow> [(k, JNum (num_of_int d))])"

definition schema_time :: "json obj \<Rightarrow> string \<Rightarrow> json obj option" where
  "schema_time s k = (case oget s k of None \<Rightarrow> Some [] | Some (JNum n) \<Rightarrow> Some [(k, JNum n)] | Some _ \<Rightarrow> None)"

definition logTypeValues :: "string list" where
  "logTypeValues = [''0'', ''1'', ''2'', ''3'', ''4'', ''5'', ''6'']"

definition schema_types :: "json obj \<Rightarrow> json obj" where
  "schema_types s =
     (case oget s ''type'' of
        None \<Rightarrow> []
      | Some (JArr vs) \<Rightarrow> [(''type'', JArr (if set vs \<subseteq> JStr ` set logTypeValues then vs else []))]
      | Some _ \<Rightarrow> [(''type'', JArr [])])"

definition usageLogsSearchSchema :: "json obj \<Rightarrow> json obj option" where
  "usageLogsSearchSchema s =
     (case (schema_time s ''startTime'', schema_time s ''endTime'') of
        (Some a, Some b) \<Rightarrow>
          Some (schema_number s ''page'' 1 @ schema_number s ''pageSize'' 20 @ schema_types s @
            concat (map (schema_text s) [''filter'', ''model'', ''token'', ''channel'', ''group'', ''username'', ''requestId'']) @ a @ b)
      | _ \<Rightarrow> None)"

subsection \<open>Query parameters (lib/utils.ts)\<close>

type_synonym Clock = "int \<times> int"

definition getDefaultTimeRange :: "Clock \<Rightarrow> int \<times> int" where
  "getDefaultTimeRange clock = (snd clock, fst clock + 3600 * 1000)"

definition timestampToSeconds :: "num \<Rightarrow> num" where
  "timestampToSeconds ms = num_of_int \<lfloor>rat_of ms / 1000\<rfloor>"

text \<open>Parameters in their order; an entry may be undefined.\<close>

type_synonym Params = "json option obj"

definition query_entry :: "string \<times> json option \<Rightarrow> (string \<times> string) option" where
  "query_entry kv =
     (case snd kv of None \<Rightarrow> None | Some JNull \<Rightarrow> None | Some (JStr []) \<Rightarrow> None | Some j \<Rightarrow> Some (fst kv, js_String j))"

definition buildQueryParams :: "Params \<Rightarrow> (string \<times> string) list" where
  "buildQueryParams ps = List.map_filter query_entry ps"

definition truthy_at :: "json obj \<Rightarrow> string \<Rightarrow> bool" where
  "truthy_at s k = (case oget s k of Some v \<Rightarrow> jtruthy v | None \<Rightarrow> False)"

text \<open>\<open>v || d?.getTime()\<close>, converted unless it is falsy.\<close>

definition getTimestamp :: "bool \<Rightarrow> json option \<Rightarrow> int option \<Rightarrow> json option" where
  "getTimestamp useMilliseconds v d =
     (let time = (case v of
                    Some (JNum n) \<Rightarrow> if mant n \<noteq> 0 then Some n else map_option num_of_int d
                  | _ \<Rightarrow> map_option num_of_int d)
      in case time of
           None \<Rightarrow> None
         | Some n \<Rightarrow> if mant n = 0 then None else Some (JNum (if useMilliseconds then n else timestampToSeconds n)))"

definition buildTimeRangeParams :: "Clock \<Rightarrow> json obj \<Rightarrow> bool \<Rightarrow> Params" where
  "buildTimeRangeParams clock sp useMilliseconds =
     (let hasTimeParams = (case oget sp ''startTime'' of Some v \<Rightarrow> if v = JNull then truthy_at sp ''endTime'' else jtruthy v
                           | None \<Rightarrow> truthy_at sp ''endTime'');
          (ds, de) = (if hasTimeParams then (None, None)
                      else (Some (fst (getDefaultTimeRange clock)), Some (snd (getDefaultTimeRange clock))))
      in [(''start_timestamp'', getTimestamp useMilliseconds (oget sp ''startTime'') ds),
          (''end_timestamp'', getTimestamp useMilliseconds (oget sp ''endTime'') de)])"

text \<open>\<open>...(searchParams.f ? { k: g(searchParams.f) } : {})\<close>\<close>

definition opt_param :: "json obj \<Rightarrow> string \<Rightarrow> string \<Rightarrow> (json \<Rightarrow> json option) \<Rightarrow> Params" where
  "opt_param sp f k g = (if truthy_at sp f then [(k, g (the (oget sp f)))] else [])"

definition as_text :: "json \<Rightarrow> json option" where
  "as_text v = Some (JStr (js_String v))"

definition buildBaseParams :: "Clock \<Rightarrow> num \<Rightarrow> num \<Rightarrow> json obj \<Rightarrow> bool \<Rightarrow> Params" where
  "buildBaseParams clock page pageSize sp useMilliseconds =
     [(''p'', Some (JNum page)), (''page_size'', Some (JNum pageSize))] @ opt_param sp ''channel'' ''channel_id'' as_text @
     buildTimeRangeParams clock sp useMilliseconds"

text \<open>\<open>Number(t) || 0\<close> of a text as a value; infinities print as such.\<close>

definition number_or_0 :: "string \<Rightarrow> json" where
  "number_or_0 s =
     (case number_of_text s of
        Finite n \<Rightarrow> JNum n | NaN \<Rightarrow> JNum zero_num | Infinite neg \<Rightarrow> JStr (if neg then ''-Infinity'' else ''Infinity''))"

text \<open>The entries of a valid list of types are digits.\<close>

definition processType :: "json \<Rightarrow> json option" where
  "processType v =
     (case v of
        JArr [JStr s] \<Rightarrow> (case js_Number s of Some n \<Rightarrow> Some (JNum n) | None \<Rightarrow> Some (JStr ''NaN''))
      | _ \<Rightarrow> None)"

definition apply_column_filter :: "bool \<Rightarrow> string \<times> json \<Rightarrow> Params \<Rightarrow> Params" where
  "apply_column_filter isAdmin cf ps =
     (case cf of (cid, value) \<Rightarrow>
        if value = JNull \<or> value = JStr [] then ps
        else if cid = ''type'' then oput ''type'' (processType value) ps
        else if cid \<in> {''model_name'', ''token_name'', ''group''} then oput cid (as_text value) ps
        else if cid = ''channel'' \<and> isAdmin then oput ''channel'' (Some (number_or_0 (js_String value))) ps
        else if cid = ''username'' \<and> isAdmin then oput ''username'' (as_text value) ps
        else ps)"

definition buildApiParams :: "Clock \<Rightarrow> num \<Rightarrow> num \<Rightarrow> json obj \<Rightarrow> (string \<times> json) list \<Rightarrow> bool \<Rightarrow> Params" where
  "buildApiParams clock page pageSize sp cfs isAdmin =
     fold (apply_column_filter isAdmin) cfs
       ([(''p'', Some (JNum page)), (''page_size'', Some (JNum pageSize))] @
        opt_param sp ''type'' ''type'' processType @ opt_param sp ''model'' ''model_name'' as_text @
        opt_param sp ''token'' ''token_name'' as_text @ opt_param sp ''group'' ''group'' as_text @
        (if isAdmin then opt_param sp ''channel'' ''channel'' (\<lambda>v. Some (number_or_0 (js_String v))) else []) @
        (if isAdmin then opt_param sp ''username'' ''username'' as_text else []) @
        opt_param sp ''requestId'' ''request_id'' as_text @ buildTimeRangeParams clock sp False)"

subsection \<open>Requests (api.ts)\<close>

definition buildApiPath :: "string \<Rightarrow> bool \<Rightarrow> string" where
  "buildApiPath endpoint isAdmin = (if isAdmin then endpoint else endpoint @ ''/self'')"

definition number_param :: "Params \<Rightarrow> string \<Rightarrow> int \<Rightarrow> json option" where
  "number_param ps k d =
     (case oget ps k of Some (Some v) \<Rightarrow> if jtruthy v then Some v else Some (JNum (num_of_int d)) | _ \<Rightarrow> Some (JNum (num_of_int d)))"

definition log_query :: "Params \<Rightarrow> (string \<times> string) list" where
  "log_query ps = buildQueryParams (spread [(''p'', number_param ps ''p'' 1), (''page_size'', number_param ps ''page_size'' 20)] ps)"

definition fetchLogs :: "string \<Rightarrow> Params \<Rightarrow> bool \<Rightarrow> string" where
  "fetchLogs endpoint ps isAdmin = buildApiPath endpoint isAdmin @ CHR ''?'' # search_text (log_query ps)"

definition fetchLogStats :: "string \<Rightarrow> Params \<Rightarrow> bool \<Rightarrow> string" where
  "fetchLogStats endpoint ps isAdmin = buildApiPath endpoint isAdmin @ ''/stat?'' @ search_text (buildQueryParams ps)"

definition task_params :: "Clock \<Rightarrow> LogCategory \<Rightarrow> num \<Rightarrow> num \<Rightarrow> json obj \<Rightarrow> Params" where
  "task_params clock cat page pageSize sp =
     spread (buildBaseParams clock page pageSize sp (cat = Drawing))
       [(if cat = Drawing then ''mj_id'' else ''task_id'', oget sp ''filter'')]"

definition fetchLogsByCategory ::
  "Clock \<Rightarrow> LogCategory \<Rightarrow> bool \<Rightarrow> num \<Rightarrow> num \<Rightarrow> json obj \<Rightarrow> (string \<times> json) list \<Rightarrow> string" where
  "fetchLogsByCategory clock cat isAdmin page pageSize sp cfs =
     (case cat of
        Common \<Rightarrow> fetchLogs ''/api/log'' (buildApiParams clock page pageSize sp cfs isAdmin) isAdmin
      | Drawing \<Rightarrow> fetchLogs ''/api/mj'' (task_params clock cat page pageSize sp) isAdmin
      | TaskLogs \<Rightarrow> fetchLogs ''/api/task'' (task_params clock cat page pageSize sp) isAdmin)"

text \<open>The statistics above the table (components/common-logs-stats.tsx).\<close>

definition CommonLogsStats :: "Clock \<Rightarrow> bool \<Rightarrow> json obj \<Rightarrow> string" where
  "CommonLogsStats clock isAdmin sp =
     fetchLogStats ''/api/log'' (buildApiParams clock (num_of_int 1) (num_of_int 1) sp [] isAdmin) isAdmin"

text \<open>
  The column filters of the table (components/usage-logs-table.tsx) as \<open>useTableUrlState\<close> reads them from the search record:
  texts that are not blank, and the list of types under the id of the time column.
\<close>

definition text_filter :: "json obj \<Rightarrow> string \<times> string \<Rightarrow> (string \<times> json) list" where
  "text_filter sp cfg =
     (case oget sp (snd cfg) of Some (JStr s) \<Rightarrow> if trim s = [] then [] else [(fst cfg, JStr s)] | _ \<Rightarrow> [])"

definition logColumnFilters :: "bool \<Rightarrow> json obj \<Rightarrow> (string \<times> json) list" where
  "logColumnFilters isAdmin sp =
     (case oget sp ''type'' of Some (JArr vs) \<Rightarrow> if vs = [] then [] else [(''created_at'', JArr vs)] | _ \<Rightarrow> []) @
     concat (map (text_filter sp)
       ([(''model_name'', ''model''), (''token_name'', ''token''), (''group'', ''group'')] @
        (if isAdmin then [(''channel'', ''channel''), (''username'', ''username'')] else [])))"

text \<open>The same through the hook's own model.\<close>

fun uval_of :: "json \<Rightarrow> uval" where
  "uval_of (JNum n) = UNum (rat_of n)"
| "uval_of (JStr s) = UStr s"
| "uval_of (JArr vs) = UList (map uval_of vs)"
| "uval_of _ = UOther"

definition log_filter :: "string \<times> string \<times> string \<Rightarrow> FilterConfig" where
  "log_filter c = \<lparr>columnId = fst c, searchKey = fst (snd c), filter_type = Some (snd (snd c)), serialize = (\<lambda>v. v), deserialize = (\<lambda>v. v)\<rparr>"

definition logs_table :: "bool \<Rightarrow> TableConfig" where
  "logs_table isAdmin =
     default_config\<lparr>globalFilterEnabled := False,
       columnFiltersCfg := map log_filter
         ([(''created_at'', ''type'', ''array''), (''model_name'', ''model'', ''string''), (''token_name'', ''token'', ''string''),
           (''group'', ''group'', ''string'')] @
          (if isAdmin then [(''channel'', ''channel'', ''string''), (''username'', ''username'', ''string'')] else []))\<rparr>"

lemma oget_mapped: "oget (map (\<lambda>(k, v). (k, f v)) ob) k = map_option f (oget ob k)"
  by (induction ob) auto

lemma text_filter_read:
  "map (\<lambda>(k, v). (k, uval_of v)) (text_filter sp (c, k)) =
     (case read_filter (log_filter (c, k, ''string'')) (map (\<lambda>(k, v). (k, uval_of v)) sp) of None \<Rightarrow> [] | Some p \<Rightarrow> [p])"
  by (cases "oget sp k"; cases "the (oget sp k)")
    (auto simp: text_filter_def read_filter_def log_filter_def oget_mapped Let_def split: json.splits)

lemma column_filters_of_hook:
  "initialColumnFilters (logs_table isAdmin) (map (\<lambda>(k, v). (k, uval_of v)) sp) =
     map (\<lambda>(k, v). (k, uval_of v)) (logColumnFilters isAdmin sp)"
proof -
  have t: "(case read_filter (log_filter (''created_at'', ''type'', ''array'')) (map (\<lambda>(k, v). (k, uval_of v)) sp) of None \<Rightarrow> [] | Some p \<Rightarrow> [p]) =
     map (\<lambda>(k, v). (k, uval_of v)) (case oget sp ''type'' of Some (JArr vs) \<Rightarrow> if vs = [] then [] else [(''created_at'', JArr vs)] | _ \<Rightarrow> [])"
    by (auto simp: read_filter_def log_filter_def oget_mapped Let_def split: option.splits json.splits)
  have m: "List.map_filter g xs = concat (map (\<lambda>x. case g x of None \<Rightarrow> [] | Some y \<Rightarrow> [y]) xs)" for g :: "FilterConfig \<Rightarrow> (string \<times> uval) option" and xs
    by (induction xs) (simp_all add: List.map_filter_simps split: option.split)
  show ?thesis
    by (simp add: initialColumnFilters_def m logs_table_def logColumnFilters_def t text_filter_read)
qed

subsection \<open>The filter bar of the common logs (components/common-logs-filter-bar.tsx)\<close>

record FilterBar =
  barFilters :: LogFilters
  logType :: string

definition default_filters :: "Clock \<Rightarrow> LogFilters" where
  "default_filters clock =
     \<lparr>startTime = Some (fst (getDefaultTimeRange clock)), endTime = Some (snd (getDefaultTimeRange clock)), ftexts = []\<rparr>"

definition initBar :: "Clock \<Rightarrow> FilterBar" where
  "initBar clock = \<lparr>barFilters = default_filters clock, logType = []\<rparr>"

text \<open>\<open>new Date(n)\<close> drops the fraction.\<close>

definition date_of :: "num \<Rightarrow> int" where
  "date_of n = (if 0 \<le> rat_of n then \<lfloor>rat_of n\<rfloor> else \<lceil>rat_of n\<rceil>)"

definition url_time :: "json obj \<Rightarrow> string \<Rightarrow> int option \<Rightarrow> int option" where
  "url_time sp k old = (case oget sp k of Some (JNum n) \<Rightarrow> if mant n \<noteq> 0 then Some (date_of n) else old | _ \<Rightarrow> old)"

text \<open>The filters that the URL has are merged over those of the bar; the pairs are key of the URL and field.\<close>

definition merge_text :: "json obj \<Rightarrow> string \<times> string \<Rightarrow> string obj \<Rightarrow> string obj" where
  "merge_text sp kf ts = (if truthy_at sp (fst kf) then oput (snd kf) (js_String (the (oget sp (fst kf)))) ts else ts)"

definition merge_url :: "json obj \<Rightarrow> (string \<times> string) list \<Rightarrow> LogFilters \<Rightarrow> LogFilters" where
  "merge_url sp names fs =
     fs\<lparr>startTime := url_time sp ''startTime'' (startTime fs), endTime := url_time sp ''endTime'' (endTime fs),
        ftexts := fold (merge_text sp) names (ftexts fs)\<rparr>"

definition common_fields :: "(string \<times> string) list" where
  "common_fields = map (\<lambda>k. (k, k)) [''channel'', ''model'', ''token'', ''group'', ''username'', ''requestId'']"

definition syncBar :: "json obj \<Rightarrow> FilterBar \<Rightarrow> FilterBar" where
  "syncBar sp bar =
     bar\<lparr>barFilters := merge_url sp common_fields (barFilters bar),
         logType := (case oget sp ''type'' of Some (JArr [JStr t]) \<Rightarrow> t | _ \<Rightarrow> logType bar)\<rparr>"

definition handleChange :: "string \<Rightarrow> string \<Rightarrow> LogFilters \<Rightarrow> LogFilters" where
  "handleChange field v fs = fs\<lparr>ftexts := oput field v (ftexts fs)\<rparr>"

definition pickTimes :: "int option \<Rightarrow> int option \<Rightarrow> LogFilters \<Rightarrow> LogFilters" where
  "pickTimes a b fs = fs\<lparr>startTime := a, endTime := b\<rparr>"

definition pickType :: "string \<Rightarrow> FilterBar \<Rightarrow> FilterBar" where
  "pickType v bar = bar\<lparr>logType := (if v \<in> set logTypeValues then v else [])\<rparr>"

definition applyBar :: "FilterBar \<Rightarrow> json obj" where
  "applyBar bar =
     buildSearchParams (barFilters bar) Common @
     (if logType bar \<noteq> [] then [(''type'', JArr [JStr (logType bar)])] else []) @ [(''page'', JNum (num_of_int 1))]"

definition resetBar :: "Clock \<Rightarrow> FilterBar \<times> json obj" where
  "resetBar clock =
     (initBar clock,
      [(''page'', JNum (num_of_int 1)), (''startTime'', JNum (num_of_int (fst (getDefaultTimeRange clock)))),
       (''endTime'', JNum (num_of_int (snd (getDefaultTimeRange clock))))])"

subsection \<open>The filter dialog of the other logs (components/dialogs/usage-logs-filter-dialog.tsx)\<close>

definition dialog_fields :: "LogCategory \<Rightarrow> (string \<times> string) list" where
  "dialog_fields cat =
     (''channel'', ''channel'') #
     (case cat of
        Common \<Rightarrow> map (\<lambda>k. (k, k)) [''model'', ''token'', ''group'', ''username'', ''requestId'']
      | Drawing \<Rightarrow> [(''filter'', ''mjId'')]
      | TaskLogs \<Rightarrow> [(''filter'', ''taskId'')])"

definition syncDialog :: "LogCategory \<Rightarrow> json obj \<Rightarrow> LogFilters \<Rightarrow> LogFilters" where
  "syncDialog cat sp fs = merge_url sp (dialog_fields cat) fs"

text \<open>\<open>navigateWithFilters\<close>: the search record of before, overwritten with the filters that are set.\<close>

definition applyDialog :: "LogCategory \<Rightarrow> json obj \<Rightarrow> LogFilters \<Rightarrow> json obj" where
  "applyDialog cat prev fs = spread prev (buildSearchParams fs cat)"

subsection \<open>What is shown for an entry (lib/utils.ts, lib/format.ts, lib/status.ts)\<close>

definition DISPLAYABLE_LOG_TYPES :: "int list" where "DISPLAYABLE_LOG_TYPES = [0, 2, 5, 6]"
definition TIMING_LOG_TYPES :: "int list" where "TIMING_LOG_TYPES = [2, 5]"

definition isDisplayableLogType :: "int \<Rightarrow> bool" where "isDisplayableLogType t \<longleftrightarrow> t \<in> set DISPLAYABLE_LOG_TYPES"
definition isTimingLogType :: "int \<Rightarrow> bool" where "isTimingLogType t \<longleftrightarrow> t \<in> set TIMING_LOG_TYPES"

definition LOG_TYPES :: "(int \<times> string \<times> string) list" where
  "LOG_TYPES =
     [(0, ''Unknown'', ''default''), (1, ''Top-up'', ''cyan''), (2, ''Consume'', ''green''), (3, ''Manage'', ''orange''),
      (4, ''System'', ''purple''), (5, ''Error'', ''red''), (6, ''Refund'', ''blue'')]"

definition getLogTypeConfig :: "int \<Rightarrow> int \<times> string \<times> string" where
  "getLogTypeConfig t = (case find (\<lambda>c. fst c = t) LOG_TYPES of Some c \<Rightarrow> c | None \<Rightarrow> LOG_TYPES ! 0)"

definition isPerCallBilling :: "rat option \<Rightarrow> bool" where
  "isPerCallBilling modelPrice \<longleftrightarrow> (case modelPrice of Some x \<Rightarrow> 0 < x | None \<Rightarrow> False)"

text \<open>The label and the variant of a state, from a table of both.\<close>

definition mapped_label :: "(string \<times> string \<times> string) list \<Rightarrow> string \<Rightarrow> string \<Rightarrow> string" where
  "mapped_label table st d = (case map_of table st of Some (l, v) \<Rightarrow> l | None \<Rightarrow> d)"

definition mapped_variant :: "(string \<times> string \<times> string) list \<Rightarrow> string \<Rightarrow> string \<Rightarrow> string" where
  "mapped_variant table st d = (case map_of table st of Some (l, v) \<Rightarrow> v | None \<Rightarrow> d)"

definition parseAuditLine :: "string \<Rightarrow> string \<times> string" where
  "parseAuditLine line =
     (let word = takeWhile (\<lambda>c. c \<noteq> CHR '' '') line
      in if word = [] \<or> word = line then (line, line) else (word, drop (length word + 1) line))"

definition prop_true :: "json obj \<Rightarrow> string \<Rightarrow> bool" where
  "prop_true ob k = (case oget ob k of Some v \<Rightarrow> jtruthy v | None \<Rightarrow> False)"

definition isViolationFeeLog :: "json obj option \<Rightarrow> bool" where
  "isViolationFeeLog other \<longleftrightarrow>
     (case other of None \<Rightarrow> False
      | Some ob \<Rightarrow> oget ob ''violation_fee'' = Some (JBool True) \<or> prop_true ob ''violation_fee_code'' \<or> prop_true ob ''violation_fee_marker'')"

text \<open>\<open>JSON.parse\<close> of the field; a value that is no object has none of its properties.\<close>

definition parseLogOther :: "string \<Rightarrow> json obj option" where
  "parseLogOther other =
     (if other = [] then None
      else (case json_parse other of Some (JObj ob) \<Rightarrow> Some ob | Some JNull \<Rightarrow> None | Some _ \<Rightarrow> Some [] | None \<Rightarrow> None))"

definition getTimeColor :: "rat \<Rightarrow> string" where
  "getTimeColor seconds = (if seconds < 3 then ''success'' else if seconds < 10 then ''info'' else ''warning'')"

definition formatModelName :: "string \<Rightarrow> string \<Rightarrow> string \<times> bool \<times> json option" where
  "formatModelName model_name other_text =
     (let other = (case parseLogOther other_text of Some ob \<Rightarrow> ob | None \<Rightarrow> []);
          isMapped = (prop_true other ''is_model_mapped'' \<and> prop_true other ''upstream_model_name'')
      in (model_name, isMapped, if isMapped then oget other ''upstream_model_name'' else None))"

definition decodeBillingExprB64 :: "string option \<Rightarrow> string" where
  "decodeBillingExprB64 exprB64 =
     (case exprB64 of None \<Rightarrow> [] | Some t \<Rightarrow> if t = [] then [] else (case atob t of Some u \<Rightarrow> u | None \<Rightarrow> []))"

definition resolveMatchedTier :: "ParsedTier list \<Rightarrow> string option \<Rightarrow> ParsedTier option" where
  "resolveMatchedTier tiers matchedLabel =
     (case tiers of
        [] \<Rightarrow> None
      | t # _ \<Rightarrow>
          (case matchedLabel of
             Some l \<Rightarrow> if l \<noteq> [] then (case find (\<lambda>tier. parsedLabel tier = l) tiers of Some f \<Rightarrow> Some f | None \<Rightarrow> Some t) else Some t
           | None \<Rightarrow> Some t))"

text \<open>The part of the payload that tiered billing uses.\<close>

record TieredOther =
  billing_mode :: string
  expr_b64 :: "string option"
  matched_tier :: "string option"
  cache_counts :: "int list"

definition hasAnyCacheTokens :: "TieredOther \<Rightarrow> bool" where
  "hasAnyCacheTokens other \<longleftrightarrow> (\<exists>n \<in> set (cache_counts other). 0 < n)"

definition price_entries :: "bool \<Rightarrow> ParsedTier \<Rightarrow> (string \<times> string \<times> num) list" where
  "price_entries cachePresent tier =
     List.map_filter (\<lambda>v.
        if vgroup v = Some ''cache'' \<and> \<not> cachePresent then None
        else (case map_of (parsedPrices tier) (the (vfield v)) of
                Some n \<Rightarrow> if 0 < mant n then Some (the (vfield v), shortLabel v, n) else None
              | None \<Rightarrow> None)) BILLING_PRICING_VARS"

definition getTieredBillingSummary :: "TieredOther option \<Rightarrow> (ParsedTier list \<times> ParsedTier \<times> (string \<times> string \<times> num) list) option" where
  "getTieredBillingSummary other =
     (case other of
        None \<Rightarrow> None
      | Some ob \<Rightarrow>
          if billing_mode ob \<noteq> ''tiered_expr'' then None
          else (let exprStr = decodeBillingExprB64 (expr_b64 ob)
                in if exprStr = [] then None
                   else (let tiers = parseTiersFromExpr exprStr
                         in case resolveMatchedTier tiers (matched_tier ob) of
                              None \<Rightarrow> None
                            | Some tier \<Rightarrow> Some (tiers, tier, price_entries (hasAnyCacheTokens ob) tier))))"

definition formatDuration :: "rat option \<Rightarrow> rat option \<Rightarrow> bool \<Rightarrow> (rat \<times> string) option" where
  "formatDuration submitTime finishTime milliseconds =
     (case (submitTime, finishTime) of
        (Some a, Some b) \<Rightarrow>
          if a = 0 \<or> b = 0 then None
          else (let d = (if milliseconds then (b - a) / 1000 else b - a) in Some (d, if d > 60 then ''red'' else ''green''))
      | _ \<Rightarrow> None)"

subsection \<open>The table and its statistics\<close>

lemma oget_opt_param:
  "oget (opt_param sp f k g) k' = (if k' = k \<and> truthy_at sp f then Some (g (the (oget sp f))) else None)"
  by (simp add: opt_param_def)

lemma oget_times:
  "k \<noteq> ''start_timestamp'' \<Longrightarrow> k \<noteq> ''end_timestamp'' \<Longrightarrow> oget (buildTimeRangeParams clock sp m) k = None"
  by (simp add: buildTimeRangeParams_def Let_def split: prod.splits)

lemma oput_known: "oget ps k = Some v \<Longrightarrow> oput k v ps = ps"
  by (induction k v ps rule: oput.induct) (auto split: if_splits)

text \<open>The parameters without the page, before the column filters.\<close>

definition filter_params :: "Clock \<Rightarrow> json obj \<Rightarrow> bool \<Rightarrow> Params" where
  "filter_params clock sp isAdmin =
     opt_param sp ''type'' ''type'' processType @ opt_param sp ''model'' ''model_name'' as_text @
     opt_param sp ''token'' ''token_name'' as_text @ opt_param sp ''group'' ''group'' as_text @
     (if isAdmin then opt_param sp ''channel'' ''channel'' (\<lambda>v. Some (number_or_0 (js_String v))) else []) @
     (if isAdmin then opt_param sp ''username'' ''username'' as_text else []) @
     opt_param sp ''requestId'' ''request_id'' as_text @ buildTimeRangeParams clock sp False"

lemma text_filter_kept:
  assumes "oget ps c = (if truthy_at sp k then Some (g (the (oget sp k))) else z)"
    and "\<And>s ps. s \<noteq> [] \<Longrightarrow> apply_column_filter isAdmin (c, JStr s) ps = oput c (g (JStr s)) ps"
  shows "fold (apply_column_filter isAdmin) (text_filter sp (c, k)) ps = ps"
proof (cases "text_filter sp (c, k)")
  case (Cons p qs)
  then obtain s where s: "oget sp k = Some (JStr s)" "trim s \<noteq> []" "text_filter sp (c, k) = [(c, JStr s)]"
    by (auto simp: text_filter_def split: option.splits json.splits if_splits)
  then have "s \<noteq> []" by auto
  then show ?thesis using s assms(1) assms(2) [OF \<open>s \<noteq> []\<close>] by (simp add: truthy_at_def oput_known)
qed simp

lemma column_filters_nothing_new:
  "buildApiParams clock page pageSize sp (logColumnFilters isAdmin sp) isAdmin =
     (''p'', Some (JNum page)) # (''page_size'', Some (JNum pageSize)) # filter_params clock sp isAdmin"
proof -
  let ?P = "(''p'', Some (JNum page)) # (''page_size'', Some (JNum pageSize)) # filter_params clock sp isAdmin"
  have g: "oget ?P ''model_name'' = (if truthy_at sp ''model'' then Some (as_text (the (oget sp ''model''))) else oget ?P ''model_name'')"
    "oget ?P ''token_name'' = (if truthy_at sp ''token'' then Some (as_text (the (oget sp ''token''))) else oget ?P ''token_name'')"
    "oget ?P ''group'' = (if truthy_at sp ''group'' then Some (as_text (the (oget sp ''group''))) else oget ?P ''group'')"
    "isAdmin \<Longrightarrow> oget ?P ''channel'' = (if truthy_at sp ''channel'' then Some (Some (number_or_0 (js_String (the (oget sp ''channel''))))) else oget ?P ''channel'')"
    "isAdmin \<Longrightarrow> oget ?P ''username'' = (if truthy_at sp ''username'' then Some (as_text (the (oget sp ''username''))) else oget ?P ''username'')"
    by (simp_all add: filter_params_def oget_opt_param oget_times map_add_def)
  have t: "fold (apply_column_filter isAdmin)
      (case oget sp ''type'' of Some (JArr vs) \<Rightarrow> if vs = [] then [] else [(''created_at'', JArr vs)] | _ \<Rightarrow> []) ?P = ?P"
    by (auto simp: apply_column_filter_def split: option.splits json.splits)
  have 1: "fold (apply_column_filter isAdmin) (text_filter sp (''model_name'', ''model'')) ?P = ?P"
    by (rule text_filter_kept [where g = as_text, OF g(1)]) (simp add: apply_column_filter_def)
  have 2: "fold (apply_column_filter isAdmin) (text_filter sp (''token_name'', ''token'')) ?P = ?P"
    by (rule text_filter_kept [where g = as_text, OF g(2)]) (simp add: apply_column_filter_def)
  have 3: "fold (apply_column_filter isAdmin) (text_filter sp (''group'', ''group'')) ?P = ?P"
    by (rule text_filter_kept [where g = as_text, OF g(3)]) (simp add: apply_column_filter_def)
  have 4: "fold (apply_column_filter isAdmin) (text_filter sp (''channel'', ''channel'')) ?P = ?P" if isAdmin
    by (rule text_filter_kept [where g = "\<lambda>v. Some (number_or_0 (js_String v))", OF g(4) [OF that]]) (use that in \<open>simp_all add: apply_column_filter_def\<close>)
  have 5: "fold (apply_column_filter isAdmin) (text_filter sp (''username'', ''username'')) ?P = ?P" if isAdmin
    by (rule text_filter_kept [where g = as_text, OF g(5) [OF that]]) (use that in \<open>simp_all add: apply_column_filter_def\<close>)
  have "buildApiParams clock page pageSize sp (logColumnFilters isAdmin sp) isAdmin = fold (apply_column_filter isAdmin) (logColumnFilters isAdmin sp) ?P"
    by (simp add: buildApiParams_def filter_params_def)
  also have "\<dots> = ?P"
    unfolding logColumnFilters_def fold_append comp_apply t
    using 1 2 3 4 5 by (cases isAdmin) simp_all
  finally show ?thesis .
qed

text \<open>
  C23: The statistics above the common logs are asked for with exactly the filters of the table below, whatever is in the URL: what
  the table reads from its column filters is already in the search record.
\<close>
theorem statistics_match_table:
  "\<exists>ps. buildApiParams clock page pageSize sp (logColumnFilters isAdmin sp) isAdmin =
        (''p'', Some (JNum page)) # (''page_size'', Some (JNum pageSize)) # ps
     \<and> CommonLogsStats clock isAdmin sp =
        fetchLogStats ''/api/log'' ((''p'', Some (JNum (num_of_int 1))) # (''page_size'', Some (JNum (num_of_int 1))) # ps) isAdmin"
proof -
  have "buildApiParams clock p q sp [] isAdmin = (''p'', Some (JNum p)) # (''page_size'', Some (JNum q)) # filter_params clock sp isAdmin" for p q
    by (simp add: buildApiParams_def filter_params_def)
  then show ?thesis using column_filters_nothing_new [of clock page pageSize sp isAdmin] by (auto simp: CommonLogsStats_def)
qed

subsection \<open>From the filter bar to the request\<close>

text \<open>What a field holds.\<close>

definition typed_in :: "string \<Rightarrow> LogFilters \<Rightarrow> string" where
  "typed_in f fs = (case oget (ftexts fs) f of Some s \<Rightarrow> s | None \<Rightarrow> [])"

definition ask :: "string \<Rightarrow> string \<Rightarrow> (string \<times> string) list" where
  "ask k s = (if s \<noteq> [] then [(k, s)] else [])"

text \<open>The query that a bar stands for, with times \<open>a\<close> and \<open>b\<close>.\<close>

definition asked_for :: "bool \<Rightarrow> FilterBar \<Rightarrow> int \<Rightarrow> int \<Rightarrow> (string \<times> string) list" where
  "asked_for isAdmin bar a b =
     (let fs = barFilters bar
      in [(''p'', ''1''), (''page_size'', ''20'')] @ ask ''type'' (logType bar) @ ask ''model_name'' (typed_in ''model'' fs) @
         ask ''token_name'' (typed_in ''token'' fs) @ ask ''group'' (typed_in ''group'' fs) @
         (if isAdmin \<and> typed_in ''channel'' fs \<noteq> [] then [(''channel'', js_String (number_or_0 (typed_in ''channel'' fs)))] else []) @
         (if isAdmin then ask ''username'' (typed_in ''username'' fs) else []) @ ask ''request_id'' (typed_in ''requestId'' fs) @
         [(''start_timestamp'', show_num (num_of_int (a div 1000))), (''end_timestamp'', show_num (num_of_int (b div 1000)))])"

lemma opt_text_typed: "opt_text k f fs = (if typed_in f fs \<noteq> [] then [(k, JStr (typed_in f fs))] else [])"
  by (auto simp: opt_text_def typed_in_def split: option.splits)

lemma oget_if_cons: "oget ((if c then [(k, v)] else []) @ r) k' = (if c \<and> k = k' then Some v else oget r k')"
  by simp

lemma applied_search:
  assumes "startTime (barFilters bar) = Some a" "endTime (barFilters bar) = Some b" "logType bar \<in> {[]} \<union> set logTypeValues"
  obtains sp where "usageLogsSearchSchema (applyBar bar) = Some sp"
    "oget sp ''startTime'' = Some (JNum (num_of_int a))" "oget sp ''endTime'' = Some (JNum (num_of_int b))"
    "oget sp ''type'' = (if logType bar \<noteq> [] then Some (JArr [JStr (logType bar)]) else None)"
    "\<And>k. k \<in> {''model'', ''token'', ''channel'', ''group'', ''username'', ''requestId''} \<Longrightarrow>
       oget sp k = (if typed_in k (barFilters bar) \<noteq> [] then Some (JStr (typed_in k (barFilters bar))) else None)"
proof -
  let ?s = "applyBar bar" and ?t = "\<lambda>k. typed_in k (barFilters bar)"
  have o: "oget ?s ''startTime'' = Some (JNum (num_of_int a))" "oget ?s ''endTime'' = Some (JNum (num_of_int b))"
    "oget ?s ''page'' = Some (JNum (num_of_int 1))" "oget ?s ''pageSize'' = None" "oget ?s ''filter'' = None"
    "oget ?s ''type'' = (if logType bar \<noteq> [] then Some (JArr [JStr (logType bar)]) else None)"
    by (simp_all add: applyBar_def buildSearchParams_def opt_text_typed opt_time_def assms(1,2) oget_if_cons del: map_of_append)
  have t: "oget ?s k = (if ?t k \<noteq> [] then Some (JStr (?t k)) else None)"
    if "k \<in> {''model'', ''token'', ''channel'', ''group'', ''username'', ''requestId''}" for k
    using that by (elim insertE emptyE) (simp_all add: applyBar_def buildSearchParams_def opt_text_typed opt_time_def assms(1,2) oget_if_cons del: map_of_append)
  have st: "schema_text ?s k = (if ?t k \<noteq> [] then [(k, JStr (?t k))] else [])"
    if "k \<in> {''model'', ''token'', ''channel'', ''group'', ''username'', ''requestId''}" for k
    using t [OF that] by (simp add: schema_text_def)
  have ty: "schema_types ?s = (if logType bar \<noteq> [] then [(''type'', JArr [JStr (logType bar)])] else [])"
    using assms(3) by (auto simp: schema_types_def o)
  define sp where "sp = schema_number ?s ''page'' 1 @ schema_number ?s ''pageSize'' 20 @ schema_types ?s @
      concat (map (schema_text ?s) [''filter'', ''model'', ''token'', ''channel'', ''group'', ''username'', ''requestId'']) @
      [(''startTime'', JNum (num_of_int a))] @ [(''endTime'', JNum (num_of_int b))]"
  have "usageLogsSearchSchema ?s = Some sp" by (simp add: usageLogsSearchSchema_def schema_time_def o sp_def)
  moreover have "oget sp ''startTime'' = Some (JNum (num_of_int a))" "oget sp ''endTime'' = Some (JNum (num_of_int b))"
    "oget sp ''type'' = (if logType bar \<noteq> [] then Some (JArr [JStr (logType bar)]) else None)"
    by (simp_all add: sp_def schema_number_def o ty st schema_text_def [of _ "''filter''"] oget_if_cons del: map_of_append)
  moreover have "oget sp k = (if ?t k \<noteq> [] then Some (JStr (?t k)) else None)"
    if "k \<in> {''model'', ''token'', ''channel'', ''group'', ''username'', ''requestId''}" for k
    using that by (elim insertE emptyE) (simp_all add: sp_def schema_number_def o ty st schema_text_def [of _ "''filter''"] oget_if_cons del: map_of_append)
  ultimately show ?thesis by (rule that)
qed

lemma spread_fresh: "distinct (map fst b) \<Longrightarrow> fst ` set b \<inter> fst ` set a = {} \<Longrightarrow> spread a b = a @ b"
proof (induction b arbitrary: a)
  case (Cons p b)
  have new: "oput k v ob = ob @ [(k, v)]" if "k \<notin> fst ` set ob" for k and v :: 'a and ob
    using that by (induction k v ob rule: oput.induct) auto
  have "fst p \<notin> fst ` set a" using Cons.prems(2) by auto
  then have "spread a (p # b) = spread (a @ [p]) b" by (simp add: spread_def new)
  also have "\<dots> = (a @ [p]) @ b" using Cons.prems by (intro Cons.IH) auto
  finally show ?case by simp
qed (simp add: spread_def)

lemma filter_keys:
  "distinct (map fst (filter_params clock sp isAdmin))" "''p'' \<notin> fst ` set (filter_params clock sp isAdmin)"
  "''page_size'' \<notin> fst ` set (filter_params clock sp isAdmin)"
proof -
  let ?all = "[''type''] @ [''model_name''] @ [''token_name''] @ [''group''] @ [''channel''] @ [''username''] @ [''request_id''] @
    [''start_timestamp'', ''end_timestamp'']"
  have o: "subseq (map fst (opt_param sp f k g)) [k]" for f k g by (simp add: opt_param_def)
  have t: "map fst (buildTimeRangeParams clock sp m) = [''start_timestamp'', ''end_timestamp'']" for m
    by (simp add: buildTimeRangeParams_def Let_def split: prod.splits)
  have c: "subseq (map fst (if isAdmin then opt_param sp f k g else [])) [k]" for f k g by (simp add: o)
  note m = list_emb_append_mono
  have "subseq (map fst (filter_params clock sp isAdmin)) ?all"
    unfolding filter_params_def map_append t
    by (rule m [OF o m [OF o m [OF o m [OF o m [OF c m [OF c m [OF o subseq_order.order_refl]]]]]]])
  then obtain L where L: "subseq (map fst (filter_params clock sp isAdmin)) L" "L = ?all" by blast
  have all: "distinct L" "''p'' \<notin> set L" "''page_size'' \<notin> set L" by (simp_all add: L(2))
  obtain N where N: "map fst (filter_params clock sp isAdmin) = nths L N" using L(1) by (auto simp only: subseq_conv_nths)
  show "distinct (map fst (filter_params clock sp isAdmin))" unfolding N by (rule distinct_nthsI [OF all(1)])
  have "fst ` set (filter_params clock sp isAdmin) \<subseteq> set L" using set_nths_subset [of L N] by (simp only: N [symmetric] list.set_map)
  with all show "''p'' \<notin> fst ` set (filter_params clock sp isAdmin)" "''page_size'' \<notin> fst ` set (filter_params clock sp isAdmin)"
    by blast+
qed

lemma page_query:
  "log_query ((''p'', Some (JNum (num_of_int 1))) # (''page_size'', Some (JNum (num_of_int 20))) # filter_params clock sp isAdmin) =
     (''p'', ''1'') # (''page_size'', ''20'') # buildQueryParams (filter_params clock sp isAdmin)"
proof -
  let ?h = "[(''p'', Some (JNum (num_of_int 1))), (''page_size'', Some (JNum (num_of_int 20)))]"
  have n: "number_param (?h @ ps) ''p'' 1 = Some (JNum (num_of_int 1))" "number_param (?h @ ps) ''page_size'' 20 = Some (JNum (num_of_int 20))" for ps
    by (simp_all add: number_param_def)
  have "spread ?h (?h @ filter_params clock sp isAdmin) = spread ?h (filter_params clock sp isAdmin)" by (simp add: spread_def)
  also have "\<dots> = ?h @ filter_params clock sp isAdmin" using filter_keys [of clock sp isAdmin] by (intro spread_fresh) auto
  finally have "log_query (?h @ filter_params clock sp isAdmin) = buildQueryParams (?h @ filter_params clock sp isAdmin)"
    unfolding log_query_def n by simp
  moreover have "show_num (num_of_int 1) = ''1''" "show_num (num_of_int 20) = ''20''" by code_simp+
  ultimately show ?thesis by (simp add: buildQueryParams_def query_entry_def List.map_filter_simps)
qed

lemma rat_of_int: "rat_of (num_of_int i) = of_int i"
proof -
  have "0 \<le> e \<Longrightarrow> rat_of (canon m e) = of_int (m * 10 ^ nat e)" for m e
  proof (induction m e rule: canon.induct)
    case (1 m e)
    then show ?case
    proof (cases "m \<noteq> 0 \<and> m mod 10 = 0")
      case True
      then have m: "m = 10 * (m div 10)" by auto
      have "canon m e = canon (m div 10) (e + 1)" using True by (subst canon.simps) simp
      moreover have "rat_of (canon (m div 10) (e + 1)) = of_int (m div 10 * 10 ^ nat (e + 1))" using 1 True by simp
      moreover have "m div 10 * 10 ^ nat (e + 1) = m * 10 ^ nat e"
        using 1(2) by (subst (2) m) (simp add: nat_add_distrib)
      ultimately show ?thesis by simp
    next
      case False
      then show ?thesis using 1(2) by (subst canon.simps) (auto simp: rat_of_def)
    qed
  qed
  then show ?thesis by (simp add: num_of_int_def)
qed

lemma mant_of_int: "mant (num_of_int i) = 0 \<longleftrightarrow> i = 0"
proof -
  have "mant (canon m e) = 0 \<longleftrightarrow> m = 0" for m e
    by (induction m e rule: canon.induct) (subst canon.simps, auto simp: mod_eq_0_iff_dvd)
  then show ?thesis by (simp add: num_of_int_def)
qed

lemma seconds_of_int: "timestampToSeconds (num_of_int i) = num_of_int (i div 1000)"
proof -
  have "\<lfloor>of_int i / (1000 :: rat)\<rfloor> = i div 1000" using floor_divide_of_int_eq [of i 1000, where ?'a = rat] by simp
  then show ?thesis by (simp add: timestampToSeconds_def rat_of_int)
qed

lemma query_append: "buildQueryParams (a @ b) = buildQueryParams a @ buildQueryParams b"
  by (simp add: buildQueryParams_def List.map_filter_def)

lemma query_text:
  assumes "oget sp f = (if s \<noteq> [] then Some (JStr s) else None)"
  shows "buildQueryParams (opt_param sp f k as_text) = ask k s"
proof (cases s)
  case (Cons c t)
  then show ?thesis
    using assms by (simp add: opt_param_def truthy_at_def as_text_def ask_def buildQueryParams_def query_entry_def List.map_filter_simps)
qed (use assms in \<open>simp add: opt_param_def truthy_at_def ask_def buildQueryParams_def List.map_filter_simps\<close>)

lemma query_channel:
  assumes "oget sp f = (if s \<noteq> [] then Some (JStr s) else None)"
  shows "buildQueryParams (opt_param sp f k (\<lambda>v. Some (number_or_0 (js_String v)))) =
    (if s \<noteq> [] then [(k, js_String (number_or_0 s))] else [])"
proof -
  have "query_entry (k, Some (number_or_0 s)) = Some (k, js_String (number_or_0 s))" for s
    by (simp add: number_or_0_def query_entry_def split: jsfloat.splits)
  then show ?thesis
    using assms by (simp add: opt_param_def truthy_at_def buildQueryParams_def List.map_filter_simps)
qed

lemma query_type:
  assumes "oget sp ''type'' = (if t \<noteq> [] then Some (JArr [JStr t]) else None)" "t \<in> {[]} \<union> set logTypeValues"
  shows "buildQueryParams (opt_param sp ''type'' ''type'' processType) = ask ''type'' t"
proof (cases "t = []")
  case False
  then have "t \<in> set logTypeValues" using assms(2) by simp
  moreover have "\<forall>t \<in> set logTypeValues. (case js_Number t of Some n \<Rightarrow> show_num n = t | None \<Rightarrow> False)" by code_simp
  ultimately obtain n where "js_Number t = Some n" "show_num n = t" by (cases "js_Number t") auto
  then show ?thesis
    using assms(1) False by (simp add: opt_param_def truthy_at_def processType_def ask_def buildQueryParams_def query_entry_def List.map_filter_simps)
qed (use assms in \<open>simp add: opt_param_def truthy_at_def ask_def buildQueryParams_def List.map_filter_simps\<close>)

lemma query_times:
  assumes "oget sp ''startTime'' = Some (JNum (num_of_int a))" "oget sp ''endTime'' = Some (JNum (num_of_int b))" "a \<noteq> 0" "b \<noteq> 0"
  shows "buildQueryParams (buildTimeRangeParams clock sp False) =
    [(''start_timestamp'', show_num (num_of_int (a div 1000))), (''end_timestamp'', show_num (num_of_int (b div 1000)))]"
  using assms
  by (simp add: buildTimeRangeParams_def getTimestamp_def mant_of_int seconds_of_int buildQueryParams_def query_entry_def List.map_filter_simps)

text \<open>
  C18: What is asked of the server for the first page after a click on search is exactly what the filter bar shows: a parameter for
  every filter that is not empty, with its text (the channel as a number), the type, and both times in seconds; user name and
  channel only for an administrator, at the path of all logs instead of the own ones.
\<close>
theorem filter_bar_requested:
  assumes "startTime (barFilters bar) = Some a" "endTime (barFilters bar) = Some b" "a \<noteq> 0" "b \<noteq> 0"
    and "logType bar \<in> {[]} \<union> set logTypeValues"
  shows "\<exists>sp. usageLogsSearchSchema (applyBar bar) = Some sp \<and>
    fetchLogsByCategory clock Common isAdmin (num_of_int 1) (num_of_int 20) sp (logColumnFilters isAdmin sp) =
      (if isAdmin then ''/api/log'' else ''/api/log/self'') @ CHR ''?'' # search_text (asked_for isAdmin bar a b)"
proof -
  obtain sp where sp: "usageLogsSearchSchema (applyBar bar) = Some sp"
    "oget sp ''startTime'' = Some (JNum (num_of_int a))" "oget sp ''endTime'' = Some (JNum (num_of_int b))"
    "oget sp ''type'' = (if logType bar \<noteq> [] then Some (JArr [JStr (logType bar)]) else None)"
    "\<And>k. k \<in> {''model'', ''token'', ''channel'', ''group'', ''username'', ''requestId''} \<Longrightarrow>
       oget sp k = (if typed_in k (barFilters bar) \<noteq> [] then Some (JStr (typed_in k (barFilters bar))) else None)"
    using applied_search [OF assms(1,2,5)] by metis
  have t: "buildQueryParams (opt_param sp k k' as_text) = ask k' (typed_in k (barFilters bar))"
    if "k \<in> {''model'', ''token'', ''channel'', ''group'', ''username'', ''requestId''}" for k k'
    by (rule query_text [OF sp(5) [OF that]])
  have c: "buildQueryParams (opt_param sp ''channel'' ''channel'' (\<lambda>v. Some (number_or_0 (js_String v)))) =
      (if typed_in ''channel'' (barFilters bar) \<noteq> []
       then [(''channel'', js_String (number_or_0 (typed_in ''channel'' (barFilters bar))))] else [])"
    by (rule query_channel [OF sp(5)]) simp
  have "buildQueryParams (filter_params clock sp isAdmin) = drop 2 (asked_for isAdmin bar a b)"
    unfolding filter_params_def query_append query_type [OF sp(4) assms(5)] query_times [OF sp(2,3) assms(3,4)]
    by (cases isAdmin) (simp_all add: t c asked_for_def Let_def buildQueryParams_def [of "[]"] List.map_filter_simps)
  then have "log_query (buildApiParams clock (num_of_int 1) (num_of_int 20) sp (logColumnFilters isAdmin sp) isAdmin) = asked_for isAdmin bar a b"
    unfolding column_filters_nothing_new page_query by (simp add: asked_for_def Let_def)
  then show ?thesis using sp(1) by (auto simp: fetchLogsByCategory_def fetchLogs_def buildApiPath_def)
qed

definition demo_bar :: FilterBar where
  "demo_bar = \<lparr>barFilters = handleChange ''model'' ''gpt 4'' (\<lparr>startTime = Some 1700000000500, endTime = Some 1700003600000, ftexts = []\<rparr>),
     logType = ''2''\<rparr>"

lemma filter_bar_requested_witness:
  "\<exists>sp. usageLogsSearchSchema (applyBar demo_bar) = Some sp \<and>
    fetchLogsByCategory (0, 0) Common False (num_of_int 1) (num_of_int 20) sp (logColumnFilters False sp) =
      ''/api/log/self?p=1&page_size=20&type=2&model_name=gpt+4&start_timestamp=1700000000&end_timestamp=1700003600''"
proof -
  have b: "startTime (barFilters demo_bar) = Some 1700000000500" "endTime (barFilters demo_bar) = Some 1700003600000"
    "logType demo_bar \<in> {[]} \<union> set logTypeValues"
    by (simp_all add: demo_bar_def handleChange_def logTypeValues_def)
  have q: "search_text (asked_for False demo_bar 1700000000500 1700003600000) =
      ''p=1&page_size=20&type=2&model_name=gpt+4&start_timestamp=1700000000&end_timestamp=1700003600''"
    by code_simp
  show ?thesis using filter_bar_requested [OF b(1,2) _ _ b(3), of "(0, 0)" False] by (simp add: q)
qed

subsection \<open>Filters that are cleared\<close>

text \<open>
  In the drawing and task logs, clearing a filter in the dialog and applying leaves it in the URL, and the table
  keeps asking for it: the filters that are set are merged over the old search record, and an empty one is not set.
\<close>
theorem cleared_filter_stays:
  assumes "cat \<noteq> Common" "oget prev ''filter'' = Some (JStr t)" "t \<noteq> []"
  shows "let fs' = handleChange (if cat = Drawing then ''mjId'' else ''taskId'') '''' fs;
             sp = applyDialog cat prev fs'
         in oget sp ''filter'' = Some (JStr t) \<and>
            oget (task_params clock cat page pageSize sp) (if cat = Drawing then ''mj_id'' else ''task_id'') = Some (Some (JStr t))"
proof -
  define fs' where "fs' = handleChange (if cat = Drawing then ''mjId'' else ''taskId'') '''' fs"
  have "opt_text ''filter'' (if cat = Drawing then ''mjId'' else ''taskId'') fs' = []"
    by (simp add: fs'_def handleChange_def opt_text_def)
  then have b: "buildSearchParams fs' cat = opt_time ''startTime'' (startTime fs') @ opt_time ''endTime'' (endTime fs') @ opt_text ''channel'' ''channel'' fs'"
    using assms(1) by (cases cat) (simp_all add: buildSearchParams_def)
  have "owf (buildSearchParams fs' cat)" "oget (buildSearchParams fs' cat) ''filter'' = None"
    unfolding b by (auto simp: opt_time_def opt_text_typed owf_def split: option.splits)
  then have k: "oget (applyDialog cat prev fs') ''filter'' = Some (JStr t)"
    using assms(2) by (simp add: applyDialog_def oget_spread)
  then show ?thesis
    unfolding fs'_def [symmetric] Let_def task_params_def by (simp add: spread_def)
qed

lemma cleared_filter_stays_witness:
  "oget (applyDialog Drawing [(''filter'', JStr ''mj-17'')] (handleChange ''mjId'' '''' (default_filters (0, 0)))) ''filter'' = Some (JStr ''mj-17'')"
  using cleared_filter_stays [of Drawing "[(''filter'', JStr ''mj-17'')]" "''mj-17''" "default_filters (0, 0)"]
  by (simp add: Let_def)

text \<open>
  The bar of the common logs builds its record afresh, but keeps showing a filter of a URL that was left: going back to a URL without
  the filter merges nothing over it, and the next search sets it again.
\<close>

lemma left_filter_returns:
  assumes "\<And>k. oget sp k = None" "typed_in ''model'' (barFilters bar) = m" "m \<noteq> []"
  shows "oget (applyBar (syncBar sp bar)) ''model'' = Some (JStr m)"
proof -
  have n: "truthy_at sp k = False" "url_time sp k old = old" for k old using assms(1) by (simp_all add: truthy_at_def url_time_def)
  have "fold (merge_text sp) ks ts = ts" for ks ts by (induction ks arbitrary: ts) (simp_all add: merge_text_def n)
  then have "typed_in f (barFilters (syncBar sp bar)) = typed_in f (barFilters bar)" for f
    by (simp add: syncBar_def merge_url_def typed_in_def)
  then show ?thesis
    using assms(2,3) by (simp add: applyBar_def buildSearchParams_def opt_text_typed opt_time_def oget_if_cons map_add_def split: option.splits)
qed

subsection \<open>The prices of a logged request\<close>

text \<open>
  For a request billed with an expression of the visual editor, the log shows the tiers as they were entered, the tier whose label the
  server reports (of several with that label the first) and its prices above zero, those of the cache only if the request used it.
\<close>
theorem logged_tier_shown:
  assumes "ts \<noteq> []" "\<forall>t \<in> set ts. plain_tier t"
    and "q \<in> set (config_parts ts)" "fst (snd q) = l" "l \<noteq> []"
    and "\<forall>p \<in> set (takeWhile (\<lambda>p. p \<noteq> q) (config_parts ts)). fst (snd p) \<noteq> l"
  shows "getTieredBillingSummary (Some \<lparr>billing_mode = ''tiered_expr'',
      expr_b64 = Some (btoa (generateExprFromVisualConfig (Some ts))), matched_tier = Some l, cache_counts = counts\<rparr>) =
    Some (map shown_part (config_parts ts), shown_part q, price_entries (\<exists>n \<in> set counts. 0 < n) (shown_part q))"
proof -
  let ?e = "generateExprFromVisualConfig (Some ts)"
  have e: "?e \<noteq> []" using generated_start [OF assms(1)] by blast
  have "btoa ?e \<noteq> []" using e by (cases ?e rule: btoa.cases) simp_all
  then have d: "decodeBillingExprB64 (Some (btoa ?e)) = ?e" by (simp add: decodeBillingExprB64_def atob_btoa)
  have f: "find (\<lambda>tier. parsedLabel tier = l) (map shown_part ps) = Some (shown_part q)"
    if "q \<in> set ps" "\<forall>p \<in> set (takeWhile (\<lambda>p. p \<noteq> q) ps). fst (snd p) \<noteq> l" for ps
    using that
  proof (induction ps)
    case (Cons p ps)
    then show ?case using assms(4) by (cases "p = q") (auto simp: shown_part_def)
  qed simp
  obtain p ps where ps: "config_parts ts = p # ps" using assms(3) by (cases "config_parts ts") auto
  have "resolveMatchedTier (map shown_part (config_parts ts)) (Some l) = Some (shown_part q)"
    using f [OF assms(3,6)] assms(5) ps by (simp add: resolveMatchedTier_def)
  then show ?thesis
    using e d tiers_of_generated [OF assms(1,2)] by (simp add: getTieredBillingSummary_def hasAnyCacheTokens_def)
qed

lemma logged_tier_shown_witness:
  "map_option (\<lambda>(_, tier, es). (parsedLabel tier, es)) (getTieredBillingSummary (Some \<lparr>billing_mode = ''tiered_expr'',
      expr_b64 = Some (btoa (generateExprFromVisualConfig (Some demo_tiers))), matched_tier = Some ''short'', cache_counts = [0, 0]\<rparr>)) =
    Some (''short'', [(''inputPrice'', ''Input'', Dec 8 (-1)), (''outputPrice'', ''Output'', Dec 2 0)])"
proof -
  define q where "q = hd (config_parts demo_tiers)"
  have q: "q \<in> set (config_parts demo_tiers)" "fst (snd q) = ''short''" "takeWhile (\<lambda>p. p \<noteq> q) (config_parts demo_tiers) = []"
    unfolding q_def by code_simp+
  have e: "price_entries False (shown_part q) = [(''inputPrice'', ''Input'', Dec 8 (-1)), (''outputPrice'', ''Output'', Dec 2 0)]"
    unfolding q_def by code_simp
  have n: "\<not> (\<exists>n \<in> set [0, 0]. 0 < (n :: int))" by simp
  show ?thesis
    using logged_tier_shown [OF _ demo_plain q(1,2), of "[0, 0]"] q(2,3) e n by (simp add: demo_tiers_def shown_part_def)
qed

end
