(* ===== verification/Spec2Isabelle.thy ===== *)
theory Spec2Isabelle
  imports PlaygroundMessages PlaygroundChat HttpStatusRules StatusRisk ChannelModels ChannelUtils ChannelForm
    BillingRules HtmlSanitizer SidebarConfig SecureVerification ApiClient ChannelActions Notifications SettingsForm
    TableUrlState PricingCatalog DeploymentSettings TierTypes TierPresets
    ContentSections GroupRatios RatioSettings ModelRatios RatioSync
    Currency ApiKeys KeyVault ChatLinks ChatSettings
    RedemptionCodes UserForms UsageLogs
begin

text \<open>
  A verification library for the web client of heqiuyu-api (\<^verbatim>\<open>src/web/default/src\<close>, TypeScript and React).
  The program is an administration console and chat page in front of a Go server. The library models its own
  logic: the modules under \<^verbatim>\<open>lib\<close>, \<^verbatim>\<open>hooks\<close>, \<^verbatim>\<open>stores\<close> and
  \<^verbatim>\<open>features\<close> that decide what is sent, stored, shown and refused. File names below are
  relative to that directory.

  \<^bold>\<open>The language.\<close> \<open>JsPrelude\<close> has the string, array and object operations of the standard library that the sources
  call, with the lemmas the components share; \<open>JsJson\<close> has JSON numbers (decimal mantissa and exponent), \<open>JSON.parse\<close> and
  \<open>JSON.stringify\<close>, and \<open>JsJsonFacts\<close> proves that parsing undoes printing on well-formed values; \<open>JsValues\<close> has
  indented JSON text with its round trip, property access and \<open>parseFloat\<close>; \<open>JsStorage\<close> has
  \<open>localStorage\<close>, whose calls may throw; \<open>JsNumber\<close> has \<open>Number\<close> on texts; \<open>JsDouble\<close> has the rounding of double operations
  and its error bound. Strings are lists of code units below U+0100 (\<open>HttpStatusRules\<close>, which
  needs a character above that, uses lists of numbers). A JavaScript object is an association list with one entry per key.
  An exception, an early return and a rejected promise are values: options, sums and the outcomes of \<open>ApiClient\<close>. Numbers
  are integers where the source counts, decimals where it reads JSON, rationals for prices (with the rounding of doubles where a result depends on it), and 32-bit words where it uses the bit operators.

  \<^bold>\<open>Playground\<close> (\<^verbatim>\<open>features/playground\<close>). \<open>PlaygroundMessages\<close>: the message data type and the functions of
  \<^verbatim>\<open>lib/message-utils.ts\<close>; its main results say that a streamed answer with reasoning or without think tags does not depend on how the stream is
  cut (one with an empty think section does), and what the splitter of think tags returns. \<open>PlaygroundStorage\<close>: \<^verbatim>\<open>lib/storage.ts\<close> and \<^verbatim>\<open>hooks/use-playground-state.ts\<close>, with the JSON form of
  messages and what survives a reload. \<open>PlaygroundChat\<close>: payloads, the SSE listeners, the chat handler and the page as one
  session relation; events and replies come in any order, and the invariants hold in every reachable state.

  \<^bold>\<open>Channels\<close> (\<^verbatim>\<open>features/channels\<close>, \<^verbatim>\<open>features/models\<close>). \<open>HttpStatusRules\<close> parses and normalises status code rules
  (\<^verbatim>\<open>lib/http-status-code-rules.ts\<close>): the normal form is determined by the set of codes. \<open>StatusRisk\<close> is the redirect guard,
  \<open>ChannelModels\<close> the model mapping and the hook of upstream updates (a step relation with its busy flags), \<open>ChannelUtils\<close> the
  helpers of the table and the aggregation by tag (refined to one row per tag), \<open>ChannelForm\<close> the form and its payloads,
  \<open>ChannelActions\<close> every action of the two tables on top of \<open>ApiClient\<close> (\<^verbatim>\<open>lib/api.ts\<close>: interceptor, headers, shared GET
  requests, where the key of a request tells its URL and parameters). \<open>DeploymentSettings\<close>: the deployment page's settings, connection test and guard as a step relation. The locale \<open>operations\<close> is the contract of an action that sends one request; both tables interpret it.

  \<^bold>\<open>Pricing\<close> (\<^verbatim>\<open>features/pricing\<close>). \<open>BillingExpr\<close> has the parser and printer of request rules in
  billing expressions, \<open>BillingRules\<close> proves what is read back and what is not; \<open>PricingCatalog\<close> has the
  catalogue: filters, sorting, tags, the filters in the URL and the prices. \<open>TierExpr\<close> (\<^verbatim>\<open>lib/tier-expr.ts\<close>) has tiered prices,
  the expression generated from them and its parser, whose backtracking regular expressions run in \<open>JsRegex\<close>; \<open>TierFacts\<close> proves the
  round trip. \<open>TierCost\<close> has the estimator, with a lexer, a parser and an evaluator for the part of JavaScript that
  billing expressions use; \<open>TierEval\<close> proves that the generated text evaluates to the price of the first tier that applies, and \<open>TierTypes\<close>
  that well-typed expressions are estimated without an error. \<open>TierEditor\<close> (\<^verbatim>\<open>features/system-settings/models/tiered-pricing-editor.tsx\<close>)
  is the editor with its effects, commit by commit; \<open>TierPresets\<close> its presets. \<open>BillingTiers\<close> is the second reader of such expressions
  (\<open>parseTiersFromExpr\<close> of \<^verbatim>\<open>lib/billing-expr.ts\<close>), which the catalogue and the logs show tiers with.

  \<^bold>\<open>Console.\<close> \<open>SettingsForm\<close> (\<^verbatim>\<open>features/system-settings/hooks/use-settings-form.ts\<close>): flat options, their tree and the fields a
  submit sends. \<open>SidebarConfig\<close> (\<^verbatim>\<open>hooks/use-sidebar-config.ts\<close>, \<^verbatim>\<open>features/system-settings/maintenance/config.ts\<close>):
  what the sidebar shows. \<open>ContentSections\<close> (\<^verbatim>\<open>features/system-settings/content\<close>): the four editable lists of the dashboard, one state
  machine over four item types, with saves whose answers come late; the locale \<open>content_list\<close> is what it relies on in a form.
  \<open>OptionStore\<close> (\<^verbatim>\<open>features/system-settings/hooks/use-update-option.ts\<close>): one option sent to the server and the callbacks of its answer.
  \<open>SettingsJson\<close> (\<^verbatim>\<open>features/system-settings/utils\<close>): reading, validating, formatting and normalising JSON texts.
  \<open>RatioSettings\<close> and \<open>ModelRatios\<close> (\<^verbatim>\<open>features/system-settings/models\<close>): the forms of the ratios with what a save sends, and the
  table and dialog of model prices over ten dictionaries. \<open>RatioSync\<close> (\<^verbatim>\<open>features/system-settings/models/upstream-ratio-sync.tsx\<close>):
  prices taken over from other servers, from the selection of values to the ten options that a sync writes one after the other.
  \<open>GroupRatios\<close> (\<^verbatim>\<open>features/system-settings/models/group-ratio-visual-editor.tsx\<close>): the dictionaries of group ratios as JSON texts, refined to
  finite maps, and the dialogs that edit them. \<open>TableUrlState\<close> (\<^verbatim>\<open>hooks/use-table-url-state.ts\<close>): filters and page of a table in the URL. \<open>Notifications\<close>
  (\<^verbatim>\<open>hooks/use-notifications.ts\<close>, \<^verbatim>\<open>stores/notification-store.ts\<close>): unread counts and the 32-bit content hash.

  \<^bold>\<open>Keys, amounts and chat links.\<close> \<open>Currency\<close> (\<^verbatim>\<open>lib/currency.ts\<close>, \<^verbatim>\<open>lib/format.ts\<close>): the
  configuration of the display, amounts as texts and quotas typed as amounts, with the round trip of a quota under the
  rounding of doubles. \<open>ApiKeys\<close> (\<^verbatim>\<open>features/keys\<close>): the key
  form with its schema, the drawer as a state machine whose answers come late, and the actions on keys; \<open>KeyVault\<close>
  (\<^verbatim>\<open>features/keys/components/api-keys-provider.tsx\<close>): the cache of resolved keys as a step relation over an honest server. \<open>WebText\<close> has the
  standard library's base64, percent encoding and query texts, with decoders that read them back; \<open>ChatLinks\<close> (\<^verbatim>\<open>features/chat\<close>, the sidebar
  and the row menu of keys) fills chat links with them, and \<open>ChatSettings\<close>
  (\<^verbatim>\<open>features/system-settings/content\<close>) is the editor of the presets, refined to a list.

  \<^bold>\<open>Users, codes and logs.\<close> \<open>EditDrawers\<close> has what the drawers that edit one row share: a form filled by an answer. \<open>RedemptionCodes\<close>
  (\<^verbatim>\<open>features/redemption-codes\<close>) and \<open>UserForms\<close> (\<^verbatim>\<open>features/users\<close>): the form, its payload and schema, the drawer as a step
  relation over late answers and renders of the page, the dialog that adjusts a quota and the actions of a row. \<open>UsageLogs\<close>
  (\<^verbatim>\<open>features/usage-logs\<close>): from the filters typed on the page through the URL and the schema of the route to the query of the table and
  of its statistics, and what is shown for an entry, with the tiers it was billed by.

  \<^bold>\<open>Security.\<close> \<open>HtmlSanitizer\<close> (\<^verbatim>\<open>lib/sanitize-html.ts\<close>, \<^verbatim>\<open>lib/redirect.ts\<close>): the sanitiser as passes over the parsed tree,
  equal to one recursive pass, and which URLs and redirects pass. \<open>SecureVerification\<close>
  (\<^verbatim>\<open>features/auth/secure-verification\<close>): the hook as a step relation; every protected call is either the first attempt of \<open>withVerification\<close>, which no
  verification precedes, or follows a successful verification of its own.

  \<^bold>\<open>Interfaces.\<close> The locales state what one part relies on in another and are interpreted on the model's own definitions:
  normal forms and projections (\<open>JsPrelude\<close>), text codecs and persisted slots (\<open>JsJsonFacts\<close>, \<open>JsValues\<close>, \<open>JsStorage\<close>, \<open>WebText\<close>), JSON texts up to their value (\<open>SettingsJson\<close>), edited lists (\<open>ContentSections\<close>), the
  one-request operations (\<open>ChannelActions\<close>), and forms filled by an answer (\<open>EditDrawers\<close>; the drawers of keys, codes and users interpret it).

  \<^bold>\<open>Parameters.\<close> The server and axios (an outcome for every request, in any order), the browser's HTML parser and serialiser, the SSE
  library, React's state setters (applied in order), the form library (values and marks), the router (a search record), the ICU order of
  \<open>localeCompare\<close>, the clock with the start of its day, and fresh identifiers. Where a result needs a fact about one of them, it is a hypothesis with a witness.

  \<^bold>\<open>Fuel and termination.\<close> The JSON parser has fuel: a call consumes at least one character before it calls itself, and
  \<open>json_parse\<close> gives it more than the length of its text. The parser of billing expressions has eight steps for every token, which
  is enough for every expression the editor generates (\<open>TierEval\<close>). All other functions are structurally recursive or have a measure.

  \<^bold>\<open>Not modelled.\<close> The Go server (another language; the client sees its replies); rendering in JSX, columns and options of select boxes;
  generated routes; request wrappers of one line; translations; charts and animation; formatting by Intl and dayjs; the WebAuthn and OAuth
  ceremonies, which the browser runs; the wallet's payment pages and the form of model metadata.
\<close>

end
